(* ===== verification/OS_Prelude.thy ===== *)
theory OS_Prelude
  imports Main "HOL-Library.Word" "HOL-Library.Monad_Syntax"
begin

text \<open>
  Shared vocabulary of the development: the C integer types of
  \<^verbatim>\<open>src/ucos/PORT/os_cpu.h\<close> as words, the collections of simplification rules the
  component theories extend, facts on the option monad (an operation that dereferences a
  null or foreign pointer, or indexes outside an array, is \<open>None\<close>), and facts on
  the bits of 8-bit values that the priority bitmaps and the task status rest on.
\<close>

unbundle bit_operations_syntax

type_synonym u8 = "8 word"
type_synonym u16 = "16 word"
type_synonym u32 = "32 word"

named_theorems os_frame \<open>which state fields an operation leaves alone\<close>
named_theorems os_ready \<open>effect of the primitives on the ready set and the wait sets\<close>
named_theorems os_bits \<open>mask tests as statements on single bits\<close>

subsection \<open>The option monad\<close>

lemma bind_Some_iff: "Option.bind m f = Some r \<longleftrightarrow> (\<exists>x. m = Some x \<and> f x = Some r)"
  by (cases m) auto

lemma bind_SomeE:
  assumes "Option.bind m f = Some r"
  obtains x where "m = Some x" and "f x = Some r"
  using assms by (cases m) auto

text \<open>\<open>guard b\<close> is a run-time requirement of the C code: where it fails, behaviour is undefined.\<close>

definition guard :: "bool \<Rightarrow> unit option" where
  "guard b = (if b then Some () else None)"

lemma guard_True [simp]: "guard True = Some ()"
  by (simp add: guard_def)

lemma guard_False [simp]: "guard False = None"
  by (simp add: guard_def)

lemma guard_eq_Some [simp]: "guard b = Some u \<longleftrightarrow> b"
  by (simp add: guard_def)

lemma bind_guard [simp]: "Option.bind (guard b) f = (if b then f () else None)"
  by simp

subsection \<open>Bits of small words\<close>

lemma all_less_8: "(\<forall>n<8. P n) \<longleftrightarrow> P 0 \<and> P 1 \<and> P 2 \<and> P 3 \<and> P 4 \<and> P 5 \<and> P 6 \<and> P (7::nat)"
  by (simp add: All_less_Suc numeral_eq_Suc conj_ac)

lemma u8_eq_iff: "(a::u8) = b \<longleftrightarrow> (\<forall>n<8. bit a n = bit b n)"
  by (auto simp: bit_eq_iff dest: bit_imp_le_length)

lemma u8_eq_0_iff: "(a::u8) = 0 \<longleftrightarrow> (\<forall>n<8. \<not> bit a n)"
  by (simp add: u8_eq_iff)

lemma u8_bit_less: "bit (a::u8) n \<Longrightarrow> n < 8"
  using bit_imp_le_length by fastforce

text \<open>\<open>1uL << k\<close>, cut down to a byte.\<close>

definition shl1 :: "u8 \<Rightarrow> u8" where
  "shl1 k = push_bit (unat k) 1"

lemma bit_shl1: "bit (shl1 k) n \<longleftrightarrow> n = unat k \<and> n < 8"
  unfolding shl1_def by (auto simp only: bit_push_bit_iff bit_1_iff) auto

lemma shl1_neq_0: "k < 8 \<Longrightarrow> shl1 k \<noteq> 0"
  by (auto simp: u8_eq_0_iff bit_shl1 word_less_nat_alt)

text \<open>The tests the kernel makes on the status byte of a task (bit 3: suspended, bits 0, 1, 2,
  4 and 5: pending on an event, bit 7: pending on several).\<close>

lemma and_suspend_iff [os_bits]: "(x::u8) AND 0x08 = 0 \<longleftrightarrow> \<not> bit x 3"
  unfolding u8_eq_0_iff all_less_8 bit_and_iff by simp

lemma and_pend_any_iff [os_bits]:
  "(x::u8) AND 0x37 = 0 \<longleftrightarrow> \<not> bit x 0 \<and> \<not> bit x 1 \<and> \<not> bit x 2 \<and> \<not> bit x 4 \<and> \<not> bit x 5"
  unfolding u8_eq_0_iff all_less_8 bit_and_iff by simp

lemma and_multi_iff [os_bits]: "(x::u8) AND 0x80 = 0 \<longleftrightarrow> \<not> bit x 7"
  unfolding u8_eq_0_iff all_less_8 bit_and_iff by simp

lemmas [os_bits] = bit_or_iff bit_and_iff bit_not_iff

subsection \<open>Priorities as row and column\<close>

text \<open>The kernel splits a priority below 64 into a row \<open>prio >> 3\<close> and a column
  \<open>prio & 7\<close> of an 8 by 8 bitmap.\<close>

lemma unat_row: "unat (drop_bit 3 (p::u8)) = unat p div 8"
  unfolding unat_drop_bit_eq by (simp add: drop_bit_eq_div)

lemma unat_col: "unat ((p::u8) AND 7) = unat p mod 8"
proof -
  have "p AND 7 = take_bit 3 p"
    by (simp add: take_bit_eq_mask mask_eq_exp_minus_1)
  then show ?thesis
    by (simp only: unsigned_take_bit_eq) (simp add: take_bit_eq_mod)
qed

lemma row_less: "(p::u8) < 64 \<Longrightarrow> drop_bit 3 p < 8"
  by (simp add: word_less_nat_alt unat_row less_mult_imp_div_less)

lemma col_less: "(p::u8) AND 7 < 8"
  by (simp add: word_less_nat_alt unat_col)

lemma row_col_inj: "drop_bit 3 (p::u8) = drop_bit 3 q \<Longrightarrow> p AND 7 = q AND 7 \<Longrightarrow> p = q"
  by (metis unat_row unat_col div_mult_mod_eq word_unat_eq_iff)

lemma unat_row_col:
  assumes "(y::u8) < 8" and "x < 8"
  shows "unat (push_bit 3 y + x) = 8 * unat y + unat x"
proof -
  have "unat y < 8" "unat x < 8"
    using assms by (simp_all add: word_less_nat_alt)
  then have "unat (push_bit 3 y) = 8 * unat y"
    by (simp add: push_bit_eq_mult unat_word_ariths)
  then show ?thesis
    using \<open>unat y < 8\<close> \<open>unat x < 8\<close> by (simp add: unat_word_ariths)
qed

end
