(* ===== verification/OS_Bitmap.thy ===== *)
theory OS_Bitmap
  imports OS_Prelude
begin

text \<open>
  The priority bitmap of uC/OS-II: a group byte and eight row bytes, row \<open>y\<close> holding the
  priorities \<open>8y .. 8y+7\<close>. The ready list (\<open>OSRdyGrp\<close>, \<open>OSRdyTbl\<close>) and the wait list of every
  event (\<open>OSEventGrp\<close>, \<open>OSEventTbl\<close>) are such bitmaps, and the kernel repeats the same three
  code fragments on them: set a bit, clear a bit and the group bit when the row empties,
  and find the highest priority (the lowest number) with the lookup table \<open>OSUnMapTbl\<close>.
  The locale \<open>prio_set\<close> states what the rest of the kernel relies on; it is interpreted on
  the code's bitmap at the end.
\<close>

subsection \<open>The lookup table\<close>

definition OSUnMapTbl :: "u8 list" where
  "OSUnMapTbl = [
   0, 0, 1, 0, 2, 0, 1, 0, 3, 0, 1, 0, 2, 0, 1, 0,
   4, 0, 1, 0, 2, 0, 1, 0, 3, 0, 1, 0, 2, 0, 1, 0,
   5, 0, 1, 0, 2, 0, 1, 0, 3, 0, 1, 0, 2, 0, 1, 0,
   4, 0, 1, 0, 2, 0, 1, 0, 3, 0, 1, 0, 2, 0, 1, 0,
   6, 0, 1, 0, 2, 0, 1, 0, 3, 0, 1, 0, 2, 0, 1, 0,
   4, 0, 1, 0, 2, 0, 1, 0, 3, 0, 1, 0, 2, 0, 1, 0,
   5, 0, 1, 0, 2, 0, 1, 0, 3, 0, 1, 0, 2, 0, 1, 0,
   4, 0, 1, 0, 2, 0, 1, 0, 3, 0, 1, 0, 2, 0, 1, 0,
   7, 0, 1, 0, 2, 0, 1, 0, 3, 0, 1, 0, 2, 0, 1, 0,
   4, 0, 1, 0, 2, 0, 1, 0, 3, 0, 1, 0, 2, 0, 1, 0,
   5, 0, 1, 0, 2, 0, 1, 0, 3, 0, 1, 0, 2, 0, 1, 0,
   4, 0, 1, 0, 2, 0, 1, 0, 3, 0, 1, 0, 2, 0, 1, 0,
   6, 0, 1, 0, 2, 0, 1, 0, 3, 0, 1, 0, 2, 0, 1, 0,
   4, 0, 1, 0, 2, 0, 1, 0, 3, 0, 1, 0, 2, 0, 1, 0,
   5, 0, 1, 0, 2, 0, 1, 0, 3, 0, 1, 0, 2, 0, 1, 0,
   4, 0, 1, 0, 2, 0, 1, 0, 3, 0, 1, 0, 2, 0, 1, 0
  ]"

definition unmap :: "u8 \<Rightarrow> u8" where
  "unmap g = OSUnMapTbl ! unat g"

subsection \<open>The bitmap and its code fragments\<close>

type_synonym bitmap = "u8 \<times> (u8 \<Rightarrow> u8)"

text \<open>\<open>tbl[y] |= bitx; grp |= bity;\<close>\<close>

definition bm_ins :: "u8 \<Rightarrow> u8 \<Rightarrow> u8 \<Rightarrow> bitmap \<Rightarrow> bitmap" where
  "bm_ins y bitx bity m = (fst m OR bity, (snd m)(y := snd m y OR bitx))"

text \<open>\<open>tbl[y] &= ~bitx; if (tbl[y] == 0) grp &= ~bity;\<close>\<close>

definition bm_del :: "u8 \<Rightarrow> u8 \<Rightarrow> u8 \<Rightarrow> bitmap \<Rightarrow> bitmap" where
  "bm_del y bitx bity m =
     (let row = snd m y AND NOT bitx
      in (if row = 0 then fst m AND NOT bity else fst m, (snd m)(y := row)))"

text \<open>\<open>y = OSUnMapTbl[grp]; prio = (y << 3) + OSUnMapTbl[tbl[y]];\<close>\<close>

definition bm_highest :: "bitmap \<Rightarrow> u8" where
  "bm_highest m = (let y = unmap (fst m) in push_bit 3 y + unmap (snd m y))"

definition bm_clear :: bitmap where
  "bm_clear = (0, \<lambda>_. 0)"

subsection \<open>What a bitmap stands for\<close>

definition bm_mem :: "bitmap \<Rightarrow> u8 \<Rightarrow> bool" where
  "bm_mem m p = bit (snd m (drop_bit 3 p)) (unat (p AND 7))"

definition bm_set :: "bitmap \<Rightarrow> u8 set" where
  "bm_set m = {p. p < 64 \<and> bm_mem m p}"

definition bm_ok :: "bitmap \<Rightarrow> bool" where
  "bm_ok m \<longleftrightarrow> (\<forall>y<8. bit (fst m) (unat y) \<longleftrightarrow> snd m y \<noteq> 0)"

definition bm_add :: "u8 \<Rightarrow> bitmap \<Rightarrow> bitmap" where
  "bm_add p = bm_ins (drop_bit 3 p) (shl1 (p AND 7)) (shl1 (drop_bit 3 p))"

definition bm_drop :: "u8 \<Rightarrow> bitmap \<Rightarrow> bitmap" where
  "bm_drop p = bm_del (drop_bit 3 p) (shl1 (p AND 7)) (shl1 (drop_bit 3 p))"

subsection \<open>The table finds the lowest bit\<close>

fun lowest_bit :: "nat \<Rightarrow> nat \<Rightarrow> nat" where
  "lowest_bit 0 n = 0"
| "lowest_bit (Suc f) n = (if odd n then 0 else Suc (lowest_bit f (n div 2)))"

lemma lowest_bit_correct:
  "0 < n \<Longrightarrow> n < 2 ^ f \<Longrightarrow>
     lowest_bit f n < f \<and> bit n (lowest_bit f n) \<and> (\<forall>k < lowest_bit f n. \<not> bit n k)"
proof (induction f n rule: lowest_bit.induct)
  case (2 f n)
  show ?case
  proof (cases "odd n")
    case False
    with 2 have "lowest_bit f (n div 2) < f \<and> bit (n div 2) (lowest_bit f (n div 2)) \<and>
        (\<forall>k < lowest_bit f (n div 2). \<not> bit (n div 2) k)"
      by (intro "2.IH") auto
    with False show ?thesis
      by (auto simp: bit_Suc bit_0 less_Suc_eq_0_disj)
  qed (auto simp: bit_0)
qed simp

lemma OSUnMapTbl_lowest: "OSUnMapTbl = 0 # map (\<lambda>n. word_of_nat (lowest_bit 8 n)) [1..<256]"
  unfolding OSUnMapTbl_def by code_simp

lemma unmap_lowest_bit: "g \<noteq> 0 \<Longrightarrow> unat (unmap g) = lowest_bit 8 (unat g)"
proof -
  assume "g \<noteq> 0"
  then have g: "0 < unat g" "unat g < 256"
    using unsigned_less [of g] by (simp_all add: unat_gt_0)
  then have "unmap g = word_of_nat (lowest_bit 8 (unat g))"
    using nth_upt [of "Suc 0" "unat g - Suc 0" 256]
    by (simp add: unmap_def OSUnMapTbl_lowest nth_Cons')
  then show ?thesis
    using lowest_bit_correct [of "unat g" 8] g by (simp add: unat_of_nat)
qed

lemma unmap_lowest:
  assumes "g \<noteq> 0"
  shows "unmap g < 8" and "bit g (unat (unmap g))" and "k < unat (unmap g) \<Longrightarrow> \<not> bit g k"
proof -
  have bits: "bit (unat g) n = bit g n" for n
    by (auto simp: bit_unsigned_iff dest: bit_imp_le_length)
  have "0 < unat g" "unat g < 2 ^ 8"
    using assms unsigned_less [of g] by (simp_all add: unat_gt_0)
  note * = lowest_bit_correct [OF this, folded unmap_lowest_bit [OF assms], unfolded bits]
  then show "unmap g < 8" "bit g (unat (unmap g))" "k < unat (unmap g) \<Longrightarrow> \<not> bit g k"
    by (auto simp: word_less_nat_alt)
qed

subsection \<open>Set and clear as set operations\<close>

lemma bm_add_mem:
  assumes "p < 64" and "q < 64"
  shows "bm_mem (bm_add p m) q \<longleftrightarrow> q = p \<or> bm_mem m q"
proof -
  have "unat (q AND 7) < 8"
    using col_less [of q] by (simp add: word_less_nat_alt)
  then show ?thesis
    using row_col_inj [of q p]
    by (auto simp: bm_mem_def bm_add_def bm_ins_def bit_or_iff bit_shl1 word_unat_eq_iff [symmetric])
qed

lemma bm_drop_mem:
  assumes "p < 64" and "q < 64"
  shows "bm_mem (bm_drop p m) q \<longleftrightarrow> q \<noteq> p \<and> bm_mem m q"
proof -
  have "unat (q AND 7) < 8"
    using col_less [of q] by (simp add: word_less_nat_alt)
  then show ?thesis
    using row_col_inj [of q p]
    by (auto simp: bm_mem_def bm_drop_def bm_del_def Let_def bit_and_iff bit_not_iff bit_shl1
        word_unat_eq_iff [symmetric])
qed

lemma bm_set_add: "p < 64 \<Longrightarrow> bm_set (bm_add p m) = insert p (bm_set m)"
  by (auto simp: bm_set_def bm_add_mem)

lemma bm_set_drop: "p < 64 \<Longrightarrow> bm_set (bm_drop p m) = bm_set m - {p}"
  by (auto simp: bm_set_def bm_drop_mem)

lemma bm_set_clear: "bm_set bm_clear = {}"
  by (simp add: bm_set_def bm_mem_def bm_clear_def)

lemma bm_ok_clear: "bm_ok bm_clear"
  by (simp add: bm_ok_def bm_clear_def)

lemma bm_ok_add:
  assumes "bm_ok m" and "p < 64"
  shows "bm_ok (bm_add p m)"
  unfolding bm_ok_def
proof (intro allI impI)
  fix y :: u8
  assume "y < 8"
  then have "unat y < 8" by (simp add: word_less_nat_alt)
  then show "bit (fst (bm_add p m)) (unat y) \<longleftrightarrow> snd (bm_add p m) y \<noteq> 0"
    using assms \<open>y < 8\<close> shl1_neq_0 [OF col_less, of p]
    by (auto simp: bm_ok_def bm_add_def bm_ins_def bit_or_iff bit_shl1 word_unat_eq_iff [symmetric]
        or_eq_0_iff)
qed

lemma bm_ok_drop:
  assumes "bm_ok m" and "p < 64"
  shows "bm_ok (bm_drop p m)"
  unfolding bm_ok_def
proof (intro allI impI)
  fix y :: u8
  assume "y < 8"
  then have "unat y < 8" by (simp add: word_less_nat_alt)
  then show "bit (fst (bm_drop p m)) (unat y) \<longleftrightarrow> snd (bm_drop p m) y \<noteq> 0"
    using assms \<open>y < 8\<close> 
    by (auto simp: bm_ok_def bm_drop_def bm_del_def Let_def bit_and_iff bit_not_iff bit_shl1
        word_unat_eq_iff [symmetric])
qed

subsection \<open>The highest priority\<close>

lemma row_major_le:
  "(q::nat) = 8 * d + r \<Longrightarrow> a \<le> d \<Longrightarrow> (a = d \<longrightarrow> x \<le> r) \<Longrightarrow> x < 8 \<Longrightarrow> 8 * a + x \<le> q"
  by (cases "a = d") auto

lemma bm_highest_correct:
  assumes ok: "bm_ok m" and ne: "fst m \<noteq> 0"
  shows "bm_highest m \<in> bm_set m" and "q \<in> bm_set m \<Longrightarrow> bm_highest m \<le> q"
proof -
  define y where "y = unmap (fst m)"
  define x where "x = unmap (snd m y)"
  have y: "y < 8" "bit (fst m) (unat y)" "\<And>k. k < unat y \<Longrightarrow> \<not> bit (fst m) k"
    using unmap_lowest [OF ne] by (simp_all add: y_def)
  then have row: "snd m y \<noteq> 0"
    using ok by (simp add: bm_ok_def)
  have x: "x < 8" "bit (snd m y) (unat x)" "\<And>k. k < unat x \<Longrightarrow> \<not> bit (snd m y) k"
    using unmap_lowest [OF row] by (simp_all add: x_def)
  have p: "bm_highest m = push_bit 3 y + x"
    by (simp add: bm_highest_def Let_def y_def x_def)
  have un: "unat (bm_highest m) = 8 * unat y + unat x"
    unfolding p by (rule unat_row_col [OF y(1) x(1)])
  have lt: "unat y < 8" "unat x < 8"
    using y(1) x(1) by (simp_all add: word_less_nat_alt)
  have "drop_bit 3 (bm_highest m) = y" "bm_highest m AND 7 = x"
    using lt by (simp_all add: word_unat_eq_iff unat_row unat_col un)
  then show "bm_highest m \<in> bm_set m"
    using x(2) un lt by (simp add: bm_set_def bm_mem_def word_less_nat_alt)
  show "bm_highest m \<le> q" if q: "q \<in> bm_set m"
  proof -
    from q have q64: "q < 64" and bq: "bit (snd m (drop_bit 3 q)) (unat (q AND 7))"
      by (simp_all add: bm_set_def bm_mem_def)
    then have "snd m (drop_bit 3 q) \<noteq> 0" by auto
    then have "bit (fst m) (unat (drop_bit 3 q))"
      using ok row_less [OF q64] by (simp add: bm_ok_def)
    then have le: "unat y \<le> unat q div 8"
      using y(3) by (metis not_le unat_row)
    have "unat y = unat q div 8 \<longrightarrow> unat x \<le> unat q mod 8"
    proof
      assume "unat y = unat q div 8"
      then have "drop_bit 3 q = y"
        by (simp add: word_unat_eq_iff unat_row)
      then show "unat x \<le> unat q mod 8"
        using x(3) bq by (metis not_le unat_col)
    qed
    then have "8 * unat y + unat x \<le> unat q"
      using le lt row_major_le [of "unat q" "unat q div 8" "unat q mod 8" "unat y" "unat x"] by simp
    then show ?thesis
      by (simp add: word_le_nat_alt un)
  qed
qed

lemma bm_highest_row:
  assumes "bm_ok m" and "fst m \<noteq> 0"
  shows "drop_bit 3 (bm_highest m) = unmap (fst m)"
proof -
  define y where "y = unmap (fst m)"
  have "y < 8" "snd m y \<noteq> 0"
    using unmap_lowest [OF assms(2)] assms(1) by (simp_all add: y_def bm_ok_def)
  moreover have "unmap (snd m y) < 8"
    using unmap_lowest(1) \<open>snd m y \<noteq> 0\<close> by blast
  ultimately have "unat (bm_highest m) = 8 * unat y + unat (unmap (snd m y))" "unat (unmap (snd m y)) < 8"
    using unat_row_col by (simp_all add: bm_highest_def Let_def y_def word_less_nat_alt)
  then show ?thesis
    by (simp add: word_unat_eq_iff unat_row y_def)
qed

lemma bm_group_zero: "bm_ok m \<Longrightarrow> fst m = 0 \<longleftrightarrow> bm_set m = {}"
proof
  assume "bm_ok m" "fst m = 0"
  then have "snd m (drop_bit 3 p) = 0" if "p < 64" for p
    using row_less [OF that] by (simp add: bm_ok_def)
  then show "bm_set m = {}"
    by (auto simp: bm_set_def bm_mem_def)
qed (use bm_highest_correct(1) in blast)

subsection \<open>The interface the kernel relies on\<close>

text \<open>A set of priorities with insertion, deletion, an emptiness test and access to its least
  element (the numerically lowest priority is the most urgent one).\<close>

locale prio_set =
  fixes invar :: "'m \<Rightarrow> bool"
    and members :: "'m \<Rightarrow> u8 set"
    and ins :: "u8 \<Rightarrow> 'm \<Rightarrow> 'm"
    and del :: "u8 \<Rightarrow> 'm \<Rightarrow> 'm"
    and none :: "'m \<Rightarrow> bool"
    and highest :: "'m \<Rightarrow> u8"
  assumes bounded: "p \<in> members m \<Longrightarrow> p < 64"
    and invar_ins: "invar m \<Longrightarrow> p < 64 \<Longrightarrow> invar (ins p m)"
    and invar_del: "invar m \<Longrightarrow> p < 64 \<Longrightarrow> invar (del p m)"
    and members_ins: "p < 64 \<Longrightarrow> members (ins p m) = insert p (members m)"
    and members_del: "p < 64 \<Longrightarrow> members (del p m) = members m - {p}"
    and none_iff: "invar m \<Longrightarrow> none m \<longleftrightarrow> members m = {}"
    and highest_in: "invar m \<Longrightarrow> members m \<noteq> {} \<Longrightarrow> highest m \<in> members m"
    and highest_le: "invar m \<Longrightarrow> q \<in> members m \<Longrightarrow> highest m \<le> q"
begin

lemma finite_members: "finite (members m)"
  by (rule finite_subset [of _ "UNIV :: u8 set"]) simp_all

lemma highest_eqI: "invar m \<Longrightarrow> p \<in> members m \<Longrightarrow> (\<And>q. q \<in> members m \<Longrightarrow> p \<le> q) \<Longrightarrow> highest m = p"
  using highest_in [of m] highest_le [of m p] by (metis empty_iff order_antisym)

lemma highest_Min: "invar m \<Longrightarrow> members m \<noteq> {} \<Longrightarrow> highest m = Min (members m)"
  using finite_members by (intro highest_eqI) auto

text \<open>A newly set priority wins exactly when it is more urgent than everything there.\<close>

lemma highest_ins:
  assumes "invar m" and "p < 64" and "members m \<noteq> {}"
  shows "highest (ins p m) = min p (highest m)"
proof (rule highest_eqI)
  show "invar (ins p m)" using assms by (simp add: invar_ins)
  show "min p (highest m) \<in> members (ins p m)"
    using assms highest_in [of m] by (simp add: members_ins min_def)
  show "min p (highest m) \<le> q" if "q \<in> members (ins p m)" for q
    using that assms highest_le [of m q] by (auto simp: members_ins min_le_iff_disj)
qed

text \<open>Clearing any other priority does not change which one is highest.\<close>

lemma highest_del:
  assumes "invar m" and "p < 64" and "highest m \<noteq> p" and "members m \<noteq> {}"
  shows "highest (del p m) = highest m"
proof (rule highest_eqI)
  show "invar (del p m)" using assms by (simp add: invar_del)
  show "highest m \<in> members (del p m)"
    using assms highest_in [of m] by (simp add: members_del)
  show "highest m \<le> q" if "q \<in> members (del p m)" for q
    using that assms highest_le [of m q] by (simp add: members_del)
qed

end

interpretation bm: prio_set bm_ok bm_set bm_add bm_drop "\<lambda>m. fst m = 0" bm_highest
proof unfold_locales
  fix p q :: u8 and m :: bitmap
  show "p \<in> bm_set m \<Longrightarrow> p < 64" by (simp add: bm_set_def)
  show "bm_ok m \<Longrightarrow> p < 64 \<Longrightarrow> bm_ok (bm_add p m)" by (rule bm_ok_add)
  show "bm_ok m \<Longrightarrow> p < 64 \<Longrightarrow> bm_ok (bm_drop p m)" by (rule bm_ok_drop)
  show "p < 64 \<Longrightarrow> bm_set (bm_add p m) = insert p (bm_set m)" by (rule bm_set_add)
  show "p < 64 \<Longrightarrow> bm_set (bm_drop p m) = bm_set m - {p}" by (rule bm_set_drop)
  show "bm_ok m \<Longrightarrow> (fst m = 0) = (bm_set m = {})" by (rule bm_group_zero)
  show "bm_ok m \<Longrightarrow> bm_set m \<noteq> {} \<Longrightarrow> bm_highest m \<in> bm_set m"
    using bm_group_zero bm_highest_correct(1) by blast
  show "bm_ok m \<Longrightarrow> q \<in> bm_set m \<Longrightarrow> bm_highest m \<le> q"
    using bm_group_zero bm_highest_correct(2) by blast
qed

end
