(* ===== verification/OS_State.thy ===== *)
theory OS_State
  imports OS_Bitmap
begin

text \<open>
  The data of the kernel, from \<^verbatim>\<open>src/ucos/CORE/ucos_ii.h\<close> and the configuration
  \<^verbatim>\<open>src/ucos/CONFIG/os_cfg.h\<close>: the status, option and error codes, the control blocks as
  records, the kernel's global variables as one state record, and checked access to the
  tables.

  Pointers: a task control block, an event, a queue control block, a flag group is named by
  its index in the kernel's static table; a \<open>void *\<close> that the code uses for several kinds of
  object is a tagged value, and using it at the wrong kind is undefined behaviour (\<open>None\<close>).
  Messages, stacks and names of the application are opaque. A flag node lives on the stack of
  the task that waits, so it is named by that task's index. Critical sections
  (\<open>OS_ENTER_CRITICAL\<close>, \<open>OS_EXIT_CRITICAL\<close>) make the code between them atomic; every
  definition below is a sequence of such sections, and the places where the kernel can give
  the processor away (\<open>OS_Sched\<close>) are explicit.
\<close>

subsection \<open>Configuration and codes\<close>

abbreviation (input) OS_LOWEST_PRIO :: u8 where "OS_LOWEST_PRIO \<equiv> 63"
abbreviation (input) OS_TASK_IDLE_PRIO :: u8 where "OS_TASK_IDLE_PRIO \<equiv> 63"
abbreviation (input) OS_TASK_STAT_PRIO :: u8 where "OS_TASK_STAT_PRIO \<equiv> 62"
abbreviation (input) OS_MAX_EVENTS :: nat where "OS_MAX_EVENTS \<equiv> 30"
abbreviation (input) OS_MAX_FLAGS :: nat where "OS_MAX_FLAGS \<equiv> 5"
abbreviation (input) OS_MAX_QS :: nat where "OS_MAX_QS \<equiv> 10"
abbreviation (input) OS_MAX_TCBS :: nat where "OS_MAX_TCBS \<equiv> 22" \<comment> \<open>\<open>OS_MAX_TASKS + OS_N_SYS_TASKS\<close>\<close>
abbreviation (input) OS_TICKS_PER_SEC :: u32 where "OS_TICKS_PER_SEC \<equiv> 1000"
abbreviation (input) OS_TASK_REG_TBL_SIZE :: u8 where "OS_TASK_REG_TBL_SIZE \<equiv> 1"

abbreviation (input) OS_PRIO_SELF :: u8 where "OS_PRIO_SELF \<equiv> 0xFF"
abbreviation (input) OS_PRIO_MUTEX_CEIL_DIS :: u8 where "OS_PRIO_MUTEX_CEIL_DIS \<equiv> 0xFF"

abbreviation (input) OS_STAT_RDY :: u8 where "OS_STAT_RDY \<equiv> 0x00"
abbreviation (input) OS_STAT_SEM :: u8 where "OS_STAT_SEM \<equiv> 0x01"
abbreviation (input) OS_STAT_MBOX :: u8 where "OS_STAT_MBOX \<equiv> 0x02"
abbreviation (input) OS_STAT_Q :: u8 where "OS_STAT_Q \<equiv> 0x04"
abbreviation (input) OS_STAT_SUSPEND :: u8 where "OS_STAT_SUSPEND \<equiv> 0x08"
abbreviation (input) OS_STAT_MUTEX :: u8 where "OS_STAT_MUTEX \<equiv> 0x10"
abbreviation (input) OS_STAT_FLAG :: u8 where "OS_STAT_FLAG \<equiv> 0x20"
abbreviation (input) OS_STAT_MULTI :: u8 where "OS_STAT_MULTI \<equiv> 0x80"
abbreviation (input) OS_STAT_PEND_ANY :: u8 where "OS_STAT_PEND_ANY \<equiv> 0x37"

abbreviation (input) OS_STAT_PEND_OK :: u8 where "OS_STAT_PEND_OK \<equiv> 0"
abbreviation (input) OS_STAT_PEND_TO :: u8 where "OS_STAT_PEND_TO \<equiv> 1"
abbreviation (input) OS_STAT_PEND_ABORT :: u8 where "OS_STAT_PEND_ABORT \<equiv> 2"

abbreviation (input) OS_EVENT_TYPE_UNUSED :: u8 where "OS_EVENT_TYPE_UNUSED \<equiv> 0"
abbreviation (input) OS_EVENT_TYPE_MBOX :: u8 where "OS_EVENT_TYPE_MBOX \<equiv> 1"
abbreviation (input) OS_EVENT_TYPE_Q :: u8 where "OS_EVENT_TYPE_Q \<equiv> 2"
abbreviation (input) OS_EVENT_TYPE_SEM :: u8 where "OS_EVENT_TYPE_SEM \<equiv> 3"
abbreviation (input) OS_EVENT_TYPE_MUTEX :: u8 where "OS_EVENT_TYPE_MUTEX \<equiv> 4"
abbreviation (input) OS_EVENT_TYPE_FLAG :: u8 where "OS_EVENT_TYPE_FLAG \<equiv> 5"

abbreviation (input) OS_FLAG_WAIT_CLR_ALL :: u8 where "OS_FLAG_WAIT_CLR_ALL \<equiv> 0"
abbreviation (input) OS_FLAG_WAIT_CLR_ANY :: u8 where "OS_FLAG_WAIT_CLR_ANY \<equiv> 1"
abbreviation (input) OS_FLAG_WAIT_SET_ALL :: u8 where "OS_FLAG_WAIT_SET_ALL \<equiv> 2"
abbreviation (input) OS_FLAG_WAIT_SET_ANY :: u8 where "OS_FLAG_WAIT_SET_ANY \<equiv> 3"
abbreviation (input) OS_FLAG_CONSUME :: u8 where "OS_FLAG_CONSUME \<equiv> 0x80"
abbreviation (input) OS_FLAG_CLR :: u8 where "OS_FLAG_CLR \<equiv> 0"
abbreviation (input) OS_FLAG_SET :: u8 where "OS_FLAG_SET \<equiv> 1"

abbreviation (input) OS_TICK_STEP_DIS :: u8 where "OS_TICK_STEP_DIS \<equiv> 0"
abbreviation (input) OS_TICK_STEP_WAIT :: u8 where "OS_TICK_STEP_WAIT \<equiv> 1"
abbreviation (input) OS_TICK_STEP_ONCE :: u8 where "OS_TICK_STEP_ONCE \<equiv> 2"

abbreviation (input) OS_DEL_NO_PEND :: u8 where "OS_DEL_NO_PEND \<equiv> 0"
abbreviation (input) OS_DEL_ALWAYS :: u8 where "OS_DEL_ALWAYS \<equiv> 1"
abbreviation (input) OS_PEND_OPT_NONE :: u8 where "OS_PEND_OPT_NONE \<equiv> 0"
abbreviation (input) OS_PEND_OPT_BROADCAST :: u8 where "OS_PEND_OPT_BROADCAST \<equiv> 1"
abbreviation (input) OS_POST_OPT_BROADCAST :: u8 where "OS_POST_OPT_BROADCAST \<equiv> 0x01"
abbreviation (input) OS_POST_OPT_FRONT :: u8 where "OS_POST_OPT_FRONT \<equiv> 0x02"
abbreviation (input) OS_POST_OPT_NO_SCHED :: u8 where "OS_POST_OPT_NO_SCHED \<equiv> 0x04"
abbreviation (input) OS_TASK_OPT_STK_CHK :: u16 where "OS_TASK_OPT_STK_CHK \<equiv> 0x0001"
abbreviation (input) OS_TASK_OPT_STK_CLR :: u16 where "OS_TASK_OPT_STK_CLR \<equiv> 0x0002"

abbreviation (input) OS_ERR_NONE :: u8 where "OS_ERR_NONE \<equiv> 0"
abbreviation (input) OS_ERR_EVENT_TYPE :: u8 where "OS_ERR_EVENT_TYPE \<equiv> 1"
abbreviation (input) OS_ERR_PEND_ISR :: u8 where "OS_ERR_PEND_ISR \<equiv> 2"
abbreviation (input) OS_ERR_PEVENT_NULL :: u8 where "OS_ERR_PEVENT_NULL \<equiv> 4"
abbreviation (input) OS_ERR_POST_ISR :: u8 where "OS_ERR_POST_ISR \<equiv> 5"
abbreviation (input) OS_ERR_QUERY_ISR :: u8 where "OS_ERR_QUERY_ISR \<equiv> 6"
abbreviation (input) OS_ERR_INVALID_OPT :: u8 where "OS_ERR_INVALID_OPT \<equiv> 7"
abbreviation (input) OS_ERR_TIMEOUT :: u8 where "OS_ERR_TIMEOUT \<equiv> 10"
abbreviation (input) OS_ERR_PEND_LOCKED :: u8 where "OS_ERR_PEND_LOCKED \<equiv> 13"
abbreviation (input) OS_ERR_PEND_ABORT :: u8 where "OS_ERR_PEND_ABORT \<equiv> 14"
abbreviation (input) OS_ERR_DEL_ISR :: u8 where "OS_ERR_DEL_ISR \<equiv> 15"
abbreviation (input) OS_ERR_CREATE_ISR :: u8 where "OS_ERR_CREATE_ISR \<equiv> 16"
abbreviation (input) OS_ERR_NAME_GET_ISR :: u8 where "OS_ERR_NAME_GET_ISR \<equiv> 17"
abbreviation (input) OS_ERR_NAME_SET_ISR :: u8 where "OS_ERR_NAME_SET_ISR \<equiv> 18"
abbreviation (input) OS_ERR_MBOX_FULL :: u8 where "OS_ERR_MBOX_FULL \<equiv> 20"
abbreviation (input) OS_ERR_Q_FULL :: u8 where "OS_ERR_Q_FULL \<equiv> 30"
abbreviation (input) OS_ERR_Q_EMPTY :: u8 where "OS_ERR_Q_EMPTY \<equiv> 31"
abbreviation (input) OS_ERR_PRIO_EXIST :: u8 where "OS_ERR_PRIO_EXIST \<equiv> 40"
abbreviation (input) OS_ERR_PRIO :: u8 where "OS_ERR_PRIO \<equiv> 41"
abbreviation (input) OS_ERR_PRIO_INVALID :: u8 where "OS_ERR_PRIO_INVALID \<equiv> 42"
abbreviation (input) OS_ERR_SCHED_LOCKED :: u8 where "OS_ERR_SCHED_LOCKED \<equiv> 50"
abbreviation (input) OS_ERR_SEM_OVF :: u8 where "OS_ERR_SEM_OVF \<equiv> 51"
abbreviation (input) OS_ERR_TASK_CREATE_ISR :: u8 where "OS_ERR_TASK_CREATE_ISR \<equiv> 60"
abbreviation (input) OS_ERR_TASK_DEL :: u8 where "OS_ERR_TASK_DEL \<equiv> 61"
abbreviation (input) OS_ERR_TASK_DEL_IDLE :: u8 where "OS_ERR_TASK_DEL_IDLE \<equiv> 62"
abbreviation (input) OS_ERR_TASK_DEL_REQ :: u8 where "OS_ERR_TASK_DEL_REQ \<equiv> 63"
abbreviation (input) OS_ERR_TASK_DEL_ISR :: u8 where "OS_ERR_TASK_DEL_ISR \<equiv> 64"
abbreviation (input) OS_ERR_TASK_NO_MORE_TCB :: u8 where "OS_ERR_TASK_NO_MORE_TCB \<equiv> 66"
abbreviation (input) OS_ERR_TASK_NOT_EXIST :: u8 where "OS_ERR_TASK_NOT_EXIST \<equiv> 67"
abbreviation (input) OS_ERR_TASK_NOT_SUSPENDED :: u8 where "OS_ERR_TASK_NOT_SUSPENDED \<equiv> 68"
abbreviation (input) OS_ERR_TASK_OPT :: u8 where "OS_ERR_TASK_OPT \<equiv> 69"
abbreviation (input) OS_ERR_TASK_RESUME_PRIO :: u8 where "OS_ERR_TASK_RESUME_PRIO \<equiv> 70"
abbreviation (input) OS_ERR_TASK_SUSPEND_PRIO :: u8 where "OS_ERR_TASK_SUSPEND_PRIO \<equiv> 72"
abbreviation (input) OS_ERR_TASK_WAITING :: u8 where "OS_ERR_TASK_WAITING \<equiv> 73"
abbreviation (input) OS_ERR_TIME_NOT_DLY :: u8 where "OS_ERR_TIME_NOT_DLY \<equiv> 80"
abbreviation (input) OS_ERR_TIME_DLY_ISR :: u8 where "OS_ERR_TIME_DLY_ISR \<equiv> 85"
abbreviation (input) OS_ERR_NOT_MUTEX_OWNER :: u8 where "OS_ERR_NOT_MUTEX_OWNER \<equiv> 100"
abbreviation (input) OS_ERR_FLAG_WAIT_TYPE :: u8 where "OS_ERR_FLAG_WAIT_TYPE \<equiv> 111"
abbreviation (input) OS_ERR_FLAG_NOT_RDY :: u8 where "OS_ERR_FLAG_NOT_RDY \<equiv> 112"
abbreviation (input) OS_ERR_FLAG_INVALID_OPT :: u8 where "OS_ERR_FLAG_INVALID_OPT \<equiv> 113"
abbreviation (input) OS_ERR_FLAG_GRP_DEPLETED :: u8 where "OS_ERR_FLAG_GRP_DEPLETED \<equiv> 114"
abbreviation (input) OS_ERR_PCP_LOWER :: u8 where "OS_ERR_PCP_LOWER \<equiv> 120"
abbreviation (input) OS_ERR_NO_MORE_ID_AVAIL :: u8 where "OS_ERR_NO_MORE_ID_AVAIL \<equiv> 150"

subsection \<open>Pointers\<close>

datatype tcbptr = TNull | TReserved | TPtr nat
  \<comment> \<open>\<open>OS_TCB *\<close>: null, \<open>OS_TCB_RESERVED\<close> (the address 1), or an entry of \<open>OSTCBTbl\<close>\<close>

datatype vptr = VNull | VEvt nat | VQ nat | VTcb nat | VMsg nat
  \<comment> \<open>\<open>void *\<close>: null, or the address of an event, a queue, a task, an application object\<close>

datatype wptr = WNull | WNode nat | WGrp nat
  \<comment> \<open>\<open>OSFlagWaitList\<close>: first node of the wait list, or the next free group\<close>

subsection \<open>Control blocks\<close>

record os_event =
  OSEventType :: u8
  OSEventPtr :: vptr
  OSEventCnt :: u16
  OSEventGrp :: u8
  OSEventTbl :: "u8 \<Rightarrow> u8"
  OSEventName :: string

record os_q =
  OSQPtr :: "nat option"
  OSQStart :: nat
  OSQEnd :: nat
  OSQIn :: nat
  OSQOut :: nat
  OSQSize :: u16
  OSQEntries :: u16

record os_flag_grp =
  OSFlagType :: u8
  OSFlagWaitList :: wptr
  OSFlagFlags :: u16
  OSFlagName :: string

record os_flag_node =
  OSFlagNodeNext :: "nat option"
  OSFlagNodePrev :: "nat option"
  OSFlagNodeTCB :: nat
  OSFlagNodeFlagGrp :: nat
  OSFlagNodeFlags :: u16
  OSFlagNodeWaitType :: u8

record os_tcb =
  OSTCBStkPtr :: nat
  OSTCBExtPtr :: vptr
  OSTCBStkBottom :: nat
  OSTCBStkSize :: u32
  OSTCBOpt :: u16
  OSTCBId :: u16
  OSTCBNext :: tcbptr
  OSTCBPrev :: tcbptr
  OSTCBEventPtr :: "nat option"
  OSTCBEventMultiPtr :: "nat list option" \<comment> \<open>the null-terminated array it points to\<close>
  OSTCBEventMultiRdy :: "nat option"
  OSTCBMsg :: vptr
  OSTCBFlagNode :: "nat option"
  OSTCBFlagsRdy :: u16
  OSTCBDly :: u32
  OSTCBStat :: u8
  OSTCBStatPend :: u8
  OSTCBPrio :: u8
  OSTCBX :: u8
  OSTCBY :: u8
  OSTCBBitX :: u8
  OSTCBBitY :: u8
  OSTCBDelReq :: u8
  OSTCBCtxSwCtr :: u32
  OSTCBCyclesTot :: u32
  OSTCBCyclesStart :: u32
  OSTCBStkBase :: nat
  OSTCBStkUsed :: u32
  OSTCBTaskName :: string
  OSTCBRegTbl :: "u8 \<Rightarrow> u32"

text \<open>A control block whose bytes are all zero.\<close>

definition tcb_zero :: os_tcb where
  "tcb_zero = \<lparr>OSTCBStkPtr = 0, OSTCBExtPtr = VNull, OSTCBStkBottom = 0, OSTCBStkSize = 0, OSTCBOpt = 0, OSTCBId = 0,
     OSTCBNext = TNull, OSTCBPrev = TNull, OSTCBEventPtr = None, OSTCBEventMultiPtr = None, OSTCBEventMultiRdy = None,
     OSTCBMsg = VNull, OSTCBFlagNode = None, OSTCBFlagsRdy = 0, OSTCBDly = 0, OSTCBStat = 0, OSTCBStatPend = 0,
     OSTCBPrio = 0, OSTCBX = 0, OSTCBY = 0, OSTCBBitX = 0, OSTCBBitY = 0, OSTCBDelReq = 0, OSTCBCtxSwCtr = 0,
     OSTCBCyclesTot = 0, OSTCBCyclesStart = 0, OSTCBStkBase = 0, OSTCBStkUsed = 0, OSTCBTaskName = '''',
     OSTCBRegTbl = (\<lambda>_. 0)\<rparr>"

subsection \<open>The kernel state\<close>

record os =
  OSCtxSwCtr :: u32
  OSEventFreeList :: vptr
  OSEvents :: "nat \<Rightarrow> os_event" \<comment> \<open>the global array \<open>OSEventTbl\<close>\<close>
  OSFlagTbl :: "nat \<Rightarrow> os_flag_grp"
  OSFlagFreeList :: wptr
  OSFlagNodes :: "nat \<Rightarrow> os_flag_node" \<comment> \<open>the node on the stack of each task\<close>
  OSCPUUsage :: u8
  OSIdleCtrMax :: u32
  OSIdleCtrRun :: u32
  OSStatRdy :: bool
  OSIntNesting :: u8
  OSLockNesting :: u8
  OSPrioCur :: u8
  OSPrioHighRdy :: u8
  OSRdyGrp :: u8
  OSRdyTbl :: "u8 \<Rightarrow> u8"
  OSRunning :: bool
  OSTaskCtr :: u8
  OSIdleCtr :: u32
  OSTCBCur :: tcbptr
  OSTCBFreeList :: tcbptr
  OSTCBHighRdy :: tcbptr
  OSTCBList :: tcbptr
  OSTCBPrioTbl :: "u8 \<Rightarrow> tcbptr"
  OSTCBTbl :: "nat \<Rightarrow> os_tcb"
  OSTickStepState :: u8
  OSQFreeList :: "nat option"
  OSQTbl :: "nat \<Rightarrow> os_q"
  OSTaskRegNextAvailID :: u8
  OSTime :: u32
  OSMsgMem :: "nat \<Rightarrow> vptr" \<comment> \<open>the arrays of \<open>void *\<close> the application gives to queues\<close>
  OSStkMem :: "nat \<Rightarrow> u32" \<comment> \<open>the words of the task stacks\<close>

subsection \<open>Checked access\<close>

definition deref_tcb :: "tcbptr \<Rightarrow> nat option" where
  "deref_tcb p = (case p of TPtr t \<Rightarrow> if t < OS_MAX_TCBS then Some t else None | _ \<Rightarrow> None)"

definition prio_tbl :: "os \<Rightarrow> u8 \<Rightarrow> tcbptr option" where
  "prio_tbl s p = (if p \<le> OS_LOWEST_PRIO then Some (OSTCBPrioTbl s p) else None)"

definition evt :: "os \<Rightarrow> nat \<Rightarrow> os_event option" where
  "evt s e = (if e < OS_MAX_EVENTS then Some (OSEvents s e) else None)"

definition deref_evt :: "vptr \<Rightarrow> nat option" where
  "deref_evt p = (case p of VEvt e \<Rightarrow> if e < OS_MAX_EVENTS then Some e else None | _ \<Rightarrow> None)"

definition deref_q :: "vptr \<Rightarrow> nat option" where
  "deref_q p = (case p of VQ q \<Rightarrow> if q < OS_MAX_QS then Some q else None | _ \<Rightarrow> None)"

definition upd_tcb :: "nat \<Rightarrow> (os_tcb \<Rightarrow> os_tcb) \<Rightarrow> os \<Rightarrow> os" where
  "upd_tcb t f s = s\<lparr>OSTCBTbl := (OSTCBTbl s)(t := f (OSTCBTbl s t))\<rparr>"

definition upd_evt :: "nat \<Rightarrow> (os_event \<Rightarrow> os_event) \<Rightarrow> os \<Rightarrow> os" where
  "upd_evt e f s = s\<lparr>OSEvents := (OSEvents s)(e := f (OSEvents s e))\<rparr>"

definition upd_q :: "nat \<Rightarrow> (os_q \<Rightarrow> os_q) \<Rightarrow> os \<Rightarrow> os" where
  "upd_q q f s = s\<lparr>OSQTbl := (OSQTbl s)(q := f (OSQTbl s q))\<rparr>"

lemma deref_tcb_Some: "deref_tcb p = Some t \<longleftrightarrow> p = TPtr t \<and> t < OS_MAX_TCBS"
  by (cases p) (auto simp: deref_tcb_def)

lemma deref_tcb_TPtr [simp]: "t < OS_MAX_TCBS \<Longrightarrow> deref_tcb (TPtr t) = Some t"
  by (simp add: deref_tcb_def)

lemma deref_evt_Some: "deref_evt p = Some e \<longleftrightarrow> p = VEvt e \<and> e < OS_MAX_EVENTS"
  by (cases p) (auto simp: deref_evt_def)

lemma deref_q_Some: "deref_q p = Some q \<longleftrightarrow> p = VQ q \<and> q < OS_MAX_QS"
  by (cases p) (auto simp: deref_q_def)

lemma evt_Some: "evt s e = Some ev \<longleftrightarrow> e < OS_MAX_EVENTS \<and> ev = OSEvents s e"
  by (auto simp: evt_def)

lemma prio_tbl_Some: "prio_tbl s p = Some q \<longleftrightarrow> p \<le> OS_LOWEST_PRIO \<and> q = OSTCBPrioTbl s p"
  by (auto simp: prio_tbl_def)

end
