(* ===== verification/OS_Core.thy ===== *)
theory OS_Core
  imports OS_State
begin

text \<open>
  The services of \<^verbatim>\<open>src/ucos/CORE/os_core.c\<close>: the ready list, the scheduler and the context
  switch (\<^verbatim>\<open>src/ucos/PORT/os_cpu_a.asm\<close>), interrupts, the tick, and the wait lists of events.
  Definitions only; the theories \<open>OS_Inv\<close> and \<open>OS_Core_Proofs\<close> hold what is proved of them.
\<close>

subsection \<open>Ready list and wait lists\<close>

definition rdy_bm :: "os \<Rightarrow> bitmap" where
  "rdy_bm s = (OSRdyGrp s, OSRdyTbl s)"

definition set_rdy_bm :: "bitmap \<Rightarrow> os \<Rightarrow> os" where
  "set_rdy_bm m s = s\<lparr>OSRdyGrp := fst m, OSRdyTbl := snd m\<rparr>"

definition evt_bm :: "os_event \<Rightarrow> bitmap" where
  "evt_bm ev = (OSEventGrp ev, OSEventTbl ev)"

definition set_evt_bm :: "bitmap \<Rightarrow> os_event \<Rightarrow> os_event" where
  "set_evt_bm m ev = ev\<lparr>OSEventGrp := fst m, OSEventTbl := snd m\<rparr>"

text \<open>The fragments the kernel repeats for a task \<open>t\<close>, with the row, column and group bits kept in
  its control block: make it ready, take it off the ready list, and the same on an event's wait
  list.\<close>

definition rdy_ins :: "nat \<Rightarrow> os \<Rightarrow> os" where
  "rdy_ins t s = (let c = OSTCBTbl s t
     in set_rdy_bm (bm_ins (OSTCBY c) (OSTCBBitX c) (OSTCBBitY c) (rdy_bm s)) s)"

definition rdy_del :: "nat \<Rightarrow> os \<Rightarrow> os" where
  "rdy_del t s = (let c = OSTCBTbl s t
     in set_rdy_bm (bm_del (OSTCBY c) (OSTCBBitX c) (OSTCBBitY c) (rdy_bm s)) s)"

definition wait_ins :: "nat \<Rightarrow> nat \<Rightarrow> os \<Rightarrow> os" where
  "wait_ins t e s = (let c = OSTCBTbl s t
     in upd_evt e (\<lambda>ev. set_evt_bm (bm_ins (OSTCBY c) (OSTCBBitX c) (OSTCBBitY c) (evt_bm ev)) ev) s)"

definition wait_del :: "nat \<Rightarrow> nat \<Rightarrow> os \<Rightarrow> os" where
  "wait_del t e s = (let c = OSTCBTbl s t
     in upd_evt e (\<lambda>ev. set_evt_bm (bm_del (OSTCBY c) (OSTCBBitX c) (OSTCBBitY c) (evt_bm ev)) ev) s)"

subsection \<open>Scheduling\<close>

definition OS_SchedNew :: "os \<Rightarrow> os" where
  "OS_SchedNew s = s\<lparr>OSPrioHighRdy := bm_highest (rdy_bm s)\<rparr>"

text \<open>The exception that \<open>OS_TASK_SW\<close> and \<open>OSIntCtxSw\<close> make pending: it saves the registers of the
  running task on its stack, makes the task at \<open>OSTCBHighRdy\<close> the running one, and restores its
  registers. Where each task resumes is the business of the definitions for the blocking calls.\<close>

definition PendSV_Handler :: "os \<Rightarrow> os" where
  "PendSV_Handler s = s\<lparr>OSPrioCur := OSPrioHighRdy s, OSTCBCur := OSTCBHighRdy s\<rparr>"

text \<open>What \<open>OS_Sched\<close> and \<open>OSIntExit\<close> do once the nesting counters allow a switch.\<close>

definition sched_switch :: "os \<Rightarrow> os option" where
  "sched_switch s0 =
     (let s1 = OS_SchedNew s0 in do {
        hr \<leftarrow> prio_tbl s1 (OSPrioHighRdy s1);
        let s2 = s1\<lparr>OSTCBHighRdy := hr\<rparr>;
        if OSPrioHighRdy s2 \<noteq> OSPrioCur s2
        then do {
          t \<leftarrow> deref_tcb hr;
          let s3 = upd_tcb t (\<lambda>c. c\<lparr>OSTCBCtxSwCtr := OSTCBCtxSwCtr c + 1\<rparr>) s2;
          let s4 = s3\<lparr>OSCtxSwCtr := OSCtxSwCtr s3 + 1\<rparr>;
          Some (PendSV_Handler s4)
        }
        else Some s2
     })"

definition OS_Sched :: "os \<Rightarrow> os option" where
  "OS_Sched s = (if OSIntNesting s = 0 \<and> OSLockNesting s = 0 then sched_switch s else Some s)"

definition OSIntEnter :: "os \<Rightarrow> os" where
  "OSIntEnter s = (if OSRunning s \<and> OSIntNesting s < 255
     then s\<lparr>OSIntNesting := OSIntNesting s + 1\<rparr> else s)"

definition OSIntExit :: "os \<Rightarrow> os option" where
  "OSIntExit s =
     (if OSRunning s
      then let s1 = (if OSIntNesting s > 0 then s\<lparr>OSIntNesting := OSIntNesting s - 1\<rparr> else s)
           in if OSIntNesting s1 = 0 \<and> OSLockNesting s1 = 0 then sched_switch s1 else Some s1
      else Some s)"

definition OSSchedLock :: "os \<Rightarrow> os" where
  "OSSchedLock s = (if OSRunning s \<and> OSIntNesting s = 0 \<and> OSLockNesting s < 255
     then s\<lparr>OSLockNesting := OSLockNesting s + 1\<rparr> else s)"

definition OSSchedUnlock :: "os \<Rightarrow> os option" where
  "OSSchedUnlock s =
     (if OSRunning s
      then if OSIntNesting s = 0
           then if OSLockNesting s > 0
                then let s1 = s\<lparr>OSLockNesting := OSLockNesting s - 1\<rparr>
                     in if OSLockNesting s1 = 0 then OS_Sched s1 else Some s1
                else Some s
           else Some s
      else Some s)"

text \<open>\<open>OSStartHighRdy\<close> sets \<open>OSRunning\<close> and raises the first context switch.\<close>

definition OSStartHighRdy :: "os \<Rightarrow> os" where
  "OSStartHighRdy s = PendSV_Handler (s\<lparr>OSRunning := True\<rparr>)"

definition OSStart :: "os \<Rightarrow> os option" where
  "OSStart s =
     (if \<not> OSRunning s
      then let s1 = OS_SchedNew s;
               s2 = s1\<lparr>OSPrioCur := OSPrioHighRdy s1\<rparr>
           in do {
             hr \<leftarrow> prio_tbl s2 (OSPrioHighRdy s2);
             let s3 = s2\<lparr>OSTCBHighRdy := hr, OSTCBCur := hr\<rparr>;
             Some (OSStartHighRdy s3)
           }
      else Some s)"

subsection \<open>The tick\<close>

text \<open>One turn of the loop of \<open>OSTimeTick\<close>: count the delay of task \<open>t\<close> down and, when it ends, turn
  a pend into a timeout and make the task ready unless it is suspended.\<close>

definition tick_task :: "nat \<Rightarrow> os \<Rightarrow> os" where
  "tick_task t s =
     (if OSTCBDly (OSTCBTbl s t) \<noteq> 0
      then let s1 = upd_tcb t (\<lambda>c. c\<lparr>OSTCBDly := OSTCBDly c - 1\<rparr>) s
           in if OSTCBDly (OSTCBTbl s1 t) = 0
              then let s2 = (if OSTCBStat (OSTCBTbl s1 t) AND OS_STAT_PEND_ANY \<noteq> OS_STAT_RDY
                             then upd_tcb t (\<lambda>c. c\<lparr>OSTCBStat := OSTCBStat c AND NOT OS_STAT_PEND_ANY,
                                                   OSTCBStatPend := OS_STAT_PEND_TO\<rparr>) s1
                             else upd_tcb t (\<lambda>c. c\<lparr>OSTCBStatPend := OS_STAT_PEND_OK\<rparr>) s1)
                   in if OSTCBStat (OSTCBTbl s2 t) AND OS_STAT_SUSPEND = OS_STAT_RDY
                      then rdy_ins t s2 else s2
              else s1
      else s)"

text \<open>The walk along \<open>OSTCBList\<close> to the idle task, which is always its last element.\<close>

partial_function (option) tick_walk :: "tcbptr \<Rightarrow> os \<Rightarrow> os option" where
  "tick_walk p s = do {
     t \<leftarrow> deref_tcb p;
     if OSTCBPrio (OSTCBTbl s t) = OS_TASK_IDLE_PRIO then Some s
     else (let s1 = tick_task t s in tick_walk (OSTCBNext (OSTCBTbl s1 t)) s1)
   }"

definition OSTimeTick :: "os \<Rightarrow> os option" where
  "OSTimeTick s =
     (let s1 = s\<lparr>OSTime := OSTime s + 1\<rparr>
      in if OSRunning s1
         then let st = OSTickStepState s1;
                  step = (st \<noteq> OS_TICK_STEP_WAIT);
                  s2 = (if st = OS_TICK_STEP_DIS then s1
                        else if st = OS_TICK_STEP_WAIT then s1
                        else if st = OS_TICK_STEP_ONCE then s1\<lparr>OSTickStepState := OS_TICK_STEP_WAIT\<rparr>
                        else s1\<lparr>OSTickStepState := OS_TICK_STEP_DIS\<rparr>)
              in if \<not> step then Some s2 else tick_walk (OSTCBList s2) s2
         else Some s1)"

text \<open>The tick interrupt: \<open>OS_CPU_SysTickHandler\<close> of \<^verbatim>\<open>src/ucos/PORT/os_cpu_c.c\<close>.\<close>

definition OS_CPU_SysTickHandler :: "os \<Rightarrow> os option" where
  "OS_CPU_SysTickHandler s = do {
     s1 \<leftarrow> OSTimeTick (OSIntEnter s);
     OSIntExit s1
   }"

subsection \<open>Waiting on events\<close>

definition OS_EventTaskRemove :: "nat \<Rightarrow> nat \<Rightarrow> os \<Rightarrow> os option" where
  "OS_EventTaskRemove t e s = do {
     _ \<leftarrow> evt s e;
     Some (upd_tcb t (\<lambda>c. c\<lparr>OSTCBEventPtr := None\<rparr>) (wait_del t e s))
   }"

fun OS_EventTaskRemoveMulti :: "nat \<Rightarrow> nat list \<Rightarrow> os \<Rightarrow> os option" where
  "OS_EventTaskRemoveMulti t [] s = Some s"
| "OS_EventTaskRemoveMulti t (e # es) s = do {
     _ \<leftarrow> evt s e;
     OS_EventTaskRemoveMulti t es (wait_del t e s)
   }"

text \<open>Make the highest-priority task that waits on \<open>e\<close> ready. The row used for the ready table is
  the one read from the event's bitmap, the bits are the task's own.\<close>

definition OS_EventTaskRdy :: "nat \<Rightarrow> vptr \<Rightarrow> u8 \<Rightarrow> u8 \<Rightarrow> os \<Rightarrow> (u8 \<times> os) option" where
  "OS_EventTaskRdy e pmsg msk pend_stat s = do {
     ev \<leftarrow> evt s e;
     let y = unmap (OSEventGrp ev);
     let x = unmap (OSEventTbl ev y);
     let prio = push_bit 3 y + x;
     p \<leftarrow> prio_tbl s prio;
     t \<leftarrow> deref_tcb p;
     let s1 = upd_tcb t (\<lambda>c. c\<lparr>OSTCBDly := 0, OSTCBMsg := pmsg,
                 OSTCBStat := OSTCBStat c AND NOT msk, OSTCBStatPend := pend_stat\<rparr>) s;
     let c = OSTCBTbl s1 t;
     let s2 = (if OSTCBStat c AND OS_STAT_SUSPEND = OS_STAT_RDY
               then set_rdy_bm (bm_ins y (OSTCBBitX c) (OSTCBBitY c) (rdy_bm s1)) s1 else s1);
     s3 \<leftarrow> OS_EventTaskRemove t e s2;
     case OSTCBEventMultiPtr (OSTCBTbl s3 t) of
       None \<Rightarrow> Some (prio, s3)
     | Some es \<Rightarrow> do {
         s4 \<leftarrow> OS_EventTaskRemoveMulti t es s3;
         Some (prio, upd_tcb t (\<lambda>c. c\<lparr>OSTCBEventMultiPtr := None, OSTCBEventMultiRdy := Some e\<rparr>) s4)
       }
   }"

text \<open>\<open>while (pevent->OSEventGrp != 0u) { OS_EventTaskRdy(...); nbr_tasks++; }\<close>\<close>

partial_function (option) event_rdy_all ::
    "nat \<Rightarrow> vptr \<Rightarrow> u8 \<Rightarrow> u8 \<Rightarrow> u8 \<Rightarrow> os \<Rightarrow> (u8 \<times> os) option" where
  "event_rdy_all e pmsg msk pend_stat nbr s = do {
     ev \<leftarrow> evt s e;
     if OSEventGrp ev = 0 then Some (nbr, s)
     else do {
       r \<leftarrow> OS_EventTaskRdy e pmsg msk pend_stat s;
       event_rdy_all e pmsg msk pend_stat (nbr + 1) (snd r)
     }
   }"

text \<open>The running task waits on \<open>e\<close>.\<close>

definition OS_EventTaskWait :: "nat \<Rightarrow> os \<Rightarrow> os option" where
  "OS_EventTaskWait e s = do {
     cur \<leftarrow> deref_tcb (OSTCBCur s);
     _ \<leftarrow> evt s e;
     let s1 = upd_tcb cur (\<lambda>c. c\<lparr>OSTCBEventPtr := Some e\<rparr>) s;
     Some (rdy_del cur (wait_ins cur e s1))
   }"

fun wait_ins_all :: "nat \<Rightarrow> nat list \<Rightarrow> os \<Rightarrow> os option" where
  "wait_ins_all t [] s = Some s"
| "wait_ins_all t (e # es) s = do {
     _ \<leftarrow> evt s e;
     wait_ins_all t es (wait_ins t e s)
   }"

definition OS_EventTaskWaitMulti :: "nat list \<Rightarrow> os \<Rightarrow> os option" where
  "OS_EventTaskWaitMulti es s = do {
     cur \<leftarrow> deref_tcb (OSTCBCur s);
     let s1 = upd_tcb cur (\<lambda>c. c\<lparr>OSTCBEventMultiPtr := Some es, OSTCBEventMultiRdy := None\<rparr>) s;
     s2 \<leftarrow> wait_ins_all cur es s1;
     Some (rdy_del cur s2)
   }"

definition OS_EventWaitListInit :: "nat \<Rightarrow> os \<Rightarrow> os" where
  "OS_EventWaitListInit e s = upd_evt e (\<lambda>ev. ev\<lparr>OSEventGrp := 0,
     OSEventTbl := (\<lambda>i. if i < 8 then 0 else OSEventTbl ev i)\<rparr>) s"

subsection \<open>Event control blocks: allocation, release, names\<close>

text \<open>\<open>pevent = OSEventFreeList; if (OSEventFreeList != 0) OSEventFreeList = OSEventFreeList->OSEventPtr;\<close>\<close>

definition event_alloc :: "os \<Rightarrow> (nat option \<times> os) option" where
  "event_alloc s = (if OSEventFreeList s = VNull then Some (None, s)
     else do {
       e \<leftarrow> deref_evt (OSEventFreeList s);
       Some (Some e, s\<lparr>OSEventFreeList := OSEventPtr (OSEvents s e)\<rparr>)
     })"

text \<open>The end of every \<open>OS...Del\<close>: the block goes to the front of the free list.\<close>

definition event_release :: "nat \<Rightarrow> os \<Rightarrow> os" where
  "event_release e s = (upd_evt e (\<lambda>ev. ev\<lparr>OSEventName := ''?'', OSEventType := OS_EVENT_TYPE_UNUSED,
       OSEventPtr := OSEventFreeList s, OSEventCnt := 0\<rparr>) s)\<lparr>OSEventFreeList := VEvt e\<rparr>"

text \<open>\<open>OS_StrLen\<close> counts in a byte.\<close>

fun strlen_loop :: "string \<Rightarrow> u8 \<Rightarrow> u8" where
  "strlen_loop [] len = len"
| "strlen_loop (c # cs) len = strlen_loop cs (len + 1)"

definition OS_StrLen :: "string \<Rightarrow> u8" where
  "OS_StrLen psrc = strlen_loop psrc 0"

definition named_event :: "u8 \<Rightarrow> bool" where
  "named_event ty \<longleftrightarrow> ty = OS_EVENT_TYPE_SEM \<or> ty = OS_EVENT_TYPE_MUTEX \<or> ty = OS_EVENT_TYPE_MBOX
     \<or> ty = OS_EVENT_TYPE_Q"

text \<open>Result: length, the name handed out (if any), error code.\<close>

definition OSEventNameGet :: "nat \<Rightarrow> os \<Rightarrow> (u8 \<times> string option \<times> u8) option" where
  "OSEventNameGet e s = (if OSIntNesting s > 0 then Some (0, None, OS_ERR_NAME_GET_ISR)
     else do {
       ev \<leftarrow> evt s e;
       if named_event (OSEventType ev)
       then Some (OS_StrLen (OSEventName ev), Some (OSEventName ev), OS_ERR_NONE)
       else Some (0, None, OS_ERR_EVENT_TYPE)
     })"

definition OSEventNameSet :: "nat \<Rightarrow> string \<Rightarrow> os \<Rightarrow> (u8 \<times> os) option" where
  "OSEventNameSet e pname s = (if OSIntNesting s > 0 then Some (OS_ERR_NAME_SET_ISR, s)
     else do {
       ev \<leftarrow> evt s e;
       if named_event (OSEventType ev)
       then Some (OS_ERR_NONE, upd_evt e (\<lambda>ev. ev\<lparr>OSEventName := pname\<rparr>) s)
       else Some (OS_ERR_EVENT_TYPE, s)
     })"

subsection \<open>The common parts of the pend calls\<close>

text \<open>The lines that every pend call ends its first half with, before \<open>OS_Sched\<close>: note the reason in
  the status, start the timeout, and wait on the event.\<close>

definition pend_block :: "u8 \<Rightarrow> nat \<Rightarrow> u32 \<Rightarrow> os \<Rightarrow> os option" where
  "pend_block stat_bit e timeout s = do {
     cur \<leftarrow> deref_tcb (OSTCBCur s);
     OS_EventTaskWait e (upd_tcb cur (\<lambda>c. c\<lparr>OSTCBStat := OSTCBStat c OR stat_bit,
       OSTCBStatPend := OS_STAT_PEND_OK, OSTCBDly := timeout\<rparr>) s)
   }"

text \<open>The lines at the end of every pend call, when the task runs again.\<close>

definition pend_clear :: "nat \<Rightarrow> os \<Rightarrow> os" where
  "pend_clear cur s = upd_tcb cur (\<lambda>c. c\<lparr>OSTCBStat := OS_STAT_RDY, OSTCBStatPend := OS_STAT_PEND_OK,
     OSTCBEventPtr := None, OSTCBEventMultiPtr := None, OSTCBEventMultiRdy := None\<rparr>) s"

text \<open>What \<open>OSSemPend\<close> and \<open>OSMutexPend\<close> do when the task runs again; \<open>OSMboxPend\<close> and \<open>OSQPend\<close>
  also fetch and clear the message.\<close>

definition pend_wake :: "nat \<Rightarrow> os \<Rightarrow> (u8 \<times> os) option" where
  "pend_wake e s = do {
     cur \<leftarrow> deref_tcb (OSTCBCur s);
     let st = OSTCBStatPend (OSTCBTbl s cur);
     r \<leftarrow> (if st = OS_STAT_PEND_OK then Some (OS_ERR_NONE, s)
           else if st = OS_STAT_PEND_ABORT then Some (OS_ERR_PEND_ABORT, s)
           else do {
             s1 \<leftarrow> OS_EventTaskRemove cur e s;
             Some (OS_ERR_TIMEOUT, s1)
           });
     Some (fst r, pend_clear cur (snd r))
   }"

text \<open>A pend call either returns at once or blocks; a blocked call resumes, in a later step of the
  same task, with the definition named \<open>..._resume\<close>.\<close>

datatype 'a pended = Returns 'a | Blocks

text \<open>The body of the \<open>OS...PendAbort\<close> calls behind the check of the event's type. Result: number of
  tasks readied, error code, state.\<close>

definition pend_abort :: "u8 \<Rightarrow> nat \<Rightarrow> u8 \<Rightarrow> os \<Rightarrow> (u8 \<times> u8 \<times> os) option" where
  "pend_abort msk e opt s = do {
     ev \<leftarrow> evt s e;
     if OSEventGrp ev \<noteq> 0
     then do {
       r \<leftarrow> (if opt = OS_PEND_OPT_BROADCAST then event_rdy_all e VNull msk OS_STAT_PEND_ABORT 0 s
             else do {
               q \<leftarrow> OS_EventTaskRdy e VNull msk OS_STAT_PEND_ABORT s;
               Some (1, snd q)
             });
       s2 \<leftarrow> OS_Sched (snd r);
       Some (fst r, OS_ERR_PEND_ABORT, s2)
     }
     else Some (0, OS_ERR_NONE, s)
   }"

text \<open>The body of \<open>OSSemDel\<close>, \<open>OSMboxDel\<close> and \<open>OSQDel\<close> behind their guards; \<open>release\<close> gives the control
  block (and the queue) back. Result: the pointer returned (\<open>None\<close> for null), error code, state.\<close>

definition event_del :: "u8 \<Rightarrow> (nat \<Rightarrow> os \<Rightarrow> os option) \<Rightarrow> nat \<Rightarrow> u8 \<Rightarrow> os \<Rightarrow> (nat option \<times> u8 \<times> os) option" where
  "event_del msk release e opt s = do {
     ev \<leftarrow> evt s e;
     let tasks_waiting = (OSEventGrp ev \<noteq> 0);
     if opt = OS_DEL_NO_PEND
     then if \<not> tasks_waiting
          then do { s1 \<leftarrow> release e s; Some (None, OS_ERR_NONE, s1) }
          else Some (Some e, OS_ERR_TASK_WAITING, s)
     else if opt = OS_DEL_ALWAYS
     then do {
       r \<leftarrow> event_rdy_all e VNull msk OS_STAT_PEND_ABORT 0 s;
       s1 \<leftarrow> release e (snd r);
       s2 \<leftarrow> (if tasks_waiting then OS_Sched s1 else Some s1);
       Some (None, OS_ERR_NONE, s2)
     }
     else Some (Some e, OS_ERR_INVALID_OPT, s)
   }"

text \<open>The second half of \<open>OSMboxPend\<close> and \<open>OSQPend\<close>: message, error code, state.\<close>

definition pend_wake_msg :: "nat \<Rightarrow> os \<Rightarrow> (vptr \<times> u8 \<times> os) option" where
  "pend_wake_msg e s = do {
     cur \<leftarrow> deref_tcb (OSTCBCur s);
     let st = OSTCBStatPend (OSTCBTbl s cur);
     r \<leftarrow> (if st = OS_STAT_PEND_OK then Some (OSTCBMsg (OSTCBTbl s cur), OS_ERR_NONE, s)
           else if st = OS_STAT_PEND_ABORT then Some (VNull, OS_ERR_PEND_ABORT, s)
           else do {
             s1 \<leftarrow> OS_EventTaskRemove cur e s;
             Some (VNull, OS_ERR_TIMEOUT, s1)
           });
     Some (fst r, fst (snd r), upd_tcb cur (\<lambda>c. c\<lparr>OSTCBMsg := VNull\<rparr>) (pend_clear cur (snd (snd r))))
   }"

end
