(* ===== verification/OS_Inv.thy ===== *)
theory OS_Inv
  imports OS_Core
begin

text \<open>
  The invariant of the kernel's scheduling data and how the primitive updates act on it.
  A task is active when the priority table leads back to it. The ready list holds exactly the
  priorities of active tasks that are neither suspended nor delayed nor pending; a priority on an
  event's wait list belongs to an active task that points at that event and is blocked there or
  has timed out without having run since. \<open>sched_inv_change\<close> is the workhorse: an operation that
  touches one task keeps the invariant when that task is consistent afterwards.
\<close>

subsection \<open>Abstraction of the scheduling data\<close>

definition ready :: "os \<Rightarrow> u8 set" where
  "ready s = bm_set (rdy_bm s)"

definition waiters :: "os \<Rightarrow> nat \<Rightarrow> u8 set" where
  "waiters s e = bm_set (evt_bm (OSEvents s e))"

abbreviation prio :: "os \<Rightarrow> nat \<Rightarrow> u8" where
  "prio s t \<equiv> OSTCBPrio (OSTCBTbl s t)"

definition act :: "os \<Rightarrow> nat \<Rightarrow> bool" where
  "act s t \<longleftrightarrow> t < OS_MAX_TCBS \<and> prio s t < 64 \<and> OSTCBPrioTbl s (prio s t) = TPtr t"

definition susp :: "os_tcb \<Rightarrow> bool" where
  "susp c \<longleftrightarrow> OSTCBStat c AND OS_STAT_SUSPEND \<noteq> OS_STAT_RDY"

definition pend :: "os_tcb \<Rightarrow> bool" where
  "pend c \<longleftrightarrow> OSTCBStat c AND OS_STAT_PEND_ANY \<noteq> OS_STAT_RDY"

definition multi :: "os_tcb \<Rightarrow> bool" where
  "multi c \<longleftrightarrow> OSTCBStat c AND OS_STAT_MULTI \<noteq> OS_STAT_RDY"

text \<open>May run: neither suspended, nor delayed, nor pending.\<close>

definition runnable :: "os_tcb \<Rightarrow> bool" where
  "runnable c \<longleftrightarrow> \<not> susp c \<and> OSTCBDly c = 0 \<and> \<not> pend c"

definition tcb_prio_ok :: "os_tcb \<Rightarrow> bool" where
  "tcb_prio_ok c \<longleftrightarrow> OSTCBPrio c < 64 \<and> OSTCBY c = drop_bit 3 (OSTCBPrio c) \<and>
     OSTCBX c = OSTCBPrio c AND 7 \<and> OSTCBBitX c = shl1 (OSTCBX c) \<and> OSTCBBitY c = shl1 (OSTCBY c)"

text \<open>A task made ready out of a pend on several events keeps the status bits of the other events
  until it runs, so the equivalence is stated for tasks without the multi-pend bit.\<close>

definition rdy_cond :: "bool \<Rightarrow> os_tcb \<Rightarrow> bool" where
  "rdy_cond r c \<longleftrightarrow> (r \<longrightarrow> \<not> susp c \<and> OSTCBDly c = 0) \<and> (\<not> multi c \<longrightarrow> (r \<longleftrightarrow> runnable c))"

definition evt_refs :: "os_tcb \<Rightarrow> nat set" where
  "evt_refs c = set_option (OSTCBEventPtr c) \<union>
     (case OSTCBEventMultiPtr c of None \<Rightarrow> {} | Some es \<Rightarrow> set es)"

text \<open>The status bit with which a task waits on an event of each type.\<close>

definition evt_mask :: "u8 \<Rightarrow> u8" where
  "evt_mask ty = (if ty = OS_EVENT_TYPE_SEM then OS_STAT_SEM
     else if ty = OS_EVENT_TYPE_MBOX then OS_STAT_MBOX
     else if ty = OS_EVENT_TYPE_Q then OS_STAT_Q
     else if ty = OS_EVENT_TYPE_MUTEX then OS_STAT_MUTEX else 0)"

definition wait_cond :: "bool \<Rightarrow> u8 \<Rightarrow> os_tcb \<Rightarrow> bool" where
  "wait_cond r msk c \<longleftrightarrow> ((OSTCBStatPend c = OS_STAT_PEND_TO \<and> OSTCBDly c = 0) \<or> (pend c \<and> \<not> r)) \<and>
     (\<not> multi c \<longrightarrow> OSTCBStat c AND OS_STAT_PEND_ANY AND NOT msk = 0)"

abbreviation emask :: "os \<Rightarrow> nat \<Rightarrow> u8" where
  "emask s e \<equiv> evt_mask (OSEventType (OSEvents s e))"

definition task_ok :: "os \<Rightarrow> nat \<Rightarrow> bool" where
  "task_ok s t \<longleftrightarrow> (let c = OSTCBTbl s t; r = (OSTCBPrio c \<in> ready s) in
     tcb_prio_ok c \<and> rdy_cond r c \<and> evt_refs c \<subseteq> {..<OS_MAX_EVENTS} \<and>
     (OSTCBEventPtr c = None \<or> OSTCBEventMultiPtr c = None) \<and>
     (\<forall>e. OSTCBPrio c \<in> waiters s e \<longrightarrow> e \<in> evt_refs c \<and> wait_cond r (emask s e) c))"

definition sched_inv :: "os \<Rightarrow> bool" where
  "sched_inv s \<longleftrightarrow> bm_ok (rdy_bm s) \<and> (\<forall>e. bm_ok (evt_bm (OSEvents s e))) \<and>
     (\<forall>p t. p < 64 \<longrightarrow> OSTCBPrioTbl s p = TPtr t \<longrightarrow> act s t) \<and>
     (\<forall>p \<in> ready s. \<exists>t. act s t \<and> prio s t = p) \<and>
     (\<forall>e. \<forall>p \<in> waiters s e. \<exists>t. act s t \<and> prio s t = p) \<and>
     (\<forall>t. act s t \<longrightarrow> task_ok s t) \<and>
     OS_TASK_IDLE_PRIO \<in> ready s"

lemma sched_invI:
  assumes "bm_ok (rdy_bm s)" and "\<And>e. bm_ok (evt_bm (OSEvents s e))"
    and "\<And>p t. p < 64 \<Longrightarrow> OSTCBPrioTbl s p = TPtr t \<Longrightarrow> act s t"
    and "\<And>p. p \<in> ready s \<Longrightarrow> \<exists>t. act s t \<and> prio s t = p"
    and "\<And>e p. p \<in> waiters s e \<Longrightarrow> \<exists>t. act s t \<and> prio s t = p"
    and "\<And>t. act s t \<Longrightarrow> task_ok s t"
    and "OS_TASK_IDLE_PRIO \<in> ready s"
  shows "sched_inv s"
  using assms by (auto simp: sched_inv_def)

lemma sched_invD:
  assumes "sched_inv s"
  shows "bm_ok (rdy_bm s)" and "bm_ok (evt_bm (OSEvents s e))"
    and "p < 64 \<Longrightarrow> OSTCBPrioTbl s p = TPtr t \<Longrightarrow> act s t"
    and "p \<in> ready s \<Longrightarrow> \<exists>t. act s t \<and> prio s t = p"
    and "p \<in> waiters s e \<Longrightarrow> \<exists>t. act s t \<and> prio s t = p"
    and "act s t \<Longrightarrow> task_ok s t"
    and "OS_TASK_IDLE_PRIO \<in> ready s"
  using assms by (auto simp: sched_inv_def)

lemma act_prio_inj: "act s t \<Longrightarrow> act s u \<Longrightarrow> prio s t = prio s u \<Longrightarrow> t = u"
  by (auto simp: act_def)

lemma task_okD:
  assumes "task_ok s t"
  shows "tcb_prio_ok (OSTCBTbl s t)" and "rdy_cond (prio s t \<in> ready s) (OSTCBTbl s t)"
    and "evt_refs (OSTCBTbl s t) \<subseteq> {..<OS_MAX_EVENTS}"
    and "OSTCBEventPtr (OSTCBTbl s t) = None \<or> OSTCBEventMultiPtr (OSTCBTbl s t) = None"
    and "prio s t \<in> waiters s e \<Longrightarrow> e \<in> evt_refs (OSTCBTbl s t)"
    and "prio s t \<in> waiters s e \<Longrightarrow> wait_cond (prio s t \<in> ready s) (emask s e) (OSTCBTbl s t)"
  using assms by (auto simp: task_ok_def Let_def)

lemma sched_inv_tcb: "sched_inv s \<Longrightarrow> act s t \<Longrightarrow> tcb_prio_ok (OSTCBTbl s t)"
  by (blast dest: sched_invD(6) task_okD(1))

lemma ready_less: "p \<in> ready s \<Longrightarrow> p < 64"
  by (simp add: ready_def bm_set_def)

lemma waiters_less: "p \<in> waiters s e \<Longrightarrow> p < 64"
  by (simp add: waiters_def bm_set_def)

subsection \<open>The primitives as set operations\<close>

lemma tcb_prio_ok_bm:
  assumes "tcb_prio_ok c"
  shows "bm_ins (OSTCBY c) (OSTCBBitX c) (OSTCBBitY c) = bm_add (OSTCBPrio c)"
    and "bm_del (OSTCBY c) (OSTCBBitX c) (OSTCBBitY c) = bm_drop (OSTCBPrio c)"
    and "OSTCBPrio c < 64"
  using assms by (simp_all add: tcb_prio_ok_def bm_add_def bm_drop_def fun_eq_iff)

lemma rdy_bm_set [simp]: "rdy_bm (set_rdy_bm m s) = m"
  by (simp add: rdy_bm_def set_rdy_bm_def)

lemma evt_bm_set [simp]: "evt_bm (set_evt_bm m ev) = m"
  by (simp add: evt_bm_def set_evt_bm_def)

lemma set_rdy_bm_frame [simp]:
  "OSTCBTbl (set_rdy_bm m s) = OSTCBTbl s" "OSEvents (set_rdy_bm m s) = OSEvents s"
  "OSTCBPrioTbl (set_rdy_bm m s) = OSTCBPrioTbl s" "OSTCBCur (set_rdy_bm m s) = OSTCBCur s"
  "OSPrioCur (set_rdy_bm m s) = OSPrioCur s" "OSIntNesting (set_rdy_bm m s) = OSIntNesting s"
  "OSLockNesting (set_rdy_bm m s) = OSLockNesting s" "OSRunning (set_rdy_bm m s) = OSRunning s"
  "OSTCBList (set_rdy_bm m s) = OSTCBList s" "OSTCBFreeList (set_rdy_bm m s) = OSTCBFreeList s"
  "OSEventFreeList (set_rdy_bm m s) = OSEventFreeList s" "OSQTbl (set_rdy_bm m s) = OSQTbl s"
  "OSQFreeList (set_rdy_bm m s) = OSQFreeList s" "OSMsgMem (set_rdy_bm m s) = OSMsgMem s"
  "OSFlagTbl (set_rdy_bm m s) = OSFlagTbl s" "OSFlagNodes (set_rdy_bm m s) = OSFlagNodes s"
  "OSFlagFreeList (set_rdy_bm m s) = OSFlagFreeList s" "OSTime (set_rdy_bm m s) = OSTime s"
  "OSTaskCtr (set_rdy_bm m s) = OSTaskCtr s"
  by (simp_all add: set_rdy_bm_def)

lemma upd_tcb_frame [simp]:
  "OSTCBTbl (upd_tcb t f s) = (OSTCBTbl s)(t := f (OSTCBTbl s t))" "OSEvents (upd_tcb t f s) = OSEvents s"
  "OSTCBPrioTbl (upd_tcb t f s) = OSTCBPrioTbl s" "OSTCBCur (upd_tcb t f s) = OSTCBCur s"
  "OSPrioCur (upd_tcb t f s) = OSPrioCur s" "OSIntNesting (upd_tcb t f s) = OSIntNesting s"
  "OSLockNesting (upd_tcb t f s) = OSLockNesting s" "OSRunning (upd_tcb t f s) = OSRunning s"
  "OSTCBList (upd_tcb t f s) = OSTCBList s" "OSTCBFreeList (upd_tcb t f s) = OSTCBFreeList s"
  "OSEventFreeList (upd_tcb t f s) = OSEventFreeList s" "OSQTbl (upd_tcb t f s) = OSQTbl s"
  "OSQFreeList (upd_tcb t f s) = OSQFreeList s" "OSMsgMem (upd_tcb t f s) = OSMsgMem s"
  "OSFlagTbl (upd_tcb t f s) = OSFlagTbl s" "OSFlagNodes (upd_tcb t f s) = OSFlagNodes s"
  "OSFlagFreeList (upd_tcb t f s) = OSFlagFreeList s" "OSTime (upd_tcb t f s) = OSTime s"
  "OSTaskCtr (upd_tcb t f s) = OSTaskCtr s" "rdy_bm (upd_tcb t f s) = rdy_bm s"
  "OSRdyGrp (upd_tcb t f s) = OSRdyGrp s" "OSRdyTbl (upd_tcb t f s) = OSRdyTbl s"
  by (simp_all add: upd_tcb_def rdy_bm_def)

lemma upd_evt_frame [simp]:
  "OSEvents (upd_evt e f s) = (OSEvents s)(e := f (OSEvents s e))" "OSTCBTbl (upd_evt e f s) = OSTCBTbl s"
  "OSTCBPrioTbl (upd_evt e f s) = OSTCBPrioTbl s" "OSTCBCur (upd_evt e f s) = OSTCBCur s"
  "OSPrioCur (upd_evt e f s) = OSPrioCur s" "OSIntNesting (upd_evt e f s) = OSIntNesting s"
  "OSLockNesting (upd_evt e f s) = OSLockNesting s" "OSRunning (upd_evt e f s) = OSRunning s"
  "OSTCBList (upd_evt e f s) = OSTCBList s" "OSTCBFreeList (upd_evt e f s) = OSTCBFreeList s"
  "OSEventFreeList (upd_evt e f s) = OSEventFreeList s" "OSQTbl (upd_evt e f s) = OSQTbl s"
  "OSQFreeList (upd_evt e f s) = OSQFreeList s" "OSMsgMem (upd_evt e f s) = OSMsgMem s"
  "OSFlagTbl (upd_evt e f s) = OSFlagTbl s" "OSFlagNodes (upd_evt e f s) = OSFlagNodes s"
  "OSFlagFreeList (upd_evt e f s) = OSFlagFreeList s" "OSTime (upd_evt e f s) = OSTime s"
  "OSTaskCtr (upd_evt e f s) = OSTaskCtr s" "rdy_bm (upd_evt e f s) = rdy_bm s"
  "OSRdyGrp (upd_evt e f s) = OSRdyGrp s" "OSRdyTbl (upd_evt e f s) = OSRdyTbl s"
  by (simp_all add: upd_evt_def rdy_bm_def)

subsection \<open>Effect on the ready set and the wait sets\<close>

lemma ready_upd_tcb [simp, os_ready]: "ready (upd_tcb t f s) = ready s"
  by (simp add: ready_def)

lemma ready_upd_evt [simp, os_ready]: "ready (upd_evt e f s) = ready s"
  by (simp add: ready_def)

lemma waiters_upd_tcb [simp, os_ready]: "waiters (upd_tcb t f s) = waiters s"
  by (simp add: waiters_def fun_eq_iff)

lemma waiters_set_rdy_bm [simp, os_ready]: "waiters (set_rdy_bm m s) = waiters s"
  by (simp add: waiters_def fun_eq_iff)

lemma ready_set_rdy_bm [simp]: "ready (set_rdy_bm m s) = bm_set m"
  by (simp add: ready_def)

lemma rdy_ins_eq:
  "tcb_prio_ok (OSTCBTbl s t) \<Longrightarrow> rdy_ins t s = set_rdy_bm (bm_add (prio s t) (rdy_bm s)) s"
  by (simp add: rdy_ins_def tcb_prio_ok_bm Let_def)

lemma rdy_del_eq:
  "tcb_prio_ok (OSTCBTbl s t) \<Longrightarrow> rdy_del t s = set_rdy_bm (bm_drop (prio s t) (rdy_bm s)) s"
  by (simp add: rdy_del_def tcb_prio_ok_bm Let_def)

lemma wait_ins_eq: "tcb_prio_ok (OSTCBTbl s t) \<Longrightarrow>
    wait_ins t e s = upd_evt e (\<lambda>ev. set_evt_bm (bm_add (prio s t) (evt_bm ev)) ev) s"
  by (simp add: wait_ins_def tcb_prio_ok_bm Let_def)

lemma wait_del_eq: "tcb_prio_ok (OSTCBTbl s t) \<Longrightarrow>
    wait_del t e s = upd_evt e (\<lambda>ev. set_evt_bm (bm_drop (prio s t) (evt_bm ev)) ev) s"
  by (simp add: wait_del_def tcb_prio_ok_bm Let_def)

lemma rdy_ins_frame [simp]:
  "OSTCBTbl (rdy_ins t s) = OSTCBTbl s" "OSEvents (rdy_ins t s) = OSEvents s"
  "OSTCBPrioTbl (rdy_ins t s) = OSTCBPrioTbl s" "OSTCBCur (rdy_ins t s) = OSTCBCur s"
  "OSPrioCur (rdy_ins t s) = OSPrioCur s" "OSIntNesting (rdy_ins t s) = OSIntNesting s"
  "OSLockNesting (rdy_ins t s) = OSLockNesting s" "OSRunning (rdy_ins t s) = OSRunning s"
  "OSTCBList (rdy_ins t s) = OSTCBList s" "OSTCBFreeList (rdy_ins t s) = OSTCBFreeList s"
  "OSEventFreeList (rdy_ins t s) = OSEventFreeList s" "OSQTbl (rdy_ins t s) = OSQTbl s"
  "OSQFreeList (rdy_ins t s) = OSQFreeList s" "OSMsgMem (rdy_ins t s) = OSMsgMem s"
  "OSFlagTbl (rdy_ins t s) = OSFlagTbl s" "OSFlagNodes (rdy_ins t s) = OSFlagNodes s"
  "OSFlagFreeList (rdy_ins t s) = OSFlagFreeList s" "OSTime (rdy_ins t s) = OSTime s"
  "OSTaskCtr (rdy_ins t s) = OSTaskCtr s" "waiters (rdy_ins t s) = waiters s"
  by (simp_all add: rdy_ins_def Let_def)

lemma rdy_del_frame [simp]:
  "OSTCBTbl (rdy_del t s) = OSTCBTbl s" "OSEvents (rdy_del t s) = OSEvents s"
  "OSTCBPrioTbl (rdy_del t s) = OSTCBPrioTbl s" "OSTCBCur (rdy_del t s) = OSTCBCur s"
  "OSPrioCur (rdy_del t s) = OSPrioCur s" "OSIntNesting (rdy_del t s) = OSIntNesting s"
  "OSLockNesting (rdy_del t s) = OSLockNesting s" "OSRunning (rdy_del t s) = OSRunning s"
  "OSTCBList (rdy_del t s) = OSTCBList s" "OSTCBFreeList (rdy_del t s) = OSTCBFreeList s"
  "OSEventFreeList (rdy_del t s) = OSEventFreeList s" "OSQTbl (rdy_del t s) = OSQTbl s"
  "OSQFreeList (rdy_del t s) = OSQFreeList s" "OSMsgMem (rdy_del t s) = OSMsgMem s"
  "OSFlagTbl (rdy_del t s) = OSFlagTbl s" "OSFlagNodes (rdy_del t s) = OSFlagNodes s"
  "OSFlagFreeList (rdy_del t s) = OSFlagFreeList s" "OSTime (rdy_del t s) = OSTime s"
  "OSTaskCtr (rdy_del t s) = OSTaskCtr s" "waiters (rdy_del t s) = waiters s"
  by (simp_all add: rdy_del_def Let_def)

lemma wait_ins_frame [simp]:
  "OSTCBTbl (wait_ins t e s) = OSTCBTbl s" "rdy_bm (wait_ins t e s) = rdy_bm s"
  "OSTCBPrioTbl (wait_ins t e s) = OSTCBPrioTbl s" "OSTCBCur (wait_ins t e s) = OSTCBCur s"
  "OSPrioCur (wait_ins t e s) = OSPrioCur s" "OSIntNesting (wait_ins t e s) = OSIntNesting s"
  "OSLockNesting (wait_ins t e s) = OSLockNesting s" "OSRunning (wait_ins t e s) = OSRunning s"
  "OSTCBList (wait_ins t e s) = OSTCBList s" "OSTCBFreeList (wait_ins t e s) = OSTCBFreeList s"
  "OSEventFreeList (wait_ins t e s) = OSEventFreeList s" "OSQTbl (wait_ins t e s) = OSQTbl s"
  "OSQFreeList (wait_ins t e s) = OSQFreeList s" "OSMsgMem (wait_ins t e s) = OSMsgMem s"
  "OSFlagTbl (wait_ins t e s) = OSFlagTbl s" "OSFlagNodes (wait_ins t e s) = OSFlagNodes s"
  "OSFlagFreeList (wait_ins t e s) = OSFlagFreeList s" "OSTime (wait_ins t e s) = OSTime s"
  "OSTaskCtr (wait_ins t e s) = OSTaskCtr s" "ready (wait_ins t e s) = ready s"
  by (simp_all add: wait_ins_def Let_def ready_def)

lemma wait_del_frame [simp]:
  "OSTCBTbl (wait_del t e s) = OSTCBTbl s" "rdy_bm (wait_del t e s) = rdy_bm s"
  "OSTCBPrioTbl (wait_del t e s) = OSTCBPrioTbl s" "OSTCBCur (wait_del t e s) = OSTCBCur s"
  "OSPrioCur (wait_del t e s) = OSPrioCur s" "OSIntNesting (wait_del t e s) = OSIntNesting s"
  "OSLockNesting (wait_del t e s) = OSLockNesting s" "OSRunning (wait_del t e s) = OSRunning s"
  "OSTCBList (wait_del t e s) = OSTCBList s" "OSTCBFreeList (wait_del t e s) = OSTCBFreeList s"
  "OSEventFreeList (wait_del t e s) = OSEventFreeList s" "OSQTbl (wait_del t e s) = OSQTbl s"
  "OSQFreeList (wait_del t e s) = OSQFreeList s" "OSMsgMem (wait_del t e s) = OSMsgMem s"
  "OSFlagTbl (wait_del t e s) = OSFlagTbl s" "OSFlagNodes (wait_del t e s) = OSFlagNodes s"
  "OSFlagFreeList (wait_del t e s) = OSFlagFreeList s" "OSTime (wait_del t e s) = OSTime s"
  "OSTaskCtr (wait_del t e s) = OSTaskCtr s" "ready (wait_del t e s) = ready s"
  by (simp_all add: wait_del_def Let_def ready_def)

lemma ready_rdy_ins [os_ready]:
  "tcb_prio_ok (OSTCBTbl s t) \<Longrightarrow> ready (rdy_ins t s) = insert (prio s t) (ready s)"
  by (simp add: rdy_ins_eq bm_set_add tcb_prio_ok_bm ready_def)

lemma ready_rdy_del [os_ready]:
  "tcb_prio_ok (OSTCBTbl s t) \<Longrightarrow> ready (rdy_del t s) = ready s - {prio s t}"
  by (simp add: rdy_del_eq bm_set_drop tcb_prio_ok_bm ready_def)

lemma waiters_wait_ins [os_ready]: "tcb_prio_ok (OSTCBTbl s t) \<Longrightarrow>
    waiters (wait_ins t e s) = (waiters s)(e := insert (prio s t) (waiters s e))"
  by (auto simp: wait_ins_eq waiters_def bm_set_add tcb_prio_ok_bm fun_eq_iff)

lemma waiters_wait_del [os_ready]: "tcb_prio_ok (OSTCBTbl s t) \<Longrightarrow>
    waiters (wait_del t e s) = (waiters s)(e := waiters s e - {prio s t})"
  by (auto simp: wait_del_eq waiters_def bm_set_drop tcb_prio_ok_bm fun_eq_iff)

lemma bm_ok_rdy_ins: "tcb_prio_ok (OSTCBTbl s t) \<Longrightarrow> bm_ok (rdy_bm s) \<Longrightarrow> bm_ok (rdy_bm (rdy_ins t s))"
  by (simp add: rdy_ins_eq bm_ok_add tcb_prio_ok_bm)

lemma bm_ok_rdy_del: "tcb_prio_ok (OSTCBTbl s t) \<Longrightarrow> bm_ok (rdy_bm s) \<Longrightarrow> bm_ok (rdy_bm (rdy_del t s))"
  by (simp add: rdy_del_eq bm_ok_drop tcb_prio_ok_bm)

lemma bm_ok_wait_ins: "tcb_prio_ok (OSTCBTbl s t) \<Longrightarrow> \<forall>e. bm_ok (evt_bm (OSEvents s e)) \<Longrightarrow>
    bm_ok (evt_bm (OSEvents (wait_ins t i s) e))"
  by (auto simp: wait_ins_eq bm_ok_add tcb_prio_ok_bm)

lemma bm_ok_wait_del: "tcb_prio_ok (OSTCBTbl s t) \<Longrightarrow> \<forall>e. bm_ok (evt_bm (OSEvents s e)) \<Longrightarrow>
    bm_ok (evt_bm (OSEvents (wait_del t i s) e))"
  by (auto simp: wait_del_eq bm_ok_drop tcb_prio_ok_bm)

lemmas bm_ok_prims = bm_ok_rdy_ins bm_ok_rdy_del bm_ok_wait_ins bm_ok_wait_del

subsection \<open>Keeping the invariant\<close>

text \<open>The fields of a task the invariant looks at.\<close>

definition prio_view :: "os_tcb \<Rightarrow> u8 \<times> u8 \<times> u8 \<times> u8 \<times> u8" where
  "prio_view c = (OSTCBPrio c, OSTCBY c, OSTCBX c, OSTCBBitX c, OSTCBBitY c)"

definition sched_view :: "os_tcb \<Rightarrow> _" where
  "sched_view c = (prio_view c, OSTCBStat c, OSTCBStatPend c, OSTCBDly c, OSTCBEventPtr c, OSTCBEventMultiPtr c)"

lemma sched_view_conds:
  assumes "sched_view c = sched_view c'"
  shows "OSTCBPrio c = OSTCBPrio c'" "tcb_prio_ok c = tcb_prio_ok c'" "rdy_cond r c = rdy_cond r c'"
    "evt_refs c = evt_refs c'" "wait_cond r m c = wait_cond r m c'"
    "OSTCBEventPtr c = OSTCBEventPtr c'" "OSTCBEventMultiPtr c = OSTCBEventMultiPtr c'"
  using assms by (simp_all add: sched_view_def prio_view_def tcb_prio_ok_def rdy_cond_def susp_def
      multi_def runnable_def pend_def evt_refs_def wait_cond_def)

text \<open>Whoever leaves the bitmaps, the priority table and that view of the tasks alone keeps it.\<close>

lemma sched_inv_cong:
  assumes inv: "sched_inv s"
    and rdy: "rdy_bm s' = rdy_bm s" and ev: "\<And>e. evt_bm (OSEvents s' e) = evt_bm (OSEvents s e)"
    and pt: "OSTCBPrioTbl s' = OSTCBPrioTbl s"
    and tcb: "\<And>t. sched_view (OSTCBTbl s' t) = sched_view (OSTCBTbl s t)"
    and ty: "\<And>e. waiters s e \<noteq> {} \<Longrightarrow> emask s' e = emask s e"
  shows "sched_inv s'"
proof -
  note v = sched_view_conds [OF tcb]
  have sets: "ready s' = ready s" "waiters s' = waiters s"
    using rdy ev by (simp_all add: ready_def waiters_def fun_eq_iff)
  have "act s' = act s" by (simp add: act_def fun_eq_iff v pt)
  moreover have "task_ok s' = task_ok s"
    using ty by (simp add: task_ok_def fun_eq_iff Let_def v sets) (metis empty_iff)
  ultimately show ?thesis
    using inv by (simp add: sched_inv_def rdy ev pt sets v)
qed

text \<open>An operation on one task: its priority stays, the membership of every other priority in the
  ready and wait sets stays, and the task is consistent afterwards.\<close>

lemma sched_inv_change:
  assumes inv: "sched_inv s" and act: "act s t"
    and pt: "OSTCBPrioTbl s' = OSTCBPrioTbl s"
    and others: "\<And>u. u \<noteq> t \<Longrightarrow> sched_view (OSTCBTbl s' u) = sched_view (OSTCBTbl s u)"
    and pv: "prio_view (OSTCBTbl s' t) = prio_view (OSTCBTbl s t)"
    and bm: "bm_ok (rdy_bm s')" "\<And>e. bm_ok (evt_bm (OSEvents s' e))"
    and rdy: "\<And>p. p \<noteq> prio s t \<Longrightarrow> p \<in> ready s' \<longleftrightarrow> p \<in> ready s"
    and wait: "\<And>e p. p \<noteq> prio s t \<Longrightarrow> p \<in> waiters s' e \<longleftrightarrow> p \<in> waiters s e"
    and ty: "\<And>e. waiters s e \<noteq> {} \<Longrightarrow> emask s' e = emask s e"
    and ok: "task_ok s' t"
    and idle: "prio s t = OS_TASK_IDLE_PRIO \<Longrightarrow> prio s t \<in> ready s'"
  shows "sched_inv s'"
proof -
  have prios: "prio s' u = prio s u" for u
    using others [of u] pv by (cases "u = t") (auto simp: sched_view_def prio_view_def)
  then have acts: "act s' u = act s u" for u
    by (simp add: act_def pt)
  have exist: "\<exists>u. act s' u \<and> prio s' u = p" if "p = prio s t \<or> (\<exists>u. act s u \<and> prio s u = p)" for p
    using that act by (auto simp: acts prios)
  show ?thesis
  proof (rule sched_invI)
    fix u assume "act s' u"
    show "task_ok s' u"
    proof (cases "u = t")
      case False
      then have neq: "prio s u \<noteq> prio s t"
        using \<open>act s' u\<close> act act_prio_inj acts by blast
      have "task_ok s u" using inv \<open>act s' u\<close> by (simp add: acts sched_invD)
      then show ?thesis
        using neq by (simp add: task_ok_def Let_def sched_view_conds [OF others [OF False]] rdy wait)
          (metis empty_iff ty)
    qed (use ok in simp)
  next
    show "p \<in> ready s' \<Longrightarrow> \<exists>u. act s' u \<and> prio s' u = p" for p
      using inv rdy by (intro exist) (metis sched_invD(4))
    show "p \<in> waiters s' e \<Longrightarrow> \<exists>u. act s' u \<and> prio s' u = p" for p e
      using inv wait by (intro exist) (metis sched_invD(5))
    show "OS_TASK_IDLE_PRIO \<in> ready s'"
      using inv idle rdy by (metis sched_invD(7))
  qed (use inv bm in \<open>auto simp: acts pt dest: sched_invD\<close>)
qed

text \<open>Only the task's control block changes.\<close>

lemma sched_inv_upd_tcb:
  assumes "sched_inv s" and "act s t" and "prio_view (f (OSTCBTbl s t)) = prio_view (OSTCBTbl s t)"
    and "task_ok (upd_tcb t f s) t"
  shows "sched_inv (upd_tcb t f s)"
  by (rule sched_inv_change [OF assms(1,2)])
    (use assms in \<open>auto simp: sched_invD prio_view_def dest: sched_invD(7)\<close>)

lemma sched_inv_upd_tcb_view:
  "sched_inv s \<Longrightarrow> (\<And>c. sched_view (f c) = sched_view c) \<Longrightarrow> sched_inv (upd_tcb t f s)"
  by (erule sched_inv_cong) auto

lemma sched_inv_upd_evt_view:
  "sched_inv s \<Longrightarrow> (\<And>ev. evt_bm (f ev) = evt_bm ev) \<Longrightarrow>
    (waiters s e \<noteq> {} \<Longrightarrow> OSEventType (f (OSEvents s e)) = OSEventType (OSEvents s e)) \<Longrightarrow>
    sched_inv (upd_evt e f s)"
  by (rule sched_inv_cong [of s]) (simp_all, metis)

subsection \<open>What the wait-list operations leave alone\<close>

text \<open>Operations on the ready list and the wait lists change the bitmaps and the pend fields of
  tasks; the links of the task list, the priorities, and every other field of an event stay.\<close>

definition wq_rest :: "os \<Rightarrow> os" where
  "wq_rest s = s\<lparr>OSRdyGrp := 0, OSRdyTbl := (\<lambda>_. 0), OSTCBTbl := (\<lambda>_. undefined), OSEvents := (\<lambda>_. undefined)\<rparr>"

definition evt_rest :: "os_event \<Rightarrow> os_event" where
  "evt_rest ev = ev\<lparr>OSEventGrp := 0, OSEventTbl := (\<lambda>_. 0)\<rparr>"

definition link_view :: "os_tcb \<Rightarrow> _" where
  "link_view c = (OSTCBNext c, OSTCBPrev c, prio_view c)"

definition wq_frame :: "os \<Rightarrow> os \<Rightarrow> bool" where
  "wq_frame s s' \<longleftrightarrow> wq_rest s' = wq_rest s \<and>
     (\<forall>e. evt_rest (OSEvents s' e) = evt_rest (OSEvents s e)) \<and>
     (\<forall>t. link_view (OSTCBTbl s' t) = link_view (OSTCBTbl s t))"

lemma wq_frame_refl [simp]: "wq_frame s s"
  by (simp add: wq_frame_def)

lemma wq_frame_trans: "wq_frame s s1 \<Longrightarrow> wq_frame s1 s2 \<Longrightarrow> wq_frame s s2"
  by (simp add: wq_frame_def)

lemma wq_rest_sel:
  "OSTCBPrioTbl (wq_rest s) = OSTCBPrioTbl s"
  "OSTCBCur (wq_rest s) = OSTCBCur s"
  "OSPrioCur (wq_rest s) = OSPrioCur s"
  "OSIntNesting (wq_rest s) = OSIntNesting s"
  "OSLockNesting (wq_rest s) = OSLockNesting s"
  "OSRunning (wq_rest s) = OSRunning s"
  "OSTCBList (wq_rest s) = OSTCBList s"
  "OSTCBFreeList (wq_rest s) = OSTCBFreeList s"
  "OSEventFreeList (wq_rest s) = OSEventFreeList s"
  "OSQTbl (wq_rest s) = OSQTbl s"
  "OSQFreeList (wq_rest s) = OSQFreeList s"
  "OSMsgMem (wq_rest s) = OSMsgMem s"
  "OSFlagTbl (wq_rest s) = OSFlagTbl s"
  "OSFlagNodes (wq_rest s) = OSFlagNodes s"
  "OSFlagFreeList (wq_rest s) = OSFlagFreeList s"
  "OSTime (wq_rest s) = OSTime s"
  "OSTaskCtr (wq_rest s) = OSTaskCtr s"
  "OSTickStepState (wq_rest s) = OSTickStepState s"
  by (simp_all add: wq_rest_def)

lemma wq_restD:
  assumes "wq_rest s' = wq_rest s"
  shows "OSTCBPrioTbl s' = OSTCBPrioTbl s" "OSTCBCur s' = OSTCBCur s" "OSPrioCur s' = OSPrioCur s"
    "OSIntNesting s' = OSIntNesting s" "OSLockNesting s' = OSLockNesting s" "OSRunning s' = OSRunning s"
    "OSTCBList s' = OSTCBList s" "OSTCBFreeList s' = OSTCBFreeList s" "OSEventFreeList s' = OSEventFreeList s"
    "OSQTbl s' = OSQTbl s" "OSQFreeList s' = OSQFreeList s" "OSMsgMem s' = OSMsgMem s"
    "OSFlagTbl s' = OSFlagTbl s" "OSFlagNodes s' = OSFlagNodes s" "OSFlagFreeList s' = OSFlagFreeList s"
    "OSTime s' = OSTime s" "OSTaskCtr s' = OSTaskCtr s" "OSTickStepState s' = OSTickStepState s"
  by (simp_all only: wq_rest_sel [of s, symmetric] wq_rest_sel [of s', symmetric] assms)

lemma wq_frameD:
  assumes "wq_frame s s'"
  shows "OSTCBPrioTbl s' = OSTCBPrioTbl s" "OSTCBCur s' = OSTCBCur s" "OSPrioCur s' = OSPrioCur s"
    "OSIntNesting s' = OSIntNesting s" "OSLockNesting s' = OSLockNesting s" "OSRunning s' = OSRunning s"
    "OSTCBList s' = OSTCBList s" "OSTCBFreeList s' = OSTCBFreeList s" "OSEventFreeList s' = OSEventFreeList s"
    "OSQTbl s' = OSQTbl s" "OSQFreeList s' = OSQFreeList s" "OSMsgMem s' = OSMsgMem s"
    "OSFlagTbl s' = OSFlagTbl s" "OSFlagNodes s' = OSFlagNodes s" "OSFlagFreeList s' = OSFlagFreeList s"
    "OSTime s' = OSTime s" "OSTaskCtr s' = OSTaskCtr s" "OSTickStepState s' = OSTickStepState s"
  by (rule wq_restD, use assms in \<open>simp add: wq_frame_def\<close>)+

lemma wq_frame_evt:
  assumes "wq_frame s s'"
  shows "OSEventType (OSEvents s' e) = OSEventType (OSEvents s e)"
    "OSEventCnt (OSEvents s' e) = OSEventCnt (OSEvents s e)"
    "OSEventPtr (OSEvents s' e) = OSEventPtr (OSEvents s e)"
    "OSEventName (OSEvents s' e) = OSEventName (OSEvents s e)"
proof -
  have "evt_rest (OSEvents s' e) = evt_rest (OSEvents s e)"
    using assms by (simp add: wq_frame_def)
  from arg_cong [OF this, of OSEventType] arg_cong [OF this, of OSEventCnt]
    arg_cong [OF this, of OSEventPtr] arg_cong [OF this, of OSEventName]
  show "OSEventType (OSEvents s' e) = OSEventType (OSEvents s e)"
    "OSEventCnt (OSEvents s' e) = OSEventCnt (OSEvents s e)"
    "OSEventPtr (OSEvents s' e) = OSEventPtr (OSEvents s e)"
    "OSEventName (OSEvents s' e) = OSEventName (OSEvents s e)"
    by (simp_all add: evt_rest_def)
qed

lemma wq_frame_tcb:
  assumes "wq_frame s s'"
  shows "OSTCBNext (OSTCBTbl s' t) = OSTCBNext (OSTCBTbl s t)"
    "OSTCBPrev (OSTCBTbl s' t) = OSTCBPrev (OSTCBTbl s t)"
    "prio_view (OSTCBTbl s' t) = prio_view (OSTCBTbl s t)" "prio s' t = prio s t"
  using assms by (auto simp: wq_frame_def link_view_def prio_view_def)

lemma wq_frame_act: "wq_frame s s' \<Longrightarrow> act s' t = act s t"
  unfolding act_def by (simp add: wq_frame_tcb(4) wq_frameD(1))

lemma wq_frame_set_rdy_bm [simp]: "wq_frame s (set_rdy_bm m s1) = wq_frame s s1"
  by (simp add: wq_frame_def wq_rest_def set_rdy_bm_def)

lemma wq_frame_rdy_ins [simp]: "wq_frame s (rdy_ins t s1) = wq_frame s s1"
  by (simp add: rdy_ins_def Let_def)

lemma wq_frame_rdy_del [simp]: "wq_frame s (rdy_del t s1) = wq_frame s s1"
  by (simp add: rdy_del_def Let_def)

lemma wq_frame_wait_ins [simp]: "wq_frame s (wait_ins t e s1) = wq_frame s s1"
  by (auto simp: wq_frame_def wq_rest_def wait_ins_def Let_def upd_evt_def evt_rest_def set_evt_bm_def)

lemma wq_frame_wait_del [simp]: "wq_frame s (wait_del t e s1) = wq_frame s s1"
  by (auto simp: wq_frame_def wq_rest_def wait_del_def Let_def upd_evt_def evt_rest_def set_evt_bm_def)

lemma wq_frame_upd_tcb [simp]:
  "(\<And>c. link_view (f c) = link_view c) \<Longrightarrow> wq_frame s (upd_tcb t f s1) = wq_frame s s1"
  by (auto simp: wq_frame_def wq_rest_def upd_tcb_def)

subsection \<open>The list of tasks\<close>

text \<open>\<open>OSTCBList\<close> is a doubly linked list of the active tasks that ends with the idle task;
  \<open>OSTCBFreeList\<close> is a singly linked list of the others.\<close>

fun tcb_seg :: "(nat \<Rightarrow> os_tcb) \<Rightarrow> tcbptr \<Rightarrow> tcbptr \<Rightarrow> nat list \<Rightarrow> bool" where
  "tcb_seg tbl prev p [] \<longleftrightarrow> p = TNull"
| "tcb_seg tbl prev p (t # ts) \<longleftrightarrow> p = TPtr t \<and> t < OS_MAX_TCBS \<and> OSTCBPrev (tbl t) = prev \<and>
     tcb_seg tbl (TPtr t) (OSTCBNext (tbl t)) ts"

fun free_seg :: "(nat \<Rightarrow> os_tcb) \<Rightarrow> tcbptr \<Rightarrow> nat list \<Rightarrow> bool" where
  "free_seg tbl p [] \<longleftrightarrow> p = TNull"
| "free_seg tbl p (t # ts) \<longleftrightarrow> p = TPtr t \<and> t < OS_MAX_TCBS \<and> free_seg tbl (OSTCBNext (tbl t)) ts"

definition task_lists :: "os \<Rightarrow> nat list \<Rightarrow> nat list \<Rightarrow> bool" where
  "task_lists s ts fs \<longleftrightarrow> tcb_seg (OSTCBTbl s) TNull (OSTCBList s) ts \<and> free_seg (OSTCBTbl s) (OSTCBFreeList s) fs \<and>
     distinct (ts @ fs) \<and> set ts = {t. act s t} \<and> ts \<noteq> [] \<and> prio s (last ts) = OS_TASK_IDLE_PRIO"

definition list_inv :: "os \<Rightarrow> bool" where
  "list_inv s \<longleftrightarrow> (\<exists>ts fs. task_lists s ts fs)"

lemma tcb_seg_cong: "(\<And>t. t \<in> set ts \<Longrightarrow> OSTCBNext (tbl' t) = OSTCBNext (tbl t) \<and> OSTCBPrev (tbl' t) = OSTCBPrev (tbl t)) \<Longrightarrow>
    tcb_seg tbl' prev p ts = tcb_seg tbl prev p ts"
  by (induction ts arbitrary: prev p) auto

lemma free_seg_cong: "(\<And>t. t \<in> set ts \<Longrightarrow> OSTCBNext (tbl' t) = OSTCBNext (tbl t)) \<Longrightarrow>
    free_seg tbl' p ts = free_seg tbl p ts"
  by (induction ts arbitrary: p) auto

lemma task_lists_cong:
  assumes "OSTCBList s' = OSTCBList s" and "OSTCBFreeList s' = OSTCBFreeList s" and "OSTCBPrioTbl s' = OSTCBPrioTbl s"
    and "\<And>t. link_view (OSTCBTbl s' t) = link_view (OSTCBTbl s t)"
  shows "task_lists s' ts fs = task_lists s ts fs"
proof -
  have v: "OSTCBNext (OSTCBTbl s' t) = OSTCBNext (OSTCBTbl s t)" "OSTCBPrev (OSTCBTbl s' t) = OSTCBPrev (OSTCBTbl s t)"
    "prio s' t = prio s t" for t
    using assms(4) [of t] by (simp_all add: link_view_def prio_view_def)
  have "act s' t = act s t" for t by (simp add: act_def v assms(3))
  moreover have "tcb_seg (OSTCBTbl s') p q ts = tcb_seg (OSTCBTbl s) p q ts" for p q
    by (rule tcb_seg_cong) (simp add: v)
  moreover have "free_seg (OSTCBTbl s') p fs = free_seg (OSTCBTbl s) p fs" for p
    by (rule free_seg_cong) (simp add: v)
  ultimately show ?thesis
    by (simp add: task_lists_def assms(1,2) v)
qed

lemma list_inv_cong:
  assumes "OSTCBList s' = OSTCBList s" and "OSTCBFreeList s' = OSTCBFreeList s" and "OSTCBPrioTbl s' = OSTCBPrioTbl s"
    and "\<And>t. link_view (OSTCBTbl s' t) = link_view (OSTCBTbl s t)"
  shows "list_inv s' = list_inv s"
  using task_lists_cong [OF assms] by (simp add: list_inv_def)

lemma wq_frame_lists:
  assumes "wq_frame s s'"
  shows "task_lists s' ts fs = task_lists s ts fs"
  by (rule task_lists_cong) (use assms in \<open>simp_all add: wq_frameD [OF assms] wq_frame_def\<close>)

lemma wq_frame_list_inv: "wq_frame s s' \<Longrightarrow> list_inv s' = list_inv s"
  by (simp add: list_inv_def wq_frame_lists)

text \<open>Updates of other fields leave the priority fields and the conditions alone.\<close>

lemma tcb_prio_ok_upd [simp]:
  "tcb_prio_ok (c\<lparr>OSTCBStat := st\<rparr>) = tcb_prio_ok c" "tcb_prio_ok (c\<lparr>OSTCBStatPend := sp\<rparr>) = tcb_prio_ok c"
  "tcb_prio_ok (c\<lparr>OSTCBDly := d\<rparr>) = tcb_prio_ok c" "tcb_prio_ok (c\<lparr>OSTCBEventPtr := ep\<rparr>) = tcb_prio_ok c"
  "tcb_prio_ok (c\<lparr>OSTCBEventMultiPtr := mp\<rparr>) = tcb_prio_ok c" "tcb_prio_ok (c\<lparr>OSTCBEventMultiRdy := mr\<rparr>) = tcb_prio_ok c"
  "tcb_prio_ok (c\<lparr>OSTCBMsg := m\<rparr>) = tcb_prio_ok c" "tcb_prio_ok (c\<lparr>OSTCBFlagNode := fn\<rparr>) = tcb_prio_ok c"
  "tcb_prio_ok (c\<lparr>OSTCBFlagsRdy := fr\<rparr>) = tcb_prio_ok c"
  by (simp_all add: tcb_prio_ok_def)

lemma prio_view_upd [simp]:
  "prio_view (c\<lparr>OSTCBStat := st\<rparr>) = prio_view c" "prio_view (c\<lparr>OSTCBStatPend := sp\<rparr>) = prio_view c"
  "prio_view (c\<lparr>OSTCBDly := d\<rparr>) = prio_view c" "prio_view (c\<lparr>OSTCBEventPtr := ep\<rparr>) = prio_view c"
  "prio_view (c\<lparr>OSTCBEventMultiPtr := mp\<rparr>) = prio_view c" "prio_view (c\<lparr>OSTCBEventMultiRdy := mr\<rparr>) = prio_view c"
  "prio_view (c\<lparr>OSTCBMsg := m\<rparr>) = prio_view c" "prio_view (c\<lparr>OSTCBFlagNode := fn\<rparr>) = prio_view c"
  "prio_view (c\<lparr>OSTCBFlagsRdy := fr\<rparr>) = prio_view c"
  by (simp_all add: prio_view_def)

lemma link_view_upd [simp]:
  "link_view (c\<lparr>OSTCBStat := st\<rparr>) = link_view c" "link_view (c\<lparr>OSTCBStatPend := sp\<rparr>) = link_view c"
  "link_view (c\<lparr>OSTCBDly := d\<rparr>) = link_view c" "link_view (c\<lparr>OSTCBEventPtr := ep\<rparr>) = link_view c"
  "link_view (c\<lparr>OSTCBEventMultiPtr := mp\<rparr>) = link_view c" "link_view (c\<lparr>OSTCBEventMultiRdy := mr\<rparr>) = link_view c"
  "link_view (c\<lparr>OSTCBMsg := m\<rparr>) = link_view c" "link_view (c\<lparr>OSTCBFlagNode := fn\<rparr>) = link_view c"
  "link_view (c\<lparr>OSTCBFlagsRdy := fr\<rparr>) = link_view c"
  by (simp_all add: link_view_def)

lemma rdy_cond_upd [simp]:
  "rdy_cond r (c\<lparr>OSTCBStatPend := sp\<rparr>) = rdy_cond r c" "rdy_cond r (c\<lparr>OSTCBEventPtr := ep\<rparr>) = rdy_cond r c"
  "rdy_cond r (c\<lparr>OSTCBEventMultiPtr := mp\<rparr>) = rdy_cond r c" "rdy_cond r (c\<lparr>OSTCBEventMultiRdy := mr\<rparr>) = rdy_cond r c"
  "rdy_cond r (c\<lparr>OSTCBMsg := m\<rparr>) = rdy_cond r c" "rdy_cond r (c\<lparr>OSTCBFlagNode := fn\<rparr>) = rdy_cond r c"
  "rdy_cond r (c\<lparr>OSTCBFlagsRdy := fr\<rparr>) = rdy_cond r c"
  by (simp_all add: rdy_cond_def susp_def pend_def multi_def runnable_def)

lemma wait_cond_upd [simp]:
  "wait_cond r m (c\<lparr>OSTCBEventPtr := ep\<rparr>) = wait_cond r m c" "wait_cond r m (c\<lparr>OSTCBEventMultiPtr := mp\<rparr>) = wait_cond r m c"
  "wait_cond r m (c\<lparr>OSTCBEventMultiRdy := mr\<rparr>) = wait_cond r m c" "wait_cond r m (c\<lparr>OSTCBMsg := msg\<rparr>) = wait_cond r m c"
  "wait_cond r m (c\<lparr>OSTCBFlagNode := fn\<rparr>) = wait_cond r m c" "wait_cond r m (c\<lparr>OSTCBFlagsRdy := fr\<rparr>) = wait_cond r m c"
  by (simp_all add: wait_cond_def pend_def multi_def)

lemma evt_refs_upd [simp]:
  "evt_refs (c\<lparr>OSTCBStat := st\<rparr>) = evt_refs c" "evt_refs (c\<lparr>OSTCBStatPend := sp\<rparr>) = evt_refs c"
  "evt_refs (c\<lparr>OSTCBDly := d\<rparr>) = evt_refs c" "evt_refs (c\<lparr>OSTCBMsg := m\<rparr>) = evt_refs c"
  "evt_refs (c\<lparr>OSTCBEventMultiRdy := mr\<rparr>) = evt_refs c"
  by (simp_all add: evt_refs_def)

end
