(* ===== verification/OS_Core_Proofs.thy ===== *)
theory OS_Core_Proofs
  imports OS_Inv
begin

text \<open>
  What is proved of the core services: the scheduler picks the highest-priority ready task and
  never follows a null pointer, readying and blocking a task keep the scheduling invariant and
  change exactly the sets they should, the loop that empties a wait list ends, and the tick ends
  and keeps the invariant.
\<close>

subsection \<open>The current task\<close>

text \<open>\<open>cur_ok s c\<close>: task \<open>c\<close> is the running one. At task level with the scheduler unlocked it is
  ready (an interrupt or a scheduler lock may keep a suspended task on the processor for a while).\<close>

definition cur_ok :: "os \<Rightarrow> nat \<Rightarrow> bool" where
  "cur_ok s c \<longleftrightarrow> OSTCBCur s = TPtr c \<and> act s c \<and> OSPrioCur s = prio s c \<and>
     (OSIntNesting s = 0 \<and> OSLockNesting s = 0 \<longrightarrow> prio s c \<in> ready s)"

definition highest_runs :: "os \<Rightarrow> bool" where
  "highest_runs s \<longleftrightarrow> (\<exists>c. cur_ok s c \<and> prio s c \<in> ready s \<and> (\<forall>p \<in> ready s. prio s c \<le> p))"

lemma deref_cur: "OSTCBCur s = TPtr c \<Longrightarrow> act s c \<Longrightarrow> deref_tcb (OSTCBCur s) = Some c"
  by (simp add: act_def)

lemma le_63_less_64: "(p::u8) \<le> 63 \<longleftrightarrow> p < 64"
  by (simp add: word_le_nat_alt word_less_nat_alt) linarith

lemma ready_highest:
  assumes "sched_inv s"
  shows "bm_highest (rdy_bm s) \<in> ready s" and "p \<in> ready s \<Longrightarrow> bm_highest (rdy_bm s) \<le> p"
  using assms bm.highest_in [of "rdy_bm s"] bm.highest_le [of "rdy_bm s"]
  by (auto simp: sched_inv_def ready_def)

lemma prio_tbl_ready:
  assumes "sched_inv s" and "act s t"
  shows "prio_tbl s (prio s t) = Some (TPtr t)"
  using assms by (simp add: prio_tbl_def act_def le_63_less_64)

text \<open>A context switch moves the current task and counts switches; nothing else changes.\<close>

definition sw_frame :: "os \<Rightarrow> os \<Rightarrow> bool" where
  "sw_frame s s' \<longleftrightarrow> (\<exists>ctx hr cur pc ph tbl.
     s' = s\<lparr>OSCtxSwCtr := ctx, OSTCBHighRdy := hr, OSTCBCur := cur, OSPrioCur := pc,
            OSPrioHighRdy := ph, OSTCBTbl := tbl\<rparr> \<and>
     (\<forall>t. \<exists>n. tbl t = (OSTCBTbl s t)\<lparr>OSTCBCtxSwCtr := n\<rparr>))"

lemma sw_frameD:
  assumes "sw_frame s s'"
  shows "OSEvents s' = OSEvents s" "OSTCBPrioTbl s' = OSTCBPrioTbl s" "rdy_bm s' = rdy_bm s"
    "OSIntNesting s' = OSIntNesting s" "OSLockNesting s' = OSLockNesting s" "OSRunning s' = OSRunning s"
    "OSTCBList s' = OSTCBList s" "OSTCBFreeList s' = OSTCBFreeList s" "OSEventFreeList s' = OSEventFreeList s"
    "OSQTbl s' = OSQTbl s" "OSQFreeList s' = OSQFreeList s" "OSMsgMem s' = OSMsgMem s"
    "OSFlagTbl s' = OSFlagTbl s" "OSFlagNodes s' = OSFlagNodes s" "OSFlagFreeList s' = OSFlagFreeList s"
    "OSTime s' = OSTime s" "OSTaskCtr s' = OSTaskCtr s"
    "ready s' = ready s" "waiters s' = waiters s"
  using assms by (auto simp: sw_frame_def rdy_bm_def ready_def waiters_def fun_eq_iff)

lemma sw_frame_tcb:
  assumes "sw_frame s s'"
  obtains n where "OSTCBTbl s' t = (OSTCBTbl s t)\<lparr>OSTCBCtxSwCtr := n\<rparr>"
proof -
  obtain ctx hr cur pc ph tbl where
    "s' = s\<lparr>OSCtxSwCtr := ctx, OSTCBHighRdy := hr, OSTCBCur := cur, OSPrioCur := pc,
            OSPrioHighRdy := ph, OSTCBTbl := tbl\<rparr>"
    and "\<forall>t. \<exists>n. tbl t = (OSTCBTbl s t)\<lparr>OSTCBCtxSwCtr := n\<rparr>"
    using assms unfolding sw_frame_def by blast
  moreover then obtain n where "tbl t = (OSTCBTbl s t)\<lparr>OSTCBCtxSwCtr := n\<rparr>" by blast
  ultimately show thesis using that by simp
qed

lemma sw_frame_view:
  assumes "sw_frame s s'"
  shows "sched_view (OSTCBTbl s' t) = sched_view (OSTCBTbl s t)"
proof -
  obtain n where "OSTCBTbl s' t = (OSTCBTbl s t)\<lparr>OSTCBCtxSwCtr := n\<rparr>"
    by (rule sw_frame_tcb [OF assms])
  then show ?thesis by (simp add: sched_view_def prio_view_def)
qed

lemma sw_frame_prio: "sw_frame s s' \<Longrightarrow> prio s' t = prio s t"
  by (rule sched_view_conds(1), rule sw_frame_view)

lemma sw_frame_act: "sw_frame s s' \<Longrightarrow> act s' t = act s t"
  by (simp add: act_def sw_frame_prio sw_frameD)

lemma sw_frame_inv: "sw_frame s s' \<Longrightarrow> sched_inv s \<Longrightarrow> sched_inv s'"
  by (erule sched_inv_cong) (simp_all add: sw_frameD sw_frame_view)

lemma sw_frame_refl [simp]: "sw_frame s s"
proof -
  have "s = s\<lparr>OSCtxSwCtr := OSCtxSwCtr s, OSTCBHighRdy := OSTCBHighRdy s, OSTCBCur := OSTCBCur s,
      OSPrioCur := OSPrioCur s, OSPrioHighRdy := OSPrioHighRdy s, OSTCBTbl := OSTCBTbl s\<rparr>"
    by simp
  moreover have "OSTCBTbl s t = (OSTCBTbl s t)\<lparr>OSTCBCtxSwCtr := OSTCBCtxSwCtr (OSTCBTbl s t)\<rparr>" for t
    by simp
  ultimately show ?thesis unfolding sw_frame_def by metis
qed

subsection \<open>The scheduler\<close>

text \<open>The scheduler proper: it succeeds, changes only who runs, and afterwards the highest-priority
  ready task runs.\<close>

lemma sched_switch_ok:
  assumes inv: "sched_inv s" and cur: "OSTCBCur s = TPtr c" "act s c" "OSPrioCur s = prio s c"
  shows "\<exists>s' c'. sched_switch s = Some s' \<and> sw_frame s s' \<and> cur_ok s' c' \<and> highest_runs s' \<and>
    prio s c' = bm_highest (rdy_bm s)"
proof -
  let ?h = "bm_highest (rdy_bm s)" and ?inc = "\<lambda>c. c\<lparr>OSTCBCtxSwCtr := OSTCBCtxSwCtr c + 1\<rparr>"
  obtain t where t: "act s t" "prio s t = ?h"
    using sched_invD(4) [OF inv ready_highest(1) [OF inv]] by blast
  have pt: "prio_tbl (OS_SchedNew s) ?h = Some (TPtr t)"
    using t by (auto simp: prio_tbl_def OS_SchedNew_def act_def le_63_less_64)
  have t22: "t < OS_MAX_TCBS" using t(1) by (simp add: act_def)
  define s2 where "s2 = (OS_SchedNew s)\<lparr>OSTCBHighRdy := TPtr t\<rparr>"
  define s3 where "s3 = (if ?h \<noteq> OSPrioCur s
     then PendSV_Handler ((upd_tcb t ?inc s2)\<lparr>OSCtxSwCtr := OSCtxSwCtr (upd_tcb t ?inc s2) + 1\<rparr>)
     else s2)"
  have eq: "sched_switch s = Some s3"
    using pt t22 by (auto simp: sched_switch_def Let_def s2_def s3_def OS_SchedNew_def)
  have s3: "s3 = s\<lparr>OSCtxSwCtr := OSCtxSwCtr s3, OSTCBHighRdy := OSTCBHighRdy s3, OSTCBCur := OSTCBCur s3,
      OSPrioCur := OSPrioCur s3, OSPrioHighRdy := OSPrioHighRdy s3, OSTCBTbl := OSTCBTbl s3\<rparr>"
    by (simp add: s3_def s2_def PendSV_Handler_def OS_SchedNew_def upd_tcb_def)
  have "OSTCBTbl s3 u = (OSTCBTbl s u)\<lparr>OSTCBCtxSwCtr := OSTCBCtxSwCtr (OSTCBTbl s3 u)\<rparr>" for u
    by (simp add: s3_def s2_def PendSV_Handler_def OS_SchedNew_def upd_tcb_def)
  with s3 have fr: "sw_frame s s3"
    unfolding sw_frame_def by metis
  have run: "OSTCBCur s3 = TPtr t \<and> OSPrioCur s3 = ?h"
  proof (cases "?h = OSPrioCur s")
    case True
    then have "t = c" using t cur act_prio_inj by metis
    with True cur show ?thesis by (simp add: s3_def s2_def OS_SchedNew_def)
  qed (simp add: s3_def s2_def PendSV_Handler_def OS_SchedNew_def upd_tcb_def)
  note frs = sw_frame_act [OF fr] sw_frame_prio [OF fr] sw_frameD [OF fr]
  have cok: "cur_ok s3 t"
    using run t ready_highest(1) [OF inv] by (simp add: cur_ok_def frs)
  moreover have "highest_runs s3"
    using cok ready_highest [OF inv] t by (auto simp: highest_runs_def frs)
  ultimately show ?thesis
    using eq fr t by auto
qed

text \<open>\<open>OS_Sched\<close> does nothing inside an interrupt or under the scheduler lock.\<close>

lemma OS_Sched_ok:
  assumes "sched_inv s" and "OSTCBCur s = TPtr c" "act s c" "OSPrioCur s = prio s c"
  shows "\<exists>s' c'. OS_Sched s = Some s' \<and> sw_frame s s' \<and> cur_ok s' c' \<and>
    (if OSIntNesting s = 0 \<and> OSLockNesting s = 0 then highest_runs s' else s' = s \<and> c' = c)"
  using sched_switch_ok [OF assms] assms
  by (auto simp: OS_Sched_def cur_ok_def)

subsection \<open>Leaving wait lists\<close>

lemma OS_EventTaskRemove_ok:
  assumes "e < OS_MAX_EVENTS"
  shows "OS_EventTaskRemove t e s = Some (upd_tcb t (\<lambda>c. c\<lparr>OSTCBEventPtr := None\<rparr>) (wait_del t e s))"
  using assms by (simp add: OS_EventTaskRemove_def evt_def)

lemma OS_EventTaskRemoveMulti_ok:
  assumes "set es \<subseteq> {..<OS_MAX_EVENTS}" and "tcb_prio_ok (OSTCBTbl s t)" and "\<forall>e. bm_ok (evt_bm (OSEvents s e))"
  shows "\<exists>s'. OS_EventTaskRemoveMulti t es s = Some s' \<and> wq_frame s s' \<and> OSTCBTbl s' = OSTCBTbl s \<and>
    rdy_bm s' = rdy_bm s \<and> (\<forall>e. bm_ok (evt_bm (OSEvents s' e))) \<and>
    waiters s' = (\<lambda>e. if e \<in> set es then waiters s e - {prio s t} else waiters s e)"
  using assms
proof (induction es arbitrary: s)
  case (Cons e es)
  let ?s1 = "wait_del t e s"
  obtain s' where s': "OS_EventTaskRemoveMulti t es ?s1 = Some s'" "wq_frame ?s1 s'" "OSTCBTbl s' = OSTCBTbl ?s1"
    "rdy_bm s' = rdy_bm ?s1" "\<forall>e. bm_ok (evt_bm (OSEvents s' e))"
    "waiters s' = (\<lambda>i. if i \<in> set es then waiters ?s1 i - {prio ?s1 t} else waiters ?s1 i)"
    using Cons.IH [of ?s1] Cons.prems by (auto intro: bm_ok_wait_del)
  have "wq_frame s s'"
    by (rule wq_frame_trans [OF _ s'(2)]) simp
  with s' show ?case
    using Cons.prems by (auto simp: evt_def waiters_wait_del fun_eq_iff)
qed simp

subsection \<open>Readying the highest-priority waiter\<close>

text \<open>The control block of a task that \<open>OS_EventTaskRdy\<close> has made ready.\<close>

definition readied :: "nat \<Rightarrow> vptr \<Rightarrow> u8 \<Rightarrow> u8 \<Rightarrow> os_tcb \<Rightarrow> os_tcb" where
  "readied e pmsg msk pend_stat c =
     (let c1 = c\<lparr>OSTCBDly := 0, OSTCBMsg := pmsg, OSTCBStat := OSTCBStat c AND NOT msk,
                 OSTCBStatPend := pend_stat, OSTCBEventPtr := None\<rparr>
      in if OSTCBEventMultiPtr c = None then c1
         else c1\<lparr>OSTCBEventMultiPtr := None, OSTCBEventMultiRdy := Some e\<rparr>)"

lemma readied_fields [simp]:
  "prio_view (readied e m msk ps c) = prio_view c" "OSTCBPrio (readied e m msk ps c) = OSTCBPrio c"
  "OSTCBStat (readied e m msk ps c) = OSTCBStat c AND NOT msk"
  "OSTCBStatPend (readied e m msk ps c) = ps" "OSTCBDly (readied e m msk ps c) = 0"
  "OSTCBMsg (readied e m msk ps c) = m" "OSTCBEventPtr (readied e m msk ps c) = None"
  "OSTCBEventMultiPtr (readied e m msk ps c) = None" "evt_refs (readied e m msk ps c) = {}"
  "OSTCBFlagNode (readied e m msk ps c) = OSTCBFlagNode c"
  by (auto simp: readied_def Let_def prio_view_def evt_refs_def)

lemma evt_bm_nonempty:
  assumes "sched_inv s"
  shows "OSEventGrp (OSEvents s e) = 0 \<longleftrightarrow> waiters s e = {}"
  using bm_group_zero [OF sched_invD(2) [OF assms]] by (simp add: waiters_def evt_bm_def)

lemma waiting_task:
  assumes inv: "sched_inv s" and ne: "waiters s e \<noteq> {}"
  obtains t where "act s t" "prio s t = bm_highest (evt_bm (OSEvents s e))"
    "prio s t \<in> waiters s e" "\<forall>p \<in> waiters s e. prio s t \<le> p" "e < OS_MAX_EVENTS"
    "e \<in> evt_refs (OSTCBTbl s t)" "wait_cond (prio s t \<in> ready s) (emask s e) (OSTCBTbl s t)"
proof -
  let ?m = "evt_bm (OSEvents s e)"
  have ok: "bm_ok ?m" by (rule sched_invD(2) [OF inv])
  have in': "bm_highest ?m \<in> waiters s e"
    using bm.highest_in [OF ok] ne by (simp add: waiters_def)
  obtain t where t: "act s t" "prio s t = bm_highest ?m"
    using sched_invD(5) [OF inv in'] by blast
  have "task_ok s t" using inv t(1) by (rule sched_invD(6))
  note tok = task_okD [OF this]
  have "e \<in> evt_refs (OSTCBTbl s t)" using tok(5) in' t by simp
  then show thesis
    using that [of t] t in' tok(3,6) bm.highest_le [OF ok] by (auto simp: waiters_def)
qed

lemma bm_sets_ins: "tcb_prio_ok c \<Longrightarrow> y = OSTCBY c \<Longrightarrow>
    bm_ins y (OSTCBBitX c) (OSTCBBitY c) m = bm_add (OSTCBPrio c) m"
  by (simp add: tcb_prio_ok_bm)

lemma OS_EventTaskRdy_eval:
  assumes inv: "sched_inv s" and ne: "waiters s e \<noteq> {}"
  shows "\<exists>t s'. OS_EventTaskRdy e pmsg msk ps s = Some (prio s t, s') \<and>
    act s t \<and> prio s t \<in> waiters s e \<and> (\<forall>p \<in> waiters s e. prio s t \<le> p) \<and>
    wq_frame s s' \<and> OSTCBTbl s' = (OSTCBTbl s)(t := readied e pmsg msk ps (OSTCBTbl s t)) \<and>
    bm_ok (rdy_bm s') \<and> (\<forall>i. bm_ok (evt_bm (OSEvents s' i))) \<and>
    ready s' = (if (OSTCBStat (OSTCBTbl s t) AND NOT msk) AND OS_STAT_SUSPEND = 0
                then insert (prio s t) (ready s) else ready s) \<and>
    waiters s' = (\<lambda>i. waiters s i - {prio s t})"
proof -
  obtain t where t: "act s t" "prio s t = bm_highest (evt_bm (OSEvents s e))" "prio s t \<in> waiters s e"
    "\<forall>p \<in> waiters s e. prio s t \<le> p" "e < OS_MAX_EVENTS" "e \<in> evt_refs (OSTCBTbl s t)"
    using waiting_task [OF inv ne] by metis
  let ?c = "OSTCBTbl s t" and ?ev = "OSEvents s e"
  have tok: "task_ok s t" using inv t(1) by (rule sched_invD(6))
  note tokD = task_okD [OF tok]
  have grp: "fst (evt_bm ?ev) \<noteq> 0"
    using evt_bm_nonempty [OF inv, of e] ne by (simp add: evt_bm_def)
  have y: "unmap (OSEventGrp ?ev) = OSTCBY ?c"
    using bm_highest_row [OF sched_invD(2) [OF inv] grp] tokD(1) t(2)
    by (simp add: tcb_prio_ok_def evt_bm_def)
  have p: "push_bit 3 (OSTCBY ?c) + unmap (OSEventTbl ?ev (OSTCBY ?c)) = prio s t"
    using t(2) by (simp add: bm_highest_def Let_def evt_bm_def y)
  have pt: "prio_tbl s (prio s t) = Some (TPtr t)" by (rule prio_tbl_ready [OF inv t(1)])
  have t22: "t < OS_MAX_TCBS" using t(1) by (simp add: act_def)
  define c1 where "c1 = ?c\<lparr>OSTCBDly := 0, OSTCBMsg := pmsg, OSTCBStat := OSTCBStat ?c AND NOT msk, OSTCBStatPend := ps\<rparr>"
  define s1 where "s1 = upd_tcb t (\<lambda>c. c\<lparr>OSTCBDly := 0, OSTCBMsg := pmsg,
                 OSTCBStat := OSTCBStat c AND NOT msk, OSTCBStatPend := ps\<rparr>) s"
  define s2 where "s2 = (if OSTCBStat c1 AND OS_STAT_SUSPEND = 0 then rdy_ins t s1 else s1)"
  define s3 where "s3 = upd_tcb t (\<lambda>c. c\<lparr>OSTCBEventPtr := None\<rparr>) (wait_del t e s2)"
  have c1ok: "tcb_prio_ok c1" using tokD(1) by (simp add: c1_def tcb_prio_ok_def)
  have tb2: "OSTCBTbl s2 = (OSTCBTbl s)(t := c1)"
    by (simp add: s2_def s1_def c1_def)
  have tb3: "OSTCBTbl s3 = (OSTCBTbl s)(t := c1\<lparr>OSTCBEventPtr := None\<rparr>)"
    by (simp add: s3_def tb2)
  have fr: "wq_frame s s3"
    by (auto simp: s3_def s2_def s1_def link_view_def prio_view_def wq_frame_def wq_rest_def upd_tcb_def c1_def
        rdy_ins_def wait_del_def set_rdy_bm_def Let_def upd_evt_def evt_rest_def set_evt_bm_def)
  have tb1: "OSTCBTbl s1 = (OSTCBTbl s)(t := c1)" "ready s1 = ready s" "OSTCBPrio c1 = prio s t"
    by (simp_all add: s1_def c1_def)
  have rdy3: "ready s3 = (if OSTCBStat c1 AND OS_STAT_SUSPEND = 0 then insert (prio s t) (ready s) else ready s)"
    using c1ok by (simp add: s3_def s2_def ready_rdy_ins tb1)
  have bm3: "bm_ok (rdy_bm s3)" "\<forall>i. bm_ok (evt_bm (OSEvents s3 i))"
    using sched_invD(1,2) [OF inv] c1ok tb2
    by (auto simp: s3_def s2_def s1_def intro!: bm_ok_prims)
  have w3: "waiters s3 = (waiters s)(e := waiters s e - {prio s t})"
    using c1ok tb2 by (simp add: s3_def waiters_wait_del) (simp add: s2_def s1_def c1_def)
  have eval: "OS_EventTaskRdy e pmsg msk ps s = (case OSTCBEventMultiPtr (OSTCBTbl s3 t) of
       None \<Rightarrow> Some (prio s t, s3)
     | Some es \<Rightarrow> Option.bind (OS_EventTaskRemoveMulti t es s3)
         (\<lambda>s4. Some (prio s t, upd_tcb t (\<lambda>c. c\<lparr>OSTCBEventMultiPtr := None, OSTCBEventMultiRdy := Some e\<rparr>) s4)))"
    using t(5) t22 pt
    by (simp add: OS_EventTaskRdy_def evt_def Let_def y p OS_EventTaskRemove_ok s1_def s2_def s3_def
        rdy_ins_def c1_def cong: option.case_cong)
  have "waiters s' = (\<lambda>i. waiters s i - {prio s t})"
    if "waiters s' = (\<lambda>i. if i \<in> evt_refs ?c then waiters s i - {prio s t} else waiters s i)" for s'
    using that tokD(5) by (auto simp: fun_eq_iff)
  note waitsI = this
  show ?thesis
  proof (cases "OSTCBEventMultiPtr ?c")
    case None
    then have "evt_refs ?c = {e}" using t(6) by (cases "OSTCBEventPtr ?c") (auto simp: evt_refs_def)
    then have "waiters s3 = (\<lambda>i. waiters s i - {prio s t})"
      by (intro waitsI) (simp add: w3 fun_eq_iff)
    moreover have "c1\<lparr>OSTCBEventPtr := None\<rparr> = readied e pmsg msk ps ?c"
      using None by (simp add: readied_def c1_def Let_def)
    ultimately show ?thesis
      using None eval t(1,3,4) fr tb3 rdy3 bm3 by (intro exI [of _ t] exI [of _ s3]) (simp add: c1_def)
  next
    case (Some es)
    then have refs: "evt_refs ?c = set es" using tokD(4) by (auto simp: evt_refs_def)
    have "tcb_prio_ok (OSTCBTbl s3 t)" using c1ok by (simp add: tb3 tcb_prio_ok_def)
    from OS_EventTaskRemoveMulti_ok [OF _ this bm3(2), of es] obtain s4 where
      s4: "OS_EventTaskRemoveMulti t es s3 = Some s4" "wq_frame s3 s4" "OSTCBTbl s4 = OSTCBTbl s3"
        "rdy_bm s4 = rdy_bm s3" "\<forall>e. bm_ok (evt_bm (OSEvents s4 e))"
        "waiters s4 = (\<lambda>i. if i \<in> set es then waiters s3 i - {prio s3 t} else waiters s3 i)"
      using tokD(3) refs by auto
    let ?s5 = "upd_tcb t (\<lambda>c. c\<lparr>OSTCBEventMultiPtr := None, OSTCBEventMultiRdy := Some e\<rparr>) s4"
    have "waiters s4 = (\<lambda>i. waiters s i - {prio s t})"
      using t(6) by (intro waitsI) (simp add: s4(6) w3 refs tb3 tb1(3) fun_eq_iff)
    moreover have "c1\<lparr>OSTCBEventPtr := None, OSTCBEventMultiPtr := None, OSTCBEventMultiRdy := Some e\<rparr> =
        readied e pmsg msk ps ?c"
      using Some by (simp add: readied_def c1_def Let_def)
    moreover have "wq_frame s ?s5"
      using wq_frame_trans [OF fr s4(2)] by (simp add: link_view_def prio_view_def)
    moreover have "ready ?s5 = ready s3" by (simp add: ready_def s4(4))
    ultimately show ?thesis
      using Some eval t(1,3,4) tb3 rdy3 bm3 s4
      by (intro exI [of _ t] exI [of _ ?s5]) (simp add: c1_def)
  qed
qed

text \<open>Clearing an event's status bit does not touch the suspend and multi-pend bits.\<close>

lemma evt_mask_bits: "\<not> bit (evt_mask ty) 3" "\<not> bit (evt_mask ty) 7"
  by (simp_all add: evt_mask_def)

lemma susp_clear_mask: "(x AND NOT (evt_mask ty)) AND 0x08 = 0 \<longleftrightarrow> x AND 0x08 = 0" for x :: u8
  by (simp add: os_bits evt_mask_bits)

lemma multi_clear_mask: "(x AND NOT (evt_mask ty)) AND 0x80 = 0 \<longleftrightarrow> x AND 0x80 = 0" for x :: u8
  by (simp add: os_bits evt_mask_bits)

lemma OS_EventTaskRdy_ok:
  assumes inv: "sched_inv s" and ne: "waiters s e \<noteq> {}"
  shows "\<exists>t s'. OS_EventTaskRdy e pmsg (emask s e) ps s = Some (prio s t, s') \<and> sched_inv s' \<and>
    act s t \<and> prio s t \<in> waiters s e \<and> (\<forall>p \<in> waiters s e. prio s t \<le> p) \<and>
    wq_frame s s' \<and> OSTCBTbl s' = (OSTCBTbl s)(t := readied e pmsg (emask s e) ps (OSTCBTbl s t)) \<and>
    ready s' = (if susp (OSTCBTbl s t) then ready s else insert (prio s t) (ready s)) \<and>
    waiters s' = (\<lambda>i. waiters s i - {prio s t})"
proof -
  obtain t s' where ev: "OS_EventTaskRdy e pmsg (emask s e) ps s = Some (prio s t, s')"
    and t: "act s t" "prio s t \<in> waiters s e" "\<forall>p \<in> waiters s e. prio s t \<le> p"
    and fr: "wq_frame s s'" and tb: "OSTCBTbl s' = (OSTCBTbl s)(t := readied e pmsg (emask s e) ps (OSTCBTbl s t))"
    and bm: "bm_ok (rdy_bm s')" "\<forall>i. bm_ok (evt_bm (OSEvents s' i))"
    and rdy: "ready s' = (if (OSTCBStat (OSTCBTbl s t) AND NOT (emask s e)) AND OS_STAT_SUSPEND = 0
                then insert (prio s t) (ready s) else ready s)"
    and wt: "waiters s' = (\<lambda>i. waiters s i - {prio s t})"
    using OS_EventTaskRdy_eval [OF inv ne] by metis
  have tok: "task_ok s t" using inv t(1) by (rule sched_invD(6))
  note tokD = task_okD [OF tok]
  have rdy': "ready s' = (if susp (OSTCBTbl s t) then ready s else insert (prio s t) (ready s))"
    by (simp add: rdy susp_clear_mask susp_def)
  have in': "prio s t \<in> ready s' \<longleftrightarrow> \<not> susp (OSTCBTbl s t)"
    using tokD(2) by (auto simp: rdy' rdy_cond_def)
  have nopend: "\<not> multi (OSTCBTbl s t) \<Longrightarrow> \<not> pend (readied e pmsg (emask s e) ps (OSTCBTbl s t))"
    using tokD(6) [OF t(2)] by (simp add: wait_cond_def pend_def and.assoc and.commute and.left_commute)
  have "sched_inv s'"
  proof (rule sched_inv_change [OF inv t(1)])
    show "task_ok s' t"
      using tokD(1,3) in' nopend
      by (auto simp: task_ok_def Let_def tb wt tcb_prio_ok_def rdy_cond_def runnable_def susp_def
          multi_def susp_clear_mask multi_clear_mask) (simp_all add: readied_def Let_def)
    show "prio s t = OS_TASK_IDLE_PRIO \<Longrightarrow> prio s t \<in> ready s'"
      using sched_invD(7) [OF inv] by (auto simp: rdy')
  qed (use bm in \<open>auto simp: tb wt rdy' wq_frameD [OF fr] wq_frame_evt [OF fr]\<close>)
  then show ?thesis
    using ev t fr tb rdy' wt by blast
qed

subsection \<open>Readying every waiter\<close>

lemma finite_prios [simp]: "finite (A :: u8 set)"
  by (rule finite_subset [of _ UNIV]) simp_all

lemma event_rdy_all_ok:
  assumes "sched_inv s" and "e < OS_MAX_EVENTS"
  shows "\<exists>s'. event_rdy_all e pmsg (emask s e) ps nbr s = Some (nbr + of_nat (card (waiters s e)), s') \<and>
    sched_inv s' \<and> wq_frame s s' \<and> waiters s' = (\<lambda>i. waiters s i - waiters s e) \<and>
    ready s' = ready s \<union> {prio s t | t. act s t \<and> prio s t \<in> waiters s e \<and> \<not> susp (OSTCBTbl s t)} \<and>
    OSTCBTbl s' = (\<lambda>t. if act s t \<and> prio s t \<in> waiters s e
                       then readied e pmsg (emask s e) ps (OSTCBTbl s t) else OSTCBTbl s t)"
  using assms
proof (induction "card (waiters s e)" arbitrary: s nbr)
  case 0
  then have "waiters s e = {}" by simp
  with "0.prems" show ?case
    by (subst event_rdy_all.simps) (auto simp: evt_def evt_bm_nonempty)
next
  case (Suc n)
  then have ne: "waiters s e \<noteq> {}" by auto
  obtain t s1 where r: "OS_EventTaskRdy e pmsg (emask s e) ps s = Some (prio s t, s1)" and inv1: "sched_inv s1"
    and t: "act s t" "prio s t \<in> waiters s e" and fr: "wq_frame s s1"
    and tb: "OSTCBTbl s1 = (OSTCBTbl s)(t := readied e pmsg (emask s e) ps (OSTCBTbl s t))"
    and rdy: "ready s1 = (if susp (OSTCBTbl s t) then ready s else insert (prio s t) (ready s))"
    and wt: "waiters s1 = (\<lambda>i. waiters s i - {prio s t})"
    using OS_EventTaskRdy_ok [OF Suc.prems(1) ne] by metis
  have em: "emask s1 e = emask s e" by (simp add: wq_frame_evt [OF fr])
  have "n = card (waiters s1 e)" using Suc.hyps(2) t(2) by (simp add: wt)
  from Suc.hyps(1) [OF this inv1 Suc.prems(2), of "nbr + 1", unfolded em] obtain s' where
    s': "event_rdy_all e pmsg (emask s e) ps (nbr + 1) s1 = Some (nbr + 1 + of_nat (card (waiters s1 e)), s')"
      "sched_inv s'" "wq_frame s1 s'" "waiters s' = (\<lambda>i. waiters s1 i - waiters s1 e)"
    and rdy': "ready s' = ready s1 \<union> {prio s1 t | t. act s1 t \<and> prio s1 t \<in> waiters s1 e \<and> \<not> susp (OSTCBTbl s1 t)}"
    and tb': "OSTCBTbl s' = (\<lambda>t. if act s1 t \<and> prio s1 t \<in> waiters s1 e
                       then readied e pmsg (emask s e) ps (OSTCBTbl s1 t) else OSTCBTbl s1 t)"
    by blast
  have pr: "prio s1 u = prio s u" "act s1 u = act s u" for u
    by (rule wq_frame_tcb(4) [OF fr], rule wq_frame_act [OF fr])
  have "OSEventGrp (OSEvents s e) \<noteq> 0" using ne by (simp add: evt_bm_nonempty Suc.prems(1))
  then have ev: "event_rdy_all e pmsg (emask s e) ps nbr s = Some (nbr + of_nat (card (waiters s e)), s')"
    using s'(1) r Suc.prems(2) Suc.hyps(2) t(2)
    by (subst event_rdy_all.simps) (simp add: evt_def wt add.commute add.left_commute)
  have same: "act s u \<and> prio s u = prio s t \<longleftrightarrow> u = t" for u
    using t(1) act_prio_inj by blast
  have "ready s' = ready s \<union> {prio s u | u. act s u \<and> prio s u \<in> waiters s e \<and> \<not> susp (OSTCBTbl s u)}"
  proof -
    have "{prio s1 u | u. act s1 u \<and> prio s1 u \<in> waiters s1 e \<and> \<not> susp (OSTCBTbl s1 u)} =
        {prio s u | u. act s u \<and> prio s u \<in> waiters s e \<and> u \<noteq> t \<and> \<not> susp (OSTCBTbl s u)}"
      using same by (auto simp: pr wt tb)
    then show ?thesis
      using t by (cases "susp (OSTCBTbl s t)") (auto simp: rdy' rdy)
  qed
  moreover have "OSTCBTbl s' = (\<lambda>t. if act s t \<and> prio s t \<in> waiters s e
                       then readied e pmsg (emask s e) ps (OSTCBTbl s t) else OSTCBTbl s t)"
  proof
    fix u
    show "OSTCBTbl s' u = (if act s u \<and> prio s u \<in> waiters s e
        then readied e pmsg (emask s e) ps (OSTCBTbl s u) else OSTCBTbl s u)"
      using t same [of u] by (cases "u = t") (auto simp: tb' pr wt tb)
  qed
  moreover have "waiters s' = (\<lambda>i. waiters s i - waiters s e)"
    using t(2) by (auto simp: s'(4) wt fun_eq_iff)
  ultimately show ?case
    using ev s' wq_frame_trans [OF fr s'(3)] by blast
qed

subsection \<open>Blocking the running task on an event\<close>

lemma evt_mask_pend: "evt_mask ty \<noteq> 0 \<Longrightarrow> (x OR evt_mask ty) AND OS_STAT_PEND_ANY \<noteq> 0"
  by (auto simp: evt_mask_def os_bits split: if_splits)

lemma or_mask_suspend: "(x OR evt_mask ty) AND 0x08 = 0 \<longleftrightarrow> x AND 0x08 = 0"
  by (simp add: os_bits evt_mask_bits)

lemma or_mask_multi: "(x OR evt_mask ty) AND 0x80 = 0 \<longleftrightarrow> x AND 0x80 = 0"
  by (simp add: os_bits evt_mask_bits)

lemma or_mask_only: "x AND OS_STAT_PEND_ANY = 0 \<Longrightarrow> (x OR m) AND OS_STAT_PEND_ANY AND NOT m = 0" for x m :: u8
  by (simp add: u8_eq_0_iff bit_and_iff bit_or_iff bit_not_iff) blast

lemma not_waiting: "task_ok s t \<Longrightarrow> OSTCBEventPtr (OSTCBTbl s t) = None \<Longrightarrow>
    OSTCBEventMultiPtr (OSTCBTbl s t) = None \<Longrightarrow> prio s t \<notin> waiters s e"
  by (auto dest: task_okD(5) simp: evt_refs_def)

lemma pend_block_ok:
  assumes inv: "sched_inv s" and cur: "OSTCBCur s = TPtr c" "act s c" and rdy: "prio s c \<in> ready s"
    and nidle: "prio s c \<noteq> OS_TASK_IDLE_PRIO" and e: "e < OS_MAX_EVENTS" "emask s e \<noteq> 0"
    and free: "OSTCBEventPtr (OSTCBTbl s c) = None" "OSTCBEventMultiPtr (OSTCBTbl s c) = None"
  shows "\<exists>s'. pend_block (emask s e) e timeout s = Some s' \<and> sched_inv s' \<and> wq_frame s s' \<and>
    OSTCBTbl s' = (OSTCBTbl s)(c := (OSTCBTbl s c)\<lparr>OSTCBStat := OSTCBStat (OSTCBTbl s c) OR emask s e,
       OSTCBStatPend := OS_STAT_PEND_OK, OSTCBDly := timeout, OSTCBEventPtr := Some e\<rparr>) \<and>
    ready s' = ready s - {prio s c} \<and> waiters s' = (waiters s)(e := insert (prio s c) (waiters s e))"
proof -
  let ?c = "OSTCBTbl s c" and ?m = "emask s e"
  define c1 where "c1 = ?c\<lparr>OSTCBStat := OSTCBStat ?c OR ?m, OSTCBStatPend := OS_STAT_PEND_OK,
     OSTCBDly := timeout, OSTCBEventPtr := Some e\<rparr>"
  define s1 where "s1 = upd_tcb c (\<lambda>c. c\<lparr>OSTCBEventPtr := Some e\<rparr>) (upd_tcb c (\<lambda>c. c\<lparr>OSTCBStat := OSTCBStat c OR ?m,
       OSTCBStatPend := OS_STAT_PEND_OK, OSTCBDly := timeout\<rparr>) s)"
  define s' where "s' = rdy_del c (wait_ins c e s1)"
  have tok: "task_ok s c" using inv cur(2) by (rule sched_invD(6))
  note tokD = task_okD [OF tok]
  have c22: "c < OS_MAX_TCBS" using cur(2) by (simp add: act_def)
  have eval: "pend_block ?m e timeout s = Some s'"
    using cur(1) c22 e(1) by (simp add: pend_block_def OS_EventTaskWait_def evt_def s'_def s1_def)
  have tb1: "OSTCBTbl s1 = (OSTCBTbl s)(c := c1)"
    by (simp add: s1_def c1_def)
  then have tb: "OSTCBTbl s' = (OSTCBTbl s)(c := c1)"
    by (simp add: s'_def)
  have c1ok: "tcb_prio_ok c1" "OSTCBPrio c1 = prio s c" "evt_refs c1 = {e}" "OSTCBEventMultiPtr c1 = None"
    using tokD(1) free by (auto simp: c1_def tcb_prio_ok_def evt_refs_def split: option.splits)
  have fr: "wq_frame s s'"
    by (simp add: s'_def s1_def link_view_def prio_view_def)
  have ready': "ready s' = ready s - {prio s c}"
    using c1ok by (simp add: s'_def ready_rdy_del tb1) (simp add: s1_def)
  have waits': "waiters s' = (waiters s)(e := insert (prio s c) (waiters s e))"
    using c1ok by (simp add: s'_def waiters_wait_ins tb1) (simp add: s1_def)
  have pend0: "\<not> multi ?c \<Longrightarrow> OSTCBStat ?c AND OS_STAT_PEND_ANY = 0"
    using tokD(2) rdy by (simp add: rdy_cond_def runnable_def pend_def)
  have pend1: "pend c1" "multi c1 = multi ?c"
    using evt_mask_pend [OF e(2)] by (simp_all add: c1_def pend_def multi_def or_mask_multi)
  have wc: "wait_cond False ?m c1"
    using pend0 pend1 by (simp add: wait_cond_def c1_def or_mask_only)
  have em: "emask s' i = emask s i" for i by (simp add: wq_frame_evt [OF fr])
  have "sched_inv s'"
  proof (rule sched_inv_change [OF inv cur(2)])
    show "task_ok s' c"
      using c1ok wc pend1 e(1) not_waiting [OF tok free]
      by (auto simp: task_ok_def Let_def tb ready' waits' rdy_cond_def runnable_def em)
    show "bm_ok (rdy_bm s')" "bm_ok (evt_bm (OSEvents s' i))" for i
      using sched_invD(1,2) [OF inv] c1ok tb1 by (auto simp: s'_def s1_def intro!: bm_ok_prims)
  qed (use nidle in \<open>auto simp: tb ready' waits' wq_frameD [OF fr] em c1_def prio_view_def\<close>)
  then show ?thesis
    using eval fr tb ready' waits' by (simp add: c1_def)
qed

subsection \<open>Running again after a pend\<close>

lemma pend_clear_ok:
  assumes inv: "sched_inv s" and act: "act s c" and rdy: "prio s c \<in> ready s"
    and nw: "\<And>i. prio s c \<notin> waiters s i"
  shows "sched_inv (pend_clear c s)"
  unfolding pend_clear_def
proof (rule sched_inv_upd_tcb [OF inv act])
  have "task_ok s c" using inv act by (rule sched_invD(6))
  note tokD = task_okD [OF this]
  have "OSTCBDly (OSTCBTbl s c) = 0" using tokD(2) rdy by (simp add: rdy_cond_def)
  then show "task_ok (upd_tcb c (\<lambda>c. c\<lparr>OSTCBStat := OS_STAT_RDY, OSTCBStatPend := OS_STAT_PEND_OK,
     OSTCBEventPtr := None, OSTCBEventMultiPtr := None, OSTCBEventMultiRdy := None\<rparr>) s) c"
    using tokD(1) rdy nw
    by (simp add: task_ok_def Let_def tcb_prio_ok_def rdy_cond_def runnable_def susp_def pend_def
        multi_def evt_refs_def)
qed (simp add: prio_view_def)

lemma pend_clear_wq_frame: "wq_frame s (pend_clear c s1) = wq_frame s s1"
  by (simp add: pend_clear_def link_view_def prio_view_def)

text \<open>A timed-out task leaves the wait list.\<close>

lemma remove_cur_ok:
  assumes inv: "sched_inv s" and act: "act s c" and rdy: "prio s c \<in> ready s"
    and refs: "evt_refs (OSTCBTbl s c) \<subseteq> {e}" and e: "e < OS_MAX_EVENTS"
    and nm: "OSTCBEventMultiPtr (OSTCBTbl s c) = None"
  shows "\<exists>s1. OS_EventTaskRemove c e s = Some s1 \<and> sched_inv s1 \<and> wq_frame s s1 \<and> ready s1 = ready s \<and>
    waiters s1 = (\<lambda>i. waiters s i - {prio s c}) \<and>
    OSTCBTbl s1 = (OSTCBTbl s)(c := (OSTCBTbl s c)\<lparr>OSTCBEventPtr := None\<rparr>)"
proof -
  define s1 where "s1 = upd_tcb c (\<lambda>c. c\<lparr>OSTCBEventPtr := None\<rparr>) (wait_del c e s)"
  have sel: "OSTCBPrioTbl s1 = OSTCBPrioTbl s" "rdy_bm s1 = rdy_bm s" "ready s1 = ready s"
    "OSTCBTbl s1 = (OSTCBTbl s)(c := (OSTCBTbl s c)\<lparr>OSTCBEventPtr := None\<rparr>)"
    "OSEvents s1 = OSEvents (wait_del c e s)" by (simp_all add: s1_def)
  have "task_ok s c" using inv act by (rule sched_invD(6))
  note tokD = task_okD [OF this]
  have w: "waiters s1 = (\<lambda>i. waiters s i - {prio s c})"
  proof
    show "waiters s1 i = waiters s i - {prio s c}" for i
      using tokD(1) tokD(5) [of i] refs by (cases "i = e") (auto simp: s1_def waiters_wait_del)
  qed
  have fr: "wq_frame s s1" by (simp add: s1_def)
  have "sched_inv s1"
  proof (rule sched_inv_change [OF inv act])
    show "task_ok s1 c"
      using tokD(1-3) nm by (simp add: task_ok_def Let_def w sel evt_refs_def)
    show "bm_ok (rdy_bm s1)" "bm_ok (evt_bm (OSEvents s1 i))" for i
      using sched_invD(1,2) [OF inv] tokD(1) by (auto simp: sel intro!: bm_ok_prims)
    show "emask s1 i = emask s i" for i by (simp only: wq_frame_evt [OF fr])
  qed (use rdy in \<open>simp_all add: w sel\<close>)
  then show ?thesis
    using fr w sel OS_EventTaskRemove_ok [OF e, of c s] by (simp add: s1_def [symmetric])
qed

lemma pend_wake_ok:
  assumes inv: "sched_inv s" and cur: "OSTCBCur s = TPtr c" "act s c" and rdy: "prio s c \<in> ready s"
    and refs: "evt_refs (OSTCBTbl s c) \<subseteq> {e}" and e: "e < OS_MAX_EVENTS"
    and nm: "OSTCBEventMultiPtr (OSTCBTbl s c) = None"
  shows "\<exists>s'. pend_wake e s = Some ((if OSTCBStatPend (OSTCBTbl s c) = OS_STAT_PEND_OK then OS_ERR_NONE
        else if OSTCBStatPend (OSTCBTbl s c) = OS_STAT_PEND_ABORT then OS_ERR_PEND_ABORT else OS_ERR_TIMEOUT), s') \<and>
    sched_inv s' \<and> wq_frame s s' \<and> ready s' = ready s \<and> waiters s' = (\<lambda>i. waiters s i - {prio s c}) \<and>
    OSTCBTbl s' = (OSTCBTbl s)(c := (OSTCBTbl s c)\<lparr>OSTCBStat := OS_STAT_RDY, OSTCBStatPend := OS_STAT_PEND_OK,
       OSTCBEventPtr := None, OSTCBEventMultiPtr := None, OSTCBEventMultiRdy := None\<rparr>)"
proof -
  have "task_ok s c" using inv cur(2) by (rule sched_invD(6))
  note tokD = task_okD [OF this]
  have d: "deref_tcb (OSTCBCur s) = Some c" using cur by (rule deref_cur)
  have pc: "ready (pend_clear c s) = ready s" "waiters (pend_clear c s) = waiters s" for s
    by (simp_all add: pend_clear_def)
  show ?thesis
  proof (cases "OSTCBStatPend (OSTCBTbl s c) = OS_STAT_PEND_OK \<or> OSTCBStatPend (OSTCBTbl s c) = OS_STAT_PEND_ABORT")
    case True
    then have nw: "prio s c \<notin> waiters s i" for i
      using tokD(6) [of i] rdy by (auto simp: wait_cond_def)
    then have "waiters s = (\<lambda>i. waiters s i - {prio s c})" by auto
    with True nw pend_clear_ok [OF inv cur(2) rdy] show ?thesis
      by (intro exI [of _ "pend_clear c s"])
        (auto simp: pend_wake_def d Let_def pend_clear_wq_frame pc, simp_all add: pend_clear_def)
  next
    case False
    obtain s1 where s1: "OS_EventTaskRemove c e s = Some s1" "sched_inv s1" "wq_frame s s1" "ready s1 = ready s"
      "waiters s1 = (\<lambda>i. waiters s i - {prio s c})"
      "OSTCBTbl s1 = (OSTCBTbl s)(c := (OSTCBTbl s c)\<lparr>OSTCBEventPtr := None\<rparr>)"
      using remove_cur_ok [OF inv cur(2) rdy refs e nm] by blast
    have "sched_inv (pend_clear c s1)"
      using s1 cur rdy wq_frame_act [OF s1(3)] by (intro pend_clear_ok) auto
    with False s1 show ?thesis
      by (intro exI [of _ "pend_clear c s1"])
        (simp add: pend_wake_def d Let_def pend_clear_wq_frame pc, simp add: pend_clear_def)
  qed
qed

subsection \<open>The tick\<close>

text \<open>What one tick does to a task's control block.\<close>

definition ticked :: "os_tcb \<Rightarrow> os_tcb" where
  "ticked c = (if OSTCBDly c = 0 then c
     else if OSTCBDly c \<noteq> 1 then c\<lparr>OSTCBDly := OSTCBDly c - 1\<rparr>
     else if pend c then c\<lparr>OSTCBDly := 0, OSTCBStat := OSTCBStat c AND NOT OS_STAT_PEND_ANY, OSTCBStatPend := OS_STAT_PEND_TO\<rparr>
     else c\<lparr>OSTCBDly := 0, OSTCBStatPend := OS_STAT_PEND_OK\<rparr>)"

definition expires :: "os_tcb \<Rightarrow> bool" where
  "expires c \<longleftrightarrow> OSTCBDly c = 1 \<and> \<not> susp c"

lemma dly_step: "(d::u32) \<noteq> 0 \<Longrightarrow> d - 1 = 0 \<longleftrightarrow> d = 1"
  by simp

lemma clear_pend_any [simp]:
  "(x AND -56) AND 8 = x AND (8::u8)" "(x AND -56) AND 0x80 = x AND (0x80::u8)" "(x AND -56) AND 0x37 = (0::u8)"
  by (simp_all add: and.assoc)

lemma clear_pend_any_mask [simp]: "(x AND -56) AND (0x37 AND m) = (0::u8)"
  by (simp add: and.assoc [symmetric])

lemma ticked_views [simp]:
  "link_view (ticked c) = link_view c" "prio_view (ticked c) = prio_view c" "OSTCBPrio (ticked c) = OSTCBPrio c"
  "tcb_prio_ok (ticked c) = tcb_prio_ok c" "evt_refs (ticked c) = evt_refs c" "susp (ticked c) = susp c"
  "multi (ticked c) = multi c" "OSTCBEventPtr (ticked c) = OSTCBEventPtr c"
  "OSTCBEventMultiPtr (ticked c) = OSTCBEventMultiPtr c"
  by (simp_all add: ticked_def susp_def multi_def)

lemma tick_task_eval:
  assumes "tcb_prio_ok (OSTCBTbl s t)"
  shows "tick_task t s = (let s1 = upd_tcb t ticked s in
    if expires (OSTCBTbl s t) then set_rdy_bm (bm_add (prio s t) (rdy_bm s)) s1 else s1)"
proof -
  have id: "upd_tcb t ticked s = s" if "OSTCBDly (OSTCBTbl s t) = 0"
    using that by (simp add: upd_tcb_def ticked_def)
  show ?thesis
    using assms
    by (auto simp: tick_task_def Let_def expires_def pend_def susp_def rdy_ins_eq id)
      (auto simp: upd_tcb_def ticked_def pend_def)
qed

lemma tick_task_ok:
  assumes inv: "sched_inv s" and act: "act s t"
  shows "sched_inv (tick_task t s) \<and> wq_frame s (tick_task t s) \<and> OSEvents (tick_task t s) = OSEvents s \<and>
    OSTCBTbl (tick_task t s) = (OSTCBTbl s)(t := ticked (OSTCBTbl s t)) \<and>
    ready (tick_task t s) = ready s \<union> (if expires (OSTCBTbl s t) then {prio s t} else {})"
proof -
  let ?s = "tick_task t s" and ?c = "OSTCBTbl s t"
  have "task_ok s t" using inv act by (rule sched_invD(6))
  note tokD = task_okD [OF this]
  note ev = tick_task_eval [OF tokD(1)]
  have sel: "OSEvents ?s = OSEvents s" "OSTCBTbl ?s = (OSTCBTbl s)(t := ticked ?c)" "OSTCBPrioTbl ?s = OSTCBPrioTbl s"
    and fr: "wq_frame s ?s"
    by (simp_all add: ev Let_def)
  have rdy: "ready ?s = ready s \<union> (if expires ?c then {prio s t} else {})"
    using tokD(1) by (simp add: ev Let_def bm_set_add tcb_prio_ok_bm(3) ready_def)
  have w: "waiters ?s = waiters s" by (simp add: waiters_def fun_eq_iff sel)
  have "sched_inv ?s"
  proof (rule sched_inv_change [OF inv act])
    have r: "rdy_cond (prio s t \<in> ready ?s) (ticked ?c)"
    proof (cases "OSTCBDly ?c = 0")
      case False
      then have "prio s t \<notin> ready s"
        using tokD(2) by (auto simp: rdy_cond_def)
      with False show ?thesis
        by (cases "OSTCBDly ?c = 1"; cases "pend ?c")
          (simp_all add: rdy rdy_cond_def runnable_def expires_def ticked_def pend_def susp_def)
    qed (use tokD(2) in \<open>simp add: ticked_def rdy expires_def\<close>)
    have "wait_cond (prio s t \<in> ready ?s) (emask s i) (ticked ?c)" if "prio s t \<in> waiters s i" for i
    proof (cases "OSTCBDly ?c = 0")
      case False
      then have "prio s t \<notin> ready s" "pend ?c"
        using tokD(2) tokD(6) [OF that] by (auto simp: rdy_cond_def wait_cond_def)
      with False tokD(6) [OF that] show ?thesis
        by (cases "OSTCBDly ?c = 1") (simp_all add: rdy wait_cond_def expires_def ticked_def pend_def multi_def)
    qed (use tokD(6) [OF that] in \<open>simp add: ticked_def rdy expires_def\<close>)
    then show "task_ok ?s t"
      using tokD(1,3,4,5) r by (simp add: task_ok_def Let_def sel w)
    show "bm_ok (rdy_bm ?s)"
      using sched_invD(1) [OF inv] tokD(1) by (simp add: ev Let_def bm_ok_add tcb_prio_ok_bm(3))
    show "prio s t \<in> ready ?s" if "prio s t = OS_TASK_IDLE_PRIO"
      using sched_invD(7) [OF inv] by (simp add: rdy that)
  qed (use sched_invD(2) [OF inv] in \<open>simp_all add: sel w rdy\<close>)
  with sel fr rdy show ?thesis by simp
qed

text \<open>The walk visits the task list up to the idle task, so it ends.\<close>

lemma tick_walk_ok:
  assumes "sched_inv s" and "tcb_seg (OSTCBTbl s) pv p ts" and "distinct ts" and "\<forall>t \<in> set ts. act s t"
    and "ts \<noteq> []" and "prio s (last ts) = OS_TASK_IDLE_PRIO"
  shows "\<exists>s'. tick_walk p s = Some s' \<and> sched_inv s' \<and> wq_frame s s' \<and> OSEvents s' = OSEvents s \<and>
    OSTCBTbl s' = (\<lambda>t. if t \<in> set (butlast ts) then ticked (OSTCBTbl s t) else OSTCBTbl s t) \<and>
    ready s' = ready s \<union> {prio s t | t. t \<in> set (butlast ts) \<and> expires (OSTCBTbl s t)}"
  using assms
proof (induction ts arbitrary: s pv p)
  case (Cons t ts)
  have t: "p = TPtr t" "t < OS_MAX_TCBS" "act s t" using Cons.prems by auto
  show ?case
  proof (cases "ts = []")
    case True
    with Cons.prems t show ?thesis
      by (intro exI [of _ s]) (subst tick_walk.simps, simp)
  next
    case False
    let ?s = "tick_task t s"
    have lst: "last ts \<in> set ts" "prio s (last ts) = OS_TASK_IDLE_PRIO" using False Cons.prems by auto
    have ni: "prio s t \<noteq> OS_TASK_IDLE_PRIO"
      using lst Cons.prems(3,4) act_prio_inj [OF t(3), of "last ts"] by auto
    have ok: "sched_inv ?s" "wq_frame s ?s" "OSEvents ?s = OSEvents s"
      "OSTCBTbl ?s = (OSTCBTbl s)(t := ticked (OSTCBTbl s t))"
      "ready ?s = ready s \<union> (if expires (OSTCBTbl s t) then {prio s t} else {})"
      using tick_task_ok [OF Cons.prems(1) t(3)] by blast+
    have seg: "tcb_seg (OSTCBTbl ?s) (TPtr t) (OSTCBNext (OSTCBTbl ?s t)) ts"
      using Cons.prems(2) by (subst tcb_seg_cong [of _ _ "OSTCBTbl s"]) (simp_all add: wq_frame_tcb [OF ok(2)])
    have a: "\<forall>u \<in> set ts. act ?s u" using Cons.prems(4) by (simp add: wq_frame_act [OF ok(2)])
    have l: "prio ?s (last ts) = OS_TASK_IDLE_PRIO" using lst by (simp add: wq_frame_tcb [OF ok(2)])
    obtain s' where s': "tick_walk (OSTCBNext (OSTCBTbl ?s t)) ?s = Some s'" "sched_inv s'" "wq_frame ?s s'"
      "OSEvents s' = OSEvents ?s"
      "OSTCBTbl s' = (\<lambda>t. if t \<in> set (butlast ts) then ticked (OSTCBTbl ?s t) else OSTCBTbl ?s t)"
      "ready s' = ready ?s \<union> {prio ?s u | u. u \<in> set (butlast ts) \<and> expires (OSTCBTbl ?s u)}"
      using Cons.IH [OF ok(1) seg _ a False l] Cons.prems(3) by auto
    have nt: "t \<notin> set (butlast ts)" using Cons.prems(3) in_set_butlastD by fastforce
    have "OSTCBTbl s' = (\<lambda>u. if u \<in> set (butlast (t # ts)) then ticked (OSTCBTbl s u) else OSTCBTbl s u)"
      using False nt by (simp add: s'(5) ok(4) fun_eq_iff)
    moreover have "{prio ?s u | u. u \<in> set (butlast ts) \<and> expires (OSTCBTbl ?s u)} =
        {prio s u | u. u \<in> set (butlast ts) \<and> expires (OSTCBTbl s u)}"
      using nt by (auto simp: ok(4))
    then have "ready s' = ready s \<union> {prio s u | u. u \<in> set (butlast (t # ts)) \<and> expires (OSTCBTbl s u)}"
      using False by (auto simp: s'(6) ok(5))
    moreover have "tick_walk p s = Some s'"
      using t ni s'(1) by (subst tick_walk.simps) (simp add: Let_def)
    ultimately show ?thesis
      using s' ok wq_frame_trans [OF ok(2) s'(3)] by simp
  qed
qed simp

text \<open>The tick counts and, unless the stepping mode holds it back, ages every active task but idle.\<close>

definition tick_steps :: "os \<Rightarrow> bool" where
  "tick_steps s \<longleftrightarrow> OSRunning s \<and> OSTickStepState s \<noteq> OS_TICK_STEP_WAIT"

lemma OSTimeTick_ok:
  assumes inv: "sched_inv s" and lists: "list_inv s"
  shows "\<exists>s'. OSTimeTick s = Some s' \<and> sched_inv s' \<and> list_inv s' \<and> OSTime s' = OSTime s + 1 \<and>
    wq_frame (s\<lparr>OSTime := OSTime s', OSTickStepState := OSTickStepState s'\<rparr>) s' \<and> OSEvents s' = OSEvents s \<and>
    OSTCBTbl s' = (\<lambda>t. if tick_steps s \<and> act s t \<and> prio s t \<noteq> OS_TASK_IDLE_PRIO
                       then ticked (OSTCBTbl s t) else OSTCBTbl s t) \<and>
    ready s' = ready s \<union> {prio s t | t. tick_steps s \<and> act s t \<and> prio s t \<noteq> OS_TASK_IDLE_PRIO \<and> expires (OSTCBTbl s t)}"
proof -
  define s2 where "s2 = (let st = OSTickStepState s; s1 = s\<lparr>OSTime := OSTime s + 1\<rparr> in
     if \<not> OSRunning s \<or> st = OS_TICK_STEP_DIS \<or> st = OS_TICK_STEP_WAIT then s1
     else if st = OS_TICK_STEP_ONCE then s1\<lparr>OSTickStepState := OS_TICK_STEP_WAIT\<rparr>
     else s1\<lparr>OSTickStepState := OS_TICK_STEP_DIS\<rparr>)"
  have ev: "OSTimeTick s = (if tick_steps s then tick_walk (OSTCBList s2) s2 else Some s2)"
    by (simp add: OSTimeTick_def s2_def tick_steps_def Let_def)
  have s2: "s2 = s\<lparr>OSTime := OSTime s + 1, OSTickStepState := OSTickStepState s2\<rparr>"
    by (simp add: s2_def Let_def)
  obtain k where k: "s2 = s\<lparr>OSTime := OSTime s + 1, OSTickStepState := k\<rparr>" using s2 by blast
  have sel: "OSTCBTbl s2 = OSTCBTbl s" "OSEvents s2 = OSEvents s" "rdy_bm s2 = rdy_bm s"
    "OSTCBPrioTbl s2 = OSTCBPrioTbl s" "OSTCBList s2 = OSTCBList s" "OSTCBFreeList s2 = OSTCBFreeList s"
    "OSTime s2 = OSTime s + 1"
    by (simp_all add: k rdy_bm_def)
  have inv2: "sched_inv s2" by (rule sched_inv_cong [OF inv]) (simp_all add: sel)
  have act2: "act s2 t = act s t" "ready s2 = ready s" for t by (simp_all add: act_def ready_def sel)
  have list2: "list_inv s2" using lists by (subst list_inv_cong [of _ s]) (simp_all add: sel)
  show ?thesis
  proof (cases "tick_steps s")
    case True
    obtain ts fs where ts: "task_lists s2 ts fs" using list2 by (auto simp: list_inv_def)
    obtain s' where s': "tick_walk (OSTCBList s2) s2 = Some s'" "sched_inv s'" "wq_frame s2 s'" "OSEvents s' = OSEvents s2"
      and tb: "OSTCBTbl s' = (\<lambda>t. if t \<in> set (butlast ts) then ticked (OSTCBTbl s2 t) else OSTCBTbl s2 t)"
      and rdy: "ready s' = ready s2 \<union> {prio s2 t | t. t \<in> set (butlast ts) \<and> expires (OSTCBTbl s2 t)}"
      using tick_walk_ok [OF inv2, of TNull "OSTCBList s2" ts] ts by (auto simp: task_lists_def)
    have bl: "t \<in> set (butlast ts) \<longleftrightarrow> act s t \<and> prio s t \<noteq> OS_TASK_IDLE_PRIO" for t
    proof -
      define us u where "us = butlast ts" and "u = last ts"
      have split: "ts = us @ [u]" using ts by (simp add: us_def u_def task_lists_def)
      have acts: "act s v \<longleftrightarrow> v \<in> set us \<or> v = u" for v
        using ts by (auto simp: task_lists_def act2 split)
      have "u \<notin> set us" "prio s u = OS_TASK_IDLE_PRIO"
        using ts by (auto simp: task_lists_def split sel)
      moreover have "prio s t = OS_TASK_IDLE_PRIO \<Longrightarrow> act s t \<Longrightarrow> t = u"
        using act_prio_inj [of s t u] acts [of u] calculation(2) by simp
      ultimately show ?thesis
        using acts [of t] by (auto simp: split)
    qed
    have time: "OSTime s' = OSTime s + 1" "OSTickStepState s' = k" "list_inv s'"
      using wq_frameD(16,18) [OF s'(3)] wq_frame_list_inv [OF s'(3)] list2 by (simp_all add: k)
    have "wq_frame (s\<lparr>OSTime := OSTime s', OSTickStepState := OSTickStepState s'\<rparr>) s'"
      using s'(3) by (simp add: time k)
    with True s' time show ?thesis
      by (intro exI [of _ s']) (simp add: ev tb [unfolded sel bl] rdy [unfolded sel bl act2] sel)
  next
    case False
    then show ?thesis
      by (intro exI [of _ s2]) (simp add: ev inv2 list2 sel act2, simp add: k)
  qed
qed

subsection \<open>Interrupts, the scheduler lock, and the start\<close>

lemma sw_frame_list_inv: "sw_frame s s' \<Longrightarrow> list_inv s' = list_inv s"
proof (rule list_inv_cong)
  assume fr: "sw_frame s s'"
  show "OSTCBList s' = OSTCBList s" "OSTCBFreeList s' = OSTCBFreeList s" "OSTCBPrioTbl s' = OSTCBPrioTbl s"
    by (rule sw_frameD [OF fr])+
  fix t
  obtain n where "OSTCBTbl s' t = (OSTCBTbl s t)\<lparr>OSTCBCtxSwCtr := n\<rparr>" by (rule sw_frame_tcb [OF fr])
  then show "link_view (OSTCBTbl s' t) = link_view (OSTCBTbl s t)" by (simp add: link_view_def prio_view_def)
qed

text \<open>The nesting counters are not part of the scheduling invariant.\<close>

lemma set_nesting [simp]:
  "sched_inv (s\<lparr>OSIntNesting := n\<rparr>) = sched_inv s" "list_inv (s\<lparr>OSIntNesting := n\<rparr>) = list_inv s"
  "sched_inv (s\<lparr>OSLockNesting := n\<rparr>) = sched_inv s" "list_inv (s\<lparr>OSLockNesting := n\<rparr>) = list_inv s"
  "act (s\<lparr>OSIntNesting := n\<rparr>) t = act s t" "act (s\<lparr>OSLockNesting := n\<rparr>) t = act s t"
  "ready (s\<lparr>OSIntNesting := n\<rparr>) = ready s" "ready (s\<lparr>OSLockNesting := n\<rparr>) = ready s"
  "waiters (s\<lparr>OSIntNesting := n\<rparr>) = waiters s" "waiters (s\<lparr>OSLockNesting := n\<rparr>) = waiters s"
proof -
  have v: "sched_inv (s\<lparr>OSIntNesting := m\<rparr>)" "sched_inv (s\<lparr>OSLockNesting := m\<rparr>)" if "sched_inv s" for s m
    by (rule sched_inv_cong [OF that], simp_all add: rdy_bm_def)+
  from v(1) [of "s\<lparr>OSIntNesting := n\<rparr>" "OSIntNesting s"] v(1) [of s n]
  show "sched_inv (s\<lparr>OSIntNesting := n\<rparr>) = sched_inv s" by auto
  from v(2) [of "s\<lparr>OSLockNesting := n\<rparr>" "OSLockNesting s"] v(2) [of s n]
  show "sched_inv (s\<lparr>OSLockNesting := n\<rparr>) = sched_inv s" by auto
  show "list_inv (s\<lparr>OSIntNesting := n\<rparr>) = list_inv s" "list_inv (s\<lparr>OSLockNesting := n\<rparr>) = list_inv s"
    by (rule list_inv_cong; simp)+
qed (simp_all add: act_def ready_def waiters_def rdy_bm_def fun_eq_iff)

lemma OSIntExit_ok:
  assumes inv: "sched_inv s" and cur: "cur_ok s c" and run: "OSRunning s" and n: "OSIntNesting s > 0"
  shows "\<exists>s' c'. OSIntExit s = Some s' \<and> sched_inv s' \<and> cur_ok s' c' \<and>
    sw_frame (s\<lparr>OSIntNesting := OSIntNesting s - 1\<rparr>) s' \<and>
    (OSIntNesting s = 1 \<and> OSLockNesting s = 0 \<longrightarrow> highest_runs s')"
proof -
  let ?s1 = "s\<lparr>OSIntNesting := OSIntNesting s - 1\<rparr>"
  have cur1: "OSTCBCur ?s1 = TPtr c" "act ?s1 c" "OSPrioCur ?s1 = prio ?s1 c"
    using cur by (simp_all add: cur_ok_def)
  have inv1: "sched_inv ?s1" using inv by simp
  show ?thesis
  proof (cases "OSIntNesting s = 1 \<and> OSLockNesting s = 0")
    case True
    obtain s' c' where s': "sched_switch ?s1 = Some s'" "sw_frame ?s1 s'" "cur_ok s' c'" "highest_runs s'"
      using sched_switch_ok [OF inv1 cur1] by blast
    with True run n sw_frame_inv [OF s'(2) inv1] show ?thesis
      by (intro exI [of _ s'] exI [of _ c']) (simp add: OSIntExit_def Let_def)
  next
    case False
    then have "OSIntExit s = Some ?s1" using run n by (auto simp: OSIntExit_def Let_def)
    moreover have "cur_ok ?s1 c" using cur1 False by (auto simp: cur_ok_def)
    ultimately show ?thesis using False inv1 by (intro exI [of _ ?s1] exI [of _ c]) auto
  qed
qed

lemma OSSchedUnlock_ok:
  assumes inv: "sched_inv s" and cur: "cur_ok s c"
  shows "\<exists>s' c'. OSSchedUnlock s = Some s' \<and> sched_inv s' \<and> cur_ok s' c' \<and>
    (OSRunning s \<and> OSIntNesting s = 0 \<and> OSLockNesting s > 0 \<longrightarrow>
       sw_frame (s\<lparr>OSLockNesting := OSLockNesting s - 1\<rparr>) s' \<and> (OSLockNesting s = 1 \<longrightarrow> highest_runs s')) \<and>
    (\<not> (OSRunning s \<and> OSIntNesting s = 0 \<and> OSLockNesting s > 0) \<longrightarrow> s' = s)"
proof (cases "OSRunning s \<and> OSIntNesting s = 0 \<and> OSLockNesting s > 0")
  case g: True
  let ?s1 = "s\<lparr>OSLockNesting := OSLockNesting s - 1\<rparr>"
  have cur1: "OSTCBCur ?s1 = TPtr c" "act ?s1 c" "OSPrioCur ?s1 = prio ?s1 c"
    using cur by (simp_all add: cur_ok_def)
  have inv1: "sched_inv ?s1" using inv by simp
  show ?thesis
  proof (cases "OSLockNesting s = 1")
    case True
    obtain s' c' where s': "OS_Sched ?s1 = Some s'" "sw_frame ?s1 s'" "cur_ok s' c'" "highest_runs s'"
      using OS_Sched_ok [OF inv1 cur1] g True by auto
    with True g sw_frame_inv [OF s'(2) inv1] show ?thesis
      by (intro exI [of _ s'] exI [of _ c']) (simp add: OSSchedUnlock_def Let_def)
  next
    case False
    then have "OSSchedUnlock s = Some ?s1" using g by (simp add: OSSchedUnlock_def Let_def)
    moreover have "cur_ok ?s1 c" using cur1 False by (auto simp: cur_ok_def)
    ultimately show ?thesis using False g inv1 by auto
  qed
next
  case False
  then have "OSSchedUnlock s = Some s" by (auto simp: OSSchedUnlock_def)
  with False inv cur show ?thesis by blast
qed

lemma OSIntEnter_eq: "OSRunning s \<Longrightarrow> OSIntNesting s < 255 \<Longrightarrow> OSIntEnter s = s\<lparr>OSIntNesting := OSIntNesting s + 1\<rparr>"
  by (simp add: OSIntEnter_def)

lemma u8_succ_pos: "(n::u8) < 255 \<Longrightarrow> n + 1 > 0"
  by (auto simp: word_gt_0 eq_neg_iff_add_eq_0 [symmetric])

text \<open>A tick interrupt taken at any point: the tick, then the highest-priority ready task runs when
  this was the outermost interrupt and the scheduler is not locked.\<close>

lemma OS_CPU_SysTickHandler_ok:
  assumes inv: "sched_inv s" "list_inv s" and cur: "cur_ok s c" and run: "OSRunning s" and n: "OSIntNesting s < 255"
  shows "\<exists>s' c'. OS_CPU_SysTickHandler s = Some s' \<and> sched_inv s' \<and> list_inv s' \<and> cur_ok s' c' \<and>
    OSTime s' = OSTime s + 1 \<and>
    ready s' = ready s \<union> {prio s t | t. tick_steps s \<and> act s t \<and> prio s t \<noteq> OS_TASK_IDLE_PRIO \<and> expires (OSTCBTbl s t)} \<and>
    (OSIntNesting s = 0 \<and> OSLockNesting s = 0 \<longrightarrow> highest_runs s')"
proof -
  let ?s0 = "OSIntEnter s"
  have s0: "?s0 = s\<lparr>OSIntNesting := OSIntNesting s + 1\<rparr>" by (rule OSIntEnter_eq [OF run n])
  have inv0: "sched_inv ?s0" "list_inv ?s0" using inv by (simp_all add: s0)
  obtain s1 where s1: "OSTimeTick ?s0 = Some s1" "sched_inv s1" "list_inv s1" "OSTime s1 = OSTime ?s0 + 1"
    and fr: "wq_frame (?s0\<lparr>OSTime := OSTime s1, OSTickStepState := OSTickStepState s1\<rparr>) s1"
    and rdy: "ready s1 = ready ?s0 \<union> {prio ?s0 t | t. tick_steps ?s0 \<and> act ?s0 t \<and>
       prio ?s0 t \<noteq> OS_TASK_IDLE_PRIO \<and> expires (OSTCBTbl ?s0 t)}"
    using OSTimeTick_ok [OF inv0] by blast
  note frs = wq_frameD(2,3,4,5,6) [OF fr] wq_frame_tcb(4) [OF fr]
  have act1: "act s1 u = act s u" for u by (simp only: wq_frame_act [OF fr]) (simp add: act_def s0)
  have nz: "OSIntNesting s + 1 \<noteq> 0" using u8_succ_pos [OF n] by auto
  have "OSTCBCur s1 = OSTCBCur s" "OSPrioCur s1 = OSPrioCur s" "OSIntNesting s1 = OSIntNesting s + 1" "prio s1 c = prio s c"
    by (simp_all add: frs s0)
  then have cur1: "cur_ok s1 c" using cur nz act1 by (simp add: cur_ok_def)
  have run1: "OSRunning s1" "OSIntNesting s1 > 0" "OSIntNesting s1 = OSIntNesting s + 1" "OSLockNesting s1 = OSLockNesting s"
    using run u8_succ_pos [OF n] by (simp_all add: frs s0)
  obtain s' c' where s': "OSIntExit s1 = Some s'" "sched_inv s'" "cur_ok s' c'"
    "sw_frame (s1\<lparr>OSIntNesting := OSIntNesting s1 - 1\<rparr>) s'"
    "OSIntNesting s1 = 1 \<and> OSLockNesting s1 = 0 \<longrightarrow> highest_runs s'"
    using OSIntExit_ok [OF s1(2) cur1 run1(1,2)] by blast
  have "list_inv s'" using sw_frame_list_inv [OF s'(4)] s1(3) by simp
  moreover have "ready s' = ready s1" "OSTime s' = OSTime s1" using sw_frameD [OF s'(4)] by simp_all
  moreover have "ready ?s0 = ready s" "tick_steps ?s0 = tick_steps s" "act ?s0 = act s" "OSTCBTbl ?s0 = OSTCBTbl s"
    by (simp_all add: s0 tick_steps_def fun_eq_iff)
  ultimately show ?thesis
    using s' s1 run1 by (intro exI [of _ s'] exI [of _ c']) (auto simp: OS_CPU_SysTickHandler_def rdy s0)
qed

end
