(* ===== verification/OS_Mutex.thy ===== *)
theory OS_Mutex
  imports OS_Core
begin

text \<open>
  \<^verbatim>\<open>src/ucos/CORE/os_mutex.c\<close>: mutual exclusion with the priority ceiling protocol. The upper
  byte of \<open>OSEventCnt\<close> is the ceiling (\<open>0xFF\<close>: disabled), the lower byte the owner's priority when
  it took the mutex (\<open>0xFF\<close>: available); \<open>OSEventPtr\<close> points at the owner.
\<close>

abbreviation (input) OS_MUTEX_AVAILABLE :: u16 where "OS_MUTEX_AVAILABLE \<equiv> 0x00FF"
abbreviation (input) OS_MUTEX_KEEP_LOWER_8 :: u16 where "OS_MUTEX_KEEP_LOWER_8 \<equiv> 0x00FF"
abbreviation (input) OS_MUTEX_KEEP_UPPER_8 :: u16 where "OS_MUTEX_KEEP_UPPER_8 \<equiv> 0xFF00"

definition mutex_pcp :: "os_event \<Rightarrow> u8" where
  "mutex_pcp ev = ucast (drop_bit 8 (OSEventCnt ev))"

definition mutex_prio :: "os_event \<Rightarrow> u8" where
  "mutex_prio ev = ucast (OSEventCnt ev AND OS_MUTEX_KEEP_LOWER_8)"

definition deref_vtcb :: "vptr \<Rightarrow> nat option" where
  "deref_vtcb p = (case p of VTcb t \<Rightarrow> if t < OS_MAX_TCBS then Some t else None | _ \<Rightarrow> None)"

definition vtcb_of :: "tcbptr \<Rightarrow> vptr option" where
  "vtcb_of p = (case p of TNull \<Rightarrow> Some VNull | TPtr t \<Rightarrow> Some (VTcb t) | TReserved \<Rightarrow> None)"

text \<open>The running task becomes the owner.\<close>

definition mutex_take :: "nat \<Rightarrow> nat \<Rightarrow> os \<Rightarrow> u8 \<times> os" where
  "mutex_take e cur s =
     (let pcp = mutex_pcp (OSEvents s e); pr = OSTCBPrio (OSTCBTbl s cur);
          s1 = upd_evt e (\<lambda>ev. ev\<lparr>OSEventCnt := (OSEventCnt ev AND OS_MUTEX_KEEP_UPPER_8) OR ucast pr,
                 OSEventPtr := VTcb cur\<rparr>) s
      in (if pcp \<noteq> OS_PRIO_MUTEX_CEIL_DIS \<and> pr \<le> pcp then OS_ERR_PCP_LOWER else OS_ERR_NONE, s1))"

definition OSMutexAccept :: "nat \<Rightarrow> os \<Rightarrow> (bool \<times> u8 \<times> os) option" where
  "OSMutexAccept e s = do {
     ev \<leftarrow> evt s e;
     if OSEventType ev \<noteq> OS_EVENT_TYPE_MUTEX then Some (False, OS_ERR_EVENT_TYPE, s)
     else if OSIntNesting s > 0 then Some (False, OS_ERR_PEND_ISR, s)
     else if OSEventCnt ev AND OS_MUTEX_KEEP_LOWER_8 = OS_MUTEX_AVAILABLE
     then do {
       cur \<leftarrow> deref_tcb (OSTCBCur s);
       let r = mutex_take e cur s;
       Some (True, fst r, snd r)
     }
     else Some (False, OS_ERR_NONE, s)
   }"

definition OSMutexCreate :: "u8 \<Rightarrow> os \<Rightarrow> (nat option \<times> u8 \<times> os) option" where
  "OSMutexCreate pr s =
     (if OSIntNesting s > 0 then Some (None, OS_ERR_CREATE_ISR, s)
      else do {
        p \<leftarrow> (if pr \<noteq> OS_PRIO_MUTEX_CEIL_DIS then prio_tbl s pr else Some TNull);
        if p \<noteq> TNull then Some (None, OS_ERR_PRIO_EXIST, s)
        else do {
          let s1 = (if pr \<noteq> OS_PRIO_MUTEX_CEIL_DIS
                    then s\<lparr>OSTCBPrioTbl := (OSTCBPrioTbl s)(pr := TReserved)\<rparr> else s);
          r \<leftarrow> event_alloc s1;
          case fst r of
            None \<Rightarrow> Some (None, OS_ERR_PEVENT_NULL,
              if pr \<noteq> OS_PRIO_MUTEX_CEIL_DIS
              then s1\<lparr>OSTCBPrioTbl := (OSTCBPrioTbl s1)(pr := TNull)\<rparr> else s1)
          | Some e \<Rightarrow> Some (Some e, OS_ERR_NONE, OS_EventWaitListInit e
              (upd_evt e (\<lambda>ev. ev\<lparr>OSEventType := OS_EVENT_TYPE_MUTEX,
                 OSEventCnt := push_bit 8 (ucast pr) OR OS_MUTEX_AVAILABLE,
                 OSEventPtr := VNull, OSEventName := ''?''\<rparr>) (snd r)))
        }
      })"

text \<open>Make \<open>t\<close> ready at priority \<open>pr\<close>; \<open>OSPrioCur\<close> follows.\<close>

definition OSMutex_RdyAtPrio :: "nat \<Rightarrow> u8 \<Rightarrow> os \<Rightarrow> os option" where
  "OSMutex_RdyAtPrio t pr s =
     (let s1 = rdy_del t s;
          s2 = (upd_tcb t (\<lambda>c. c\<lparr>OSTCBPrio := pr, OSTCBY := drop_bit 3 pr AND 7, OSTCBX := pr AND 7,
                  OSTCBBitY := shl1 (drop_bit 3 pr AND 7), OSTCBBitX := shl1 (pr AND 7)\<rparr>) s1)
                \<lparr>OSPrioCur := pr\<rparr>;
          s3 = rdy_ins t s2
      in if pr \<le> OS_LOWEST_PRIO then Some (s3\<lparr>OSTCBPrioTbl := (OSTCBPrioTbl s3)(pr := TPtr t)\<rparr>) else None)"

text \<open>\<open>if (pcp != OS_PRIO_MUTEX_CEIL_DIS) OSTCBPrioTbl[pcp] = p;\<close>\<close>

definition set_pcp_slot :: "u8 \<Rightarrow> tcbptr \<Rightarrow> os \<Rightarrow> os option" where
  "set_pcp_slot pcp p s =
     (if pcp = OS_PRIO_MUTEX_CEIL_DIS then Some s
      else if pcp \<le> OS_LOWEST_PRIO then Some (s\<lparr>OSTCBPrioTbl := (OSTCBPrioTbl s)(pcp := p)\<rparr>) else None)"

definition OSMutexDel :: "nat \<Rightarrow> u8 \<Rightarrow> os \<Rightarrow> (nat option \<times> u8 \<times> os) option" where
  "OSMutexDel e opt s = do {
     ev \<leftarrow> evt s e;
     if OSEventType ev \<noteq> OS_EVENT_TYPE_MUTEX then Some (Some e, OS_ERR_EVENT_TYPE, s)
     else if OSIntNesting s > 0 then Some (Some e, OS_ERR_DEL_ISR, s)
     else do {
       let tasks_waiting = (OSEventGrp ev \<noteq> 0);
       let pcp = mutex_pcp ev;
       if opt = OS_DEL_NO_PEND
       then if \<not> tasks_waiting
            then do {
              s1 \<leftarrow> set_pcp_slot pcp TNull s;
              Some (None, OS_ERR_NONE, event_release e s1)
            }
            else Some (Some e, OS_ERR_TASK_WAITING, s)
       else if opt = OS_DEL_ALWAYS
       then do {
         s1 \<leftarrow> (if pcp \<noteq> OS_PRIO_MUTEX_CEIL_DIS \<and> OSEventPtr ev \<noteq> VNull
                then do {
                  t \<leftarrow> deref_vtcb (OSEventPtr ev);
                  if OSTCBPrio (OSTCBTbl s t) = pcp then OSMutex_RdyAtPrio t (mutex_prio ev) s else Some s
                }
                else Some s);
         r \<leftarrow> event_rdy_all e VNull OS_STAT_MUTEX OS_STAT_PEND_ABORT 0 s1;
         s2 \<leftarrow> set_pcp_slot (mutex_pcp (OSEvents (snd r) e)) TNull (snd r);
         let s3 = event_release e s2;
         s4 \<leftarrow> (if tasks_waiting then OS_Sched s3 else Some s3);
         Some (None, OS_ERR_NONE, s4)
       }
       else Some (Some e, OS_ERR_INVALID_OPT, s)
     }
   }"

text \<open>Raise the owner \<open>t\<close> to the ceiling: move it in the ready list, or in the list of the event it
  waits for.\<close>

definition mutex_raise :: "nat \<Rightarrow> u8 \<Rightarrow> os \<Rightarrow> os option" where
  "mutex_raise t pcp s =
     (let c = OSTCBTbl s t;
          rdy = (OSRdyTbl s (OSTCBY c) AND OSTCBBitX c \<noteq> 0);
          setp = upd_tcb t (\<lambda>c. c\<lparr>OSTCBPrio := pcp, OSTCBY := drop_bit 3 pcp, OSTCBX := pcp AND 7,
                   OSTCBBitY := shl1 (drop_bit 3 pcp), OSTCBBitX := shl1 (pcp AND 7)\<rparr>)
      in do {
        s1 \<leftarrow> (if rdy then Some (rdy_ins t (setp (rdy_del t s)))
               else case OSTCBEventPtr c of
                 None \<Rightarrow> Some (setp s)
               | Some e2 \<Rightarrow> do { _ \<leftarrow> evt s e2; Some (wait_ins t e2 (setp (wait_del t e2 s))) });
        if pcp \<le> OS_LOWEST_PRIO then Some (s1\<lparr>OSTCBPrioTbl := (OSTCBPrioTbl s1)(pcp := TPtr t)\<rparr>) else None
      })"

text \<open>\<open>OSMutexPend\<close> up to the call of the scheduler, and from there on.\<close>

definition OSMutexPend :: "nat \<Rightarrow> u32 \<Rightarrow> os \<Rightarrow> (u8 pended \<times> os) option" where
  "OSMutexPend e timeout s = do {
     ev \<leftarrow> evt s e;
     if OSEventType ev \<noteq> OS_EVENT_TYPE_MUTEX then Some (Returns OS_ERR_EVENT_TYPE, s)
     else if OSIntNesting s > 0 then Some (Returns OS_ERR_PEND_ISR, s)
     else if OSLockNesting s > 0 then Some (Returns OS_ERR_PEND_LOCKED, s)
     else do {
       cur \<leftarrow> deref_tcb (OSTCBCur s);
       let pcp = mutex_pcp ev;
       if mutex_prio ev = ucast OS_MUTEX_AVAILABLE
       then let r = mutex_take e cur s in Some (Returns (fst r), snd r)
       else do {
         s1 \<leftarrow> (if pcp \<noteq> OS_PRIO_MUTEX_CEIL_DIS
                then do {
                  let mprio = mutex_prio ev;
                  t \<leftarrow> deref_vtcb (OSEventPtr ev);
                  if OSTCBPrio (OSTCBTbl s t) > pcp \<and> mprio > OSTCBPrio (OSTCBTbl s cur)
                  then mutex_raise t pcp s else Some s
                }
                else Some s);
         s2 \<leftarrow> pend_block OS_STAT_MUTEX e timeout s1;
         s3 \<leftarrow> OS_Sched s2;
         Some (Blocks, s3)
       }
     }
   }"

definition OSMutexPend_resume :: "nat \<Rightarrow> os \<Rightarrow> (u8 \<times> os) option" where
  "OSMutexPend_resume e s = pend_wake e s"

definition OSMutexPost :: "nat \<Rightarrow> os \<Rightarrow> (u8 \<times> os) option" where
  "OSMutexPost e s =
     (if OSIntNesting s > 0 then Some (OS_ERR_POST_ISR, s)
      else do {
        ev \<leftarrow> evt s e;
        if OSEventType ev \<noteq> OS_EVENT_TYPE_MUTEX then Some (OS_ERR_EVENT_TYPE, s)
        else do {
          let pcp = mutex_pcp ev;
          let pr = mutex_prio ev;
          cur \<leftarrow> deref_tcb (OSTCBCur s);
          if OSEventPtr ev \<noteq> VTcb cur then Some (OS_ERR_NOT_MUTEX_OWNER, s)
          else do {
            s1 \<leftarrow> (if pcp \<noteq> OS_PRIO_MUTEX_CEIL_DIS
                   then do {
                     s0 \<leftarrow> (if OSTCBPrio (OSTCBTbl s cur) = pcp then OSMutex_RdyAtPrio cur pr s else Some s);
                     set_pcp_slot pcp TReserved s0
                   }
                   else Some s);
            if OSEventGrp (OSEvents s1 e) \<noteq> 0
            then do {
              r \<leftarrow> OS_EventTaskRdy e VNull OS_STAT_MUTEX OS_STAT_PEND_OK s1;
              let npr = fst r;
              p \<leftarrow> prio_tbl (snd r) npr;
              own \<leftarrow> vtcb_of p;
              let s2 = upd_evt e (\<lambda>ev. ev\<lparr>OSEventCnt := (OSEventCnt ev AND OS_MUTEX_KEEP_UPPER_8) OR ucast npr,
                         OSEventPtr := own\<rparr>) (snd r);
              s3 \<leftarrow> OS_Sched s2;
              Some (if pcp \<noteq> OS_PRIO_MUTEX_CEIL_DIS \<and> npr \<le> pcp then OS_ERR_PCP_LOWER else OS_ERR_NONE, s3)
            }
            else Some (OS_ERR_NONE, upd_evt e (\<lambda>ev. ev\<lparr>OSEventCnt := OSEventCnt ev OR OS_MUTEX_AVAILABLE,
                   OSEventPtr := VNull\<rparr>) s1)
          }
        }
      })"

record os_mutex_data =
  OSMutexEventTbl :: "u8 list"
  OSMutexEventGrp :: u8
  OSValue :: bool
  OSOwnerPrio :: u8
  OSMutexPCP :: u8

definition OSMutexQuery :: "nat \<Rightarrow> os \<Rightarrow> (u8 \<times> os_mutex_data option) option" where
  "OSMutexQuery e s =
     (if OSIntNesting s > 0 then Some (OS_ERR_QUERY_ISR, None)
      else do {
        ev \<leftarrow> evt s e;
        if OSEventType ev \<noteq> OS_EVENT_TYPE_MUTEX then Some (OS_ERR_EVENT_TYPE, None)
        else Some (OS_ERR_NONE, Some \<lparr>OSMutexEventTbl = map (\<lambda>i. OSEventTbl ev (of_nat i)) [0..<8],
          OSMutexEventGrp = OSEventGrp ev, OSValue = (mutex_prio ev = 0xFF), OSOwnerPrio = mutex_prio ev,
          OSMutexPCP = mutex_pcp ev\<rparr>)
      })"

end
