(* ===== verification/OS_Q.thy ===== *)
theory OS_Q
  imports OS_Core
begin

text \<open>
  \<^verbatim>\<open>src/ucos/CORE/os_q.c\<close>: message queues, a ring of cells that the application provides. The
  pointers into the ring are indices into \<open>OSMsgMem\<close>.
\<close>

subsection \<open>The ring\<close>

text \<open>\<open>*pq->OSQIn++ = pmsg; pq->OSQEntries++; if (pq->OSQIn == pq->OSQEnd) pq->OSQIn = pq->OSQStart;\<close>\<close>

definition q_put :: "nat \<Rightarrow> vptr \<Rightarrow> os \<Rightarrow> os" where
  "q_put q pmsg s =
     (let s1 = s\<lparr>OSMsgMem := (OSMsgMem s)(OSQIn (OSQTbl s q) := pmsg)\<rparr>;
          s2 = upd_q q (\<lambda>p. p\<lparr>OSQIn := OSQIn p + 1, OSQEntries := OSQEntries p + 1\<rparr>) s1
      in if OSQIn (OSQTbl s2 q) = OSQEnd (OSQTbl s2 q)
         then upd_q q (\<lambda>p. p\<lparr>OSQIn := OSQStart p\<rparr>) s2 else s2)"

text \<open>\<open>if (pq->OSQOut == pq->OSQStart) pq->OSQOut = pq->OSQEnd; pq->OSQOut--; *pq->OSQOut = pmsg;
  pq->OSQEntries++;\<close>\<close>

definition q_put_front :: "nat \<Rightarrow> vptr \<Rightarrow> os \<Rightarrow> os" where
  "q_put_front q pmsg s =
     (let s1 = (if OSQOut (OSQTbl s q) = OSQStart (OSQTbl s q)
                then upd_q q (\<lambda>p. p\<lparr>OSQOut := OSQEnd p\<rparr>) s else s);
          s2 = upd_q q (\<lambda>p. p\<lparr>OSQOut := OSQOut p - 1, OSQEntries := OSQEntries p + 1\<rparr>) s1
      in s2\<lparr>OSMsgMem := (OSMsgMem s2)(OSQOut (OSQTbl s2 q) := pmsg)\<rparr>)"

text \<open>\<open>pmsg = *pq->OSQOut++; pq->OSQEntries--; if (pq->OSQOut == pq->OSQEnd) pq->OSQOut = pq->OSQStart;\<close>\<close>

definition q_get :: "nat \<Rightarrow> os \<Rightarrow> vptr \<times> os" where
  "q_get q s =
     (let pmsg = OSMsgMem s (OSQOut (OSQTbl s q));
          s1 = upd_q q (\<lambda>p. p\<lparr>OSQOut := OSQOut p + 1, OSQEntries := OSQEntries p - 1\<rparr>) s
      in (pmsg, if OSQOut (OSQTbl s1 q) = OSQEnd (OSQTbl s1 q)
                then upd_q q (\<lambda>p. p\<lparr>OSQOut := OSQStart p\<rparr>) s1 else s1))"

subsection \<open>The services\<close>

definition OSQAccept :: "nat \<Rightarrow> os \<Rightarrow> (vptr \<times> u8 \<times> os) option" where
  "OSQAccept e s = do {
     ev \<leftarrow> evt s e;
     if OSEventType ev \<noteq> OS_EVENT_TYPE_Q then Some (VNull, OS_ERR_EVENT_TYPE, s)
     else do {
       q \<leftarrow> deref_q (OSEventPtr ev);
       if OSQEntries (OSQTbl s q) > 0
       then let r = q_get q s in Some (fst r, OS_ERR_NONE, snd r)
       else Some (VNull, OS_ERR_Q_EMPTY, s)
     }
   }"

definition OSQCreate :: "nat \<Rightarrow> u16 \<Rightarrow> os \<Rightarrow> (nat option \<times> os) option" where
  "OSQCreate start qsize s =
     (if OSIntNesting s > 0 then Some (None, s)
      else do {
        r \<leftarrow> event_alloc s;
        case fst r of
          None \<Rightarrow> Some (None, snd r)
        | Some e \<Rightarrow> (let s1 = snd r in
            case OSQFreeList s1 of
              Some q \<Rightarrow>
                if q < OS_MAX_QS
                then let s2 = s1\<lparr>OSQFreeList := OSQPtr (OSQTbl s1 q)\<rparr>;
                         s3 = upd_q q (\<lambda>p. p\<lparr>OSQStart := start, OSQEnd := start + unat qsize, OSQIn := start,
                                OSQOut := start, OSQSize := qsize, OSQEntries := 0\<rparr>) s2;
                         s4 = upd_evt e (\<lambda>ev. ev\<lparr>OSEventType := OS_EVENT_TYPE_Q, OSEventCnt := 0,
                                OSEventPtr := VQ q, OSEventName := ''?''\<rparr>) s3
                     in Some (Some e, OS_EventWaitListInit e s4)
                else None
            | None \<Rightarrow> Some (None,
                (upd_evt e (\<lambda>ev. ev\<lparr>OSEventPtr := OSEventFreeList s1\<rparr>) s1)\<lparr>OSEventFreeList := VEvt e\<rparr>))
      })"

text \<open>The queue's control block and the event's go back to their free lists.\<close>

definition q_release :: "nat \<Rightarrow> os \<Rightarrow> os option" where
  "q_release e s = do {
     q \<leftarrow> deref_q (OSEventPtr (OSEvents s e));
     let s1 = (upd_q q (\<lambda>p. p\<lparr>OSQPtr := OSQFreeList s\<rparr>) s)\<lparr>OSQFreeList := Some q\<rparr>;
     Some (event_release e s1)
   }"

definition OSQDel :: "nat \<Rightarrow> u8 \<Rightarrow> os \<Rightarrow> (nat option \<times> u8 \<times> os) option" where
  "OSQDel e opt s = do {
     ev \<leftarrow> evt s e;
     if OSEventType ev \<noteq> OS_EVENT_TYPE_Q then Some (Some e, OS_ERR_EVENT_TYPE, s)
     else if OSIntNesting s > 0 then Some (Some e, OS_ERR_DEL_ISR, s)
     else event_del OS_STAT_Q q_release e opt s
   }"

text \<open>With the argument checks compiled out \<open>OSQFlush\<close> does not look at the event's type.\<close>

definition OSQFlush :: "nat \<Rightarrow> os \<Rightarrow> (u8 \<times> os) option" where
  "OSQFlush e s = do {
     ev \<leftarrow> evt s e;
     q \<leftarrow> deref_q (OSEventPtr ev);
     Some (OS_ERR_NONE, upd_q q (\<lambda>p. p\<lparr>OSQIn := OSQStart p, OSQOut := OSQStart p, OSQEntries := 0\<rparr>) s)
   }"

text \<open>\<open>OSQPend\<close> up to the call of the scheduler, and from there on.\<close>

definition OSQPend :: "nat \<Rightarrow> u32 \<Rightarrow> os \<Rightarrow> ((vptr \<times> u8) pended \<times> os) option" where
  "OSQPend e timeout s = do {
     ev \<leftarrow> evt s e;
     if OSEventType ev \<noteq> OS_EVENT_TYPE_Q then Some (Returns (VNull, OS_ERR_EVENT_TYPE), s)
     else if OSIntNesting s > 0 then Some (Returns (VNull, OS_ERR_PEND_ISR), s)
     else if OSLockNesting s > 0 then Some (Returns (VNull, OS_ERR_PEND_LOCKED), s)
     else do {
       q \<leftarrow> deref_q (OSEventPtr ev);
       if OSQEntries (OSQTbl s q) > 0
       then let r = q_get q s in Some (Returns (fst r, OS_ERR_NONE), snd r)
       else do {
         s1 \<leftarrow> pend_block OS_STAT_Q e timeout s;
         s2 \<leftarrow> OS_Sched s1;
         Some (Blocks, s2)
       }
     }
   }"

definition OSQPend_resume :: "nat \<Rightarrow> os \<Rightarrow> (vptr \<times> u8 \<times> os) option" where
  "OSQPend_resume e s = pend_wake_msg e s"

definition OSQPendAbort :: "nat \<Rightarrow> u8 \<Rightarrow> os \<Rightarrow> (u8 \<times> u8 \<times> os) option" where
  "OSQPendAbort e opt s = do {
     ev \<leftarrow> evt s e;
     if OSEventType ev \<noteq> OS_EVENT_TYPE_Q then Some (0, OS_ERR_EVENT_TYPE, s)
     else pend_abort OS_STAT_Q e opt s
   }"

definition OSQPost :: "nat \<Rightarrow> vptr \<Rightarrow> os \<Rightarrow> (u8 \<times> os) option" where
  "OSQPost e pmsg s = do {
     ev \<leftarrow> evt s e;
     if OSEventType ev \<noteq> OS_EVENT_TYPE_Q then Some (OS_ERR_EVENT_TYPE, s)
     else if OSEventGrp ev \<noteq> 0
     then do {
       r \<leftarrow> OS_EventTaskRdy e pmsg OS_STAT_Q OS_STAT_PEND_OK s;
       s2 \<leftarrow> OS_Sched (snd r);
       Some (OS_ERR_NONE, s2)
     }
     else do {
       q \<leftarrow> deref_q (OSEventPtr ev);
       if OSQEntries (OSQTbl s q) \<ge> OSQSize (OSQTbl s q) then Some (OS_ERR_Q_FULL, s)
       else Some (OS_ERR_NONE, q_put q pmsg s)
     }
   }"

definition OSQPostFront :: "nat \<Rightarrow> vptr \<Rightarrow> os \<Rightarrow> (u8 \<times> os) option" where
  "OSQPostFront e pmsg s = do {
     ev \<leftarrow> evt s e;
     if OSEventType ev \<noteq> OS_EVENT_TYPE_Q then Some (OS_ERR_EVENT_TYPE, s)
     else if OSEventGrp ev \<noteq> 0
     then do {
       r \<leftarrow> OS_EventTaskRdy e pmsg OS_STAT_Q OS_STAT_PEND_OK s;
       s2 \<leftarrow> OS_Sched (snd r);
       Some (OS_ERR_NONE, s2)
     }
     else do {
       q \<leftarrow> deref_q (OSEventPtr ev);
       if OSQEntries (OSQTbl s q) \<ge> OSQSize (OSQTbl s q) then Some (OS_ERR_Q_FULL, s)
       else Some (OS_ERR_NONE, q_put_front q pmsg s)
     }
   }"

definition OSQPostOpt :: "nat \<Rightarrow> vptr \<Rightarrow> u8 \<Rightarrow> os \<Rightarrow> (u8 \<times> os) option" where
  "OSQPostOpt e pmsg opt s = do {
     ev \<leftarrow> evt s e;
     if OSEventType ev \<noteq> OS_EVENT_TYPE_Q then Some (OS_ERR_EVENT_TYPE, s)
     else if OSEventGrp ev \<noteq> 0
     then do {
       r \<leftarrow> (if opt AND OS_POST_OPT_BROADCAST \<noteq> 0 then event_rdy_all e pmsg OS_STAT_Q OS_STAT_PEND_OK 0 s
             else OS_EventTaskRdy e pmsg OS_STAT_Q OS_STAT_PEND_OK s);
       s2 \<leftarrow> (if opt AND OS_POST_OPT_NO_SCHED = 0 then OS_Sched (snd r) else Some (snd r));
       Some (OS_ERR_NONE, s2)
     }
     else do {
       q \<leftarrow> deref_q (OSEventPtr ev);
       if OSQEntries (OSQTbl s q) \<ge> OSQSize (OSQTbl s q) then Some (OS_ERR_Q_FULL, s)
       else if opt AND OS_POST_OPT_FRONT \<noteq> 0 then Some (OS_ERR_NONE, q_put_front q pmsg s)
       else Some (OS_ERR_NONE, q_put q pmsg s)
     }
   }"

record os_q_data =
  OSQMsg :: vptr
  OSNMsgs :: u16
  OSQDataSize :: u16
  OSQEventTbl :: "u8 list"
  OSQEventGrp :: u8

definition OSQQuery :: "nat \<Rightarrow> os \<Rightarrow> (u8 \<times> os_q_data option) option" where
  "OSQQuery e s = do {
     ev \<leftarrow> evt s e;
     if OSEventType ev \<noteq> OS_EVENT_TYPE_Q then Some (OS_ERR_EVENT_TYPE, None)
     else do {
       q \<leftarrow> deref_q (OSEventPtr ev);
       let p = OSQTbl s q;
       Some (OS_ERR_NONE, Some \<lparr>OSQMsg = (if OSQEntries p > 0 then OSMsgMem s (OSQOut p) else VNull),
         OSNMsgs = OSQEntries p, OSQDataSize = OSQSize p,
         OSQEventTbl = map (\<lambda>i. OSEventTbl ev (of_nat i)) [0..<8], OSQEventGrp = OSEventGrp ev\<rparr>)
     }
   }"

text \<open>\<open>OS_QInit\<close>: every control block cleared and linked to the next.\<close>

definition OS_QInit :: "os \<Rightarrow> os" where
  "OS_QInit s = s\<lparr>OSQTbl := (\<lambda>q. if q < OS_MAX_QS
       then \<lparr>OSQPtr = (if q < OS_MAX_QS - 1 then Some (q + 1) else None), OSQStart = 0, OSQEnd = 0, OSQIn = 0,
             OSQOut = 0, OSQSize = 0, OSQEntries = 0\<rparr>
       else OSQTbl s q), OSQFreeList := Some 0\<rparr>"

end
