(* ===== verification/OS_Kernel.thy ===== *)
theory OS_Kernel
  imports OS_Core_Proofs OS_Mutex OS_Q
begin

text \<open>
  The invariant that every service of the kernel keeps, and the steps the services are made of:
  readying the first waiter and scheduling, blocking the running task and scheduling, aborting
  waits. Beside the scheduling data and the list of tasks it says that nobody waits for an event
  that has something to give, and that the unused events, the unused queues and the rings of the
  queues in use are well formed.
\<close>

subsection \<open>The invariant\<close>

text \<open>The event can be had at once: a count, a message, a free mutex. An unused control block counts
  too, so that nobody waits on it.\<close>

definition avail :: "os \<Rightarrow> nat \<Rightarrow> bool" where
  "avail s e \<longleftrightarrow> (let ev = OSEvents s e; ty = OSEventType ev in
     (ty = OS_EVENT_TYPE_SEM \<and> OSEventCnt ev \<noteq> 0) \<or>
     (ty = OS_EVENT_TYPE_MBOX \<and> OSEventPtr ev \<noteq> VNull) \<or>
     (ty = OS_EVENT_TYPE_Q \<and> (\<exists>q. OSEventPtr ev = VQ q \<and> OSQEntries (OSQTbl s q) \<noteq> 0)) \<or>
     (ty = OS_EVENT_TYPE_MUTEX \<and> mutex_prio ev = 0xFF) \<or> ty = OS_EVENT_TYPE_UNUSED)"

definition idle_inv :: "os \<Rightarrow> bool" where
  "idle_inv s \<longleftrightarrow> (\<forall>e. avail s e \<longrightarrow> waiters s e = {})"

text \<open>The free list of events holds exactly the unused ones.\<close>

fun evt_seg :: "(nat \<Rightarrow> os_event) \<Rightarrow> vptr \<Rightarrow> nat list \<Rightarrow> bool" where
  "evt_seg evs p [] \<longleftrightarrow> p = VNull"
| "evt_seg evs p (e # es) \<longleftrightarrow> p = VEvt e \<and> e < OS_MAX_EVENTS \<and> evt_seg evs (OSEventPtr (evs e)) es"

definition unused :: "os \<Rightarrow> nat set" where
  "unused s = {e. e < OS_MAX_EVENTS \<and> OSEventType (OSEvents s e) = OS_EVENT_TYPE_UNUSED}"

definition evt_free_inv :: "os \<Rightarrow> bool" where
  "evt_free_inv s \<longleftrightarrow> (\<exists>es. evt_seg (OSEvents s) (OSEventFreeList s) es \<and> distinct es \<and> set es = unused s)"

text \<open>A queue control block in use: \<open>OSQEntries\<close> messages from \<open>OSQOut\<close> on, cyclically.\<close>

definition q_ok :: "os_q \<Rightarrow> bool" where
  "q_ok p \<longleftrightarrow> OSQEnd p = OSQStart p + unat (OSQSize p) \<and> OSQEntries p \<le> OSQSize p \<and>
     OSQStart p \<le> OSQOut p \<and> OSQStart p \<le> OSQIn p \<and>
     (OSQSize p = 0 \<longrightarrow> OSQOut p = OSQStart p \<and> OSQIn p = OSQStart p) \<and>
     (OSQSize p \<noteq> 0 \<longrightarrow> OSQOut p < OSQEnd p \<and>
        OSQIn p = OSQStart p + (OSQOut p - OSQStart p + unat (OSQEntries p)) mod unat (OSQSize p))"

fun q_seg :: "(nat \<Rightarrow> os_q) \<Rightarrow> nat option \<Rightarrow> nat list \<Rightarrow> bool" where
  "q_seg tbl p [] \<longleftrightarrow> p = None"
| "q_seg tbl p (q # qs) \<longleftrightarrow> p = Some q \<and> q < OS_MAX_QS \<and> q_seg tbl (OSQPtr (tbl q)) qs"

definition q_of :: "os \<Rightarrow> nat \<Rightarrow> nat \<Rightarrow> bool" where
  "q_of s e q \<longleftrightarrow> e < OS_MAX_EVENTS \<and> OSEventType (OSEvents s e) = OS_EVENT_TYPE_Q \<and> OSEventPtr (OSEvents s e) = VQ q"

definition q_inv :: "os \<Rightarrow> bool" where
  "q_inv s \<longleftrightarrow>
     (\<forall>e < OS_MAX_EVENTS. OSEventType (OSEvents s e) = OS_EVENT_TYPE_Q \<longrightarrow> (\<exists>q. q_of s e q)) \<and>
     (\<forall>e q. q_of s e q \<longrightarrow> q < OS_MAX_QS \<and> q_ok (OSQTbl s q)) \<and>
     (\<forall>e e' q. q_of s e q \<longrightarrow> q_of s e' q \<longrightarrow> e = e') \<and>
     (\<exists>qs. q_seg (OSQTbl s) (OSQFreeList s) qs \<and> distinct qs \<and> set qs = {q. q < OS_MAX_QS \<and> (\<nexists>e. q_of s e q)})"

definition obj_inv :: "os \<Rightarrow> bool" where
  "obj_inv s \<longleftrightarrow> evt_free_inv s \<and> q_inv s"

definition cur_at :: "os \<Rightarrow> nat \<Rightarrow> bool" where
  "cur_at s c \<longleftrightarrow> OSTCBCur s = TPtr c \<and> act s c \<and> OSPrioCur s = prio s c"

text \<open>\<open>base_ok\<close> holds also between blocking a task and switching away from it.\<close>

definition base_ok :: "os \<Rightarrow> nat \<Rightarrow> bool" where
  "base_ok s c \<longleftrightarrow> sched_inv s \<and> list_inv s \<and> idle_inv s \<and> obj_inv s \<and> cur_at s c"

definition kernel_ok :: "os \<Rightarrow> nat \<Rightarrow> bool" where
  "kernel_ok s c \<longleftrightarrow> sched_inv s \<and> list_inv s \<and> idle_inv s \<and> obj_inv s \<and> cur_ok s c"

text \<open>Task level, scheduler not locked.\<close>

definition unlocked :: "os \<Rightarrow> bool" where
  "unlocked s \<longleftrightarrow> OSIntNesting s = 0 \<and> OSLockNesting s = 0"

lemma cur_ok_iff: "cur_ok s c \<longleftrightarrow> cur_at s c \<and> (unlocked s \<longrightarrow> prio s c \<in> ready s)"
  by (auto simp: cur_ok_def cur_at_def unlocked_def)

lemma kernel_ok_iff: "kernel_ok s c \<longleftrightarrow> base_ok s c \<and> (unlocked s \<longrightarrow> prio s c \<in> ready s)"
  by (auto simp: kernel_ok_def base_ok_def cur_ok_iff)

lemma kernel_ok_base: "kernel_ok s c \<Longrightarrow> base_ok s c"
  by (simp add: kernel_ok_iff)

lemma base_okD:
  assumes "base_ok s c"
  shows "sched_inv s" "list_inv s" "idle_inv s" "OSTCBCur s = TPtr c" "act s c" "OSPrioCur s = prio s c"
    "deref_tcb (OSTCBCur s) = Some c" "c < OS_MAX_TCBS" "obj_inv s"
  using assms by (auto simp: base_ok_def cur_at_def act_def)

lemma kernel_okD:
  assumes "kernel_ok s c"
  shows "sched_inv s" "list_inv s" "idle_inv s" "OSTCBCur s = TPtr c" "act s c" "OSPrioCur s = prio s c"
    "deref_tcb (OSTCBCur s) = Some c" "c < OS_MAX_TCBS" "obj_inv s" "unlocked s \<Longrightarrow> prio s c \<in> ready s"
  using base_okD [of s c] assms by (auto simp: kernel_ok_iff)

lemma base_ok_task: "base_ok s c \<Longrightarrow> task_ok s c"
  by (meson base_okD(1,5) sched_invD(6))

lemma evt_mask_simps [simp]:
  "evt_mask OS_EVENT_TYPE_SEM = OS_STAT_SEM" "evt_mask OS_EVENT_TYPE_MBOX = OS_STAT_MBOX"
  "evt_mask OS_EVENT_TYPE_Q = OS_STAT_Q" "evt_mask OS_EVENT_TYPE_MUTEX = OS_STAT_MUTEX"
  by (simp_all add: evt_mask_def)

subsection \<open>Frames keep it\<close>

lemma avail_cong:
  assumes "OSEventType (OSEvents s' e) = OSEventType (OSEvents s e)" "OSEventCnt (OSEvents s' e) = OSEventCnt (OSEvents s e)"
    "OSEventPtr (OSEvents s' e) = OSEventPtr (OSEvents s e)" "OSQTbl s' = OSQTbl s"
  shows "avail s' e = avail s e"
  using assms by (simp add: avail_def mutex_prio_def Let_def)

lemma wq_frame_avail: "wq_frame s s' \<Longrightarrow> avail s' e = avail s e"
  by (rule avail_cong) (erule wq_frame_evt, erule wq_frame_evt, erule wq_frame_evt, erule wq_frameD)

lemma sw_frame_avail: "sw_frame s s' \<Longrightarrow> avail s' e = avail s e"
  by (rule avail_cong) (simp_all add: sw_frameD)

lemma evt_seg_cong: "(\<And>e. e \<in> set es \<Longrightarrow> OSEventPtr (evs' e) = OSEventPtr (evs e)) \<Longrightarrow> evt_seg evs' p es = evt_seg evs p es"
  by (induction es arbitrary: p) auto

lemma q_seg_cong: "(\<And>q. q \<in> set qs \<Longrightarrow> OSQPtr (tbl' q) = OSQPtr (tbl q)) \<Longrightarrow> q_seg tbl' p qs = q_seg tbl p qs"
  by (induction qs arbitrary: p) auto

lemma obj_inv_cong:
  assumes ty: "\<And>e. OSEventType (OSEvents s' e) = OSEventType (OSEvents s e)"
    and ptr: "\<And>e. OSEventType (OSEvents s e) \<in> {OS_EVENT_TYPE_UNUSED, OS_EVENT_TYPE_Q} \<Longrightarrow>
       OSEventPtr (OSEvents s' e) = OSEventPtr (OSEvents s e)"
    and rest: "OSEventFreeList s' = OSEventFreeList s" "OSQTbl s' = OSQTbl s" "OSQFreeList s' = OSQFreeList s"
  shows "obj_inv s' = obj_inv s"
proof -
  have u: "unused s' = unused s" by (simp add: unused_def ty)
  have q: "q_of s' = q_of s"
  proof (intro ext)
    show "q_of s' e q = q_of s e q" for e q
      using ptr [of e] by (cases "OSEventType (OSEvents s e) = OS_EVENT_TYPE_Q") (simp_all add: q_of_def ty)
  qed
  have "evt_seg (OSEvents s') p es = evt_seg (OSEvents s) p es" if "set es = unused s" for p es
    by (rule evt_seg_cong) (use that ptr in \<open>auto simp: unused_def\<close>)
  then have "evt_free_inv s' = evt_free_inv s"
    unfolding evt_free_inv_def u rest by metis
  then show ?thesis by (simp add: obj_inv_def q_inv_def q rest ty)
qed

lemma base_ok_wq_frame:
  assumes "base_ok s c" and "sched_inv s1" and fr: "wq_frame s s1"
    and "\<And>e. avail s e \<Longrightarrow> waiters s1 e \<subseteq> waiters s e"
  shows "base_ok s1 c"
proof -
  have "obj_inv s1 = obj_inv s"
    by (rule obj_inv_cong) (simp_all add: wq_frame_evt [OF fr] wq_frameD(9,10,11) [OF fr])
  then show ?thesis
    using assms
    by (auto simp: base_ok_def idle_inv_def cur_at_def wq_frame_list_inv wq_frame_avail [OF fr] wq_frame_act [OF fr]
        wq_frameD(2,3) [OF fr] wq_frame_tcb(4) [OF fr])
qed

lemma OS_Sched_base:
  assumes "base_ok s c"
  shows "\<exists>s' c'. OS_Sched s = Some s' \<and> sw_frame s s' \<and> kernel_ok s' c' \<and>
    (if unlocked s then highest_runs s' else s' = s \<and> c' = c)"
proof -
  note d = base_okD [OF assms]
  obtain s' c' where s': "OS_Sched s = Some s'" "sw_frame s s'" "cur_ok s' c'"
    "if OSIntNesting s = 0 \<and> OSLockNesting s = 0 then highest_runs s' else s' = s \<and> c' = c"
    using OS_Sched_ok [OF d(1,4,5,6)] by blast
  have "obj_inv s' = obj_inv s"
    by (rule obj_inv_cong) (simp_all add: sw_frameD [OF s'(2)])
  then have "sched_inv s'" "list_inv s'" "idle_inv s'" "obj_inv s'"
    using d sw_frame_inv [OF s'(2)] sw_frame_list_inv [OF s'(2)] sw_frame_avail [OF s'(2)] sw_frameD(19) [OF s'(2)]
    by (simp_all add: idle_inv_def)
  then show ?thesis using s' by (auto simp: kernel_ok_def unlocked_def)
qed

text \<open>Changing what an event holds.\<close>

lemma base_ok_upd_evt:
  assumes ok: "base_ok s c" and bm: "\<And>ev. evt_bm (f ev) = evt_bm ev"
    and ty: "OSEventType (f (OSEvents s e)) = OSEventType (OSEvents s e) \<or> waiters s e = {}"
    and av: "avail (upd_evt e f s) e \<Longrightarrow> waiters s e = {}" and obj: "obj_inv (upd_evt e f s)"
  shows "base_ok (upd_evt e f s) c" and "ready (upd_evt e f s) = ready s" and "waiters (upd_evt e f s) = waiters s"
proof -
  let ?s = "upd_evt e f s"
  note d = base_okD [OF ok]
  show w: "waiters ?s = waiters s" by (simp add: waiters_def fun_eq_iff bm)
  show "ready ?s = ready s" by simp
  have "sched_inv ?s" by (rule sched_inv_upd_evt_view [OF d(1) bm]) (use ty in auto)
  moreover have "list_inv ?s" using d(2) by (subst list_inv_cong [of _ s]) simp_all
  moreover have "idle_inv ?s"
    unfolding idle_inv_def w
  proof (intro allI impI)
    fix i assume i: "avail ?s i"
    show "waiters s i = {}"
    proof (cases "i = e")
      case False
      then have "avail ?s i = avail s i" by (intro avail_cong) simp_all
      with i d(3) show ?thesis by (simp add: idle_inv_def)
    qed (use i av in simp)
  qed
  ultimately show "base_ok ?s c" using d obj by (simp add: base_ok_def cur_at_def act_def)
qed

subsection \<open>What the services do to the tasks\<close>

text \<open>The fields of a task that only its own context switches change are left out.\<close>

definition same_task :: "os_tcb \<Rightarrow> os_tcb \<Rightarrow> bool" where
  "same_task c c' \<longleftrightarrow> (\<exists>n. c' = c\<lparr>OSTCBCtxSwCtr := n\<rparr>)"

lemma same_task_refl [simp]: "same_task c c"
proof -
  have "c = c\<lparr>OSTCBCtxSwCtr := OSTCBCtxSwCtr c\<rparr>" by simp
  then show ?thesis unfolding same_task_def by blast
qed

lemma same_taskD:
  assumes "same_task c c'"
  shows "sched_view c' = sched_view c" "OSTCBMsg c' = OSTCBMsg c" "OSTCBStat c' = OSTCBStat c" "OSTCBStatPend c' = OSTCBStatPend c"
    "OSTCBDly c' = OSTCBDly c" "OSTCBEventPtr c' = OSTCBEventPtr c" "OSTCBEventMultiPtr c' = OSTCBEventMultiPtr c"
    "OSTCBEventMultiRdy c' = OSTCBEventMultiRdy c" "OSTCBFlagNode c' = OSTCBFlagNode c" "OSTCBPrio c' = OSTCBPrio c"
    "OSTCBFlagsRdy c' = OSTCBFlagsRdy c"
  using assms by (auto simp: same_task_def sched_view_def prio_view_def)

lemma sw_frame_same: "sw_frame s s' \<Longrightarrow> same_task (OSTCBTbl s t) (OSTCBTbl s' t)"
  by (erule sw_frame_tcb [of _ _ t]) (auto simp: same_task_def)

text \<open>\<open>s'\<close> is \<open>s\<close> with the tasks in \<open>T\<close> taken off every wait list and, unless suspended, made ready,
  with the message and the pend status given; nothing else about tasks and events changes.\<close>

definition readies :: "os \<Rightarrow> nat \<Rightarrow> vptr \<Rightarrow> u8 \<Rightarrow> nat set \<Rightarrow> os \<Rightarrow> bool" where
  "readies s e pmsg ps T s' \<longleftrightarrow>
     (\<forall>t. same_task (if t \<in> T then readied e pmsg (emask s e) ps (OSTCBTbl s t) else OSTCBTbl s t) (OSTCBTbl s' t)) \<and>
     (\<forall>i. waiters s' i = waiters s i - prio s ` T) \<and>
     ready s' = ready s \<union> prio s ` {t \<in> T. \<not> susp (OSTCBTbl s t)} \<and>
     (\<forall>i. evt_rest (OSEvents s' i) = evt_rest (OSEvents s i)) \<and>
     OSQTbl s' = OSQTbl s \<and> OSMsgMem s' = OSMsgMem s \<and> OSTime s' = OSTime s \<and> OSTCBPrioTbl s' = OSTCBPrioTbl s"

text \<open>The task that \<open>OS_EventTaskRdy\<close> picks.\<close>

definition first_waiter :: "os \<Rightarrow> nat \<Rightarrow> nat \<Rightarrow> bool" where
  "first_waiter s e t \<longleftrightarrow> act s t \<and> prio s t \<in> waiters s e \<and> (\<forall>p \<in> waiters s e. prio s t \<le> p)"

definition all_waiters :: "os \<Rightarrow> nat \<Rightarrow> nat set" where
  "all_waiters s e = {t. act s t \<and> prio s t \<in> waiters s e}"

lemma prio_all_waiters: "sched_inv s \<Longrightarrow> prio s ` all_waiters s e = waiters s e"
  by (auto simp: all_waiters_def dest: sched_invD(5))

lemma readies_sw:
  assumes r: "readies s e m ps T s1" and fr: "sw_frame s1 s'"
  shows "readies s e m ps T s'"
proof -
  have "same_task c (OSTCBTbl s' t)" if "same_task c (OSTCBTbl s1 t)" for c t
    using that sw_frame_same [OF fr, of t] by (auto simp: same_task_def)
  then show ?thesis
    using r by (simp add: readies_def sw_frameD [OF fr])
qed

lemma rdy_first:
  assumes ok: "base_ok s c" and ne: "waiters s e \<noteq> {}"
  shows "\<exists>t s1. OS_EventTaskRdy e pmsg (emask s e) ps s = Some (prio s t, s1) \<and> first_waiter s e t \<and>
    readies s e pmsg ps {t} s1 \<and> base_ok s1 c \<and> wq_frame s s1"
proof -
  note d = base_okD [OF ok]
  obtain t s1 where r: "OS_EventTaskRdy e pmsg (emask s e) ps s = Some (prio s t, s1)" "sched_inv s1"
    "act s t" "prio s t \<in> waiters s e" "\<forall>p \<in> waiters s e. prio s t \<le> p"
    and fr: "wq_frame s s1"
    and tb: "OSTCBTbl s1 = (OSTCBTbl s)(t := readied e pmsg (emask s e) ps (OSTCBTbl s t))"
    and rdy: "ready s1 = (if susp (OSTCBTbl s t) then ready s else insert (prio s t) (ready s))"
    and w: "waiters s1 = (\<lambda>i. waiters s i - {prio s t})"
    using OS_EventTaskRdy_ok [OF d(1) ne] by metis
  have "evt_rest (OSEvents s1 i) = evt_rest (OSEvents s i)" for i using fr by (simp add: wq_frame_def)
  then have "readies s e pmsg ps {t} s1"
    by (simp add: readies_def tb rdy w wq_frameD(1,10,12,16) [OF fr]) auto
  moreover have "base_ok s1 c"
    by (rule base_ok_wq_frame [OF ok r(2) fr]) (auto simp: w)
  ultimately show ?thesis
    using r fr unfolding first_waiter_def by blast
qed

lemma rdy_every:
  assumes ok: "base_ok s c" and e: "e < OS_MAX_EVENTS"
  shows "\<exists>s1. event_rdy_all e pmsg (emask s e) ps nbr s = Some (nbr + of_nat (card (waiters s e)), s1) \<and>
    readies s e pmsg ps (all_waiters s e) s1 \<and> base_ok s1 c \<and> wq_frame s s1"
proof -
  note d = base_okD [OF ok]
  obtain s1 where r: "event_rdy_all e pmsg (emask s e) ps nbr s = Some (nbr + of_nat (card (waiters s e)), s1)"
    "sched_inv s1" and fr: "wq_frame s s1" and w: "waiters s1 = (\<lambda>i. waiters s i - waiters s e)"
    and rdy: "ready s1 = ready s \<union> {prio s t | t. act s t \<and> prio s t \<in> waiters s e \<and> \<not> susp (OSTCBTbl s t)}"
    and tb: "OSTCBTbl s1 = (\<lambda>t. if act s t \<and> prio s t \<in> waiters s e
                       then readied e pmsg (emask s e) ps (OSTCBTbl s t) else OSTCBTbl s t)"
    using event_rdy_all_ok [OF d(1) e] by blast
  have aw: "{prio s t | t. act s t \<and> prio s t \<in> waiters s e \<and> \<not> susp (OSTCBTbl s t)} =
      prio s ` {t \<in> all_waiters s e. \<not> susp (OSTCBTbl s t)}"
    by (auto simp: all_waiters_def)
  have "evt_rest (OSEvents s1 i) = evt_rest (OSEvents s i)" for i using fr by (simp add: wq_frame_def)
  then have "readies s e pmsg ps (all_waiters s e) s1"
    by (simp add: readies_def tb rdy w aw prio_all_waiters [OF d(1)] wq_frameD(1,10,12,16) [OF fr])
      (auto simp: all_waiters_def)
  moreover have "base_ok s1 c"
    by (rule base_ok_wq_frame [OF ok r(2) fr]) (auto simp: w)
  ultimately show ?thesis using r fr by blast
qed

subsection \<open>Post: ready the first waiter and schedule\<close>

definition scheduled :: "os \<Rightarrow> os \<Rightarrow> bool" where
  "scheduled s s' \<longleftrightarrow> (unlocked s \<longrightarrow> highest_runs s')"

lemma unlocked_wq: "wq_frame s s1 \<Longrightarrow> unlocked s1 = unlocked s"
  unfolding unlocked_def by (simp add: wq_frameD(4) wq_frameD(5))

lemma post_first:
  assumes ok: "base_ok s c" and ne: "waiters s e \<noteq> {}"
  shows "\<exists>t s1 s' c'. OS_EventTaskRdy e pmsg (emask s e) ps s = Some (prio s t, s1) \<and> OS_Sched s1 = Some s' \<and>
    first_waiter s e t \<and> readies s e pmsg ps {t} s' \<and> kernel_ok s' c' \<and> scheduled s s'"
proof -
  obtain t s1 where r: "OS_EventTaskRdy e pmsg (emask s e) ps s = Some (prio s t, s1)" "first_waiter s e t"
    "readies s e pmsg ps {t} s1" "base_ok s1 c" "wq_frame s s1"
    using rdy_first [OF ok ne] by blast
  obtain s' c' where s': "OS_Sched s1 = Some s'" "sw_frame s1 s'" "kernel_ok s' c'"
    "if unlocked s1 then highest_runs s' else s' = s1 \<and> c' = c"
    using OS_Sched_base [OF r(4)] by blast
  with r readies_sw [OF r(3) s'(2)] show ?thesis
    by (auto simp: scheduled_def unlocked_wq [OF r(5)])
qed

lemma post_all:
  assumes ok: "base_ok s c" and e: "e < OS_MAX_EVENTS"
  shows "\<exists>s1 s' c'. event_rdy_all e pmsg (emask s e) ps nbr s = Some (nbr + of_nat (card (waiters s e)), s1) \<and>
    OS_Sched s1 = Some s' \<and> readies s e pmsg ps (all_waiters s e) s' \<and> kernel_ok s' c' \<and> scheduled s s'"
proof -
  obtain s1 where r: "event_rdy_all e pmsg (emask s e) ps nbr s = Some (nbr + of_nat (card (waiters s e)), s1)"
    "readies s e pmsg ps (all_waiters s e) s1" "base_ok s1 c" "wq_frame s s1"
    using rdy_every [OF ok e] by blast
  obtain s' c' where s': "OS_Sched s1 = Some s'" "sw_frame s1 s'" "kernel_ok s' c'"
    "if unlocked s1 then highest_runs s' else s' = s1 \<and> c' = c"
    using OS_Sched_base [OF r(3)] by blast
  with r readies_sw [OF r(2) s'(2)] show ?thesis
    by (auto simp: scheduled_def unlocked_wq [OF r(4)])
qed

lemma kernel_ok_upd_evt:
  assumes "kernel_ok s c" "\<And>ev. evt_bm (f ev) = evt_bm ev"
    and "OSEventType (f (OSEvents s e)) = OSEventType (OSEvents s e) \<or> waiters s e = {}"
    and "avail (upd_evt e f s) e \<Longrightarrow> waiters s e = {}" and "obj_inv (upd_evt e f s)"
  shows "kernel_ok (upd_evt e f s) c"
  using base_ok_upd_evt [of s c f e] assms by (auto simp: kernel_ok_iff unlocked_def)

text \<open>The value of a semaphore or a mailbox changes.\<close>

lemma obj_inv_upd_value:
  assumes "obj_inv s" and "\<And>ev. OSEventType (f ev) = OSEventType ev"
    and "OSEventType (OSEvents s e) \<in> {OS_EVENT_TYPE_SEM, OS_EVENT_TYPE_MBOX, OS_EVENT_TYPE_MUTEX}"
  shows "obj_inv (upd_evt e f s)"
  using assms by (subst obj_inv_cong [of _ s]) auto

subsection \<open>Abort\<close>

text \<open>Which tasks an abort wakes.\<close>

lemma pend_abort_ok:
  assumes ok: "base_ok s c" and e: "e < OS_MAX_EVENTS"
  shows "waiters s e = {} \<Longrightarrow> pend_abort (emask s e) e opt s = Some (0, OS_ERR_NONE, s)"
    and "waiters s e \<noteq> {} \<Longrightarrow> \<exists>s' c' T. pend_abort (emask s e) e opt s = Some (of_nat (card T), OS_ERR_PEND_ABORT, s') \<and>
      readies s e VNull OS_STAT_PEND_ABORT T s' \<and>
      (if opt = OS_PEND_OPT_BROADCAST then T = all_waiters s e else \<exists>t. T = {t} \<and> first_waiter s e t) \<and>
      kernel_ok s' c' \<and> scheduled s s'"
proof -
  note inv = base_okD(1) [OF ok]
  note grp = evt_bm_nonempty [OF inv, of e]
  show "pend_abort (emask s e) e opt s = Some (0, OS_ERR_NONE, s)" if "waiters s e = {}"
    using that e grp by (simp add: pend_abort_def evt_def)
  assume ne: "waiters s e \<noteq> {}"
  show "\<exists>s' c' T. pend_abort (emask s e) e opt s = Some (of_nat (card T), OS_ERR_PEND_ABORT, s') \<and>
      readies s e VNull OS_STAT_PEND_ABORT T s' \<and>
      (if opt = OS_PEND_OPT_BROADCAST then T = all_waiters s e else \<exists>t. T = {t} \<and> first_waiter s e t) \<and>
      kernel_ok s' c' \<and> scheduled s s'"
  proof (cases "opt = OS_PEND_OPT_BROADCAST")
    case True
    have inj: "inj_on (prio s) (all_waiters s e)"
      by (auto simp: inj_on_def all_waiters_def dest: act_prio_inj)
    have "card (waiters s e) = card (all_waiters s e)"
      using card_image [OF inj] by (simp add: prio_all_waiters [OF inv])
    with True ne e grp post_all [OF ok e, of VNull OS_STAT_PEND_ABORT 0] show ?thesis
      by (auto simp: pend_abort_def evt_def)
  next
    case False
    obtain t s1 s' c' where r: "OS_EventTaskRdy e VNull (emask s e) OS_STAT_PEND_ABORT s = Some (prio s t, s1)"
      "OS_Sched s1 = Some s'" "first_waiter s e t" "readies s e VNull OS_STAT_PEND_ABORT {t} s'"
      "kernel_ok s' c'" "scheduled s s'"
      using post_first [OF ok ne] by blast
    show ?thesis
      by (rule exI [of _ s'], rule exI [of _ c'], rule exI [of _ "{t}"])
        (use False ne e grp r in \<open>simp add: pend_abort_def evt_def\<close>)
  qed
qed

subsection \<open>Pend: block the running task and schedule\<close>

text \<open>In its own code a task points at no event.\<close>

definition no_refs :: "os_tcb \<Rightarrow> bool" where
  "no_refs c \<longleftrightarrow> OSTCBEventPtr c = None \<and> OSTCBEventMultiPtr c = None"

text \<open>\<open>s'\<close> is \<open>s\<close> with task \<open>c\<close> waiting for \<open>e\<close>.\<close>

definition blocks :: "os \<Rightarrow> nat \<Rightarrow> nat \<Rightarrow> u32 \<Rightarrow> os \<Rightarrow> bool" where
  "blocks s c e timeout s' \<longleftrightarrow>
     (\<forall>t. same_task (if t = c then (OSTCBTbl s c)\<lparr>OSTCBStat := OSTCBStat (OSTCBTbl s c) OR emask s e,
              OSTCBStatPend := OS_STAT_PEND_OK, OSTCBDly := timeout, OSTCBEventPtr := Some e\<rparr>
            else OSTCBTbl s t) (OSTCBTbl s' t)) \<and>
     waiters s' = (waiters s)(e := insert (prio s c) (waiters s e)) \<and> ready s' = ready s - {prio s c} \<and>
     (\<forall>i. evt_rest (OSEvents s' i) = evt_rest (OSEvents s i)) \<and>
     OSQTbl s' = OSQTbl s \<and> OSMsgMem s' = OSMsgMem s \<and> OSTime s' = OSTime s \<and> OSTCBPrioTbl s' = OSTCBPrioTbl s"

lemma pend_first:
  assumes ok: "base_ok s c" and rdy: "prio s c \<in> ready s" and ul: "unlocked s" and nidle: "prio s c \<noteq> OS_TASK_IDLE_PRIO"
    and free: "no_refs (OSTCBTbl s c)" and e: "e < OS_MAX_EVENTS" "emask s e \<noteq> 0" and na: "\<not> avail s e"
  shows "\<exists>s1 s' c'. pend_block (emask s e) e timeout s = Some s1 \<and> OS_Sched s1 = Some s' \<and>
    blocks s c e timeout s' \<and> kernel_ok s' c' \<and> highest_runs s' \<and> c' \<noteq> c"
proof -
  note d = base_okD [OF ok]
  obtain s1 where s1: "pend_block (emask s e) e timeout s = Some s1" "sched_inv s1" and fr: "wq_frame s s1"
    and tb: "OSTCBTbl s1 = (OSTCBTbl s)(c := (OSTCBTbl s c)\<lparr>OSTCBStat := OSTCBStat (OSTCBTbl s c) OR emask s e,
       OSTCBStatPend := OS_STAT_PEND_OK, OSTCBDly := timeout, OSTCBEventPtr := Some e\<rparr>)"
    and rdy1: "ready s1 = ready s - {prio s c}" and w: "waiters s1 = (waiters s)(e := insert (prio s c) (waiters s e))"
    using pend_block_ok [OF d(1,4,5) rdy nidle e] free by (auto simp: no_refs_def)
  have "base_ok s1 c"
    by (rule base_ok_wq_frame [OF ok s1(2) fr]) (use na in \<open>auto simp: w\<close>)
  then obtain s' c' where s': "OS_Sched s1 = Some s'" "kernel_ok s' c'" and sw: "sw_frame s1 s'"
    and hr: "if unlocked s1 then highest_runs s' else s' = s1 \<and> c' = c"
    using OS_Sched_base by blast
  have ul1: "unlocked s1" "unlocked s'"
    using ul unlocked_wq [OF fr] sw_frameD(4,5) [OF sw] by (simp_all add: unlocked_def)
  have "evt_rest (OSEvents s1 i) = evt_rest (OSEvents s i)" for i using fr by (simp add: wq_frame_def)
  then have "blocks s c e timeout s'"
    using sw_frame_same [OF sw]
    by (simp add: blocks_def sw_frameD [OF sw] rdy1 w wq_frameD(1,10,12,16) [OF fr] tb)
  moreover have "c' \<noteq> c"
    using kernel_okD(9) [OF s'(2)] kernel_okD(10) [OF s'(2) ul1(2)] sw_frameD(18) [OF sw]
      sw_frame_prio [OF sw] wq_frame_tcb(4) [OF fr] by (auto simp: rdy1)
  ultimately show ?thesis using s1 s' hr ul1 by auto
qed

subsection \<open>Pend: the task runs again\<close>

definition woken_code :: "os_tcb \<Rightarrow> u8" where
  "woken_code c = (if OSTCBStatPend c = OS_STAT_PEND_OK then OS_ERR_NONE
     else if OSTCBStatPend c = OS_STAT_PEND_ABORT then OS_ERR_PEND_ABORT else OS_ERR_TIMEOUT)"

text \<open>\<open>s'\<close> is \<open>s\<close> with the pend fields of task \<open>c\<close> cleared and \<open>c\<close> on no wait list.\<close>

definition wakes :: "os \<Rightarrow> nat \<Rightarrow> os \<Rightarrow> bool" where
  "wakes s c s' \<longleftrightarrow> (\<forall>t. t \<noteq> c \<longrightarrow> OSTCBTbl s' t = OSTCBTbl s t) \<and>
     no_refs (OSTCBTbl s' c) \<and> OSTCBStat (OSTCBTbl s' c) = OS_STAT_RDY \<and>
     waiters s' = (\<lambda>i. waiters s i - {prio s c}) \<and> ready s' = ready s \<and>
     (\<forall>i. evt_rest (OSEvents s' i) = evt_rest (OSEvents s i)) \<and>
     OSQTbl s' = OSQTbl s \<and> OSMsgMem s' = OSMsgMem s \<and> OSTime s' = OSTime s \<and> OSTCBPrioTbl s' = OSTCBPrioTbl s"

lemma kernel_ok_wq_frame:
  assumes "kernel_ok s c" "sched_inv s1" and fr: "wq_frame s s1" and "\<And>e. avail s e \<Longrightarrow> waiters s1 e \<subseteq> waiters s e"
    and "ready s1 = ready s"
  shows "kernel_ok s1 c"
  using base_ok_wq_frame [OF kernel_ok_base [OF assms(1)] assms(2-4)] assms(1,5) wq_frame_tcb(4) [OF fr]
  by (simp add: kernel_ok_iff unlocked_wq [OF fr])

lemma pend_wake_kernel:
  assumes ok: "kernel_ok s c" and rdy: "prio s c \<in> ready s" and refs: "evt_refs (OSTCBTbl s c) \<subseteq> {e}"
    and e: "e < OS_MAX_EVENTS" and nm: "OSTCBEventMultiPtr (OSTCBTbl s c) = None"
  shows "\<exists>s'. pend_wake e s = Some (woken_code (OSTCBTbl s c), s') \<and> wakes s c s' \<and> kernel_ok s' c"
proof -
  note d = kernel_okD [OF ok]
  obtain s' where s': "pend_wake e s = Some (woken_code (OSTCBTbl s c), s')" "sched_inv s'" "ready s' = ready s"
      "waiters s' = (\<lambda>i. waiters s i - {prio s c})"
    and fr: "wq_frame s s'"
    and tb: "OSTCBTbl s' = (OSTCBTbl s)(c := (OSTCBTbl s c)\<lparr>OSTCBStat := OS_STAT_RDY, OSTCBStatPend := OS_STAT_PEND_OK,
       OSTCBEventPtr := None, OSTCBEventMultiPtr := None, OSTCBEventMultiRdy := None\<rparr>)"
    using pend_wake_ok [OF d(1,4,5) rdy refs e nm] unfolding woken_code_def by blast
  have "evt_rest (OSEvents s' i) = evt_rest (OSEvents s i)" for i using fr by (simp add: wq_frame_def)
  then have "wakes s c s'"
    by (simp add: wakes_def s' tb no_refs_def wq_frameD(1,10,12,16) [OF fr])
  moreover have "kernel_ok s' c"
    by (rule kernel_ok_wq_frame [OF ok s'(2) fr]) (auto simp: s')
  ultimately show ?thesis using s'(1) by blast
qed

text \<open>The message is delivered only with the code \<open>OS_ERR_NONE\<close>.\<close>

lemma pend_wake_msg_eq:
  assumes "OSTCBCur s = TPtr c" "c < OS_MAX_TCBS" "pend_wake e s = Some (woken_code (OSTCBTbl s c), s1)"
  shows "pend_wake_msg e s = Some (if woken_code (OSTCBTbl s c) = OS_ERR_NONE then OSTCBMsg (OSTCBTbl s c) else VNull,
    woken_code (OSTCBTbl s c), upd_tcb c (\<lambda>c. c\<lparr>OSTCBMsg := VNull\<rparr>) s1)"
  using assms
  by (auto simp: pend_wake_def pend_wake_msg_def woken_code_def Let_def bind_Some_iff split: if_splits)

lemma pend_wake_msg_kernel:
  assumes ok: "kernel_ok s c" and rdy: "prio s c \<in> ready s" and refs: "evt_refs (OSTCBTbl s c) \<subseteq> {e}"
    and e: "e < OS_MAX_EVENTS" and nm: "OSTCBEventMultiPtr (OSTCBTbl s c) = None"
  shows "\<exists>s'. pend_wake_msg e s = Some (if woken_code (OSTCBTbl s c) = OS_ERR_NONE then OSTCBMsg (OSTCBTbl s c) else VNull,
      woken_code (OSTCBTbl s c), s') \<and> wakes s c s' \<and> kernel_ok s' c"
proof -
  obtain s1 where s1: "pend_wake e s = Some (woken_code (OSTCBTbl s c), s1)" "wakes s c s1" "kernel_ok s1 c"
    using pend_wake_kernel [OF assms] by blast
  let ?s = "upd_tcb c (\<lambda>c. c\<lparr>OSTCBMsg := VNull\<rparr>) s1"
  note d = kernel_okD [OF ok]
  have "wakes s c ?s" using s1(2) by (auto simp: wakes_def no_refs_def)
  moreover have "kernel_ok ?s c"
    by (rule kernel_ok_wq_frame [OF s1(3)])
      (auto intro!: sched_inv_upd_tcb_view simp: sched_view_def kernel_okD(1) [OF s1(3)])
  ultimately show ?thesis
    using pend_wake_msg_eq [OF d(4,8) s1(1)] by blast
qed

subsection \<open>Deleting an event\<close>

text \<open>\<open>s'\<close> is \<open>s\<close> with the control block \<open>e\<close>, on which nobody waits, on the free list.\<close>

definition released :: "os \<Rightarrow> nat \<Rightarrow> os \<Rightarrow> bool" where
  "released s e s' \<longleftrightarrow> OSTCBTbl s' = OSTCBTbl s \<and> waiters s' = waiters s \<and> ready s' = ready s \<and>
     OSEventType (OSEvents s' e) = OS_EVENT_TYPE_UNUSED \<and> OSEventFreeList s' = VEvt e \<and>
     (\<forall>i. i \<noteq> e \<longrightarrow> OSEvents s' i = OSEvents s i) \<and> OSMsgMem s' = OSMsgMem s \<and> OSTime s' = OSTime s \<and> OSTCBPrioTbl s' = OSTCBPrioTbl s \<and>
     unlocked s' = unlocked s"

definition deletes :: "os \<Rightarrow> nat \<Rightarrow> os \<Rightarrow> bool" where
  "deletes s e s' \<longleftrightarrow>
     (\<forall>t. same_task (if t \<in> all_waiters s e then readied e VNull (emask s e) OS_STAT_PEND_ABORT (OSTCBTbl s t)
                    else OSTCBTbl s t) (OSTCBTbl s' t)) \<and>
     waiters s' = (\<lambda>i. waiters s i - waiters s e) \<and>
     ready s' = ready s \<union> prio s ` {t \<in> all_waiters s e. \<not> susp (OSTCBTbl s t)} \<and>
     OSEventType (OSEvents s' e) = OS_EVENT_TYPE_UNUSED \<and> OSEventFreeList s' = VEvt e \<and>
     (\<forall>i. i \<noteq> e \<longrightarrow> evt_rest (OSEvents s' i) = evt_rest (OSEvents s i)) \<and> OSMsgMem s' = OSMsgMem s \<and> OSTime s' = OSTime s \<and> OSTCBPrioTbl s' = OSTCBPrioTbl s"

lemma deletes_sw: "deletes s e s1 \<Longrightarrow> sw_frame s1 s' \<Longrightarrow> deletes s e s'"
proof -
  assume d: "deletes s e s1" and fr: "sw_frame s1 s'"
  have "same_task c (OSTCBTbl s' t)" if "same_task c (OSTCBTbl s1 t)" for c t
    using that sw_frame_same [OF fr, of t] by (auto simp: same_task_def)
  then show ?thesis using d by (simp add: deletes_def sw_frameD [OF fr])
qed

lemma readies_released:
  assumes r: "readies s e VNull OS_STAT_PEND_ABORT (all_waiters s e) s1" and inv: "sched_inv s" and rel: "released s1 e s'"
  shows "deletes s e s'"
  using r rel by (simp add: readies_def released_def deletes_def prio_all_waiters [OF inv] fun_eq_iff)

lemma event_del_ok:
  assumes ok: "kernel_ok s c" and e: "e < OS_MAX_EVENTS"
    and rel: "\<And>s1. base_ok s1 c \<Longrightarrow> waiters s1 e = {} \<Longrightarrow> evt_rest (OSEvents s1 e) = evt_rest (OSEvents s e) \<Longrightarrow>
      \<exists>s2. release e s1 = Some s2 \<and> base_ok s2 c \<and> released s1 e s2"
  shows "opt = OS_DEL_NO_PEND \<Longrightarrow> waiters s e \<noteq> {} \<Longrightarrow>
      event_del (emask s e) release e opt s = Some (Some e, OS_ERR_TASK_WAITING, s)"
    and "opt \<noteq> OS_DEL_NO_PEND \<Longrightarrow> opt \<noteq> OS_DEL_ALWAYS \<Longrightarrow>
      event_del (emask s e) release e opt s = Some (Some e, OS_ERR_INVALID_OPT, s)"
    and "opt = OS_DEL_NO_PEND \<and> waiters s e = {} \<or> opt = OS_DEL_ALWAYS \<Longrightarrow>
      \<exists>s' c'. event_del (emask s e) release e opt s = Some (None, OS_ERR_NONE, s') \<and> deletes s e s' \<and> kernel_ok s' c' \<and>
        (waiters s e \<noteq> {} \<longrightarrow> scheduled s s')"
proof -
  note d = kernel_okD [OF ok]
  note base = kernel_ok_base [OF ok]
  note grp = evt_bm_nonempty [OF d(1), of e]
  show "event_del (emask s e) release e opt s = Some (Some e, OS_ERR_TASK_WAITING, s)"
    if "opt = OS_DEL_NO_PEND" "waiters s e \<noteq> {}"
    using that e grp by (simp add: event_del_def evt_def)
  show "event_del (emask s e) release e opt s = Some (Some e, OS_ERR_INVALID_OPT, s)"
    if "opt \<noteq> OS_DEL_NO_PEND" "opt \<noteq> OS_DEL_ALWAYS"
    using that e by (simp add: event_del_def evt_def)
  assume "opt = OS_DEL_NO_PEND \<and> waiters s e = {} \<or> opt = OS_DEL_ALWAYS"
  then consider (empty) "opt = OS_DEL_NO_PEND" "waiters s e = {}" | (always) "opt = OS_DEL_ALWAYS" by blast
  then show "\<exists>s' c'. event_del (emask s e) release e opt s = Some (None, OS_ERR_NONE, s') \<and> deletes s e s' \<and> kernel_ok s' c' \<and>
        (waiters s e \<noteq> {} \<longrightarrow> scheduled s s')"
  proof cases
    case empty
    obtain s2 where s2: "release e s = Some s2" "base_ok s2 c" "released s e s2"
      using rel [OF base empty(2)] by blast
    have "readies s e VNull OS_STAT_PEND_ABORT (all_waiters s e) s"
      using empty(2) by (simp add: readies_def all_waiters_def)
    then have "deletes s e s2" by (rule readies_released [OF _ d(1) s2(3)])
    moreover have "kernel_ok s2 c"
      using s2 d(10) by (simp add: kernel_ok_iff released_def)
    ultimately show ?thesis
      using s2(1) empty e grp by (auto simp: event_del_def evt_def)
  next
    case always
    obtain s1 where r: "event_rdy_all e VNull (emask s e) OS_STAT_PEND_ABORT 0 s = Some (0 + of_nat (card (waiters s e)), s1)"
      "readies s e VNull OS_STAT_PEND_ABORT (all_waiters s e) s1" "base_ok s1 c" "wq_frame s s1"
      using rdy_every [OF base e] by blast
    have w1: "waiters s1 e = {}" using r(2) by (simp add: readies_def prio_all_waiters [OF d(1)])
    obtain s2 where s2: "release e s1 = Some s2" "base_ok s2 c" "released s1 e s2"
      using rel [OF r(3) w1] r(2) by (auto simp: readies_def)
    have del: "deletes s e s2" by (rule readies_released [OF r(2) d(1) s2(3)])
    have ul: "unlocked s2 = unlocked s" using s2(3) unlocked_wq [OF r(4)] by (simp add: released_def)
    show ?thesis
    proof (cases "waiters s e = {}")
      case True
      then have "ready s2 = ready s" "prio s2 c = prio s c"
        using del r(4) s2(3) by (auto simp: deletes_def all_waiters_def released_def wq_frame_tcb(4))
      then have "kernel_ok s2 c" using s2(2) d(10) ul by (simp add: kernel_ok_iff)
      with True always r(1) s2(1) del e grp show ?thesis by (auto simp: event_del_def evt_def)
    next
      case False
      obtain s' c' where s': "OS_Sched s2 = Some s'" "sw_frame s2 s'" "kernel_ok s' c'"
        "if unlocked s2 then highest_runs s' else s' = s2 \<and> c' = c"
        using OS_Sched_base [OF s2(2)] by blast
      with False always r(1) s2(1) deletes_sw [OF del s'(2)] ul e grp show ?thesis
        by (intro exI [of _ s'] exI [of _ c']) (auto simp: event_del_def evt_def scheduled_def)
    qed
  qed
qed

subsection \<open>The free list of events\<close>

text \<open>The invariant looks only at these fields.\<close>

lemma base_okI:
  assumes ok: "base_ok s c" and tcb: "OSTCBTbl s' = OSTCBTbl s" "OSTCBPrioTbl s' = OSTCBPrioTbl s" "rdy_bm s' = rdy_bm s"
      "OSTCBCur s' = OSTCBCur s" "OSPrioCur s' = OSPrioCur s" "OSTCBList s' = OSTCBList s" "OSTCBFreeList s' = OSTCBFreeList s"
    and oth: "\<And>i. i \<noteq> e \<Longrightarrow> OSEvents s' i = OSEvents s i" and mt: "waiters s e = {}"
    and bm: "bm_ok (evt_bm (OSEvents s' e))" "waiters s' e = {}"
    and q: "\<And>q. OSQEntries (OSQTbl s' q) \<noteq> 0 \<Longrightarrow> OSQEntries (OSQTbl s q) \<noteq> 0" and obj: "obj_inv s'"
  shows "base_ok s' c" and "waiters s' = waiters s" and "ready s' = ready s"
proof -
  note d = base_okD [OF ok]
  show rdy: "ready s' = ready s" by (simp add: ready_def tcb)
  show w: "waiters s' = waiters s"
  proof
    show "waiters s' i = waiters s i" for i
      by (cases "i = e") (simp_all add: mt bm, simp add: waiters_def oth)
  qed
  have act: "act s' = act s" by (simp add: act_def fun_eq_iff tcb)
  have em: "emask s' i = emask s i" if "waiters s i \<noteq> {}" for i using that mt oth by (cases "i = e") auto
  have tok: "task_ok s' t" if "task_ok s t" for t
  proof -
    have "\<And>i. OSTCBPrio (OSTCBTbl s t) \<in> waiters s i \<Longrightarrow> emask s' i = emask s i" using em by auto
    with that show ?thesis unfolding task_ok_def Let_def tcb w rdy by metis
  qed
  have "bm_ok (evt_bm (OSEvents s' i))" for i
    using sched_invD(2) [OF d(1), of i] bm(1) oth by (cases "i = e") auto
  then have "sched_inv s'"
    using d(1) tok by (auto simp: sched_inv_def act tcb w rdy)
  moreover have "list_inv s'" using d(2) by (subst list_inv_cong [of _ s]) (simp_all add: tcb)
  moreover have "idle_inv s'"
    unfolding idle_inv_def w
  proof (intro allI impI)
    fix i assume i: "avail s' i"
    show "waiters s i = {}"
    proof (cases "i = e")
      case False
      then have "avail s i" using i q by (auto simp: avail_def oth Let_def)
      then show ?thesis using d(3) by (simp add: idle_inv_def)
    qed (simp add: mt)
  qed
  ultimately show "base_ok s' c" using d obj by (simp add: base_ok_def cur_at_def tcb act)
qed

lemma event_release_evt: "OSEvents (event_release e s) i =
    (if i = e then (OSEvents s e)\<lparr>OSEventName := ''?'', OSEventType := OS_EVENT_TYPE_UNUSED,
       OSEventPtr := OSEventFreeList s, OSEventCnt := 0\<rparr> else OSEvents s i)"
  by (simp add: event_release_def)

lemma event_release_free:
  assumes free: "evt_free_inv s" and e: "e < OS_MAX_EVENTS" and ty: "OSEventType (OSEvents s e) \<noteq> OS_EVENT_TYPE_UNUSED"
  shows "evt_free_inv (event_release e s)"
proof -
  let ?s = "event_release e s"
  note ev = event_release_evt [of e s]
  have fl: "OSEventFreeList ?s = VEvt e" by (simp add: event_release_def)
  obtain es where es: "evt_seg (OSEvents s) (OSEventFreeList s) es" "distinct es" "set es = unused s"
    using free by (auto simp: evt_free_inv_def)
  have ne: "e \<notin> set es" using es(3) ty by (simp add: unused_def)
  have "evt_seg (OSEvents ?s) (OSEventFreeList s) es"
    using es(1) ne by (subst evt_seg_cong [of _ _ "OSEvents s"]) (auto simp: ev)
  then have "evt_seg (OSEvents ?s) (VEvt e) (e # es)" using e by (simp add: ev)
  moreover have "unused ?s = insert e (unused s)" using e by (auto simp: unused_def ev)
  ultimately show ?thesis
    unfolding evt_free_inv_def fl using es ne by (intro exI [of _ "e # es"]) simp
qed

lemma event_release_obj:
  assumes obj: "obj_inv s" and e: "e < OS_MAX_EVENTS" and ty: "OSEventType (OSEvents s e) \<notin> {OS_EVENT_TYPE_UNUSED, OS_EVENT_TYPE_Q}"
  shows "obj_inv (event_release e s)"
proof -
  have "q_of (event_release e s) = q_of s" using ty by (auto simp: q_of_def event_release_evt fun_eq_iff)
  moreover have "OSQTbl (event_release e s) = OSQTbl s" "OSQFreeList (event_release e s) = OSQFreeList s"
    by (simp_all add: event_release_def)
  ultimately have "q_inv (event_release e s)"
    using obj by (simp add: obj_inv_def q_inv_def event_release_evt)
  then show ?thesis using obj event_release_free [of s e] e ty by (simp add: obj_inv_def)
qed

lemma event_release_ok:
  assumes ok: "base_ok s c" and e: "e < OS_MAX_EVENTS" and ty: "OSEventType (OSEvents s e) \<notin> {OS_EVENT_TYPE_UNUSED, OS_EVENT_TYPE_Q}"
    and mt: "waiters s e = {}"
  shows "base_ok (event_release e s) c" and "released s e (event_release e s)"
proof -
  let ?s = "event_release e s"
  note d = base_okD [OF ok]
  have sel: "OSTCBTbl ?s = OSTCBTbl s" "OSTCBPrioTbl ?s = OSTCBPrioTbl s" "rdy_bm ?s = rdy_bm s"
    "OSTCBCur ?s = OSTCBCur s" "OSPrioCur ?s = OSPrioCur s" "OSTCBList ?s = OSTCBList s" "OSTCBFreeList ?s = OSTCBFreeList s"
    "OSQTbl ?s = OSQTbl s" "evt_bm (OSEvents ?s e) = evt_bm (OSEvents s e)" "\<And>i. i \<noteq> e \<Longrightarrow> OSEvents ?s i = OSEvents s i"
    by (simp_all add: event_release_def rdy_bm_def evt_bm_def upd_evt_def)
  have wt: "waiters ?s e = {}" using mt by (simp add: waiters_def sel)
  have bo: "bm_ok (evt_bm (OSEvents ?s e))" by (simp add: sel sched_invD(2) [OF d(1)])
  have qe: "OSQEntries (OSQTbl ?s q) \<noteq> 0 \<Longrightarrow> OSQEntries (OSQTbl s q) \<noteq> 0" for q by (simp add: sel)
  note b = base_okI [OF ok sel(1-7) sel(10) mt bo wt qe event_release_obj [OF d(9) e ty]]
  show "base_ok ?s c" by (rule b(1))
  show "released s e ?s" using b(2,3) sel by (simp add: released_def) (simp add: event_release_def unlocked_def)
qed

text \<open>\<open>s'\<close> is \<open>s\<close> with the event \<open>e\<close> taken into use.\<close>

definition created :: "os \<Rightarrow> nat \<Rightarrow> u8 \<Rightarrow> u16 \<Rightarrow> vptr \<Rightarrow> os \<Rightarrow> bool" where
  "created s e ty cnt p s' \<longleftrightarrow> e \<in> unused s \<and> OSEventType (OSEvents s' e) = ty \<and> OSEventCnt (OSEvents s' e) = cnt \<and>
     OSEventPtr (OSEvents s' e) = p \<and> unused s' = unused s - {e} \<and>
     (\<forall>i. i \<noteq> e \<longrightarrow> OSEvents s' i = OSEvents s i) \<and> waiters s' = waiters s \<and> waiters s e = {} \<and> ready s' = ready s \<and>
     OSTCBTbl s' = OSTCBTbl s \<and> OSMsgMem s' = OSMsgMem s \<and> OSTime s' = OSTime s \<and> OSTCBPrioTbl s' = OSTCBPrioTbl s \<and> unlocked s' = unlocked s"

lemma event_alloc_cases:
  assumes "obj_inv s"
  obtains "OSEventFreeList s = VNull" "unused s = {}" "event_alloc s = Some (None, s)"
  | e where "OSEventFreeList s = VEvt e" "e \<in> unused s"
    "event_alloc s = Some (Some e, s\<lparr>OSEventFreeList := OSEventPtr (OSEvents s e)\<rparr>)"
proof -
  obtain es where es: "evt_seg (OSEvents s) (OSEventFreeList s) es" "set es = unused s"
    using assms by (auto simp: obj_inv_def evt_free_inv_def)
  show thesis
  proof (cases es)
    case Nil
    then show thesis using es that(1) by (simp add: event_alloc_def)
  next
    case (Cons e es')
    then have "OSEventFreeList s = VEvt e" "e < OS_MAX_EVENTS" "e \<in> unused s" using es by auto
    then show thesis using that(2) by (simp add: event_alloc_def deref_evt_def)
  qed
qed

definition event_init :: "nat \<Rightarrow> u8 \<Rightarrow> u16 \<Rightarrow> vptr \<Rightarrow> os \<Rightarrow> os" where
  "event_init e ty cnt p s = OS_EventWaitListInit e (upd_evt e (\<lambda>ev. ev\<lparr>OSEventType := ty, OSEventCnt := cnt,
     OSEventPtr := p, OSEventName := ''?''\<rparr>) (s\<lparr>OSEventFreeList := OSEventPtr (OSEvents s e)\<rparr>))"

lemma drop3_less_8: "(p::u8) < 64 \<Longrightarrow> drop_bit 3 p < 8"
  using row_less by auto

lemma event_init_sel:
  "OSTCBTbl (event_init e ty cnt p s) = OSTCBTbl s" "OSTCBPrioTbl (event_init e ty cnt p s) = OSTCBPrioTbl s"
  "rdy_bm (event_init e ty cnt p s) = rdy_bm s" "OSTCBCur (event_init e ty cnt p s) = OSTCBCur s"
  "OSPrioCur (event_init e ty cnt p s) = OSPrioCur s" "OSTCBList (event_init e ty cnt p s) = OSTCBList s"
  "OSTCBFreeList (event_init e ty cnt p s) = OSTCBFreeList s" "OSQTbl (event_init e ty cnt p s) = OSQTbl s"
  "OSQFreeList (event_init e ty cnt p s) = OSQFreeList s"
  "OSMsgMem (event_init e ty cnt p s) = OSMsgMem s" "OSTime (event_init e ty cnt p s) = OSTime s"
  "unlocked (event_init e ty cnt p s) = unlocked s"
  "OSEventFreeList (event_init e ty cnt p s) = OSEventPtr (OSEvents s e)"
  "i \<noteq> e \<Longrightarrow> OSEvents (event_init e ty cnt p s) i = OSEvents s i"
  "OSEventType (OSEvents (event_init e ty cnt p s) e) = ty" "OSEventCnt (OSEvents (event_init e ty cnt p s) e) = cnt"
  "OSEventPtr (OSEvents (event_init e ty cnt p s) e) = p"
  "waiters (event_init e ty cnt p s) e = {}" "bm_ok (evt_bm (OSEvents (event_init e ty cnt p s) e))"
  by (auto simp: event_init_def OS_EventWaitListInit_def unlocked_def waiters_def bm_set_def bm_mem_def bm_ok_def
      evt_bm_def rdy_bm_def upd_evt_def drop3_less_8)

lemma event_init_free:
  assumes obj: "evt_free_inv s" and e: "OSEventFreeList s = VEvt e" and ty: "ty \<noteq> OS_EVENT_TYPE_UNUSED"
  shows "evt_free_inv (event_init e ty cnt p s)" and "unused (event_init e ty cnt p s) = unused s - {e}"
proof -
  let ?s = "event_init e ty cnt p s"
  obtain es where es: "evt_seg (OSEvents s) (OSEventFreeList s) es" "distinct es" "set es = unused s"
    using obj by (auto simp: evt_free_inv_def)
  then obtain es' where es': "es = e # es'" "e < OS_MAX_EVENTS" "evt_seg (OSEvents s) (OSEventPtr (OSEvents s e)) es'"
    using e by (cases es) auto
  show u: "unused ?s = unused s - {e}"
  proof -
    have "i \<in> unused ?s \<longleftrightarrow> i \<in> unused s - {e}" for i
      by (cases "i = e") (simp_all add: unused_def event_init_sel ty)
    then show ?thesis by blast
  qed
  have "OSEvents ?s i = OSEvents s i" if "i \<in> set es'" for i
    using that es(2) es'(1) by (intro event_init_sel(14)) auto
  then have "evt_seg (OSEvents ?s) (OSEventFreeList ?s) es'"
    using es'(3) by (subst evt_seg_cong [of _ _ "OSEvents s"]) (simp_all add: event_init_sel)
  then show "evt_free_inv ?s"
    unfolding evt_free_inv_def u using es es'(1) by (intro exI [of _ es']) auto
qed

lemma event_init_ok:
  assumes ok: "base_ok s c" and e: "OSEventFreeList s = VEvt e" "e \<in> unused s"
    and ty: "ty \<noteq> OS_EVENT_TYPE_UNUSED" "ty \<noteq> OS_EVENT_TYPE_Q"
  shows "base_ok (event_init e ty cnt p s) c" and "created s e ty cnt p (event_init e ty cnt p s)"
proof -
  let ?s = "event_init e ty cnt p s"
  note d = base_okD [OF ok]
  have mt: "waiters s e = {}"
    using d(3) e(2) by (auto simp: idle_inv_def avail_def unused_def Let_def)
  have fr: "evt_free_inv s" and q: "q_inv s" using d(9) by (simp_all add: obj_inv_def)
  have qo: "q_of ?s = q_of s"
  proof (intro ext)
    show "q_of ?s i q = q_of s i q" for i q
      using e(2) ty(2) by (cases "i = e") (simp_all add: q_of_def event_init_sel unused_def)
  qed
  have "q_inv ?s"
    using q ty(2) unfolding q_inv_def qo by (simp add: event_init_sel) (metis event_init_sel(14,15))
  then have obj: "obj_inv ?s" using event_init_free [OF fr e(1) ty(1)] by (simp add: obj_inv_def)
  have qe: "OSQEntries (OSQTbl ?s q) \<noteq> 0 \<Longrightarrow> OSQEntries (OSQTbl s q) \<noteq> 0" for q by (simp add: event_init_sel)
  note b = base_okI [OF ok event_init_sel(1-7) event_init_sel(14) mt event_init_sel(19,18) qe obj]
  show "base_ok ?s c" by (rule b(1))
  show "created s e ty cnt p ?s"
    using b(2,3) e(2) mt event_init_free(2) [OF fr e(1) ty(1)] by (simp add: created_def event_init_sel)
qed

lemma no_waiters: "kernel_ok s c \<Longrightarrow> avail s e \<Longrightarrow> waiters s e = {}"
  by (simp add: kernel_ok_def idle_inv_def)

text \<open>The common end of the create calls.\<close>

lemma create_event:
  assumes ok: "kernel_ok s c" and ty: "ty \<noteq> OS_EVENT_TYPE_UNUSED" "ty \<noteq> OS_EVENT_TYPE_Q"
  shows "unused s = {} \<Longrightarrow> event_alloc s = Some (None, s)"
    and "unused s \<noteq> {} \<Longrightarrow> \<exists>e. event_alloc s = Some (Some e, s\<lparr>OSEventFreeList := OSEventPtr (OSEvents s e)\<rparr>) \<and>
      created s e ty cnt p (event_init e ty cnt p s) \<and> kernel_ok (event_init e ty cnt p s) c"
proof -
  have obj: "obj_inv s" using kernel_okD(9) [OF ok] .
  then show "event_alloc s = Some (None, s)" if "unused s = {}"
    using that by (cases rule: event_alloc_cases) auto
  show "\<exists>e. event_alloc s = Some (Some e, s\<lparr>OSEventFreeList := OSEventPtr (OSEvents s e)\<rparr>) \<and>
      created s e ty cnt p (event_init e ty cnt p s) \<and> kernel_ok (event_init e ty cnt p s) c" if ne: "unused s \<noteq> {}"
  proof (rule event_alloc_cases [OF obj])
    fix e
    assume e: "OSEventFreeList s = VEvt e" "e \<in> unused s"
      "event_alloc s = Some (Some e, s\<lparr>OSEventFreeList := OSEventPtr (OSEvents s e)\<rparr>)"
    note i = event_init_ok [OF kernel_ok_base [OF ok] e(1,2) ty, of cnt p]
    have "kernel_ok (event_init e ty cnt p s) c" using i ok by (simp add: kernel_ok_iff created_def)
    then show ?thesis using i(2) e(3) by blast
  qed (use ne in simp)
qed

subsection \<open>The contract of pend and post\<close>

text \<open>A task in its own code, at task level, with the scheduler unlocked; the idle task never waits.\<close>

definition may_block :: "os \<Rightarrow> nat \<Rightarrow> bool" where
  "may_block s c \<longleftrightarrow> unlocked s \<and> no_refs (OSTCBTbl s c) \<and> prio s c \<noteq> OS_TASK_IDLE_PRIO"

lemma readies_first:
  assumes "readies s e m ps {t} s'"
  shows "waiters s' e = waiters s e - {prio s t}" "OSTCBMsg (OSTCBTbl s' t) = m" "OSTCBStatPend (OSTCBTbl s' t) = ps"
    "OSTCBDly (OSTCBTbl s' t) = 0" "\<not> susp (OSTCBTbl s t) \<Longrightarrow> prio s t \<in> ready s'" "prio s' u = prio s u"
    "OSTCBEventPtr (OSTCBTbl s' t) = None" "OSEventType (OSEvents s' i) = OSEventType (OSEvents s i)"
proof -
  have st: "same_task (if u = t then readied e m (emask s e) ps (OSTCBTbl s u) else OSTCBTbl s u) (OSTCBTbl s' u)" for u
    using assms by (simp add: readies_def)
  note t = same_taskD [OF st [of t], simplified]
  show "OSTCBMsg (OSTCBTbl s' t) = m" "OSTCBStatPend (OSTCBTbl s' t) = ps" "OSTCBDly (OSTCBTbl s' t) = 0"
    "OSTCBEventPtr (OSTCBTbl s' t) = None"
    by (simp_all add: t)
  show "prio s' u = prio s u" using same_taskD(10) [OF st [of u]] by (simp split: if_splits)
  show "waiters s' e = waiters s e - {prio s t}" "\<not> susp (OSTCBTbl s t) \<Longrightarrow> prio s t \<in> ready s'"
    using assms by (auto simp: readies_def)
  have "evt_rest (OSEvents s' i) = evt_rest (OSEvents s i)" using assms by (simp add: readies_def)
  from arg_cong [OF this, of OSEventType] show "OSEventType (OSEvents s' i) = OSEventType (OSEvents s i)"
    by (simp add: evt_rest_def)
qed

lemma blocks_cur:
  assumes "blocks s c e timeout s'"
  shows "waiters s' e = insert (prio s c) (waiters s e)" "prio s' u = prio s u" "susp (OSTCBTbl s' c) = susp (OSTCBTbl s c)"
    "OSEventType (OSEvents s' i) = OSEventType (OSEvents s i)"
proof -
  have st: "same_task (if t = c then (OSTCBTbl s c)\<lparr>OSTCBStat := OSTCBStat (OSTCBTbl s c) OR emask s e,
              OSTCBStatPend := OS_STAT_PEND_OK, OSTCBDly := timeout, OSTCBEventPtr := Some e\<rparr>
            else OSTCBTbl s t) (OSTCBTbl s' t)" for t
    using assms by (simp add: blocks_def)
  show "waiters s' e = insert (prio s c) (waiters s e)" using assms by (simp add: blocks_def)
  show "prio s' u = prio s u" using same_taskD(10) [OF st [of u]] by (simp split: if_splits)
  show "susp (OSTCBTbl s' c) = susp (OSTCBTbl s c)"
    using same_taskD(3) [OF st [of c]] by (simp add: susp_def or_mask_suspend)
  have "evt_rest (OSEvents s' i) = evt_rest (OSEvents s i)" using assms by (simp add: blocks_def)
  from arg_cong [OF this, of OSEventType] show "OSEventType (OSEvents s' i) = OSEventType (OSEvents s i)"
    by (simp add: evt_rest_def)
qed

text \<open>What a client may rely on: a pend on an object that has nothing blocks the caller and gives the
  processor away; a post hands the message to the first waiter.\<close>

locale sync_object =
  fixes pend :: "nat \<Rightarrow> u32 \<Rightarrow> os \<Rightarrow> ('r pended \<times> os) option"
    and post :: "nat \<Rightarrow> vptr \<Rightarrow> os \<Rightarrow> (u8 \<times> os) option"
    and handed :: "vptr \<Rightarrow> vptr"
    and ty :: u8
  assumes pend_blocks: "kernel_ok s c \<Longrightarrow> may_block s c \<Longrightarrow> e < OS_MAX_EVENTS \<Longrightarrow>
      OSEventType (OSEvents s e) = ty \<Longrightarrow> \<not> avail s e \<Longrightarrow>
      \<exists>s' c'. pend e timeout s = Some (Blocks, s') \<and> blocks s c e timeout s' \<and> kernel_ok s' c' \<and> highest_runs s' \<and> c' \<noteq> c"
    and post_hands: "kernel_ok s c \<Longrightarrow> e < OS_MAX_EVENTS \<Longrightarrow> OSEventType (OSEvents s e) = ty \<Longrightarrow> waiters s e \<noteq> {} \<Longrightarrow>
      \<exists>t s' c'. post e m s = Some (OS_ERR_NONE, s') \<and> first_waiter s e t \<and>
        readies s e (handed m) OS_STAT_PEND_OK {t} s' \<and> kernel_ok s' c' \<and> scheduled s s'"
begin

lemma pend_then_post:
  assumes ok: "kernel_ok s c" and mb: "may_block s c" and e: "e < OS_MAX_EVENTS" "OSEventType (OSEvents s e) = ty"
    and na: "\<not> avail s e" and mt: "waiters s e = {}"
  shows "\<exists>s1 s2 c2. pend e timeout s = Some (Blocks, s1) \<and> post e m s1 = Some (OS_ERR_NONE, s2) \<and> kernel_ok s2 c2 \<and>
    prio s c \<notin> ready s1 \<and> prio s c \<in> ready s2 \<and> waiters s2 e = {} \<and>
    OSTCBMsg (OSTCBTbl s2 c) = handed m \<and> OSTCBStatPend (OSTCBTbl s2 c) = OS_STAT_PEND_OK"
proof -
  obtain s1 c1 where s1: "pend e timeout s = Some (Blocks, s1)" "blocks s c e timeout s1" "kernel_ok s1 c1"
    using pend_blocks [OF ok mb e na] by blast
  note b = blocks_cur [OF s1(2)]
  have w1: "waiters s1 e = {prio s c}" using b(1) mt by simp
  obtain t s2 c2 where s2: "post e m s1 = Some (OS_ERR_NONE, s2)" "first_waiter s1 e t"
    "readies s1 e (handed m) OS_STAT_PEND_OK {t} s2" "kernel_ok s2 c2"
    using post_hands [OF s1(3) e(1), of m] b(4) e(2) w1 by auto
  have act1: "act s1 c"
    using kernel_okD(5) [OF ok] b(2) s1(2) by (simp add: act_def blocks_def)
  have "t = c" using s2(2) w1 b(2) act1 act_prio_inj by (auto simp: first_waiter_def)
  moreover have "\<not> susp (OSTCBTbl s c)"
    using task_okD(2) [OF base_ok_task [OF kernel_ok_base [OF ok]]] kernel_okD(10) [OF ok] mb
    by (simp add: rdy_cond_def may_block_def)
  ultimately show ?thesis
    using s1 s2 readies_first [OF s2(3)] b w1 by (intro exI [of _ s1] exI [of _ s2] exI [of _ c2])
      (auto simp: blocks_def)
qed

end

end
