(* ===== verification/OS_Sample.thy ===== *)
theory OS_Sample
  imports OS_Kernel
begin

text \<open>
  A concrete state of the running kernel, at which the properties are exercised. Task 1
  (priority 10) runs, task 3 (20) and the idle task 0 (63) are ready, task 2 (5) waits for
  the semaphore 1 for ever, task 4 (30) waits for the mailbox 3 with one tick left. Events: the
  semaphore 0 with count 3, the semaphore 1, the mailbox 2 with a message, the empty mailbox 3, the
  queue 4 of two entries with one message, the empty queue 5, the free mutex 6 with ceiling 4; the
  others are unused.
\<close>

definition sample_tcb :: "u8 \<Rightarrow> tcbptr \<Rightarrow> tcbptr \<Rightarrow> os_tcb" where
  "sample_tcb p pv nx = tcb_zero\<lparr>OSTCBPrio := p, OSTCBY := drop_bit 3 p, OSTCBX := p AND 7,
     OSTCBBitX := shl1 (p AND 7), OSTCBBitY := shl1 (drop_bit 3 p), OSTCBPrev := pv, OSTCBNext := nx\<rparr>"

definition sample_tasks :: "nat \<Rightarrow> os_tcb" where
  "sample_tasks t =
     (if t = 0 then sample_tcb 63 (TPtr 1) TNull
      else if t = 1 then sample_tcb 10 (TPtr 2) (TPtr 0)
      else if t = 2 then (sample_tcb 5 (TPtr 3) (TPtr 1))\<lparr>OSTCBStat := OS_STAT_SEM, OSTCBEventPtr := Some 1\<rparr>
      else if t = 3 then sample_tcb 20 (TPtr 4) (TPtr 2)
      else if t = 4 then (sample_tcb 30 TNull (TPtr 3))\<lparr>OSTCBStat := OS_STAT_MBOX, OSTCBEventPtr := Some 3, OSTCBDly := 1\<rparr>
      else tcb_zero\<lparr>OSTCBNext := (if t < 21 then TPtr (t + 1) else TNull)\<rparr>)"

definition sample_event :: "u8 \<Rightarrow> vptr \<Rightarrow> u16 \<Rightarrow> bitmap \<Rightarrow> os_event" where
  "sample_event ty p cnt m = \<lparr>OSEventType = ty, OSEventPtr = p, OSEventCnt = cnt, OSEventGrp = fst m, OSEventTbl = snd m,
     OSEventName = ''?''\<rparr>"

definition sample_events :: "nat \<Rightarrow> os_event" where
  "sample_events e =
     (if e = 0 then sample_event OS_EVENT_TYPE_SEM VNull 3 bm_clear
      else if e = 1 then sample_event OS_EVENT_TYPE_SEM VNull 0 (bm_add 5 bm_clear)
      else if e = 2 then sample_event OS_EVENT_TYPE_MBOX (VMsg 7) 0 bm_clear
      else if e = 3 then sample_event OS_EVENT_TYPE_MBOX VNull 0 (bm_add 30 bm_clear)
      else if e = 4 then sample_event OS_EVENT_TYPE_Q (VQ 0) 0 bm_clear
      else if e = 5 then sample_event OS_EVENT_TYPE_Q (VQ 1) 0 bm_clear
      else if e = 6 then sample_event OS_EVENT_TYPE_MUTEX VNull 0x04FF bm_clear
      else sample_event OS_EVENT_TYPE_UNUSED (if e < 29 then VEvt (e + 1) else VNull) 0 bm_clear)"

definition sample_queues :: "nat \<Rightarrow> os_q" where
  "sample_queues q =
     (if q = 0 then \<lparr>OSQPtr = None, OSQStart = 100, OSQEnd = 102, OSQIn = 101, OSQOut = 100, OSQSize = 2, OSQEntries = 1\<rparr>
      else if q = 1 then \<lparr>OSQPtr = None, OSQStart = 110, OSQEnd = 112, OSQIn = 110, OSQOut = 110, OSQSize = 2, OSQEntries = 0\<rparr>
      else \<lparr>OSQPtr = (if q < 9 then Some (q + 1) else None), OSQStart = 0, OSQEnd = 0, OSQIn = 0, OSQOut = 0, OSQSize = 0,
            OSQEntries = 0\<rparr>)"

definition sample_prios :: "u8 \<Rightarrow> tcbptr" where
  "sample_prios p = (if p = 63 then TPtr 0 else if p = 10 then TPtr 1 else if p = 5 then TPtr 2 else if p = 20 then TPtr 3
     else if p = 30 then TPtr 4 else if p = 4 then TReserved else TNull)"

definition sample_bm :: bitmap where
  "sample_bm = bm_add 10 (bm_add 20 (bm_add 63 bm_clear))"

definition sample :: os where
  "sample = \<lparr>OSCtxSwCtr = 7, OSEventFreeList = VEvt 7, OSEvents = sample_events,
     OSFlagTbl = (\<lambda>g. \<lparr>OSFlagType = OS_EVENT_TYPE_UNUSED, OSFlagWaitList = (if g < 4 then WGrp (g + 1) else WNull),
       OSFlagFlags = 0, OSFlagName = ''?''\<rparr>),
     OSFlagFreeList = WGrp 0,
     OSFlagNodes = (\<lambda>_. \<lparr>OSFlagNodeNext = None, OSFlagNodePrev = None, OSFlagNodeTCB = 0, OSFlagNodeFlagGrp = 0,
       OSFlagNodeFlags = 0, OSFlagNodeWaitType = 0\<rparr>),
     OSCPUUsage = 0, OSIdleCtrMax = 0, OSIdleCtrRun = 0, OSStatRdy = False, OSIntNesting = 0, OSLockNesting = 0,
     OSPrioCur = 10, OSPrioHighRdy = 10, OSRdyGrp = fst sample_bm, OSRdyTbl = snd sample_bm, OSRunning = True, OSTaskCtr = 5,
     OSIdleCtr = 0, OSTCBCur = TPtr 1, OSTCBFreeList = TPtr 5, OSTCBHighRdy = TPtr 1, OSTCBList = TPtr 4,
     OSTCBPrioTbl = sample_prios, OSTCBTbl = sample_tasks, OSTickStepState = OS_TICK_STEP_DIS, OSQFreeList = Some 2,
     OSQTbl = sample_queues, OSTaskRegNextAvailID = 0, OSTime = 41, OSMsgMem = (\<lambda>_. VMsg 9), OSStkMem = (\<lambda>_. 0)\<rparr>"

subsection \<open>It satisfies the invariant\<close>

lemma sample_sel [simp]:
  "OSEvents sample = sample_events" "OSQTbl sample = sample_queues" "OSTCBTbl sample = sample_tasks"
  "OSTCBPrioTbl sample = sample_prios" "OSIntNesting sample = 0" "OSLockNesting sample = 0" "OSRunning sample" "OSTCBCur sample = TPtr 1"
  "OSPrioCur sample = 10" "OSEventFreeList sample = VEvt 7" "OSQFreeList sample = Some 2" "OSTCBList sample = TPtr 4"
  "OSTCBFreeList sample = TPtr 5" "OSTime sample = 41" "OSMsgMem sample = (\<lambda>_. VMsg 9)" "OSTickStepState sample = OS_TICK_STEP_DIS"
  "rdy_bm sample = sample_bm"
  by (simp_all add: sample_def rdy_bm_def)

lemma sample_ready: "ready sample = {10, 20, 63}"
  by (simp add: ready_def sample_bm_def bm_set_add bm_set_clear)

lemma evt_bm_sample_event [simp]: "evt_bm (sample_event ty p cnt m) = m"
  by (simp add: sample_event_def evt_bm_def)

lemma sample_event_sel [simp]:
  "OSEventType (sample_event ty p cnt m) = ty" "OSEventPtr (sample_event ty p cnt m) = p" "OSEventCnt (sample_event ty p cnt m) = cnt"
  by (simp_all add: sample_event_def)

lemma sample_events_at [simp]:
  "sample_events 0 = sample_event OS_EVENT_TYPE_SEM VNull 3 bm_clear"
  "sample_events (Suc 0) = sample_event OS_EVENT_TYPE_SEM VNull 0 (bm_add 5 bm_clear)"
  "sample_events 2 = sample_event OS_EVENT_TYPE_MBOX (VMsg 7) 0 bm_clear"
  "sample_events 3 = sample_event OS_EVENT_TYPE_MBOX VNull 0 (bm_add 30 bm_clear)"
  "sample_events 4 = sample_event OS_EVENT_TYPE_Q (VQ 0) 0 bm_clear"
  "sample_events 5 = sample_event OS_EVENT_TYPE_Q (VQ 1) 0 bm_clear"
  "sample_events 6 = sample_event OS_EVENT_TYPE_MUTEX VNull 0x04FF bm_clear"
  by (simp_all add: sample_events_def)

lemma sample_waiters: "waiters sample e = (if e = 1 then {5} else if e = 3 then {30} else {})"
  by (simp add: waiters_def sample_events_def bm_set_add bm_set_clear)

lemma sample_act: "act sample t \<longleftrightarrow> t < 5"
proof
  assume "act sample t"
  then show "t < 5"
    by (auto simp: act_def sample_tasks_def sample_prios_def sample_tcb_def tcb_zero_def split: if_splits)
next
  assume "t < 5"
  then have "t = 0 \<or> t = 1 \<or> t = 2 \<or> t = 3 \<or> t = 4" by arith
  then show "act sample t"
    by (elim disjE) (simp_all add: act_def sample_tasks_def sample_prios_def sample_tcb_def tcb_zero_def)
qed

lemma less_5: "(t::nat) < 5 \<longleftrightarrow> t = 0 \<or> t = 1 \<or> t = 2 \<or> t = 3 \<or> t = 4"
  by arith

lemma sample_prio:
  "prio sample 0 = 63" "prio sample 1 = 10" "prio sample 2 = 5" "prio sample 3 = 20" "prio sample 4 = 30"
  by (simp_all add: sample_tasks_def sample_tcb_def)

lemma sample_task_ok: "t < 5 \<Longrightarrow> task_ok sample t"
  unfolding less_5
  by (elim disjE)
    (simp_all add: task_ok_def sample_ready sample_waiters Let_def sample_tasks_def sample_tcb_def tcb_zero_def tcb_prio_ok_def
      rdy_cond_def multi_def susp_def runnable_def pend_def evt_refs_def wait_cond_def sample_events_def)

lemma sample_sched_inv: "sched_inv sample"
proof (rule sched_invI)
  show "bm_ok (rdy_bm sample)" by (simp add: sample_bm_def bm_ok_add bm_ok_clear)
  show "bm_ok (evt_bm (OSEvents sample e))" for e by (simp add: sample_events_def bm_ok_add bm_ok_clear)
  show "act sample t" if "p < 64" "OSTCBPrioTbl sample p = TPtr t" for p t
    using that by (auto simp: sample_prios_def sample_act split: if_splits)
  show "\<exists>t. act sample t \<and> prio sample t = p" if "p \<in> ready sample" for p
  proof -
    from that have "p = prio sample 1 \<or> p = prio sample 3 \<or> p = prio sample 0"
      unfolding sample_ready sample_prio by blast
    then show ?thesis by (metis sample_act less_5)
  qed
  show "\<exists>t. act sample t \<and> prio sample t = p" if "p \<in> waiters sample e" for p e
  proof -
    from that have "p = prio sample 2 \<or> p = prio sample 4"
      unfolding sample_waiters sample_prio by (auto split: if_splits)
    then show ?thesis by (metis sample_act less_5)
  qed
  show "task_ok sample t" if "act sample t" for t using that by (simp add: sample_act sample_task_ok)
  show "OS_TASK_IDLE_PRIO \<in> ready sample" by (simp add: sample_ready)
qed

lemma sample_list_inv: "list_inv sample"
proof -
  have "{t. t < (5::nat)} = {4, 3, 2, 1, 0}" by auto
  then have "task_lists sample [4, 3, 2, 1, 0] [5..<22]"
    by (simp add: task_lists_def sample_act sample_tasks_def sample_tcb_def tcb_zero_def upt_rec)
  then show ?thesis unfolding list_inv_def by blast
qed

lemma sample_idle_inv: "idle_inv sample"
  by (auto simp: idle_inv_def avail_def sample_waiters sample_events_def mutex_prio_def Let_def split: if_splits)

lemma sample_q_of: "q_of sample e q \<longleftrightarrow> (e = 4 \<and> q = 0) \<or> (e = 5 \<and> q = 1)"
  by (auto simp: q_of_def sample_events_def split: if_splits)

lemma sample_unused: "unused sample = {7..<30}"
proof -
  have "OSEventType (sample_events e) = OS_EVENT_TYPE_UNUSED \<longleftrightarrow> 7 \<le> e" for e
  proof -
    have "e < 7 \<longleftrightarrow> e = 0 \<or> e = 1 \<or> e = 2 \<or> e = 3 \<or> e = 4 \<or> e = 5 \<or> e = 6" by arith
    then show ?thesis by (cases "e < 7") (auto simp: sample_events_def)
  qed
  then show ?thesis
    unfolding unused_def sample_sel by (intro set_eqI) (simp only: mem_Collect_eq atLeastLessThan_iff conj_commute)
qed

lemma sample_obj_inv: "obj_inv sample"
proof -
  have "unused sample = set [7..<30]" by (simp only: sample_unused set_upt)
  moreover have "evt_seg (OSEvents sample) (OSEventFreeList sample) [7..<30]"
    by (simp add: sample_events_def upt_rec)
  ultimately have 1: "evt_free_inv sample"
    unfolding evt_free_inv_def using distinct_upt by blast
  have "(\<nexists>e. q_of sample e q) \<longleftrightarrow> 2 \<le> q" for q
    unfolding sample_q_of by (cases "q = 0 \<or> q = 1") auto
  then have "{2..<10} = {q. q < OS_MAX_QS \<and> (\<nexists>e. q_of sample e q)}"
    by (intro set_eqI) (simp only: mem_Collect_eq atLeastLessThan_iff conj_commute)
  then have "set [2..<10] = {q. q < OS_MAX_QS \<and> (\<nexists>e. q_of sample e q)}" by (simp only: set_upt)
  moreover have "q_seg (OSQTbl sample) (OSQFreeList sample) [2..<10]"
    by (simp add: sample_queues_def upt_rec)
  ultimately have 2: "\<exists>qs. q_seg (OSQTbl sample) (OSQFreeList sample) qs \<and> distinct qs \<and>
      set qs = {q. q < OS_MAX_QS \<and> (\<nexists>e. q_of sample e q)}"
    using distinct_upt by blast
  have 3: "\<exists>q. q_of sample e q" if "OSEventType (OSEvents sample e) = OS_EVENT_TYPE_Q" for e
    using that by (auto simp: sample_q_of sample_events_def split: if_splits)
  have 4: "q < OS_MAX_QS \<and> q_ok (OSQTbl sample q)" if "q_of sample e q" for e q
    using that by (auto simp: sample_q_of q_ok_def sample_queues_def)
  have 5: "e = e'" if "q_of sample e q" "q_of sample e' q" for e e' q
    using that by (auto simp: sample_q_of)
  show ?thesis unfolding obj_inv_def q_inv_def using 1 2 3 4 5 by blast
qed

lemma sample_kernel_ok: "kernel_ok sample 1"
  unfolding kernel_ok_def cur_ok_def
  using sample_sched_inv sample_list_inv sample_idle_inv sample_obj_inv sample_act [of 1] sample_prio(2)
  by (simp add: sample_ready)

lemma sample_current: "no_refs (OSTCBTbl sample 1)" "prio sample 1 \<noteq> OS_TASK_IDLE_PRIO"
  by (simp_all add: no_refs_def sample_tasks_def sample_tcb_def tcb_zero_def)

lemma sample_may_block: "may_block sample 1"
  using sample_current by (simp add: may_block_def unlocked_def)

end
