(* ===== verification/OS_Sem.thy ===== *)
theory OS_Sem
  imports OS_Sample
begin

text \<open>
  \<^verbatim>\<open>src/ucos/CORE/os_sem.c\<close>: counting semaphores. First the services, then what each does on every
  branch, with the kernel's invariant kept, and the instance of the contract of pend and post.
\<close>

text \<open>Result: the count before the call, 0 when nothing was taken.\<close>

definition OSSemAccept :: "nat \<Rightarrow> os \<Rightarrow> (u16 \<times> os) option" where
  "OSSemAccept e s = do {
     ev \<leftarrow> evt s e;
     if OSEventType ev \<noteq> OS_EVENT_TYPE_SEM then Some (0, s)
     else do {
       let cnt = OSEventCnt ev;
       Some (cnt, if cnt > 0 then upd_evt e (\<lambda>ev. ev\<lparr>OSEventCnt := OSEventCnt ev - 1\<rparr>) s else s)
     }
   }"

definition OSSemCreate :: "u16 \<Rightarrow> os \<Rightarrow> (nat option \<times> os) option" where
  "OSSemCreate cnt s =
     (if OSIntNesting s > 0 then Some (None, s)
      else do {
        r \<leftarrow> event_alloc s;
        case fst r of
          None \<Rightarrow> Some (None, snd r)
        | Some e \<Rightarrow> Some (Some e, OS_EventWaitListInit e (upd_evt e (\<lambda>ev. ev\<lparr>OSEventType := OS_EVENT_TYPE_SEM,
            OSEventCnt := cnt, OSEventPtr := VNull, OSEventName := ''?''\<rparr>) (snd r)))
      })"

definition OSSemDel :: "nat \<Rightarrow> u8 \<Rightarrow> os \<Rightarrow> (nat option \<times> u8 \<times> os) option" where
  "OSSemDel e opt s = do {
     ev \<leftarrow> evt s e;
     if OSEventType ev \<noteq> OS_EVENT_TYPE_SEM then Some (Some e, OS_ERR_EVENT_TYPE, s)
     else if OSIntNesting s > 0 then Some (Some e, OS_ERR_DEL_ISR, s)
     else event_del OS_STAT_SEM (\<lambda>e s. Some (event_release e s)) e opt s
   }"

text \<open>\<open>OSSemPend\<close> up to the call of the scheduler, and from there on.\<close>

definition OSSemPend :: "nat \<Rightarrow> u32 \<Rightarrow> os \<Rightarrow> (u8 pended \<times> os) option" where
  "OSSemPend e timeout s = do {
     ev \<leftarrow> evt s e;
     if OSEventType ev \<noteq> OS_EVENT_TYPE_SEM then Some (Returns OS_ERR_EVENT_TYPE, s)
     else if OSIntNesting s > 0 then Some (Returns OS_ERR_PEND_ISR, s)
     else if OSLockNesting s > 0 then Some (Returns OS_ERR_PEND_LOCKED, s)
     else if OSEventCnt ev > 0
     then Some (Returns OS_ERR_NONE, upd_evt e (\<lambda>ev. ev\<lparr>OSEventCnt := OSEventCnt ev - 1\<rparr>) s)
     else do {
       s1 \<leftarrow> pend_block OS_STAT_SEM e timeout s;
       s2 \<leftarrow> OS_Sched s1;
       Some (Blocks, s2)
     }
   }"

definition OSSemPend_resume :: "nat \<Rightarrow> os \<Rightarrow> (u8 \<times> os) option" where
  "OSSemPend_resume e s = pend_wake e s"

definition OSSemPendAbort :: "nat \<Rightarrow> u8 \<Rightarrow> os \<Rightarrow> (u8 \<times> u8 \<times> os) option" where
  "OSSemPendAbort e opt s = do {
     ev \<leftarrow> evt s e;
     if OSEventType ev \<noteq> OS_EVENT_TYPE_SEM then Some (0, OS_ERR_EVENT_TYPE, s)
     else pend_abort OS_STAT_SEM e opt s
   }"

definition OSSemPost :: "nat \<Rightarrow> os \<Rightarrow> (u8 \<times> os) option" where
  "OSSemPost e s = do {
     ev \<leftarrow> evt s e;
     if OSEventType ev \<noteq> OS_EVENT_TYPE_SEM then Some (OS_ERR_EVENT_TYPE, s)
     else if OSEventGrp ev \<noteq> 0
     then do {
       r \<leftarrow> OS_EventTaskRdy e VNull OS_STAT_SEM OS_STAT_PEND_OK s;
       s2 \<leftarrow> OS_Sched (snd r);
       Some (OS_ERR_NONE, s2)
     }
     else if OSEventCnt ev < 65535
     then Some (OS_ERR_NONE, upd_evt e (\<lambda>ev. ev\<lparr>OSEventCnt := OSEventCnt ev + 1\<rparr>) s)
     else Some (OS_ERR_SEM_OVF, s)
   }"

text \<open>What the query calls copy: the group byte and the rows of the wait list.\<close>

record os_sem_data =
  OSCnt :: u16
  OSSemEventTbl :: "u8 list"
  OSSemEventGrp :: u8

definition OSSemQuery :: "nat \<Rightarrow> os \<Rightarrow> (u8 \<times> os_sem_data option) option" where
  "OSSemQuery e s = do {
     ev \<leftarrow> evt s e;
     if OSEventType ev \<noteq> OS_EVENT_TYPE_SEM then Some (OS_ERR_EVENT_TYPE, None)
     else Some (OS_ERR_NONE, Some \<lparr>OSCnt = OSEventCnt ev, OSSemEventTbl = map (\<lambda>i. OSEventTbl ev (of_nat i)) [0..<8],
       OSSemEventGrp = OSEventGrp ev\<rparr>)
   }"

definition OSSemSet :: "nat \<Rightarrow> u16 \<Rightarrow> os \<Rightarrow> (u8 \<times> os) option" where
  "OSSemSet e cnt s = do {
     ev \<leftarrow> evt s e;
     if OSEventType ev \<noteq> OS_EVENT_TYPE_SEM then Some (OS_ERR_EVENT_TYPE, s)
     else if OSEventCnt ev > 0 then Some (OS_ERR_NONE, upd_evt e (\<lambda>ev. ev\<lparr>OSEventCnt := cnt\<rparr>) s)
     else if OSEventGrp ev = 0 then Some (OS_ERR_NONE, upd_evt e (\<lambda>ev. ev\<lparr>OSEventCnt := cnt\<rparr>) s)
     else Some (OS_ERR_TASK_WAITING, s)
   }"

subsection \<open>What the services do\<close>

definition is_sem :: "os \<Rightarrow> nat \<Rightarrow> bool" where
  "is_sem s e \<longleftrightarrow> e < OS_MAX_EVENTS \<and> OSEventType (OSEvents s e) = OS_EVENT_TYPE_SEM"

abbreviation sem_count :: "os \<Rightarrow> nat \<Rightarrow> u16" where
  "sem_count s e \<equiv> OSEventCnt (OSEvents s e)"

lemma is_semD:
  assumes "is_sem s e"
  shows "evt s e = Some (OSEvents s e)" "e < OS_MAX_EVENTS" "OSEventType (OSEvents s e) = OS_EVENT_TYPE_SEM"
    "emask s e = OS_STAT_SEM" "avail s e \<longleftrightarrow> sem_count s e \<noteq> 0"
  using assms by (simp_all add: is_sem_def evt_def evt_mask_def avail_def Let_def)

text \<open>Change of the count alone.\<close>

lemma sem_set_count:
  assumes ok: "kernel_ok s c" and sem: "is_sem s e" and w: "f (sem_count s e) \<noteq> 0 \<Longrightarrow> waiters s e = {}"
  shows "kernel_ok (upd_evt e (\<lambda>ev. ev\<lparr>OSEventCnt := f (OSEventCnt ev)\<rparr>) s) c"
proof (rule kernel_ok_upd_evt [OF ok])
  show "obj_inv (upd_evt e (\<lambda>ev. ev\<lparr>OSEventCnt := f (OSEventCnt ev)\<rparr>) s)"
    by (rule obj_inv_upd_value) (use kernel_okD(9) [OF ok] is_semD(3) [OF sem] in auto)
  assume "avail (upd_evt e (\<lambda>ev. ev\<lparr>OSEventCnt := f (OSEventCnt ev)\<rparr>) s) e"
  then show "waiters s e = {}" using w is_semD(3) [OF sem] by (simp add: avail_def Let_def)
qed (simp_all add: evt_bm_def)

lemma OSSemPost_ok:
  assumes ok: "kernel_ok s c" and sem: "is_sem s e"
  shows "waiters s e \<noteq> {} \<Longrightarrow> \<exists>t s' c'. OSSemPost e s = Some (OS_ERR_NONE, s') \<and> first_waiter s e t \<and>
      readies s e VNull OS_STAT_PEND_OK {t} s' \<and> kernel_ok s' c' \<and> scheduled s s'"
    and "waiters s e = {} \<Longrightarrow> sem_count s e < 65535 \<Longrightarrow> \<exists>s'. OSSemPost e s = Some (OS_ERR_NONE, s') \<and>
      s' = upd_evt e (\<lambda>ev. ev\<lparr>OSEventCnt := OSEventCnt ev + 1\<rparr>) s \<and> kernel_ok s' c"
    and "waiters s e = {} \<Longrightarrow> sem_count s e = 65535 \<Longrightarrow> OSSemPost e s = Some (OS_ERR_SEM_OVF, s)"
proof -
  note d = is_semD [OF sem]
  note grp = evt_bm_nonempty [OF kernel_okD(1) [OF ok], of e]
  show "\<exists>t s' c'. OSSemPost e s = Some (OS_ERR_NONE, s') \<and> first_waiter s e t \<and>
      readies s e VNull OS_STAT_PEND_OK {t} s' \<and> kernel_ok s' c' \<and> scheduled s s'" if ne: "waiters s e \<noteq> {}"
    using post_first [OF kernel_ok_base [OF ok] ne, of VNull OS_STAT_PEND_OK] ne grp
    by (auto simp: OSSemPost_def d)
  show "\<exists>s'. OSSemPost e s = Some (OS_ERR_NONE, s') \<and>
      s' = upd_evt e (\<lambda>ev. ev\<lparr>OSEventCnt := OSEventCnt ev + 1\<rparr>) s \<and> kernel_ok s' c"
    if "waiters s e = {}" "sem_count s e < 65535"
    using that grp sem_set_count [OF ok sem, of "\<lambda>n. n + 1"] by (simp add: OSSemPost_def d)
  show "OSSemPost e s = Some (OS_ERR_SEM_OVF, s)" if "waiters s e = {}" "sem_count s e = 65535"
    using that grp by (simp add: OSSemPost_def d)
qed

lemma OSSemPend_ok:
  assumes ok: "kernel_ok s c" and mb: "may_block s c" and sem: "is_sem s e"
  shows "sem_count s e > 0 \<Longrightarrow> \<exists>s'. OSSemPend e timeout s = Some (Returns OS_ERR_NONE, s') \<and>
      s' = upd_evt e (\<lambda>ev. ev\<lparr>OSEventCnt := OSEventCnt ev - 1\<rparr>) s \<and> kernel_ok s' c"
    and "sem_count s e = 0 \<Longrightarrow> \<exists>s' c'. OSSemPend e timeout s = Some (Blocks, s') \<and> blocks s c e timeout s' \<and>
      kernel_ok s' c' \<and> highest_runs s' \<and> c' \<noteq> c"
proof -
  note d = is_semD [OF sem]
  note k = kernel_okD [OF ok]
  have ul: "unlocked s" using mb by (simp add: may_block_def)
  have ctr: "OSIntNesting s = 0" "OSLockNesting s = 0" using ul by (simp_all add: unlocked_def)
  show "\<exists>s'. OSSemPend e timeout s = Some (Returns OS_ERR_NONE, s') \<and>
      s' = upd_evt e (\<lambda>ev. ev\<lparr>OSEventCnt := OSEventCnt ev - 1\<rparr>) s \<and> kernel_ok s' c" if "sem_count s e > 0"
    using that sem_set_count [OF ok sem, of "\<lambda>n. n - 1"] no_waiters [OF ok, of e] ctr
    by (simp add: OSSemPend_def d word_gt_0)
  show "\<exists>s' c'. OSSemPend e timeout s = Some (Blocks, s') \<and> blocks s c e timeout s' \<and>
      kernel_ok s' c' \<and> highest_runs s' \<and> c' \<noteq> c" if "sem_count s e = 0"
    using that pend_first [OF kernel_ok_base [OF ok] k(10) [OF ul] ul, of e timeout] mb ctr
    by (auto simp: OSSemPend_def d may_block_def)
qed

lemma OSSemPend_refused:
  assumes "is_sem s e"
  shows "OSIntNesting s > 0 \<Longrightarrow> OSSemPend e timeout s = Some (Returns OS_ERR_PEND_ISR, s)"
    and "OSIntNesting s = 0 \<Longrightarrow> OSLockNesting s > 0 \<Longrightarrow> OSSemPend e timeout s = Some (Returns OS_ERR_PEND_LOCKED, s)"
  by (simp_all add: OSSemPend_def is_semD [OF assms])

interpretation sem: sync_object OSSemPend "\<lambda>e m s. OSSemPost e s" "\<lambda>m. VNull" OS_EVENT_TYPE_SEM
proof
  fix s c e timeout
  assume "kernel_ok s c" "may_block s c" "e < OS_MAX_EVENTS" "OSEventType (OSEvents s e) = OS_EVENT_TYPE_SEM" "\<not> avail s e"
  then show "\<exists>s' c'. OSSemPend e timeout s = Some (Blocks, s') \<and> blocks s c e timeout s' \<and> kernel_ok s' c' \<and> highest_runs s' \<and> c' \<noteq> c"
    using OSSemPend_ok(2) [of s c e timeout] is_semD(5) [of s e] by (simp add: is_sem_def)
next
  fix s c e
  assume "kernel_ok s c" "e < OS_MAX_EVENTS" "OSEventType (OSEvents s e) = OS_EVENT_TYPE_SEM" "waiters s e \<noteq> {}"
  then show "\<exists>t s' c'. OSSemPost e s = Some (OS_ERR_NONE, s') \<and> first_waiter s e t \<and>
      readies s e VNull OS_STAT_PEND_OK {t} s' \<and> kernel_ok s' c' \<and> scheduled s s'"
    using OSSemPost_ok(1) [of s c e] by (simp add: is_sem_def)
qed

lemma OSSemAccept_ok:
  assumes ok: "kernel_ok s c" and sem: "is_sem s e"
  shows "\<exists>s'. OSSemAccept e s = Some (sem_count s e, s') \<and> kernel_ok s' c \<and>
    s' = (if sem_count s e > 0 then upd_evt e (\<lambda>ev. ev\<lparr>OSEventCnt := OSEventCnt ev - 1\<rparr>) s else s)"
  using sem_set_count [OF ok sem, of "\<lambda>n. n - 1"] no_waiters [OF ok, of e] ok
  by (simp add: OSSemAccept_def is_semD [OF sem] word_gt_0)

lemma OSSemSet_ok:
  assumes ok: "kernel_ok s c" and sem: "is_sem s e"
  shows "waiters s e = {} \<Longrightarrow> \<exists>s'. OSSemSet e cnt s = Some (OS_ERR_NONE, s') \<and>
      s' = upd_evt e (\<lambda>ev. ev\<lparr>OSEventCnt := cnt\<rparr>) s \<and> kernel_ok s' c"
    and "waiters s e \<noteq> {} \<Longrightarrow> OSSemSet e cnt s = Some (OS_ERR_TASK_WAITING, s)"
  using sem_set_count [OF ok sem, of "\<lambda>n. cnt"] no_waiters [OF ok, of e] evt_bm_nonempty [OF kernel_okD(1) [OF ok], of e]
  by (auto simp: OSSemSet_def is_semD [OF sem] word_gt_0)

lemma OSSemCreate_ok:
  assumes ok: "kernel_ok s c" and n: "OSIntNesting s = 0"
  shows "unused s = {} \<Longrightarrow> OSSemCreate cnt s = Some (None, s)"
    and "unused s \<noteq> {} \<Longrightarrow> \<exists>e s'. OSSemCreate cnt s = Some (Some e, s') \<and>
      created s e OS_EVENT_TYPE_SEM cnt VNull s' \<and> kernel_ok s' c"
  using create_event(1) [OF ok, of OS_EVENT_TYPE_SEM] create_event(2) [OF ok, of OS_EVENT_TYPE_SEM cnt VNull] n
  by (auto simp: OSSemCreate_def event_init_def)

lemma OSSemDel_ok:
  assumes ok: "kernel_ok s c" and sem: "is_sem s e" and n: "OSIntNesting s = 0"
  shows "opt = OS_DEL_NO_PEND \<Longrightarrow> waiters s e \<noteq> {} \<Longrightarrow> OSSemDel e opt s = Some (Some e, OS_ERR_TASK_WAITING, s)"
    and "opt = OS_DEL_NO_PEND \<and> waiters s e = {} \<or> opt = OS_DEL_ALWAYS \<Longrightarrow>
      \<exists>s' c'. OSSemDel e opt s = Some (None, OS_ERR_NONE, s') \<and> deletes s e s' \<and> kernel_ok s' c' \<and>
        (waiters s e \<noteq> {} \<longrightarrow> scheduled s s')"
proof -
  note d = is_semD [OF sem]
  have rel: "\<exists>s2. Some (event_release e s1) = Some s2 \<and> base_ok s2 c \<and> released s1 e s2"
    if "base_ok s1 c" "waiters s1 e = {}" "evt_rest (OSEvents s1 e) = evt_rest (OSEvents s e)" for s1
  proof -
    have "OSEventType (OSEvents s1 e) = OS_EVENT_TYPE_SEM"
      using arg_cong [OF that(3), of OSEventType] d(3) by (simp add: evt_rest_def)
    then show ?thesis using event_release_ok [OF that(1) d(2) _ that(2)] by simp
  qed
  note ed = event_del_ok [OF ok d(2), of "\<lambda>e s. Some (event_release e s)", OF rel, unfolded d(4)]
  have eq: "OSSemDel e opt s = event_del OS_STAT_SEM (\<lambda>e s. Some (event_release e s)) e opt s"
    using n by (simp add: OSSemDel_def d)
  show "opt = OS_DEL_NO_PEND \<Longrightarrow> waiters s e \<noteq> {} \<Longrightarrow> OSSemDel e opt s = Some (Some e, OS_ERR_TASK_WAITING, s)"
    unfolding eq by (rule ed(1))
  show "opt = OS_DEL_NO_PEND \<and> waiters s e = {} \<or> opt = OS_DEL_ALWAYS \<Longrightarrow>
      \<exists>s' c'. OSSemDel e opt s = Some (None, OS_ERR_NONE, s') \<and> deletes s e s' \<and> kernel_ok s' c' \<and>
        (waiters s e \<noteq> {} \<longrightarrow> scheduled s s')"
    unfolding eq by (rule ed(3))
qed

lemma OSSemPendAbort_ok:
  assumes ok: "kernel_ok s c" and sem: "is_sem s e"
  shows "waiters s e = {} \<Longrightarrow> OSSemPendAbort e opt s = Some (0, OS_ERR_NONE, s)"
    and "waiters s e \<noteq> {} \<Longrightarrow> \<exists>s' c' T. OSSemPendAbort e opt s = Some (of_nat (card T), OS_ERR_PEND_ABORT, s') \<and>
      readies s e VNull OS_STAT_PEND_ABORT T s' \<and>
      (if opt = OS_PEND_OPT_BROADCAST then T = all_waiters s e else \<exists>t. T = {t} \<and> first_waiter s e t) \<and>
      kernel_ok s' c' \<and> scheduled s s'"
proof -
  note d = is_semD [OF sem]
  have eq: "OSSemPendAbort e opt s = pend_abort (emask s e) e opt s"
    by (simp add: OSSemPendAbort_def d)
  show "waiters s e = {} \<Longrightarrow> OSSemPendAbort e opt s = Some (0, OS_ERR_NONE, s)"
    unfolding eq by (rule pend_abort_ok(1) [OF kernel_ok_base [OF ok] d(2)])
  show "waiters s e \<noteq> {} \<Longrightarrow> \<exists>s' c' T. OSSemPendAbort e opt s = Some (of_nat (card T), OS_ERR_PEND_ABORT, s') \<and>
      readies s e VNull OS_STAT_PEND_ABORT T s' \<and>
      (if opt = OS_PEND_OPT_BROADCAST then T = all_waiters s e else \<exists>t. T = {t} \<and> first_waiter s e t) \<and>
      kernel_ok s' c' \<and> scheduled s s'"
    unfolding eq by (rule pend_abort_ok(2) [OF kernel_ok_base [OF ok] d(2)])
qed

subsection \<open>Properties\<close>

lemma sample_sem: "is_sem sample 0" "is_sem sample 1"
  by (simp_all add: is_sem_def)

lemma sample_first_waiter: "first_waiter sample 1 t \<longleftrightarrow> t = 2"
  using sample_act [of t] sample_prio by (auto simp: first_waiter_def sample_waiters less_5)

lemma u16_less_max: "n < 65535" if "n \<noteq> 65535" for n :: u16
proof -
  have "unat n < 65536" using unsigned_less [of n] by simp
  then show ?thesis using that by (simp add: word_less_nat_alt word_unat_eq_iff)
qed

text \<open>C9: \<open>OSSemPost\<close> on every branch for a semaphore. If tasks wait, the most urgent of them (and no other) is made ready, leaves
  every wait list and the scheduler runs; the count stays zero. If none waits the count goes up by one, and at
  65535 the post is refused and nothing changes. The invariant is kept, so no null pointer is followed.\<close>

theorem OSSemPost_spec:
  assumes "kernel_ok s c" and "is_sem s e"
  shows "if waiters s e \<noteq> {} then \<exists>t s' c'. OSSemPost e s = Some (OS_ERR_NONE, s') \<and> first_waiter s e t \<and>
      readies s e VNull OS_STAT_PEND_OK {t} s' \<and> sem_count s' e = 0 \<and> kernel_ok s' c' \<and> scheduled s s'
    else if sem_count s e = 65535 then OSSemPost e s = Some (OS_ERR_SEM_OVF, s)
    else \<exists>s'. OSSemPost e s = Some (OS_ERR_NONE, s') \<and> s' = upd_evt e (\<lambda>ev. ev\<lparr>OSEventCnt := OSEventCnt ev + 1\<rparr>) s \<and>
      sem_count s' e = sem_count s e + 1 \<and> kernel_ok s' c"
proof (cases "waiters s e = {}")
  case True
  have "sem_count s e < 65535" if "sem_count s e \<noteq> 65535"
    using that by (rule u16_less_max)
  with True show ?thesis using OSSemPost_ok(2,3) [OF assms True] by auto
next
  case False
  obtain t s' c' where s': "OSSemPost e s = Some (OS_ERR_NONE, s')" "first_waiter s e t"
    "readies s e VNull OS_STAT_PEND_OK {t} s'" "kernel_ok s' c'" "scheduled s s'"
    using OSSemPost_ok(1) [OF assms False] by blast
  have "evt_rest (OSEvents s' e) = evt_rest (OSEvents s e)" using s'(3) by (simp add: readies_def)
  from arg_cong [OF this, of OSEventCnt] have "sem_count s' e = sem_count s e" by (simp add: evt_rest_def)
  then show ?thesis using s' False no_waiters [OF assms(1), of e] is_semD(5) [OF assms(2)] by auto
qed

theorem OSSemPost_spec_witness:
  "\<exists>s'. OSSemPost 1 sample = Some (OS_ERR_NONE, s') \<and> 5 \<in> ready s' \<and> waiters s' 1 = {} \<and> sem_count s' 1 = 0 \<and> OSPrioCur s' = 5"
proof -
  obtain t s' c' where s': "OSSemPost 1 sample = Some (OS_ERR_NONE, s')" "first_waiter sample 1 t"
    "readies sample 1 VNull OS_STAT_PEND_OK {t} s'" "sem_count s' 1 = 0" "kernel_ok s' c'" "scheduled sample s'"
    using OSSemPost_spec [OF sample_kernel_ok sample_sem(2)] by (auto simp: sample_waiters)
  have "t = 2" using s'(2) sample_first_waiter by simp
  then have "ready s' = insert 5 {10, 20, 63}" "waiters s' 1 = {}"
    using s'(3) sample_prio(3) by (auto simp: readies_def sample_ready sample_waiters susp_def sample_tasks_def sample_tcb_def)
  moreover have "highest_runs s'" using s'(6) by (simp add: scheduled_def unlocked_def)
  then obtain c2 where c2: "cur_ok s' c2" "\<forall>p \<in> ready s'. prio s' c2 \<le> p" "prio s' c2 \<in> ready s'" by (auto simp: highest_runs_def)
  ultimately have "OSPrioCur s' = 5" by (auto simp: cur_ok_def)
  then show ?thesis using s' \<open>ready s' = insert 5 {10, 20, 63}\<close> \<open>waiters s' 1 = {}\<close> by auto
qed

text \<open>C10: \<open>OSSemPend\<close> on every branch, called by the running task: refused in an interrupt and under a scheduler
  lock; a positive count goes down by one and the call returns at once; otherwise the caller, and only
  the caller, leaves the ready list and joins the semaphore's wait list with its timeout, and the most
  urgent ready task, another one, runs.\<close>

theorem OSSemPend_spec:
  assumes "kernel_ok s c" and "is_sem s e" and "no_refs (OSTCBTbl s c)" and "prio s c \<noteq> OS_TASK_IDLE_PRIO"
  shows "if OSIntNesting s > 0 then OSSemPend e timeout s = Some (Returns OS_ERR_PEND_ISR, s)
    else if OSLockNesting s > 0 then OSSemPend e timeout s = Some (Returns OS_ERR_PEND_LOCKED, s)
    else if sem_count s e > 0 then \<exists>s'. OSSemPend e timeout s = Some (Returns OS_ERR_NONE, s') \<and>
      s' = upd_evt e (\<lambda>ev. ev\<lparr>OSEventCnt := OSEventCnt ev - 1\<rparr>) s \<and> kernel_ok s' c
    else \<exists>s' c'. OSSemPend e timeout s = Some (Blocks, s') \<and> blocks s c e timeout s' \<and> kernel_ok s' c' \<and>
      highest_runs s' \<and> c' \<noteq> c"
proof -
  have mb: "may_block s c" if "\<not> OSIntNesting s > 0" "\<not> OSLockNesting s > 0"
    using that assms(3,4) by (simp add: may_block_def unlocked_def word_gt_0)
  show ?thesis
    using OSSemPend_refused [OF assms(2), of timeout] OSSemPend_ok [OF assms(1) mb assms(2), of timeout]
    by (simp add: word_gt_0)
qed

theorem OSSemPend_spec_witness:
  "(\<exists>s'. OSSemPend 0 100 sample = Some (Returns OS_ERR_NONE, s') \<and> sem_count s' 0 = 2) \<and>
   (\<exists>s'. OSSemPend 1 100 sample = Some (Blocks, s') \<and> ready s' = {20, 63} \<and> waiters s' 1 = {5, 10})"
proof -
  have "\<exists>s'. OSSemPend 0 100 sample = Some (Returns OS_ERR_NONE, s') \<and> sem_count s' 0 = 2"
    using OSSemPend_spec [OF sample_kernel_ok sample_sem(1) sample_current, of 100] by auto
  moreover have "{10, 20, 63} - {10::u8} = {20, 63}" by auto
  then have "\<exists>s'. OSSemPend 1 100 sample = Some (Blocks, s') \<and> ready s' = {20, 63} \<and> waiters s' 1 = {5, 10}"
    using OSSemPend_spec [OF sample_kernel_ok sample_sem(2) sample_current, of 100] sample_prio(2)
    by (auto simp: blocks_def sample_ready sample_waiters)
  ultimately show ?thesis ..
qed

text \<open>Deleting a semaphore at task level. Without \<open>OS_DEL_ALWAYS\<close> a semaphore that tasks wait for is kept; otherwise
  every waiter is made ready with the abort status, the control block becomes unused and heads the
  free list, and with waiters the scheduler runs.\<close>

theorem OSSemDel_spec:
  assumes "kernel_ok s c" and "is_sem s e" and "OSIntNesting s = 0" and "opt = OS_DEL_NO_PEND \<or> opt = OS_DEL_ALWAYS"
  shows "if opt = OS_DEL_NO_PEND \<and> waiters s e \<noteq> {} then OSSemDel e opt s = Some (Some e, OS_ERR_TASK_WAITING, s)
    else \<exists>s' c'. OSSemDel e opt s = Some (None, OS_ERR_NONE, s') \<and> deletes s e s' \<and> kernel_ok s' c' \<and>
      (waiters s e \<noteq> {} \<longrightarrow> scheduled s s')"
  using OSSemDel_ok [OF assms(1-3), of opt] assms(4) by (cases "opt = OS_DEL_NO_PEND \<and> waiters s e \<noteq> {}") auto

theorem OSSemDel_spec_witness:
  "OSSemDel 1 OS_DEL_NO_PEND sample = Some (Some 1, OS_ERR_TASK_WAITING, sample) \<and>
   (\<exists>s'. OSSemDel 1 OS_DEL_ALWAYS sample = Some (None, OS_ERR_NONE, s') \<and> waiters s' 1 = {} \<and> OSEventFreeList s' = VEvt 1)"
  using OSSemDel_spec [OF sample_kernel_ok sample_sem(2), of OS_DEL_NO_PEND]
    OSSemDel_spec [OF sample_kernel_ok sample_sem(2), of OS_DEL_ALWAYS]
  by (auto simp: sample_waiters deletes_def)

text \<open>C15: a task that blocks on a semaphore nobody else waits for, followed by a post, is ready again with the result
  \<open>OS_STAT_PEND_OK\<close> and no message, and nobody waits any more.\<close>

theorem sem_pend_then_post:
  assumes "kernel_ok s c" and "may_block s c" and "is_sem s e" and "sem_count s e = 0" and "waiters s e = {}"
  shows "\<exists>s1 s2 c2. OSSemPend e timeout s = Some (Blocks, s1) \<and> OSSemPost e s1 = Some (OS_ERR_NONE, s2) \<and> kernel_ok s2 c2 \<and>
    prio s c \<notin> ready s1 \<and> prio s c \<in> ready s2 \<and> waiters s2 e = {} \<and>
    OSTCBMsg (OSTCBTbl s2 c) = VNull \<and> OSTCBStatPend (OSTCBTbl s2 c) = OS_STAT_PEND_OK"
  by (rule sem.pend_then_post [OF assms(1,2)]) (use assms(3-5) is_semD(5) [OF assms(3)] in \<open>simp_all add: is_sem_def\<close>)

text \<open>The sample with the semaphore 0 used up.\<close>

theorem sem_pend_then_post_witness:
  "\<exists>s0 s1 s2. OSSemSet 0 0 sample = Some (OS_ERR_NONE, s0) \<and> OSSemPend 0 5 s0 = Some (Blocks, s1) \<and>
     OSSemPost 0 s1 = Some (OS_ERR_NONE, s2) \<and> waiters s2 0 = {}"
proof -
  obtain s0 where s0: "OSSemSet 0 0 sample = Some (OS_ERR_NONE, s0)" "s0 = upd_evt 0 (\<lambda>ev. ev\<lparr>OSEventCnt := 0\<rparr>) sample" "kernel_ok s0 1"
    using OSSemSet_ok(1) [OF sample_kernel_ok sample_sem(1)] by (auto simp: sample_waiters)
  have "may_block s0 1" using sample_may_block by (simp add: s0(2) may_block_def unlocked_def)
  moreover have "is_sem s0 0" "sem_count s0 0 = 0" by (simp_all add: s0(2) is_sem_def)
  moreover have "waiters s0 0 = {}" using sample_waiters [of 0] by (simp add: s0(2) waiters_def evt_bm_def)
  ultimately show ?thesis using sem_pend_then_post [OF s0(3), of 0 5] s0(1) by auto
qed

end
