(* ===== verification/OS_Mbox.thy ===== *)
theory OS_Mbox
  imports OS_Sample
begin

text \<open>
  \<^verbatim>\<open>src/ucos/CORE/os_mbox.c\<close>: mailboxes, events that hold at most one message. First the services,
  then what each does on every branch, with the kernel's invariant kept, and the instance of the
  contract of pend and post.
\<close>

definition OSMboxAccept :: "nat \<Rightarrow> os \<Rightarrow> (vptr \<times> os) option" where
  "OSMboxAccept e s = do {
     ev \<leftarrow> evt s e;
     if OSEventType ev \<noteq> OS_EVENT_TYPE_MBOX then Some (VNull, s)
     else Some (OSEventPtr ev, upd_evt e (\<lambda>ev. ev\<lparr>OSEventPtr := VNull\<rparr>) s)
   }"

definition OSMboxCreate :: "vptr \<Rightarrow> os \<Rightarrow> (nat option \<times> os) option" where
  "OSMboxCreate pmsg s =
     (if OSIntNesting s > 0 then Some (None, s)
      else do {
        r \<leftarrow> event_alloc s;
        case fst r of
          None \<Rightarrow> Some (None, snd r)
        | Some e \<Rightarrow> Some (Some e, OS_EventWaitListInit e (upd_evt e (\<lambda>ev. ev\<lparr>OSEventType := OS_EVENT_TYPE_MBOX,
            OSEventCnt := 0, OSEventPtr := pmsg, OSEventName := ''?''\<rparr>) (snd r)))
      })"

definition OSMboxDel :: "nat \<Rightarrow> u8 \<Rightarrow> os \<Rightarrow> (nat option \<times> u8 \<times> os) option" where
  "OSMboxDel e opt s = do {
     ev \<leftarrow> evt s e;
     if OSEventType ev \<noteq> OS_EVENT_TYPE_MBOX then Some (Some e, OS_ERR_EVENT_TYPE, s)
     else if OSIntNesting s > 0 then Some (Some e, OS_ERR_DEL_ISR, s)
     else event_del OS_STAT_MBOX (\<lambda>e s. Some (event_release e s)) e opt s
   }"

text \<open>\<open>OSMboxPend\<close> up to the call of the scheduler, and from there on.\<close>

definition OSMboxPend :: "nat \<Rightarrow> u32 \<Rightarrow> os \<Rightarrow> ((vptr \<times> u8) pended \<times> os) option" where
  "OSMboxPend e timeout s = do {
     ev \<leftarrow> evt s e;
     if OSEventType ev \<noteq> OS_EVENT_TYPE_MBOX then Some (Returns (VNull, OS_ERR_EVENT_TYPE), s)
     else if OSIntNesting s > 0 then Some (Returns (VNull, OS_ERR_PEND_ISR), s)
     else if OSLockNesting s > 0 then Some (Returns (VNull, OS_ERR_PEND_LOCKED), s)
     else do {
       let pmsg = OSEventPtr ev;
       if pmsg \<noteq> VNull
       then Some (Returns (pmsg, OS_ERR_NONE), upd_evt e (\<lambda>ev. ev\<lparr>OSEventPtr := VNull\<rparr>) s)
       else do {
         s1 \<leftarrow> pend_block OS_STAT_MBOX e timeout s;
         s2 \<leftarrow> OS_Sched s1;
         Some (Blocks, s2)
       }
     }
   }"

definition OSMboxPend_resume :: "nat \<Rightarrow> os \<Rightarrow> (vptr \<times> u8 \<times> os) option" where
  "OSMboxPend_resume e s = pend_wake_msg e s"

definition OSMboxPendAbort :: "nat \<Rightarrow> u8 \<Rightarrow> os \<Rightarrow> (u8 \<times> u8 \<times> os) option" where
  "OSMboxPendAbort e opt s = do {
     ev \<leftarrow> evt s e;
     if OSEventType ev \<noteq> OS_EVENT_TYPE_MBOX then Some (0, OS_ERR_EVENT_TYPE, s)
     else pend_abort OS_STAT_MBOX e opt s
   }"

definition OSMboxPost :: "nat \<Rightarrow> vptr \<Rightarrow> os \<Rightarrow> (u8 \<times> os) option" where
  "OSMboxPost e pmsg s = do {
     ev \<leftarrow> evt s e;
     if OSEventType ev \<noteq> OS_EVENT_TYPE_MBOX then Some (OS_ERR_EVENT_TYPE, s)
     else if OSEventGrp ev \<noteq> 0
     then do {
       r \<leftarrow> OS_EventTaskRdy e pmsg OS_STAT_MBOX OS_STAT_PEND_OK s;
       s2 \<leftarrow> OS_Sched (snd r);
       Some (OS_ERR_NONE, s2)
     }
     else if OSEventPtr ev \<noteq> VNull then Some (OS_ERR_MBOX_FULL, s)
     else Some (OS_ERR_NONE, upd_evt e (\<lambda>ev. ev\<lparr>OSEventPtr := pmsg\<rparr>) s)
   }"

definition OSMboxPostOpt :: "nat \<Rightarrow> vptr \<Rightarrow> u8 \<Rightarrow> os \<Rightarrow> (u8 \<times> os) option" where
  "OSMboxPostOpt e pmsg opt s = do {
     ev \<leftarrow> evt s e;
     if OSEventType ev \<noteq> OS_EVENT_TYPE_MBOX then Some (OS_ERR_EVENT_TYPE, s)
     else if OSEventGrp ev \<noteq> 0
     then do {
       r \<leftarrow> (if opt AND OS_POST_OPT_BROADCAST \<noteq> 0 then event_rdy_all e pmsg OS_STAT_MBOX OS_STAT_PEND_OK 0 s
             else OS_EventTaskRdy e pmsg OS_STAT_MBOX OS_STAT_PEND_OK s);
       s2 \<leftarrow> (if opt AND OS_POST_OPT_NO_SCHED = 0 then OS_Sched (snd r) else Some (snd r));
       Some (OS_ERR_NONE, s2)
     }
     else if OSEventPtr ev \<noteq> VNull then Some (OS_ERR_MBOX_FULL, s)
     else Some (OS_ERR_NONE, upd_evt e (\<lambda>ev. ev\<lparr>OSEventPtr := pmsg\<rparr>) s)
   }"

record os_mbox_data =
  OSMboxMsg :: vptr
  OSMboxEventTbl :: "u8 list"
  OSMboxEventGrp :: u8

definition OSMboxQuery :: "nat \<Rightarrow> os \<Rightarrow> (u8 \<times> os_mbox_data option) option" where
  "OSMboxQuery e s = do {
     ev \<leftarrow> evt s e;
     if OSEventType ev \<noteq> OS_EVENT_TYPE_MBOX then Some (OS_ERR_EVENT_TYPE, None)
     else Some (OS_ERR_NONE, Some \<lparr>OSMboxMsg = OSEventPtr ev,
       OSMboxEventTbl = map (\<lambda>i. OSEventTbl ev (of_nat i)) [0..<8], OSMboxEventGrp = OSEventGrp ev\<rparr>)
   }"

subsection \<open>What the services do\<close>

definition is_mbox :: "os \<Rightarrow> nat \<Rightarrow> bool" where
  "is_mbox s e \<longleftrightarrow> e < OS_MAX_EVENTS \<and> OSEventType (OSEvents s e) = OS_EVENT_TYPE_MBOX"

abbreviation mbox_msg :: "os \<Rightarrow> nat \<Rightarrow> vptr" where
  "mbox_msg s e \<equiv> OSEventPtr (OSEvents s e)"

abbreviation mbox_set :: "nat \<Rightarrow> vptr \<Rightarrow> os \<Rightarrow> os" where
  "mbox_set e m s \<equiv> upd_evt e (\<lambda>ev. ev\<lparr>OSEventPtr := m\<rparr>) s"

lemma is_mboxD:
  assumes "is_mbox s e"
  shows "evt s e = Some (OSEvents s e)" "e < OS_MAX_EVENTS" "OSEventType (OSEvents s e) = OS_EVENT_TYPE_MBOX"
    "emask s e = OS_STAT_MBOX" "avail s e \<longleftrightarrow> mbox_msg s e \<noteq> VNull"
  using assms by (simp_all add: is_mbox_def evt_def avail_def Let_def)

lemma mbox_set_ok:
  assumes ok: "kernel_ok s c" and mbox: "is_mbox s e" and w: "m \<noteq> VNull \<Longrightarrow> waiters s e = {}"
  shows "kernel_ok (mbox_set e m s) c"
proof (rule kernel_ok_upd_evt [OF ok])
  show "obj_inv (mbox_set e m s)"
    by (rule obj_inv_upd_value) (use kernel_okD(9) [OF ok] is_mboxD(3) [OF mbox] in auto)
  assume "avail (mbox_set e m s) e"
  then show "waiters s e = {}" using w is_mboxD(3) [OF mbox] by (simp add: avail_def Let_def)
qed (simp_all add: evt_bm_def)

lemma OSMboxPost_ok:
  assumes ok: "kernel_ok s c" and mbox: "is_mbox s e"
  shows "waiters s e \<noteq> {} \<Longrightarrow> \<exists>t s' c'. OSMboxPost e m s = Some (OS_ERR_NONE, s') \<and> first_waiter s e t \<and>
      readies s e m OS_STAT_PEND_OK {t} s' \<and> kernel_ok s' c' \<and> scheduled s s'"
    and "waiters s e = {} \<Longrightarrow> mbox_msg s e = VNull \<Longrightarrow>
      OSMboxPost e m s = Some (OS_ERR_NONE, mbox_set e m s) \<and> kernel_ok (mbox_set e m s) c"
    and "mbox_msg s e \<noteq> VNull \<Longrightarrow> OSMboxPost e m s = Some (OS_ERR_MBOX_FULL, s)"
proof -
  note d = is_mboxD [OF mbox]
  note grp = evt_bm_nonempty [OF kernel_okD(1) [OF ok], of e]
  show "\<exists>t s' c'. OSMboxPost e m s = Some (OS_ERR_NONE, s') \<and> first_waiter s e t \<and>
      readies s e m OS_STAT_PEND_OK {t} s' \<and> kernel_ok s' c' \<and> scheduled s s'" if ne: "waiters s e \<noteq> {}"
    using post_first [OF kernel_ok_base [OF ok] ne, of m OS_STAT_PEND_OK] ne grp
    by (auto simp: OSMboxPost_def d)
  show "OSMboxPost e m s = Some (OS_ERR_NONE, mbox_set e m s) \<and> kernel_ok (mbox_set e m s) c"
    if "waiters s e = {}" "mbox_msg s e = VNull"
    using that grp mbox_set_ok [OF ok mbox, of m] by (simp add: OSMboxPost_def d)
  show "OSMboxPost e m s = Some (OS_ERR_MBOX_FULL, s)" if "mbox_msg s e \<noteq> VNull"
    using that grp no_waiters [OF ok, of e] by (simp add: OSMboxPost_def d)
qed

text \<open>The options: broadcast, and leave the scheduler alone.\<close>

lemma OSMboxPostOpt_ok:
  assumes ok: "kernel_ok s c" and mbox: "is_mbox s e"
  shows "waiters s e \<noteq> {} \<Longrightarrow> \<exists>s' c' T. OSMboxPostOpt e m opt s = Some (OS_ERR_NONE, s') \<and>
      (if opt AND OS_POST_OPT_BROADCAST \<noteq> 0 then T = all_waiters s e else \<exists>t. T = {t} \<and> first_waiter s e t) \<and>
      readies s e m OS_STAT_PEND_OK T s' \<and> base_ok s' c' \<and>
      (if opt AND OS_POST_OPT_NO_SCHED = 0 then kernel_ok s' c' \<and> scheduled s s' else c' = c)"
    and "waiters s e = {} \<Longrightarrow> OSMboxPostOpt e m opt s = OSMboxPost e m s"
proof -
  note d = is_mboxD [OF mbox]
  note base = kernel_ok_base [OF ok]
  note grp = evt_bm_nonempty [OF kernel_okD(1) [OF ok], of e]
  show "OSMboxPostOpt e m opt s = OSMboxPost e m s" if "waiters s e = {}"
    using that grp by (simp add: OSMboxPostOpt_def OSMboxPost_def d)
  assume ne: "waiters s e \<noteq> {}"
  let ?T = "\<lambda>T. if opt AND OS_POST_OPT_BROADCAST \<noteq> 0 then T = all_waiters s e else \<exists>t. T = {t} \<and> first_waiter s e t"
  obtain n s1 T where r: "(if opt AND OS_POST_OPT_BROADCAST \<noteq> 0 then event_rdy_all e m OS_STAT_MBOX OS_STAT_PEND_OK 0 s
             else OS_EventTaskRdy e m OS_STAT_MBOX OS_STAT_PEND_OK s) = Some (n, s1)"
    "?T T" "readies s e m OS_STAT_PEND_OK T s1" "base_ok s1 c" "wq_frame s s1"
  proof (cases "opt AND OS_POST_OPT_BROADCAST = 0")
    case True
    obtain t s1 where "OS_EventTaskRdy e m (emask s e) OS_STAT_PEND_OK s = Some (prio s t, s1)" "first_waiter s e t"
      "readies s e m OS_STAT_PEND_OK {t} s1" "base_ok s1 c" "wq_frame s s1"
      using rdy_first [OF base ne] by blast
    with True show thesis by (intro that [of "prio s t" s1 "{t}"]) (simp_all add: d(4))
  next
    case False
    obtain s1 where "event_rdy_all e m (emask s e) OS_STAT_PEND_OK 0 s = Some (0 + of_nat (card (waiters s e)), s1)"
      "readies s e m OS_STAT_PEND_OK (all_waiters s e) s1" "base_ok s1 c" "wq_frame s s1"
      using rdy_every [OF base d(2)] by blast
    with False show thesis by (intro that [of "of_nat (card (waiters s e))" s1 "all_waiters s e"]) (simp_all add: d(4))
  qed
  obtain s' c' where s': "OS_Sched s1 = Some s'" "sw_frame s1 s'" "kernel_ok s' c'"
    "if unlocked s1 then highest_runs s' else s' = s1 \<and> c' = c"
    using OS_Sched_base [OF r(4)] by blast
  have ev: "OSMboxPostOpt e m opt s = Some (OS_ERR_NONE, if opt AND OS_POST_OPT_NO_SCHED = 0 then s' else s1)"
    using ne grp s'(1) by (simp add: OSMboxPostOpt_def d r(1))
  show "\<exists>s' c' T. OSMboxPostOpt e m opt s = Some (OS_ERR_NONE, s') \<and> ?T T \<and>
      readies s e m OS_STAT_PEND_OK T s' \<and> base_ok s' c' \<and>
      (if opt AND OS_POST_OPT_NO_SCHED = 0 then kernel_ok s' c' \<and> scheduled s s' else c' = c)"
  proof (cases "opt AND OS_POST_OPT_NO_SCHED = 0")
    case True
    then show ?thesis
      using ev r readies_sw [OF r(3) s'(2)] s' kernel_ok_base [OF s'(3)] unlocked_wq [OF r(5)]
      by (intro exI [of _ s'] exI [of _ c'] exI [of _ T]) (simp add: scheduled_def)
  next
    case False
    then show ?thesis
      using ev r by (intro exI [of _ s1] exI [of _ c] exI [of _ T]) simp
  qed
qed

lemma OSMboxPend_ok:
  assumes ok: "kernel_ok s c" and mb: "may_block s c" and mbox: "is_mbox s e"
  shows "mbox_msg s e \<noteq> VNull \<Longrightarrow> OSMboxPend e timeout s = Some (Returns (mbox_msg s e, OS_ERR_NONE), mbox_set e VNull s) \<and>
      kernel_ok (mbox_set e VNull s) c"
    and "mbox_msg s e = VNull \<Longrightarrow> \<exists>s' c'. OSMboxPend e timeout s = Some (Blocks, s') \<and> blocks s c e timeout s' \<and>
      kernel_ok s' c' \<and> highest_runs s' \<and> c' \<noteq> c"
proof -
  note d = is_mboxD [OF mbox]
  note k = kernel_okD [OF ok]
  have ul: "unlocked s" using mb by (simp add: may_block_def)
  have ctr: "OSIntNesting s = 0" "OSLockNesting s = 0" using ul by (simp_all add: unlocked_def)
  show "OSMboxPend e timeout s = Some (Returns (mbox_msg s e, OS_ERR_NONE), mbox_set e VNull s) \<and>
      kernel_ok (mbox_set e VNull s) c" if "mbox_msg s e \<noteq> VNull"
    using that mbox_set_ok [OF ok mbox, of VNull] ctr by (simp add: OSMboxPend_def d)
  show "\<exists>s' c'. OSMboxPend e timeout s = Some (Blocks, s') \<and> blocks s c e timeout s' \<and>
      kernel_ok s' c' \<and> highest_runs s' \<and> c' \<noteq> c" if "mbox_msg s e = VNull"
    using that pend_first [OF kernel_ok_base [OF ok] k(10) [OF ul] ul, of e timeout] mb ctr
    by (auto simp: OSMboxPend_def d may_block_def)
qed

interpretation mbox: sync_object OSMboxPend OSMboxPost "\<lambda>m. m" OS_EVENT_TYPE_MBOX
proof
  fix s c e timeout
  assume "kernel_ok s c" "may_block s c" "e < OS_MAX_EVENTS" "OSEventType (OSEvents s e) = OS_EVENT_TYPE_MBOX" "\<not> avail s e"
  then show "\<exists>s' c'. OSMboxPend e timeout s = Some (Blocks, s') \<and> blocks s c e timeout s' \<and> kernel_ok s' c' \<and> highest_runs s' \<and> c' \<noteq> c"
    using OSMboxPend_ok(2) [of s c e timeout] is_mboxD(5) [of s e] by (simp add: is_mbox_def)
next
  fix s c e m
  assume "kernel_ok s c" "e < OS_MAX_EVENTS" "OSEventType (OSEvents s e) = OS_EVENT_TYPE_MBOX" "waiters s e \<noteq> {}"
  then show "\<exists>t s' c'. OSMboxPost e m s = Some (OS_ERR_NONE, s') \<and> first_waiter s e t \<and>
      readies s e m OS_STAT_PEND_OK {t} s' \<and> kernel_ok s' c' \<and> scheduled s s'"
    using OSMboxPost_ok(1) [of s c e m] by (simp add: is_mbox_def)
qed

lemma OSMboxAccept_ok:
  assumes ok: "kernel_ok s c" and mbox: "is_mbox s e"
  shows "OSMboxAccept e s = Some (mbox_msg s e, mbox_set e VNull s) \<and> kernel_ok (mbox_set e VNull s) c"
  using mbox_set_ok [OF ok mbox, of VNull] by (simp add: OSMboxAccept_def is_mboxD [OF mbox])

lemma OSMboxCreate_ok:
  assumes ok: "kernel_ok s c" and n: "OSIntNesting s = 0"
  shows "unused s = {} \<Longrightarrow> OSMboxCreate m s = Some (None, s)"
    and "unused s \<noteq> {} \<Longrightarrow> \<exists>e s'. OSMboxCreate m s = Some (Some e, s') \<and>
      created s e OS_EVENT_TYPE_MBOX 0 m s' \<and> kernel_ok s' c"
  using create_event(1) [OF ok, of OS_EVENT_TYPE_MBOX] create_event(2) [OF ok, of OS_EVENT_TYPE_MBOX 0 m] n
  by (auto simp: OSMboxCreate_def event_init_def)

lemma OSMboxDel_ok:
  assumes ok: "kernel_ok s c" and mbox: "is_mbox s e" and n: "OSIntNesting s = 0"
  shows "opt = OS_DEL_NO_PEND \<Longrightarrow> waiters s e \<noteq> {} \<Longrightarrow> OSMboxDel e opt s = Some (Some e, OS_ERR_TASK_WAITING, s)"
    and "opt = OS_DEL_NO_PEND \<and> waiters s e = {} \<or> opt = OS_DEL_ALWAYS \<Longrightarrow>
      \<exists>s' c'. OSMboxDel e opt s = Some (None, OS_ERR_NONE, s') \<and> deletes s e s' \<and> kernel_ok s' c' \<and>
        (waiters s e \<noteq> {} \<longrightarrow> scheduled s s')"
proof -
  note d = is_mboxD [OF mbox]
  have rel: "\<exists>s2. Some (event_release e s1) = Some s2 \<and> base_ok s2 c \<and> released s1 e s2"
    if "base_ok s1 c" "waiters s1 e = {}" "evt_rest (OSEvents s1 e) = evt_rest (OSEvents s e)" for s1
  proof -
    have "OSEventType (OSEvents s1 e) = OS_EVENT_TYPE_MBOX"
      using arg_cong [OF that(3), of OSEventType] d(3) by (simp add: evt_rest_def)
    then show ?thesis using event_release_ok [OF that(1) d(2) _ that(2)] by simp
  qed
  note ed = event_del_ok [OF ok d(2), of "\<lambda>e s. Some (event_release e s)", OF rel, unfolded d(4)]
  have eq: "OSMboxDel e opt s = event_del OS_STAT_MBOX (\<lambda>e s. Some (event_release e s)) e opt s"
    using n by (simp add: OSMboxDel_def d)
  show "opt = OS_DEL_NO_PEND \<Longrightarrow> waiters s e \<noteq> {} \<Longrightarrow> OSMboxDel e opt s = Some (Some e, OS_ERR_TASK_WAITING, s)"
    unfolding eq by (rule ed(1))
  show "opt = OS_DEL_NO_PEND \<and> waiters s e = {} \<or> opt = OS_DEL_ALWAYS \<Longrightarrow>
      \<exists>s' c'. OSMboxDel e opt s = Some (None, OS_ERR_NONE, s') \<and> deletes s e s' \<and> kernel_ok s' c' \<and>
        (waiters s e \<noteq> {} \<longrightarrow> scheduled s s')"
    unfolding eq by (rule ed(3))
qed

subsection \<open>Properties\<close>

lemma sample_mbox: "is_mbox sample 2" "is_mbox sample 3"
  by (simp_all add: is_mbox_def)

text \<open>\<open>OSMboxPost\<close> on every branch. The most urgent waiter, if any, gets the message and becomes ready, and the
  mailbox stays empty; an empty mailbox that nobody waits for stores it; a full one refuses it and keeps
  the message it holds.\<close>

theorem OSMboxPost_spec:
  assumes "kernel_ok s c" and "is_mbox s e"
  shows "if waiters s e \<noteq> {} then \<exists>t s' c'. OSMboxPost e m s = Some (OS_ERR_NONE, s') \<and> first_waiter s e t \<and>
      readies s e m OS_STAT_PEND_OK {t} s' \<and> OSTCBMsg (OSTCBTbl s' t) = m \<and> kernel_ok s' c' \<and> scheduled s s'
    else if mbox_msg s e = VNull then OSMboxPost e m s = Some (OS_ERR_NONE, mbox_set e m s) \<and> kernel_ok (mbox_set e m s) c
    else OSMboxPost e m s = Some (OS_ERR_MBOX_FULL, s)"
proof (cases "waiters s e = {}")
  case False
  obtain t s' c' where s': "OSMboxPost e m s = Some (OS_ERR_NONE, s')" "first_waiter s e t"
    "readies s e m OS_STAT_PEND_OK {t} s'" "kernel_ok s' c'" "scheduled s s'"
    using OSMboxPost_ok(1) [OF assms False] by blast
  then show ?thesis using False readies_first(2) [OF s'(3)] by auto
qed (use OSMboxPost_ok(2,3) [OF assms] in auto)

theorem OSMboxPost_spec_witness:
  "(\<exists>s'. OSMboxPost 3 (VMsg 8) sample = Some (OS_ERR_NONE, s') \<and> (\<exists>t. OSTCBMsg (OSTCBTbl s' t) = VMsg 8)) \<and>
   OSMboxPost 2 (VMsg 8) sample = Some (OS_ERR_MBOX_FULL, sample)"
  using OSMboxPost_spec [OF sample_kernel_ok sample_mbox(2), of "VMsg 8"]
    OSMboxPost_spec [OF sample_kernel_ok sample_mbox(1), of "VMsg 8"]
  by (auto simp: sample_waiters)

text \<open>\<open>OSMboxPend\<close> by the running task, scheduler unlocked: a stored message is taken and returned and the mailbox
  is empty afterwards; on an empty mailbox exactly the caller blocks and another task runs.\<close>

theorem OSMboxPend_spec:
  assumes "kernel_ok s c" and "may_block s c" and "is_mbox s e"
  shows "if mbox_msg s e \<noteq> VNull
    then OSMboxPend e timeout s = Some (Returns (mbox_msg s e, OS_ERR_NONE), mbox_set e VNull s) \<and> kernel_ok (mbox_set e VNull s) c
    else \<exists>s' c'. OSMboxPend e timeout s = Some (Blocks, s') \<and> blocks s c e timeout s' \<and> kernel_ok s' c' \<and> highest_runs s' \<and> c' \<noteq> c"
  using OSMboxPend_ok [OF assms] by simp

theorem OSMboxPend_spec_witness:
  "OSMboxPend 2 0 sample = Some (Returns (VMsg 7, OS_ERR_NONE), mbox_set 2 VNull sample) \<and>
   (\<exists>s'. OSMboxPend 3 0 sample = Some (Blocks, s') \<and> waiters s' 3 = {10, 30})"
proof -
  have "\<exists>s'. OSMboxPend 3 0 sample = Some (Blocks, s') \<and> waiters s' 3 = {10, 30}"
    using OSMboxPend_spec [OF sample_kernel_ok sample_may_block sample_mbox(2), of 0] sample_prio(2)
    by (auto simp: blocks_def sample_waiters)
  then show ?thesis using OSMboxPend_spec [OF sample_kernel_ok sample_may_block sample_mbox(1), of 0] by simp
qed

text \<open>\<open>OSMboxPostOpt\<close> with waiters. With \<open>OS_POST_OPT_BROADCAST\<close> every waiter gets the message and becomes ready,
  otherwise the most urgent one; with \<open>OS_POST_OPT_NO_SCHED\<close> the running task goes on, otherwise the
  scheduler runs.\<close>

theorem OSMboxPostOpt_broadcast:
  assumes "kernel_ok s c" and "is_mbox s e" and "waiters s e \<noteq> {}"
  shows "\<exists>s' c' T. OSMboxPostOpt e m opt s = Some (OS_ERR_NONE, s') \<and>
      (if opt AND OS_POST_OPT_BROADCAST \<noteq> 0 then T = all_waiters s e else \<exists>t. T = {t} \<and> first_waiter s e t) \<and>
      readies s e m OS_STAT_PEND_OK T s' \<and> base_ok s' c' \<and>
      (if opt AND OS_POST_OPT_NO_SCHED = 0 then kernel_ok s' c' \<and> scheduled s s' else c' = c)"
  using OSMboxPostOpt_ok(1) [OF assms] .

theorem OSMboxPostOpt_broadcast_witness:
  "\<exists>s'. OSMboxPostOpt 3 (VMsg 8) OS_POST_OPT_BROADCAST sample = Some (OS_ERR_NONE, s') \<and> waiters s' 3 = {}"
proof -
  have "waiters sample 3 \<noteq> {}" by (simp add: sample_waiters)
  from OSMboxPostOpt_broadcast [OF sample_kernel_ok sample_mbox(2) this, of "VMsg 8" OS_POST_OPT_BROADCAST]
  show ?thesis
    using prio_all_waiters [OF sample_sched_inv, of 3] by (auto simp: readies_def sample_waiters)
qed

end
