(* ===== verification/OS_Q_Ring.thy ===== *)
theory OS_Q_Ring
  imports OS_Kernel
begin

text \<open>
  The ring of a message queue as a list: \<open>q_put\<close>, \<open>q_put_front\<close> and \<open>q_get\<close> of \<open>OS_Q\<close> implement a
  bounded double-ended queue. The locale \<open>deque\<close> states that interface and proves what follows from
  it; the ring is its instance.
\<close>

subsection \<open>The interface\<close>

locale deque =
  fixes ok :: "'s \<Rightarrow> bool" and abs :: "'s \<Rightarrow> 'm list" and cap :: "'s \<Rightarrow> nat"
    and put :: "'m \<Rightarrow> 's \<Rightarrow> 's" and put_front :: "'m \<Rightarrow> 's \<Rightarrow> 's" and get :: "'s \<Rightarrow> 'm \<times> 's"
  assumes put: "ok s \<Longrightarrow> length (abs s) < cap s \<Longrightarrow> ok (put m s) \<and> abs (put m s) = abs s @ [m] \<and> cap (put m s) = cap s"
    and put_front: "ok s \<Longrightarrow> length (abs s) < cap s \<Longrightarrow>
      ok (put_front m s) \<and> abs (put_front m s) = m # abs s \<and> cap (put_front m s) = cap s"
    and get: "ok s \<Longrightarrow> abs s \<noteq> [] \<Longrightarrow> fst (get s) = hd (abs s) \<and> ok (snd (get s)) \<and> abs (snd (get s)) = tl (abs s) \<and>
      cap (snd (get s)) = cap s"
begin

lemma put_all:
  "ok s \<Longrightarrow> length (abs s) + length ms \<le> cap s \<Longrightarrow>
    ok (fold put ms s) \<and> abs (fold put ms s) = abs s @ ms \<and> cap (fold put ms s) = cap s"
proof (induction ms arbitrary: s)
  case (Cons m ms)
  then show ?case using put [of s m] Cons.IH [of "put m s"] by auto
qed simp

text \<open>Take \<open>n\<close> messages.\<close>

fun get_all :: "nat \<Rightarrow> 's \<Rightarrow> 'm list" where
  "get_all 0 s = []"
| "get_all (Suc n) s = fst (get s) # get_all n (snd (get s))"

lemma get_all: "ok s \<Longrightarrow> n \<le> length (abs s) \<Longrightarrow> get_all n s = take n (abs s)"
proof (induction n arbitrary: s)
  case (Suc n)
  then have "abs s \<noteq> []" by auto
  with Suc get [of s] Suc.IH [of "snd (get s)"] show ?case
    by (cases "abs s") auto
qed simp

text \<open>Messages come out in the order in which they went in.\<close>

lemma fifo:
  assumes "ok s" "length (abs s) + length ms \<le> cap s"
  shows "get_all (length (abs s) + length ms) (fold put ms s) = abs s @ ms"
  using put_all [OF assms] get_all [of "fold put ms s" "length (abs s) + length ms"] by simp

text \<open>A message put in front comes out first.\<close>

lemma lifo: "ok s \<Longrightarrow> length (abs s) < cap s \<Longrightarrow> fst (get (put_front m s)) = m \<and> abs (snd (get (put_front m s))) = abs s"
  using put_front [of s m] get [of "put_front m s"] by simp

end

subsection \<open>Offsets modulo the size\<close>

lemma mod_cell_neq:
  fixes n :: nat
  assumes "j < k" "k < n"
  shows "(x + j) mod n \<noteq> (x + k) mod n"
proof
  assume "(x + j) mod n = (x + k) mod n"
  then have "n dvd (x + k) - (x + j)" using assms by (metis add_le_cancel_left less_imp_le mod_eq_dvd_iff_nat)
  then have "n dvd k - j" by simp
  then show False using assms by (auto dest: dvd_imp_le)
qed

lemma mod_step: "(i::nat) < n \<Longrightarrow> (if i + 1 = n then 0 else i + 1) = (i + 1) mod n"
  by (auto simp: mod_if)

lemma mod_back:
  fixes n :: nat
  assumes "x < n"
  shows "((if x = 0 then n else x) - 1 + 1 + j) mod n = (x + j) mod n"
  using assms by (cases "x = 0") auto

subsection \<open>The ring\<close>

definition q_cell :: "os_q \<Rightarrow> nat \<Rightarrow> nat" where
  "q_cell p i = OSQStart p + (OSQOut p - OSQStart p + i) mod unat (OSQSize p)"

definition q_list :: "os \<Rightarrow> nat \<Rightarrow> vptr list" where
  "q_list s q = (let p = OSQTbl s q in map (\<lambda>i. OSMsgMem s (q_cell p i)) [0..<unat (OSQEntries p)])"

lemma length_q_list [simp]: "length (q_list s q) = unat (OSQEntries (OSQTbl s q))"
  by (simp add: q_list_def Let_def)

lemma upd_q_sel [simp]:
  "OSQTbl (upd_q q f s) = (OSQTbl s)(q := f (OSQTbl s q))" "OSMsgMem (upd_q q f s) = OSMsgMem s"
  by (simp_all add: upd_q_def)

lemma unat_inc16: "n < m \<Longrightarrow> unat (n + 1) = unat n + 1" for n m :: u16
  by unat_arith

lemma unat_dec16: "n > 0 \<Longrightarrow> unat (n - 1) = unat n - 1" for n :: u16
  by (simp add: unat_minus_one word_gt_0)

text \<open>The offset of \<open>OSQOut\<close>, and what \<open>q_ok\<close> says in terms of it for a queue with room.\<close>

lemma q_okD:
  assumes "q_ok p" and "OSQSize p \<noteq> 0"
  shows "OSQOut p - OSQStart p < unat (OSQSize p)" "OSQOut p = OSQStart p + (OSQOut p - OSQStart p)"
    "OSQEnd p = OSQStart p + unat (OSQSize p)" "OSQIn p = q_cell p (unat (OSQEntries p))"
    "unat (OSQEntries p) \<le> unat (OSQSize p)" "unat (OSQSize p) > 0"
  using assms by (auto simp: q_ok_def q_cell_def word_le_nat_alt unat_gt_0)

lemma q_okI:
  assumes "OSQSize p \<noteq> 0" "OSQEnd p = OSQStart p + unat (OSQSize p)" "unat (OSQEntries p) \<le> unat (OSQSize p)"
    "OSQStart p \<le> OSQOut p" "OSQOut p < OSQEnd p" "OSQIn p = q_cell p (unat (OSQEntries p))"
  shows "q_ok p"
  using assms by (simp add: q_ok_def q_cell_def word_le_nat_alt)

lemma q_cell_range: "OSQSize p \<noteq> 0 \<Longrightarrow> OSQStart p \<le> q_cell p i \<and> q_cell p i < OSQStart p + unat (OSQSize p)"
  by (simp add: q_cell_def unat_gt_0)

lemma q_cell_next:
  assumes "OSQSize p \<noteq> 0" "OSQEnd p = OSQStart p + unat (OSQSize p)"
  shows "q_cell p (i + 1) = (if q_cell p i + 1 = OSQEnd p then OSQStart p else q_cell p i + 1)"
proof -
  let ?x = "(OSQOut p - OSQStart p + i) mod unat (OSQSize p)"
  have "?x < unat (OSQSize p)" using assms by (simp add: unat_gt_0)
  from mod_step [OF this] show ?thesis
    unfolding q_cell_def assms(2) by (simp add: mod_Suc_eq split: if_splits)
qed

lemma q_cell_in: "q_cell (p\<lparr>OSQIn := a, OSQEntries := n\<rparr>) i = q_cell p i"
  by (simp add: q_cell_def)

lemma q_cell_out: "q_cell (p\<lparr>OSQOut := q_cell p j, OSQEntries := n\<rparr>) i = q_cell p (j + i)"
  by (simp add: q_cell_def mod_add_left_eq add.assoc)

lemma q_cell_0: "q_ok p \<Longrightarrow> OSQSize p \<noteq> 0 \<Longrightarrow> q_cell p 0 = OSQOut p"
  using q_okD [of p] by (simp add: q_cell_def)

lemma q_cell_neq: "i < j \<Longrightarrow> j < unat (OSQSize p) \<Longrightarrow> q_cell p i \<noteq> q_cell p j"
  using mod_cell_neq by (simp add: q_cell_def)

lemma os_q_upd_commute:
  "p\<lparr>OSQEntries := n, OSQIn := a\<rparr> = p\<lparr>OSQIn := a, OSQEntries := n\<rparr>"
  "p\<lparr>OSQEntries := n, OSQOut := a\<rparr> = p\<lparr>OSQOut := a, OSQEntries := n\<rparr>"
  by simp_all

text \<open>Appending.\<close>

lemma q_put_eq:
  assumes ok: "q_ok (OSQTbl s q)" and room: "OSQEntries (OSQTbl s q) < OSQSize (OSQTbl s q)"
  shows "q_put q m s = s\<lparr>OSMsgMem := (OSMsgMem s)(q_cell (OSQTbl s q) (unat (OSQEntries (OSQTbl s q))) := m),
    OSQTbl := (OSQTbl s)(q := (OSQTbl s q)\<lparr>OSQIn := q_cell (OSQTbl s q) (unat (OSQEntries (OSQTbl s q)) + 1),
      OSQEntries := OSQEntries (OSQTbl s q) + 1\<rparr>)\<rparr>"
proof -
  have nz: "OSQSize (OSQTbl s q) \<noteq> 0" using room by auto
  note d = q_okD [OF ok nz]
  show ?thesis
    unfolding q_cell_next [OF nz d(3)] d(4) [symmetric]
    by (simp add: q_put_def Let_def upd_q_def os_q_upd_commute)
qed

lemma q_put_ok:
  assumes ok: "q_ok (OSQTbl s q)" and room: "OSQEntries (OSQTbl s q) < OSQSize (OSQTbl s q)"
  shows "q_ok (OSQTbl (q_put q m s) q)" "q_list (q_put q m s) q = q_list s q @ [m]"
    "OSQSize (OSQTbl (q_put q m s) q) = OSQSize (OSQTbl s q)"
proof -
  let ?p = "OSQTbl s q" and ?k = "unat (OSQEntries (OSQTbl s q))"
  have nz: "OSQSize ?p \<noteq> 0" using room by auto
  note d = q_okD [OF ok nz]
  note eq = q_put_eq [OF ok room, of m]
  have k: "unat (OSQEntries ?p + 1) = ?k + 1" by (rule unat_inc16 [OF room])
  have kn: "?k < unat (OSQSize ?p)" using room by (simp add: word_less_nat_alt)
  show "OSQSize (OSQTbl (q_put q m s) q) = OSQSize ?p" by (simp add: eq)
  have "OSQStart ?p \<le> OSQOut ?p" "OSQOut ?p < OSQEnd ?p" using d(1-3) by simp_all
  then show "q_ok (OSQTbl (q_put q m s) q)"
    using nz k kn d(3) by (intro q_okI) (simp_all add: eq q_cell_in del: add_Suc_right)
  have "q_cell ?p i \<noteq> q_cell ?p ?k" if "i < ?k" for i
    by (rule q_cell_neq [OF that kn])
  then show "q_list (q_put q m s) q = q_list s q @ [m]"
    by (simp add: eq q_list_def Let_def k q_cell_in)
qed

text \<open>Taking from the front.\<close>

lemma q_get_eq:
  assumes ok: "q_ok (OSQTbl s q)" and ne: "OSQEntries (OSQTbl s q) > 0"
  shows "q_get q s = (OSMsgMem s (q_cell (OSQTbl s q) 0), s\<lparr>OSQTbl := (OSQTbl s)(q := (OSQTbl s q)\<lparr>
    OSQOut := q_cell (OSQTbl s q) 1, OSQEntries := OSQEntries (OSQTbl s q) - 1\<rparr>)\<rparr>)"
proof -
  have nz: "OSQSize (OSQTbl s q) \<noteq> 0" using ok ne by (auto simp: q_ok_def)
  note d = q_okD [OF ok nz]
  show ?thesis
    using q_cell_next [OF nz d(3), of 0] q_cell_0 [OF ok nz]
    by (simp add: q_get_def Let_def upd_q_def os_q_upd_commute)
qed

lemma q_get_ok:
  assumes ok: "q_ok (OSQTbl s q)" and ne: "OSQEntries (OSQTbl s q) > 0"
  shows "fst (q_get q s) = hd (q_list s q)" "q_ok (OSQTbl (snd (q_get q s)) q)"
    "q_list (snd (q_get q s)) q = tl (q_list s q)" "OSQSize (OSQTbl (snd (q_get q s)) q) = OSQSize (OSQTbl s q)"
proof -
  let ?p = "OSQTbl s q" and ?k = "unat (OSQEntries (OSQTbl s q))"
  have nz: "OSQSize ?p \<noteq> 0" using ok ne by (auto simp: q_ok_def)
  note d = q_okD [OF ok nz]
  note eq = q_get_eq [OF ok ne]
  have k: "unat (OSQEntries ?p - 1) = ?k - 1" "?k > 0" using unat_dec16 [OF ne] ne by (simp_all add: word_less_nat_alt)
  show "fst (q_get q s) = hd (q_list s q)"
    using k(2) by (simp add: eq q_list_def Let_def hd_map upt_conv_Cons)
  show "OSQSize (OSQTbl (snd (q_get q s)) q) = OSQSize ?p" by (simp add: eq)
  have "OSQIn ?p = q_cell ?p (1 + (?k - 1))" using d(4) k(2) by simp
  then show "q_ok (OSQTbl (snd (q_get q s)) q)"
    using nz k d(3,5) q_cell_range [OF nz, of 1] by (intro q_okI) (simp_all add: eq q_cell_out)
  have "[0..<?k] = 0 # map Suc [0..<?k - 1]" using k(2) by (simp add: upt_conv_Cons map_Suc_upt)
  then show "q_list (snd (q_get q s)) q = tl (q_list s q)"
    using k(1) by (simp add: eq q_list_def Let_def q_cell_out comp_def)
qed

text \<open>Putting in front.\<close>

definition q_back :: "os_q \<Rightarrow> nat" where
  "q_back p = (if OSQOut p = OSQStart p then OSQEnd p else OSQOut p) - 1"

lemma q_back_cell:
  assumes "q_ok p" and "OSQSize p \<noteq> 0"
  shows "q_cell (p\<lparr>OSQOut := q_back p, OSQEntries := n\<rparr>) 0 = q_back p"
    "q_cell (p\<lparr>OSQOut := q_back p, OSQEntries := n\<rparr>) (Suc i) = q_cell p i" "OSQStart p \<le> q_back p" "q_back p < OSQEnd p"
proof -
  note d = q_okD [OF assms]
  define x where "x = OSQOut p - OSQStart p"
  have x: "OSQOut p = OSQStart p + x" "x < unat (OSQSize p)" using d(1,2) by (simp_all add: x_def)
  have b: "q_back p = OSQStart p + ((if x = 0 then unat (OSQSize p) else x) - 1)"
    using x d(3,6) by (simp add: q_back_def)
  show "OSQStart p \<le> q_back p" "q_back p < OSQEnd p" using x d(3,6) by (auto simp: b)
  then show "q_cell (p\<lparr>OSQOut := q_back p, OSQEntries := n\<rparr>) 0 = q_back p"
    using d(3) by (simp add: q_cell_def)
  show "q_cell (p\<lparr>OSQOut := q_back p, OSQEntries := n\<rparr>) (Suc i) = q_cell p i"
    using mod_back [OF x(2), of i] by (simp add: q_cell_def b x(1))
qed

lemma q_put_front_eq:
  "q_put_front q m s = s\<lparr>OSMsgMem := (OSMsgMem s)(q_back (OSQTbl s q) := m),
    OSQTbl := (OSQTbl s)(q := (OSQTbl s q)\<lparr>OSQOut := q_back (OSQTbl s q), OSQEntries := OSQEntries (OSQTbl s q) + 1\<rparr>)\<rparr>"
  by (simp add: q_put_front_def Let_def upd_q_def q_back_def)

lemma q_put_front_ok:
  assumes ok: "q_ok (OSQTbl s q)" and room: "OSQEntries (OSQTbl s q) < OSQSize (OSQTbl s q)"
  shows "q_ok (OSQTbl (q_put_front q m s) q)" "q_list (q_put_front q m s) q = m # q_list s q"
    "OSQSize (OSQTbl (q_put_front q m s) q) = OSQSize (OSQTbl s q)"
proof -
  let ?p = "OSQTbl s q" and ?k = "unat (OSQEntries (OSQTbl s q))"
  let ?p' = "?p\<lparr>OSQOut := q_back ?p, OSQEntries := OSQEntries ?p + 1\<rparr>"
  have nz: "OSQSize ?p \<noteq> 0" using room by auto
  note d = q_okD [OF ok nz]
  note eq = q_put_front_eq [of q m s]
  note c = q_back_cell(1,2) [OF ok nz, of "OSQEntries ?p + 1"] q_back_cell(3,4) [OF ok nz]
  have k: "unat (OSQEntries ?p + 1) = ?k + 1" by (rule unat_inc16 [OF room])
  have kn: "?k < unat (OSQSize ?p)" using room by (simp add: word_less_nat_alt)
  show "OSQSize (OSQTbl (q_put_front q m s) q) = OSQSize ?p" by (simp add: eq)
  show "q_ok (OSQTbl (q_put_front q m s) q)"
    using nz k kn d(3,4) c by (intro q_okI) (simp_all add: eq)
  have "q_cell ?p i \<noteq> q_back ?p" if "i < ?k" for i
    using q_cell_neq [of 0 "Suc i" ?p'] that kn c(1) c(2) [of i] by auto
  moreover have "[0..<?k + 1] = 0 # map Suc [0..<?k]" by (simp add: upt_conv_Cons map_Suc_upt del: upt_Suc)
  ultimately show "q_list (q_put_front q m s) q = m # q_list s q"
    by (simp add: eq q_list_def Let_def k c comp_def del: upt_Suc)
qed

interpretation ring: deque "\<lambda>s. q_ok (OSQTbl s q)" "\<lambda>s. q_list s q" "\<lambda>s. unat (OSQSize (OSQTbl s q))"
  "q_put q" "q_put_front q" "q_get q" for q
proof
  fix s m
  assume "q_ok (OSQTbl s q)" "length (q_list s q) < unat (OSQSize (OSQTbl s q))"
  then have "q_ok (OSQTbl s q)" "OSQEntries (OSQTbl s q) < OSQSize (OSQTbl s q)" by (simp_all add: word_less_nat_alt)
  from q_put_ok [OF this] q_put_front_ok [OF this]
  show "q_ok (OSQTbl (q_put q m s) q) \<and> q_list (q_put q m s) q = q_list s q @ [m] \<and>
      unat (OSQSize (OSQTbl (q_put q m s) q)) = unat (OSQSize (OSQTbl s q))"
    "q_ok (OSQTbl (q_put_front q m s) q) \<and> q_list (q_put_front q m s) q = m # q_list s q \<and>
      unat (OSQSize (OSQTbl (q_put_front q m s) q)) = unat (OSQSize (OSQTbl s q))"
    by simp_all
next
  fix s
  assume "q_ok (OSQTbl s q)" "q_list s q \<noteq> []"
  then have "q_ok (OSQTbl s q)" "OSQEntries (OSQTbl s q) > 0"
    by (simp_all add: q_list_def Let_def word_less_nat_alt)
  from q_get_ok [OF this]
  show "fst (q_get q s) = hd (q_list s q) \<and> q_ok (OSQTbl (snd (q_get q s)) q) \<and>
      q_list (snd (q_get q s)) q = tl (q_list s q) \<and> unat (OSQSize (OSQTbl (snd (q_get q s)) q)) = unat (OSQSize (OSQTbl s q))"
    by simp
qed

end
