(* ===== verification/OS_Q_Proofs.thy ===== *)
theory OS_Q_Proofs
  imports OS_Q_Ring OS_Sample
begin

text \<open>
  What the services of \<open>OS_Q\<close> do on every branch, in terms of the list of messages a queue holds,
  with the kernel's invariant kept, and the instance of the contract of pend and post.
\<close>

subsection \<open>Changing one ring\<close>

definition q_change :: "os \<Rightarrow> nat \<Rightarrow> os \<Rightarrow> bool" where
  "q_change s q s' \<longleftrightarrow> (\<exists>mem p. s' = s\<lparr>OSMsgMem := mem, OSQTbl := (OSQTbl s)(q := p)\<rparr> \<and> q_ok p \<and>
     OSQPtr p = OSQPtr (OSQTbl s q))"

lemma q_changeI:
  "s' = s\<lparr>OSMsgMem := mem, OSQTbl := (OSQTbl s)(q := p)\<rparr> \<Longrightarrow> q_ok p \<Longrightarrow> OSQPtr p = OSQPtr (OSQTbl s q) \<Longrightarrow> q_change s q s'"
  unfolding q_change_def by blast

lemma kernel_ok_q_change:
  assumes ok: "kernel_ok s c" and q: "q_of s e q" and ch: "q_change s q s'"
    and w: "OSQEntries (OSQTbl s' q) \<noteq> 0 \<Longrightarrow> waiters s e = {}"
  shows "kernel_ok s' c"
proof -
  note d = kernel_okD [OF ok]
  obtain mem p where s': "s' = s\<lparr>OSMsgMem := mem, OSQTbl := (OSQTbl s)(q := p)\<rparr>" "q_ok p" "OSQPtr p = OSQPtr (OSQTbl s q)"
    using ch unfolding q_change_def by blast
  have sets: "waiters s' = waiters s" "ready s' = ready s" "act s' = act s" "unlocked s' = unlocked s"
    by (simp_all add: s'(1) waiters_def ready_def rdy_bm_def act_def unlocked_def fun_eq_iff)
  have "sched_inv s'" by (rule sched_inv_cong [OF d(1)]) (simp_all add: s'(1) rdy_bm_def)
  moreover have "list_inv s'" using d(2) by (subst list_inv_cong [of _ s]) (simp_all add: s'(1))
  moreover have "idle_inv s'"
    unfolding idle_inv_def sets
  proof (intro allI impI)
    fix i assume i: "avail s' i"
    show "waiters s i = {}"
    proof (cases "i = e")
      case True
      then show ?thesis using i w q by (simp add: avail_def q_of_def s'(1) Let_def)
    next
      case False
      have "OSEventPtr (OSEvents s i) \<noteq> VQ q" if "OSEventType (OSEvents s i) = OS_EVENT_TYPE_Q" "i < OS_MAX_EVENTS"
        using d(9) q False that unfolding obj_inv_def q_inv_def q_of_def by metis
      moreover have "waiters s i = {}" if "\<not> i < OS_MAX_EVENTS"
        using that waiting_task [OF d(1), of i] by metis
      ultimately have "avail s i \<or> waiters s i = {}"
        using i by (auto simp: avail_def Let_def s'(1) mutex_prio_def split: if_splits)
      then show ?thesis using d(3) by (auto simp: idle_inv_def)
    qed
  qed
  moreover have "obj_inv s'"
  proof -
    have qo: "q_of s' = q_of s" by (simp add: q_of_def s'(1) fun_eq_iff)
    have seg: "q_seg (OSQTbl s') l qs = q_seg (OSQTbl s) l qs" for l qs
      by (rule q_seg_cong) (simp add: s')
    have qok: "q_ok (OSQTbl s' i)" if "q_ok (OSQTbl s i)" for i
      using that s'(2) by (simp add: s'(1))
    have fl: "OSQFreeList s' = OSQFreeList s" "OSEvents s' = OSEvents s" by (simp_all add: s'(1))
    have "q_inv s'"
      using d(9) qok unfolding obj_inv_def q_inv_def qo seg fl by blast
    moreover have "evt_free_inv s' = evt_free_inv s"
      by (simp add: evt_free_inv_def unused_def s'(1))
    ultimately show ?thesis using d(9) by (simp add: obj_inv_def)
  qed
  ultimately show ?thesis
    using ok by (simp add: kernel_ok_iff base_ok_def cur_at_def sets) (simp add: s'(1))
qed

lemma q_put_change:
  assumes "q_ok (OSQTbl s q)" "OSQEntries (OSQTbl s q) < OSQSize (OSQTbl s q)"
  shows "q_change s q (q_put q m s)" "q_change s q (q_put_front q m s)"
  using q_put_ok(1) [OF assms, of m] q_put_front_ok(1) [OF assms, of m]
  by (auto intro!: q_changeI simp: q_put_eq [OF assms] q_put_front_eq)

lemma q_get_change:
  assumes "q_ok (OSQTbl s q)" "OSQEntries (OSQTbl s q) > 0"
  shows "q_change s q (snd (q_get q s))"
  using q_get_ok(2) [OF assms]
  by (intro q_changeI [where mem = "OSMsgMem s" and p = "OSQTbl (snd (q_get q s)) q"]) (auto simp: q_get_eq [OF assms])

subsection \<open>The services\<close>

text \<open>What an event of type queue gives.\<close>

lemma q_ofD:
  assumes ok: "kernel_ok s c" and q: "q_of s e q"
  shows "evt s e = Some (OSEvents s e)" "e < OS_MAX_EVENTS" "OSEventType (OSEvents s e) = OS_EVENT_TYPE_Q"
    "deref_q (OSEventPtr (OSEvents s e)) = Some q" "emask s e = OS_STAT_Q" "q_ok (OSQTbl s q)"
    "avail s e \<longleftrightarrow> q_list s q \<noteq> []" "OSQEntries (OSQTbl s q) > 0 \<longleftrightarrow> q_list s q \<noteq> []"
proof -
  have "q < OS_MAX_QS \<and> q_ok (OSQTbl s q)"
    using kernel_okD(9) [OF ok] q by (simp add: obj_inv_def q_inv_def)
  moreover have "q_list s q \<noteq> [] \<longleftrightarrow> OSQEntries (OSQTbl s q) \<noteq> 0"
    using length_q_list [of s q] by (metis length_0_conv unat_eq_0)
  ultimately show "evt s e = Some (OSEvents s e)" "e < OS_MAX_EVENTS" "OSEventType (OSEvents s e) = OS_EVENT_TYPE_Q"
    "deref_q (OSEventPtr (OSEvents s e)) = Some q" "emask s e = OS_STAT_Q" "q_ok (OSQTbl s q)"
    "avail s e \<longleftrightarrow> q_list s q \<noteq> []" "OSQEntries (OSQTbl s q) > 0 \<longleftrightarrow> q_list s q \<noteq> []"
    using q by (auto simp: q_of_def evt_def deref_q_def avail_def Let_def word_gt_0)
qed

abbreviation q_size :: "os \<Rightarrow> nat \<Rightarrow> nat" where
  "q_size s q \<equiv> unat (OSQSize (OSQTbl s q))"

text \<open>\<open>s'\<close> is \<open>s\<close> with queue \<open>q\<close> holding \<open>ms\<close>.\<close>

definition q_holds :: "os \<Rightarrow> nat \<Rightarrow> vptr list \<Rightarrow> os \<Rightarrow> bool" where
  "q_holds s q ms s' \<longleftrightarrow> q_change s q s' \<and> q_list s' q = ms \<and> OSQSize (OSQTbl s' q) = OSQSize (OSQTbl s q)"


lemma OSQPost_ok:
  assumes ok: "kernel_ok s c" and q: "q_of s e q"
  shows "waiters s e \<noteq> {} \<Longrightarrow> \<exists>t s' c'. OSQPost e m s = Some (OS_ERR_NONE, s') \<and> first_waiter s e t \<and>
      readies s e m OS_STAT_PEND_OK {t} s' \<and> kernel_ok s' c' \<and> scheduled s s'"
    and "waiters s e = {} \<Longrightarrow> length (q_list s q) < q_size s q \<Longrightarrow> \<exists>s'. OSQPost e m s = Some (OS_ERR_NONE, s') \<and>
      q_holds s q (q_list s q @ [m]) s' \<and> kernel_ok s' c"
    and "waiters s e = {} \<Longrightarrow> length (q_list s q) = q_size s q \<Longrightarrow> OSQPost e m s = Some (OS_ERR_Q_FULL, s)"
proof -
  note d = q_ofD [OF ok q]
  note grp = evt_bm_nonempty [OF kernel_okD(1) [OF ok], of e]
  show "\<exists>t s' c'. OSQPost e m s = Some (OS_ERR_NONE, s') \<and> first_waiter s e t \<and>
      readies s e m OS_STAT_PEND_OK {t} s' \<and> kernel_ok s' c' \<and> scheduled s s'" if ne: "waiters s e \<noteq> {}"
    using post_first [OF kernel_ok_base [OF ok] ne, of m OS_STAT_PEND_OK] ne grp
    by (auto simp: OSQPost_def d)
  show "\<exists>s'. OSQPost e m s = Some (OS_ERR_NONE, s') \<and> q_holds s q (q_list s q @ [m]) s' \<and> kernel_ok s' c"
    if "waiters s e = {}" "length (q_list s q) < q_size s q"
  proof -
    have room: "OSQEntries (OSQTbl s q) < OSQSize (OSQTbl s q)" using that(2) by (simp add: word_less_nat_alt)
    have "q_holds s q (q_list s q @ [m]) (q_put q m s)"
      using q_put_change(1) [OF d(6) room] q_put_ok [OF d(6) room] by (simp add: q_holds_def)
    moreover have "kernel_ok (q_put q m s) c"
      by (rule kernel_ok_q_change [OF ok q q_put_change(1) [OF d(6) room]]) (rule that(1))
    ultimately show ?thesis
      using that(1) grp room by (intro exI [of _ "q_put q m s"]) (simp add: OSQPost_def d)
  qed
  show "OSQPost e m s = Some (OS_ERR_Q_FULL, s)" if "waiters s e = {}" "length (q_list s q) = q_size s q"
    using that grp by (simp add: OSQPost_def d word_le_nat_alt)
qed

lemma OSQPostFront_ok:
  assumes ok: "kernel_ok s c" and q: "q_of s e q"
  shows "waiters s e \<noteq> {} \<Longrightarrow> \<exists>t s' c'. OSQPostFront e m s = Some (OS_ERR_NONE, s') \<and> first_waiter s e t \<and>
      readies s e m OS_STAT_PEND_OK {t} s' \<and> kernel_ok s' c' \<and> scheduled s s'"
    and "waiters s e = {} \<Longrightarrow> length (q_list s q) < q_size s q \<Longrightarrow> \<exists>s'. OSQPostFront e m s = Some (OS_ERR_NONE, s') \<and>
      q_holds s q (m # q_list s q) s' \<and> kernel_ok s' c"
    and "waiters s e = {} \<Longrightarrow> length (q_list s q) = q_size s q \<Longrightarrow> OSQPostFront e m s = Some (OS_ERR_Q_FULL, s)"
proof -
  note d = q_ofD [OF ok q]
  note grp = evt_bm_nonempty [OF kernel_okD(1) [OF ok], of e]
  show "\<exists>t s' c'. OSQPostFront e m s = Some (OS_ERR_NONE, s') \<and> first_waiter s e t \<and>
      readies s e m OS_STAT_PEND_OK {t} s' \<and> kernel_ok s' c' \<and> scheduled s s'" if ne: "waiters s e \<noteq> {}"
    using post_first [OF kernel_ok_base [OF ok] ne, of m OS_STAT_PEND_OK] ne grp
    by (auto simp: OSQPostFront_def d)
  show "\<exists>s'. OSQPostFront e m s = Some (OS_ERR_NONE, s') \<and> q_holds s q (m # q_list s q) s' \<and> kernel_ok s' c"
    if "waiters s e = {}" "length (q_list s q) < q_size s q"
  proof -
    have room: "OSQEntries (OSQTbl s q) < OSQSize (OSQTbl s q)" using that(2) by (simp add: word_less_nat_alt)
    have "q_holds s q (m # q_list s q) (q_put_front q m s)"
      using q_put_change(2) [OF d(6) room] q_put_front_ok [OF d(6) room] by (simp add: q_holds_def)
    moreover have "kernel_ok (q_put_front q m s) c"
      by (rule kernel_ok_q_change [OF ok q q_put_change(2) [OF d(6) room]]) (rule that(1))
    ultimately show ?thesis
      using that(1) grp room by (intro exI [of _ "q_put_front q m s"]) (simp add: OSQPostFront_def d)
  qed
  show "OSQPostFront e m s = Some (OS_ERR_Q_FULL, s)" if "waiters s e = {}" "length (q_list s q) = q_size s q"
    using that grp by (simp add: OSQPostFront_def d word_le_nat_alt)
qed

text \<open>Without waiters the option picks one of the two plain calls.\<close>

lemma OSQPostOpt_eq:
  assumes ok: "kernel_ok s c" and q: "q_of s e q" and mt: "waiters s e = {}"
  shows "OSQPostOpt e m opt s = (if opt AND OS_POST_OPT_FRONT \<noteq> 0 then OSQPostFront e m s else OSQPost e m s)"
  using mt evt_bm_nonempty [OF kernel_okD(1) [OF ok], of e]
  by (simp add: OSQPostOpt_def OSQPostFront_def OSQPost_def q_ofD [OF ok q])

lemma OSQPostOpt_ok:
  assumes ok: "kernel_ok s c" and q: "q_of s e q" and ne: "waiters s e \<noteq> {}" and opt: "opt AND OS_POST_OPT_NO_SCHED = 0"
  shows "\<exists>s' c' T. OSQPostOpt e m opt s = Some (OS_ERR_NONE, s') \<and>
      (if opt AND OS_POST_OPT_BROADCAST \<noteq> 0 then T = all_waiters s e else \<exists>t. T = {t} \<and> first_waiter s e t) \<and>
      readies s e m OS_STAT_PEND_OK T s' \<and> kernel_ok s' c' \<and> scheduled s s'"
proof -
  note d = q_ofD [OF ok q]
  note grp = evt_bm_nonempty [OF kernel_okD(1) [OF ok], of e]
  show ?thesis
  proof (cases "opt AND OS_POST_OPT_BROADCAST = 0")
    case True
    obtain t s' c' where "OSQPost e m s = Some (OS_ERR_NONE, s')" "first_waiter s e t"
        "readies s e m OS_STAT_PEND_OK {t} s'" "kernel_ok s' c'" "scheduled s s'"
      using OSQPost_ok(1) [OF ok q ne] by blast
    moreover have "OSQPostOpt e m opt s = OSQPost e m s"
      using True opt ne grp by (simp add: OSQPostOpt_def OSQPost_def d)
    ultimately show ?thesis using True by (intro exI [of _ s'] exI [of _ c'] exI [of _ "{t}"]) simp
  next
    case False
    obtain s1 where r: "event_rdy_all e m (emask s e) OS_STAT_PEND_OK 0 s = Some (0 + of_nat (card (waiters s e)), s1)"
      "readies s e m OS_STAT_PEND_OK (all_waiters s e) s1" "base_ok s1 c" "wq_frame s s1"
      using rdy_every [OF kernel_ok_base [OF ok] d(2)] by blast
    obtain s' c' where s': "OS_Sched s1 = Some s'" "sw_frame s1 s'" "kernel_ok s' c'"
      "if unlocked s1 then highest_runs s' else s' = s1 \<and> c' = c"
      using OS_Sched_base [OF r(3)] by blast
    have "OSQPostOpt e m opt s = Some (OS_ERR_NONE, s')"
      using ne grp s'(1) r(1) False opt by (simp add: OSQPostOpt_def d)
    then show ?thesis
      using False readies_sw [OF r(2) s'(2)] s' unlocked_wq [OF r(4)]
      by (intro exI [of _ s'] exI [of _ c'] exI [of _ "all_waiters s e"]) (simp add: scheduled_def)
  qed
qed

lemma q_get_holds:
  assumes ok: "kernel_ok s c" and q: "q_of s e q" and ne: "q_list s q \<noteq> []"
  shows "fst (q_get q s) = hd (q_list s q)" "q_holds s q (tl (q_list s q)) (snd (q_get q s))" "kernel_ok (snd (q_get q s)) c"
proof -
  note d = q_ofD [OF ok q]
  have n: "OSQEntries (OSQTbl s q) > 0" using d(8) ne by simp
  show "fst (q_get q s) = hd (q_list s q)" by (rule q_get_ok(1) [OF d(6) n])
  show "q_holds s q (tl (q_list s q)) (snd (q_get q s))"
    using q_get_change [OF d(6) n] q_get_ok [OF d(6) n] by (simp add: q_holds_def)
  show "kernel_ok (snd (q_get q s)) c"
    by (rule kernel_ok_q_change [OF ok q q_get_change [OF d(6) n]])
      (use no_waiters [OF ok, of e] d(7) ne in simp)
qed

lemma OSQPend_ok:
  assumes ok: "kernel_ok s c" and mb: "may_block s c" and q: "q_of s e q"
  shows "q_list s q \<noteq> [] \<Longrightarrow> \<exists>s'. OSQPend e timeout s = Some (Returns (hd (q_list s q), OS_ERR_NONE), s') \<and>
      q_holds s q (tl (q_list s q)) s' \<and> kernel_ok s' c"
    and "q_list s q = [] \<Longrightarrow> \<exists>s' c'. OSQPend e timeout s = Some (Blocks, s') \<and> blocks s c e timeout s' \<and>
      kernel_ok s' c' \<and> highest_runs s' \<and> c' \<noteq> c"
proof -
  note d = q_ofD [OF ok q]
  note k = kernel_okD [OF ok]
  have ul: "unlocked s" using mb by (simp add: may_block_def)
  have ctr: "OSIntNesting s = 0" "OSLockNesting s = 0" using ul by (simp_all add: unlocked_def)
  show "\<exists>s'. OSQPend e timeout s = Some (Returns (hd (q_list s q), OS_ERR_NONE), s') \<and>
      q_holds s q (tl (q_list s q)) s' \<and> kernel_ok s' c" if ne: "q_list s q \<noteq> []"
    using q_get_holds [OF ok q ne] ne ctr d by (simp add: OSQPend_def Let_def)
  show "\<exists>s' c'. OSQPend e timeout s = Some (Blocks, s') \<and> blocks s c e timeout s' \<and>
      kernel_ok s' c' \<and> highest_runs s' \<and> c' \<noteq> c" if "q_list s q = []"
    using that pend_first [OF kernel_ok_base [OF ok] k(10) [OF ul] ul, of e timeout] mb ctr d
    by (auto simp: OSQPend_def may_block_def)
qed

lemma q_of_exists:
  assumes "kernel_ok s c" "e < OS_MAX_EVENTS" "OSEventType (OSEvents s e) = OS_EVENT_TYPE_Q"
  obtains q where "q_of s e q"
  using kernel_okD(9) [OF assms(1)] assms(2,3) by (auto simp: obj_inv_def q_inv_def)

interpretation queue: sync_object OSQPend OSQPost "\<lambda>m. m" OS_EVENT_TYPE_Q
proof
  fix s c e timeout
  assume *: "kernel_ok s c" "may_block s c" "e < OS_MAX_EVENTS" "OSEventType (OSEvents s e) = OS_EVENT_TYPE_Q" "\<not> avail s e"
  obtain q where q: "q_of s e q" by (rule q_of_exists [OF *(1,3,4)])
  show "\<exists>s' c'. OSQPend e timeout s = Some (Blocks, s') \<and> blocks s c e timeout s' \<and> kernel_ok s' c' \<and> highest_runs s' \<and> c' \<noteq> c"
    using OSQPend_ok(2) [OF *(1,2) q] q_ofD(7) [OF *(1) q] *(5) by blast
next
  fix s c e m
  assume *: "kernel_ok s c" "e < OS_MAX_EVENTS" "OSEventType (OSEvents s e) = OS_EVENT_TYPE_Q" "waiters s e \<noteq> {}"
  obtain q where q: "q_of s e q" by (rule q_of_exists [OF *(1-3)])
  show "\<exists>t s' c'. OSQPost e m s = Some (OS_ERR_NONE, s') \<and> first_waiter s e t \<and>
      readies s e m OS_STAT_PEND_OK {t} s' \<and> kernel_ok s' c' \<and> scheduled s s'"
    using OSQPost_ok(1) [OF *(1) q *(4)] .
qed

lemma OSQAccept_ok:
  assumes ok: "kernel_ok s c" and q: "q_of s e q"
  shows "q_list s q \<noteq> [] \<Longrightarrow> \<exists>s'. OSQAccept e s = Some (hd (q_list s q), OS_ERR_NONE, s') \<and>
      q_holds s q (tl (q_list s q)) s' \<and> kernel_ok s' c"
    and "q_list s q = [] \<Longrightarrow> OSQAccept e s = Some (VNull, OS_ERR_Q_EMPTY, s)"
proof -
  note d = q_ofD [OF ok q]
  show "\<exists>s'. OSQAccept e s = Some (hd (q_list s q), OS_ERR_NONE, s') \<and> q_holds s q (tl (q_list s q)) s' \<and> kernel_ok s' c"
    if ne: "q_list s q \<noteq> []"
    using q_get_holds [OF ok q ne] ne d by (simp add: OSQAccept_def Let_def)
  show "OSQAccept e s = Some (VNull, OS_ERR_Q_EMPTY, s)" if "q_list s q = []"
    using that d by (simp add: OSQAccept_def)
qed

lemma OSQFlush_ok:
  assumes ok: "kernel_ok s c" and q: "q_of s e q"
  shows "\<exists>s'. OSQFlush e s = Some (OS_ERR_NONE, s') \<and> q_holds s q [] s' \<and> kernel_ok s' c"
proof -
  note d = q_ofD [OF ok q]
  let ?f = "\<lambda>p. p\<lparr>OSQIn := OSQStart p, OSQOut := OSQStart p, OSQEntries := 0\<rparr>"
  let ?s = "upd_q q ?f s"
  have qk: "q_ok (?f (OSQTbl s q))"
    using d(6) by (auto simp: q_ok_def unat_gt_0)
  have ch: "q_change s q ?s"
    by (rule q_changeI [where mem = "OSMsgMem s", OF _ qk]) (simp_all add: upd_q_def)
  have "q_holds s q [] ?s" using ch by (simp add: q_holds_def q_list_def Let_def)
  moreover have "kernel_ok ?s c"
    by (rule kernel_ok_q_change [OF ok q ch]) simp
  ultimately show ?thesis by (simp add: OSQFlush_def d)
qed

lemma OSQPendAbort_ok:
  assumes ok: "kernel_ok s c" and q: "q_of s e q"
  shows "waiters s e = {} \<Longrightarrow> OSQPendAbort e opt s = Some (0, OS_ERR_NONE, s)"
    and "waiters s e \<noteq> {} \<Longrightarrow> \<exists>s' c' T. OSQPendAbort e opt s = Some (of_nat (card T), OS_ERR_PEND_ABORT, s') \<and>
      readies s e VNull OS_STAT_PEND_ABORT T s' \<and>
      (if opt = OS_PEND_OPT_BROADCAST then T = all_waiters s e else \<exists>t. T = {t} \<and> first_waiter s e t) \<and>
      kernel_ok s' c' \<and> scheduled s s'"
proof -
  note d = q_ofD [OF ok q]
  have eq: "OSQPendAbort e opt s = pend_abort (emask s e) e opt s"
    by (simp add: OSQPendAbort_def d)
  show "waiters s e = {} \<Longrightarrow> OSQPendAbort e opt s = Some (0, OS_ERR_NONE, s)"
    unfolding eq by (rule pend_abort_ok(1) [OF kernel_ok_base [OF ok] d(2)])
  show "waiters s e \<noteq> {} \<Longrightarrow> \<exists>s' c' T. OSQPendAbort e opt s = Some (of_nat (card T), OS_ERR_PEND_ABORT, s') \<and>
      readies s e VNull OS_STAT_PEND_ABORT T s' \<and>
      (if opt = OS_PEND_OPT_BROADCAST then T = all_waiters s e else \<exists>t. T = {t} \<and> first_waiter s e t) \<and>
      kernel_ok s' c' \<and> scheduled s s'"
    unfolding eq by (rule pend_abort_ok(2) [OF kernel_ok_base [OF ok] d(2)])
qed

subsection \<open>Creation and deletion\<close>

text \<open>A free queue control block taken into use by an event.\<close>

definition q_init :: "nat \<Rightarrow> nat \<Rightarrow> u16 \<Rightarrow> os \<Rightarrow> os" where
  "q_init q start qsize s = upd_q q (\<lambda>p. p\<lparr>OSQStart := start, OSQEnd := start + unat qsize, OSQIn := start,
     OSQOut := start, OSQSize := qsize, OSQEntries := 0\<rparr>) (s\<lparr>OSQFreeList := OSQPtr (OSQTbl s q)\<rparr>)"

lemma q_init_sel:
  "OSTCBTbl (q_init q st n s) = OSTCBTbl s" "OSTCBPrioTbl (q_init q st n s) = OSTCBPrioTbl s" "rdy_bm (q_init q st n s) = rdy_bm s"
  "OSTCBCur (q_init q st n s) = OSTCBCur s" "OSPrioCur (q_init q st n s) = OSPrioCur s" "OSTCBList (q_init q st n s) = OSTCBList s"
  "OSTCBFreeList (q_init q st n s) = OSTCBFreeList s" "OSEvents (q_init q st n s) = OSEvents s"
  "OSEventFreeList (q_init q st n s) = OSEventFreeList s" "OSMsgMem (q_init q st n s) = OSMsgMem s" "OSTime (q_init q st n s) = OSTime s"
  "unlocked (q_init q st n s) = unlocked s" "OSQFreeList (q_init q st n s) = OSQPtr (OSQTbl s q)"
  "OSQTbl (q_init q st n s) = (OSQTbl s)(q := (OSQTbl s q)\<lparr>OSQStart := st, OSQEnd := st + unat n, OSQIn := st,
     OSQOut := st, OSQSize := n, OSQEntries := 0\<rparr>)"
  by (simp_all add: q_init_def upd_q_def rdy_bm_def unlocked_def)

lemma q_init_commute: "upd_q q f (s\<lparr>OSEventFreeList := a, OSQFreeList := b\<rparr>) = (upd_q q f (s\<lparr>OSQFreeList := b\<rparr>))\<lparr>OSEventFreeList := a\<rparr>"
  by (simp add: upd_q_def)

lemma create_queue:
  fixes start :: nat and qsize :: u16
  assumes ok: "base_ok s c" and e: "OSEventFreeList s = VEvt e" "e \<in> unused s" and q: "OSQFreeList s = Some q"
  defines "s' \<equiv> event_init e OS_EVENT_TYPE_Q 0 (VQ q) (q_init q start qsize s)"
  shows "base_ok s' c" and "created s e OS_EVENT_TYPE_Q 0 (VQ q) s'" and "q_of s' e q" and "q < OS_MAX_QS"
proof -
  note d = base_okD [OF ok]
  note sel = event_init_sel [where e = e and ty = OS_EVENT_TYPE_Q and cnt = 0 and p = "VQ q" and s = "q_init q start qsize s", folded s'_def, unfolded q_init_sel]
  have mt: "waiters s e = {}"
    using d(3) e(2) by (auto simp: idle_inv_def avail_def unused_def Let_def)
  have qi: "q_inv s" "evt_free_inv s" using d(9) by (simp_all add: obj_inv_def)
  have "evt_free_inv (q_init q start qsize s)" using qi(2) by (simp add: evt_free_inv_def unused_def q_init_sel)
  note fr = event_init_free [OF this, where e = e and ty = OS_EVENT_TYPE_Q and cnt = 0 and p = "VQ q", unfolded q_init_sel(9), OF e(1), folded s'_def, simplified]
  have un: "unused (q_init q start qsize s) = unused s" by (simp add: unused_def q_init_sel)
  obtain qs where qs: "q_seg (OSQTbl s) (OSQFreeList s) qs" "distinct qs" "set qs = {i. i < OS_MAX_QS \<and> (\<nexists>e. q_of s e i)}"
    using qi(1) by (auto simp: q_inv_def)
  obtain qs' where qs': "qs = q # qs'" "q < OS_MAX_QS" "q_seg (OSQTbl s) (OSQPtr (OSQTbl s q)) qs'"
    using qs(1) q by (cases qs) auto
  have ne: "\<not> q_of s e j" for j using e(2) by (simp add: q_of_def unused_def)
  have e30: "e < OS_MAX_EVENTS" using e(2) by (simp add: unused_def)
  have qo: "q_of s' i j \<longleftrightarrow> i = e \<and> j = q \<or> q_of s i j" for i j
    using ne [of j] e30 by (cases "i = e") (auto simp: q_of_def sel)
  show "q_of s' e q" "q < OS_MAX_QS" using qo qs'(2) by simp_all
  have nq: "\<not> q_of s i q" for i using qs(3) qs'(1) by auto
  have "q_inv s'"
  proof -
    have "\<exists>j. q_of s' i j" if "i < OS_MAX_EVENTS" "OSEventType (OSEvents s' i) = OS_EVENT_TYPE_Q" for i
    proof (cases "i = e")
      case False
      then have "OSEventType (OSEvents s i) = OS_EVENT_TYPE_Q" using that(2) by (simp add: sel)
      then show ?thesis using qi(1) that(1) unfolding q_inv_def qo by blast
    qed (use qo in blast)
    moreover have "j < OS_MAX_QS \<and> q_ok (OSQTbl s' j)" if "q_of s' i j" for i j
    proof (cases "j = q")
      case True
      then show ?thesis using qs'(2) by (simp add: sel q_ok_def unat_gt_0)
    next
      case False
      then have "q_of s i j" using that qo by blast
      then show ?thesis using qi(1) False by (simp add: q_inv_def sel)
    qed
    moreover have "i = i'" if "q_of s' i j" "q_of s' i' j" for i i' j
      using that nq qi(1) unfolding qo q_inv_def by blast
    moreover have "q_seg (OSQTbl s') (OSQFreeList s') qs'"
      using qs'(3) qs(2) qs'(1) by (subst q_seg_cong [of _ _ "OSQTbl s"]) (auto simp: sel)
    moreover have "distinct qs'" using qs(2) qs'(1) by simp
    moreover have "set qs' = {i. i < OS_MAX_QS \<and> (\<nexists>e. q_of s' e i)}"
    proof -
      have "i \<in> set qs' \<longleftrightarrow> i < OS_MAX_QS \<and> (\<nexists>k. q_of s' k i)" for i
      proof (cases "i = q")
        case True
        then show ?thesis using qs(2) qs'(1) qo by auto
      next
        case False
        then have "i \<in> set qs' \<longleftrightarrow> i \<in> set qs" using qs'(1) by simp
        then show ?thesis using False qs(3) qo by auto
      qed
      then show ?thesis by blast
    qed
    ultimately show ?thesis
      unfolding q_inv_def by (intro conjI allI impI exI [of _ "qs'"]) blast+
  qed
  then have obj: "obj_inv s'" using fr(1) by (simp add: obj_inv_def)
  have qe: "OSQEntries (OSQTbl s' j) \<noteq> 0 \<Longrightarrow> OSQEntries (OSQTbl s j) \<noteq> 0" for j by (simp add: sel split: if_splits)
  note b = base_okI [OF ok sel(1-7) sel(14) mt sel(19,18) qe obj]
  show "base_ok s' c" by (rule b(1))
  show "created s e OS_EVENT_TYPE_Q 0 (VQ q) s'"
    using b(2,3) e(2) mt fr(2) un by (simp add: created_def sel)
qed

lemma OSQCreate_ok:
  assumes ok: "kernel_ok s c" and n: "OSIntNesting s = 0"
  shows "unused s = {} \<or> OSQFreeList s = None \<Longrightarrow> OSQCreate start qsize s = Some (None, s)"
    and "unused s \<noteq> {} \<Longrightarrow> OSQFreeList s = Some q \<Longrightarrow> \<exists>e s'. OSQCreate start qsize s = Some (Some e, s') \<and>
      created s e OS_EVENT_TYPE_Q 0 (VQ q) s' \<and> q_of s' e q \<and> q_list s' q = [] \<and> q_size s' q = unat qsize \<and> kernel_ok s' c"
proof -
  have obj: "obj_inv s" using kernel_okD(9) [OF ok] .
  show "OSQCreate start qsize s = Some (None, s)" if "unused s = {} \<or> OSQFreeList s = None"
  proof (rule event_alloc_cases [OF obj])
    fix e
    assume e: "OSEventFreeList s = VEvt e" "e \<in> unused s"
      "event_alloc s = Some (Some e, s\<lparr>OSEventFreeList := OSEventPtr (OSEvents s e)\<rparr>)"
    have "OSQFreeList s = None" using that e(2) by blast
    moreover have "(upd_evt e (\<lambda>ev. ev\<lparr>OSEventPtr := OSEventPtr (OSEvents s e)\<rparr>) (s\<lparr>OSEventFreeList := OSEventPtr (OSEvents s e)\<rparr>))
        \<lparr>OSEventFreeList := VEvt e\<rparr> = s"
      using e(1) by (simp add: upd_evt_def)
    ultimately show ?thesis using n e(3) by (simp add: OSQCreate_def Let_def)
  qed (use n in \<open>simp add: OSQCreate_def\<close>)
  show "\<exists>e s'. OSQCreate start qsize s = Some (Some e, s') \<and>
      created s e OS_EVENT_TYPE_Q 0 (VQ q) s' \<and> q_of s' e q \<and> q_list s' q = [] \<and> q_size s' q = unat qsize \<and> kernel_ok s' c"
    if ne: "unused s \<noteq> {}" and q: "OSQFreeList s = Some q"
  proof (rule event_alloc_cases [OF obj])
    fix e
    assume e: "OSEventFreeList s = VEvt e" "e \<in> unused s"
      "event_alloc s = Some (Some e, s\<lparr>OSEventFreeList := OSEventPtr (OSEvents s e)\<rparr>)"
    let ?s = "event_init e OS_EVENT_TYPE_Q 0 (VQ q) (q_init q start qsize s)"
    note c = create_queue(1-3) [OF kernel_ok_base [OF ok] e(1,2) q, where start = start and qsize = qsize]
    note q10 = create_queue(4) [OF kernel_ok_base [OF ok] e(1,2) q]
    have "OSQCreate start qsize s = Some (Some e, ?s)"
      using n e(3) q q10 by (simp add: OSQCreate_def Let_def event_init_def q_init_def q_init_commute) (simp add: upd_q_def)
    moreover have "kernel_ok ?s c" using c(1,2) ok by (simp add: kernel_ok_iff created_def)
    moreover have "q_list ?s q = []" "q_size ?s q = unat qsize"
      by (simp_all add: q_list_def event_init_sel q_init_sel)
    ultimately show ?thesis using c(2,3) by blast
  qed (use ne in simp)
qed

lemma q_release_ok:
  assumes ok: "base_ok s c" and q: "q_of s e q" and mt: "waiters s e = {}"
  shows "\<exists>s2. q_release e s = Some s2 \<and> base_ok s2 c \<and> released s e s2"
proof -
  note d = base_okD [OF ok]
  define s1 where "s1 = (upd_q q (\<lambda>p. p\<lparr>OSQPtr := OSQFreeList s\<rparr>) s)\<lparr>OSQFreeList := Some q\<rparr>"
  let ?s = "event_release e s1"
  have ev: "OSEvents ?s i = (if i = e then (OSEvents s e)\<lparr>OSEventName := ''?'', OSEventType := OS_EVENT_TYPE_UNUSED,
       OSEventPtr := OSEventFreeList s, OSEventCnt := 0\<rparr> else OSEvents s i)" for i
    by (simp add: event_release_evt) (simp add: s1_def upd_q_def)
  have sel: "OSTCBTbl ?s = OSTCBTbl s" "OSTCBPrioTbl ?s = OSTCBPrioTbl s" "rdy_bm ?s = rdy_bm s"
    "OSTCBCur ?s = OSTCBCur s" "OSPrioCur ?s = OSPrioCur s" "OSTCBList ?s = OSTCBList s" "OSTCBFreeList ?s = OSTCBFreeList s"
    "OSQTbl ?s = (OSQTbl s)(q := (OSQTbl s q)\<lparr>OSQPtr := OSQFreeList s\<rparr>)" "OSQFreeList ?s = Some q"
    "OSEventFreeList ?s = VEvt e" "OSMsgMem ?s = OSMsgMem s" "OSTime ?s = OSTime s" "unlocked ?s = unlocked s"
    by (simp_all add: event_release_def s1_def upd_q_def rdy_bm_def upd_evt_def unlocked_def)
  have qi: "q_inv s" "evt_free_inv s" using d(9) by (simp_all add: obj_inv_def)
  have q10: "q < OS_MAX_QS" using qi(1) q by (simp add: q_inv_def)
  have e30: "e < OS_MAX_EVENTS" "OSEventType (OSEvents s e) = OS_EVENT_TYPE_Q" "OSEventPtr (OSEvents s e) = VQ q"
    using q by (simp_all add: q_of_def)
  have "evt_free_inv s1" using qi(2) by (simp add: evt_free_inv_def unused_def s1_def upd_q_def)
  then have "evt_free_inv ?s"
    by (rule event_release_free) (use e30 in \<open>simp_all add: s1_def upd_q_def\<close>)
  moreover have "q_inv ?s"
  proof -
    have qo: "q_of ?s i j \<longleftrightarrow> i \<noteq> e \<and> q_of s i j" for i j by (auto simp: q_of_def ev)
    have only: "q_of s i q \<longleftrightarrow> i = e" for i using qi(1) q unfolding q_inv_def by blast
    obtain qs where qs: "q_seg (OSQTbl s) (OSQFreeList s) qs" "distinct qs" "set qs = {i. i < OS_MAX_QS \<and> (\<nexists>e. q_of s e i)}"
      using qi(1) by (auto simp: q_inv_def)
    have nq: "q \<notin> set qs" using qs(3) q by auto
    have "q_seg (OSQTbl ?s) (OSQFreeList s) qs"
      using qs(1) nq by (subst q_seg_cong [of _ _ "OSQTbl s"]) (auto simp: sel)
    then have "q_seg (OSQTbl ?s) (OSQFreeList ?s) (q # qs)" using q10 by (simp add: sel)
    moreover have "set (q # qs) = {i. i < OS_MAX_QS \<and> (\<nexists>e. q_of ?s e i)}"
    proof -
      have "i \<in> set (q # qs) \<longleftrightarrow> i < OS_MAX_QS \<and> (\<nexists>e. q_of ?s e i)" for i
      proof (cases "i = q")
        case False
        then have "\<not> q_of s e i" using e30 by (simp add: q_of_def)
        then have "q_of ?s k i \<longleftrightarrow> q_of s k i" for k unfolding qo by blast
        then show ?thesis using False by (simp add: qs(3))
      qed (use q10 only in \<open>simp add: qo\<close>)
      then show ?thesis by blast
    qed
    moreover have "\<exists>j. q_of ?s i j" if "i < OS_MAX_EVENTS" "OSEventType (OSEvents ?s i) = OS_EVENT_TYPE_Q" for i
    proof -
      have "i \<noteq> e" "OSEventType (OSEvents s i) = OS_EVENT_TYPE_Q" using that(2) by (auto simp: ev split: if_splits)
      then show ?thesis using qi(1) that(1) by (simp add: q_inv_def qo)
    qed
    moreover have "j < OS_MAX_QS \<and> q_ok (OSQTbl ?s j)" if "q_of ?s i j" for i j
    proof -
      have "q_of s i j" "i \<noteq> e" using that by (simp_all add: qo)
      moreover from this have "j \<noteq> q" using only by blast
      ultimately show ?thesis using qi(1) by (simp add: q_inv_def sel)
    qed
    moreover have "i = i'" if "q_of ?s i j" "q_of ?s i' j" for i i' j
    proof -
      have "q_of s i j" "q_of s i' j" using that by (simp_all add: qo)
      then show ?thesis using qi(1) unfolding q_inv_def by blast
    qed
    moreover have "distinct (q # qs)" using qs(2) nq by simp
    ultimately show ?thesis
      unfolding q_inv_def by (intro conjI allI impI exI [of _ "q # qs"]) blast+
  qed
  ultimately have obj: "obj_inv ?s" by (simp add: obj_inv_def)
  have oth: "i \<noteq> e \<Longrightarrow> OSEvents ?s i = OSEvents s i" for i by (simp add: ev)
  have bmeq: "evt_bm (OSEvents ?s e) = evt_bm (OSEvents s e)" by (simp add: ev evt_bm_def)
  have bo: "bm_ok (evt_bm (OSEvents ?s e))" by (simp add: bmeq sched_invD(2) [OF d(1)])
  have wt: "waiters ?s e = {}" using mt by (simp add: waiters_def bmeq)
  have qe: "OSQEntries (OSQTbl ?s j) \<noteq> 0 \<Longrightarrow> OSQEntries (OSQTbl s j) \<noteq> 0" for j by (simp add: sel split: if_splits)
  note b = base_okI [OF ok sel(1-7) oth mt bo wt qe obj]
  have "released s e ?s" using b(2,3) sel by (simp add: released_def ev)
  moreover have "q_release e s = Some ?s"
    using q10 e30 by (simp add: q_release_def deref_q_def Let_def s1_def)
  ultimately show ?thesis using b(1) by blast
qed

lemma OSQDel_ok:
  assumes ok: "kernel_ok s c" and q: "q_of s e q" and n: "OSIntNesting s = 0"
  shows "opt = OS_DEL_NO_PEND \<Longrightarrow> waiters s e \<noteq> {} \<Longrightarrow> OSQDel e opt s = Some (Some e, OS_ERR_TASK_WAITING, s)"
    and "opt = OS_DEL_NO_PEND \<and> waiters s e = {} \<or> opt = OS_DEL_ALWAYS \<Longrightarrow>
      \<exists>s' c'. OSQDel e opt s = Some (None, OS_ERR_NONE, s') \<and> deletes s e s' \<and> kernel_ok s' c' \<and>
        (waiters s e \<noteq> {} \<longrightarrow> scheduled s s')"
proof -
  note d = q_ofD [OF ok q]
  have rel: "\<exists>s2. q_release e s1 = Some s2 \<and> base_ok s2 c \<and> released s1 e s2"
    if "base_ok s1 c" "waiters s1 e = {}" "evt_rest (OSEvents s1 e) = evt_rest (OSEvents s e)" for s1
  proof -
    have "q_of s1 e q"
      using arg_cong [OF that(3), of OSEventType] arg_cong [OF that(3), of OSEventPtr] q
      by (simp add: evt_rest_def q_of_def)
    then show ?thesis using q_release_ok [OF that(1) _ that(2)] by blast
  qed
  note ed = event_del_ok [OF ok d(2), of q_release, OF rel, unfolded d(5)]
  have eq: "OSQDel e opt s = event_del OS_STAT_Q q_release e opt s"
    using n by (simp add: OSQDel_def d)
  show "opt = OS_DEL_NO_PEND \<Longrightarrow> waiters s e \<noteq> {} \<Longrightarrow> OSQDel e opt s = Some (Some e, OS_ERR_TASK_WAITING, s)"
    unfolding eq by (rule ed(1))
  show "opt = OS_DEL_NO_PEND \<and> waiters s e = {} \<or> opt = OS_DEL_ALWAYS \<Longrightarrow>
      \<exists>s' c'. OSQDel e opt s = Some (None, OS_ERR_NONE, s') \<and> deletes s e s' \<and> kernel_ok s' c' \<and>
        (waiters s e \<noteq> {} \<longrightarrow> scheduled s s')"
    unfolding eq by (rule ed(3))
qed

subsection \<open>Properties\<close>

lemma sample_q: "q_of sample 4 0" "q_of sample 5 1"
  by (simp_all add: sample_q_of)

lemma sample_q_list: "q_list sample 0 = [VMsg 9]" "q_list sample 1 = []"
  by (simp_all add: q_list_def q_cell_def sample_queues_def)

text \<open>C8: the ring buffer of a queue is a bounded double-ended list: on a well-formed ring, \<open>OSQPost\<close>'s insertion appends
  at the back, \<open>OSQPostFront\<close>'s at the front, extraction takes the front, each keeping the ring well formed and
  its size, for every position of the read and write pointers.\<close>

theorem ring_refines_list:
  assumes "q_ok (OSQTbl s q)"
  shows "(length (q_list s q) < q_size s q \<longrightarrow>
       q_ok (OSQTbl (q_put q m s) q) \<and> q_list (q_put q m s) q = q_list s q @ [m] \<and> q_size (q_put q m s) q = q_size s q) \<and>
    (length (q_list s q) < q_size s q \<longrightarrow>
       q_ok (OSQTbl (q_put_front q m s) q) \<and> q_list (q_put_front q m s) q = m # q_list s q \<and>
       q_size (q_put_front q m s) q = q_size s q) \<and>
    (q_list s q \<noteq> [] \<longrightarrow> fst (q_get q s) = hd (q_list s q) \<and> q_ok (OSQTbl (snd (q_get q s)) q) \<and>
       q_list (snd (q_get q s)) q = tl (q_list s q) \<and> q_size (snd (q_get q s)) q = q_size s q)"
  using ring.put [of s q m] ring.put_front [of s q m] ring.get [of s q] assms by blast

theorem ring_refines_list_witness: "q_list (q_put_front 0 (VMsg 1) sample) 0 = [VMsg 1, VMsg 9]"
proof -
  have "q_ok (OSQTbl sample 0)" by (simp add: q_ok_def sample_queues_def)
  moreover have "q_size sample 0 = 2" by (simp add: sample_queues_def)
  ultimately show ?thesis using ring_refines_list [of sample 0 "VMsg 1"] by (simp add: sample_q_list del: length_q_list)
qed

text \<open>Messages leave a queue in the order they were posted: after \<open>ms\<close> has been inserted into a queue with room for
  it, extracting everything gives what was there before, followed by \<open>ms\<close>.\<close>

theorem queue_is_fifo:
  assumes "q_ok (OSQTbl s q)" and "length (q_list s q) + length ms \<le> q_size s q"
  shows "ring.get_all q (length (q_list s q) + length ms) (fold (q_put q) ms s) = q_list s q @ ms"
  by (rule ring.fifo [OF assms])

theorem queue_is_fifo_witness: "ring.get_all 0 2 (fold (q_put 0) [VMsg 3] sample) = [VMsg 9, VMsg 3]"
proof -
  have "q_ok (OSQTbl sample 0)" by (simp add: q_ok_def sample_queues_def)
  moreover have "q_size sample 0 = 2" by (simp add: sample_queues_def)
  ultimately show ?thesis
    using queue_is_fifo [of sample 0 "[VMsg 3]"] by (simp add: sample_q_list numeral_2_eq_2 del: length_q_list)
qed

text \<open>C11: \<open>OSQPost\<close> on every branch: the most urgent waiter gets the message; with no waiter it is appended to the queue;
  a full queue refuses it and is unchanged.\<close>

theorem OSQPost_spec:
  assumes "kernel_ok s c" and "q_of s e q"
  shows "if waiters s e \<noteq> {} then \<exists>t s' c'. OSQPost e m s = Some (OS_ERR_NONE, s') \<and> first_waiter s e t \<and>
      readies s e m OS_STAT_PEND_OK {t} s' \<and> OSTCBMsg (OSTCBTbl s' t) = m \<and> kernel_ok s' c' \<and> scheduled s s'
    else if length (q_list s q) < q_size s q then
      \<exists>s'. OSQPost e m s = Some (OS_ERR_NONE, s') \<and> q_holds s q (q_list s q @ [m]) s' \<and> kernel_ok s' c
    else OSQPost e m s = Some (OS_ERR_Q_FULL, s)"
proof (cases "waiters s e = {}")
  case True
  have "length (q_list s q) \<le> q_size s q"
    using q_ofD(6) [OF assms] by (simp add: q_ok_def word_le_nat_alt)
  then show ?thesis using OSQPost_ok(2,3) [OF assms True, of m] True by (simp add: le_less del: length_q_list) blast
next
  case False
  obtain t s' c' where s': "OSQPost e m s = Some (OS_ERR_NONE, s')" "first_waiter s e t"
    "readies s e m OS_STAT_PEND_OK {t} s'" "kernel_ok s' c'" "scheduled s s'"
    using OSQPost_ok(1) [OF assms False] by blast
  then show ?thesis using False readies_first(2) [OF s'(3)] by auto
qed

theorem OSQPost_spec_witness:
  "\<exists>s'. OSQPost 4 (VMsg 1) sample = Some (OS_ERR_NONE, s') \<and> q_list s' 0 = [VMsg 9, VMsg 1]"
proof -
  have "q_size sample 0 = 2" by (simp add: sample_queues_def)
  then show ?thesis
    using OSQPost_spec [OF sample_kernel_ok sample_q(1), of "VMsg 1"]
    by (auto simp: sample_waiters sample_q_list q_holds_def simp del: length_q_list)
qed

text \<open>\<open>OSQPend\<close> by the running task, scheduler unlocked: the oldest message is taken and returned; on an empty queue
  exactly the caller blocks and another task runs.\<close>

theorem OSQPend_spec:
  assumes "kernel_ok s c" and "may_block s c" and "q_of s e q"
  shows "case q_list s q of
      m # ms \<Rightarrow> \<exists>s'. OSQPend e timeout s = Some (Returns (m, OS_ERR_NONE), s') \<and> q_holds s q ms s' \<and> kernel_ok s' c
    | [] \<Rightarrow> \<exists>s' c'. OSQPend e timeout s = Some (Blocks, s') \<and> blocks s c e timeout s' \<and> kernel_ok s' c' \<and> highest_runs s' \<and> c' \<noteq> c"
  using OSQPend_ok [OF assms] by (cases "q_list s q") simp_all

theorem OSQPend_spec_witness:
  "(\<exists>s'. OSQPend 4 0 sample = Some (Returns (VMsg 9, OS_ERR_NONE), s') \<and> q_list s' 0 = []) \<and>
   (\<exists>s'. OSQPend 5 0 sample = Some (Blocks, s') \<and> waiters s' 5 = {10})"
proof
  show "\<exists>s'. OSQPend 4 0 sample = Some (Returns (VMsg 9, OS_ERR_NONE), s') \<and> q_list s' 0 = []"
    using OSQPend_spec [OF sample_kernel_ok sample_may_block sample_q(1), of 0] unfolding sample_q_list
    by (auto simp: q_holds_def)
  show "\<exists>s'. OSQPend 5 0 sample = Some (Blocks, s') \<and> waiters s' 5 = {10}"
    using OSQPend_spec [OF sample_kernel_ok sample_may_block sample_q(2), of 0] sample_prio(2) unfolding sample_q_list
    by (auto simp: blocks_def sample_waiters)
qed

text \<open>Deleting a queue at task level: refused without \<open>OS_DEL_ALWAYS\<close> while tasks wait; otherwise every waiter is made
  ready with the abort status and both control blocks go back to their free lists.\<close>

theorem OSQDel_spec:
  assumes "kernel_ok s c" and "q_of s e q" and "OSIntNesting s = 0" and "opt = OS_DEL_NO_PEND \<or> opt = OS_DEL_ALWAYS"
  shows "if opt = OS_DEL_NO_PEND \<and> waiters s e \<noteq> {} then OSQDel e opt s = Some (Some e, OS_ERR_TASK_WAITING, s)
    else \<exists>s' c'. OSQDel e opt s = Some (None, OS_ERR_NONE, s') \<and> deletes s e s' \<and> kernel_ok s' c' \<and>
      (waiters s e \<noteq> {} \<longrightarrow> scheduled s s')"
  using OSQDel_ok [OF assms(1-3), of opt] assms(4) by (cases "opt = OS_DEL_NO_PEND \<and> waiters s e \<noteq> {}") auto

theorem OSQDel_spec_witness:
  "\<exists>s'. OSQDel 4 OS_DEL_NO_PEND sample = Some (None, OS_ERR_NONE, s') \<and> OSEventFreeList s' = VEvt 4"
  using OSQDel_spec [OF sample_kernel_ok sample_q(1), of OS_DEL_NO_PEND] by (auto simp: sample_waiters deletes_def)

end
