(* ===== verification/OS_Flag.thy ===== *)
theory OS_Flag
  imports OS_Core
begin

text \<open>
  \<^verbatim>\<open>src/ucos/CORE/os_flag.c\<close>: event flag groups. The tasks that wait on a group form a doubly
  linked list of nodes; a node lives on the stack of the task that waits and is named by it.
\<close>

subsection \<open>Groups, nodes, and the test of a wait condition\<close>

definition flag_grp :: "os \<Rightarrow> nat \<Rightarrow> os_flag_grp option" where
  "flag_grp s g = (if g < OS_MAX_FLAGS then Some (OSFlagTbl s g) else None)"

definition upd_grp :: "nat \<Rightarrow> (os_flag_grp \<Rightarrow> os_flag_grp) \<Rightarrow> os \<Rightarrow> os" where
  "upd_grp g f s = s\<lparr>OSFlagTbl := (OSFlagTbl s)(g := f (OSFlagTbl s g))\<rparr>"

definition upd_node :: "nat \<Rightarrow> (os_flag_node \<Rightarrow> os_flag_node) \<Rightarrow> os \<Rightarrow> os" where
  "upd_node n f s = s\<lparr>OSFlagNodes := (OSFlagNodes s)(n := f (OSFlagNodes s n))\<rparr>"

text \<open>\<open>(OS_FLAG_NODE *)pgrp->OSFlagWaitList\<close>\<close>

definition node_of :: "wptr \<Rightarrow> nat option option" where
  "node_of p = (case p of WNull \<Rightarrow> Some None | WNode n \<Rightarrow> Some (Some n) | WGrp _ \<Rightarrow> None)"

definition wptr_of :: "nat option \<Rightarrow> wptr" where
  "wptr_of p = (case p of None \<Rightarrow> WNull | Some n \<Rightarrow> WNode n)"

text \<open>The four cases of the \<open>switch (wait_type)\<close>: the flags found, and whether the condition holds.\<close>

definition flag_test :: "u8 \<Rightarrow> u16 \<Rightarrow> u16 \<Rightarrow> (u16 \<times> bool) option" where
  "flag_test wait_type cur flags =
     (if wait_type = OS_FLAG_WAIT_SET_ALL then let r = cur AND flags in Some (r, r = flags)
      else if wait_type = OS_FLAG_WAIT_SET_ANY then let r = cur AND flags in Some (r, r \<noteq> 0)
      else if wait_type = OS_FLAG_WAIT_CLR_ALL then let r = NOT cur AND flags in Some (r, r = flags)
      else if wait_type = OS_FLAG_WAIT_CLR_ANY then let r = NOT cur AND flags in Some (r, r \<noteq> 0)
      else None)"

definition flag_consume :: "u8 \<Rightarrow> u16 \<Rightarrow> u16 \<Rightarrow> u16" where
  "flag_consume wait_type flags_rdy cur =
     (if wait_type = OS_FLAG_WAIT_SET_ALL \<or> wait_type = OS_FLAG_WAIT_SET_ANY then cur AND NOT flags_rdy
      else cur OR flags_rdy)"

subsection \<open>Waiting and being readied\<close>

definition OS_FlagBlock :: "nat \<Rightarrow> u16 \<Rightarrow> u8 \<Rightarrow> u32 \<Rightarrow> os \<Rightarrow> os option" where
  "OS_FlagBlock g flags wait_type timeout s = do {
     cur \<leftarrow> deref_tcb (OSTCBCur s);
     grp \<leftarrow> flag_grp s g;
     next' \<leftarrow> node_of (OSFlagWaitList grp);
     let s1 = upd_tcb cur (\<lambda>c. c\<lparr>OSTCBStat := OSTCBStat c OR OS_STAT_FLAG, OSTCBStatPend := OS_STAT_PEND_OK,
                OSTCBDly := timeout, OSTCBFlagNode := Some cur\<rparr>) s;
     let s2 = upd_node cur (\<lambda>_. \<lparr>OSFlagNodeNext = next', OSFlagNodePrev = None, OSFlagNodeTCB = cur,
                OSFlagNodeFlagGrp = g, OSFlagNodeFlags = flags, OSFlagNodeWaitType = wait_type\<rparr>) s1;
     let s3 = (case next' of None \<Rightarrow> s2 | Some n \<Rightarrow> upd_node n (\<lambda>k. k\<lparr>OSFlagNodePrev := Some cur\<rparr>) s2);
     Some (rdy_del cur (upd_grp g (\<lambda>gr. gr\<lparr>OSFlagWaitList := WNode cur\<rparr>) s3))
   }"

definition OS_FlagUnlink :: "nat \<Rightarrow> os \<Rightarrow> os option" where
  "OS_FlagUnlink n s =
     (let k = OSFlagNodes s n; prev = OSFlagNodePrev k; next' = OSFlagNodeNext k in do {
        s1 \<leftarrow> (case prev of
           None \<Rightarrow> (if OSFlagNodeFlagGrp k < OS_MAX_FLAGS
                    then let s1 = upd_grp (OSFlagNodeFlagGrp k) (\<lambda>gr. gr\<lparr>OSFlagWaitList := wptr_of next'\<rparr>) s
                         in Some (case next' of None \<Rightarrow> s1 | Some m \<Rightarrow> upd_node m (\<lambda>k. k\<lparr>OSFlagNodePrev := None\<rparr>) s1)
                    else None)
         | Some p \<Rightarrow> (let s1 = upd_node p (\<lambda>k. k\<lparr>OSFlagNodeNext := next'\<rparr>) s
                     in Some (case next' of None \<Rightarrow> s1 | Some m \<Rightarrow> upd_node m (\<lambda>k. k\<lparr>OSFlagNodePrev := prev\<rparr>) s1)));
        t \<leftarrow> deref_tcb (TPtr (OSFlagNodeTCB k));
        Some (upd_tcb t (\<lambda>c. c\<lparr>OSTCBFlagNode := None\<rparr>) s1)
      })"

definition OS_FlagTaskRdy :: "nat \<Rightarrow> u16 \<Rightarrow> u8 \<Rightarrow> os \<Rightarrow> (bool \<times> os) option" where
  "OS_FlagTaskRdy n flags_rdy pend_stat s = do {
     t \<leftarrow> deref_tcb (TPtr (OSFlagNodeTCB (OSFlagNodes s n)));
     let s1 = upd_tcb t (\<lambda>c. c\<lparr>OSTCBDly := 0, OSTCBFlagsRdy := flags_rdy,
                OSTCBStat := OSTCBStat c AND NOT OS_STAT_FLAG, OSTCBStatPend := pend_stat\<rparr>) s;
     let sched = (OSTCBStat (OSTCBTbl s1 t) = OS_STAT_RDY);
     let s2 = (if sched then rdy_ins t s1 else s1);
     s3 \<leftarrow> OS_FlagUnlink n s2;
     Some (sched, s3)
   }"

subsection \<open>The services\<close>

text \<open>Results: flags, error code, state.\<close>

definition OSFlagAccept :: "nat \<Rightarrow> u16 \<Rightarrow> u8 \<Rightarrow> os \<Rightarrow> (u16 \<times> u8 \<times> os) option" where
  "OSFlagAccept g flags wait_type s = do {
     grp \<leftarrow> flag_grp s g;
     if OSFlagType grp \<noteq> OS_EVENT_TYPE_FLAG then Some (0, OS_ERR_EVENT_TYPE, s)
     else do {
       let consume = (wait_type AND OS_FLAG_CONSUME \<noteq> 0);
       let wt = (if consume then wait_type AND NOT OS_FLAG_CONSUME else wait_type);
       case flag_test wt (OSFlagFlags grp) flags of
         None \<Rightarrow> Some (0, OS_ERR_FLAG_WAIT_TYPE, s)
       | Some (flags_rdy, ok) \<Rightarrow>
           if ok
           then Some (flags_rdy, OS_ERR_NONE,
             if consume then upd_grp g (\<lambda>gr. gr\<lparr>OSFlagFlags := flag_consume wt flags_rdy (OSFlagFlags gr)\<rparr>) s else s)
           else Some (flags_rdy, OS_ERR_FLAG_NOT_RDY, s)
     }
   }"

definition OSFlagCreate :: "u16 \<Rightarrow> os \<Rightarrow> (nat option \<times> u8 \<times> os) option" where
  "OSFlagCreate flags s =
     (if OSIntNesting s > 0 then Some (None, OS_ERR_CREATE_ISR, s)
      else case OSFlagFreeList s of
        WNull \<Rightarrow> Some (None, OS_ERR_FLAG_GRP_DEPLETED, s)
      | WNode _ \<Rightarrow> None
      | WGrp g \<Rightarrow> do {
          grp \<leftarrow> flag_grp s g;
          let s1 = s\<lparr>OSFlagFreeList := OSFlagWaitList grp\<rparr>;
          Some (Some g, OS_ERR_NONE, upd_grp g (\<lambda>gr. gr\<lparr>OSFlagType := OS_EVENT_TYPE_FLAG, OSFlagFlags := flags,
            OSFlagWaitList := WNull, OSFlagName := ''?''\<rparr>) s1)
        })"

definition flag_release :: "nat \<Rightarrow> os \<Rightarrow> os" where
  "flag_release g s = (upd_grp g (\<lambda>gr. gr\<lparr>OSFlagName := ''?'', OSFlagType := OS_EVENT_TYPE_UNUSED,
     OSFlagWaitList := OSFlagFreeList s, OSFlagFlags := 0\<rparr>) s)\<lparr>OSFlagFreeList := WGrp g\<rparr>"

partial_function (option) flag_abort_all :: "nat option \<Rightarrow> os \<Rightarrow> os option" where
  "flag_abort_all p s = (case p of
     None \<Rightarrow> Some s
   | Some n \<Rightarrow> do {
       r \<leftarrow> OS_FlagTaskRdy n 0 OS_STAT_PEND_ABORT s;
       flag_abort_all (OSFlagNodeNext (OSFlagNodes (snd r) n)) (snd r)
     })"

definition OSFlagDel :: "nat \<Rightarrow> u8 \<Rightarrow> os \<Rightarrow> (nat option \<times> u8 \<times> os) option" where
  "OSFlagDel g opt s =
     (if OSIntNesting s > 0 then Some (Some g, OS_ERR_DEL_ISR, s)
      else do {
        grp \<leftarrow> flag_grp s g;
        if OSFlagType grp \<noteq> OS_EVENT_TYPE_FLAG then Some (Some g, OS_ERR_EVENT_TYPE, s)
        else do {
          let tasks_waiting = (OSFlagWaitList grp \<noteq> WNull);
          if opt = OS_DEL_NO_PEND
          then if \<not> tasks_waiting then Some (None, OS_ERR_NONE, flag_release g s)
               else Some (Some g, OS_ERR_TASK_WAITING, s)
          else if opt = OS_DEL_ALWAYS
          then do {
            n \<leftarrow> node_of (OSFlagWaitList grp);
            s1 \<leftarrow> flag_abort_all n s;
            let s2 = flag_release g s1;
            s3 \<leftarrow> (if tasks_waiting then OS_Sched s2 else Some s2);
            Some (None, OS_ERR_NONE, s3)
          }
          else Some (Some g, OS_ERR_INVALID_OPT, s)
        }
      })"

definition OSFlagNameGet :: "nat \<Rightarrow> os \<Rightarrow> (u8 \<times> string option \<times> u8) option" where
  "OSFlagNameGet g s = (if OSIntNesting s > 0 then Some (0, None, OS_ERR_NAME_GET_ISR)
     else do {
       grp \<leftarrow> flag_grp s g;
       if OSFlagType grp \<noteq> OS_EVENT_TYPE_FLAG then Some (0, None, OS_ERR_EVENT_TYPE)
       else Some (OS_StrLen (OSFlagName grp), Some (OSFlagName grp), OS_ERR_NONE)
     })"

definition OSFlagNameSet :: "nat \<Rightarrow> string \<Rightarrow> os \<Rightarrow> (u8 \<times> os) option" where
  "OSFlagNameSet g pname s = (if OSIntNesting s > 0 then Some (OS_ERR_NAME_SET_ISR, s)
     else do {
       grp \<leftarrow> flag_grp s g;
       if OSFlagType grp \<noteq> OS_EVENT_TYPE_FLAG then Some (OS_ERR_EVENT_TYPE, s)
       else Some (OS_ERR_NONE, upd_grp g (\<lambda>gr. gr\<lparr>OSFlagName := pname\<rparr>) s)
     })"

text \<open>\<open>OSFlagPend\<close> up to the call of the scheduler; the wait type is known to be valid when it blocks.\<close>

definition OSFlagPend :: "nat \<Rightarrow> u16 \<Rightarrow> u8 \<Rightarrow> u32 \<Rightarrow> os \<Rightarrow> ((u16 \<times> u8) pended \<times> os) option" where
  "OSFlagPend g flags wait_type timeout s =
     (if OSIntNesting s > 0 then Some (Returns (0, OS_ERR_PEND_ISR), s)
      else if OSLockNesting s > 0 then Some (Returns (0, OS_ERR_PEND_LOCKED), s)
      else do {
        grp \<leftarrow> flag_grp s g;
        if OSFlagType grp \<noteq> OS_EVENT_TYPE_FLAG then Some (Returns (0, OS_ERR_EVENT_TYPE), s)
        else do {
          let consume = (wait_type AND OS_FLAG_CONSUME \<noteq> 0);
          let wt = (if consume then wait_type AND NOT OS_FLAG_CONSUME else wait_type);
          case flag_test wt (OSFlagFlags grp) flags of
            None \<Rightarrow> Some (Returns (0, OS_ERR_FLAG_WAIT_TYPE), s)
          | Some (flags_rdy, ok) \<Rightarrow>
              if ok
              then do {
                let s1 = (if consume
                          then upd_grp g (\<lambda>gr. gr\<lparr>OSFlagFlags := flag_consume wt flags_rdy (OSFlagFlags gr)\<rparr>) s else s);
                cur \<leftarrow> deref_tcb (OSTCBCur s1);
                Some (Returns (flags_rdy, OS_ERR_NONE), upd_tcb cur (\<lambda>c. c\<lparr>OSTCBFlagsRdy := flags_rdy\<rparr>) s1)
              }
              else do {
                s1 \<leftarrow> OS_FlagBlock g flags wt timeout s;
                s2 \<leftarrow> OS_Sched s1;
                Some (Blocks, s2)
              }
        }
      })"

text \<open>From the scheduler's return on; \<open>wait_type\<close> is the argument of the call.\<close>

definition OSFlagPend_resume :: "nat \<Rightarrow> u8 \<Rightarrow> os \<Rightarrow> (u16 \<times> u8 \<times> os) option" where
  "OSFlagPend_resume g wait_type s = do {
     cur \<leftarrow> deref_tcb (OSTCBCur s);
     let pend_stat = OSTCBStatPend (OSTCBTbl s cur);
     if pend_stat \<noteq> OS_STAT_PEND_OK
     then do {
       s1 \<leftarrow> OS_FlagUnlink cur (upd_tcb cur (\<lambda>c. c\<lparr>OSTCBStatPend := OS_STAT_PEND_OK\<rparr>) s);
       Some (0, if pend_stat = OS_STAT_PEND_ABORT then OS_ERR_PEND_ABORT else OS_ERR_TIMEOUT,
         upd_tcb cur (\<lambda>c. c\<lparr>OSTCBStat := OS_STAT_RDY\<rparr>) s1)
     }
     else do {
       let flags_rdy = OSTCBFlagsRdy (OSTCBTbl s cur);
       let consume = (wait_type AND OS_FLAG_CONSUME \<noteq> 0);
       let wt = (if consume then wait_type AND NOT OS_FLAG_CONSUME else wait_type);
       if consume
       then do {
         _ \<leftarrow> flag_grp s g;
         if wt \<le> 3
         then Some (flags_rdy, OS_ERR_NONE, upd_grp g (\<lambda>gr. gr\<lparr>OSFlagFlags := flag_consume wt flags_rdy (OSFlagFlags gr)\<rparr>) s)
         else Some (0, OS_ERR_FLAG_WAIT_TYPE, s)
       }
       else Some (flags_rdy, OS_ERR_NONE, s)
     }
   }"

definition OSFlagPendGetFlagsRdy :: "os \<Rightarrow> u16 option" where
  "OSFlagPendGetFlagsRdy s = do {
     cur \<leftarrow> deref_tcb (OSTCBCur s);
     Some (OSTCBFlagsRdy (OSTCBTbl s cur))
   }"

text \<open>The walk of \<open>OSFlagPost\<close> over the waiting nodes: whether it reached the end, and whether a task
  became ready.\<close>

partial_function (option) flag_post_walk :: "nat \<Rightarrow> nat option \<Rightarrow> bool \<Rightarrow> os \<Rightarrow> (bool \<times> bool \<times> os) option" where
  "flag_post_walk g p sched s = (case p of
     None \<Rightarrow> Some (True, sched, s)
   | Some n \<Rightarrow> (let k = OSFlagNodes s n in
       case flag_test (OSFlagNodeWaitType k) (OSFlagFlags (OSFlagTbl s g)) (OSFlagNodeFlags k) of
         None \<Rightarrow> Some (False, sched, s)
       | Some r \<Rightarrow>
           if snd r
           then do {
             q \<leftarrow> OS_FlagTaskRdy n (fst r) OS_STAT_PEND_OK s;
             flag_post_walk g (OSFlagNodeNext (OSFlagNodes (snd q) n)) (sched \<or> fst q) (snd q)
           }
           else flag_post_walk g (OSFlagNodeNext k) sched s))"

definition OSFlagPost :: "nat \<Rightarrow> u16 \<Rightarrow> u8 \<Rightarrow> os \<Rightarrow> (u16 \<times> u8 \<times> os) option" where
  "OSFlagPost g flags opt s = do {
     grp \<leftarrow> flag_grp s g;
     if OSFlagType grp \<noteq> OS_EVENT_TYPE_FLAG then Some (0, OS_ERR_EVENT_TYPE, s)
     else if opt \<noteq> OS_FLAG_CLR \<and> opt \<noteq> OS_FLAG_SET then Some (0, OS_ERR_FLAG_INVALID_OPT, s)
     else do {
       let s1 = (if opt = OS_FLAG_CLR
                 then upd_grp g (\<lambda>gr. gr\<lparr>OSFlagFlags := OSFlagFlags gr AND NOT flags\<rparr>) s
                 else upd_grp g (\<lambda>gr. gr\<lparr>OSFlagFlags := OSFlagFlags gr OR flags\<rparr>) s);
       n \<leftarrow> node_of (OSFlagWaitList grp);
       r \<leftarrow> flag_post_walk g n False s1;
       if \<not> fst r then Some (0, OS_ERR_FLAG_WAIT_TYPE, snd (snd r))
       else do {
         s3 \<leftarrow> (if fst (snd r) then OS_Sched (snd (snd r)) else Some (snd (snd r)));
         Some (OSFlagFlags (OSFlagTbl s3 g), OS_ERR_NONE, s3)
       }
     }
   }"

definition OSFlagQuery :: "nat \<Rightarrow> os \<Rightarrow> (u16 \<times> u8) option" where
  "OSFlagQuery g s = do {
     grp \<leftarrow> flag_grp s g;
     if OSFlagType grp \<noteq> OS_EVENT_TYPE_FLAG then Some (0, OS_ERR_EVENT_TYPE)
     else Some (OSFlagFlags grp, OS_ERR_NONE)
   }"

definition OS_FlagInit :: "os \<Rightarrow> os" where
  "OS_FlagInit s = s\<lparr>OSFlagTbl := (\<lambda>g. if g < OS_MAX_FLAGS
       then \<lparr>OSFlagType = OS_EVENT_TYPE_UNUSED, OSFlagWaitList = (if g < OS_MAX_FLAGS - 1 then WGrp (g + 1) else WNull),
             OSFlagFlags = 0, OSFlagName = ''?''\<rparr>
       else OSFlagTbl s g), OSFlagFreeList := WGrp 0\<rparr>"

end
