(* ===== verification/OS_Task.thy ===== *)
theory OS_Task
  imports OS_Flag
begin

text \<open>
  \<^verbatim>\<open>src/ucos/CORE/os_task.c\<close>, with \<open>OS_TCBInit\<close> of \<^verbatim>\<open>os_core.c\<close> and the stack frame of
  \<^verbatim>\<open>src/ucos/PORT/os_cpu_c.c\<close>: creating and deleting tasks, changing priorities, suspending and
  resuming, names, registers and stack checks. The hooks of the port are empty in this
  configuration.
\<close>

subsection \<open>Stack frame\<close>

text \<open>Stack addresses are indices of 32-bit words; masking the byte address with \<open>0xFFFFFFF8\<close> makes
  the index even. \<open>ret\<close> is the address of \<open>OS_TaskReturn\<close>. The list holds the words in the order in
  which they are pushed.\<close>

definition stk_frame :: "u32 \<Rightarrow> u32 \<Rightarrow> u32 \<Rightarrow> u32 list" where
  "stk_frame ret task p_arg = [0x01000000, task, ret, 0x12121212, 0x03030303, 0x02020202, 0x01010101, p_arg,
     0xFFFFFFFD, 0x11111111, 0x10101010, 0x09090909, 0x08080808, 0x07070707, 0x06060606, 0x05050505, 0x04040404]"

fun stk_push :: "u32 list \<Rightarrow> nat \<Rightarrow> (nat \<Rightarrow> u32) \<Rightarrow> nat \<times> (nat \<Rightarrow> u32)" where
  "stk_push [] p mem = (p, mem)"
| "stk_push (w # ws) p mem = stk_push ws (p - 1) (mem(p - 1 := w))"

definition OSTaskStkInit :: "u32 \<Rightarrow> u32 \<Rightarrow> u32 \<Rightarrow> nat \<Rightarrow> os \<Rightarrow> nat \<times> os" where
  "OSTaskStkInit ret task p_arg ptos s =
     (let p = (ptos + 1) div 2 * 2; r = stk_push (stk_frame ret task p_arg) p (OSStkMem s)
      in (fst r, s\<lparr>OSStkMem := snd r\<rparr>))"

fun stk_clear :: "nat \<Rightarrow> nat \<Rightarrow> (nat \<Rightarrow> u32) \<Rightarrow> (nat \<Rightarrow> u32)" where
  "stk_clear 0 pbos mem = mem"
| "stk_clear (Suc n) pbos mem = stk_clear n (pbos + 1) (mem(pbos := 0))"

definition OS_TaskStkClr :: "nat \<Rightarrow> u32 \<Rightarrow> u16 \<Rightarrow> os \<Rightarrow> os" where
  "OS_TaskStkClr pbos stk_size opt s =
     (if opt AND OS_TASK_OPT_STK_CHK \<noteq> 0
      then if opt AND OS_TASK_OPT_STK_CLR \<noteq> 0
           then s\<lparr>OSStkMem := stk_clear (unat stk_size) pbos (OSStkMem s)\<rparr> else s
      else s)"

subsection \<open>Creation\<close>

definition OS_TCBInit :: "u8 \<Rightarrow> nat \<Rightarrow> nat \<Rightarrow> u16 \<Rightarrow> u32 \<Rightarrow> vptr \<Rightarrow> u16 \<Rightarrow> os \<Rightarrow> (u8 \<times> os) option" where
  "OS_TCBInit pr ptos pbos ident stk_size pext opt s =
     (if OSTCBFreeList s = TNull then Some (OS_ERR_TASK_NO_MORE_TCB, s)
      else do {
        t \<leftarrow> deref_tcb (OSTCBFreeList s);
        let s1 = s\<lparr>OSTCBFreeList := OSTCBNext (OSTCBTbl s t)\<rparr>;
        let s2 = upd_tcb t (\<lambda>c. c\<lparr>OSTCBStkPtr := ptos, OSTCBPrio := pr, OSTCBStat := OS_STAT_RDY,
          OSTCBStatPend := OS_STAT_PEND_OK, OSTCBDly := 0, OSTCBExtPtr := pext, OSTCBStkSize := stk_size,
          OSTCBStkBottom := pbos, OSTCBOpt := opt, OSTCBId := ident, OSTCBDelReq := OS_ERR_NONE,
          OSTCBY := drop_bit 3 pr, OSTCBX := pr AND 7, OSTCBBitY := shl1 (drop_bit 3 pr), OSTCBBitX := shl1 (pr AND 7),
          OSTCBEventPtr := None, OSTCBEventMultiPtr := None, OSTCBEventMultiRdy := None, OSTCBFlagNode := None,
          OSTCBMsg := VNull, OSTCBCtxSwCtr := 0, OSTCBCyclesStart := 0, OSTCBCyclesTot := 0, OSTCBStkBase := 0,
          OSTCBStkUsed := 0, OSTCBTaskName := ''?'',
          OSTCBRegTbl := (\<lambda>i. if i < OS_TASK_REG_TBL_SIZE then 0 else OSTCBRegTbl c i)\<rparr>) s1;
        _ \<leftarrow> prio_tbl s2 pr;
        let s3 = s2\<lparr>OSTCBPrioTbl := (OSTCBPrioTbl s2)(pr := TPtr t)\<rparr>;
        let s4 = upd_tcb t (\<lambda>c. c\<lparr>OSTCBNext := OSTCBList s3, OSTCBPrev := TNull\<rparr>) s3;
        s5 \<leftarrow> (if OSTCBList s4 \<noteq> TNull
               then do { h \<leftarrow> deref_tcb (OSTCBList s4); Some (upd_tcb h (\<lambda>c. c\<lparr>OSTCBPrev := TPtr t\<rparr>) s4) }
               else Some s4);
        let s6 = rdy_ins t (s5\<lparr>OSTCBList := TPtr t\<rparr>);
        Some (OS_ERR_NONE, s6\<lparr>OSTaskCtr := OSTaskCtr s6 + 1\<rparr>)
      })"

text \<open>What \<open>OSTaskCreate\<close> and \<open>OSTaskCreateExt\<close> do once the priority is reserved and the stack set up.\<close>

definition task_create_end :: "u8 \<Rightarrow> (u8 \<times> os) \<Rightarrow> (u8 \<times> os) option" where
  "task_create_end pr r =
     (if fst r = OS_ERR_NONE
      then do {
        s1 \<leftarrow> (if OSRunning (snd r) then OS_Sched (snd r) else Some (snd r));
        Some (OS_ERR_NONE, s1)
      }
      else Some (fst r, (snd r)\<lparr>OSTCBPrioTbl := (OSTCBPrioTbl (snd r))(pr := TNull)\<rparr>))"

definition OSTaskCreate :: "u32 \<Rightarrow> u32 \<Rightarrow> u32 \<Rightarrow> nat \<Rightarrow> u8 \<Rightarrow> os \<Rightarrow> (u8 \<times> os) option" where
  "OSTaskCreate ret task p_arg ptos pr s =
     (if OSIntNesting s > 0 then Some (OS_ERR_TASK_CREATE_ISR, s)
      else do {
        p \<leftarrow> prio_tbl s pr;
        if p = TNull
        then do {
          let s1 = s\<lparr>OSTCBPrioTbl := (OSTCBPrioTbl s)(pr := TReserved)\<rparr>;
          let r = OSTaskStkInit ret task p_arg ptos s1;
          r2 \<leftarrow> OS_TCBInit pr (fst r) 0 0 0 VNull 0 (snd r);
          task_create_end pr r2
        }
        else Some (OS_ERR_PRIO_EXIST, s)
      })"

definition OSTaskCreateExt :: "u32 \<Rightarrow> u32 \<Rightarrow> u32 \<Rightarrow> nat \<Rightarrow> u8 \<Rightarrow> u16 \<Rightarrow> nat \<Rightarrow> u32 \<Rightarrow> vptr \<Rightarrow> u16 \<Rightarrow> os \<Rightarrow>
    (u8 \<times> os) option" where
  "OSTaskCreateExt ret task p_arg ptos pr ident pbos stk_size pext opt s =
     (if OSIntNesting s > 0 then Some (OS_ERR_TASK_CREATE_ISR, s)
      else do {
        p \<leftarrow> prio_tbl s pr;
        if p = TNull
        then do {
          let s1 = s\<lparr>OSTCBPrioTbl := (OSTCBPrioTbl s)(pr := TReserved)\<rparr>;
          let r = OSTaskStkInit ret task p_arg ptos (OS_TaskStkClr pbos stk_size opt s1);
          r2 \<leftarrow> OS_TCBInit pr (fst r) pbos ident stk_size pext opt (snd r);
          task_create_end pr r2
        }
        else Some (OS_ERR_PRIO_EXIST, s)
      })"

subsection \<open>Deletion\<close>

text \<open>\<open>if (prio == OS_PRIO_SELF) prio = OSTCBCur->OSTCBPrio;\<close>\<close>

definition self_prio :: "u8 \<Rightarrow> os \<Rightarrow> u8 option" where
  "self_prio pr s = (if pr = OS_PRIO_SELF
     then do { cur \<leftarrow> deref_tcb (OSTCBCur s); Some (OSTCBPrio (OSTCBTbl s cur)) }
     else Some pr)"

text \<open>Take a control block out of the list of tasks and put it on the free list.\<close>

definition tcb_unlink :: "nat \<Rightarrow> os \<Rightarrow> os option" where
  "tcb_unlink t s =
     (let c = OSTCBTbl s t in do {
        s1 \<leftarrow> (if OSTCBPrev c = TNull
               then do {
                 n \<leftarrow> deref_tcb (OSTCBNext c);
                 Some ((upd_tcb n (\<lambda>c. c\<lparr>OSTCBPrev := TNull\<rparr>) s)\<lparr>OSTCBList := OSTCBNext c\<rparr>)
               }
               else do {
                 p \<leftarrow> deref_tcb (OSTCBPrev c);
                 n \<leftarrow> deref_tcb (OSTCBNext c);
                 Some (upd_tcb n (\<lambda>d. d\<lparr>OSTCBPrev := OSTCBPrev c\<rparr>) (upd_tcb p (\<lambda>d. d\<lparr>OSTCBNext := OSTCBNext c\<rparr>) s))
               });
        let s2 = upd_tcb t (\<lambda>c. c\<lparr>OSTCBNext := OSTCBFreeList s1\<rparr>) s1;
        Some (upd_tcb t (\<lambda>c. c\<lparr>OSTCBTaskName := ''?''\<rparr>) (s2\<lparr>OSTCBFreeList := TPtr t\<rparr>))
      })"

text \<open>The lock count is raised around \<open>OS_Dummy\<close>, where interrupts are let in, unless it is at its
  maximum, and lowered afterwards.\<close>

definition lock_dance :: "os \<Rightarrow> os" where
  "lock_dance s =
     (let s1 = (if OSLockNesting s < 255 then s\<lparr>OSLockNesting := OSLockNesting s + 1\<rparr> else s)
      in if OSLockNesting s1 > 0 then s1\<lparr>OSLockNesting := OSLockNesting s1 - 1\<rparr> else s1)"

definition OSTaskDel :: "u8 \<Rightarrow> os \<Rightarrow> (u8 \<times> os) option" where
  "OSTaskDel pr0 s =
     (if OSIntNesting s > 0 then Some (OS_ERR_TASK_DEL_ISR, s)
      else if pr0 = OS_TASK_IDLE_PRIO then Some (OS_ERR_TASK_DEL_IDLE, s)
      else do {
        pr \<leftarrow> self_prio pr0 s;
        p \<leftarrow> prio_tbl s pr;
        if p = TNull then Some (OS_ERR_TASK_NOT_EXIST, s)
        else if p = TReserved then Some (OS_ERR_TASK_DEL, s)
        else do {
          t \<leftarrow> deref_tcb p;
          let s1 = rdy_del t s;
          s2 \<leftarrow> (case OSTCBEventPtr (OSTCBTbl s1 t) of None \<Rightarrow> Some s1 | Some e \<Rightarrow> OS_EventTaskRemove t e s1);
          s3 \<leftarrow> (case OSTCBEventMultiPtr (OSTCBTbl s2 t) of None \<Rightarrow> Some s2
                 | Some es \<Rightarrow> OS_EventTaskRemoveMulti t es s2);
          s4 \<leftarrow> (case OSTCBFlagNode (OSTCBTbl s3 t) of None \<Rightarrow> Some s3 | Some n \<Rightarrow> OS_FlagUnlink n s3);
          let s5 = upd_tcb t (\<lambda>c. c\<lparr>OSTCBDly := 0, OSTCBStat := OS_STAT_RDY, OSTCBStatPend := OS_STAT_PEND_OK\<rparr>) s4;
          let s6 = lock_dance s5;
          let s7 = s6\<lparr>OSTaskCtr := OSTaskCtr s6 - 1, OSTCBPrioTbl := (OSTCBPrioTbl s6)(pr := TNull)\<rparr>;
          s8 \<leftarrow> tcb_unlink t s7;
          s9 \<leftarrow> (if OSRunning s8 then OS_Sched s8 else Some s8);
          Some (OS_ERR_NONE, s9)
        }
      })"

definition OSTaskDelReq :: "u8 \<Rightarrow> os \<Rightarrow> (u8 \<times> os) option" where
  "OSTaskDelReq pr s =
     (if pr = OS_TASK_IDLE_PRIO then Some (OS_ERR_TASK_DEL_IDLE, s)
      else if pr = OS_PRIO_SELF
      then do { cur \<leftarrow> deref_tcb (OSTCBCur s); Some (OSTCBDelReq (OSTCBTbl s cur), s) }
      else do {
        p \<leftarrow> prio_tbl s pr;
        if p = TNull then Some (OS_ERR_TASK_NOT_EXIST, s)
        else if p = TReserved then Some (OS_ERR_TASK_DEL, s)
        else do {
          t \<leftarrow> deref_tcb p;
          Some (OS_ERR_NONE, upd_tcb t (\<lambda>c. c\<lparr>OSTCBDelReq := OS_ERR_TASK_DEL_REQ\<rparr>) s)
        }
      })"

text \<open>A task function that returns ends here.\<close>

definition OS_TaskReturn :: "os \<Rightarrow> os option" where
  "OS_TaskReturn s = do { r \<leftarrow> OSTaskDel OS_PRIO_SELF s; Some (snd r) }"

subsection \<open>Priority\<close>

text \<open>Move the bit of a task on one event's wait list from its old place to the new one.\<close>

definition move_wait :: "nat \<Rightarrow> u8 \<Rightarrow> u8 \<Rightarrow> u8 \<Rightarrow> nat \<Rightarrow> os \<Rightarrow> os" where
  "move_wait t y_new bitx_new bity_new e s =
     upd_evt e (\<lambda>ev. set_evt_bm (bm_ins y_new bitx_new bity_new (evt_bm ev)) ev) (wait_del t e s)"

fun move_wait_all :: "nat \<Rightarrow> u8 \<Rightarrow> u8 \<Rightarrow> u8 \<Rightarrow> nat list \<Rightarrow> os \<Rightarrow> os option" where
  "move_wait_all t y bx by [] s = Some s"
| "move_wait_all t y bx by (e # es) s = do { _ \<leftarrow> evt s e; move_wait_all t y bx by es (move_wait t y bx by e s) }"

definition OSTaskChangePrio :: "u8 \<Rightarrow> u8 \<Rightarrow> os \<Rightarrow> (u8 \<times> os) option" where
  "OSTaskChangePrio oldprio0 newprio s = do {
     q \<leftarrow> prio_tbl s newprio;
     if q \<noteq> TNull then Some (OS_ERR_PRIO_EXIST, s)
     else do {
       oldprio \<leftarrow> self_prio oldprio0 s;
       p \<leftarrow> prio_tbl s oldprio;
       if p = TNull then Some (OS_ERR_PRIO, s)
       else if p = TReserved then Some (OS_ERR_TASK_NOT_EXIST, s)
       else do {
         t \<leftarrow> deref_tcb p;
         let y_new = drop_bit 3 newprio;
         let x_new = newprio AND 7;
         let bity_new = shl1 y_new;
         let bitx_new = shl1 x_new;
         let s1 = s\<lparr>OSTCBPrioTbl := (OSTCBPrioTbl s)(oldprio := TNull, newprio := p)\<rparr>;
         let c = OSTCBTbl s1 t;
         let s2 = (if OSRdyTbl s1 (OSTCBY c) AND OSTCBBitX c \<noteq> 0
                   then let s2 = rdy_del t s1 in set_rdy_bm (bm_ins y_new bitx_new bity_new (rdy_bm s2)) s2
                   else s1);
         s3 \<leftarrow> (case OSTCBEventPtr c of None \<Rightarrow> Some s2
                | Some e \<Rightarrow> do { _ \<leftarrow> evt s2 e; Some (move_wait t y_new bitx_new bity_new e s2) });
         s4 \<leftarrow> (case OSTCBEventMultiPtr c of None \<Rightarrow> Some s3
                | Some es \<Rightarrow> move_wait_all t y_new bitx_new bity_new es s3);
         let s5 = upd_tcb t (\<lambda>c. c\<lparr>OSTCBPrio := newprio, OSTCBY := y_new, OSTCBX := x_new, OSTCBBitY := bity_new,
                    OSTCBBitX := bitx_new\<rparr>) s4;
         s6 \<leftarrow> (if OSRunning s5 then OS_Sched s5 else Some s5);
         Some (OS_ERR_NONE, s6)
       }
     }
   }"

subsection \<open>Suspending and resuming\<close>

definition OSTaskSuspend :: "u8 \<Rightarrow> os \<Rightarrow> (u8 \<times> os) option" where
  "OSTaskSuspend pr0 s = do {
     cur \<leftarrow> deref_tcb (OSTCBCur s);
     let cprio = OSTCBPrio (OSTCBTbl s cur);
     let pr = (if pr0 = OS_PRIO_SELF then cprio else pr0);
     let self = (pr0 = OS_PRIO_SELF \<or> pr0 = cprio);
     p \<leftarrow> prio_tbl s pr;
     if p = TNull then Some (OS_ERR_TASK_SUSPEND_PRIO, s)
     else if p = TReserved then Some (OS_ERR_TASK_NOT_EXIST, s)
     else do {
       t \<leftarrow> deref_tcb p;
       let s1 = upd_tcb t (\<lambda>c. c\<lparr>OSTCBStat := OSTCBStat c OR OS_STAT_SUSPEND\<rparr>) (rdy_del t s);
       s2 \<leftarrow> (if self then OS_Sched s1 else Some s1);
       Some (OS_ERR_NONE, s2)
     }
   }"

definition OSTaskResume :: "u8 \<Rightarrow> os \<Rightarrow> (u8 \<times> os) option" where
  "OSTaskResume pr s = do {
     p \<leftarrow> prio_tbl s pr;
     if p = TNull then Some (OS_ERR_TASK_RESUME_PRIO, s)
     else if p = TReserved then Some (OS_ERR_TASK_NOT_EXIST, s)
     else do {
       t \<leftarrow> deref_tcb p;
       if OSTCBStat (OSTCBTbl s t) AND OS_STAT_SUSPEND \<noteq> OS_STAT_RDY
       then do {
         let s1 = upd_tcb t (\<lambda>c. c\<lparr>OSTCBStat := OSTCBStat c AND NOT OS_STAT_SUSPEND\<rparr>) s;
         if OSTCBStat (OSTCBTbl s1 t) AND OS_STAT_PEND_ANY = OS_STAT_RDY \<and> OSTCBDly (OSTCBTbl s1 t) = 0
         then do {
           let s2 = rdy_ins t s1;
           s3 \<leftarrow> (if OSRunning s2 then OS_Sched s2 else Some s2);
           Some (OS_ERR_NONE, s3)
         }
         else Some (OS_ERR_NONE, s1)
       }
       else Some (OS_ERR_TASK_NOT_SUSPENDED, s)
     }
   }"

subsection \<open>Names, registers, queries, stack checks\<close>

definition OSTaskNameGet :: "u8 \<Rightarrow> os \<Rightarrow> (u8 \<times> string option \<times> u8) option" where
  "OSTaskNameGet pr0 s = (if OSIntNesting s > 0 then Some (0, None, OS_ERR_NAME_GET_ISR)
     else do {
       pr \<leftarrow> self_prio pr0 s;
       p \<leftarrow> prio_tbl s pr;
       if p = TNull then Some (0, None, OS_ERR_TASK_NOT_EXIST)
       else if p = TReserved then Some (0, None, OS_ERR_TASK_NOT_EXIST)
       else do {
         t \<leftarrow> deref_tcb p;
         let nm = OSTCBTaskName (OSTCBTbl s t);
         Some (OS_StrLen nm, Some nm, OS_ERR_NONE)
       }
     })"

definition OSTaskNameSet :: "u8 \<Rightarrow> string \<Rightarrow> os \<Rightarrow> (u8 \<times> os) option" where
  "OSTaskNameSet pr0 pname s = (if OSIntNesting s > 0 then Some (OS_ERR_NAME_SET_ISR, s)
     else do {
       pr \<leftarrow> self_prio pr0 s;
       p \<leftarrow> prio_tbl s pr;
       if p = TNull then Some (OS_ERR_TASK_NOT_EXIST, s)
       else if p = TReserved then Some (OS_ERR_TASK_NOT_EXIST, s)
       else do {
         t \<leftarrow> deref_tcb p;
         Some (OS_ERR_NONE, upd_tcb t (\<lambda>c. c\<lparr>OSTCBTaskName := pname\<rparr>) s)
       }
     })"

definition OSTaskQuery :: "u8 \<Rightarrow> os \<Rightarrow> (u8 \<times> os_tcb option) option" where
  "OSTaskQuery pr0 s = do {
     pr \<leftarrow> self_prio pr0 s;
     p \<leftarrow> prio_tbl s pr;
     if p = TNull then Some (OS_ERR_PRIO, None)
     else if p = TReserved then Some (OS_ERR_TASK_NOT_EXIST, None)
     else do {
       t \<leftarrow> deref_tcb p;
       Some (OS_ERR_NONE, Some (OSTCBTbl s t))
     }
   }"

text \<open>\<open>OSTaskRegGet\<close> and \<open>OSTaskRegSet\<close> follow the table's entry without a test for null.\<close>

definition reg_task :: "u8 \<Rightarrow> u8 \<Rightarrow> os \<Rightarrow> nat option" where
  "reg_task pr ident s = do {
     p \<leftarrow> (if pr = OS_PRIO_SELF then Some (OSTCBCur s) else prio_tbl s pr);
     t \<leftarrow> deref_tcb p;
     if ident < OS_TASK_REG_TBL_SIZE then Some t else None
   }"

definition OSTaskRegGet :: "u8 \<Rightarrow> u8 \<Rightarrow> os \<Rightarrow> (u32 \<times> u8) option" where
  "OSTaskRegGet pr ident s = do {
     t \<leftarrow> reg_task pr ident s;
     Some (OSTCBRegTbl (OSTCBTbl s t) ident, OS_ERR_NONE)
   }"

definition OSTaskRegGetID :: "os \<Rightarrow> u8 \<times> u8 \<times> os" where
  "OSTaskRegGetID s =
     (if OSTaskRegNextAvailID s \<ge> OS_TASK_REG_TBL_SIZE then (OS_TASK_REG_TBL_SIZE, OS_ERR_NO_MORE_ID_AVAIL, s)
      else (OSTaskRegNextAvailID s, OS_ERR_NONE, s\<lparr>OSTaskRegNextAvailID := OSTaskRegNextAvailID s + 1\<rparr>))"

definition OSTaskRegSet :: "u8 \<Rightarrow> u8 \<Rightarrow> u32 \<Rightarrow> os \<Rightarrow> (u8 \<times> os) option" where
  "OSTaskRegSet pr ident v s = do {
     t \<leftarrow> reg_task pr ident s;
     Some (OS_ERR_NONE, upd_tcb t (\<lambda>c. c\<lparr>OSTCBRegTbl := (OSTCBRegTbl c)(ident := v)\<rparr>) s)
   }"

text \<open>Count the zero words from the bottom of the stack up; \<open>nfree\<close> is a 32-bit counter.\<close>

partial_function (option) stk_count :: "(nat \<Rightarrow> u32) \<Rightarrow> nat \<Rightarrow> u32 \<Rightarrow> u32 option" where
  "stk_count mem pchk nfree = (if mem pchk = 0 then stk_count mem (pchk + 1) (nfree + 1) else Some nfree)"

definition OSTaskStkChk :: "u8 \<Rightarrow> os \<Rightarrow> (u8 \<times> u32 \<times> u32) option" where
  "OSTaskStkChk pr0 s = do {
     pr \<leftarrow> self_prio pr0 s;
     p \<leftarrow> prio_tbl s pr;
     if p = TNull then Some (OS_ERR_TASK_NOT_EXIST, 0, 0)
     else if p = TReserved then Some (OS_ERR_TASK_NOT_EXIST, 0, 0)
     else do {
       t \<leftarrow> deref_tcb p;
       if OSTCBOpt (OSTCBTbl s t) AND OS_TASK_OPT_STK_CHK = 0 then Some (OS_ERR_TASK_OPT, 0, 0)
       else do {
         nfree \<leftarrow> stk_count (OSStkMem s) (OSTCBStkBottom (OSTCBTbl s t)) 0;
         Some (OS_ERR_NONE, nfree, OSTCBStkSize (OSTCBTbl s t) - nfree)
       }
     }
   }"

end
