(* ===== verification/OS_Time.thy ===== *)
theory OS_Time
  imports OS_Core
begin

text \<open>
  \<^verbatim>\<open>src/ucos/CORE/os_time.c\<close>: delaying the running task, ending another task's delay, and the
  tick counter.
\<close>

text \<open>\<open>OSTimeDly\<close> up to the call of the scheduler; the call returns when the task runs again.\<close>

definition OSTimeDly :: "u32 \<Rightarrow> os \<Rightarrow> os option" where
  "OSTimeDly ticks s =
     (if OSIntNesting s > 0 then Some s
      else if OSLockNesting s > 0 then Some s
      else if ticks > 0
      then do {
        cur \<leftarrow> deref_tcb (OSTCBCur s);
        OS_Sched (upd_tcb cur (\<lambda>c. c\<lparr>OSTCBDly := ticks\<rparr>) (rdy_del cur s))
      }
      else Some s)"

text \<open>Integer division of the constants first: \<open>500uL / OS_TICKS_PER_SEC\<close>.\<close>

definition hmsm_ticks :: "u8 \<Rightarrow> u8 \<Rightarrow> u8 \<Rightarrow> u16 \<Rightarrow> u32" where
  "hmsm_ticks hours minutes seconds ms =
     (ucast hours * 3600 + ucast minutes * 60 + ucast seconds) * OS_TICKS_PER_SEC
     + OS_TICKS_PER_SEC * (ucast ms + 500 div OS_TICKS_PER_SEC) div 1000"

definition OSTimeDlyHMSM :: "u8 \<Rightarrow> u8 \<Rightarrow> u8 \<Rightarrow> u16 \<Rightarrow> os \<Rightarrow> (u8 \<times> os) option" where
  "OSTimeDlyHMSM hours minutes seconds ms s =
     (if OSIntNesting s > 0 then Some (OS_ERR_TIME_DLY_ISR, s)
      else if OSLockNesting s > 0 then Some (OS_ERR_SCHED_LOCKED, s)
      else do {
        s1 \<leftarrow> OSTimeDly (hmsm_ticks hours minutes seconds ms) s;
        Some (OS_ERR_NONE, s1)
      })"

definition OSTimeDlyResume :: "u8 \<Rightarrow> os \<Rightarrow> (u8 \<times> os) option" where
  "OSTimeDlyResume prio s =
     (if prio \<ge> OS_LOWEST_PRIO then Some (OS_ERR_PRIO_INVALID, s)
      else do {
        p \<leftarrow> prio_tbl s prio;
        if p = TNull then Some (OS_ERR_TASK_NOT_EXIST, s)
        else if p = TReserved then Some (OS_ERR_TASK_NOT_EXIST, s)
        else do {
          t \<leftarrow> deref_tcb p;
          if OSTCBDly (OSTCBTbl s t) = 0 then Some (OS_ERR_TIME_NOT_DLY, s)
          else do {
            let s1 = upd_tcb t (\<lambda>c. c\<lparr>OSTCBDly := 0\<rparr>) s;
            let s2 = (if OSTCBStat (OSTCBTbl s1 t) AND OS_STAT_PEND_ANY \<noteq> OS_STAT_RDY
                      then upd_tcb t (\<lambda>c. c\<lparr>OSTCBStat := OSTCBStat c AND NOT OS_STAT_PEND_ANY,
                                            OSTCBStatPend := OS_STAT_PEND_TO\<rparr>) s1
                      else upd_tcb t (\<lambda>c. c\<lparr>OSTCBStatPend := OS_STAT_PEND_OK\<rparr>) s1);
            if OSTCBStat (OSTCBTbl s2 t) AND OS_STAT_SUSPEND = OS_STAT_RDY
            then do { s3 \<leftarrow> OS_Sched (rdy_ins t s2); Some (OS_ERR_NONE, s3) }
            else Some (OS_ERR_NONE, s2)
          }
        }
      })"

definition OSTimeGet :: "os \<Rightarrow> u32" where
  "OSTimeGet s = OSTime s"

definition OSTimeSet :: "u32 \<Rightarrow> os \<Rightarrow> os" where
  "OSTimeSet ticks s = s\<lparr>OSTime := ticks\<rparr>"

end
