(* ===== verification/OS_Scheduler.thy ===== *)
theory OS_Scheduler
  imports OS_Sample
begin

text \<open>
  The core of the kernel as the rest of it relies on it: the properties of the ready list, of the
  scheduler, of interrupts, of the tick, and of the scheduler lock, over the invariant
  \<open>kernel_ok\<close>.
\<close>

subsection \<open>The services of the core keep the invariant\<close>

lemma kernel_ok_nesting [simp]:
  "base_ok (s\<lparr>OSIntNesting := n\<rparr>) c = base_ok s c" "base_ok (s\<lparr>OSLockNesting := n\<rparr>) c = base_ok s c"
proof -
  have "obj_inv (s\<lparr>OSIntNesting := n\<rparr>) = obj_inv s" "obj_inv (s\<lparr>OSLockNesting := n\<rparr>) = obj_inv s"
    by (rule obj_inv_cong, simp_all)+
  moreover have "idle_inv (s\<lparr>OSIntNesting := n\<rparr>) = idle_inv s" "idle_inv (s\<lparr>OSLockNesting := n\<rparr>) = idle_inv s"
    by (simp_all add: idle_inv_def avail_def)
  ultimately show "base_ok (s\<lparr>OSIntNesting := n\<rparr>) c = base_ok s c" "base_ok (s\<lparr>OSLockNesting := n\<rparr>) c = base_ok s c"
    by (simp_all add: base_ok_def cur_at_def act_def)
qed

lemma kernel_ok_int_enter:
  assumes "kernel_ok s c" "OSIntNesting s < 255"
  shows "kernel_ok (OSIntEnter s) c"
  using assms u8_succ_pos [of "OSIntNesting s"]
  by (auto simp: OSIntEnter_def kernel_ok_iff unlocked_def)

lemma kernel_ok_sched_lock: "kernel_ok s c \<Longrightarrow> kernel_ok (OSSchedLock s) c"
  using u8_succ_pos [of "OSLockNesting s"]
  by (auto simp: OSSchedLock_def kernel_ok_iff unlocked_def)

lemma kernel_ok_sw_frame:
  assumes "base_ok s c" "sw_frame s s'" "sched_inv s'" "cur_ok s' c'"
  shows "kernel_ok s' c'"
proof -
  note d = base_okD [OF assms(1)]
  have "obj_inv s' = obj_inv s"
    by (rule obj_inv_cong) (simp_all add: sw_frameD [OF assms(2)])
  then show ?thesis
    using d assms(3,4) sw_frame_list_inv [OF assms(2)] sw_frame_avail [OF assms(2)] sw_frameD(19) [OF assms(2)]
    by (simp add: kernel_ok_def idle_inv_def)
qed

lemma kernel_ok_cur: "kernel_ok s c \<Longrightarrow> cur_ok s c"
  by (simp add: kernel_ok_def)

lemma kernel_ok_int_exit:
  assumes ok: "kernel_ok s c" and run: "OSRunning s" and n: "OSIntNesting s > 0"
  shows "\<exists>s' c'. OSIntExit s = Some s' \<and> kernel_ok s' c' \<and> sw_frame (s\<lparr>OSIntNesting := OSIntNesting s - 1\<rparr>) s' \<and>
    (OSIntNesting s = 1 \<and> OSLockNesting s = 0 \<longrightarrow> highest_runs s')"
proof -
  obtain s' c' where s': "OSIntExit s = Some s'" "sched_inv s'" "cur_ok s' c'" "sw_frame (s\<lparr>OSIntNesting := OSIntNesting s - 1\<rparr>) s'"
    "OSIntNesting s = 1 \<and> OSLockNesting s = 0 \<longrightarrow> highest_runs s'"
    using OSIntExit_ok [OF kernel_okD(1) [OF ok] kernel_ok_cur [OF ok] run n] by blast
  have "base_ok (s\<lparr>OSIntNesting := OSIntNesting s - 1\<rparr>) c" using kernel_ok_base [OF ok] by simp
  from kernel_ok_sw_frame [OF this s'(4,2,3)] show ?thesis using s' by blast
qed

lemma kernel_ok_sched_unlock:
  assumes ok: "kernel_ok s c"
  shows "\<exists>s' c'. OSSchedUnlock s = Some s' \<and> kernel_ok s' c' \<and>
    (if OSRunning s \<and> OSIntNesting s = 0 \<and> OSLockNesting s > 0
     then sw_frame (s\<lparr>OSLockNesting := OSLockNesting s - 1\<rparr>) s' \<and> (OSLockNesting s = 1 \<longrightarrow> highest_runs s')
     else s' = s)"
proof -
  let ?b = "OSRunning s \<and> OSIntNesting s = 0 \<and> OSLockNesting s > 0"
  obtain s' c' where s': "OSSchedUnlock s = Some s'" "sched_inv s'" "cur_ok s' c'"
    "?b \<longrightarrow> sw_frame (s\<lparr>OSLockNesting := OSLockNesting s - 1\<rparr>) s' \<and> (OSLockNesting s = 1 \<longrightarrow> highest_runs s')" "\<not> ?b \<longrightarrow> s' = s"
    using OSSchedUnlock_ok [OF kernel_okD(1) [OF ok] kernel_ok_cur [OF ok]] by blast
  have base: "base_ok (s\<lparr>OSLockNesting := OSLockNesting s - 1\<rparr>) c" using kernel_ok_base [OF ok] by simp
  show ?thesis
  proof (cases ?b)
    case True
    then have "kernel_ok s' c'" using kernel_ok_sw_frame [OF base _ s'(2,3)] s'(4) by blast
    then show ?thesis using True s' by (intro exI [of _ s'] exI [of _ c']) simp
  next
    case False
    then show ?thesis using s' ok by (intro exI [of _ s] exI [of _ c]) simp
  qed
qed

lemma kernel_ok_tick:
  assumes ok: "kernel_ok s c" and n: "OSIntNesting s > 0"
  shows "\<exists>s'. OSTimeTick s = Some s' \<and> kernel_ok s' c \<and> OSTime s' = OSTime s + 1 \<and> OSEvents s' = OSEvents s \<and>
    OSTCBPrioTbl s' = OSTCBPrioTbl s \<and> OSIntNesting s' = OSIntNesting s \<and> OSLockNesting s' = OSLockNesting s \<and> OSRunning s' = OSRunning s \<and>
    OSTCBTbl s' = (\<lambda>t. if tick_steps s \<and> act s t \<and> prio s t \<noteq> OS_TASK_IDLE_PRIO
                       then ticked (OSTCBTbl s t) else OSTCBTbl s t) \<and>
    ready s' = ready s \<union> {prio s t | t. tick_steps s \<and> act s t \<and> prio s t \<noteq> OS_TASK_IDLE_PRIO \<and> expires (OSTCBTbl s t)}"
proof -
  note k = kernel_okD [OF ok]
  obtain s' where s': "OSTimeTick s = Some s'" "sched_inv s'" "list_inv s'" "OSTime s' = OSTime s + 1"
    and fr: "wq_frame (s\<lparr>OSTime := OSTime s', OSTickStepState := OSTickStepState s'\<rparr>) s'"
    and ev: "OSEvents s' = OSEvents s"
    and tbl: "OSTCBTbl s' = (\<lambda>t. if tick_steps s \<and> act s t \<and> prio s t \<noteq> OS_TASK_IDLE_PRIO then ticked (OSTCBTbl s t) else OSTCBTbl s t)"
    and rdy: "ready s' = ready s \<union> {prio s t | t. tick_steps s \<and> act s t \<and> prio s t \<noteq> OS_TASK_IDLE_PRIO \<and> expires (OSTCBTbl s t)}"
    using OSTimeTick_ok [OF k(1,2)] by blast
  note f = wq_frameD(1-15) [OF fr, simplified]
  have oi: "obj_inv s' = obj_inv s" by (rule obj_inv_cong) (simp_all add: ev f)
  have w: "waiters s' = waiters s" by (simp add: waiters_def fun_eq_iff ev)
  have "avail s' e = avail s e" for e by (rule avail_cong) (simp_all add: ev f)
  then have "idle_inv s'" using k(3) by (simp add: idle_inv_def w)
  moreover have "prio s' c = prio s c" by (simp add: tbl)
  moreover have "OSIntNesting s \<noteq> 0" using n by auto
  ultimately have "kernel_ok s' c"
    using s'(2,3) oi k by (simp add: kernel_ok_def cur_ok_def f act_def)
  then show ?thesis using s' ev tbl rdy f by (intro exI [of _ s']) simp
qed

subsection \<open>Services that change one task\<close>

text \<open>\<open>s'\<close> is \<open>s\<close> with the control block of task \<open>t\<close> replaced by \<open>tc\<close> (up to the count of context switches) and the task
  ready or not; nothing else of the scheduling data changes.\<close>

definition sets_task :: "os \<Rightarrow> nat \<Rightarrow> os_tcb \<Rightarrow> bool \<Rightarrow> os \<Rightarrow> bool" where
  "sets_task s t tc r s' \<longleftrightarrow> (\<forall>u. same_task (if u = t then tc else OSTCBTbl s u) (OSTCBTbl s' u)) \<and>
     ready s' = (if r then insert (prio s t) (ready s) else ready s - {prio s t}) \<and> OSEvents s' = OSEvents s \<and>
     OSQTbl s' = OSQTbl s \<and> OSMsgMem s' = OSMsgMem s \<and> OSTime s' = OSTime s \<and> OSTCBPrioTbl s' = OSTCBPrioTbl s \<and>
     OSRunning s' = OSRunning s \<and> OSIntNesting s' = OSIntNesting s \<and> OSLockNesting s' = OSLockNesting s"

lemma sets_taskD:
  assumes "sets_task s t tc r s'"
  shows "same_task tc (OSTCBTbl s' t)" "u \<noteq> t \<Longrightarrow> same_task (OSTCBTbl s u) (OSTCBTbl s' u)"
    "ready s' = (if r then insert (prio s t) (ready s) else ready s - {prio s t})" "waiters s' = waiters s"
proof -
  have all: "same_task (if u = t then tc else OSTCBTbl s u) (OSTCBTbl s' u)" for u
    using assms by (simp add: sets_task_def)
  show "same_task tc (OSTCBTbl s' t)" using all [of t] by simp
  show "u \<noteq> t \<Longrightarrow> same_task (OSTCBTbl s u) (OSTCBTbl s' u)" using all [of u] by simp
  show "ready s' = (if r then insert (prio s t) (ready s) else ready s - {prio s t})" using assms by (simp add: sets_task_def)
  have "OSEvents s' = OSEvents s" using assms by (simp add: sets_task_def)
  then show "waiters s' = waiters s" by (simp add: waiters_def fun_eq_iff)
qed

text \<open>What the new control block must satisfy.\<close>

definition task_fits :: "os \<Rightarrow> nat \<Rightarrow> os_tcb \<Rightarrow> bool \<Rightarrow> bool" where
  "task_fits s t tc r \<longleftrightarrow> link_view tc = link_view (OSTCBTbl s t) \<and> rdy_cond r tc \<and> evt_refs tc \<subseteq> {..<OS_MAX_EVENTS} \<and>
     (OSTCBEventPtr tc = None \<or> OSTCBEventMultiPtr tc = None) \<and>
     (\<forall>e. prio s t \<in> waiters s e \<longrightarrow> e \<in> evt_refs tc \<and> wait_cond r (emask s e) tc) \<and>
     (prio s t = OS_TASK_IDLE_PRIO \<longrightarrow> r)"

lemma set_task_base:
  assumes ok: "base_ok s c" and act: "act s t" and fits: "task_fits s t tc r"
    and s': "s' = set_rdy_bm (if r then bm_add (prio s t) (rdy_bm s) else bm_drop (prio s t) (rdy_bm s))
      (upd_tcb t (\<lambda>_. tc) s)"
  shows "base_ok s' c" "sets_task s t tc r s'" "wq_frame s s'"
proof -
  note d = base_okD [OF ok]
  have lv: "link_view tc = link_view (OSTCBTbl s t)" using fits by (simp add: task_fits_def)
  then have pv: "prio_view tc = prio_view (OSTCBTbl s t)" and p: "OSTCBPrio tc = prio s t"
    by (simp_all add: link_view_def prio_view_def)
  have p64: "prio s t < 64" using act by (simp add: act_def)
  have "OSTCBTbl (upd_tcb t (\<lambda>_. tc) s) u = (if u = t then tc else OSTCBTbl s u)" for u by simp
  then show fr: "wq_frame s s'"
    using lv unfolding s' wq_frame_set_rdy_bm by (simp add: wq_frame_def wq_rest_def) (simp add: upd_tcb_def)
  have rdy: "ready s' = (if r then insert (prio s t) (ready s) else ready s - {prio s t})"
    using p64 by (simp add: s' bm_set_add bm_set_drop ready_def)
  have w: "waiters s' = waiters s" by (simp add: s')
  have tok: "tcb_prio_ok tc"
    using sched_inv_tcb [OF d(1) act] pv by (simp add: tcb_prio_ok_def prio_view_def)
  have "task_ok s' t"
    using fits tok p by (cases r) (simp_all add: task_ok_def Let_def w rdy task_fits_def, simp_all add: s')
  then have "sched_inv s'"
    by (intro sched_inv_change [OF d(1) act])
      (use pv p64 rdy w fits sched_invD(1,2) [OF d(1)] in \<open>simp_all add: s' bm_ok_add bm_ok_drop task_fits_def split: if_splits\<close>)
  then show "base_ok s' c" by (rule base_ok_wq_frame [OF ok _ fr]) (simp add: w)
  show "sets_task s t tc r s'" by (simp add: sets_task_def rdy) (simp add: s')
qed

lemma sets_task_sw:
  assumes st: "sets_task s t tc r s1" and fr: "sw_frame s1 s'"
  shows "sets_task s t tc r s'"
proof -
  have "same_task x (OSTCBTbl s' u)" if "same_task x (OSTCBTbl s1 u)" for x u
    using that sw_frame_same [OF fr, of u] by (auto simp: same_task_def)
  then show ?thesis using st by (simp add: sets_task_def sw_frameD [OF fr])
qed

text \<open>Change a task and call the scheduler.\<close>

lemma set_task_sched:
  assumes ok: "base_ok s c" and act: "act s t" and fits: "task_fits s t tc r"
  defines "s1 \<equiv> set_rdy_bm (if r then bm_add (prio s t) (rdy_bm s) else bm_drop (prio s t) (rdy_bm s)) (upd_tcb t (\<lambda>_. tc) s)"
  shows "\<exists>s' c'. OS_Sched s1 = Some s' \<and> sets_task s t tc r s' \<and> kernel_ok s' c' \<and> scheduled s s' \<and>
    (\<not> unlocked s \<longrightarrow> c' = c)"
proof -
  note b = set_task_base [OF ok act fits s1_def [THEN meta_eq_to_obj_eq]]
  obtain s' c' where s': "OS_Sched s1 = Some s'" "sw_frame s1 s'" "kernel_ok s' c'"
    "if unlocked s1 then highest_runs s' else s' = s1 \<and> c' = c"
    using OS_Sched_base [OF b(1)] by blast
  have "unlocked s1 = unlocked s" by (rule unlocked_wq [OF b(3)])
  then show ?thesis using s' sets_task_sw [OF b(2) s'(2)] by (auto simp: scheduled_def)
qed

text \<open>Change a task's control block and nothing else.\<close>

lemma set_task_only:
  assumes ok: "kernel_ok s c" and act: "act s t" and fits: "task_fits s t tc (prio s t \<in> ready s)"
  shows "kernel_ok (upd_tcb t (\<lambda>_. tc) s) c" "sets_task s t tc (prio s t \<in> ready s) (upd_tcb t (\<lambda>_. tc) s)"
proof -
  note k = kernel_okD [OF ok]
  have lv: "link_view tc = link_view (OSTCBTbl s t)" using fits by (simp add: task_fits_def)
  then have pv: "prio_view tc = prio_view (OSTCBTbl s t)" and p: "OSTCBPrio tc = prio s t"
    by (simp_all add: link_view_def prio_view_def)
  then have tok: "tcb_prio_ok tc"
    using sched_inv_tcb [OF k(1) act] by (simp add: tcb_prio_ok_def prio_view_def)
  have "sched_inv (upd_tcb t (\<lambda>_. tc) s)"
    by (rule sched_inv_upd_tcb [OF k(1) act]) (use pv p fits tok in \<open>simp_all add: task_ok_def Let_def task_fits_def\<close>)
  moreover have "wq_frame s (upd_tcb t (\<lambda>_. tc) s)"
    using lv by (simp add: wq_frame_def wq_rest_def) (simp add: upd_tcb_def)
  ultimately show "kernel_ok (upd_tcb t (\<lambda>_. tc) s) c" by (rule kernel_ok_wq_frame [OF ok]) simp_all
  show "sets_task s t tc (prio s t \<in> ready s) (upd_tcb t (\<lambda>_. tc) s)" by (auto simp: sets_task_def)
qed

lemma not_waiting_refs: "task_ok s t \<Longrightarrow> no_refs (OSTCBTbl s t) \<Longrightarrow> prio s t \<notin> waiters s e"
  using not_waiting by (auto simp: no_refs_def)

subsection \<open>Properties\<close>

lemma ready_nonempty: "sched_inv s \<Longrightarrow> ready s \<noteq> {}"
  using sched_invD(7) by blast

lemma highest_runs_Min:
  assumes "highest_runs s" "cur_ok s c"
  shows "prio s c = Min (ready s)" "OSPrioCur s = Min (ready s)"
proof -
  from assms have "prio s c \<in> ready s" "\<forall>p \<in> ready s. prio s c \<le> p"
    by (auto simp: highest_runs_def cur_ok_def)
  then show "prio s c = Min (ready s)" by (intro Min_eqI [symmetric]) auto
  then show "OSPrioCur s = Min (ready s)" using assms(2) by (simp add: cur_ok_def)
qed

text \<open>C7: the table look-ups of the scheduler (\<open>OSUnMapTbl\<close> on the group byte, then on the row) compute
  the numerically least priority in the bitmap, for every well-formed bitmap that is not empty.\<close>

theorem lookup_is_minimum:
  assumes "bm_ok m" and "bm_set m \<noteq> {}"
  shows "bm_highest m = Min (bm_set m)"
  using assms by (rule bm.highest_Min)

theorem lookup_is_minimum_witness: "bm_highest (bm_add 42 (bm_add 17 bm_clear)) = 17"
proof -
  have "bm_ok (bm_add 42 (bm_add 17 bm_clear))" by (simp add: bm_ok_add bm_ok_clear)
  moreover have set: "bm_set (bm_add 42 (bm_add 17 bm_clear)) = {42, 17}" by (simp add: bm_set_add bm_set_clear)
  ultimately have "bm_highest (bm_add 42 (bm_add 17 bm_clear)) = Min {42, 17}"
    using lookup_is_minimum [of "bm_add 42 (bm_add 17 bm_clear)"] by simp
  also have "Min {42, 17} = (17::u8)" by simp
  finally show ?thesis .
qed

text \<open>C4: called at task level with the scheduler unlocked, \<open>OS_Sched\<close> never follows a null pointer, keeps the
  invariant, and makes the task with the numerically least ready priority the running one, without
  changing who is ready and who waits for what.\<close>

theorem OS_Sched_runs_highest:
  assumes "kernel_ok s c" and "unlocked s"
  shows "\<exists>s' c'. OS_Sched s = Some s' \<and> kernel_ok s' c' \<and> OSTCBCur s' = TPtr c' \<and> prio s' c' = Min (ready s) \<and>
    OSPrioCur s' = Min (ready s) \<and> ready s' = ready s \<and> waiters s' = waiters s"
proof -
  obtain s' c' where s': "OS_Sched s = Some s'" "sw_frame s s'" "kernel_ok s' c'" "highest_runs s'"
    using OS_Sched_base [OF kernel_ok_base [OF assms(1)]] assms(2) by auto
  then show ?thesis
    using highest_runs_Min [OF s'(4) kernel_ok_cur [OF s'(3)]] kernel_okD(4) [OF s'(3)] sw_frameD(18,19) [OF s'(2)]
    by (intro exI [of _ s'] exI [of _ c']) simp
qed

theorem OS_Sched_runs_highest_witness:
  "\<exists>s' c'. OS_Sched sample = Some s' \<and> kernel_ok s' c' \<and> OSTCBCur s' = TPtr c' \<and> prio s' c' = Min (ready sample) \<and>
    OSPrioCur s' = Min (ready sample) \<and> ready s' = ready sample \<and> waiters s' = waiters sample"
  by (rule OS_Sched_runs_highest [OF sample_kernel_ok]) (simp add: unlocked_def)

text \<open>C5: a tick interrupt, taken in any state of the running kernel that may nest one more interrupt,
  keeps the invariant, advances the time by one, counts the delay of every task but the idle task
  down by one (\<open>ticked\<close>: a wait whose delay ends becomes a timeout), makes ready exactly the
  tasks whose delay ended and that are not suspended, and leaves the most urgent ready task running
  when it interrupted task level with the scheduler unlocked.\<close>

theorem SysTick_interrupt:
  assumes ok: "kernel_ok s c" and run: "OSRunning s" and n: "OSIntNesting s < 255"
  shows "\<exists>s' c'. OS_CPU_SysTickHandler s = Some s' \<and> kernel_ok s' c' \<and> OSTime s' = OSTime s + 1 \<and>
    OSIntNesting s' = OSIntNesting s \<and>
    (\<forall>t. same_task (if tick_steps s \<and> act s t \<and> prio s t \<noteq> OS_TASK_IDLE_PRIO then ticked (OSTCBTbl s t) else OSTCBTbl s t)
       (OSTCBTbl s' t)) \<and>
    ready s' = ready s \<union> {prio s t | t. tick_steps s \<and> act s t \<and> prio s t \<noteq> OS_TASK_IDLE_PRIO \<and> expires (OSTCBTbl s t)} \<and>
    waiters s' = waiters s \<and> (unlocked s \<longrightarrow> OSPrioCur s' = Min (ready s'))"
proof -
  let ?s0 = "OSIntEnter s"
  have s0: "?s0 = s\<lparr>OSIntNesting := OSIntNesting s + 1\<rparr>" by (rule OSIntEnter_eq [OF run n])
  have view: "tick_steps ?s0 = tick_steps s" "act ?s0 = act s" "OSTCBTbl ?s0 = OSTCBTbl s" "ready ?s0 = ready s"
    "OSEvents ?s0 = OSEvents s" "OSTime ?s0 = OSTime s" "OSLockNesting ?s0 = OSLockNesting s"
    by (simp_all add: s0 tick_steps_def fun_eq_iff)
  have n0: "OSIntNesting ?s0 = OSIntNesting s + 1" "OSIntNesting ?s0 > 0" "OSRunning ?s0"
    using run u8_succ_pos [OF n] by (simp_all add: s0)
  obtain s1 where s1: "OSTimeTick ?s0 = Some s1" "kernel_ok s1 c" "OSTime s1 = OSTime s + 1" "OSEvents s1 = OSEvents s"
    "OSIntNesting s1 = OSIntNesting s + 1" "OSLockNesting s1 = OSLockNesting s" "OSRunning s1"
    and tbl: "OSTCBTbl s1 = (\<lambda>t. if tick_steps s \<and> act s t \<and> prio s t \<noteq> OS_TASK_IDLE_PRIO then ticked (OSTCBTbl s t) else OSTCBTbl s t)"
    and rdy: "ready s1 = ready s \<union> {prio s t | t. tick_steps s \<and> act s t \<and> prio s t \<noteq> OS_TASK_IDLE_PRIO \<and> expires (OSTCBTbl s t)}"
    using kernel_ok_tick [OF kernel_ok_int_enter [OF ok n] n0(2)] n0 unfolding view by auto
  obtain s' c' where s': "OSIntExit s1 = Some s'" "kernel_ok s' c'" "sw_frame (s1\<lparr>OSIntNesting := OSIntNesting s1 - 1\<rparr>) s'"
    "OSIntNesting s1 = 1 \<and> OSLockNesting s1 = 0 \<longrightarrow> highest_runs s'"
    using kernel_ok_int_exit [OF s1(2,7)] n0(1,2) s1(5) by auto
  note f = sw_frameD [OF s'(3), simplified]
  have st: "same_task (OSTCBTbl s1 t) (OSTCBTbl s' t)" for t using sw_frame_same [OF s'(3), of t] by simp
  have w: "waiters s' = waiters s" using f(19) s1(4) by (simp add: waiters_def fun_eq_iff)
  have min: "OSPrioCur s' = Min (ready s')" if "unlocked s"
  proof -
    have "highest_runs s'" using that s'(4) s1(5,6) by (simp add: unlocked_def)
    then show ?thesis using highest_runs_Min(2) kernel_ok_cur [OF s'(2)] by blast
  qed
  show ?thesis
    by (intro exI [of _ s'] exI [of _ c'] conjI allI impI)
      (use s1 s' f st w min in \<open>simp_all add: OS_CPU_SysTickHandler_def tbl rdy\<close>)
qed

theorem SysTick_interrupt_witness:
  "\<exists>s'. OS_CPU_SysTickHandler sample = Some s' \<and> OSTime s' = 42 \<and> ready s' = {10, 20, 30, 63} \<and> OSPrioCur s' = 10"
proof -
  have exp: "{prio sample t | t. tick_steps sample \<and> act sample t \<and> prio sample t \<noteq> OS_TASK_IDLE_PRIO \<and>
      expires (OSTCBTbl sample t)} = {30}" (is "?X = _")
  proof -
    have "tick_steps sample \<and> act sample t \<and> prio sample t \<noteq> OS_TASK_IDLE_PRIO \<and> expires (OSTCBTbl sample t) \<longleftrightarrow> t = 4" for t
      unfolding sample_act
      by (auto simp: tick_steps_def expires_def susp_def sample_tasks_def sample_tcb_def tcb_zero_def less_5 split: if_splits)
    then show ?thesis using sample_prio(5) by auto
  qed
  obtain s' where s': "OS_CPU_SysTickHandler sample = Some s'" "OSTime s' = OSTime sample + 1"
    "ready s' = ready sample \<union> ?X" "unlocked sample \<longrightarrow> OSPrioCur s' = Min (ready s')"
    using SysTick_interrupt [OF sample_kernel_ok] by auto
  have rdy: "ready s' = {10, 20, 30, 63}" using s'(3) exp by (auto simp: sample_ready)
  moreover have "Min {10, 20, 30, 63} = (10::u8)" by simp
  ultimately show ?thesis using s' by (simp add: unlocked_def)
qed

text \<open>Locking the scheduler and unlocking it again is no change when it was locked already, and a call
  of the scheduler when this was the outermost lock.\<close>

theorem lock_unlock:
  assumes "OSRunning s" and "OSIntNesting s = 0" and "OSLockNesting s < 255"
  shows "OSSchedUnlock (OSSchedLock s) = (if OSLockNesting s = 0 then OS_Sched s else Some s)"
proof -
  have nz: "OSLockNesting s + 1 > 0" by (rule u8_succ_pos [OF assms(3)])
  have "s\<lparr>OSLockNesting := OSLockNesting s + 1, OSLockNesting := OSLockNesting s\<rparr> = s" by simp
  then show ?thesis using assms nz by (simp add: OSSchedLock_def OSSchedUnlock_def Let_def)
qed

theorem lock_unlock_witness: "OSSchedUnlock (OSSchedLock sample) = OS_Sched sample"
  using lock_unlock [of sample] by simp

end
