(* ===== verification/OS_Time_Proofs.thy ===== *)
theory OS_Time_Proofs
  imports OS_Time OS_Scheduler
begin

text \<open>
  What is proved of the time services: the delay of the running task, the end of another
  task's delay, and the conversion of hours, minutes, seconds and milliseconds to ticks.
\<close>

lemma unlockedD: "unlocked s \<Longrightarrow> OSIntNesting s = 0" "unlocked s \<Longrightarrow> OSLockNesting s = 0"
  by (simp_all add: unlocked_def)

lemma OSTimeDly_ok:
  assumes ok: "kernel_ok s c" and mb: "may_block s c"
  shows "if ticks = 0 then OSTimeDly ticks s = Some s
    else \<exists>s' c'. OSTimeDly ticks s = Some s' \<and> sets_task s c ((OSTCBTbl s c)\<lparr>OSTCBDly := ticks\<rparr>) False s' \<and>
      kernel_ok s' c' \<and> highest_runs s' \<and> c' \<noteq> c"
proof (cases "ticks = 0")
  case False
  note k = kernel_okD [OF ok]
  note tk = task_okD [OF base_ok_task [OF kernel_ok_base [OF ok]]]
  have ul: "unlocked s" and nr: "no_refs (OSTCBTbl s c)" and ni: "prio s c \<noteq> OS_TASK_IDLE_PRIO"
    using mb by (simp_all add: may_block_def)
  let ?tc = "(OSTCBTbl s c)\<lparr>OSTCBDly := ticks\<rparr>"
  have "rdy_cond False ?tc" using False by (simp add: rdy_cond_def runnable_def)
  then have fits: "task_fits s c ?tc False"
    using tk(3,4) ni not_waiting_refs [OF base_ok_task [OF kernel_ok_base [OF ok]] nr]
    by (simp add: task_fits_def)
  obtain s' c' where s': "OS_Sched (set_rdy_bm (bm_drop (prio s c) (rdy_bm s)) (upd_tcb c (\<lambda>_. ?tc) s)) = Some s'"
    "sets_task s c ?tc False s'" "kernel_ok s' c'" "scheduled s s'"
    using set_task_sched [OF kernel_ok_base [OF ok] k(5) fits] by auto
  have "upd_tcb c (\<lambda>c. c\<lparr>OSTCBDly := ticks\<rparr>) (rdy_del c s) = set_rdy_bm (bm_drop (prio s c) (rdy_bm s)) (upd_tcb c (\<lambda>_. ?tc) s)"
    by (simp add: rdy_del_eq [OF tk(1)] upd_tcb_def set_rdy_bm_def)
  then have dly: "OSTimeDly ticks s = Some s'"
    using s'(1) False unlockedD [OF ul] k(7) by (simp add: OSTimeDly_def word_gt_0)
  have hr: "highest_runs s'" using s'(4) ul by (simp add: scheduled_def)
  then have "prio s' c' \<in> ready s'"
    using kernel_ok_cur [OF s'(3)] by (auto simp: highest_runs_def cur_ok_def)
  moreover have "prio s' c = prio s c" using same_taskD(10) [OF sets_taskD(1) [OF s'(2)]] by simp
  ultimately have "c' \<noteq> c" using sets_taskD(3) [OF s'(2)] by auto
  then show ?thesis using False dly s' hr by (intro if_not_P [THEN iffD2]) auto
qed (simp add: OSTimeDly_def)

text \<open>\<open>OSTimeDly\<close> by the running task, scheduler unlocked: exactly the caller leaves the ready list, its delay is set, and
  the most urgent ready task, another one, runs. A delay of zero is no change.\<close>

theorem OSTimeDly_spec:
  assumes ok: "kernel_ok s c" and mb: "may_block s c"
  shows "if ticks = 0 then OSTimeDly ticks s = Some s
    else \<exists>s' c'. OSTimeDly ticks s = Some s' \<and> sets_task s c ((OSTCBTbl s c)\<lparr>OSTCBDly := ticks\<rparr>) False s' \<and>
      kernel_ok s' c' \<and> highest_runs s' \<and> c' \<noteq> c"
  by (rule OSTimeDly_ok [OF assms])

theorem OSTimeDly_spec_witness: "\<exists>s'. OSTimeDly 5 sample = Some s' \<and> ready s' = {20, 63} \<and> OSTCBDly (OSTCBTbl s' 1) = 5"
proof -
  obtain s' where s': "OSTimeDly 5 sample = Some s'" "sets_task sample 1 ((OSTCBTbl sample 1)\<lparr>OSTCBDly := 5\<rparr>) False s'"
    using OSTimeDly_spec [OF sample_kernel_ok sample_may_block, of 5] by auto
  have "{10, 20, 63} - {10::u8} = {20, 63}" by auto
  then show ?thesis
    using s'(1) sets_taskD(3) [OF s'(2)] same_taskD(5) [OF sets_taskD(1) [OF s'(2)]] sample_prio(2)
    by (simp add: sample_ready)
qed

text \<open>The tick count that \<open>OSTimeDlyHMSM\<close> computes in 32-bit arithmetic is exact: one tick for every millisecond, for every
  argument, with no wrap-around.\<close>

theorem hmsm_ticks_exact:
  "unat (hmsm_ticks h m s ms) = ((unat h * 60 + unat m) * 60 + unat s) * 1000 + unat ms"
proof -
  have b: "unat h < 256" "unat m < 256" "unat s < 256" "unat ms < 65536"
    using unsigned_less [of h] unsigned_less [of m] unsigned_less [of s] unsigned_less [of ms] by simp_all
  have u: "unat (ucast h :: u32) = unat h" "unat (ucast m :: u32) = unat m" "unat (ucast s :: u32) = unat s"
    "unat (ucast ms :: u32) = unat ms"
    using b by (simp_all add: unsigned_ucast_eq take_bit_eq_mod)
  have z: "(500 div 1000 :: u32) = 0" by (simp add: word_arith_nat_div)
  have 1: "unat ((ucast h * 3600 + ucast m * 60 + ucast s) * 1000 :: u32) = (unat h * 3600 + unat m * 60 + unat s) * 1000"
    using b by (simp add: unat_word_ariths u)
  have 2: "unat (1000 * (ucast ms :: u32) div 1000) = unat ms"
    using b by (simp add: unat_div unat_word_ariths u)
  show ?thesis
    unfolding hmsm_ticks_def z
    using b 1 2 by (simp add: unat_word_ariths(1))
qed

text \<open>A task whose delay is ended early looks as if its last tick had come.\<close>

lemma prio_slot:
  assumes "kernel_ok s c" "p < 64" "OSTCBPrioTbl s p = TPtr t"
  shows "act s t" "t < OS_MAX_TCBS" "task_ok s t"
  using sched_invD(3,6) [OF kernel_okD(1) [OF assms(1)]] assms(2,3) by (auto simp: act_def)

lemma ended_fits:
  assumes ok: "task_ok s t" and d: "OSTCBDly (OSTCBTbl s t) \<noteq> 0" and i: "prio s t = OS_TASK_IDLE_PRIO \<Longrightarrow> prio s t \<in> ready s"
  shows "task_fits s t (ticked ((OSTCBTbl s t)\<lparr>OSTCBDly := 1\<rparr>)) (\<not> susp (OSTCBTbl s t))"
proof -
  let ?c = "OSTCBTbl s t"
  note t = task_okD [OF ok]
  have nr: "prio s t \<notin> ready s" using t(2) d by (auto simp: rdy_cond_def)
  have "rdy_cond (\<not> susp ?c) (ticked (?c\<lparr>OSTCBDly := 1\<rparr>))"
    by (cases "pend ?c") (simp_all add: rdy_cond_def runnable_def ticked_def pend_def susp_def)
  moreover have "wait_cond (\<not> susp ?c) (emask s e) (ticked (?c\<lparr>OSTCBDly := 1\<rparr>))" if "prio s t \<in> waiters s e" for e
    using t(6) [OF that] d nr by (auto simp: wait_cond_def ticked_def pend_def multi_def)
  moreover have "link_view (ticked (?c\<lparr>OSTCBDly := 1\<rparr>)) = link_view ?c" by simp
  ultimately show ?thesis using t(3,4,5) i nr by (auto simp: task_fits_def)
qed

text \<open>The whole effect of \<open>OSTimeDlyResume\<close> on a delayed task.\<close>

lemma OSTimeDlyResume_delayed:
  assumes p: "p < OS_LOWEST_PRIO" "OSTCBPrioTbl s p = TPtr t" "t < OS_MAX_TCBS" and ok: "tcb_prio_ok (OSTCBTbl s t)"
    and d: "OSTCBDly (OSTCBTbl s t) \<noteq> 0"
  defines "s2 \<equiv> upd_tcb t (\<lambda>_. ticked ((OSTCBTbl s t)\<lparr>OSTCBDly := 1\<rparr>)) s"
  shows "OSTimeDlyResume p s = (if susp (OSTCBTbl s t) then Some (OS_ERR_NONE, s2)
    else do { s' \<leftarrow> OS_Sched (set_rdy_bm (bm_add (prio s t) (rdy_bm s)) s2); Some (OS_ERR_NONE, s') })"
proof -
  let ?s1 = "upd_tcb t (\<lambda>c. c\<lparr>OSTCBDly := 0\<rparr>) s"
  have s2: "pend (OSTCBTbl s t) \<Longrightarrow> upd_tcb t (\<lambda>c. c\<lparr>OSTCBStat := OSTCBStat c AND NOT OS_STAT_PEND_ANY,
        OSTCBStatPend := OS_STAT_PEND_TO\<rparr>) ?s1 = s2"
    "\<not> pend (OSTCBTbl s t) \<Longrightarrow> upd_tcb t (\<lambda>c. c\<lparr>OSTCBStatPend := OS_STAT_PEND_OK\<rparr>) ?s1 = s2"
    by (simp_all add: s2_def upd_tcb_def ticked_def pend_def)
  have "OSTCBStat (OSTCBTbl s2 t) AND OS_STAT_SUSPEND = OSTCBStat (OSTCBTbl s t) AND OS_STAT_SUSPEND"
    by (simp add: s2_def ticked_def)
  moreover have "rdy_ins t s2 = set_rdy_bm (bm_add (prio s t) (rdy_bm s)) s2"
    using ok by (subst rdy_ins_eq) (simp_all add: s2_def)
  moreover have "\<not> OS_LOWEST_PRIO \<le> p" "p \<le> OS_LOWEST_PRIO" using p(1) by auto
  ultimately show ?thesis
    using p d s2
    by (cases "pend (OSTCBTbl s t)") (simp_all add: OSTimeDlyResume_def prio_tbl_def Let_def susp_def, simp_all add: pend_def)
qed

lemma OSTimeDlyResume_ok:
  assumes ok: "kernel_ok s c"
  shows "if p \<ge> OS_LOWEST_PRIO then OSTimeDlyResume p s = Some (OS_ERR_PRIO_INVALID, s)
    else case OSTCBPrioTbl s p of
      TPtr t \<Rightarrow> if OSTCBDly (OSTCBTbl s t) = 0 then OSTimeDlyResume p s = Some (OS_ERR_TIME_NOT_DLY, s)
        else \<exists>s' c'. OSTimeDlyResume p s = Some (OS_ERR_NONE, s') \<and> kernel_ok s' c' \<and>
          sets_task s t (ticked ((OSTCBTbl s t)\<lparr>OSTCBDly := 1\<rparr>)) (\<not> susp (OSTCBTbl s t)) s' \<and>
          (if susp (OSTCBTbl s t) then c' = c else scheduled s s')
    | _ \<Rightarrow> OSTimeDlyResume p s = Some (OS_ERR_TASK_NOT_EXIST, s)"
proof (cases "p \<ge> OS_LOWEST_PRIO")
  case False
  then have p: "p < OS_LOWEST_PRIO" "p \<le> OS_LOWEST_PRIO" "p < 64" by (simp_all add: le_63_less_64 [symmetric])
  show ?thesis
  proof (cases "OSTCBPrioTbl s p")
    case (TPtr t)
    note t = prio_slot [OF ok p(3) TPtr]
    have i: "prio s t = OS_TASK_IDLE_PRIO \<Longrightarrow> prio s t \<in> ready s" using sched_invD(7) [OF kernel_okD(1) [OF ok]] by simp
    show ?thesis
    proof (cases "OSTCBDly (OSTCBTbl s t) = 0")
      case d: False
      let ?tc = "ticked ((OSTCBTbl s t)\<lparr>OSTCBDly := 1\<rparr>)"
      note fits = ended_fits [OF t(3) d i]
      note eval = OSTimeDlyResume_delayed [OF p(1) TPtr t(2) task_okD(1) [OF t(3)] d]
      have nr: "prio s t \<notin> ready s" using task_okD(2) [OF t(3)] d by (auto simp: rdy_cond_def)
      show ?thesis
      proof (cases "susp (OSTCBTbl s t)")
        case True
        then show ?thesis using set_task_only [OF ok t(1), of ?tc] fits nr eval False TPtr d by auto
      next
        case ns: False
        then show ?thesis
          using set_task_sched [OF kernel_ok_base [OF ok] t(1) fits] eval False TPtr d by auto
      qed
    qed (use False TPtr t(2) p in \<open>simp add: OSTimeDlyResume_def prio_tbl_def\<close>)
  qed (use False p in \<open>simp_all add: OSTimeDlyResume_def prio_tbl_def\<close>)
qed (simp add: OSTimeDlyResume_def)

text \<open>\<open>OSTimeDlyResume\<close> on every branch: an invalid, unused or reserved priority and a task that is not delayed are reported
  and nothing changes; otherwise exactly that task's delay ends, as a timeout if it waits for an object, it becomes
  ready unless it is suspended, and then the scheduler runs.\<close>

theorem OSTimeDlyResume_spec:
  assumes ok: "kernel_ok s c"
  shows "if p \<ge> OS_LOWEST_PRIO then OSTimeDlyResume p s = Some (OS_ERR_PRIO_INVALID, s)
    else case OSTCBPrioTbl s p of
      TPtr t \<Rightarrow> if OSTCBDly (OSTCBTbl s t) = 0 then OSTimeDlyResume p s = Some (OS_ERR_TIME_NOT_DLY, s)
        else \<exists>s' c'. OSTimeDlyResume p s = Some (OS_ERR_NONE, s') \<and> kernel_ok s' c' \<and>
          sets_task s t (ticked ((OSTCBTbl s t)\<lparr>OSTCBDly := 1\<rparr>)) (\<not> susp (OSTCBTbl s t)) s' \<and>
          (if susp (OSTCBTbl s t) then c' = c else scheduled s s')
    | _ \<Rightarrow> OSTimeDlyResume p s = Some (OS_ERR_TASK_NOT_EXIST, s)"
  by (rule OSTimeDlyResume_ok [OF assms])

theorem OSTimeDlyResume_spec_witness:
  "\<exists>s'. OSTimeDlyResume 30 sample = Some (OS_ERR_NONE, s') \<and> ready s' = {10, 20, 30, 63} \<and>
     OSTCBStatPend (OSTCBTbl s' 4) = OS_STAT_PEND_TO"
proof -
  have "OSTCBPrioTbl sample 30 = TPtr 4" by (simp add: sample_prios_def)
  moreover have "OSTCBDly (OSTCBTbl sample 4) = 1" "\<not> susp (OSTCBTbl sample 4)" "pend (OSTCBTbl sample 4)"
    by (simp_all add: sample_tasks_def susp_def pend_def)
  ultimately obtain s' where s': "OSTimeDlyResume 30 sample = Some (OS_ERR_NONE, s')"
    "sets_task sample 4 (ticked ((OSTCBTbl sample 4)\<lparr>OSTCBDly := 1\<rparr>)) True s'"
    using OSTimeDlyResume_spec [OF sample_kernel_ok, of 30] by auto
  have "ready s' = {10, 20, 30, 63}" using sets_taskD(3) [OF s'(2)] sample_prio(5) by (auto simp: sample_ready)
  then show ?thesis
    using s'(1) same_taskD(4) [OF sets_taskD(1) [OF s'(2)]] \<open>pend (OSTCBTbl sample 4)\<close>
    by (auto simp: ticked_def pend_def)
qed

end
