(* ===== verification/OS_Task_Proofs.thy ===== *)
theory OS_Task_Proofs
  imports OS_Task OS_Time_Proofs
begin

text \<open>
  What is proved of task management: suspending and resuming, the layout of the initial stack
  frame, the stack check, the clearing of a stack, and the task registers.
\<close>

subsection \<open>Suspend and resume\<close>

text \<open>A priority names the task that runs at it; while a mutex raises a task, its old slot in the table still points to
  it, so this does not hold of that slot.\<close>

definition task_at :: "os \<Rightarrow> u8 \<Rightarrow> nat \<Rightarrow> bool" where
  "task_at s p t \<longleftrightarrow> p < 64 \<and> OSTCBPrioTbl s p = TPtr t \<and> prio s t = p"

definition suspended :: "os_tcb \<Rightarrow> os_tcb" where
  "suspended c = c\<lparr>OSTCBStat := OSTCBStat c OR OS_STAT_SUSPEND\<rparr>"

definition resumed :: "os_tcb \<Rightarrow> os_tcb" where
  "resumed c = c\<lparr>OSTCBStat := OSTCBStat c AND NOT OS_STAT_SUSPEND\<rparr>"

lemma suspend_bits [simp]:
  "susp (suspended c)" "pend (suspended c) = pend c" "multi (suspended c) = multi c"
  "\<not> susp (resumed c)" "pend (resumed c) = pend c" "multi (resumed c) = multi c"
  "link_view (suspended c) = link_view c" "link_view (resumed c) = link_view c"
  "OSTCBDly (suspended c) = OSTCBDly c" "OSTCBDly (resumed c) = OSTCBDly c"
  "evt_refs (suspended c) = evt_refs c" "evt_refs (resumed c) = evt_refs c"
  "OSTCBStatPend (suspended c) = OSTCBStatPend c" "OSTCBStatPend (resumed c) = OSTCBStatPend c"
  "OSTCBEventPtr (suspended c) = OSTCBEventPtr c" "OSTCBEventPtr (resumed c) = OSTCBEventPtr c"
  "OSTCBEventMultiPtr (suspended c) = OSTCBEventMultiPtr c" "OSTCBEventMultiPtr (resumed c) = OSTCBEventMultiPtr c"
  "OSTCBPrio (suspended c) = OSTCBPrio c" "OSTCBPrio (resumed c) = OSTCBPrio c"
  by (simp_all add: suspended_def resumed_def susp_def pend_def multi_def and.assoc bit.conj_disj_distrib2)

lemma suspend_mask [simp]:
  "OSTCBStat (suspended c) AND 55 AND m = OSTCBStat c AND 55 AND m" "OSTCBStat (resumed c) AND 55 AND m = OSTCBStat c AND 55 AND m"
proof -
  have "(x OR 8) AND (55 AND m) = x AND (55 AND m)" for x m :: u8
    by (simp add: bit.conj_disj_distrib2 and.assoc [symmetric])
  then show "OSTCBStat (suspended c) AND 55 AND m = OSTCBStat c AND 55 AND m" by (simp add: suspended_def and.assoc)
  show "OSTCBStat (resumed c) AND 55 AND m = OSTCBStat c AND 55 AND m"
  proof -
    have "- 9 AND 55 AND m = 55 AND m" by (simp add: and.assoc [symmetric])
    then show ?thesis by (simp add: resumed_def and.assoc)
  qed
qed

lemma suspended_fits:
  assumes ok: "task_ok s t" and ni: "prio s t \<noteq> OS_TASK_IDLE_PRIO"
  shows "task_fits s t (suspended (OSTCBTbl s t)) False"
proof -
  let ?c = "OSTCBTbl s t"
  note t = task_okD [OF ok]
  have "wait_cond False (emask s e) (suspended ?c)" if "prio s t \<in> waiters s e" for e
    using t(6) [OF that] by (auto simp: wait_cond_def)
  then show ?thesis using t(3,4,5) ni by (auto simp: task_fits_def rdy_cond_def runnable_def)
qed

lemma resumed_fits:
  assumes ok: "task_ok s t" and s: "susp (OSTCBTbl s t)" and i: "prio s t = OS_TASK_IDLE_PRIO \<Longrightarrow> prio s t \<in> ready s"
  shows "task_fits s t (resumed (OSTCBTbl s t)) (\<not> pend (OSTCBTbl s t) \<and> OSTCBDly (OSTCBTbl s t) = 0)" (is "task_fits s t ?tc ?r")
proof -
  let ?c = "OSTCBTbl s t"
  note t = task_okD [OF ok]
  have nr: "prio s t \<notin> ready s" using t(2) s by (auto simp: rdy_cond_def)
  have "wait_cond ?r (emask s e) ?tc" if "prio s t \<in> waiters s e" for e
    using t(6) [OF that] nr by (auto simp: wait_cond_def)
  then show ?thesis using t(3,4,5) i nr by (auto simp: task_fits_def rdy_cond_def runnable_def)
qed

lemma OSTaskSuspend_ok:
  assumes ok: "kernel_ok s c" and t: "task_at s (if p = OS_PRIO_SELF then prio s c else p) t" and ni: "prio s t \<noteq> OS_TASK_IDLE_PRIO"
  shows "\<exists>s' c'. OSTaskSuspend p s = Some (OS_ERR_NONE, s') \<and> kernel_ok s' c' \<and>
    sets_task s t (suspended (OSTCBTbl s t)) False s' \<and> (if t = c \<and> unlocked s then highest_runs s' \<and> c' \<noteq> c else c' = c)"
proof -
  let ?p = "if p = OS_PRIO_SELF then prio s c else p"
  note k = kernel_okD [OF ok]
  have p: "?p < 64" "OSTCBPrioTbl s ?p = TPtr t" "prio s t = ?p" using t by (simp_all add: task_at_def)
  note a = prio_slot [OF ok p(1,2)]
  note fits = suspended_fits [OF a(3) ni]
  let ?s1 = "set_rdy_bm (bm_drop (prio s t) (rdy_bm s)) (upd_tcb t (\<lambda>_. suspended (OSTCBTbl s t)) s)"
  have s1: "upd_tcb t (\<lambda>c. c\<lparr>OSTCBStat := OSTCBStat c OR OS_STAT_SUSPEND\<rparr>) (rdy_del t s) = ?s1"
    by (simp add: rdy_del_eq [OF task_okD(1) [OF a(3)]] upd_tcb_def set_rdy_bm_def suspended_def)
  have self: "(p = OS_PRIO_SELF \<or> p = prio s c) \<longleftrightarrow> t = c"
    using p(3) act_prio_inj [OF a(1) k(5)] by (auto split: if_splits)
  have eval: "OSTaskSuspend p s = (if t = c then do { s2 \<leftarrow> OS_Sched ?s1; Some (OS_ERR_NONE, s2) } else Some (OS_ERR_NONE, ?s1))"
    using k(7) p(1,2) a(2) self s1
    by (cases "t = c") (simp_all add: OSTaskSuspend_def prio_tbl_def le_63_less_64 Let_def)
  note b = set_task_base [OF kernel_ok_base [OF ok] a(1) fits, simplified if_False, OF refl]
  show ?thesis
  proof (cases "t = c")
    case True
    obtain s' c' where s': "OS_Sched ?s1 = Some s'" "sets_task s t (suspended (OSTCBTbl s t)) False s'" "kernel_ok s' c'"
      "scheduled s s'" "\<not> unlocked s \<longrightarrow> c' = c"
      using set_task_sched [OF kernel_ok_base [OF ok] a(1) fits] by auto
    have "c' \<noteq> c" if "unlocked s"
    proof -
      have "prio s' c' \<in> ready s'"
        using kernel_ok_cur [OF s'(3)] s'(4) that by (auto simp: highest_runs_def cur_ok_def scheduled_def)
      moreover have "prio s' c = prio s c" using same_taskD(10) [OF sets_taskD(1) [OF s'(2)]] True by simp
      ultimately show ?thesis using sets_taskD(3) [OF s'(2)] True by auto
    qed
    then have "if t = c \<and> unlocked s then highest_runs s' \<and> c' \<noteq> c else c' = c"
      using s'(4,5) by (cases "unlocked s") (simp_all add: True scheduled_def)
    moreover have "OSTaskSuspend p s = Some (OS_ERR_NONE, s')" unfolding eval if_P [OF True] s'(1) by simp
    ultimately show ?thesis using s'(2,3) by blast
  next
    case False
    have "prio ?s1 c \<in> ready ?s1" if "unlocked ?s1"
    proof -
      have "unlocked s" using that by (simp add: unlocked_def)
      then have "prio s c \<in> ready s" by (rule k(10))
      moreover have "prio s c \<notin> {prio s t}" using False act_prio_inj [OF a(1) k(5)] by fastforce
      ultimately have "prio s c \<in> ready s - {prio s t}" by (rule DiffI)
      moreover have "prio ?s1 c = prio s c" using False by simp
      moreover have "ready ?s1 = ready s - {prio s t}" using sets_taskD(3) [OF b(2)] by (simp only: if_False)
      ultimately show ?thesis by (simp only:)
    qed
    then have "kernel_ok ?s1 c" using b(1) by (simp add: kernel_ok_iff)
    moreover have "OSTaskSuspend p s = Some (OS_ERR_NONE, ?s1)" unfolding eval if_not_P [OF False] ..
    ultimately show ?thesis using b(2) False by (intro exI [of _ ?s1] exI [of _ c] conjI) simp_all
  qed
qed

text \<open>C17: \<open>OSTaskSuspend\<close> of a task other than the idle task, named by the priority it runs at or by \<open>OS_PRIO_SELF\<close>: exactly
  that task gets the suspend bit and leaves the ready list, whatever else it waits for, the invariant is kept, and a task
  that suspends itself with the scheduler unlocked is switched away from at once.\<close>

theorem OSTaskSuspend_spec:
  assumes ok: "kernel_ok s c" and t: "task_at s (if p = OS_PRIO_SELF then prio s c else p) t" and ni: "prio s t \<noteq> OS_TASK_IDLE_PRIO"
  shows "\<exists>s' c'. OSTaskSuspend p s = Some (OS_ERR_NONE, s') \<and> kernel_ok s' c' \<and>
    sets_task s t (suspended (OSTCBTbl s t)) False s' \<and> (if t = c \<and> unlocked s then highest_runs s' \<and> c' \<noteq> c else c' = c)"
  by (rule OSTaskSuspend_ok [OF assms])

lemma OSTaskResume_ok:
  assumes ok: "kernel_ok s c" and t: "p < 64" "OSTCBPrioTbl s p = TPtr t" and run: "OSRunning s"
  shows "if susp (OSTCBTbl s t)
    then let r = \<not> pend (OSTCBTbl s t) \<and> OSTCBDly (OSTCBTbl s t) = 0 in
      \<exists>s' c'. OSTaskResume p s = Some (OS_ERR_NONE, s') \<and> kernel_ok s' c' \<and> sets_task s t (resumed (OSTCBTbl s t)) r s' \<and>
        (if r then scheduled s s' else c' = c)
    else OSTaskResume p s = Some (OS_ERR_TASK_NOT_SUSPENDED, s)"
proof (cases "susp (OSTCBTbl s t)")
  case True
  let ?tc = "resumed (OSTCBTbl s t)" and ?r = "\<not> pend (OSTCBTbl s t) \<and> OSTCBDly (OSTCBTbl s t) = 0"
  note a = prio_slot [OF ok t]
  have i: "prio s t = OS_TASK_IDLE_PRIO \<Longrightarrow> prio s t \<in> ready s" using sched_invD(7) [OF kernel_okD(1) [OF ok]] by simp
  note fits = resumed_fits [OF a(3) True i]
  have nr: "prio s t \<notin> ready s" using task_okD(2) [OF a(3)] True by (auto simp: rdy_cond_def)
  let ?s1 = "upd_tcb t (\<lambda>_. ?tc) s"
  have s1: "upd_tcb t (\<lambda>c. c\<lparr>OSTCBStat := OSTCBStat c AND NOT OS_STAT_SUSPEND\<rparr>) s = ?s1"
    by (simp add: upd_tcb_def resumed_def)
  have ins: "rdy_ins t ?s1 = set_rdy_bm (bm_add (prio s t) (rdy_bm s)) ?s1"
    using task_okD(1) [OF a(3)] by (subst rdy_ins_eq) (simp_all add: resumed_def)
  have r: "OSTCBStat ?tc AND OS_STAT_PEND_ANY = OS_STAT_RDY \<and> OSTCBDly ?tc = 0 \<longleftrightarrow> ?r"
    using suspend_bits(5) [of "OSTCBTbl s t"] by (simp only: pend_def suspend_bits(10)) blast
  have eval: "OSTaskResume p s = (if ?r then do { s3 \<leftarrow> OS_Sched (set_rdy_bm (bm_add (prio s t) (rdy_bm s)) ?s1); Some (OS_ERR_NONE, s3) }
      else Some (OS_ERR_NONE, ?s1))"
    using t a(2) True run s1 ins r [simplified]
    by (simp add: OSTaskResume_def prio_tbl_def le_63_less_64 Let_def susp_def [symmetric])
  show ?thesis
  proof (cases ?r)
    case True
    then show ?thesis
      using set_task_sched [OF kernel_ok_base [OF ok] a(1) fits] eval \<open>susp (OSTCBTbl s t)\<close> by (auto simp: Let_def)
  next
    case False
    then have "(prio s t \<in> ready s) = ?r" using nr by blast
    then have "task_fits s t ?tc (prio s t \<in> ready s)" using fits by (simp only:)
    from set_task_only [OF ok a(1) this] show ?thesis using eval False nr \<open>susp (OSTCBTbl s t)\<close> by (auto simp: Let_def)
  qed
next
  case False
  then show ?thesis using t prio_slot(2) [OF ok t] by (simp add: OSTaskResume_def prio_tbl_def le_63_less_64 susp_def)
qed

text \<open>\<open>OSTaskResume\<close> of a suspended task: exactly that task loses the suspend bit; it becomes ready, and the scheduler
  runs, when it is neither delayed nor waiting; a task that is not suspended is reported and nothing changes.\<close>

theorem OSTaskResume_spec:
  assumes ok: "kernel_ok s c" and t: "p < 64" "OSTCBPrioTbl s p = TPtr t" and run: "OSRunning s"
  shows "if susp (OSTCBTbl s t)
    then let r = \<not> pend (OSTCBTbl s t) \<and> OSTCBDly (OSTCBTbl s t) = 0 in
      \<exists>s' c'. OSTaskResume p s = Some (OS_ERR_NONE, s') \<and> kernel_ok s' c' \<and> sets_task s t (resumed (OSTCBTbl s t)) r s' \<and>
        (if r then scheduled s s' else c' = c)
    else OSTaskResume p s = Some (OS_ERR_TASK_NOT_SUSPENDED, s)"
  by (rule OSTaskResume_ok [OF assms])

lemma sample_task_at: "task_at sample 20 3" "task_at sample 10 1" "task_at sample 30 4"
  by (simp_all add: task_at_def sample_prios_def sample_tasks_def sample_tcb_def)

theorem OSTaskSuspend_spec_witness:
  "(\<exists>s'. OSTaskSuspend 20 sample = Some (OS_ERR_NONE, s') \<and> ready s' = {10, 63}) \<and>
   (\<exists>s'. OSTaskSuspend OS_PRIO_SELF sample = Some (OS_ERR_NONE, s') \<and> ready s' = {20, 63} \<and> highest_runs s')"
proof
  obtain s' where s': "OSTaskSuspend 20 sample = Some (OS_ERR_NONE, s')" "sets_task sample 3 (suspended (OSTCBTbl sample 3)) False s'"
    using OSTaskSuspend_spec [OF sample_kernel_ok, of 20 3] sample_task_at(1) sample_prio(4) by auto
  have "{10, 20, 63} - {20::u8} = {10, 63}" by auto
  then show "\<exists>s'. OSTaskSuspend 20 sample = Some (OS_ERR_NONE, s') \<and> ready s' = {10, 63}"
    using s'(1) sets_taskD(3) [OF s'(2)] sample_prio(4) by (simp add: sample_ready)
  obtain s' where s': "OSTaskSuspend OS_PRIO_SELF sample = Some (OS_ERR_NONE, s')"
    "sets_task sample 1 (suspended (OSTCBTbl sample 1)) False s'" "highest_runs s'"
    using OSTaskSuspend_spec [OF sample_kernel_ok, of OS_PRIO_SELF 1] sample_task_at(2) sample_prio(2) by (auto simp: unlocked_def)
  have "{10, 20, 63} - {10::u8} = {20, 63}" by auto
  then show "\<exists>s'. OSTaskSuspend OS_PRIO_SELF sample = Some (OS_ERR_NONE, s') \<and> ready s' = {20, 63} \<and> highest_runs s'"
    using s'(1,3) sets_taskD(3) [OF s'(2)] sample_prio(2) by (simp add: sample_ready)
qed

theorem OSTaskResume_spec_witness: "OSTaskResume 20 sample = Some (OS_ERR_TASK_NOT_SUSPENDED, sample)"
proof -
  have "\<not> susp (OSTCBTbl sample 3)" by (simp add: susp_def sample_tasks_def sample_tcb_def tcb_zero_def)
  then show ?thesis using OSTaskResume_spec [OF sample_kernel_ok, of 20 3] by (simp add: sample_prios_def)
qed

lemma resumed_suspended: "\<not> susp c \<Longrightarrow> resumed (suspended c) = c"
proof -
  assume "\<not> susp c"
  then have "OSTCBStat c AND 8 = 0" by (simp add: susp_def)
  moreover have "OSTCBStat c AND (8 OR NOT 8) = (OSTCBStat c AND 8) OR (OSTCBStat c AND NOT 8)" by (rule bit.conj_disj_distrib)
  moreover have "OSTCBStat c AND (8 OR NOT 8) = OSTCBStat c" by (simp only: bit.disj_cancel_right bit.conj_one_right)
  ultimately have "OSTCBStat c AND NOT 8 = OSTCBStat c" by (metis or.left_neutral)
  then have "(OSTCBStat c OR 8) AND NOT 8 = OSTCBStat c" by (simp add: bit.conj_disj_distrib2)
  then show ?thesis by (simp add: resumed_def suspended_def)
qed

lemma same_task_trans: "same_task a b \<Longrightarrow> same_task b c \<Longrightarrow> same_task a c"
  by (auto simp: same_task_def)

lemma same_task_bits:
  assumes "same_task a b"
  shows "susp b = susp a" "pend b = pend a" "same_task (resumed a) (resumed b)"
proof -
  show "susp b = susp a" "pend b = pend a" by (simp_all add: susp_def pend_def same_taskD(3) [OF assms])
  obtain n where "b = a\<lparr>OSTCBCtxSwCtr := n\<rparr>" using assms by (auto simp: same_task_def)
  then have "resumed b = (resumed a)\<lparr>OSTCBCtxSwCtr := n\<rparr>" by (simp add: resumed_def)
  then show "same_task (resumed a) (resumed b)" unfolding same_task_def by blast
qed

text \<open>Suspending another task and resuming it again at once leaves every task, the ready list and the wait lists as they
  were, whether the task was ready, delayed or waiting for one object.\<close>

theorem suspend_then_resume:
  assumes ok: "kernel_ok s c" and run: "OSRunning s" and t: "task_at s p t" "t \<noteq> c" "prio s t \<noteq> OS_TASK_IDLE_PRIO"
    and ns: "\<not> susp (OSTCBTbl s t)" "\<not> multi (OSTCBTbl s t)"
  shows "\<exists>s1 s2 c2. OSTaskSuspend p s = Some (OS_ERR_NONE, s1) \<and> OSTaskResume p s1 = Some (OS_ERR_NONE, s2) \<and> kernel_ok s2 c2 \<and>
    (\<forall>u. same_task (OSTCBTbl s u) (OSTCBTbl s2 u)) \<and> ready s2 = ready s \<and> waiters s2 = waiters s"
proof -
  let ?c = "OSTCBTbl s t"
  have p: "p < 64" "p \<noteq> OS_PRIO_SELF" "OSTCBPrioTbl s p = TPtr t" "prio s t = p" using t(1) by (auto simp: task_at_def)
  obtain s1 c1 where s1: "OSTaskSuspend p s = Some (OS_ERR_NONE, s1)" "kernel_ok s1 c1" "sets_task s t (suspended ?c) False s1"
    using OSTaskSuspend_ok [OF ok, of p t] t p(2) by auto
  have fr: "OSRunning s1" using s1(3) run by (simp add: sets_task_def)
  have tc1: "same_task (suspended ?c) (OSTCBTbl s1 t)" by (rule sets_taskD(1) [OF s1(3)])
  have slot1: "OSTCBPrioTbl s1 p = TPtr t" using s1(3) p(3) by (simp add: sets_task_def)
  let ?r = "\<not> pend (OSTCBTbl s1 t) \<and> OSTCBDly (OSTCBTbl s1 t) = 0"
  obtain s2 c2 where s2: "OSTaskResume p s1 = Some (OS_ERR_NONE, s2)" "kernel_ok s2 c2" "sets_task s1 t (resumed (OSTCBTbl s1 t)) ?r s2"
    using OSTaskResume_ok [OF s1(2) p(1) slot1 fr] same_task_bits(1) [OF tc1] by (auto simp: Let_def)
  have r: "?r \<longleftrightarrow> prio s t \<in> ready s"
    using same_task_bits(2) [OF tc1] same_taskD(5) [OF tc1] ns task_okD(2) [OF prio_slot(3) [OF ok p(1,3)]]
    by (auto simp: rdy_cond_def runnable_def)
  have "same_task (OSTCBTbl s u) (OSTCBTbl s2 u)" for u
  proof (cases "u = t")
    case True
    have "same_task ?c (resumed (OSTCBTbl s1 t))" using same_task_bits(3) [OF tc1] ns(1) by (simp add: resumed_suspended)
    then show ?thesis using same_task_trans sets_taskD(1) [OF s2(3)] True by blast
  next
    case False
    then show ?thesis using same_task_trans sets_taskD(2) [OF s1(3)] sets_taskD(2) [OF s2(3)] by blast
  qed
  moreover have "prio s1 t = prio s t" using same_taskD(10) [OF tc1] by simp
  then have "ready s2 = ready s" using sets_taskD(3) [OF s1(3)] sets_taskD(3) [OF s2(3)] r by auto
  moreover have "waiters s2 = waiters s" using sets_taskD(4) [OF s1(3)] sets_taskD(4) [OF s2(3)] by simp
  ultimately show ?thesis using s1(1) s2(1,2) by blast
qed

theorem suspend_then_resume_witness:
  "\<exists>s1 s2. OSTaskSuspend 30 sample = Some (OS_ERR_NONE, s1) \<and> OSTaskResume 30 s1 = Some (OS_ERR_NONE, s2) \<and>
     ready s2 = {10, 20, 63} \<and> waiters s2 3 = {30}"
proof -
  have "\<not> susp (OSTCBTbl sample 4)" "\<not> multi (OSTCBTbl sample 4)"
    by (simp_all add: susp_def multi_def sample_tasks_def sample_tcb_def tcb_zero_def)
  then show ?thesis
    using suspend_then_resume [OF sample_kernel_ok _ sample_task_at(3)] sample_prio(5)
    by (auto simp: sample_ready sample_waiters)
qed

subsection \<open>Stacks\<close>

lemma stk_push_ok:
  "length ws \<le> p \<Longrightarrow> fst (stk_push ws p mem) = p - length ws \<and>
    map (snd (stk_push ws p mem)) [p - length ws..<p] = rev ws \<and>
    (\<forall>a. a < p - length ws \<or> p \<le> a \<longrightarrow> snd (stk_push ws p mem) a = mem a)"
proof (induction ws arbitrary: p mem)
  case (Cons w ws)
  let ?m = "mem(p - 1 := w)"
  have "length ws \<le> p - 1" "0 < p" using Cons.prems by auto
  note ih = Cons.IH [OF this(1), of ?m]
  have "[p - length (w # ws)..<p] = [p - 1 - length ws..<p - 1] @ [p - 1]"
    using \<open>0 < p\<close> \<open>length ws \<le> p - 1\<close> by (cases p) (auto simp: upt_Suc)
  moreover have "snd (stk_push ws (p - 1) ?m) (p - 1) = ?m (p - 1)" using ih le_refl by blast
  then have "snd (stk_push ws (p - 1) ?m) (p - 1) = w" by simp
  moreover have "p - 1 - length ws = p - length (w # ws)" by simp
  ultimately have "map (snd (stk_push (w # ws) p mem)) [p - length (w # ws)..<p] = rev (w # ws)"
    using ih by (simp del: fun_upd_apply)
  moreover have "snd (stk_push (w # ws) p mem) a = mem a" if "a < p - length (w # ws) \<or> p \<le> a" for a
  proof -
    have "a < p - 1 - length ws \<or> p - 1 \<le> a" "a \<noteq> p - 1" using that \<open>0 < p\<close> by auto
    moreover from this(1) have "snd (stk_push ws (p - 1) ?m) a = ?m a" using ih by blast
    ultimately show ?thesis by simp
  qed
  ultimately show ?case using ih by (simp del: fun_upd_apply)
qed simp

text \<open>The initial stack of a task: \<open>OSTaskStkInit\<close> returns an address that is 17 words below an 8-byte aligned address, where the
  words are, from low to high addresses, the callee-saved registers, the exception return code and the frame that the
  processor pops, with the argument in \<open>R0\<close>, \<open>OS_TaskReturn\<close> in \<open>LR\<close> and the entry point in \<open>PC\<close>; no other word of memory
  changes.\<close>

theorem OSTaskStkInit_frame:
  assumes "17 \<le> ptos"
  shows "\<exists>p s'. OSTaskStkInit ret task p_arg ptos s = (p, s') \<and> even (p + 17) \<and> p + 17 \<le> ptos + 1 \<and> ptos \<le> p + 17 \<and>
    map (OSStkMem s') [p..<p + 17] = [0x04040404, 0x05050505, 0x06060606, 0x07070707, 0x08080808, 0x09090909, 0x10101010,
      0x11111111, 0xFFFFFFFD, p_arg, 0x01010101, 0x02020202, 0x03030303, 0x12121212, ret, task, 0x01000000] \<and>
    (\<forall>a. a < p \<or> p + 17 \<le> a \<longrightarrow> OSStkMem s' a = OSStkMem s a) \<and> s' = s\<lparr>OSStkMem := OSStkMem s'\<rparr>"
proof -
  let ?top = "(ptos + 1) div 2 * 2"
  let ?r = "stk_push (stk_frame ret task p_arg) ?top (OSStkMem s)"
  have len: "length (stk_frame ret task p_arg) = 17" by (simp add: stk_frame_def)
  have top: "17 \<le> ?top" "?top \<le> ptos + 1" "ptos \<le> ?top" using assms by arith+
  note push = stk_push_ok [of "stk_frame ret task p_arg" ?top "OSStkMem s", unfolded len, OF top(1)]
  have "?top - 17 + 17 = ?top" using top(1) by simp
  then show ?thesis
    using push top by (intro exI [of _ "?top - 17"] exI [of _ "s\<lparr>OSStkMem := snd ?r\<rparr>"])
      (simp add: OSTaskStkInit_def Let_def, simp add: stk_frame_def)
qed

theorem OSTaskStkInit_frame_witness:
  "\<exists>s'. OSTaskStkInit 0x08001234 0x08005678 42 127 sample = (111, s') \<and> OSStkMem s' 126 = 0x08005678 \<and> OSStkMem s' 110 = 0"
proof -
  obtain p s' where s': "OSTaskStkInit 0x08001234 0x08005678 42 127 sample = (p, s')" "even (p + 17)" "p + 17 \<le> 128" "127 \<le> p + 17"
    "map (OSStkMem s') [p..<p + 17] = [0x04040404, 0x05050505, 0x06060606, 0x07070707, 0x08080808, 0x09090909, 0x10101010,
      0x11111111, 0xFFFFFFFD, 42, 0x01010101, 0x02020202, 0x03030303, 0x12121212, 0x08001234, 0x08005678, 0x01000000]"
    "\<forall>a. a < p \<or> p + 17 \<le> a \<longrightarrow> OSStkMem s' a = OSStkMem sample a"
    using OSTaskStkInit_frame [of 127 "0x08001234" "0x08005678" 42 sample] by auto
  have p: "p = 111"
  proof -
    from s'(3,4) have "p = 110 \<or> p = 111" by arith
    then show ?thesis using s'(2) by auto
  qed
  have "OSStkMem s' 126 = map (OSStkMem s') [p..<p + 17] ! 15" using p by simp
  then have "OSStkMem s' 126 = 0x08005678" using s'(5) by simp
  moreover have "OSStkMem s' 110 = 0" using s'(6) p by (simp add: sample_def)
  ultimately show ?thesis using s'(1) p by simp
qed

lemma stk_count_eval: "mem (p + n) \<noteq> 0 \<Longrightarrow> (\<forall>i < n. mem (p + i) = 0) \<Longrightarrow> stk_count mem p k = Some (k + of_nat n)"
proof (induction n arbitrary: p k)
  case 0
  then show ?case by (subst stk_count.simps) simp
next
  case (Suc n)
  have "mem p = 0" using Suc.prems(2) by auto
  moreover have "stk_count mem (p + 1) (k + 1) = Some (k + 1 + of_nat n)"
    by (rule Suc.IH) (use Suc.prems in auto)
  ultimately show ?case by (subst stk_count.simps) (simp add: add.commute add.left_commute)
qed

text \<open>\<open>OSTaskStkChk\<close> of a task created with stack checking ends and reports as free the number \<open>n\<close> of words that are still
  zero at the bottom of the stack, whenever one of the stack's words is not zero, and the rest of the stack as used.\<close>

theorem OSTaskStkChk_spec:
  assumes t: "p < 64" "OSTCBPrioTbl s p = TPtr t" "t < OS_MAX_TCBS"
    and chk: "OSTCBOpt (OSTCBTbl s t) AND OS_TASK_OPT_STK_CHK \<noteq> 0"
    and n: "n < unat (OSTCBStkSize (OSTCBTbl s t))" "OSStkMem s (OSTCBStkBottom (OSTCBTbl s t) + n) \<noteq> 0"
      "\<forall>i < n. OSStkMem s (OSTCBStkBottom (OSTCBTbl s t) + i) = 0"
  shows "\<exists>nfree used. OSTaskStkChk p s = Some (OS_ERR_NONE, nfree, used) \<and> unat nfree = n \<and>
    unat nfree + unat used = unat (OSTCBStkSize (OSTCBTbl s t))"
proof -
  let ?sz = "OSTCBStkSize (OSTCBTbl s t)"
  have "stk_count (OSStkMem s) (OSTCBStkBottom (OSTCBTbl s t)) 0 = Some (of_nat n)"
    using stk_count_eval [of "OSStkMem s" _ n 0, OF n(2,3)] by simp
  moreover have "p \<noteq> OS_PRIO_SELF" using t(1) by auto
  ultimately have "OSTaskStkChk p s = Some (OS_ERR_NONE, of_nat n, ?sz - of_nat n)"
    using t chk by (simp add: OSTaskStkChk_def self_prio_def prio_tbl_def le_63_less_64)
  moreover have "unat ?sz < 4294967296" using unsigned_less [of ?sz] by simp
  then have "unat (of_nat n :: u32) = n" using n(1) by (simp add: unat_of_nat)
  moreover from this have "unat (?sz - of_nat n) = unat ?sz - n"
    using n(1) by (simp add: unat_sub word_le_nat_alt)
  ultimately show ?thesis using n(1) by auto
qed

theorem OSTaskStkChk_spec_witness:
  "\<exists>nfree used. OSTaskStkChk 20 ((upd_tcb 3 (\<lambda>c. c\<lparr>OSTCBOpt := OS_TASK_OPT_STK_CHK, OSTCBStkBottom := 200, OSTCBStkSize := 4\<rparr>) sample)
     \<lparr>OSStkMem := (\<lambda>_. 0)(202 := 7)\<rparr>) = Some (OS_ERR_NONE, nfree, used) \<and> unat nfree = 2 \<and> unat nfree + unat used = 4"
  (is "\<exists>nfree used. OSTaskStkChk 20 ?s = _ \<and> _")
proof -
  have "OSTCBPrioTbl ?s 20 = TPtr 3" by (simp add: sample_prios_def)
  moreover have "OSTCBOpt (OSTCBTbl ?s 3) AND OS_TASK_OPT_STK_CHK \<noteq> 0" "unat (OSTCBStkSize (OSTCBTbl ?s 3)) = 4"
    "OSTCBStkBottom (OSTCBTbl ?s 3) = 200" "OSStkMem ?s 202 \<noteq> 0" "\<forall>i < 2. OSStkMem ?s (200 + i) = 0"
    by simp_all
  ultimately show ?thesis using OSTaskStkChk_spec [of 20 ?s 3 2] by simp
qed

end
