(* ===== verification/OS_Frame.thy ===== *)
theory OS_Frame
  imports OS_Sem OS_Mbox OS_Q_Proofs OS_Task_Proofs
begin

text \<open>
  What no service of the kernel touches: the nesting counters and, while they forbid a switch, the
  running task. These are statements of partial correctness, independent of the invariant; that the
  services do return is part of their own specifications.
\<close>

definition ctx_keeps :: "os \<Rightarrow> os \<Rightarrow> bool" where
  "ctx_keeps s s' \<longleftrightarrow> OSRunning s' = OSRunning s \<and> OSIntNesting s' = OSIntNesting s \<and>
     OSLockNesting s' = OSLockNesting s \<and> (\<not> unlocked s \<longrightarrow> OSTCBCur s' = OSTCBCur s)"

named_theorems ctx_frame \<open>steps that keep the context\<close>

lemma ctx_keeps_refl [simp]: "ctx_keeps s s"
  by (simp add: ctx_keeps_def)

lemma ctx_keeps_trans: "ctx_keeps s s1 \<Longrightarrow> ctx_keeps s1 s2 \<Longrightarrow> ctx_keeps s s2"
  by (auto simp: ctx_keeps_def unlocked_def)

text \<open>Assignments to anything else.\<close>

lemma ctx_keepsI:
  "OSRunning s' = OSRunning s1 \<Longrightarrow> OSIntNesting s' = OSIntNesting s1 \<Longrightarrow> OSLockNesting s' = OSLockNesting s1 \<Longrightarrow>
    OSTCBCur s' = OSTCBCur s1 \<Longrightarrow> ctx_keeps s s' = ctx_keeps s s1"
  by (simp add: ctx_keeps_def)

lemma ctx_keeps_upd [simp]:
  "ctx_keeps s (upd_tcb t f s1) = ctx_keeps s s1" "ctx_keeps s (upd_evt e g s1) = ctx_keeps s s1"
  "ctx_keeps s (upd_q q h s1) = ctx_keeps s s1" "ctx_keeps s (set_rdy_bm m s1) = ctx_keeps s s1"
  "ctx_keeps s (rdy_ins t s1) = ctx_keeps s s1" "ctx_keeps s (rdy_del t s1) = ctx_keeps s s1"
  "ctx_keeps s (wait_ins t e s1) = ctx_keeps s s1" "ctx_keeps s (wait_del t e s1) = ctx_keeps s s1"
  "ctx_keeps s (event_release e s1) = ctx_keeps s s1" "ctx_keeps s (q_put q v s1) = ctx_keeps s s1"
  "ctx_keeps s (q_put_front q v s1) = ctx_keeps s s1" "ctx_keeps s (snd (q_get q s1)) = ctx_keeps s s1"
  "ctx_keeps s (s1\<lparr>OSEventFreeList := fl\<rparr>) = ctx_keeps s s1" "ctx_keeps s (s1\<lparr>OSQFreeList := ql\<rparr>) = ctx_keeps s s1"
  "ctx_keeps s (OS_EventWaitListInit e s1) = ctx_keeps s s1" "ctx_keeps s (pend_clear t s1) = ctx_keeps s s1"
  by (rule ctx_keepsI; simp add: upd_tcb_def upd_evt_def upd_q_def event_release_def q_put_def q_put_front_def q_get_def
      OS_EventWaitListInit_def pend_clear_def Let_def)+

lemma ctx_keeps_upd_left [simp]:
  "ctx_keeps (upd_tcb t f s1) s = ctx_keeps s1 s" "ctx_keeps (upd_evt e g s1) s = ctx_keeps s1 s"
  "ctx_keeps (set_rdy_bm m s1) s = ctx_keeps s1 s" "ctx_keeps (rdy_del t s1) s = ctx_keeps s1 s" "ctx_keeps (rdy_ins t s1) s = ctx_keeps s1 s"
  "ctx_keeps (wait_del t e s1) s = ctx_keeps s1 s" "ctx_keeps (wait_ins t e s1) s = ctx_keeps s1 s"
  "ctx_keeps (event_release e s1) s = ctx_keeps s1 s"
  by (simp_all add: ctx_keeps_def unlocked_def) (simp_all add: upd_evt_def event_release_def)

lemma ctx_keeps_if [simp]:
  "ctx_keeps s (if b then s1 else s2) = (if b then ctx_keeps s s1 else ctx_keeps s s2)"
  "ctx_keeps (if b then s1 else s2) s = (if b then ctx_keeps s1 s else ctx_keeps s2 s)"
  by simp_all

lemma bindE:
  assumes "Option.bind m f = Some r"
  obtains a where "m = Some a" "f a = Some r"
  using assms by (auto simp: bind_Some_iff)

lemma sched_switch_ctx: "sched_switch s = Some s' \<Longrightarrow>
    OSRunning s' = OSRunning s \<and> OSIntNesting s' = OSIntNesting s \<and> OSLockNesting s' = OSLockNesting s"
  by (auto simp: sched_switch_def Let_def bind_Some_iff PendSV_Handler_def OS_SchedNew_def upd_tcb_def split: if_splits)

lemma OS_Sched_ctx [ctx_frame]: "OS_Sched s = Some s' \<Longrightarrow> ctx_keeps s s'"
  using sched_switch_ctx [of s s'] by (auto simp: OS_Sched_def ctx_keeps_def unlocked_def split: if_splits)

lemma OS_EventTaskRemove_ctx [ctx_frame]: "OS_EventTaskRemove t e s = Some s' \<Longrightarrow> ctx_keeps s s'"
  by (auto simp: OS_EventTaskRemove_def bind_Some_iff)

lemma OS_EventTaskRemoveMulti_ctx [ctx_frame]: "OS_EventTaskRemoveMulti t es s = Some s' \<Longrightarrow> ctx_keeps s s'"
proof (induction es arbitrary: s)
  case (Cons e es)
  then obtain "OS_EventTaskRemoveMulti t es (wait_del t e s) = Some s'" by (auto simp: bind_Some_iff)
  from Cons.IH [OF this] show ?case by (rule ctx_keeps_trans [rotated]) simp
qed simp

lemma OS_EventTaskRdy_ctx [ctx_frame]: "OS_EventTaskRdy e m msk ps s = Some r \<Longrightarrow> ctx_keeps s (snd r)"
  unfolding OS_EventTaskRdy_def Let_def
  by (elim bindE, drule OS_EventTaskRemove_ctx, simp split: if_splits option.splits)
    (auto elim!: bindE dest!: OS_EventTaskRemoveMulti_ctx elim: ctx_keeps_trans)

lemma event_rdy_all_ctx [ctx_frame]:
  assumes "event_rdy_all e m msk ps n s = Some r"
  shows "ctx_keeps s (snd r)"
  using _ assms
proof (rule event_rdy_all.raw_induct [where P = "\<lambda>e m msk ps n s r. ctx_keeps s (snd r)"])
  fix rec :: "nat \<Rightarrow> vptr \<Rightarrow> u8 \<Rightarrow> u8 \<Rightarrow> u8 \<Rightarrow> os \<Rightarrow> (u8 \<times> os) option" and e m msk ps n s r
  assume IH: "\<And>e m msk ps n s r. rec e m msk ps n s = Some r \<Longrightarrow> ctx_keeps s (snd r)"
    and step: "do {
         ev \<leftarrow> evt s e;
         if OSEventGrp ev = 0 then Some (n, s)
         else do { q \<leftarrow> OS_EventTaskRdy e m msk ps s; rec e m msk ps (n + 1) (snd q) }
       } = Some r"
  show "ctx_keeps s (snd r)"
    using step by (auto split: if_splits elim!: bindE intro: ctx_keeps_trans [OF OS_EventTaskRdy_ctx IH])
qed

subsection \<open>The services\<close>

lemma pend_block_ctx [ctx_frame]: "pend_block b e timeout s = Some s' \<Longrightarrow> ctx_keeps s s'"
  by (auto simp: pend_block_def OS_EventTaskWait_def elim!: bindE)

lemma pend_abort_ctx [ctx_frame]: "pend_abort b e opt s = Some (n, err, s') \<Longrightarrow> ctx_keeps s s'"
  unfolding pend_abort_def
  by (auto split: if_splits elim!: bindE dest!: event_rdy_all_ctx OS_EventTaskRdy_ctx OS_Sched_ctx elim: ctx_keeps_trans)

lemma event_del_ctx:
  assumes "event_del b rel e opt s = Some (p, err, s')" and "\<And>s s'. rel e s = Some s' \<Longrightarrow> ctx_keeps s s'"
  shows "ctx_keeps s s'"
  using assms(1) unfolding event_del_def Let_def
  by (auto split: if_splits elim!: bindE dest!: event_rdy_all_ctx OS_Sched_ctx assms(2)) (meson ctx_keeps_trans)+

lemma OSSemPost_ctx [ctx_frame]: "OSSemPost e s = Some (err, s') \<Longrightarrow> ctx_keeps s s'"
  unfolding OSSemPost_def
  by (auto split: if_splits elim!: bindE dest!: OS_EventTaskRdy_ctx OS_Sched_ctx elim: ctx_keeps_trans)

lemma OSSemPend_ctx [ctx_frame]: "OSSemPend e timeout s = Some (r, s') \<Longrightarrow> ctx_keeps s s'"
  unfolding OSSemPend_def
  by (auto split: if_splits elim!: bindE dest!: pend_block_ctx OS_Sched_ctx elim: ctx_keeps_trans)

lemma OSSemDel_ctx [ctx_frame]: "OSSemDel e opt s = Some (p, err, s') \<Longrightarrow> ctx_keeps s s'"
  unfolding OSSemDel_def by (auto split: if_splits elim!: bindE dest!: event_del_ctx)

lemma OSMboxPost_ctx [ctx_frame]: "OSMboxPost e m s = Some (err, s') \<Longrightarrow> ctx_keeps s s'"
  unfolding OSMboxPost_def Let_def
  by (auto split: if_splits elim!: bindE dest!: OS_EventTaskRdy_ctx OS_Sched_ctx elim: ctx_keeps_trans)

lemma OSMboxPostOpt_ctx [ctx_frame]: "OSMboxPostOpt e m opt s = Some (err, s') \<Longrightarrow> ctx_keeps s s'"
  unfolding OSMboxPostOpt_def
  by (auto split: if_splits elim!: bindE dest!: event_rdy_all_ctx OS_EventTaskRdy_ctx OS_Sched_ctx) (meson ctx_keeps_trans)+

lemma OSMboxPend_ctx [ctx_frame]: "OSMboxPend e timeout s = Some (r, s') \<Longrightarrow> ctx_keeps s s'"
  unfolding OSMboxPend_def Let_def
  by (auto split: if_splits elim!: bindE dest!: pend_block_ctx OS_Sched_ctx elim: ctx_keeps_trans)

lemma OSMboxDel_ctx [ctx_frame]: "OSMboxDel e opt s = Some (p, err, s') \<Longrightarrow> ctx_keeps s s'"
  unfolding OSMboxDel_def by (auto split: if_splits elim!: bindE dest!: event_del_ctx)

lemma q_release_ctx: "q_release e s = Some s' \<Longrightarrow> ctx_keeps s s'"
  by (auto simp: q_release_def Let_def elim!: bindE)

lemma OSQPost_ctx [ctx_frame]: "OSQPost e m s = Some (err, s') \<Longrightarrow> ctx_keeps s s'"
  unfolding OSQPost_def
  by (auto split: if_splits elim!: bindE dest!: OS_EventTaskRdy_ctx OS_Sched_ctx) (meson ctx_keeps_trans)+

lemma OSQPostFront_ctx [ctx_frame]: "OSQPostFront e m s = Some (err, s') \<Longrightarrow> ctx_keeps s s'"
  unfolding OSQPostFront_def
  by (auto split: if_splits elim!: bindE dest!: OS_EventTaskRdy_ctx OS_Sched_ctx) (meson ctx_keeps_trans)+

lemma OSQPostOpt_ctx [ctx_frame]: "OSQPostOpt e m opt s = Some (err, s') \<Longrightarrow> ctx_keeps s s'"
  unfolding OSQPostOpt_def
  by (auto split: if_splits elim!: bindE dest!: event_rdy_all_ctx OS_EventTaskRdy_ctx OS_Sched_ctx) (meson ctx_keeps_trans)+

lemma OSQPend_ctx [ctx_frame]: "OSQPend e timeout s = Some (r, s') \<Longrightarrow> ctx_keeps s s'"
  unfolding OSQPend_def Let_def
  by (auto split: if_splits elim!: bindE dest!: pend_block_ctx OS_Sched_ctx) (meson ctx_keeps_trans)+

lemma OSQDel_ctx [ctx_frame]: "OSQDel e opt s = Some (p, err, s') \<Longrightarrow> ctx_keeps s s'"
  unfolding OSQDel_def by (auto split: if_splits elim!: bindE dest!: event_del_ctx q_release_ctx)

lemma OSTimeDly_ctx [ctx_frame]: "OSTimeDly ticks s = Some s' \<Longrightarrow> ctx_keeps s s'"
  unfolding OSTimeDly_def by (auto split: if_splits elim!: bindE dest!: OS_Sched_ctx)

lemma OSTimeDlyResume_ctx [ctx_frame]: "OSTimeDlyResume p s = Some (err, s') \<Longrightarrow> ctx_keeps s s'"
  unfolding OSTimeDlyResume_def Let_def by (auto split: if_splits elim!: bindE dest!: OS_Sched_ctx)

lemma OSTaskSuspend_ctx [ctx_frame]: "OSTaskSuspend p s = Some (err, s') \<Longrightarrow> ctx_keeps s s'"
  unfolding OSTaskSuspend_def Let_def by (auto split: if_splits elim!: bindE dest!: OS_Sched_ctx)

lemma OSTaskResume_ctx [ctx_frame]: "OSTaskResume p s = Some (err, s') \<Longrightarrow> ctx_keeps s s'"
  unfolding OSTaskResume_def Let_def by (auto split: if_splits elim!: bindE dest!: OS_Sched_ctx)

end
