(* ===== verification/OS_Create.thy ===== *)
theory OS_Create
  imports OS_Task OS_Scheduler
begin

text \<open>
  Creation of tasks: \<open>OS_TCBInit\<close>, \<open>OSTaskCreate\<close> and \<open>OSTaskCreateExt\<close>. The lemmas start from a weaker
  invariant than \<open>sched_inv\<close>, which does not ask for the idle task yet, so that \<open>OSInit\<close> can use them.
\<close>

subsection \<open>The invariant before the idle task exists\<close>

definition sched_inv0 :: "os \<Rightarrow> bool" where
  "sched_inv0 s \<longleftrightarrow> bm_ok (rdy_bm s) \<and> (\<forall>e. bm_ok (evt_bm (OSEvents s e))) \<and>
     (\<forall>p t. p < 64 \<longrightarrow> OSTCBPrioTbl s p = TPtr t \<longrightarrow> act s t) \<and>
     (\<forall>p \<in> ready s. \<exists>t. act s t \<and> prio s t = p) \<and>
     (\<forall>e. \<forall>p \<in> waiters s e. \<exists>t. act s t \<and> prio s t = p) \<and>
     (\<forall>t. act s t \<longrightarrow> task_ok s t)"

definition task_lists0 :: "os \<Rightarrow> nat list \<Rightarrow> nat list \<Rightarrow> bool" where
  "task_lists0 s ts fs \<longleftrightarrow> tcb_seg (OSTCBTbl s) TNull (OSTCBList s) ts \<and> free_seg (OSTCBTbl s) (OSTCBFreeList s) fs \<and>
     distinct (ts @ fs) \<and> set ts = {t. act s t}"

lemma sched_inv0_iff: "sched_inv s \<longleftrightarrow> sched_inv0 s \<and> OS_TASK_IDLE_PRIO \<in> ready s"
  by (auto simp: sched_inv_def sched_inv0_def)

lemma task_lists0_iff: "task_lists s ts fs \<longleftrightarrow> task_lists0 s ts fs \<and> ts \<noteq> [] \<and> prio s (last ts) = OS_TASK_IDLE_PRIO"
  by (auto simp: task_lists_def task_lists0_def)

lemma sched_inv0D:
  assumes "sched_inv0 s"
  shows "bm_ok (rdy_bm s)" and "bm_ok (evt_bm (OSEvents s e))"
    and "p < 64 \<Longrightarrow> OSTCBPrioTbl s p = TPtr t \<Longrightarrow> act s t"
    and "p \<in> ready s \<Longrightarrow> \<exists>t. act s t \<and> prio s t = p"
    and "p \<in> waiters s e \<Longrightarrow> \<exists>t. act s t \<and> prio s t = p"
    and "act s t \<Longrightarrow> task_ok s t"
  using assms by (auto simp: sched_inv0_def)

subsection \<open>A control block for the new task\<close>

text \<open>The fields that \<open>OS_TCBInit\<close> sets and the scheduler looks at.\<close>

definition new_tcb :: "u8 \<Rightarrow> os_tcb \<Rightarrow> bool" where
  "new_tcb pr c \<longleftrightarrow> tcb_prio_ok c \<and> OSTCBPrio c = pr \<and> OSTCBStat c = OS_STAT_RDY \<and> OSTCBStatPend c = OS_STAT_PEND_OK \<and>
     OSTCBDly c = 0 \<and> OSTCBEventPtr c = None \<and> OSTCBEventMultiPtr c = None \<and> OSTCBFlagNode c = None \<and> OSTCBDelReq c = OS_ERR_NONE"

lemma tcb_prio_ok_new: "pr < 64 \<Longrightarrow> OSTCBPrio c = pr \<Longrightarrow> OSTCBY c = drop_bit 3 pr \<Longrightarrow> OSTCBX c = pr AND 7 \<Longrightarrow>
    OSTCBBitY c = shl1 (drop_bit 3 pr) \<Longrightarrow> OSTCBBitX c = shl1 (pr AND 7) \<Longrightarrow> tcb_prio_ok c"
  by (simp add: tcb_prio_ok_def)

text \<open>\<open>s'\<close> is \<open>s\<close> with the new task \<open>t\<close> at priority \<open>pr\<close>, ready, at the head of the list of tasks.\<close>

definition adds_task :: "os \<Rightarrow> u8 \<Rightarrow> nat \<Rightarrow> os \<Rightarrow> bool" where
  "adds_task s pr t s' \<longleftrightarrow> new_tcb pr (OSTCBTbl s' t) \<and>
     (\<forall>u. u \<noteq> t \<longrightarrow> (\<exists>pv. OSTCBTbl s' u = (OSTCBTbl s u)\<lparr>OSTCBPrev := pv\<rparr>)) \<and>
     OSTCBPrioTbl s' = (OSTCBPrioTbl s)(pr := TPtr t) \<and> OSEvents s' = OSEvents s \<and>
     rdy_bm s' = bm_add pr (rdy_bm s) \<and> OSTCBList s' = TPtr t \<and>
     OSTCBCur s' = OSTCBCur s \<and> OSPrioCur s' = OSPrioCur s \<and> OSIntNesting s' = OSIntNesting s \<and> OSLockNesting s' = OSLockNesting s \<and>
     OSRunning s' = OSRunning s \<and> OSQTbl s' = OSQTbl s \<and> OSQFreeList s' = OSQFreeList s \<and> OSMsgMem s' = OSMsgMem s \<and>
     OSEventFreeList s' = OSEventFreeList s \<and> OSTime s' = OSTime s \<and> OSTaskCtr s' = OSTaskCtr s + 1"

lemma adds_task_view:
  assumes "adds_task s pr t s'" "u \<noteq> t"
  shows "sched_view (OSTCBTbl s' u) = sched_view (OSTCBTbl s u)" "prio s' u = prio s u" "OSTCBNext (OSTCBTbl s' u) = OSTCBNext (OSTCBTbl s u)"
proof -
  obtain pv where "OSTCBTbl s' u = (OSTCBTbl s u)\<lparr>OSTCBPrev := pv\<rparr>" using assms by (auto simp: adds_task_def)
  then show "sched_view (OSTCBTbl s' u) = sched_view (OSTCBTbl s u)" "prio s' u = prio s u"
    "OSTCBNext (OSTCBTbl s' u) = OSTCBNext (OSTCBTbl s u)"
    by (simp_all add: sched_view_def prio_view_def)
qed

lemma adds_task_act:
  assumes add: "adds_task s pr t s'" and p: "pr < 64" and t: "t < OS_MAX_TCBS" "\<not> act s t" and free: "\<nexists>u. OSTCBPrioTbl s pr = TPtr u"
  shows "act s' u \<longleftrightarrow> u = t \<or> act s u" "act s u \<Longrightarrow> prio s' u = prio s u \<and> prio s u \<noteq> pr"
proof -
  have new: "prio s' t = pr" and slot: "OSTCBPrioTbl s' = (OSTCBPrioTbl s)(pr := TPtr t)"
    using add by (simp_all add: adds_task_def new_tcb_def)
  have ne: "prio s u \<noteq> pr" if "act s u" using that free by (auto simp: act_def)
  show "act s u \<Longrightarrow> prio s' u = prio s u \<and> prio s u \<noteq> pr"
    using ne t(2) adds_task_view(2) [OF add, of u] by (cases "u = t") auto
  show "act s' u \<longleftrightarrow> u = t \<or> act s u"
  proof (cases "u = t")
    case True
    then show ?thesis using new slot p t(1) by (simp add: act_def)
  next
    case False
    then show ?thesis using adds_task_view(2) [OF add False] ne slot by (auto simp: act_def)
  qed
qed

lemma adds_task_inv:
  assumes inv: "sched_inv0 s" and add: "adds_task s pr t s'" and p: "pr < 64" and t: "t < OS_MAX_TCBS" "\<not> act s t"
    and free: "\<nexists>u. OSTCBPrioTbl s pr = TPtr u"
  shows "sched_inv0 s'" "ready s' = insert pr (ready s)" "waiters s' = waiters s"
proof -
  note i = sched_inv0D [OF inv]
  note act = adds_task_act [OF add p t free]
  show rdy: "ready s' = insert pr (ready s)" using add p by (simp add: adds_task_def ready_def bm_set_add)
  show w: "waiters s' = waiters s" using add by (simp add: adds_task_def waiters_def fun_eq_iff)
  have new: "new_tcb pr (OSTCBTbl s' t)" using add by (simp add: adds_task_def)
  have pt: "prio s' t = pr" using new by (simp add: new_tcb_def)
  have nw: "pr \<notin> waiters s e" for e using i(5) act(2) by blast
  have tasks: "\<exists>u. act s' u \<and> prio s' u = q" if "q = pr \<or> (\<exists>u. act s u \<and> prio s u = q)" for q
    using that act pt by metis
  have tok: "task_ok s' u" if "act s' u" for u
  proof (cases "u = t")
    case True
    then show ?thesis
      using new nw by (simp add: task_ok_def Let_def rdy w new_tcb_def rdy_cond_def runnable_def susp_def pend_def multi_def evt_refs_def)
  next
    case False
    then have u: "act s u" using that act(1) by simp
    have ev: "emask s' e = emask s e" for e using add by (simp add: adds_task_def)
    show ?thesis
      using i(6) [OF u] act(2) [OF u] sched_view_conds [OF adds_task_view(1) [OF add False]]
      by (simp add: task_ok_def Let_def rdy w ev)
  qed
  show "sched_inv0 s'"
    unfolding sched_inv0_def
  proof (intro conjI allI impI ballI)
    show "bm_ok (rdy_bm s')" using add p i(1) by (simp add: adds_task_def bm_ok_add)
    show "bm_ok (evt_bm (OSEvents s' e))" for e using add i(2) by (simp add: adds_task_def)
    show "act s' u" if "q < 64" "OSTCBPrioTbl s' q = TPtr u" for q u
      using that add i(3) act(1) by (cases "q = pr") (auto simp: adds_task_def)
    show "\<exists>u. act s' u \<and> prio s' u = q" if "q \<in> ready s'" for q
      by (rule tasks) (use that i(4) rdy in blast)
    show "\<exists>u. act s' u \<and> prio s' u = q" if "q \<in> waiters s' e" for q e
      by (rule tasks) (use that i(5) w in auto)
  qed (rule tok)
qed

subsection \<open>OS_TCBInit\<close>

text \<open>A new head in front of a doubly linked list.\<close>

lemma tcb_seg_cons:
  assumes seg: "tcb_seg tbl TNull p ts" and t: "t \<notin> set ts" "t < OS_MAX_TCBS" and d: "distinct ts"
    and new: "OSTCBNext (tbl' t) = p" "OSTCBPrev (tbl' t) = TNull"
    and nx: "\<And>u. u \<in> set ts \<Longrightarrow> OSTCBNext (tbl' u) = OSTCBNext (tbl u)"
    and pv: "\<And>u. u \<in> set ts \<Longrightarrow> OSTCBPrev (tbl' u) = (if p = TPtr u then TPtr t else OSTCBPrev (tbl u))"
  shows "tcb_seg tbl' TNull (TPtr t) (t # ts)"
proof (cases ts)
  case Nil
  then show ?thesis using seg t new by simp
next
  case (Cons h hs)
  then have h: "p = TPtr h" "h < OS_MAX_TCBS" "tcb_seg tbl (TPtr h) (OSTCBNext (tbl h)) hs" and nh: "h \<notin> set hs"
    using seg d by auto
  have "tcb_seg tbl' (TPtr h) (OSTCBNext (tbl h)) hs = tcb_seg tbl (TPtr h) (OSTCBNext (tbl h)) hs"
    by (rule tcb_seg_cong) (use Cons nx pv h(1) nh in auto)
  then show ?thesis using Cons h t(2) new nx [of h] pv [of h] by simp
qed

lemma tcb_seg_none: "tcb_seg tbl pv p ts \<Longrightarrow> p = TNull \<Longrightarrow> ts = []"
  by (cases ts) auto

lemma OS_TCBInit_ok:
  assumes lists: "task_lists0 s ts fs" and p: "pr < 64"
  shows "fs = [] \<Longrightarrow> OS_TCBInit pr ptos pbos ident sz pext opt s = Some (OS_ERR_TASK_NO_MORE_TCB, s)"
    and "fs = t # fs' \<Longrightarrow> \<exists>s'. OS_TCBInit pr ptos pbos ident sz pext opt s = Some (OS_ERR_NONE, s') \<and> adds_task s pr t s' \<and>
      t < OS_MAX_TCBS \<and> \<not> act s t \<and> OSTCBStkPtr (OSTCBTbl s' t) = ptos \<and>
      tcb_seg (OSTCBTbl s') TNull (OSTCBList s') (t # ts) \<and> free_seg (OSTCBTbl s') (OSTCBFreeList s') fs' \<and> distinct ((t # ts) @ fs')"
proof -
  have seg: "tcb_seg (OSTCBTbl s) TNull (OSTCBList s) ts" and free: "free_seg (OSTCBTbl s) (OSTCBFreeList s) fs"
    and dist: "distinct (ts @ fs)" and set: "set ts = {u. act s u}"
    using lists unfolding task_lists0_def by blast+
  show "fs = [] \<Longrightarrow> OS_TCBInit pr ptos pbos ident sz pext opt s = Some (OS_ERR_TASK_NO_MORE_TCB, s)"
    using free by (simp add: OS_TCBInit_def)
  assume fs: "fs = t # fs'"
  then have t: "OSTCBFreeList s = TPtr t" "t < OS_MAX_TCBS" "free_seg (OSTCBTbl s) (OSTCBNext (OSTCBTbl s t)) fs'"
    using free by simp_all
  have nt: "t \<notin> set ts" "t \<notin> set fs'" "distinct ts" using dist fs by auto
  then have na: "\<not> act s t" using set by blast
  let ?c = "(OSTCBTbl s t)\<lparr>OSTCBStkPtr := ptos, OSTCBPrio := pr, OSTCBStat := OS_STAT_RDY,
          OSTCBStatPend := OS_STAT_PEND_OK, OSTCBDly := 0, OSTCBExtPtr := pext, OSTCBStkSize := sz,
          OSTCBStkBottom := pbos, OSTCBOpt := opt, OSTCBId := ident, OSTCBDelReq := OS_ERR_NONE,
          OSTCBY := drop_bit 3 pr, OSTCBX := pr AND 7, OSTCBBitY := shl1 (drop_bit 3 pr), OSTCBBitX := shl1 (pr AND 7),
          OSTCBEventPtr := None, OSTCBEventMultiPtr := None, OSTCBEventMultiRdy := None, OSTCBFlagNode := None,
          OSTCBMsg := VNull, OSTCBCtxSwCtr := 0, OSTCBCyclesStart := 0, OSTCBCyclesTot := 0, OSTCBStkBase := 0,
          OSTCBStkUsed := 0, OSTCBTaskName := ''?'',
          OSTCBRegTbl := (\<lambda>i. if i < OS_TASK_REG_TBL_SIZE then 0 else OSTCBRegTbl (OSTCBTbl s t) i),
          OSTCBNext := OSTCBList s, OSTCBPrev := TNull\<rparr>"
  let ?tbl = "\<lambda>u. if u = t then ?c else if OSTCBList s = TPtr u then (OSTCBTbl s u)\<lparr>OSTCBPrev := TPtr t\<rparr> else OSTCBTbl s u"
  let ?bm = "bm_add pr (rdy_bm s)"
  define s' where "s' = s\<lparr>OSTCBFreeList := OSTCBNext (OSTCBTbl s t), OSTCBTbl := ?tbl,
    OSTCBPrioTbl := (OSTCBPrioTbl s)(pr := TPtr t), OSTCBList := TPtr t, OSRdyGrp := fst ?bm, OSRdyTbl := snd ?bm,
    OSTaskCtr := OSTaskCtr s + 1\<rparr>"
  have new: "new_tcb pr ?c" using p by (simp add: new_tcb_def tcb_prio_ok_def)
  have head: "OSTCBList s = TNull \<or> (\<exists>h. OSTCBList s = TPtr h \<and> h < OS_MAX_TCBS \<and> h \<noteq> t)"
    using seg nt(1) by (cases ts) auto
  have ins: "rdy_ins t x = set_rdy_bm (bm_add pr (rdy_bm x)) x" if "OSTCBTbl x t = ?c" for x
    using that p by (subst rdy_ins_eq) (simp_all add: tcb_prio_ok_def)
  have eval: "OS_TCBInit pr ptos pbos ident sz pext opt s = Some (OS_ERR_NONE, s')"
    using head
  proof (elim disjE exE conjE)
    assume l: "OSTCBList s = TNull"
    show ?thesis
      using t l p ins
      by (simp add: OS_TCBInit_def Let_def prio_tbl_def le_63_less_64 upd_tcb_def s'_def set_rdy_bm_def rdy_bm_def fun_eq_iff)
  next
    fix h assume h: "OSTCBList s = TPtr h" "h < OS_MAX_TCBS" "h \<noteq> t"
    show ?thesis
      using t h p ins
      by (simp add: OS_TCBInit_def Let_def prio_tbl_def le_63_less_64 upd_tcb_def s'_def set_rdy_bm_def rdy_bm_def fun_eq_iff)
  qed
  show "\<exists>s'. OS_TCBInit pr ptos pbos ident sz pext opt s = Some (OS_ERR_NONE, s') \<and> adds_task s pr t s' \<and>
      t < OS_MAX_TCBS \<and> \<not> act s t \<and> OSTCBStkPtr (OSTCBTbl s' t) = ptos \<and>
      tcb_seg (OSTCBTbl s') TNull (OSTCBList s') (t # ts) \<and> free_seg (OSTCBTbl s') (OSTCBFreeList s') fs' \<and> distinct ((t # ts) @ fs')"
  proof (intro exI [of _ s'] conjI)
    have "\<exists>pv. ?tbl u = (OSTCBTbl s u)\<lparr>OSTCBPrev := pv\<rparr>" if "u \<noteq> t" for u
    proof (cases "OSTCBList s = TPtr u")
      case False
      then show ?thesis using that by (intro exI [of _ "OSTCBPrev (OSTCBTbl s u)"]) simp
    qed (use that in auto)
    then show "adds_task s pr t s'"
      unfolding adds_task_def using new by (simp add: s'_def rdy_bm_def)
    show "tcb_seg (OSTCBTbl s') TNull (OSTCBList s') (t # ts)"
    proof -
      have sel: "OSTCBTbl s' = ?tbl" "OSTCBList s' = TPtr t" by (simp_all add: s'_def)
      show ?thesis unfolding sel by (rule tcb_seg_cons [OF seg nt(1) t(2) nt(3)]) (use nt(1) in auto)
    qed
    have "free_seg (OSTCBTbl s') (OSTCBNext (OSTCBTbl s t)) fs' = free_seg (OSTCBTbl s) (OSTCBNext (OSTCBTbl s t)) fs'"
      by (rule free_seg_cong) (use nt(2) in \<open>auto simp: s'_def\<close>)
    then show "free_seg (OSTCBTbl s') (OSTCBFreeList s') fs'" using t(3) by (simp add: s'_def)
    show "distinct ((t # ts) @ fs')" using dist fs by auto
    show "OSTCBStkPtr (OSTCBTbl s' t) = ptos" by (simp add: s'_def)
  qed (rule eval t(2) na)+
qed

subsection \<open>OSTaskCreate\<close>

text \<open>While the task is being made, its priority is reserved and its stack is written.\<close>

definition reserve :: "u8 \<Rightarrow> (nat \<Rightarrow> u32) \<Rightarrow> os \<Rightarrow> os" where
  "reserve p mem s = s\<lparr>OSTCBPrioTbl := (OSTCBPrioTbl s)(p := TReserved), OSStkMem := mem\<rparr>"

lemma reserve_sel [simp]:
  "OSTCBTbl (reserve p mem s) = OSTCBTbl s" "OSEvents (reserve p mem s) = OSEvents s" "rdy_bm (reserve p mem s) = rdy_bm s"
  "ready (reserve p mem s) = ready s" "waiters (reserve p mem s) = waiters s" "OSTCBList (reserve p mem s) = OSTCBList s"
  "OSTCBFreeList (reserve p mem s) = OSTCBFreeList s" "OSTCBPrioTbl (reserve p mem s) = (OSTCBPrioTbl s)(p := TReserved)"
  "OSTCBCur (reserve p mem s) = OSTCBCur s" "OSPrioCur (reserve p mem s) = OSPrioCur s" "OSQTbl (reserve p mem s) = OSQTbl s"
  "OSRunning (reserve p mem s) = OSRunning s" "OSIntNesting (reserve p mem s) = OSIntNesting s"
  "OSLockNesting (reserve p mem s) = OSLockNesting s" "OSTaskCtr (reserve p mem s) = OSTaskCtr s"
  "OSMsgMem (reserve p mem s) = OSMsgMem s" "OSTime (reserve p mem s) = OSTime s" "OSQFreeList (reserve p mem s) = OSQFreeList s"
  "OSEventFreeList (reserve p mem s) = OSEventFreeList s"
  by (simp_all add: reserve_def rdy_bm_def ready_def waiters_def fun_eq_iff)

lemma reserve_act: "OSTCBPrioTbl s p = TNull \<Longrightarrow> act (reserve p mem s) t = act s t"
  by (auto simp: act_def)

lemma reserve_inv:
  assumes "OSTCBPrioTbl s p = TNull"
  shows "sched_inv0 s \<Longrightarrow> sched_inv0 (reserve p mem s)" "task_lists0 (reserve p mem s) ts fs = task_lists0 s ts fs"
proof -
  note a = reserve_act [OF assms, of mem]
  have t: "task_ok (reserve p mem s) t = task_ok s t" for t by (simp add: task_ok_def)
  show "sched_inv0 (reserve p mem s)" if "sched_inv0 s"
    using that unfolding sched_inv0_def by (auto simp: a t split: if_splits)
  show "task_lists0 (reserve p mem s) ts fs = task_lists0 s ts fs" by (simp add: task_lists0_def a)
qed

text \<open>The task is in: the invariant of the kernel with one task more.\<close>

lemma adds_task_kernel:
  assumes ok: "kernel_ok s c" and lists: "task_lists0 s ts (t # fs)" and ne: "ts \<noteq> []" "prio s (last ts) = OS_TASK_IDLE_PRIO"
    and add: "adds_task (reserve p mem s) p t s1" and p: "p < 64" "OSTCBPrioTbl s p = TNull"
    and t: "t < OS_MAX_TCBS" "\<not> act s t"
    and segs: "tcb_seg (OSTCBTbl s1) TNull (OSTCBList s1) (t # ts)" "free_seg (OSTCBTbl s1) (OSTCBFreeList s1) fs" "distinct ((t # ts) @ fs)"
  shows "base_ok s1 c" "ready s1 = insert p (ready s)" "waiters s1 = waiters s" "act s1 u \<longleftrightarrow> u = t \<or> act s u"
proof -
  note k = kernel_okD [OF ok]
  let ?r = "reserve p mem s"
  have inv0: "sched_inv0 ?r" using k(1) reserve_inv(1) [OF p(2)] by (simp add: sched_inv0_iff)
  have t': "\<not> act ?r t" using t(2) reserve_act [OF p(2)] by simp
  have nofree: "\<nexists>u. OSTCBPrioTbl ?r p = TPtr u" by simp
  note ai = adds_task_inv [OF inv0 add p(1) t(1) t' nofree]
  note act = adds_task_act [OF add p(1) t(1) t' nofree]
  show rdy: "ready s1 = insert p (ready s)" and w: "waiters s1 = waiters s" using ai(2,3) by simp_all
  show acts: "act s1 u \<longleftrightarrow> u = t \<or> act s u" for u using act(1) reserve_act [OF p(2)] by simp
  have inv: "sched_inv s1" using ai(1) rdy k(1) by (simp add: sched_inv0_iff)
  have set: "set ts = {u. act s u}" using lists by (simp add: task_lists0_def)
  then have last: "act s (last ts)" using ne(1) last_in_set by blast
  have prios: "prio s1 u = prio s u" if "act s u" for u
    using act(2) [of u] that reserve_act [OF p(2)] by simp
  have "task_lists s1 (t # ts) fs"
    unfolding task_lists0_iff task_lists0_def using segs set acts ne prios [OF last] by auto
  then have lists1: "list_inv s1" unfolding list_inv_def by blast
  note f = add [unfolded adds_task_def]
  have "obj_inv s1 = obj_inv s" by (rule obj_inv_cong) (use f in auto)
  moreover have "avail s1 e = avail s e" for e by (rule avail_cong) (use f in auto)
  then have "idle_inv s1" using k(3) by (simp add: idle_inv_def w)
  moreover have "cur_at s1 c" using k(4,5,6) f acts prios by (simp add: cur_at_def)
  ultimately show "base_ok s1 c" using inv lists1 k(9) by (simp add: base_ok_def)
qed

lemma fst_stk_push: "fst (stk_push ws p m) = fst (stk_push ws p m')"
  by (induction ws arbitrary: p m m') (simp, metis stk_push.simps(2))

text \<open>What the two services share: the control block is set up and the scheduler called.\<close>

definition create_call :: "u8 \<Rightarrow> nat \<Rightarrow> nat \<Rightarrow> u16 \<Rightarrow> u32 \<Rightarrow> vptr \<Rightarrow> u16 \<Rightarrow> (nat \<Rightarrow> u32) \<Rightarrow> os \<Rightarrow> (u8 \<times> os) option" where
  "create_call p psp pbos ident sz pext opt mem s = do { r2 \<leftarrow> OS_TCBInit p psp pbos ident sz pext opt (reserve p mem s); task_create_end p r2 }"

lemma create_running:
  assumes ok: "kernel_ok s c" and run: "OSRunning s" and p: "p \<le> OS_LOWEST_PRIO" and True: "OSTCBPrioTbl s p = TNull"
  shows "if OSTCBFreeList s = TNull then create_call p psp pbos ident sz pext opt mem s = Some (OS_ERR_TASK_NO_MORE_TCB, s\<lparr>OSStkMem := mem\<rparr>)
    else \<exists>s' c' t. create_call p psp pbos ident sz pext opt mem s = Some (OS_ERR_NONE, s') \<and> kernel_ok s' c' \<and> scheduled s s' \<and>
      \<not> act s t \<and> (\<forall>u. act s' u \<longleftrightarrow> u = t \<or> act s u) \<and> prio s' t = p \<and>
      OSTCBStkPtr (OSTCBTbl s' t) = psp \<and>
      ready s' = insert p (ready s) \<and> waiters s' = waiters s \<and> OSTaskCtr s' = OSTaskCtr s + 1 \<and>
      (\<forall>u. u \<noteq> t \<longrightarrow> sched_view (OSTCBTbl s' u) = sched_view (OSTCBTbl s u)) \<and> new_tcb p (OSTCBTbl s' t) \<and>
      OSTCBPrioTbl s' = (OSTCBPrioTbl s)(p := TPtr t) \<and> t < OS_MAX_TCBS \<and> OSEvents s' = OSEvents s \<and> OSRunning s' \<and>
      OSIntNesting s' = OSIntNesting s \<and> OSLockNesting s' = OSLockNesting s"
proof -
  note k = kernel_okD [OF ok]
  have p64: "p < 64" using p by (simp add: le_63_less_64)
  obtain ts fs where lists: "task_lists0 s ts fs" "ts \<noteq> []" "prio s (last ts) = OS_TASK_IDLE_PRIO"
    using k(2) by (auto simp: list_inv_def task_lists0_iff)
  let ?r = "reserve p mem s"
  note eval = create_call_def [of p psp pbos ident sz pext opt mem s]
  note init = OS_TCBInit_ok [OF reserve_inv(2) [OF True, where mem = mem, THEN iffD2, OF lists(1)] p64, where ptos = psp and pbos = pbos
      and ident = ident and sz = sz and pext = pext and opt = opt]
  have free: "free_seg (OSTCBTbl s) (OSTCBFreeList s) fs" using lists(1) unfolding task_lists0_def by blast
  show ?thesis
  proof (cases fs)
    case Nil
    then have "create_call p psp pbos ident sz pext opt mem s = Some (OS_ERR_TASK_NO_MORE_TCB, ?r\<lparr>OSTCBPrioTbl := (OSTCBPrioTbl ?r)(p := TNull)\<rparr>)"
      using eval init(1) by (simp add: task_create_end_def)
    moreover have "(OSTCBPrioTbl s)(p := TNull) = OSTCBPrioTbl s" using True by (simp add: fun_eq_iff)
    then have "?r\<lparr>OSTCBPrioTbl := (OSTCBPrioTbl ?r)(p := TNull)\<rparr> = s\<lparr>OSStkMem := mem\<rparr>" by (simp add: reserve_def)
    ultimately show ?thesis using True Nil free by auto
  next
    case (Cons t fs')
    then have nn: "OSTCBFreeList s \<noteq> TNull" using free by simp
    obtain s1 where s1: "OS_TCBInit p psp pbos ident sz pext opt ?r = Some (OS_ERR_NONE, s1)" "adds_task ?r p t s1" "t < OS_MAX_TCBS"
      "\<not> act ?r t" "OSTCBStkPtr (OSTCBTbl s1 t) = psp" "tcb_seg (OSTCBTbl s1) TNull (OSTCBList s1) (t # ts)"
      "free_seg (OSTCBTbl s1) (OSTCBFreeList s1) fs'" "distinct ((t # ts) @ fs')"
      using init(2) [OF Cons] by blast
    have na: "\<not> act s t" using s1(4) reserve_act [OF True] by simp
    note b = adds_task_kernel [OF ok lists(1) [unfolded Cons] lists(2,3) s1(2) p64 True s1(3) na s1(6-8)]
    obtain s' c' where s': "OS_Sched s1 = Some s'" "sw_frame s1 s'" "kernel_ok s' c'"
      "if unlocked s1 then highest_runs s' else s' = s1 \<and> c' = c"
      using OS_Sched_base [OF b(1)] by blast
    note sel = s1(2) [unfolded adds_task_def]
    have "create_call p psp pbos ident sz pext opt mem s = Some (OS_ERR_NONE, s')"
      using eval s1(1) s'(1) sel run by (simp add: task_create_end_def)
    moreover have "scheduled s s'" using s'(4) sel by (simp add: scheduled_def unlocked_def split: if_splits)
    moreover have "act s' u \<longleftrightarrow> u = t \<or> act s u" for u using b(4) sw_frame_act [OF s'(2)] by simp
    moreover have "prio s' t = p" using sel sw_frame_prio [OF s'(2)] by (simp add: new_tcb_def)
    moreover have "OSTCBStkPtr (OSTCBTbl s' t) = psp" using s1(5) sw_frame_tcb [OF s'(2), of t] by fastforce
    moreover have "ready s' = insert p (ready s)" "waiters s' = waiters s" "OSTaskCtr s' = OSTaskCtr s + 1"
      using b(2,3) sw_frameD(17,18,19) [OF s'(2)] sel by simp_all
    moreover have "sched_view (OSTCBTbl s' u) = sched_view (OSTCBTbl s u)" if "u \<noteq> t" for u
      using adds_task_view(1) [OF s1(2) that] sw_frame_view [OF s'(2)] by simp
    moreover have "new_tcb p (OSTCBTbl s' t)"
    proof -
      obtain i where "OSTCBTbl s' t = (OSTCBTbl s1 t)\<lparr>OSTCBCtxSwCtr := i\<rparr>" using sw_frame_tcb [OF s'(2)] by blast
      then show ?thesis using sel p64 by (simp add: new_tcb_def tcb_prio_ok_def)
    qed
    moreover have "OSTCBPrioTbl s' = (OSTCBPrioTbl s)(p := TPtr t)" "OSEvents s' = OSEvents s" "OSRunning s'"
      "OSIntNesting s' = OSIntNesting s" "OSLockNesting s' = OSLockNesting s"
      using sw_frameD(1,2,4,5,6) [OF s'(2)] sel run by simp_all
    ultimately show ?thesis using nn na s'(3) s1(3) by auto
  qed
qed

lemma OSTaskCreate_ok:
  assumes ok: "kernel_ok s c" and run: "OSRunning s" and n: "OSIntNesting s = 0" and p: "p \<le> OS_LOWEST_PRIO"
  shows "if OSTCBPrioTbl s p \<noteq> TNull then OSTaskCreate ret task p_arg ptos p s = Some (OS_ERR_PRIO_EXIST, s)
    else if OSTCBFreeList s = TNull then
      \<exists>mem. OSTaskCreate ret task p_arg ptos p s = Some (OS_ERR_TASK_NO_MORE_TCB, s\<lparr>OSStkMem := mem\<rparr>)
    else \<exists>s' c' t. OSTaskCreate ret task p_arg ptos p s = Some (OS_ERR_NONE, s') \<and> kernel_ok s' c' \<and> scheduled s s' \<and>
      \<not> act s t \<and> (\<forall>u. act s' u \<longleftrightarrow> u = t \<or> act s u) \<and> prio s' t = p \<and>
      OSTCBStkPtr (OSTCBTbl s' t) = fst (OSTaskStkInit ret task p_arg ptos s) \<and>
      ready s' = insert p (ready s) \<and> waiters s' = waiters s \<and> OSTaskCtr s' = OSTaskCtr s + 1 \<and>
      (\<forall>u. u \<noteq> t \<longrightarrow> sched_view (OSTCBTbl s' u) = sched_view (OSTCBTbl s u)) \<and> new_tcb p (OSTCBTbl s' t)"
proof (cases "OSTCBPrioTbl s p = TNull")
  case True
  define mem where "mem = snd (stk_push (stk_frame ret task p_arg) ((ptos + 1) div 2 * 2) (OSStkMem s))"
  have eval: "OSTaskCreate ret task p_arg ptos p s = create_call p (fst (OSTaskStkInit ret task p_arg ptos s)) 0 0 0 VNull 0 mem s"
    using n p True by (simp add: OSTaskCreate_def prio_tbl_def OSTaskStkInit_def Let_def reserve_def mem_def create_call_def)
  note c = create_running [OF ok run p True, of "fst (OSTaskStkInit ret task p_arg ptos s)" 0 0 0 VNull 0 mem]
  have nn: "\<not> OSTCBPrioTbl s p \<noteq> TNull" using True by simp
  show ?thesis
  proof (cases "OSTCBFreeList s = TNull")
    case none: True
    show ?thesis unfolding if_not_P [OF nn] if_P [OF none] eval by (rule exI, rule c [unfolded if_P [OF none]])
  next
    case some: False
    show ?thesis unfolding if_not_P [OF nn] if_not_P [OF some] eval using c [unfolded if_not_P [OF some]] by blast
  qed
qed (use n p in \<open>simp add: OSTaskCreate_def prio_tbl_def\<close>)

lemma OSTaskCreateExt_ok:
  assumes ok: "kernel_ok s c" and run: "OSRunning s" and n: "OSIntNesting s = 0" and p: "p \<le> OS_LOWEST_PRIO"
  shows "if OSTCBPrioTbl s p \<noteq> TNull then OSTaskCreateExt ret task p_arg ptos p ident pbos sz pext opt s = Some (OS_ERR_PRIO_EXIST, s)
    else if OSTCBFreeList s = TNull then
      \<exists>mem. OSTaskCreateExt ret task p_arg ptos p ident pbos sz pext opt s = Some (OS_ERR_TASK_NO_MORE_TCB, s\<lparr>OSStkMem := mem\<rparr>)
    else \<exists>s' c' t. OSTaskCreateExt ret task p_arg ptos p ident pbos sz pext opt s = Some (OS_ERR_NONE, s') \<and> kernel_ok s' c' \<and> scheduled s s' \<and>
      \<not> act s t \<and> (\<forall>u. act s' u \<longleftrightarrow> u = t \<or> act s u) \<and> prio s' t = p \<and>
      OSTCBStkPtr (OSTCBTbl s' t) = fst (OSTaskStkInit ret task p_arg ptos s) \<and>
      ready s' = insert p (ready s) \<and> waiters s' = waiters s \<and> OSTaskCtr s' = OSTaskCtr s + 1 \<and>
      (\<forall>u. u \<noteq> t \<longrightarrow> sched_view (OSTCBTbl s' u) = sched_view (OSTCBTbl s u)) \<and> new_tcb p (OSTCBTbl s' t) \<and>
      OSTCBPrioTbl s' = (OSTCBPrioTbl s)(p := TPtr t) \<and> t < OS_MAX_TCBS \<and> OSEvents s' = OSEvents s \<and> OSRunning s' \<and>
      OSIntNesting s' = OSIntNesting s \<and> OSLockNesting s' = OSLockNesting s"
proof (cases "OSTCBPrioTbl s p = TNull")
  case True
  let ?s0 = "OS_TaskStkClr pbos sz opt (s\<lparr>OSTCBPrioTbl := (OSTCBPrioTbl s)(p := TReserved)\<rparr>)"
  define mem where "mem = snd (stk_push (stk_frame ret task p_arg) ((ptos + 1) div 2 * 2) (OSStkMem ?s0))"
  let ?psp = "fst (OSTaskStkInit ret task p_arg ptos s)"
  have psp: "fst (OSTaskStkInit ret task p_arg ptos ?s0) = ?psp"
    unfolding OSTaskStkInit_def Let_def fst_conv by (rule fst_stk_push)
  have r: "snd (OSTaskStkInit ret task p_arg ptos ?s0) = reserve p mem s"
    by (simp add: OSTaskStkInit_def Let_def reserve_def mem_def OS_TaskStkClr_def)
  have eval: "OSTaskCreateExt ret task p_arg ptos p ident pbos sz pext opt s = create_call p ?psp pbos ident sz pext opt mem s"
    using n p True by (simp add: OSTaskCreateExt_def prio_tbl_def Let_def r psp create_call_def)
  note c = create_running [OF ok run p True, of ?psp pbos ident sz pext opt mem]
  have nn: "\<not> OSTCBPrioTbl s p \<noteq> TNull" using True by simp
  show ?thesis
  proof (cases "OSTCBFreeList s = TNull")
    case none: True
    show ?thesis unfolding if_not_P [OF nn] if_P [OF none] eval by (rule exI, rule c [unfolded if_P [OF none]])
  next
    case some: False
    show ?thesis unfolding if_not_P [OF nn] if_not_P [OF some] eval by (rule c [unfolded if_not_P [OF some]])
  qed
qed (use n p in \<open>simp add: OSTaskCreateExt_def prio_tbl_def\<close>)

text \<open>C16: \<open>OSTaskCreate\<close> at task level of the running kernel, at a priority that is in range: if the priority is taken it is
  refused; if no control block is left it is refused and the reserved priority is given back; otherwise one new task exists at
  the priority, ready, the other tasks, the wait lists and the rest of the ready list are as before, the invariant is kept and
  the scheduler has run.\<close>

theorem OSTaskCreate_spec:
  assumes ok: "kernel_ok s c" and run: "OSRunning s" and n: "OSIntNesting s = 0" and p: "p \<le> OS_LOWEST_PRIO"
  shows "if OSTCBPrioTbl s p \<noteq> TNull then OSTaskCreate ret task p_arg ptos p s = Some (OS_ERR_PRIO_EXIST, s)
    else if OSTCBFreeList s = TNull then
      \<exists>mem. OSTaskCreate ret task p_arg ptos p s = Some (OS_ERR_TASK_NO_MORE_TCB, s\<lparr>OSStkMem := mem\<rparr>)
    else \<exists>s' c' t. OSTaskCreate ret task p_arg ptos p s = Some (OS_ERR_NONE, s') \<and> kernel_ok s' c' \<and> scheduled s s' \<and>
      \<not> act s t \<and> (\<forall>u. act s' u \<longleftrightarrow> u = t \<or> act s u) \<and> prio s' t = p \<and>
      OSTCBStkPtr (OSTCBTbl s' t) = fst (OSTaskStkInit ret task p_arg ptos s) \<and>
      ready s' = insert p (ready s) \<and> waiters s' = waiters s \<and> OSTaskCtr s' = OSTaskCtr s + 1 \<and>
      (\<forall>u. u \<noteq> t \<longrightarrow> sched_view (OSTCBTbl s' u) = sched_view (OSTCBTbl s u)) \<and> new_tcb p (OSTCBTbl s' t)"
  by (rule OSTaskCreate_ok [OF assms])

theorem OSTaskCreate_spec_witness:
  "(\<exists>s'. OSTaskCreate 1 2 3 100 7 sample = Some (OS_ERR_NONE, s') \<and> ready s' = {7, 10, 20, 63} \<and> highest_runs s') \<and>
   OSTaskCreate 1 2 3 100 4 sample = Some (OS_ERR_PRIO_EXIST, sample)"
proof
  have "OSTCBPrioTbl sample 7 = TNull" by (simp add: sample_prios_def)
  then show "\<exists>s'. OSTaskCreate 1 2 3 100 7 sample = Some (OS_ERR_NONE, s') \<and> ready s' = {7, 10, 20, 63} \<and> highest_runs s'"
    using OSTaskCreate_spec [OF sample_kernel_ok, of 7 1 2 3 100] by (auto simp: sample_ready scheduled_def unlocked_def)
  show "OSTaskCreate 1 2 3 100 4 sample = Some (OS_ERR_PRIO_EXIST, sample)"
    using OSTaskCreate_spec [OF sample_kernel_ok, of 4 1 2 3 100] by (simp add: sample_prios_def)
qed

end
