(* ===== verification/OS_Services.thy ===== *)
theory OS_Services
  imports OS_Frame OS_Create
begin

text \<open>
  The services that tasks and interrupts call, as the labels of the transition system of \<open>OS_System\<close>:
  the call itself, its rules of use, and, service by service, that it returns (no null pointer is
  followed) and keeps what the transition system needs.
\<close>

subsection \<open>Calls and what they wait for\<close>

text \<open>The calls that block in the middle; the rest of the call is its \<open>..._resume\<close>.\<close>

datatype call = CSem nat | CMbox nat | CQ nat

fun call_event :: "call \<Rightarrow> nat" where
  "call_event (CSem e) = e"
| "call_event (CMbox e) = e"
| "call_event (CQ e) = e"

fun resume :: "call \<Rightarrow> os \<Rightarrow> os option" where
  "resume (CSem e) s = do { r \<leftarrow> OSSemPend_resume e s; Some (snd r) }"
| "resume (CMbox e) s = do { r \<leftarrow> OSMboxPend_resume e s; Some (snd (snd r)) }"
| "resume (CQ e) s = do { r \<leftarrow> OSQPend_resume e s; Some (snd (snd r)) }"

text \<open>The services of the transition system, with their arguments.\<close>

datatype service =
    SemAccept nat | SemCreate u16 | SemDel nat u8 | SemPend nat u32 | SemPendAbort nat u8 | SemPost nat | SemSet nat u16
  | MboxAccept nat | MboxCreate vptr | MboxDel nat u8 | MboxPend nat u32 | MboxPendAbort nat u8 | MboxPost nat vptr | MboxPostOpt nat vptr u8
  | QAccept nat | QCreate nat u16 | QDel nat u8 | QFlush nat | QPend nat u32 | QPendAbort nat u8 | QPost nat vptr | QPostFront nat vptr
  | QPostOpt nat vptr u8
  | TimeDly u32 | TimeDlyHMSM u8 u8 u8 u16 | TimeDlyResume u8 | TimeSet u32
  | TaskCreate u32 u32 u32 nat u8 | TaskCreateExt u32 u32 u32 nat u8 u16 nat u32 vptr u16 | TaskSuspend u8 | TaskResume u8
  | SchedLock | SchedUnlock

definition blocked_in :: "call \<Rightarrow> 'r pended \<Rightarrow> call option" where
  "blocked_in k r = (case r of Blocks \<Rightarrow> Some k | Returns _ \<Rightarrow> None)"

fun exec :: "service \<Rightarrow> os \<Rightarrow> (call option \<times> os) option" where
  "exec (SemAccept e) s = do { r \<leftarrow> OSSemAccept e s; Some (None, snd r) }"
| "exec (SemCreate cnt) s = do { r \<leftarrow> OSSemCreate cnt s; Some (None, snd r) }"
| "exec (SemDel e opt) s = do { r \<leftarrow> OSSemDel e opt s; Some (None, snd (snd r)) }"
| "exec (SemPend e timeout) s = do { r \<leftarrow> OSSemPend e timeout s; Some (blocked_in (CSem e) (fst r), snd r) }"
| "exec (SemPendAbort e opt) s = do { r \<leftarrow> OSSemPendAbort e opt s; Some (None, snd (snd r)) }"
| "exec (SemPost e) s = do { r \<leftarrow> OSSemPost e s; Some (None, snd r) }"
| "exec (SemSet e cnt) s = do { r \<leftarrow> OSSemSet e cnt s; Some (None, snd r) }"
| "exec (MboxAccept e) s = do { r \<leftarrow> OSMboxAccept e s; Some (None, snd r) }"
| "exec (MboxCreate m) s = do { r \<leftarrow> OSMboxCreate m s; Some (None, snd r) }"
| "exec (MboxDel e opt) s = do { r \<leftarrow> OSMboxDel e opt s; Some (None, snd (snd r)) }"
| "exec (MboxPend e timeout) s = do { r \<leftarrow> OSMboxPend e timeout s; Some (blocked_in (CMbox e) (fst r), snd r) }"
| "exec (MboxPendAbort e opt) s = do { r \<leftarrow> OSMboxPendAbort e opt s; Some (None, snd (snd r)) }"
| "exec (MboxPost e m) s = do { r \<leftarrow> OSMboxPost e m s; Some (None, snd r) }"
| "exec (MboxPostOpt e m opt) s = do { r \<leftarrow> OSMboxPostOpt e m opt s; Some (None, snd r) }"
| "exec (QAccept e) s = do { r \<leftarrow> OSQAccept e s; Some (None, snd (snd r)) }"
| "exec (QCreate start qsize) s = do { r \<leftarrow> OSQCreate start qsize s; Some (None, snd r) }"
| "exec (QDel e opt) s = do { r \<leftarrow> OSQDel e opt s; Some (None, snd (snd r)) }"
| "exec (QFlush e) s = do { r \<leftarrow> OSQFlush e s; Some (None, snd r) }"
| "exec (QPend e timeout) s = do { r \<leftarrow> OSQPend e timeout s; Some (blocked_in (CQ e) (fst r), snd r) }"
| "exec (QPendAbort e opt) s = do { r \<leftarrow> OSQPendAbort e opt s; Some (None, snd (snd r)) }"
| "exec (QPost e m) s = do { r \<leftarrow> OSQPost e m s; Some (None, snd r) }"
| "exec (QPostFront e m) s = do { r \<leftarrow> OSQPostFront e m s; Some (None, snd r) }"
| "exec (QPostOpt e m opt) s = do { r \<leftarrow> OSQPostOpt e m opt s; Some (None, snd r) }"
| "exec (TimeDly ticks) s = do { s1 \<leftarrow> OSTimeDly ticks s; Some (None, s1) }"
| "exec (TimeDlyHMSM hours minutes seconds ms) s = do { r \<leftarrow> OSTimeDlyHMSM hours minutes seconds ms s; Some (None, snd r) }"
| "exec (TimeSet ticks) s = Some (None, OSTimeSet ticks s)"
| "exec (TimeDlyResume p) s = do { r \<leftarrow> OSTimeDlyResume p s; Some (None, snd r) }"
| "exec (TaskCreate ret task p_arg ptos p) s = do { r \<leftarrow> OSTaskCreate ret task p_arg ptos p s; Some (None, snd r) }"
| "exec (TaskCreateExt ret task p_arg ptos p ident pbos sz pext opt) s =
     do { r \<leftarrow> OSTaskCreateExt ret task p_arg ptos p ident pbos sz pext opt s; Some (None, snd r) }"
| "exec (TaskSuspend p) s = do { r \<leftarrow> OSTaskSuspend p s; Some (None, snd r) }"
| "exec (TaskResume p) s = do { r \<leftarrow> OSTaskResume p s; Some (None, snd r) }"
| "exec SchedLock s = Some (None, OSSchedLock s)"
| "exec SchedUnlock s = do { s1 \<leftarrow> OSSchedUnlock s; Some (None, s1) }"

text \<open>The rules of use, which the code does not check in this configuration: pointers lead to control blocks, priorities are in
  range, the idle task does not wait and is not suspended, and \<open>OSQFlush\<close> is given a queue. A task is named by the priority it
  runs at. Posts without a call of the scheduler are left out, so that the running task stays the most urgent one.\<close>

fun callable :: "service \<Rightarrow> os \<Rightarrow> bool" where
  "callable (SemPend e timeout) s \<longleftrightarrow> e < OS_MAX_EVENTS \<and> OSPrioCur s \<noteq> OS_TASK_IDLE_PRIO"
| "callable (MboxPend e timeout) s \<longleftrightarrow> e < OS_MAX_EVENTS \<and> OSPrioCur s \<noteq> OS_TASK_IDLE_PRIO"
| "callable (QPend e timeout) s \<longleftrightarrow> e < OS_MAX_EVENTS \<and> OSPrioCur s \<noteq> OS_TASK_IDLE_PRIO"
| "callable (TimeDly ticks) s \<longleftrightarrow> OSPrioCur s \<noteq> OS_TASK_IDLE_PRIO"
| "callable (TimeDlyHMSM hours minutes seconds ms) s \<longleftrightarrow> OSPrioCur s \<noteq> OS_TASK_IDLE_PRIO"
| "callable (SemAccept e) s \<longleftrightarrow> e < OS_MAX_EVENTS"
| "callable (SemDel e opt) s \<longleftrightarrow> e < OS_MAX_EVENTS"
| "callable (SemPendAbort e opt) s \<longleftrightarrow> e < OS_MAX_EVENTS"
| "callable (SemPost e) s \<longleftrightarrow> e < OS_MAX_EVENTS"
| "callable (SemSet e cnt) s \<longleftrightarrow> e < OS_MAX_EVENTS"
| "callable (MboxAccept e) s \<longleftrightarrow> e < OS_MAX_EVENTS"
| "callable (MboxDel e opt) s \<longleftrightarrow> e < OS_MAX_EVENTS"
| "callable (MboxPendAbort e opt) s \<longleftrightarrow> e < OS_MAX_EVENTS"
| "callable (MboxPost e m) s \<longleftrightarrow> e < OS_MAX_EVENTS"
| "callable (MboxPostOpt e m opt) s \<longleftrightarrow> e < OS_MAX_EVENTS \<and> opt AND OS_POST_OPT_NO_SCHED = 0"
| "callable (QAccept e) s \<longleftrightarrow> e < OS_MAX_EVENTS"
| "callable (QDel e opt) s \<longleftrightarrow> e < OS_MAX_EVENTS"
| "callable (QFlush e) s \<longleftrightarrow> e < OS_MAX_EVENTS \<and> OSEventType (OSEvents s e) = OS_EVENT_TYPE_Q"
| "callable (QPendAbort e opt) s \<longleftrightarrow> e < OS_MAX_EVENTS"
| "callable (QPost e m) s \<longleftrightarrow> e < OS_MAX_EVENTS"
| "callable (QPostFront e m) s \<longleftrightarrow> e < OS_MAX_EVENTS"
| "callable (QPostOpt e m opt) s \<longleftrightarrow> e < OS_MAX_EVENTS \<and> opt AND OS_POST_OPT_NO_SCHED = 0"
| "callable (TaskSuspend p) s \<longleftrightarrow> (let q = if p = OS_PRIO_SELF then OSPrioCur s else p in
     q < 64 \<and> q \<noteq> OS_TASK_IDLE_PRIO \<and> (\<forall>t. OSTCBPrioTbl s q = TPtr t \<longrightarrow> prio s t = q))"
| "callable (TaskResume p) s \<longleftrightarrow> p < 64"
| "callable (TaskCreate ret task p_arg ptos p) s \<longleftrightarrow> p < 64"
| "callable (TaskCreateExt ret task p_arg ptos p ident pbos sz pext opt) s \<longleftrightarrow> p < 64"
| "callable _ s \<longleftrightarrow> True"

subsection \<open>What a call does to the pending of tasks\<close>

definition refs_in :: "nat set \<Rightarrow> os_tcb \<Rightarrow> bool" where
  "refs_in A c \<longleftrightarrow> evt_refs c \<subseteq> A \<and> OSTCBEventMultiPtr c = None"

definition waits :: "call option \<Rightarrow> nat set" where
  "waits w = (case w of None \<Rightarrow> {} | Some k \<Rightarrow> {call_event k})"

text \<open>The outcome of a call by task \<open>c\<close> (or by an interrupt that interrupted it): the invariant holds for some running
  task, the most urgent task runs if it may, and nobody but a blocking caller points at an event it did not point at before.\<close>

definition serves :: "os \<Rightarrow> nat \<Rightarrow> call option \<Rightarrow> os \<Rightarrow> bool" where
  "serves s c w s' \<longleftrightarrow> (\<exists>c'. kernel_ok s' c') \<and> (unlocked s' \<longrightarrow> (unlocked s \<longrightarrow> highest_runs s) \<longrightarrow> highest_runs s') \<and>
     (\<forall>t A. refs_in A (OSTCBTbl s t) \<longrightarrow> refs_in (if t = c then A \<union> waits w else A) (OSTCBTbl s' t))"

lemma refs_in_mono: "refs_in A c \<Longrightarrow> refs_in (A \<union> B) c"
  by (auto simp: refs_in_def)

lemma refs_in_same: "same_task c c' \<Longrightarrow> refs_in A c' = refs_in A c"
proof -
  assume "same_task c c'"
  then have "OSTCBEventPtr c' = OSTCBEventPtr c" "OSTCBEventMultiPtr c' = OSTCBEventMultiPtr c" by (rule same_taskD)+
  then show ?thesis by (simp add: refs_in_def evt_refs_def)
qed

lemma refs_in_readied [simp]: "refs_in A (readied e m msk ps c)"
  by (simp add: refs_in_def)

lemma no_refs_in: "no_refs c \<longleftrightarrow> refs_in {} c"
  by (cases "OSTCBEventPtr c") (auto simp: no_refs_def refs_in_def evt_refs_def)

lemma serves_refl: "kernel_ok s c \<Longrightarrow> serves s c None s"
  by (auto simp: serves_def waits_def)

text \<open>Only the value of an object changes.\<close>

lemma serves_value:
  assumes ok: "kernel_ok s c" "kernel_ok s' c" and tbl: "OSTCBTbl s' = OSTCBTbl s" and rdy: "ready s' = ready s" and ul: "unlocked s' = unlocked s"
  shows "serves s c None s'"
proof -
  have "highest_runs s'" if "highest_runs s"
  proof -
    have "prio s c \<in> ready s \<and> (\<forall>p \<in> ready s. prio s c \<le> p)"
      using that kernel_ok_cur [OF ok(1)] by (auto simp: highest_runs_def cur_ok_def)
    then show ?thesis using kernel_ok_cur [OF ok(2)] unfolding highest_runs_def by (intro exI [of _ c]) (simp add: tbl rdy)
  qed
  then show ?thesis using ok(2) ul by (auto simp: serves_def waits_def tbl)
qed

lemma serves_readies:
  assumes r: "readies s e m ps T s'" and ok: "kernel_ok s' c'" and sched: "scheduled s s'" and ctx: "ctx_keeps s s'"
  shows "serves s c None s'"
proof -
  have "same_task (if t \<in> T then readied e m (emask s e) ps (OSTCBTbl s t) else OSTCBTbl s t) (OSTCBTbl s' t)" for t
    using r by (simp add: readies_def)
  from refs_in_same [OF this] have "refs_in A (OSTCBTbl s' t)" if "refs_in A (OSTCBTbl s t)" for A t
    using that by simp
  moreover have "unlocked s' = unlocked s" using ctx by (simp add: ctx_keeps_def unlocked_def)
  ultimately show ?thesis using ok sched by (auto simp: serves_def waits_def scheduled_def)
qed

lemma serves_blocks:
  assumes b: "blocks s c (call_event k) timeout s'" and ok: "kernel_ok s' c'" and hr: "highest_runs s'"
  shows "serves s c (Some k) s'"
proof -
  let ?tc = "(OSTCBTbl s c)\<lparr>OSTCBStat := OSTCBStat (OSTCBTbl s c) OR emask s (call_event k), OSTCBStatPend := OS_STAT_PEND_OK,
      OSTCBDly := timeout, OSTCBEventPtr := Some (call_event k)\<rparr>"
  have st: "same_task (if t = c then ?tc else OSTCBTbl s t) (OSTCBTbl s' t)" for t
    using b by (simp add: blocks_def)
  have "refs_in (if t = c then A \<union> waits (Some k) else A) (OSTCBTbl s' t)" if "refs_in A (OSTCBTbl s t)" for A t
  proof (cases "t = c")
    case True
    have "refs_in (A \<union> {call_event k}) ?tc" using that True by (auto simp: refs_in_def evt_refs_def)
    then show ?thesis using refs_in_same [OF st [of c, simplified if_P [OF refl]]] True by (simp add: waits_def)
  next
    case False
    then show ?thesis using that refs_in_same [OF st [of t]] by simp
  qed
  then show ?thesis using ok hr by (auto simp: serves_def)
qed

lemma serves_sets:
  assumes st: "sets_task s t tc r s'" and tc: "evt_refs tc = evt_refs (OSTCBTbl s t)" "OSTCBEventMultiPtr tc = OSTCBEventMultiPtr (OSTCBTbl s t)"
    and ok: "kernel_ok s' c'" and hr: "unlocked s \<Longrightarrow> highest_runs s \<Longrightarrow> highest_runs s'"
  shows "serves s c None s'"
proof -
  have "same_task (if u = t then tc else OSTCBTbl s u) (OSTCBTbl s' u)" for u using st by (simp add: sets_task_def)
  from refs_in_same [OF this] have "refs_in A (OSTCBTbl s' u) = refs_in A (if u = t then tc else OSTCBTbl s u)" for A u .
  moreover have "refs_in A (if u = t then tc else OSTCBTbl s u) = refs_in A (OSTCBTbl s u)" for A u
    using tc by (simp add: refs_in_def)
  ultimately have "refs_in A (OSTCBTbl s' u) = refs_in A (OSTCBTbl s u)" for A u by blast
  moreover have "unlocked s' = unlocked s" using st by (simp add: sets_task_def unlocked_def)
  ultimately show ?thesis using ok hr by (auto simp: serves_def waits_def)
qed

text \<open>Deleting an object that nobody waits for leaves the running task alone.\<close>

lemma event_del_cur:
  assumes "event_del b rel e opt s = Some (p, err, s')" "e < OS_MAX_EVENTS" "OSEventGrp (OSEvents s e) = 0"
    and "\<And>s s'. rel e s = Some s' \<Longrightarrow> OSTCBCur s' = OSTCBCur s"
  shows "OSTCBCur s' = OSTCBCur s"
proof -
  have all: "event_rdy_all e m b ps n s = Some (n, s)" for m ps n
    using assms(2,3) by (subst event_rdy_all.simps) (simp add: evt_def)
  show ?thesis
    using assms(1,2,3) unfolding event_del_def Let_def
    by (auto simp: all evt_def split: if_splits elim!: bindE dest!: assms(4))
qed

lemma release_cur: "OSTCBCur (event_release e s) = OSTCBCur s" "q_release e s = Some s' \<Longrightarrow> OSTCBCur s' = OSTCBCur s"
  by (auto simp: event_release_def upd_evt_def upd_q_def q_release_def Let_def elim!: bindE)

lemma serves_deletes:
  assumes d: "deletes s e s'" and ok: "kernel_ok s c" "kernel_ok s' c'" and sched: "waiters s e \<noteq> {} \<longrightarrow> scheduled s s'"
    and ctx: "ctx_keeps s s'" and cur: "waiters s e = {} \<Longrightarrow> OSTCBCur s' = OSTCBCur s"
  shows "serves s c None s'"
proof -
  let ?tc = "\<lambda>t. if t \<in> all_waiters s e then readied e VNull (emask s e) OS_STAT_PEND_ABORT (OSTCBTbl s t) else OSTCBTbl s t"
  have st: "same_task (?tc t) (OSTCBTbl s' t)" for t using d by (simp add: deletes_def)
  have refs: "refs_in A (OSTCBTbl s' t)" if "refs_in A (OSTCBTbl s t)" for A t
    using that refs_in_same [OF st [of t]] by simp
  have ul: "unlocked s' = unlocked s" using ctx by (simp add: ctx_keeps_def unlocked_def)
  have "highest_runs s'" if u: "unlocked s" and h: "highest_runs s"
  proof (cases "waiters s e = {}")
    case True
    have "TPtr c' = TPtr c" using cur [OF True] kernel_okD(4) [OF ok(1)] kernel_okD(4) [OF ok(2)] by simp
    moreover have "ready s' = ready s" using d True by (simp add: deletes_def all_waiters_def)
    moreover have "prio s' c = prio s c" using same_taskD(10) [OF st [of c]] by (simp split: if_splits)
    moreover have "prio s c \<in> ready s \<and> (\<forall>p \<in> ready s. prio s c \<le> p)"
      using h kernel_ok_cur [OF ok(1)] by (auto simp: highest_runs_def cur_ok_def)
    ultimately show ?thesis using kernel_ok_cur [OF ok(2)] unfolding highest_runs_def by auto
  qed (use sched u in \<open>simp add: scheduled_def\<close>)
  then show ?thesis using refs ok(2) ul by (auto simp: serves_def waits_def)
qed

text \<open>The precondition of a call: the running task, at task level, is in its own code.\<close>

definition calls_ok :: "os \<Rightarrow> nat \<Rightarrow> bool" where
  "calls_ok s c \<longleftrightarrow> kernel_ok s c \<and> OSRunning s \<and> (OSIntNesting s = 0 \<longrightarrow> no_refs (OSTCBTbl s c))"

definition served :: "service \<Rightarrow> os \<Rightarrow> nat \<Rightarrow> bool" where
  "served v s c \<longleftrightarrow> (\<exists>w s'. exec v s = Some (w, s') \<and> serves s c w s' \<and>
     (w \<noteq> None \<longrightarrow> unlocked s \<and> waits w \<subseteq> {..<OS_MAX_EVENTS}))"

lemma servedI: "exec v s = Some (None, s') \<Longrightarrow> serves s c None s' \<Longrightarrow> served v s c"
  by (auto simp: served_def)

lemma served_same: "exec v s = Some (None, s) \<Longrightarrow> kernel_ok s c \<Longrightarrow> served v s c"
  by (auto simp: served_def serves_refl)

lemma served_value:
  "exec v s = Some (None, s') \<Longrightarrow> kernel_ok s c \<Longrightarrow> kernel_ok s' c \<Longrightarrow> OSTCBTbl s' = OSTCBTbl s \<Longrightarrow> ready s' = ready s \<Longrightarrow>
    unlocked s' = unlocked s \<Longrightarrow> served v s c"
  by (blast intro: servedI serves_value)

lemma served_blocks:
  "exec v s = Some (Some k, s') \<Longrightarrow> blocks s c (call_event k) timeout s' \<Longrightarrow> kernel_ok s' c' \<Longrightarrow> highest_runs s' \<Longrightarrow>
    unlocked s \<Longrightarrow> call_event k < OS_MAX_EVENTS \<Longrightarrow> served v s c"
  by (auto simp: served_def waits_def dest: serves_blocks)

lemma unlocked_cases:
  obtains "unlocked s" | "OSIntNesting s > 0" | "OSIntNesting s = 0" "OSLockNesting s > 0"
  by (auto simp: unlocked_def word_gt_0)

lemma calls_ok_may_block: "calls_ok s c \<Longrightarrow> OSPrioCur s \<noteq> OS_TASK_IDLE_PRIO \<Longrightarrow> unlocked s \<Longrightarrow> may_block s c"
  using kernel_okD(6) [of s c] by (auto simp: calls_ok_def may_block_def unlocked_def)

subsection \<open>Semaphores\<close>

lemma evt_below: "e < OS_MAX_EVENTS \<Longrightarrow> evt s e = Some (OSEvents s e)"
  by (simp add: evt_def)

lemma upd_evt_same [simp]: "OSTCBTbl (upd_evt e f s) = OSTCBTbl s" "ready (upd_evt e f s) = ready s" "unlocked (upd_evt e f s) = unlocked s"
  by (simp_all add: upd_evt_def ready_def rdy_bm_def unlocked_def)

lemma serve_SemPend:
  assumes ok: "calls_ok s c" and v: "callable (SemPend e timeout) s"
  shows "served (SemPend e timeout) s c"
proof (cases "is_sem s e")
  case sem: True
  note k = ok [unfolded calls_ok_def, THEN conjunct1]
  show ?thesis
  proof (rule unlocked_cases [of s])
    assume ul: "unlocked s"
    have mb: "may_block s c" using calls_ok_may_block [OF ok _ ul] v by simp
    show ?thesis
    proof (cases "sem_count s e = 0")
      case True
      obtain s' c' where "OSSemPend e timeout s = Some (Blocks, s')" "blocks s c e timeout s'" "kernel_ok s' c'" "highest_runs s'"
        using OSSemPend_ok(2) [OF k mb sem True] by blast
      then show ?thesis
        by (intro served_blocks [where k = "CSem e"]) (use v ul in \<open>simp_all add: blocked_in_def\<close>)
    next
      case False
      then have "sem_count s e > 0" by (simp add: word_gt_0)
      then obtain s' where "OSSemPend e timeout s = Some (Returns OS_ERR_NONE, s')" "kernel_ok s' c"
        "s' = upd_evt e (\<lambda>ev. ev\<lparr>OSEventCnt := OSEventCnt ev - 1\<rparr>) s"
        using OSSemPend_ok(1) [OF k mb sem] by blast
      then show ?thesis by (intro served_value [where s' = s', OF _ k]) (simp_all add: blocked_in_def)
    qed
  qed (use k OSSemPend_refused [OF sem] in \<open>simp_all add: served_same blocked_in_def\<close>)
next
  case False
  then show ?thesis using ok v
    by (intro served_same) (simp_all add: is_sem_def OSSemPend_def evt_below blocked_in_def calls_ok_def)
qed

lemma serve_SemPost:
  assumes ok: "calls_ok s c" and v: "callable (SemPost e) s"
  shows "served (SemPost e) s c"
proof (cases "is_sem s e")
  case sem: True
  note k = ok [unfolded calls_ok_def, THEN conjunct1]
  show ?thesis
  proof (cases "waiters s e = {}")
    case True
    then show ?thesis
      using OSSemPost_ok(2,3) [OF k sem True] u16_less_max
      by (cases "sem_count s e = 65535") (auto intro: served_same [OF _ k] served_value [OF _ k])
  next
    case False
    obtain t s' c' where s': "OSSemPost e s = Some (OS_ERR_NONE, s')" "readies s e VNull OS_STAT_PEND_OK {t} s'" "kernel_ok s' c'" "scheduled s s'"
      using OSSemPost_ok(1) [OF k sem False] by blast
    show ?thesis by (rule servedI [OF _ serves_readies [OF s'(2-4) OSSemPost_ctx [OF s'(1)]]]) (simp add: s'(1))
  qed
next
  case False
  then show ?thesis using ok v by (intro served_same) (simp_all add: is_sem_def OSSemPost_def evt_below calls_ok_def)
qed

text \<open>The parts that the three kinds of objects share.\<close>

lemma serve_abort:
  assumes ok: "kernel_ok s c" and e: "e < OS_MAX_EVENTS"
    and ex: "exec v s = do { r \<leftarrow> pend_abort (emask s e) e opt s; Some (None, snd (snd r)) }"
  shows "served v s c"
proof (cases "waiters s e = {}")
  case True
  then show ?thesis using pend_abort_ok(1) [OF kernel_ok_base [OF ok] e True] by (intro served_same [OF _ ok]) (simp add: ex)
next
  case False
  obtain s' c' T where s': "pend_abort (emask s e) e opt s = Some (of_nat (card T), OS_ERR_PEND_ABORT, s')"
    "readies s e VNull OS_STAT_PEND_ABORT T s'" "kernel_ok s' c'" "scheduled s s'"
    using pend_abort_ok(2) [OF kernel_ok_base [OF ok] e False] by blast
  show ?thesis by (rule servedI [OF _ serves_readies [OF s'(2-4) pend_abort_ctx [OF s'(1)]]]) (simp add: ex s'(1))
qed

lemma serve_del:
  assumes ok: "kernel_ok s c" and e: "e < OS_MAX_EVENTS" and ex: "exec v s = do { r \<leftarrow> event_del b rel e opt s; Some (None, snd (snd r)) }"
    and del: "opt = OS_DEL_NO_PEND \<and> waiters s e = {} \<or> opt = OS_DEL_ALWAYS \<Longrightarrow>
      \<exists>s' c'. event_del b rel e opt s = Some (None, OS_ERR_NONE, s') \<and> deletes s e s' \<and> kernel_ok s' c' \<and>
        (waiters s e \<noteq> {} \<longrightarrow> scheduled s s')"
    and rel: "\<And>s s'. rel e s = Some s' \<Longrightarrow> ctx_keeps s s' \<and> OSTCBCur s' = OSTCBCur s"
  shows "served v s c"
proof -
  note grp = evt_bm_nonempty [OF kernel_okD(1) [OF ok], of e]
  show ?thesis
  proof (cases "opt = OS_DEL_NO_PEND \<and> waiters s e = {} \<or> opt = OS_DEL_ALWAYS")
    case True
    obtain s' c' where s': "event_del b rel e opt s = Some (None, OS_ERR_NONE, s')" "deletes s e s'" "kernel_ok s' c'"
      "waiters s e \<noteq> {} \<longrightarrow> scheduled s s'"
      using del [OF True] by blast
    have ctx: "ctx_keeps s s'" by (rule event_del_ctx [OF s'(1)]) (use rel in blast)
    have cur: "OSTCBCur s' = OSTCBCur s" if "waiters s e = {}"
      by (rule event_del_cur [OF s'(1) e]) (use that grp rel in blast)+
    show ?thesis by (rule servedI [OF _ serves_deletes [OF s'(2) ok s'(3,4) ctx cur]]) (simp_all add: ex s'(1))
  next
    case False
    then have "\<exists>err. event_del b rel e opt s = Some (Some e, err, s)" using e grp by (auto simp: event_del_def evt_def Let_def)
    then show ?thesis by (elim exE) (intro served_same [OF _ ok], simp add: ex)
  qed
qed

lemma serve_sem:
  assumes ok: "calls_ok s c"
  shows "callable (SemAccept e) s \<Longrightarrow> served (SemAccept e) s c" "served (SemCreate cnt) s c"
    "callable (SemDel e opt) s \<Longrightarrow> served (SemDel e opt) s c" "callable (SemPendAbort e opt) s \<Longrightarrow> served (SemPendAbort e opt) s c"
    "callable (SemSet e cnt) s \<Longrightarrow> served (SemSet e cnt) s c"
proof -
  note k = ok [unfolded calls_ok_def, THEN conjunct1]
  show "served (SemAccept e) s c" if "callable (SemAccept e) s"
  proof (cases "is_sem s e")
    case True
    from OSSemAccept_ok [OF k True] obtain s' where s': "OSSemAccept e s = Some (sem_count s e, s')" "kernel_ok s' c"
      "s' = (if sem_count s e > 0 then upd_evt e (\<lambda>ev. ev\<lparr>OSEventCnt := OSEventCnt ev - 1\<rparr>) s else s)" by blast
    show ?thesis by (rule served_value [where s' = s', OF _ k s'(2)]) (simp_all add: s'(1), simp_all add: s'(3))
  qed (use that in \<open>intro served_same [OF _ k]; simp add: is_sem_def OSSemAccept_def evt_below\<close>)
  show "served (SemCreate cnt) s c"
  proof (cases "OSIntNesting s = 0 \<and> unused s \<noteq> {}")
    case True
    obtain e s' where s': "OSSemCreate cnt s = Some (Some e, s')" "created s e OS_EVENT_TYPE_SEM cnt VNull s'" "kernel_ok s' c"
      using OSSemCreate_ok(2) [OF k] True by blast
    show ?thesis by (rule served_value [where s' = s', OF _ k s'(3)]) (use s'(1,2) in \<open>simp_all add: created_def\<close>)
  next
    case False
    then have "OSSemCreate cnt s = Some (None, s)" using OSSemCreate_ok(1) [OF k] by (cases "OSIntNesting s = 0") (auto simp: OSSemCreate_def word_gt_0)
    then show ?thesis by (intro served_same [OF _ k]) simp
  qed
  show "served (SemDel e opt) s c" if "callable (SemDel e opt) s"
  proof (cases "is_sem s e \<and> OSIntNesting s = 0")
    case True
    then have eq: "OSSemDel e opt s = event_del OS_STAT_SEM (\<lambda>e s. Some (event_release e s)) e opt s"
      by (simp add: OSSemDel_def is_semD)
    show ?thesis
      by (rule serve_del [OF k, where rel = "\<lambda>e s. Some (event_release e s)" and e = e])
        (use that True OSSemDel_ok(2) [OF k, of e opt] in \<open>auto simp: eq release_cur(1)\<close>)
  qed (use that in \<open>intro served_same [OF _ k]; auto simp: is_sem_def OSSemDel_def evt_below word_gt_0\<close>)
  show "served (SemPendAbort e opt) s c" if "callable (SemPendAbort e opt) s"
  proof (cases "is_sem s e")
    case True
    then show ?thesis by (intro serve_abort [OF k, of e]) (simp_all add: OSSemPendAbort_def is_semD)
  qed (use that in \<open>intro served_same [OF _ k]; simp add: is_sem_def OSSemPendAbort_def evt_below\<close>)
  show "served (SemSet e cnt) s c" if "callable (SemSet e cnt) s"
  proof (cases "is_sem s e")
    case True
    show ?thesis
    proof (cases "waiters s e = {}")
      case mt: True
      from OSSemSet_ok(1) [OF k True mt, of cnt] show ?thesis
        by (intro served_value [where s' = "upd_evt e (\<lambda>ev. ev\<lparr>OSEventCnt := cnt\<rparr>) s", OF _ k]) auto
    next
      case False
      from OSSemSet_ok(2) [OF k True this, of cnt] show ?thesis by (intro served_same [OF _ k]) simp
    qed
  qed (use that in \<open>intro served_same [OF _ k]; simp add: is_sem_def OSSemSet_def evt_below\<close>)
qed

subsection \<open>Mailboxes\<close>

lemma serve_mbox:
  assumes ok: "calls_ok s c"
  shows "callable (MboxAccept e) s \<Longrightarrow> served (MboxAccept e) s c" "served (MboxCreate m) s c"
    "callable (MboxDel e opt) s \<Longrightarrow> served (MboxDel e opt) s c" "callable (MboxPendAbort e opt) s \<Longrightarrow> served (MboxPendAbort e opt) s c"
proof -
  note k = ok [unfolded calls_ok_def, THEN conjunct1]
  show "served (MboxAccept e) s c" if "callable (MboxAccept e) s"
  proof (cases "is_mbox s e")
    case True
    then show ?thesis using OSMboxAccept_ok [OF k True]
      by (intro served_value [where s' = "mbox_set e VNull s", OF _ k]) simp_all
  qed (use that in \<open>intro served_same [OF _ k]; simp add: is_mbox_def OSMboxAccept_def evt_below\<close>)
  show "served (MboxCreate m) s c"
  proof (cases "OSIntNesting s = 0 \<and> unused s \<noteq> {}")
    case True
    obtain e s' where s': "OSMboxCreate m s = Some (Some e, s')" "created s e OS_EVENT_TYPE_MBOX 0 m s'" "kernel_ok s' c"
      using OSMboxCreate_ok(2) [OF k] True by blast
    show ?thesis by (rule served_value [where s' = s', OF _ k s'(3)]) (use s'(1,2) in \<open>simp_all add: created_def\<close>)
  next
    case False
    then have "OSMboxCreate m s = Some (None, s)" using OSMboxCreate_ok(1) [OF k] by (cases "OSIntNesting s = 0") (auto simp: OSMboxCreate_def word_gt_0)
    then show ?thesis by (intro served_same [OF _ k]) simp
  qed
  show "served (MboxDel e opt) s c" if "callable (MboxDel e opt) s"
  proof (cases "is_mbox s e \<and> OSIntNesting s = 0")
    case True
    then have eq: "OSMboxDel e opt s = event_del OS_STAT_MBOX (\<lambda>e s. Some (event_release e s)) e opt s"
      by (simp add: OSMboxDel_def is_mboxD)
    show ?thesis
      by (rule serve_del [OF k, where rel = "\<lambda>e s. Some (event_release e s)" and e = e])
        (use that True OSMboxDel_ok(2) [OF k, of e opt] in \<open>auto simp: eq release_cur(1)\<close>)
  qed (use that in \<open>intro served_same [OF _ k]; auto simp: is_mbox_def OSMboxDel_def evt_below word_gt_0\<close>)
  show "served (MboxPendAbort e opt) s c" if "callable (MboxPendAbort e opt) s"
  proof (cases "is_mbox s e")
    case True
    then show ?thesis by (intro serve_abort [OF k, of e]) (simp_all add: OSMboxPendAbort_def is_mboxD)
  qed (use that in \<open>intro served_same [OF _ k]; simp add: is_mbox_def OSMboxPendAbort_def evt_below\<close>)
qed

lemma serve_MboxPend:
  assumes ok: "calls_ok s c" and v: "callable (MboxPend e timeout) s"
  shows "served (MboxPend e timeout) s c"
proof (cases "is_mbox s e \<and> unlocked s")
  case True
  then have mbox: "is_mbox s e" and ul: "unlocked s" by simp_all
  note k = ok [unfolded calls_ok_def, THEN conjunct1]
  have mb: "may_block s c" using calls_ok_may_block [OF ok _ ul] v by simp
  show ?thesis
  proof (cases "mbox_msg s e = VNull")
    case True
    obtain s' c' where "OSMboxPend e timeout s = Some (Blocks, s')" "blocks s c e timeout s'" "kernel_ok s' c'" "highest_runs s'"
      using OSMboxPend_ok(2) [OF k mb mbox True] by blast
    then show ?thesis
      by (intro served_blocks [where k = "CMbox e"]) (use v ul in \<open>simp_all add: blocked_in_def\<close>)
  next
    case False
    then show ?thesis using OSMboxPend_ok(1) [OF k mb mbox False, of timeout]
      by (intro served_value [where s' = "mbox_set e VNull s", OF _ k]) (simp_all add: blocked_in_def)
  qed
next
  case False
  then have "\<exists>r. OSMboxPend e timeout s = Some (Returns r, s)"
    using v by (auto simp: OSMboxPend_def is_mbox_def evt_below unlocked_def word_gt_0)
  then show ?thesis using ok by (elim exE) (intro served_same, simp_all add: blocked_in_def calls_ok_def)
qed

lemma serve_MboxPost:
  assumes ok: "calls_ok s c"
  shows "callable (MboxPost e m) s \<Longrightarrow> served (MboxPost e m) s c" "callable (MboxPostOpt e m opt) s \<Longrightarrow> served (MboxPostOpt e m opt) s c"
proof -
  note k = ok [unfolded calls_ok_def, THEN conjunct1]
  have empty: "served v s c" if ex: "exec v s = do { r \<leftarrow> OSMboxPost e m s; Some (None, snd r) }" and mbox: "is_mbox s e" and mt: "waiters s e = {}" for v
  proof (cases "mbox_msg s e = VNull")
    case True
    then show ?thesis using OSMboxPost_ok(2) [OF k mbox mt True, of m]
      by (intro served_value [where s' = "mbox_set e m s", OF _ k]) (simp_all add: ex)
  qed (use OSMboxPost_ok(3) [OF k mbox] in \<open>intro served_same [OF _ k]; simp add: ex\<close>)
  show "served (MboxPost e m) s c" if v: "callable (MboxPost e m) s"
  proof (cases "is_mbox s e")
    case mbox: True
    show ?thesis
    proof (cases "waiters s e = {}")
      case False
      obtain t s' c' where s': "OSMboxPost e m s = Some (OS_ERR_NONE, s')" "readies s e m OS_STAT_PEND_OK {t} s'" "kernel_ok s' c'" "scheduled s s'"
        using OSMboxPost_ok(1) [OF k mbox False] by blast
      show ?thesis by (rule servedI [OF _ serves_readies [OF s'(2-4) OSMboxPost_ctx [OF s'(1)]]]) (simp add: s'(1))
    qed (rule empty [OF _ mbox], simp_all)
  qed (use v in \<open>intro served_same [OF _ k]; simp add: is_mbox_def OSMboxPost_def evt_below\<close>)
  show "served (MboxPostOpt e m opt) s c" if v: "callable (MboxPostOpt e m opt) s"
  proof (cases "is_mbox s e")
    case mbox: True
    show ?thesis
    proof (cases "waiters s e = {}")
      case False
      obtain T s' c' where s': "OSMboxPostOpt e m opt s = Some (OS_ERR_NONE, s')" "readies s e m OS_STAT_PEND_OK T s'" "kernel_ok s' c'" "scheduled s s'"
        using OSMboxPostOpt_ok(1) [OF k mbox False, of m opt] v by auto
      show ?thesis by (rule servedI [OF _ serves_readies [OF s'(2-4) OSMboxPostOpt_ctx [OF s'(1)]]]) (simp add: s'(1))
    qed (rule empty [OF _ mbox], simp_all add: OSMboxPostOpt_ok(2) [OF k mbox])
  qed (use v in \<open>intro served_same [OF _ k]; simp add: is_mbox_def OSMboxPostOpt_def evt_below\<close>)
qed

subsection \<open>Queues\<close>

lemma q_holds_same:
  assumes "q_holds s q ms s'"
  shows "OSTCBTbl s' = OSTCBTbl s" "ready s' = ready s" "unlocked s' = unlocked s"
  using assms by (auto simp: q_holds_def q_change_def ready_def rdy_bm_def unlocked_def)

lemma serve_q:
  assumes ok: "calls_ok s c"
  shows "callable (QAccept e) s \<Longrightarrow> served (QAccept e) s c" "callable (QFlush e) s \<Longrightarrow> served (QFlush e) s c"
    "callable (QDel e opt) s \<Longrightarrow> served (QDel e opt) s c" "callable (QPendAbort e opt) s \<Longrightarrow> served (QPendAbort e opt) s c"
proof -
  note k = ok [unfolded calls_ok_def, THEN conjunct1]
  note ex = q_of_exists [OF k]
  show "served (QAccept e) s c" if v: "callable (QAccept e) s"
  proof (cases "OSEventType (OSEvents s e) = OS_EVENT_TYPE_Q")
    case True
    obtain q where q: "q_of s e q" using ex [OF _ True] v by auto
    show ?thesis
    proof (cases "q_list s q = []")
      case False
      obtain s' where s': "OSQAccept e s = Some (hd (q_list s q), OS_ERR_NONE, s')" "q_holds s q (tl (q_list s q)) s'" "kernel_ok s' c"
        using OSQAccept_ok(1) [OF k q False] by blast
      show ?thesis by (rule served_value [where s' = s', OF _ k s'(3)]) (simp_all add: s'(1) q_holds_same [OF s'(2)])
    qed (use OSQAccept_ok(2) [OF k q] in \<open>intro served_same [OF _ k]; simp\<close>)
  qed (use v in \<open>intro served_same [OF _ k]; simp add: OSQAccept_def evt_below\<close>)
  show "served (QFlush e) s c" if v: "callable (QFlush e) s"
  proof -
    obtain q where q: "q_of s e q" using ex [of e] v by auto
    obtain s' where s': "OSQFlush e s = Some (OS_ERR_NONE, s')" "q_holds s q [] s'" "kernel_ok s' c"
      using OSQFlush_ok [OF k q] by blast
    show ?thesis by (rule served_value [where s' = s', OF _ k s'(3)]) (simp_all add: s'(1) q_holds_same [OF s'(2)])
  qed
  show "served (QDel e opt) s c" if v: "callable (QDel e opt) s"
  proof (cases "OSEventType (OSEvents s e) = OS_EVENT_TYPE_Q \<and> OSIntNesting s = 0")
    case True
    obtain q where q: "q_of s e q" using ex [of e] v True by auto
    have eq: "OSQDel e opt s = event_del OS_STAT_Q q_release e opt s"
      using True v by (simp add: OSQDel_def evt_below)
    show ?thesis
      by (rule serve_del [OF k, where rel = q_release and e = e])
        (use v True OSQDel_ok(2) [OF k q, of opt] in \<open>auto simp: eq release_cur(2) q_release_ctx\<close>)
  qed (use v in \<open>intro served_same [OF _ k]; auto simp: OSQDel_def evt_below word_gt_0\<close>)
  show "served (QPendAbort e opt) s c" if v: "callable (QPendAbort e opt) s"
  proof (cases "OSEventType (OSEvents s e) = OS_EVENT_TYPE_Q")
    case True
    then show ?thesis using v by (intro serve_abort [OF k, of e]) (simp_all add: OSQPendAbort_def evt_below evt_mask_def)
  qed (use v in \<open>intro served_same [OF _ k]; simp add: OSQPendAbort_def evt_below\<close>)
qed

lemma serve_QPend:
  assumes ok: "calls_ok s c" and v: "callable (QPend e timeout) s"
  shows "served (QPend e timeout) s c"
proof (cases "OSEventType (OSEvents s e) = OS_EVENT_TYPE_Q \<and> unlocked s")
  case True
  then have ul: "unlocked s" by simp
  note k = ok [unfolded calls_ok_def, THEN conjunct1]
  obtain q where q: "q_of s e q" using q_of_exists [OF k, of e] v True by auto
  have mb: "may_block s c" using calls_ok_may_block [OF ok _ ul] v by simp
  show ?thesis
  proof (cases "q_list s q = []")
    case True
    obtain s' c' where "OSQPend e timeout s = Some (Blocks, s')" "blocks s c e timeout s'" "kernel_ok s' c'" "highest_runs s'"
      using OSQPend_ok(2) [OF k mb q True] by blast
    then show ?thesis
      by (intro served_blocks [where k = "CQ e"]) (use v ul in \<open>simp_all add: blocked_in_def\<close>)
  next
    case False
    obtain s' where s': "OSQPend e timeout s = Some (Returns (hd (q_list s q), OS_ERR_NONE), s')" "q_holds s q (tl (q_list s q)) s'" "kernel_ok s' c"
      using OSQPend_ok(1) [OF k mb q False] by blast
    show ?thesis
      by (rule served_value [where s' = s', OF _ k s'(3)]) (simp_all add: s'(1) q_holds_same [OF s'(2)] blocked_in_def)
  qed
next
  case False
  then have "\<exists>r. OSQPend e timeout s = Some (Returns r, s)"
    using v by (auto simp: OSQPend_def evt_below unlocked_def word_gt_0)
  then show ?thesis using ok by (elim exE) (intro served_same, simp_all add: blocked_in_def calls_ok_def)
qed

lemma q_list_bound:
  assumes "kernel_ok s c" "q_of s e q"
  shows "length (q_list s q) \<le> q_size s q"
  using q_ofD(6) [OF assms] length_q_list [of s q] by (simp add: q_ok_def word_le_nat_alt)

lemma serve_QPost:
  assumes ok: "calls_ok s c"
  shows "callable (QPost e m) s \<Longrightarrow> served (QPost e m) s c" "callable (QPostFront e m) s \<Longrightarrow> served (QPostFront e m) s c"
proof -
  note k = ok [unfolded calls_ok_def, THEN conjunct1]
  have holds: "served v s c" if "exec v s = Some (None, s')" "q_holds s q ms s'" "kernel_ok s' c" for v s' q ms
    by (rule served_value [where s' = s', OF _ k]) (use that q_holds_same [OF that(2)] in simp_all)
  show "served (QPost e m) s c" if v: "callable (QPost e m) s"
  proof (cases "OSEventType (OSEvents s e) = OS_EVENT_TYPE_Q")
    case True
    obtain q where q: "q_of s e q" using q_of_exists [OF k _ True] v by auto
    consider (wait) "waiters s e \<noteq> {}" | (room) "waiters s e = {}" "length (q_list s q) < q_size s q"
      | (full) "waiters s e = {}" "length (q_list s q) = q_size s q"
      using q_list_bound [OF k q] by linarith
    then show ?thesis
    proof cases
      case wait
      obtain t s' c' where s': "OSQPost e m s = Some (OS_ERR_NONE, s')" "readies s e m OS_STAT_PEND_OK {t} s'" "kernel_ok s' c'" "scheduled s s'"
        using OSQPost_ok(1) [OF k q wait] by blast
      show ?thesis by (rule servedI [OF _ serves_readies [OF s'(2-4) OSQPost_ctx [OF s'(1)]]]) (simp add: s'(1))
    next
      case room
      obtain s' where "OSQPost e m s = Some (OS_ERR_NONE, s')" "q_holds s q (q_list s q @ [m]) s'" "kernel_ok s' c"
        using OSQPost_ok(2) [OF k q room] by blast
      then show ?thesis by (intro holds) simp_all
    next
      case full
      from OSQPost_ok(3) [OF k q full, of m] show ?thesis by (intro served_same [OF _ k]) simp
    qed
  qed (use v in \<open>intro served_same [OF _ k]; simp add: OSQPost_def evt_below\<close>)
  show "served (QPostFront e m) s c" if v: "callable (QPostFront e m) s"
  proof (cases "OSEventType (OSEvents s e) = OS_EVENT_TYPE_Q")
    case True
    obtain q where q: "q_of s e q" using q_of_exists [OF k _ True] v by auto
    consider (wait) "waiters s e \<noteq> {}" | (room) "waiters s e = {}" "length (q_list s q) < q_size s q"
      | (full) "waiters s e = {}" "length (q_list s q) = q_size s q"
      using q_list_bound [OF k q] by linarith
    then show ?thesis
    proof cases
      case wait
      obtain t s' c' where s': "OSQPostFront e m s = Some (OS_ERR_NONE, s')" "readies s e m OS_STAT_PEND_OK {t} s'" "kernel_ok s' c'" "scheduled s s'"
        using OSQPostFront_ok(1) [OF k q wait] by blast
      show ?thesis by (rule servedI [OF _ serves_readies [OF s'(2-4) OSQPostFront_ctx [OF s'(1)]]]) (simp add: s'(1))
    next
      case room
      obtain s' where "OSQPostFront e m s = Some (OS_ERR_NONE, s')" "q_holds s q (m # q_list s q) s'" "kernel_ok s' c"
        using OSQPostFront_ok(2) [OF k q room] by blast
      then show ?thesis by (intro holds) simp_all
    next
      case full
      from OSQPostFront_ok(3) [OF k q full, of m] show ?thesis by (intro served_same [OF _ k]) simp
    qed
  qed (use v in \<open>intro served_same [OF _ k]; simp add: OSQPostFront_def evt_below\<close>)
qed

lemma serve_QCreate:
  assumes ok: "calls_ok s c"
  shows "served (QCreate start qsize) s c"
proof -
  note k = ok [unfolded calls_ok_def, THEN conjunct1]
  consider (isr) "OSIntNesting s > 0" | (none) "OSIntNesting s = 0" "unused s = {} \<or> OSQFreeList s = None"
    | (new) q where "OSIntNesting s = 0" "unused s \<noteq> {}" "OSQFreeList s = Some q"
    by (cases "OSQFreeList s") (auto simp: word_gt_0)
  then show ?thesis
  proof cases
    case isr
    then show ?thesis by (intro served_same [OF _ k]) (simp add: OSQCreate_def)
  next
    case none
    from OSQCreate_ok(1) [OF k this, of start qsize] show ?thesis by (intro served_same [OF _ k]) simp
  next
    case (new q)
    obtain e s' where s': "OSQCreate start qsize s = Some (Some e, s')" "created s e OS_EVENT_TYPE_Q 0 (VQ q) s'" "kernel_ok s' c"
      using OSQCreate_ok(2) [OF k new] by blast
    show ?thesis by (rule served_value [where s' = s', OF _ k s'(3)]) (use s'(1,2) in \<open>simp_all add: created_def\<close>)
  qed
qed

lemma serve_QPostOpt:
  assumes ok: "calls_ok s c" and v: "callable (QPostOpt e m opt) s"
  shows "served (QPostOpt e m opt) s c"
proof (cases "OSEventType (OSEvents s e) = OS_EVENT_TYPE_Q")
  case True
  note k = ok [unfolded calls_ok_def, THEN conjunct1]
  obtain q where q: "q_of s e q" using q_of_exists [OF k _ True] v by auto
  show ?thesis
  proof (cases "waiters s e = {}")
    case mt: True
    have "callable (QPost e m) s" "callable (QPostFront e m) s" using v by simp_all
    then show ?thesis
      using serve_QPost [OF ok] OSQPostOpt_eq [OF k q mt, of m opt] by (simp add: served_def split: if_splits)
  next
    case False
    obtain T s' c' where s': "OSQPostOpt e m opt s = Some (OS_ERR_NONE, s')" "readies s e m OS_STAT_PEND_OK T s'" "kernel_ok s' c'" "scheduled s s'"
      using OSQPostOpt_ok [OF k q False, of opt m] v by auto
    show ?thesis by (rule servedI [OF _ serves_readies [OF s'(2-4) OSQPostOpt_ctx [OF s'(1)]]]) (simp add: s'(1))
  qed
next
  case False
  then show ?thesis using ok v
    by (intro served_same) (simp_all add: OSQPostOpt_def evt_below calls_ok_def)
qed

end
