(* ===== verification/OS_Init.thy ===== *)
theory OS_Init
  imports OS_Task OS_Q OS_Time
begin

text \<open>
  Start-up (\<open>OSInit\<close> and the functions it calls), the two system tasks and their statistics, from
  \<^verbatim>\<open>src/ucos/CORE/os_core.c\<close>.
\<close>

subsection \<open>Tables and lists\<close>

definition OS_InitMisc :: "os \<Rightarrow> os" where
  "OS_InitMisc s = s\<lparr>OSTime := 0, OSIntNesting := 0, OSLockNesting := 0, OSTaskCtr := 0, OSRunning := False,
     OSCtxSwCtr := 0, OSIdleCtr := 0, OSIdleCtrRun := 0, OSIdleCtrMax := 0, OSStatRdy := False,
     OSTaskRegNextAvailID := 0\<rparr>"

definition OS_InitRdyList :: "os \<Rightarrow> os" where
  "OS_InitRdyList s = s\<lparr>OSRdyGrp := 0, OSRdyTbl := (\<lambda>i. if i < 8 then 0 else OSRdyTbl s i), OSPrioCur := 0,
     OSPrioHighRdy := 0, OSTCBHighRdy := TNull, OSTCBCur := TNull\<rparr>"

definition OS_InitTCBList :: "os \<Rightarrow> os" where
  "OS_InitTCBList s = s\<lparr>
     OSTCBTbl := (\<lambda>t. if t < OS_MAX_TCBS
        then tcb_zero\<lparr>OSTCBNext := (if t < OS_MAX_TCBS - 1 then TPtr (t + 1) else TNull), OSTCBTaskName := ''?''\<rparr>
        else OSTCBTbl s t),
     OSTCBPrioTbl := (\<lambda>p. if p \<le> OS_LOWEST_PRIO then TNull else OSTCBPrioTbl s p),
     OSTCBList := TNull, OSTCBFreeList := TPtr 0\<rparr>"

definition OS_InitEventList :: "os \<Rightarrow> os" where
  "OS_InitEventList s = s\<lparr>
     OSEvents := (\<lambda>e. if e < OS_MAX_EVENTS
        then \<lparr>OSEventType = OS_EVENT_TYPE_UNUSED, OSEventPtr = (if e < OS_MAX_EVENTS - 1 then VEvt (e + 1) else VNull),
              OSEventCnt = 0, OSEventGrp = 0, OSEventTbl = (\<lambda>_. 0), OSEventName = ''?''\<rparr>
        else OSEvents s e),
     OSEventFreeList := VEvt 0\<rparr>"

subsection \<open>The system tasks\<close>

text \<open>Addresses that the linker chooses: the stacks of the idle and the statistics task, and the
  entry points of the tasks and of \<open>OS_TaskReturn\<close>.\<close>

record linkage =
  OS_TaskReturn_addr :: u32
  OS_TaskIdle_addr :: u32
  OS_TaskStat_addr :: u32
  OSTaskIdleStk :: nat
  OSTaskStatStk :: nat

abbreviation (input) OS_TASK_IDLE_STK_SIZE :: u32 where "OS_TASK_IDLE_STK_SIZE \<equiv> 128"
abbreviation (input) OS_TASK_STAT_STK_SIZE :: u32 where "OS_TASK_STAT_STK_SIZE \<equiv> 128"

definition OS_InitTaskIdle :: "linkage \<Rightarrow> os \<Rightarrow> os option" where
  "OS_InitTaskIdle l s = do {
     r \<leftarrow> OSTaskCreateExt (OS_TaskReturn_addr l) (OS_TaskIdle_addr l) 0
            (OSTaskIdleStk l + unat (OS_TASK_IDLE_STK_SIZE - 1)) OS_TASK_IDLE_PRIO 65535 (OSTaskIdleStk l)
            OS_TASK_IDLE_STK_SIZE VNull (OS_TASK_OPT_STK_CHK OR OS_TASK_OPT_STK_CLR) s;
     r2 \<leftarrow> OSTaskNameSet OS_TASK_IDLE_PRIO ''uC/OS-II Idle'' (snd r);
     Some (snd r2)
   }"

definition OS_InitTaskStat :: "linkage \<Rightarrow> os \<Rightarrow> os option" where
  "OS_InitTaskStat l s = do {
     r \<leftarrow> OSTaskCreateExt (OS_TaskReturn_addr l) (OS_TaskStat_addr l) 0
            (OSTaskStatStk l + unat (OS_TASK_STAT_STK_SIZE - 1)) OS_TASK_STAT_PRIO 65534 (OSTaskStatStk l)
            OS_TASK_STAT_STK_SIZE VNull (OS_TASK_OPT_STK_CHK OR OS_TASK_OPT_STK_CLR) s;
     r2 \<leftarrow> OSTaskNameSet OS_TASK_STAT_PRIO ''uC/OS-II Stat'' (snd r);
     Some (snd r2)
   }"

definition OSInit :: "linkage \<Rightarrow> os \<Rightarrow> os option" where
  "OSInit l s0 = do {
     let s1 = OS_InitMisc s0;
     let s2 = OS_InitRdyList s1;
     let s3 = OS_InitTCBList s2;
     let s4 = OS_InitEventList s3;
     let s5 = OS_FlagInit s4;
     let s6 = OS_QInit s5;
     s7 \<leftarrow> OS_InitTaskIdle l s6;
     OS_InitTaskStat l s7
   }"

subsection \<open>Idle time and CPU usage\<close>

text \<open>One turn of the loop of the idle task.\<close>

definition OS_TaskIdle_step :: "os \<Rightarrow> os" where
  "OS_TaskIdle_step s = s\<lparr>OSIdleCtr := OSIdleCtr s + 1\<rparr>"

text \<open>\<open>OSStatInit\<close> is called by the first task: two delays and, after each, an assignment.\<close>

definition OSStatInit_1 :: "os \<Rightarrow> os option" where "OSStatInit_1 s = OSTimeDly 2 s"

definition OSStatInit_2 :: "os \<Rightarrow> os option" where
  "OSStatInit_2 s = OSTimeDly (OS_TICKS_PER_SEC div 10) (s\<lparr>OSIdleCtr := 0\<rparr>)"

definition OSStatInit_3 :: "os \<Rightarrow> os" where
  "OSStatInit_3 s = s\<lparr>OSIdleCtrMax := OSIdleCtr s, OSStatRdy := True\<rparr>"

text \<open>The computation of the statistics task at the end of each period. \<open>usage\<close> is a signed byte and the quotient is cut to a
  signed byte before the subtraction.\<close>

definition cpu_usage :: "u32 \<Rightarrow> u32 \<Rightarrow> 8 word" where
  "cpu_usage run mx = 100 - ucast (run div mx)"

definition OS_TaskStat_update :: "os \<Rightarrow> os" where
  "OS_TaskStat_update s =
     (let s1 = s\<lparr>OSIdleCtrRun := OSIdleCtr s\<rparr>;
          usage = cpu_usage (OSIdleCtrRun s1) (OSIdleCtrMax s1)
      in if 0 \<le>s usage then s1\<lparr>OSCPUUsage := usage\<rparr>
         else s1\<lparr>OSCPUUsage := 0, OSIdleCtrMax := OSIdleCtrRun s1 div 100\<rparr>)"

text \<open>The loop over all priorities that notes each task's stack use.\<close>

fun stk_chk_from :: "nat \<Rightarrow> nat \<Rightarrow> os \<Rightarrow> os option" where
  "stk_chk_from 0 pr s = Some s"
| "stk_chk_from (Suc n) pr s = do {
     r \<leftarrow> OSTaskStkChk (of_nat pr) s;
     s1 \<leftarrow> (if fst r = OS_ERR_NONE
            then do {
              p \<leftarrow> prio_tbl s (of_nat pr);
              if p \<noteq> TNull \<and> p \<noteq> TReserved
              then do {
                t \<leftarrow> deref_tcb p;
                Some (upd_tcb t (\<lambda>c. c\<lparr>OSTCBStkBase := OSTCBStkBottom c + unat (OSTCBStkSize c),
                        OSTCBStkUsed := snd (snd r)\<rparr>) s)
              }
              else Some s
            }
            else Some s);
     stk_chk_from n (pr + 1) s1
   }"

definition OS_TaskStatStkChk :: "os \<Rightarrow> os option" where
  "OS_TaskStatStkChk s = stk_chk_from 64 0 s"

text \<open>The statistics task, as the points at which it goes on after a call that may give the processor away: the loop that waits for
  \<open>OSStatRdy\<close>, the calibration, and the three parts of a period. A division by zero has no value. \<open>OSTaskStatHook\<close> is empty.\<close>

datatype stat_pc = StatWait | StatCalibrate | StatReference | StatTop | StatReset | StatPeriod

fun OS_TaskStat_step :: "stat_pc \<Rightarrow> os \<Rightarrow> (stat_pc \<times> os) option" where
  "OS_TaskStat_step StatWait s =
     (if OSStatRdy s then Some (StatCalibrate, s)
      else do { s1 \<leftarrow> OSTimeDly (2 * OS_TICKS_PER_SEC div 10) s; Some (StatWait, s1) })"
| "OS_TaskStat_step StatCalibrate s =
     (let s1 = s\<lparr>OSIdleCtrMax := OSIdleCtrMax s div 100\<rparr>
      in if OSIdleCtrMax s1 = 0
         then do { r \<leftarrow> OSTaskSuspend OS_PRIO_SELF (s1\<lparr>OSCPUUsage := 0\<rparr>); Some (StatReference, snd r) }
         else Some (StatReference, s1))"
| "OS_TaskStat_step StatReference s = Some (StatTop, s\<lparr>OSIdleCtr := OSIdleCtrMax s * 100\<rparr>)"
| "OS_TaskStat_step StatTop s = do { s1 \<leftarrow> OSTimeDly 1 s; Some (StatReset, s1) }"
| "OS_TaskStat_step StatReset s = do { s1 \<leftarrow> OSTimeDly (OS_TICKS_PER_SEC div 10) (s\<lparr>OSIdleCtr := 0\<rparr>); Some (StatPeriod, s1) }"
| "OS_TaskStat_step StatPeriod s =
     (if OSIdleCtrMax s = 0 then None
      else do { s1 \<leftarrow> OS_TaskStatStkChk (OS_TaskStat_update s); Some (StatTop, s1) })"

end
