(* ===== verification/OS_Dlist.thy ===== *)
theory OS_Dlist
  imports Main
begin

text \<open>
  Doubly linked lists of table entries, given by their two link functions: what the wait lists of
  the event flags and the spokes of the timer wheel share.
\<close>

definition first_of :: "nat list \<Rightarrow> nat option \<Rightarrow> nat option" where
  "first_of xs d = (case xs of [] \<Rightarrow> d | x # _ \<Rightarrow> Some x)"

definition last_of :: "nat list \<Rightarrow> nat option \<Rightarrow> nat option" where
  "last_of xs d = (if xs = [] then d else Some (last xs))"

lemma first_of_simps [simp]: "first_of [] d = d" "first_of (x # xs) d = Some x"
  by (simp_all add: first_of_def)

lemma last_of_simps [simp]: "last_of [] d = d" "last_of (xs @ [x]) d = Some x" "last_of (x # xs) d = last_of xs (Some x)"
  by (simp_all add: last_of_def)

lemma first_of_mem: "first_of xs None = Some k \<Longrightarrow> k \<in> set xs"
  by (cases xs) simp_all

lemma last_of_mem: "last_of xs None = Some k \<Longrightarrow> k \<in> set xs"
  by (auto simp: last_of_def split: if_splits)

lemma first_of_None [simp]: "first_of xs None = None \<longleftrightarrow> xs = []"
  by (cases xs) simp_all

lemma last_of_None [simp]: "last_of xs d = None \<longleftrightarrow> xs = [] \<and> d = None"
  by (simp add: last_of_def)

text \<open>The nodes \<open>ns\<close> in a row, between the node \<open>p\<close> and the node \<open>e\<close>.\<close>

fun dlinked :: "(nat \<Rightarrow> nat option) \<Rightarrow> (nat \<Rightarrow> nat option) \<Rightarrow> nat option \<Rightarrow> nat list \<Rightarrow> nat option \<Rightarrow> bool" where
  "dlinked nx pv p [] e \<longleftrightarrow> True"
| "dlinked nx pv p (n # ns) e \<longleftrightarrow> pv n = p \<and> nx n = first_of ns e \<and> dlinked nx pv (Some n) ns e"

lemma dlinked_append:
  "dlinked nx pv p (xs @ ys) e \<longleftrightarrow> dlinked nx pv p xs (first_of ys e) \<and> dlinked nx pv (last_of xs p) ys e"
proof (induction xs arbitrary: p)
  case (Cons x xs)
  then show ?case by (cases xs) auto
qed simp

lemma dlinked_cong:
  "(\<And>n. n \<in> set ns \<Longrightarrow> pv' n = pv n \<and> nx' n = nx n) \<Longrightarrow> dlinked nx' pv' p ns e = dlinked nx pv p ns e"
  by (induction ns arbitrary: p) auto

text \<open>The neighbours of a node skip it.\<close>

lemma dlinked_skip:
  assumes "dlinked nx pv None (xs @ n # ys) None" and "distinct (xs @ n # ys)"
    and nx': "\<And>k. k \<in> set (xs @ ys) \<Longrightarrow> nx' k = (if last_of xs None = Some k then first_of ys None else nx k)"
    and pv': "\<And>k. k \<in> set (xs @ ys) \<Longrightarrow> pv' k = (if first_of ys None = Some k then last_of xs None else pv k)"
  shows "dlinked nx' pv' None (xs @ ys) None"
proof -
  have xs: "dlinked nx pv None xs (Some n)" and ys: "dlinked nx pv (Some n) ys None"
    using assms(1) by (simp_all add: dlinked_append)
  have 1: "dlinked nx' pv' None xs (first_of ys None)"
  proof (cases xs rule: rev_cases)
    case (snoc zs z)
    have "dlinked nx' pv' None zs (Some z) = dlinked nx pv None zs (Some z)"
      by (rule dlinked_cong) (use assms(2) snoc in \<open>cases ys; auto simp: nx' pv'\<close>)
    then show ?thesis
      using xs snoc assms(2) by (cases ys) (auto simp: dlinked_append nx' pv')
  qed simp
  have 2: "dlinked nx' pv' (last_of xs None) ys None"
  proof (cases ys)
    case (Cons y zs)
    have "dlinked nx' pv' (Some y) zs None = dlinked nx pv (Some y) zs None"
      by (rule dlinked_cong) (use assms(2) Cons in \<open>cases xs rule: rev_cases; auto simp: nx' pv'\<close>)
    then show ?thesis
      using ys Cons assms(2) by (cases xs rule: rev_cases) (auto simp: nx' pv')
  qed simp
  from 1 2 show ?thesis by (simp add: dlinked_append)
qed

text \<open>A new node in front.\<close>

lemma dlinked_front:
  assumes "dlinked nx pv None ns None" and "n \<notin> set ns" "distinct ns"
    and "pv' n = None" "nx' n = first_of ns None"
    and "\<And>k. k \<in> set ns \<Longrightarrow> nx' k = nx k"
    and "\<And>k. k \<in> set ns \<Longrightarrow> pv' k = (if first_of ns None = Some k then Some n else pv k)"
  shows "dlinked nx' pv' None (n # ns) None"
proof (cases ns)
  case (Cons m ms)
  have "dlinked nx' pv' (Some m) ms None = dlinked nx pv (Some m) ms None"
    by (rule dlinked_cong) (use assms(3,6,7) Cons in auto)
  then show ?thesis using assms Cons by simp
qed (use assms in simp)

text \<open>A node knows its neighbours.\<close>

lemma dlinked_neighbours:
  assumes "dlinked nx pv None (xs @ n # ys) None"
  shows "pv n = last_of xs None" and "nx n = first_of ys None"
  using assms by (simp_all add: dlinked_append)

end
