(* ===== verification/OS_Init_Proofs.thy ===== *)
theory OS_Init_Proofs
  imports OS_Init OS_Create OS_Time_Proofs OS_Flag_List
begin

text \<open>
  Start-up establishes the invariant: from any memory, \<open>OSInit\<close> ends in a state with the idle and the statistics task ready
  and all other control blocks free, and \<open>OSStart\<close> then runs the most urgent task. Further the figures of
  the statistics task.
\<close>

subsection \<open>The kernel while it is being set up\<close>

definition boot_ok :: "os \<Rightarrow> nat list \<Rightarrow> nat list \<Rightarrow> bool" where
  "boot_ok s ts fs \<longleftrightarrow> sched_inv0 s \<and> task_lists0 s ts fs \<and> obj_inv s \<and> (\<forall>e. waiters s e = {}) \<and>
     (\<forall>t < OS_MAX_TCBS. no_refs (OSTCBTbl s t)) \<and> \<not> OSRunning s \<and> OSIntNesting s = 0 \<and> OSLockNesting s = 0"

lemma task_lists0D:
  assumes "task_lists0 s ts fs"
  shows "tcb_seg (OSTCBTbl s) TNull (OSTCBList s) ts" "free_seg (OSTCBTbl s) (OSTCBFreeList s) fs" "distinct (ts @ fs)"
    "set ts = {t. act s t}"
  using assms unfolding task_lists0_def by blast+

text \<open>What both create calls do while the kernel does not run, once the priority is reserved.\<close>

lemma boot_ok_stk: "boot_ok (s\<lparr>OSStkMem := m\<rparr>) ts fs = boot_ok s ts fs"
proof -
  let ?s = "s\<lparr>OSStkMem := m\<rparr>"
  have obj: "obj_inv ?s = obj_inv s" by (rule obj_inv_cong) simp_all
  have act: "act ?s = act s" by (simp add: act_def fun_eq_iff)
  have sel: "ready ?s = ready s" "waiters ?s = waiters s" "rdy_bm ?s = rdy_bm s"
    by (simp_all add: ready_def waiters_def rdy_bm_def fun_eq_iff)
  have "task_ok ?s = task_ok s" by (simp add: task_ok_def sel fun_eq_iff)
  then have "sched_inv0 ?s = sched_inv0 s" by (simp add: sched_inv0_def sel act)
  moreover have "task_lists0 ?s ts fs = task_lists0 s ts fs" unfolding task_lists0_def act by simp
  ultimately show ?thesis by (simp add: boot_ok_def obj sel)
qed

lemma create_boot:
  assumes boot: "boot_ok s ts fs" and p: "p < 64" "OSTCBPrioTbl s p = TNull"
  defines "call \<equiv> \<lambda>psp pbos ident sz pext opt mem. do {
      r2 \<leftarrow> OS_TCBInit p psp pbos ident sz pext opt (reserve p mem s); task_create_end p r2 }"
  shows "fs = [] \<Longrightarrow> call psp pbos ident sz pext opt mem = Some (OS_ERR_TASK_NO_MORE_TCB, s\<lparr>OSStkMem := mem\<rparr>)"
    and "fs = t # fs' \<Longrightarrow> \<exists>s'. call psp pbos ident sz pext opt mem = Some (OS_ERR_NONE, s') \<and>
      adds_task (reserve p mem s) p t s' \<and> boot_ok s' (t # ts) fs' \<and> ready s' = insert p (ready s) \<and> t < OS_MAX_TCBS \<and>
      (\<forall>u \<in> set ts. prio s' u = prio s u)"
proof -
  have inv: "sched_inv0 s" and lists: "task_lists0 s ts fs" and obj: "obj_inv s" and w0: "waiters s e = {}"
    and run: "\<not> OSRunning s" "OSIntNesting s = 0" "OSLockNesting s = 0" and nr: "\<forall>u < OS_MAX_TCBS. no_refs (OSTCBTbl s u)" for e
    using boot by (simp_all add: boot_ok_def)
  let ?r = "reserve p mem s"
  note init = OS_TCBInit_ok [OF reserve_inv(2) [OF p(2), where mem = mem, THEN iffD2, OF lists] p(1)]
  show "call psp pbos ident sz pext opt mem = Some (OS_ERR_TASK_NO_MORE_TCB, s\<lparr>OSStkMem := mem\<rparr>)" if "fs = []"
  proof -
    have "(OSTCBPrioTbl s)(p := TNull) = OSTCBPrioTbl s" using p(2) by (simp add: fun_eq_iff)
    then have "?r\<lparr>OSTCBPrioTbl := (OSTCBPrioTbl ?r)(p := TNull)\<rparr> = s\<lparr>OSStkMem := mem\<rparr>" by (simp add: reserve_def)
    then show ?thesis using init(1) [OF that] by (simp add: call_def task_create_end_def)
  qed
  assume fs: "fs = t # fs'"
  obtain s' where s': "OS_TCBInit p psp pbos ident sz pext opt ?r = Some (OS_ERR_NONE, s')" "adds_task ?r p t s'" "t < OS_MAX_TCBS"
    "\<not> act ?r t" "tcb_seg (OSTCBTbl s') TNull (OSTCBList s') (t # ts)" "free_seg (OSTCBTbl s') (OSTCBFreeList s') fs'"
    "distinct ((t # ts) @ fs')"
    using init(2) [OF fs] by blast
  note sel = s'(2) [unfolded adds_task_def]
  have nofree: "\<nexists>u. OSTCBPrioTbl ?r p = TPtr u" by simp
  note ai = adds_task_inv [OF reserve_inv(1) [OF p(2) inv] s'(2) p(1) s'(3,4) nofree]
  note act = adds_task_act [OF s'(2) p(1) s'(3,4) nofree]
  have acts: "act s' u \<longleftrightarrow> u = t \<or> act s u" for u using act(1) reserve_act [OF p(2)] by simp
  have set: "set ts = {u. act s u}" by (rule task_lists0D(4) [OF lists])
  have "set (t # ts) = {u. act s' u}" using set acts by auto
  then have "task_lists0 s' (t # ts) fs'" unfolding task_lists0_def using s'(5-7) by blast
  moreover have "obj_inv s' = obj_inv s" by (rule obj_inv_cong) (use sel in auto)
  moreover have "no_refs (OSTCBTbl s' u)" if "u < OS_MAX_TCBS" for u
  proof (cases "u = t")
    case True
    then show ?thesis using sel by (simp add: new_tcb_def no_refs_def)
  next
    case False
    from sched_view_conds(6,7) [OF adds_task_view(1) [OF s'(2) False]] nr that show ?thesis by (simp add: no_refs_def)
  qed
  ultimately have "boot_ok s' (t # ts) fs'" using ai obj w0 run sel by (simp add: boot_ok_def)
  moreover have "prio s' u = prio s u" if "u \<in> set ts" for u
    using act(2) [of u] that set reserve_act [OF p(2), of mem u] by simp
  moreover have "call psp pbos ident sz pext opt mem = Some (OS_ERR_NONE, s')"
    using s'(1) sel run(1) by (simp add: call_def task_create_end_def)
  moreover have "ready s' = insert p (ready s)" using ai(2) by simp
  ultimately show "\<exists>s'. call psp pbos ident sz pext opt mem = Some (OS_ERR_NONE, s') \<and>
      adds_task (reserve p mem s) p t s' \<and> boot_ok s' (t # ts) fs' \<and> ready s' = insert p (ready s) \<and> t < OS_MAX_TCBS \<and>
      (\<forall>u \<in> set ts. prio s' u = prio s u)"
    using s'(2,3) by blast
qed

text \<open>The tables of the events, the queues and the flag groups: creating a task leaves them alone.\<close>

definition obj_tables :: "os \<Rightarrow> _" where
  "obj_tables s = (OSEvents s, OSEventFreeList s, OSQTbl s, OSQFreeList s, OSFlagTbl s, OSFlagFreeList s)"

lemma obj_tablesD:
  assumes "obj_tables s' = obj_tables s"
  shows "OSEvents s' = OSEvents s" "OSEventFreeList s' = OSEventFreeList s" "OSQTbl s' = OSQTbl s" "OSQFreeList s' = OSQFreeList s"
    "OSFlagTbl s' = OSFlagTbl s" "OSFlagFreeList s' = OSFlagFreeList s"
  using assms by (simp_all add: obj_tables_def)

lemma OS_TCBInit_tables: "OS_TCBInit p ptos pbos ident sz pext opt s = Some r \<Longrightarrow>
    obj_tables (snd r) = obj_tables s \<and> OSRunning (snd r) = OSRunning s"
  unfolding OS_TCBInit_def Let_def
  by (auto simp: obj_tables_def bind_Some_iff split: if_splits)

lemma create_ext_tables:
  assumes "OSTaskCreateExt ret task p_arg ptos p ident pbos sz pext opt s = Some (err, s')" and run: "\<not> OSRunning s"
  shows "obj_tables s' = obj_tables s"
proof -
  have clr: "obj_tables (snd (OSTaskStkInit ret task p_arg ptos (OS_TaskStkClr pbos sz opt (s\<lparr>OSTCBPrioTbl := m\<rparr>)))) = obj_tables s"
    "OSRunning (snd (OSTaskStkInit ret task p_arg ptos (OS_TaskStkClr pbos sz opt (s\<lparr>OSTCBPrioTbl := m\<rparr>)))) = OSRunning s" for m
    by (simp_all add: OSTaskStkInit_def OS_TaskStkClr_def obj_tables_def Let_def)
  have fin: "obj_tables s' = obj_tables (snd r)" if "task_create_end p r = Some (err, s')" "\<not> OSRunning (snd r)" for r
    using that by (auto simp: task_create_end_def obj_tables_def split: if_splits)
  show ?thesis
    using assms(1) unfolding OSTaskCreateExt_def Let_def
    by (auto simp: bind_Some_iff clr run dest!: OS_TCBInit_tables dest: fin split: if_splits)
qed

lemma create_ext_boot:
  assumes boot: "boot_ok s ts (t # fs)" and p: "p < 64" "OSTCBPrioTbl s p = TNull"
  shows "\<exists>mem s'. OSTaskCreateExt ret task p_arg ptos p ident pbos sz pext opt s = Some (OS_ERR_NONE, s') \<and>
    adds_task (reserve p mem s) p t s' \<and> boot_ok s' (t # ts) fs \<and> ready s' = insert p (ready s) \<and> t < OS_MAX_TCBS \<and>
    (\<forall>u \<in> set ts. prio s' u = prio s u)"
proof -
  have n: "OSIntNesting s = 0" using boot by (simp add: boot_ok_def)
  let ?s0 = "OS_TaskStkClr pbos sz opt (s\<lparr>OSTCBPrioTbl := (OSTCBPrioTbl s)(p := TReserved)\<rparr>)"
  define mem where "mem = snd (stk_push (stk_frame ret task p_arg) ((ptos + 1) div 2 * 2) (OSStkMem ?s0))"
  define psp where "psp = fst (OSTaskStkInit ret task p_arg ptos ?s0)"
  have r: "snd (OSTaskStkInit ret task p_arg ptos ?s0) = reserve p mem s"
    by (simp add: OSTaskStkInit_def Let_def reserve_def mem_def OS_TaskStkClr_def)
  have eval: "OSTaskCreateExt ret task p_arg ptos p ident pbos sz pext opt s =
      do { r2 \<leftarrow> OS_TCBInit p psp pbos ident sz pext opt (reserve p mem s); task_create_end p r2 }"
    using n p by (simp add: OSTaskCreateExt_def prio_tbl_def le_63_less_64 Let_def r psp_def)
  show ?thesis
    unfolding eval using create_boot(2) [OF boot p refl] by blast
qed

text \<open>\<open>OSTaskCreate\<close> before \<open>OSStart\<close>, on every branch.\<close>

lemma create_task_boot:
  assumes boot: "boot_ok s ts fs" and p: "p < 64"
  shows "\<exists>err s' ts' fs'. OSTaskCreate ret task p_arg ptos p s = Some (err, s') \<and> boot_ok s' ts' fs' \<and> ready s \<subseteq> ready s' \<and>
    (ts \<noteq> [] \<longrightarrow> ts' \<noteq> [] \<and> last ts' = last ts) \<and> (\<forall>u \<in> set ts. prio s' u = prio s u)"
proof (cases "OSTCBPrioTbl s p = TNull")
  case True
  have n: "OSIntNesting s = 0" using boot by (simp add: boot_ok_def)
  define mem where "mem = snd (stk_push (stk_frame ret task p_arg) ((ptos + 1) div 2 * 2) (OSStkMem s))"
  let ?psp = "fst (OSTaskStkInit ret task p_arg ptos s)"
  have eval: "OSTaskCreate ret task p_arg ptos p s = do { r2 \<leftarrow> OS_TCBInit p ?psp 0 0 0 VNull 0 (reserve p mem s); task_create_end p r2 }"
    using n p True by (simp add: OSTaskCreate_def prio_tbl_def le_63_less_64 OSTaskStkInit_def Let_def reserve_def mem_def)
  note c = create_boot [OF boot p True, where psp = ?psp and pbos = 0 and ident = 0 and sz = 0 and pext = VNull and opt = 0
    and mem = mem, folded eval]
  show ?thesis
  proof (cases fs)
    case Nil
    have "boot_ok (s\<lparr>OSStkMem := mem\<rparr>) ts fs" using boot by (simp only: boot_ok_stk)
    then show ?thesis using c(1) [OF Nil] by (intro exI [of _ "OS_ERR_TASK_NO_MORE_TCB"] exI [of _ "s\<lparr>OSStkMem := mem\<rparr>"] exI [of _ ts] exI [of _ fs])
        (simp add: ready_def rdy_bm_def)
  next
    case (Cons t fs')
    obtain s' where s': "OSTaskCreate ret task p_arg ptos p s = Some (OS_ERR_NONE, s')" "boot_ok s' (t # ts) fs'"
      "ready s' = insert p (ready s)" "\<forall>u \<in> set ts. prio s' u = prio s u"
      using c(2) [OF Cons] by blast
    show ?thesis
      by (rule exI [of _ OS_ERR_NONE], rule exI [of _ s'], rule exI [of _ "t # ts"], rule exI [of _ fs']) (use s' in auto)
  qed
next
  case False
  have "OSIntNesting s = 0" using boot by (simp add: boot_ok_def)
  then have "OSTaskCreate ret task p_arg ptos p s = Some (OS_ERR_PRIO_EXIST, s)"
    using False p by (simp add: OSTaskCreate_def prio_tbl_def le_63_less_64)
  then show ?thesis using boot by blast
qed

text \<open>Naming a task touches nothing that matters.\<close>

lemma boot_name:
  assumes boot: "boot_ok s ts fs"
  shows "boot_ok (upd_tcb t (\<lambda>c. c\<lparr>OSTCBTaskName := nm\<rparr>) s) ts fs" (is "boot_ok ?s ts fs")
proof -
  have act: "act ?s u = act s u" for u by (simp add: act_def)
  have tok: "task_ok ?s u = task_ok s u" for u
  proof -
    have "sched_view (OSTCBTbl ?s u) = sched_view (OSTCBTbl s u)" by (simp add: sched_view_def prio_view_def)
    from sched_view_conds [OF this] show ?thesis by (simp only: task_ok_def Let_def ready_upd_tcb waiters_upd_tcb upd_tcb_frame(2))
  qed
  have "prio ?s u = prio s u" for u by simp
  then have "sched_inv0 ?s = sched_inv0 s" unfolding sched_inv0_def act tok by simp
  moreover have "tcb_seg (OSTCBTbl ?s) TNull (OSTCBList ?s) ts = tcb_seg (OSTCBTbl s) TNull (OSTCBList s) ts"
    unfolding upd_tcb_frame(9) by (rule tcb_seg_cong) simp
  moreover have "free_seg (OSTCBTbl ?s) (OSTCBFreeList ?s) fs = free_seg (OSTCBTbl s) (OSTCBFreeList s) fs"
    unfolding upd_tcb_frame(10) by (rule free_seg_cong) simp
  moreover have "obj_inv ?s = obj_inv s" by (rule obj_inv_cong) simp_all
  ultimately have eqs: "sched_inv0 ?s = sched_inv0 s" "obj_inv ?s = obj_inv s"
    "tcb_seg (OSTCBTbl ?s) TNull (OSTCBList ?s) ts = tcb_seg (OSTCBTbl s) TNull (OSTCBList s) ts"
    "free_seg (OSTCBTbl ?s) (OSTCBFreeList ?s) fs = free_seg (OSTCBTbl s) (OSTCBFreeList s) fs"
    by blast+
  have "act ?s = act s" by (rule ext) (rule act)
  then have "task_lists0 ?s ts fs = task_lists0 s ts fs" unfolding task_lists0_def eqs by (rule arg_cong)
  then show ?thesis using boot eqs(1,2) by (simp add: boot_ok_def no_refs_def)
qed

text \<open>The tables after the first half of \<open>OSInit\<close>, from any contents of memory. The model's event array is longer than the
  program's, so the hypothesis says that nobody waits beyond its end.\<close>

definition boot_tables :: "os \<Rightarrow> os" where
  "boot_tables s = OS_QInit (OS_FlagInit (OS_InitEventList (OS_InitTCBList (OS_InitRdyList (OS_InitMisc s)))))"

definition no_junk :: "os \<Rightarrow> bool" where
  "no_junk s \<longleftrightarrow> (\<forall>e \<ge> OS_MAX_EVENTS. bm_ok (evt_bm (OSEvents s e)) \<and> waiters s e = {})"

lemma upt_list:
  assumes "R n []" and "\<And>k xs. k < n \<Longrightarrow> R (Suc k) xs \<Longrightarrow> R k (k # xs)"
  shows "k \<le> n \<Longrightarrow> R k [k ..< n]"
proof (induction k rule: inc_induct)
  case (step k)
  then show ?case using assms(2) [of k "[Suc k ..< n]"] by (simp add: upt_conv_Cons)
qed (simp add: assms(1))

lemma free_seg_upto:
  assumes "\<And>t. t < n \<Longrightarrow> OSTCBNext (tbl t) = (if Suc t < n then TPtr (Suc t) else TNull)" and "0 < n" "n \<le> OS_MAX_TCBS"
  shows "free_seg tbl (TPtr 0) [0 ..< n]"
  using upt_list [of "\<lambda>k. free_seg tbl (if k < n then TPtr k else TNull)" n 0] assms by simp

lemma evt_seg_upto:
  assumes "\<And>e. e < n \<Longrightarrow> OSEventPtr (evs e) = (if Suc e < n then VEvt (Suc e) else VNull)" and "0 < n" "n \<le> OS_MAX_EVENTS"
  shows "evt_seg evs (VEvt 0) [0 ..< n]"
  using upt_list [of "\<lambda>k. evt_seg evs (if k < n then VEvt k else VNull)" n 0] assms by simp

lemma q_seg_upto:
  assumes "\<And>q. q < n \<Longrightarrow> OSQPtr (tbl q) = (if Suc q < n then Some (Suc q) else None)" and "0 < n" "n \<le> OS_MAX_QS"
  shows "q_seg tbl (Some 0) [0 ..< n]"
  using upt_list [of "\<lambda>k. q_seg tbl (if k < n then Some k else None)" n 0] assms by simp

lemma grp_seg_upto:
  assumes "\<And>g. g < n \<Longrightarrow> OSFlagWaitList (tbl g) = (if Suc g < n then WGrp (Suc g) else WNull)" and "0 < n" "n \<le> OS_MAX_FLAGS"
  shows "grp_seg tbl (WGrp 0) [0 ..< n]"
  using upt_list [of "\<lambda>k. grp_seg tbl (if k < n then WGrp k else WNull)" n 0] assms by simp

lemma boot_tables_sel:
  "t < OS_MAX_TCBS \<Longrightarrow> OSTCBNext (OSTCBTbl (boot_tables s) t) = (if Suc t < OS_MAX_TCBS then TPtr (Suc t) else TNull)"
  "e < OS_MAX_EVENTS \<Longrightarrow> OSEventType (OSEvents (boot_tables s) e) = OS_EVENT_TYPE_UNUSED"
  "e < OS_MAX_EVENTS \<Longrightarrow> OSEventPtr (OSEvents (boot_tables s) e) = (if Suc e < OS_MAX_EVENTS then VEvt (Suc e) else VNull)"
  "e < OS_MAX_EVENTS \<Longrightarrow> evt_bm (OSEvents (boot_tables s) e) = (0, \<lambda>_. 0)"
  "\<not> e < OS_MAX_EVENTS \<Longrightarrow> OSEvents (boot_tables s) e = OSEvents s e"
  "q < OS_MAX_QS \<Longrightarrow> OSQPtr (OSQTbl (boot_tables s) q) = (if Suc q < OS_MAX_QS then Some (Suc q) else None)"
  "OSTCBList (boot_tables s) = TNull" "OSTCBFreeList (boot_tables s) = TPtr 0" "OSEventFreeList (boot_tables s) = VEvt 0"
  "OSQFreeList (boot_tables s) = Some 0" "p < 64 \<Longrightarrow> OSTCBPrioTbl (boot_tables s) p = TNull"
  "t < OS_MAX_TCBS \<Longrightarrow> no_refs (OSTCBTbl (boot_tables s) t)" "rdy_bm (boot_tables s) = (0, \<lambda>i. if i < 8 then 0 else OSRdyTbl s i)"
  "\<not> OSRunning (boot_tables s)" "OSIntNesting (boot_tables s) = 0" "OSLockNesting (boot_tables s) = 0"
  "g < OS_MAX_FLAGS \<Longrightarrow> OSFlagWaitList (OSFlagTbl (boot_tables s) g) = (if Suc g < OS_MAX_FLAGS then WGrp (Suc g) else WNull)"
  "g < OS_MAX_FLAGS \<Longrightarrow> OSFlagType (OSFlagTbl (boot_tables s) g) = OS_EVENT_TYPE_UNUSED" "OSFlagFreeList (boot_tables s) = WGrp 0"
  by (auto simp: boot_tables_def OS_QInit_def OS_FlagInit_def OS_InitEventList_def OS_InitTCBList_def OS_InitRdyList_def
      OS_InitMisc_def evt_bm_def rdy_bm_def le_63_less_64 no_refs_def tcb_zero_def)

lemma boot_tables_ok:
  assumes junk: "no_junk s"
  shows "boot_ok (boot_tables s) [] [0 ..< OS_MAX_TCBS]" "ready (boot_tables s) = {}"
proof -
  let ?s = "boot_tables s"
  note sel = boot_tables_sel [where s = s]
  have na: "\<not> act ?s t" for t using sel(11) by (auto simp: act_def)
  show rd: "ready ?s = {}" by (auto simp: sel ready_def bm_set_def bm_mem_def row_less)
  have ev: "bm_ok (evt_bm (OSEvents ?s e)) \<and> waiters ?s e = {}" for e
  proof (cases "e < OS_MAX_EVENTS")
    case True
    then show ?thesis by (simp add: sel waiters_def bm_set_def bm_mem_def bm_ok_def)
  next
    case False
    then show ?thesis using junk by (simp add: no_junk_def sel waiters_def)
  qed
  have "bm_ok (rdy_bm ?s)" by (simp add: sel bm_ok_def)
  then have "sched_inv0 ?s"
    using ev na rd sel(11) by (simp add: sched_inv0_def)
  moreover have "task_lists0 ?s [] [0 ..< OS_MAX_TCBS]"
    using na free_seg_upto [OF sel(1)] by (simp add: task_lists0_def sel)
  moreover have "obj_inv ?s"
  proof -
    have "set [0 ..< OS_MAX_EVENTS] = unused ?s" by (auto simp: unused_def sel)
    then have "evt_free_inv ?s"
      unfolding evt_free_inv_def sel(9) using evt_seg_upto [OF sel(3)] by (intro exI [of _ "[0 ..< OS_MAX_EVENTS]"]) simp
    moreover have nq: "\<not> q_of ?s e q" for e q by (auto simp: q_of_def sel)
    have "q_seg (OSQTbl ?s) (Some 0) [0 ..< OS_MAX_QS]" by (rule q_seg_upto [OF sel(6)]) simp_all
    then have "\<exists>qs. q_seg (OSQTbl ?s) (OSQFreeList ?s) qs \<and> distinct qs \<and> set qs = {q. q < OS_MAX_QS \<and> (\<nexists>e. q_of ?s e q)}"
      by (intro exI [of _ "[0 ..< OS_MAX_QS]"]) (auto simp: nq sel(10))
    then have "q_inv ?s" unfolding q_inv_def using nq by (simp add: sel)
    ultimately show ?thesis by (simp add: obj_inv_def)
  qed
  ultimately show "boot_ok ?s [] [0 ..< OS_MAX_TCBS]" using ev by (simp add: boot_ok_def sel)
qed

text \<open>Everything but the two system tasks is free: all other control blocks of tasks, all events, all queues and all flag groups
  are on their free lists, and no other priority is taken.\<close>

definition objects_free :: "os \<Rightarrow> bool" where
  "objects_free s \<longleftrightarrow> evt_seg (OSEvents s) (OSEventFreeList s) [0 ..< OS_MAX_EVENTS] \<and>
     (\<forall>e < OS_MAX_EVENTS. OSEventType (OSEvents s e) = OS_EVENT_TYPE_UNUSED) \<and>
     q_seg (OSQTbl s) (OSQFreeList s) [0 ..< OS_MAX_QS] \<and>
     grp_seg (OSFlagTbl s) (OSFlagFreeList s) [0 ..< OS_MAX_FLAGS] \<and>
     (\<forall>g < OS_MAX_FLAGS. OSFlagType (OSFlagTbl s g) = OS_EVENT_TYPE_UNUSED)"

definition only_system_tasks :: "os \<Rightarrow> bool" where
  "only_system_tasks s \<longleftrightarrow> tcb_seg (OSTCBTbl s) TNull (OSTCBList s) [1, 0] \<and>
     free_seg (OSTCBTbl s) (OSTCBFreeList s) [2 ..< OS_MAX_TCBS] \<and>
     (\<forall>p < 64. OSTCBPrioTbl s p = (if p = OS_TASK_STAT_PRIO then TPtr 1 else if p = OS_TASK_IDLE_PRIO then TPtr 0 else TNull)) \<and>
     prio s 1 = OS_TASK_STAT_PRIO \<and> prio s 0 = OS_TASK_IDLE_PRIO"

lemma objects_free_cong: "obj_tables s' = obj_tables s \<Longrightarrow> objects_free s' = objects_free s"
  using obj_tablesD [of s' s] by (simp add: objects_free_def)

lemma boot_tables_free: "objects_free (boot_tables s)"
proof -
  note sel = boot_tables_sel [where s = s]
  have "evt_seg (OSEvents (boot_tables s)) (OSEventFreeList (boot_tables s)) [0 ..< OS_MAX_EVENTS]"
    unfolding sel(9) by (rule evt_seg_upto [OF sel(3)]) simp_all
  moreover have "q_seg (OSQTbl (boot_tables s)) (OSQFreeList (boot_tables s)) [0 ..< OS_MAX_QS]"
    unfolding sel(10) by (rule q_seg_upto [OF sel(6)]) simp_all
  moreover have "grp_seg (OSFlagTbl (boot_tables s)) (OSFlagFreeList (boot_tables s)) [0 ..< OS_MAX_FLAGS]"
    unfolding sel(19) by (rule grp_seg_upto [OF sel(17)]) simp_all
  ultimately show ?thesis using sel(2,18) by (simp add: objects_free_def)
qed

text \<open>Creating and naming a system task.\<close>

lemma boot_system_task:
  assumes boot: "boot_ok s ts (t # fs)" and p: "p < 64" "p \<noteq> OS_PRIO_SELF" "OSTCBPrioTbl s p = TNull"
  shows "\<exists>s1 s2. OSTaskCreateExt ret task p_arg ptos p ident pbos sz pext opt s = Some (OS_ERR_NONE, s1) \<and>
    OSTaskNameSet p nm s1 = Some (OS_ERR_NONE, s2) \<and> boot_ok s2 (t # ts) fs \<and> ready s2 = insert p (ready s) \<and>
    OSTCBPrioTbl s2 = (OSTCBPrioTbl s)(p := TPtr t) \<and> prio s2 t = p \<and> (\<forall>u \<in> set ts. prio s2 u = prio s u) \<and> obj_tables s2 = obj_tables s"
proof -
  obtain mem s1 where s1: "OSTaskCreateExt ret task p_arg ptos p ident pbos sz pext opt s = Some (OS_ERR_NONE, s1)"
    "adds_task (reserve p mem s) p t s1" "boot_ok s1 (t # ts) fs" "ready s1 = insert p (ready s)" "t < OS_MAX_TCBS"
    "\<forall>u \<in> set ts. prio s1 u = prio s u"
    using create_ext_boot [OF boot p(1,3)] by metis
  let ?s2 = "upd_tcb t (\<lambda>c. c\<lparr>OSTCBTaskName := nm\<rparr>) s1"
  have slot: "OSTCBPrioTbl s1 = (OSTCBPrioTbl s)(p := TPtr t)" and new: "prio s1 t = p"
    using s1(2) by (simp_all add: adds_task_def new_tcb_def)
  have "OSIntNesting s1 = 0" using s1(3) by (simp add: boot_ok_def)
  then have "OSTaskNameSet p nm s1 = Some (OS_ERR_NONE, ?s2)"
    using slot s1(5) p by (simp add: OSTaskNameSet_def self_prio_def prio_tbl_def le_63_less_64)
  moreover have "boot_ok ?s2 (t # ts) fs" by (rule boot_name [OF s1(3)])
  moreover have "\<forall>u \<in> set ts. prio ?s2 u = prio s u" using s1(6) by simp
  moreover have "prio ?s2 t = p" "ready ?s2 = insert p (ready s)" "OSTCBPrioTbl ?s2 = (OSTCBPrioTbl s)(p := TPtr t)"
    using slot new s1(4) by simp_all
  moreover have "obj_tables ?s2 = obj_tables s"
    using create_ext_tables [OF s1(1)] boot by (simp add: boot_ok_def obj_tables_def)
  ultimately show ?thesis using s1(1) by blast
qed

lemma boot_kernel:
  assumes boot: "boot_ok s ts fs" and idle: "OS_TASK_IDLE_PRIO \<in> ready s" "ts \<noteq> []" "prio s (last ts) = OS_TASK_IDLE_PRIO"
  shows "sched_inv s" "list_inv s" "idle_inv s" "obj_inv s" "\<not> OSRunning s"
proof -
  show "sched_inv s" using boot idle(1) by (simp add: boot_ok_def sched_inv0_iff)
  have "task_lists s ts fs" using boot idle(2,3) by (simp add: boot_ok_def task_lists0_iff)
  then show "list_inv s" unfolding list_inv_def by blast
  show "idle_inv s" "obj_inv s" "\<not> OSRunning s" using boot by (simp_all add: boot_ok_def idle_inv_def)
qed

lemma OSStart_ok:
  assumes inv: "sched_inv s" "list_inv s" "idle_inv s" "obj_inv s" and nrun: "\<not> OSRunning s"
  shows "\<exists>s' c. OSStart s = Some s' \<and> kernel_ok s' c \<and> highest_runs s' \<and> act s c \<and> prio s c = bm_highest (rdy_bm s) \<and>
    prio s' c = prio s c \<and> ready s' = ready s \<and> OSRunning s' \<and> OSTCBTbl s' = OSTCBTbl s \<and>
    OSIntNesting s' = OSIntNesting s \<and> OSLockNesting s' = OSLockNesting s \<and> obj_tables s' = obj_tables s"
proof -
  let ?h = "bm_highest (rdy_bm s)"
  obtain t where t: "act s t" "prio s t = ?h"
    using sched_invD(4) [OF inv(1) ready_highest(1) [OF inv(1)]] by blast
  define s' where "s' = s\<lparr>OSPrioHighRdy := ?h, OSPrioCur := ?h, OSTCBHighRdy := TPtr t, OSTCBCur := TPtr t, OSRunning := True\<rparr>"
  have "OSStart s = Some s'"
    using nrun prio_tbl_ready [OF inv(1) t(1)] t(2)
    by (simp add: OSStart_def OS_SchedNew_def OSStartHighRdy_def PendSV_Handler_def prio_tbl_def s'_def Let_def
        split: if_splits)
  moreover have "sched_inv s'" by (rule sched_inv_cong [OF inv(1)]) (simp_all add: s'_def rdy_bm_def)
  moreover have "list_inv s' = list_inv s" by (rule list_inv_cong) (simp_all add: s'_def)
  moreover have "obj_inv s' = obj_inv s" by (rule obj_inv_cong) (simp_all add: s'_def)
  moreover have "avail s' e = avail s e" for e by (rule avail_cong) (simp_all add: s'_def)
  moreover have eqs: "ready s' = ready s" "act s' t" "OSTCBTbl s' = OSTCBTbl s" "waiters s' = waiters s"
    using t by (simp_all add: s'_def ready_def rdy_bm_def act_def waiters_def fun_eq_iff)
  moreover from eqs have cok: "cur_ok s' t"
    using t ready_highest(1) [OF inv(1)] by (simp add: cur_ok_def) (simp add: s'_def)
  moreover have "highest_runs s'"
    using cok eqs ready_highest [OF inv(1)] t by (auto simp: highest_runs_def)
  ultimately have "kernel_ok s' t" using inv by (simp add: kernel_ok_def idle_inv_def)
  then show ?thesis
    using \<open>OSStart s = Some s'\<close> \<open>highest_runs s'\<close> eqs t
    by (intro exI [of _ s'] exI [of _ t] conjI) (simp_all add: s'_def obj_tables_def)
qed

lemma OSInit_boot:
  assumes junk: "no_junk s"
  shows "\<exists>s1. OSInit l s = Some s1 \<and> boot_ok s1 [1, 0] [2 ..< OS_MAX_TCBS] \<and> ready s1 = {OS_TASK_STAT_PRIO, OS_TASK_IDLE_PRIO} \<and>
    prio s1 0 = OS_TASK_IDLE_PRIO \<and> objects_free s1 \<and> only_system_tasks s1"
proof -
  let ?b = "boot_tables s"
  note b = boot_tables_ok [OF junk]
  have upt: "[0 ..< OS_MAX_TCBS] = 0 # 1 # [2 ..< OS_MAX_TCBS]" by (simp add: upt_rec)
  have idle: "\<exists>a1 a2. OSTaskCreateExt (OS_TaskReturn_addr l) (OS_TaskIdle_addr l) 0
            (OSTaskIdleStk l + unat (OS_TASK_IDLE_STK_SIZE - 1)) OS_TASK_IDLE_PRIO 65535 (OSTaskIdleStk l)
            OS_TASK_IDLE_STK_SIZE VNull (OS_TASK_OPT_STK_CHK OR OS_TASK_OPT_STK_CLR) ?b = Some (OS_ERR_NONE, a1) \<and>
      OSTaskNameSet OS_TASK_IDLE_PRIO ''uC/OS-II Idle'' a1 = Some (OS_ERR_NONE, a2) \<and>
      boot_ok a2 [0] (1 # [2 ..< OS_MAX_TCBS]) \<and> ready a2 = insert OS_TASK_IDLE_PRIO (ready ?b) \<and>
      OSTCBPrioTbl a2 = (OSTCBPrioTbl ?b)(OS_TASK_IDLE_PRIO := TPtr 0) \<and> prio a2 0 = OS_TASK_IDLE_PRIO \<and> (\<forall>u \<in> set []. prio a2 u = prio ?b u) \<and> obj_tables a2 = obj_tables ?b"
    by (rule boot_system_task) (use b(1) upt boot_tables_sel(11) in simp_all)
  obtain a1 a2 where a: "OSTaskCreateExt (OS_TaskReturn_addr l) (OS_TaskIdle_addr l) 0
            (OSTaskIdleStk l + unat (OS_TASK_IDLE_STK_SIZE - 1)) OS_TASK_IDLE_PRIO 65535 (OSTaskIdleStk l)
            OS_TASK_IDLE_STK_SIZE VNull (OS_TASK_OPT_STK_CHK OR OS_TASK_OPT_STK_CLR) ?b = Some (OS_ERR_NONE, a1)"
      "OSTaskNameSet OS_TASK_IDLE_PRIO ''uC/OS-II Idle'' a1 = Some (OS_ERR_NONE, a2)"
      "boot_ok a2 [0] (1 # [2 ..< OS_MAX_TCBS])" "ready a2 = insert OS_TASK_IDLE_PRIO (ready ?b)"
      "OSTCBPrioTbl a2 = (OSTCBPrioTbl ?b)(OS_TASK_IDLE_PRIO := TPtr 0)" "prio a2 0 = OS_TASK_IDLE_PRIO" "obj_tables a2 = obj_tables ?b"
    using idle by blast
  have free: "OSTCBPrioTbl a2 OS_TASK_STAT_PRIO = TNull" using a(5) boot_tables_sel(11) by simp
  have stat: "\<exists>d1 d2. OSTaskCreateExt (OS_TaskReturn_addr l) (OS_TaskStat_addr l) 0
            (OSTaskStatStk l + unat (OS_TASK_STAT_STK_SIZE - 1)) OS_TASK_STAT_PRIO 65534 (OSTaskStatStk l)
            OS_TASK_STAT_STK_SIZE VNull (OS_TASK_OPT_STK_CHK OR OS_TASK_OPT_STK_CLR) a2 = Some (OS_ERR_NONE, d1) \<and>
      OSTaskNameSet OS_TASK_STAT_PRIO ''uC/OS-II Stat'' d1 = Some (OS_ERR_NONE, d2) \<and>
      boot_ok d2 [1, 0] [2 ..< OS_MAX_TCBS] \<and> ready d2 = insert OS_TASK_STAT_PRIO (ready a2) \<and>
      OSTCBPrioTbl d2 = (OSTCBPrioTbl a2)(OS_TASK_STAT_PRIO := TPtr 1) \<and> prio d2 1 = OS_TASK_STAT_PRIO \<and> (\<forall>u \<in> set [0]. prio d2 u = prio a2 u) \<and> obj_tables d2 = obj_tables a2"
    by (rule boot_system_task) (use a(3) free in simp_all)
  then obtain d1 d2 where d: "OSTaskCreateExt (OS_TaskReturn_addr l) (OS_TaskStat_addr l) 0
            (OSTaskStatStk l + unat (OS_TASK_STAT_STK_SIZE - 1)) OS_TASK_STAT_PRIO 65534 (OSTaskStatStk l)
            OS_TASK_STAT_STK_SIZE VNull (OS_TASK_OPT_STK_CHK OR OS_TASK_OPT_STK_CLR) a2 = Some (OS_ERR_NONE, d1)"
      "OSTaskNameSet OS_TASK_STAT_PRIO ''uC/OS-II Stat'' d1 = Some (OS_ERR_NONE, d2)"
      "boot_ok d2 [1, 0] [2 ..< OS_MAX_TCBS]" "ready d2 = insert OS_TASK_STAT_PRIO (ready a2)" "prio d2 0 = prio a2 0" "obj_tables d2 = obj_tables a2"
      "OSTCBPrioTbl d2 = (OSTCBPrioTbl a2)(OS_TASK_STAT_PRIO := TPtr 1)" "prio d2 1 = OS_TASK_STAT_PRIO"
    by auto
  have init: "OSInit l s = Some d2"
    unfolding OSInit_def Let_def boot_tables_def [symmetric] OS_InitTaskIdle_def OS_InitTaskStat_def a(1,2) d(1,2)
    by (simp only: a(1,2) d(1,2) option.sel bind.bind_lunit snd_conv)
  have "ready d2 = {OS_TASK_STAT_PRIO, OS_TASK_IDLE_PRIO}" using d(4) a(4) b(2) by simp
  moreover have "objects_free d2"
    using boot_tables_free [of s] objects_free_cong [OF a(7)] objects_free_cong [OF d(6)] by blast
  moreover have p0: "prio d2 0 = OS_TASK_IDLE_PRIO" using a(6) d(5) by simp
  moreover have "only_system_tasks d2"
    unfolding only_system_tasks_def
  proof (intro conjI allI impI)
    have "task_lists0 d2 [1, 0] [2 ..< OS_MAX_TCBS]" using d(3) by (simp only: boot_ok_def)
    then show "tcb_seg (OSTCBTbl d2) TNull (OSTCBList d2) [1, 0]" "free_seg (OSTCBTbl d2) (OSTCBFreeList d2) [2 ..< OS_MAX_TCBS]"
      by (rule task_lists0D)+
    show "OSTCBPrioTbl d2 p = (if p = OS_TASK_STAT_PRIO then TPtr 1 else if p = OS_TASK_IDLE_PRIO then TPtr 0 else TNull)" if "p < 64" for p
      unfolding d(7) a(5) fun_upd_apply using boot_tables_sel(11) [OF that] by simp
  qed (rule d(8) p0)+
  ultimately show ?thesis using init d(3) by blast
qed

text \<open>C6: \<open>OSInit\<close>, from whatever the memory holds, ends with the idle and the statistics task ready and everything else free, and
  with the invariant in force: these two are the only tasks on the list of tasks and in the priority table, the free list of control
  blocks holds all others, every event, every queue and every flag group is unused and on its free list, in order, and nobody waits
  anywhere. \<open>OSStart\<close> then makes the most urgent ready task, here the statistics task, the running one. (The model's event array
  goes on behind the program's; the hypothesis says that nobody waits there.)\<close>

theorem OSInit_OSStart_spec:
  assumes junk: "no_junk s"
  shows "\<exists>s1 s2 c. OSInit l s = Some s1 \<and> sched_inv s1 \<and> list_inv s1 \<and> idle_inv s1 \<and> obj_inv s1 \<and>
    ready s1 = {OS_TASK_STAT_PRIO, OS_TASK_IDLE_PRIO} \<and> (\<forall>e. waiters s1 e = {}) \<and> only_system_tasks s1 \<and> objects_free s1 \<and>
    OSStart s1 = Some s2 \<and> kernel_ok s2 c \<and> highest_runs s2 \<and> prio s2 c = OS_TASK_STAT_PRIO \<and> ready s2 = ready s1"
proof -
  obtain d2 where d: "OSInit l s = Some d2" "boot_ok d2 [1, 0] [2 ..< OS_MAX_TCBS]" "ready d2 = {OS_TASK_STAT_PRIO, OS_TASK_IDLE_PRIO}"
    "prio d2 0 = OS_TASK_IDLE_PRIO" "objects_free d2" "only_system_tasks d2"
    using OSInit_boot [OF junk] by blast
  have ok: "sched_inv d2" "list_inv d2" "idle_inv d2" "obj_inv d2" "\<not> OSRunning d2"
    using boot_kernel [OF d(2)] d(3,4) by simp_all
  have lists: "\<forall>e. waiters d2 e = {}"
    using d(2) by (simp add: boot_ok_def)
  obtain s2 c where s2: "OSStart d2 = Some s2" "kernel_ok s2 c" "highest_runs s2" "act d2 c" "prio d2 c = bm_highest (rdy_bm d2)"
    "prio s2 c = prio d2 c" "ready s2 = ready d2"
    using OSStart_ok [OF ok] by blast
  have "prio d2 c = OS_TASK_STAT_PRIO"
  proof -
    have h: "bm_highest (rdy_bm d2) \<in> {62, 63}" using ready_highest(1) [OF ok(1)] unfolding d(3) .
    have "bm_highest (rdy_bm d2) \<le> 62" by (rule ready_highest(2) [OF ok(1)]) (simp add: d(3))
    then have "bm_highest (rdy_bm d2) = 62" using h by (elim insertE emptyE) simp_all
    then show ?thesis unfolding s2(5) .
  qed
  then have pc: "prio s2 c = OS_TASK_STAT_PRIO" using s2(6) by simp
  show ?thesis
    by (rule exI [of _ d2], rule exI [of _ s2], rule exI [of _ c]) (intro conjI; fact d ok lists s2 pc)
qed

theorem OSInit_OSStart_spec_witness: "\<exists>s1 s2. OSInit
    \<lparr>OS_TaskReturn_addr = 0x8001000, OS_TaskIdle_addr = 0x8002000, OS_TaskStat_addr = 0x8003000, OSTaskIdleStk = 0, OSTaskStatStk = 128\<rparr>
    sample = Some s1 \<and> ready s1 = {62, 63} \<and> OSStart s1 = Some s2 \<and> highest_runs s2"
proof -
  have "no_junk sample" unfolding no_junk_def using sched_invD(2) [OF sample_sched_inv] sample_waiters by auto
  from OSInit_OSStart_spec [OF this] show ?thesis by blast
qed

subsection \<open>The statistics task\<close>

lemma u8_nonneg: "(0::u8) \<le>s x \<longleftrightarrow> x < 128"
proof -
  have r: "0 \<le> uint x" "uint x < 256" using unsigned_less [of x, where 'a = int] by simp_all
  have "0 \<le>s x \<longleftrightarrow> \<not> bit (uint x) 7"
    by (simp add: word_sle_eq sint_uint signed_take_bit_nonnegative_iff)
  also have "bit (uint x) 7 \<longleftrightarrow> 128 \<le> uint x"
  proof -
    have "uint x div 128 = (if 128 \<le> uint x then 1 else 0)" using r by (simp add: int_div_pos_eq [of _ _ 1 "uint x - 128"])
    then show ?thesis by (simp add: bit_iff_odd)
  qed
  finally show ?thesis by (simp add: word_less_def not_le)
qed

lemma cpu_q:
  assumes "unat (run div mx) < 256"
  shows "unat (ucast (run div mx) :: u8) = unat run div unat mx"
  using assms by (simp add: unat_div_distrib unsigned_ucast_eq take_bit_eq_mod)

lemma cpu_usage_low: "q < 256 \<Longrightarrow> unat (ucast (r::u32) :: u8) = q \<Longrightarrow> unat (100 - ucast r :: u8) = (356 - q) mod 256"
proof -
  assume q: "q < 256" "unat (ucast r :: u8) = q"
  have "unat (100 - ucast r :: u8) = (if q \<le> 100 then 100 - q else 100 + 256 - q)"
    using q(2) by (simp only: unat_sub_if' word_le_nat_alt) simp
  also have "\<dots> = (356 - q) mod 256" using q(1) by (auto simp: mod_if)
  finally show ?thesis .
qed

lemma OS_TaskStat_update_ok:
  assumes mx: "OSIdleCtrMax s \<noteq> 0"
  shows "let q = unat (OSIdleCtr s) div unat (OSIdleCtrMax s); s' = OS_TaskStat_update s in
    OSIdleCtrMax s' \<noteq> 0 \<and>
    (q \<le> 100 \<longrightarrow> unat (OSCPUUsage s') = 100 - q \<and> OSIdleCtrMax s' = OSIdleCtrMax s) \<and>
    (100 < q \<and> q \<le> 228 \<longrightarrow> OSCPUUsage s' = 0 \<and> OSIdleCtrMax s' = OSIdleCtr s div 100) \<and>
    (228 < q \<and> q < 256 \<longrightarrow> unat (OSCPUUsage s') = 356 - q)"
proof -
  define q where "q = unat (OSIdleCtr s) div unat (OSIdleCtrMax s)"
  let ?r = "OSIdleCtr s" and ?m = "OSIdleCtrMax s"
  let ?u = "100 - ucast (?r div ?m) :: u8"
  have m: "0 < unat ?m" using mx by (simp add: unat_gt_0)
  have qd: "unat (?r div ?m) = q" by (simp add: unat_div_distrib q_def)
  have b: "unat (ucast (?r div ?m) :: u8) = q mod 256" by (simp add: unsigned_ucast_eq take_bit_eq_mod qd)
  have u: "unat ?u = (356 - q mod 256) mod 256" by (rule cpu_usage_low [OF _ b]) simp
  have pos: "0 \<le>s ?u \<longleftrightarrow> q mod 256 \<le> 100 \<or> 228 < q mod 256"
  proof -
    have "q mod 256 < 256" by simp
    then show ?thesis unfolding u8_nonneg word_less_nat_alt u by (auto simp: mod_if [of "356 - q mod 256"])
  qed
  have upd: "OS_TaskStat_update s = (if 0 \<le>s ?u then s\<lparr>OSIdleCtrRun := ?r, OSCPUUsage := ?u\<rparr>
      else s\<lparr>OSIdleCtrRun := ?r, OSCPUUsage := 0, OSIdleCtrMax := ?r div 100\<rparr>)"
    by (simp add: OS_TaskStat_update_def cpu_usage_def Let_def)
  have big: "?r div 100 \<noteq> 0" if "\<not> 0 \<le>s ?u"
  proof -
    have "100 < q mod 256" using that pos by simp
    then have "100 < q" by (meson less_le_trans mod_less_eq_dividend)
    then have "100 < unat ?r" using div_le_dividend [of "unat ?r" "unat ?m"] unfolding q_def by linarith
    then have "unat (?r div 100) \<noteq> 0" by (simp add: unat_div_distrib)
    then show ?thesis by (metis unat_0)
  qed
  have small: "q mod 256 = q" if "q < 256" using that by simp
  show ?thesis
    unfolding Let_def q_def [symmetric]
  proof (intro conjI impI)
    show "OSIdleCtrMax (OS_TaskStat_update s) \<noteq> 0" using mx big unfolding upd by simp
  next
    assume "q \<le> 100"
    then show "unat (OSCPUUsage (OS_TaskStat_update s)) = 100 - q" "OSIdleCtrMax (OS_TaskStat_update s) = OSIdleCtrMax s"
      using pos small u unfolding upd by (simp_all add: mod_if [of "356 - q"])
  next
    assume "100 < q \<and> q \<le> 228"
    then show "OSCPUUsage (OS_TaskStat_update s) = 0" "OSIdleCtrMax (OS_TaskStat_update s) = OSIdleCtr s div 100"
      using pos small unfolding upd by simp_all
  next
    assume "228 < q \<and> q < 256"
    moreover from this have "356 - q < 256" by arith
    ultimately show "unat (OSCPUUsage (OS_TaskStat_update s)) = 356 - q"
      using pos small u unfolding upd by simp
  qed
qed

text \<open>The loop of the statistics task: once the reference count is not zero, no later period divides by zero. The check of
  the stacks changes control blocks only.\<close>

lemma stk_chk_from_frame: "stk_chk_from n pr s = Some s' \<Longrightarrow> OSIdleCtrMax s' = OSIdleCtrMax s"
proof (induction n arbitrary: pr s)
  case (Suc n)
  then show ?case by (auto simp: bind_Some_iff upd_tcb_def split: if_splits dest!: Suc.IH)
qed simp

lemma OS_TaskStat_period:
  assumes "OS_TaskStat_step StatPeriod s = Some (k, s')"
  shows "k = StatTop" "OSIdleCtrMax s' \<noteq> 0"
proof -
  have mx: "OSIdleCtrMax s \<noteq> 0" and b: "do { s1 \<leftarrow> OS_TaskStatStkChk (OS_TaskStat_update s); Some (StatTop, s1) } = Some (k, s')"
    using assms by (simp_all split: if_splits)
  then obtain s1 where s1: "OS_TaskStatStkChk (OS_TaskStat_update s) = Some s1" "k = StatTop" "s' = s1"
    by (auto simp: bind_Some_iff)
  have "OSIdleCtrMax (OS_TaskStat_update s) \<noteq> 0" by (rule OS_TaskStat_update_ok [OF mx, unfolded Let_def, THEN conjunct1])
  then show "k = StatTop" "OSIdleCtrMax s' \<noteq> 0"
    using s1 stk_chk_from_frame [OF s1(1) [unfolded OS_TaskStatStkChk_def]] by simp_all
qed

text \<open>One period of the statistics task, with \<open>q\<close> the idle count divided by its reference: up to 100 the usage is exactly
  \<open>100 - q\<close> percent; above, the usage is zero and the reference is learnt anew; but a quotient from 229 to 255 wraps in the
  signed byte and gives a usage of 101 to 127 percent. The reference never becomes zero, so no period divides by zero.\<close>

theorem OS_TaskStat_update_spec:
  assumes mx: "OSIdleCtrMax s \<noteq> 0"
  shows "let q = unat (OSIdleCtr s) div unat (OSIdleCtrMax s); s' = OS_TaskStat_update s in
    OSIdleCtrMax s' \<noteq> 0 \<and>
    (q \<le> 100 \<longrightarrow> unat (OSCPUUsage s') = 100 - q \<and> OSIdleCtrMax s' = OSIdleCtrMax s) \<and>
    (100 < q \<and> q \<le> 228 \<longrightarrow> OSCPUUsage s' = 0 \<and> OSIdleCtrMax s' = OSIdleCtr s div 100) \<and>
    (228 < q \<and> q < 256 \<longrightarrow> unat (OSCPUUsage s') = 356 - q)"
  by (rule OS_TaskStat_update_ok [OF assms])

theorem OS_TaskStat_update_spec_witness:
  "OSCPUUsage (OS_TaskStat_update (sample\<lparr>OSIdleCtr := 2500, OSIdleCtrMax := 100\<rparr>)) = 75 \<and>
   OSCPUUsage (OS_TaskStat_update (sample\<lparr>OSIdleCtr := 23000, OSIdleCtrMax := 100\<rparr>)) = 126"
proof -
  let ?a = "sample\<lparr>OSIdleCtr := 2500, OSIdleCtrMax := 100\<rparr>" and ?b = "sample\<lparr>OSIdleCtr := 23000, OSIdleCtrMax := 100\<rparr>"
  have "unat (OSCPUUsage (OS_TaskStat_update ?a)) = 75" using OS_TaskStat_update_spec [of ?a] by (simp add: Let_def)
  moreover have "unat (OSCPUUsage (OS_TaskStat_update ?b)) = 126" using OS_TaskStat_update_spec [of ?b] by (simp add: Let_def)
  ultimately show ?thesis unfolding word_unat_eq_iff by (simp only: unat_numeral) simp
qed

end
