(* ===== verification/OS_System.thy ===== *)
theory OS_System
  imports OS_Services OS_Init_Proofs
begin

text \<open>
  The kernel as a transition system: tasks call services and are switched away in the middle of them,
  interrupts come at any point between two calls, nest, call services and return through \<open>OSIntExit\<close>.
  The invariant is proved for every reachable state, and with it that no call follows a null pointer and
  that the running task is the most urgent ready one whenever the scheduler may switch.
\<close>

subsection \<open>The services of tasks, of time and of the scheduler\<close>

lemma highest_sub:
  assumes ok: "kernel_ok s c" "kernel_ok s' c" and hr: "highest_runs s" and ul: "unlocked s'"
    and sub: "ready s' \<subseteq> ready s" and p: "prio s' c = prio s c"
  shows "highest_runs s'"
proof -
  have "\<forall>p \<in> ready s. prio s c \<le> p" using hr kernel_ok_cur [OF ok(1)] by (auto simp: highest_runs_def cur_ok_def)
  then have "\<forall>q \<in> ready s'. prio s' c \<le> q" using sub p by auto
  then show ?thesis
    using kernel_ok_cur [OF ok(2)] kernel_okD(10) [OF ok(2) ul] unfolding highest_runs_def by blast
qed

text \<open>A task that does not become ready: the running task goes on.\<close>

lemma serves_sets_same:
  assumes st: "sets_task s t tc False s'" and tc: "evt_refs tc = evt_refs (OSTCBTbl s t)" "OSTCBEventMultiPtr tc = OSTCBEventMultiPtr (OSTCBTbl s t)"
    "OSTCBPrio tc = prio s t" and ok: "kernel_ok s c" "kernel_ok s' c"
  shows "serves s c None s'"
proof (rule serves_sets [OF st tc(1,2) ok(2)])
  assume "unlocked s" "highest_runs s"
  moreover have "unlocked s'" using st \<open>unlocked s\<close> by (simp add: sets_task_def unlocked_def)
  moreover have "prio s' c = prio s c"
    using same_taskD(10) [OF sets_taskD(1) [OF st]] same_taskD(10) [OF sets_taskD(2) [OF st, of c]] tc(3) by (cases "c = t") simp_all
  moreover have "ready s' \<subseteq> ready s" using sets_taskD(3) [OF st] by auto
  ultimately show "highest_runs s'" using highest_sub [OF ok] by blast
qed

lemma ticked_refs [simp]: "evt_refs (ticked c) = evt_refs c" "OSTCBEventMultiPtr (ticked c) = OSTCBEventMultiPtr c"
  "OSTCBPrio (ticked c) = OSTCBPrio c"
  by (simp_all add: ticked_def evt_refs_def)

lemma evt_refs_dly [simp]: "evt_refs (c\<lparr>OSTCBDly := d\<rparr>) = evt_refs c"
  by (simp add: evt_refs_def)

lemma serve_time:
  assumes ok: "calls_ok s c"
  shows "callable (TimeDly ticks) s \<Longrightarrow> served (TimeDly ticks) s c" "served (TimeDlyResume p) s c"
proof -
  note k = ok [unfolded calls_ok_def, THEN conjunct1]
  show "served (TimeDly ticks) s c" if v: "callable (TimeDly ticks) s"
  proof (cases "unlocked s \<and> ticks \<noteq> 0")
    case True
    have mb: "may_block s c" using calls_ok_may_block [OF ok] v True by simp
    obtain s' c' where s': "OSTimeDly ticks s = Some s'" "sets_task s c ((OSTCBTbl s c)\<lparr>OSTCBDly := ticks\<rparr>) False s'"
      "kernel_ok s' c'" "highest_runs s'"
      using OSTimeDly_ok [OF k mb, of ticks] True by auto
    show ?thesis by (rule servedI [OF _ serves_sets [OF s'(2) _ _ s'(3)]]) (simp_all add: s'(1,4))
  next
    case False
    then have "OSTimeDly ticks s = Some s" by (auto simp: OSTimeDly_def unlocked_def word_gt_0)
    then show ?thesis by (intro served_same [OF _ k]) simp
  qed
  show "served (TimeDlyResume p) s c"
  proof (cases "\<exists>err. OSTimeDlyResume p s = Some (err, s)")
    case True
    then show ?thesis by (elim exE) (intro served_same [OF _ k], simp)
  next
    case False
    note sp = OSTimeDlyResume_ok [OF k, of p]
    obtain t where p: "\<not> p \<ge> OS_LOWEST_PRIO" "OSTCBPrioTbl s p = TPtr t" "OSTCBDly (OSTCBTbl s t) \<noteq> 0"
      using sp False by (auto split: if_splits tcbptr.splits)
    let ?tc = "ticked ((OSTCBTbl s t)\<lparr>OSTCBDly := 1\<rparr>)"
    obtain s' c' where s': "OSTimeDlyResume p s = Some (OS_ERR_NONE, s')" "kernel_ok s' c'"
      "sets_task s t ?tc (\<not> susp (OSTCBTbl s t)) s'" "if susp (OSTCBTbl s t) then c' = c else scheduled s s'"
      using sp p by auto
    have "serves s c None s'"
    proof (cases "susp (OSTCBTbl s t)")
      case True
      then show ?thesis using s' by (intro serves_sets_same [of s t ?tc s' c, OF _ _ _ _ k]) simp_all
    next
      case False
      then show ?thesis using s' by (intro serves_sets [OF s'(3) _ _ s'(2)]) (simp_all add: scheduled_def)
    qed
    then show ?thesis by (intro servedI) (simp_all add: s'(1))
  qed
qed

lemma serve_TimeDlyHMSM:
  assumes ok: "calls_ok s c" and v: "callable (TimeDlyHMSM hours minutes seconds ms) s"
  shows "served (TimeDlyHMSM hours minutes seconds ms) s c"
proof (cases "OSIntNesting s > 0 \<or> OSLockNesting s > 0")
  case True
  then have "\<exists>err. OSTimeDlyHMSM hours minutes seconds ms s = Some (err, s)" by (auto simp: OSTimeDlyHMSM_def)
  then show ?thesis using ok by (elim exE) (intro served_same, simp_all add: calls_ok_def)
next
  case False
  have "served (TimeDly (hmsm_ticks hours minutes seconds ms)) s c" by (rule serve_time(1) [OF ok]) (use v in simp)
  then show ?thesis using False by (auto simp: served_def OSTimeDlyHMSM_def bind_Some_iff)
qed

lemma kernel_ok_time [simp]: "kernel_ok (s\<lparr>OSTime := n\<rparr>) c = kernel_ok s c"
proof -
  have "sched_inv (s\<lparr>OSTime := n\<rparr>) = sched_inv s" by (simp add: sched_inv_def task_ok_def act_def ready_def waiters_def rdy_bm_def)
  moreover have "list_inv (s\<lparr>OSTime := n\<rparr>) = list_inv s" by (rule list_inv_cong) simp_all
  moreover have "obj_inv (s\<lparr>OSTime := n\<rparr>) = obj_inv s" by (rule obj_inv_cong) simp_all
  ultimately show ?thesis
    by (simp add: kernel_ok_def idle_inv_def avail_def cur_ok_def act_def ready_def waiters_def rdy_bm_def)
qed

lemma serve_TimeSet:
  assumes ok: "calls_ok s c"
  shows "served (TimeSet ticks) s c"
proof -
  note k = ok [unfolded calls_ok_def, THEN conjunct1]
  show ?thesis
    by (rule served_value [where s' = "OSTimeSet ticks s", OF _ k]) (use k in \<open>simp_all add: OSTimeSet_def ready_def rdy_bm_def unlocked_def\<close>)
qed

lemma serve_TaskSuspend:
  assumes ok: "calls_ok s c" and v: "callable (TaskSuspend p) s"
  shows "served (TaskSuspend p) s c"
proof -
  note k = ok [unfolded calls_ok_def, THEN conjunct1]
  note d = kernel_okD [OF k]
  let ?q = "if p = OS_PRIO_SELF then prio s c else p"
  have q: "?q < 64" "?q \<noteq> OS_TASK_IDLE_PRIO" "\<And>t. OSTCBPrioTbl s ?q = TPtr t \<Longrightarrow> prio s t = ?q"
    using v d(6) by (auto simp: Let_def)
  show ?thesis
  proof (cases "OSTCBPrioTbl s ?q")
    case (TPtr t)
    have t: "task_at s ?q t" using q TPtr by (simp add: task_at_def)
    obtain s' c' where s': "OSTaskSuspend p s = Some (OS_ERR_NONE, s')" "kernel_ok s' c'"
      "sets_task s t (suspended (OSTCBTbl s t)) False s'" "if t = c \<and> unlocked s then highest_runs s' \<and> c' \<noteq> c else c' = c"
      using OSTaskSuspend_ok [OF k t] q(2,3) TPtr by auto
    have "serves s c None s'"
    proof (cases "t = c \<and> unlocked s")
      case True
      then show ?thesis using s'(4) by (intro serves_sets [OF s'(3) _ _ s'(2)]) simp_all
    next
      case False
      then show ?thesis using s' by (intro serves_sets_same [OF s'(3) _ _ _ k]) simp_all
    qed
    then show ?thesis by (intro servedI) (simp_all add: s'(1))
  qed (use q(1) d(7) in \<open>(intro served_same [OF _ k], simp add: OSTaskSuspend_def prio_tbl_def le_63_less_64 Let_def)+\<close>)
qed

lemma serve_TaskResume:
  assumes ok: "calls_ok s c" and v: "callable (TaskResume p) s"
  shows "served (TaskResume p) s c"
proof -
  note k = ok [unfolded calls_ok_def, THEN conjunct1]
  have run: "OSRunning s" using ok by (simp add: calls_ok_def)
  have p: "p < 64" using v by simp
  show ?thesis
  proof (cases "OSTCBPrioTbl s p")
    case (TPtr t)
    note sp = OSTaskResume_ok [OF k p TPtr run]
    show ?thesis
    proof (cases "susp (OSTCBTbl s t)")
      case True
      let ?r = "\<not> pend (OSTCBTbl s t) \<and> OSTCBDly (OSTCBTbl s t) = 0"
      obtain s' c' where s': "OSTaskResume p s = Some (OS_ERR_NONE, s')" "kernel_ok s' c'"
        "sets_task s t (resumed (OSTCBTbl s t)) ?r s'" "if ?r then scheduled s s' else c' = c"
        using sp True by (auto simp: Let_def)
      have "serves s c None s'"
      proof (cases ?r)
        case True
        then show ?thesis using s'(4) by (intro serves_sets [OF s'(3) _ _ s'(2)]) (simp_all add: scheduled_def)
      next
        case False
        then have "c' = c" "sets_task s t (resumed (OSTCBTbl s t)) False s'" using s'(3,4) by auto
        then show ?thesis using s'(2) by (intro serves_sets_same [of s t "resumed (OSTCBTbl s t)" s' c, OF _ _ _ _ k]) simp_all
      qed
      then show ?thesis by (intro servedI) (simp_all add: s'(1))
    qed (use sp in \<open>intro served_same [OF _ k]; simp\<close>)
  qed (use p in \<open>(intro served_same [OF _ k], simp add: OSTaskResume_def prio_tbl_def le_63_less_64)+\<close>)
qed

lemma kernel_ok_stk [simp]: "kernel_ok (s\<lparr>OSStkMem := m\<rparr>) c = kernel_ok s c"
proof -
  have "sched_inv (s\<lparr>OSStkMem := m\<rparr>) = sched_inv s" by (simp add: sched_inv_def task_ok_def act_def ready_def waiters_def rdy_bm_def)
  moreover have "list_inv (s\<lparr>OSStkMem := m\<rparr>) = list_inv s" by (rule list_inv_cong) simp_all
  moreover have "obj_inv (s\<lparr>OSStkMem := m\<rparr>) = obj_inv s" by (rule obj_inv_cong) simp_all
  ultimately show ?thesis
    by (simp add: kernel_ok_def idle_inv_def avail_def cur_ok_def act_def ready_def waiters_def rdy_bm_def)
qed

lemma refs_in_view: "sched_view c' = sched_view c \<Longrightarrow> refs_in A c' = refs_in A c"
  by (auto simp: refs_in_def dest: sched_view_conds)

lemma OS_TCBInit_ctx: "OS_TCBInit p ptos pbos ident sz pext opt s = Some r \<Longrightarrow> ctx_keeps s (snd r)"
  unfolding OS_TCBInit_def Let_def
  by (auto split: if_splits elim!: bindE) (simp_all add: ctx_keeps_def unlocked_def upd_tcb_def)

lemma OSTaskCreate_ctx: "OSTaskCreate ret task p_arg ptos p s = Some (err, s') \<Longrightarrow> ctx_keeps s s'"
proof -
  assume "OSTaskCreate ret task p_arg ptos p s = Some (err, s')"
  then consider "s' = s" | r where "ctx_keeps s (snd r)" "task_create_end p r = Some (err, s')"
    unfolding OSTaskCreate_def Let_def OSTaskStkInit_def
    by (auto split: if_splits elim!: bindE dest!: OS_TCBInit_ctx) (simp add: ctx_keeps_def unlocked_def)
  then show ?thesis
  proof cases
    case (2 r)
    have "ctx_keeps (snd r) s'"
      using 2(2) unfolding task_create_end_def
      by (auto split: if_splits elim!: bindE dest!: OS_Sched_ctx) (simp add: ctx_keeps_def)
    with 2(1) show ?thesis by (rule ctx_keeps_trans)
  qed simp
qed

lemma OSTaskCreateExt_ctx: "OSTaskCreateExt ret task p_arg ptos p ident pbos sz pext opt s = Some (err, s') \<Longrightarrow> ctx_keeps s s'"
proof -
  assume "OSTaskCreateExt ret task p_arg ptos p ident pbos sz pext opt s = Some (err, s')"
  then consider "s' = s" | r where "ctx_keeps s (snd r)" "task_create_end p r = Some (err, s')"
    unfolding OSTaskCreateExt_def Let_def OSTaskStkInit_def OS_TaskStkClr_def
    by (auto split: if_splits elim!: bindE dest!: OS_TCBInit_ctx) (simp_all add: ctx_keeps_def unlocked_def)
  then show ?thesis
  proof cases
    case (2 r)
    have "ctx_keeps (snd r) s'"
      using 2(2) unfolding task_create_end_def
      by (auto split: if_splits elim!: bindE dest!: OS_Sched_ctx) (simp add: ctx_keeps_def)
    with 2(1) show ?thesis by (rule ctx_keeps_trans)
  qed simp
qed

text \<open>The two create calls have the same outcomes.\<close>

lemma served_creates:
  assumes ok: "calls_ok s c" and ex: "exec v s = do { r \<leftarrow> call; Some (None, snd r) }"
    and ctx: "\<And>err s'. call = Some (err, s') \<Longrightarrow> ctx_keeps s s'" and n: "OSIntNesting s = 0"
    and out: "if OSTCBPrioTbl s p \<noteq> TNull then call = Some (OS_ERR_PRIO_EXIST, s)
      else if OSTCBFreeList s = TNull then \<exists>mem. call = Some (OS_ERR_TASK_NO_MORE_TCB, s\<lparr>OSStkMem := mem\<rparr>)
      else \<exists>s' c' t. call = Some (OS_ERR_NONE, s') \<and> kernel_ok s' c' \<and> scheduled s s' \<and>
        (\<forall>u. u \<noteq> t \<longrightarrow> sched_view (OSTCBTbl s' u) = sched_view (OSTCBTbl s u)) \<and> new_tcb p (OSTCBTbl s' t)"
  shows "served v s c"
proof -
  note k = ok [unfolded calls_ok_def, THEN conjunct1]
  consider (exists) "OSTCBPrioTbl s p \<noteq> TNull" | (none) "OSTCBPrioTbl s p = TNull" "OSTCBFreeList s = TNull"
    | (new) "OSTCBPrioTbl s p = TNull" "OSTCBFreeList s \<noteq> TNull" by blast
  then show ?thesis
  proof cases
    case exists
    then show ?thesis using out by (intro served_same [OF _ k]) (simp add: ex)
  next
    case none
    then obtain mem where m: "call = Some (OS_ERR_TASK_NO_MORE_TCB, s\<lparr>OSStkMem := mem\<rparr>)"
      using out by auto
    show ?thesis
      by (rule served_value [where s' = "s\<lparr>OSStkMem := mem\<rparr>", OF _ k]) (use m k in \<open>simp_all add: ex ready_def rdy_bm_def unlocked_def\<close>)
  next
    case new
    then obtain s' c' t where s': "call = Some (OS_ERR_NONE, s')" "kernel_ok s' c'" "scheduled s s'"
      "\<forall>u. u \<noteq> t \<longrightarrow> sched_view (OSTCBTbl s' u) = sched_view (OSTCBTbl s u)" "new_tcb p (OSTCBTbl s' t)"
      using out by auto
    have "refs_in A (OSTCBTbl s' u)" if "refs_in A (OSTCBTbl s u)" for A u
    proof (cases "u = t")
      case True
      then show ?thesis using s'(5) by (simp add: new_tcb_def refs_in_def evt_refs_def)
    next
      case False
      with s'(4) have "sched_view (OSTCBTbl s' u) = sched_view (OSTCBTbl s u)" by blast
      from refs_in_view [OF this] that show ?thesis by simp
    qed
    moreover have "unlocked s' \<longrightarrow> (unlocked s \<longrightarrow> highest_runs s) \<longrightarrow> highest_runs s'"
    proof (intro impI)
      assume "unlocked s'" and u: "unlocked s \<longrightarrow> highest_runs s"
      have "OSLockNesting s' = OSLockNesting s" using ctx [OF s'(1)] by (simp add: ctx_keeps_def)
      then have "unlocked s" using n \<open>unlocked s'\<close> by (simp add: unlocked_def)
      then show "highest_runs s'" using s'(3) by (simp add: scheduled_def)
    qed
    ultimately have "serves s c None s'" using s'(2) by (auto simp: serves_def waits_def)
    then show ?thesis by (intro servedI) (simp_all add: ex s'(1))
  qed
qed

lemma serve_TaskCreate:
  assumes ok: "calls_ok s c" and v: "callable (TaskCreate ret task p_arg ptos p) s"
  shows "served (TaskCreate ret task p_arg ptos p) s c"
proof (cases "OSIntNesting s = 0")
  case True
  have k: "kernel_ok s c" "OSRunning s" and p: "p \<le> OS_LOWEST_PRIO" using ok v by (simp_all add: calls_ok_def le_63_less_64)
  show ?thesis
    by (rule served_creates [OF ok _ OSTaskCreate_ctx True, where p = p], simp)
      (use OSTaskCreate_ok [OF k True p, of ret task p_arg ptos] in \<open>auto split: if_splits\<close>)
next
  case False
  then show ?thesis using ok by (intro served_same) (simp_all add: OSTaskCreate_def calls_ok_def word_gt_0)
qed

lemma serve_TaskCreateExt:
  assumes ok: "calls_ok s c" and v: "callable (TaskCreateExt ret task p_arg ptos p ident pbos sz pext opt) s"
  shows "served (TaskCreateExt ret task p_arg ptos p ident pbos sz pext opt) s c"
proof (cases "OSIntNesting s = 0")
  case True
  have k: "kernel_ok s c" "OSRunning s" and p: "p \<le> OS_LOWEST_PRIO" using ok v by (simp_all add: calls_ok_def le_63_less_64)
  show ?thesis
    by (rule served_creates [OF ok _ OSTaskCreateExt_ctx True, where p = p], simp)
      (use OSTaskCreateExt_ok [OF k True p, of ret task p_arg ptos ident pbos sz pext opt] in \<open>auto split: if_splits\<close>)
next
  case False
  then show ?thesis using ok by (intro served_same) (simp_all add: OSTaskCreateExt_def calls_ok_def word_gt_0)
qed

lemma serve_lock:
  assumes ok: "calls_ok s c"
  shows "served SchedLock s c" "served SchedUnlock s c"
proof -
  note k = ok [unfolded calls_ok_def, THEN conjunct1]
  have run: "OSRunning s" using ok by (simp add: calls_ok_def)
  show "served SchedLock s c"
  proof (cases "OSIntNesting s = 0 \<and> OSLockNesting s < 255")
    case True
    then have l: "OSSchedLock s = s\<lparr>OSLockNesting := OSLockNesting s + 1\<rparr>" using run by (simp add: OSSchedLock_def)
    have "\<not> unlocked (OSSchedLock s)" using u8_succ_pos [of "OSLockNesting s"] True by (auto simp: l unlocked_def)
    then have "serves s c None (OSSchedLock s)"
      using kernel_ok_sched_lock [OF k] by (auto simp: serves_def waits_def l)
    then show ?thesis by (intro servedI) simp_all
  next
    case False
    then have "OSSchedLock s = s" by (auto simp: OSSchedLock_def)
    then show ?thesis by (intro served_same [OF _ k]) simp
  qed
  show "served SchedUnlock s c"
  proof (cases "OSIntNesting s = 0 \<and> OSLockNesting s > 0")
    case True
    obtain s' c' where s': "OSSchedUnlock s = Some s'" "kernel_ok s' c'" "sw_frame (s\<lparr>OSLockNesting := OSLockNesting s - 1\<rparr>) s'"
      "OSLockNesting s = 1 \<longrightarrow> highest_runs s'"
      using kernel_ok_sched_unlock [OF k] True run by auto
    have "OSLockNesting s = 1" if "unlocked s'"
      using that sw_frameD(5) [OF s'(3)] by (simp add: unlocked_def)
    moreover have "refs_in A (OSTCBTbl s' t)" if "refs_in A (OSTCBTbl s t)" for A t
      using that refs_in_same [OF sw_frame_same [OF s'(3), of t]] by simp
    ultimately have "serves s c None s'" using s'(2,4) by (auto simp: serves_def waits_def)
    then show ?thesis by (intro servedI) (simp_all add: s'(1))
  next
    case False
    then have "OSSchedUnlock s = Some s" using run by (auto simp: OSSchedUnlock_def word_gt_0)
    then show ?thesis by (intro served_same [OF _ k]) simp
  qed
qed

subsection \<open>Every service\<close>

lemma exec_served: "calls_ok s c \<Longrightarrow> callable v s \<Longrightarrow> served v s c"
  by (cases v)
    (simp_all only: serve_sem serve_SemPend serve_SemPost serve_mbox serve_MboxPend serve_MboxPost serve_q serve_QPend serve_QPost
      serve_QCreate serve_QPostOpt serve_time serve_TimeDlyHMSM serve_TimeSet serve_TaskCreate serve_TaskCreateExt serve_TaskSuspend
      serve_TaskResume serve_lock)

text \<open>A lock taken or given back at task level changes the lock counter; nothing else changes the counters, and while a counter
  is not zero the running task stays.\<close>

definition ctx_step :: "os \<Rightarrow> os \<Rightarrow> bool" where
  "ctx_step s s' \<longleftrightarrow> OSRunning s' = OSRunning s \<and> OSIntNesting s' = OSIntNesting s \<and>
     (OSIntNesting s \<noteq> 0 \<longrightarrow> OSLockNesting s' = OSLockNesting s) \<and>
     (\<not> unlocked s' \<longrightarrow> OSTCBCur s' = OSTCBCur s)"

lemma ctx_keeps_step: "ctx_keeps s s' \<Longrightarrow> ctx_step s s'"
  by (auto simp: ctx_keeps_def ctx_step_def unlocked_def)

lemma event_alloc_ctx: "event_alloc s = Some (x, s1) \<Longrightarrow> ctx_keeps s s1"
  by (auto simp: event_alloc_def split: if_splits elim!: bindE)

lemma OSSemCreate_ctx: "OSSemCreate cnt s = Some (x, s') \<Longrightarrow> ctx_keeps s s'"
  unfolding OSSemCreate_def by (auto split: if_splits option.splits elim!: bindE dest!: event_alloc_ctx)

lemma OSMboxCreate_ctx: "OSMboxCreate m s = Some (x, s') \<Longrightarrow> ctx_keeps s s'"
  unfolding OSMboxCreate_def by (auto split: if_splits option.splits elim!: bindE dest!: event_alloc_ctx)

lemma OSQCreate_ctx: "OSQCreate start qsize s = Some (x, s') \<Longrightarrow> ctx_keeps s s'"
  unfolding OSQCreate_def Let_def by (auto split: if_splits option.splits elim!: bindE dest!: event_alloc_ctx)

lemma OSTimeDlyHMSM_ctx: "OSTimeDlyHMSM hours minutes seconds ms s = Some (err, s') \<Longrightarrow> ctx_keeps s s'"
  unfolding OSTimeDlyHMSM_def by (auto split: if_splits elim!: bindE dest!: OSTimeDly_ctx)

lemma OSTimeSet_ctx: "ctx_keeps s (OSTimeSet ticks s)"
  by (simp add: OSTimeSet_def ctx_keeps_def)

lemma OSSchedUnlock_ctx: "OSSchedUnlock s = Some s' \<Longrightarrow> ctx_step s s'"
  using OS_Sched_ctx [of "s\<lparr>OSLockNesting := OSLockNesting s - 1\<rparr>" s']
  by (auto simp: OSSchedUnlock_def Let_def ctx_step_def ctx_keeps_def unlocked_def split: if_splits)

lemma small_ctx:
  "OSSemAccept e s = Some (n, s') \<Longrightarrow> ctx_keeps s s'" "OSSemSet e cnt s = Some (err, s') \<Longrightarrow> ctx_keeps s s'"
  "OSMboxAccept e s = Some (m, s') \<Longrightarrow> ctx_keeps s s'" "OSQAccept e s = Some (m, err, s') \<Longrightarrow> ctx_keeps s s'"
  "OSQFlush e s = Some (err, s') \<Longrightarrow> ctx_keeps s s'"
  "OSSemPendAbort e opt s = Some (k, err, s') \<Longrightarrow> ctx_keeps s s'" "OSMboxPendAbort e opt s = Some (k, err, s') \<Longrightarrow> ctx_keeps s s'"
  "OSQPendAbort e opt s = Some (k, err, s') \<Longrightarrow> ctx_keeps s s'"
  unfolding OSSemAccept_def OSSemSet_def OSMboxAccept_def OSQAccept_def OSQFlush_def OSSemPendAbort_def OSMboxPendAbort_def
    OSQPendAbort_def Let_def
  by (auto split: if_splits elim!: bindE dest!: pend_abort_ctx)

lemma exec_ctx: "exec v s = Some (w, s') \<Longrightarrow> ctx_step s s'"
proof (cases v)
  case SchedUnlock
  then show "exec v s = Some (w, s') \<Longrightarrow> ctx_step s s'" by (auto elim!: bindE intro: OSSchedUnlock_ctx)
next
  case SchedLock
  then show "exec v s = Some (w, s') \<Longrightarrow> ctx_step s s'" using u8_succ_pos [of "OSLockNesting s"]
    by (auto simp: OSSchedLock_def ctx_step_def unlocked_def split: if_splits)
qed (auto simp: ctx_keeps_step OSTimeSet_ctx elim!: bindE
    dest!: ctx_frame small_ctx OSTaskCreate_ctx OSTaskCreateExt_ctx OSSemCreate_ctx OSMboxCreate_ctx OSQCreate_ctx OSTimeDlyHMSM_ctx)

lemma exec_blocks_ctx: "exec v s = Some (w, s') \<Longrightarrow> w \<noteq> None \<Longrightarrow> ctx_keeps s s'"
  by (cases v) (auto elim!: bindE dest!: OSSemPend_ctx OSMboxPend_ctx OSQPend_ctx)

subsection \<open>A blocked call goes on\<close>

lemma pend_wake_ctx: "pend_wake e s = Some (err, s') \<Longrightarrow> ctx_keeps s s'"
  unfolding pend_wake_def Let_def by (auto split: if_splits elim!: bindE dest!: OS_EventTaskRemove_ctx)

lemma pend_wake_msg_ctx: "pend_wake_msg e s = Some (m, err, s') \<Longrightarrow> ctx_keeps s s'"
  unfolding pend_wake_msg_def Let_def by (auto split: if_splits elim!: bindE dest!: OS_EventTaskRemove_ctx)

lemma resume_ok:
  assumes ok: "kernel_ok s c" and ul: "unlocked s" and refs: "refs_in {call_event k} (OSTCBTbl s c)" and e: "call_event k < OS_MAX_EVENTS"
  shows "\<exists>s'. resume k s = Some s' \<and> wakes s c s' \<and> kernel_ok s' c \<and> ctx_keeps s s'"
proof -
  have r: "evt_refs (OSTCBTbl s c) \<subseteq> {call_event k}" "OSTCBEventMultiPtr (OSTCBTbl s c) = None"
    using refs by (simp_all add: refs_in_def)
  note rdy = kernel_okD(10) [OF ok ul]
  note sem = pend_wake_kernel [OF ok rdy r(1) e r(2)] and msg = pend_wake_msg_kernel [OF ok rdy r(1) e r(2)]
  show ?thesis
  proof (cases k)
    case (CSem i)
    obtain s' where "pend_wake i s = Some (woken_code (OSTCBTbl s c), s')" "wakes s c s'" "kernel_ok s' c" using sem CSem by auto
    then show ?thesis using CSem by (auto simp: OSSemPend_resume_def dest: pend_wake_ctx)
  next
    case (CMbox i)
    obtain m err s' where "pend_wake_msg i s = Some (m, err, s')" "wakes s c s'" "kernel_ok s' c" using msg CMbox by auto
    then show ?thesis using CMbox by (auto simp: OSMboxPend_resume_def dest: pend_wake_msg_ctx)
  next
    case (CQ i)
    obtain m err s' where "pend_wake_msg i s = Some (m, err, s')" "wakes s c s'" "kernel_ok s' c" using msg CQ by auto
    then show ?thesis using CQ by (auto simp: OSQPend_resume_def dest: pend_wake_msg_ctx)
  qed
qed

text \<open>A call that goes on changes no priority.\<close>

lemma pend_clear_prio [simp]: "prio (pend_clear c s) t = prio s t"
  by (simp add: pend_clear_def)

lemma OS_EventTaskRemove_prio: "OS_EventTaskRemove c e s = Some s' \<Longrightarrow> prio s' t = prio s t"
  by (auto simp: OS_EventTaskRemove_def elim!: bindE)

lemma resume_prio: "resume k s = Some s' \<Longrightarrow> prio s' t = prio s t"
  by (cases k) (auto simp: OSSemPend_resume_def OSMboxPend_resume_def OSQPend_resume_def pend_wake_def pend_wake_msg_def Let_def
      OS_EventTaskRemove_prio split: if_splits elim!: bindE)

subsection \<open>The transition system\<close>

text \<open>The state of the kernel and, for each task, the call it is blocked in.\<close>

type_synonym sys = "os \<times> (nat \<Rightarrow> call option)"

inductive step :: "sys \<Rightarrow> sys \<Rightarrow> bool" where
  task_call: "OSIntNesting s = 0 \<Longrightarrow> OSTCBCur s = TPtr c \<Longrightarrow> pc c = None \<Longrightarrow> callable v s \<Longrightarrow> exec v s = Some (w, s') \<Longrightarrow>
    step (s, pc) (s', pc(c := w))"
| task_resume: "OSIntNesting s = 0 \<Longrightarrow> OSTCBCur s = TPtr c \<Longrightarrow> pc c = Some k \<Longrightarrow> resume k s = Some s' \<Longrightarrow>
    step (s, pc) (s', pc(c := None))"
| isr_enter: "OSIntNesting s < 255 \<Longrightarrow> step (s, pc) (OSIntEnter s, pc)"
| isr_call: "OSIntNesting s > 0 \<Longrightarrow> callable v s \<Longrightarrow> exec v s = Some (w, s') \<Longrightarrow> step (s, pc) (s', pc)"
| isr_tick: "OSIntNesting s > 0 \<Longrightarrow> OSTimeTick s = Some s' \<Longrightarrow> step (s, pc) (s', pc)"
| isr_exit: "OSIntNesting s > 0 \<Longrightarrow> OSIntExit s = Some s' \<Longrightarrow> step (s, pc) (s', pc)"

inductive_cases stepE: "step (s, pc) \<sigma>'"

text \<open>Before \<open>OSStart\<close>: \<open>OSInit\<close> on any memory, then the first tasks are created.\<close>

inductive booted :: "linkage \<Rightarrow> os \<Rightarrow> bool" for l where
  init: "no_junk s0 \<Longrightarrow> OSInit l s0 = Some s \<Longrightarrow> booted l s"
| create: "booted l s \<Longrightarrow> p < 64 \<Longrightarrow> OSTaskCreate ret task p_arg ptos p s = Some (err, s') \<Longrightarrow> booted l s'"

inductive reachable :: "linkage \<Rightarrow> sys \<Rightarrow> bool" for l where
  start: "booted l s \<Longrightarrow> OSStart s = Some s' \<Longrightarrow> reachable l (s', \<lambda>_. None)"
| step: "reachable l \<sigma> \<Longrightarrow> step \<sigma> \<sigma>' \<Longrightarrow> reachable l \<sigma>'"

definition sys_inv :: "sys \<Rightarrow> bool" where
  "sys_inv \<sigma> \<longleftrightarrow> (case \<sigma> of (s, pc) \<Rightarrow> OSRunning s \<and> (\<exists>c. kernel_ok s c \<and> (pc c \<noteq> None \<longrightarrow> OSLockNesting s = 0)) \<and>
     (unlocked s \<longrightarrow> highest_runs s) \<and>
     (\<forall>t < OS_MAX_TCBS. refs_in (waits (pc t)) (OSTCBTbl s t) \<and> waits (pc t) \<subseteq> {..<OS_MAX_EVENTS}))"

lemma sys_invD:
  assumes "sys_inv (s, pc)"
  obtains c where "OSRunning s" "kernel_ok s c" "pc c \<noteq> None \<longrightarrow> OSLockNesting s = 0" "OSTCBCur s = TPtr c" "c < OS_MAX_TCBS"
    "unlocked s \<longrightarrow> highest_runs s"
    "\<And>t. t < OS_MAX_TCBS \<Longrightarrow> refs_in (waits (pc t)) (OSTCBTbl s t)" "\<And>t. t < OS_MAX_TCBS \<Longrightarrow> waits (pc t) \<subseteq> {..<OS_MAX_EVENTS}"
  using assms kernel_okD(4,8) unfolding sys_inv_def by blast

lemma waits_simps [simp]: "waits None = {}" "waits (Some k) = {call_event k}"
  by (simp_all add: waits_def)

text \<open>The rules under which the call of the running task or of an interrupt is served.\<close>

lemma sys_calls_ok:
  assumes inv: "sys_inv (s, pc)" and cur: "OSTCBCur s = TPtr c" and free: "OSIntNesting s = 0 \<Longrightarrow> pc c = None"
  shows "calls_ok s c"
proof -
  obtain c' where c': "OSRunning s" "kernel_ok s c'" "OSTCBCur s = TPtr c'" "c' < OS_MAX_TCBS"
    "\<And>t. t < OS_MAX_TCBS \<Longrightarrow> refs_in (waits (pc t)) (OSTCBTbl s t)"
    using sys_invD [OF inv] by metis
  have "c' = c" using c'(3) cur by simp
  then show ?thesis using c'(1,2,4) c'(5) [of c] free by (auto simp: calls_ok_def no_refs_in)
qed

text \<open>One call: by the task, or by an interrupt on top of it.\<close>

lemma sys_call:
  assumes inv: "sys_inv (s, pc)" and cur: "OSTCBCur s = TPtr c" and free: "OSIntNesting s = 0 \<Longrightarrow> pc c = None"
    and call: "callable v s" "exec v s = Some (w, s')"
  shows "sys_inv (s', if OSIntNesting s = 0 then pc(c := w) else pc)" (is "sys_inv (s', ?pc)")
proof -
  obtain c0 where i: "OSRunning s" "kernel_ok s c0" "pc c0 \<noteq> None \<longrightarrow> OSLockNesting s = 0" "OSTCBCur s = TPtr c0" "c0 < OS_MAX_TCBS"
    "unlocked s \<longrightarrow> highest_runs s"
    "\<And>t. t < OS_MAX_TCBS \<Longrightarrow> refs_in (waits (pc t)) (OSTCBTbl s t)" "\<And>t. t < OS_MAX_TCBS \<Longrightarrow> waits (pc t) \<subseteq> {..<OS_MAX_EVENTS}"
    using sys_invD [OF inv] by blast
  have c0: "c0 = c" using i(4) cur by simp
  have v: "serves s c w s'" "w \<noteq> None \<longrightarrow> unlocked s \<and> waits w \<subseteq> {..<OS_MAX_EVENTS}"
    using exec_served [OF sys_calls_ok [OF inv cur free] call(1)] call(2) by (auto simp: served_def)
  have ctx: "ctx_step s s'" by (rule exec_ctx [OF call(2)])
  obtain c' where c': "kernel_ok s' c'" using v(1) by (auto simp: serves_def)
  have isr: "w = None" if "OSIntNesting s \<noteq> 0" using v(2) that by (auto simp: unlocked_def)
  have refs: "refs_in (waits (?pc t)) (OSTCBTbl s' t) \<and> waits (?pc t) \<subseteq> {..<OS_MAX_EVENTS}" if t: "t < OS_MAX_TCBS" for t
  proof (cases "t = c \<and> OSIntNesting s = 0")
    case True
    then have "refs_in {} (OSTCBTbl s t)" using i(7) [OF t] free by simp
    then have "refs_in ({} \<union> waits w) (OSTCBTbl s' t)" using v(1) True unfolding serves_def by metis
    then show ?thesis using True v(2) by (cases w) simp_all
  next
    case False
    then have "?pc t = pc t" by auto
    moreover have "refs_in (waits (pc t)) (OSTCBTbl s' t)"
      using v(1) i(7) [OF t] isr False unfolding serves_def by (cases "t = c") fastforce+
    ultimately show ?thesis using i(8) [OF t] by simp
  qed
  have lock: "OSLockNesting s' = 0" if "?pc c' \<noteq> None"
  proof (rule ccontr)
    assume l: "OSLockNesting s' \<noteq> 0"
    then have "\<not> unlocked s'" by (simp add: unlocked_def)
    then have "OSTCBCur s' = TPtr c" using ctx cur by (simp add: ctx_step_def)
    then have "c' = c" using kernel_okD(4) [OF c'] by simp
    then have ne: "?pc c \<noteq> None" using that by simp
    show False
    proof (cases "OSIntNesting s = 0")
      case True
      then have w: "w \<noteq> None" using ne by simp
      then have "unlocked s" using v(2) by blast
      then have "highest_runs s" using i(6) by blast
      have "ctx_keeps s s'" using exec_blocks_ctx [OF call(2) w] .
      then show False using l \<open>unlocked s\<close> by (simp add: ctx_keeps_def unlocked_def)
    next
      case False
      then show False using ne i(3) c0 l ctx by (simp add: ctx_step_def)
    qed
  qed
  have "unlocked s' \<longrightarrow> highest_runs s'" using v(1) i(6) by (auto simp: serves_def)
  moreover have "OSRunning s'" using ctx i(1) by (simp add: ctx_step_def)
  ultimately show ?thesis
    unfolding sys_inv_def using c' lock refs by blast
qed

text \<open>The other steps.\<close>

lemma sys_resume:
  assumes inv: "sys_inv (s, pc)" and n: "OSIntNesting s = 0" and cur: "OSTCBCur s = TPtr c" and k: "pc c = Some k"
  shows "\<exists>s'. resume k s = Some s' \<and> sys_inv (s', pc(c := None))"
proof -
  obtain c0 where i: "OSRunning s" "kernel_ok s c0" "pc c0 \<noteq> None \<longrightarrow> OSLockNesting s = 0" "OSTCBCur s = TPtr c0" "c0 < OS_MAX_TCBS"
    "unlocked s \<longrightarrow> highest_runs s"
    "\<And>t. t < OS_MAX_TCBS \<Longrightarrow> refs_in (waits (pc t)) (OSTCBTbl s t)" "\<And>t. t < OS_MAX_TCBS \<Longrightarrow> waits (pc t) \<subseteq> {..<OS_MAX_EVENTS}"
    using sys_invD [OF inv] by blast
  have c0: "c0 = c" using i(4) cur by simp
  have ul: "unlocked s" using n i(3) k c0 by (simp add: unlocked_def)
  have "refs_in {call_event k} (OSTCBTbl s c)" "call_event k < OS_MAX_EVENTS" using i(5) i(7,8) [of c] k c0 by simp_all
  then obtain s' where s': "resume k s = Some s'" "wakes s c s'" "kernel_ok s' c" "ctx_keeps s s'"
    using resume_ok [OF i(2) [unfolded c0] ul] by blast
  have run: "OSRunning s'" "OSLockNesting s' = 0" "unlocked s'" using s'(4) i(1) ul by (simp_all add: ctx_keeps_def unlocked_def)
  have "prio s' c = prio s c"
  proof -
    have "OSPrioCur s' = prio s' c" "OSPrioCur s = prio s c" using kernel_okD(6) [OF s'(3)] kernel_okD(6) [OF i(2)] c0 by simp_all
    moreover have "act s c" "OSTCBPrioTbl s' = OSTCBPrioTbl s" using kernel_okD(5) [OF i(2)] c0 s'(2) by (simp_all add: wakes_def)
    ultimately show ?thesis using resume_prio [OF s'(1), of c] by simp
  qed
  moreover have "ready s' \<subseteq> ready s" using s'(2) by (simp add: wakes_def)
  ultimately have hr: "highest_runs s'" using highest_sub [OF i(2) [unfolded c0] s'(3) _ run(3)] i(6) ul by blast
  have "refs_in (waits ((pc(c := None)) t)) (OSTCBTbl s' t) \<and> waits ((pc(c := None)) t) \<subseteq> {..<OS_MAX_EVENTS}" if "t < OS_MAX_TCBS" for t
  proof (cases "t = c")
    case True
    then show ?thesis using s'(2) by (simp add: wakes_def no_refs_in)
  next
    case False
    then have "OSTCBTbl s' t = OSTCBTbl s t" using s'(2) by (simp add: wakes_def)
    then show ?thesis using False i(7,8) [OF that] by simp
  qed
  then have "sys_inv (s', pc(c := None))" unfolding sys_inv_def using s'(3) run hr by auto
  then show ?thesis using s'(1) by blast
qed

lemma sys_enter:
  assumes inv: "sys_inv (s, pc)" and n: "OSIntNesting s < 255"
  shows "sys_inv (OSIntEnter s, pc)"
proof -
  obtain c where i: "OSRunning s" "kernel_ok s c" "pc c \<noteq> None \<longrightarrow> OSLockNesting s = 0"
    "\<And>t. t < OS_MAX_TCBS \<Longrightarrow> refs_in (waits (pc t)) (OSTCBTbl s t)" "\<And>t. t < OS_MAX_TCBS \<Longrightarrow> waits (pc t) \<subseteq> {..<OS_MAX_EVENTS}"
    using sys_invD [OF inv] by metis
  have e: "OSIntEnter s = s\<lparr>OSIntNesting := OSIntNesting s + 1\<rparr>" using i(1) n by (simp add: OSIntEnter_def)
  have "\<not> unlocked (OSIntEnter s)" using u8_succ_pos [OF n] by (auto simp: e unlocked_def)
  then show ?thesis
    using kernel_ok_int_enter [OF i(2) n] i unfolding sys_inv_def by (auto simp: e)
qed

lemma sys_tick:
  assumes inv: "sys_inv (s, pc)" and n: "OSIntNesting s > 0"
  shows "\<exists>s'. OSTimeTick s = Some s' \<and> sys_inv (s', pc)"
proof -
  obtain c where i: "OSRunning s" "kernel_ok s c" "pc c \<noteq> None \<longrightarrow> OSLockNesting s = 0"
    "\<And>t. t < OS_MAX_TCBS \<Longrightarrow> refs_in (waits (pc t)) (OSTCBTbl s t)" "\<And>t. t < OS_MAX_TCBS \<Longrightarrow> waits (pc t) \<subseteq> {..<OS_MAX_EVENTS}"
    using sys_invD [OF inv] by metis
  obtain s' where s': "OSTimeTick s = Some s'" "kernel_ok s' c" "OSIntNesting s' = OSIntNesting s" "OSLockNesting s' = OSLockNesting s"
    "OSRunning s' = OSRunning s"
    "OSTCBTbl s' = (\<lambda>t. if tick_steps s \<and> act s t \<and> prio s t \<noteq> OS_TASK_IDLE_PRIO then ticked (OSTCBTbl s t) else OSTCBTbl s t)"
    using kernel_ok_tick [OF i(2) n] by blast
  have "refs_in A (OSTCBTbl s' t) = refs_in A (OSTCBTbl s t)" for A t by (simp add: s'(6) refs_in_def)
  moreover have "\<not> unlocked s'" using s'(3) n by (auto simp: unlocked_def)
  ultimately have "sys_inv (s', pc)" unfolding sys_inv_def using i s' by auto
  then show ?thesis using s'(1) by blast
qed

lemma sys_exit:
  assumes inv: "sys_inv (s, pc)" and n: "OSIntNesting s > 0"
  shows "\<exists>s'. OSIntExit s = Some s' \<and> sys_inv (s', pc)"
proof -
  obtain c where i: "OSRunning s" "kernel_ok s c" "pc c \<noteq> None \<longrightarrow> OSLockNesting s = 0"
    "\<And>t. t < OS_MAX_TCBS \<Longrightarrow> refs_in (waits (pc t)) (OSTCBTbl s t)" "\<And>t. t < OS_MAX_TCBS \<Longrightarrow> waits (pc t) \<subseteq> {..<OS_MAX_EVENTS}"
    using sys_invD [OF inv] by metis
  obtain s' c' where s': "OSIntExit s = Some s'" "kernel_ok s' c'" "sw_frame (s\<lparr>OSIntNesting := OSIntNesting s - 1\<rparr>) s'"
    "OSIntNesting s = 1 \<and> OSLockNesting s = 0 \<longrightarrow> highest_runs s'"
    using kernel_ok_int_exit [OF i(2,1) n] by blast
  have f: "OSRunning s' = OSRunning s" "OSIntNesting s' = OSIntNesting s - 1" "OSLockNesting s' = OSLockNesting s"
    using sw_frameD [OF s'(3)] by simp_all
  have refs: "refs_in A (OSTCBTbl s' t) = refs_in A (OSTCBTbl s t)" for A t
    using refs_in_same [OF sw_frame_same [OF s'(3), of t]] by simp
  have "unlocked s' \<longrightarrow> highest_runs s'"
    using s'(4) f(2,3) by (auto simp: unlocked_def)
  moreover have "OSLockNesting s' = 0" if "pc c' \<noteq> None"
  proof (rule ccontr)
    assume "OSLockNesting s' \<noteq> 0"
    then have l: "OSLockNesting s \<noteq> 0" using f(3) by simp
    then have "OSIntExit s = Some (s\<lparr>OSIntNesting := OSIntNesting s - 1\<rparr>)" using i(1) n by (simp add: OSIntExit_def Let_def)
    then have "OSTCBCur s' = OSTCBCur s" using s'(1) by auto
    then have "c' = c" using kernel_okD(4) [OF i(2)] kernel_okD(4) [OF s'(2)] by simp
    then show False using that i(3) l by blast
  qed
  ultimately have "sys_inv (s', pc)" unfolding sys_inv_def using i s'(2) f(1) refs by auto
  then show ?thesis using s'(1) by blast
qed

subsection \<open>The invariant of the reachable states\<close>

lemma sys_step: "step \<sigma> \<sigma>' \<Longrightarrow> sys_inv \<sigma> \<Longrightarrow> sys_inv \<sigma>'"
proof (induction rule: step.induct)
  case (task_call s c pc v w s')
  from sys_call [OF task_call(6,2) task_call(3) task_call(4,5)] show ?case using task_call(1) by simp
next
  case (task_resume s c pc k s')
  from sys_resume [OF task_resume(5,1-3)] show ?case using task_resume(4) by auto
next
  case (isr_enter s pc)
  then show ?case by (intro sys_enter)
next
  case (isr_call s v w s' pc)
  have n: "OSIntNesting s \<noteq> 0" using isr_call(1) by auto
  obtain c where "OSTCBCur s = TPtr c" using sys_invD [OF isr_call(4)] by metis
  from sys_call [OF isr_call(4) this _ isr_call(2,3)] n show ?case by simp
next
  case (isr_tick s s' pc)
  from sys_tick [OF isr_tick(3,1)] show ?case using isr_tick(2) by auto
next
  case (isr_exit s s' pc)
  from sys_exit [OF isr_exit(3,1)] show ?case using isr_exit(2) by auto
qed

lemma booted_ok: "booted l s \<Longrightarrow>
    \<exists>ts fs. boot_ok s ts fs \<and> OS_TASK_IDLE_PRIO \<in> ready s \<and> ts \<noteq> [] \<and> prio s (last ts) = OS_TASK_IDLE_PRIO"
proof (induction rule: booted.induct)
  case (init s0 s)
  obtain s1 where "OSInit l s0 = Some s1" "boot_ok s1 [1, 0] [2 ..< OS_MAX_TCBS]" "ready s1 = {OS_TASK_STAT_PRIO, OS_TASK_IDLE_PRIO}"
    "prio s1 0 = OS_TASK_IDLE_PRIO"
    using OSInit_boot [OF init(1)] by blast
  then show ?case using init(2) by (intro exI [of _ "[1, 0]"] exI [of _ "[2 ..< OS_MAX_TCBS]"]) simp
next
  case (create s p ret task p_arg ptos err s')
  then obtain ts fs where b: "boot_ok s ts fs" "OS_TASK_IDLE_PRIO \<in> ready s" "ts \<noteq> []" "prio s (last ts) = OS_TASK_IDLE_PRIO" by blast
  obtain ts' fs' where b': "boot_ok s' ts' fs'" "ready s \<subseteq> ready s'" "ts' \<noteq> [] \<and> last ts' = last ts" "\<forall>u \<in> set ts. prio s' u = prio s u"
    using create_task_boot [OF b(1) create(2), of ret task p_arg ptos] create(3) b(3) by auto
  have "prio s' (last ts') = OS_TASK_IDLE_PRIO" using b'(3,4) b(3,4) by simp
  then show ?case using b' b(2) by blast
qed

lemma booted_start:
  assumes "booted l s"
  shows "\<exists>s'. OSStart s = Some s' \<and> sys_inv (s', \<lambda>_. None)"
proof -
  obtain ts fs where b: "boot_ok s ts fs" "OS_TASK_IDLE_PRIO \<in> ready s" "ts \<noteq> []" "prio s (last ts) = OS_TASK_IDLE_PRIO"
    using booted_ok [OF assms] by blast
  obtain s' c where s': "OSStart s = Some s'" "kernel_ok s' c" "highest_runs s'" "OSRunning s'" "OSTCBTbl s' = OSTCBTbl s"
    using OSStart_ok [OF boot_kernel [OF b]] by blast
  have "\<forall>t < OS_MAX_TCBS. no_refs (OSTCBTbl s' t)" using b(1) s'(5) by (simp add: boot_ok_def)
  then show ?thesis using s' unfolding sys_inv_def by (auto simp: no_refs_in)
qed

lemma reachable_inv: "reachable l \<sigma> \<Longrightarrow> sys_inv \<sigma>"
proof (induction rule: reachable.induct)
  case (start s s')
  then show ?case using booted_start [OF start(1)] by auto
next
  case (step \<sigma> \<sigma>')
  then show ?case using sys_step by blast
qed

subsection \<open>Properties\<close>

text \<open>C3: the kernel invariant holds in every state that is reached from \<open>OSInit\<close>, calls of \<open>OSTaskCreate\<close> and \<open>OSStart\<close> by these
  steps, in whatever order tasks and nested interrupts take them: all services of semaphores, mailboxes and queues (creation and deletion
  included, posts with \<open>OS_POST_OPT_NO_SCHED\<close> and the queries, which only read, excluded), \<open>OSTimeDly\<close>, \<open>OSTimeDlyHMSM\<close>, \<open>OSTimeDlyResume\<close>, \<open>OSTimeSet\<close>,
  \<open>OSTaskCreate\<close>, \<open>OSTaskCreateExt\<close>, \<open>OSTaskSuspend\<close>, \<open>OSTaskResume\<close>, \<open>OSSchedLock\<close>, \<open>OSSchedUnlock\<close>, the tick, the entry and
  the exit of an interrupt, and the end of a blocked call, each by the rules of use of \<open>callable\<close>. Then the running task is a task of
  the kernel, the ready list and the wait lists are consistent with the states of all tasks, nobody waits for an object that has
  something to give, every queue is a well-formed ring with a control block of its own, and the lists of tasks, free control
  blocks, free events and free queues are well formed. Not among the steps are the services of mutexes and event flags,
  \<open>OSEventPendMulti\<close>, \<open>OSTaskDel\<close>, \<open>OSTaskChangePrio\<close> and the posts that ask for no reschedule.\<close>

theorem reachable_kernel_ok:
  assumes "reachable l (s, pc)"
  shows "\<exists>c. kernel_ok s c \<and> OSTCBCur s = TPtr c \<and> act s c"
  using reachable_inv [OF assms] kernel_okD(4,5) by (metis sys_invD)

text \<open>C2: in every state reached by these steps (semaphores, mailboxes and queues without \<open>OS_POST_OPT_NO_SCHED\<close>, time, creation,
  suspension and resumption of tasks, scheduler lock, ticks, nested interrupts) in which the scheduler is not locked and no
  interrupt is being served, the running task is the task with the numerically least ready priority, and it is neither
  suspended nor delayed. Services outside the steps are not covered: a post with \<open>OS_POST_OPT_NO_SCHED\<close> is meant to leave a more
  urgent task waiting, \<open>OSMutexPost\<close> does so in one case, and flags, \<open>OSEventPendMulti\<close>, deletion of tasks and change of priority
  are left out.\<close>

theorem reachable_most_urgent:
  assumes "reachable l (s, pc)" and "OSIntNesting s = 0" "OSLockNesting s = 0"
  shows "\<exists>c. OSTCBCur s = TPtr c \<and> prio s c = Min (ready s) \<and> \<not> susp (OSTCBTbl s c) \<and> OSTCBDly (OSTCBTbl s c) = 0"
proof -
  obtain c where c: "kernel_ok s c" "OSTCBCur s = TPtr c" "unlocked s \<longrightarrow> highest_runs s"
    using sys_invD [OF reachable_inv [OF assms(1)]] by metis
  have ul: "unlocked s" using assms(2,3) by (simp add: unlocked_def)
  have "prio s c = Min (ready s)" using highest_runs_Min(1) [OF _ kernel_ok_cur [OF c(1)]] c(3) ul by blast
  moreover have "rdy_cond True (OSTCBTbl s c)"
    using task_okD(2) [OF base_ok_task [OF kernel_ok_base [OF c(1)]]] kernel_okD(10) [OF c(1) ul] by simp
  ultimately show ?thesis using c(2) by (simp add: rdy_cond_def)
qed

text \<open>C1: no call of the services of the transition system faults and none is stuck, in any state it reaches. The running task can go
  on: in its own code each of these calls returns or blocks: every service of semaphores, mailboxes and queues (posts with
  \<open>OS_POST_OPT_NO_SCHED\<close> and the queries apart), \<open>OSTimeDly\<close>, \<open>OSTimeDlyHMSM\<close>, \<open>OSTimeDlyResume\<close>, \<open>OSTimeSet\<close>, \<open>OSTaskCreate\<close>, \<open>OSTaskCreateExt\<close>,
  \<open>OSTaskSuspend\<close>, \<open>OSTaskResume\<close>, \<open>OSSchedLock\<close> and \<open>OSSchedUnlock\<close>, called by the rules of \<open>callable\<close>; a call it is blocked in is
  finished by \<open>..._resume\<close>; in an interrupt each of these calls, the tick and \<open>OSIntExit\<close> return. So none of them follows a null,
  reserved or wild pointer and none of their loops runs forever, on any state that they lead to from \<open>OSInit\<close>, calls of \<open>OSTaskCreate\<close> and
  \<open>OSStart\<close>. Mutexes, event flags, \<open>OSEventPendMulti\<close>, \<open>OSTaskDel\<close> and \<open>OSTaskChangePrio\<close> are not steps; a mutex that is deleted
  under its owner does lead to a fault.\<close>

theorem reachable_no_fault:
  assumes r: "reachable l (s, pc)"
  shows "if OSIntNesting s = 0
    then \<exists>c. OSTCBCur s = TPtr c \<and> (case pc c of None \<Rightarrow> \<forall>v. callable v s \<longrightarrow> exec v s \<noteq> None | Some k \<Rightarrow> resume k s \<noteq> None)
    else (\<forall>v. callable v s \<longrightarrow> exec v s \<noteq> None) \<and> OSTimeTick s \<noteq> None \<and> OSIntExit s \<noteq> None"
proof -
  note inv = reachable_inv [OF r]
  obtain c where c: "OSTCBCur s = TPtr c" using sys_invD [OF inv] by metis
  have call: "exec v s \<noteq> None" if "callable v s" "OSIntNesting s = 0 \<Longrightarrow> pc c = None" for v
    using exec_served [OF sys_calls_ok [OF inv c that(2)] that(1)] by (auto simp: served_def)
  show ?thesis
  proof (cases "OSIntNesting s = 0")
    case True
    then show ?thesis using c call sys_resume [OF inv True c] by (auto split: option.split)
  next
    case False
    then have n: "OSIntNesting s > 0" by (simp add: word_gt_0)
    show ?thesis using False call sys_tick [OF inv n] sys_exit [OF inv n] by auto
  qed
qed

text \<open>A system that has just started.\<close>

definition sample_linkage :: linkage where
  "sample_linkage = \<lparr>OS_TaskReturn_addr = 0x8001000, OS_TaskIdle_addr = 0x8002000, OS_TaskStat_addr = 0x8003000,
     OSTaskIdleStk = 0, OSTaskStatStk = 128\<rparr>"

lemma sample_reachable: "\<exists>s. reachable sample_linkage (s, \<lambda>_. None) \<and> ready s = {OS_TASK_STAT_PRIO, OS_TASK_IDLE_PRIO} \<and> unlocked s \<and>
    unused s \<noteq> {} \<and> OSQFreeList s = Some 0"
proof -
  have "no_junk sample" unfolding no_junk_def using sched_invD(2) [OF sample_sched_inv] sample_waiters by auto
  then obtain s1 where s1: "OSInit sample_linkage sample = Some s1" "boot_ok s1 [1, 0] [2 ..< OS_MAX_TCBS]"
    "ready s1 = {OS_TASK_STAT_PRIO, OS_TASK_IDLE_PRIO}" "prio s1 0 = OS_TASK_IDLE_PRIO" "objects_free s1"
    using OSInit_boot by blast
  have b: "booted sample_linkage s1" by (rule booted.init [OF \<open>no_junk sample\<close> s1(1)])
  obtain s2 where s2: "OSStart s1 = Some s2" "ready s2 = ready s1" "OSIntNesting s2 = OSIntNesting s1" "OSLockNesting s2 = OSLockNesting s1"
    "obj_tables s2 = obj_tables s1"
    using OSStart_ok [OF boot_kernel [OF s1(2)]] s1(3,4) by auto
  have "unlocked s2" using s2(3,4) s1(2) by (simp add: boot_ok_def unlocked_def)
  moreover have "0 \<in> unused s2" "OSQFreeList s2 = Some 0"
    using s1(5) objects_free_cong [OF s2(5)] by (auto simp: objects_free_def unused_def upt_rec [of 0])
  ultimately show ?thesis using reachable.start [OF b s2(1)] s2(2) s1(3) by auto
qed

lemma sample_reachable_queue:
  "\<exists>s e. reachable sample_linkage (s, \<lambda>_. None) \<and> q_of s e 0 \<and> q_size s 0 = 4 \<and> unlocked s \<and> OSPrioCur s = 62"
proof -
  obtain s where s: "reachable sample_linkage (s, \<lambda>_. None)" "ready s = {OS_TASK_STAT_PRIO, OS_TASK_IDLE_PRIO}" "unlocked s"
    "unused s \<noteq> {}" "OSQFreeList s = Some 0"
    using sample_reachable by blast
  obtain c where c: "kernel_ok s c" "OSTCBCur s = TPtr c" "unlocked s \<longrightarrow> highest_runs s"
    using sys_invD [OF reachable_inv [OF s(1)]] by metis
  have n: "OSIntNesting s = 0" using s(3) by (simp add: unlocked_def)
  obtain e s' where s': "OSQCreate 100 4 s = Some (Some e, s')" "created s e OS_EVENT_TYPE_Q 0 (VQ 0) s'" "q_of s' e 0"
    "q_size s' 0 = unat (4 :: u16)" "kernel_ok s' c"
    using OSQCreate_ok(2) [OF c(1) n s(4,5)] by blast
  have "step (s, \<lambda>_. None) (s', (\<lambda>_. None)(c := None))"
    by (rule step.task_call [OF n c(2), of _ "QCreate 100 4"]) (simp_all add: s'(1))
  then have "reachable sample_linkage (s', (\<lambda>_. None)(c := None))" by (rule reachable.step [OF s(1)])
  moreover have "(\<lambda>_. None)(c := None) = (\<lambda>_. None)" by (simp add: fun_eq_iff)
  ultimately have r: "reachable sample_linkage (s', \<lambda>_. None)" by simp
  have "Min {62, 63 :: u8} = 62" by simp
  then have "prio s c = 62" using highest_runs_Min(1) [OF _ kernel_ok_cur [OF c(1)]] c(3) s(2,3) by simp
  then have "OSPrioCur s' = 62" "unlocked s'" using kernel_okD(6) [OF s'(5)] s'(2) s(3) by (simp_all add: created_def)
  then show ?thesis using r s'(3,4) by auto
qed

theorem reachable_kernel_ok_witness: "\<exists>s c e. reachable sample_linkage (s, \<lambda>_. None) \<and> q_of s e 0 \<and> kernel_ok s c"
  using sample_reachable_queue reachable_kernel_ok by blast

theorem reachable_most_urgent_witness:
  "\<exists>s c. reachable sample_linkage (s, \<lambda>_. None) \<and> OSTCBCur s = TPtr c \<and> prio s c = 62"
proof -
  obtain s where s: "reachable sample_linkage (s, \<lambda>_. None)" "ready s = {OS_TASK_STAT_PRIO, OS_TASK_IDLE_PRIO}" "unlocked s"
    using sample_reachable by blast
  have "Min {62, 63 :: u8} = 62" by simp
  then show ?thesis using reachable_most_urgent [OF s(1)] s by (auto simp: unlocked_def)
qed

theorem reachable_no_fault_witness:
  "\<exists>s e. reachable sample_linkage (s, \<lambda>_. None) \<and> q_of s e 0 \<and> exec (QCreate 8 3) s \<noteq> None \<and>
     exec (QPend e 5) s \<noteq> None \<and> exec (QPostOpt e (VMsg 1) 0) s \<noteq> None"
proof -
  obtain s e where s: "reachable sample_linkage (s, \<lambda>_. None)" "q_of s e 0" "unlocked s" "OSPrioCur s = 62"
    using sample_reachable_queue by blast
  have "\<forall>v. callable v s \<longrightarrow> exec v s \<noteq> None" using reachable_no_fault [OF s(1)] s(3) by (auto simp: unlocked_def)
  moreover have "callable (QCreate 8 3) s" "callable (QPend e 5) s" "callable (QPostOpt e (VMsg 1) 0) s"
    using s(2,4) by (simp_all add: q_of_def)
  ultimately show ?thesis using s(1,2) by blast
qed

end
