(* ===== verification/OS_Flag_Proofs.thy ===== *)
theory OS_Flag_Proofs
  imports OS_Flag_List OS_Sample
begin

text \<open>
  The event flag services on a consistent kernel: posting readies exactly the waiters whose
  condition the new flags satisfy and leaves the others in order, pending returns or waits at the
  front of the list, a timed-out task leaves it, and deleting a group aborts its waiters.
\<close>

subsection \<open>What the flag operations leave alone\<close>

definition fl_rest :: "os \<Rightarrow> os" where
  "fl_rest s = s\<lparr>OSRdyGrp := 0, OSRdyTbl := (\<lambda>_. 0), OSTCBTbl := (\<lambda>_. undefined), OSFlagTbl := (\<lambda>_. undefined),
     OSFlagNodes := (\<lambda>_. undefined), OSFlagFreeList := WNull\<rparr>"

definition fl_frame :: "os \<Rightarrow> os \<Rightarrow> bool" where
  "fl_frame s s' \<longleftrightarrow> fl_rest s' = fl_rest s \<and> (\<forall>t. link_view (OSTCBTbl s' t) = link_view (OSTCBTbl s t))"

lemma fl_frame_refl [simp]: "fl_frame s s"
  by (simp add: fl_frame_def)

lemma fl_frame_trans: "fl_frame s s1 \<Longrightarrow> fl_frame s1 s2 \<Longrightarrow> fl_frame s s2"
  by (simp add: fl_frame_def)

lemma fl_rest_sel:
  "OSTCBPrioTbl (fl_rest s) = OSTCBPrioTbl s" "OSTCBCur (fl_rest s) = OSTCBCur s" "OSPrioCur (fl_rest s) = OSPrioCur s"
  "OSIntNesting (fl_rest s) = OSIntNesting s" "OSLockNesting (fl_rest s) = OSLockNesting s"
  "OSTCBList (fl_rest s) = OSTCBList s" "OSTCBFreeList (fl_rest s) = OSTCBFreeList s"
  "OSEventFreeList (fl_rest s) = OSEventFreeList s" "OSQTbl (fl_rest s) = OSQTbl s"
  "OSQFreeList (fl_rest s) = OSQFreeList s" "OSMsgMem (fl_rest s) = OSMsgMem s" "OSEvents (fl_rest s) = OSEvents s"
  "OSTime (fl_rest s) = OSTime s"
  by (simp_all add: fl_rest_def)

lemma fl_frameD:
  assumes "fl_frame s s'"
  shows "OSTCBPrioTbl s' = OSTCBPrioTbl s" "OSTCBCur s' = OSTCBCur s" "OSPrioCur s' = OSPrioCur s"
    "OSIntNesting s' = OSIntNesting s" "OSLockNesting s' = OSLockNesting s" "OSTCBList s' = OSTCBList s"
    "OSTCBFreeList s' = OSTCBFreeList s" "OSEventFreeList s' = OSEventFreeList s" "OSQTbl s' = OSQTbl s"
    "OSQFreeList s' = OSQFreeList s" "OSMsgMem s' = OSMsgMem s" "OSEvents s' = OSEvents s" "OSTime s' = OSTime s"
  by (simp_all only: fl_rest_sel [of s, symmetric] fl_rest_sel [of s', symmetric]
      assms [unfolded fl_frame_def, THEN conjunct1])

lemma fl_frame_tcb:
  assumes "fl_frame s s'"
  shows "link_view (OSTCBTbl s' t) = link_view (OSTCBTbl s t)" "prio s' t = prio s t" "act s' t = act s t"
    "waiters s' = waiters s" "unlocked s' = unlocked s"
  using assms
  by (auto simp: fl_frame_def link_view_def prio_view_def act_def fl_frameD [OF assms] waiters_def unlocked_def)

lemma fl_frame_prims [simp]:
  "fl_frame s (set_rdy_bm m s1) = fl_frame s s1"
  "fl_frame s (rdy_ins t s1) = fl_frame s s1" "fl_frame s (rdy_del t s1) = fl_frame s s1"
  "fl_frame s (s1\<lparr>OSFlagTbl := a\<rparr>) = fl_frame s s1" "fl_frame s (s1\<lparr>OSFlagNodes := b\<rparr>) = fl_frame s s1"
  "fl_frame s (s1\<lparr>OSFlagFreeList := f\<rparr>) = fl_frame s s1"
  "(\<And>c. link_view (h c) = link_view c) \<Longrightarrow> fl_frame s (upd_tcb t h s1) = fl_frame s s1"
  by (auto simp: fl_frame_def fl_rest_def set_rdy_bm_def rdy_ins_def rdy_del_def Let_def upd_tcb_def)

lemma base_ok_fl_frame:
  assumes ok: "base_ok s c" and inv: "sched_inv s1" and fr: "fl_frame s s1"
  shows "base_ok s1 c"
proof -
  note d = base_okD [OF ok] and f = fl_frameD [OF fr] and t = fl_frame_tcb [OF fr]
  have "obj_inv s1 = obj_inv s" by (rule obj_inv_cong) (simp_all add: f)
  moreover have "list_inv s1 = list_inv s" by (rule list_inv_cong) (simp_all add: f t)
  moreover have "avail s1 e = avail s e" for e by (rule avail_cong) (simp_all add: f)
  ultimately show ?thesis
    using d inv by (simp add: base_ok_def idle_inv_def cur_at_def f t)
qed

lemma kernel_ok_fl_frame:
  "kernel_ok s c \<Longrightarrow> sched_inv s1 \<Longrightarrow> fl_frame s s1 \<Longrightarrow> ready s \<subseteq> ready s1 \<Longrightarrow> kernel_ok s1 c"
  using base_ok_fl_frame [of s c s1] fl_frame_tcb(2,5) [of s s1] by (auto simp: kernel_ok_iff)

text \<open>Only flags and nodes change.\<close>

lemma sched_inv_flags [simp]:
  "sched_inv (s\<lparr>OSFlagTbl := a\<rparr>) = sched_inv s" "sched_inv (s\<lparr>OSFlagNodes := b\<rparr>) = sched_inv s"
  "sched_inv (s\<lparr>OSFlagFreeList := f\<rparr>) = sched_inv s"
  "ready (s\<lparr>OSFlagTbl := a\<rparr>) = ready s" "ready (s\<lparr>OSFlagNodes := b\<rparr>) = ready s" "ready (s\<lparr>OSFlagFreeList := f\<rparr>) = ready s"
  by (simp_all add: sched_inv_def ready_def waiters_def rdy_bm_def act_def task_ok_def)

text \<open>The data of the groups and the nodes, without the links.\<close>

definition flag_data :: "os \<Rightarrow> os \<Rightarrow> bool" where
  "flag_data s s' \<longleftrightarrow> (\<forall>g. OSFlagFlags (OSFlagTbl s' g) = OSFlagFlags (OSFlagTbl s g) \<and>
       OSFlagType (OSFlagTbl s' g) = OSFlagType (OSFlagTbl s g)) \<and>
     (\<forall>n. OSFlagNodeFlags (OSFlagNodes s' n) = OSFlagNodeFlags (OSFlagNodes s n) \<and>
       OSFlagNodeWaitType (OSFlagNodes s' n) = OSFlagNodeWaitType (OSFlagNodes s n)) \<and>
     OSFlagFreeList s' = OSFlagFreeList s"

lemma flag_data_refl [simp]: "flag_data s s"
  by (simp add: flag_data_def)

lemma flag_data_trans: "flag_data s s1 \<Longrightarrow> flag_data s1 s2 \<Longrightarrow> flag_data s s2"
  by (simp add: flag_data_def)

subsection \<open>Readying one waiter\<close>

definition flag_readied :: "u16 \<Rightarrow> u8 \<Rightarrow> os_tcb \<Rightarrow> os_tcb" where
  "flag_readied flags ps c = c\<lparr>OSTCBDly := 0, OSTCBFlagsRdy := flags, OSTCBStat := OSTCBStat c AND NOT OS_STAT_FLAG,
     OSTCBStatPend := ps, OSTCBFlagNode := None\<rparr>"

lemma flag_stat_cleared:
  assumes "(x::u8) AND NOT (OS_STAT_FLAG OR OS_STAT_SUSPEND) = 0"
  shows "x AND NOT OS_STAT_FLAG = 0 \<longleftrightarrow> x AND OS_STAT_SUSPEND = 0" "(x AND NOT OS_STAT_FLAG) AND OS_STAT_SUSPEND = x AND OS_STAT_SUSPEND"
    "(x AND NOT OS_STAT_FLAG) AND OS_STAT_PEND_ANY = 0" "x AND OS_STAT_MULTI = 0" "(x AND NOT OS_STAT_FLAG) AND OS_STAT_MULTI = 0"
proof -
  have *: "\<forall>i<8. i = 3 \<or> i = 5 \<or> \<not> bit x i"
    using assms unfolding u8_eq_0_iff all_less_8 by (simp add: bit_and_iff bit_not_iff bit_or_iff)
  then show "x AND NOT OS_STAT_FLAG = 0 \<longleftrightarrow> x AND OS_STAT_SUSPEND = 0"
    "(x AND NOT OS_STAT_FLAG) AND OS_STAT_SUSPEND = x AND OS_STAT_SUSPEND" "(x AND NOT OS_STAT_FLAG) AND OS_STAT_PEND_ANY = 0"
    "x AND OS_STAT_MULTI = 0" "(x AND NOT OS_STAT_FLAG) AND OS_STAT_MULTI = 0"
    unfolding u8_eq_iff all_less_8 by (simp_all add: bit_and_iff bit_not_iff)
qed

lemma OS_FlagTaskRdy_ok:
  assumes ok: "base_ok s c" and fl: "flag_lists s F" and F: "F g = xs @ n # ys"
  shows "\<exists>s'. OS_FlagTaskRdy n flags ps s = Some (\<not> susp (OSTCBTbl s n), s') \<and> base_ok s' c \<and>
    flag_lists s' (F(g := xs @ ys)) \<and> fl_frame s s' \<and> flag_data s s' \<and>
    OSTCBTbl s' = (OSTCBTbl s)(n := flag_readied flags ps (OSTCBTbl s n)) \<and>
    ready s' = (if susp (OSTCBTbl s n) then ready s else insert (prio s n) (ready s)) \<and>
    OSFlagNodeNext (OSFlagNodes s' n) = first_of ys None \<and>
    OSFlagNodes s' = skip_node (last_of xs None) (first_of ys None) (OSFlagNodes s)"
proof -
  let ?c = "OSTCBTbl s n" and ?upd = "\<lambda>c. c\<lparr>OSTCBDly := 0, OSTCBFlagsRdy := flags, OSTCBStat := OSTCBStat c AND NOT OS_STAT_FLAG,
     OSTCBStatPend := ps\<rparr>"
  have in': "n \<in> set (F g)" using F by simp
  note inv = base_okD(1) [OF ok] and w = flag_lists_waiter [OF fl in'] and u = flag_lists_used [OF fl in']
  have n: "act s n" "n < OS_MAX_TCBS" "OSFlagNodeTCB (OSFlagNodes s n) = n" and wf: "waits_flag n ?c"
    using w by (simp_all add: flag_waiter_def act_def)
  note bits = flag_stat_cleared [of "OSTCBStat ?c"]
  have st: "OSTCBStat ?c AND NOT (OS_STAT_FLAG OR OS_STAT_SUSPEND) = 0" using wf by (simp add: waits_flag_def)
  have tok: "task_ok s n" using inv n(1) by (rule sched_invD(6))
  note tokD = task_okD [OF tok]
  have nw: "prio s n \<notin> waiters s e" for e
    using wf not_waiting [OF tok] by (simp add: waits_flag_def no_refs_def)
  define s1 where "s1 = upd_tcb n ?upd s"
  define s2 where "s2 = (if susp ?c then s1 else rdy_ins n s1)"
  have s1: "OSTCBTbl s1 = (OSTCBTbl s)(n := ?upd ?c)" "ready s1 = ready s" "waiters s1 = waiters s"
    by (simp_all add: s1_def)
  have pok: "tcb_prio_ok (OSTCBTbl s1 n)" using tokD(1) by (simp add: s1 tcb_prio_ok_def)
  have r2: "ready s2 = (if susp ?c then ready s else insert (prio s n) (ready s))"
    using ready_rdy_ins [OF pok] by (simp add: s2_def s1)
  have s2: "OSTCBTbl s2 = OSTCBTbl s1" "waiters s2 = waiters s" "fl_frame s s2" "OSFlagTbl s2 = OSFlagTbl s"
    "OSFlagNodes s2 = OSFlagNodes s" "OSFlagFreeList s2 = OSFlagFreeList s" "OSTCBPrioTbl s2 = OSTCBPrioTbl s"
    "OSEvents s2 = OSEvents s"
    by (simp_all add: s2_def s1_def link_view_def prio_view_def)
  have in2: "prio s n \<in> ready s2 \<longleftrightarrow> \<not> susp ?c"
    using tokD(2) by (auto simp: r2 rdy_cond_def)
  have inv2: "sched_inv s2"
  proof (rule sched_inv_change [OF inv n(1)])
    show "task_ok s2 n"
      using tokD(1,3,4) in2 nw bits [OF st]
      by (simp add: task_ok_def Let_def s2 s1 tcb_prio_ok_def rdy_cond_def runnable_def susp_def pend_def multi_def evt_refs_def)
    show "bm_ok (rdy_bm s2)"
      using sched_invD(1) [OF inv] bm_ok_rdy_ins [OF pok] by (simp add: s2_def s1_def)
    show "prio s n = OS_TASK_IDLE_PRIO \<Longrightarrow> prio s n \<in> ready s2"
      using sched_invD(7) [OF inv] by (simp add: r2)
    show "sched_view (OSTCBTbl s2 t) = sched_view (OSTCBTbl s t)" if "t \<noteq> n" for t using that by (simp add: s2 s1)
    show "prio_view (OSTCBTbl s2 n) = prio_view ?c" by (simp add: s2 s1 prio_view_def)
  qed (simp_all add: s2 r2 sched_invD(2) [OF inv])
  have fl2: "flag_view (OSTCBTbl s2 t) = flag_view (OSTCBTbl s t)" if "t \<noteq> n" for t using that by (simp add: s2 s1)
  have ul: "OS_FlagUnlink n s2 = Some (upd_tcb n (\<lambda>c. c\<lparr>OSTCBFlagNode := None\<rparr>)
    (s2\<lparr>OSFlagTbl := unlink_tbl g xs ys (OSFlagTbl s2), OSFlagNodes := skip_node (last_of xs None) (first_of ys None) (OSFlagNodes s2)\<rparr>))"
    (is "_ = Some ?s'")
    by (rule OS_FlagUnlink_eval [OF fl F]) (simp add: s2)
  have tb: "OSTCBTbl ?s' = (OSTCBTbl s)(n := flag_readied flags ps ?c)"
    by (simp add: s2 s1 flag_readied_def)
  have fr: "fl_frame s ?s'" using s2(3) by (simp add: link_view_def prio_view_def)
  have inv': "sched_inv ?s'"
    by (rule sched_inv_upd_tcb_view) (simp_all add: inv2 sched_view_def prio_view_def)
  have "flag_lists ?s' (F(g := xs @ ys))"
  proof (rule flag_lists_unlink [OF fl F])
    show "act ?s' t = act s t" for t by (rule fl_frame_tcb(3) [OF fr])
  qed (simp_all add: tb s2 s1 flag_readied_def)
  moreover have "flag_data s ?s'" by (simp add: flag_data_def s2 skip_node_data)
  moreover have "OSFlagNodeNext (OSFlagNodes ?s' n) = first_of ys None"
  proof -
    have "distinct (xs @ n # ys)" "linked (OSFlagNodes s) None (xs @ n # ys) None"
      using flag_listsD(2,3) [OF fl u] F by simp_all
    then show ?thesis
      by (cases xs rule: rev_cases) (auto simp: s2 skip_node_links dlinked_append)
  qed
  moreover have "OS_FlagTaskRdy n flags ps s = Some (\<not> susp ?c, ?s')"
  proof -
    have "(OSTCBStat (OSTCBTbl s1 n) = OS_STAT_RDY) = (\<not> susp ?c)"
      using bits(1) [OF st] by (simp add: s1 susp_def)
    then have "OS_FlagTaskRdy n flags ps s = Option.bind (OS_FlagUnlink n s2) (\<lambda>s3. Some (\<not> susp ?c, s3))"
      using n unfolding OS_FlagTaskRdy_def s2_def s1_def by (simp add: Let_def)
    then show ?thesis by (simp only: ul bind.bind_lunit)
  qed
  moreover have "ready ?s' = ready s2" by simp
  ultimately show ?thesis
    using base_ok_fl_frame [OF ok inv' fr] fr tb r2 s2(5) by (intro exI [of _ ?s']) simp
qed


subsection \<open>The walks over a wait list\<close>

text \<open>When a wait condition holds: the asked-for flags are set (or clear), all of them or any. The
  flags found are those asked for that are so.\<close>

definition flags_hold :: "u8 \<Rightarrow> u16 \<Rightarrow> u16 \<Rightarrow> bool" where
  "flags_hold wt cur msk \<longleftrightarrow> (let good = (\<lambda>i. bit cur i \<longleftrightarrow> wt = OS_FLAG_WAIT_SET_ALL \<or> wt = OS_FLAG_WAIT_SET_ANY)
     in if wt = OS_FLAG_WAIT_SET_ALL \<or> wt = OS_FLAG_WAIT_CLR_ALL then \<forall>i<16. bit msk i \<longrightarrow> good i
        else \<exists>i<16. bit msk i \<and> good i)"

definition flags_found :: "u8 \<Rightarrow> u16 \<Rightarrow> u16 \<Rightarrow> u16" where
  "flags_found wt cur msk = (if wt = OS_FLAG_WAIT_SET_ALL \<or> wt = OS_FLAG_WAIT_SET_ANY then cur else NOT cur) AND msk"

lemma u8_le_3: "(w::u8) \<le> 3 \<longleftrightarrow> w = 0 \<or> w = 1 \<or> w = 2 \<or> w = 3"
proof -
  have "w \<le> 3 \<longleftrightarrow> unat w \<le> 3" by (simp add: word_le_nat_alt)
  also have "\<dots> \<longleftrightarrow> unat w = 0 \<or> unat w = 1 \<or> unat w = 2 \<or> unat w = 3" by arith
  finally show ?thesis by (simp add: word_unat_eq_iff)
qed

lemma u16_and_eq: "(a::u16) AND m = m \<longleftrightarrow> (\<forall>i<16. bit m i \<longrightarrow> bit a i)"
  by (auto simp: bit_eq_iff bit_and_iff dest: bit_imp_le_length)

lemma u16_and_neq_0: "(a::u16) AND m \<noteq> 0 \<longleftrightarrow> (\<exists>i<16. bit m i \<and> bit a i)"
  by (auto simp: bit_eq_iff bit_and_iff dest: bit_imp_le_length)

lemma flag_test_eq: "flag_test wt cur msk = (if wt \<le> 3 then Some (flags_found wt cur msk, flags_hold wt cur msk) else None)"
proof (cases "wt \<le> 3")
  case True
  then have "wt = 0 \<or> wt = 1 \<or> wt = 2 \<or> wt = 3" by (simp add: u8_le_3)
  then show ?thesis
    by (elim disjE) (simp_all add: flag_test_def Let_def flags_found_def flags_hold_def u16_and_eq u16_and_neq_0 bit_not_iff, auto)
next
  case False
  then show ?thesis by (simp add: u8_le_3 flag_test_def)
qed

definition node_sat :: "u16 \<Rightarrow> os_flag_node \<Rightarrow> bool" where
  "node_sat fl k = flags_hold (OSFlagNodeWaitType k) fl (OSFlagNodeFlags k)"

definition node_got :: "u16 \<Rightarrow> os_flag_node \<Rightarrow> u16" where
  "node_got fl k = flags_found (OSFlagNodeWaitType k) fl (OSFlagNodeFlags k)"

abbreviation sat :: "os \<Rightarrow> nat \<Rightarrow> nat \<Rightarrow> bool" where
  "sat s g n \<equiv> node_sat (OSFlagFlags (OSFlagTbl s g)) (OSFlagNodes s n)"

abbreviation got :: "os \<Rightarrow> nat \<Rightarrow> nat \<Rightarrow> u16" where
  "got s g n \<equiv> node_got (OSFlagFlags (OSFlagTbl s g)) (OSFlagNodes s n)"

lemma flag_test_node: "OSFlagNodeWaitType k \<le> 3 \<Longrightarrow>
    flag_test (OSFlagNodeWaitType k) fl (OSFlagNodeFlags k) = Some (node_got fl k, node_sat fl k)"
  by (simp add: flag_test_eq node_sat_def node_got_def)

lemma flag_data_sat:
  "flag_data s s' \<Longrightarrow> sat s' g n = sat s g n" "flag_data s s' \<Longrightarrow> got s' g n = got s g n"
  by (simp_all add: flag_data_def node_sat_def node_got_def)

lemma flag_post_walk_ok:
  assumes "base_ok s c" and "flag_lists s F" and "F g = xs @ ys"
  shows "\<exists>s'. flag_post_walk g (first_of ys None) b s =
      Some (True, b \<or> (\<exists>t \<in> set ys. sat s g t \<and> \<not> susp (OSTCBTbl s t)), s') \<and> base_ok s' c \<and>
    flag_lists s' (F(g := xs @ filter (\<lambda>t. \<not> sat s g t) ys)) \<and> fl_frame s s' \<and> flag_data s s' \<and>
    OSTCBTbl s' = (\<lambda>t. if t \<in> set ys \<and> sat s g t then flag_readied (got s g t) OS_STAT_PEND_OK (OSTCBTbl s t) else OSTCBTbl s t) \<and>
    ready s' = ready s \<union> prio s ` {t \<in> set ys. sat s g t \<and> \<not> susp (OSTCBTbl s t)}"
  using assms
proof (induction ys arbitrary: xs b s F)
  case Nil
  then have "F(g := xs) = F" by (simp add: fun_upd_idem)
  with Nil show ?case by (simp add: flag_post_walk.simps)
next
  case (Cons n ys)
  note ok = Cons.prems(1) and fl = Cons.prems(2) and F = Cons.prems(3)
  have in': "n \<in> set (F g)" using F by simp
  note w = flag_lists_waiter [OF fl in'] and u = flag_lists_used [OF fl in']
  have ty: "OSFlagNodeWaitType (OSFlagNodes s n) \<le> 3" using w by (simp add: flag_waiter_def)
  have dist: "n \<notin> set ys" using flag_listsD(3) [OF fl u] F by simp
  have nxt: "OSFlagNodeNext (OSFlagNodes s n) = first_of ys None"
    using flag_listsD(2) [OF fl u] F by (simp add: dlinked_append)
  show ?case
  proof (cases "sat s g n")
    case False
    have "F g = (xs @ [n]) @ ys" using F by simp
    from Cons.IH [OF ok fl this, of b] obtain s' where "flag_post_walk g (first_of ys None) b s =
        Some (True, b \<or> (\<exists>t \<in> set ys. sat s g t \<and> \<not> susp (OSTCBTbl s t)), s')" "base_ok s' c"
      "flag_lists s' (F(g := (xs @ [n]) @ filter (\<lambda>t. \<not> sat s g t) ys))" "fl_frame s s'" "flag_data s s'"
      "OSTCBTbl s' = (\<lambda>t. if t \<in> set ys \<and> sat s g t then flag_readied (got s g t) OS_STAT_PEND_OK (OSTCBTbl s t) else OSTCBTbl s t)"
      "ready s' = ready s \<union> prio s ` {t \<in> set ys. sat s g t \<and> \<not> susp (OSTCBTbl s t)}"
      by blast
    moreover have "flag_post_walk g (first_of (n # ys) None) b s = flag_post_walk g (first_of ys None) b s"
      by (subst flag_post_walk.simps) (simp add: Let_def flag_test_node [OF ty] False nxt)
    moreover have "{t \<in> set (n # ys). sat s g t \<and> \<not> susp (OSTCBTbl s t)} = {t \<in> set ys. sat s g t \<and> \<not> susp (OSTCBTbl s t)}"
      using False by auto
    moreover have "(if t \<in> set (n # ys) \<and> sat s g t then u else v) = (if t \<in> set ys \<and> sat s g t then u else v)"
      for t and u v :: os_tcb using False by auto
    moreover have "(\<exists>t \<in> set (n # ys). sat s g t \<and> \<not> susp (OSTCBTbl s t)) = (\<exists>t \<in> set ys. sat s g t \<and> \<not> susp (OSTCBTbl s t))"
      using False by auto
    moreover have "(xs @ [n]) @ filter (\<lambda>t. \<not> sat s g t) ys = xs @ filter (\<lambda>t. \<not> sat s g t) (n # ys)"
      using False by simp
    ultimately show ?thesis by (intro exI [of _ s']) (simp only:)
  next
    case True
    obtain s1 where s1: "OS_FlagTaskRdy n (got s g n) OS_STAT_PEND_OK s = Some (\<not> susp (OSTCBTbl s n), s1)" "base_ok s1 c"
      "flag_lists s1 (F(g := xs @ ys))" "fl_frame s s1" "flag_data s s1"
      "OSTCBTbl s1 = (OSTCBTbl s)(n := flag_readied (got s g n) OS_STAT_PEND_OK (OSTCBTbl s n))"
      "ready s1 = (if susp (OSTCBTbl s n) then ready s else insert (prio s n) (ready s))"
      "OSFlagNodeNext (OSFlagNodes s1 n) = first_of ys None"
      using OS_FlagTaskRdy_ok [OF ok fl F] by blast
    note same = flag_data_sat [OF s1(5)]
    have tb1: "OSTCBTbl s1 t = OSTCBTbl s t" if "t \<in> set ys" for t using that dist by (auto simp: s1(6))
    have ex: "(\<exists>t \<in> set ys. sat s1 g t \<and> \<not> susp (OSTCBTbl s1 t)) = (\<exists>t \<in> set ys. sat s g t \<and> \<not> susp (OSTCBTbl s t))"
      using tb1 by (simp add: same)
    have eqs: "{t \<in> set ys. sat s1 g t \<and> \<not> susp (OSTCBTbl s1 t)} = {t \<in> set ys. sat s g t \<and> \<not> susp (OSTCBTbl s t)}"
      using tb1 by (auto simp: same)
    have pr: "prio s1 t = prio s t" for t by (rule fl_frame_tcb(2) [OF s1(4)])
    have F1: "(F(g := xs @ ys)) g = xs @ ys" by simp
    obtain s' where s': "flag_post_walk g (first_of ys None) (b \<or> \<not> susp (OSTCBTbl s n)) s1 =
        Some (True, (b \<or> \<not> susp (OSTCBTbl s n)) \<or> (\<exists>t \<in> set ys. sat s1 g t \<and> \<not> susp (OSTCBTbl s1 t)), s')" "base_ok s' c"
      "flag_lists s' ((F(g := xs @ ys))(g := xs @ filter (\<lambda>t. \<not> sat s1 g t) ys))" "fl_frame s1 s'" "flag_data s1 s'"
      "OSTCBTbl s' = (\<lambda>t. if t \<in> set ys \<and> sat s1 g t then flag_readied (got s1 g t) OS_STAT_PEND_OK (OSTCBTbl s1 t) else OSTCBTbl s1 t)"
      "ready s' = ready s1 \<union> prio s1 ` {t \<in> set ys. sat s1 g t \<and> \<not> susp (OSTCBTbl s1 t)}"
      using Cons.IH [OF s1(2,3) F1, of "b \<or> \<not> susp (OSTCBTbl s n)"] by blast
    have walk: "flag_post_walk g (first_of (n # ys) None) b s = flag_post_walk g (first_of ys None) (b \<or> \<not> susp (OSTCBTbl s n)) s1"
      by (subst flag_post_walk.simps) (simp add: Let_def flag_test_node [OF ty] True s1(1,8))
    have "flag_post_walk g (first_of (n # ys) None) b s =
        Some (True, b \<or> (\<exists>t \<in> set (n # ys). sat s g t \<and> \<not> susp (OSTCBTbl s t)), s')"
      unfolding walk s'(1) using ex True by auto
    moreover have "flag_lists s' (F(g := xs @ filter (\<lambda>t. \<not> sat s g t) (n # ys)))"
      using s'(3) True by (simp add: same)
    moreover have "OSTCBTbl s' = (\<lambda>t. if t \<in> set (n # ys) \<and> sat s g t
        then flag_readied (got s g t) OS_STAT_PEND_OK (OSTCBTbl s t) else OSTCBTbl s t)"
      using dist True by (auto simp: s'(6) same s1(6))
    moreover have "ready s' = ready s \<union> prio s ` {t \<in> set (n # ys). sat s g t \<and> \<not> susp (OSTCBTbl s t)}"
      unfolding s'(7) eqs pr s1(7) using True by auto
    ultimately show ?thesis
      using s'(2) fl_frame_trans [OF s1(4) s'(4)] flag_data_trans [OF s1(5) s'(5)] by blast
  qed
qed


subsection \<open>Posting\<close>

lemma flag_lists_cong:
  assumes "flag_lists s F" and nds: "OSFlagNodes s' = OSFlagNodes s" and free: "OSFlagFreeList s' = OSFlagFreeList s"
    and grp: "\<And>g. OSFlagType (OSFlagTbl s' g) = OSFlagType (OSFlagTbl s g)"
      "\<And>g. OSFlagWaitList (OSFlagTbl s' g) = OSFlagWaitList (OSFlagTbl s g)"
    and tcb: "\<And>t. act s' t = act s t" "\<And>t. flag_view (OSTCBTbl s' t) = flag_view (OSTCBTbl s t)"
  shows "flag_lists s' F"
proof -
  have "flag_waiter s' g n = flag_waiter s g n" for g n
    by (simp add: flag_waiter_def nds tcb(1) waits_flag_view [OF tcb(2)])
  then have "wait_list s' g ns = wait_list s g ns" for g ns by (simp add: wait_list_def grp nds)
  moreover have "flag_used s' g = flag_used s g" for g by (simp add: flag_used_def grp)
  moreover have "grp_seg (OSFlagTbl s') p gs = grp_seg (OSFlagTbl s) p gs" for p gs
    by (rule grp_seg_cong) (simp add: grp)
  then have "free_groups s' gs = free_groups s gs" for gs by (simp add: free_groups_def free grp)
  moreover have "OSTCBFlagNode (OSTCBTbl s' t) = OSTCBFlagNode (OSTCBTbl s t)" for t
    using tcb(2) [of t] by (simp add: flag_view_def)
  ultimately show ?thesis using assms(1) by (simp add: flag_lists_def tcb(1))
qed

lemma flag_lists_sw:
  assumes "flag_lists s F" and fr: "sw_frame s s'"
  shows "flag_lists s' F"
proof (rule flag_lists_cong [OF assms(1)])
  show "flag_view (OSTCBTbl s' t) = flag_view (OSTCBTbl s t)" for t
    using sw_frame_same [OF fr, of t] by (auto simp: same_task_def flag_view_def)
qed (simp_all add: sw_frameD [OF fr] sw_frame_act [OF fr])

lemma upd_grp_sel [simp]:
  "OSFlagTbl (upd_grp g f s) = (OSFlagTbl s)(g := f (OSFlagTbl s g))" "OSFlagNodes (upd_grp g f s) = OSFlagNodes s"
  "OSFlagFreeList (upd_grp g f s) = OSFlagFreeList s" "OSTCBTbl (upd_grp g f s) = OSTCBTbl s"
  "OSTCBCur (upd_grp g f s) = OSTCBCur s" "OSIntNesting (upd_grp g f s) = OSIntNesting s"
  "OSLockNesting (upd_grp g f s) = OSLockNesting s" "ready (upd_grp g f s) = ready s"
  "sched_inv (upd_grp g f s) = sched_inv s" "fl_frame s0 (upd_grp g f s) = fl_frame s0 s"
  by (simp_all add: upd_grp_def)

lemma flag_lists_upd_flags:
  "flag_lists s F \<Longrightarrow> flag_lists (upd_grp g (\<lambda>gr. gr\<lparr>OSFlagFlags := h gr\<rparr>) s) F"
  by (rule flag_lists_cong [of s]) (auto simp: act_def upd_grp_def)

text \<open>\<open>s'\<close> is \<open>s\<close> with the tasks in \<open>T\<close> off their flag list and, unless suspended, ready; each has been
  told the flags \<open>f t\<close> and the pend status \<open>ps\<close>.\<close>

definition flags_wake :: "os \<Rightarrow> nat set \<Rightarrow> (nat \<Rightarrow> u16) \<Rightarrow> u8 \<Rightarrow> os \<Rightarrow> bool" where
  "flags_wake s T f ps s' \<longleftrightarrow>
     (\<forall>t. same_task (if t \<in> T then flag_readied (f t) ps (OSTCBTbl s t) else OSTCBTbl s t) (OSTCBTbl s' t)) \<and>
     ready s' = ready s \<union> prio s ` {t \<in> T. \<not> susp (OSTCBTbl s t)} \<and> OSEvents s' = OSEvents s \<and>
     OSQTbl s' = OSQTbl s \<and> OSMsgMem s' = OSMsgMem s \<and> OSTime s' = OSTime s \<and> OSTCBPrioTbl s' = OSTCBPrioTbl s"

text \<open>After a walk that made some tasks ready or none.\<close>

lemma flags_wake_sched:
  assumes ok: "kernel_ok s c" and b: "base_ok s1 c" and fr: "fl_frame s s1"
    and tb: "OSTCBTbl s1 = (\<lambda>t. if t \<in> T then flag_readied (f t) ps (OSTCBTbl s t) else OSTCBTbl s t)"
    and rdy: "ready s1 = ready s \<union> prio s ` {t \<in> T. \<not> susp (OSTCBTbl s t)}"
  shows "\<exists>s' c'. (if b then OS_Sched s1 else Some s1) = Some s' \<and> sw_frame s1 s' \<and> kernel_ok s' c' \<and>
    flags_wake s T f ps s' \<and> (b \<longrightarrow> scheduled s s') \<and> (\<not> b \<longrightarrow> c' = c)"
proof -
  note f = fl_frameD [OF fr] and t = fl_frame_tcb [OF fr]
  have wake: "flags_wake s T f ps s'" if sw: "sw_frame s1 s'" for s'
    using sw_frame_same [OF sw] by (simp add: flags_wake_def sw_frameD [OF sw] f rdy tb)
  have k1: "kernel_ok s1 c" using b ok t(2,5) by (auto simp: kernel_ok_iff rdy)
  obtain s' c' where s': "OS_Sched s1 = Some s'" "sw_frame s1 s'" "kernel_ok s' c'"
    "if unlocked s1 then highest_runs s' else s' = s1 \<and> c' = c"
    using OS_Sched_base [OF b] by blast
  show ?thesis
  proof (cases b)
    case True
    then show ?thesis using s' wake [OF s'(2)] by (auto simp: scheduled_def t(5))
  next
    case False
    have "sw_frame s1 s1" by simp
    with False k1 wake show ?thesis by auto
  qed
qed

lemma OSFlagPost_ok:
  assumes ok: "kernel_ok s c" and fl: "flag_lists s F" and g: "g < OS_MAX_FLAGS"
  shows "let new = (if opt = OS_FLAG_CLR then OSFlagFlags (OSFlagTbl s g) AND NOT flags else OSFlagFlags (OSFlagTbl s g) OR flags);
      yes = (\<lambda>t. node_sat new (OSFlagNodes s t)); T = {t \<in> set (F g). yes t}
    in if OSFlagType (OSFlagTbl s g) \<noteq> OS_EVENT_TYPE_FLAG then OSFlagPost g flags opt s = Some (0, OS_ERR_EVENT_TYPE, s)
    else if opt \<noteq> OS_FLAG_CLR \<and> opt \<noteq> OS_FLAG_SET then OSFlagPost g flags opt s = Some (0, OS_ERR_FLAG_INVALID_OPT, s)
    else \<exists>s' c'. OSFlagPost g flags opt s = Some (new, OS_ERR_NONE, s') \<and> kernel_ok s' c' \<and>
      flag_lists s' (F(g := filter (\<lambda>t. \<not> yes t) (F g))) \<and> OSFlagFlags (OSFlagTbl s' g) = new \<and>
      flags_wake s T (\<lambda>t. node_got new (OSFlagNodes s t)) OS_STAT_PEND_OK s' \<and>
      (if \<exists>t \<in> T. \<not> susp (OSTCBTbl s t) then scheduled s s' else c' = c)"
proof -
  define new where "new = (if opt = OS_FLAG_CLR then OSFlagFlags (OSFlagTbl s g) AND NOT flags else OSFlagFlags (OSFlagTbl s g) OR flags)"
  define yes where "yes = (\<lambda>t. node_sat new (OSFlagNodes s t))"
  define s1 where "s1 = upd_grp g (\<lambda>gr. gr\<lparr>OSFlagFlags := new\<rparr>) s"
  show ?thesis
  proof (cases "OSFlagType (OSFlagTbl s g) = OS_EVENT_TYPE_FLAG \<and> (opt = OS_FLAG_CLR \<or> opt = OS_FLAG_SET)")
    case False
    then show ?thesis using g by (auto simp: OSFlagPost_def flag_grp_def)
  next
    case True
    then have used: "flag_used s g" using g by (simp add: flag_used_def)
    have s1: "flag_lists s1 F" "fl_frame s s1" "OSTCBTbl s1 = OSTCBTbl s" "ready s1 = ready s" "OSFlagNodes s1 = OSFlagNodes s"
      "OSFlagFlags (OSFlagTbl s1 g) = new" "base_ok s1 c"
      using fl base_ok_fl_frame [OF kernel_ok_base [OF ok], of s1] kernel_okD(1) [OF ok]
      by (simp_all add: s1_def flag_lists_upd_flags)
    have "F g = [] @ F g" by simp
    note walk = flag_post_walk_ok [OF s1(7,1) this, of False, unfolded s1(3-6) simp_thms append_Nil]
    obtain s2 where
      s2: "flag_post_walk g (first_of (F g) None) False s1 = Some (True, \<exists>t \<in> set (F g). yes t \<and> \<not> susp (OSTCBTbl s t), s2)"
        "base_ok s2 c" "flag_lists s2 (F(g := filter (\<lambda>t. \<not> yes t) (F g)))" "fl_frame s1 s2" "flag_data s1 s2"
        "OSTCBTbl s2 = (\<lambda>t. if t \<in> set (F g) \<and> yes t then flag_readied (node_got new (OSFlagNodes s t)) OS_STAT_PEND_OK (OSTCBTbl s t)
           else OSTCBTbl s t)"
        "ready s2 = ready s \<union> prio s ` {t \<in> set (F g). yes t \<and> \<not> susp (OSTCBTbl s t)}"
      using walk unfolding yes_def by blast
    let ?b = "\<exists>t \<in> set (F g). yes t \<and> \<not> susp (OSTCBTbl s t)" and ?T = "{t \<in> set (F g). yes t}"
    have T: "{t \<in> ?T. \<not> susp (OSTCBTbl s t)} = {t \<in> set (F g). yes t \<and> \<not> susp (OSTCBTbl s t)}" by auto
    have fr2: "fl_frame s s2" by (rule fl_frame_trans [OF s1(2) s2(4)])
    obtain s' c' where s': "(if ?b then OS_Sched s2 else Some s2) = Some s'" "sw_frame s2 s'" "kernel_ok s' c'"
      "flags_wake s ?T (\<lambda>t. node_got new (OSFlagNodes s t)) OS_STAT_PEND_OK s'" "?b \<longrightarrow> scheduled s s'" "\<not> ?b \<longrightarrow> c' = c"
      using flags_wake_sched [OF ok s2(2) fr2, of ?T "\<lambda>t. node_got new (OSFlagNodes s t)" OS_STAT_PEND_OK ?b] s2(6,7)
      by (auto simp: T)
    have flags': "OSFlagFlags (OSFlagTbl s' g) = new"
      using s2(5) s1(6) by (simp add: sw_frameD [OF s'(2)] flag_data_def)
    have "OSFlagPost g flags opt s = Some (new, OS_ERR_NONE, s')"
      using True g s2(1) s'(1) flags' flag_listsD(1) [OF fl used]
      by (auto simp: OSFlagPost_def flag_grp_def s1_def new_def upd_grp_def split: if_splits)
    moreover have "flag_lists s' (F(g := filter (\<lambda>t. \<not> yes t) (F g)))" by (rule flag_lists_sw [OF s2(3) s'(2)])
    ultimately show ?thesis
      using True s'(3-6) flags' by (auto simp: Let_def new_def [symmetric] yes_def)
  qed
qed


text \<open>C18: \<open>OSFlagPost\<close> on a consistent kernel. A group of another type and an unknown option are
  refused. Otherwise the flags are cleared or set as asked; every task on the group's wait list whose
  condition the new flags satisfy is taken off the list, told the flags it got, and made ready unless it
  is suspended; the others stay on the list in their order and unchanged; nothing else about tasks and
  events changes; if a task became ready the most urgent ready task runs afterwards; the walk over the
  list ends, and the kernel and the lists of all groups are consistent again.\<close>
theorem OSFlagPost_spec:
  assumes ok: "kernel_ok s c" and fl: "flag_lists s F" and g: "g < OS_MAX_FLAGS"
  shows "let new = (if opt = OS_FLAG_CLR then OSFlagFlags (OSFlagTbl s g) AND NOT flags else OSFlagFlags (OSFlagTbl s g) OR flags);
      yes = (\<lambda>t. node_sat new (OSFlagNodes s t)); T = {t \<in> set (F g). yes t}
    in if OSFlagType (OSFlagTbl s g) \<noteq> OS_EVENT_TYPE_FLAG then OSFlagPost g flags opt s = Some (0, OS_ERR_EVENT_TYPE, s)
    else if opt \<noteq> OS_FLAG_CLR \<and> opt \<noteq> OS_FLAG_SET then OSFlagPost g flags opt s = Some (0, OS_ERR_FLAG_INVALID_OPT, s)
    else \<exists>s' c'. OSFlagPost g flags opt s = Some (new, OS_ERR_NONE, s') \<and> kernel_ok s' c' \<and>
      flag_lists s' (F(g := filter (\<lambda>t. \<not> yes t) (F g))) \<and> OSFlagFlags (OSFlagTbl s' g) = new \<and>
      flags_wake s T (\<lambda>t. node_got new (OSFlagNodes s t)) OS_STAT_PEND_OK s' \<and>
      (if \<exists>t \<in> T. \<not> susp (OSTCBTbl s t) then scheduled s s' else c' = c)"
  by (rule OSFlagPost_ok [OF assms])

subsection \<open>Pending\<close>

text \<open>The running task is in its own code: neither waiting nor on a flag list.\<close>

definition may_wait_flag :: "os \<Rightarrow> nat \<Rightarrow> bool" where
  "may_wait_flag s c \<longleftrightarrow> may_block s c \<and> OSTCBStat (OSTCBTbl s c) = OS_STAT_RDY \<and> OSTCBFlagNode (OSTCBTbl s c) = None"

definition flag_blocked :: "nat \<Rightarrow> u32 \<Rightarrow> os_tcb \<Rightarrow> os_tcb" where
  "flag_blocked c timeout k = k\<lparr>OSTCBStat := OSTCBStat k OR OS_STAT_FLAG, OSTCBStatPend := OS_STAT_PEND_OK,
     OSTCBDly := timeout, OSTCBFlagNode := Some c\<rparr>"

text \<open>The nodes after a new one has been put before the list \<open>xs\<close> of the group \<open>g\<close>.\<close>

definition push_node :: "nat \<Rightarrow> nat \<Rightarrow> u16 \<Rightarrow> u8 \<Rightarrow> nat list \<Rightarrow> (nat \<Rightarrow> os_flag_node) \<Rightarrow> nat \<Rightarrow> os_flag_node" where
  "push_node c g msk wt xs nds k =
     (if k = c then \<lparr>OSFlagNodeNext = first_of xs None, OSFlagNodePrev = None, OSFlagNodeTCB = c, OSFlagNodeFlagGrp = g,
        OSFlagNodeFlags = msk, OSFlagNodeWaitType = wt\<rparr>
      else if first_of xs None = Some k then (nds k)\<lparr>OSFlagNodePrev := Some c\<rparr> else nds k)"

lemma flag_lists_push:
  assumes fl: "flag_lists s F" and u: "flag_used s g" and wt: "wt \<le> 3" and c: "act s c" "OSTCBFlagNode (OSTCBTbl s c) = None"
    and acts: "\<And>t. act s1 t = act s t" and tb: "OSTCBTbl s1 = (OSTCBTbl s)(c := b)" and wf: "waits_flag c b"
    and tbl1: "OSFlagTbl s1 = (OSFlagTbl s)(g := (OSFlagTbl s g)\<lparr>OSFlagWaitList := WNode c\<rparr>)"
      "OSFlagNodes s1 = push_node c g msk wt (F g) (OSFlagNodes s)" "OSFlagFreeList s1 = OSFlagFreeList s"
  shows "flag_lists s1 (F(g := c # F g))"
proof -
  have notin: "c \<notin> set (F h)" for h
    using flag_lists_waiter [OF fl, of c h] c(2) by (auto simp: flag_waiter_def waits_flag_def)
  have waiter: "flag_waiter s1 h m" if "m \<in> set (F h)" for h m
    using flag_lists_waiter [OF fl that] notin [of h] that
    by (auto simp: flag_waiter_def acts tbl1 push_node_def tb)
  have here: "wait_list s1 g (c # F g)"
  proof -
    have "linked (OSFlagNodes s1) None (c # F g) None"
    proof (rule dlinked_front [OF flag_listsD(2) [OF fl u] notin flag_listsD(3) [OF fl u]])
      fix k assume "k \<in> set (F g)"
      then have "k \<noteq> c" using notin [of g] by blast
      then show "OSFlagNodeNext (OSFlagNodes s1 k) = OSFlagNodeNext (OSFlagNodes s k)"
        "OSFlagNodePrev (OSFlagNodes s1 k) = (if first_of (F g) None = Some k then Some c else OSFlagNodePrev (OSFlagNodes s k))"
        by (simp_all add: tbl1 push_node_def)
    qed (simp_all add: tbl1 push_node_def)
    moreover have "flag_waiter s1 g c"
      using c(1) wt wf by (simp add: flag_waiter_def acts tbl1 push_node_def tb)
    ultimately show ?thesis
      using flag_listsD(3) [OF fl u] notin [of g] waiter by (auto simp: wait_list_def tbl1(1) wptr_of_def)
  qed
  have there: "wait_list s1 h (F h)" if "flag_used s h" "h \<noteq> g" for h
  proof -
    have wl: "wait_list s h (F h)" using fl that by (simp add: flag_lists_def)
    have "k \<noteq> c \<and> first_of (F g) None \<noteq> Some k" if "k \<in> set (F h)" for k
    proof -
      have "k \<notin> set (F g)" using flag_lists_disjoint [OF fl that] \<open>h \<noteq> g\<close> by blast
      moreover have "k \<noteq> c" using notin [of h] that by blast
      ultimately show ?thesis by (auto dest: first_of_mem)
    qed
    then have "linked (OSFlagNodes s1) None (F h) None = linked (OSFlagNodes s) None (F h) None"
      by (intro dlinked_cong) (auto simp: tbl1 push_node_def)
    with wl waiter that show ?thesis by (auto simp: wait_list_def tbl1(1))
  qed
  have used: "flag_used s1 h = flag_used s h" for h by (simp add: flag_used_def tbl1)
  obtain gs where gs: "free_groups s gs" using fl by (auto simp: flag_lists_def)
  have "g \<notin> set gs" using gs u by (simp add: free_groups_def flag_used_def)
  then have "grp_seg (OSFlagTbl s1) (OSFlagFreeList s) gs = grp_seg (OSFlagTbl s) (OSFlagFreeList s) gs"
    by (intro grp_seg_cong) (auto simp: tbl1)
  moreover have "OSFlagType (OSFlagTbl s1 h) = OSFlagType (OSFlagTbl s h)" for h by (simp add: tbl1)
  ultimately have fg: "free_groups s1 gs" using gs by (simp add: free_groups_def tbl1(3))
  have onlist: "\<exists>h. t \<in> set ((F(g := c # F g)) h)" if "act s1 t" "OSTCBFlagNode (OSTCBTbl s1 t) \<noteq> None" for t
  proof (cases "t = c")
    case False
    then have "OSTCBFlagNode (OSTCBTbl s t) \<noteq> None" "act s t" using that by (simp_all add: tb acts)
    then obtain h where "t \<in> set (F h)" using fl unfolding flag_lists_def by blast
    then show ?thesis by (intro exI [of _ h]) auto
  qed (auto intro: exI [of _ g])
  show ?thesis
    unfolding flag_lists_def used using here there fl u onlist fg by (auto simp: flag_lists_def)
qed

lemma OS_FlagBlock_ok:
  assumes ok: "base_ok s c" and rdy: "prio s c \<in> ready s" and mb: "may_wait_flag s c"
    and fl: "flag_lists s F" and u: "flag_used s g" and wt: "wt \<le> 3"
  shows "\<exists>s1. OS_FlagBlock g msk wt timeout s = Some s1 \<and> base_ok s1 c \<and> fl_frame s s1 \<and> flag_lists s1 (F(g := c # F g)) \<and>
    OSTCBTbl s1 = (OSTCBTbl s)(c := flag_blocked c timeout (OSTCBTbl s c)) \<and> ready s1 = ready s - {prio s c} \<and>
    (\<forall>h. OSFlagFlags (OSFlagTbl s1 h) = OSFlagFlags (OSFlagTbl s h) \<and> OSFlagType (OSFlagTbl s1 h) = OSFlagType (OSFlagTbl s h)) \<and>
    OSFlagNodeFlags (OSFlagNodes s1 c) = msk \<and> OSFlagNodeWaitType (OSFlagNodes s1 c) = wt"
proof -
  let ?c = "OSTCBTbl s c"
  note d = base_okD [OF ok]
  have free: "no_refs ?c" "prio s c \<noteq> OS_TASK_IDLE_PRIO" "OSTCBStat ?c = 0" "OSTCBFlagNode ?c = None"
    using mb by (simp_all add: may_wait_flag_def may_block_def)
  have tok: "task_ok s c" using d(1,5) by (rule sched_invD(6))
  note tokD = task_okD [OF tok]
  have nw: "prio s c \<notin> waiters s e" for e
    using free(1) not_waiting [OF tok] by (simp add: no_refs_def)
  let ?nds = "push_node c g msk wt (F g) (OSFlagNodes s)"
  have nds: "?nds = (let nds = (OSFlagNodes s)(c := \<lparr>OSFlagNodeNext = first_of (F g) None, OSFlagNodePrev = None, OSFlagNodeTCB = c,
       OSFlagNodeFlagGrp = g, OSFlagNodeFlags = msk, OSFlagNodeWaitType = wt\<rparr>)
     in case first_of (F g) None of None \<Rightarrow> nds | Some m \<Rightarrow> nds(m := (nds m)\<lparr>OSFlagNodePrev := Some c\<rparr>))"
    using flag_lists_waiter [OF fl, of c g] free(4)
    by (cases "F g") (auto simp: fun_eq_iff push_node_def Let_def flag_waiter_def waits_flag_def)
  define s0 where "s0 = upd_tcb c (flag_blocked c timeout) s"
  define s1 where "s1 = rdy_del c (s0\<lparr>OSFlagNodes := ?nds, OSFlagTbl := (OSFlagTbl s)(g := (OSFlagTbl s g)\<lparr>OSFlagWaitList := WNode c\<rparr>)\<rparr>)"
  have eval: "OS_FlagBlock g msk wt timeout s = Some s1"
    using u nds by (cases "F g") (simp_all add: OS_FlagBlock_def d(7) flag_grp_def flag_used_def flag_listsD(1) [OF fl u]
        s1_def s0_def flag_blocked_def upd_node_def upd_grp_def upd_tcb_def Let_def)
  have fr0: "fl_frame s s0" by (simp add: s0_def flag_blocked_def link_view_def prio_view_def)
  have fr: "fl_frame s s1" using fr0 by (simp add: s1_def)
  have tb: "OSTCBTbl s1 = (OSTCBTbl s)(c := flag_blocked c timeout ?c)" by (simp add: s1_def s0_def)
  have pok: "tcb_prio_ok (OSTCBTbl s1 c)" "prio s1 c = prio s c"
    using tokD(1) by (simp_all add: tb flag_blocked_def tcb_prio_ok_def)
  have r1: "ready s1 = ready s - {prio s c}"
    using pok by (simp add: s1_def ready_rdy_del tb s0_def flag_blocked_def tcb_prio_ok_def)
  have "sched_inv s1"
  proof (rule sched_inv_change [OF d(1,5)])
    show "task_ok s1 c"
      using pok free nw fl_frame_tcb(4) [OF fr]
      by (simp add: task_ok_def Let_def r1 tb flag_blocked_def tcb_prio_ok_def rdy_cond_def runnable_def susp_def pend_def multi_def
          evt_refs_def no_refs_def)
    have p0: "tcb_prio_ok (OSTCBTbl (s0\<lparr>OSFlagNodes := ?nds, OSFlagTbl := T\<rparr>) c)" for T
      using pok(1) by (simp add: tb s0_def)
    show "bm_ok (rdy_bm s1)"
      unfolding s1_def by (rule bm_ok_rdy_del [OF p0]) (use sched_invD(1) [OF d(1)] in \<open>simp add: s0_def rdy_bm_def upd_tcb_def\<close>)
    show "prio_view (OSTCBTbl s1 c) = prio_view ?c" by (simp add: tb flag_blocked_def prio_view_def)
  qed (use free in \<open>simp_all add: r1 tb sched_invD(2) [OF d(1)] fl_frameD [OF fr] fl_frame_tcb(4) [OF fr]\<close>)
  then have ok1: "base_ok s1 c" by (rule base_ok_fl_frame [OF ok _ fr])
  have tbl1: "OSFlagTbl s1 = (OSFlagTbl s)(g := (OSFlagTbl s g)\<lparr>OSFlagWaitList := WNode c\<rparr>)" "OSFlagNodes s1 = ?nds"
    "OSFlagFreeList s1 = OSFlagFreeList s" by (simp_all add: s1_def s0_def)
  have "waits_flag c (flag_blocked c timeout ?c)" using free by (simp add: waits_flag_def flag_blocked_def pend_def no_refs_def)
  then have "flag_lists s1 (F(g := c # F g))"
    by (intro flag_lists_push [OF fl u wt d(5) free(4) _ tb _ tbl1]) (simp_all add: fl_frame_tcb(3) [OF fr])
  then show ?thesis
    using eval ok1 fr tb r1 by (intro exI [of _ s1]) (simp add: tbl1 push_node_def)
qed


lemma consume_type: "(if wait_type AND OS_FLAG_CONSUME \<noteq> 0 then wait_type AND NOT OS_FLAG_CONSUME else wait_type) =
    wait_type AND NOT OS_FLAG_CONSUME" for wait_type :: u8
  unfolding u8_eq_iff all_less_8 by (auto simp: u8_eq_0_iff all_less_8 bit_and_iff bit_not_iff)

text \<open>\<open>s\<close> with the flags \<open>found\<close> taken from group \<open>g\<close>, when asked to consume, and told to task \<open>c\<close>.\<close>

definition flags_taken :: "os \<Rightarrow> nat \<Rightarrow> nat \<Rightarrow> u8 \<Rightarrow> u16 \<Rightarrow> os" where
  "flags_taken s c g wait_type found = upd_tcb c (\<lambda>k. k\<lparr>OSTCBFlagsRdy := found\<rparr>)
     (if wait_type AND OS_FLAG_CONSUME \<noteq> 0
      then upd_grp g (\<lambda>gr. gr\<lparr>OSFlagFlags := flag_consume (wait_type AND NOT OS_FLAG_CONSUME) found (OSFlagFlags gr)\<rparr>) s else s)"

lemma flags_taken_ok:
  assumes ok: "kernel_ok s c" and fl: "flag_lists s F"
  shows "kernel_ok (flags_taken s c g wt found) c" "flag_lists (flags_taken s c g wt found) F"
proof -
  define s1 where "s1 = (if wt AND OS_FLAG_CONSUME \<noteq> 0
      then upd_grp g (\<lambda>gr. gr\<lparr>OSFlagFlags := flag_consume (wt AND NOT OS_FLAG_CONSUME) found (OSFlagFlags gr)\<rparr>) s else s)"
  have s1: "sched_inv s1" "fl_frame s s1" "ready s1 = ready s" "flag_lists s1 F" "OSTCBTbl s1 = OSTCBTbl s"
    using kernel_okD(1) [OF ok] fl by (simp_all add: s1_def flag_lists_upd_flags)
  have eq: "flags_taken s c g wt found = upd_tcb c (\<lambda>k. k\<lparr>OSTCBFlagsRdy := found\<rparr>) s1"
    by (simp add: flags_taken_def s1_def)
  show "kernel_ok (flags_taken s c g wt found) c"
    unfolding eq by (rule kernel_ok_fl_frame [OF ok])
      (simp_all add: s1 sched_inv_upd_tcb_view sched_view_def prio_view_def link_view_def)
  show "flag_lists (flags_taken s c g wt found) F"
    unfolding eq by (rule flag_lists_cong [OF s1(4)]) (simp_all add: flag_view_def act_def)
qed

lemma OSFlagPend_ok:
  assumes ok: "kernel_ok s c" and fl: "flag_lists s F" and g: "g < OS_MAX_FLAGS" and mb: "unlocked s \<Longrightarrow> may_wait_flag s c"
  shows "let wt = wait_type AND NOT OS_FLAG_CONSUME; cur = OSFlagFlags (OSFlagTbl s g); found = flags_found wt cur flags
    in if OSIntNesting s > 0 then OSFlagPend g flags wait_type timeout s = Some (Returns (0, OS_ERR_PEND_ISR), s)
    else if OSLockNesting s > 0 then OSFlagPend g flags wait_type timeout s = Some (Returns (0, OS_ERR_PEND_LOCKED), s)
    else if OSFlagType (OSFlagTbl s g) \<noteq> OS_EVENT_TYPE_FLAG
      then OSFlagPend g flags wait_type timeout s = Some (Returns (0, OS_ERR_EVENT_TYPE), s)
    else if wt > 3 then OSFlagPend g flags wait_type timeout s = Some (Returns (0, OS_ERR_FLAG_WAIT_TYPE), s)
    else if flags_hold wt cur flags
      then OSFlagPend g flags wait_type timeout s = Some (Returns (found, OS_ERR_NONE), flags_taken s c g wait_type found) \<and>
        kernel_ok (flags_taken s c g wait_type found) c \<and> flag_lists (flags_taken s c g wait_type found) F
    else \<exists>s' c'. OSFlagPend g flags wait_type timeout s = Some (Blocks, s') \<and> kernel_ok s' c' \<and> highest_runs s' \<and> c' \<noteq> c \<and>
      flag_lists s' (F(g := c # F g)) \<and> OSFlagNodeFlags (OSFlagNodes s' c) = flags \<and> OSFlagNodeWaitType (OSFlagNodes s' c) = wt \<and>
      unlocked s' \<and> (\<forall>h. OSFlagFlags (OSFlagTbl s' h) = OSFlagFlags (OSFlagTbl s h) \<and> OSFlagType (OSFlagTbl s' h) = OSFlagType (OSFlagTbl s h)) \<and>
      (\<forall>t. same_task (if t = c then flag_blocked c timeout (OSTCBTbl s c) else OSTCBTbl s t) (OSTCBTbl s' t)) \<and>
      ready s' = ready s - {prio s c} \<and> OSEvents s' = OSEvents s"
proof -
  define wt where "wt = wait_type AND NOT OS_FLAG_CONSUME"
  let ?cur = "OSFlagFlags (OSFlagTbl s g)"
  note d = kernel_okD [OF ok]
  note eval = OSFlagPend_def [of g flags wait_type timeout s, unfolded Let_def consume_type, folded wt_def]
  show ?thesis
  proof (cases "unlocked s \<and> OSFlagType (OSFlagTbl s g) = OS_EVENT_TYPE_FLAG \<and> wt \<le> 3")
    case False
    then have "\<not> unlocked s \<or> OSFlagType (OSFlagTbl s g) \<noteq> OS_EVENT_TYPE_FLAG \<or> flag_test wt ?cur flags = None \<and> wt > 3"
      by (auto simp: flag_test_eq)
    then show ?thesis
      using g unfolding wt_def [symmetric] eval
      by (auto simp: unlocked_def flag_grp_def word_gt_0 Let_def)
  next
    case True
    then have ul: "OSIntNesting s = 0" "OSLockNesting s = 0" and ty: "OSFlagType (OSFlagTbl s g) = OS_EVENT_TYPE_FLAG" "wt \<le> 3"
      and u: "flag_used s g"
      using g by (simp_all add: unlocked_def flag_used_def)
    have n3: "\<not> 3 < wt" using ty(2) by (simp add: not_less)
    have test: "flag_test wt ?cur flags = Some (flags_found wt ?cur flags, flags_hold wt ?cur flags)"
      using ty(2) by (simp add: flag_test_eq)
    show ?thesis
    proof (cases "flags_hold wt ?cur flags")
      case True
      have "OSFlagPend g flags wait_type timeout s = Some (Returns (flags_found wt ?cur flags, OS_ERR_NONE),
          flags_taken s c g wait_type (flags_found wt ?cur flags))"
        using g ul ty test True d(4,8) by (simp add: eval flag_grp_def flags_taken_def [of s c g wait_type, folded wt_def])
      then show ?thesis
        using ul ty(1) n3 True flags_taken_ok [OF ok fl] unfolding wt_def [symmetric] Let_def by simp
    next
      case False
      have rdy: "prio s c \<in> ready s" using True d(10) by blast
      obtain s1 where s1: "OS_FlagBlock g flags wt timeout s = Some s1" "base_ok s1 c" "fl_frame s s1"
        "flag_lists s1 (F(g := c # F g))" "OSTCBTbl s1 = (OSTCBTbl s)(c := flag_blocked c timeout (OSTCBTbl s c))"
        "ready s1 = ready s - {prio s c}" "\<forall>h. OSFlagFlags (OSFlagTbl s1 h) = OSFlagFlags (OSFlagTbl s h) \<and> OSFlagType (OSFlagTbl s1 h) = OSFlagType (OSFlagTbl s h)"
        "OSFlagNodeFlags (OSFlagNodes s1 c) = flags" "OSFlagNodeWaitType (OSFlagNodes s1 c) = wt"
        using OS_FlagBlock_ok [OF kernel_ok_base [OF ok] rdy mb fl u ty(2)] True by metis
      obtain s' c' where s': "OS_Sched s1 = Some s'" "kernel_ok s' c'" and sw: "sw_frame s1 s'"
        and hr: "if unlocked s1 then highest_runs s' else s' = s1 \<and> c' = c"
        using OS_Sched_base [OF s1(2)] by blast
      note f = sw_frameD [OF sw]
      have ul1: "unlocked s1" "unlocked s'"
        using ul fl_frame_tcb(5) [OF s1(3)] f(4,5) by (simp_all add: unlocked_def)
      have "c' \<noteq> c"
        using kernel_okD(10) [OF s'(2) ul1(2)] sw_frame_prio [OF sw, of c] fl_frame_tcb(2) [OF s1(3), of c] f(18)
        by (auto simp: s1(6))
      moreover have "OSFlagPend g flags wait_type timeout s = Some (Blocks, s')"
        using g ul ty test False s1(1) s'(1) by (simp add: eval flag_grp_def)
      moreover have "flag_lists s' (F(g := c # F g))" by (rule flag_lists_sw [OF s1(4) sw])
      moreover have "same_task (if t = c then flag_blocked c timeout (OSTCBTbl s c) else OSTCBTbl s t) (OSTCBTbl s' t)" for t
        using sw_frame_same [OF sw, of t] by (simp add: s1(5))
      ultimately have "\<exists>s' c'. OSFlagPend g flags wait_type timeout s = Some (Blocks, s') \<and> kernel_ok s' c' \<and> highest_runs s' \<and> c' \<noteq> c \<and>
        flag_lists s' (F(g := c # F g)) \<and> OSFlagNodeFlags (OSFlagNodes s' c) = flags \<and> OSFlagNodeWaitType (OSFlagNodes s' c) = wt \<and>
        unlocked s' \<and> (\<forall>h. OSFlagFlags (OSFlagTbl s' h) = OSFlagFlags (OSFlagTbl s h) \<and> OSFlagType (OSFlagTbl s' h) = OSFlagType (OSFlagTbl s h)) \<and>
        (\<forall>t. same_task (if t = c then flag_blocked c timeout (OSTCBTbl s c) else OSTCBTbl s t) (OSTCBTbl s' t)) \<and>
        ready s' = ready s - {prio s c} \<and> OSEvents s' = OSEvents s"
        using s'(2) hr ul1 s1(6-9) fl_frameD(12) [OF s1(3)]
        by (intro exI [of _ s'] exI [of _ c']) (simp add: f)
      then show ?thesis
        using ul ty(1) n3 False unfolding wt_def [symmetric] Let_def by simp
    qed
  qed
qed


text \<open>C19: \<open>OSFlagPend\<close> up to its call of the scheduler. Inside an interrupt, under the scheduler lock, on
  a group of another type and for an unknown wait type it returns the error and changes nothing. When
  the flags asked for are there it returns them at once, taking them out of the group if asked to
  consume, and changes nothing else. Otherwise the running task goes to the front of the group's wait
  list with its wish and timeout noted, leaves the ready list, and another task, the most urgent one,
  runs; the kernel and the lists of all groups stay consistent.\<close>
theorem OSFlagPend_spec:
  assumes ok: "kernel_ok s c" and fl: "flag_lists s F" and g: "g < OS_MAX_FLAGS" and mb: "unlocked s \<Longrightarrow> may_wait_flag s c"
  shows "let wt = wait_type AND NOT OS_FLAG_CONSUME; cur = OSFlagFlags (OSFlagTbl s g); found = flags_found wt cur flags
    in if OSIntNesting s > 0 then OSFlagPend g flags wait_type timeout s = Some (Returns (0, OS_ERR_PEND_ISR), s)
    else if OSLockNesting s > 0 then OSFlagPend g flags wait_type timeout s = Some (Returns (0, OS_ERR_PEND_LOCKED), s)
    else if OSFlagType (OSFlagTbl s g) \<noteq> OS_EVENT_TYPE_FLAG
      then OSFlagPend g flags wait_type timeout s = Some (Returns (0, OS_ERR_EVENT_TYPE), s)
    else if wt > 3 then OSFlagPend g flags wait_type timeout s = Some (Returns (0, OS_ERR_FLAG_WAIT_TYPE), s)
    else if flags_hold wt cur flags
      then OSFlagPend g flags wait_type timeout s = Some (Returns (found, OS_ERR_NONE), flags_taken s c g wait_type found) \<and>
        kernel_ok (flags_taken s c g wait_type found) c \<and> flag_lists (flags_taken s c g wait_type found) F
    else \<exists>s' c'. OSFlagPend g flags wait_type timeout s = Some (Blocks, s') \<and> kernel_ok s' c' \<and> highest_runs s' \<and> c' \<noteq> c \<and>
      flag_lists s' (F(g := c # F g)) \<and> OSFlagNodeFlags (OSFlagNodes s' c) = flags \<and> OSFlagNodeWaitType (OSFlagNodes s' c) = wt \<and>
      unlocked s' \<and> (\<forall>h. OSFlagFlags (OSFlagTbl s' h) = OSFlagFlags (OSFlagTbl s h) \<and> OSFlagType (OSFlagTbl s' h) = OSFlagType (OSFlagTbl s h)) \<and>
      (\<forall>t. same_task (if t = c then flag_blocked c timeout (OSTCBTbl s c) else OSTCBTbl s t) (OSTCBTbl s' t)) \<and>
      ready s' = ready s - {prio s c} \<and> OSEvents s' = OSEvents s"
  by (rule OSFlagPend_ok [OF assms])

subsection \<open>The task runs again\<close>

lemma flag_lists_running:
  assumes "sched_inv s" "act s c" "prio s c \<in> ready s" "flag_lists s F" "c \<in> set (F g)"
  shows "OSTCBStatPend (OSTCBTbl s c) = OS_STAT_PEND_TO"
proof -
  have "waits_flag c (OSTCBTbl s c)" using flag_lists_waiter [OF assms(4,5)] by (simp add: flag_waiter_def)
  moreover have "\<not> pend (OSTCBTbl s c)"
  proof -
    have "rdy_cond True (OSTCBTbl s c)" using task_okD(2) [OF sched_invD(6) [OF assms(1,2)]] assms(3) by simp
    moreover have "\<not> multi (OSTCBTbl s c)"
      using \<open>waits_flag c (OSTCBTbl s c)\<close> flag_stat_cleared(4) by (simp add: waits_flag_def multi_def)
    ultimately show ?thesis by (simp add: rdy_cond_def runnable_def)
  qed
  ultimately show ?thesis by (simp add: waits_flag_def)
qed

text \<open>\<open>s\<close> with task \<open>c\<close> off the list of flags it waited for, in its own code again.\<close>

lemma flag_timeout_ok:
  assumes ok: "kernel_ok s c" and rdy: "prio s c \<in> ready s" and fl: "flag_lists s F" and F: "F g = xs @ c # ys"
    and tok: "OSTCBStatPend (OSTCBTbl s c) \<noteq> OS_STAT_PEND_OK"
  shows "\<exists>s'. OSFlagPend_resume g0 wait_type s = Some (0, OS_ERR_TIMEOUT, s') \<and> kernel_ok s' c \<and>
    flag_lists s' (F(g := xs @ ys)) \<and> OSTCBTbl s' = (OSTCBTbl s)(c := (OSTCBTbl s c)\<lparr>OSTCBStatPend := OS_STAT_PEND_OK,
      OSTCBFlagNode := None, OSTCBStat := OS_STAT_RDY\<rparr>) \<and> flag_data s s' \<and> ready s' = ready s \<and> fl_frame s s'"
proof -
  note d = kernel_okD [OF ok]
  have in': "c \<in> set (F g)" using F by simp
  have st: "OSTCBStatPend (OSTCBTbl s c) = OS_STAT_PEND_TO" by (rule flag_lists_running [OF d(1,5) rdy fl in'])
  have wf: "waits_flag c (OSTCBTbl s c)" using flag_lists_waiter [OF fl in'] by (simp add: flag_waiter_def)
  have tk: "task_ok s c" using d(1,5) by (rule sched_invD(6))
  have nw: "prio s c \<notin> waiters s e" for e
    using wf not_waiting [OF tk] by (simp add: waits_flag_def no_refs_def)
  define s1 where "s1 = upd_tcb c (\<lambda>c. c\<lparr>OSTCBStatPend := OS_STAT_PEND_OK\<rparr>) s"
  define s2 where "s2 = upd_tcb c (\<lambda>c. c\<lparr>OSTCBFlagNode := None\<rparr>) (s1\<lparr>OSFlagTbl := unlink_tbl g xs ys (OSFlagTbl s1),
     OSFlagNodes := skip_node (last_of xs None) (first_of ys None) (OSFlagNodes s1)\<rparr>)"
  define s3 where "s3 = upd_tcb c (\<lambda>c. c\<lparr>OSTCBStat := OS_STAT_RDY\<rparr>) s2"
  have eval: "OSFlagPend_resume g0 wait_type s = Some (0, OS_ERR_TIMEOUT, s3)"
    using OS_FlagUnlink_eval [OF fl F, of s1] st d(4,8)
    by (simp add: OSFlagPend_resume_def s3_def s2_def s1_def)
  have fr: "fl_frame s s3" by (simp add: s3_def s2_def s1_def link_view_def prio_view_def)
  have tb: "OSTCBTbl s3 = (OSTCBTbl s)(c := (OSTCBTbl s c)\<lparr>OSTCBStatPend := OS_STAT_PEND_OK, OSTCBFlagNode := None,
      OSTCBStat := OS_STAT_RDY\<rparr>)" by (simp add: s3_def s2_def s1_def)
  have r3: "ready s3 = ready s" by (simp add: s3_def s2_def s1_def)
  have inv3: "sched_inv s3"
  proof (rule sched_inv_change [OF d(1,5)])
    show "task_ok s3 c"
      using task_okD(1,2,3,4) [OF tk] rdy nw fl_frame_tcb(4) [OF fr]
      by (simp add: task_ok_def Let_def tb r3 tcb_prio_ok_def rdy_cond_def runnable_def susp_def pend_def multi_def evt_refs_def)
    have "rdy_bm s3 = rdy_bm s" by (simp add: s3_def s2_def s1_def) (simp add: rdy_bm_def upd_tcb_def)
    then show "bm_ok (rdy_bm s3)" using sched_invD(1) [OF d(1)] by simp
  qed (use rdy in \<open>simp_all add: tb r3 sched_invD(2) [OF d(1)] fl_frameD [OF fr] fl_frame_tcb(4) [OF fr] prio_view_def\<close>)
  have "flag_lists s3 (F(g := xs @ ys))"
  proof (rule flag_lists_unlink [OF fl F])
    show "act s3 t = act s t" for t by (rule fl_frame_tcb(3) [OF fr])
  qed (simp_all add: tb, simp_all add: s3_def s2_def s1_def)
  moreover have "flag_data s s3" by (simp add: s3_def s2_def s1_def flag_data_def skip_node_data)
  ultimately show ?thesis
    using eval kernel_ok_fl_frame [OF ok inv3 fr] r3 tb fr by blast
qed

text \<open>\<open>OSFlagPend\<close> from the moment its task runs again. A task that was readied by a post is on no list
  any more; it returns the flags it was told and takes them out of the group if it asked to consume. A
  task whose time is up returns the timeout code and leaves the wait list, from wherever it stands;
  the others keep their order. Either way the kernel and the lists stay consistent.\<close>
theorem OSFlagPend_resume_spec:
  assumes ok: "kernel_ok s c" and rdy: "prio s c \<in> ready s" and fl: "flag_lists s F" and g: "g < OS_MAX_FLAGS"
    and wt: "wait_type AND NOT OS_FLAG_CONSUME \<le> 3"
    and how: "OSTCBStatPend (OSTCBTbl s c) = OS_STAT_PEND_OK \<or> c \<in> set (F g)"
  shows "if OSTCBStatPend (OSTCBTbl s c) = OS_STAT_PEND_OK
    then \<exists>s'. OSFlagPend_resume g wait_type s = Some (OSTCBFlagsRdy (OSTCBTbl s c), OS_ERR_NONE, s') \<and>
      s' = (if wait_type AND OS_FLAG_CONSUME = 0 then s
        else upd_grp g (\<lambda>gr. gr\<lparr>OSFlagFlags := flag_consume (wait_type AND NOT OS_FLAG_CONSUME) (OSTCBFlagsRdy (OSTCBTbl s c))
               (OSFlagFlags gr)\<rparr>) s) \<and>
      kernel_ok s' c \<and> flag_lists s' F \<and> (\<forall>h. c \<notin> set (F h))
    else \<exists>s'. OSFlagPend_resume g wait_type s = Some (0, OS_ERR_TIMEOUT, s') \<and> kernel_ok s' c \<and>
      flag_lists s' (F(g := remove1 c (F g))) \<and> flag_data s s' \<and> ready s' = ready s \<and>
      OSTCBTbl s' = (OSTCBTbl s)(c := (OSTCBTbl s c)\<lparr>OSTCBStatPend := OS_STAT_PEND_OK, OSTCBFlagNode := None, OSTCBStat := OS_STAT_RDY\<rparr>)"
proof (cases "OSTCBStatPend (OSTCBTbl s c) = OS_STAT_PEND_OK")
  case True
  note d = kernel_okD [OF ok]
  have "c \<notin> set (F h)" for h using flag_lists_running [OF d(1,5) rdy fl, of h] True by auto
  moreover have "kernel_ok (upd_grp g (\<lambda>gr. gr\<lparr>OSFlagFlags := x gr\<rparr>) s) c" for x
    by (rule kernel_ok_fl_frame [OF ok]) (simp_all add: d(1))
  ultimately show ?thesis
    using True g wt d(4,8) ok fl flag_lists_upd_flags [OF fl, of g] unfolding OSFlagPend_resume_def Let_def consume_type
    by (auto simp: flag_grp_def)
next
  case False
  then have in': "c \<in> set (F g)" using how by blast
  then obtain xs ys where F: "F g = xs @ c # ys" by (meson split_list)
  have "distinct (F g)" using flag_listsD(3) [OF fl flag_lists_used [OF fl in']] .
  then have "remove1 c (F g) = xs @ ys" using F by (simp add: remove1_append)
  with False flag_timeout_ok [OF ok rdy fl F False, of g wait_type] show ?thesis by auto
qed


subsection \<open>Deleting a group\<close>

lemma flag_abort_all_ok:
  assumes "base_ok s c" and "flag_lists s F"
  shows "\<exists>s'. flag_abort_all (first_of (F g) None) s = Some s' \<and> base_ok s' c \<and>
    flag_lists s' (F(g := [])) \<and> fl_frame s s' \<and> flag_data s s' \<and>
    OSTCBTbl s' = (\<lambda>t. if t \<in> set (F g) then flag_readied 0 OS_STAT_PEND_ABORT (OSTCBTbl s t) else OSTCBTbl s t) \<and>
    ready s' = ready s \<union> prio s ` {t \<in> set (F g). \<not> susp (OSTCBTbl s t)} \<and>
    (\<forall>t. F g = [t] \<longrightarrow> OSFlagNodes s' t = OSFlagNodes s t)"
  using assms
proof (induction "F g" arbitrary: s F)
  case Nil
  then have "F(g := []) = F" by (metis fun_upd_triv)
  with Nil show ?case by (simp add: flag_abort_all.simps)
next
  case (Cons n ys)
  note ok = Cons.prems(1) and fl = Cons.prems(2)
  have F: "F g = [] @ n # ys" using Cons.hyps(2) by simp
  then have in': "n \<in> set (F g)" by simp
  note w = flag_lists_waiter [OF fl in'] and u = flag_lists_used [OF fl in']
  have dist: "n \<notin> set ys" using flag_listsD(3) [OF fl u] F by simp
  obtain s1 where s1: "OS_FlagTaskRdy n 0 OS_STAT_PEND_ABORT s = Some (\<not> susp (OSTCBTbl s n), s1)" "base_ok s1 c"
      "flag_lists s1 (F(g := [] @ ys))" "fl_frame s s1" "flag_data s s1"
      "OSTCBTbl s1 = (OSTCBTbl s)(n := flag_readied 0 OS_STAT_PEND_ABORT (OSTCBTbl s n))"
      "ready s1 = (if susp (OSTCBTbl s n) then ready s else insert (prio s n) (ready s))"
      "OSFlagNodeNext (OSFlagNodes s1 n) = first_of ys None"
      "OSFlagNodes s1 = skip_node (last_of [] None) (first_of ys None) (OSFlagNodes s)"
    using OS_FlagTaskRdy_ok [OF ok fl F] by blast
  have F1: "ys = (F(g := [] @ ys)) g" by simp
  obtain s' where s': "flag_abort_all (first_of ys None) s1 = Some s'" "base_ok s' c" "flag_lists s' ((F(g := [] @ ys))(g := []))"
      "fl_frame s1 s'" "flag_data s1 s'"
      "OSTCBTbl s' = (\<lambda>t. if t \<in> set ys then flag_readied 0 OS_STAT_PEND_ABORT (OSTCBTbl s1 t) else OSTCBTbl s1 t)"
      "ready s' = ready s1 \<union> prio s1 ` {t \<in> set ys. \<not> susp (OSTCBTbl s1 t)}"
    using Cons.hyps(1) [OF F1 s1(2,3)] unfolding F1 [symmetric] by blast
  have Fg: "F g = n # ys" using F by simp
  have tb1: "OSTCBTbl s1 t = OSTCBTbl s t" if "t \<in> set ys" for t using that dist by (auto simp: s1(6))
  have eqs: "{t \<in> set ys. \<not> susp (OSTCBTbl s1 t)} = {t \<in> set ys. \<not> susp (OSTCBTbl s t)}" using tb1 by auto
  have pr: "prio s1 t = prio s t" for t by (rule fl_frame_tcb(2) [OF s1(4)])
  have walk: "flag_abort_all (first_of (F g) None) s = Some s'"
    unfolding Fg by (subst flag_abort_all.simps) (simp add: s1(1,8) s'(1))
  have nodes: "OSFlagNodes s' t = OSFlagNodes s t" if "F g = [t]" for t
  proof -
    have "ys = []" using that Fg by simp
    then show ?thesis using s'(1) s1(9) by (simp add: flag_abort_all.simps skip_node_def)
  qed
  have "OSTCBTbl s' = (\<lambda>t. if t \<in> set (F g) then flag_readied 0 OS_STAT_PEND_ABORT (OSTCBTbl s t) else OSTCBTbl s t)"
    using dist by (auto simp: s'(6) s1(6) Fg)
  moreover have "ready s' = ready s \<union> prio s ` {t \<in> set (F g). \<not> susp (OSTCBTbl s t)}"
    unfolding s'(7) eqs pr s1(7) Fg by auto
  moreover have "flag_lists s' (F(g := []))" using s'(3) by simp
  ultimately show ?case
    using walk s'(2) fl_frame_trans [OF s1(4) s'(4)] flag_data_trans [OF s1(5) s'(5)] nodes by blast
qed


lemma flag_release_ok:
  assumes fl: "flag_lists s F" and u: "flag_used s g" and F: "F g = []"
  shows "flag_lists (flag_release g s) F"
proof -
  let ?s = "flag_release g s"
  have sel: "OSFlagNodes ?s = OSFlagNodes s" "OSTCBTbl ?s = OSTCBTbl s" "OSTCBPrioTbl ?s = OSTCBPrioTbl s"
    "OSFlagFreeList ?s = WGrp g" "\<And>h. h \<noteq> g \<Longrightarrow> OSFlagTbl ?s h = OSFlagTbl s h"
    "OSFlagType (OSFlagTbl ?s g) = OS_EVENT_TYPE_UNUSED" "OSFlagWaitList (OSFlagTbl ?s g) = OSFlagFreeList s"
    by (simp_all add: flag_release_def upd_grp_def)
  have used: "flag_used ?s h \<longleftrightarrow> flag_used s h \<and> h \<noteq> g" for h
    using sel(5) [of h] sel(6) by (cases "h = g") (auto simp: flag_used_def)
  have acts: "act ?s t = act s t" for t by (simp add: act_def sel)
  have "flag_waiter ?s h n = flag_waiter s h n" for h n by (simp add: flag_waiter_def sel acts)
  then have wl: "wait_list ?s h ns = wait_list s h ns" if "h \<noteq> g" for h ns using that by (simp add: wait_list_def sel)
  obtain gs where gs: "free_groups s gs" using fl by (auto simp: flag_lists_def)
  have notin: "g \<notin> set gs" using gs u by (simp add: free_groups_def flag_used_def)
  then have "grp_seg (OSFlagTbl ?s) (OSFlagFreeList s) gs = grp_seg (OSFlagTbl s) (OSFlagFreeList s) gs"
    by (intro grp_seg_cong) (metis sel(5))
  moreover have "{h. h < OS_MAX_FLAGS \<and> OSFlagType (OSFlagTbl ?s h) \<noteq> OS_EVENT_TYPE_FLAG} =
      insert g {h. h < OS_MAX_FLAGS \<and> OSFlagType (OSFlagTbl s h) \<noteq> OS_EVENT_TYPE_FLAG}"
  proof (intro set_eqI)
    show "h \<in> {h. h < OS_MAX_FLAGS \<and> OSFlagType (OSFlagTbl ?s h) \<noteq> OS_EVENT_TYPE_FLAG} \<longleftrightarrow>
      h \<in> insert g {h. h < OS_MAX_FLAGS \<and> OSFlagType (OSFlagTbl s h) \<noteq> OS_EVENT_TYPE_FLAG}" for h
      using u sel(5) [of h] sel(6) by (cases "h = g") (auto simp: flag_used_def)
  qed
  moreover have "g < OS_MAX_FLAGS" using u by (simp add: flag_used_def)
  ultimately have "free_groups ?s (g # gs)"
    using gs notin unfolding free_groups_def by (simp only: grp_seg.simps sel set_simps distinct.simps simp_thms)
  then show ?thesis
    using fl F unfolding flag_lists_def used acts sel(2)
    by (metis wl)
qed

lemma kernel_ok_flag_release:
  assumes "kernel_ok s c"
  shows "kernel_ok (flag_release g s) c"
proof (rule kernel_ok_fl_frame [OF assms])
  show "sched_inv (flag_release g s)" using kernel_okD(1) [OF assms] by (simp add: flag_release_def)
qed (simp_all add: flag_release_def)

lemma OSFlagDel_ok:
  assumes ok: "kernel_ok s c" and fl: "flag_lists s F" and u: "flag_used s g"
  shows "if OSIntNesting s > 0 then OSFlagDel g opt s = Some (Some g, OS_ERR_DEL_ISR, s)
    else if opt \<noteq> OS_DEL_NO_PEND \<and> opt \<noteq> OS_DEL_ALWAYS then OSFlagDel g opt s = Some (Some g, OS_ERR_INVALID_OPT, s)
    else if opt = OS_DEL_NO_PEND \<and> F g \<noteq> [] then OSFlagDel g opt s = Some (Some g, OS_ERR_TASK_WAITING, s)
    else \<exists>s' c'. OSFlagDel g opt s = Some (None, OS_ERR_NONE, s') \<and> kernel_ok s' c' \<and> flag_lists s' (F(g := [])) \<and>
      \<not> flag_used s' g \<and> OSFlagFreeList s' = WGrp g \<and> OSFlagWaitList (OSFlagTbl s' g) = OSFlagFreeList s \<and>
      flags_wake s (set (F g)) (\<lambda>_. 0) OS_STAT_PEND_ABORT s' \<and>
      (if F g = [] then c' = c else scheduled s s') \<and> (\<forall>t. F g = [t] \<longrightarrow> OSFlagNodes s' t = OSFlagNodes s t) \<and>
      (\<forall>h. h \<noteq> g \<longrightarrow> OSFlagType (OSFlagTbl s' h) = OSFlagType (OSFlagTbl s h) \<and>
         OSFlagFlags (OSFlagTbl s' h) = OSFlagFlags (OSFlagTbl s h))"
proof -
  have g: "g < OS_MAX_FLAGS" "OSFlagType (OSFlagTbl s g) = OS_EVENT_TYPE_FLAG" using u by (simp_all add: flag_used_def)
  note wl = flag_listsD(1) [OF fl u]
  have wait: "(OSFlagWaitList (OSFlagTbl s g) \<noteq> WNull) = (F g \<noteq> [])" by (simp add: wl)
  show ?thesis
  proof (cases "OSIntNesting s > 0 \<or> (opt \<noteq> OS_DEL_NO_PEND \<and> opt \<noteq> OS_DEL_ALWAYS) \<or> (opt = OS_DEL_NO_PEND \<and> F g \<noteq> [])")
    case True
    then show ?thesis using g wait by (auto simp: OSFlagDel_def flag_grp_def Let_def)
  next
    case False
    obtain s1 where s1: "flag_abort_all (first_of (F g) None) s = Some s1" "base_ok s1 c" "flag_lists s1 (F(g := []))"
      "fl_frame s s1" "flag_data s s1"
      "OSTCBTbl s1 = (\<lambda>t. if t \<in> set (F g) then flag_readied 0 OS_STAT_PEND_ABORT (OSTCBTbl s t) else OSTCBTbl s t)"
      "ready s1 = ready s \<union> prio s ` {t \<in> set (F g). \<not> susp (OSTCBTbl s t)}"
      "\<forall>t. F g = [t] \<longrightarrow> OSFlagNodes s1 t = OSFlagNodes s t"
      using flag_abort_all_ok [OF kernel_ok_base [OF ok] fl, of g] by blast
    define s2 where "s2 = flag_release g s1"
    have u1: "flag_used s1 g" using u s1(5) by (simp add: flag_used_def flag_data_def)
    have fl2: "flag_lists s2 (F(g := []))" unfolding s2_def by (rule flag_release_ok [OF s1(3) u1]) simp
    have fr2: "fl_frame s s2" using s1(4) by (simp add: s2_def flag_release_def)
    have s2: "OSTCBTbl s2 = OSTCBTbl s1" "ready s2 = ready s1" "OSFlagNodes s2 = OSFlagNodes s1" "sched_inv s2 = sched_inv s1"
      "OSFlagFreeList s2 = WGrp g" "OSFlagWaitList (OSFlagTbl s2 g) = OSFlagFreeList s" "\<not> flag_used s2 g"
      "\<And>h. h \<noteq> g \<Longrightarrow> OSFlagType (OSFlagTbl s2 h) = OSFlagType (OSFlagTbl s h) \<and> OSFlagFlags (OSFlagTbl s2 h) = OSFlagFlags (OSFlagTbl s h)"
      using s1(5) by (simp_all add: s2_def flag_release_def flag_used_def flag_data_def upd_grp_def)
    have b2: "base_ok s2 c" by (rule base_ok_fl_frame [OF kernel_ok_base [OF ok] _ fr2]) (use base_okD(1) [OF s1(2)] in \<open>simp add: s2\<close>)
    obtain s' c' where s': "(if F g \<noteq> [] then OS_Sched s2 else Some s2) = Some s'" "sw_frame s2 s'" "kernel_ok s' c'"
      "flags_wake s (set (F g)) (\<lambda>_. 0) OS_STAT_PEND_ABORT s'" "F g \<noteq> [] \<longrightarrow> scheduled s s'" "\<not> F g \<noteq> [] \<longrightarrow> c' = c"
      using flags_wake_sched [OF ok b2 fr2, of "set (F g)" "\<lambda>_. 0" OS_STAT_PEND_ABORT "F g \<noteq> []"]
      unfolding s2(1,2) s1(6,7) by blast
    note f = sw_frameD [OF s'(2)]
    have "OSFlagDel g opt s = Some (None, OS_ERR_NONE, s')"
    proof (cases "opt = OS_DEL_NO_PEND")
      case True
      then have nil: "F g = []" using False by blast
      then have "s1 = s" using s1(1) by (simp add: flag_abort_all.simps)
      then show ?thesis
        using True False g wait s'(1) nil by (simp add: OSFlagDel_def flag_grp_def s2_def word_gt_0)
    next
      case ne: False
      then show ?thesis
        using False g wait s'(1) s1(1) wl by (auto simp: OSFlagDel_def flag_grp_def s2_def word_gt_0 Let_def)
    qed
    moreover have "flag_lists s' (F(g := []))" by (rule flag_lists_sw [OF fl2 s'(2)])
    moreover have "\<not> flag_used s' g" using s2(7) by (simp add: flag_used_def f)
    ultimately have "\<exists>s' c'. OSFlagDel g opt s = Some (None, OS_ERR_NONE, s') \<and> kernel_ok s' c' \<and> flag_lists s' (F(g := [])) \<and>
      \<not> flag_used s' g \<and> OSFlagFreeList s' = WGrp g \<and> OSFlagWaitList (OSFlagTbl s' g) = OSFlagFreeList s \<and>
      flags_wake s (set (F g)) (\<lambda>_. 0) OS_STAT_PEND_ABORT s' \<and>
      (if F g = [] then c' = c else scheduled s s') \<and> (\<forall>t. F g = [t] \<longrightarrow> OSFlagNodes s' t = OSFlagNodes s t) \<and>
      (\<forall>h. h \<noteq> g \<longrightarrow> OSFlagType (OSFlagTbl s' h) = OSFlagType (OSFlagTbl s h) \<and>
         OSFlagFlags (OSFlagTbl s' h) = OSFlagFlags (OSFlagTbl s h))"
      using s'(3-6) s2(5,6,8) s2(3) s1(8) by (intro exI [of _ s'] exI [of _ c']) (simp add: f)
    then show ?thesis using False by auto
  qed
qed


text \<open>\<open>OSFlagDel\<close> on a group in use. Inside an interrupt, with an unknown option, or with tasks waiting and
  without the order to delete always, it refuses and changes nothing. Otherwise every waiter is taken off
  the list and, unless suspended, made ready with the status of an aborted wait, the group becomes the
  first free one, if tasks waited the most urgent ready task runs, and the loop over the waiters ends;
  kernel, wait lists and free list are consistent.\<close>
theorem OSFlagDel_spec:
  assumes ok: "kernel_ok s c" and fl: "flag_lists s F" and u: "flag_used s g"
  shows "if OSIntNesting s > 0 then OSFlagDel g opt s = Some (Some g, OS_ERR_DEL_ISR, s)
    else if opt \<noteq> OS_DEL_NO_PEND \<and> opt \<noteq> OS_DEL_ALWAYS then OSFlagDel g opt s = Some (Some g, OS_ERR_INVALID_OPT, s)
    else if opt = OS_DEL_NO_PEND \<and> F g \<noteq> [] then OSFlagDel g opt s = Some (Some g, OS_ERR_TASK_WAITING, s)
    else \<exists>s' c'. OSFlagDel g opt s = Some (None, OS_ERR_NONE, s') \<and> kernel_ok s' c' \<and> flag_lists s' (F(g := [])) \<and>
      \<not> flag_used s' g \<and> OSFlagFreeList s' = WGrp g \<and> OSFlagWaitList (OSFlagTbl s' g) = OSFlagFreeList s \<and>
      flags_wake s (set (F g)) (\<lambda>_. 0) OS_STAT_PEND_ABORT s' \<and>
      (if F g = [] then c' = c else scheduled s s') \<and> (\<forall>t. F g = [t] \<longrightarrow> OSFlagNodes s' t = OSFlagNodes s t) \<and>
      (\<forall>h. h \<noteq> g \<longrightarrow> OSFlagType (OSFlagTbl s' h) = OSFlagType (OSFlagTbl s h) \<and>
         OSFlagFlags (OSFlagTbl s' h) = OSFlagFlags (OSFlagTbl s h))"
  by (rule OSFlagDel_ok [OF assms])

lemma abort_loses_groups:
  assumes ok: "kernel_ok s c" and ul: "unlocked s" and fl: "flag_lists s F" and u: "flag_used s g" and F: "F g = [t]"
    and ns: "\<not> susp (OSTCBTbl s t)" and urgent: "\<And>p. p \<in> ready s \<Longrightarrow> prio s t < p" and h: "h < OS_MAX_FLAGS" "OSFlagType (OSFlagTbl s h) \<noteq> OS_EVENT_TYPE_FLAG"
  shows "\<exists>s1 s2. OSFlagDel g OS_DEL_ALWAYS s = Some (None, OS_ERR_NONE, s1) \<and> OSTCBCur s1 = TPtr t \<and>
    (\<exists>gs. free_groups s1 gs \<and> h \<in> set gs) \<and>
    OSFlagPend_resume g wait_type s1 = Some (0, OS_ERR_PEND_ABORT, s2) \<and>
    OSFlagFreeList s2 = WGrp g \<and> OSFlagWaitList (OSFlagTbl s2 g) = WNull \<and> (\<nexists>gs. free_groups s2 gs)"
proof -
  have i0: "OSIntNesting s = 0" using ul by (simp add: unlocked_def)
  obtain s1 c' where s1: "OSFlagDel g OS_DEL_ALWAYS s = Some (None, OS_ERR_NONE, s1)" "kernel_ok s1 c'" "flag_lists s1 (F(g := []))"
      "\<not> flag_used s1 g" "OSFlagFreeList s1 = WGrp g" "flags_wake s {t} (\<lambda>_. 0) OS_STAT_PEND_ABORT s1" "scheduled s s1"
      "OSFlagNodes s1 t = OSFlagNodes s t" "h \<noteq> g \<longrightarrow> OSFlagType (OSFlagTbl s1 h) = OSFlagType (OSFlagTbl s h)"
    using OSFlagDel_ok [OF ok fl u, of OS_DEL_ALWAYS] i0 F by auto
  have w: "flag_waiter s g t" using flag_lists_waiter [OF fl, of t g] F by simp
  have lk: "linked (OSFlagNodes s) None [t] None" using flag_listsD(2) [OF fl u] F by simp
  have nd: "OSFlagNodePrev (OSFlagNodes s1 t) = None" "OSFlagNodeNext (OSFlagNodes s1 t) = None" "OSFlagNodeTCB (OSFlagNodes s1 t) = t"
    "OSFlagNodeFlagGrp (OSFlagNodes s1 t) = g" and act: "act s t"
    using lk w by (simp_all add: s1(8) flag_waiter_def)
  have tt: "same_task (flag_readied 0 OS_STAT_PEND_ABORT (OSTCBTbl s t)) (OSTCBTbl s1 t)"
    using s1(6) unfolding flags_wake_def by (auto dest: spec [of _ t])
  have pt: "prio s1 t = prio s t" "OSTCBStatPend (OSTCBTbl s1 t) = OS_STAT_PEND_ABORT"
    using same_taskD(4,10) [OF tt] by (simp_all add: flag_readied_def)
  have acts1: "act s1 t" using act pt(1) s1(6) by (simp add: act_def flags_wake_def)
  have "{x \<in> {t}. \<not> susp (OSTCBTbl s x)} = {t}" using ns by auto
  then have rdy: "ready s1 = insert (prio s t) (ready s)" using s1(6) by (simp add: flags_wake_def)
  have t22: "t < OS_MAX_TCBS" using act by (simp add: act_def)
  have cur: "OSTCBCur s1 = TPtr t"
  proof -
    have "highest_runs s1" using s1(7) ul by (simp add: scheduled_def)
    then obtain x where x: "cur_ok s1 x" "prio s1 x \<in> ready s1" "\<forall>p \<in> ready s1. prio s1 x \<le> p"
      unfolding highest_runs_def by blast
    then have "prio s1 x \<le> prio s t" by (simp add: rdy)
    then have "prio s1 x = prio s t" using x(2) urgent [of "prio s1 x"] by (auto simp: rdy)
    then have "x = t" using x(1) acts1 pt(1) act_prio_inj [of s1 x t] by (simp add: cur_ok_def)
    then show ?thesis using x(1) by (simp add: cur_ok_def)
  qed
  obtain gs where gs: "free_groups s1 gs" using s1(3) by (auto simp: flag_lists_def)
  have ty1: "OSFlagType (OSFlagTbl s1 h) \<noteq> OS_EVENT_TYPE_FLAG" "h \<noteq> g" and g: "g < OS_MAX_FLAGS"
    using h(2) u s1(9) by (auto simp: flag_used_def)
  have g1: "OSFlagFreeList s1 = WGrp g" by (rule s1(5))
  obtain gs where gs: "free_groups s1 gs" "h \<in> set gs"
    using s1(3) h(1) ty1(1) by (auto simp: flag_lists_def free_groups_def)
  define s2 where "s2 = upd_tcb t (\<lambda>c. c\<lparr>OSTCBStat := OS_STAT_RDY\<rparr>) (upd_tcb t (\<lambda>c. c\<lparr>OSTCBFlagNode := None\<rparr>)
     (upd_grp g (\<lambda>gr. gr\<lparr>OSFlagWaitList := WNull\<rparr>) (upd_tcb t (\<lambda>c. c\<lparr>OSTCBStatPend := OS_STAT_PEND_OK\<rparr>) s1)))"
  have res: "OSFlagPend_resume g wait_type s1 = Some (0, OS_ERR_PEND_ABORT, s2)"
    using t22 g by (simp add: OSFlagPend_resume_def cur pt(2) OS_FlagUnlink_def nd s2_def wptr_of_def)
  have s2: "OSFlagFreeList s2 = WGrp g" "OSFlagWaitList (OSFlagTbl s2 g) = WNull" "OSFlagType (OSFlagTbl s2 h) = OSFlagType (OSFlagTbl s1 h)"
    using ty1(2) by (simp_all add: s2_def g1)
  have "\<nexists>gs. free_groups s2 gs"
  proof
    assume "\<exists>gs. free_groups s2 gs"
    then obtain gs where f: "free_groups s2 gs" by blast
    then have "h \<in> set gs" using h(1) ty1(1) s2(3) by (simp add: free_groups_def)
    moreover have "set gs \<subseteq> {g}"
    proof (cases gs)
      case (Cons x xs)
      then have "xs = []" using f s2(1,2) by (cases xs) (auto simp: free_groups_def)
      then show ?thesis using Cons f s2(1) by (simp add: free_groups_def)
    qed simp
    ultimately show False using ty1(2) by blast
  qed
  then show ?thesis using s1(1) cur gs res s2(1,2) by blast
qed


text \<open>C20: A defect of \<open>OSFlagDel\<close> with \<open>OS_DEL_ALWAYS\<close>. Suppose the only waiter of the group is more urgent than
  every ready task, so that it runs as soon as the group is deleted. Deleting links the group in front of
  the free list, on which every other unused group still is. But the waiter, which the deletion has
  unlinked already, unlinks its node a second time in \<open>OSFlagPend\<close> and so overwrites the link of the deleted
  group: all the other unused groups are lost from the free list.\<close>
theorem OSFlagDel_abort_loses_groups:
  assumes ok: "kernel_ok s c" and ul: "unlocked s" and fl: "flag_lists s F" and u: "flag_used s g" and F: "F g = [t]"
    and ns: "\<not> susp (OSTCBTbl s t)" and urgent: "\<And>p. p \<in> ready s \<Longrightarrow> prio s t < p" and h: "h < OS_MAX_FLAGS" "OSFlagType (OSFlagTbl s h) \<noteq> OS_EVENT_TYPE_FLAG"
  shows "\<exists>s1 s2. OSFlagDel g OS_DEL_ALWAYS s = Some (None, OS_ERR_NONE, s1) \<and> OSTCBCur s1 = TPtr t \<and>
    (\<exists>gs. free_groups s1 gs \<and> h \<in> set gs) \<and>
    OSFlagPend_resume g wait_type s1 = Some (0, OS_ERR_PEND_ABORT, s2) \<and>
    OSFlagFreeList s2 = WGrp g \<and> OSFlagWaitList (OSFlagTbl s2 g) = WNull \<and> (\<nexists>gs. free_groups s2 gs)"
  by (rule abort_loses_groups [OF assms])

subsection \<open>Creating a group\<close>

lemma OSFlagCreate_ok:
  assumes ok: "kernel_ok s c" and fl: "flag_lists s F"
  shows "OSIntNesting s > 0 \<Longrightarrow> OSFlagCreate flags s = Some (None, OS_ERR_CREATE_ISR, s)"
    and "OSIntNesting s = 0 \<Longrightarrow> \<forall>g < OS_MAX_FLAGS. flag_used s g \<Longrightarrow>
      OSFlagCreate flags s = Some (None, OS_ERR_FLAG_GRP_DEPLETED, s)"
    and "OSIntNesting s = 0 \<Longrightarrow> g < OS_MAX_FLAGS \<Longrightarrow> \<not> flag_used s g \<Longrightarrow>
      \<exists>n s'. OSFlagCreate flags s = Some (Some n, OS_ERR_NONE, s') \<and> \<not> flag_used s n \<and> flag_used s' n \<and>
        kernel_ok s' c \<and> flag_lists s' F \<and> OSFlagFlags (OSFlagTbl s' n) = flags \<and> OSTCBTbl s' = OSTCBTbl s \<and>
        ready s' = ready s \<and> fl_frame s s' \<and> OSFlagFreeList s = WGrp n \<and> (\<forall>h. h \<noteq> n \<longrightarrow> OSFlagTbl s' h = OSFlagTbl s h)"
proof -
  obtain gs where gs: "free_groups s gs" using fl by (auto simp: flag_lists_def)
  then have set_gs: "set gs = {g. g < OS_MAX_FLAGS \<and> \<not> flag_used s g}"
    by (auto simp: free_groups_def flag_used_def)
  show "OSIntNesting s > 0 \<Longrightarrow> OSFlagCreate flags s = Some (None, OS_ERR_CREATE_ISR, s)"
    by (simp add: OSFlagCreate_def)
  show "OSFlagCreate flags s = Some (None, OS_ERR_FLAG_GRP_DEPLETED, s)"
    if "OSIntNesting s = 0" "\<forall>g < OS_MAX_FLAGS. flag_used s g"
  proof -
    have "set gs = {}" using that(2) by (auto simp: set_gs)
    then show ?thesis using gs that(1) by (simp add: OSFlagCreate_def free_groups_def)
  qed
  assume i: "OSIntNesting s = 0" and g: "g < OS_MAX_FLAGS" "\<not> flag_used s g"
  then have "g \<in> set gs" unfolding set_gs by simp
  then have "gs \<noteq> []" by (cases gs) simp_all
  then obtain n ns where cons: "gs = n # ns" by (cases gs) auto
  have n: "OSFlagFreeList s = WGrp n" "n < OS_MAX_FLAGS" "grp_seg (OSFlagTbl s) (OSFlagWaitList (OSFlagTbl s n)) ns" "n \<notin> set ns"
    "distinct ns" and nu: "\<not> flag_used s n"
    using gs cons set_gs by (auto simp: free_groups_def)
  define s' where "s' = upd_grp n (\<lambda>gr. gr\<lparr>OSFlagType := OS_EVENT_TYPE_FLAG, OSFlagFlags := flags, OSFlagWaitList := WNull,
     OSFlagName := ''?''\<rparr>) (s\<lparr>OSFlagFreeList := OSFlagWaitList (OSFlagTbl s n)\<rparr>)"
  have sel: "OSFlagNodes s' = OSFlagNodes s" "OSTCBTbl s' = OSTCBTbl s" "OSTCBPrioTbl s' = OSTCBPrioTbl s"
    "OSFlagFreeList s' = OSFlagWaitList (OSFlagTbl s n)" "\<And>h. h \<noteq> n \<Longrightarrow> OSFlagTbl s' h = OSFlagTbl s h"
    "OSFlagType (OSFlagTbl s' n) = OS_EVENT_TYPE_FLAG" "OSFlagWaitList (OSFlagTbl s' n) = WNull"
    "OSFlagFlags (OSFlagTbl s' n) = flags" "sched_inv s' = sched_inv s" "fl_frame s s'" "ready s' = ready s"
    by (simp_all add: s'_def) (simp add: upd_grp_def)
  have eval: "OSFlagCreate flags s = Some (Some n, OS_ERR_NONE, s')"
    using i n by (simp add: OSFlagCreate_def flag_grp_def s'_def)
  have used: "flag_used s' h \<longleftrightarrow> flag_used s h \<or> h = n" for h
    using sel(5) [of h] sel(6) n(2) by (cases "h = n") (auto simp: flag_used_def)
  have acts: "act s' t = act s t" for t by (simp add: act_def sel)
  have "flag_waiter s' h m = flag_waiter s h m" for h m by (simp add: flag_waiter_def sel acts)
  then have wl: "wait_list s' h ms = wait_list s h ms" if "h \<noteq> n" for h ms using that by (simp add: wait_list_def sel)
  have Fn: "F n = []" using fl nu by (simp add: flag_lists_def)
  then have wln: "wait_list s' n (F n)" by (simp add: wait_list_def sel wptr_of_def)
  have "grp_seg (OSFlagTbl s') (OSFlagFreeList s') ns"
  proof -
    have "grp_seg (OSFlagTbl s') p ns = grp_seg (OSFlagTbl s) p ns" for p
    proof (rule grp_seg_cong)
      fix h assume "h \<in> set ns"
      then have "h \<noteq> n" using n(4) by blast
      then show "OSFlagWaitList (OSFlagTbl s' h) = OSFlagWaitList (OSFlagTbl s h)" by (simp add: sel(5))
    qed
    then show ?thesis using n(3) by (simp add: sel(4))
  qed
  moreover have "set ns = {h. h < OS_MAX_FLAGS \<and> OSFlagType (OSFlagTbl s' h) \<noteq> OS_EVENT_TYPE_FLAG}"
  proof -
    have "set ns = set gs - {n}" using n(4) by (simp add: cons)
    also have "\<dots> = {h. h < OS_MAX_FLAGS \<and> \<not> flag_used s' h}" unfolding set_gs used by blast
    finally show ?thesis by (simp add: flag_used_def cong: conj_cong)
  qed
  ultimately have "free_groups s' ns" using n(5) by (simp add: free_groups_def)
  then have "flag_lists s' F"
  proof -
    have "wait_list s' h (F h)" if "flag_used s h \<or> h = n" for h
      using that fl wl [of h "F h"] wln by (cases "h = n") (simp_all add: flag_lists_def)
    with \<open>free_groups s' ns\<close> show ?thesis
      using fl unfolding flag_lists_def used acts sel(2) by blast
  qed
  moreover have "kernel_ok s' c"
    by (rule kernel_ok_fl_frame [OF ok]) (use kernel_okD(1) [OF ok] in \<open>simp_all add: sel\<close>)
  ultimately show "\<exists>n s'. OSFlagCreate flags s = Some (Some n, OS_ERR_NONE, s') \<and> \<not> flag_used s n \<and> flag_used s' n \<and>
        kernel_ok s' c \<and> flag_lists s' F \<and> OSFlagFlags (OSFlagTbl s' n) = flags \<and> OSTCBTbl s' = OSTCBTbl s \<and>
        ready s' = ready s \<and> fl_frame s s' \<and> OSFlagFreeList s = WGrp n \<and> (\<forall>h. h \<noteq> n \<longrightarrow> OSFlagTbl s' h = OSFlagTbl s h)"
    using eval nu used sel(2,5,8,10,11) n(1) by (intro exI [of _ n] exI [of _ s']) simp
qed


subsection \<open>The services at a concrete state\<close>

text \<open>From the sample state: a group is created, and task 1 waits for its flags 0 and 2.\<close>

definition flag_sample0 :: os where
  "flag_sample0 = snd (snd (the (OSFlagCreate 0 sample)))"

definition flag_sample1 :: os where
  "flag_sample1 = snd (the (OSFlagPend 0 5 OS_FLAG_WAIT_SET_ALL 100 flag_sample0))"

lemma sample_flag_sel [simp]:
  "OSFlagFreeList sample = WGrp 0" "OSFlagType (OSFlagTbl sample g) = OS_EVENT_TYPE_UNUSED"
  "OSFlagWaitList (OSFlagTbl sample g) = (if g < 4 then WGrp (g + 1) else WNull)"
  by (simp_all add: sample_def)

lemma sample_flag_node: "OSTCBFlagNode (sample_tasks t) = None"
  by (simp add: sample_tasks_def sample_tcb_def tcb_zero_def)

lemma sample_flag_lists: "flag_lists sample (\<lambda>_. [])"
proof -
  have "free_groups sample [0, 1, 2, 3, 4]"
    by (auto simp: free_groups_def less_5)
  then show ?thesis by (auto simp: flag_lists_def flag_used_def sample_flag_node)
qed

lemma flag_sample0:
  "OSFlagCreate 0 sample = Some (Some 0, OS_ERR_NONE, flag_sample0)" "kernel_ok flag_sample0 1"
  "flag_lists flag_sample0 (\<lambda>_. [])" "flag_used flag_sample0 0" "OSFlagFlags (OSFlagTbl flag_sample0 0) = 0"
  "unlocked flag_sample0" "may_wait_flag flag_sample0 1" "OSTCBTbl flag_sample0 = sample_tasks" "ready flag_sample0 = {10, 20, 63}"
  "h \<noteq> 0 \<Longrightarrow> OSFlagType (OSFlagTbl flag_sample0 h) = OS_EVENT_TYPE_UNUSED"
proof -
  have "\<not> flag_used sample 0" by (simp add: flag_used_def)
  then obtain n s' where r: "OSFlagCreate 0 sample = Some (Some n, OS_ERR_NONE, s')" "flag_used s' n" "kernel_ok s' 1"
    "flag_lists s' (\<lambda>_. [])" "OSFlagFlags (OSFlagTbl s' n) = 0" "OSTCBTbl s' = OSTCBTbl sample" "ready s' = ready sample"
    "fl_frame sample s'" "OSFlagFreeList sample = WGrp n" "\<forall>h. h \<noteq> n \<longrightarrow> OSFlagTbl s' h = OSFlagTbl sample h"
    using OSFlagCreate_ok(3) [OF sample_kernel_ok sample_flag_lists, of 0 0] by auto
  then have n: "n = 0" and s': "flag_sample0 = s'" by (simp_all add: flag_sample0_def)
  show "OSFlagCreate 0 sample = Some (Some 0, OS_ERR_NONE, flag_sample0)" "kernel_ok flag_sample0 1"
    "flag_lists flag_sample0 (\<lambda>_. [])" "flag_used flag_sample0 0" "OSFlagFlags (OSFlagTbl flag_sample0 0) = 0"
    "OSTCBTbl flag_sample0 = sample_tasks" "ready flag_sample0 = {10, 20, 63}"
    "h \<noteq> 0 \<Longrightarrow> OSFlagType (OSFlagTbl flag_sample0 h) = OS_EVENT_TYPE_UNUSED"
    using r n by (simp_all add: s' sample_ready)
  show ul: "unlocked flag_sample0" using fl_frameD(4,5) [OF r(8)] by (simp add: s' unlocked_def)
  show "may_wait_flag flag_sample0 1"
    using ul r(6) sample_current sample_flag_node [of 1]
    by (simp add: may_wait_flag_def may_block_def s') (simp add: sample_tasks_def sample_tcb_def tcb_zero_def)
qed

lemma flag_sample1:
  "OSFlagPend 0 5 OS_FLAG_WAIT_SET_ALL 100 flag_sample0 = Some (Blocks, flag_sample1)" "\<exists>c. kernel_ok flag_sample1 c"
  "flag_lists flag_sample1 ((\<lambda>_. [])(0 := [1]))" "OSFlagFlags (OSFlagTbl flag_sample1 0) = 0"
  "OSFlagNodeFlags (OSFlagNodes flag_sample1 1) = 5" "OSFlagNodeWaitType (OSFlagNodes flag_sample1 1) = OS_FLAG_WAIT_SET_ALL"
  "unlocked flag_sample1" "ready flag_sample1 = {20, 63}" "OSFlagType (OSFlagTbl flag_sample1 h) = OSFlagType (OSFlagTbl flag_sample0 h)"
  "OSTCBPrio (OSTCBTbl flag_sample1 1) = 10" "\<not> susp (OSTCBTbl flag_sample1 1)"
proof -
  have i: "OSIntNesting flag_sample0 = 0" "OSLockNesting flag_sample0 = 0" using flag_sample0(6) by (simp_all add: unlocked_def)
  have h: "\<not> flags_hold 2 0 5" by (auto simp: flags_hold_def Let_def intro!: exI [of _ 0])
  have wt: "(2::u8) AND NOT OS_FLAG_CONSUME = 2" by simp
  have p: "prio flag_sample0 1 = 10" by (simp add: flag_sample0(8) sample_tasks_def sample_tcb_def)
  obtain s' c' where r: "OSFlagPend 0 5 OS_FLAG_WAIT_SET_ALL 100 flag_sample0 = Some (Blocks, s')" "kernel_ok s' c'"
    "flag_lists s' ((\<lambda>_. [])(0 := [1]))" "OSFlagNodeFlags (OSFlagNodes s' 1) = 5" "OSFlagNodeWaitType (OSFlagNodes s' 1) = 2" "unlocked s'"
    "\<forall>h. OSFlagFlags (OSFlagTbl s' h) = OSFlagFlags (OSFlagTbl flag_sample0 h) \<and> OSFlagType (OSFlagTbl s' h) = OSFlagType (OSFlagTbl flag_sample0 h)"
    "same_task (flag_blocked 1 100 (OSTCBTbl flag_sample0 1)) (OSTCBTbl s' 1)" "ready s' = ready flag_sample0 - {10}"
    using OSFlagPend_ok [OF flag_sample0(2,3), of 0 "OS_FLAG_WAIT_SET_ALL" 5 100] flag_sample0(4,5,7) i h p
    unfolding Let_def wt flag_sample0(5) flag_used_def by (auto dest: spec [of _ 1])
  have s': "flag_sample1 = s'" using r(1) by (simp add: flag_sample1_def)
  note st = same_taskD(3,10) [OF r(8)]
  show "OSFlagPend 0 5 OS_FLAG_WAIT_SET_ALL 100 flag_sample0 = Some (Blocks, flag_sample1)" "\<exists>c. kernel_ok flag_sample1 c"
    "flag_lists flag_sample1 ((\<lambda>_. [])(0 := [1]))" "OSFlagFlags (OSFlagTbl flag_sample1 0) = 0"
    "OSFlagNodeFlags (OSFlagNodes flag_sample1 1) = 5" "OSFlagNodeWaitType (OSFlagNodes flag_sample1 1) = OS_FLAG_WAIT_SET_ALL"
    "unlocked flag_sample1" "OSFlagType (OSFlagTbl flag_sample1 h) = OSFlagType (OSFlagTbl flag_sample0 h)"
    using r flag_sample0(5) by (auto simp: s')
  show "ready flag_sample1 = {20, 63}" using r(9) by (auto simp: s' flag_sample0(9))
  show "OSTCBPrio (OSTCBTbl flag_sample1 1) = 10" using st(2) p by (simp add: s' flag_blocked_def)
  show "\<not> susp (OSTCBTbl flag_sample1 1)"
    using st(1) by (simp add: s' susp_def flag_blocked_def flag_sample0(8)) (simp add: sample_tasks_def sample_tcb_def tcb_zero_def)
qed

lemma flag_sample1_used: "flag_used flag_sample1 0"
  using flag_sample1(9) [of 0] flag_sample0(4) by (simp add: flag_used_def)

theorem OSFlagPend_spec_witness:
  "\<exists>s'. OSFlagPend 0 5 OS_FLAG_WAIT_SET_ALL 100 flag_sample0 = Some (Blocks, s') \<and> flag_lists s' ((\<lambda>_. [])(0 := [1]))"
proof -
  have i: "OSIntNesting flag_sample0 = 0" "OSLockNesting flag_sample0 = 0" using flag_sample0(6) by (simp_all add: unlocked_def)
  have h: "\<not> flags_hold 2 0 5" by (auto simp: flags_hold_def Let_def intro!: exI [of _ 0])
  have wt: "(2::u8) AND NOT OS_FLAG_CONSUME = 2" by simp
  show ?thesis
    using OSFlagPend_spec [OF flag_sample0(2,3), of 0 "OS_FLAG_WAIT_SET_ALL" 5 100] flag_sample0(4,7) i h
    unfolding Let_def wt flag_sample0(5) flag_used_def by auto
qed

theorem OSFlagPost_spec_witness:
  "\<exists>s' c'. OSFlagPost 0 5 OS_FLAG_SET flag_sample1 = Some (5, OS_ERR_NONE, s') \<and> kernel_ok s' c' \<and> flag_lists s' (\<lambda>_. [])"
proof -
  obtain c where c: "kernel_ok flag_sample1 c" using flag_sample1(2) by blast
  have "node_sat 5 (OSFlagNodes flag_sample1 1)"
    unfolding node_sat_def flag_sample1(5,6) by (simp add: flags_hold_def)
  moreover have "((\<lambda>_. [])(0 := [1]))(0 := []) = (\<lambda>_::nat. [] :: nat list)" by auto
  moreover have "OSFlagType (OSFlagTbl flag_sample1 0) = OS_EVENT_TYPE_FLAG" using flag_sample1_used by (simp add: flag_used_def)
  ultimately show ?thesis
    using OSFlagPost_spec [OF c flag_sample1(3), of 0 OS_FLAG_SET 5] unfolding Let_def flag_sample1(4) by auto
qed

theorem OSFlagPend_resume_spec_witness:
  "\<exists>s'. OSFlagPend_resume 0 OS_FLAG_WAIT_SET_ANY flag_sample0 = Some (0, OS_ERR_NONE, s') \<and> kernel_ok s' 1"
proof -
  have "OSTCBStatPend (OSTCBTbl flag_sample0 1) = OS_STAT_PEND_OK" "OSTCBFlagsRdy (OSTCBTbl flag_sample0 1) = 0"
    "prio flag_sample0 1 \<in> ready flag_sample0"
    by (simp_all add: flag_sample0(8,9), simp_all add: sample_tasks_def sample_tcb_def tcb_zero_def)
  then show ?thesis
    using OSFlagPend_resume_spec [OF flag_sample0(2) _ flag_sample0(3), of 0 OS_FLAG_WAIT_SET_ANY] by auto
qed

theorem OSFlagDel_spec_witness:
  "OSFlagDel 0 OS_DEL_NO_PEND flag_sample1 = Some (Some 0, OS_ERR_TASK_WAITING, flag_sample1)"
proof -
  obtain c where c: "kernel_ok flag_sample1 c" using flag_sample1(2) by blast
  have "OSIntNesting flag_sample1 = 0" using flag_sample1(7) by (simp add: unlocked_def)
  then show ?thesis using OSFlagDel_spec [OF c flag_sample1(3) flag_sample1_used, of OS_DEL_NO_PEND] by simp
qed

theorem OSFlagDel_abort_loses_groups_witness:
  "\<exists>s1 s2. OSFlagDel 0 OS_DEL_ALWAYS flag_sample1 = Some (None, OS_ERR_NONE, s1) \<and> OSTCBCur s1 = TPtr 1 \<and>
    OSFlagPend_resume 0 OS_FLAG_WAIT_SET_ALL s1 = Some (0, OS_ERR_PEND_ABORT, s2) \<and> (\<nexists>gs. free_groups s2 gs)"
proof -
  obtain c where c: "kernel_ok flag_sample1 c" using flag_sample1(2) by blast
  have "prio flag_sample1 1 < p" if "p \<in> ready flag_sample1" for p
    using that flag_sample1(8,10) by auto
  moreover have "OSFlagType (OSFlagTbl flag_sample1 3) \<noteq> OS_EVENT_TYPE_FLAG" using flag_sample1(9) [of 3] flag_sample0(10) [of 3] by simp
  ultimately show ?thesis
    using OSFlagDel_abort_loses_groups [OF c flag_sample1(7,3) flag_sample1_used, of 1 3 OS_FLAG_WAIT_SET_ALL] flag_sample1(11)
    by simp blast
qed

end
