(* ===== verification/OS_Mutex_Proofs.thy ===== *)
theory OS_Mutex_Proofs
  imports OS_Sample OS_Frame
begin

text \<open>
  The priority ceiling protocol of \<open>OS_Mutex\<close>. \<open>moved\<close> is a change of one task's priority with its
  bits in the ready list and the wait lists, which keeps the kernel's invariant when no other task has
  the new priority. On top of it: taking, waiting for (and raising the owner of), releasing and handing
  over a mutex, and what goes wrong when a mutex is deleted while its owner is raised.
\<close>

subsection \<open>Moving a task to another priority\<close>

definition reprio :: "u8 \<Rightarrow> os_tcb \<Rightarrow> os_tcb" where
  "reprio pr c = c\<lparr>OSTCBPrio := pr, OSTCBY := drop_bit 3 pr, OSTCBX := pr AND 7, OSTCBBitY := shl1 (drop_bit 3 pr),
     OSTCBBitX := shl1 (pr AND 7)\<rparr>"

lemma reprio_abs:
  "(\<lambda>c. c\<lparr>OSTCBPrio := pr, OSTCBY := drop_bit 3 pr, OSTCBX := pr AND 7, OSTCBBitY := shl1 (drop_bit 3 pr),
     OSTCBBitX := shl1 (pr AND 7)\<rparr>) = reprio pr"
  by (simp add: reprio_def fun_eq_iff)

lemma reprio_sel [simp]:
  "OSTCBPrio (reprio pr c) = pr" "OSTCBStat (reprio pr c) = OSTCBStat c" "OSTCBStatPend (reprio pr c) = OSTCBStatPend c"
  "OSTCBDly (reprio pr c) = OSTCBDly c" "OSTCBEventPtr (reprio pr c) = OSTCBEventPtr c"
  "OSTCBEventMultiPtr (reprio pr c) = OSTCBEventMultiPtr c" "OSTCBNext (reprio pr c) = OSTCBNext c"
  "OSTCBPrev (reprio pr c) = OSTCBPrev c" "OSTCBMsg (reprio pr c) = OSTCBMsg c"
  by (simp_all add: reprio_def)

lemma reprio_conds [simp]:
  "rdy_cond r (reprio pr c) = rdy_cond r c" "wait_cond r m (reprio pr c) = wait_cond r m c" "evt_refs (reprio pr c) = evt_refs c"
  "susp (reprio pr c) = susp c" "no_refs (reprio pr c) = no_refs c"
  by (simp_all add: rdy_cond_def wait_cond_def evt_refs_def susp_def multi_def runnable_def pend_def no_refs_def)

lemma tcb_prio_ok_reprio: "pr < 64 \<Longrightarrow> tcb_prio_ok (reprio pr c)"
  by (simp add: tcb_prio_ok_def reprio_def)

definition swap_prio :: "u8 \<Rightarrow> u8 \<Rightarrow> u8 set \<Rightarrow> u8 set" where
  "swap_prio p q A = (if p \<in> A then insert q (A - {p}) else A)"

lemma swap_prio_empty [simp]: "swap_prio p q A = {} \<longleftrightarrow> A = {}" "swap_prio p q {} = {}"
  by (auto simp: swap_prio_def)

definition moved :: "os \<Rightarrow> nat \<Rightarrow> u8 \<Rightarrow> os \<Rightarrow> bool" where
  "moved s t pr s' \<longleftrightarrow>
     OSTCBTbl s' = (OSTCBTbl s)(t := reprio pr (OSTCBTbl s t)) \<and> OSTCBPrioTbl s' = (OSTCBPrioTbl s)(pr := TPtr t) \<and>
     ready s' = swap_prio (prio s t) pr (ready s) \<and> (\<forall>i. waiters s' i = swap_prio (prio s t) pr (waiters s i)) \<and>
     bm_ok (rdy_bm s') \<and> (\<forall>i. bm_ok (evt_bm (OSEvents s' i))) \<and>
     (\<forall>i. evt_rest (OSEvents s' i) = evt_rest (OSEvents s i)) \<and>
     OSTCBCur s' = OSTCBCur s \<and> OSTCBList s' = OSTCBList s \<and> OSTCBFreeList s' = OSTCBFreeList s \<and>
     OSEventFreeList s' = OSEventFreeList s \<and> OSQTbl s' = OSQTbl s \<and> OSQFreeList s' = OSQFreeList s \<and>
     OSIntNesting s' = OSIntNesting s \<and> OSLockNesting s' = OSLockNesting s \<and> OSTime s' = OSTime s \<and> OSMsgMem s' = OSMsgMem s"

text \<open>The new priority is nobody else's.\<close>

definition slot_free :: "os \<Rightarrow> nat \<Rightarrow> u8 \<Rightarrow> bool" where
  "slot_free s t pr \<longleftrightarrow> pr < 64 \<and> (\<forall>u. OSTCBPrioTbl s pr = TPtr u \<longrightarrow> u = t)"

lemma slot_free_other: "slot_free s t pr \<Longrightarrow> act s u \<Longrightarrow> u \<noteq> t \<Longrightarrow> prio s u \<noteq> pr"
  by (auto simp: slot_free_def act_def)

lemma evt_restD:
  assumes "evt_rest ev' = evt_rest ev"
  shows "OSEventType ev' = OSEventType ev" "OSEventCnt ev' = OSEventCnt ev" "OSEventPtr ev' = OSEventPtr ev"
  using arg_cong [OF assms, of OSEventType] arg_cong [OF assms, of OSEventCnt] arg_cong [OF assms, of OSEventPtr]
  by (simp_all add: evt_rest_def)

lemma moved_act:
  assumes inv: "sched_inv s" and t: "act s t" and sl: "slot_free s t pr" and m: "moved s t pr s'"
  shows "act s' u \<longleftrightarrow> act s u"
proof (cases "u = t")
  case True
  then show ?thesis using t sl m by (simp add: moved_def act_def slot_free_def)
next
  case False
  then have "act s u \<Longrightarrow> prio s u \<noteq> pr" using slot_free_other [OF sl] by blast
  then show ?thesis using False m by (auto simp: moved_def act_def)
qed

lemma moved_sched_inv:
  assumes inv: "sched_inv s" and t: "act s t" and sl: "slot_free s t pr" and m: "moved s t pr s'" and ni: "prio s t \<noteq> OS_TASK_IDLE_PRIO"
  shows "sched_inv s'"
proof -
  note act = moved_act [OF inv t sl m]
  have pr: "pr < 64" using sl by (simp add: slot_free_def)
  have prio: "prio s' u = (if u = t then pr else prio s u)" for u using m by (simp add: moved_def)
  have noth: "p = pr \<longrightarrow> pr = prio s t" if "\<exists>u. act s u \<and> prio s u = p" for p
    using that slot_free_other [OF sl] by blast
  have sets: "ready s' = swap_prio (prio s t) pr (ready s)" "waiters s' i = swap_prio (prio s t) pr (waiters s i)" for i
    using m by (simp_all add: moved_def)
  have ex: "\<exists>u. act s' u \<and> prio s' u = p" if "p = pr \<or> (p \<noteq> prio s t \<and> (\<exists>u. act s u \<and> prio s u = p))" for p
    using that t by (metis act prio)
  have mem: "prio s' u \<in> swap_prio (prio s t) pr A \<longleftrightarrow> prio s u \<in> A"
    if "act s u" "\<forall>p \<in> A. \<exists>u. act s u \<and> prio s u = p" for u A
  proof (cases "u = t")
    case True
    then show ?thesis using that(2) noth [of pr] by (auto simp: swap_prio_def prio)
  next
    case False
    then have "prio s u \<noteq> prio s t" "prio s u \<noteq> pr"
      using act_prio_inj [OF that(1) t] slot_free_other [OF sl that(1)] by blast+
    then show ?thesis using False by (simp add: swap_prio_def prio)
  qed
  have "evt_rest (OSEvents s' i) = evt_rest (OSEvents s i)" for i using m by (simp add: moved_def)
  from evt_restD(1) [OF this] have em: "emask s' i = emask s i" for i by simp
  show ?thesis
  proof (rule sched_invI)
    show "bm_ok (rdy_bm s')" "bm_ok (evt_bm (OSEvents s' e))" for e using m by (simp_all add: moved_def)
    show "act s' u" if "p < 64" "OSTCBPrioTbl s' p = TPtr u" for p u
      using that m sched_invD(3) [OF inv, of p u] t by (auto simp: act moved_def split: if_splits)
    show "\<exists>u. act s' u \<and> prio s' u = p" if "p \<in> ready s'" for p
    proof (rule ex)
      show "p = pr \<or> (p \<noteq> prio s t \<and> (\<exists>u. act s u \<and> prio s u = p))"
        using that sched_invD(4) [OF inv, of p] by (auto simp: sets swap_prio_def split: if_splits)
    qed
    show "\<exists>u. act s' u \<and> prio s' u = p" if "p \<in> waiters s' e" for p e
    proof (rule ex)
      show "p = pr \<or> (p \<noteq> prio s t \<and> (\<exists>u. act s u \<and> prio s u = p))"
        using that sched_invD(5) [OF inv, of p e] by (auto simp: sets swap_prio_def split: if_splits)
    qed
    show "OS_TASK_IDLE_PRIO \<in> ready s'"
      using sched_invD(7) [OF inv] ni by (simp add: sets swap_prio_def)
    fix u assume "act s' u"
    then have u: "act s u" by (simp add: act)
    have ok: "task_ok s u" by (rule sched_invD(6) [OF inv u])
    have rd: "prio s' u \<in> ready s' \<longleftrightarrow> prio s u \<in> ready s"
      unfolding sets by (rule mem [OF u]) (use sched_invD(4) [OF inv] in blast)
    have wt: "prio s' u \<in> waiters s' e \<longleftrightarrow> prio s u \<in> waiters s e" for e
      unfolding sets by (rule mem [OF u]) (use sched_invD(5) [OF inv] in blast)
    show "task_ok s' u"
    proof (cases "u = t")
      case True
      then have "OSTCBTbl s' u = reprio pr (OSTCBTbl s u)" using m by (simp add: moved_def)
      then show ?thesis using ok rd wt tcb_prio_ok_reprio [OF pr] by (simp add: task_ok_def Let_def em)
    next
      case False
      then have "OSTCBTbl s' u = OSTCBTbl s u" using m by (simp add: moved_def)
      then show ?thesis using ok rd wt by (simp add: task_ok_def Let_def em)
    qed
  qed
qed

lemma moved_base_ok:
  assumes ok: "base_ok s c" and t: "act s t" and sl: "slot_free s t pr" and m: "moved s t pr s'" and ni: "prio s t \<noteq> OS_TASK_IDLE_PRIO"
    and cur: "OSPrioCur s' = prio s' c"
  shows "base_ok s' c"
proof -
  note d = base_okD [OF ok]
  note act = moved_act [OF d(1) t sl m]
  have "evt_rest (OSEvents s' i) = evt_rest (OSEvents s i)" for i using m by (simp add: moved_def)
  note ev = evt_restD [OF this]
  have "sched_inv s'" by (rule moved_sched_inv [OF d(1) t sl m ni])
  moreover have "list_inv s'"
  proof -
    obtain ts fs where l: "task_lists s ts fs" using d(2) by (auto simp: list_inv_def)
    have nl: "last ts \<noteq> t" using l ni by (auto simp: task_lists_def)
    have k: "OSTCBNext (OSTCBTbl s' u) = OSTCBNext (OSTCBTbl s u)" "OSTCBPrev (OSTCBTbl s' u) = OSTCBPrev (OSTCBTbl s u)" for u
      using m by (simp_all add: moved_def)
    have "tcb_seg (OSTCBTbl s') p q ts = tcb_seg (OSTCBTbl s) p q ts" for p q by (rule tcb_seg_cong) (simp add: k)
    moreover have "free_seg (OSTCBTbl s') p fs = free_seg (OSTCBTbl s) p fs" for p by (rule free_seg_cong) (simp add: k)
    moreover have "OSTCBList s' = OSTCBList s" "OSTCBFreeList s' = OSTCBFreeList s" "prio s' (last ts) = prio s (last ts)"
      using m nl by (simp_all add: moved_def)
    moreover have "act s' = act s" by (simp add: fun_eq_iff act)
    ultimately have "task_lists s' ts fs" using l unfolding task_lists_def by (simp only: simp_thms)
    then show ?thesis by (auto simp: list_inv_def)
  qed
  moreover have "idle_inv s'"
    unfolding idle_inv_def
  proof (intro allI impI)
    fix i assume "avail s' i"
    moreover have "avail s' i = avail s i" using m by (intro avail_cong) (simp_all add: ev moved_def)
    ultimately have "waiters s i = {}" using d(3) by (simp add: idle_inv_def)
    then show "waiters s' i = {}" using m by (simp add: moved_def)
  qed
  moreover have "obj_inv s'"
    using d(9) m by (subst obj_inv_cong [of _ s]) (simp_all add: ev moved_def)
  moreover have "cur_at s' c" using d(4,5) m cur act by (simp add: cur_at_def moved_def)
  ultimately show ?thesis by (simp add: base_ok_def)
qed

subsection \<open>The bits\<close>

lemma rdy_test:
  assumes "tcb_prio_ok (OSTCBTbl s t)"
  shows "OSRdyTbl s (OSTCBY (OSTCBTbl s t)) AND OSTCBBitX (OSTCBTbl s t) \<noteq> 0 \<longleftrightarrow> prio s t \<in> ready s"
proof -
  let ?x = "OSRdyTbl s (drop_bit 3 (prio s t))" and ?k = "prio s t AND 7"
  have k: "unat ?k < 8" using col_less [of "prio s t"] by (simp add: word_less_nat_alt)
  have "?x AND shl1 ?k \<noteq> 0 \<longleftrightarrow> bit ?x (unat ?k)"
    using k by (auto simp: u8_eq_0_iff bit_and_iff bit_shl1)
  then show ?thesis using assms by (simp add: tcb_prio_ok_def ready_def bm_set_def bm_mem_def rdy_bm_def)
qed

lemma row_and_7: "p < 64 \<Longrightarrow> drop_bit 3 p AND 7 = drop_bit 3 p" for p :: u8
proof -
  assume "p < 64"
  then have "unat p < 64" by (simp add: word_less_nat_alt)
  moreover have "unat (drop_bit 3 p AND 7) = unat p div 8 mod 8"
    by (simp add: unat_col unat_row)
  ultimately show ?thesis by (simp add: word_unat_eq_iff unat_row)
qed

subsection \<open>The two moves of the code\<close>

text \<open>The bits of a task that is on exactly the list its state says move with it: not one that waits for
  several events, nor one whose wait has just timed out and that has not run since.\<close>

definition movable :: "os \<Rightarrow> nat \<Rightarrow> bool" where
  "movable s t \<longleftrightarrow> OSTCBEventMultiPtr (OSTCBTbl s t) = None \<and>
     (if prio s t \<in> ready s then \<forall>i. prio s t \<notin> waiters s i
      else \<forall>i. OSTCBEventPtr (OSTCBTbl s t) = Some i \<longrightarrow> prio s t \<in> waiters s i)"

lemma mutex_raise_moved:
  assumes inv: "sched_inv s" and t: "act s t" and pcp: "pcp < 64" and mv: "movable s t"
  shows "\<exists>s'. mutex_raise t pcp s = Some s' \<and> moved s t pcp s' \<and> OSPrioCur s' = OSPrioCur s"
proof -
  have single: "OSTCBEventMultiPtr (OSTCBTbl s t) = None" and one: "prio s t \<in> ready s \<Longrightarrow> \<forall>i. prio s t \<notin> waiters s i"
    and wait: "prio s t \<notin> ready s \<Longrightarrow> OSTCBEventPtr (OSTCBTbl s t) = Some i \<Longrightarrow> prio s t \<in> waiters s i" for i
    using mv by (simp_all add: movable_def)
  have ok: "task_ok s t" by (rule sched_invD(6) [OF inv t])
  have tp: "tcb_prio_ok (OSTCBTbl s t)" by (rule task_okD(1) [OF ok])
  let ?set = "upd_tcb t (\<lambda>c. c\<lparr>OSTCBPrio := pcp, OSTCBY := drop_bit 3 pcp, OSTCBX := pcp AND 7,
      OSTCBBitY := shl1 (drop_bit 3 pcp), OSTCBBitX := shl1 (pcp AND 7)\<rparr>)"
  have set: "?set = upd_tcb t (reprio pcp)" by (simp add: reprio_def upd_tcb_def fun_eq_iff)
  have bm: "bm_ok (rdy_bm s)" "\<forall>i. bm_ok (evt_bm (OSEvents s i))" using inv by (simp_all add: sched_inv_def)
  have new: "tcb_prio_ok (OSTCBTbl (upd_tcb t (reprio pcp) s1) t)" for s1 using tcb_prio_ok_reprio [OF pcp] by simp
  have p63: "pcp \<le> OS_LOWEST_PRIO" using pcp by (simp add: le_63_less_64)
  have in_ref: "i \<in> set_option (OSTCBEventPtr (OSTCBTbl s t))" if "prio s t \<in> waiters s i" for i
    using task_okD(5) [OF ok that] single by (simp add: evt_refs_def)
  have main: ?thesis
    if s1: "mutex_raise t pcp s = Some (s1\<lparr>OSTCBPrioTbl := (OSTCBPrioTbl s1)(pcp := TPtr t)\<rparr>)"
      and "ready s1 = swap_prio (prio s t) pcp (ready s)" "\<forall>i. waiters s1 i = swap_prio (prio s t) pcp (waiters s i)"
      "bm_ok (rdy_bm s1)" "\<forall>i. bm_ok (evt_bm (OSEvents s1 i))" "wq_frame (upd_tcb t (reprio pcp) s) s1"
      "OSTCBTbl s1 = (OSTCBTbl s)(t := reprio pcp (OSTCBTbl s t))" for s1
  proof (intro exI conjI)
    let ?s = "s1\<lparr>OSTCBPrioTbl := (OSTCBPrioTbl s1)(pcp := TPtr t)\<rparr>"
    note fr = wq_frameD [OF that(6)]
    have "evt_rest (OSEvents s1 i) = evt_rest (OSEvents s i)" for i using that(6) by (simp add: wq_frame_def)
    then show "moved s t pcp ?s"
      using that(2-5,7) fr by (simp add: moved_def ready_def waiters_def rdy_bm_def)
    show "OSPrioCur ?s = OSPrioCur s" using fr(3) by simp
  qed (rule s1)
  show ?thesis
  proof (cases "prio s t \<in> ready s")
    case True
    let ?s1 = "rdy_ins t (upd_tcb t (reprio pcp) (rdy_del t s))"
    show ?thesis
    proof (rule main)
      show "mutex_raise t pcp s = Some (?s1\<lparr>OSTCBPrioTbl := (OSTCBPrioTbl ?s1)(pcp := TPtr t)\<rparr>)"
        using True p63 rdy_test [OF tp] by (simp add: mutex_raise_def Let_def set)
      show "ready ?s1 = swap_prio (prio s t) pcp (ready s)"
        using True by (simp add: ready_rdy_ins [OF new] ready_rdy_del [OF tp] swap_prio_def)
      show "\<forall>i. waiters ?s1 i = swap_prio (prio s t) pcp (waiters s i)" using one [OF True] by (simp add: swap_prio_def)
      show "bm_ok (rdy_bm ?s1)" by (rule bm_ok_rdy_ins [OF new]) (simp add: bm_ok_rdy_del [OF tp] bm(1))
      show "wq_frame (upd_tcb t (reprio pcp) s) ?s1"
        unfolding wq_frame_rdy_ins by (simp add: wq_frame_def wq_rest_def upd_tcb_def rdy_del_def set_rdy_bm_def Let_def)
    qed (use bm in simp_all)
  next
    case False
    show ?thesis
    proof (cases "OSTCBEventPtr (OSTCBTbl s t)")
      case None
      let ?s1 = "upd_tcb t (reprio pcp) s"
      have "prio s t \<notin> waiters s i" for i using in_ref [of i] None by auto
      then show ?thesis
        using False None p63 rdy_test [OF tp] bm
        by (intro main [of ?s1]) (simp_all add: mutex_raise_def Let_def set swap_prio_def)
    next
      case (Some e2)
      let ?s1 = "wait_ins t e2 (upd_tcb t (reprio pcp) (wait_del t e2 s))"
      have e2: "e2 < OS_MAX_EVENTS" using task_okD(3) [OF ok] Some by (auto simp: evt_refs_def)
      have bm1: "\<forall>i. bm_ok (evt_bm (OSEvents (wait_del t e2 s) i))" using bm_ok_wait_del [OF tp bm(2)] by blast
      have only: "prio s t \<in> waiters s i \<longleftrightarrow> i = e2" for i using in_ref [of i] wait [OF False Some] Some by auto
      show ?thesis
      proof (rule main)
        show "mutex_raise t pcp s = Some (?s1\<lparr>OSTCBPrioTbl := (OSTCBPrioTbl ?s1)(pcp := TPtr t)\<rparr>)"
          using False Some e2 p63 rdy_test [OF tp] by (simp add: mutex_raise_def Let_def set evt_def)
        show "ready ?s1 = swap_prio (prio s t) pcp (ready s)" using False by (simp add: swap_prio_def)
        show "\<forall>i. waiters ?s1 i = swap_prio (prio s t) pcp (waiters s i)"
          using only by (simp add: waiters_wait_ins [OF new] waiters_wait_del [OF tp] swap_prio_def)
        show "\<forall>i. bm_ok (evt_bm (OSEvents ?s1 i))" using bm_ok_wait_ins [OF new] bm1 by simp
        show "wq_frame (upd_tcb t (reprio pcp) s) ?s1"
          unfolding wq_frame_wait_ins
          by (auto simp: wq_frame_def wq_rest_def upd_tcb_def wait_del_def upd_evt_def evt_rest_def set_evt_bm_def Let_def)
      qed (use bm in simp_all)
    qed
  qed
qed

lemma RdyAtPrio_moved:
  assumes inv: "sched_inv s" and t: "act s t" and pr: "pr < 64" and rdy: "prio s t \<in> ready s" and nw: "\<forall>i. prio s t \<notin> waiters s i"
  shows "\<exists>s'. OSMutex_RdyAtPrio t pr s = Some s' \<and> moved s t pr s' \<and> OSPrioCur s' = pr"
proof -
  have tp: "tcb_prio_ok (OSTCBTbl s t)" by (rule sched_inv_tcb [OF inv t])
  let ?s2 = "(upd_tcb t (reprio pr) (rdy_del t s))\<lparr>OSPrioCur := pr\<rparr>"
  let ?s3 = "rdy_ins t ?s2"
  let ?s = "?s3\<lparr>OSTCBPrioTbl := (OSTCBPrioTbl ?s3)(pr := TPtr t)\<rparr>"
  have new: "tcb_prio_ok (OSTCBTbl ?s2 t)" using tcb_prio_ok_reprio [OF pr] by simp
  have bm: "bm_ok (rdy_bm s)" "\<forall>i. bm_ok (evt_bm (OSEvents s i))" using inv by (simp_all add: sched_inv_def)
  have "OSMutex_RdyAtPrio t pr s = Some ?s"
    using pr by (simp add: OSMutex_RdyAtPrio_def Let_def row_and_7 reprio_abs le_63_less_64)
  moreover have "moved s t pr ?s"
  proof -
    have sel: "rdy_bm ?s = rdy_bm ?s3" "OSEvents ?s = OSEvents s" "rdy_bm ?s2 = rdy_bm (rdy_del t s)" "ready ?s2 = ready (rdy_del t s)"
      by (simp_all add: rdy_bm_def upd_tcb_def ready_def)
    have "ready ?s = swap_prio (prio s t) pr (ready s)"
      using rdy ready_rdy_ins [OF new] sel ready_rdy_del [OF tp] by (simp add: ready_def swap_prio_def)
    moreover have "waiters ?s i = swap_prio (prio s t) pr (waiters s i)" for i
      using nw sel(2) by (simp add: waiters_def swap_prio_def)
    moreover have "bm_ok (rdy_bm ?s)"
      unfolding sel(1) by (rule bm_ok_rdy_ins [OF new]) (unfold sel(3), rule bm_ok_rdy_del [OF tp bm(1)])
    ultimately show ?thesis using bm(2) unfolding moved_def sel(2) by simp
  qed
  moreover have "OSPrioCur ?s = pr" by simp
  ultimately show ?thesis by blast
qed

text \<open>A priority that no task has is reserved.\<close>

lemma reserve_slot:
  assumes ok: "base_ok s c" and no: "\<And>u. act s u \<Longrightarrow> prio s u \<noteq> p"
  defines "s' \<equiv> s\<lparr>OSTCBPrioTbl := (OSTCBPrioTbl s)(p := TReserved)\<rparr>"
  shows "base_ok s' c" "act s' u \<longleftrightarrow> act s u" "waiters s' = waiters s" "ready s' = ready s"
proof -
  note d = base_okD [OF ok]
  show act: "act s' u \<longleftrightarrow> act s u" for u using no [of u] by (auto simp: act_def s'_def)
  show sets: "waiters s' = waiters s" "ready s' = ready s"
    by (simp_all add: s'_def waiters_def ready_def rdy_bm_def fun_eq_iff)
  have sel: "OSTCBTbl s' = OSTCBTbl s" "OSEvents s' = OSEvents s" "OSTCBCur s' = OSTCBCur s" "OSPrioCur s' = OSPrioCur s"
    "OSTCBList s' = OSTCBList s" "OSTCBFreeList s' = OSTCBFreeList s" "OSQTbl s' = OSQTbl s" "rdy_bm s' = rdy_bm s"
    by (simp_all add: s'_def rdy_bm_def)
  have "task_ok s' = task_ok s" by (simp add: task_ok_def sel sets fun_eq_iff)
  then have "sched_inv s'"
    using d(1) by (auto simp: sched_inv_def act sel sets) (auto simp: s'_def split: if_splits)
  moreover have "act s' = act s" by (simp add: fun_eq_iff act)
  then have "list_inv s'" using d(2) by (simp add: list_inv_def task_lists_def sel)
  moreover have "idle_inv s'"
  proof -
    have "avail s' i = avail s i" for i by (rule avail_cong) (simp_all add: sel)
    then show ?thesis using d(3) by (simp add: idle_inv_def sets)
  qed
  moreover have "obj_inv s'" using d(9) by (subst obj_inv_cong [of _ s]) (simp_all add: s'_def)
  moreover have "cur_at s' c" using d(4,5,6) by (simp add: cur_at_def sel act)
  ultimately show "base_ok s' c" by (simp add: base_ok_def)
qed

subsection \<open>Mutexes\<close>

definition is_mutex :: "os \<Rightarrow> nat \<Rightarrow> bool" where
  "is_mutex s e \<longleftrightarrow> e < OS_MAX_EVENTS \<and> OSEventType (OSEvents s e) = OS_EVENT_TYPE_MUTEX"

abbreviation mpcp :: "os \<Rightarrow> nat \<Rightarrow> u8" where "mpcp s e \<equiv> mutex_pcp (OSEvents s e)"
abbreviation mprio :: "os \<Rightarrow> nat \<Rightarrow> u8" where "mprio s e \<equiv> mutex_prio (OSEvents s e)"

text \<open>The ceiling priority is reserved while no owner is raised to it.\<close>

definition mutex_free :: "os \<Rightarrow> nat \<Rightarrow> bool" where
  "mutex_free s e \<longleftrightarrow> is_mutex s e \<and> OSEventPtr (OSEvents s e) = VNull \<and> mprio s e = 0xFF \<and>
     (mpcp s e \<noteq> OS_PRIO_MUTEX_CEIL_DIS \<longrightarrow> mpcp s e < 64 \<and> OSTCBPrioTbl s (mpcp s e) = TReserved)"

text \<open>\<open>m\<close> is the priority the owner \<open>t\<close> goes back to; it keeps that entry of the table while it is raised.\<close>

definition mutex_owned :: "os \<Rightarrow> nat \<Rightarrow> nat \<Rightarrow> u8 \<Rightarrow> bool" where
  "mutex_owned s e t m \<longleftrightarrow> is_mutex s e \<and> OSEventPtr (OSEvents s e) = VTcb t \<and> mprio s e = m \<and> act s t \<and> m < 64 \<and>
     OSTCBPrioTbl s m = TPtr t \<and> m \<noteq> mpcp s e \<and>
     (mpcp s e \<noteq> OS_PRIO_MUTEX_CEIL_DIS \<longrightarrow> mpcp s e < 64 \<and>
       (prio s t \<noteq> mpcp s e \<longrightarrow> OSTCBPrioTbl s (mpcp s e) = TReserved))"

lemma is_mutexD:
  assumes "is_mutex s e"
  shows "evt s e = Some (OSEvents s e)" "e < OS_MAX_EVENTS" "OSEventType (OSEvents s e) = OS_EVENT_TYPE_MUTEX"
    "emask s e = OS_STAT_MUTEX" "avail s e \<longleftrightarrow> mprio s e = 0xFF"
  using assms by (simp_all add: is_mutex_def evt_def evt_mask_def avail_def Let_def)

lemma bit_bytes:
  "bit (0xFF00 :: u16) n \<longleftrightarrow> 8 \<le> n \<and> n < 16" "bit (0x00FF :: u16) n \<longleftrightarrow> n < 8" "bit (0xFF :: u8) n \<longleftrightarrow> n < 8"
proof -
  have "(0xFF00 :: u16) = push_bit 8 (mask 8)" "(0x00FF :: u16) = mask 8" "(0xFF :: u8) = mask 8"
    by (simp_all add: mask_eq_exp_minus_1)
  then show "bit (0xFF00 :: u16) n \<longleftrightarrow> 8 \<le> n \<and> n < 16" "bit (0x00FF :: u16) n \<longleftrightarrow> n < 8" "bit (0xFF :: u8) n \<longleftrightarrow> n < 8"
    by (auto simp only: bit_push_bit_iff bit_mask_iff) auto
qed

lemma bytes:
  fixes x :: u16 and pr :: u8
  shows "ucast (((x AND 0xFF00) OR ucast pr) AND 0xFF) = pr" "ucast (drop_bit 8 ((x AND 0xFF00) OR ucast pr)) = (ucast (drop_bit 8 x) :: u8)"
    "ucast ((x OR 0xFF) AND 0xFF) = (0xFF :: u8)" "ucast (drop_bit 8 (x OR 0xFF)) = (ucast (drop_bit 8 x) :: u8)"
  by (rule bit_word_eqI, simp only: bit_ucast_iff bit_and_iff bit_or_iff bit_drop_bit_eq o_apply bit_bytes,
      auto dest: bit_imp_le_length)+

lemma count_bytes:
  "mutex_prio (ev\<lparr>OSEventCnt := (OSEventCnt ev AND OS_MUTEX_KEEP_UPPER_8) OR ucast pr, OSEventPtr := q\<rparr>) = pr"
  "mutex_pcp (ev\<lparr>OSEventCnt := (OSEventCnt ev AND OS_MUTEX_KEEP_UPPER_8) OR ucast pr, OSEventPtr := q\<rparr>) = mutex_pcp ev"
  "mutex_prio (ev\<lparr>OSEventCnt := OSEventCnt ev OR OS_MUTEX_AVAILABLE, OSEventPtr := q\<rparr>) = 0xFF"
  "mutex_pcp (ev\<lparr>OSEventCnt := OSEventCnt ev OR OS_MUTEX_AVAILABLE, OSEventPtr := q\<rparr>) = mutex_pcp ev"
proof -
  have sel: "OSEventCnt (ev\<lparr>OSEventCnt := x, OSEventPtr := q\<rparr>) = x" for x by simp
  show "mutex_prio (ev\<lparr>OSEventCnt := (OSEventCnt ev AND OS_MUTEX_KEEP_UPPER_8) OR ucast pr, OSEventPtr := q\<rparr>) = pr"
    "mutex_pcp (ev\<lparr>OSEventCnt := (OSEventCnt ev AND OS_MUTEX_KEEP_UPPER_8) OR ucast pr, OSEventPtr := q\<rparr>) = mutex_pcp ev"
    "mutex_prio (ev\<lparr>OSEventCnt := OSEventCnt ev OR OS_MUTEX_AVAILABLE, OSEventPtr := q\<rparr>) = 0xFF"
    "mutex_pcp (ev\<lparr>OSEventCnt := OSEventCnt ev OR OS_MUTEX_AVAILABLE, OSEventPtr := q\<rparr>) = mutex_pcp ev"
    by (simp_all only: mutex_prio_def mutex_pcp_def sel bytes)
qed

text \<open>Changing count and owner.\<close>

lemma mutex_value_ok:
  assumes ok: "base_ok s c" and mx: "is_mutex s e" and ty: "\<And>ev. OSEventType (f ev) = OSEventType ev" "\<And>ev. evt_bm (f ev) = evt_bm ev"
    and av: "mutex_prio (f (OSEvents s e)) = 0xFF \<Longrightarrow> waiters s e = {}"
  shows "base_ok (upd_evt e f s) c" "ready (upd_evt e f s) = ready s" "waiters (upd_evt e f s) = waiters s"
proof -
  have obj: "obj_inv (upd_evt e f s)"
    by (rule obj_inv_upd_value [OF base_okD(9) [OF ok] ty(1)]) (use is_mutexD(3) [OF mx] in simp)
  have "avail (upd_evt e f s) e \<Longrightarrow> waiters s e = {}"
    using av is_mutexD(3) [OF mx] by (simp add: avail_def Let_def ty(1))
  note b = base_ok_upd_evt [OF ok, of f e, OF ty(2) _ this obj]
  show "base_ok (upd_evt e f s) c" "ready (upd_evt e f s) = ready s" "waiters (upd_evt e f s) = waiters s"
    using b ty(1) by simp_all
qed

lemma mutex_give_ok:
  assumes ok: "base_ok s c" and mx: "mutex_free s e" and t: "act s t"
  defines "s' \<equiv> upd_evt e (\<lambda>ev. ev\<lparr>OSEventCnt := (OSEventCnt ev AND OS_MUTEX_KEEP_UPPER_8) OR ucast (prio s t), OSEventPtr := VTcb t\<rparr>) s"
  shows "base_ok s' c" "ready s' = ready s" "waiters s' = waiters s" "mutex_owned s' e t (prio s t)" "mpcp s' e = mpcp s e"
proof -
  let ?f = "\<lambda>ev. ev\<lparr>OSEventCnt := (OSEventCnt ev AND OS_MUTEX_KEEP_UPPER_8) OR ucast (prio s t), OSEventPtr := VTcb t\<rparr>"
  have im: "is_mutex s e" using mx by (simp add: mutex_free_def)
  have p64: "prio s t < 64" using t by (simp add: act_def)
  have "waiters s e = {}" using base_okD(3) [OF ok] is_mutexD(5) [OF im] mx by (simp add: mutex_free_def idle_inv_def)
  then show "base_ok s' c" "ready s' = ready s" "waiters s' = waiters s"
    using mutex_value_ok [OF ok im, of ?f] by (simp_all add: evt_bm_def s'_def)
  have "prio s t \<noteq> mpcp s e"
    using mx t p64 by (cases "mpcp s e = 0xFF") (auto simp: mutex_free_def act_def)
  then show "mutex_owned s' e t (prio s t)"
    using mx t p64 by (auto simp: mutex_owned_def mutex_free_def is_mutex_def count_bytes act_def s'_def)
  show "mpcp s' e = mpcp s e" by (simp add: s'_def count_bytes)
qed

lemma mutex_take_ok:
  assumes ok: "kernel_ok s c" and mx: "mutex_free s e"
  shows "\<exists>s'. mutex_take e c s = (if mpcp s e \<noteq> OS_PRIO_MUTEX_CEIL_DIS \<and> prio s c \<le> mpcp s e then OS_ERR_PCP_LOWER else OS_ERR_NONE, s') \<and>
    kernel_ok s' c \<and> mutex_owned s' e c (prio s c)"
  using mutex_give_ok [OF kernel_ok_base [OF ok] mx kernel_okD(5) [OF ok]] kernel_okD(10) [OF ok]
  by (simp add: mutex_take_def Let_def kernel_ok_iff unlocked_def)

subsection \<open>Waiting\<close>

lemma OSMutexPend_free:
  assumes ok: "kernel_ok s c" and ul: "unlocked s" and mx: "mutex_free s e"
  shows "\<exists>err s'. OSMutexPend e timeout s = Some (Returns err, s') \<and> kernel_ok s' c \<and> mutex_owned s' e c (prio s c) \<and>
    (err = OS_ERR_PCP_LOWER \<longleftrightarrow> mpcp s e \<noteq> OS_PRIO_MUTEX_CEIL_DIS \<and> prio s c \<le> mpcp s e) \<and> (err \<noteq> OS_ERR_PCP_LOWER \<longrightarrow> err = OS_ERR_NONE)"
proof -
  have im: "is_mutex s e" and pr: "mprio s e = 0xFF" using mx by (simp_all add: mutex_free_def)
  have "OSMutexPend e timeout s = Some (Returns (fst (mutex_take e c s)), snd (mutex_take e c s))"
    using ul pr kernel_okD(7) [OF ok] by (simp add: OSMutexPend_def is_mutexD(1,3) [OF im] unlocked_def Let_def)
  then show ?thesis using mutex_take_ok [OF ok mx] by (auto split: if_splits)
qed

lemma blocks_other: "blocks s c e timeout s' \<Longrightarrow> u \<noteq> c \<Longrightarrow> same_task (OSTCBTbl s u) (OSTCBTbl s' u)"
  unfolding blocks_def by (elim conjE allE [of _ u]) simp

lemma blocks_owner:
  assumes b: "blocks s1 c e timeout s'" and ow: "mutex_owned s1 e t m"
  shows "mutex_owned s' e t m" "prio s' t = prio s1 t"
proof -
  have st: "same_task (if t = c then (OSTCBTbl s1 c)\<lparr>OSTCBStat := OSTCBStat (OSTCBTbl s1 c) OR emask s1 e,
              OSTCBStatPend := OS_STAT_PEND_OK, OSTCBDly := timeout, OSTCBEventPtr := Some e\<rparr>
            else OSTCBTbl s1 t) (OSTCBTbl s' t)" using b by (simp add: blocks_def)
  show p: "prio s' t = prio s1 t" using same_taskD(10) [OF st] by (simp split: if_splits)
  have r: "evt_rest (OSEvents s' e) = evt_rest (OSEvents s1 e)" "OSTCBPrioTbl s' = OSTCBPrioTbl s1" using b by (simp_all add: blocks_def)
  note e = evt_restD [OF r(1)]
  show "mutex_owned s' e t m" using ow by (simp add: mutex_owned_def is_mutex_def mutex_pcp_def mutex_prio_def e r(2) p act_def)
qed

lemma moved_owned:
  assumes m: "moved s t (mpcp s e) s1" and ow: "mutex_owned s e t m" and p: "mpcp s e < 64"
  shows "mutex_owned s1 e t m" "mpcp s1 e = mpcp s e"
proof -
  have "evt_rest (OSEvents s1 e) = evt_rest (OSEvents s e)" using m by (simp add: moved_def)
  note ev = evt_restD [OF this]
  show "mutex_owned s1 e t m" "mpcp s1 e = mpcp s e"
    using ow p m by (simp_all add: mutex_owned_def is_mutex_def mutex_pcp_def mutex_prio_def ev act_def moved_def)
qed

lemma OSMutexPend_owned:
  assumes ok: "kernel_ok s c" and mb: "may_block s c" and ow: "mutex_owned s e t m"
    and rs: "mpcp s e \<noteq> OS_PRIO_MUTEX_CEIL_DIS \<and> mpcp s e < prio s t \<and> prio s c < m \<Longrightarrow>
      t \<noteq> c \<and> prio s t \<noteq> OS_TASK_IDLE_PRIO \<and> movable s t"
  shows "\<exists>s1 s' c'. OSMutexPend e timeout s = Some (Blocks, s') \<and>
    (if mpcp s e \<noteq> OS_PRIO_MUTEX_CEIL_DIS \<and> mpcp s e < prio s t \<and> prio s c < m then moved s t (mpcp s e) s1 else s1 = s) \<and>
    blocks s1 c e timeout s' \<and> mutex_owned s' e t m \<and> kernel_ok s' c' \<and> unlocked s' \<and> highest_runs s' \<and> c' \<noteq> c"
proof -
  note d = kernel_okD [OF ok]
  have im: "is_mutex s e" and o: "OSEventPtr (OSEvents s e) = VTcb t" "mprio s e = m" "act s t" "m < 64"
    using ow by (simp_all add: mutex_owned_def)
  have ul: "unlocked s" and nr: "no_refs (OSTCBTbl s c)" "prio s c \<noteq> OS_TASK_IDLE_PRIO" using mb by (simp_all add: may_block_def)
  have t22: "t < OS_MAX_TCBS" using o(3) by (simp add: act_def)
  have m255: "m \<noteq> 0xFF" using o(4) by auto
  let ?r = "mpcp s e \<noteq> OS_PRIO_MUTEX_CEIL_DIS \<and> mpcp s e < prio s t \<and> prio s c < m"
  obtain s1 where s1: "(if mpcp s e \<noteq> OS_PRIO_MUTEX_CEIL_DIS
         then do {
           t \<leftarrow> deref_vtcb (VTcb t);
           if OSTCBPrio (OSTCBTbl s t) > mpcp s e \<and> m > OSTCBPrio (OSTCBTbl s c) then mutex_raise t (mpcp s e) s else Some s
         }
         else Some s) = Some s1" "if ?r then moved s t (mpcp s e) s1 else s1 = s" "base_ok s1 c" "mutex_owned s1 e t m"
    "prio s1 c = prio s c" "prio s c \<in> ready s1" "unlocked s1" "no_refs (OSTCBTbl s1 c)"
  proof (cases ?r)
    case True
    have tc: "t \<noteq> c" and ni: "prio s t \<noteq> OS_TASK_IDLE_PRIO" and mv: "movable s t" using rs [OF True] by blast+
    have pc: "prio s c \<noteq> prio s t" using act_prio_inj [OF d(5) o(3)] tc by blast
    have p: "mpcp s e < 64" "slot_free s t (mpcp s e)" using ow True by (auto simp: mutex_owned_def slot_free_def)
    obtain s1 where r: "mutex_raise t (mpcp s e) s = Some s1" "moved s t (mpcp s e) s1" "OSPrioCur s1 = OSPrioCur s"
      using mutex_raise_moved [OF d(1) o(3) p(1) mv] by blast
    have f: "OSTCBTbl s1 = (OSTCBTbl s)(t := reprio (mpcp s e) (OSTCBTbl s t))" "OSTCBPrioTbl s1 = (OSTCBPrioTbl s)(mpcp s e := TPtr t)"
      "evt_rest (OSEvents s1 e) = evt_rest (OSEvents s e)" "ready s1 = swap_prio (prio s t) (mpcp s e) (ready s)"
      "OSIntNesting s1 = OSIntNesting s" "OSLockNesting s1 = OSLockNesting s"
      using r(2) by (simp_all add: moved_def)
    have "base_ok s1 c"
      by (rule moved_base_ok [OF kernel_ok_base [OF ok] o(3) p(2) r(2) ni]) (use tc r(3) d(6) f(1) in simp)
    moreover have "mutex_owned s1 e t m" by (rule moved_owned [OF r(2) ow p(1)])
    moreover have "prio s c \<in> ready s1" using d(10) [OF ul] pc by (simp add: f(4) swap_prio_def)
    ultimately show ?thesis
      by (intro that [of s1]) (use True r t22 tc ul nr f in \<open>simp_all add: deref_vtcb_def unlocked_def\<close>)
  next
    case False
    then show ?thesis
      by (intro that [of s]) (use ow ok ul nr d(10) t22 kernel_ok_base [OF ok] in \<open>auto simp: deref_vtcb_def\<close>)
  qed
  have im1: "is_mutex s1 e" "\<not> avail s1 e" using s1(4) m255 is_mutexD(5) [of s1 e] by (auto simp: mutex_owned_def)
  obtain s2 s' c' where r: "pend_block (emask s1 e) e timeout s1 = Some s2" "OS_Sched s2 = Some s'" "blocks s1 c e timeout s'"
    "kernel_ok s' c'" "highest_runs s'" "c' \<noteq> c"
    using pend_first [OF s1(3) _ s1(7) _ s1(8) is_mutexD(2) [OF im1(1)] _ im1(2), of timeout] s1(5,6) nr is_mutexD(4) [OF im1(1)] by auto
  have "OSMutexPend e timeout s =
    Option.bind (if mpcp s e \<noteq> OS_PRIO_MUTEX_CEIL_DIS
         then do {
           t \<leftarrow> deref_vtcb (VTcb t);
           if OSTCBPrio (OSTCBTbl s t) > mpcp s e \<and> m > OSTCBPrio (OSTCBTbl s c) then mutex_raise t (mpcp s e) s else Some s
         }
         else Some s) (\<lambda>s1. do { s2 \<leftarrow> pend_block OS_STAT_MUTEX e timeout s1; s3 \<leftarrow> OS_Sched s2; Some (Blocks, s3) })"
    using ul o m255 d(7) by (simp add: OSMutexPend_def is_mutexD(1,3) [OF im] unlocked_def Let_def)
  also have "\<dots> = Some (Blocks, s')"
    using r(1,2) is_mutexD(4) [OF im1(1)] by (simp only: s1(1) bind.bind_lunit)
  finally have "OSMutexPend e timeout s = Some (Blocks, s')" .
  moreover have "unlocked s'"
    using pend_block_ctx [OF r(1)] OS_Sched_ctx [OF r(2)] s1(7) by (simp add: ctx_keeps_def unlocked_def)
  ultimately show ?thesis using s1(2) r blocks_owner [OF r(3) s1(4)] by blast
qed

subsection \<open>Releasing\<close>

text \<open>The owner gives up the ceiling: what holds before the mutex goes to the next task.\<close>

definition released :: "os \<Rightarrow> nat \<Rightarrow> nat \<Rightarrow> u8 \<Rightarrow> os \<Rightarrow> bool" where
  "released s e c m s1 \<longleftrightarrow> base_ok s1 c \<and> unlocked s1 \<and> prio s1 c \<in> ready s1 \<and> waiters s1 = waiters s \<and>
     evt_rest (OSEvents s1 e) = evt_rest (OSEvents s e) \<and> (\<forall>u. act s1 u \<longleftrightarrow> act s u) \<and>
     (\<forall>u. OSTCBTbl s1 u = (if u = c \<and> prio s c = mpcp s e then reprio m (OSTCBTbl s c) else OSTCBTbl s u)) \<and>
     ready s1 = (if prio s c = mpcp s e then swap_prio (mpcp s e) m (ready s) else ready s) \<and>
     (mpcp s e \<noteq> OS_PRIO_MUTEX_CEIL_DIS \<longrightarrow> OSTCBPrioTbl s1 (mpcp s e) = TReserved)"

lemma mutex_release:
  assumes ok: "kernel_ok s c" and mb: "may_block s c" and ow: "mutex_owned s e c m"
  shows "\<exists>s1. (if mpcp s e \<noteq> OS_PRIO_MUTEX_CEIL_DIS
      then do {
        s0 \<leftarrow> (if prio s c = mpcp s e then OSMutex_RdyAtPrio c m s else Some s);
        set_pcp_slot (mpcp s e) TReserved s0
      }
      else Some s) = Some s1 \<and> released s e c m s1"
proof -
  note d = kernel_okD [OF ok]
  have ul: "unlocked s" and nr: "no_refs (OSTCBTbl s c)" and ni: "prio s c \<noteq> OS_TASK_IDLE_PRIO" using mb by (simp_all add: may_block_def)
  have rdy: "prio s c \<in> ready s" by (rule d(10) [OF ul])
  have nw: "prio s c \<notin> waiters s i" for i
    using not_waiting [OF sched_invD(6) [OF d(1,5)]] nr by (simp add: no_refs_def)
  have p64: "prio s c < 64" using d(5) by (simp add: act_def)
  let ?p = "mpcp s e"
  show ?thesis
  proof (cases "?p = OS_PRIO_MUTEX_CEIL_DIS")
    case True
    then have "prio s c \<noteq> ?p" using p64 by auto
    then have "released s e c m s" using kernel_ok_base [OF ok] ul rdy True by (simp add: released_def)
    then show ?thesis using True by simp
  next
    case dis: False
    have p: "?p < 64" "?p \<le> OS_LOWEST_PRIO" using ow dis by (simp_all add: mutex_owned_def le_63_less_64)
    show ?thesis
    proof (cases "prio s c = ?p")
      case True
      have m: "m < 64" "slot_free s c m" "m \<noteq> prio s c" using ow True by (simp_all add: mutex_owned_def slot_free_def)
      obtain s0 where s0: "OSMutex_RdyAtPrio c m s = Some s0" "moved s c m s0" "OSPrioCur s0 = m"
        using RdyAtPrio_moved [OF d(1,5) m(1) rdy] nw by blast
      have f: "OSTCBTbl s0 = (OSTCBTbl s)(c := reprio m (OSTCBTbl s c))" "ready s0 = swap_prio (prio s c) m (ready s)"
        "waiters s0 i = swap_prio (prio s c) m (waiters s i)" "OSIntNesting s0 = OSIntNesting s" "OSLockNesting s0 = OSLockNesting s" for i
        using s0(2) by (simp_all add: moved_def)
      have b0: "base_ok s0 c"
        by (rule moved_base_ok [OF kernel_ok_base [OF ok] d(5) m(2) s0(2) ni]) (simp add: s0(3) f(1))
      have a0: "act s0 u \<longleftrightarrow> act s u" for u by (rule moved_act [OF d(1,5) m(2) s0(2)])
      have no: "prio s0 u \<noteq> ?p" if "act s0 u" for u
      proof (cases "u = c")
        case True
        then show ?thesis using m(3) \<open>prio s c = ?p\<close> by (simp only: f(1) fun_upd_same reprio_sel(1)) simp
      next
        case False
        then have "prio s u \<noteq> prio s c" using act_prio_inj [OF _ d(5)] that a0 by blast
        then show ?thesis using False \<open>prio s c = ?p\<close> by (simp only: f(1) fun_upd_other) simp
      qed
      let ?s = "s0\<lparr>OSTCBPrioTbl := (OSTCBPrioTbl s0)(?p := TReserved)\<rparr>"
      have r: "base_ok ?s c" "act ?s u \<longleftrightarrow> act s0 u" "waiters ?s = waiters s0" "ready ?s = ready s0" for u
        by (rule reserve_slot [OF b0], erule no)+
      have w: "waiters s0 = waiters s" using nw by (simp add: fun_eq_iff f(3) swap_prio_def)
      have ev: "evt_rest (OSEvents s0 e) = evt_rest (OSEvents s e)" using s0(2) by (simp add: moved_def)
      have "unlocked ?s" "m \<in> swap_prio (prio s c) m (ready s)" using ul rdy by (simp_all add: unlocked_def f swap_prio_def)
      then have "released s e c m ?s"
        unfolding released_def True [symmetric] using r(1) True ev
        by (intro conjI allI impI) (simp_all add: r(2,3,4) a0 w f(1,2))
      then show ?thesis using s0(1) dis p(2) True by (simp add: set_pcp_slot_def)
    next
      case False
      have no: "prio s u \<noteq> ?p" if "act s u" for u
        using ow that False dis by (auto simp: mutex_owned_def act_def)
      let ?s = "s\<lparr>OSTCBPrioTbl := (OSTCBPrioTbl s)(?p := TReserved)\<rparr>"
      have r: "base_ok ?s c" "act ?s u \<longleftrightarrow> act s u" "waiters ?s = waiters s" "ready ?s = ready s" for u
        by (rule reserve_slot [OF kernel_ok_base [OF ok]], erule no)+
      have "released s e c m ?s"
        using r ul False rdy by (simp add: released_def unlocked_def)
      then show ?thesis using dis p(2) False by (simp add: set_pcp_slot_def)
    qed
  qed
qed

lemma releasedD:
  assumes "released s e c m s1"
  shows "base_ok s1 c" "unlocked s1" "prio s1 c \<in> ready s1" "waiters s1 = waiters s" "act s1 u \<longleftrightarrow> act s u"
    "OSEventType (OSEvents s1 e) = OSEventType (OSEvents s e)" "OSEventCnt (OSEvents s1 e) = OSEventCnt (OSEvents s e)"
    "mpcp s1 e = mpcp s e" "prio s1 c = (if prio s c = mpcp s e then m else prio s c)" "u \<noteq> c \<Longrightarrow> OSTCBTbl s1 u = OSTCBTbl s u"
    "mpcp s e \<noteq> OS_PRIO_MUTEX_CEIL_DIS \<Longrightarrow> OSTCBPrioTbl s1 (mpcp s e) = TReserved"
proof -
  have "evt_rest (OSEvents s1 e) = evt_rest (OSEvents s e)" using assms by (simp add: released_def)
  note ev = evt_restD [OF this]
  show "OSEventType (OSEvents s1 e) = OSEventType (OSEvents s e)" "OSEventCnt (OSEvents s1 e) = OSEventCnt (OSEvents s e)" "mpcp s1 e = mpcp s e"
    by (simp_all add: ev mutex_pcp_def)
  show "prio s1 c \<in> ready s1" using assms unfolding released_def by (elim conjE)
qed (use assms in \<open>simp_all add: released_def\<close>)

text \<open>What the call does from there.\<close>

lemma OSMutexPost_released:
  assumes ok: "kernel_ok s c" and mb: "may_block s c" and ow: "mutex_owned s e c m"
  shows "\<exists>s1. released s e c m s1 \<and> OSMutexPost e s = (if waiters s e = {}
      then Some (OS_ERR_NONE, upd_evt e (\<lambda>ev. ev\<lparr>OSEventCnt := OSEventCnt ev OR OS_MUTEX_AVAILABLE, OSEventPtr := VNull\<rparr>) s1)
      else do {
        r \<leftarrow> OS_EventTaskRdy e VNull OS_STAT_MUTEX OS_STAT_PEND_OK s1;
        p \<leftarrow> prio_tbl (snd r) (fst r);
        own \<leftarrow> vtcb_of p;
        s3 \<leftarrow> OS_Sched (upd_evt e (\<lambda>ev. ev\<lparr>OSEventCnt := (OSEventCnt ev AND OS_MUTEX_KEEP_UPPER_8) OR ucast (fst r),
                         OSEventPtr := own\<rparr>) (snd r));
        Some (if mpcp s e \<noteq> OS_PRIO_MUTEX_CEIL_DIS \<and> fst r \<le> mpcp s e then OS_ERR_PCP_LOWER else OS_ERR_NONE, s3)
      })"
proof -
  obtain s1 where s1: "(if mpcp s e \<noteq> OS_PRIO_MUTEX_CEIL_DIS
      then do {
        s0 \<leftarrow> (if prio s c = mpcp s e then OSMutex_RdyAtPrio c m s else Some s);
        set_pcp_slot (mpcp s e) TReserved s0
      }
      else Some s) = Some s1" and r: "released s e c m s1"
    using mutex_release [OF assms] by blast
  note d = kernel_okD [OF ok]
  have im: "is_mutex s e" "OSEventPtr (OSEvents s e) = VTcb c" "mprio s e = m" using ow by (simp_all add: mutex_owned_def)
  have "OSIntNesting s = 0" using mb by (simp add: may_block_def unlocked_def)
  then have eq: "OSMutexPost e s = Option.bind (if mpcp s e \<noteq> OS_PRIO_MUTEX_CEIL_DIS
      then do {
        s0 \<leftarrow> (if prio s c = mpcp s e then OSMutex_RdyAtPrio c m s else Some s);
        set_pcp_slot (mpcp s e) TReserved s0
      }
      else Some s) (\<lambda>s1. if OSEventGrp (OSEvents s1 e) \<noteq> 0
            then do {
              r \<leftarrow> OS_EventTaskRdy e VNull OS_STAT_MUTEX OS_STAT_PEND_OK s1;
              p \<leftarrow> prio_tbl (snd r) (fst r);
              own \<leftarrow> vtcb_of p;
              s3 \<leftarrow> OS_Sched (upd_evt e (\<lambda>ev. ev\<lparr>OSEventCnt := (OSEventCnt ev AND OS_MUTEX_KEEP_UPPER_8) OR ucast (fst r),
                         OSEventPtr := own\<rparr>) (snd r));
              Some (if mpcp s e \<noteq> OS_PRIO_MUTEX_CEIL_DIS \<and> fst r \<le> mpcp s e then OS_ERR_PCP_LOWER else OS_ERR_NONE, s3)
            }
            else Some (OS_ERR_NONE, upd_evt e (\<lambda>ev. ev\<lparr>OSEventCnt := OSEventCnt ev OR OS_MUTEX_AVAILABLE,
                   OSEventPtr := VNull\<rparr>) s1))"
    using d(7) unfolding OSMutexPost_def Let_def by (simp add: im(2,3) is_mutexD(1,3) [OF im(1)])
  note grp = evt_bm_nonempty [OF base_okD(1) [OF releasedD(1) [OF r]], of e, unfolded releasedD(4) [OF r]]
  show ?thesis
    by (intro exI [of _ s1] conjI, rule r, unfold eq s1 bind.bind_lunit grp, cases "waiters s e = {}")
      (simp_all only: simp_thms if_True if_False)
qed

lemma OSMutexPost_nobody:
  assumes ok: "kernel_ok s c" and mb: "may_block s c" and ow: "mutex_owned s e c m" and w: "waiters s e = {}"
  shows "\<exists>s'. OSMutexPost e s = Some (OS_ERR_NONE, s') \<and> mutex_free s' e \<and> kernel_ok s' c \<and>
    prio s' c = (if prio s c = mpcp s e then m else prio s c) \<and> (\<forall>u. u \<noteq> c \<longrightarrow> OSTCBTbl s' u = OSTCBTbl s u) \<and>
    ready s' = (if prio s c = mpcp s e then swap_prio (mpcp s e) m (ready s) else ready s) \<and> waiters s' = waiters s"
proof -
  let ?f = "\<lambda>ev. ev\<lparr>OSEventCnt := OSEventCnt ev OR OS_MUTEX_AVAILABLE, OSEventPtr := VNull\<rparr>"
  obtain s1 where r: "released s e c m s1" and ex: "OSMutexPost e s = Some (OS_ERR_NONE, upd_evt e ?f s1)"
    using OSMutexPost_released [OF ok mb ow] unfolding if_P [OF w] by blast
  note rd = releasedD [OF r]
  have im: "is_mutex s1 e" using ow by (simp add: mutex_owned_def is_mutex_def rd(6))
  note v = mutex_value_ok [OF rd(1) im, of ?f]
  have b: "base_ok (upd_evt e ?f s1) c" "ready (upd_evt e ?f s1) = ready s1" "waiters (upd_evt e ?f s1) = waiters s1"
    by (rule v; simp add: evt_bm_def rd(4) w)+
  have "kernel_ok (upd_evt e ?f s1) c" using b(1,2) rd(3) by (simp add: kernel_ok_iff)
  moreover have "mpcp s e \<noteq> OS_PRIO_MUTEX_CEIL_DIS \<Longrightarrow> mpcp s e < 64" using ow by (simp add: mutex_owned_def)
  then have "mutex_free (upd_evt e ?f s1) e"
    using im rd(11) by (simp add: mutex_free_def is_mutex_def count_bytes rd(8))
  moreover have "ready s1 = (if prio s c = mpcp s e then swap_prio (mpcp s e) m (ready s) else ready s)"
    using r unfolding released_def by (elim conjE)
  ultimately show ?thesis using ex b(2,3) rd(4,9,10) by simp
qed

lemma OSMutexPost_hand_over:
  assumes ok: "kernel_ok s c" and mb: "may_block s c" and ow: "mutex_owned s e c m" and w: "waiters s e \<noteq> {}"
  shows "\<exists>t s' c'. OSMutexPost e s =
      Some (if mpcp s e \<noteq> OS_PRIO_MUTEX_CEIL_DIS \<and> prio s t \<le> mpcp s e then OS_ERR_PCP_LOWER else OS_ERR_NONE, s') \<and>
    first_waiter s e t \<and> mutex_owned s' e t (prio s t) \<and> prio s' t = prio s t \<and> waiters s' e = waiters s e - {prio s t} \<and>
    (\<not> susp (OSTCBTbl s t) \<longrightarrow> prio s t \<in> ready s') \<and>
    prio s' c = (if prio s c = mpcp s e then m else prio s c) \<and> kernel_ok s' c' \<and> highest_runs s'"
proof -
  obtain s1 where r: "released s e c m s1" and ex: "OSMutexPost e s = do {
      r \<leftarrow> OS_EventTaskRdy e VNull OS_STAT_MUTEX OS_STAT_PEND_OK s1;
      p \<leftarrow> prio_tbl (snd r) (fst r);
      own \<leftarrow> vtcb_of p;
      s3 \<leftarrow> OS_Sched (upd_evt e (\<lambda>ev. ev\<lparr>OSEventCnt := (OSEventCnt ev AND OS_MUTEX_KEEP_UPPER_8) OR ucast (fst r),
                         OSEventPtr := own\<rparr>) (snd r));
      Some (if mpcp s e \<noteq> OS_PRIO_MUTEX_CEIL_DIS \<and> fst r \<le> mpcp s e then OS_ERR_PCP_LOWER else OS_ERR_NONE, s3)
    }"
    using OSMutexPost_released [OF ok mb ow] unfolding if_not_P [OF w] by blast
  note rd = releasedD [OF r]
  have im: "is_mutex s1 e" using ow by (simp add: mutex_owned_def is_mutex_def rd(6))
  obtain t s2 where s2: "OS_EventTaskRdy e VNull OS_STAT_MUTEX OS_STAT_PEND_OK s1 = Some (prio s1 t, s2)" "first_waiter s1 e t"
    "readies s1 e VNull OS_STAT_PEND_OK {t} s2" "base_ok s2 c" "wq_frame s1 s2"
    using rdy_first [OF rd(1), of e VNull OS_STAT_PEND_OK] w is_mutexD(4) [OF im] by (auto simp: rd(4))
  have t: "act s1 t" "act s t" "prio s1 t \<in> waiters s1 e" using s2(2) rd(5) by (simp_all add: first_waiter_def)
  have "OSTCBTbl s1 c = OSTCBTbl s c \<or> OSTCBTbl s1 c = reprio m (OSTCBTbl s c)" using r unfolding released_def by metis
  then have "no_refs (OSTCBTbl s1 c)" using mb by (auto simp: may_block_def)
  then have "prio s1 c \<notin> waiters s1 e"
    using not_waiting [OF sched_invD(6) [OF base_okD(1,5) [OF rd(1)]]] by (simp add: no_refs_def)
  then have tc: "t \<noteq> c" using t(3) by blast
  note tbl = rd(10) [OF tc]
  have p: "prio s t < 64" "prio s t \<le> OS_LOWEST_PRIO" "OSTCBPrioTbl s1 (prio s t) = TPtr t"
    using t(1) by (simp_all add: act_def tbl le_63_less_64)
  have np: "prio s t \<noteq> mpcp s e" using p(1,3) rd(11) by (cases "mpcp s e = 0xFF") auto
  let ?f = "\<lambda>ev. ev\<lparr>OSEventCnt := (OSEventCnt ev AND OS_MUTEX_KEEP_UPPER_8) OR ucast (prio s t), OSEventPtr := VTcb t\<rparr>"
  let ?s = "upd_evt e ?f s2"
  have "evt_rest (OSEvents s2 e) = evt_rest (OSEvents s1 e)" using s2(5) by (simp add: wq_frame_def)
  note ev = evt_restD [OF this]
  have im2: "is_mutex s2 e" "mpcp s2 e = mpcp s e" using im rd(7) by (simp_all add: is_mutex_def mutex_pcp_def ev)
  have ne: "prio s t \<noteq> 0xFF" using p(1) by auto
  have v: "base_ok ?s c" "ready ?s = ready s2" "waiters ?s = waiters s2"
    by (rule mutex_value_ok [OF s2(4) im2(1)]; simp add: evt_bm_def count_bytes(1) ne)+
  obtain s' c' where s': "OS_Sched ?s = Some s'" "sw_frame ?s s'" "kernel_ok s' c'"
    "if unlocked ?s then highest_runs s' else s' = ?s \<and> c' = c"
    using OS_Sched_base [OF v(1)] by blast
  note fr = sw_frameD [OF s'(2)]
  have ul: "unlocked ?s" using rd(2) by (simp add: unlocked_def wq_frameD(4,5) [OF s2(5)])
  have pr: "prio s' u = prio s1 u" for u
    using readies_first(6) [OF s2(3), of u] sw_frame_same [OF s'(2), of u] by (simp add: same_taskD(10))
  have "act s' t" using t(1) wq_frameD(1) [OF s2(5)] by (simp add: act_def pr fr(2))
  then have ow': "mutex_owned s' e t (prio s t)"
    using im2 p np rd(11) ow wq_frameD(1) [OF s2(5)]
    by (simp add: mutex_owned_def is_mutex_def fr(1,2) count_bytes(1,2) pr tbl)
  have ex': "OSMutexPost e s = Some (if mpcp s e \<noteq> OS_PRIO_MUTEX_CEIL_DIS \<and> prio s t \<le> mpcp s e then OS_ERR_PCP_LOWER else OS_ERR_NONE, s')"
    using s2(1) s'(1) p(2,3) wq_frameD(1) [OF s2(5)] by (simp add: ex tbl prio_tbl_def vtcb_of_def)
  have fw: "first_waiter s e t"
    using s2(2) t(2) by (simp add: first_waiter_def rd(4) tbl)
  have "waiters s' e = waiters s e - {prio s t}" "\<not> susp (OSTCBTbl s t) \<longrightarrow> prio s t \<in> ready s'"
    using readies_first(1,5) [OF s2(3)] by (simp_all add: fr(18,19) v(2,3) rd(4) tbl)
  then show ?thesis
    using ex' fw ow' s'(3,4) ul pr [of t] pr [of c] rd(9) tbl by (intro exI conjI) simp_all
qed

subsection \<open>Deleting a mutex under a raised owner\<close>

text \<open>A switch to a priority whose table entry is empty.\<close>

lemma sched_switch_null:
  assumes bm: "bm_ok (rdy_bm s)" and p: "p \<in> ready s" "\<forall>q \<in> ready s. p \<le> q" "p < 64" "p \<noteq> OSPrioCur s" and tb: "OSTCBPrioTbl s p = TNull"
  shows "sched_switch s = None"
proof -
  have "bm_highest (rdy_bm s) = p" using p(1,2) by (intro bm.highest_eqI [OF bm]) (auto simp: ready_def)
  then show ?thesis using p(3,4) tb by (simp add: sched_switch_def Let_def OS_SchedNew_def prio_tbl_def le_63_less_64 deref_tcb_def)
qed

lemma OSMutexDel_no_pend:
  assumes ok: "kernel_ok s c" and ul: "unlocked s" and ow: "mutex_owned s e t m" and w: "waiters s e = {}" and en: "mpcp s e \<noteq> OS_PRIO_MUTEX_CEIL_DIS"
  shows "\<exists>s'. OSMutexDel e OS_DEL_NO_PEND s = Some (None, OS_ERR_NONE, s') \<and> OSTCBPrioTbl s' (mpcp s e) = TNull \<and>
    OSTCBTbl s' = OSTCBTbl s \<and> rdy_bm s' = rdy_bm s \<and> unlocked s' \<and> OSTCBCur s' = OSTCBCur s \<and> OSPrioCur s' = OSPrioCur s"
proof -
  have im: "is_mutex s e" and p: "mpcp s e \<le> OS_LOWEST_PRIO" using ow en by (simp_all add: mutex_owned_def le_63_less_64)
  have "OSEventGrp (OSEvents s e) = 0" using evt_bm_nonempty [OF kernel_okD(1) [OF ok]] w by simp
  then show ?thesis
    using is_mutexD(1,3) [OF im] ul p en
    by (simp add: OSMutexDel_def unlocked_def Let_def set_pcp_slot_def event_release_def rdy_bm_def upd_evt_def)
qed

lemma OSMutexDel_then_delay:
  assumes ok: "kernel_ok s c" and ul: "unlocked s" and ow: "mutex_owned s e t m" and w: "waiters s e = {}"
    and up: "prio s t = mpcp s e" "prio s t \<in> ready s" "t \<noteq> c" "\<forall>q \<in> ready s. q \<noteq> prio s c \<longrightarrow> prio s t \<le> q" and dl: "ticks > 0"
  shows "\<exists>s'. OSMutexDel e OS_DEL_NO_PEND s = Some (None, OS_ERR_NONE, s') \<and> OSTimeDly ticks s' = None"
proof -
  note d = kernel_okD [OF ok]
  have at: "act s t" using ow by (simp add: mutex_owned_def)
  then have t64: "prio s t < 64" by (simp add: act_def)
  then have "mpcp s e \<noteq> OS_PRIO_MUTEX_CEIL_DIS" unfolding up(1) [symmetric] by auto
  then obtain s' where s': "OSMutexDel e OS_DEL_NO_PEND s = Some (None, OS_ERR_NONE, s')" "OSTCBPrioTbl s' (mpcp s e) = TNull"
    "OSTCBTbl s' = OSTCBTbl s" "rdy_bm s' = rdy_bm s" "unlocked s'" "OSTCBCur s' = OSTCBCur s" "OSPrioCur s' = OSPrioCur s"
    using OSMutexDel_no_pend [OF ok ul ow w] by blast
  have tc: "prio s t \<noteq> prio s c" using act_prio_inj [OF at d(5)] up(3) by blast
  have tok: "tcb_prio_ok (OSTCBTbl s' c)" using sched_inv_tcb [OF d(1,5)] s'(3) by simp
  let ?s = "upd_tcb c (\<lambda>c. c\<lparr>OSTCBDly := ticks\<rparr>) (rdy_del c s')"
  have "bm_ok (rdy_bm s')" using sched_invD(1) [OF d(1)] s'(4) by simp
  then have bm: "bm_ok (rdy_bm ?s)" using bm_ok_rdy_del [OF tok] by simp
  have rd: "ready ?s = ready s - {prio s c}" using ready_rdy_del [OF tok] s'(3,4) by (simp add: ready_def)
  have fr: "OSTCBPrioTbl ?s = OSTCBPrioTbl s'" "OSPrioCur ?s = OSPrioCur s'" "OSIntNesting ?s = OSIntNesting s'" "OSLockNesting ?s = OSLockNesting s'"
    by (simp_all add: rdy_del_def set_rdy_bm_def upd_tcb_def Let_def)
  have "sched_switch ?s = None"
  proof (rule sched_switch_null [OF bm])
    show "prio s t \<in> ready ?s" "\<forall>q \<in> ready ?s. prio s t \<le> q" unfolding rd using up(2,4) tc by blast+
    show "prio s t \<noteq> OSPrioCur ?s" "OSTCBPrioTbl ?s (prio s t) = TNull" using tc s'(2,7) d(6) up(1) by (simp_all add: fr)
  qed (rule t64)
  then have "OSTimeDly ticks s' = None"
    using s'(5,6) d(7) dl by (simp add: OSTimeDly_def OS_Sched_def unlocked_def fr word_gt_0)
  then show ?thesis using s'(1) by blast
qed

section \<open>Properties\<close>

text \<open>C12: \<open>OSMutexPend\<close> on a mutex by the running task \<open>c\<close>, where \<open>c\<close> may block: at task level, scheduler unlocked, in its own
  code, not the idle task. A free mutex becomes \<open>c\<close>'s at once, with \<open>c\<close>'s priority as the one to go back to, and the code for a
  ceiling that is not above \<open>c\<close> is reported exactly then. If \<open>t\<close> owns it, \<open>t\<close> is raised to the ceiling, in the ready list or in the
  list it waits in, if it is less urgent than the ceiling and its original priority is less urgent than \<open>c\<close>; nothing else moves.
  Then \<open>c\<close> joins the wait list, \<open>t\<close> keeps the mutex, and the most urgent ready task runs. Where the owner is raised, it has to be
  another task than \<open>c\<close> and the idle task, and \<open>movable\<close>: it waits for no set of events, it is on no wait list if it is ready, and if
  it is not ready and points at an event it is on the wait list of that event. An owner whose own wait has timed out and that has
  not run since is not movable; there the code leaves a stale bit in the wait list, and the theorem says nothing.\<close>

theorem OSMutexPend_spec:
  assumes ok: "kernel_ok s c" and mb: "may_block s c"
    and mx: "mutex_free s e \<or> mutex_owned s e t m \<and>
      (mpcp s e \<noteq> OS_PRIO_MUTEX_CEIL_DIS \<and> mpcp s e < prio s t \<and> prio s c < m \<longrightarrow>
        t \<noteq> c \<and> prio s t \<noteq> OS_TASK_IDLE_PRIO \<and> movable s t)"
  shows "if mprio s e = ucast OS_MUTEX_AVAILABLE
    then \<exists>err s'. OSMutexPend e timeout s = Some (Returns err, s') \<and> kernel_ok s' c \<and> mutex_owned s' e c (prio s c) \<and>
      err = (if mpcp s e \<noteq> OS_PRIO_MUTEX_CEIL_DIS \<and> prio s c \<le> mpcp s e then OS_ERR_PCP_LOWER else OS_ERR_NONE)
    else \<exists>s1 s' c'. OSMutexPend e timeout s = Some (Blocks, s') \<and>
      (if mpcp s e \<noteq> OS_PRIO_MUTEX_CEIL_DIS \<and> mpcp s e < prio s t \<and> prio s c < m then moved s t (mpcp s e) s1 else s1 = s) \<and>
      blocks s1 c e timeout s' \<and> mutex_owned s' e t m \<and> kernel_ok s' c' \<and> highest_runs s' \<and> c' \<noteq> c"
proof (cases "mutex_free s e")
  case True
  then have "mprio s e = ucast OS_MUTEX_AVAILABLE" by (simp add: mutex_free_def)
  moreover have "unlocked s" using mb by (simp add: may_block_def)
  ultimately show ?thesis using OSMutexPend_free [OF ok _ True, of timeout] by (auto split: if_splits)
next
  case False
  then have ow: "mutex_owned s e t m" "mpcp s e \<noteq> OS_PRIO_MUTEX_CEIL_DIS \<and> mpcp s e < prio s t \<and> prio s c < m \<Longrightarrow>
      t \<noteq> c \<and> prio s t \<noteq> OS_TASK_IDLE_PRIO \<and> movable s t" using mx by blast+
  then have "mprio s e < 64" by (simp add: mutex_owned_def)
  then have "mprio s e \<noteq> ucast OS_MUTEX_AVAILABLE" by auto
  then show ?thesis using OSMutexPend_owned [OF ok mb ow, of timeout] unfolding if_not_P [OF \<open>mprio s e \<noteq> ucast OS_MUTEX_AVAILABLE\<close>] by blast
qed

text \<open>The sample, and the sample in which task 3 owns the mutex 6.\<close>

definition sample_owned :: os where
  "sample_owned = upd_evt 6 (\<lambda>ev. ev\<lparr>OSEventCnt := (OSEventCnt ev AND OS_MUTEX_KEEP_UPPER_8) OR ucast (prio sample 3), OSEventPtr := VTcb 3\<rparr>) sample"

lemma sample_mutex: "mutex_free sample 6" "mpcp sample 6 = 4"
  by (simp_all add: mutex_free_def is_mutex_def mutex_prio_def mutex_pcp_def sample_prios_def)

lemma sample_owned_ok:
  "kernel_ok sample_owned 1" "may_block sample_owned 1" "mutex_owned sample_owned 6 3 20" "mpcp sample_owned 6 = 4"
  "ready sample_owned = {10, 20, 63}" "waiters sample_owned = waiters sample" "OSTCBTbl sample_owned = sample_tasks"
proof -
  have "act sample 3" by (simp add: sample_act)
  note g = mutex_give_ok [OF kernel_ok_base [OF sample_kernel_ok] sample_mutex(1) this, folded sample_owned_def]
  show tb: "OSTCBTbl sample_owned = sample_tasks" by (simp add: sample_owned_def)
  show "ready sample_owned = {10, 20, 63}" "waiters sample_owned = waiters sample" "mpcp sample_owned 6 = 4"
    using g(2,3,5) sample_mutex(2) by (simp_all add: sample_ready)
  show "mutex_owned sample_owned 6 3 20" using g(4) sample_prio(4) by simp
  show "kernel_ok sample_owned 1" using g(1,2) sample_prio(2) by (simp add: kernel_ok_iff tb sample_ready)
  show "may_block sample_owned 1" using sample_may_block by (simp add: may_block_def unlocked_def sample_owned_def)
qed

lemma sample_owned_movable: "movable sample_owned 3"
  using sample_prio(4) by (simp add: movable_def sample_owned_ok sample_waiters) (simp add: sample_tasks_def sample_tcb_def tcb_zero_def)

theorem OSMutexPend_spec_witness:
  "(\<exists>s'. OSMutexPend 6 0 sample = Some (Returns OS_ERR_NONE, s') \<and> mutex_owned s' 6 1 10) \<and>
   (\<exists>s'. OSMutexPend 6 0 sample_owned = Some (Blocks, s') \<and> ready s' = {4, 63} \<and> waiters s' 6 = {10} \<and> prio s' 3 = 4)"
proof
  have "mprio sample 6 = 0xFF" by (simp add: mutex_prio_def)
  then show "\<exists>s'. OSMutexPend 6 0 sample = Some (Returns OS_ERR_NONE, s') \<and> mutex_owned s' 6 1 10"
    using OSMutexPend_spec [OF sample_kernel_ok sample_may_block, of 6 0 0 0] sample_mutex sample_prio(2) by auto
  have "mprio sample_owned 6 = 20" using sample_owned_ok(3) by (simp add: mutex_owned_def)
  then obtain s1 s' where s': "OSMutexPend 6 0 sample_owned = Some (Blocks, s')" "moved sample_owned 3 4 s1" "blocks s1 1 6 0 s'"
    using OSMutexPend_spec [OF sample_owned_ok(1,2), of 6 3 20 0] sample_owned_ok(3,4,7) sample_owned_movable sample_prio(2,4) by auto
  have "ready s1 = {4, 10, 63}" "waiters s1 6 = {}" "prio s1 1 = 10" "prio s1 3 = 4"
    using s'(2) sample_prio(2,4) by (auto simp: moved_def swap_prio_def sample_owned_ok sample_waiters)
  then have "ready s' = {4, 63}" "waiters s' 6 = {10}" "prio s' 3 = 4"
    using s'(3) blocks_cur(2) [OF s'(3), of 3] by (auto simp: blocks_def)
  then show "\<exists>s'. OSMutexPend 6 0 sample_owned = Some (Blocks, s') \<and> ready s' = {4, 63} \<and> waiters s' 6 = {10} \<and> prio s' 3 = 4"
    using s'(1) by blast
qed

text \<open>C13: \<open>OSMutexPost\<close> by the owner \<open>c\<close>, which goes back to its original priority \<open>m\<close> exactly if it runs at the ceiling. With no
  task waiting the mutex is free, its ceiling priority is reserved again, and \<open>c\<close> goes on running, even when a more urgent task
  is ready: the scheduler is not called. Otherwise the most urgent waiter owns the mutex, at its own priority, is off the wait
  list and ready unless suspended, and the most urgent ready task runs; the code for a ceiling that is too low is
  reported exactly if it is not above the new owner.\<close>

theorem OSMutexPost_spec:
  assumes ok: "kernel_ok s c" and mb: "may_block s c" and ow: "mutex_owned s e c m"
  shows "if waiters s e = {}
    then \<exists>s'. OSMutexPost e s = Some (OS_ERR_NONE, s') \<and> mutex_free s' e \<and> kernel_ok s' c \<and> OSTCBCur s' = TPtr c \<and>
      prio s' c = (if prio s c = mpcp s e then m else prio s c) \<and> (\<forall>u. u \<noteq> c \<longrightarrow> OSTCBTbl s' u = OSTCBTbl s u) \<and>
      ready s' = (if prio s c = mpcp s e then swap_prio (mpcp s e) m (ready s) else ready s) \<and> waiters s' = waiters s
    else \<exists>t s' c'. OSMutexPost e s =
        Some (if mpcp s e \<noteq> OS_PRIO_MUTEX_CEIL_DIS \<and> prio s t \<le> mpcp s e then OS_ERR_PCP_LOWER else OS_ERR_NONE, s') \<and>
      first_waiter s e t \<and> mutex_owned s' e t (prio s t) \<and> prio s' t = prio s t \<and> waiters s' e = waiters s e - {prio s t} \<and>
      (\<not> susp (OSTCBTbl s t) \<longrightarrow> prio s t \<in> ready s') \<and>
      prio s' c = (if prio s c = mpcp s e then m else prio s c) \<and> kernel_ok s' c' \<and> highest_runs s'"
proof (cases "waiters s e = {}")
  case True
  then show ?thesis using OSMutexPost_nobody [OF ok mb ow True] kernel_okD(4) unfolding if_P [OF True] by blast
next
  case False
  show ?thesis unfolding if_not_P [OF False] by (rule OSMutexPost_hand_over [OF ok mb ow False])
qed

text \<open>The raised owner of the sample hands the mutex over to the task that raised it.\<close>

theorem OSMutexPost_spec_witness:
  "\<exists>s s'. OSMutexPend 6 0 sample_owned = Some (Blocks, s) \<and> prio s 3 = 4 \<and> OSMutexPost 6 s = Some (OS_ERR_NONE, s') \<and>
     mutex_owned s' 6 1 10 \<and> prio s' 3 = 20 \<and> waiters s' 6 = {} \<and> 10 \<in> ready s'"
proof -
  obtain s1 s c' where s: "OSMutexPend 6 0 sample_owned = Some (Blocks, s)" "moved sample_owned 3 4 s1" "blocks s1 1 6 0 s"
    "mutex_owned s 6 3 20" "kernel_ok s c'" "unlocked s" "highest_runs s"
    using OSMutexPend_owned [OF sample_owned_ok(1,2,3), of 0] sample_owned_movable sample_owned_ok(4,7) sample_prio(2,4) by auto
  have pr: "prio s u = prio s1 u" for u by (rule blocks_cur(2) [OF s(3)])
  have p1: "prio s1 1 = 10" "prio s1 3 = 4" "ready s1 = {4, 10, 63}" "waiters s1 6 = {}" and pcp: "mpcp s1 6 = 4"
    using s(2) sample_prio(2,4) sample_owned_ok(4) evt_restD(2) [of "OSEvents s1 6" "OSEvents sample_owned 6"]
    by (auto simp: moved_def swap_prio_def sample_owned_ok sample_waiters mutex_pcp_def)
  have "same_task (OSTCBTbl s1 3) (OSTCBTbl s 3)" by (rule blocks_other [OF s(3)]) simp
  note t3 = same_taskD(6,7) [OF this]
  have "OSTCBTbl s1 3 = reprio 4 (sample_tasks 3)" using s(2) by (simp add: moved_def sample_owned_ok)
  then have nr: "no_refs (OSTCBTbl s 3)" by (simp add: no_refs_def t3) (simp add: sample_tasks_def sample_tcb_def tcb_zero_def)
  have sets: "ready s = {4, 63}" "waiters s 6 = {10}" "OSTCBPrioTbl s 10 = TPtr 1" "mpcp s 6 = 4"
    using s(2,3) p1 pcp evt_restD(2) [of "OSEvents s 6" "OSEvents s1 6"]
    by (auto simp: blocks_def moved_def mutex_pcp_def sample_owned_def sample_prios_def)
  have a3: "act s 3" using s(4) by (simp add: mutex_owned_def)
  have "prio s c' = 4" using s(5,7) sets(1) by (auto simp: highest_runs_def kernel_ok_iff cur_ok_iff base_ok_def cur_at_def)
  then have c': "c' = 3" using act_prio_inj [OF kernel_okD(5) [OF s(5)] a3] p1(2) pr [of 3] by simp
  have mb: "may_block s 3" using nr s(6) p1(2) pr [of 3] by (simp add: may_block_def)
  obtain t s' where r: "OSMutexPost 6 s = Some (if mpcp s 6 \<noteq> OS_PRIO_MUTEX_CEIL_DIS \<and> prio s t \<le> mpcp s 6 then OS_ERR_PCP_LOWER
      else OS_ERR_NONE, s')"
    "first_waiter s 6 t" "mutex_owned s' 6 t (prio s t)" "waiters s' 6 = waiters s 6 - {prio s t}"
    "\<not> susp (OSTCBTbl s t) \<longrightarrow> prio s t \<in> ready s'" "prio s' 3 = (if prio s 3 = mpcp s 6 then 20 else prio s 3)"
    using OSMutexPost_spec [OF s(5) [unfolded c'] mb s(4)] sets(2) by auto
  have t: "prio s t = 10" "t = 1" using r(2) sets(2,3) by (auto simp: first_waiter_def act_def)
  have "\<not> susp (OSTCBTbl s 1)"
    using blocks_cur(3) [OF s(3)] s(2) by (simp add: moved_def sample_owned_ok) (simp add: susp_def sample_tasks_def sample_tcb_def tcb_zero_def)
  then show ?thesis using s(1) r t sets(2,4) p1(2) pr [of 3] by auto
qed

text \<open>C14: \<open>OSMutexDel\<close> with \<open>OS_DEL_NO_PEND\<close> under a raised owner. If nobody waits, the call succeeds and empties the table entry
  of the ceiling priority although the owner, another task, still runs at it: when the caller then waits and the owner is the
  most urgent ready task, the scheduler follows the empty entry.\<close>

theorem OSMutexDel_strands_owner:
  assumes "kernel_ok s c" and "unlocked s" and "mutex_owned s e t m" and "waiters s e = {}"
    and "prio s t = mpcp s e" and "prio s t \<in> ready s" and "t \<noteq> c" and "\<forall>q \<in> ready s. q \<noteq> prio s c \<longrightarrow> prio s t \<le> q" and "ticks > 0"
  shows "\<exists>s'. OSMutexDel e OS_DEL_NO_PEND s = Some (None, OS_ERR_NONE, s') \<and> OSTimeDly ticks s' = None"
  by (rule OSMutexDel_then_delay [OF assms])

text \<open>The mutex 6 of the sample with the ceiling 15, owned by task 3 (priority 20) and not raised.\<close>

definition sample_15 :: os where
  "sample_15 = upd_evt 6 (\<lambda>ev. ev\<lparr>OSEventCnt := 0x0F14, OSEventPtr := VTcb 3\<rparr>) (sample\<lparr>OSTCBPrioTbl := sample_prios(15 := TReserved)\<rparr>)"

lemma sample_15_ok:
  "kernel_ok sample_15 1" "unlocked sample_15" "mutex_owned sample_15 6 3 20" "mpcp sample_15 6 = 15" "prio sample_15 1 = 10" "prio sample_15 3 = 20"
  "ready sample_15 = {10, 20, 63}" "waiters sample_15 = waiters sample" "slot_free sample_15 3 15" "movable sample_15 3"
proof -
  let ?s = "sample\<lparr>OSTCBPrioTbl := sample_prios(15 := TReserved)\<rparr>"
  have no: "prio sample u \<noteq> 15" if "act sample u" for u
  proof -
    have "u = 0 \<or> u = 1 \<or> u = 2 \<or> u = 3 \<or> u = 4" using that by (simp only: sample_act less_5)
    then show ?thesis by (elim disjE) (simp_all add: sample_tasks_def sample_tcb_def)
  qed
  have r: "base_ok ?s 1" "act ?s u \<longleftrightarrow> act sample u" "waiters ?s = waiters sample" "ready ?s = ready sample" for u
    unfolding sample_sel(4) [symmetric] by (rule reserve_slot [OF kernel_ok_base [OF sample_kernel_ok]], erule no)+
  let ?f = "\<lambda>ev. ev\<lparr>OSEventCnt := 0x0F14, OSEventPtr := VTcb 3\<rparr>"
  have im: "is_mutex ?s 6" by (simp add: is_mutex_def)
  note v = mutex_value_ok [OF r(1) im, of ?f, folded sample_15_def]
  have b: "base_ok sample_15 1" "ready sample_15 = ready ?s" "waiters sample_15 = waiters ?s"
    by (rule v; simp add: evt_bm_def r(3) sample_waiters)+
  show sets: "ready sample_15 = {10, 20, 63}" "waiters sample_15 = waiters sample" using b(2,3) r(3,4) sample_ready by simp_all
  have sel: "OSTCBTbl sample_15 = sample_tasks" "OSTCBPrioTbl sample_15 = sample_prios(15 := TReserved)"
    "OSEvents sample_15 6 = ?f (sample_event OS_EVENT_TYPE_MUTEX VNull 0x04FF bm_clear)"
    by (simp_all add: sample_15_def)
  show p: "prio sample_15 1 = 10" "prio sample_15 3 = 20" using sample_prio by (simp_all add: sel)
  show pcp: "mpcp sample_15 6 = 15" by (simp add: sel mutex_pcp_def)
  show "unlocked sample_15" by (simp add: unlocked_def sample_15_def)
  show "kernel_ok sample_15 1" using b(1) p(1) by (simp add: kernel_ok_iff sets)
  show "slot_free sample_15 3 15" by (simp add: slot_free_def sel)
  show "movable sample_15 3"
    using p(2) by (simp add: movable_def sets sample_waiters) (simp add: sel sample_tasks_def sample_tcb_def tcb_zero_def)
  show "mutex_owned sample_15 6 3 20"
  proof -
    have "mprio sample_15 6 = 20" "is_mutex sample_15 6" "OSEventPtr (OSEvents sample_15 6) = VTcb 3"
      by (simp_all add: sel mutex_prio_def is_mutex_def)
    moreover have "act sample_15 3" "OSTCBPrioTbl sample_15 20 = TPtr 3" "OSTCBPrioTbl sample_15 15 = TReserved"
      using p(2) by (simp_all add: act_def sel sample_prios_def)
    ultimately show ?thesis by (simp only: mutex_owned_def pcp) simp
  qed
qed

theorem OSMutexDel_strands_owner_witness:
  "\<exists>s s'. mutex_raise 3 15 sample_15 = Some s \<and> OSMutexDel 6 OS_DEL_NO_PEND s = Some (None, OS_ERR_NONE, s') \<and> OSTimeDly 1 s' = None"
proof -
  note k = sample_15_ok
  have a: "act sample_15 3" using k(3) by (simp add: mutex_owned_def)
  obtain s where s: "mutex_raise 3 15 sample_15 = Some s" "moved sample_15 3 15 s" "OSPrioCur s = OSPrioCur sample_15"
    using mutex_raise_moved [OF kernel_okD(1) [OF k(1)] a _ k(10), of 15] by auto
  have f: "prio s 1 = 10" "prio s 3 = 15" "ready s = {10, 15, 63}" "waiters s 6 = {}" "OSIntNesting s = 0" "OSLockNesting s = 0"
    using s(2) k(2,5,6) by (auto simp: moved_def swap_prio_def k(7,8) sample_waiters unlocked_def)
  have "base_ok s 1"
    by (rule moved_base_ok [OF kernel_ok_base [OF k(1)] a k(9) s(2)]) (use f s(3) kernel_okD(6) [OF k(1)] k(5,6) in simp_all)
  then have "kernel_ok s 1" using f by (simp add: kernel_ok_iff)
  moreover have "mutex_owned s 6 3 20" "mpcp s 6 = 15" using moved_owned [of sample_15 3 6 s 20] s(2) k(3,4) by simp_all
  ultimately show ?thesis
    using OSMutexDel_strands_owner [of s 1 6 3 20 1] s(1) f by (auto simp: unlocked_def)
qed

end
