(* ===== verification/OS_Multi.thy ===== *)
theory OS_Multi
  imports OS_Q
begin

text \<open>
  \<open>OSEventPendMulti\<close> of \<^verbatim>\<open>src/ucos/CORE/os_core.c\<close>: waiting for the first of several semaphores,
  mailboxes and queues. The null-terminated array of events is a list.
\<close>

text \<open>The first pass over the array: only semaphores, mailboxes and queues may be waited for.\<close>

fun multi_types_ok :: "nat list \<Rightarrow> os \<Rightarrow> bool option" where
  "multi_types_ok [] s = Some True"
| "multi_types_ok (e # es) s = do {
     ev \<leftarrow> evt s e;
     let ty = OSEventType ev;
     if ty = OS_EVENT_TYPE_SEM \<or> ty = OS_EVENT_TYPE_MBOX \<or> ty = OS_EVENT_TYPE_Q then multi_types_ok es s
     else Some False
   }"

text \<open>The second pass takes what is available. Accumulated: the arrays handed out (events and
  messages) and the status bits of the events that have nothing. \<open>None\<close> for the status is the exit
  for a wrong type.\<close>

fun multi_take :: "nat list \<Rightarrow> nat list \<Rightarrow> vptr list \<Rightarrow> u8 \<Rightarrow> os \<Rightarrow> (nat list \<times> vptr list \<times> u8 option \<times> os) option" where
  "multi_take [] revs msgs stat s = Some (revs, msgs, Some stat, s)"
| "multi_take (e # es) revs msgs stat s = do {
     ev \<leftarrow> evt s e;
     if OSEventType ev = OS_EVENT_TYPE_SEM
     then if OSEventCnt ev > 0
          then multi_take es (revs @ [e]) (msgs @ [VNull]) stat (upd_evt e (\<lambda>ev. ev\<lparr>OSEventCnt := OSEventCnt ev - 1\<rparr>) s)
          else multi_take es revs msgs (stat OR OS_STAT_SEM) s
     else if OSEventType ev = OS_EVENT_TYPE_MBOX
     then if OSEventPtr ev \<noteq> VNull
          then multi_take es (revs @ [e]) (msgs @ [OSEventPtr ev]) stat (upd_evt e (\<lambda>ev. ev\<lparr>OSEventPtr := VNull\<rparr>) s)
          else multi_take es revs msgs (stat OR OS_STAT_MBOX) s
     else if OSEventType ev = OS_EVENT_TYPE_Q
     then do {
       q \<leftarrow> deref_q (OSEventPtr ev);
       if OSQEntries (OSQTbl s q) > 0
       then let r = q_get q s in multi_take es (revs @ [e]) (msgs @ [fst r]) stat (snd r)
       else multi_take es revs msgs (stat OR OS_STAT_Q) s
     }
     else Some (revs, msgs, None, s)
   }"

text \<open>Up to the call of the scheduler. A call that returns hands out the array of ready events, the
  array of their messages, and the error code; the number returned is the length of the first.\<close>

definition OSEventPendMulti :: "nat list \<Rightarrow> u32 \<Rightarrow> os \<Rightarrow> ((nat list \<times> vptr list \<times> u8) pended \<times> os) option" where
  "OSEventPendMulti es timeout s = do {
     ok \<leftarrow> multi_types_ok es s;
     if \<not> ok then Some (Returns ([], [], OS_ERR_EVENT_TYPE), s)
     else if OSIntNesting s > 0 then Some (Returns ([], [], OS_ERR_PEND_ISR), s)
     else if OSLockNesting s > 0 then Some (Returns ([], [], OS_ERR_PEND_LOCKED), s)
     else do {
       r \<leftarrow> multi_take es [] [] OS_STAT_RDY s;
       case r of
         (revs, msgs, None, s1) \<Rightarrow> Some (Returns (revs, msgs, OS_ERR_EVENT_TYPE), s1)
       | (revs, msgs, Some events_stat, s1) \<Rightarrow>
           if revs \<noteq> [] then Some (Returns (revs, msgs, OS_ERR_NONE), s1)
           else do {
             cur \<leftarrow> deref_tcb (OSTCBCur s1);
             s2 \<leftarrow> OS_EventTaskWaitMulti es (upd_tcb cur (\<lambda>c. c\<lparr>
                OSTCBStat := OSTCBStat c OR (events_stat OR OS_STAT_MULTI),
                OSTCBStatPend := OS_STAT_PEND_OK, OSTCBDly := timeout\<rparr>) s1);
             s3 \<leftarrow> OS_Sched s2;
             Some (Blocks, s3)
           }
     }
   }"

text \<open>When the task runs again. With no event noted as ready the wait counts as timed out. The exit
  for an event that has changed its type leaves the control block as it is.\<close>

definition OSEventPendMulti_resume :: "nat list \<Rightarrow> os \<Rightarrow> (nat list \<times> vptr list \<times> u8 \<times> os) option" where
  "OSEventPendMulti_resume es s = do {
     cur \<leftarrow> deref_tcb (OSTCBCur s);
     let c = OSTCBTbl s cur;
     let rdy = OSTCBEventMultiRdy c;
     let st = (if OSTCBStatPend c = OS_STAT_PEND_OK \<or> OSTCBStatPend c = OS_STAT_PEND_ABORT
               then if rdy \<noteq> None then OSTCBStatPend c else OS_STAT_PEND_TO
               else OSTCBStatPend c);
     s1 \<leftarrow> (if st = OS_STAT_PEND_OK \<or> st = OS_STAT_PEND_ABORT then Some s
            else OS_EventTaskRemoveMulti cur es (upd_tcb cur (\<lambda>c. c\<lparr>OSTCBStatPend := st\<rparr>) s));
     let fin = upd_tcb cur (\<lambda>c. c\<lparr>OSTCBStat := OS_STAT_RDY, OSTCBStatPend := OS_STAT_PEND_OK,
                 OSTCBEventMultiPtr := None, OSTCBEventMultiRdy := None, OSTCBMsg := VNull\<rparr>);
     if st = OS_STAT_PEND_OK
     then do {
       e \<leftarrow> rdy;
       ev \<leftarrow> evt s1 e;
       if OSEventType ev = OS_EVENT_TYPE_SEM then Some ([e], [VNull], OS_ERR_NONE, fin s1)
       else if OSEventType ev = OS_EVENT_TYPE_MBOX \<or> OSEventType ev = OS_EVENT_TYPE_Q
       then Some ([e], [OSTCBMsg c], OS_ERR_NONE, fin s1)
       else Some ([e], [], OS_ERR_EVENT_TYPE, s1)
     }
     else if st = OS_STAT_PEND_ABORT
     then do { e \<leftarrow> rdy; Some ([e], [VNull], OS_ERR_PEND_ABORT, fin s1) }
     else Some ([], [VNull], OS_ERR_TIMEOUT, fin s1)
   }"

end
