(* ===== verification/OS_Mem.thy ===== *)
theory OS_Mem
  imports OS_Core
begin

text \<open>
  \<^verbatim>\<open>CORE/os_mem.c\<close>: partitions of blocks of one size. The free blocks of a partition are a list
  that runs through the blocks themselves: the first four bytes of a free block point to the next.
  The configuration of this firmware leaves the file out (\<open>OS_MEM_EN\<close> is 0); it is modelled with
  the other settings of \<^verbatim>\<open>os_cfg.h\<close> as they are. \<open>chk\<close> stands for \<open>OS_ARG_CHK_EN\<close>, so that both ways of
  building the file are covered.
\<close>

abbreviation (input) OS_MAX_MEM_PART :: nat where "OS_MAX_MEM_PART \<equiv> 5"

abbreviation (input) OS_ERR_PNAME_NULL :: u8 where "OS_ERR_PNAME_NULL \<equiv> 12"
abbreviation (input) OS_ERR_MEM_INVALID_PART :: u8 where "OS_ERR_MEM_INVALID_PART \<equiv> 90"
abbreviation (input) OS_ERR_MEM_INVALID_BLKS :: u8 where "OS_ERR_MEM_INVALID_BLKS \<equiv> 91"
abbreviation (input) OS_ERR_MEM_INVALID_SIZE :: u8 where "OS_ERR_MEM_INVALID_SIZE \<equiv> 92"
abbreviation (input) OS_ERR_MEM_NO_FREE_BLKS :: u8 where "OS_ERR_MEM_NO_FREE_BLKS \<equiv> 93"
abbreviation (input) OS_ERR_MEM_FULL :: u8 where "OS_ERR_MEM_FULL \<equiv> 94"
abbreviation (input) OS_ERR_MEM_INVALID_PBLK :: u8 where "OS_ERR_MEM_INVALID_PBLK \<equiv> 95"
abbreviation (input) OS_ERR_MEM_INVALID_PMEM :: u8 where "OS_ERR_MEM_INVALID_PMEM \<equiv> 96"
abbreviation (input) OS_ERR_MEM_INVALID_PDATA :: u8 where "OS_ERR_MEM_INVALID_PDATA \<equiv> 97"
abbreviation (input) OS_ERR_MEM_INVALID_ADDR :: u8 where "OS_ERR_MEM_INVALID_ADDR \<equiv> 98"

subsection \<open>State\<close>

text \<open>The field \<open>OSMemFreeList\<close> of a control block points to the next control block while the
  partition is unused, and to the first free block of the partition afterwards.\<close>

datatype mem_link = LMcb "nat option" | LBlk u32

record OS_MEM =
  OSMemAddr :: u32
  OSMemFreeList :: mem_link
  OSMemBlkSize :: u32
  OSMemNBlks :: u32
  OSMemNFree :: u32
  OSMemName :: "string option"

record OS_MEM_DATA =
  OSAddr :: u32
  OSFreeList :: mem_link
  OSBlkSize :: u32
  OSNBlks :: u32
  OSNFree :: u32
  OSNUsed :: u32

text \<open>\<open>OSMemFreeList_G\<close> is the global variable of the name \<open>OSMemFreeList\<close>, \<open>OSMem_bytes\<close> the memory the
  partitions lie in. Control blocks are named by their index in \<open>OSMemTbl\<close>.\<close>

record os_mem =
  OSMemTbl :: "nat \<Rightarrow> OS_MEM"
  OSMemFreeList_G :: "nat option"
  OSMem_bytes :: "u32 \<Rightarrow> u8"

text \<open>\<open>*(void **)a\<close>, read and written, four bytes with the lowest first.\<close>

definition ld_ptr :: "(u32 \<Rightarrow> u8) \<Rightarrow> u32 \<Rightarrow> u32" where
  "ld_ptr m a = ucast (m a) OR push_bit 8 (ucast (m (a + 1))) OR push_bit 16 (ucast (m (a + 2))) OR push_bit 24 (ucast (m (a + 3)))"

definition st_ptr :: "(u32 \<Rightarrow> u8) \<Rightarrow> u32 \<Rightarrow> u32 \<Rightarrow> (u32 \<Rightarrow> u8)" where
  "st_ptr m a v = m(a := ucast v, a + 1 := ucast (drop_bit 8 v), a + 2 := ucast (drop_bit 16 v), a + 3 := ucast (drop_bit 24 v))"

definition mem_upd :: "nat \<Rightarrow> OS_MEM \<Rightarrow> os_mem \<Rightarrow> os_mem" where
  "mem_upd p pm s = s\<lparr>OSMemTbl := (OSMemTbl s)(p := pm)\<rparr>"

text \<open>The control block a pointer leads to.\<close>

definition mem_deref :: "nat option \<Rightarrow> os_mem \<Rightarrow> (nat \<times> OS_MEM) option" where
  "mem_deref pmem s = (case pmem of None \<Rightarrow> None | Some p \<Rightarrow> if p < OS_MAX_MEM_PART then Some (p, OSMemTbl s p) else None)"

subsection \<open>Initialisation and creation\<close>

definition mem_zero :: OS_MEM where
  "mem_zero = \<lparr>OSMemAddr = 0, OSMemFreeList = LMcb None, OSMemBlkSize = 0, OSMemNBlks = 0, OSMemNFree = 0, OSMemName = None\<rparr>"

text \<open>The loop of \<open>OS_MemInit\<close> chains \<open>n\<close> control blocks from \<open>i\<close> on.\<close>

fun mem_init_loop :: "nat \<Rightarrow> nat \<Rightarrow> (nat \<Rightarrow> OS_MEM) \<Rightarrow> (nat \<Rightarrow> OS_MEM)" where
  "mem_init_loop 0 i tbl = tbl(i := (tbl i)\<lparr>OSMemFreeList := LMcb None, OSMemName := Some ''?''\<rparr>)"
| "mem_init_loop (Suc n) i tbl =
     mem_init_loop n (i + 1) (tbl(i := (tbl i)\<lparr>OSMemFreeList := LMcb (Some (i + 1)), OSMemName := Some ''?''\<rparr>))"

definition OS_MemInit :: "os_mem \<Rightarrow> os_mem" where
  "OS_MemInit s = s\<lparr>OSMemTbl := mem_init_loop (OS_MAX_MEM_PART - 1) 0 (\<lambda>_. mem_zero), OSMemFreeList_G := Some 0\<rparr>"

text \<open>The loop of \<open>OSMemCreate\<close>, and the null pointer in the last block.\<close>

fun link_loop :: "nat \<Rightarrow> u32 \<Rightarrow> u32 \<Rightarrow> u32 \<Rightarrow> (u32 \<Rightarrow> u8) \<Rightarrow> (u32 \<Rightarrow> u8)" where
  "link_loop 0 plink pblk blksize m = st_ptr m plink 0"
| "link_loop (Suc loops) plink pblk blksize m =
     (let pblk = pblk + blksize; m = st_ptr m plink pblk in link_loop loops pblk pblk blksize m)"

definition OSMemCreate :: "bool \<Rightarrow> u32 \<Rightarrow> u32 \<Rightarrow> u32 \<Rightarrow> os_mem \<Rightarrow> ((u8 \<times> nat option) \<times> os_mem) option" where
  "OSMemCreate chk addr nblks blksize s =
     (if chk \<and> addr = 0 then Some ((OS_ERR_MEM_INVALID_ADDR, None), s)
      else if chk \<and> addr AND (4 - 1) \<noteq> 0 then Some ((OS_ERR_MEM_INVALID_ADDR, None), s)
      else if chk \<and> nblks < 2 then Some ((OS_ERR_MEM_INVALID_BLKS, None), s)
      else if chk \<and> blksize < 4 then Some ((OS_ERR_MEM_INVALID_SIZE, None), s)
      else case OSMemFreeList_G s of
        None \<Rightarrow> Some ((OS_ERR_MEM_INVALID_PART, None), s)
      | Some p \<Rightarrow> do {
          (_, pm) \<leftarrow> mem_deref (Some p) s;
          nxt \<leftarrow> (case OSMemFreeList pm of LMcb n \<Rightarrow> Some n | LBlk _ \<Rightarrow> None);
          let s1 = s\<lparr>OSMemFreeList_G := nxt,
                     OSMem_bytes := link_loop (unat (nblks - 1)) addr addr blksize (OSMem_bytes s)\<rparr>;
          Some ((OS_ERR_NONE, Some p), mem_upd p (pm\<lparr>OSMemAddr := addr, OSMemFreeList := LBlk addr, OSMemNFree := nblks,
            OSMemNBlks := nblks, OSMemBlkSize := blksize\<rparr>) s1)
        })"

subsection \<open>Blocks\<close>

definition OSMemGet :: "bool \<Rightarrow> nat option \<Rightarrow> os_mem \<Rightarrow> ((u8 \<times> u32) \<times> os_mem) option" where
  "OSMemGet chk pmem s =
     (if chk \<and> pmem = None then Some ((OS_ERR_MEM_INVALID_PMEM, 0), s)
      else do {
        (p, pm) \<leftarrow> mem_deref pmem s;
        if OSMemNFree pm > 0 then
          case OSMemFreeList pm of
            LMcb _ \<Rightarrow> None
          | LBlk pblk \<Rightarrow> Some ((OS_ERR_NONE, pblk),
              mem_upd p (pm\<lparr>OSMemFreeList := LBlk (ld_ptr (OSMem_bytes s) pblk), OSMemNFree := OSMemNFree pm - 1\<rparr>) s)
        else Some ((OS_ERR_MEM_NO_FREE_BLKS, 0), s)
      })"

definition OSMemPut :: "bool \<Rightarrow> nat option \<Rightarrow> u32 \<Rightarrow> os_mem \<Rightarrow> (u8 \<times> os_mem) option" where
  "OSMemPut chk pmem pblk s =
     (if chk \<and> pmem = None then Some (OS_ERR_MEM_INVALID_PMEM, s)
      else if chk \<and> pblk = 0 then Some (OS_ERR_MEM_INVALID_PBLK, s)
      else do {
        (p, pm) \<leftarrow> mem_deref pmem s;
        if OSMemNFree pm \<ge> OSMemNBlks pm then Some (OS_ERR_MEM_FULL, s)
        else case OSMemFreeList pm of
            LMcb _ \<Rightarrow> None
          | LBlk fl \<Rightarrow> Some (OS_ERR_NONE,
              mem_upd p (pm\<lparr>OSMemFreeList := LBlk pblk, OSMemNFree := OSMemNFree pm + 1\<rparr>)
                (s\<lparr>OSMem_bytes := st_ptr (OSMem_bytes s) pblk fl\<rparr>))
      })"

subsection \<open>Queries and names\<close>

text \<open>A destination pointer of the caller is a truth value: whether it is not null.\<close>

definition OSMemQuery :: "bool \<Rightarrow> nat option \<Rightarrow> bool \<Rightarrow> os_mem \<Rightarrow> (u8 \<times> OS_MEM_DATA option) option" where
  "OSMemQuery chk pmem p_mem_data s =
     (if chk \<and> pmem = None then Some (OS_ERR_MEM_INVALID_PMEM, None)
      else if chk \<and> \<not> p_mem_data then Some (OS_ERR_MEM_INVALID_PDATA, None)
      else do {
        (p, pm) \<leftarrow> mem_deref pmem s;
        guard p_mem_data;
        Some (OS_ERR_NONE, Some \<lparr>OSAddr = OSMemAddr pm, OSFreeList = OSMemFreeList pm, OSBlkSize = OSMemBlkSize pm,
          OSNBlks = OSMemNBlks pm, OSNFree = OSMemNFree pm, OSNUsed = OSMemNBlks pm - OSMemNFree pm\<rparr>)
      })"

definition OSMemNameGet :: "bool \<Rightarrow> nat option \<Rightarrow> bool \<Rightarrow> os \<Rightarrow> os_mem \<Rightarrow> (u8 \<times> string option \<times> u8) option" where
  "OSMemNameGet chk pmem pname k s =
     (if chk \<and> pmem = None then Some (0, None, OS_ERR_MEM_INVALID_PMEM)
      else if chk \<and> \<not> pname then Some (0, None, OS_ERR_PNAME_NULL)
      else if OSIntNesting k > 0 then Some (0, None, OS_ERR_NAME_GET_ISR)
      else do {
        (p, pm) \<leftarrow> mem_deref pmem s;
        guard pname;
        nm \<leftarrow> OSMemName pm;
        Some (OS_StrLen nm, Some nm, OS_ERR_NONE)
      })"

definition OSMemNameSet :: "bool \<Rightarrow> nat option \<Rightarrow> string option \<Rightarrow> os \<Rightarrow> os_mem \<Rightarrow> (u8 \<times> os_mem) option" where
  "OSMemNameSet chk pmem pname k s =
     (if chk \<and> pmem = None then Some (OS_ERR_MEM_INVALID_PMEM, s)
      else if chk \<and> pname = None then Some (OS_ERR_PNAME_NULL, s)
      else if OSIntNesting k > 0 then Some (OS_ERR_NAME_SET_ISR, s)
      else do {
        (p, pm) \<leftarrow> mem_deref pmem s;
        Some (OS_ERR_NONE, mem_upd p (pm\<lparr>OSMemName := pname\<rparr>) s)
      })"

end
