(* ===== verification/OS_Mem_Proofs.thy ===== *)
theory OS_Mem_Proofs
  imports OS_Mem
begin

text \<open>
  The memory partitions. A locale states what the lists in memory need of loads and stores; the
  invariant \<open>mem_inv\<close> says that the blocks of every partition are shared out between its free list and
  those who hold them; every operation and every write of a holder into its own blocks keeps it.
\<close>

subsection \<open>Lists that run through memory\<close>

fun chain :: "('m \<Rightarrow> u32 \<Rightarrow> u32) \<Rightarrow> 'm \<Rightarrow> u32 \<Rightarrow> u32 list \<Rightarrow> bool" where
  "chain ld m a [] \<longleftrightarrow> a = 0"
| "chain ld m a (x # xs) \<longleftrightarrow> a = x \<and> x \<noteq> 0 \<and> chain ld m (ld m x) xs"

text \<open>Two cells of four bytes do not overlap.\<close>

definition apart :: "u32 \<Rightarrow> u32 \<Rightarrow> bool" where
  "apart a b \<longleftrightarrow> 4 \<le> b - a \<and> 4 \<le> a - b"

locale ptr_store =
  fixes ld :: "'m \<Rightarrow> u32 \<Rightarrow> u32" and st :: "'m \<Rightarrow> u32 \<Rightarrow> u32 \<Rightarrow> 'm"
  assumes ld_st_same: "ld (st m a v) a = v"
    and ld_st_apart: "apart a b \<Longrightarrow> ld (st m a v) b = ld m b"
begin

lemma chain_cong: "(\<And>x. x \<in> set xs \<Longrightarrow> ld m' x = ld m x) \<Longrightarrow> chain ld m' a xs = chain ld m a xs"
  by (induction xs arbitrary: a) auto

lemma chain_st: "(\<And>x. x \<in> set xs \<Longrightarrow> apart b x) \<Longrightarrow> chain ld (st m b v) a xs = chain ld m a xs"
  by (rule chain_cong) (simp add: ld_st_apart)

lemma chain_push:
  assumes "chain ld m a xs" and "b \<noteq> 0" and "\<And>x. x \<in> set xs \<Longrightarrow> apart b x"
  shows "chain ld (st m b a) b (b # xs)"
  using assms by (simp add: ld_st_same chain_st)

lemma chain_unique: "chain ld m a xs \<Longrightarrow> chain ld m a ys \<Longrightarrow> xs = ys"
proof (induction xs arbitrary: a ys)
  case Nil
  then show ?case by (cases ys) auto
next
  case (Cons x xs)
  then show ?case by (cases ys) auto
qed

end

lemma add_cell_eq:
  fixes a b :: u32
  assumes "b + i = a + j" and "i < 4" and "j < 4"
  shows "b - a < 4 \<or> a - b < 4"
proof (cases "i \<le> j")
  case True
  have "b - a = j - i" using assms(1) by (simp add: algebra_simps)
  moreover have "j - i \<le> j" using True by (rule word_sub_le)
  ultimately show ?thesis using assms(3) by auto
next
  case False
  then have "j \<le> i" by simp
  have "a - b = i - j" using assms(1) by (simp add: algebra_simps)
  moreover have "i - j \<le> i" using \<open>j \<le> i\<close> by (rule word_sub_le)
  ultimately show ?thesis using assms(2) by auto
qed

lemma apart_cells:
  assumes "apart a b" and "i < 4" and "j < 4"
  shows "b + i \<noteq> a + j"
  using add_cell_eq [of b i a j] assms by (auto simp: apart_def)

lemma ld_ptr_st_same: "ld_ptr (st_ptr m a v) a = v"
proof -
  have "ucast (ucast v :: u8) OR push_bit 8 (ucast (ucast (drop_bit 8 v) :: u8)) OR
     push_bit 16 (ucast (ucast (drop_bit 16 v) :: u8)) OR push_bit 24 (ucast (ucast (drop_bit 24 v) :: u8)) = v"
  proof (rule bit_word_eqI)
    fix n :: nat
    assume "n < LENGTH(32)"
    then show "bit (ucast (ucast v :: u8) OR push_bit 8 (ucast (ucast (drop_bit 8 v) :: u8)) OR
       push_bit 16 (ucast (ucast (drop_bit 16 v) :: u8)) OR push_bit 24 (ucast (ucast (drop_bit 24 v) :: u8)) :: u32) n = bit v n"
      by (cases "24 \<le> n"; cases "16 \<le> n"; cases "8 \<le> n")
        (auto simp: bit_or_iff bit_push_bit_iff bit_unsigned_iff bit_drop_bit_eq possible_bit_def not_le dest: bit_imp_le_length)
  qed
  then show ?thesis by (simp add: ld_ptr_def st_ptr_def)
qed

lemma ld_ptr_st_apart:
  assumes "apart a b"
  shows "ld_ptr (st_ptr m a v) b = ld_ptr m b"
proof -
  note no = apart_cells [OF assms]
  have "st_ptr m a v (b + i) = m (b + i)" if "i < 4" for i
    using no [OF that, of 0] no [OF that, of 1] no [OF that, of 2] no [OF that, of 3] by (simp add: st_ptr_def)
  from this [of 0] this [of 1] this [of 2] this [of 3] show ?thesis by (simp add: ld_ptr_def)
qed

interpretation mem: ptr_store ld_ptr st_ptr
  by unfold_locales (simp_all add: ld_ptr_st_same ld_ptr_st_apart)

lemma ld_ptr_byte:
  assumes "4 \<le> y - x"
  shows "ld_ptr (m(y := v)) x = ld_ptr m x"
proof -
  have "x + i \<noteq> y" if "i < 4" for i
    using assms that by (metis add_diff_cancel_left' not_le)
  from this [of 0] this [of 1] this [of 2] this [of 3] show ?thesis by (simp add: ld_ptr_def)
qed

subsection \<open>Partitions as sets of blocks\<close>

text \<open>A partition lies in memory without wrapping round the end of it, and away from address 0.\<close>

definition fits :: "u32 \<Rightarrow> u32 \<Rightarrow> u32 \<Rightarrow> bool" where
  "fits addr nblks blksize \<longleftrightarrow> addr \<noteq> 0 \<and> nblks \<noteq> 0 \<and> 4 \<le> blksize \<and> unat addr + unat nblks * unat blksize \<le> 2 ^ 32"

definition region :: "u32 \<Rightarrow> u32 \<Rightarrow> u32 \<Rightarrow> nat set" where
  "region addr nblks blksize = {unat addr ..< unat addr + unat nblks * unat blksize}"

definition block_at :: "u32 \<Rightarrow> u32 \<Rightarrow> nat \<Rightarrow> u32" where
  "block_at addr blksize i = addr + of_nat i * blksize"

definition block_list :: "u32 \<Rightarrow> u32 \<Rightarrow> u32 \<Rightarrow> u32 list" where
  "block_list addr nblks blksize = map (block_at addr blksize) [0..<unat nblks]"

lemma unat_block_at:
  assumes "fits addr nblks blksize" and "i < unat nblks"
  shows "unat (block_at addr blksize i) = unat addr + i * unat blksize"
    and "unat addr + i * unat blksize + unat blksize \<le> unat addr + unat nblks * unat blksize"
    and "unat addr + unat nblks * unat blksize \<le> 2 ^ 32"
proof -
  have "Suc i * unat blksize \<le> unat nblks * unat blksize"
    using assms(2) by (intro mult_le_mono1) simp
  then show le: "unat addr + i * unat blksize + unat blksize \<le> unat addr + unat nblks * unat blksize"
    by simp
  show top: "unat addr + unat nblks * unat blksize \<le> 2 ^ 32"
    using assms(1) by (simp add: fits_def)
  have "unat blksize \<ge> 4" using assms(1) by (simp add: fits_def word_le_nat_alt)
  then have lt: "unat addr + i * unat blksize < 2 ^ 32" using le top by linarith
  have "of_nat (unat addr + i * unat blksize) = block_at addr blksize i"
    by (simp add: block_at_def)
  then show "unat (block_at addr blksize i) = unat addr + i * unat blksize"
    using lt by (intro of_nat_inverse) simp_all
qed

lemma apartI:
  assumes "unat a + 4 \<le> unat b" and "unat b + 4 \<le> 2 ^ 32"
  shows "apart a b" and "apart b a"
proof -
  have ba: "unat (b - a) = unat b - unat a" and ab: "unat (a - b) = unat a + 2 ^ 32 - unat b"
    using assms(1) by (simp_all add: unat_sub_if')
  show "apart a b" and "apart b a"
    unfolding apart_def word_le_nat_alt ba ab using assms by auto
qed

lemma fits_size: "fits addr n sz \<Longrightarrow> 4 \<le> unat sz"
  by (simp add: fits_def word_le_nat_alt)

lemma block_at_inj:
  assumes "fits addr n sz" and "i < unat n" "j < unat n" and "block_at addr sz i = block_at addr sz j"
  shows "i = j"
proof -
  have "i * unat sz = j * unat sz"
    using unat_block_at(1) [OF assms(1,2)] unat_block_at(1) [OF assms(1,3)] assms(4) by (metis add_left_cancel)
  moreover have "unat sz \<noteq> 0" using fits_size [OF assms(1)] by simp
  ultimately show ?thesis by (simp only: mult_cancel2 simp_thms)
qed

lemma block_list_facts:
  assumes "fits addr n sz"
  shows "distinct (block_list addr n sz)" and "length (block_list addr n sz) = unat n" and "0 \<notin> set (block_list addr n sz)"
proof -
  show "distinct (block_list addr n sz)"
    using block_at_inj [OF assms] by (auto simp: block_list_def distinct_map inj_on_def)
  show "length (block_list addr n sz) = unat n" by (simp add: block_list_def)
  have "block_at addr sz i \<noteq> 0" if "i < unat n" for i
    using unat_block_at(1) [OF assms that] assms by (auto simp: fits_def unat_eq_0)
  then show "0 \<notin> set (block_list addr n sz)" by (auto simp: block_list_def)
qed

lemma block_in_region:
  assumes "fits addr n sz" and "b \<in> set (block_list addr n sz)"
  shows "{unat b..<unat b + unat sz} \<subseteq> region addr n sz" and "unat b + unat sz \<le> 2 ^ 32"
proof -
  obtain i where i: "i < unat n" "b = block_at addr sz i"
    using assms(2) by (auto simp: block_list_def)
  note u = unat_block_at [OF assms(1) i(1)]
  show "{unat b..<unat b + unat sz} \<subseteq> region addr n sz"
    using u by (auto simp: region_def i(2))
  show "unat b + unat sz \<le> 2 ^ 32" using u by (simp add: i(2))
qed

lemma blocks_disjoint:
  assumes "fits addr n sz" and "b \<in> set (block_list addr n sz)" "c \<in> set (block_list addr n sz)" and "b \<noteq> c"
  shows "unat b + unat sz \<le> unat c \<or> unat c + unat sz \<le> unat b"
proof -
  obtain i j where ij: "i < unat n" "b = block_at addr sz i" "j < unat n" "c = block_at addr sz j"
    using assms(2,3) by (auto simp: block_list_def)
  have "i \<noteq> j" using ij assms(4) by auto
  then have "i < j \<or> j < i" by linarith
  then have "Suc i * unat sz \<le> j * unat sz \<or> Suc j * unat sz \<le> i * unat sz"
    by (metis Suc_leI mult_le_mono1)
  then show ?thesis
    using unat_block_at(1) [OF assms(1) ij(1)] unat_block_at(1) [OF assms(1) ij(3)] by (auto simp: ij(2,4))
qed

lemma blocks_apart:
  assumes f: "fits addr n sz" and b: "b \<in> set (block_list addr n sz)" "c \<in> set (block_list addr n sz)" and "b \<noteq> c"
  shows "apart b c"
  using blocks_disjoint [OF assms] fits_size [OF f] block_in_region(2) [OF f b(1)] block_in_region(2) [OF f b(2)]
    apartI(1) [of b c] apartI(2) [of c b] by linarith

lemma regions_apart:
  assumes f: "fits a n sz" and b: "b \<in> set (block_list a n sz)" and g: "fits a' n' sz'" and c: "c \<in> set (block_list a' n' sz')"
    and dis: "region a n sz \<inter> region a' n' sz' = {}"
  shows "apart b c"
proof -
  have "{unat b..<unat b + unat sz} \<inter> {unat c..<unat c + unat sz'} = {}"
    using block_in_region(1) [OF f b] block_in_region(1) [OF g c] dis by blast
  then have "max (unat b) (unat c) \<notin> {unat b..<unat b + unat sz} \<inter> {unat c..<unat c + unat sz'}" by blast
  then have "unat b + unat sz \<le> unat c \<or> unat c + unat sz' \<le> unat b"
    using fits_size [OF f] fits_size [OF g] by (auto simp: max_def split: if_splits)
  then show ?thesis
    using fits_size [OF f] fits_size [OF g] block_in_region(2) [OF f b] block_in_region(2) [OF g c]
      apartI(1) [of b c] apartI(2) [of c b] by linarith
qed

subsection \<open>The invariant\<close>

definition part_blocks :: "OS_MEM \<Rightarrow> u32 list" where
  "part_blocks pm = block_list (OSMemAddr pm) (OSMemNBlks pm) (OSMemBlkSize pm)"

definition part_region :: "OS_MEM \<Rightarrow> nat set" where
  "part_region pm = region (OSMemAddr pm) (OSMemNBlks pm) (OSMemBlkSize pm)"

definition part_fits :: "OS_MEM \<Rightarrow> bool" where
  "part_fits pm \<longleftrightarrow> fits (OSMemAddr pm) (OSMemNBlks pm) (OSMemBlkSize pm)"

text \<open>The blocks \<open>held\<close> are out, the others are the free list.\<close>

definition part_ok :: "(u32 \<Rightarrow> u8) \<Rightarrow> OS_MEM \<Rightarrow> u32 set \<Rightarrow> bool" where
  "part_ok m pm held \<longleftrightarrow> part_fits pm \<and> held \<subseteq> set (part_blocks pm) \<and>
     (\<exists>a xs. OSMemFreeList pm = LBlk a \<and> chain ld_ptr m a xs \<and> distinct xs \<and> set xs = set (part_blocks pm) - held \<and>
       unat (OSMemNFree pm) = length xs)"

text \<open>The unused control blocks, in the order of their list.\<close>

fun mcb_chain :: "(nat \<Rightarrow> OS_MEM) \<Rightarrow> nat option \<Rightarrow> nat list \<Rightarrow> bool" where
  "mcb_chain tbl p [] \<longleftrightarrow> p = None"
| "mcb_chain tbl p (x # xs) \<longleftrightarrow> p = Some x \<and> (\<exists>n. OSMemFreeList (tbl x) = LMcb n \<and> mcb_chain tbl n xs)"

lemma mcb_chain_cong:
  "(\<And>x. x \<in> set xs \<Longrightarrow> OSMemFreeList (tbl' x) = OSMemFreeList (tbl x)) \<Longrightarrow> mcb_chain tbl' p xs = mcb_chain tbl p xs"
  by (induction xs arbitrary: p) auto

definition mem_used :: "os_mem \<Rightarrow> nat \<Rightarrow> bool" where
  "mem_used s p \<longleftrightarrow> p < OS_MAX_MEM_PART \<and> OSMemNBlks (OSMemTbl s p) \<noteq> 0"

text \<open>\<open>H p\<close> are the blocks of partition \<open>p\<close> that are out.\<close>

definition mem_inv :: "os_mem \<Rightarrow> (nat \<Rightarrow> u32 set) \<Rightarrow> bool" where
  "mem_inv s H \<longleftrightarrow>
     (\<forall>p. mem_used s p \<longrightarrow> part_ok (OSMem_bytes s) (OSMemTbl s p) (H p)) \<and>
     (\<forall>p q. mem_used s p \<longrightarrow> mem_used s q \<longrightarrow> p \<noteq> q \<longrightarrow> part_region (OSMemTbl s p) \<inter> part_region (OSMemTbl s q) = {}) \<and>
     (\<forall>p. \<not> mem_used s p \<longrightarrow> H p = {}) \<and>
     (\<forall>p < OS_MAX_MEM_PART. \<not> mem_used s p \<longrightarrow> OSMemNFree (OSMemTbl s p) = 0) \<and>
     (\<exists>fs. mcb_chain (OSMemTbl s) (OSMemFreeList_G s) fs \<and> distinct fs \<and> set fs = {p. p < OS_MAX_MEM_PART \<and> \<not> mem_used s p})"

lemma mem_invD:
  assumes "mem_inv s H"
  shows "mem_used s p \<Longrightarrow> part_ok (OSMem_bytes s) (OSMemTbl s p) (H p)"
    and "mem_used s p \<Longrightarrow> mem_used s q \<Longrightarrow> p \<noteq> q \<Longrightarrow> part_region (OSMemTbl s p) \<inter> part_region (OSMemTbl s q) = {}"
    and "\<not> mem_used s p \<Longrightarrow> H p = {}"
    and "p < OS_MAX_MEM_PART \<Longrightarrow> \<not> mem_used s p \<Longrightarrow> OSMemNFree (OSMemTbl s p) = 0"
  using assms unfolding mem_inv_def by blast+

lemma mem_inv_free:
  assumes "mem_inv s H"
  obtains fs where "mcb_chain (OSMemTbl s) (OSMemFreeList_G s) fs" "distinct fs"
    "set fs = {p. p < OS_MAX_MEM_PART \<and> \<not> mem_used s p}"
  using assms unfolding mem_inv_def by blast

lemma mem_upd_sel [simp]:
  "OSMemTbl (mem_upd p pm s) = (OSMemTbl s)(p := pm)" "OSMem_bytes (mem_upd p pm s) = OSMem_bytes s"
  "OSMemFreeList_G (mem_upd p pm s) = OSMemFreeList_G s"
  by (simp_all add: mem_upd_def)

lemma part_ok_cong:
  assumes "part_ok m pm held" and "\<And>x. x \<in> set (part_blocks pm) - held \<Longrightarrow> ld_ptr m' x = ld_ptr m x"
  shows "part_ok m' pm held"
proof -
  have "chain ld_ptr m' a xs = chain ld_ptr m a xs" if "set xs = set (part_blocks pm) - held" for a xs
    by (rule mem.chain_cong) (use assms(2) that in blast)
  then show ?thesis using assms(1) unfolding part_ok_def by blast
qed

text \<open>An operation that changes the blocks of one used partition and the memory of its own free blocks.\<close>

lemma mem_inv_update:
  assumes inv: "mem_inv s H" and used: "mem_used s p"
    and ok: "part_ok m' pm' held'" and n: "OSMemNBlks pm' \<noteq> 0" and reg: "part_region pm' = part_region (OSMemTbl s p)"
    and frame: "\<And>q x. mem_used s q \<Longrightarrow> q \<noteq> p \<Longrightarrow> x \<in> set (part_blocks (OSMemTbl s q)) \<Longrightarrow> ld_ptr m' x = ld_ptr (OSMem_bytes s) x"
  shows "mem_inv (mem_upd p pm' (s\<lparr>OSMem_bytes := m'\<rparr>)) (H(p := held'))"
proof -
  let ?s = "mem_upd p pm' (s\<lparr>OSMem_bytes := m'\<rparr>)"
  have u: "mem_used ?s q \<longleftrightarrow> mem_used s q" for q
    using used n by (auto simp: mem_used_def)
  obtain fs where fs: "mcb_chain (OSMemTbl s) (OSMemFreeList_G s) fs" "distinct fs"
      "set fs = {p. p < OS_MAX_MEM_PART \<and> \<not> mem_used s p}"
    using inv by (rule mem_inv_free)
  have "mcb_chain (OSMemTbl ?s) (OSMemFreeList_G s) fs = mcb_chain (OSMemTbl s) (OSMemFreeList_G s) fs"
    by (rule mcb_chain_cong) (use fs(3) used in auto)
  then have 1: "mcb_chain (OSMemTbl ?s) (OSMemFreeList_G ?s) fs" using fs(1) by simp
  have 2: "part_ok m' (OSMemTbl s q) (H q)" if "mem_used s q" "q \<noteq> p" for q
    using mem_invD(1) [OF inv that(1)] by (rule part_ok_cong) (use frame [OF that] in blast)
  have 3: "part_ok (OSMem_bytes ?s) (OSMemTbl ?s q) ((H(p := held')) q)" if "mem_used ?s q" for q
    using that 2 [of q] ok by (cases "q = p") (simp_all add: u)
  have 4: "part_region (OSMemTbl ?s q) = part_region (OSMemTbl s q)" for q
    using reg by simp
  show ?thesis
    unfolding mem_inv_def u 4 using mem_invD(2-4) [OF inv] 1 fs(2,3) 3 used
    by (intro conjI) (auto simp: u)
qed

subsection \<open>Taking and returning blocks\<close>

lemma mem_deref_used: "mem_used s p \<Longrightarrow> mem_deref (Some p) s = Some (p, OSMemTbl s p)"
  by (simp add: mem_deref_def mem_used_def)

lemma part_okE:
  assumes "part_ok m pm held"
  obtains a xs where "OSMemFreeList pm = LBlk a" "chain ld_ptr m a xs" "distinct xs" "set xs = set (part_blocks pm) - held"
    "unat (OSMemNFree pm) = length xs" "part_fits pm" "held \<subseteq> set (part_blocks pm)"
  using assms unfolding part_ok_def by blast

lemma part_free_count:
  assumes "part_ok m pm held"
  shows "unat (OSMemNFree pm) + card held = unat (OSMemNBlks pm)"
proof -
  obtain a xs where x: "distinct xs" "set xs = set (part_blocks pm) - held" "unat (OSMemNFree pm) = length xs" "part_fits pm"
      "held \<subseteq> set (part_blocks pm)"
    using assms by (rule part_okE)
  have fin: "finite held" using x(5) by (rule finite_subset) simp
  have c: "card (set (part_blocks pm)) = unat (OSMemNBlks pm)"
    using x(4) block_list_facts(1,2) by (simp add: part_fits_def part_blocks_def distinct_card)
  have "length xs = card (set (part_blocks pm) - held)" using x(1,2) by (metis distinct_card)
  also have "\<dots> = unat (OSMemNBlks pm) - card held" using fin x(5) c by (simp add: card_Diff_subset)
  finally show ?thesis using x(3,5) c card_mono [of "set (part_blocks pm)" held] by simp
qed

text \<open>Blocks of one partition are apart from each other and from those of the others.\<close>

lemma mem_blocks_apart:
  assumes "mem_inv s H" and "mem_used s p" "b \<in> set (part_blocks (OSMemTbl s p))"
    and "mem_used s q" "c \<in> set (part_blocks (OSMemTbl s q))" and "p \<noteq> q \<or> b \<noteq> c"
  shows "apart b c"
proof (cases "p = q")
  case True
  have "part_fits (OSMemTbl s p)" using mem_invD(1) [OF assms(1,2)] by (rule part_okE)
  then show ?thesis
    using True assms blocks_apart by (simp add: part_fits_def part_blocks_def)
next
  case False
  have "part_fits (OSMemTbl s p)" using mem_invD(1) [OF assms(1,2)] by (rule part_okE)
  moreover have "part_fits (OSMemTbl s q)" using mem_invD(1) [OF assms(1,4)] by (rule part_okE)
  ultimately show ?thesis
    using mem_invD(2) [OF assms(1,2,4) False] assms(3,5) regions_apart
    by (simp add: part_fits_def part_blocks_def part_region_def)
qed

lemma OSMemGet_run:
  assumes "mem_used s p" and "OSMemNFree (OSMemTbl s p) \<noteq> 0" and "OSMemFreeList (OSMemTbl s p) = LBlk b"
  shows "OSMemGet chk (Some p) s = Some ((OS_ERR_NONE, b), mem_upd p ((OSMemTbl s p)\<lparr>OSMemFreeList := LBlk (ld_ptr (OSMem_bytes s) b),
    OSMemNFree := OSMemNFree (OSMemTbl s p) - 1\<rparr>) s)"
  using assms by (simp add: OSMemGet_def mem_deref_used word_gt_0)

lemma OSMemGet_ok:
  assumes inv: "mem_inv s H" and used: "mem_used s p" and free: "OSMemNFree (OSMemTbl s p) \<noteq> 0"
  obtains b s' where "OSMemGet chk (Some p) s = Some ((OS_ERR_NONE, b), s')" "b \<in> set (part_blocks (OSMemTbl s p)) - H p"
    "mem_inv s' (H(p := insert b (H p)))" "part_blocks (OSMemTbl s' p) = part_blocks (OSMemTbl s p)"
proof -
  obtain a xs where x: "OSMemFreeList (OSMemTbl s p) = LBlk a" "chain ld_ptr (OSMem_bytes s) a xs" "distinct xs"
      "set xs = set (part_blocks (OSMemTbl s p)) - H p" "unat (OSMemNFree (OSMemTbl s p)) = length xs" "part_fits (OSMemTbl s p)"
      "H p \<subseteq> set (part_blocks (OSMemTbl s p))"
    using mem_invD(1) [OF inv used] by (rule part_okE)
  obtain b ys where xs: "xs = b # ys" using x(5) free by (cases xs) (auto simp: unat_eq_0)
  have a: "a = b" and ys: "chain ld_ptr (OSMem_bytes s) (ld_ptr (OSMem_bytes s) b) ys" using x(2) xs by simp_all
  let ?pm = "(OSMemTbl s p)\<lparr>OSMemFreeList := LBlk (ld_ptr (OSMem_bytes s) b), OSMemNFree := OSMemNFree (OSMemTbl s p) - 1\<rparr>"
  have same: "part_blocks ?pm = part_blocks (OSMemTbl s p)" "part_fits ?pm = part_fits (OSMemTbl s p)"
      "part_region ?pm = part_region (OSMemTbl s p)"
    by (simp_all add: part_blocks_def part_fits_def part_region_def)
  have ok: "part_ok (OSMem_bytes s) ?pm (insert b (H p))"
    unfolding part_ok_def same
    using x xs ys free by (auto simp: unat_minus_one intro!: exI [of _ ys])
  have "mem_inv (mem_upd p ?pm (s\<lparr>OSMem_bytes := OSMem_bytes s\<rparr>)) (H(p := insert b (H p)))"
    by (rule mem_inv_update [OF inv used ok]) (use used same in \<open>simp_all add: mem_used_def\<close>)
  then have inv': "mem_inv (mem_upd p ?pm s) (H(p := insert b (H p)))" by simp
  have run: "OSMemGet chk (Some p) s = Some ((OS_ERR_NONE, b), mem_upd p ?pm s)"
    using OSMemGet_run [OF used free] x(1) a by simp
  show ?thesis
    by (rule that [OF run _ inv']) (use x(4) xs same(1) in auto)
qed

lemma OSMemGet_empty:
  assumes "p < OS_MAX_MEM_PART" and "OSMemNFree (OSMemTbl s p) = 0"
  shows "OSMemGet chk (Some p) s = Some ((OS_ERR_MEM_NO_FREE_BLKS, 0), s)"
  using assms by (simp add: OSMemGet_def mem_deref_def)

lemma OSMemPut_ok:
  assumes inv: "mem_inv s H" and used: "mem_used s p" and b: "b \<in> H p"
  obtains s' where "OSMemPut chk (Some p) b s = Some (OS_ERR_NONE, s')" "mem_inv s' (H(p := H p - {b}))"
    "part_blocks (OSMemTbl s' p) = part_blocks (OSMemTbl s p)" "OSMemFreeList (OSMemTbl s' p) = LBlk b"
proof -
  note okp = mem_invD(1) [OF inv used]
  obtain a xs where x: "OSMemFreeList (OSMemTbl s p) = LBlk a" "chain ld_ptr (OSMem_bytes s) a xs" "distinct xs"
      "set xs = set (part_blocks (OSMemTbl s p)) - H p" "unat (OSMemNFree (OSMemTbl s p)) = length xs" "part_fits (OSMemTbl s p)"
      "H p \<subseteq> set (part_blocks (OSMemTbl s p))"
    using okp by (rule part_okE)
  have bb: "b \<in> set (part_blocks (OSMemTbl s p))" using b x(7) by blast
  have b0: "b \<noteq> 0" using bb x(6) block_list_facts(3) by (auto simp: part_fits_def part_blocks_def)
  have "finite (H p)" using x(7) by (rule finite_subset) simp
  then have "0 < card (H p)" using b by (auto simp: card_gt_0_iff)
  then have room: "unat (OSMemNFree (OSMemTbl s p)) < unat (OSMemNBlks (OSMemTbl s p))"
    using part_free_count [OF okp] by linarith
  let ?m = "st_ptr (OSMem_bytes s) b a"
  let ?pm = "(OSMemTbl s p)\<lparr>OSMemFreeList := LBlk b, OSMemNFree := OSMemNFree (OSMemTbl s p) + 1\<rparr>"
  have same: "part_blocks ?pm = part_blocks (OSMemTbl s p)" "part_fits ?pm = part_fits (OSMemTbl s p)"
      "part_region ?pm = part_region (OSMemTbl s p)"
    by (simp_all add: part_blocks_def part_fits_def part_region_def)
  have ch: "chain ld_ptr ?m b (b # xs)"
    using x(2) b0 by (rule mem.chain_push) (rule mem_blocks_apart [OF inv used bb used]; use x(4) b in auto)
  have "unat (OSMemNBlks (OSMemTbl s p)) < 2 ^ 32" using unsigned_less [of "OSMemNBlks (OSMemTbl s p)"] by simp
  then have cnt: "unat (OSMemNFree (OSMemTbl s p) + 1) = Suc (length xs)"
    using room x(5) by (simp add: unat_word_ariths)
  have ok: "part_ok ?m ?pm (H p - {b})"
    unfolding part_ok_def same
    using x bb b ch cnt by (intro conjI exI [of _ b] exI [of _ "b # xs"]) auto
  have inv': "mem_inv (mem_upd p ?pm (s\<lparr>OSMem_bytes := ?m\<rparr>)) (H(p := H p - {b}))"
  proof (rule mem_inv_update [OF inv used ok _ same(3)])
    show "OSMemNBlks ?pm \<noteq> 0" using used by (simp add: mem_used_def)
    show "ld_ptr ?m y = ld_ptr (OSMem_bytes s) y" if "mem_used s q" "q \<noteq> p" "y \<in> set (part_blocks (OSMemTbl s q))" for q y
      by (rule ld_ptr_st_apart, rule mem_blocks_apart [OF inv used bb that(1,3)]) (use that(2) in simp)
  qed
  have run: "OSMemPut chk (Some p) b s = Some (OS_ERR_NONE, mem_upd p ?pm (s\<lparr>OSMem_bytes := ?m\<rparr>))"
    using room b0 by (simp add: OSMemPut_def mem_deref_used [OF used] x(1) word_le_nat_alt)
  show ?thesis
    by (rule that [OF run inv']) (simp_all add: same(1))
qed

subsection \<open>Creating a partition\<close>

lemma link_loop_frame:
  assumes "\<And>i. i \<le> k \<Longrightarrow> apart (block_at a sz i) x"
  shows "ld_ptr (link_loop k a a sz m) x = ld_ptr m x"
  using assms
proof (induction k arbitrary: a m)
  case 0
  then show ?case using ld_ptr_st_apart [of a x] by (simp add: block_at_def)
next
  case (Suc k)
  have "apart (block_at (a + sz) sz i) x" if "i \<le> k" for i
    using Suc.prems [of "Suc i"] that by (simp add: block_at_def algebra_simps)
  then have "ld_ptr (link_loop k (a + sz) (a + sz) sz (st_ptr m a (a + sz))) x = ld_ptr (st_ptr m a (a + sz)) x"
    by (rule Suc.IH)
  then show ?case
    using ld_ptr_st_apart [of a x] Suc.prems [of 0] by (simp add: block_at_def Let_def)
qed

lemma link_loop_chain:
  assumes "\<And>i j. i < j \<Longrightarrow> j \<le> k \<Longrightarrow> apart (block_at a sz j) (block_at a sz i)" and "\<And>i. i \<le> k \<Longrightarrow> block_at a sz i \<noteq> 0"
  shows "chain ld_ptr (link_loop k a a sz m) a (map (block_at a sz) [0..<Suc k])"
  using assms
proof (induction k arbitrary: a m)
  case 0
  then show ?case using 0(2) [of 0] ld_ptr_st_same by (simp add: block_at_def)
next
  case (Suc k)
  have sh: "block_at (a + sz) sz i = block_at a sz (Suc i)" for i by (simp add: block_at_def algebra_simps)
  let ?m = "st_ptr m a (a + sz)"
  let ?m' = "link_loop k (a + sz) (a + sz) sz ?m"
  have "chain ld_ptr ?m' (a + sz) (map (block_at (a + sz) sz) [0..<Suc k])"
    by (rule Suc.IH) (simp_all add: sh Suc.prems)
  moreover have "map (block_at (a + sz) sz) [0..<Suc k] = map (block_at a sz) [1..<Suc (Suc k)]"
    by (rule nth_equalityI) (simp_all add: sh del: upt_Suc)
  moreover have b0: "block_at a sz 0 = a" by (simp add: block_at_def)
  moreover have "ld_ptr ?m' a = a + sz"
  proof -
    have "apart (block_at (a + sz) sz i) a" if "i \<le> k" for i
      using Suc.prems(1) [of 0 "Suc i"] that by (simp add: sh b0)
    then have "ld_ptr ?m' a = ld_ptr ?m a" by (rule link_loop_frame)
    then show ?thesis by (simp add: ld_ptr_st_same)
  qed
  moreover have "[0..<Suc (Suc k)] = 0 # [1..<Suc (Suc k)]" by (simp add: upt_rec)
  ultimately show ?case
    using Suc.prems(2) [of 0] by (simp add: Let_def del: upt_Suc)
qed

lemma link_loop_free_list:
  assumes "fits a n sz"
  shows "chain ld_ptr (link_loop (unat (n - 1)) a a sz m) a (block_list a n sz)"
proof -
  have n: "unat n = Suc (unat (n - 1))"
    using assms by (simp add: fits_def unat_minus_one unat_gt_0)
  have "block_at a sz i \<in> set (block_list a n sz)" if "i < unat n" for i
    using that by (auto simp: block_list_def)
  note mem = this
  have apart: "apart (block_at a sz j) (block_at a sz i)" if "i < j" "j < unat n" for i j
  proof (rule blocks_apart [OF assms mem mem])
    show "j < unat n" "i < unat n" using that by simp_all
    then show "block_at a sz j \<noteq> block_at a sz i" using block_at_inj [OF assms, of i j] that(1) by auto
  qed
  have nz: "block_at a sz i \<noteq> 0" if "i < unat n" for i
    using block_list_facts(3) [OF assms] mem [OF that] by metis
  have "chain ld_ptr (link_loop (unat (n - 1)) a a sz m) a (map (block_at a sz) [0..<Suc (unat (n - 1))])"
    by (rule link_loop_chain) (use apart nz in \<open>simp_all add: n\<close>)
  then show ?thesis unfolding block_list_def n by assumption
qed

lemma OSMemCreate_ok:
  assumes inv: "mem_inv s H" and f: "fits addr n sz" and p: "OSMemFreeList_G s = Some p"
    and away: "\<And>q. mem_used s q \<Longrightarrow> region addr n sz \<inter> part_region (OSMemTbl s q) = {}"
    and chk: "chk \<longrightarrow> addr AND 3 = 0 \<and> 2 \<le> n"
  obtains s' where "OSMemCreate chk addr n sz s = Some ((OS_ERR_NONE, Some p), s')" "mem_inv s' H"
    "p < OS_MAX_MEM_PART" "\<not> mem_used s p" "mem_used s' p" "\<And>q. q \<noteq> p \<Longrightarrow> OSMemTbl s' q = OSMemTbl s q"
    "part_blocks (OSMemTbl s' p) = block_list addr n sz" "OSMemNFree (OSMemTbl s' p) = n"
proof -
  obtain fs where fs: "mcb_chain (OSMemTbl s) (OSMemFreeList_G s) fs" "distinct fs"
      "set fs = {p. p < OS_MAX_MEM_PART \<and> \<not> mem_used s p}"
    using inv by (rule mem_inv_free)
  obtain gs nxt where gs: "fs = p # gs" "OSMemFreeList (OSMemTbl s p) = LMcb nxt" "mcb_chain (OSMemTbl s) nxt gs"
    using fs(1) p by (cases fs) auto
  have p5: "p < OS_MAX_MEM_PART" and un: "\<not> mem_used s p" using fs(3) gs(1) by auto
  let ?m = "link_loop (unat (n - 1)) addr addr sz (OSMem_bytes s)"
  let ?pm = "(OSMemTbl s p)\<lparr>OSMemAddr := addr, OSMemFreeList := LBlk addr, OSMemNFree := n, OSMemNBlks := n, OSMemBlkSize := sz\<rparr>"
  let ?s' = "mem_upd p ?pm (s\<lparr>OSMemFreeList_G := nxt, OSMem_bytes := ?m\<rparr>)"
  have n0: "n \<noteq> 0" "addr \<noteq> 0" "4 \<le> sz" using f by (simp_all add: fits_def)
  have run: "OSMemCreate chk addr n sz s = Some ((OS_ERR_NONE, Some p), ?s')"
    using chk n0 p5 by (auto simp: OSMemCreate_def p mem_deref_def gs(2) Let_def not_less)
  have pm: "part_blocks ?pm = block_list addr n sz" "part_region ?pm = region addr n sz" "part_fits ?pm"
    using f by (simp_all add: part_blocks_def part_region_def part_fits_def)
  have u: "mem_used ?s' q \<longleftrightarrow> q = p \<or> mem_used s q" for q
    using p5 n0(1) un by (auto simp: mem_used_def)
  have Hp: "H p = {}" using mem_invD(3) [OF inv un] .
  have new: "part_ok ?m ?pm {}"
    unfolding part_ok_def pm using pm(3) link_loop_free_list [OF f] block_list_facts [OF f]
    by (auto intro!: exI [of _ "block_list addr n sz"])
  have old: "part_ok ?m (OSMemTbl s q) (H q)" if q: "mem_used s q" for q
  proof (rule part_ok_cong [OF mem_invD(1) [OF inv q]])
    fix x assume x: "x \<in> set (part_blocks (OSMemTbl s q)) - H q"
    have "part_fits (OSMemTbl s q)" using mem_invD(1) [OF inv q] by (rule part_okE)
    then have "apart (block_at addr sz i) x" if "i < unat n" for i
      using regions_apart [OF f, of "block_at addr sz i"] that x away [OF q]
      by (auto simp: block_list_def part_fits_def part_blocks_def part_region_def)
    moreover have "Suc (unat (n - 1)) = unat n" using n0(1) by (simp add: unat_minus_one unat_gt_0)
    ultimately show "ld_ptr ?m x = ld_ptr (OSMem_bytes s) x"
      by (intro link_loop_frame) simp
  qed
  have "mcb_chain (OSMemTbl ?s') nxt gs = mcb_chain (OSMemTbl s) nxt gs"
    by (rule mcb_chain_cong) (use fs(2) gs(1) in auto)
  then have ch: "mcb_chain (OSMemTbl ?s') (OSMemFreeList_G ?s') gs" using gs(3) by simp
  have inv': "mem_inv ?s' H"
    unfolding mem_inv_def u
  proof (intro conjI)
    show "\<forall>q. q = p \<or> mem_used s q \<longrightarrow> part_ok (OSMem_bytes ?s') (OSMemTbl ?s' q) (H q)"
      using new old Hp un by auto
    show "\<forall>q r. q = p \<or> mem_used s q \<longrightarrow> r = p \<or> mem_used s r \<longrightarrow> q \<noteq> r \<longrightarrow>
        part_region (OSMemTbl ?s' q) \<inter> part_region (OSMemTbl ?s' r) = {}"
      using away mem_invD(2) [OF inv] un by (auto simp: pm(2) Int_commute)
    show "\<exists>fs. mcb_chain (OSMemTbl ?s') (OSMemFreeList_G ?s') fs \<and> distinct fs \<and>
        set fs = {q. q < OS_MAX_MEM_PART \<and> \<not> (q = p \<or> mem_used s q)}"
      using ch fs(2,3) gs(1) by (intro exI [of _ gs]) auto
  qed (use mem_invD(3,4) [OF inv] in auto)
  show ?thesis
    by (rule that [OF run inv' p5 un]) (simp_all add: u pm(1))
qed

text \<open>The manager starts with five unused control blocks.\<close>

lemma OS_MemInit_ok: "mem_inv (OS_MemInit s) (\<lambda>_. {})"
proof -
  let ?s = "OS_MemInit s"
  have tbl: "OSMemTbl ?s 0 = mem_zero\<lparr>OSMemFreeList := LMcb (Some 1), OSMemName := Some ''?''\<rparr>"
    "OSMemTbl ?s (Suc 0) = mem_zero\<lparr>OSMemFreeList := LMcb (Some 2), OSMemName := Some ''?''\<rparr>"
    "OSMemTbl ?s 2 = mem_zero\<lparr>OSMemFreeList := LMcb (Some 3), OSMemName := Some ''?''\<rparr>"
    "OSMemTbl ?s 3 = mem_zero\<lparr>OSMemFreeList := LMcb (Some 4), OSMemName := Some ''?''\<rparr>"
    "OSMemTbl ?s 4 = mem_zero\<lparr>OSMemFreeList := LMcb None, OSMemName := Some ''?''\<rparr>"
    and list: "OSMemFreeList_G ?s = Some 0"
    by (simp_all add: OS_MemInit_def eval_nat_numeral)
  have five: "p < 5 \<longleftrightarrow> p = 0 \<or> p = 1 \<or> p = 2 \<or> p = 3 \<or> p = 4" for p :: nat by auto
  have "OSMemNBlks (OSMemTbl ?s p) = 0 \<and> OSMemNFree (OSMemTbl ?s p) = 0" if "p < 5" for p
    using that tbl by (auto simp: five mem_zero_def)
  then have un: "\<not> mem_used ?s p" "p < 5 \<Longrightarrow> OSMemNFree (OSMemTbl ?s p) = 0" for p
    by (simp_all add: mem_used_def)
  have "mcb_chain (OSMemTbl ?s) (OSMemFreeList_G ?s) [0, 1, 2, 3, 4]"
    using tbl by (simp add: list)
  then show ?thesis
    unfolding mem_inv_def using un by (auto intro!: exI [of _ "[0, 1, 2, 3, 4]"])
qed

subsection \<open>The steps of the clients\<close>

text \<open>A client may write where no free block lies: into blocks that are out, and outside the partitions.\<close>

definition may_write :: "os_mem \<Rightarrow> (nat \<Rightarrow> u32 set) \<Rightarrow> u32 \<Rightarrow> bool" where
  "may_write s H y \<longleftrightarrow> (\<forall>p. mem_used s p \<longrightarrow> unat y \<in> part_region (OSMemTbl s p) \<longrightarrow>
     (\<exists>b \<in> H p. unat b \<le> unat y \<and> unat y < unat b + unat (OSMemBlkSize (OSMemTbl s p))))"

lemma mem_inv_poke:
  assumes inv: "mem_inv s H" and y: "may_write s H y"
  shows "mem_inv (s\<lparr>OSMem_bytes := (OSMem_bytes s)(y := v)\<rparr>) H"
proof -
  have ok: "part_ok ((OSMem_bytes s)(y := v)) (OSMemTbl s p) (H p)" if p: "mem_used s p" for p
  proof (rule part_ok_cong [OF mem_invD(1) [OF inv p]])
    fix x assume x: "x \<in> set (part_blocks (OSMemTbl s p)) - H p"
    have f: "part_fits (OSMemTbl s p)" and held: "H p \<subseteq> set (part_blocks (OSMemTbl s p))"
      using mem_invD(1) [OF inv p] by (simp_all add: part_ok_def)
    note f' = f [unfolded part_fits_def] and x' = x [unfolded part_blocks_def]
    have reg: "{unat x..<unat x + unat (OSMemBlkSize (OSMemTbl s p))} \<subseteq> part_region (OSMemTbl s p)"
      and top: "unat x + unat (OSMemBlkSize (OSMemTbl s p)) \<le> 2 ^ 32"
      using block_in_region [OF f'] x' by (auto simp: part_region_def)
    have "\<not> (unat x \<le> unat y \<and> unat y < unat x + unat (OSMemBlkSize (OSMemTbl s p)))"
    proof
      assume in_x: "unat x \<le> unat y \<and> unat y < unat x + unat (OSMemBlkSize (OSMemTbl s p))"
      then have "unat y \<in> part_region (OSMemTbl s p)" using reg by auto
      then obtain b where b: "b \<in> H p" "unat b \<le> unat y" "unat y < unat b + unat (OSMemBlkSize (OSMemTbl s p))"
        using y p unfolding may_write_def by blast
      have "b \<noteq> x" using b(1) x by blast
      then show False
        using blocks_disjoint [OF f', of b x] b held x' in_x by (auto simp: part_blocks_def)
    qed
    then have "4 \<le> unat (y - x)"
      using fits_size [OF f'] top by (auto simp: unat_sub_if')
    then show "ld_ptr ((OSMem_bytes s)(y := v)) x = ld_ptr (OSMem_bytes s) x"
      by (intro ld_ptr_byte) (simp add: word_le_nat_alt)
  qed
  have "mem_used (s\<lparr>OSMem_bytes := m\<rparr>) p = mem_used s p" for m p
    by (simp add: mem_used_def)
  then show ?thesis
    using inv ok unfolding mem_inv_def by simp
qed

lemma mem_inv_name:
  assumes inv: "mem_inv s H"
  shows "mem_inv (mem_upd p ((OSMemTbl s p)\<lparr>OSMemName := nm\<rparr>) s) H"
proof -
  let ?s = "mem_upd p ((OSMemTbl s p)\<lparr>OSMemName := nm\<rparr>) s"
  have "part_ok m (OSMemTbl ?s q) h = part_ok m (OSMemTbl s q) h" "mem_used ?s q = mem_used s q"
    "part_region (OSMemTbl ?s q) = part_region (OSMemTbl s q)" "OSMemNFree (OSMemTbl ?s q) = OSMemNFree (OSMemTbl s q)" for m q h
    by (simp_all add: part_ok_def part_fits_def part_blocks_def mem_used_def part_region_def)
  moreover have "mcb_chain (OSMemTbl ?s) l fs = mcb_chain (OSMemTbl s) l fs" for l fs
    by (rule mcb_chain_cong) simp
  ultimately show ?thesis
    using inv unfolding mem_inv_def by simp
qed

inductive mem_step :: "os_mem \<times> (nat \<Rightarrow> u32 set) \<Rightarrow> os_mem \<times> (nat \<Rightarrow> u32 set) \<Rightarrow> bool" where
  create: "fits addr n sz \<Longrightarrow> (\<And>q. mem_used s q \<Longrightarrow> region addr n sz \<inter> part_region (OSMemTbl s q) = {}) \<Longrightarrow>
    OSMemCreate chk addr n sz s = Some (r, s') \<Longrightarrow> mem_step (s, H) (s', H)"
| refused: "OSMemCreate chk addr n sz s = Some ((err, None), s') \<Longrightarrow> mem_step (s, H) (s', H)"
| get: "OSMemGet chk (Some p) s = Some ((err, b), s') \<Longrightarrow>
    mem_step (s, H) (s', if err = OS_ERR_NONE then H(p := insert b (H p)) else H)"
| put: "b \<in> H p \<Longrightarrow> OSMemPut chk (Some p) b s = Some (err, s') \<Longrightarrow> mem_step (s, H) (s', H(p := H p - {b}))"
| name: "OSMemNameSet chk pmem pname k s = Some (err, s') \<Longrightarrow> mem_step (s, H) (s', H)"
| poke: "may_write s H y \<Longrightarrow> mem_step (s, H) (s\<lparr>OSMem_bytes := (OSMem_bytes s)(y := v)\<rparr>, H)"

inductive mem_reach :: "os_mem \<times> (nat \<Rightarrow> u32 set) \<Rightarrow> bool" where
  init: "mem_reach (OS_MemInit s, \<lambda>_. {})"
| step: "mem_reach c \<Longrightarrow> mem_step c c' \<Longrightarrow> mem_reach c'"

lemma mem_step_inv:
  assumes "mem_step c c'" and "mem_inv (fst c) (snd c)"
  shows "mem_inv (fst c') (snd c')"
  using assms
proof (induction rule: mem_step.induct)
  case (create addr n sz s chk r s' H)
  show ?case
  proof (cases "(chk \<longrightarrow> addr AND 3 = 0 \<and> 2 \<le> n) \<and> OSMemFreeList_G s \<noteq> None")
    case True
    then obtain p where p: "OSMemFreeList_G s = Some p" by blast
    obtain s'' where "OSMemCreate chk addr n sz s = Some ((OS_ERR_NONE, Some p), s'')" "mem_inv s'' H"
      by (rule OSMemCreate_ok [OF create.prems [unfolded fst_conv snd_conv] create.hyps(1) p create.hyps(2), of chk])
        (use True in blast)+
    then show ?thesis using create.hyps(3) by simp
  next
    case False
    then have "s' = s"
      using create.hyps(3) by (auto simp: OSMemCreate_def not_less split: if_splits option.splits)
    then show ?thesis using create.prems by simp
  qed
next
  case (refused chk addr n sz s err s' H)
  then have "s' = s"
    by (auto simp: OSMemCreate_def bind_Some_iff split: if_splits option.splits mem_link.splits)
  then show ?case using refused.prems by simp
next
  case (get chk p s err b s' H)
  then have inv: "mem_inv s H" and run: "OSMemGet chk (Some p) s = Some ((err, b), s')" by simp_all
  have p5: "p < OS_MAX_MEM_PART" using run by (auto simp: OSMemGet_def mem_deref_def split: if_splits)
  show ?case
  proof (cases "OSMemNFree (OSMemTbl s p) = 0")
    case True
    then show ?thesis using OSMemGet_empty [OF p5 True, of chk] run inv by auto
  next
    case False
    have used: "mem_used s p" using mem_invD(4) [OF inv p5] False by blast
    obtain b' s'' where "OSMemGet chk (Some p) s = Some ((OS_ERR_NONE, b'), s'')" "mem_inv s'' (H(p := insert b' (H p)))"
      using OSMemGet_ok [OF inv used False] by blast
    then have "s' = s''" "(if err = OS_ERR_NONE then H(p := insert b (H p)) else H) = H(p := insert b' (H p))" "mem_inv s'' (H(p := insert b' (H p)))"
      using run by (simp_all only: option.inject prod.inject if_P)
    then show ?thesis by (simp only: fst_conv snd_conv)
  qed
next
  case (put b H p chk s err s')
  then have inv: "mem_inv s H" by simp
  have used: "mem_used s p" using mem_invD(3) [OF inv] put.hyps(1) by blast
  obtain s'' where "OSMemPut chk (Some p) b s = Some (OS_ERR_NONE, s'')" "mem_inv s'' (H(p := H p - {b}))"
    using OSMemPut_ok [OF inv used put.hyps(1)] by blast
  then have "s' = s''" "mem_inv s'' (H(p := H p - {b}))" using put.hyps(2) by (simp_all only: option.inject prod.inject)
  then show ?case by (simp only: fst_conv snd_conv)
next
  case (name chk pmem pname k s err s' H)
  then show ?case
    using mem_inv_name by (auto simp: OSMemNameSet_def mem_deref_def bind_Some_iff split: if_splits option.splits)
next
  case (poke s H y v)
  then show ?case using mem_inv_poke by simp
qed

lemma mem_reach_inv: "mem_reach (s, H) \<Longrightarrow> mem_inv s H"
proof -
  have "mem_reach c \<Longrightarrow> mem_inv (fst c) (snd c)" for c
    by (induction rule: mem_reach.induct) (simp_all add: OS_MemInit_ok mem_step_inv)
  then show "mem_reach (s, H) \<Longrightarrow> mem_inv s H" by force
qed

subsection \<open>The contract\<close>

text \<open>A state in which one partition of four blocks of 16 bytes exists.\<close>

definition mem_start :: os_mem where
  "mem_start = OS_MemInit \<lparr>OSMemTbl = \<lambda>_. mem_zero, OSMemFreeList_G = None, OSMem_bytes = \<lambda>_. 0\<rparr>"

lemma mem_start_facts: "OSMemFreeList_G mem_start = Some 0" "\<not> mem_used mem_start q" "mem_inv mem_start (\<lambda>_. {})"
proof -
  show inv: "mem_inv mem_start (\<lambda>_. {})" unfolding mem_start_def by (rule OS_MemInit_ok)
  show l: "OSMemFreeList_G mem_start = Some 0" by (simp add: mem_start_def OS_MemInit_def)
  show "\<not> mem_used mem_start q"
    by (auto simp: mem_start_def OS_MemInit_def mem_used_def mem_zero_def eval_nat_numeral less_Suc_eq)
qed

lemma mem_example:
  obtains s where "mem_reach (s, \<lambda>_. {})" "mem_used s 0" "OSMemNBlks (OSMemTbl s 0) = 4" "OSMemNFree (OSMemTbl s 0) = 4"
proof -
  have f: "fits 0x20000000 4 16" by (simp add: fits_def)
  obtain s where s: "OSMemCreate True 0x20000000 4 16 mem_start = Some ((OS_ERR_NONE, Some 0), s)" "mem_used s 0"
      "OSMemNFree (OSMemTbl s 0) = 4" "part_blocks (OSMemTbl s 0) = block_list 0x20000000 4 16" "mem_inv s (\<lambda>_. {})"
    by (rule OSMemCreate_ok [OF mem_start_facts(3) f mem_start_facts(1), of True]) (use mem_start_facts(2) in auto)
  have "mem_reach (mem_start, \<lambda>_. {})" unfolding mem_start_def by (rule mem_reach.init)
  then have r: "mem_reach (s, \<lambda>_. {})"
    by (rule mem_reach.step) (rule mem_step.create [OF f _ s(1)], use mem_start_facts(2) in blast)
  have "unat (OSMemNBlks (OSMemTbl s 0)) = 4"
    using part_free_count [OF mem_invD(1) [OF s(5,2)]] s(3) by simp
  then have "OSMemNBlks (OSMemTbl s 0) = 4" by (simp add: word_unat_eq_iff)
  then show ?thesis using that r s(2,3) by blast
qed

text \<open>The bytes of a block.\<close>

definition block_bytes :: "os_mem \<Rightarrow> nat \<Rightarrow> u32 \<Rightarrow> nat set" where
  "block_bytes s p b = {unat b..<unat b + unat (OSMemBlkSize (OSMemTbl s p))}"

lemma block_bytes_apart:
  assumes inv: "mem_inv s H" and b: "mem_used s p" "b \<in> set (part_blocks (OSMemTbl s p))" and c: "mem_used s q" "c \<in> H q"
    and "p \<noteq> q \<or> b \<noteq> c"
  shows "block_bytes s p b \<inter> block_bytes s q c = {}"
proof -
  have f: "part_fits (OSMemTbl s p)" "part_fits (OSMemTbl s q)" and held: "c \<in> set (part_blocks (OSMemTbl s q))"
    using mem_invD(1) [OF inv b(1)] mem_invD(1) [OF inv c(1)] c(2) by (auto simp: part_ok_def)
  show ?thesis
  proof (cases "p = q")
    case True
    then show ?thesis
      using blocks_disjoint [OF f(2) [unfolded part_fits_def], of b c] b(2) held assms(6)
      by (auto simp: block_bytes_def part_blocks_def)
  next
    case False
    have "block_bytes s p b \<subseteq> part_region (OSMemTbl s p)" "block_bytes s q c \<subseteq> part_region (OSMemTbl s q)"
      using block_in_region(1) [OF f(1) [unfolded part_fits_def], of b] block_in_region(1) [OF f(2) [unfolded part_fits_def], of c]
        b(2) held by (simp_all add: block_bytes_def part_blocks_def part_region_def)
    then show ?thesis using mem_invD(2) [OF inv b(1) c(1) False] by blast
  qed
qed

text \<open>C25: In any order clients create partitions, take and return blocks and write into those they hold, \<open>OSMemGet\<close> gives out a
  block of the partition that shares no byte with any block that is out, in any partition, and it fails, with its error code,
  exactly when every block of the partition is out. The clients (\<open>mem_step\<close>) keep these rules: a partition that \<open>OSMemCreate\<close> accepts
  is memory of its own, that is, at least one block, blocks of at least four bytes, not at address 0, not over the end of the address
  space and without a byte of any other partition (calls with other arguments are steps if they are refused); a block is returned
  to the partition it was taken from and only while it is out; and nobody writes into free blocks. Nothing else is
  asked; the argument checks may be compiled in or not.\<close>

theorem OSMemGet_never_shares:
  assumes "mem_reach (s, H)" and "mem_used s p"
  shows "if card (H p) = unat (OSMemNBlks (OSMemTbl s p)) then OSMemGet chk (Some p) s = Some ((OS_ERR_MEM_NO_FREE_BLKS, 0), s)
    else \<exists>b s'. OSMemGet chk (Some p) s = Some ((OS_ERR_NONE, b), s') \<and> mem_reach (s', H(p := insert b (H p))) \<and>
      b \<in> set (part_blocks (OSMemTbl s p)) \<and>
      (\<forall>q c. mem_used s q \<longrightarrow> c \<in> H q \<longrightarrow> block_bytes s p b \<inter> block_bytes s q c = {})"
proof -
  note inv = mem_reach_inv [OF assms(1)]
  note cnt = part_free_count [OF mem_invD(1) [OF inv assms(2)]]
  have p5: "p < OS_MAX_MEM_PART" using assms(2) by (simp add: mem_used_def)
  show ?thesis
  proof (cases "card (H p) = unat (OSMemNBlks (OSMemTbl s p))")
    case True
    then have "OSMemNFree (OSMemTbl s p) = 0" using cnt by (simp add: word_unat_eq_iff)
    then show ?thesis using OSMemGet_empty [OF p5] True by simp
  next
    case False
    then have "OSMemNFree (OSMemTbl s p) \<noteq> 0" using cnt by auto
    then obtain b s' where g: "OSMemGet chk (Some p) s = Some ((OS_ERR_NONE, b), s')" "b \<in> set (part_blocks (OSMemTbl s p)) - H p"
      using OSMemGet_ok [OF inv assms(2)] by metis
    have "mem_reach (s', H(p := insert b (H p)))"
      using mem_reach.step [OF assms(1) mem_step.get [OF g(1)]] by simp
    moreover have "block_bytes s p b \<inter> block_bytes s q c = {}" if "mem_used s q" "c \<in> H q" for q c
      by (rule block_bytes_apart [OF inv assms(2) _ that]) (use g(2) that in auto)
    ultimately show ?thesis using False g by auto
  qed
qed

lemma OSMemGet_never_shares_witness:
  "\<exists>s b s'. mem_reach (s, \<lambda>_. {}) \<and> OSMemGet False (Some 0) s = Some ((OS_ERR_NONE, b), s') \<and> b \<in> set (part_blocks (OSMemTbl s 0))"
proof -
  obtain s where s: "mem_reach (s, \<lambda>_. {})" "mem_used s 0" "OSMemNBlks (OSMemTbl s 0) = 4"
    by (rule mem_example)
  from OSMemGet_never_shares [OF s(1,2), of False] s(3) show ?thesis using s(1) by auto
qed

text \<open>C26: Returning a block that is out never fails; the partition then gives out that block first, and
  taking it brings every control block back to what it was before.\<close>

theorem OSMemPut_then_Get:
  assumes "mem_reach (s, H)" and "mem_used s p" and "b \<in> H p"
  shows "\<exists>s1 s2. OSMemPut chk (Some p) b s = Some (OS_ERR_NONE, s1) \<and> mem_reach (s1, H(p := H p - {b})) \<and>
    OSMemGet chk (Some p) s1 = Some ((OS_ERR_NONE, b), s2) \<and> OSMemTbl s2 = OSMemTbl s \<and> OSMemFreeList_G s2 = OSMemFreeList_G s"
proof -
  note inv = mem_reach_inv [OF assms(1)]
  obtain a where a: "OSMemFreeList (OSMemTbl s p) = LBlk a"
    using mem_invD(1) [OF inv assms(2)] by (rule part_okE)
  obtain s1 where s1: "OSMemPut chk (Some p) b s = Some (OS_ERR_NONE, s1)" "mem_inv s1 (H(p := H p - {b}))"
    using OSMemPut_ok [OF inv assms(2,3)] by blast
  have r1: "mem_reach (s1, H(p := H p - {b}))"
    by (rule mem_reach.step [OF assms(1) mem_step.put [of b H p, OF assms(3) s1(1)]])
  let ?pm = "(OSMemTbl s p)\<lparr>OSMemFreeList := LBlk b, OSMemNFree := OSMemNFree (OSMemTbl s p) + 1\<rparr>"
  have e1: "s1 = mem_upd p ?pm (s\<lparr>OSMem_bytes := st_ptr (OSMem_bytes s) b a\<rparr>)"
    using s1(1) a by (auto simp: OSMemPut_def mem_deref_used [OF assms(2)] split: if_splits)
  have used1: "mem_used s1 p" using assms(2) by (simp add: e1 mem_used_def)
  have "finite (H p)" "H p \<subseteq> set (part_blocks (OSMemTbl s p))"
    using mem_invD(1) [OF inv assms(2)] finite_subset by (auto simp: part_ok_def)
  then have "card (H p - {b}) < card (H p)" using assms(3) by (intro card_Diff1_less)
  then have "OSMemNFree (OSMemTbl s1 p) \<noteq> 0"
    using part_free_count [OF mem_invD(1) [OF s1(2) used1]] part_free_count [OF mem_invD(1) [OF inv assms(2)]]
    by (auto simp: e1)
  then have "OSMemGet chk (Some p) s1 = Some ((OS_ERR_NONE, b), mem_upd p (OSMemTbl s p) s1)"
    by (simp add: OSMemGet_def mem_deref_used [OF used1] word_gt_0) (simp add: e1 ld_ptr_st_same a [symmetric])
  then show ?thesis
    using s1(1) r1 by (intro exI [of _ s1] exI [of _ "mem_upd p (OSMemTbl s p) s1"]) (simp add: e1)
qed

lemma OSMemPut_then_Get_witness:
  "\<exists>s H b s1. mem_reach (s, H) \<and> b \<in> H 0 \<and> OSMemPut True (Some 0) b s = Some (OS_ERR_NONE, s1)"
proof -
  obtain s where s: "mem_reach (s, \<lambda>_. {})" "mem_used s 0" "OSMemNFree (OSMemTbl s 0) = 4"
    by (rule mem_example)
  have free: "OSMemNFree (OSMemTbl s 0) \<noteq> 0" using s(3) by simp
  obtain b s' where g: "OSMemGet True (Some 0) s = Some ((OS_ERR_NONE, b), s')"
    using OSMemGet_ok [OF mem_reach_inv [OF s(1)] s(2) free] by blast
  let ?H = "(\<lambda>_. {})(0 := insert b {})"
  have r: "mem_reach (s', ?H)" using mem_reach.step [OF s(1) mem_step.get [OF g]] by simp
  have b: "b \<in> ?H 0" by simp
  have u: "mem_used s' 0" using mem_invD(3) [OF mem_reach_inv [OF r]] b by blast
  from OSMemPut_then_Get [OF r u b, of True] show ?thesis using r b by blast
qed

text \<open>What \<open>OSMemCreate\<close> answers for a partition that lies in unused memory, in either way of building the
  file: the refusals of the argument checks, the error when all five control blocks are in use, and
  otherwise a new partition all of whose blocks are free, with the others as they were.\<close>

theorem OSMemCreate_spec:
  assumes "mem_reach (s, H)" and "fits addr n sz" and "\<forall>q. mem_used s q \<longrightarrow> region addr n sz \<inter> part_region (OSMemTbl s q) = {}"
  shows "if chk \<and> addr AND 3 \<noteq> 0 then OSMemCreate chk addr n sz s = Some ((OS_ERR_MEM_INVALID_ADDR, None), s)
    else if chk \<and> n < 2 then OSMemCreate chk addr n sz s = Some ((OS_ERR_MEM_INVALID_BLKS, None), s)
    else if \<forall>p < OS_MAX_MEM_PART. mem_used s p then OSMemCreate chk addr n sz s = Some ((OS_ERR_MEM_INVALID_PART, None), s)
    else \<exists>p s'. OSMemCreate chk addr n sz s = Some ((OS_ERR_NONE, Some p), s') \<and> mem_reach (s', H) \<and> \<not> mem_used s p \<and>
      mem_used s' p \<and> H p = {} \<and> part_blocks (OSMemTbl s' p) = block_list addr n sz \<and> OSMemNFree (OSMemTbl s' p) = n \<and>
      (\<forall>q. q \<noteq> p \<longrightarrow> OSMemTbl s' q = OSMemTbl s q)"
proof -
  note inv = mem_reach_inv [OF assms(1)]
  have f: "addr \<noteq> 0" "4 \<le> sz" using assms(2) by (simp_all add: fits_def)
  obtain fs where fs: "mcb_chain (OSMemTbl s) (OSMemFreeList_G s) fs" "set fs = {p. p < OS_MAX_MEM_PART \<and> \<not> mem_used s p}"
    using inv by (rule mem_inv_free)
  show ?thesis
  proof (cases "chk \<and> (addr AND 3 \<noteq> 0 \<or> n < 2)")
    case True
    then show ?thesis using f(1) by (auto simp: OSMemCreate_def)
  next
    case ok: False
    show ?thesis
    proof (cases "OSMemFreeList_G s")
      case None
      then have "\<forall>p < OS_MAX_MEM_PART. mem_used s p" using fs by (cases fs) auto
      then show ?thesis using ok f by (auto simp: OSMemCreate_def None not_less)
    next
      case (Some p)
      obtain s' where c: "OSMemCreate chk addr n sz s = Some ((OS_ERR_NONE, Some p), s')" "p < OS_MAX_MEM_PART" "\<not> mem_used s p"
          "mem_used s' p" "\<And>q. q \<noteq> p \<Longrightarrow> OSMemTbl s' q = OSMemTbl s q" "part_blocks (OSMemTbl s' p) = block_list addr n sz"
          "OSMemNFree (OSMemTbl s' p) = n"
        by (rule OSMemCreate_ok [OF inv assms(2) Some, of chk]) (use assms(3) ok in \<open>auto simp: not_less\<close>)
      have "mem_reach (s', H)"
        by (rule mem_reach.step [OF assms(1) mem_step.create [OF assms(2) _ c(1)]]) (use assms(3) in blast)
      then show ?thesis using ok c mem_invD(3) [OF inv c(3)] by auto
    qed
  qed
qed

lemma OSMemCreate_spec_witness:
  "\<exists>p s'. OSMemCreate True 0x20000000 4 16 mem_start = Some ((OS_ERR_NONE, Some p), s') \<and> OSMemNFree (OSMemTbl s' p) = 4"
proof -
  have "mem_reach (mem_start, \<lambda>_. {})" unfolding mem_start_def by (rule mem_reach.init)
  moreover have "fits 0x20000000 4 16" by (simp add: fits_def)
  moreover have "\<forall>q. mem_used mem_start q \<longrightarrow> region 0x20000000 4 16 \<inter> part_region (OSMemTbl mem_start q) = {}"
    using mem_start_facts(2) by blast
  moreover have "\<not> (\<forall>p < OS_MAX_MEM_PART. mem_used mem_start p)" using mem_start_facts(2) by (auto intro!: exI [of _ 0])
  ultimately show ?thesis
    using OSMemCreate_spec [of mem_start "\<lambda>_. {}" "0x20000000" 4 16 True] by (simp only: if_not_P) auto
qed

text \<open>What a query counts as used is what is out.\<close>

lemma OSMemQuery_counts:
  assumes "mem_reach (s, H)" and "mem_used s p"
  obtains d where "OSMemQuery chk (Some p) True s = Some (OS_ERR_NONE, Some d)" "unat (OSNUsed d) = card (H p)"
    "unat (OSNFree d) + card (H p) = unat (OSNBlks d)"
proof -
  note cnt = part_free_count [OF mem_invD(1) [OF mem_reach_inv [OF assms(1)] assms(2)]]
  then have "unat (OSMemNBlks (OSMemTbl s p) - OSMemNFree (OSMemTbl s p)) = card (H p)"
    by (subst unat_sub) (simp_all add: word_le_nat_alt)
  note used = this
  show ?thesis
    by (rule that) (simp add: OSMemQuery_def mem_deref_used [OF assms(2)], simp_all add: used cnt)
qed

subsection \<open>What the checks let through\<close>

text \<open>A block returned twice while another one is out: both calls answer that all is well, and the
  partition then gives the same block to two clients.\<close>

lemma add_1_nonzero:
  fixes x y :: u32
  assumes "x < y"
  shows "x + 1 \<noteq> 0"
proof
  assume "x + 1 = 0"
  then have "x = - 1" by (simp add: eq_neg_iff_add_eq_0)
  then show False using assms by (simp add: not_less [symmetric] word_n1_ge)
qed

lemma OSMemPut_twice_shares_block:
  assumes "mem_reach (s, H)" and "mem_used s p" and "b \<in> H p" and "2 \<le> card (H p)"
  shows "\<exists>s1 s2 s3 s4. OSMemPut True (Some p) b s = Some (OS_ERR_NONE, s1) \<and> OSMemPut True (Some p) b s1 = Some (OS_ERR_NONE, s2) \<and>
    OSMemGet True (Some p) s2 = Some ((OS_ERR_NONE, b), s3) \<and> OSMemGet True (Some p) s3 = Some ((OS_ERR_NONE, b), s4)"
proof -
  note inv = mem_reach_inv [OF assms(1)]
  obtain a where a: "OSMemFreeList (OSMemTbl s p) = LBlk a" and f: "part_fits (OSMemTbl s p)" and held: "H p \<subseteq> set (part_blocks (OSMemTbl s p))"
    using mem_invD(1) [OF inv assms(2)] by (rule part_okE)
  have b0: "b \<noteq> 0" using held assms(3) f block_list_facts(3) by (auto simp: part_fits_def part_blocks_def)
  obtain s1 where s1: "OSMemPut True (Some p) b s = Some (OS_ERR_NONE, s1)" "mem_inv s1 (H(p := H p - {b}))"
      "OSMemFreeList (OSMemTbl s1 p) = LBlk b"
    using OSMemPut_ok [OF inv assms(2,3)] by blast
  have "card (H p - {b}) \<noteq> 0" using assms(3,4) by simp
  then have "H p - {b} \<noteq> {}" by (metis card.empty)
  then have used1: "mem_used s1 p" using mem_invD(3) [OF s1(2), of p] by auto
  have room: "OSMemNFree (OSMemTbl s1 p) < OSMemNBlks (OSMemTbl s1 p)"
    using part_free_count [OF mem_invD(1) [OF s1(2) used1]] \<open>card (H p - {b}) \<noteq> 0\<close>
    unfolding word_less_nat_alt fun_upd_same by linarith
  let ?pm = "(OSMemTbl s1 p)\<lparr>OSMemFreeList := LBlk b, OSMemNFree := OSMemNFree (OSMemTbl s1 p) + 1\<rparr>"
  let ?s2 = "mem_upd p ?pm (s1\<lparr>OSMem_bytes := st_ptr (OSMem_bytes s1) b b\<rparr>)"
  let ?s3 = "mem_upd p (?pm\<lparr>OSMemNFree := OSMemNFree (OSMemTbl s1 p)\<rparr>) ?s2"
  have p2: "OSMemPut True (Some p) b s1 = Some (OS_ERR_NONE, ?s2)"
    using room b0 by (simp add: OSMemPut_def mem_deref_used [OF used1] s1(3) not_le)
  have u: "mem_used ?s2 p" "mem_used ?s3 p" using used1 by (simp_all add: mem_used_def)
  have "OSMemNFree (OSMemTbl s p) < OSMemNBlks (OSMemTbl s p) \<and> OSMemNFree (OSMemTbl s1 p) = OSMemNFree (OSMemTbl s p) + 1"
    using s1(1) a by (auto simp: OSMemPut_def mem_deref_used [OF assms(2)] b0 not_le split: if_splits)
  then have n1: "OSMemNFree (OSMemTbl s1 p) \<noteq> 0" using add_1_nonzero by metis
  have n2: "OSMemNFree (OSMemTbl s1 p) + 1 \<noteq> 0" using room add_1_nonzero by blast
  have g3: "OSMemGet True (Some p) ?s2 = Some ((OS_ERR_NONE, b), ?s3)"
    using OSMemGet_run [OF u(1), of b True] n2 by (simp add: ld_ptr_st_same)
  have "\<exists>s4. OSMemGet True (Some p) ?s3 = Some ((OS_ERR_NONE, b), s4)"
    using OSMemGet_run [OF u(2), of b True] n1 by simp
  then show ?thesis using s1(1) p2 g3 by blast
qed

text \<open>A block size that holds no whole number of pointers is accepted.\<close>

lemma OSMemCreate_odd_size:
  obtains s' where "OSMemCreate True 0x20000000 2 5 mem_start = Some ((OS_ERR_NONE, Some 0), s')"
proof -
  have "fits 0x20000000 2 5" by (simp add: fits_def)
  then show ?thesis
    by (rule OSMemCreate_ok [OF mem_start_facts(3) _ mem_start_facts(1), of _ _ _ True]) (use mem_start_facts(2) that in auto)
qed

end
