(* ===== verification/OS_Tmr.thy ===== *)
theory OS_Tmr
  imports OS_Sem OS_Init
begin

text \<open>
  \<^verbatim>\<open>CORE/os_tmr.c\<close>: software timers. Running timers hang on the spokes of a wheel, each on the one its
  expiry time leads to, as doubly linked lists; a task counts the time up, one for each signal, and
  looks at one spoke. The configuration of this firmware leaves the file out (\<open>OS_TMR_EN\<close> is 0); it
  is modelled with the other settings of \<^verbatim>\<open>os_cfg.h\<close>, with \<open>chk\<close> for \<open>OS_ARG_CHK_EN\<close>.
\<close>

abbreviation (input) OS_TMR_CFG_MAX :: nat where "OS_TMR_CFG_MAX \<equiv> 16"
abbreviation (input) OS_TMR_CFG_WHEEL_SIZE :: nat where "OS_TMR_CFG_WHEEL_SIZE \<equiv> 7"
abbreviation (input) OS_TASK_TMR_STK_SIZE :: u32 where "OS_TASK_TMR_STK_SIZE \<equiv> 128"

abbreviation (input) OS_TMR_TYPE :: u8 where "OS_TMR_TYPE \<equiv> 100"
abbreviation (input) OS_TMR_LINK_DLY :: u8 where "OS_TMR_LINK_DLY \<equiv> 0"
abbreviation (input) OS_TMR_LINK_PERIODIC :: u8 where "OS_TMR_LINK_PERIODIC \<equiv> 1"
abbreviation (input) OS_TMR_OPT_NONE :: u8 where "OS_TMR_OPT_NONE \<equiv> 0"
abbreviation (input) OS_TMR_OPT_ONE_SHOT :: u8 where "OS_TMR_OPT_ONE_SHOT \<equiv> 1"
abbreviation (input) OS_TMR_OPT_PERIODIC :: u8 where "OS_TMR_OPT_PERIODIC \<equiv> 2"
abbreviation (input) OS_TMR_OPT_CALLBACK :: u8 where "OS_TMR_OPT_CALLBACK \<equiv> 3"
abbreviation (input) OS_TMR_OPT_CALLBACK_ARG :: u8 where "OS_TMR_OPT_CALLBACK_ARG \<equiv> 4"
abbreviation (input) OS_TMR_STATE_UNUSED :: u8 where "OS_TMR_STATE_UNUSED \<equiv> 0"
abbreviation (input) OS_TMR_STATE_STOPPED :: u8 where "OS_TMR_STATE_STOPPED \<equiv> 1"
abbreviation (input) OS_TMR_STATE_COMPLETED :: u8 where "OS_TMR_STATE_COMPLETED \<equiv> 2"
abbreviation (input) OS_TMR_STATE_RUNNING :: u8 where "OS_TMR_STATE_RUNNING \<equiv> 3"

abbreviation (input) OS_ERR_TMR_INVALID_DLY :: u8 where "OS_ERR_TMR_INVALID_DLY \<equiv> 130"
abbreviation (input) OS_ERR_TMR_INVALID_PERIOD :: u8 where "OS_ERR_TMR_INVALID_PERIOD \<equiv> 131"
abbreviation (input) OS_ERR_TMR_INVALID_OPT :: u8 where "OS_ERR_TMR_INVALID_OPT \<equiv> 132"
abbreviation (input) OS_ERR_TMR_NON_AVAIL :: u8 where "OS_ERR_TMR_NON_AVAIL \<equiv> 134"
abbreviation (input) OS_ERR_TMR_INACTIVE :: u8 where "OS_ERR_TMR_INACTIVE \<equiv> 135"
abbreviation (input) OS_ERR_TMR_INVALID_DEST :: u8 where "OS_ERR_TMR_INVALID_DEST \<equiv> 136"
abbreviation (input) OS_ERR_TMR_INVALID_TYPE :: u8 where "OS_ERR_TMR_INVALID_TYPE \<equiv> 137"
abbreviation (input) OS_ERR_TMR_INVALID :: u8 where "OS_ERR_TMR_INVALID \<equiv> 138"
abbreviation (input) OS_ERR_TMR_ISR :: u8 where "OS_ERR_TMR_ISR \<equiv> 139"
abbreviation (input) OS_ERR_TMR_INVALID_STATE :: u8 where "OS_ERR_TMR_INVALID_STATE \<equiv> 141"
abbreviation (input) OS_ERR_TMR_STOPPED :: u8 where "OS_ERR_TMR_STOPPED \<equiv> 142"
abbreviation (input) OS_ERR_TMR_NO_CALLBACK :: u8 where "OS_ERR_TMR_NO_CALLBACK \<equiv> 143"

subsection \<open>State\<close>

text \<open>A callback is named by a number, \<open>None\<close> is the null pointer.\<close>

record OS_TMR =
  OSTmrType :: u8
  OSTmrCallback :: "nat option"
  OSTmrCallbackArg :: u32
  OSTmrNext :: "nat option"
  OSTmrPrev :: "nat option"
  OSTmrMatch :: u32
  OSTmrDly :: u32
  OSTmrPeriod :: u32
  OSTmrName :: string
  OSTmrOpt :: u8
  OSTmrState :: u8

record OS_TMR_WHEEL =
  OSTmrFirst :: "nat option"
  OSTmrEntries :: u16

text \<open>The globals of the timer manager, the kernel under it, and what else the callbacks may change.\<close>

record 'a os_tmr =
  OSTmrFree :: u16
  OSTmrUsed :: u16
  OSTmrTime :: u32
  OSTmrSem :: "nat option"
  OSTmrSemSignal :: "nat option"
  OSTmrTbl :: "nat \<Rightarrow> OS_TMR"
  OSTmrFreeList :: "nat option"
  OSTmrWheelTbl :: "nat \<Rightarrow> OS_TMR_WHEEL"
  kern :: os
  app :: 'a

text \<open>What calling callback \<open>f\<close> with a timer and an argument does: code of the application.\<close>

type_synonym 'a callbacks = "nat \<Rightarrow> nat \<Rightarrow> u32 \<Rightarrow> 'a os_tmr \<Rightarrow> 'a os_tmr option"

definition upd_tmr :: "nat \<Rightarrow> (OS_TMR \<Rightarrow> OS_TMR) \<Rightarrow> 'a os_tmr \<Rightarrow> 'a os_tmr" where
  "upd_tmr t f s = s\<lparr>OSTmrTbl := (OSTmrTbl s)(t := f (OSTmrTbl s t))\<rparr>"

definition upd_spoke :: "nat \<Rightarrow> (OS_TMR_WHEEL \<Rightarrow> OS_TMR_WHEEL) \<Rightarrow> 'a os_tmr \<Rightarrow> 'a os_tmr" where
  "upd_spoke i f s = s\<lparr>OSTmrWheelTbl := (OSTmrWheelTbl s)(i := f (OSTmrWheelTbl s i))\<rparr>"

definition tmr :: "'a os_tmr \<Rightarrow> nat option \<Rightarrow> (nat \<times> OS_TMR) option" where
  "tmr s p = (case p of None \<Rightarrow> None | Some t \<Rightarrow> if t < OS_TMR_CFG_MAX then Some (t, OSTmrTbl s t) else None)"

definition tmr_lock :: "'a os_tmr \<Rightarrow> 'a os_tmr" where
  "tmr_lock s = s\<lparr>kern := OSSchedLock (kern s)\<rparr>"

definition tmr_unlock :: "'a os_tmr \<Rightarrow> 'a os_tmr option" where
  "tmr_unlock s = do { k \<leftarrow> OSSchedUnlock (kern s); Some (s\<lparr>kern := k\<rparr>) }"

text \<open>Unlock the scheduler and return a value.\<close>

definition tmr_leave :: "'r \<Rightarrow> 'a os_tmr \<Rightarrow> ('r \<times> 'a os_tmr) option" where
  "tmr_leave r s = do { s1 \<leftarrow> tmr_unlock s; Some (r, s1) }"

subsection \<open>The pool\<close>

definition OSTmr_Alloc :: "'a os_tmr \<Rightarrow> (nat option \<times> 'a os_tmr) option" where
  "OSTmr_Alloc s = (if OSTmrFreeList s = None then Some (None, s)
     else do {
       (t, pt) \<leftarrow> tmr s (OSTmrFreeList s);
       Some (Some t, (upd_tmr t (\<lambda>x. x\<lparr>OSTmrNext := None, OSTmrPrev := None\<rparr>) s)\<lparr>OSTmrFreeList := OSTmrNext pt,
         OSTmrUsed := OSTmrUsed s + 1, OSTmrFree := OSTmrFree s - 1\<rparr>)
     })"

definition OSTmr_Free :: "nat \<Rightarrow> 'a os_tmr \<Rightarrow> 'a os_tmr" where
  "OSTmr_Free t s = (upd_tmr t (\<lambda>x. x\<lparr>OSTmrState := OS_TMR_STATE_UNUSED, OSTmrOpt := OS_TMR_OPT_NONE, OSTmrPeriod := 0,
     OSTmrMatch := 0, OSTmrCallback := None, OSTmrCallbackArg := 0, OSTmrName := ''?'', OSTmrPrev := None,
     OSTmrNext := OSTmrFreeList s\<rparr>) s)\<lparr>OSTmrFreeList := Some t, OSTmrUsed := OSTmrUsed s - 1, OSTmrFree := OSTmrFree s + 1\<rparr>"

subsection \<open>The wheel\<close>

definition spoke_of :: "u32 \<Rightarrow> nat" where
  "spoke_of m = unat (m mod 7)"

text \<open>When the timer will expire.\<close>

definition link_match :: "u8 \<Rightarrow> OS_TMR \<Rightarrow> u32 \<Rightarrow> u32" where
  "link_match type x now = (if type = OS_TMR_LINK_PERIODIC then OSTmrPeriod x + now
     else if OSTmrDly x = 0 then OSTmrPeriod x + now else OSTmrDly x + now)"

definition OSTmr_Link :: "nat \<Rightarrow> u8 \<Rightarrow> 'a os_tmr \<Rightarrow> 'a os_tmr option" where
  "OSTmr_Link t type s = do {
     let s1 = upd_tmr t (\<lambda>x. x\<lparr>OSTmrState := OS_TMR_STATE_RUNNING\<rparr>) s;
     let m = link_match type (OSTmrTbl s1 t) (OSTmrTime s1);
     let s2 = upd_tmr t (\<lambda>x. x\<lparr>OSTmrMatch := m\<rparr>) s1;
     let i = spoke_of m;
     s3 \<leftarrow> (case OSTmrFirst (OSTmrWheelTbl s2 i) of
        None \<Rightarrow> Some (upd_spoke i (\<lambda>w. w\<lparr>OSTmrEntries := 1\<rparr>)
          (upd_tmr t (\<lambda>x. x\<lparr>OSTmrNext := None\<rparr>) (upd_spoke i (\<lambda>w. w\<lparr>OSTmrFirst := Some t\<rparr>) s2)))
      | Some f \<Rightarrow> do {
          guard (f < OS_TMR_CFG_MAX);
          Some (upd_spoke i (\<lambda>w. w\<lparr>OSTmrEntries := OSTmrEntries w + 1\<rparr>)
            (upd_tmr f (\<lambda>x. x\<lparr>OSTmrPrev := Some t\<rparr>) (upd_tmr t (\<lambda>x. x\<lparr>OSTmrNext := Some f\<rparr>)
              (upd_spoke i (\<lambda>w. w\<lparr>OSTmrFirst := Some t\<rparr>) s2))))
        });
     Some (upd_tmr t (\<lambda>x. x\<lparr>OSTmrPrev := None\<rparr>) s3)
   }"

definition OSTmr_Unlink :: "nat \<Rightarrow> 'a os_tmr \<Rightarrow> 'a os_tmr option" where
  "OSTmr_Unlink t s = do {
     let x = OSTmrTbl s t;
     let i = spoke_of (OSTmrMatch x);
     s1 \<leftarrow> (if OSTmrFirst (OSTmrWheelTbl s i) = Some t
       then let s1 = upd_spoke i (\<lambda>w. w\<lparr>OSTmrFirst := OSTmrNext x\<rparr>) s
            in case OSTmrNext x of
              None \<Rightarrow> Some s1
            | Some n \<Rightarrow> do { guard (n < OS_TMR_CFG_MAX); Some (upd_tmr n (\<lambda>y. y\<lparr>OSTmrPrev := None\<rparr>) s1) }
       else do {
         (p, _) \<leftarrow> tmr s (OSTmrPrev x);
         let s1 = upd_tmr p (\<lambda>y. y\<lparr>OSTmrNext := OSTmrNext x\<rparr>) s;
         case OSTmrNext x of
           None \<Rightarrow> Some s1
         | Some n \<Rightarrow> do { guard (n < OS_TMR_CFG_MAX); Some (upd_tmr n (\<lambda>y. y\<lparr>OSTmrPrev := Some p\<rparr>) s1) }
       });
     Some (upd_spoke i (\<lambda>w. w\<lparr>OSTmrEntries := OSTmrEntries w - 1\<rparr>)
       (upd_tmr t (\<lambda>x. x\<lparr>OSTmrState := OS_TMR_STATE_STOPPED, OSTmrNext := None, OSTmrPrev := None\<rparr>) s1))
   }"

subsection \<open>Services\<close>

definition OSTmrCreate :: "bool \<Rightarrow> u32 \<Rightarrow> u32 \<Rightarrow> u8 \<Rightarrow> nat option \<Rightarrow> u32 \<Rightarrow> string option \<Rightarrow> 'a os_tmr \<Rightarrow>
    ((nat option \<times> u8) \<times> 'a os_tmr) option" where
  "OSTmrCreate chk dly period opt callback callback_arg pname s =
     (if chk \<and> opt = OS_TMR_OPT_PERIODIC \<and> period = 0 then Some ((None, OS_ERR_TMR_INVALID_PERIOD), s)
      else if chk \<and> opt = OS_TMR_OPT_ONE_SHOT \<and> dly = 0 then Some ((None, OS_ERR_TMR_INVALID_DLY), s)
      else if chk \<and> opt \<noteq> OS_TMR_OPT_PERIODIC \<and> opt \<noteq> OS_TMR_OPT_ONE_SHOT then Some ((None, OS_ERR_TMR_INVALID_OPT), s)
      else if OSIntNesting (kern s) > 0 then Some ((None, OS_ERR_TMR_ISR), s)
      else do {
        (p, s1) \<leftarrow> OSTmr_Alloc (tmr_lock s);
        case p of
          None \<Rightarrow> tmr_leave (None, OS_ERR_TMR_NON_AVAIL) s1
        | Some t \<Rightarrow> tmr_leave (Some t, OS_ERR_NONE) (upd_tmr t (\<lambda>x. x\<lparr>OSTmrState := OS_TMR_STATE_STOPPED, OSTmrDly := dly,
            OSTmrPeriod := period, OSTmrOpt := opt, OSTmrCallback := callback, OSTmrCallbackArg := callback_arg,
            OSTmrName := (case pname of None \<Rightarrow> ''?'' | Some nm \<Rightarrow> nm)\<rparr>) s1)
      })"

definition OSTmrDel :: "bool \<Rightarrow> nat option \<Rightarrow> 'a os_tmr \<Rightarrow> ((bool \<times> u8) \<times> 'a os_tmr) option" where
  "OSTmrDel chk ptmr s =
     (if chk \<and> ptmr = None then Some ((False, OS_ERR_TMR_INVALID), s)
      else do {
        (t, x) \<leftarrow> tmr s ptmr;
        if OSTmrType x \<noteq> OS_TMR_TYPE then Some ((False, OS_ERR_TMR_INVALID_TYPE), s)
        else if OSIntNesting (kern s) > 0 then Some ((False, OS_ERR_TMR_ISR), s)
        else if OSTmrState x = OS_TMR_STATE_RUNNING then do {
          s1 \<leftarrow> OSTmr_Unlink t (tmr_lock s);
          tmr_leave (True, OS_ERR_NONE) (OSTmr_Free t s1)
        }
        else if OSTmrState x = OS_TMR_STATE_STOPPED \<or> OSTmrState x = OS_TMR_STATE_COMPLETED
        then tmr_leave (True, OS_ERR_NONE) (OSTmr_Free t (tmr_lock s))
        else if OSTmrState x = OS_TMR_STATE_UNUSED then tmr_leave (False, OS_ERR_TMR_INACTIVE) (tmr_lock s)
        else tmr_leave (False, OS_ERR_TMR_INVALID_STATE) (tmr_lock s)
      })"

definition OSTmrNameGet :: "bool \<Rightarrow> nat option \<Rightarrow> bool \<Rightarrow> 'a os_tmr \<Rightarrow> ((u8 \<times> string option \<times> u8) \<times> 'a os_tmr) option" where
  "OSTmrNameGet chk ptmr pdest s =
     (if chk \<and> \<not> pdest then Some ((0, None, OS_ERR_TMR_INVALID_DEST), s)
      else if chk \<and> ptmr = None then Some ((0, None, OS_ERR_TMR_INVALID), s)
      else do {
        (t, x) \<leftarrow> tmr s ptmr;
        if OSTmrType x \<noteq> OS_TMR_TYPE then Some ((0, None, OS_ERR_TMR_INVALID_TYPE), s)
        else if OSIntNesting (kern s) > 0 then Some ((0, None, OS_ERR_NAME_GET_ISR), s)
        else if OSTmrState x \<in> {OS_TMR_STATE_RUNNING, OS_TMR_STATE_STOPPED, OS_TMR_STATE_COMPLETED} then do {
          guard pdest;
          tmr_leave (OS_StrLen (OSTmrName x), Some (OSTmrName x), OS_ERR_NONE) (tmr_lock s)
        }
        else if OSTmrState x = OS_TMR_STATE_UNUSED then tmr_leave (0, None, OS_ERR_TMR_INACTIVE) (tmr_lock s)
        else tmr_leave (0, None, OS_ERR_TMR_INVALID_STATE) (tmr_lock s)
      })"

definition OSTmrRemainGet :: "bool \<Rightarrow> nat option \<Rightarrow> 'a os_tmr \<Rightarrow> ((u32 \<times> u8) \<times> 'a os_tmr) option" where
  "OSTmrRemainGet chk ptmr s =
     (if chk \<and> ptmr = None then Some ((0, OS_ERR_TMR_INVALID), s)
      else do {
        (t, x) \<leftarrow> tmr s ptmr;
        if OSTmrType x \<noteq> OS_TMR_TYPE then Some ((0, OS_ERR_TMR_INVALID_TYPE), s)
        else if OSIntNesting (kern s) > 0 then Some ((0, OS_ERR_TMR_ISR), s)
        else if OSTmrState x = OS_TMR_STATE_RUNNING then tmr_leave (OSTmrMatch x - OSTmrTime s, OS_ERR_NONE) (tmr_lock s)
        else if OSTmrState x = OS_TMR_STATE_STOPPED
        then tmr_leave (if OSTmrOpt x = OS_TMR_OPT_PERIODIC \<and> OSTmrDly x = 0 then OSTmrPeriod x else OSTmrDly x, OS_ERR_NONE) (tmr_lock s)
        else if OSTmrState x = OS_TMR_STATE_COMPLETED then tmr_leave (0, OS_ERR_NONE) (tmr_lock s)
        else if OSTmrState x = OS_TMR_STATE_UNUSED then tmr_leave (0, OS_ERR_TMR_INACTIVE) (tmr_lock s)
        else tmr_leave (0, OS_ERR_TMR_INVALID_STATE) (tmr_lock s)
      })"

definition OSTmrStateGet :: "bool \<Rightarrow> nat option \<Rightarrow> 'a os_tmr \<Rightarrow> ((u8 \<times> u8) \<times> 'a os_tmr) option" where
  "OSTmrStateGet chk ptmr s =
     (if chk \<and> ptmr = None then Some ((0, OS_ERR_TMR_INVALID), s)
      else do {
        (t, x) \<leftarrow> tmr s ptmr;
        if OSTmrType x \<noteq> OS_TMR_TYPE then Some ((0, OS_ERR_TMR_INVALID_TYPE), s)
        else if OSIntNesting (kern s) > 0 then Some ((0, OS_ERR_TMR_ISR), s)
        else tmr_leave (OSTmrState x, if OSTmrState x \<in> {OS_TMR_STATE_UNUSED, OS_TMR_STATE_STOPPED, OS_TMR_STATE_COMPLETED,
          OS_TMR_STATE_RUNNING} then OS_ERR_NONE else OS_ERR_TMR_INVALID_STATE) (tmr_lock s)
      })"

definition OSTmrStart :: "bool \<Rightarrow> nat option \<Rightarrow> 'a os_tmr \<Rightarrow> ((bool \<times> u8) \<times> 'a os_tmr) option" where
  "OSTmrStart chk ptmr s =
     (if chk \<and> ptmr = None then Some ((False, OS_ERR_TMR_INVALID), s)
      else do {
        (t, x) \<leftarrow> tmr s ptmr;
        if OSTmrType x \<noteq> OS_TMR_TYPE then Some ((False, OS_ERR_TMR_INVALID_TYPE), s)
        else if OSIntNesting (kern s) > 0 then Some ((False, OS_ERR_TMR_ISR), s)
        else if OSTmrState x = OS_TMR_STATE_RUNNING then do {
          s1 \<leftarrow> OSTmr_Unlink t (tmr_lock s);
          s2 \<leftarrow> OSTmr_Link t OS_TMR_LINK_DLY s1;
          tmr_leave (True, OS_ERR_NONE) s2
        }
        else if OSTmrState x = OS_TMR_STATE_STOPPED \<or> OSTmrState x = OS_TMR_STATE_COMPLETED then do {
          s2 \<leftarrow> OSTmr_Link t OS_TMR_LINK_DLY (tmr_lock s);
          tmr_leave (True, OS_ERR_NONE) s2
        }
        else if OSTmrState x = OS_TMR_STATE_UNUSED then tmr_leave (False, OS_ERR_TMR_INACTIVE) (tmr_lock s)
        else tmr_leave (False, OS_ERR_TMR_INVALID_STATE) (tmr_lock s)
      })"

text \<open>The callback of \<open>OSTmrStop\<close>: the error code, and what the call does.\<close>

definition stop_callback :: "'a callbacks \<Rightarrow> nat \<Rightarrow> u32 \<Rightarrow> 'a os_tmr \<Rightarrow> (u8 \<times> 'a os_tmr) option" where
  "stop_callback cb t arg s = (case OSTmrCallback (OSTmrTbl s t) of
       None \<Rightarrow> Some (OS_ERR_TMR_NO_CALLBACK, s)
     | Some f \<Rightarrow> do { s1 \<leftarrow> cb f t arg s; Some (OS_ERR_NONE, s1) })"

definition OSTmrStop :: "bool \<Rightarrow> 'a callbacks \<Rightarrow> nat option \<Rightarrow> u8 \<Rightarrow> u32 \<Rightarrow> 'a os_tmr \<Rightarrow> ((bool \<times> u8) \<times> 'a os_tmr) option" where
  "OSTmrStop chk cb ptmr opt callback_arg s =
     (if chk \<and> ptmr = None then Some ((False, OS_ERR_TMR_INVALID), s)
      else do {
        (t, x) \<leftarrow> tmr s ptmr;
        if OSTmrType x \<noteq> OS_TMR_TYPE then Some ((False, OS_ERR_TMR_INVALID_TYPE), s)
        else if OSIntNesting (kern s) > 0 then Some ((False, OS_ERR_TMR_ISR), s)
        else if OSTmrState x = OS_TMR_STATE_RUNNING then do {
          s1 \<leftarrow> OSTmr_Unlink t (tmr_lock s);
          (err, s2) \<leftarrow> (if opt = OS_TMR_OPT_CALLBACK then stop_callback cb t (OSTmrCallbackArg (OSTmrTbl s1 t)) s1
            else if opt = OS_TMR_OPT_CALLBACK_ARG then stop_callback cb t callback_arg s1
            else if opt = OS_TMR_OPT_NONE then Some (OS_ERR_NONE, s1)
            else Some (OS_ERR_TMR_INVALID_OPT, s1));
          tmr_leave (True, err) s2
        }
        else if OSTmrState x = OS_TMR_STATE_COMPLETED \<or> OSTmrState x = OS_TMR_STATE_STOPPED
        then tmr_leave (True, OS_ERR_TMR_STOPPED) (tmr_lock s)
        else if OSTmrState x = OS_TMR_STATE_UNUSED then tmr_leave (False, OS_ERR_TMR_INACTIVE) (tmr_lock s)
        else tmr_leave (False, OS_ERR_TMR_INVALID_STATE) (tmr_lock s)
      })"

definition OSTmrSignal :: "'a os_tmr \<Rightarrow> (u8 \<times> 'a os_tmr) option" where
  "OSTmrSignal s = do {
     e \<leftarrow> OSTmrSemSignal s;
     (err, k) \<leftarrow> OSSemPost e (kern s);
     Some (err, s\<lparr>kern := k\<rparr>)
   }"

subsection \<open>The timer task\<close>

text \<open>The task first waits for a signal; what follows is one turn of its loop.\<close>

definition OSTmr_Task_pend :: "'a os_tmr \<Rightarrow> (u8 pended \<times> 'a os_tmr) option" where
  "OSTmr_Task_pend s = do {
     e \<leftarrow> OSTmrSemSignal s;
     (r, k) \<leftarrow> OSSemPend e 0 (kern s);
     Some (r, s\<lparr>kern := k\<rparr>)
   }"

definition tmr_expire :: "'a callbacks \<Rightarrow> nat \<Rightarrow> 'a os_tmr \<Rightarrow> 'a os_tmr option" where
  "tmr_expire cb t s = do {
     s1 \<leftarrow> OSTmr_Unlink t s;
     s2 \<leftarrow> (if OSTmrOpt (OSTmrTbl s1 t) = OS_TMR_OPT_PERIODIC then OSTmr_Link t OS_TMR_LINK_PERIODIC s1
            else Some (upd_tmr t (\<lambda>x. x\<lparr>OSTmrState := OS_TMR_STATE_COMPLETED\<rparr>) s1));
     case OSTmrCallback (OSTmrTbl s2 t) of
       None \<Rightarrow> Some s2
     | Some f \<Rightarrow> cb f t (OSTmrCallbackArg (OSTmrTbl s2 t)) s2
   }"

partial_function (option) tmr_walk :: "'a callbacks \<Rightarrow> nat option \<Rightarrow> 'a os_tmr \<Rightarrow> 'a os_tmr option" where
  "tmr_walk cb ptmr s = (if ptmr = None then Some s
     else do {
       (t, x) \<leftarrow> tmr s ptmr;
       s1 \<leftarrow> (if OSTmrTime s = OSTmrMatch x then tmr_expire cb t s else Some s);
       tmr_walk cb (OSTmrNext x) s1
     })"

definition OSTmr_Task_update :: "'a callbacks \<Rightarrow> 'a os_tmr \<Rightarrow> 'a os_tmr option" where
  "OSTmr_Task_update cb s = do {
     let s1 = (tmr_lock s)\<lparr>OSTmrTime := OSTmrTime s + 1\<rparr>;
     s2 \<leftarrow> tmr_walk cb (OSTmrFirst (OSTmrWheelTbl s1 (spoke_of (OSTmrTime s1)))) s1;
     tmr_unlock s2
   }"

subsection \<open>Initialisation\<close>

definition tmr_zero :: OS_TMR where
  "tmr_zero = \<lparr>OSTmrType = 0, OSTmrCallback = None, OSTmrCallbackArg = 0, OSTmrNext = None, OSTmrPrev = None, OSTmrMatch = 0,
     OSTmrDly = 0, OSTmrPeriod = 0, OSTmrName = '''', OSTmrOpt = 0, OSTmrState = 0\<rparr>"

fun tmr_init_loop :: "nat \<Rightarrow> nat \<Rightarrow> (nat \<Rightarrow> OS_TMR) \<Rightarrow> (nat \<Rightarrow> OS_TMR)" where
  "tmr_init_loop 0 ix tbl =
     tbl(ix := (tbl ix)\<lparr>OSTmrType := OS_TMR_TYPE, OSTmrState := OS_TMR_STATE_UNUSED, OSTmrNext := None, OSTmrName := ''?''\<rparr>)"
| "tmr_init_loop (Suc n) ix tbl = tmr_init_loop n (ix + 1)
     (tbl(ix := (tbl ix)\<lparr>OSTmrType := OS_TMR_TYPE, OSTmrState := OS_TMR_STATE_UNUSED, OSTmrNext := Some (ix + 1), OSTmrName := ''?''\<rparr>))"

text \<open>What the linker and the application configure: the entry points, the stack and the priority of the timer task.\<close>

record tmr_linkage =
  OSTmr_Task_addr :: u32
  OS_TaskReturn_adr :: u32
  OSTmrTaskStk :: nat
  OS_TASK_TMR_PRIO :: u8

definition OSTmr_InitTask :: "tmr_linkage \<Rightarrow> os \<Rightarrow> os option" where
  "OSTmr_InitTask l k = do {
     (_, k1) \<leftarrow> OSTaskCreateExt (OS_TaskReturn_adr l) (OSTmr_Task_addr l) 0
       (OSTmrTaskStk l + unat (OS_TASK_TMR_STK_SIZE - 1)) (OS_TASK_TMR_PRIO l) 65533 (OSTmrTaskStk l)
       OS_TASK_TMR_STK_SIZE VNull (OS_TASK_OPT_STK_CHK OR OS_TASK_OPT_STK_CLR) k;
     (_, k2) \<leftarrow> OSTaskNameSet (OS_TASK_TMR_PRIO l) ''uC/OS-II Tmr'' k1;
     Some k2
   }"

definition OSTmr_Init :: "tmr_linkage \<Rightarrow> 'a os_tmr \<Rightarrow> 'a os_tmr option" where
  "OSTmr_Init l s = do {
     (sem, k1) \<leftarrow> OSSemCreate 1 (kern s);
     (sig, k2) \<leftarrow> OSSemCreate 0 k1;
     e1 \<leftarrow> sem;
     (_, k3) \<leftarrow> OSEventNameSet e1 ''uC/OS-II TmrLock'' k2;
     e2 \<leftarrow> sig;
     (_, k4) \<leftarrow> OSEventNameSet e2 ''uC/OS-II TmrSignal'' k3;
     k5 \<leftarrow> OSTmr_InitTask l k4;
     Some (s\<lparr>OSTmrTbl := tmr_init_loop (OS_TMR_CFG_MAX - 1) 0 (\<lambda>_. tmr_zero),
       OSTmrWheelTbl := (\<lambda>_. \<lparr>OSTmrFirst = None, OSTmrEntries = 0\<rparr>), OSTmrTime := 0, OSTmrUsed := 0,
       OSTmrFree := of_nat OS_TMR_CFG_MAX, OSTmrFreeList := Some 0, OSTmrSem := sem, OSTmrSemSignal := sig, kern := k5\<rparr>)
   }"

end
