(* ===== verification/OS_Running.thy ===== *)
theory OS_Running
  imports OS_Sem OS_Scheduler OS_Task
begin

text \<open>
  A running kernel outside interrupts and with the scheduler unlocked, and what the calls do that create
  and name objects in it: what the components above the kernel need to set themselves up.
\<close>

definition kern_ok :: "os \<Rightarrow> bool" where
  "kern_ok k \<longleftrightarrow> (\<exists>c. kernel_ok k c) \<and> OSRunning k \<and> OSIntNesting k = 0 \<and> OSLockNesting k = 0"

text \<open>The same with the scheduler locked once: what runs between \<open>OSSchedLock\<close> and \<open>OSSchedUnlock\<close> sees such a kernel.\<close>

definition locked_ok :: "os \<Rightarrow> bool" where
  "locked_ok k \<longleftrightarrow> (\<exists>c. kernel_ok k c) \<and> OSRunning k \<and> OSIntNesting k = 0 \<and> OSLockNesting k = 1"

lemma kern_ok_lock: "kern_ok k \<Longrightarrow> locked_ok (OSSchedLock k)"
  using kernel_ok_sched_lock by (auto simp: kern_ok_def locked_ok_def) (auto simp: OSSchedLock_def)

lemma locked_ok_unlock:
  assumes "locked_ok k"
  obtains k' where "OSSchedUnlock k = Some k'" "kern_ok k'"
proof -
  obtain c where c: "kernel_ok k c" and l: "OSRunning k" "OSIntNesting k = 0" "OSLockNesting k = 1"
    using assms by (auto simp: locked_ok_def)
  then obtain k' c' where k': "OSSchedUnlock k = Some k'" "kernel_ok k' c'" "sw_frame (k\<lparr>OSLockNesting := 0\<rparr>) k'"
    using kernel_ok_sched_unlock [of k c] by auto
  then have "kern_ok k'" using l by (auto simp: kern_ok_def sw_frame_def)
  then show ?thesis using that k'(1) by blast
qed

lemma sem_name_ok:
  assumes ok: "kernel_ok k c" and sem: "is_sem k e" and n: "OSIntNesting k = 0"
  obtains k' where "OSEventNameSet e nm k = Some (OS_ERR_NONE, k')" "kernel_ok k' c"
    "k' = upd_evt e (\<lambda>ev. ev\<lparr>OSEventName := nm\<rparr>) k" "\<forall>i. is_sem k' i = is_sem k i" "\<forall>i. sem_count k' i = sem_count k i"
proof -
  let ?k = "upd_evt e (\<lambda>ev. ev\<lparr>OSEventName := nm\<rparr>) k"
  note d = is_semD [OF sem]
  have "OSEventNameSet e nm k = Some (OS_ERR_NONE, ?k)"
    using n by (simp add: OSEventNameSet_def d named_event_def)
  moreover have "kernel_ok ?k c"
  proof (rule kernel_ok_upd_evt [OF ok])
    show "obj_inv ?k" by (rule obj_inv_upd_value) (use kernel_okD(9) [OF ok] d(3) in auto)
    assume "avail ?k e"
    then have "avail k e" using d(3) by (simp add: avail_def Let_def)
    then show "waiters k e = {}" by (rule no_waiters [OF ok])
  qed (simp_all add: evt_bm_def)
  ultimately show ?thesis
    by (rule that) (auto simp: is_sem_def)
qed

lemma task_name_ok:
  assumes ok: "kernel_ok k c" and p: "p \<le> OS_LOWEST_PRIO" "OSTCBPrioTbl k p = TPtr t" "t < OS_MAX_TCBS" and n: "OSIntNesting k = 0"
  shows "OSTaskNameSet p nm k = Some (OS_ERR_NONE, upd_tcb t (\<lambda>x. x\<lparr>OSTCBTaskName := nm\<rparr>) k)"
    and "kernel_ok (upd_tcb t (\<lambda>x. x\<lparr>OSTCBTaskName := nm\<rparr>) k) c"
proof -
  let ?k = "upd_tcb t (\<lambda>x. x\<lparr>OSTCBTaskName := nm\<rparr>) k"
  have "p \<noteq> OS_PRIO_SELF" using p(1) by auto
  then show "OSTaskNameSet p nm k = Some (OS_ERR_NONE, ?k)"
    using p n by (simp add: OSTaskNameSet_def self_prio_def prio_tbl_def)
  have "sched_inv ?k"
    by (rule sched_inv_upd_tcb_view [OF kernel_okD(1) [OF ok]]) (simp add: sched_view_def prio_view_def)
  moreover have "wq_frame k ?k"
    by (simp add: wq_frame_def wq_rest_def link_view_def prio_view_def) (simp add: upd_tcb_def)
  ultimately show "kernel_ok ?k c" by (rule kernel_ok_wq_frame [OF ok]) simp_all
qed

lemma event_alloc_frame:
  assumes "event_alloc k = Some (r, k')"
  shows "OSRunning k' = OSRunning k" "OSIntNesting k' = OSIntNesting k" "OSLockNesting k' = OSLockNesting k"
    "OSTCBFreeList k' = OSTCBFreeList k" "OSTCBPrioTbl k' = OSTCBPrioTbl k"
  using assms by (auto simp: event_alloc_def split: if_splits elim!: bind_SomeE)

lemma OSSemCreate_frame:
  assumes "OSSemCreate n k = Some (Some e, k')"
  shows "OSRunning k' = OSRunning k" "OSIntNesting k' = OSIntNesting k" "OSLockNesting k' = OSLockNesting k"
    "OSTCBFreeList k' = OSTCBFreeList k" "OSTCBPrioTbl k' = OSTCBPrioTbl k"
proof -
  obtain r where r: "event_alloc k = Some r" "(case fst r of None \<Rightarrow> Some (None, snd r)
      | Some e \<Rightarrow> Some (Some e, OS_EventWaitListInit e (upd_evt e (\<lambda>ev. ev\<lparr>OSEventType := OS_EVENT_TYPE_SEM,
            OSEventCnt := n, OSEventPtr := VNull, OSEventName := ''?''\<rparr>) (snd r)))) = Some (Some e, k')"
    using assms unfolding OSSemCreate_def by (cases "OSIntNesting k > 0") (auto elim: bind_SomeE)
  obtain i where "fst r = Some i" using r(2) by (cases "fst r") simp_all
  then have k': "k' = OS_EventWaitListInit i (upd_evt i (\<lambda>ev. ev\<lparr>OSEventType := OS_EVENT_TYPE_SEM,
            OSEventCnt := n, OSEventPtr := VNull, OSEventName := ''?''\<rparr>) (snd r))" using r(2) by auto
  have "event_alloc k = Some (fst r, snd r)" using r(1) by simp
  note f = event_alloc_frame [OF this]
  show "OSRunning k' = OSRunning k" "OSIntNesting k' = OSIntNesting k" "OSLockNesting k' = OSLockNesting k"
    "OSTCBFreeList k' = OSTCBFreeList k" "OSTCBPrioTbl k' = OSTCBPrioTbl k"
    unfolding k' using f by (simp_all add: OS_EventWaitListInit_def)
qed

lemma sem_create_ok:
  assumes ok: "kern_ok k" and u: "unused k \<noteq> {}"
  obtains e k' where "OSSemCreate n k = Some (Some e, k')" "kern_ok k'" "e \<in> unused k" "unused k' = unused k - {e}" "is_sem k' e"
    "sem_count k' e = n" "\<forall>i. i \<noteq> e \<longrightarrow> OSEvents k' i = OSEvents k i" "OSTCBFreeList k' = OSTCBFreeList k" "OSTCBPrioTbl k' = OSTCBPrioTbl k"
proof -
  obtain c where c: "kernel_ok k c" and k: "OSRunning k" "OSIntNesting k = 0" "OSLockNesting k = 0" using ok by (auto simp: kern_ok_def)
  obtain e k' where e: "OSSemCreate n k = Some (Some e, k')" "created k e OS_EVENT_TYPE_SEM n VNull k'" "kernel_ok k' c"
    using OSSemCreate_ok(2) [OF c k(2) u] by blast
  note f = OSSemCreate_frame [OF e(1)]
  have "kern_ok k'" using e(3) f k by (auto simp: kern_ok_def)
  moreover have "is_sem k' e" using e(2) by (auto simp: created_def is_sem_def unused_def)
  ultimately show ?thesis using that [OF e(1)] e(2) f(4,5) unfolding created_def by blast
qed

end
