(* ===== verification/OS_Tmr_Proofs.thy ===== *)
theory OS_Tmr_Proofs
  imports OS_Tmr OS_Dlist OS_Running
begin

text \<open>
  The software timers. The invariant \<open>tmr_lists\<close> says that each spoke of the wheel holds exactly the
  running timers whose expiry time leads to it, and the free list the unused ones; every service and
  every turn of the timer task keeps it, and a timer fires exactly when its delay is over.
\<close>

subsection \<open>The invariant\<close>

abbreviation tnx :: "'a os_tmr \<Rightarrow> nat \<Rightarrow> nat option" where "tnx s \<equiv> \<lambda>t. OSTmrNext (OSTmrTbl s t)"
abbreviation tpv :: "'a os_tmr \<Rightarrow> nat \<Rightarrow> nat option" where "tpv s \<equiv> \<lambda>t. OSTmrPrev (OSTmrTbl s t)"

text \<open>A timer without its links.\<close>

definition unlinked :: "OS_TMR \<Rightarrow> OS_TMR" where
  "unlinked x = x\<lparr>OSTmrNext := None, OSTmrPrev := None\<rparr>"

definition tmr_data :: "'a os_tmr \<Rightarrow> nat \<Rightarrow> OS_TMR" where
  "tmr_data s t = unlinked (OSTmrTbl s t)"

lemma unlinked_sel [simp]:
  "OSTmrType (unlinked x) = OSTmrType x" "OSTmrState (unlinked x) = OSTmrState x" "OSTmrMatch (unlinked x) = OSTmrMatch x"
  "OSTmrDly (unlinked x) = OSTmrDly x" "OSTmrPeriod (unlinked x) = OSTmrPeriod x" "OSTmrOpt (unlinked x) = OSTmrOpt x"
  "OSTmrCallback (unlinked x) = OSTmrCallback x" "OSTmrCallbackArg (unlinked x) = OSTmrCallbackArg x"
  "OSTmrName (unlinked x) = OSTmrName x"
  by (simp_all add: unlinked_def)

lemma unlinked_upd [simp]:
  "unlinked (x\<lparr>OSTmrNext := p\<rparr>) = unlinked x" "unlinked (x\<lparr>OSTmrPrev := p\<rparr>) = unlinked x"
  "unlinked (x\<lparr>OSTmrState := st\<rparr>) = (unlinked x)\<lparr>OSTmrState := st\<rparr>" "unlinked (x\<lparr>OSTmrMatch := m\<rparr>) = (unlinked x)\<lparr>OSTmrMatch := m\<rparr>"
  by (cases x; simp add: unlinked_def)+

definition running :: "'a os_tmr \<Rightarrow> nat \<Rightarrow> bool" where
  "running s t \<longleftrightarrow> t < OS_TMR_CFG_MAX \<and> OSTmrState (tmr_data s t) = OS_TMR_STATE_RUNNING"

definition expiry :: "'a os_tmr \<Rightarrow> nat \<Rightarrow> u32" where
  "expiry s t = OSTmrMatch (tmr_data s t)"

definition spoke_ok :: "'a os_tmr \<Rightarrow> nat \<Rightarrow> nat list \<Rightarrow> bool" where
  "spoke_ok s i xs \<longleftrightarrow> OSTmrFirst (OSTmrWheelTbl s i) = first_of xs None \<and> OSTmrEntries (OSTmrWheelTbl s i) = of_nat (length xs) \<and>
     dlinked (tnx s) (tpv s) None xs None \<and> distinct xs \<and> set xs = {t. running s t \<and> spoke_of (expiry s t) = i}"

fun free_tmrs :: "(nat \<Rightarrow> nat option) \<Rightarrow> nat option \<Rightarrow> nat list \<Rightarrow> bool" where
  "free_tmrs nx p [] \<longleftrightarrow> p = None"
| "free_tmrs nx p (t # ts) \<longleftrightarrow> p = Some t \<and> free_tmrs nx (nx t) ts"

lemma free_tmrs_cong: "(\<And>t. t \<in> set ts \<Longrightarrow> nx' t = nx t) \<Longrightarrow> free_tmrs nx' p ts = free_tmrs nx p ts"
  by (induction ts arbitrary: p) auto

definition pool_ok :: "'a os_tmr \<Rightarrow> nat list \<Rightarrow> bool" where
  "pool_ok s fs \<longleftrightarrow> free_tmrs (tnx s) (OSTmrFreeList s) fs \<and> distinct fs \<and>
     set fs = {t. t < OS_TMR_CFG_MAX \<and> OSTmrState (tmr_data s t) = OS_TMR_STATE_UNUSED} \<and>
     OSTmrFree s = of_nat (length fs) \<and> OSTmrUsed s + OSTmrFree s = of_nat OS_TMR_CFG_MAX"

definition tmr_lists :: "'a os_tmr \<Rightarrow> (nat \<Rightarrow> nat list) \<Rightarrow> nat list \<Rightarrow> bool" where
  "tmr_lists s W fs \<longleftrightarrow> (\<forall>i < OS_TMR_CFG_WHEEL_SIZE. spoke_ok s i (W i)) \<and> pool_ok s fs \<and>
     (\<forall>t < OS_TMR_CFG_MAX. OSTmrType (tmr_data s t) = OS_TMR_TYPE \<and> OSTmrState (tmr_data s t) \<le> OS_TMR_STATE_RUNNING)"

lemma spoke_of_less [simp]: "spoke_of m < 7"
proof -
  have "unat (m mod 7) = unat m mod 7" by (simp add: unat_mod_distrib)
  then show ?thesis by (simp add: spoke_of_def)
qed

lemma tmr_listsD:
  assumes "tmr_lists s W fs"
  shows "i < OS_TMR_CFG_WHEEL_SIZE \<Longrightarrow> spoke_ok s i (W i)" and "pool_ok s fs"
    and "t < OS_TMR_CFG_MAX \<Longrightarrow> OSTmrType (tmr_data s t) = OS_TMR_TYPE"
    and "t < OS_TMR_CFG_MAX \<Longrightarrow> OSTmrState (tmr_data s t) \<le> OS_TMR_STATE_RUNNING"
  using assms unfolding tmr_lists_def by blast+

lemma spoke_okD:
  assumes "spoke_ok s i xs"
  shows "OSTmrFirst (OSTmrWheelTbl s i) = first_of xs None" "OSTmrEntries (OSTmrWheelTbl s i) = of_nat (length xs)"
    "dlinked (tnx s) (tpv s) None xs None" "distinct xs" "set xs = {t. running s t \<and> spoke_of (expiry s t) = i}"
  using assms unfolding spoke_ok_def by blast+

lemma running_in_spoke:
  assumes "tmr_lists s W fs" and "running s t"
  shows "t \<in> set (W (spoke_of (expiry s t)))"
  using spoke_okD(5) [OF tmr_listsD(1) [OF assms(1) spoke_of_less]] assms(2) by blast

text \<open>What an operation on the wheel leaves alone.\<close>

definition tmr_frame :: "'a os_tmr \<Rightarrow> 'a os_tmr \<Rightarrow> bool" where
  "tmr_frame s s' \<longleftrightarrow> OSTmrTime s' = OSTmrTime s \<and> OSTmrSem s' = OSTmrSem s \<and> OSTmrSemSignal s' = OSTmrSemSignal s \<and>
     kern s' = kern s \<and> app s' = app s"

lemma upd_tmr_sel [simp]:
  "OSTmrTbl (upd_tmr t f s) = (OSTmrTbl s)(t := f (OSTmrTbl s t))" "OSTmrWheelTbl (upd_tmr t f s) = OSTmrWheelTbl s"
  "OSTmrFree (upd_tmr t f s) = OSTmrFree s" "OSTmrUsed (upd_tmr t f s) = OSTmrUsed s" "OSTmrTime (upd_tmr t f s) = OSTmrTime s"
  "OSTmrSem (upd_tmr t f s) = OSTmrSem s" "OSTmrSemSignal (upd_tmr t f s) = OSTmrSemSignal s"
  "OSTmrFreeList (upd_tmr t f s) = OSTmrFreeList s" "kern (upd_tmr t f s) = kern s" "app (upd_tmr t f s) = app s"
  by (simp_all add: upd_tmr_def)

lemma upd_spoke_sel [simp]:
  "OSTmrTbl (upd_spoke i g s) = OSTmrTbl s" "OSTmrWheelTbl (upd_spoke i g s) = (OSTmrWheelTbl s)(i := g (OSTmrWheelTbl s i))"
  "OSTmrFree (upd_spoke i g s) = OSTmrFree s" "OSTmrUsed (upd_spoke i g s) = OSTmrUsed s" "OSTmrTime (upd_spoke i g s) = OSTmrTime s"
  "OSTmrSem (upd_spoke i g s) = OSTmrSem s" "OSTmrSemSignal (upd_spoke i g s) = OSTmrSemSignal s"
  "OSTmrFreeList (upd_spoke i g s) = OSTmrFreeList s" "kern (upd_spoke i g s) = kern s" "app (upd_spoke i g s) = app s"
  by (simp_all add: upd_spoke_def)

subsection \<open>Linking and unlinking\<close>

text \<open>A step that changes one spoke and one timer on it.\<close>

lemma tmr_lists_change:
  assumes inv: "tmr_lists s W fs" and i: "i < OS_TMR_CFG_WHEEL_SIZE" and t: "t < OS_TMR_CFG_MAX"
    and pool: "OSTmrFreeList s' = OSTmrFreeList s" "OSTmrFree s' = OSTmrFree s" "OSTmrUsed s' = OSTmrUsed s"
    and data: "\<And>k. k \<noteq> t \<Longrightarrow> tmr_data s' k = tmr_data s k"
    and ty: "OSTmrType (tmr_data s' t) = OS_TMR_TYPE" and st: "OSTmrState (tmr_data s' t) \<le> OS_TMR_STATE_RUNNING"
    and nz: "OSTmrState (tmr_data s t) \<noteq> OS_TMR_STATE_UNUSED" "OSTmrState (tmr_data s' t) \<noteq> OS_TMR_STATE_UNUSED"
    and links: "\<And>k. k \<noteq> t \<Longrightarrow> k \<notin> set (W i) \<Longrightarrow> tnx s' k = tnx s k \<and> tpv s' k = tpv s k"
    and wheel: "\<And>j. j \<noteq> i \<Longrightarrow> OSTmrWheelTbl s' j = OSTmrWheelTbl s j"
    and here: "running s t \<Longrightarrow> spoke_of (expiry s t) = i" "running s' t \<Longrightarrow> spoke_of (expiry s' t) = i"
    and ok: "spoke_ok s' i xs"
  shows "tmr_lists s' (W(i := xs)) fs"
proof -
  have mem: "running s' k \<and> spoke_of (expiry s' k) = j \<longleftrightarrow> running s k \<and> spoke_of (expiry s k) = j" if "j \<noteq> i" for j k
    using that here data [of k] by (cases "k = t") (auto simp: running_def expiry_def)
  have other: "spoke_ok s' j (W j)" if j: "j < OS_TMR_CFG_WHEEL_SIZE" "j \<noteq> i" for j
  proof -
    note sj = spoke_okD [OF tmr_listsD(1) [OF inv j(1)]] and si = spoke_okD [OF tmr_listsD(1) [OF inv i]]
    have out: "k \<noteq> t \<and> k \<notin> set (W i)" if "k \<in> set (W j)" for k
      using that sj(5) si(5) here(1) j(2) by auto
    have "dlinked (tnx s') (tpv s') None (W j) None = dlinked (tnx s) (tpv s) None (W j) None"
      by (rule dlinked_cong) (use links out in blast)
    then show ?thesis
      unfolding spoke_ok_def using sj wheel [OF j(2)] mem [OF j(2)] by simp
  qed
  have p: "pool_ok s fs" by (rule tmr_listsD(2) [OF inv])
  have out: "k \<noteq> t \<and> k \<notin> set (W i)" if "k \<in> set fs" for k
  proof -
    have k: "OSTmrState (tmr_data s k) = OS_TMR_STATE_UNUSED" using that p by (auto simp: pool_ok_def)
    then show ?thesis
      using nz(1) spoke_okD(5) [OF tmr_listsD(1) [OF inv i]] by (auto simp: running_def)
  qed
  have "free_tmrs (tnx s') (OSTmrFreeList s) fs = free_tmrs (tnx s) (OSTmrFreeList s) fs"
    by (rule free_tmrs_cong) (use links out in blast)
  moreover have "OSTmrState (tmr_data s' k) = OS_TMR_STATE_UNUSED \<longleftrightarrow> OSTmrState (tmr_data s k) = OS_TMR_STATE_UNUSED" for k
    using nz data [of k] by (cases "k = t") auto
  ultimately have "pool_ok s' fs" using p unfolding pool_ok_def pool by (elim conjE, intro conjI) simp_all
  moreover have "OSTmrType (tmr_data s' k) = OS_TMR_TYPE \<and> OSTmrState (tmr_data s' k) \<le> OS_TMR_STATE_RUNNING" if "k < OS_TMR_CFG_MAX" for k
    using ty st data [of k] tmr_listsD(3,4) [OF inv that] by (cases "k = t") auto
  ultimately show ?thesis
    unfolding tmr_lists_def using other ok by simp
qed

lemma link_match_simps [simp]:
  "link_match ty (x\<lparr>OSTmrState := st\<rparr>) now = link_match ty x now" "link_match ty (unlinked x) now = link_match ty x now"
  by (simp_all add: link_match_def)

definition link_state :: "nat \<Rightarrow> u32 \<Rightarrow> nat option \<Rightarrow> 'a os_tmr \<Rightarrow> 'a os_tmr" where
  "link_state t m q s = s\<lparr>OSTmrTbl := (\<lambda>k. if k = t then (OSTmrTbl s t)\<lparr>OSTmrState := OS_TMR_STATE_RUNNING, OSTmrMatch := m,
       OSTmrNext := q, OSTmrPrev := None\<rparr> else if q = Some k then (OSTmrTbl s k)\<lparr>OSTmrPrev := Some t\<rparr> else OSTmrTbl s k),
     OSTmrWheelTbl := (OSTmrWheelTbl s)(spoke_of m := \<lparr>OSTmrFirst = Some t, OSTmrEntries = OSTmrEntries (OSTmrWheelTbl s (spoke_of m)) + 1\<rparr>)\<rparr>"

lemma OSTmr_Link_run:
  fixes s :: "'a os_tmr" and ty :: u8 and t :: nat
  defines "m \<equiv> link_match ty (OSTmrTbl s t) (OSTmrTime s)"
  assumes q: "OSTmrFirst (OSTmrWheelTbl s (spoke_of m)) = q" "\<And>f. q = Some f \<Longrightarrow> f < OS_TMR_CFG_MAX \<and> f \<noteq> t"
    and e: "q = None \<Longrightarrow> OSTmrEntries (OSTmrWheelTbl s (spoke_of m)) = 0"
  shows "OSTmr_Link t ty s = Some (link_state t m q s)"
proof (cases q)
  case None
  then show ?thesis
    using q(1) e by (simp add: OSTmr_Link_def Let_def m_def [symmetric]) (simp add: link_state_def upd_tmr_def upd_spoke_def fun_eq_iff)
next
  case (Some f)
  then show ?thesis
    using q by (simp add: OSTmr_Link_def Let_def m_def [symmetric]) (auto simp add: link_state_def upd_tmr_def upd_spoke_def fun_eq_iff)
qed

text \<open>The neighbours \<open>p\<close> and \<open>q\<close> of the timer skip it.\<close>

definition unlink_state :: "nat \<Rightarrow> nat option \<Rightarrow> nat option \<Rightarrow> 'a os_tmr \<Rightarrow> 'a os_tmr" where
  "unlink_state t p q s = s\<lparr>OSTmrTbl := (\<lambda>k. if k = t then (OSTmrTbl s t)\<lparr>OSTmrState := OS_TMR_STATE_STOPPED, OSTmrNext := None,
       OSTmrPrev := None\<rparr> else (OSTmrTbl s k)\<lparr>OSTmrNext := (if p = Some k then q else tnx s k),
         OSTmrPrev := (if q = Some k then p else tpv s k)\<rparr>),
     OSTmrWheelTbl := (OSTmrWheelTbl s)(spoke_of (OSTmrMatch (OSTmrTbl s t)) :=
       \<lparr>OSTmrFirst = (if p = None then q else OSTmrFirst (OSTmrWheelTbl s (spoke_of (OSTmrMatch (OSTmrTbl s t))))),
        OSTmrEntries = OSTmrEntries (OSTmrWheelTbl s (spoke_of (OSTmrMatch (OSTmrTbl s t)))) - 1\<rparr>)\<rparr>"

lemma OSTmr_Unlink_run:
  assumes p: "OSTmrPrev (OSTmrTbl s t) = p" "\<And>k. p = Some k \<Longrightarrow> k < OS_TMR_CFG_MAX \<and> k \<noteq> t"
    and q: "OSTmrNext (OSTmrTbl s t) = q" "\<And>k. q = Some k \<Longrightarrow> k < OS_TMR_CFG_MAX \<and> k \<noteq> t"
    and pq: "\<And>k. p = Some k \<Longrightarrow> q \<noteq> Some k"
    and f: "OSTmrFirst (OSTmrWheelTbl s (spoke_of (OSTmrMatch (OSTmrTbl s t)))) = Some t \<longleftrightarrow> p = None"
  shows "OSTmr_Unlink t s = Some (unlink_state t p q s)"
proof (cases p)
  case None
  then show ?thesis
    using p q f by (cases q) (auto simp: OSTmr_Unlink_def Let_def unlink_state_def upd_tmr_def upd_spoke_def fun_eq_iff)
next
  case (Some k)
  then show ?thesis
    using p q f pq by (cases q) (auto simp: OSTmr_Unlink_def Let_def tmr_def unlink_state_def upd_tmr_def upd_spoke_def fun_eq_iff)
qed

lemma link_state_sel:
  "tmr_data (link_state t m q s) k = (if k = t then (tmr_data s t)\<lparr>OSTmrState := OS_TMR_STATE_RUNNING, OSTmrMatch := m\<rparr> else tmr_data s k)"
  "tnx (link_state t m q s) k = (if k = t then q else tnx s k)"
  "tpv (link_state t m q s) k = (if k = t then None else if q = Some k then Some t else tpv s k)"
  "OSTmrFreeList (link_state t m q s) = OSTmrFreeList s" "OSTmrFree (link_state t m q s) = OSTmrFree s"
  "OSTmrUsed (link_state t m q s) = OSTmrUsed s" "tmr_frame s (link_state t m q s)"
  "OSTmrWheelTbl (link_state t m q s) = (OSTmrWheelTbl s)(spoke_of m :=
     \<lparr>OSTmrFirst = Some t, OSTmrEntries = OSTmrEntries (OSTmrWheelTbl s (spoke_of m)) + 1\<rparr>)"
  by (auto simp: link_state_def tmr_data_def tmr_frame_def unlinked_def fun_eq_iff)

lemma OSTmr_Link_ok:
  fixes s :: "'a os_tmr" and ty :: u8 and t :: nat
  assumes inv: "tmr_lists s W fs" and t: "t < OS_TMR_CFG_MAX"
    and st: "OSTmrState (tmr_data s t) = OS_TMR_STATE_STOPPED \<or> OSTmrState (tmr_data s t) = OS_TMR_STATE_COMPLETED"
  defines "m \<equiv> link_match ty (tmr_data s t) (OSTmrTime s)"
  obtains s' where "OSTmr_Link t ty s = Some s'" "tmr_lists s' (W(spoke_of m := t # W (spoke_of m))) fs" "tmr_frame s s'"
    "tmr_data s' t = (tmr_data s t)\<lparr>OSTmrState := OS_TMR_STATE_RUNNING, OSTmrMatch := m\<rparr>"
    "\<And>k. k \<noteq> t \<Longrightarrow> tmr_data s' k = tmr_data s k"
proof -
  let ?i = "spoke_of m" and ?q = "first_of (W (spoke_of m)) None"
  let ?s = "link_state t m ?q s"
  note sp = spoke_okD [OF tmr_listsD(1) [OF inv spoke_of_less [of m]]]
  have m: "m = link_match ty (OSTmrTbl s t) (OSTmrTime s)" by (simp add: m_def tmr_data_def)
  have "\<not> running s t" using st by (auto simp: running_def)
  then have notin: "t \<notin> set (W ?i)" using sp(5) by blast
  have sub: "k < OS_TMR_CFG_MAX" if "k \<in> set (W ?i)" for k
    using that sp(5) unfolding running_def by blast
  have q: "f < OS_TMR_CFG_MAX \<and> f \<noteq> t" if "?q = Some f" for f
    using first_of_mem [OF that] sub notin by blast
  have run: "OSTmr_Link t ty s = Some ?s"
    unfolding m by (rule OSTmr_Link_run) (use sp(1,2) q in \<open>simp_all add: m [symmetric]\<close>)
  have ty: "OSTmrType (tmr_data s t) = OS_TMR_TYPE" by (rule tmr_listsD(3) [OF inv t])
  have ok: "spoke_ok ?s ?i (t # W ?i)"
    unfolding spoke_ok_def
  proof (intro conjI)
    show "dlinked (tnx ?s) (tpv ?s) None (t # W ?i) None"
      by (rule dlinked_front [OF sp(3) notin sp(4)]) (use notin in \<open>auto simp: link_state_sel(2,3)\<close>)
    show "set (t # W ?i) = {k. running ?s k \<and> spoke_of (expiry ?s k) = ?i}"
      using sp(5) t notin by (auto simp: running_def expiry_def link_state_sel(1))
  qed (use sp notin in \<open>simp_all add: link_state_sel(8)\<close>)
  have "tmr_lists ?s (W(?i := t # W ?i)) fs"
  proof (rule tmr_lists_change [OF inv spoke_of_less t _ _ _ _ _ _ _ _ _ _ _ _ ok])
    show "tnx ?s k = tnx s k \<and> tpv ?s k = tpv s k" if "k \<noteq> t" "k \<notin> set (W ?i)" for k
      using that first_of_mem [of "W ?i" k] unfolding link_state_sel(2,3) by auto
  qed (use st ty in \<open>auto simp: link_state_sel running_def expiry_def\<close>)
  then show ?thesis
    by (rule that [OF run]) (simp_all add: link_state_sel)
qed

lemma unlink_state_sel:
  "tmr_data (unlink_state t p q s) k = (if k = t then (tmr_data s t)\<lparr>OSTmrState := OS_TMR_STATE_STOPPED\<rparr> else tmr_data s k)"
  "tnx (unlink_state t p q s) k = (if k = t then None else if p = Some k then q else tnx s k)"
  "tpv (unlink_state t p q s) k = (if k = t then None else if q = Some k then p else tpv s k)"
  "OSTmrFreeList (unlink_state t p q s) = OSTmrFreeList s" "OSTmrFree (unlink_state t p q s) = OSTmrFree s"
  "OSTmrUsed (unlink_state t p q s) = OSTmrUsed s" "tmr_frame s (unlink_state t p q s)"
  "OSTmrWheelTbl (unlink_state t p q s) = (OSTmrWheelTbl s)(spoke_of (expiry s t) :=
     \<lparr>OSTmrFirst = (if p = None then q else OSTmrFirst (OSTmrWheelTbl s (spoke_of (expiry s t)))),
      OSTmrEntries = OSTmrEntries (OSTmrWheelTbl s (spoke_of (expiry s t))) - 1\<rparr>)"
  by (auto simp: unlink_state_def tmr_data_def expiry_def tmr_frame_def unlinked_def fun_eq_iff)

lemma OSTmr_Unlink_ok:
  assumes inv: "tmr_lists s W fs" and t: "running s t" and W: "W (spoke_of (expiry s t)) = xs @ t # ys"
  obtains s' where "OSTmr_Unlink t s = Some s'" "tmr_lists s' (W(spoke_of (expiry s t) := xs @ ys)) fs" "tmr_frame s s'"
    "tmr_data s' t = (tmr_data s t)\<lparr>OSTmrState := OS_TMR_STATE_STOPPED\<rparr>"
    "\<And>k. k \<noteq> t \<Longrightarrow> tmr_data s' k = tmr_data s k"
proof -
  let ?i = "spoke_of (expiry s t)" and ?p = "last_of xs None" and ?q = "first_of ys None"
  let ?s = "unlink_state t ?p ?q s"
  note sp = spoke_okD [OF tmr_listsD(1) [OF inv spoke_of_less [of "expiry s t"]], unfolded W]
  note nb = dlinked_neighbours [OF sp(3)]
  have p: "k < OS_TMR_CFG_MAX \<and> k \<noteq> t \<and> k \<in> set xs" if "?p = Some k" for k
    using last_of_mem [OF that] sp(4,5) by (auto simp: running_def)
  have q: "k < OS_TMR_CFG_MAX \<and> k \<noteq> t \<and> k \<in> set ys" if "?q = Some k" for k
    using first_of_mem [OF that] sp(4,5) by (auto simp: running_def)
  have i: "?i = spoke_of (OSTmrMatch (OSTmrTbl s t))" by (simp add: expiry_def tmr_data_def)
  have run: "OSTmr_Unlink t s = Some ?s"
  proof (rule OSTmr_Unlink_run [OF nb(1) _ nb(2)])
    show "(OSTmrFirst (OSTmrWheelTbl s (spoke_of (OSTmrMatch (OSTmrTbl s t)))) = Some t) = (?p = None)"
      using sp(1,4) unfolding i [symmetric] by (cases xs) auto
    show "?q \<noteq> Some k" if "?p = Some k" for k using p [OF that] q [of k] sp(4) by auto
  qed (use p q in blast)+
  have ty: "OSTmrType (tmr_data s t) = OS_TMR_TYPE" and t16: "t < OS_TMR_CFG_MAX"
    using t tmr_listsD(3) [OF inv] by (auto simp: running_def)
  have notin: "t \<notin> set (xs @ ys)" using sp(4) by auto
  have ok: "spoke_ok ?s ?i (xs @ ys)"
    unfolding spoke_ok_def
  proof (intro conjI)
    show "OSTmrFirst (OSTmrWheelTbl ?s ?i) = first_of (xs @ ys) None"
      using sp(1) by (cases xs) (simp_all add: unlink_state_sel(8))
    show "dlinked (tnx ?s) (tpv ?s) None (xs @ ys) None"
      by (rule dlinked_skip [OF sp(3,4)]) (use notin in \<open>auto simp: unlink_state_sel(2,3)\<close>)
    show "set (xs @ ys) = {k. running ?s k \<and> spoke_of (expiry ?s k) = ?i}"
      using sp(5) notin by (auto simp: running_def expiry_def unlink_state_sel(1) split: if_splits)
  qed (use sp in \<open>simp_all add: unlink_state_sel(8)\<close>)
  have "tmr_lists ?s (W(?i := xs @ ys)) fs"
  proof (rule tmr_lists_change [OF inv spoke_of_less t16 _ _ _ _ _ _ _ _ _ _ _ _ ok])
    show "tnx ?s k = tnx s k \<and> tpv ?s k = tpv s k" if "k \<noteq> t" "k \<notin> set (W ?i)" for k
      using that p [of k] q [of k] unfolding unlink_state_sel(2,3) W by auto
  qed (use t ty in \<open>auto simp: unlink_state_sel running_def expiry_def\<close>)
  then show ?thesis
    by (rule that [OF run]) (simp_all add: unlink_state_sel)
qed

subsection \<open>One turn of the timer task\<close>

text \<open>What becomes of a timer that expires, and what its callback does.\<close>

definition fired :: "u32 \<Rightarrow> OS_TMR \<Rightarrow> OS_TMR" where
  "fired now x = (if OSTmrOpt x = OS_TMR_OPT_PERIODIC then x\<lparr>OSTmrState := OS_TMR_STATE_RUNNING, OSTmrMatch := OSTmrPeriod x + now\<rparr>
     else x\<lparr>OSTmrState := OS_TMR_STATE_COMPLETED\<rparr>)"

definition called :: "(nat \<Rightarrow> nat \<Rightarrow> u32 \<Rightarrow> 'w \<Rightarrow> 'w) \<Rightarrow> OS_TMR \<Rightarrow> nat \<Rightarrow> 'w \<Rightarrow> 'w" where
  "called g x t = (case OSTmrCallback x of None \<Rightarrow> (\<lambda>a. a) | Some f \<Rightarrow> g f t (OSTmrCallbackArg x))"

text \<open>The kernel and the application: what the callbacks see, and what they may change. They run inside the
  timer task, or inside \<open>OSTmrStop\<close>, with the scheduler locked, and may call the services of the kernel, but make
  no timer calls; they return, and keep the kernel consistent and the scheduler locked. \<open>g\<close> is what they do.\<close>

definition world :: "'a os_tmr \<Rightarrow> os \<times> 'a" where
  "world s = (kern s, app s)"

definition callbacks_ok :: "'a callbacks \<Rightarrow> (nat \<Rightarrow> nat \<Rightarrow> u32 \<Rightarrow> os \<times> 'a \<Rightarrow> os \<times> 'a) \<Rightarrow> bool" where
  "callbacks_ok cb g \<longleftrightarrow> (\<forall>f t a w. locked_ok (fst w) \<longrightarrow> locked_ok (fst (g f t a w))) \<and>
     (\<forall>f t a s. locked_ok (kern s) \<longrightarrow> cb f t a s = Some (s\<lparr>kern := fst (g f t a (world s)), app := snd (g f t a (world s))\<rparr>))"

lemma world_sel [simp]: "fst (world s) = kern s" "snd (world s) = app s"
  by (simp_all add: world_def)

lemma callbacks_okD:
  assumes "callbacks_ok cb g"
  shows "locked_ok (fst w) \<Longrightarrow> locked_ok (fst (called g x t w))"
    and "locked_ok (kern s) \<Longrightarrow> cb f t a s = Some (s\<lparr>kern := fst (g f t a (world s)), app := snd (g f t a (world s))\<rparr>)"
proof -
  note cb = assms [unfolded callbacks_ok_def]
  show "locked_ok (fst w) \<Longrightarrow> locked_ok (fst (called g x t w))"
    unfolding called_def using conjunct1 [OF cb] by (cases "OSTmrCallback x") (simp_all del: split_paired_All)
  show "locked_ok (kern s) \<Longrightarrow> cb f t a s = Some (s\<lparr>kern := fst (g f t a (world s)), app := snd (g f t a (world s))\<rparr>)"
    using conjunct2 [OF cb] by blast
qed

lemma world_eqI: "kern s = fst w \<Longrightarrow> app s = snd w \<Longrightarrow> world s = w"
  by (simp add: world_def)

definition core_frame :: "'a os_tmr \<Rightarrow> 'a os_tmr \<Rightarrow> bool" where
  "core_frame s s' \<longleftrightarrow> OSTmrTime s' = OSTmrTime s \<and> OSTmrSem s' = OSTmrSem s \<and> OSTmrSemSignal s' = OSTmrSemSignal s"

lemma core_frame_trans: "core_frame s s1 \<Longrightarrow> core_frame s1 s' \<Longrightarrow> core_frame s s'"
  by (simp add: core_frame_def)

lemma tmr_frame_core: "tmr_frame s s' \<Longrightarrow> core_frame s s' \<and> world s' = world s"
  by (simp add: core_frame_def tmr_frame_def world_def)

lemma tmr_lists_eq:
  assumes "tmr_lists s W fs" and "OSTmrTbl s' = OSTmrTbl s" "OSTmrWheelTbl s' = OSTmrWheelTbl s" "OSTmrFreeList s' = OSTmrFreeList s"
    "OSTmrFree s' = OSTmrFree s" "OSTmrUsed s' = OSTmrUsed s"
  shows "tmr_lists s' W fs"
proof -
  have "tmr_lists s' W fs = tmr_lists s W fs"
    using assms(2-) by (simp add: tmr_lists_def spoke_ok_def pool_ok_def running_def expiry_def tmr_data_def)
  then show ?thesis using assms(1) by simp
qed

lemma tmr_data_eq: "OSTmrTbl s' = OSTmrTbl s \<Longrightarrow> tmr_data s' = tmr_data s"
  by (simp add: tmr_data_def fun_eq_iff)

lemma tmr_expire_ok:
  assumes inv: "tmr_lists s W fs" and t: "running s t" and now: "expiry s t = OSTmrTime s"
    and W: "W (spoke_of (OSTmrTime s)) = xs @ t # ys" and cb: "callbacks_ok cb g" and k: "locked_ok (kern s)"
  obtains s' W' zs where "tmr_expire cb t s = Some s'" "tmr_lists s' W' fs" "W' (spoke_of (OSTmrTime s)) = zs @ ys"
    "core_frame s s'" "world s' = called g (tmr_data s t) t (world s)"
    "tmr_data s' t = fired (OSTmrTime s) (tmr_data s t)" "\<And>k. k \<noteq> t \<Longrightarrow> tmr_data s' k = tmr_data s k"
proof -
  let ?i = "spoke_of (OSTmrTime s)"
  have t16: "t < OS_TMR_CFG_MAX" using t by (simp add: running_def)
  obtain s1 where s1: "OSTmr_Unlink t s = Some s1" "tmr_lists s1 (W(?i := xs @ ys)) fs" "tmr_frame s s1"
      "tmr_data s1 t = (tmr_data s t)\<lparr>OSTmrState := OS_TMR_STATE_STOPPED\<rparr>" "\<And>k. k \<noteq> t \<Longrightarrow> tmr_data s1 k = tmr_data s k"
    using OSTmr_Unlink_ok [OF inv t W [folded now]] unfolding now by blast
  have opt: "OSTmrOpt (OSTmrTbl s1 t) = OSTmrOpt (tmr_data s t)"
    using arg_cong [OF s1(4), of OSTmrOpt] by (simp add: tmr_data_def)
  obtain s2 W' zs where s2: "(if OSTmrOpt (OSTmrTbl s1 t) = OS_TMR_OPT_PERIODIC then OSTmr_Link t OS_TMR_LINK_PERIODIC s1
            else Some (upd_tmr t (\<lambda>x. x\<lparr>OSTmrState := OS_TMR_STATE_COMPLETED\<rparr>) s1)) = Some s2" "tmr_lists s2 W' fs" "W' ?i = zs @ ys"
      "tmr_frame s1 s2" "tmr_data s2 t = fired (OSTmrTime s) (tmr_data s t)" "\<And>k. k \<noteq> t \<Longrightarrow> tmr_data s2 k = tmr_data s1 k"
  proof (cases "OSTmrOpt (tmr_data s t) = OS_TMR_OPT_PERIODIC")
    case True
    let ?m = "link_match OS_TMR_LINK_PERIODIC (tmr_data s1 t) (OSTmrTime s1)"
    have now1: "OSTmrTime s1 = OSTmrTime s" using s1(3) by (simp add: tmr_frame_def)
    obtain s2 where r: "OSTmr_Link t OS_TMR_LINK_PERIODIC s1 = Some s2"
        "tmr_lists s2 ((W(?i := xs @ ys))(spoke_of ?m := t # (W(?i := xs @ ys)) (spoke_of ?m))) fs" "tmr_frame s1 s2"
        "tmr_data s2 t = (tmr_data s1 t)\<lparr>OSTmrState := OS_TMR_STATE_RUNNING, OSTmrMatch := ?m\<rparr>"
        "\<And>k. k \<noteq> t \<Longrightarrow> tmr_data s2 k = tmr_data s1 k"
      by (rule OSTmr_Link_ok [OF s1(2) t16, of OS_TMR_LINK_PERIODIC]) (use s1(4) in simp_all)
    show ?thesis
    proof (rule that [OF _ r(2) _ r(3) _ r(5)])
      show "((W(?i := xs @ ys))(spoke_of ?m := t # (W(?i := xs @ ys)) (spoke_of ?m))) ?i = (if spoke_of ?m = ?i then t # xs else xs) @ ys"
        by simp
    qed (use True r(1,4) opt s1(4) in \<open>simp_all add: now1 link_match_def fired_def\<close>)
  next
    case False
    let ?s = "upd_tmr t (\<lambda>x. x\<lparr>OSTmrState := OS_TMR_STATE_COMPLETED\<rparr>) s1"
    have d: "tmr_data ?s t = (tmr_data s1 t)\<lparr>OSTmrState := OS_TMR_STATE_COMPLETED\<rparr>" "\<And>k. k \<noteq> t \<Longrightarrow> tmr_data ?s k = tmr_data s1 k"
      by (simp_all add: tmr_data_def)
    have "tmr_lists ?s ((W(?i := xs @ ys))(?i := xs @ ys)) fs"
    proof (rule tmr_lists_change [OF s1(2) spoke_of_less t16])
      have "spoke_ok s1 ?i (xs @ ys)" using tmr_listsD(1) [OF s1(2) spoke_of_less, of "OSTmrTime s"] by simp
      moreover have "running ?s k \<longleftrightarrow> running s1 k" "expiry ?s k = expiry s1 k" for k
        using d s1(4) by (cases "k = t"; simp add: running_def expiry_def)+
      ultimately show "spoke_ok ?s ?i (xs @ ys)"
        unfolding spoke_ok_def
        using dlinked_cong [of "xs @ ys" "tpv ?s" "tpv s1" "tnx ?s" "tnx s1" None None] by simp
    qed (use d s1(4) tmr_listsD(3) [OF s1(2) t16] in \<open>simp_all add: running_def\<close>)
    then show ?thesis
      by (intro that [of ?s "(W(?i := xs @ ys))(?i := xs @ ys)" xs])
        (use False opt d s1(4) in \<open>simp_all add: fired_def tmr_frame_def\<close>)
  qed
  have c: "OSTmrCallback (OSTmrTbl s2 t) = OSTmrCallback (tmr_data s t)" "OSTmrCallbackArg (OSTmrTbl s2 t) = OSTmrCallbackArg (tmr_data s t)"
    using arg_cong [OF s2(5), of OSTmrCallback] arg_cong [OF s2(5), of OSTmrCallbackArg] by (simp_all add: tmr_data_def fired_def)
  have w2: "world s2 = world s" "locked_ok (kern s2)" using s1(3) s2(4) k by (simp_all add: tmr_frame_def world_def)
  let ?w = "called g (tmr_data s t) t (world s)"
  let ?s' = "s2\<lparr>kern := fst ?w, app := snd ?w\<rparr>"
  have same: "s2\<lparr>kern := kern s, app := app s\<rparr> = s2" using s1(3) s2(4) by (simp add: tmr_frame_def)
  have "tmr_expire cb t s = Some ?s'"
    unfolding tmr_expire_def s1(1) using s2(1)
    by (simp add: c called_def callbacks_okD(2) [OF cb w2(2)] w2(1) same split: option.split)
  moreover have "tmr_lists ?s' W' fs" by (rule tmr_lists_eq [OF s2(2)]) simp_all
  moreover have "tmr_data ?s' = tmr_data s2" by (rule tmr_data_eq) simp
  moreover have "core_frame s ?s'" using s1(3) s2(4) by (simp add: tmr_frame_def core_frame_def)
  moreover have "world ?s' = ?w" by (rule world_eqI) simp_all
  ultimately show ?thesis using that s2(3,5,6) s1(5) by simp
qed

lemma tmr_walk_ok:
  assumes "tmr_lists s W fs" and "W (spoke_of (OSTmrTime s)) = zs @ ys" and cb: "callbacks_ok cb g" and "locked_ok (kern s)"
  shows "\<exists>s' W'. tmr_walk cb (first_of ys None) s = Some s' \<and> tmr_lists s' W' fs \<and> core_frame s s' \<and>
    (\<forall>k. tmr_data s' k = (if k \<in> set ys \<and> expiry s k = OSTmrTime s then fired (OSTmrTime s) (tmr_data s k) else tmr_data s k)) \<and>
    locked_ok (kern s') \<and> world s' = fold (\<lambda>t. called g (tmr_data s t) t) (filter (\<lambda>t. expiry s t = OSTmrTime s) ys) (world s)"
  using assms(1,2,4)
proof (induction ys arbitrary: s W zs)
  case Nil
  then show ?case by (intro exI [of _ s] exI [of _ W]) (simp add: tmr_walk.simps core_frame_def)
next
  case (Cons t ys)
  note inv = Cons.prems(1) and W = Cons.prems(2) and k = Cons.prems(3)
  note sp = spoke_okD [OF tmr_listsD(1) [OF inv spoke_of_less [of "OSTmrTime s"]], unfolded W]
  have t: "running s t" using sp(5) by auto
  have deref: "tmr s (Some t) = Some (t, OSTmrTbl s t)" using t by (simp add: tmr_def running_def)
  have nx: "OSTmrNext (OSTmrTbl s t) = first_of ys None" by (rule dlinked_neighbours(2) [OF sp(3)])
  have notin: "t \<notin> set ys" using sp(4) by auto
  have e: "expiry s t = OSTmrMatch (OSTmrTbl s t)" by (simp add: expiry_def tmr_data_def)
  obtain s1 W1 zs1 where s1: "(if OSTmrTime s = OSTmrMatch (OSTmrTbl s t) then tmr_expire cb t s else Some s) = Some s1"
      "tmr_lists s1 W1 fs" "W1 (spoke_of (OSTmrTime s)) = zs1 @ ys" "core_frame s s1"
      "world s1 = (if expiry s t = OSTmrTime s then called g (tmr_data s t) t (world s) else world s)"
      "tmr_data s1 t = (if expiry s t = OSTmrTime s then fired (OSTmrTime s) (tmr_data s t) else tmr_data s t)"
      "\<And>k. k \<noteq> t \<Longrightarrow> tmr_data s1 k = tmr_data s k"
  proof (cases "expiry s t = OSTmrTime s")
    case True
    obtain s' W' zs' where x: "tmr_expire cb t s = Some s'" "tmr_lists s' W' fs" "W' (spoke_of (OSTmrTime s)) = zs' @ ys"
        "core_frame s s'" "world s' = called g (tmr_data s t) t (world s)"
        "tmr_data s' t = fired (OSTmrTime s) (tmr_data s t)" "\<And>k. k \<noteq> t \<Longrightarrow> tmr_data s' k = tmr_data s k"
      using tmr_expire_ok [OF inv t True W cb k] by blast
    show ?thesis
      by (rule that [OF _ x(2,3,4) _ _ x(7)]) (use True e x(1,5,6) in simp_all)
  next
    case False
    then show ?thesis
      by (intro that [of s W "zs @ [t]"]) (use inv W e in \<open>auto simp: core_frame_def\<close>)
  qed
  have now: "OSTmrTime s1 = OSTmrTime s" using s1(4) by (simp add: core_frame_def)
  have "locked_ok (fst (world s1))" unfolding s1(5) using callbacks_okD(1) [OF cb, of "world s"] k by simp
  then have k1: "locked_ok (kern s1)" by simp
  have same: "tmr_data s1 k = tmr_data s k" "expiry s1 k = expiry s k" if "k \<in> set ys" for k
    using s1(7) [of k] that notin by (cases "k = t"; simp add: expiry_def)+
  obtain s' W' where s': "tmr_walk cb (first_of ys None) s1 = Some s'" "tmr_lists s' W' fs" "core_frame s1 s'"
      "\<And>k. tmr_data s' k = (if k \<in> set ys \<and> expiry s1 k = OSTmrTime s1 then fired (OSTmrTime s1) (tmr_data s1 k) else tmr_data s1 k)"
      "locked_ok (kern s')" "world s' = fold (\<lambda>t. called g (tmr_data s1 t) t) (filter (\<lambda>t. expiry s1 t = OSTmrTime s1) ys) (world s1)"
    using Cons.IH [OF s1(2), unfolded now, OF s1(3) k1] unfolding now by blast
  have run: "tmr_walk cb (first_of (t # ys) None) s = Some s'"
    by (subst tmr_walk.simps) (simp add: deref s1(1) nx s'(1))
  have data: "tmr_data s' k = (if k \<in> set (t # ys) \<and> expiry s k = OSTmrTime s then fired (OSTmrTime s) (tmr_data s k) else tmr_data s k)" for k
    unfolding s'(4) now using s1(6,7) same notin by (cases "k = t") auto
  have fl: "filter (\<lambda>t. expiry s1 t = OSTmrTime s) ys = filter (\<lambda>t. expiry s t = OSTmrTime s) ys"
    by (rule filter_cong) (use same(2) in simp_all)
  have "fold (\<lambda>t. called g (tmr_data s1 t) t) (filter (\<lambda>t. expiry s t = OSTmrTime s) ys) a =
      fold (\<lambda>t. called g (tmr_data s t) t) (filter (\<lambda>t. expiry s t = OSTmrTime s) ys) a" for a
    by (rule fold_cong) (use same(1) in simp_all)
  then have ap: "world s' = fold (\<lambda>t. called g (tmr_data s t) t) (filter (\<lambda>t. expiry s t = OSTmrTime s) (t # ys)) (world s)"
    unfolding s'(6) now fl s1(5) by simp
  show ?case
    using run s'(2,5) core_frame_trans [OF s1(4) s'(3)] data ap by blast
qed

lemma OSTmr_Task_update_ok:
  assumes inv: "tmr_lists s W fs" and k: "kern_ok (kern s)" and cb: "callbacks_ok cb g"
  defines "now \<equiv> OSTmrTime s + 1"
  defines "w \<equiv> fold (\<lambda>t. called g (tmr_data s t) t) (filter (\<lambda>t. expiry s t = now) (W (spoke_of now))) (world (tmr_lock s))"
  shows "\<exists>s' W'. OSTmr_Task_update cb s = Some s' \<and> tmr_lists s' W' fs \<and> kern_ok (kern s') \<and> OSTmrTime s' = now \<and>
    OSTmrSemSignal s' = OSTmrSemSignal s \<and>
    (\<forall>t. tmr_data s' t = (if running s t \<and> expiry s t = now then fired now (tmr_data s t) else tmr_data s t)) \<and>
    OSSchedUnlock (fst w) = Some (kern s') \<and> app s' = snd w"
proof -
  let ?s1 = "(tmr_lock s)\<lparr>OSTmrTime := now\<rparr>"
  have inv1: "tmr_lists ?s1 W fs" by (rule tmr_lists_eq [OF inv]) (simp_all add: tmr_lock_def)
  have d1: "tmr_data ?s1 = tmr_data s" by (rule tmr_data_eq) (simp add: tmr_lock_def)
  then have e1: "expiry ?s1 = expiry s" by (simp add: expiry_def fun_eq_iff)
  have now1: "OSTmrTime ?s1 = now" by simp
  note sp = spoke_okD [OF tmr_listsD(1) [OF inv1 spoke_of_less [of now]]]
  have W: "W (spoke_of (OSTmrTime ?s1)) = [] @ W (spoke_of now)" by simp
  have k1: "locked_ok (kern ?s1)" using kern_ok_lock [OF k] by (simp add: tmr_lock_def)
  have w1: "world ?s1 = world (tmr_lock s)" by (simp add: world_def)
  obtain s2 W' where s2: "tmr_walk cb (first_of (W (spoke_of now)) None) ?s1 = Some s2" "tmr_lists s2 W' fs" "core_frame ?s1 s2"
      "\<And>t. tmr_data s2 t = (if t \<in> set (W (spoke_of now)) \<and> expiry s t = now then fired now (tmr_data s t) else tmr_data s t)"
      "locked_ok (kern s2)" "world s2 = w"
    using tmr_walk_ok [OF inv1 W cb k1] unfolding now1 d1 e1 w1 w_def by blast
  obtain k' where k': "OSSchedUnlock (kern s2) = Some k'" "kern_ok k'"
    using locked_ok_unlock [OF s2(5)] .
  have w: "fst w = kern s2" "snd w = app s2" by (simp_all add: s2(6) [symmetric])
  have run: "OSTmr_Task_update cb s = Some (s2\<lparr>kern := k'\<rparr>)"
    unfolding OSTmr_Task_update_def Let_def now_def [symmetric]
    using s2(1) sp(1) k'(1) by (simp add: tmr_unlock_def)
  have mem: "t \<in> set (W (spoke_of now)) \<and> expiry s t = now \<longleftrightarrow> running s t \<and> expiry s t = now" for t
    using sp(5) by (auto simp: e1 running_def d1)
  have "tmr_lists (s2\<lparr>kern := k'\<rparr>) W' fs" by (rule tmr_lists_eq [OF s2(2)]) simp_all
  moreover have "tmr_data (s2\<lparr>kern := k'\<rparr>) = tmr_data s2" by (rule tmr_data_eq) simp
  ultimately show ?thesis
    using run k' s2(3,4) w unfolding mem
    by (intro exI [of _ "s2\<lparr>kern := k'\<rparr>"] exI [of _ W']) (simp add: core_frame_def tmr_lock_def)
qed

subsection \<open>The services\<close>

lemma tmr_lock_sel [simp]:
  "kern (tmr_lock s) = OSSchedLock (kern s)" "OSTmrTbl (tmr_lock s) = OSTmrTbl s" "OSTmrWheelTbl (tmr_lock s) = OSTmrWheelTbl s"
  "OSTmrFree (tmr_lock s) = OSTmrFree s" "OSTmrUsed (tmr_lock s) = OSTmrUsed s" "OSTmrTime (tmr_lock s) = OSTmrTime s"
  "OSTmrSem (tmr_lock s) = OSTmrSem s" "OSTmrSemSignal (tmr_lock s) = OSTmrSemSignal s"
  "OSTmrFreeList (tmr_lock s) = OSTmrFreeList s" "app (tmr_lock s) = app s"
  by (simp_all add: tmr_lock_def)

lemma tmr_lists_lock: "tmr_lists s W fs \<Longrightarrow> tmr_lists (tmr_lock s) W fs"
  by (erule tmr_lists_eq) simp_all

lemma tmr_data_lock [simp]: "tmr_data (tmr_lock s) = tmr_data s"
  by (rule tmr_data_eq) simp

text \<open>What every service shares: it ends with the scheduler unlocked again.\<close>

definition served :: "'a os_tmr \<Rightarrow> 'a os_tmr \<Rightarrow> bool" where
  "served s s' \<longleftrightarrow> OSTmrTime s' = OSTmrTime s \<and> OSTmrSemSignal s' = OSTmrSemSignal s \<and> kern_ok (kern s')"

lemma tmr_leave_ok:
  assumes k: "locked_ok (kern s1)" and s1: "OSTmrTime s1 = OSTmrTime s" "OSTmrSemSignal s1 = OSTmrSemSignal s" and inv: "tmr_lists s1 W fs"
  obtains s' where "tmr_leave r s1 = Some (r, s')" "tmr_lists s' W fs" "tmr_data s' = tmr_data s1" "served s s'"
    "OSSchedUnlock (kern s1) = Some (kern s')" "app s' = app s1"
proof -
  obtain k' where k': "OSSchedUnlock (kern s1) = Some k'" "kern_ok k'"
    using locked_ok_unlock [OF k] .
  have "tmr_leave r s1 = Some (r, s1\<lparr>kern := k'\<rparr>)"
    by (simp add: tmr_leave_def tmr_unlock_def k'(1))
  moreover have "tmr_lists (s1\<lparr>kern := k'\<rparr>) W fs" by (rule tmr_lists_eq [OF inv]) simp_all
  moreover have "tmr_data (s1\<lparr>kern := k'\<rparr>) = tmr_data s1" by (rule tmr_data_eq) simp
  moreover have "served s (s1\<lparr>kern := k'\<rparr>)" using s1 k'(2) by (simp add: served_def)
  ultimately show ?thesis by (rule that) (simp_all add: k'(1))
qed

lemma tmr_deref: "t < OS_TMR_CFG_MAX \<Longrightarrow> tmr s (Some t) = Some (t, OSTmrTbl s t)"
  by (simp add: tmr_def)

lemma tmr_lists_pool:
  assumes inv: "tmr_lists s W fs" and t: "t < OS_TMR_CFG_MAX" and nr: "\<not> running s t" "\<not> running s' t"
    and data: "\<And>k. k \<noteq> t \<Longrightarrow> OSTmrTbl s' k = OSTmrTbl s k" and wheel: "OSTmrWheelTbl s' = OSTmrWheelTbl s"
    and ty: "OSTmrType (tmr_data s' t) = OS_TMR_TYPE" "OSTmrState (tmr_data s' t) \<le> OS_TMR_STATE_RUNNING"
    and pool: "pool_ok s' fs'"
  shows "tmr_lists s' W fs'"
proof -
  have d: "tmr_data s' k = tmr_data s k" if "k \<noteq> t" for k using data [OF that] by (simp add: tmr_data_def)
  have r: "running s' k \<and> spoke_of (expiry s' k) = i \<longleftrightarrow> running s k \<and> spoke_of (expiry s k) = i" for k i
    using nr d [of k] by (cases "k = t") (auto simp: running_def expiry_def)
  have "spoke_ok s' i (W i)" if "i < OS_TMR_CFG_WHEEL_SIZE" for i
  proof -
    note sp = spoke_okD [OF tmr_listsD(1) [OF inv that]]
    have "t \<notin> set (W i)" using sp(5) nr(1) by blast
    then have "dlinked (tnx s') (tpv s') None (W i) None = dlinked (tnx s) (tpv s) None (W i) None"
      by (intro dlinked_cong) (use data in metis)
    then show ?thesis using sp unfolding spoke_ok_def r wheel by simp
  qed
  moreover have "OSTmrType (tmr_data s' k) = OS_TMR_TYPE \<and> OSTmrState (tmr_data s' k) \<le> OS_TMR_STATE_RUNNING" if "k < OS_TMR_CFG_MAX" for k
    using ty tmr_listsD(3,4) [OF inv that] d [of k] by (cases "k = t") auto
  ultimately show ?thesis using pool unfolding tmr_lists_def by blast
qed

lemma pool_okD:
  assumes "pool_ok s fs"
  shows "free_tmrs (tnx s) (OSTmrFreeList s) fs" "distinct fs"
    "set fs = {t. t < OS_TMR_CFG_MAX \<and> OSTmrState (tmr_data s t) = OS_TMR_STATE_UNUSED}"
    "OSTmrFree s = of_nat (length fs)" "OSTmrUsed s + OSTmrFree s = of_nat OS_TMR_CFG_MAX"
  using assms unfolding pool_ok_def by blast+

text \<open>A timer that is not on the wheel goes back to the pool.\<close>

lemma OSTmr_Free_ok:
  assumes inv: "tmr_lists s W fs" and t: "t < OS_TMR_CFG_MAX"
    and st: "OSTmrState (tmr_data s t) = OS_TMR_STATE_STOPPED \<or> OSTmrState (tmr_data s t) = OS_TMR_STATE_COMPLETED"
  shows "tmr_lists (OSTmr_Free t s) W (t # fs)" and "OSTmrState (tmr_data (OSTmr_Free t s) t) = OS_TMR_STATE_UNUSED"
    and "k \<noteq> t \<Longrightarrow> tmr_data (OSTmr_Free t s) k = tmr_data s k" and "tmr_frame s (OSTmr_Free t s)"
proof -
  let ?s = "OSTmr_Free t s"
  note p = pool_okD [OF tmr_listsD(2) [OF inv]]
  have st': "OSTmrState (OSTmrTbl s t) = 1 \<or> OSTmrState (OSTmrTbl s t) = 2" using st by (simp add: tmr_data_def)
  have ty: "OSTmrType (OSTmrTbl s t) = OS_TMR_TYPE" using tmr_listsD(3) [OF inv t] by (simp add: tmr_data_def)
  have notin: "t \<notin> set fs" unfolding p(3) using st by auto
  have "free_tmrs (tnx ?s) (OSTmrFreeList s) fs = free_tmrs (tnx s) (OSTmrFreeList s) fs"
    by (rule free_tmrs_cong) (use notin in \<open>auto simp: OSTmr_Free_def\<close>)
  then have chain: "free_tmrs (tnx ?s) (OSTmrFreeList ?s) (t # fs)"
    using p(1) by (simp add: OSTmr_Free_def)
  have st_eq: "OSTmrState (tmr_data ?s k) = OS_TMR_STATE_UNUSED \<longleftrightarrow> k = t \<or> OSTmrState (tmr_data s k) = OS_TMR_STATE_UNUSED" for k
    by (simp add: OSTmr_Free_def tmr_data_def)
  have set: "set (t # fs) = {k. k < OS_TMR_CFG_MAX \<and> OSTmrState (tmr_data ?s k) = OS_TMR_STATE_UNUSED}"
    unfolding st_eq using p(3) t by auto
  have cnt: "OSTmrFree ?s = of_nat (length (t # fs))" "OSTmrUsed ?s + OSTmrFree ?s = of_nat OS_TMR_CFG_MAX"
    using p(4,5) by (simp_all add: OSTmr_Free_def)
  have pool: "pool_ok ?s (t # fs)"
    unfolding pool_ok_def using chain set cnt notin p(2) by simp
  show "tmr_lists ?s W (t # fs)"
    by (rule tmr_lists_pool [OF inv t _ _ _ _ _ _ pool])
      (use st' ty in \<open>auto simp: running_def OSTmr_Free_def tmr_data_def\<close>)
qed (simp_all add: OSTmr_Free_def tmr_data_def tmr_frame_def)

end
