(* ===== verification/OS_Tmr_Services.thy ===== *)
theory OS_Tmr_Services
  imports OS_Tmr_Proofs OS_Create OS_Frame
begin

text \<open>
  What the services of the software timers do in every state that clients can reach, and the time at
  which a timer fires.
\<close>

subsection \<open>Each service\<close>

text \<open>What is left of a world \<open>w\<close> with the scheduler locked when the scheduler has been unlocked.\<close>

definition unlocks :: "os \<times> 'a \<Rightarrow> 'a os_tmr \<Rightarrow> bool" where
  "unlocks w s' \<longleftrightarrow> OSSchedUnlock (fst w) = Some (kern s') \<and> app s' = snd w"

text \<open>A service ends in a state with the invariant, in which the timers are \<open>D\<close>, and kernel and application
  are what the unlocking of the scheduler makes of \<open>w\<close>.\<close>

definition serves :: "('r \<times> 'a os_tmr) option \<Rightarrow> 'r \<Rightarrow> 'a os_tmr \<Rightarrow> (nat \<Rightarrow> OS_TMR) \<Rightarrow> os \<times> 'a \<Rightarrow> bool" where
  "serves res r s D w \<longleftrightarrow> (\<exists>s' W fs. res = Some (r, s') \<and> tmr_lists s' W fs \<and> served s s' \<and> tmr_data s' = D \<and> unlocks w s')"

lemma leave_serves:
  assumes f: "core_frame (tmr_lock s) s1" and inv: "tmr_lists s1 W fs" and w: "world s1 = w" "locked_ok (fst w)"
  shows "serves (tmr_leave r s1) r s (tmr_data s1) w"
proof -
  have e: "OSTmrTime s1 = OSTmrTime s" "OSTmrSemSignal s1 = OSTmrSemSignal s"
    using f by (simp_all add: core_frame_def)
  have k: "locked_ok (kern s1)" "kern s1 = fst w" "app s1 = snd w" using w by auto
  obtain s' where "tmr_leave r s1 = Some (r, s')" "tmr_lists s' W fs" "tmr_data s' = tmr_data s1" "served s s'"
      "OSSchedUnlock (kern s1) = Some (kern s')" "app s' = app s1"
    by (rule tmr_leave_ok [OF k(1) e inv])
  then show ?thesis unfolding serves_def unlocks_def k(2,3) by blast
qed

lemma lock_locked: "kern_ok (kern s) \<Longrightarrow> locked_ok (fst (world (tmr_lock s)))"
  using kern_ok_lock by simp

lemma leave_same:
  assumes "kern_ok (kern s)" and "tmr_lists s W fs"
  shows "serves (tmr_leave r (tmr_lock s)) r s (tmr_data s) (world (tmr_lock s))"
  using leave_serves [OF _ tmr_lists_lock [OF assms(2)] refl lock_locked [OF assms(1)], where r = r] by (simp add: core_frame_def)

lemma tmr_tbl_data: "OSTmrState (OSTmrTbl s t) = OSTmrState (tmr_data s t)" "OSTmrMatch (OSTmrTbl s t) = OSTmrMatch (tmr_data s t)"
  "OSTmrType (OSTmrTbl s t) = OSTmrType (tmr_data s t)" "OSTmrOpt (OSTmrTbl s t) = OSTmrOpt (tmr_data s t)"
  "OSTmrDly (OSTmrTbl s t) = OSTmrDly (tmr_data s t)" "OSTmrPeriod (OSTmrTbl s t) = OSTmrPeriod (tmr_data s t)"
  "OSTmrCallback (OSTmrTbl s t) = OSTmrCallback (tmr_data s t)" "OSTmrCallbackArg (OSTmrTbl s t) = OSTmrCallbackArg (tmr_data s t)"
  "OSTmrName (OSTmrTbl s t) = OSTmrName (tmr_data s t)"
  by (simp_all add: tmr_data_def)

lemma tmr_states:
  assumes "tmr_lists s W fs" and "t < OS_TMR_CFG_MAX"
  obtains (unused) "OSTmrState (tmr_data s t) = OS_TMR_STATE_UNUSED"
    | (idle) "OSTmrState (tmr_data s t) = OS_TMR_STATE_STOPPED \<or> OSTmrState (tmr_data s t) = OS_TMR_STATE_COMPLETED"
    | (runs) "OSTmrState (tmr_data s t) = OS_TMR_STATE_RUNNING"
proof -
  have "unat (OSTmrState (tmr_data s t)) \<le> 3"
    using tmr_listsD(4) [OF assms] by (simp add: word_le_nat_alt)
  then have "unat (OSTmrState (tmr_data s t)) \<in> {0, 1, 2, 3}" by auto
  then show ?thesis using that by (auto simp: word_unat_eq_iff)
qed

text \<open>Taking a timer off the wheel.\<close>

lemma unlink_locked:
  assumes inv: "tmr_lists s W fs" and r: "running s t"
  obtains s1 W1 where "OSTmr_Unlink t (tmr_lock s) = Some s1" "tmr_lists s1 W1 fs" "core_frame (tmr_lock s) s1" "world s1 = world (tmr_lock s)"
    "tmr_data s1 = (tmr_data s)(t := (tmr_data s t)\<lparr>OSTmrState := OS_TMR_STATE_STOPPED\<rparr>)"
proof -
  note inv' = tmr_lists_lock [OF inv]
  have r': "running (tmr_lock s) t" using r by (simp add: running_def)
  obtain xs ys where "W (spoke_of (expiry (tmr_lock s) t)) = xs @ t # ys"
    using running_in_spoke [OF inv' r'] by (meson split_list)
  then obtain s1 W1 where s1: "OSTmr_Unlink t (tmr_lock s) = Some s1" "tmr_lists s1 W1 fs" "tmr_frame (tmr_lock s) s1"
      "tmr_data s1 t = (tmr_data s t)\<lparr>OSTmrState := OS_TMR_STATE_STOPPED\<rparr>" "\<And>k. k \<noteq> t \<Longrightarrow> tmr_data s1 k = tmr_data s k"
    using OSTmr_Unlink_ok [OF inv' r'] unfolding tmr_data_lock by metis
  show ?thesis
    by (rule that [OF s1(1,2)]) (use s1(3-5) in \<open>auto simp: fun_eq_iff core_frame_def tmr_frame_def world_def\<close>)
qed

lemma link_data:
  assumes inv: "tmr_lists s W fs" and t: "t < OS_TMR_CFG_MAX"
    and st: "OSTmrState (tmr_data s t) = OS_TMR_STATE_STOPPED \<or> OSTmrState (tmr_data s t) = OS_TMR_STATE_COMPLETED"
  obtains s' W' where "OSTmr_Link t ty s = Some s'" "tmr_lists s' W' fs" "core_frame s s'" "world s' = world s"
    "tmr_data s' = (tmr_data s)(t := (tmr_data s t)\<lparr>OSTmrState := OS_TMR_STATE_RUNNING, OSTmrMatch := link_match ty (tmr_data s t) (OSTmrTime s)\<rparr>)"
proof -
  obtain s' W' where s': "OSTmr_Link t ty s = Some s'" "tmr_lists s' W' fs" "tmr_frame s s'"
      "tmr_data s' t = (tmr_data s t)\<lparr>OSTmrState := OS_TMR_STATE_RUNNING, OSTmrMatch := link_match ty (tmr_data s t) (OSTmrTime s)\<rparr>"
      "\<And>k. k \<noteq> t \<Longrightarrow> tmr_data s' k = tmr_data s k"
    using OSTmr_Link_ok [OF inv t st] by metis
  show ?thesis
    by (rule that [OF s'(1,2)]) (use s'(3-5) in \<open>auto simp: fun_eq_iff core_frame_def tmr_frame_def world_def\<close>)
qed

lemma OSTmrStart_serves:
  assumes inv: "tmr_lists s W fs" and k: "kern_ok (kern s)" and t: "t < OS_TMR_CFG_MAX"
  shows "serves (OSTmrStart chk (Some t) s)
    (if OSTmrState (tmr_data s t) = OS_TMR_STATE_UNUSED then (False, OS_ERR_TMR_INACTIVE) else (True, OS_ERR_NONE)) s
    (if OSTmrState (tmr_data s t) = OS_TMR_STATE_UNUSED then tmr_data s
     else (tmr_data s)(t := (tmr_data s t)\<lparr>OSTmrState := OS_TMR_STATE_RUNNING,
       OSTmrMatch := link_match OS_TMR_LINK_DLY (tmr_data s t) (OSTmrTime s)\<rparr>)) (world (tmr_lock s))"
proof -
  have n: "OSIntNesting (kern s) = 0" using k by (simp add: kern_ok_def)
  note ty = tmr_listsD(3) [OF inv t]
  show ?thesis
  using inv t
  proof (cases rule: tmr_states)
    case unused
    then show ?thesis
      using leave_same [OF k inv] by (simp add: OSTmrStart_def tmr_deref [OF t] tmr_tbl_data ty n)
  next
    case runs
    obtain s1 W1 where s1: "OSTmr_Unlink t (tmr_lock s) = Some s1" "tmr_lists s1 W1 fs" "core_frame (tmr_lock s) s1" "world s1 = world (tmr_lock s)"
        "tmr_data s1 = (tmr_data s)(t := (tmr_data s t)\<lparr>OSTmrState := OS_TMR_STATE_STOPPED\<rparr>)"
      using unlink_locked [OF inv] runs t by (auto simp: running_def)
    obtain s2 W2 where s2: "OSTmr_Link t OS_TMR_LINK_DLY s1 = Some s2" "tmr_lists s2 W2 fs" "core_frame s1 s2" "world s2 = world s1"
        "tmr_data s2 = (tmr_data s1)(t := (tmr_data s1 t)\<lparr>OSTmrState := OS_TMR_STATE_RUNNING,
           OSTmrMatch := link_match OS_TMR_LINK_DLY (tmr_data s1 t) (OSTmrTime s1)\<rparr>)"
      using link_data [OF s1(2) t] s1(5) by auto
    have "OSTmrTime s1 = OSTmrTime s" using s1(3) by (simp add: core_frame_def)
    then show ?thesis
      using leave_serves [OF core_frame_trans [OF s1(3) s2(3)] s2(2) trans [OF s2(4) s1(4)] lock_locked [OF k], where r = "(True, OS_ERR_NONE)"]
        runs s1(1,5) s2(1,5)
      by (simp add: OSTmrStart_def tmr_deref [OF t] tmr_tbl_data ty n)
  next
    case idle
    obtain s2 W2 where s2: "OSTmr_Link t OS_TMR_LINK_DLY (tmr_lock s) = Some s2" "tmr_lists s2 W2 fs" "core_frame (tmr_lock s) s2"
        "world s2 = world (tmr_lock s)"
        "tmr_data s2 = (tmr_data (tmr_lock s))(t := (tmr_data (tmr_lock s) t)\<lparr>OSTmrState := OS_TMR_STATE_RUNNING,
           OSTmrMatch := link_match OS_TMR_LINK_DLY (tmr_data (tmr_lock s) t) (OSTmrTime (tmr_lock s))\<rparr>)"
      using link_data [OF tmr_lists_lock [OF inv] t] idle by auto
    then show ?thesis
      using leave_serves [OF s2(3,2,4) lock_locked [OF k], where r = "(True, OS_ERR_NONE)"] idle
      by (auto simp: OSTmrStart_def tmr_deref [OF t] tmr_tbl_data ty n)
  qed
qed

lemma core_frame_free: "core_frame s s1 \<Longrightarrow> core_frame s (OSTmr_Free t s1)"
  by (simp add: core_frame_def OSTmr_Free_def)

text \<open>A deleted timer.\<close>

definition tmr_freed :: "OS_TMR \<Rightarrow> OS_TMR" where
  "tmr_freed x = x\<lparr>OSTmrState := OS_TMR_STATE_UNUSED, OSTmrOpt := OS_TMR_OPT_NONE, OSTmrPeriod := 0, OSTmrMatch := 0,
     OSTmrCallback := None, OSTmrCallbackArg := 0, OSTmrName := ''?''\<rparr>"

lemma OSTmr_Free_data: "tmr_data (OSTmr_Free t s) = (tmr_data s)(t := tmr_freed (tmr_data s t))" "world (OSTmr_Free t s) = world s"
  by (auto simp: OSTmr_Free_def tmr_data_def tmr_freed_def unlinked_def world_def fun_eq_iff)

lemma OSTmrDel_serves:
  assumes inv: "tmr_lists s W fs" and k: "kern_ok (kern s)" and t: "t < OS_TMR_CFG_MAX"
  shows "serves (OSTmrDel chk (Some t) s)
    (if OSTmrState (tmr_data s t) = OS_TMR_STATE_UNUSED then (False, OS_ERR_TMR_INACTIVE) else (True, OS_ERR_NONE)) s
    (if OSTmrState (tmr_data s t) = OS_TMR_STATE_UNUSED then tmr_data s else (tmr_data s)(t := tmr_freed (tmr_data s t))) (world (tmr_lock s))"
proof -
  have n: "OSIntNesting (kern s) = 0" using k by (simp add: kern_ok_def)
  note ty = tmr_listsD(3) [OF inv t]
  show ?thesis
  using inv t
  proof (cases rule: tmr_states)
    case unused
    then show ?thesis
      using leave_same [OF k inv] by (simp add: OSTmrDel_def tmr_deref [OF t] tmr_tbl_data ty n)
  next
    case idle
    have st: "OSTmrState (tmr_data (tmr_lock s) t) = OS_TMR_STATE_STOPPED \<or> OSTmrState (tmr_data (tmr_lock s) t) = OS_TMR_STATE_COMPLETED"
      using idle by simp
    have "core_frame (tmr_lock s) (OSTmr_Free t (tmr_lock s))" by (rule core_frame_free) (simp add: core_frame_def)
    from leave_serves [OF this OSTmr_Free_ok(1) [OF tmr_lists_lock [OF inv] t st] OSTmr_Free_data(2) lock_locked [OF k], where r = "(True, OS_ERR_NONE)"]
    show ?thesis using idle by (auto simp: OSTmrDel_def tmr_deref [OF t] tmr_tbl_data ty n OSTmr_Free_data)
  next
    case runs
    obtain s1 W1 where s1: "OSTmr_Unlink t (tmr_lock s) = Some s1" "tmr_lists s1 W1 fs" "core_frame (tmr_lock s) s1" "world s1 = world (tmr_lock s)"
        "tmr_data s1 = (tmr_data s)(t := (tmr_data s t)\<lparr>OSTmrState := OS_TMR_STATE_STOPPED\<rparr>)"
      using unlink_locked [OF inv] runs t by (auto simp: running_def)
    have st: "OSTmrState (tmr_data s1 t) = OS_TMR_STATE_STOPPED \<or> OSTmrState (tmr_data s1 t) = OS_TMR_STATE_COMPLETED"
      by (simp add: s1(5))
    have fr: "tmr_freed (x\<lparr>OSTmrState := st\<rparr>) = tmr_freed x" for x st by (simp add: tmr_freed_def)
    from leave_serves [OF core_frame_free [OF s1(3)] OSTmr_Free_ok(1) [OF s1(2) t st] trans [OF OSTmr_Free_data(2) s1(4)]
        lock_locked [OF k], where r = "(True, OS_ERR_NONE)"]
    show ?thesis using runs s1(1,5) by (simp add: OSTmrDel_def tmr_deref [OF t] tmr_tbl_data ty n OSTmr_Free_data fr)
  qed
qed

text \<open>The callback that \<open>OSTmrStop\<close> runs, its argument and the error code.\<close>

definition stop_called :: "(nat \<Rightarrow> nat \<Rightarrow> u32 \<Rightarrow> 'w \<Rightarrow> 'w) \<Rightarrow> u8 \<Rightarrow> u32 \<Rightarrow> OS_TMR \<Rightarrow> nat \<Rightarrow> 'w \<Rightarrow> 'w" where
  "stop_called g opt arg x t = (if opt = OS_TMR_OPT_CALLBACK then called g x t
     else if opt = OS_TMR_OPT_CALLBACK_ARG then called g (x\<lparr>OSTmrCallbackArg := arg\<rparr>) t else (\<lambda>a. a))"

definition stop_err :: "u8 \<Rightarrow> OS_TMR \<Rightarrow> u8" where
  "stop_err opt x = (if opt = OS_TMR_OPT_CALLBACK \<or> opt = OS_TMR_OPT_CALLBACK_ARG
     then (if OSTmrCallback x = None then OS_ERR_TMR_NO_CALLBACK else OS_ERR_NONE)
     else if opt = OS_TMR_OPT_NONE then OS_ERR_NONE else OS_ERR_TMR_INVALID_OPT)"

lemma OSTmrStop_serves:
  assumes inv: "tmr_lists s W fs" and k: "kern_ok (kern s)" and t: "t < OS_TMR_CFG_MAX" and cb: "callbacks_ok cb g"
  shows "serves (OSTmrStop chk cb (Some t) opt arg s)
    (if OSTmrState (tmr_data s t) = OS_TMR_STATE_UNUSED then (False, OS_ERR_TMR_INACTIVE)
     else if running s t then (True, stop_err opt (tmr_data s t)) else (True, OS_ERR_TMR_STOPPED)) s
    (if running s t then (tmr_data s)(t := (tmr_data s t)\<lparr>OSTmrState := OS_TMR_STATE_STOPPED\<rparr>) else tmr_data s)
    (if running s t then stop_called g opt arg (tmr_data s t) t (world (tmr_lock s)) else world (tmr_lock s))"
proof -
  have n: "OSIntNesting (kern s) = 0" using k by (simp add: kern_ok_def)
  note ty = tmr_listsD(3) [OF inv t]
  show ?thesis
  using inv t
  proof (cases rule: tmr_states)
    case unused
    then show ?thesis
      using leave_same [OF k inv] by (simp add: OSTmrStop_def tmr_deref [OF t] tmr_tbl_data ty n running_def)
  next
    case idle
    then show ?thesis
      using leave_same [OF k inv] by (auto simp: OSTmrStop_def tmr_deref [OF t] tmr_tbl_data ty n running_def)
  next
    case runs
    then have r: "running s t" using t by (simp add: running_def)
    obtain s1 W1 where s1: "OSTmr_Unlink t (tmr_lock s) = Some s1" "tmr_lists s1 W1 fs" "core_frame (tmr_lock s) s1" "world s1 = world (tmr_lock s)"
        "tmr_data s1 = (tmr_data s)(t := (tmr_data s t)\<lparr>OSTmrState := OS_TMR_STATE_STOPPED\<rparr>)"
      using unlink_locked [OF inv r] .
    let ?w = "stop_called g opt arg (tmr_data s t) t (world (tmr_lock s))"
    let ?s2 = "s1\<lparr>kern := fst ?w, app := snd ?w\<rparr>"
    have d2: "tmr_data ?s2 = tmr_data s1" by (rule tmr_data_eq) simp
    have k1: "locked_ok (kern s1)" using lock_locked [OF k] s1(4) by (metis world_sel(1))
    have w: "locked_ok (fst ?w)"
      using callbacks_okD(1) [OF cb, of "world (tmr_lock s)"] lock_locked [OF k] by (simp add: stop_called_def)
    have same: "s1\<lparr>kern := OSSchedLock (kern s), app := app s\<rparr> = s1"
      using arg_cong [OF s1(4), of fst] arg_cong [OF s1(4), of snd] by simp
    have "(if opt = OS_TMR_OPT_CALLBACK then stop_callback cb t (OSTmrCallbackArg (OSTmrTbl s1 t)) s1
        else if opt = OS_TMR_OPT_CALLBACK_ARG then stop_callback cb t arg s1
        else if opt = OS_TMR_OPT_NONE then Some (OS_ERR_NONE, s1) else Some (OS_ERR_TMR_INVALID_OPT, s1)) =
      Some (stop_err opt (tmr_data s t), ?s2)"
      using s1(5)
      by (auto simp: stop_callback_def tmr_tbl_data callbacks_okD(2) [OF cb k1] s1(4) same stop_called_def stop_err_def called_def
        split: option.splits)
    then have run: "OSTmrStop chk cb (Some t) opt arg s = tmr_leave (True, stop_err opt (tmr_data s t)) ?s2"
      using runs s1(1) by (simp add: OSTmrStop_def tmr_deref [OF t] tmr_tbl_data(1,3) ty n del: split_paired_All)
    have l2: "tmr_lists ?s2 W1 fs" by (rule tmr_lists_eq [OF s1(2)]) simp_all
    have f2: "core_frame (tmr_lock s) ?s2" using s1(3) by (simp add: core_frame_def)
    have w2: "world ?s2 = ?w" by (rule world_eqI) simp_all
    show ?thesis
      using leave_serves [OF f2 l2 w2 w, where r = "(True, stop_err opt (tmr_data s t))"] r runs s1(5) by (simp add: run d2)
  qed
qed

text \<open>How much time is left.\<close>

definition remaining :: "OS_TMR \<Rightarrow> u32 \<Rightarrow> u32" where
  "remaining x now = (if OSTmrState x = OS_TMR_STATE_RUNNING then OSTmrMatch x - now
     else if OSTmrState x = OS_TMR_STATE_STOPPED then if OSTmrOpt x = OS_TMR_OPT_PERIODIC \<and> OSTmrDly x = 0 then OSTmrPeriod x else OSTmrDly x
     else 0)"

lemma OSTmrRemainGet_serves:
  assumes inv: "tmr_lists s W fs" and k: "kern_ok (kern s)" and t: "t < OS_TMR_CFG_MAX"
  shows "serves (OSTmrRemainGet chk (Some t) s)
    (remaining (tmr_data s t) (OSTmrTime s), if OSTmrState (tmr_data s t) = OS_TMR_STATE_UNUSED then OS_ERR_TMR_INACTIVE else OS_ERR_NONE)
    s (tmr_data s) (world (tmr_lock s))"
proof -
  have n: "OSIntNesting (kern s) = 0" using k by (simp add: kern_ok_def)
  note ty = tmr_listsD(3) [OF inv t]
  show ?thesis
    using inv t
  proof (cases rule: tmr_states)
    case idle
    then show ?thesis
      by (elim disjE)
        (auto simp: OSTmrRemainGet_def tmr_deref [OF t] tmr_tbl_data ty n remaining_def intro: leave_same [OF k inv])
  qed (use leave_same [OF k inv] in \<open>simp_all add: OSTmrRemainGet_def tmr_deref [OF t] tmr_tbl_data ty n remaining_def\<close>)
qed

lemma OSTmrStateGet_serves:
  assumes inv: "tmr_lists s W fs" and k: "kern_ok (kern s)" and t: "t < OS_TMR_CFG_MAX"
  shows "serves (OSTmrStateGet chk (Some t) s) (OSTmrState (tmr_data s t), OS_ERR_NONE) s (tmr_data s) (world (tmr_lock s))"
proof -
  have n: "OSIntNesting (kern s) = 0" using k by (simp add: kern_ok_def)
  note ty = tmr_listsD(3) [OF inv t]
  show ?thesis
    using inv t
  proof (cases rule: tmr_states)
    case idle
    then show ?thesis
      using leave_same [OF k inv] by (elim disjE) (simp_all add: OSTmrStateGet_def tmr_deref [OF t] tmr_tbl_data ty n)
  qed (use leave_same [OF k inv] in \<open>simp_all add: OSTmrStateGet_def tmr_deref [OF t] tmr_tbl_data ty n\<close>)
qed

text \<open>A new timer.\<close>

definition tmr_created :: "u32 \<Rightarrow> u32 \<Rightarrow> u8 \<Rightarrow> nat option \<Rightarrow> u32 \<Rightarrow> string option \<Rightarrow> OS_TMR \<Rightarrow> OS_TMR" where
  "tmr_created dly period opt callback arg pname x = x\<lparr>OSTmrState := OS_TMR_STATE_STOPPED, OSTmrDly := dly, OSTmrPeriod := period,
     OSTmrOpt := opt, OSTmrCallback := callback, OSTmrCallbackArg := arg, OSTmrName := (case pname of None \<Rightarrow> ''?'' | Some nm \<Rightarrow> nm)\<rparr>"

definition create_args_ok :: "u32 \<Rightarrow> u32 \<Rightarrow> u8 \<Rightarrow> bool" where
  "create_args_ok dly period opt \<longleftrightarrow> opt = OS_TMR_OPT_PERIODIC \<and> period \<noteq> 0 \<or> opt = OS_TMR_OPT_ONE_SHOT \<and> dly \<noteq> 0"

lemma OSTmr_Alloc_ok:
  assumes inv: "tmr_lists s W (t # fs)"
  defines "s1 \<equiv> (upd_tmr t (\<lambda>x. x\<lparr>OSTmrNext := None, OSTmrPrev := None\<rparr>) s)\<lparr>OSTmrFreeList := OSTmrNext (OSTmrTbl s t),
         OSTmrUsed := OSTmrUsed s + 1, OSTmrFree := OSTmrFree s - 1\<rparr>"
  shows "OSTmr_Alloc s = Some (Some t, s1)" and "t < OS_TMR_CFG_MAX" and "OSTmrState (tmr_data s t) = OS_TMR_STATE_UNUSED"
    and "tmr_lists (upd_tmr t (tmr_created dly period opt callback arg pname) s1) W fs"
    and "tmr_data (upd_tmr t (tmr_created dly period opt callback arg pname) s1) = (tmr_data s)(t := tmr_created dly period opt callback arg pname (tmr_data s t))"
proof -
  let ?s = "upd_tmr t (tmr_created dly period opt callback arg pname) s1"
  note p = pool_okD [OF tmr_listsD(2) [OF inv]]
  have l: "OSTmrFreeList s = Some t" and rest: "free_tmrs (tnx s) (OSTmrNext (OSTmrTbl s t)) fs" using p(1) by simp_all
  show t: "t < OS_TMR_CFG_MAX" and st: "OSTmrState (tmr_data s t) = OS_TMR_STATE_UNUSED" using p(3) by auto
  have notin: "t \<notin> set fs" using p(2) by simp
  show "OSTmr_Alloc s = Some (Some t, s1)"
    using l t by (simp add: OSTmr_Alloc_def tmr_def s1_def)
  show data: "tmr_data ?s = (tmr_data s)(t := tmr_created dly period opt callback arg pname (tmr_data s t))"
    by (auto simp: s1_def tmr_data_def tmr_created_def unlinked_def fun_eq_iff)
  have "free_tmrs (tnx ?s) (OSTmrNext (OSTmrTbl s t)) fs = free_tmrs (tnx s) (OSTmrNext (OSTmrTbl s t)) fs"
    by (rule free_tmrs_cong) (use notin in \<open>auto simp: s1_def\<close>)
  then have chain: "free_tmrs (tnx ?s) (OSTmrFreeList ?s) fs" using rest by (simp add: s1_def)
  have "set fs = set (t # fs) - {t}" using notin by auto
  also have "\<dots> = {k. k < OS_TMR_CFG_MAX \<and> OSTmrState (tmr_data ?s k) = OS_TMR_STATE_UNUSED}"
    unfolding p(3) data by (auto simp: tmr_created_def)
  finally have set: "set fs = {k. k < OS_TMR_CFG_MAX \<and> OSTmrState (tmr_data ?s k) = OS_TMR_STATE_UNUSED}" .
  have cnt: "OSTmrFree ?s = of_nat (length fs)" "OSTmrUsed ?s + OSTmrFree ?s = of_nat OS_TMR_CFG_MAX"
    using p(4,5) by (simp_all add: s1_def)
  have pool: "pool_ok ?s fs"
    unfolding pool_ok_def using chain p(2) set cnt by simp
  have dt: "OSTmrState (tmr_data ?s t) = OS_TMR_STATE_STOPPED" "OSTmrType (tmr_data ?s t) = OS_TMR_TYPE"
    using tmr_listsD(3) [OF inv t] by (simp_all add: data tmr_created_def)
  show "tmr_lists ?s W fs"
  proof (rule tmr_lists_pool [OF inv t _ _ _ _ _ _ pool])
    show "\<not> running s t" "\<not> running ?s t" using st dt by (simp_all add: running_def)
    show "OSTmrType (tmr_data ?s t) = OS_TMR_TYPE" "OSTmrState (tmr_data ?s t) \<le> OS_TMR_STATE_RUNNING" by (simp_all add: dt)
  qed (simp_all add: s1_def)
qed

lemma OSTmrCreate_serves:
  assumes inv: "tmr_lists s W fs" and k: "kern_ok (kern s)" and chk: "chk \<longrightarrow> create_args_ok dly period opt"
  shows "serves (OSTmrCreate chk dly period opt callback arg pname s)
    (case fs of [] \<Rightarrow> (None, OS_ERR_TMR_NON_AVAIL) | t # _ \<Rightarrow> (Some t, OS_ERR_NONE)) s
    (case fs of [] \<Rightarrow> tmr_data s | t # _ \<Rightarrow> (tmr_data s)(t := tmr_created dly period opt callback arg pname (tmr_data s t))) (world (tmr_lock s))"
proof -
  have n: "OSIntNesting (kern s) = 0" using k by (simp add: kern_ok_def)
  have args: "OSTmrCreate chk dly period opt callback arg pname s = do {
        (p, s1) \<leftarrow> OSTmr_Alloc (tmr_lock s);
        case p of
          None \<Rightarrow> tmr_leave (None, OS_ERR_TMR_NON_AVAIL) s1
        | Some t \<Rightarrow> tmr_leave (Some t, OS_ERR_NONE) (upd_tmr t (tmr_created dly period opt callback arg pname) s1) }"
    unfolding OSTmrCreate_def tmr_created_def using chk n by (auto simp: create_args_ok_def)
  show ?thesis
  proof (cases fs)
    case Nil
    then have "OSTmrFreeList s = None" using pool_okD(1) [OF tmr_listsD(2) [OF inv]] by simp
    then show ?thesis
      using leave_same [OF k inv] Nil by (simp add: args OSTmr_Alloc_def)
  next
    case (Cons t ts)
    note al = OSTmr_Alloc_ok [OF tmr_lists_lock [OF inv, unfolded Cons]]
    let ?s1 = "upd_tmr t (tmr_created dly period opt callback arg pname) ((upd_tmr t (\<lambda>x. x\<lparr>OSTmrNext := None, OSTmrPrev := None\<rparr>) (tmr_lock s))
      \<lparr>OSTmrFreeList := OSTmrNext (OSTmrTbl (tmr_lock s) t), OSTmrUsed := OSTmrUsed (tmr_lock s) + 1, OSTmrFree := OSTmrFree (tmr_lock s) - 1\<rparr>)"
    have "core_frame (tmr_lock s) ?s1" "world ?s1 = world (tmr_lock s)" by (simp_all add: core_frame_def world_def)
    from leave_serves [OF this(1) al(4) this(2) lock_locked [OF k], where r = "(Some t, OS_ERR_NONE)"]
    show ?thesis unfolding al(5) using al(1) Cons by (simp add: args)
  qed
qed

lemma OSTmrCreate_refused:
  assumes "chk" and "\<not> create_args_ok dly period opt"
  shows "\<exists>err. OSTmrCreate chk dly period opt callback arg pname s = Some ((None, err), s) \<and>
    err = (if opt = OS_TMR_OPT_PERIODIC then OS_ERR_TMR_INVALID_PERIOD else if opt = OS_TMR_OPT_ONE_SHOT then OS_ERR_TMR_INVALID_DLY
      else OS_ERR_TMR_INVALID_OPT)"
  using assms by (auto simp: OSTmrCreate_def create_args_ok_def)

subsection \<open>Every state that clients can reach\<close>

lemma tmr_init_loop_eq:
  "tmr_init_loop n ix tbl k = (if ix \<le> k \<and> k \<le> ix + n
     then (tbl k)\<lparr>OSTmrType := OS_TMR_TYPE, OSTmrState := OS_TMR_STATE_UNUSED, OSTmrNext := (if k < ix + n then Some (k + 1) else None),
       OSTmrName := ''?''\<rparr> else tbl k)"
proof (induction n arbitrary: ix tbl)
  case (Suc n)
  show ?case unfolding tmr_init_loop.simps Suc.IH by auto
qed auto

lemma free_tmrs_upt:
  assumes "\<And>k. m \<le> k \<Longrightarrow> k \<le> n \<Longrightarrow> nx k = (if k < n then Some (k + 1) else None)" and "m \<le> n"
  shows "free_tmrs nx (Some m) [m..<Suc n]"
  using assms
proof (induction "n - m" arbitrary: m)
  case 0
  then show ?case by simp
next
  case (Suc d)
  have "[m..<Suc n] = m # [Suc m..<Suc n]" using Suc.prems(2) by (simp add: upt_rec)
  moreover have "free_tmrs nx (Some (Suc m)) [Suc m..<Suc n]"
    by (rule Suc.hyps(1)) (use Suc.hyps(2) Suc.prems in auto)
  ultimately show ?case using Suc.prems(1) [of m] Suc.hyps(2) by (simp del: upt_Suc)
qed

lemma OSTmr_Init_ok:
  assumes "OSTmr_Init l s0 = Some s"
  shows "tmr_lists (s\<lparr>kern := k\<rparr>) (\<lambda>_. []) [0..<16]"
proof -
  have s: "OSTmrTbl s = tmr_init_loop 15 0 (\<lambda>_. tmr_zero)" "OSTmrWheelTbl s = (\<lambda>_. \<lparr>OSTmrFirst = None, OSTmrEntries = 0\<rparr>)"
      "OSTmrUsed s = 0" "OSTmrFree s = 16" "OSTmrFreeList s = Some 0"
    using assms unfolding OSTmr_Init_def by (auto simp: bind_Some_iff)
  have d: "tmr_data s t = tmr_zero\<lparr>OSTmrType := OS_TMR_TYPE, OSTmrName := ''?''\<rparr>" if "t < OS_TMR_CFG_MAX" for t
    using that by (simp add: tmr_data_def s(1) tmr_init_loop_eq unlinked_def tmr_zero_def)
  have "free_tmrs (tnx s) (Some 0) [0..<Suc 15]"
    by (rule free_tmrs_upt) (simp_all add: s(1) tmr_init_loop_eq tmr_zero_def)
  then have "pool_ok s [0..<16]"
    unfolding pool_ok_def using d by (auto simp: s tmr_zero_def simp del: upt_Suc)
  moreover have "\<not> running s t" for t using d [of t] by (auto simp: running_def tmr_zero_def)
  then have "spoke_ok s i []" for i by (simp add: spoke_ok_def s(2))
  ultimately have "tmr_lists s (\<lambda>_. []) [0..<16]"
    unfolding tmr_lists_def using d by (simp add: tmr_zero_def)
  then show ?thesis by (rule tmr_lists_eq) simp_all
qed

text \<open>The steps: a service, a turn of the timer task, and whatever the kernel and the application do
  in between.\<close>

inductive tmr_step :: "'a callbacks \<Rightarrow> 'a os_tmr \<Rightarrow> 'a os_tmr \<Rightarrow> bool" for cb where
  create: "OSTmrCreate chk dly period opt callback arg pname s = Some (r, s') \<Longrightarrow> tmr_step cb s s'"
| start: "OSTmrStart chk p s = Some (r, s') \<Longrightarrow> tmr_step cb s s'"
| stop: "OSTmrStop chk cb p opt arg s = Some (r, s') \<Longrightarrow> tmr_step cb s s'"
| del: "OSTmrDel chk p s = Some (r, s') \<Longrightarrow> tmr_step cb s s'"
| remain: "OSTmrRemainGet chk p s = Some (rr, s') \<Longrightarrow> tmr_step cb s s'"
| state: "OSTmrStateGet chk p s = Some (rs, s') \<Longrightarrow> tmr_step cb s s'"
| name: "OSTmrNameGet chk p pdest s = Some (rn, s') \<Longrightarrow> tmr_step cb s s'"
| turn: "OSTmr_Task_update cb s = Some s' \<Longrightarrow> tmr_step cb s s'"
| other: "kern_ok k \<Longrightarrow> tmr_step cb s (s\<lparr>kern := k, app := a\<rparr>)"

inductive tmr_reach :: "'a callbacks \<Rightarrow> 'a os_tmr \<Rightarrow> bool" for cb where
  init: "OSTmr_Init l s0 = Some s \<Longrightarrow> kern_ok k \<Longrightarrow> tmr_reach cb (s\<lparr>kern := k\<rparr>)"
| step: "tmr_reach cb s \<Longrightarrow> tmr_step cb s s' \<Longrightarrow> tmr_reach cb s'"

definition tmr_inv :: "'a os_tmr \<Rightarrow> bool" where
  "tmr_inv s \<longleftrightarrow> (\<exists>W fs. tmr_lists s W fs) \<and> kern_ok (kern s)"

lemma serves_inv: "serves res r s D a \<Longrightarrow> res = Some (r', s') \<Longrightarrow> tmr_inv s'"
  unfolding serves_def tmr_inv_def served_def by auto

text \<open>The name is only read.\<close>

lemma OSTmrNameGet_keeps:
  assumes inv: "tmr_inv s" and run: "OSTmrNameGet chk p pdest s = Some (r, s')"
  shows "tmr_inv s' \<and> tmr_data s' = tmr_data s \<and> OSTmrTime s' = OSTmrTime s"
proof -
  obtain W fs where l: "tmr_lists s W fs" and k: "kern_ok (kern s)" using inv by (auto simp: tmr_inv_def)
  have "\<exists>r0. s' = s \<or> tmr_leave r0 (tmr_lock s) = Some (r, s')"
    using run unfolding OSTmrNameGet_def by (auto split: if_splits elim!: bind_SomeE)
  then obtain r0 where "s' = s \<or> tmr_leave r0 (tmr_lock s) = Some (r, s')" ..
  then show ?thesis
  proof
    assume v: "tmr_leave r0 (tmr_lock s) = Some (r, s')"
    from serves_inv [OF leave_same [OF k l] v] leave_same [OF k l, of r0] v show ?thesis
      by (auto simp: serves_def served_def)
  qed (simp add: inv)
qed

text \<open>A service called with a pointer returns at once, or follows it to a timer.\<close>

lemma service_pointer:
  "OSTmrStart chk p s = Some (r, s') \<Longrightarrow> s' = s \<or> (\<exists>t < OS_TMR_CFG_MAX. p = Some t)"
  "OSTmrStop chk cb p opt arg s = Some (r, s') \<Longrightarrow> s' = s \<or> (\<exists>t < OS_TMR_CFG_MAX. p = Some t)"
  "OSTmrDel chk p s = Some (r, s') \<Longrightarrow> s' = s \<or> (\<exists>t < OS_TMR_CFG_MAX. p = Some t)"
  "OSTmrRemainGet chk p s = Some (rr, s') \<Longrightarrow> s' = s \<or> (\<exists>t < OS_TMR_CFG_MAX. p = Some t)"
  "OSTmrStateGet chk p s = Some (rs, s') \<Longrightarrow> s' = s \<or> (\<exists>t < OS_TMR_CFG_MAX. p = Some t)"
  by (cases p; auto simp: OSTmrStart_def OSTmrStop_def OSTmrDel_def OSTmrRemainGet_def OSTmrStateGet_def tmr_def split: if_splits)+

lemma tmr_step_inv:
  assumes cb: "callbacks_ok cb g" and st: "tmr_step cb s s'" and inv: "tmr_inv s"
  shows "tmr_inv s'"
proof -
  obtain W fs where l: "tmr_lists s W fs" and k: "kern_ok (kern s)" using inv by (auto simp: tmr_inv_def)
  from st show ?thesis
  proof cases
    case (create chk dly period opt callback arg pname r)
    show ?thesis
    proof (cases "chk \<longrightarrow> create_args_ok dly period opt")
      case True
      from serves_inv [OF OSTmrCreate_serves [OF l k True] create] show ?thesis .
    next
      case False
      then show ?thesis using OSTmrCreate_refused [of chk dly period opt callback arg pname s] create inv by auto
    qed
  next
    case (start chk p r)
    then show ?thesis using service_pointer(1) [OF start] serves_inv [OF OSTmrStart_serves [OF l k]] inv by blast
  next
    case (stop chk p opt arg r)
    then show ?thesis using service_pointer(2) [OF stop] serves_inv [OF OSTmrStop_serves [OF l k _ cb]] inv by blast
  next
    case (del chk p r)
    then show ?thesis using service_pointer(3) [OF del] serves_inv [OF OSTmrDel_serves [OF l k]] inv by blast
  next
    case (remain chk p rr)
    then show ?thesis using service_pointer(4) [OF remain] serves_inv [OF OSTmrRemainGet_serves [OF l k]] inv by blast
  next
    case (state chk p rs)
    then show ?thesis using service_pointer(5) [OF state] serves_inv [OF OSTmrStateGet_serves [OF l k]] inv by blast
  next
    case (name chk p pdest rn)
    then show ?thesis using OSTmrNameGet_keeps [OF inv name] by blast
  next
    case turn
    then show ?thesis using OSTmr_Task_update_ok [OF l k cb] by (auto simp: tmr_inv_def)
  next
    case (other k' a)
    have "tmr_lists s' W fs" unfolding other(1) by (rule tmr_lists_eq [OF l]) simp_all
    then show ?thesis using other by (auto simp: tmr_inv_def)
  qed
qed

lemma tmr_reach_inv:
  assumes "callbacks_ok cb g" and "tmr_reach cb s"
  shows "tmr_inv s"
  using assms(2)
proof induction
  case (init l s0 s k)
  then show ?case using OSTmr_Init_ok [OF init(1), of k] unfolding tmr_inv_def by auto
next
  case (step s s')
  then show ?case using tmr_step_inv [OF assms(1)] by blast
qed

subsection \<open>Starting the timers in a running kernel\<close>

lemma OSTmr_InitTask_ok:
  assumes ok: "kern_ok k" and p: "OS_TASK_TMR_PRIO l \<le> OS_LOWEST_PRIO" "OSTCBPrioTbl k (OS_TASK_TMR_PRIO l) = TNull" "OSTCBFreeList k \<noteq> TNull"
  obtains k' t where "OSTmr_InitTask l k = Some k'" "kern_ok k'" "OSEvents k' = OSEvents k" "act k' t" "prio k' t = OS_TASK_TMR_PRIO l"
proof -
  obtain c where c: "kernel_ok k c" and k: "OSRunning k" "OSIntNesting k = 0" "OSLockNesting k = 0" using ok by (auto simp: kern_ok_def)
  let ?call = "OSTaskCreateExt (OS_TaskReturn_adr l) (OSTmr_Task_addr l) 0 (OSTmrTaskStk l + unat (OS_TASK_TMR_STK_SIZE - 1))
    (OS_TASK_TMR_PRIO l) 65533 (OSTmrTaskStk l) OS_TASK_TMR_STK_SIZE VNull (OS_TASK_OPT_STK_CHK OR OS_TASK_OPT_STK_CLR) k"
  have nn: "\<not> OSTCBPrioTbl k (OS_TASK_TMR_PRIO l) \<noteq> TNull" using p(2) by simp
  note cr = OSTaskCreateExt_ok [OF c k(1,2) p(1), unfolded if_not_P [OF nn] if_not_P [OF p(3)],
      of "OS_TaskReturn_adr l" "OSTmr_Task_addr l" 0 "OSTmrTaskStk l + unat (OS_TASK_TMR_STK_SIZE - 1)" 65533 "OSTmrTaskStk l"
        OS_TASK_TMR_STK_SIZE VNull "OS_TASK_OPT_STK_CHK OR OS_TASK_OPT_STK_CLR"]
  obtain k1 c1 t where k1: "?call = Some (OS_ERR_NONE, k1)" "kernel_ok k1 c1" "act k1 t" "prio k1 t = OS_TASK_TMR_PRIO l"
      "OSTCBPrioTbl k1 = (OSTCBPrioTbl k)(OS_TASK_TMR_PRIO l := TPtr t)" "t < OS_MAX_TCBS" "OSEvents k1 = OSEvents k" "OSRunning k1"
      "OSIntNesting k1 = OSIntNesting k" "OSLockNesting k1 = OSLockNesting k"
    using cr by blast
  have slot: "OSTCBPrioTbl k1 (OS_TASK_TMR_PRIO l) = TPtr t" and n1: "OSIntNesting k1 = 0" using k1(5,9) k(2) by simp_all
  note nm = task_name_ok [OF k1(2) p(1) slot k1(6) n1, of "''uC/OS-II Tmr''"]
  let ?k = "upd_tcb t (\<lambda>x. x\<lparr>OSTCBTaskName := ''uC/OS-II Tmr''\<rparr>) k1"
  have "OSTmr_InitTask l k = Some ?k"
    unfolding OSTmr_InitTask_def k1(1) bind.bind_lunit prod.case nm(1) by simp
  moreover have "kern_ok ?k" using nm(2) k1(8,9,10) k by (auto simp: kern_ok_def)
  moreover have "act ?k t" "prio ?k t = OS_TASK_TMR_PRIO l" using k1(3,4) by (simp_all add: act_def)
  ultimately show ?thesis using that k1(7) by simp
qed

lemma OSTmr_Init_runs:
  assumes ok: "kern_ok (kern s0)" and two: "2 \<le> card (unused (kern s0))" and p: "OS_TASK_TMR_PRIO l \<le> OS_LOWEST_PRIO"
    "OSTCBPrioTbl (kern s0) (OS_TASK_TMR_PRIO l) = TNull" "OSTCBFreeList (kern s0) \<noteq> TNull"
  obtains s e d t where "OSTmr_Init l s0 = Some s" "kern_ok (kern s)" "OSTmrSem s = Some e" "OSTmrSemSignal s = Some d"
    "is_sem (kern s) e" "sem_count (kern s) e = 1" "is_sem (kern s) d" "sem_count (kern s) d = 0" "act (kern s) t" "prio (kern s) t = OS_TASK_TMR_PRIO l"
proof -
  let ?k = "kern s0"
  have ne: "unused ?k \<noteq> {}" using two by auto
  obtain e k1 where k1: "OSSemCreate 1 ?k = Some (Some e, k1)" "kern_ok k1" "e \<in> unused ?k" "unused k1 = unused ?k - {e}" "is_sem k1 e"
      "sem_count k1 e = 1" "\<forall>i. i \<noteq> e \<longrightarrow> OSEvents k1 i = OSEvents ?k i" "OSTCBFreeList k1 = OSTCBFreeList ?k"
      "OSTCBPrioTbl k1 = OSTCBPrioTbl ?k"
    by (rule sem_create_ok [OF ok ne, where n = 1])
  have "card (unused k1) \<noteq> 0" using two k1(3,4) by simp
  then have ne1: "unused k1 \<noteq> {}" by auto
  obtain d k2 where k2: "OSSemCreate 0 k1 = Some (Some d, k2)" "kern_ok k2" "d \<in> unused k1" "unused k2 = unused k1 - {d}" "is_sem k2 d"
      "sem_count k2 d = 0" "\<forall>i. i \<noteq> d \<longrightarrow> OSEvents k2 i = OSEvents k1 i" "OSTCBFreeList k2 = OSTCBFreeList k1" "OSTCBPrioTbl k2 = OSTCBPrioTbl k1"
    by (rule sem_create_ok [OF k1(2) ne1, where n = 0])
  have "d \<noteq> e" using k2(3) k1(4) by auto
  then have e2: "is_sem k2 e" "sem_count k2 e = 1" using k1(5,6) k2(7) by (auto simp: is_sem_def)
  obtain c where c: "kernel_ok k2 c" and n: "OSRunning k2" "OSIntNesting k2 = 0" "OSLockNesting k2 = 0" using k2(2) by (auto simp: kern_ok_def)
  obtain k3 where k3: "OSEventNameSet e ''uC/OS-II TmrLock'' k2 = Some (OS_ERR_NONE, k3)" "kernel_ok k3 c"
      "k3 = upd_evt e (\<lambda>ev. ev\<lparr>OSEventName := ''uC/OS-II TmrLock''\<rparr>) k2" "\<forall>i. is_sem k3 i = is_sem k2 i" "\<forall>i. sem_count k3 i = sem_count k2 i"
    by (rule sem_name_ok [OF c e2(1) n(2), where nm = "''uC/OS-II TmrLock''"])
  have d3: "is_sem k3 d" "OSIntNesting k3 = 0" using k3(4) k2(5) n(2) by (simp_all add: k3(3))
  obtain k4 where k4: "OSEventNameSet d ''uC/OS-II TmrSignal'' k3 = Some (OS_ERR_NONE, k4)" "kernel_ok k4 c"
      "k4 = upd_evt d (\<lambda>ev. ev\<lparr>OSEventName := ''uC/OS-II TmrSignal''\<rparr>) k3" "\<forall>i. is_sem k4 i = is_sem k3 i" "\<forall>i. sem_count k4 i = sem_count k3 i"
    by (rule sem_name_ok [OF k3(2) d3, where nm = "''uC/OS-II TmrSignal''"])
  have ok4: "kern_ok k4" using k4(2) n by (auto simp: kern_ok_def k4(3) k3(3))
  have p4: "OSTCBPrioTbl k4 (OS_TASK_TMR_PRIO l) = TNull" "OSTCBFreeList k4 \<noteq> TNull"
    using p(2,3) k1(8,9) k2(8,9) by (simp_all add: k4(3) k3(3))
  obtain k5 t where k5: "OSTmr_InitTask l k4 = Some k5" "kern_ok k5" "OSEvents k5 = OSEvents k4" "act k5 t" "prio k5 t = OS_TASK_TMR_PRIO l"
    using OSTmr_InitTask_ok [OF ok4 p(1) p4] .
  have ev: "is_sem k5 i = is_sem k2 i" "sem_count k5 i = sem_count k2 i" for i
    using k5(3) k4(4,5) k3(4,5) by (simp_all add: is_sem_def)
  have sems: "is_sem k5 e" "sem_count k5 e = 1" "is_sem k5 d" "sem_count k5 d = 0"
    using ev e2 k2(5,6) by simp_all
  let ?s = "s0\<lparr>OSTmrTbl := tmr_init_loop (OS_TMR_CFG_MAX - 1) 0 (\<lambda>_. tmr_zero),
       OSTmrWheelTbl := (\<lambda>_. \<lparr>OSTmrFirst = None, OSTmrEntries = 0\<rparr>), OSTmrTime := 0, OSTmrUsed := 0,
       OSTmrFree := of_nat OS_TMR_CFG_MAX, OSTmrFreeList := Some 0, OSTmrSem := Some e, OSTmrSemSignal := Some d, kern := k5\<rparr>"
  have "OSTmr_Init l s0 = Some ?s"
    unfolding OSTmr_Init_def k1(1) k2(1) bind.bind_lunit prod.case k3(1) k4(1) k5(1) ..
  then show ?thesis
    by (rule that [where t = t]) (use sems k5(2,4,5) in simp_all)
qed

subsection \<open>The contract\<close>

lemma running_eq: "tmr_data s' t = tmr_data s t \<Longrightarrow> running s' t = running s t \<and> expiry s' t = expiry s t"
  by (simp add: running_def expiry_def)

lemma OSTmr_Task_update_inv:
  assumes cb: "callbacks_ok cb g" and inv: "tmr_inv s"
  obtains s' ts where "OSTmr_Task_update cb s = Some s'" "tmr_inv s'" "OSTmrTime s' = OSTmrTime s + 1" "distinct ts"
    "set ts = {t. running s t \<and> expiry s t = OSTmrTime s + 1}"
    "\<forall>t. tmr_data s' t = (if t \<in> set ts then fired (OSTmrTime s + 1) (tmr_data s t) else tmr_data s t)"
    "unlocks (fold (\<lambda>t. called g (tmr_data s t) t) ts (world (tmr_lock s))) s'"
proof -
  let ?now = "OSTmrTime s + 1"
  obtain W fs where l: "tmr_lists s W fs" and k: "kern_ok (kern s)"
    using inv by (auto simp: tmr_inv_def)
  let ?ts = "filter (\<lambda>t. expiry s t = ?now) (W (spoke_of ?now))"
  obtain s' W' where s': "OSTmr_Task_update cb s = Some s'" "tmr_lists s' W' fs" "kern_ok (kern s')" "OSTmrTime s' = ?now"
      "\<And>t. tmr_data s' t = (if running s t \<and> expiry s t = ?now then fired ?now (tmr_data s t) else tmr_data s t)"
      "unlocks (fold (\<lambda>t. called g (tmr_data s t) t) ?ts (world (tmr_lock s))) s'"
    using OSTmr_Task_update_ok [OF l k cb] unfolding unlocks_def by blast
  note sp = spoke_okD [OF tmr_listsD(1) [OF l spoke_of_less [of ?now]]]
  have set: "set ?ts = {t. running s t \<and> expiry s t = ?now}" unfolding set_filter sp(5) by auto
  have "tmr_inv s'" using s'(2,3) by (auto simp: tmr_inv_def)
  then show ?thesis
    using that [OF s'(1) _ s'(4) _ set _ s'(6)] s'(5) sp(4) unfolding set by simp
qed

text \<open>What else happens between the turns, without starting, stopping or deleting timer \<open>t\<close>: every service for the other
  timers, new timers, the services that only read, and whatever the kernel and the application do.\<close>

inductive tmr_other :: "'a callbacks \<Rightarrow> nat \<Rightarrow> 'a os_tmr \<Rightarrow> 'a os_tmr \<Rightarrow> bool" for cb t where
  create: "OSTmrCreate chk dly period opt callback arg pname s = Some (r, s') \<Longrightarrow> tmr_other cb t s s'"
| start: "p \<noteq> Some t \<Longrightarrow> OSTmrStart chk p s = Some (r, s') \<Longrightarrow> tmr_other cb t s s'"
| stop: "p \<noteq> Some t \<Longrightarrow> OSTmrStop chk cb p opt arg s = Some (r, s') \<Longrightarrow> tmr_other cb t s s'"
| del: "p \<noteq> Some t \<Longrightarrow> OSTmrDel chk p s = Some (r, s') \<Longrightarrow> tmr_other cb t s s'"
| remain: "OSTmrRemainGet chk p s = Some (rr, s') \<Longrightarrow> tmr_other cb t s s'"
| state: "OSTmrStateGet chk p s = Some (rs, s') \<Longrightarrow> tmr_other cb t s s'"
| name: "OSTmrNameGet chk p pdest s = Some (rn, s') \<Longrightarrow> tmr_other cb t s s'"
| other: "kern_ok k \<Longrightarrow> tmr_other cb t s (s\<lparr>kern := k, app := a\<rparr>)"

text \<open>A run with \<open>n\<close> turns of the timer task.\<close>

inductive tmr_run :: "'a callbacks \<Rightarrow> nat \<Rightarrow> nat \<Rightarrow> 'a os_tmr \<Rightarrow> 'a os_tmr \<Rightarrow> bool" for cb t where
  none: "tmr_run cb t 0 s s"
| turn: "tmr_run cb t n s s1 \<Longrightarrow> OSTmr_Task_update cb s1 = Some s2 \<Longrightarrow> tmr_run cb t (n + 1) s s2"
| else: "tmr_run cb t n s s1 \<Longrightarrow> tmr_other cb t s1 s2 \<Longrightarrow> tmr_run cb t n s s2"

lemma tmr_other_step: "tmr_other cb t s s' \<Longrightarrow> tmr_step cb s s'"
  by (erule tmr_other.cases) (blast intro: tmr_step.intros)+

text \<open>A service that changes at most the timer it is called for keeps the others.\<close>

lemma serves_keeps:
  assumes "serves res r0 s D w" and "res = Some (r, s')" and "D t = tmr_data s t"
  shows "tmr_data s' t = tmr_data s t \<and> OSTmrTime s' = OSTmrTime s"
  using assms unfolding serves_def served_def by auto

lemma pointer_keeps:
  assumes "s' = s \<or> (\<exists>u < OS_TMR_CFG_MAX. p = Some u)" and "\<And>u. u < OS_TMR_CFG_MAX \<Longrightarrow> serves (res (Some u)) (r0 u) s (D u) (w u)"
    and "res p = Some (r, s')" and "\<And>u. p = Some u \<Longrightarrow> D u t = tmr_data s t"
  shows "tmr_data s' t = tmr_data s t \<and> OSTmrTime s' = OSTmrTime s"
  using assms(1)
proof (elim disjE exE conjE)
  fix u
  assume u: "u < OS_TMR_CFG_MAX" "p = Some u"
  show ?thesis by (rule serves_keeps [OF assms(2) [OF u(1)] assms(3) [unfolded u(2)] assms(4) [OF u(2)]])
qed simp

lemma tmr_other_keeps:
  assumes cb: "callbacks_ok cb g" and st: "tmr_other cb t s s'" and inv: "tmr_inv s" and r: "running s t"
  shows "tmr_data s' t = tmr_data s t \<and> OSTmrTime s' = OSTmrTime s"
proof -
  obtain W fs where l: "tmr_lists s W fs" and k: "kern_ok (kern s)" using inv by (auto simp: tmr_inv_def)
  from st show ?thesis
  proof cases
    case (create chk dly period opt callback arg pname rc)
    show ?thesis
    proof (cases "chk \<longrightarrow> create_args_ok dly period opt")
      case True
      have "t \<notin> set fs" using pool_okD(3) [OF tmr_listsD(2) [OF l]] r by (auto simp: running_def)
      then show ?thesis by (intro serves_keeps [OF OSTmrCreate_serves [OF l k True] create]) (auto split: list.split)
    next
      case False
      then show ?thesis using OSTmrCreate_refused [of chk dly period opt callback arg pname s] create by auto
    qed
  next
    case (start p chk rc)
    show ?thesis
      by (rule pointer_keeps [where res = "\<lambda>q. OSTmrStart chk q s", OF service_pointer(1) [OF start(2)] OSTmrStart_serves [OF l k] start(2)]) (use start(1) in auto)
  next
    case (stop p chk opt arg rc)
    show ?thesis
      by (rule pointer_keeps [where res = "\<lambda>q. OSTmrStop chk cb q opt arg s", OF service_pointer(2) [OF stop(2)] OSTmrStop_serves [OF l k _ cb] stop(2)]) (use stop(1) in auto)
  next
    case (del p chk rc)
    show ?thesis
      by (rule pointer_keeps [where res = "\<lambda>q. OSTmrDel chk q s", OF service_pointer(3) [OF del(2)] OSTmrDel_serves [OF l k] del(2)]) (use del(1) in auto)
  next
    case (remain chk p rr)
    show ?thesis
      by (rule pointer_keeps [where res = "\<lambda>q. OSTmrRemainGet chk q s" and D = "\<lambda>_. tmr_data s" and t = t, OF service_pointer(4) [OF remain] OSTmrRemainGet_serves [OF l k] remain]) (assumption, rule refl)
  next
    case (state chk p rs)
    show ?thesis
      by (rule pointer_keeps [where res = "\<lambda>q. OSTmrStateGet chk q s" and D = "\<lambda>_. tmr_data s" and t = t, OF service_pointer(5) [OF state] OSTmrStateGet_serves [OF l k] state]) (assumption, rule refl)
  next
    case (name chk p pdest rn)
    then show ?thesis using OSTmrNameGet_keeps [OF inv name] by simp
  next
    case (other k' a)
    then show ?thesis by (simp add: tmr_data_def)
  qed
qed

text \<open>Until its time has come a running timer stays as it is.\<close>

lemma tmr_run_keeps:
  assumes cb: "callbacks_ok cb g" and run: "tmr_run cb t n s s'" and inv: "tmr_inv s" and r: "running s t"
    and n: "n < unat (expiry s t - OSTmrTime s)"
  shows "tmr_inv s' \<and> tmr_data s' t = tmr_data s t \<and> OSTmrTime s' = OSTmrTime s + of_nat n"
  using run inv r n
proof induction
  case (none s)
  then show ?case by simp
next
  case (turn n s s1 s2)
  then have s1: "tmr_inv s1" "tmr_data s1 t = tmr_data s t" "OSTmrTime s1 = OSTmrTime s + of_nat n" by auto
  obtain ts where s2: "tmr_inv s2" "OSTmrTime s2 = OSTmrTime s1 + 1" "set ts = {t. running s1 t \<and> expiry s1 t = OSTmrTime s1 + 1}"
      "\<forall>t. tmr_data s2 t = (if t \<in> set ts then fired (OSTmrTime s1 + 1) (tmr_data s1 t) else tmr_data s1 t)"
    using turn.hyps(2) by (rule_tac OSTmr_Task_update_inv [OF cb s1(1)]) auto
  have "expiry s1 t \<noteq> OSTmrTime s1 + 1"
  proof
    assume "expiry s1 t = OSTmrTime s1 + 1"
    then have "expiry s t - OSTmrTime s = of_nat (n + 1)" using running_eq [OF s1(2)] s1(3) by simp
    then have "unat (expiry s t - OSTmrTime s) \<le> n + 1" by (simp only: unat_of_nat mod_less_eq_dividend)
    then show False using turn.prems(3) by simp
  qed
  then show ?case using s1 s2 by (simp add: algebra_simps)
next
  case (else n s s1 s2)
  then have s1: "tmr_inv s1" "tmr_data s1 t = tmr_data s t" "OSTmrTime s1 = OSTmrTime s + of_nat n" by auto
  have "running s1 t" using running_eq [OF s1(2)] else.prems(2) by simp
  then show ?case
    using tmr_other_keeps [OF cb else.hyps(2) s1(1)] tmr_step_inv [OF cb tmr_other_step [OF else.hyps(2)] s1(1)] s1 by simp
qed

text \<open>A state in which timer 0 has been created: one shot after two turns, with the callback 5.\<close>

lemma tmr_example:
  assumes cb: "callbacks_ok cb g"
  obtains s :: "'a os_tmr" where "tmr_reach cb s" "OSTmrState (tmr_data s 0) = OS_TMR_STATE_STOPPED" "OSTmrDly (tmr_data s 0) = 2"
    "OSTmrOpt (tmr_data s 0) = OS_TMR_OPT_ONE_SHOT" "OSTmrCallback (tmr_data s 0) = Some 5"
proof -
  define l where "l = \<lparr>OSTmr_Task_addr = 0, OS_TaskReturn_adr = 0, OSTmrTaskStk = 500, OS_TASK_TMR_PRIO = 7\<rparr>"
  define s0 :: "'a os_tmr" where "s0 = undefined\<lparr>kern := sample\<rparr>"
  have k: "kern_ok (kern s0)" using sample_kernel_ok by (auto simp: kern_ok_def s0_def)
  have u: "unused (kern s0) = {7..<30}" by (simp add: s0_def sample_unused)
  have "2 \<le> card (unused (kern s0))" unfolding u by simp
  moreover have "OSTCBPrioTbl (kern s0) (OS_TASK_TMR_PRIO l) = TNull" by (simp add: s0_def l_def sample_prios_def)
  ultimately obtain s1 where s1: "OSTmr_Init l s0 = Some s1" "kern_ok (kern s1)"
    using OSTmr_Init_runs [OF k, of l] by (auto simp: l_def s0_def)
  have "tmr_reach cb (s1\<lparr>kern := kern s1\<rparr>)" by (rule tmr_reach.init [OF s1])
  then have r1: "tmr_reach cb s1" by simp
  have "tmr_lists (s1\<lparr>kern := kern s1\<rparr>) (\<lambda>_. []) [0..<16]" by (rule OSTmr_Init_ok [OF s1(1)])
  then have l1: "tmr_lists s1 (\<lambda>_. []) (0 # [1..<16])" by (simp add: upt_rec)
  have "serves (OSTmrCreate True 2 0 OS_TMR_OPT_ONE_SHOT (Some 5) 0 None s1) (Some 0, OS_ERR_NONE) s1
      ((tmr_data s1)(0 := tmr_created 2 0 OS_TMR_OPT_ONE_SHOT (Some 5) 0 None (tmr_data s1 0))) (world (tmr_lock s1))"
    using OSTmrCreate_serves [OF l1 s1(2), of True 2 0 OS_TMR_OPT_ONE_SHOT "Some 5" 0 None] by (simp add: create_args_ok_def)
  then obtain s where s: "OSTmrCreate True 2 0 OS_TMR_OPT_ONE_SHOT (Some 5) 0 None s1 = Some ((Some 0, OS_ERR_NONE), s)"
      "tmr_data s 0 = tmr_created 2 0 OS_TMR_OPT_ONE_SHOT (Some 5) 0 None (tmr_data s1 0)"
    unfolding serves_def by auto
  show ?thesis
    by (rule that [of s]) (use tmr_reach.step [OF r1 tmr_step.create [OF s(1)]] s(2) in \<open>simp_all add: tmr_created_def\<close>)
qed

text \<open>Callbacks that write down which timer called, and post to semaphore 0.\<close>

definition log_cb :: "nat list callbacks" where
  "log_cb f t a s = do { r \<leftarrow> OSSemPost 0 (kern s); Some (s\<lparr>kern := snd r, app := t # app s\<rparr>) }"

definition log_effect :: "nat \<Rightarrow> nat \<Rightarrow> u32 \<Rightarrow> os \<times> nat list \<Rightarrow> os \<times> nat list" where
  "log_effect f t a w = (snd (the (OSSemPost 0 (fst w))), t # snd w)"

lemma post_locked:
  assumes "locked_ok k"
  shows "\<exists>err k'. OSSemPost 0 k = Some (err, k') \<and> locked_ok k'"
proof -
  obtain c where c: "kernel_ok k c" using assms by (auto simp: locked_ok_def)
  have "\<exists>err k' c'. OSSemPost 0 k = Some (err, k') \<and> kernel_ok k' c'"
  proof (cases "is_sem k 0")
    case True
    show ?thesis
    proof (cases "waiters k 0 = {}")
      case empty: True
      show ?thesis
        using OSSemPost_ok(2) [OF c True empty u16_less_max] OSSemPost_ok(3) [OF c True empty] c by (cases "sem_count k 0 = 65535") blast+
    qed (use OSSemPost_ok(1) [OF c True] in blast)
  next
    case False
    then have "OSSemPost 0 k = Some (OS_ERR_EVENT_TYPE, k)" by (simp add: is_sem_def OSSemPost_def evt_def)
    then show ?thesis using c by blast
  qed
  then obtain err k' c' where k': "OSSemPost 0 k = Some (err, k')" "kernel_ok k' c'" by blast
  have "locked_ok k'" using OSSemPost_ctx [OF k'(1)] k'(2) assms unfolding ctx_keeps_def locked_ok_def by auto
  then show ?thesis using k'(1) by blast
qed

lemma log_cb_ok: "callbacks_ok log_cb log_effect"
  unfolding callbacks_ok_def
proof (intro conjI allI impI)
  show "locked_ok (fst (log_effect f t a w))" if "locked_ok (fst w)" for f t a w
    using post_locked [OF that] by (auto simp: log_effect_def)
  show "log_cb f t a s = Some (s\<lparr>kern := fst (log_effect f t a (world s)), app := snd (log_effect f t a (world s))\<rparr>)"
    if "locked_ok (kern s)" for f t a s
    using post_locked [OF that] by (auto simp: log_cb_def log_effect_def)
qed

lemma logged:
  assumes "t \<in> set ts" and "OSTmrCallback (d t) \<noteq> None"
  shows "t \<in> set (snd (fold (\<lambda>k. called log_effect (d k) k) ts w))"
proof -
  have keep: "set (snd w) \<subseteq> set (snd (fold (\<lambda>k. called log_effect (d k) k) us w))" for us w
  proof (induction us arbitrary: w)
    case (Cons u us)
    have "set (snd w) \<subseteq> set (snd (called log_effect (d u) u w))" by (auto simp: called_def log_effect_def split: option.split)
    then show ?case using Cons.IH [of "called log_effect (d u) u w"] by simp
  qed simp
  obtain xs ys where ts: "ts = xs @ t # ys" using assms(1) by (meson split_list)
  obtain f where f: "OSTmrCallback (d t) = Some f" using assms(2) by blast
  have "t \<in> set (snd (called log_effect (d t) t v))" for v by (simp add: called_def f log_effect_def)
  then show ?thesis unfolding ts fold_append fold_simps o_apply by (rule rev_subsetD [OF _ keep])
qed

text \<open>C28: One turn of the timer task, in every state clients can reach at task level with the scheduler unlocked, and for
  callbacks that return, call any services of the kernel that leave it consistent and the scheduler locked, and make no timer
  calls: the turn returns; it calls the callbacks of exactly the running timers whose expiry time has come, each once,
  completes those that are not periodic, winds the periodic ones up for their next period from now, and changes no other timer;
  the kernel and the application are what these calls and the unlocking of the scheduler at the end make of them.\<close>

theorem OSTmr_Task_update_spec:
  assumes "callbacks_ok cb g" and "tmr_reach cb s"
  shows "\<exists>s' ts. OSTmr_Task_update cb s = Some s' \<and> tmr_reach cb s' \<and> OSTmrTime s' = OSTmrTime s + 1 \<and>
    distinct ts \<and> set ts = {t. running s t \<and> expiry s t = OSTmrTime s + 1} \<and>
    (\<forall>t. tmr_data s' t = (if t \<in> set ts then fired (OSTmrTime s + 1) (tmr_data s t) else tmr_data s t)) \<and>
    unlocks (fold (\<lambda>t. called g (tmr_data s t) t) ts (world (tmr_lock s))) s'"
proof -
  obtain s' ts where s': "OSTmr_Task_update cb s = Some s'" "OSTmrTime s' = OSTmrTime s + 1" "distinct ts"
      "set ts = {t. running s t \<and> expiry s t = OSTmrTime s + 1}"
      "\<forall>t. tmr_data s' t = (if t \<in> set ts then fired (OSTmrTime s + 1) (tmr_data s t) else tmr_data s t)"
      "unlocks (fold (\<lambda>t. called g (tmr_data s t) t) ts (world (tmr_lock s))) s'"
    by (rule OSTmr_Task_update_inv [OF assms(1) tmr_reach_inv [OF assms]])
  then show ?thesis
    using tmr_reach.step [OF assms(2) tmr_step.turn [OF s'(1)]] by blast
qed

lemma OSTmr_Task_update_spec_witness:
  "\<exists>s s'. tmr_reach log_cb s \<and> OSTmr_Task_update log_cb s = Some s' \<and> OSTmrTime s' = OSTmrTime s + 1"
proof -
  obtain s where s: "tmr_reach log_cb s" by (rule tmr_example [OF log_cb_ok])
  from OSTmr_Task_update_spec [OF log_cb_ok s] show ?thesis using s by blast
qed

text \<open>C27: A timer that is started fires after exactly its delay \<open>D\<close> (its period, if the delay is 0; \<open>D\<close> itself not 0) of turns of
  the timer task, whatever happens between the turns, except that this timer is started, stopped or deleted: other
  timers are created, started, stopped, deleted and fire, and the kernel, at task level with the scheduler
  unlocked, and the application do anything. Before its time the timer is running with the rest of the delay left, and every turn
  returns; exactly the turn number \<open>D\<close> calls its callback, once, and completes the timer, or winds it up if it is
  periodic. The callbacks may call the kernel, as in C28, but make no timer calls.\<close>

theorem timer_fires_on_time:
  assumes "callbacks_ok cb g" and "tmr_reach cb s" and "t < OS_TMR_CFG_MAX" and "OSTmrState (tmr_data s t) \<noteq> OS_TMR_STATE_UNUSED"
    and "D = (if OSTmrDly (tmr_data s t) = 0 then OSTmrPeriod (tmr_data s t) else OSTmrDly (tmr_data s t))" and "D \<noteq> 0"
  shows "\<exists>s1. OSTmrStart chk (Some t) s = Some ((True, OS_ERR_NONE), s1) \<and>
    tmr_data s1 t = (tmr_data s t)\<lparr>OSTmrState := OS_TMR_STATE_RUNNING, OSTmrMatch := D + OSTmrTime s\<rparr> \<and>
    (\<forall>n s2. tmr_run cb t n s1 s2 \<and> n < unat D \<longrightarrow>
       running s2 t \<and> unat (remaining (tmr_data s2 t) (OSTmrTime s2)) = unat D - n \<and> tmr_data s2 t = tmr_data s1 t \<and>
       (\<exists>s3 ts. OSTmr_Task_update cb s2 = Some s3 \<and> distinct ts \<and> (t \<in> set ts \<longleftrightarrow> n + 1 = unat D) \<and>
          unlocks (fold (\<lambda>k. called g (tmr_data s2 k) k) ts (world (tmr_lock s2))) s3 \<and>
          tmr_data s3 t = (if n + 1 = unat D then fired (OSTmrTime s + D) (tmr_data s1 t) else tmr_data s1 t)))"
proof -
  obtain W fs where l: "tmr_lists s W fs" and k: "kern_ok (kern s)"
    using tmr_reach_inv [OF assms(1,2)] by (auto simp: tmr_inv_def)
  have m: "link_match OS_TMR_LINK_DLY (tmr_data s t) (OSTmrTime s) = D + OSTmrTime s" by (simp add: link_match_def assms(5))
  obtain s1 W1 fs1 where s1: "OSTmrStart chk (Some t) s = Some ((True, OS_ERR_NONE), s1)" "tmr_lists s1 W1 fs1" "OSTmrTime s1 = OSTmrTime s"
      "tmr_data s1 t = (tmr_data s t)\<lparr>OSTmrState := OS_TMR_STATE_RUNNING, OSTmrMatch := D + OSTmrTime s\<rparr>" "kern_ok (kern s1)"
    using OSTmrStart_serves [OF l k assms(3), of chk] assms(4) unfolding serves_def served_def m by auto
  have inv1: "tmr_inv s1" using s1(2,5) by (auto simp: tmr_inv_def)
  have r1: "running s1 t" "expiry s1 t - OSTmrTime s1 = D" using assms(3) by (simp_all add: running_def expiry_def s1(3,4))
  have "running s2 t \<and> unat (remaining (tmr_data s2 t) (OSTmrTime s2)) = unat D - n \<and> tmr_data s2 t = tmr_data s1 t \<and>
      (\<exists>s3 ts. OSTmr_Task_update cb s2 = Some s3 \<and> distinct ts \<and> (t \<in> set ts \<longleftrightarrow> n + 1 = unat D) \<and>
          unlocks (fold (\<lambda>k. called g (tmr_data s2 k) k) ts (world (tmr_lock s2))) s3 \<and>
          tmr_data s3 t = (if n + 1 = unat D then fired (OSTmrTime s + D) (tmr_data s1 t) else tmr_data s1 t))"
    if run: "tmr_run cb t n s1 s2" and n: "n < unat D" for n s2
  proof -
    have s2: "tmr_inv s2" "tmr_data s2 t = tmr_data s1 t" "OSTmrTime s2 = OSTmrTime s + of_nat n"
      using tmr_run_keeps [OF assms(1) run inv1 r1(1)] n r1(2) s1(3) by auto
    have un: "unat (of_nat n :: u32) = n" "unat (of_nat (n + 1) :: u32) = n + 1"
      using n unsigned_less [of D, where ?'a = nat] by (simp_all only: unat_of_nat) simp_all
    then have "unat (D - of_nat n) = unat D - n"
      using n by (subst unat_sub) (simp_all add: word_le_nat_alt)
    then have rest: "unat (remaining (tmr_data s2 t) (OSTmrTime s2)) = unat D - n"
      by (simp add: remaining_def s2(2,3) s1(4) algebra_simps)
    have r2: "running s2 t" "expiry s2 t = D + OSTmrTime s" using running_eq [OF s2(2)] r1(1) s1(4) by (simp_all add: expiry_def)
    have "(D = of_nat (n + 1)) = (n + 1 = unat D)" unfolding word_unat_eq_iff un(2) by auto
    moreover have "(expiry s2 t = OSTmrTime s2 + 1) = (D = of_nat (n + 1))"
      unfolding r2(2) s2(3) by (simp add: algebra_simps)
    ultimately have due: "(expiry s2 t = OSTmrTime s2 + 1) = (n + 1 = unat D)" by simp
    have now: "OSTmrTime s2 + 1 = OSTmrTime s + D" if "n + 1 = unat D" using due that r2(2) by (simp add: add.commute)
    obtain s3 ts where s3: "OSTmr_Task_update cb s2 = Some s3" "distinct ts"
        "set ts = {t. running s2 t \<and> expiry s2 t = OSTmrTime s2 + 1}"
        "\<forall>t. tmr_data s3 t = (if t \<in> set ts then fired (OSTmrTime s2 + 1) (tmr_data s2 t) else tmr_data s2 t)"
        "unlocks (fold (\<lambda>t. called g (tmr_data s2 t) t) ts (world (tmr_lock s2))) s3"
      by (rule OSTmr_Task_update_inv [OF assms(1) s2(1)])
    have t: "t \<in> set ts \<longleftrightarrow> n + 1 = unat D" unfolding s3(3) using r2(1) due by simp
    have "tmr_data s3 t = (if n + 1 = unat D then fired (OSTmrTime s + D) (tmr_data s1 t) else tmr_data s1 t)"
      using spec [OF s3(4), of t] unfolding t s2(2) by (cases "n + 1 = unat D") (simp_all add: now)
    then show ?thesis using r2(1) rest s2(2) s3(1,2,5) t by blast
  qed
  then show ?thesis using s1(1,4) by blast
qed

lemma timer_fires_on_time_witness:
  "\<exists>s s1 s2 s3. tmr_reach log_cb s \<and> OSTmrStart False (Some 0) s = Some ((True, OS_ERR_NONE), s1) \<and>
     OSTmr_Task_update log_cb s1 = Some s2 \<and> running s2 0 \<and>
     OSTmr_Task_update log_cb s2 = Some s3 \<and> OSTmrState (tmr_data s3 0) = OS_TMR_STATE_COMPLETED \<and> 0 \<in> set (app s3)"
proof -
  obtain s where s: "tmr_reach log_cb s" "OSTmrState (tmr_data s 0) = OS_TMR_STATE_STOPPED" "OSTmrDly (tmr_data s 0) = 2"
      "OSTmrOpt (tmr_data s 0) = OS_TMR_OPT_ONE_SHOT" "OSTmrCallback (tmr_data s 0) = Some 5"
    by (rule tmr_example [OF log_cb_ok])
  have D: "2 = (if OSTmrDly (tmr_data s 0) = 0 then OSTmrPeriod (tmr_data s 0) else OSTmrDly (tmr_data s 0))" using s(3) by simp
  have u: "OSTmrState (tmr_data s 0) \<noteq> OS_TMR_STATE_UNUSED" and two_ne_0: "(2 :: u32) \<noteq> 0" using s(2) by simp_all
  obtain s1 where s1: "OSTmrStart False (Some 0) s = Some ((True, OS_ERR_NONE), s1)"
      "tmr_data s1 0 = (tmr_data s 0)\<lparr>OSTmrState := OS_TMR_STATE_RUNNING, OSTmrMatch := 2 + OSTmrTime s\<rparr>"
    and turns: "\<forall>n s2. tmr_run log_cb 0 n s1 s2 \<and> n < unat (2 :: u32) \<longrightarrow>
       running s2 0 \<and> unat (remaining (tmr_data s2 0) (OSTmrTime s2)) = unat (2 :: u32) - n \<and> tmr_data s2 0 = tmr_data s1 0 \<and>
       (\<exists>s3 ts. OSTmr_Task_update log_cb s2 = Some s3 \<and> distinct ts \<and> (0 \<in> set ts \<longleftrightarrow> n + 1 = unat (2 :: u32)) \<and>
          unlocks (fold (\<lambda>k. called log_effect (tmr_data s2 k) k) ts (world (tmr_lock s2))) s3 \<and>
          tmr_data s3 0 = (if n + 1 = unat (2 :: u32) then fired (OSTmrTime s + 2) (tmr_data s1 0) else tmr_data s1 0))"
    using timer_fires_on_time [OF log_cb_ok s(1) zero_less_numeral u D two_ne_0, of False] by blast
  obtain s2 where s2: "OSTmr_Task_update log_cb s1 = Some s2" using spec [OF spec [OF turns, of 0], of s1] tmr_run.none by fastforce
  have run: "tmr_run log_cb 0 1 s1 s2" using tmr_run.turn [OF tmr_run.none s2] by simp
  have one: "(1 :: nat) < unat (2 :: u32)" "(1 :: nat) + 1 = unat (2 :: u32)" by simp_all
  note at = mp [OF spec [OF spec [OF turns, of 1], of s2] conjI [OF run one(1)]]
  obtain s3 ts where s3: "running s2 0" "tmr_data s2 0 = tmr_data s1 0" "OSTmr_Task_update log_cb s2 = Some s3" "0 \<in> set ts"
      "unlocks (fold (\<lambda>k. called log_effect (tmr_data s2 k) k) ts (world (tmr_lock s2))) s3"
      "tmr_data s3 0 = fired (OSTmrTime s + 2) (tmr_data s1 0)"
    using at unfolding one(2) by auto
  have "OSTmrCallback (tmr_data s2 0) \<noteq> None" unfolding s3(2) s1(2) using s(5) by simp
  from logged [where d = "tmr_data s2", OF s3(4) this] have "0 \<in> set (app s3)" using s3(5) by (simp add: unlocks_def)
  moreover have "OSTmrState (tmr_data s3 0) = OS_TMR_STATE_COMPLETED" unfolding s3(6) s1(2) using s(4) by (simp add: fired_def)
  ultimately show ?thesis using s(1) s1(1) s2 s3(1,3) by blast
qed

text \<open>C29: What \<open>OSTmrStart\<close>, \<open>OSTmrStop\<close>, \<open>OSTmrDel\<close> and \<open>OSTmrRemainGet\<close> answer for a timer. In every state that clients can reach, at task
  level with the scheduler unlocked, they return, with the errors for a timer that is not in use, one that is not
  running, a stop without a callback or with an unknown option; they change only the timer they are called for, and beyond it
  only what the callback that a stop runs does; the lists stay consistent and the scheduler is unlocked again. The callbacks may
  call the kernel, as in C28, but make no timer calls. Called from an interrupt,
  whatever the state of the kernel, and with the argument checks and a null pointer, they refuse and change nothing.\<close>

theorem OSTmr_services_spec:
  assumes "callbacks_ok cb g" and "tmr_reach cb s" and "t < OS_TMR_CFG_MAX"
  shows "let x = tmr_data s t; unused = (OSTmrState x = OS_TMR_STATE_UNUSED); w = world (tmr_lock s) in
    serves (OSTmrStart chk (Some t) s) (if unused then (False, OS_ERR_TMR_INACTIVE) else (True, OS_ERR_NONE)) s
      (if unused then tmr_data s else (tmr_data s)(t := x\<lparr>OSTmrState := OS_TMR_STATE_RUNNING,
         OSTmrMatch := (if OSTmrDly x = 0 then OSTmrPeriod x else OSTmrDly x) + OSTmrTime s\<rparr>)) w \<and>
    serves (OSTmrStop chk cb (Some t) opt arg s)
      (if unused then (False, OS_ERR_TMR_INACTIVE) else if running s t then (True, stop_err opt x) else (True, OS_ERR_TMR_STOPPED)) s
      (if running s t then (tmr_data s)(t := x\<lparr>OSTmrState := OS_TMR_STATE_STOPPED\<rparr>) else tmr_data s)
      (if running s t then stop_called g opt arg x t w else w) \<and>
    serves (OSTmrDel chk (Some t) s) (if unused then (False, OS_ERR_TMR_INACTIVE) else (True, OS_ERR_NONE)) s
      (if unused then tmr_data s else (tmr_data s)(t := tmr_freed x)) w \<and>
    serves (OSTmrRemainGet chk (Some t) s) (remaining x (OSTmrTime s), if unused then OS_ERR_TMR_INACTIVE else OS_ERR_NONE) s (tmr_data s) w \<and>
    (\<forall>k. let i = s\<lparr>kern := k\<rparr> in OSIntNesting k > 0 \<longrightarrow>
       OSTmrStart chk (Some t) i = Some ((False, OS_ERR_TMR_ISR), i) \<and> OSTmrStop chk cb (Some t) opt arg i = Some ((False, OS_ERR_TMR_ISR), i) \<and>
       OSTmrDel chk (Some t) i = Some ((False, OS_ERR_TMR_ISR), i) \<and> OSTmrRemainGet chk (Some t) i = Some ((0, OS_ERR_TMR_ISR), i)) \<and>
    OSTmrStart True None s = Some ((False, OS_ERR_TMR_INVALID), s) \<and> OSTmrStop True cb None opt arg s = Some ((False, OS_ERR_TMR_INVALID), s) \<and>
    OSTmrDel True None s = Some ((False, OS_ERR_TMR_INVALID), s) \<and> OSTmrRemainGet True None s = Some ((0, OS_ERR_TMR_INVALID), s)"
proof -
  obtain W fs where l: "tmr_lists s W fs" "kern_ok (kern s)"
    using tmr_reach_inv [OF assms(1,2)] by (auto simp: tmr_inv_def)
  have "link_match OS_TMR_LINK_DLY (tmr_data s t) (OSTmrTime s) =
      (if OSTmrDly (tmr_data s t) = 0 then OSTmrPeriod (tmr_data s t) else OSTmrDly (tmr_data s t)) + OSTmrTime s"
    by (simp add: link_match_def)
  note start = OSTmrStart_serves [OF l assms(3), of chk, unfolded this]
  have ty: "OSTmrType (OSTmrTbl s t) = OS_TMR_TYPE" using tmr_listsD(3) [OF l(1) assms(3)] by (simp add: tmr_data_def)
  have isr: "OSTmrStart chk (Some t) i = Some ((False, OS_ERR_TMR_ISR), i)" "OSTmrStop chk cb (Some t) opt arg i = Some ((False, OS_ERR_TMR_ISR), i)"
    "OSTmrDel chk (Some t) i = Some ((False, OS_ERR_TMR_ISR), i)" "OSTmrRemainGet chk (Some t) i = Some ((0, OS_ERR_TMR_ISR), i)"
    if "i = s\<lparr>kern := k\<rparr>" "OSIntNesting k > 0" for i k
    using that assms(3) ty by (simp_all add: OSTmrStart_def OSTmrStop_def OSTmrDel_def OSTmrRemainGet_def tmr_def)
  have null: "OSTmrStart True None s = Some ((False, OS_ERR_TMR_INVALID), s)" "OSTmrStop True cb None opt arg s = Some ((False, OS_ERR_TMR_INVALID), s)"
    "OSTmrDel True None s = Some ((False, OS_ERR_TMR_INVALID), s)" "OSTmrRemainGet True None s = Some ((0, OS_ERR_TMR_INVALID), s)"
    by (simp_all add: OSTmrStart_def OSTmrStop_def OSTmrDel_def OSTmrRemainGet_def)
  show ?thesis unfolding Let_def
    using start OSTmrStop_serves [OF l assms(3,1), of chk opt arg] OSTmrDel_serves [OF l assms(3), of chk]
      OSTmrRemainGet_serves [OF l assms(3), of chk] null by (intro conjI allI impI isr [OF refl]) assumption+
qed

lemma OSTmr_services_spec_witness:
  "\<exists>s s'. tmr_reach log_cb s \<and> OSTmrStop True log_cb (Some 0) OS_TMR_OPT_NONE 0 s = Some ((True, OS_ERR_TMR_STOPPED), s') \<and>
     (let i = s\<lparr>kern := (kern s)\<lparr>OSIntNesting := 1\<rparr>\<rparr> in OSTmrStart True (Some 0) i = Some ((False, OS_ERR_TMR_ISR), i))"
proof -
  obtain s where s: "tmr_reach log_cb s" "OSTmrState (tmr_data s 0) = OS_TMR_STATE_STOPPED"
    by (rule tmr_example [OF log_cb_ok])
  have "\<not> running s 0" using s(2) by (simp add: running_def)
  with OSTmr_services_spec [OF log_cb_ok s(1), of 0 True OS_TMR_OPT_NONE 0] s show ?thesis
    by (auto simp: Let_def serves_def dest!: spec [of _ "(kern s)\<lparr>OSIntNesting := 1\<rparr>"])
qed

end
