(* ===== verification/Mem_Alloc.thy ===== *)
theory Mem_Alloc
  imports OS_Prelude
begin

text \<open>
  \<^verbatim>\<open>src/malloc/malloc.c\<close>: the allocator of the firmware. Each of three memory pools is cut into
  blocks of 64 bytes; a table holds, for every block, 0 when it is free and otherwise the number of
  blocks of the allocation it belongs to. The search runs from the top of the table down.
\<close>

subsection \<open>State\<close>

text \<open>The pools are numbered \<open>SRAMIN\<close>, \<open>SRAMEX\<close>, \<open>SRAMDTCM\<close>. The table of a pool is a separate array;
  \<open>ram\<close> is the memory that \<open>mymemcpy\<close> and \<open>mymemset\<close> work on.\<close>

record m_mallco_dev =
  membase :: "nat \<Rightarrow> u32"
  memmap :: "nat \<Rightarrow> nat \<Rightarrow> u32"
  memrdy :: "nat \<Rightarrow> u8"
  ram :: "u32 \<Rightarrow> u8"

abbreviation (input) SRAMBANK :: u8 where "SRAMBANK \<equiv> 3"

definition memtblsize :: "nat \<Rightarrow> u32" where
  "memtblsize b = (if b = 1 then 28912 * 1024 div 64 else 60 * 1024 div 64)"

definition memblksize :: "nat \<Rightarrow> u32" where
  "memblksize b = 64"

definition memsize :: "nat \<Rightarrow> u32" where
  "memsize b = (if b = 1 then 28912 * 1024 else 60 * 1024)"

text \<open>A pool number from 3 on indexes outside the arrays.\<close>

definition bank :: "u8 \<Rightarrow> nat option" where
  "bank memx = (if memx < SRAMBANK then Some (unat memx) else None)"

subsection \<open>Operations\<close>

fun copy_loop :: "nat \<Rightarrow> u32 \<Rightarrow> u32 \<Rightarrow> (u32 \<Rightarrow> u8) \<Rightarrow> (u32 \<Rightarrow> u8)" where
  "copy_loop 0 xdes xsrc m = m"
| "copy_loop (Suc n) xdes xsrc m = copy_loop n (xdes + 1) (xsrc + 1) (m(xdes := m xsrc))"

definition mymemcpy :: "u32 \<Rightarrow> u32 \<Rightarrow> u32 \<Rightarrow> m_mallco_dev \<Rightarrow> m_mallco_dev" where
  "mymemcpy des src n s = s\<lparr>ram := copy_loop (unat n) des src (ram s)\<rparr>"

fun set_loop :: "nat \<Rightarrow> u32 \<Rightarrow> u8 \<Rightarrow> (u32 \<Rightarrow> u8) \<Rightarrow> (u32 \<Rightarrow> u8)" where
  "set_loop 0 xs c m = m"
| "set_loop (Suc n) xs c m = set_loop n (xs + 1) c (m(xs := c))"

definition mymemset :: "u32 \<Rightarrow> u8 \<Rightarrow> u32 \<Rightarrow> m_mallco_dev \<Rightarrow> m_mallco_dev" where
  "mymemset p c count s = s\<lparr>ram := set_loop (unat count) p c (ram s)\<rparr>"

text \<open>\<open>for (i = 0; i < n; i++) memmap[memx][off + i] = v;\<close> within a table of \<open>tbl\<close> entries.\<close>

fun fill :: "nat \<Rightarrow> nat \<Rightarrow> nat \<Rightarrow> u32 \<Rightarrow> (nat \<Rightarrow> u32) \<Rightarrow> (nat \<Rightarrow> u32) option" where
  "fill tbl off 0 v m = Some m"
| "fill tbl off (Suc n) v m = (if off < tbl then fill tbl (off + 1) n v (m(off := v)) else None)"

definition set_map :: "nat \<Rightarrow> (nat \<Rightarrow> u32) \<Rightarrow> m_mallco_dev \<Rightarrow> m_mallco_dev" where
  "set_map b m s = s\<lparr>memmap := (memmap s)(b := m)\<rparr>"

text \<open>The whole table is cleared, byte by byte in the code.\<close>

definition my_mem_init :: "u8 \<Rightarrow> m_mallco_dev \<Rightarrow> m_mallco_dev option" where
  "my_mem_init memx s = do {
     b \<leftarrow> bank memx;
     m \<leftarrow> fill (unat (memtblsize b)) 0 (unat (memtblsize b)) 0 (memmap s b);
     Some ((set_map b m s)\<lparr>memrdy := (memrdy s)(b := 1)\<rparr>)
   }"

fun count_used :: "nat \<Rightarrow> (nat \<Rightarrow> u32) \<Rightarrow> u32" where
  "count_used 0 m = 0"
| "count_used (Suc n) m = count_used n m + (if m n \<noteq> 0 then 1 else 0)"

definition my_mem_perused :: "u8 \<Rightarrow> m_mallco_dev \<Rightarrow> u16 option" where
  "my_mem_perused memx s = do {
     b \<leftarrow> bank memx;
     Some (ucast (count_used (unat (memtblsize b)) (memmap s b) * 1000 div memtblsize b))
   }"

text \<open>The search: \<open>k\<close> blocks are left below, the \<open>cmemb\<close> blocks from \<open>k\<close> on are free.\<close>

fun find_run :: "(nat \<Rightarrow> u32) \<Rightarrow> u32 \<Rightarrow> nat \<Rightarrow> u32 \<Rightarrow> nat option" where
  "find_run m nmemb 0 cmemb = None"
| "find_run m nmemb (Suc k) cmemb =
     (let c = (if m k = 0 then cmemb + 1 else 0) in if c = nmemb then Some k else find_run m nmemb k c)"

definition blocks_for :: "nat \<Rightarrow> u32 \<Rightarrow> u32" where
  "blocks_for b sz = (let n = sz div memblksize b in if sz mod memblksize b \<noteq> 0 then n + 1 else n)"

definition my_mem_malloc :: "u8 \<Rightarrow> u32 \<Rightarrow> m_mallco_dev \<Rightarrow> (u32 \<times> m_mallco_dev) option" where
  "my_mem_malloc memx sz s0 = do {
     b \<leftarrow> bank memx;
     s \<leftarrow> (if memrdy s0 b = 0 then my_mem_init memx s0 else Some s0);
     if sz = 0 then Some (0xFFFFFFFF, s)
     else do {
       let nmemb = blocks_for b sz;
       case find_run (memmap s b) nmemb (unat (memtblsize b)) 0 of
         None \<Rightarrow> Some (0xFFFFFFFF, s)
       | Some off \<Rightarrow> do {
           m \<leftarrow> fill (unat (memtblsize b)) off (unat nmemb) nmemb (memmap s b);
           Some (of_nat off * memblksize b, set_map b m s)
         }
     }
   }"

definition my_mem_free :: "u8 \<Rightarrow> u32 \<Rightarrow> m_mallco_dev \<Rightarrow> (u8 \<times> m_mallco_dev) option" where
  "my_mem_free memx offset s = do {
     b \<leftarrow> bank memx;
     if memrdy s b = 0 then do { s1 \<leftarrow> my_mem_init memx s; Some (1, s1) }
     else if offset < memsize b
     then do {
       let index = unat (offset div memblksize b);
       let nmemb = sint (memmap s b index);
       m \<leftarrow> fill (unat (memtblsize b)) index (nat nmemb) 0 (memmap s b);
       Some (0, set_map b m s)
     }
     else Some (2, s)
   }"

definition myfree :: "u8 \<Rightarrow> u32 \<Rightarrow> m_mallco_dev \<Rightarrow> m_mallco_dev option" where
  "myfree memx p s = (if p = 0 then Some s
     else do {
       b \<leftarrow> bank memx;
       r \<leftarrow> my_mem_free memx (p - membase s b) s;
       Some (snd r)
     })"

text \<open>Result: the address, 0 for \<open>NULL\<close>.\<close>

definition mymalloc :: "u8 \<Rightarrow> u32 \<Rightarrow> m_mallco_dev \<Rightarrow> (u32 \<times> m_mallco_dev) option" where
  "mymalloc memx sz s = do {
     b \<leftarrow> bank memx;
     r \<leftarrow> my_mem_malloc memx sz s;
     if fst r = 0xFFFFFFFF then Some (0, snd r) else Some (membase (snd r) b + fst r, snd r)
   }"

definition myrealloc :: "u8 \<Rightarrow> u32 \<Rightarrow> u32 \<Rightarrow> m_mallco_dev \<Rightarrow> (u32 \<times> m_mallco_dev) option" where
  "myrealloc memx p sz s = do {
     b \<leftarrow> bank memx;
     r \<leftarrow> my_mem_malloc memx sz s;
     if fst r = 0xFFFFFFFF then Some (0, snd r)
     else do {
       let s1 = mymemcpy (membase (snd r) b + fst r) p sz (snd r);
       s2 \<leftarrow> myfree memx p s1;
       Some (membase s2 b + fst r, s2)
     }
   }"

end
