(* ===== verification/Mem_Alloc_Proofs.thy ===== *)
theory Mem_Alloc_Proofs
  imports Mem_Alloc
begin

text \<open>
  The allocator hands out disjoint runs of blocks. \<open>runs_ok\<close> relates the table of a pool to the set
  of its live allocations, as pairs of first block and number of blocks. An allocation is the topmost
  free run that is long enough, it fails only when there is none, and freeing gives back exactly the
  blocks of one allocation. The locale \<open>run_allocator\<close> is what a client may rely on.
\<close>

subsection \<open>Tables and live allocations\<close>

definition apart :: "nat \<times> nat \<Rightarrow> nat \<times> nat \<Rightarrow> bool" where
  "apart r q \<longleftrightarrow> fst r + snd r \<le> fst q \<or> fst q + snd q \<le> fst r"

definition covers :: "nat \<times> nat \<Rightarrow> nat \<Rightarrow> bool" where
  "covers r j \<longleftrightarrow> fst r \<le> j \<and> j < fst r + snd r"

definition runs_ok :: "nat \<Rightarrow> (nat \<Rightarrow> u32) \<Rightarrow> (nat \<times> nat) set \<Rightarrow> bool" where
  "runs_ok tbl m A \<longleftrightarrow> tbl < 2 ^ 31 \<and> (\<forall>r \<in> A. 0 < snd r \<and> fst r + snd r \<le> tbl) \<and>
     (\<forall>r \<in> A. \<forall>q \<in> A. r \<noteq> q \<longrightarrow> apart r q) \<and>
     (\<forall>r \<in> A. \<forall>j. covers r j \<longrightarrow> m j = of_nat (snd r)) \<and>
     (\<forall>j < tbl. (\<forall>r \<in> A. \<not> covers r j) \<longrightarrow> m j = 0)"

definition zeros :: "(nat \<Rightarrow> u32) \<Rightarrow> nat \<Rightarrow> nat \<Rightarrow> bool" where
  "zeros m r n \<longleftrightarrow> (\<forall>j. r \<le> j \<and> j < r + n \<longrightarrow> m j = 0)"

lemma apart_covers: "apart r q \<Longrightarrow> covers r j \<Longrightarrow> \<not> covers q j"
  by (auto simp: apart_def covers_def)

lemma apart_iff:
  assumes "0 < snd r" "0 < snd q"
  shows "apart r q \<longleftrightarrow> (\<forall>j. covers r j \<longrightarrow> \<not> covers q j)"
proof
  assume *: "\<forall>j. covers r j \<longrightarrow> \<not> covers q j"
  have "\<not> (covers r (fst q) \<and> covers q (fst q))" "\<not> (covers r (fst r) \<and> covers q (fst r))" using * by blast+
  then show "apart r q" using assms by (auto simp: apart_def covers_def)
qed (blast dest: apart_covers)

lemma of_nat_u32: "n < 2 ^ 31 \<Longrightarrow> unat (of_nat n :: u32) = n" "n < 2 ^ 31 \<Longrightarrow> sint (of_nat n :: u32) = int n"
proof -
  assume n: "n < 2 ^ 31"
  then have "n < 4294967296" by simp
  then show u: "unat (of_nat n :: u32) = n" by (subst unat_of_nat) simp
  then have "uint (of_nat n :: u32) = int n" by (simp only: uint_nat)
  then show "sint (of_nat n :: u32) = int n"
    unfolding sint_uint using n by (simp add: signed_take_bit_int_eq_self)
qed

lemma runs_live:
  assumes "runs_ok tbl m A" "r \<in> A" "covers r j"
  shows "m j = of_nat (snd r)" "m j \<noteq> 0" "j < tbl"
proof -
  have b: "0 < snd r" "fst r + snd r \<le> tbl" "tbl < 2 ^ 31" and v: "m j = of_nat (snd r)"
    using assms by (auto simp: runs_ok_def)
  then have "unat (m j) = snd r" using of_nat_u32(1) [of "snd r"] by simp
  with b show "m j \<noteq> 0" by auto
  show "m j = of_nat (snd r)" by (rule v)
  show "j < tbl" using b assms(3) by (simp add: covers_def)
qed

lemma zeros_iff:
  assumes ok: "runs_ok tbl m A" and n: "0 < n" "k + n \<le> tbl"
  shows "zeros m k n \<longleftrightarrow> (\<forall>q \<in> A. apart (k, n) q)"
proof
  assume z: "zeros m k n"
  show "\<forall>q \<in> A. apart (k, n) q"
  proof
    fix q assume q: "q \<in> A"
    have "\<not> covers q j" if "covers (k, n) j" for j
      using z that runs_live(2) [OF ok q, of j] by (auto simp: zeros_def covers_def)
    moreover have "0 < snd q" using ok q by (simp add: runs_ok_def)
    ultimately show "apart (k, n) q" using n(1) by (simp add: apart_iff)
  qed
next
  assume a: "\<forall>q \<in> A. apart (k, n) q"
  show "zeros m k n"
    unfolding zeros_def
  proof (intro allI impI)
    fix j assume j: "k \<le> j \<and> j < k + n"
    then have "\<forall>q \<in> A. \<not> covers q j" using a apart_covers [of "(k, n)" _ j] by (simp add: covers_def)
    moreover have "j < tbl" using j n by simp
    ultimately show "m j = 0" using ok by (simp add: runs_ok_def)
  qed
qed

subsection \<open>Filling and searching\<close>

lemma fill_eq:
  "off + n \<le> tbl \<Longrightarrow> fill tbl off n v m = Some (\<lambda>j. if covers (off, n) j then v else m j)"
proof (induction n arbitrary: off m)
  case 0
  have "\<not> covers (off, 0) j" for j by (simp add: covers_def)
  then show ?case by simp
next
  case (Suc n)
  have *: "(if covers (Suc off, n) j then v else (m(off := v)) j) = (if covers (off, Suc n) j then v else m j)" for j
    by (auto simp: covers_def)
  show ?case using Suc.IH [of "Suc off" "m(off := v)"] Suc.prems by (simp add: * del: fun_upd_apply)
qed

lemma find_run_spec:
  assumes "0 < nmemb" "c < nmemb" "zeros m k (unat c)" "k + unat c \<le> tbl" "k + unat c = tbl \<or> m (k + unat c) \<noteq> 0"
    and "\<And>r. k \<le> r \<Longrightarrow> r + unat nmemb \<le> tbl \<Longrightarrow> \<not> zeros m r (unat nmemb)"
  shows "case find_run m nmemb k c of
      None \<Rightarrow> \<forall>r. r + unat nmemb \<le> tbl \<longrightarrow> \<not> zeros m r (unat nmemb)
    | Some off \<Rightarrow> off + unat nmemb \<le> tbl \<and> zeros m off (unat nmemb) \<and>
        (\<forall>r > off. r + unat nmemb \<le> tbl \<longrightarrow> \<not> zeros m r (unat nmemb))"
  using assms
proof (induction k arbitrary: c)
  case 0
  then show ?case by simp
next
  case (Suc k)
  have n: "0 < unat nmemb" "unat c < unat nmemb"
    using Suc.prems(1,2) by (simp_all add: word_less_nat_alt)
  show ?case
  proof (cases "m k = 0")
    case True
    have c1: "unat (c + 1) = unat c + 1"
      using n(2) unsigned_less [of nmemb, where ?'a = nat] by (simp add: unat_word_ariths)
    have z: "zeros m k (unat (c + 1))"
      unfolding zeros_def c1
    proof (intro allI impI)
      show "m j = 0" if "k \<le> j \<and> j < k + (unat c + 1)" for j
        using that Suc.prems(3) True by (cases "j = k") (auto simp: zeros_def)
    qed
    show ?thesis
    proof (cases "c + 1 = nmemb")
      case eq: True
      then show ?thesis
        using z Suc.prems(4,6) c1 True by (auto simp: Let_def)
    next
      case False
      then have lt: "c + 1 < nmemb" using c1 n(2) by (simp add: word_less_nat_alt word_unat_eq_iff)
      have "\<not> zeros m r (unat nmemb)" if "k \<le> r" "r + unat nmemb \<le> tbl" for r
      proof (cases "r = k")
        case rk: True
        have "k + unat (c + 1) < k + unat nmemb" using lt by (simp add: word_less_nat_alt)
        then have "\<not> zeros m k (unat nmemb)"
          using Suc.prems(5) that rk c1 unfolding zeros_def by (metis add_Suc_right add_Suc_shift add.commute le_add1 not_less plus_1_eq_Suc)
        then show ?thesis by (simp add: rk)
      qed (use that Suc.prems(6) [of r] in simp)
      with Suc.IH [OF Suc.prems(1) lt z] Suc.prems(4,5) c1 True False show ?thesis by simp
    qed
  next
    case False
    have "\<not> zeros m r (unat nmemb)" if "k \<le> r" "r + unat nmemb \<le> tbl" for r
      using that False n(1) Suc.prems(6) [of r] by (cases "r = k") (auto simp: zeros_def)
    moreover have "zeros m k (unat 0)" by (auto simp: zeros_def)
    moreover have "0 \<noteq> nmemb" using n(1) by auto
    ultimately show ?thesis
      using Suc.IH [of 0] False Suc.prems(1,4) by simp
  qed
qed

lemma find_run_top:
  assumes ok: "runs_ok tbl m A" and n: "0 < nmemb"
  shows "case find_run m nmemb tbl 0 of
      None \<Rightarrow> \<forall>r. r + unat nmemb \<le> tbl \<longrightarrow> (\<exists>q \<in> A. \<not> apart (r, unat nmemb) q)
    | Some off \<Rightarrow> off + unat nmemb \<le> tbl \<and> (\<forall>q \<in> A. apart (off, unat nmemb) q) \<and>
        (\<forall>r > off. r + unat nmemb \<le> tbl \<longrightarrow> (\<exists>q \<in> A. \<not> apart (r, unat nmemb) q))"
proof -
  have n': "0 < unat nmemb" using n by (simp add: word_less_nat_alt)
  have "case find_run m nmemb tbl 0 of
      None \<Rightarrow> \<forall>r. r + unat nmemb \<le> tbl \<longrightarrow> \<not> zeros m r (unat nmemb)
    | Some off \<Rightarrow> off + unat nmemb \<le> tbl \<and> zeros m off (unat nmemb) \<and>
        (\<forall>r > off. r + unat nmemb \<le> tbl \<longrightarrow> \<not> zeros m r (unat nmemb))"
    by (rule find_run_spec) (use n n' in \<open>auto simp: zeros_def\<close>)
  then show ?thesis using zeros_iff [OF ok n'] by (auto split: option.splits)
qed

lemma runs_insert:
  assumes ok: "runs_ok tbl m A" and n: "0 < n" "k + n \<le> tbl" and a: "\<forall>q \<in> A. apart (k, n) q"
  shows "runs_ok tbl (\<lambda>j. if covers (k, n) j then of_nat n else m j) (insert (k, n) A)" "(k, n) \<notin> A"
proof -
  have sym: "apart q (k, n)" if "q \<in> A" for q using a that by (auto simp: apart_def)
  have nc: "\<not> covers (k, n) j" if "q \<in> A" "covers q j" for q j using apart_covers [OF sym] that by blast
  show "runs_ok tbl (\<lambda>j. if covers (k, n) j then of_nat n else m j) (insert (k, n) A)"
    using ok n a sym nc by (auto simp: runs_ok_def)
  show "(k, n) \<notin> A" using a n(1) by (auto simp: apart_def)
qed

lemma runs_remove:
  assumes ok: "runs_ok tbl m A" and r: "(k, n) \<in> A"
  shows "runs_ok tbl (\<lambda>j. if covers (k, n) j then 0 else m j) (A - {(k, n)})"
proof -
  have "\<not> covers (k, n) j" if "q \<in> A" "q \<noteq> (k, n)" "covers q j" for q j
    using ok r that apart_covers [of q "(k, n)" j] by (auto simp: runs_ok_def)
  then show ?thesis using ok by (auto simp: runs_ok_def)
qed

subsection \<open>The operations on a pool\<close>

text \<open>A pool that was never used counts as empty: the first call initialises it.\<close>

definition pool_ok :: "nat \<Rightarrow> m_mallco_dev \<Rightarrow> (nat \<times> nat) set \<Rightarrow> bool" where
  "pool_ok b s A \<longleftrightarrow> (if memrdy s b = 0 then A = {} else runs_ok (unat (memtblsize b)) (memmap s b) A)"

definition other_pools :: "nat \<Rightarrow> m_mallco_dev \<Rightarrow> m_mallco_dev \<Rightarrow> bool" where
  "other_pools b s s' \<longleftrightarrow> (\<forall>i. i \<noteq> b \<longrightarrow> memmap s' i = memmap s i \<and> memrdy s' i = memrdy s i) \<and>
     membase s' = membase s \<and> ram s' = ram s"

abbreviation tbl_len :: "nat \<Rightarrow> nat" where
  "tbl_len b \<equiv> unat (memtblsize b)"

lemma tbl_len: "tbl_len b = (if b = 1 then 462592 else 960)"
  by (simp add: memtblsize_def)

lemma memsize_blocks: "unat (memsize b) = 64 * tbl_len b"
  by (simp add: memsize_def memtblsize_def)

lemma runs_empty: "(\<And>j. j < tbl \<Longrightarrow> m j = 0) \<Longrightarrow> tbl < 2 ^ 31 \<Longrightarrow> runs_ok tbl m {}"
  by (simp add: runs_ok_def)

lemma my_mem_init_ok:
  assumes "bank memx = Some b"
  shows "\<exists>s'. my_mem_init memx s = Some s' \<and> memrdy s' b \<noteq> 0 \<and> runs_ok (tbl_len b) (memmap s' b) {} \<and> other_pools b s s'"
proof -
  let ?m = "\<lambda>j. if covers (0, tbl_len b) j then 0 else memmap s b j"
  have f: "fill (tbl_len b) 0 (tbl_len b) 0 (memmap s b) = Some ?m" by (rule fill_eq) simp
  have "runs_ok (tbl_len b) ?m {}" by (rule runs_empty) (simp_all add: covers_def tbl_len)
  then show ?thesis
    using assms f by (intro exI [of _ "(set_map b ?m s)\<lparr>memrdy := (memrdy s)(b := 1)\<rparr>"])
      (simp add: my_mem_init_def set_map_def other_pools_def)
qed

lemma pool_start:
  assumes "bank memx = Some b" "pool_ok b s A"
  shows "\<exists>s1. (if memrdy s b = 0 then my_mem_init memx s else Some s) = Some s1 \<and> memrdy s1 b \<noteq> 0 \<and>
    runs_ok (tbl_len b) (memmap s1 b) A \<and> other_pools b s s1"
  using my_mem_init_ok [OF assms(1), of s] assms(2) by (auto simp: pool_ok_def other_pools_def)

lemma blocks_for_spec:
  assumes "sz \<noteq> 0"
  shows "unat sz \<le> 64 * unat (blocks_for b sz)" "64 * unat (blocks_for b sz) < unat sz + 64" "0 < blocks_for b sz"
proof -
  have dv: "unat (sz div 64) = unat sz div 64" "unat (sz mod 64) = unat sz mod 64"
    by (simp_all add: unat_div_distrib unat_mod_distrib)
  have lt: "unat sz < 4294967296" using unsigned_less [of sz, where ?'a = nat] by simp
  have pos: "0 < unat sz" using assms by (simp add: unat_gt_0)
  have n: "unat (blocks_for b sz) = unat sz div 64 + (if unat sz mod 64 = 0 then 0 else 1)"
  proof (cases "sz mod 64 = 0")
    case True
    then have "unat sz mod 64 = 0" using dv(2) by simp
    with True dv(1) show ?thesis by (simp add: blocks_for_def memblksize_def)
  next
    case False
    then have "unat sz mod 64 \<noteq> 0" using dv(2) by (metis unat_eq_zero)
    moreover have "unat (sz div 64 + 1) = unat sz div 64 + 1"
      using lt by (simp add: unat_word_ariths dv)
    ultimately show ?thesis using False by (simp add: blocks_for_def memblksize_def)
  qed
  show "unat sz \<le> 64 * unat (blocks_for b sz)" "64 * unat (blocks_for b sz) < unat sz + 64"
    unfolding n by (auto; presburger)+
  then show "0 < blocks_for b sz" using pos by (cases "blocks_for b sz = 0") (auto simp: word_gt_0)
qed

lemma my_mem_malloc_ok:
  assumes b: "bank memx = Some b" and ok: "pool_ok b s A"
  shows "\<exists>off s'. my_mem_malloc memx sz s = Some (off, s') \<and> memrdy s' b \<noteq> 0 \<and> other_pools b s s' \<and>
    (if sz = 0 then off = 0xFFFFFFFF \<and> pool_ok b s' A
     else \<exists>n. unat sz \<le> 64 * n \<and> 64 * n < unat sz + 64 \<and>
       ((off = 0xFFFFFFFF \<and> pool_ok b s' A \<and> (\<forall>r. r + n \<le> tbl_len b \<longrightarrow> (\<exists>q \<in> A. \<not> apart (r, n) q))) \<or>
        (\<exists>k. unat off = 64 * k \<and> k + n \<le> tbl_len b \<and> (\<forall>q \<in> A. apart (k, n) q) \<and>
          (\<forall>r > k. r + n \<le> tbl_len b \<longrightarrow> (\<exists>q \<in> A. \<not> apart (r, n) q)) \<and> (k, n) \<notin> A \<and> pool_ok b s' (insert (k, n) A))))"
proof -
  obtain s1 where s1: "(if memrdy s b = 0 then my_mem_init memx s else Some s) = Some s1" "memrdy s1 b \<noteq> 0"
    "runs_ok (tbl_len b) (memmap s1 b) A" "other_pools b s s1"
    using pool_start [OF b ok] by blast
  have p1: "pool_ok b s1 A" using s1 by (simp add: pool_ok_def)
  show ?thesis
  proof (cases "sz = 0")
    case True
    then show ?thesis using b s1 p1 by (simp add: my_mem_malloc_def)
  next
    case False
    note n = blocks_for_spec [OF False, of b]
    let ?n = "unat (blocks_for b sz)"
    note top = find_run_top [OF s1(3) n(3)]
    show ?thesis
    proof (cases "find_run (memmap s1 b) (blocks_for b sz) (tbl_len b) 0")
      case None
      then have "my_mem_malloc memx sz s = Some (0xFFFFFFFF, s1)" using b s1(1) False by (simp add: my_mem_malloc_def)
      then show ?thesis
        using False None top n s1(2,4) p1 by (intro exI [of _ "0xFFFFFFFF"] exI [of _ s1]) auto
    next
      case (Some k)
      have k: "k + ?n \<le> tbl_len b" "\<forall>q \<in> A. apart (k, ?n) q" "\<forall>r > k. r + ?n \<le> tbl_len b \<longrightarrow> (\<exists>q \<in> A. \<not> apart (r, ?n) q)"
        using top Some by auto
      let ?m = "\<lambda>j. if covers (k, ?n) j then blocks_for b sz else memmap s1 b j" and ?s = "\<lambda>m. set_map b m s1"
      have n0: "0 < ?n" using n(3) by (simp add: word_less_nat_alt)
      have off: "unat (of_nat k * memblksize b) = 64 * k"
      proof -
        have "k \<le> 462592" using k(1) tbl_len [of b] by (auto split: if_splits)
        then have "unat (of_nat k :: u32) = k" by (intro of_nat_u32) simp
        with \<open>k \<le> 462592\<close> show ?thesis by (simp add: memblksize_def unat_word_ariths)
      qed
      have "my_mem_malloc memx sz s = Some (of_nat k * memblksize b, ?s ?m)"
        using b s1(1) False Some fill_eq [OF k(1), of "blocks_for b sz" "memmap s1 b"] by (simp add: my_mem_malloc_def Let_def)
      moreover have "pool_ok b (?s ?m) (insert (k, ?n) A)"
        using runs_insert(1) [OF s1(3) n0 k(1,2), unfolded of_nat_unat ucast_id] s1(2) by (simp add: pool_ok_def set_map_def)
      moreover have "other_pools b s (?s ?m)" "memrdy (?s ?m) b \<noteq> 0"
        using s1(2,4) by (simp_all add: other_pools_def set_map_def)
      ultimately show ?thesis
        using off n k runs_insert(2) [OF s1(3) n0 k(1,2)] False
        by (intro exI [of _ "of_nat k * memblksize b"] exI [of _ "?s ?m"]) auto
    qed
  qed
qed

lemma my_mem_free_ok:
  assumes b: "bank memx = Some b" and ok: "pool_ok b s A" and r: "(k, n) \<in> A" and off: "unat off = 64 * k"
  shows "\<exists>s'. my_mem_free memx off s = Some (0, s') \<and> memrdy s' b \<noteq> 0 \<and> other_pools b s s' \<and> pool_ok b s' (A - {(k, n)})"
proof -
  have rdy: "memrdy s b \<noteq> 0" and ro: "runs_ok (tbl_len b) (memmap s b) A"
    using ok r by (auto simp: pool_ok_def split: if_splits)
  have n: "0 < n" "k + n \<le> tbl_len b" "tbl_len b < 2 ^ 31" using ro r by (auto simp: runs_ok_def)
  have v: "memmap s b k = of_nat n" using runs_live(1) [OF ro r, of k] n(1) by (simp add: covers_def)
  have idx: "unat (off div memblksize b) = k" by (simp add: memblksize_def unat_div_distrib off)
  have lt: "off < memsize b" using off n memsize_blocks [of b] by (simp add: word_less_nat_alt)
  have "sint (memmap s b k) = int n" unfolding v by (rule of_nat_u32(2)) (use n in simp)
  then have "my_mem_free memx off s = Some (0, set_map b (\<lambda>j. if covers (k, n) j then 0 else memmap s b j) s)"
    using b rdy lt idx fill_eq [OF n(2), of 0 "memmap s b"] by (simp add: my_mem_free_def)
  then show ?thesis
    using rdy runs_remove [OF ro r] by (simp add: pool_ok_def set_map_def other_pools_def)
qed

subsection \<open>The interface to clients\<close>

text \<open>What a client of a pool may rely on, over the set of its live allocations.\<close>

locale run_allocator =
  fixes inv :: "'s \<Rightarrow> (nat \<times> nat) set \<Rightarrow> bool"
    and alloc :: "u32 \<Rightarrow> 's \<Rightarrow> (u32 \<times> 's) option"
    and free :: "u32 \<Rightarrow> 's \<Rightarrow> (u8 \<times> 's) option"
    and len :: nat
  assumes alloc_law: "inv s A \<Longrightarrow> \<exists>off s'. alloc sz s = Some (off, s') \<and>
      (if off = 0xFFFFFFFF then inv s' A
       else \<exists>k n. unat off = 64 * k \<and> unat sz \<le> 64 * n \<and> k + n \<le> len \<and> (k, n) \<notin> A \<and> (\<forall>q \<in> A. apart (k, n) q) \<and>
         inv s' (insert (k, n) A))"
    and free_law: "inv s A \<Longrightarrow> (k, n) \<in> A \<Longrightarrow> unat off = 64 * k \<Longrightarrow>
      \<exists>s'. free off s = Some (0, s') \<and> inv s' (A - {(k, n)})"
begin

lemma alloc_free:
  assumes "inv s A" "alloc sz s = Some (off, s1)" "off \<noteq> 0xFFFFFFFF"
  shows "\<exists>s2. free off s1 = Some (0, s2) \<and> inv s2 A"
proof -
  obtain k n where r: "unat off = 64 * k" "(k, n) \<notin> A" "inv s1 (insert (k, n) A)"
    using alloc_law [OF assms(1), of sz] assms(2,3) by auto
  have "(k, n) \<in> insert (k, n) A" by simp
  from free_law [OF r(3) this r(1)] r(2) show ?thesis by simp
qed

text \<open>A second allocation does not touch the first.\<close>

lemma alloc_alloc:
  assumes "inv s A" "alloc sz s = Some (off, s1)" "off \<noteq> 0xFFFFFFFF" "alloc sz' s1 = Some (off', s2)" "off' \<noteq> 0xFFFFFFFF"
  shows "unat off + unat sz \<le> unat off' \<or> unat off' + unat sz' \<le> unat off"
proof -
  obtain k n where r: "unat off = 64 * k" "unat sz \<le> 64 * n" "inv s1 (insert (k, n) A)"
    using alloc_law [OF assms(1), of sz] assms(2,3) by auto
  obtain k' n' where r': "unat off' = 64 * k'" "unat sz' \<le> 64 * n'" "\<forall>q \<in> insert (k, n) A. apart (k', n') q"
    using alloc_law [OF r(3), of sz'] assms(4,5) by auto
  then have "k' + n' \<le> k \<or> k + n \<le> k'" by (auto simp: apart_def)
  then show ?thesis using r(1,2) r'(1,2) by auto
qed

end

lemma off_neq: "unat (off :: u32) = 64 * k \<Longrightarrow> off \<noteq> 0xFFFFFFFF"
proof
  assume "unat off = 64 * k" "off = 0xFFFFFFFF"
  then have "64 * k = 4294967295" by simp
  then show False by presburger
qed

lemma pool_allocator:
  assumes b: "bank memx = Some b"
  shows "run_allocator (pool_ok b) (my_mem_malloc memx) (my_mem_free memx) (tbl_len b)"
proof
  show "\<exists>s'. my_mem_free memx off s = Some (0, s') \<and> pool_ok b s' (A - {(k, n)})"
    if "pool_ok b s A" "(k, n) \<in> A" "unat off = 64 * k" for s A k n off
    using my_mem_free_ok [OF b that] by blast
  fix s A sz assume ok: "pool_ok b s A"
  show "\<exists>off s'. my_mem_malloc memx sz s = Some (off, s') \<and>
      (if off = 0xFFFFFFFF then pool_ok b s' A
       else \<exists>k n. unat off = 64 * k \<and> unat sz \<le> 64 * n \<and> k + n \<le> tbl_len b \<and> (k, n) \<notin> A \<and> (\<forall>q \<in> A. apart (k, n) q) \<and>
         pool_ok b s' (insert (k, n) A))"
  proof (cases "sz = 0")
    case True
    then show ?thesis using my_mem_malloc_ok [OF b ok, of sz] by auto
  next
    case False
    then obtain off s' n where r: "my_mem_malloc memx sz s = Some (off, s')" "unat sz \<le> 64 * n"
      "(off = 0xFFFFFFFF \<and> pool_ok b s' A) \<or> (\<exists>k. unat off = 64 * k \<and> k + n \<le> tbl_len b \<and> (\<forall>q \<in> A. apart (k, n) q) \<and>
         (k, n) \<notin> A \<and> pool_ok b s' (insert (k, n) A))"
      using my_mem_malloc_ok [OF b ok, of sz] by auto
    show ?thesis
      by (rule exI [of _ off], rule exI [of _ s']) (use r off_neq [of off] in auto)
  qed
qed

lemma banks: "bank 0 = Some 0" "bank 1 = Some 1" "bank 2 = Some 2"
  by (simp_all add: bank_def)

interpretation sramin: run_allocator "pool_ok 0" "my_mem_malloc 0" "my_mem_free 0" "tbl_len 0"
  by (rule pool_allocator) (simp add: banks)

interpretation sramex: run_allocator "pool_ok 1" "my_mem_malloc 1" "my_mem_free 1" "tbl_len 1"
  by (rule pool_allocator) (simp add: banks)

interpretation sramdtcm: run_allocator "pool_ok 2" "my_mem_malloc 2" "my_mem_free 2" "tbl_len 2"
  by (rule pool_allocator) (simp add: banks)

subsection \<open>The properties\<close>

text \<open>C30: \<open>my_mem_malloc\<close> on a pool whose live allocations are the runs of blocks \<open>A\<close>: it always returns.
  For size 0 it reports failure. Otherwise, with \<open>n\<close> the number of 64-byte blocks that the size needs,
  either it reports failure, keeps the allocations, and there is indeed no run of \<open>n\<close> free blocks in the
  pool; or it returns the byte offset of such a run, apart from every live allocation and the topmost
  one there is, and exactly this run is added. The other pools and the memory are left alone.\<close>
theorem my_mem_malloc_spec:
  assumes "bank memx = Some b" and "pool_ok b s A"
  shows "\<exists>off s'. my_mem_malloc memx sz s = Some (off, s') \<and> memrdy s' b \<noteq> 0 \<and> other_pools b s s' \<and>
    (if sz = 0 then off = 0xFFFFFFFF \<and> pool_ok b s' A
     else \<exists>n. unat sz \<le> 64 * n \<and> 64 * n < unat sz + 64 \<and>
       ((off = 0xFFFFFFFF \<and> pool_ok b s' A \<and> (\<forall>r. r + n \<le> tbl_len b \<longrightarrow> (\<exists>q \<in> A. \<not> apart (r, n) q))) \<or>
        (\<exists>k. unat off = 64 * k \<and> k + n \<le> tbl_len b \<and> (\<forall>q \<in> A. apart (k, n) q) \<and>
          (\<forall>r > k. r + n \<le> tbl_len b \<longrightarrow> (\<exists>q \<in> A. \<not> apart (r, n) q)) \<and> (k, n) \<notin> A \<and> pool_ok b s' (insert (k, n) A))))"
  by (rule my_mem_malloc_ok [OF assms])

definition pool_sample :: m_mallco_dev where
  "pool_sample = \<lparr>membase = (\<lambda>b. if b = 0 then 0x20020000 else if b = 1 then 0xC01F4000 else 0x20000000),
     memmap = (\<lambda>_ _. 7), memrdy = (\<lambda>_. 0), ram = (\<lambda>_. 0)\<rparr>"

lemma pool_sample: "pool_ok 0 pool_sample {}"
  by (simp add: pool_ok_def pool_sample_def)

theorem my_mem_malloc_spec_witness:
  "\<exists>off s'. my_mem_malloc 0 100 pool_sample = Some (off, s') \<and> unat off = 64 * 958 \<and> pool_ok 0 s' {(958, 2)}"
proof -
  have t: "tbl_len 0 = 960" by (simp add: tbl_len)
  obtain off s' n where r: "my_mem_malloc 0 100 pool_sample = Some (off, s')" "100 \<le> 64 * n" "64 * n < 164" and
    c: "(off = 0xFFFFFFFF \<and> pool_ok 0 s' {} \<and> (\<forall>r. r + n \<le> tbl_len 0 \<longrightarrow> (\<exists>q \<in> {}. \<not> apart (r, n) q))) \<or>
        (\<exists>k. unat off = 64 * k \<and> k + n \<le> tbl_len 0 \<and> (\<forall>r > k. r + n \<le> tbl_len 0 \<longrightarrow> (\<exists>q \<in> {}. \<not> apart (r, n) q)) \<and>
          pool_ok 0 s' (insert (k, n) {}))"
    using my_mem_malloc_spec [OF banks(1) pool_sample, of 100] by auto
  have n: "n = 2" using r(2,3) by presburger
  have "0 + n \<le> tbl_len 0" by (simp add: n t)
  then obtain k where k: "unat off = 64 * k" "k + 2 \<le> 960" "\<forall>r > k. \<not> r + 2 \<le> (960::nat)" "pool_ok 0 s' {(k, 2)}"
    using c unfolding t n by blast
  have "k = 958" using k(2) k(3) [rule_format, of 958] by (cases "k < 958") auto
  with k r(1) show ?thesis by blast
qed

text \<open>C31: What \<open>mymalloc\<close> gives and \<open>myfree\<close> takes back. When the pool does not wrap around the address space,
  a pointer other than \<open>NULL\<close> is the start of a part of the pool large enough for the request and apart from
  every live allocation; giving it to \<open>myfree\<close> brings back the live allocations there were before.\<close>
theorem mymalloc_myfree:
  assumes b: "bank memx = Some b" and ok: "pool_ok b s A" and base: "0 < membase s b" "unat (membase s b) + 64 * tbl_len b \<le> 2 ^ 32"
  shows "\<exists>p s1. mymalloc memx sz s = Some (p, s1) \<and> membase s1 = membase s \<and> ram s1 = ram s \<and>
    (if p = 0 then pool_ok b s1 A
     else (\<exists>k n. unat p = unat (membase s b) + 64 * k \<and> unat sz \<le> 64 * n \<and> k + n \<le> tbl_len b \<and> (\<forall>q \<in> A. apart (k, n) q)) \<and>
       (\<exists>s2. myfree memx p s1 = Some s2 \<and> pool_ok b s2 A))"
proof -
  obtain off s1 where r: "my_mem_malloc memx sz s = Some (off, s1)" "other_pools b s s1"
    using my_mem_malloc_ok [OF b ok, of sz] by blast
  have mb: "membase s1 = membase s" "ram s1 = ram s" using r(2) by (simp_all add: other_pools_def)
  note al = run_allocator.alloc_law [OF pool_allocator [OF b] ok, of sz]
  show ?thesis
  proof (cases "off = 0xFFFFFFFF")
    case True
    then show ?thesis using al r(1) b mb by (simp add: mymalloc_def)
  next
    case False
    then obtain k n where k: "unat off = 64 * k" "unat sz \<le> 64 * n" "k + n \<le> tbl_len b" "(k, n) \<notin> A" "\<forall>q \<in> A. apart (k, n) q"
      "pool_ok b s1 (insert (k, n) A)"
      using al r(1) by auto
    have n0: "0 < n" using k(6) by (auto simp: pool_ok_def runs_ok_def split: if_splits)
    let ?p = "membase s b + off"
    have "unat (membase s b) + unat off < 2 ^ 32" using base(2) k(1,3) n0 by linarith
    then have p: "unat ?p = unat (membase s b) + 64 * k" by (simp add: unat_word_ariths k(1))
    have "0 < unat (membase s b)" using base(1) by (simp add: word_less_nat_alt)
    then have p0: "?p \<noteq> 0" using p by (auto simp: unat_eq_zero)
    have "?p - membase s1 b = off" by (simp add: mb)
    moreover obtain s2 where "my_mem_free memx off s1 = Some (0, s2)" "pool_ok b s2 A"
      using run_allocator.alloc_free [OF pool_allocator [OF b] ok r(1) False] by blast
    ultimately have "myfree memx ?p s1 = Some s2 \<and> pool_ok b s2 A" using p0 b by (simp add: myfree_def)
    moreover have "mymalloc memx sz s = Some (?p, s1)" using r(1) False b mb by (simp add: mymalloc_def)
    ultimately show ?thesis using p0 p k(2,3,5) mb by (intro exI [of _ ?p] exI [of _ s1]) auto
  qed
qed

theorem mymalloc_myfree_witness:
  "\<exists>p s1. mymalloc 0 100 pool_sample = Some (p, s1) \<and>
    (p \<noteq> 0 \<longrightarrow> (\<exists>s2. myfree 0 p s1 = Some s2 \<and> pool_ok 0 s2 {}))"
proof -
  have "0 < membase pool_sample 0" "unat (membase pool_sample 0) + 64 * tbl_len 0 \<le> 2 ^ 32"
    by (simp_all add: pool_sample_def tbl_len)
  from mymalloc_myfree [OF banks(1) pool_sample this, of 100] show ?thesis by (auto split: if_splits)
qed

end
