(* ===== verification/Sys_Arch.thy ===== *)
theory Sys_Arch
  imports OS_Q OS_Sem OS_Time OS_Task
begin

text \<open>
  \<^verbatim>\<open>src/lwip/arch/sys_arch.c\<close>: the mailboxes, semaphores, threads and the clock that the TCP/IP stack
  uses, on top of the kernel. \<open>LWIP_ASSERT\<close> only prints. A handle of the stack is a variable of the
  caller: a call that writes it returns its new value. As in the kernel, a call that may block has a
  second half (\<open>..._resume\<close>) that runs when the task has the processor again.
\<close>

subsection \<open>Types and constants\<close>

type_synonym err_t = "8 word"

abbreviation (input) ERR_OK :: err_t where "ERR_OK \<equiv> 0"
abbreviation (input) ERR_MEM :: err_t where "ERR_MEM \<equiv> -1"
abbreviation (input) SYS_ARCH_TIMEOUT :: u32 where "SYS_ARCH_TIMEOUT \<equiv> 0xFFFFFFFF"
abbreviation (input) MAX_QUEUE_ENTRIES :: u32 where "MAX_QUEUE_ENTRIES \<equiv> 20"

text \<open>\<open>pvQEntries\<close> is the place of the cells in \<open>OSMsgMem\<close>. Object 0 of the application is the constant
  whose address stands for a null message.\<close>

record lwip_mbox =
  pQ :: "nat option"
  pvQEntries :: nat

definition pvNullPointer :: vptr where
  "pvNullPointer = VMsg 0"

subsection \<open>Clock\<close>

text \<open>Milliseconds to ticks, at least one; 0 stands for no limit.\<close>

definition ucos_timeout :: "u32 \<Rightarrow> u32" where
  "ucos_timeout ms = (if ms \<noteq> 0 then (let t = ms * OS_TICKS_PER_SEC div 1000 in if t < 1 then 1 else t) else 0)"

definition ticks_to_ms :: "u32 \<Rightarrow> u32" where
  "ticks_to_ms n = n * 1000 div OS_TICKS_PER_SEC + 1"

definition sys_now :: "os \<Rightarrow> u32" where
  "sys_now s = ticks_to_ms (OSTimeGet s)"

subsection \<open>Mailboxes\<close>

definition sys_mbox_new :: "lwip_mbox \<Rightarrow> u32 \<Rightarrow> os \<Rightarrow> (err_t \<times> lwip_mbox \<times> os) option" where
  "sys_mbox_new mbox sz s = do {
     let n = (if sint sz > sint MAX_QUEUE_ENTRIES then MAX_QUEUE_ENTRIES else sz);
     r \<leftarrow> OSQCreate (pvQEntries mbox) (ucast n) s;
     Some (if fst r \<noteq> None then ERR_OK else ERR_MEM, mbox\<lparr>pQ := fst r\<rparr>, snd r)
   }"

text \<open>The assignment of \<open>NULL\<close> at the end of the code reaches only the parameter.\<close>

definition sys_mbox_free :: "lwip_mbox \<Rightarrow> os \<Rightarrow> os option" where
  "sys_mbox_free mbox s = do {
     e \<leftarrow> pQ mbox;
     r \<leftarrow> OSQDel e OS_DEL_ALWAYS s;
     Some (snd (snd r))
   }"

definition msg_in :: "vptr \<Rightarrow> vptr" where
  "msg_in msg = (if msg = VNull then pvNullPointer else msg)"

definition msg_out :: "vptr \<Rightarrow> vptr" where
  "msg_out temp = (if temp = pvNullPointer then VNull else temp)"

text \<open>\<open>while (OSQPost(mbox->pQ, msg) != OS_ERR_NONE);\<close> for \<open>n\<close> attempts: \<open>True\<close> when one succeeded, \<open>False\<close>
  when the loop still runs. \<open>env\<close> is what interrupts do to the kernel between two attempts.\<close>

fun post_loop :: "(os \<Rightarrow> os option) \<Rightarrow> nat \<Rightarrow> nat \<Rightarrow> vptr \<Rightarrow> os \<Rightarrow> (bool \<times> os) option" where
  "post_loop env 0 e msg s = Some (False, s)"
| "post_loop env (Suc n) e msg s = do {
     r \<leftarrow> OSQPost e msg s;
     if fst r = OS_ERR_NONE then Some (True, snd r)
     else do { s1 \<leftarrow> env (snd r); post_loop env n e msg s1 }
   }"

definition sys_mbox_post :: "(os \<Rightarrow> os option) \<Rightarrow> nat \<Rightarrow> lwip_mbox \<Rightarrow> vptr \<Rightarrow> os \<Rightarrow> (bool \<times> os) option" where
  "sys_mbox_post env n mbox msg s = do {
     e \<leftarrow> pQ mbox;
     post_loop env n e (msg_in msg) s
   }"

definition sys_mbox_trypost :: "lwip_mbox \<Rightarrow> vptr \<Rightarrow> os \<Rightarrow> (err_t \<times> os) option" where
  "sys_mbox_trypost mbox msg s = do {
     e \<leftarrow> pQ mbox;
     r \<leftarrow> OSQPost e (msg_in msg) s;
     Some (if fst r \<noteq> OS_ERR_NONE then ERR_MEM else ERR_OK, snd r)
   }"

text \<open>The time since \<open>t0\<close>, and what the call returns: milliseconds and the message. A caller that passes
  no place for the message drops it.\<close>

definition mbox_elapsed :: "u32 \<Rightarrow> u32 \<Rightarrow> u32" where
  "mbox_elapsed t0 t1 = (if t1 > t0 then t1 - t0 else 0xFFFFFFFF - t0 + t1)"

definition fetch_result :: "u32 \<Rightarrow> vptr \<Rightarrow> u8 \<Rightarrow> os \<Rightarrow> u32 \<times> vptr" where
  "fetch_result t0 temp err s =
     (if err = OS_ERR_TIMEOUT then SYS_ARCH_TIMEOUT else ticks_to_ms (mbox_elapsed t0 (OSTimeGet s)), msg_out temp)"

definition sys_arch_mbox_fetch :: "lwip_mbox \<Rightarrow> u32 \<Rightarrow> os \<Rightarrow> ((u32 \<times> vptr) pended \<times> os) option" where
  "sys_arch_mbox_fetch mbox timeout s = do {
     e \<leftarrow> pQ mbox;
     r \<leftarrow> OSQPend e (ucast (ucast (ucos_timeout timeout) :: u16)) s;
     case fst r of
       Returns q \<Rightarrow> Some (Returns (fetch_result (OSTimeGet s) (fst q) (snd q) (snd r)), snd r)
     | Blocks \<Rightarrow> Some (Blocks, snd r)
   }"

definition sys_arch_mbox_fetch_resume :: "lwip_mbox \<Rightarrow> u32 \<Rightarrow> os \<Rightarrow> ((u32 \<times> vptr) \<times> os) option" where
  "sys_arch_mbox_fetch_resume mbox t0 s = do {
     e \<leftarrow> pQ mbox;
     r \<leftarrow> OSQPend_resume e s;
     Some (fetch_result t0 (fst r) (fst (snd r)) (snd (snd r)), snd (snd r))
   }"

definition sys_arch_mbox_tryfetch :: "lwip_mbox \<Rightarrow> os \<Rightarrow> ((u32 \<times> vptr) pended \<times> os) option" where
  "sys_arch_mbox_tryfetch mbox s = sys_arch_mbox_fetch mbox 1 s"

text \<open>On an error the query leaves the zeros of the \<open>memset\<close>.\<close>

definition sys_mbox_valid :: "lwip_mbox \<Rightarrow> os \<Rightarrow> bool option" where
  "sys_mbox_valid mbox s = do {
     e \<leftarrow> pQ mbox;
     r \<leftarrow> OSQQuery e s;
     Some (fst r < 2 \<and> (case snd r of Some d \<Rightarrow> OSNMsgs d < OSQDataSize d | None \<Rightarrow> False))
   }"

definition sys_mbox_set_invalid :: "lwip_mbox \<Rightarrow> lwip_mbox" where
  "sys_mbox_set_invalid mbox = mbox"

subsection \<open>Semaphores\<close>

definition sys_sem_new :: "u8 \<Rightarrow> os \<Rightarrow> (err_t \<times> nat option \<times> os) option" where
  "sys_sem_new count s = do {
     r \<leftarrow> OSSemCreate (ucast count) s;
     case fst r of
       None \<Rightarrow> Some (ERR_MEM, None, snd r)
     | Some e \<Rightarrow> do {
         q \<leftarrow> OSEventNameSet e ''LWIP Sem'' (snd r);
         Some (ERR_OK, Some e, snd q)
       }
   }"

definition sem_elapsed :: "u32 \<Rightarrow> u32 \<Rightarrow> u32" where
  "sem_elapsed t0 t1 = (if t1 \<ge> t0 then t1 - t0 else 0xFFFFFFFF - t0 + t1)"

definition sem_result :: "u32 \<Rightarrow> u8 \<Rightarrow> os \<Rightarrow> u32" where
  "sem_result t0 err s =
     (if err = OS_ERR_TIMEOUT then SYS_ARCH_TIMEOUT else ticks_to_ms (sem_elapsed t0 (OSTimeGet s)))"

definition sys_arch_sem_wait :: "nat option \<Rightarrow> u32 \<Rightarrow> os \<Rightarrow> (u32 pended \<times> os) option" where
  "sys_arch_sem_wait sem timeout s = do {
     e \<leftarrow> sem;
     r \<leftarrow> OSSemPend e (ucast (ucast (ucos_timeout timeout) :: u16)) s;
     case fst r of
       Returns err \<Rightarrow> Some (Returns (sem_result (OSTimeGet s) err (snd r)), snd r)
     | Blocks \<Rightarrow> Some (Blocks, snd r)
   }"

definition sys_arch_sem_wait_resume :: "nat option \<Rightarrow> u32 \<Rightarrow> os \<Rightarrow> (u32 \<times> os) option" where
  "sys_arch_sem_wait_resume sem t0 s = do {
     e \<leftarrow> sem;
     r \<leftarrow> OSSemPend_resume e s;
     Some (sem_result t0 (fst r) (snd r), snd r)
   }"

definition sys_sem_signal :: "nat option \<Rightarrow> os \<Rightarrow> os option" where
  "sys_sem_signal sem s = do {
     e \<leftarrow> sem;
     r \<leftarrow> OSSemPost e s;
     Some (snd r)
   }"

definition sys_sem_free :: "nat option \<Rightarrow> os \<Rightarrow> (nat option \<times> os) option" where
  "sys_sem_free sem s = do {
     e \<leftarrow> sem;
     r \<leftarrow> OSSemDel e OS_DEL_ALWAYS s;
     Some (None, snd (snd r))
   }"

definition sys_sem_valid :: "nat option \<Rightarrow> os \<Rightarrow> bool option" where
  "sys_sem_valid sem s = do {
     e \<leftarrow> sem;
     r \<leftarrow> OSSemQuery e s;
     Some (fst r = OS_ERR_NONE)
   }"

definition sys_sem_set_invalid :: "nat option \<Rightarrow> nat option" where
  "sys_sem_set_invalid sem = None"

subsection \<open>Threads\<close>

text \<open>Only the thread of the stack itself is created, on the stack \<open>TCPIP_THREAD_TASK_STK\<close>; \<open>ret\<close> is the
  address that a task returns to.\<close>

definition sys_thread_new :: "u32 \<Rightarrow> nat \<Rightarrow> string \<Rightarrow> u32 \<Rightarrow> u32 \<Rightarrow> nat \<Rightarrow> u32 \<Rightarrow> os \<Rightarrow> (u8 \<times> os) option" where
  "sys_thread_new ret TCPIP_THREAD_TASK_STK name thread arg stacksize pr s =
     (if name = ''tcpip_thread''
      then do {
        r \<leftarrow> OSTaskCreate ret thread arg (TCPIP_THREAD_TASK_STK + stacksize - 1) (ucast pr) s;
        Some (0, snd r)
      }
      else Some (0, s))"

end
