(* ===== verification/Lwip_Timers.thy ===== *)
theory Lwip_Timers
  imports Sys_Arch
begin

text \<open>
  \<^verbatim>\<open>src/lwip/lwip-1.4.1/src/core/timers.c\<close> as configured by \<^verbatim>\<open>lwipopts.h\<close> (TCP, IP reassembly and ARP
  timers), and the part of \<^verbatim>\<open>core/memp.c\<close> it uses: the pool of timeout nodes. A node is named by its
  number in the pool. A node in the pool and a node in the list of timeouts use the same first word
  for the link, as in the code, where \<open>struct memp\<close> overlays the element.

  The protocol timers themselves (\<open>tcp_tmr\<close>, \<open>ip_reass_tmr\<close> and \<open>etharp_tmr\<close>, which belong to the protocols of the stack and are not
  modelled) and the handlers of the application are a parameter: functions on the whole state.
\<close>

subsection \<open>State\<close>

datatype sys_timeout_handler = HNull | Tcpip_tcp_timer | Ip_reass_timer | Arp_timer | App nat

record sys_timeo =
  tnext :: "nat option"
  time :: u32
  h :: sys_timeout_handler
  arg :: u32

abbreviation (input) MEMP_NUM_SYS_TIMEOUT :: nat where "MEMP_NUM_SYS_TIMEOUT \<equiv> 8"
abbreviation (input) TCP_TMR_INTERVAL :: u32 where "TCP_TMR_INTERVAL \<equiv> 250"
abbreviation (input) IP_TMR_INTERVAL :: u32 where "IP_TMR_INTERVAL \<equiv> 1000"
abbreviation (input) ARP_TMR_INTERVAL :: u32 where "ARP_TMR_INTERVAL \<equiv> 5000"

text \<open>\<open>stack\<close> is what the rest of the TCP/IP stack keeps.\<close>

record 'a lwip =
  kern :: os
  timeo_mem :: "nat \<Rightarrow> sys_timeo"
  memp_tab :: "nat option"
  next_timeout :: "nat option"
  tcpip_tcp_timer_active :: bool
  stack :: 'a

record 's stack_ops =
  tcp_tmr :: "'s \<Rightarrow> 's option"
  tcp_pcbs :: "'s \<Rightarrow> bool" \<comment> \<open>\<open>tcp_active_pcbs || tcp_tw_pcbs\<close>\<close>
  ip_reass_tmr :: "'s \<Rightarrow> 's option"
  etharp_tmr :: "'s \<Rightarrow> 's option"
  app_handler :: "nat \<Rightarrow> u32 \<Rightarrow> 's \<Rightarrow> 's option"

definition upd_timeo :: "nat \<Rightarrow> (sys_timeo \<Rightarrow> sys_timeo) \<Rightarrow> (nat \<Rightarrow> sys_timeo) \<Rightarrow> (nat \<Rightarrow> sys_timeo)" where
  "upd_timeo n f m = m(n := f (m n))"

subsection \<open>The pool\<close>

text \<open>\<open>memp->next = memp_tab[i]; memp_tab[i] = memp;\<close> for the elements from \<open>j\<close> on.\<close>

fun memp_carve :: "nat \<Rightarrow> nat \<Rightarrow> 'a lwip \<Rightarrow> 'a lwip" where
  "memp_carve 0 j s = s"
| "memp_carve (Suc n) j s = memp_carve n (j + 1)
     (s\<lparr>timeo_mem := upd_timeo j (\<lambda>t. t\<lparr>tnext := memp_tab s\<rparr>) (timeo_mem s), memp_tab := Some j\<rparr>)"

definition memp_init :: "'a lwip \<Rightarrow> 'a lwip" where
  "memp_init s = memp_carve MEMP_NUM_SYS_TIMEOUT 0 (s\<lparr>memp_tab := None\<rparr>)"

definition memp_malloc :: "'a lwip \<Rightarrow> nat option \<times> 'a lwip" where
  "memp_malloc s = (case memp_tab s of
       Some m \<Rightarrow> (Some m, s\<lparr>memp_tab := tnext (timeo_mem s m)\<rparr>)
     | None \<Rightarrow> (None, s))"

definition memp_free :: "nat \<Rightarrow> 'a lwip \<Rightarrow> 'a lwip" where
  "memp_free mem s = s\<lparr>timeo_mem := upd_timeo mem (\<lambda>t. t\<lparr>tnext := memp_tab s\<rparr>) (timeo_mem s), memp_tab := Some mem\<rparr>"

subsection \<open>The list of timeouts\<close>

text \<open>The loop of \<open>sys_timeout\<close> that finds the place of node \<open>n\<close>, from node \<open>t\<close> on.\<close>

partial_function (option) timeout_walk :: "nat \<Rightarrow> nat option \<Rightarrow> (nat \<Rightarrow> sys_timeo) \<Rightarrow> (nat \<Rightarrow> sys_timeo) option" where
  "timeout_walk n t m =
     (case t of
        None \<Rightarrow> Some m
      | Some i \<Rightarrow>
          (let m1 = upd_timeo n (\<lambda>x. x\<lparr>time := time x - time (m i)\<rparr>) m;
               rest = tnext (m1 i)
           in if (case rest of None \<Rightarrow> True | Some j \<Rightarrow> time (m1 j) > time (m1 n))
              then (let m2 = (case rest of None \<Rightarrow> m1 | Some j \<Rightarrow> upd_timeo j (\<lambda>x. x\<lparr>time := time x - time (m1 n)\<rparr>) m1)
                    in Some (upd_timeo i (\<lambda>x. x\<lparr>tnext := Some n\<rparr>) (upd_timeo n (\<lambda>x. x\<lparr>tnext := rest\<rparr>) m2)))
              else timeout_walk n rest m1))"

definition sys_timeout :: "u32 \<Rightarrow> sys_timeout_handler \<Rightarrow> u32 \<Rightarrow> 'a lwip \<Rightarrow> 'a lwip option" where
  "sys_timeout msecs handler a s = (case memp_malloc s of
       (None, s1) \<Rightarrow> Some s1
     | (Some n, s1) \<Rightarrow>
         (let m = upd_timeo n (\<lambda>_. \<lparr>tnext = None, time = msecs, h = handler, arg = a\<rparr>) (timeo_mem s1)
          in case next_timeout s1 of
               None \<Rightarrow> Some (s1\<lparr>timeo_mem := m, next_timeout := Some n\<rparr>)
             | Some f \<Rightarrow>
                 if time (m f) > msecs
                 then Some (s1\<lparr>timeo_mem := upd_timeo n (\<lambda>x. x\<lparr>tnext := Some f\<rparr>) (upd_timeo f (\<lambda>x. x\<lparr>time := time x - msecs\<rparr>) m),
                        next_timeout := Some n\<rparr>)
                 else do { m2 \<leftarrow> timeout_walk n (Some f) m; Some (s1\<lparr>timeo_mem := m2\<rparr>) }))"

text \<open>The loop of \<open>sys_untimeout\<close>; \<open>prev\<close> is the node before \<open>t\<close>.\<close>

partial_function (option) untimeout_walk :: "sys_timeout_handler \<Rightarrow> u32 \<Rightarrow> nat option \<Rightarrow> nat option \<Rightarrow> 'a lwip \<Rightarrow> 'a lwip option" where
  "untimeout_walk handler a prev t s =
     (case t of
        None \<Rightarrow> Some s
      | Some i \<Rightarrow>
          if h (timeo_mem s i) = handler \<and> arg (timeo_mem s i) = a
          then (let rest = tnext (timeo_mem s i);
                    s1 = (case prev of
                            None \<Rightarrow> s\<lparr>next_timeout := rest\<rparr>
                          | Some p \<Rightarrow> s\<lparr>timeo_mem := upd_timeo p (\<lambda>x. x\<lparr>tnext := rest\<rparr>) (timeo_mem s)\<rparr>);
                    s2 = (case rest of
                            None \<Rightarrow> s1
                          | Some j \<Rightarrow> s1\<lparr>timeo_mem := upd_timeo j (\<lambda>x. x\<lparr>time := time x + time (timeo_mem s1 i)\<rparr>) (timeo_mem s1)\<rparr>)
                in Some (memp_free i s2))
          else untimeout_walk handler a (Some i) (tnext (timeo_mem s i)) s)"

definition sys_untimeout :: "sys_timeout_handler \<Rightarrow> u32 \<Rightarrow> 'a lwip \<Rightarrow> 'a lwip option" where
  "sys_untimeout handler a s =
     (if next_timeout s = None then Some s else untimeout_walk handler a None (next_timeout s) s)"

subsection \<open>The handlers\<close>

definition tcpip_tcp_timer :: "'a lwip stack_ops \<Rightarrow> 'a lwip \<Rightarrow> 'a lwip option" where
  "tcpip_tcp_timer ops s = do {
     s1 \<leftarrow> tcp_tmr ops s;
     if tcp_pcbs ops s1 then sys_timeout TCP_TMR_INTERVAL Tcpip_tcp_timer 0 s1
     else Some (s1\<lparr>tcpip_tcp_timer_active := False\<rparr>)
   }"

definition tcp_timer_needed :: "'a lwip stack_ops \<Rightarrow> 'a lwip \<Rightarrow> 'a lwip option" where
  "tcp_timer_needed ops s =
     (if \<not> tcpip_tcp_timer_active s \<and> tcp_pcbs ops s
      then sys_timeout TCP_TMR_INTERVAL Tcpip_tcp_timer 0 (s\<lparr>tcpip_tcp_timer_active := True\<rparr>)
      else Some s)"

definition ip_reass_timer :: "'a lwip stack_ops \<Rightarrow> 'a lwip \<Rightarrow> 'a lwip option" where
  "ip_reass_timer ops s = do { s1 \<leftarrow> ip_reass_tmr ops s; sys_timeout IP_TMR_INTERVAL Ip_reass_timer 0 s1 }"

definition arp_timer :: "'a lwip stack_ops \<Rightarrow> 'a lwip \<Rightarrow> 'a lwip option" where
  "arp_timer ops s = do { s1 \<leftarrow> etharp_tmr ops s; sys_timeout ARP_TMR_INTERVAL Arp_timer 0 s1 }"

definition sys_timeouts_init :: "'a lwip \<Rightarrow> 'a lwip option" where
  "sys_timeouts_init s = do {
     s1 \<leftarrow> sys_timeout IP_TMR_INTERVAL Ip_reass_timer 0 s;
     sys_timeout ARP_TMR_INTERVAL Arp_timer 0 s1
   }"

text \<open>\<open>if (handler != NULL) handler(arg);\<close>\<close>

definition call_handler :: "'a lwip stack_ops \<Rightarrow> sys_timeout_handler \<Rightarrow> u32 \<Rightarrow> 'a lwip \<Rightarrow> 'a lwip option" where
  "call_handler ops handler a s = (case handler of
       HNull \<Rightarrow> Some s
     | Tcpip_tcp_timer \<Rightarrow> tcpip_tcp_timer ops s
     | Ip_reass_timer \<Rightarrow> ip_reass_timer ops s
     | Arp_timer \<Rightarrow> arp_timer ops s
     | App k \<Rightarrow> app_handler ops k a s)"

subsection \<open>Waiting for a message\<close>

text \<open>The first timeout is over: it leaves the list, its node goes back to the pool, then its handler runs.\<close>

definition timeout_fire :: "'a lwip stack_ops \<Rightarrow> 'a lwip \<Rightarrow> 'a lwip option" where
  "timeout_fire ops s = do {
     n \<leftarrow> next_timeout s;
     let t = timeo_mem s n;
     call_handler ops (h t) (arg t) (memp_free n (s\<lparr>next_timeout := tnext t\<rparr>))
   }"

text \<open>A message came after \<open>time_needed\<close> milliseconds.\<close>

definition timeout_passed :: "u32 \<Rightarrow> 'a lwip \<Rightarrow> 'a lwip option" where
  "timeout_passed time_needed s = do {
     n \<leftarrow> next_timeout s;
     Some (s\<lparr>timeo_mem := upd_timeo n (\<lambda>t. if time_needed < time t then t\<lparr>time := time t - time_needed\<rparr>
                                       else t\<lparr>time := 0\<rparr>) (timeo_mem s)\<rparr>)
   }"

text \<open>\<open>goto again\<close> is the recursive call. The call can block within the fetch.\<close>

partial_function (option) sys_timeouts_mbox_fetch ::
    "'a lwip stack_ops \<Rightarrow> lwip_mbox \<Rightarrow> 'a lwip \<Rightarrow> (vptr pended \<times> 'a lwip) option" where
  "sys_timeouts_mbox_fetch ops mbox s =
     (case next_timeout s of
        None \<Rightarrow> do {
          r \<leftarrow> sys_arch_mbox_fetch mbox 0 (kern s);
          Some (case fst r of Returns q \<Rightarrow> Returns (snd q) | Blocks \<Rightarrow> Blocks, s\<lparr>kern := snd r\<rparr>)
        }
      | Some f \<Rightarrow>
          if time (timeo_mem s f) > 0
          then do {
            r \<leftarrow> sys_arch_mbox_fetch mbox (time (timeo_mem s f)) (kern s);
            (case fst r of
               Blocks \<Rightarrow> Some (Blocks, s\<lparr>kern := snd r\<rparr>)
             | Returns q \<Rightarrow>
                 if fst q = SYS_ARCH_TIMEOUT
                 then do { s2 \<leftarrow> timeout_fire ops (s\<lparr>kern := snd r\<rparr>); sys_timeouts_mbox_fetch ops mbox s2 }
                 else do { s2 \<leftarrow> timeout_passed (fst q) (s\<lparr>kern := snd r\<rparr>); Some (Returns (snd q), s2) })
          }
          else do { s2 \<leftarrow> timeout_fire ops s; sys_timeouts_mbox_fetch ops mbox s2 })"

text \<open>The rest of the call when the thread runs again after blocking at time \<open>t0\<close>; \<open>limited\<close> tells which
  of the two fetches it was in.\<close>

definition sys_timeouts_mbox_fetch_resume ::
    "'a lwip stack_ops \<Rightarrow> lwip_mbox \<Rightarrow> bool \<Rightarrow> u32 \<Rightarrow> 'a lwip \<Rightarrow> (vptr pended \<times> 'a lwip) option" where
  "sys_timeouts_mbox_fetch_resume ops mbox limited t0 s = do {
     r \<leftarrow> sys_arch_mbox_fetch_resume mbox t0 (kern s);
     let s1 = s\<lparr>kern := snd r\<rparr>;
     if \<not> limited then Some (Returns (snd (fst r)), s1)
     else if fst (fst r) = SYS_ARCH_TIMEOUT
     then do { s2 \<leftarrow> timeout_fire ops s1; sys_timeouts_mbox_fetch ops mbox s2 }
     else do { s2 \<leftarrow> timeout_passed (fst (fst r)) s1; Some (Returns (snd (fst r)), s2) }
   }"

end
