(* ===== verification/Sys_Arch_Proofs.thy ===== *)
theory Sys_Arch_Proofs
  imports Sys_Arch OS_Q_Proofs OS_Scheduler
begin

text \<open>
  What the port layer makes of the kernel's guarantees: messages, null ones too, arrive as they were
  sent; a blocking post spins for ever on a full mailbox; limits are kept modulo 65536; and the
  waiting times it reports.
\<close>

subsection \<open>The clock\<close>

lemma unat_times_1000: "unat n \<le> 4294967 \<Longrightarrow> unat (n * 1000) = unat n * 1000" for n :: u32
  by (subst unat_mult_lem [THEN iffD1]) simp_all

lemma unat_ms: "unat n \<le> 4294967 \<Longrightarrow> n * 1000 div 1000 = n" for n :: u32
  by (simp add: word_unat_eq_iff unat_div_distrib unat_times_1000)

lemma ticks_to_ms: "unat n \<le> 4294967 \<Longrightarrow> unat (ticks_to_ms n) = unat n + 1"
  unfolding ticks_to_ms_def
  by (simp only: unat_ms) (simp add: unat_word_ariths)

lemma ticks_to_ms_max: "ticks_to_ms 0xFFFFFFFF = 4294967"
  by (simp add: ticks_to_ms_def)

lemma ucos_timeout_ms: "unat ms \<le> 4294967 \<Longrightarrow> ucos_timeout ms = ms"
  by (auto simp: ucos_timeout_def Let_def unat_ms word_less_nat_alt unat_eq_zero)

lemma unat_cut16: "unat (ucast (ucast x :: u16) :: u32) = unat x mod 65536" for x :: u32
  by (simp only: unsigned_ucast_eq unsigned_take_bit_eq take_bit_take_bit) (simp add: take_bit_eq_mod)

lemma mbox_elapsed_same: "mbox_elapsed t t = 0xFFFFFFFF"
  by (simp add: mbox_elapsed_def)

lemma mbox_elapsed_later: "t0 < t1 \<Longrightarrow> mbox_elapsed t0 t1 = t1 - t0"
  by (simp add: mbox_elapsed_def)

lemma sem_elapsed_later: "t0 \<le> t1 \<Longrightarrow> sem_elapsed t0 t1 = t1 - t0"
  by (simp add: sem_elapsed_def)

subsection \<open>Messages\<close>

lemma msg_in_out [simp]: "m \<noteq> pvNullPointer \<Longrightarrow> msg_out (msg_in m) = m"
  by (simp add: msg_in_def msg_out_def)

lemma msg_in_nonnull: "msg_in m \<noteq> VNull"
  by (simp add: msg_in_def pvNullPointer_def)

text \<open>What a change of one ring leaves alone.\<close>

lemma q_changeD:
  assumes "q_change s q s'"
  shows "OSTime s' = OSTime s" "OSTCBTbl s' = OSTCBTbl s" "OSEvents s' = OSEvents s" "unlocked s' = unlocked s"
    "waiters s' = waiters s" "may_block s' c = may_block s c" "q_of s' e = q_of s e"
  using assms by (auto simp: q_change_def unlocked_def waiters_def may_block_def q_of_def fun_eq_iff)

lemma q_change_sched:
  assumes "q_change s q s'"
  shows "ready s' = ready s" "act s' = act s" "OSRunning s' = OSRunning s"
proof -
  obtain mem p where s': "s' = s\<lparr>OSMsgMem := mem, OSQTbl := (OSQTbl s)(q := p)\<rparr>" using assms unfolding q_change_def by blast
  show "ready s' = ready s" "act s' = act s" "OSRunning s' = OSRunning s"
    by (simp_all add: s' ready_def rdy_bm_def act_def fun_eq_iff)
qed

lemma sys_mbox_trypost_ok:
  assumes ok: "kernel_ok s c" and q: "q_of s e q" and mb: "pQ mbox = Some e"
  shows "waiters s e \<noteq> {} \<Longrightarrow> \<exists>t s' c'. sys_mbox_trypost mbox m s = Some (ERR_OK, s') \<and> first_waiter s e t \<and>
      readies s e (msg_in m) OS_STAT_PEND_OK {t} s' \<and> kernel_ok s' c' \<and> scheduled s s'"
    and "waiters s e = {} \<Longrightarrow> length (q_list s q) < q_size s q \<Longrightarrow> \<exists>s'. sys_mbox_trypost mbox m s = Some (ERR_OK, s') \<and>
      q_holds s q (q_list s q @ [msg_in m]) s' \<and> kernel_ok s' c"
    and "waiters s e = {} \<Longrightarrow> length (q_list s q) = q_size s q \<Longrightarrow> sys_mbox_trypost mbox m s = Some (ERR_MEM, s)"
  using OSQPost_ok [OF ok q, of "msg_in m"] mb by (fastforce simp: sys_mbox_trypost_def)+

lemma sys_arch_mbox_fetch_ok:
  assumes ok: "kernel_ok s c" and may: "may_block s c" and q: "q_of s e q" and mb: "pQ mbox = Some e"
  shows "q_list s q \<noteq> [] \<Longrightarrow> \<exists>s'. sys_arch_mbox_fetch mbox ms s = Some (Returns (4294967, msg_out (hd (q_list s q))), s') \<and>
      q_holds s q (tl (q_list s q)) s' \<and> kernel_ok s' c"
    and "q_list s q = [] \<Longrightarrow> \<exists>s' c'. sys_arch_mbox_fetch mbox ms s = Some (Blocks, s') \<and>
      blocks s c e (ucast (ucast (ucos_timeout ms) :: u16)) s' \<and> kernel_ok s' c' \<and> highest_runs s' \<and> c' \<noteq> c"
proof -
  let ?t = "ucast (ucast (ucos_timeout ms) :: u16) :: u32"
  show "\<exists>s'. sys_arch_mbox_fetch mbox ms s = Some (Returns (4294967, msg_out (hd (q_list s q))), s') \<and>
      q_holds s q (tl (q_list s q)) s' \<and> kernel_ok s' c" if ne: "q_list s q \<noteq> []"
  proof -
    obtain s' where s': "OSQPend e ?t s = Some (Returns (hd (q_list s q), OS_ERR_NONE), s')"
      "q_holds s q (tl (q_list s q)) s'" "kernel_ok s' c"
      using OSQPend_ok(1) [OF ok may q ne] by blast
    have "OSTime s' = OSTime s" using s'(2) q_changeD(1) [of s q s'] by (simp add: q_holds_def)
    then have "fetch_result (OSTimeGet s) (hd (q_list s q)) OS_ERR_NONE s' = (4294967, msg_out (hd (q_list s q)))"
      by (simp add: fetch_result_def OSTimeGet_def mbox_elapsed_same ticks_to_ms_max)
    then show ?thesis using s' mb by (simp add: sys_arch_mbox_fetch_def)
  qed
  show "\<exists>s' c'. sys_arch_mbox_fetch mbox ms s = Some (Blocks, s') \<and> blocks s c e ?t s' \<and> kernel_ok s' c' \<and>
      highest_runs s' \<and> c' \<noteq> c" if "q_list s q = []"
    using OSQPend_ok(2) [OF ok may q that, of ?t] mb by (auto simp: sys_arch_mbox_fetch_def)
qed

subsection \<open>A task that keeps the processor\<close>

text \<open>Task \<open>c\<close> runs at task level with the scheduler unlocked, as the most urgent ready task, and no more urgent
  one waits with a limit: what the clock alone cannot change.\<close>

definition keeps_cpu :: "os \<Rightarrow> nat \<Rightarrow> bool" where
  "keeps_cpu s c \<longleftrightarrow> kernel_ok s c \<and> OSRunning s \<and> unlocked s \<and> highest_runs s \<and>
     (\<forall>t. act s t \<and> prio s t < prio s c \<longrightarrow> OSTCBDly (OSTCBTbl s t) = 0)"

lemma tick_queues:
  assumes "OSTimeTick s = Some s'" and "kernel_ok s c"
  shows "OSQTbl s' = OSQTbl s" "OSMsgMem s' = OSMsgMem s"
proof -
  have fr: "wq_frame (s\<lparr>OSTime := OSTime s', OSTickStepState := OSTickStepState s'\<rparr>) s'"
    using OSTimeTick_ok [OF kernel_okD(1,2) [OF assms(2)]] assms(1) by auto
  show "OSQTbl s' = OSQTbl s" "OSMsgMem s' = OSMsgMem s" using wq_frameD(10,12) [OF fr] by simp_all
qed

lemma tick_keeps_cpu:
  assumes "keeps_cpu s c"
  obtains s' where "OS_CPU_SysTickHandler s = Some s'" "keeps_cpu s' c" "OSEvents s' = OSEvents s" "OSQTbl s' = OSQTbl s"
    "OSMsgMem s' = OSMsgMem s"
proof -
  have ok: "kernel_ok s c" and run: "OSRunning s" and ul: "OSIntNesting s = 0" "OSLockNesting s = 0" and hi: "highest_runs s"
    and dly: "\<And>t. act s t \<Longrightarrow> prio s t < prio s c \<Longrightarrow> OSTCBDly (OSTCBTbl s t) = 0"
    using assms by (auto simp: keeps_cpu_def unlocked_def)
  let ?s0 = "OSIntEnter s"
  have s0: "?s0 = s\<lparr>OSIntNesting := 1\<rparr>" using OSIntEnter_eq [OF run] ul(1) by simp
  have ok0: "kernel_ok ?s0 c" by (rule kernel_ok_int_enter [OF ok]) (simp add: ul(1))
  have n0: "OSIntNesting ?s0 > 0" by (simp add: s0)
  have a0: "act ?s0 = act s" by (simp add: s0 act_def fun_eq_iff)
  obtain s1 where s1: "OSTimeTick ?s0 = Some s1" "kernel_ok s1 c" "OSEvents s1 = OSEvents ?s0" "OSTCBPrioTbl s1 = OSTCBPrioTbl ?s0"
      "OSIntNesting s1 = OSIntNesting ?s0" "OSLockNesting s1 = OSLockNesting ?s0" "OSRunning s1 = OSRunning ?s0"
    and tbl: "OSTCBTbl s1 = (\<lambda>t. if tick_steps ?s0 \<and> act ?s0 t \<and> prio ?s0 t \<noteq> OS_TASK_IDLE_PRIO then ticked (OSTCBTbl ?s0 t) else OSTCBTbl ?s0 t)"
    and rdy: "ready s1 = ready ?s0 \<union> {prio ?s0 t | t. tick_steps ?s0 \<and> act ?s0 t \<and> prio ?s0 t \<noteq> OS_TASK_IDLE_PRIO \<and> expires (OSTCBTbl ?s0 t)}"
    using kernel_ok_tick [OF ok0 n0] by blast
  obtain s' c' where s': "OSIntExit s1 = Some s'" "kernel_ok s' c'" "sw_frame (s1\<lparr>OSIntNesting := OSIntNesting s1 - 1\<rparr>) s'" "highest_runs s'"
    using kernel_ok_int_exit [OF s1(2)] s1(5,6,7) n0 run ul by (auto simp: s0)
  note f = sw_frameD [OF s'(3), simplified]
  have st: "same_task (OSTCBTbl s1 t) (OSTCBTbl s' t)" for t using sw_frame_same [OF s'(3), of t] by simp
  have pr: "prio s' t = prio s t" for t using st [of t] by (auto simp: same_task_def tbl s0)
  have a: "act s' t = act s t" for t unfolding act_def pr f(2) s1(4) by (simp add: s0)
  have rd: "p \<in> ready s \<or> (\<exists>t. act s t \<and> p = prio s t \<and> expires (OSTCBTbl s t))" if "p \<in> ready s'" for p
    using that unfolding f rdy a0 by (auto simp: s0 ready_def rdy_bm_def)
  have sub: "ready s \<subseteq> ready s'" unfolding f rdy by (auto simp: s0 ready_def rdy_bm_def)
  have min: "prio s c \<in> ready s" "\<forall>p \<in> ready s. prio s c \<le> p"
    using hi kernel_ok_cur [OF ok] by (auto simp: highest_runs_def cur_ok_def)
  have le: "prio s c \<le> p" if p: "p \<in> ready s'" for p
  proof (rule ccontr)
    assume "\<not> prio s c \<le> p"
    moreover from this obtain t where "act s t" "p = prio s t" "expires (OSTCBTbl s t)" using rd [OF p] min(2) by blast
    ultimately show False using dly [of t] by (auto simp: expires_def)
  qed
  have c': "cur_ok s' c'" by (rule kernel_ok_cur [OF s'(2)])
  then have m': "prio s' c' \<in> ready s'" "\<forall>p \<in> ready s'. prio s' c' \<le> p" "act s' c'"
    using s'(4) by (auto simp: highest_runs_def cur_ok_def)
  have "prio s c' = prio s c" using m'(1,2) le sub min(1) unfolding pr by (meson order.antisym subsetD)
  then have eq: "c' = c" using m'(3) act_prio_inj [of s c' c] kernel_okD(5) [OF ok] unfolding a by blast
  have "OSTCBDly (OSTCBTbl s' t) = 0" if "act s' t" "prio s' t < prio s' c" for t
    using dly [of t] that st [of t] unfolding a pr by (auto simp: same_task_def tbl s0 ticked_def)
  moreover have "OSRunning s'" "unlocked s'" using f s1(5-7) run ul by (simp_all add: unlocked_def s0)
  ultimately have "keeps_cpu s' c" using s'(2,4) unfolding eq keeps_cpu_def by blast
  moreover have "OS_CPU_SysTickHandler s = Some s'" using s1(1) s'(1) by (simp add: OS_CPU_SysTickHandler_def)
  moreover have "OSEvents s' = OSEvents s" "OSQTbl s' = OSQTbl s" "OSMsgMem s' = OSMsgMem s"
    using tick_queues [OF s1(1) ok0] s1(3) f by (simp_all add: s0)
  ultimately show ?thesis using that by blast
qed

subsection \<open>Properties\<close>

lemma sample_q_size: "q_size sample 0 = 2" "q_size sample 1 = 2" "q_list sample (Suc 0) = []"
  "unat (OSQSize (sample_queues 0)) = 2" "unat (OSQSize (sample_queues (Suc 0))) = 2"
  using sample_q_list(2) by (simp_all add: sample_queues_def)

text \<open>C32: A message put in an empty mailbox nobody waits on comes out of the next fetch as it was sent, a null message
  too, and the mailbox is empty again. The fetch does not wait, but since \<open>timeout_new > timeout\<close> fails for
  equal times it reports that it waited 4294967 milliseconds.\<close>

theorem trypost_fetch:
  assumes "kernel_ok s c" and "may_block s c" and "q_of s e q" and "pQ mbox = Some e"
    and "waiters s e = {}" and "q_list s q = []" and "0 < q_size s q" and "m \<noteq> pvNullPointer"
  shows "\<exists>s1 s2. sys_mbox_trypost mbox m s = Some (ERR_OK, s1) \<and> kernel_ok s1 c \<and>
    sys_arch_mbox_fetch mbox ms s1 = Some (Returns (4294967, m), s2) \<and> q_list s2 q = [] \<and> kernel_ok s2 c"
proof -
  obtain s1 where s1: "sys_mbox_trypost mbox m s = Some (ERR_OK, s1)" "q_holds s q [msg_in m] s1" "kernel_ok s1 c"
    using sys_mbox_trypost_ok(2) [OF assms(1,3,4,5), of m] assms(6,7) by auto
  have ch: "q_change s q s1" "q_list s1 q = [msg_in m]" using s1(2) by (simp_all add: q_holds_def)
  have "may_block s1 c" "q_of s1 e q" using assms(2,3) by (simp_all add: q_changeD [OF ch(1)])
  from sys_arch_mbox_fetch_ok(1) [OF s1(3) this assms(4), of ms] obtain s2 where
    "sys_arch_mbox_fetch mbox ms s1 = Some (Returns (4294967, m), s2)" "q_holds s1 q [] s2" "kernel_ok s2 c"
    using ch(2) assms(8) by auto
  then show ?thesis using s1 by (auto simp: q_holds_def)
qed

theorem trypost_fetch_witness:
  "\<exists>s1 s2. sys_mbox_trypost \<lparr>pQ = Some 5, pvQEntries = 110\<rparr> VNull sample = Some (ERR_OK, s1) \<and>
    sys_arch_mbox_fetch \<lparr>pQ = Some 5, pvQEntries = 110\<rparr> 100 s1 = Some (Returns (4294967, VNull), s2) \<and> q_list s2 1 = []"
  using trypost_fetch [OF sample_kernel_ok sample_may_block sample_q(2), of "\<lparr>pQ = Some 5, pvQEntries = 110\<rparr>" VNull 100]
  by (auto simp: sample_waiters sample_q_list sample_q_size pvNullPointer_def)

text \<open>C33: A blocking post ends at its first attempt when a task waits or there is room. On a full mailbox nobody waits
  for it never ends, as long as the clock is the only interrupt that comes between the attempts, the caller runs at task level with the
  scheduler unlocked as the most urgent ready task, and no more urgent task waits with a time limit:
  after any number of attempts, each followed by a tick or none, the caller is still the running task and the mailbox as full as
  before, although less urgent tasks, the consumer among them, may be ready or become ready.\<close>

theorem sys_mbox_post_spec:
  assumes "kernel_ok s c" and "q_of s e q" and "pQ mbox = Some e" and env: "\<forall>t. env t = Some t \<or> env t = OS_CPU_SysTickHandler t"
  shows "if waiters s e \<noteq> {} \<or> length (q_list s q) < q_size s q
    then \<exists>s' c'. sys_mbox_post env (Suc n) mbox m s = Some (True, s') \<and> kernel_ok s' c'
    else keeps_cpu s c \<longrightarrow> (\<exists>s'. sys_mbox_post env n mbox m s = Some (False, s') \<and> OSTCBCur s' = TPtr c \<and> keeps_cpu s' c \<and>
      q_list s' q = q_list s q \<and> length (q_list s' q) = q_size s' q \<and> waiters s' e = {})"
proof -
  have spin: "\<exists>s'. post_loop env n e x t = Some (False, s') \<and> keeps_cpu s' c \<and> OSEvents s' = OSEvents s \<and>
      OSQTbl s' = OSQTbl s \<and> OSMsgMem s' = OSMsgMem s"
    if "keeps_cpu t c" "OSEvents t = OSEvents s" "OSQTbl t = OSQTbl s" "OSMsgMem t = OSMsgMem s"
      and full: "waiters s e = {}" "length (q_list s q) = q_size s q" for x t
    using that(1-4)
  proof (induction n arbitrary: t)
    case (Suc n)
    have "waiters t e = {}" "length (q_list t q) = q_size t q" "q_of t e q"
      using full assms(2) by (simp_all add: waiters_def q_list_def q_of_def Suc.prems(2-4))
    then have post: "OSQPost e x t = Some (OS_ERR_Q_FULL, t)"
      using OSQPost_ok(3) [of t c e q x] Suc.prems(1) by (simp add: keeps_cpu_def)
    obtain t1 where t1: "env t = Some t1" "keeps_cpu t1 c" "OSEvents t1 = OSEvents s" "OSQTbl t1 = OSQTbl s" "OSMsgMem t1 = OSMsgMem s"
    proof (cases "env t = Some t")
      case True
      show ?thesis by (rule that [OF True Suc.prems])
    next
      case False
      then have tick: "env t = OS_CPU_SysTickHandler t" using env by blast
      obtain t1 where t1: "OS_CPU_SysTickHandler t = Some t1" "keeps_cpu t1 c" "OSEvents t1 = OSEvents t" "OSQTbl t1 = OSQTbl t"
          "OSMsgMem t1 = OSMsgMem t"
        by (rule tick_keeps_cpu [OF Suc.prems(1)])
      show ?thesis by (rule that [of t1]) (simp_all add: tick t1 Suc.prems(2-4))
    qed
    show ?case using Suc.IH [OF t1(2-5)] post t1(1) by simp
  qed simp
  have full_le: "length (q_list s q) \<le> q_size s q"
    using q_ofD(6) [OF assms(1,2)] by (simp add: q_ok_def word_le_nat_alt)
  show ?thesis
  proof (cases "waiters s e \<noteq> {} \<or> length (q_list s q) < q_size s q")
    case True
    have "\<exists>s' c'. sys_mbox_post env (Suc n) mbox m s = Some (True, s') \<and> kernel_ok s' c'"
      using OSQPost_ok [OF assms(1,2), of "msg_in m"] True assms(3) by (fastforce simp: sys_mbox_post_def)
    then show ?thesis unfolding if_P [OF True] .
  next
    case False
    then have full: "waiters s e = {}" "length (q_list s q) = q_size s q" using full_le by auto
    show ?thesis unfolding if_not_P [OF False]
    proof
      assume k: "keeps_cpu s c"
      obtain s' where s': "post_loop env n e (msg_in m) s = Some (False, s')" "keeps_cpu s' c" "OSEvents s' = OSEvents s"
          "OSQTbl s' = OSQTbl s" "OSMsgMem s' = OSMsgMem s"
        using spin [OF k refl refl refl full] by blast
      have "OSTCBCur s' = TPtr c" using s'(2) kernel_ok_cur by (auto simp: keeps_cpu_def cur_ok_def)
      moreover have "q_list s' q = q_list s q" "waiters s' e = {}" using full(1) by (simp_all add: q_list_def waiters_def s'(3-5))
      moreover have "sys_mbox_post env n mbox m s = Some (False, s')" using s'(1) assms(3) by (simp add: sys_mbox_post_def)
      ultimately show "\<exists>s'. sys_mbox_post env n mbox m s = Some (False, s') \<and> OSTCBCur s' = TPtr c \<and> keeps_cpu s' c \<and>
          q_list s' q = q_list s q \<and> length (q_list s' q) = q_size s' q \<and> waiters s' e = {}"
        using s'(2) full(2) s'(4) by (intro exI [of _ s']) simp
    qed
  qed
qed

theorem sys_mbox_post_spec_witness:
  "\<exists>s1. OSQPost 4 (VMsg 1) sample = Some (OS_ERR_NONE, s1) \<and> 20 \<in> ready s1 \<and>
    (\<forall>n. \<exists>s'. sys_mbox_post OS_CPU_SysTickHandler n \<lparr>pQ = Some 4, pvQEntries = 100\<rparr> (VMsg 2) s1 = Some (False, s') \<and> OSTCBCur s' = TPtr 1)"
proof -
  obtain s1 where s1: "OSQPost 4 (VMsg 1) sample = Some (OS_ERR_NONE, s1)" "q_holds sample 0 [VMsg 9, VMsg 1] s1" "kernel_ok s1 1"
    using OSQPost_ok(2) [OF sample_kernel_ok sample_q(1), of "VMsg 1"]
    by (auto simp: sample_waiters sample_q_list sample_q_size simp del: length_q_list)
  have ch: "q_change sample 0 s1" "q_list s1 0 = [VMsg 9, VMsg 1]" "q_size s1 0 = 2"
    using s1(2) sample_q_size(1) by (simp_all add: q_holds_def)
  have not: "\<not> (waiters s1 4 \<noteq> {} \<or> length (q_list s1 0) < q_size s1 0)"
    using ch(2,3) by (simp add: q_changeD [OF ch(1)] sample_waiters del: length_q_list)
  have rdy: "ready s1 = {10, 20, 63}" by (simp only: q_change_sched(1) [OF ch(1)] sample_ready)
  have pr: "prio s1 t = prio sample t" "act s1 t \<longleftrightarrow> t < 5" for t
    by (simp_all only: q_changeD(2) [OF ch(1)] q_change_sched(2) [OF ch(1)] sample_act sample_sel)
  have "unlocked sample" by (simp add: unlocked_def)
  then have ctx: "OSRunning s1" "unlocked s1" by (simp_all add: q_changeD(4) [OF ch(1)] q_change_sched(3) [OF ch(1)])
  have "highest_runs s1"
    unfolding highest_runs_def rdy using kernel_ok_cur [OF s1(3)] sample_prio(2) pr(1) by (intro exI [of _ 1]) auto
  moreover have "OSTCBDly (OSTCBTbl s1 t) = 0" if "act s1 t" "prio s1 t < prio s1 1" for t
    using that sample_prio unfolding pr less_5 by (auto simp: q_changeD [OF ch(1)] sample_tasks_def sample_tcb_def tcb_zero_def)
  ultimately have k: "keeps_cpu s1 1"
    using s1(3) ctx by (simp add: keeps_cpu_def)
  have q: "q_of s1 4 0" using sample_q(1) by (simp add: q_changeD [OF ch(1)])
  have "\<exists>s'. sys_mbox_post OS_CPU_SysTickHandler n \<lparr>pQ = Some 4, pvQEntries = 100\<rparr> (VMsg 2) s1 = Some (False, s') \<and> OSTCBCur s' = TPtr 1" for n
    using sys_mbox_post_spec [OF s1(3) q, of "\<lparr>pQ = Some 4, pvQEntries = 100\<rparr>" OS_CPU_SysTickHandler n "VMsg 2"] k
    unfolding if_not_P [OF not] by auto
  then show ?thesis using s1(1) rdy by auto
qed

text \<open>Waiting for a semaphore with a limit of \<open>ms\<close> milliseconds. With a count the call takes one and answers 1.
  Otherwise the caller blocks for \<open>ms\<close> modulo 65536 ticks, because the limit is cut to 16 bits: with a
  multiple of 65536 it waits without limit.\<close>

theorem sys_arch_sem_wait_spec:
  assumes "kernel_ok s c" and "may_block s c" and "is_sem s e" and "unat ms \<le> 4294967"
  shows "if sem_count s e > 0 then \<exists>s'. sys_arch_sem_wait (Some e) ms s = Some (Returns 1, s') \<and>
      s' = upd_evt e (\<lambda>ev. ev\<lparr>OSEventCnt := OSEventCnt ev - 1\<rparr>) s \<and> kernel_ok s' c
    else \<exists>s' c' d. sys_arch_sem_wait (Some e) ms s = Some (Blocks, s') \<and> unat d = unat ms mod 65536 \<and>
      blocks s c e d s' \<and> kernel_ok s' c' \<and> highest_runs s' \<and> c' \<noteq> c"
proof -
  let ?t = "ucast (ucast (ucos_timeout ms) :: u16) :: u32"
  have t: "unat ?t = unat ms mod 65536" by (simp only: unat_cut16 ucos_timeout_ms [OF assms(4)])
  have "\<exists>s'. sys_arch_sem_wait (Some e) ms s = Some (Returns 1, s') \<and>
      s' = upd_evt e (\<lambda>ev. ev\<lparr>OSEventCnt := OSEventCnt ev - 1\<rparr>) s \<and> kernel_ok s' c" if "sem_count s e > 0"
    using OSSemPend_ok(1) [OF assms(1-3) that, of ?t]
    by (auto simp: sys_arch_sem_wait_def sem_result_def sem_elapsed_def ticks_to_ms_def OSTimeGet_def upd_evt_def)
  moreover have "\<exists>s' c' d. sys_arch_sem_wait (Some e) ms s = Some (Blocks, s') \<and> unat d = unat ms mod 65536 \<and>
      blocks s c e d s' \<and> kernel_ok s' c' \<and> highest_runs s' \<and> c' \<noteq> c" if z: "sem_count s e = 0"
  proof -
    obtain s' c' where "OSSemPend e ?t s = Some (Blocks, s')" "blocks s c e ?t s'" "kernel_ok s' c'" "highest_runs s'" "c' \<noteq> c"
      using OSSemPend_ok(2) [OF assms(1-3) z, of ?t] by blast
    with t show ?thesis by (intro exI [of _ s'] exI [of _ c'] exI [of _ ?t]) (simp add: sys_arch_sem_wait_def)
  qed
  ultimately show ?thesis by (simp add: word_gt_0)
qed

theorem sys_arch_sem_wait_spec_witness:
  "(\<exists>s'. sys_arch_sem_wait (Some 0) 50 sample = Some (Returns 1, s')) \<and>
   (\<exists>s' d. sys_arch_sem_wait (Some 1) 131072 sample = Some (Blocks, s') \<and> d = 0 \<and> blocks sample 1 1 d s')"
proof
  show "\<exists>s'. sys_arch_sem_wait (Some 0) 50 sample = Some (Returns 1, s')"
    using sys_arch_sem_wait_spec [OF sample_kernel_ok sample_may_block sample_sem(1), of 50] by auto
  have "unat d = 0 \<Longrightarrow> d = 0" for d :: u32 by (simp add: unat_eq_zero)
  then show "\<exists>s' d. sys_arch_sem_wait (Some 1) 131072 sample = Some (Blocks, s') \<and> d = 0 \<and> blocks sample 1 1 d s'"
    using sys_arch_sem_wait_spec [OF sample_kernel_ok sample_may_block sample_sem(2), of 131072] by auto
qed

text \<open>The waiting times that are reported after a wait of \<open>n\<close> ticks that did not time out and during which the
  clock did not wrap around: \<open>n + 1\<close> milliseconds for a semaphore, and for a mailbox too unless the message
  came within the tick, when it is 4294967.\<close>

theorem waiting_times:
  assumes "t0 \<le> OSTimeGet s" and "unat (OSTimeGet s - t0) \<le> 4294966" and "err \<noteq> OS_ERR_TIMEOUT"
  shows "unat (sem_result t0 err s) = unat (OSTimeGet s - t0) + 1 \<and>
    unat (fst (fetch_result t0 m err s)) = (if OSTimeGet s = t0 then 4294967 else unat (OSTimeGet s - t0) + 1)"
proof -
  have "mbox_elapsed t0 (OSTimeGet s) = (if OSTimeGet s = t0 then 0xFFFFFFFF else OSTimeGet s - t0)"
    using assms(1) by (auto simp: mbox_elapsed_def)
  then show ?thesis
    using assms ticks_to_ms [of "OSTimeGet s - t0"]
    by (auto simp: sem_result_def fetch_result_def sem_elapsed_later ticks_to_ms_max)
qed

theorem waiting_times_witness:
  "unat (sem_result 31 OS_ERR_NONE sample) = 11 \<and> unat (fst (fetch_result 41 VNull OS_ERR_NONE sample)) = 4294967"
  using waiting_times [of 31 sample OS_ERR_NONE VNull] waiting_times [of 41 sample OS_ERR_NONE VNull]
  by (simp add: OSTimeGet_def)

end
