(* ===== verification/Lwip_Timers_Proofs.thy ===== *)
theory Lwip_Timers_Proofs
  imports Lwip_Timers Sys_Arch_Proofs
begin

text \<open>
  The list of timeouts stores differences; \<open>due\<close> reads it as a list of absolute times. Inserting,
  cancelling and letting time pass are what they should be on that list, and the periodic handlers
  are never lost.
\<close>

subsection \<open>Lists of nodes\<close>

fun timeo_seg :: "(nat \<Rightarrow> sys_timeo) \<Rightarrow> nat option \<Rightarrow> nat list \<Rightarrow> bool" where
  "timeo_seg m p [] \<longleftrightarrow> p = None"
| "timeo_seg m p (n # ns) \<longleftrightarrow> p = Some n \<and> timeo_seg m (tnext (m n)) ns"

type_synonym due_entry = "nat \<times> sys_timeout_handler \<times> u32"

fun due_from :: "(nat \<Rightarrow> sys_timeo) \<Rightarrow> nat \<Rightarrow> nat list \<Rightarrow> due_entry list" where
  "due_from m acc [] = []"
| "due_from m acc (n # ns) =
     (acc + unat (time (m n)), h (m n), arg (m n)) # due_from m (acc + unat (time (m n))) ns"

abbreviation due :: "'a lwip \<Rightarrow> nat list \<Rightarrow> due_entry list" where
  "due s ns \<equiv> due_from (timeo_mem s) 0 ns"

text \<open>\<open>ns\<close> are the nodes of the list of timeouts, \<open>fs\<close> those of the pool; every due time fits in a word.\<close>

definition timers_ok :: "'a lwip \<Rightarrow> nat list \<Rightarrow> nat list \<Rightarrow> bool" where
  "timers_ok s ns fs \<longleftrightarrow> timeo_seg (timeo_mem s) (next_timeout s) ns \<and> timeo_seg (timeo_mem s) (memp_tab s) fs \<and>
     distinct (ns @ fs) \<and> set (ns @ fs) = {..<MEMP_NUM_SYS_TIMEOUT} \<and> (\<forall>x \<in> set (due s ns). fst x < 2 ^ 32)"

lemma timeo_seg_cong: "(\<And>n. n \<in> set ns \<Longrightarrow> tnext (m' n) = tnext (m n)) \<Longrightarrow> timeo_seg m' p ns = timeo_seg m p ns"
  by (induction ns arbitrary: p) auto

lemma due_from_cong:
  "(\<And>n. n \<in> set ns \<Longrightarrow> time (m' n) = time (m n) \<and> h (m' n) = h (m n) \<and> arg (m' n) = arg (m n)) \<Longrightarrow>
    due_from m' acc ns = due_from m acc ns"
  by (induction ns arbitrary: acc) auto

lemma due_from_ge: "x \<in> set (due_from m acc ns) \<Longrightarrow> acc \<le> fst x"
  by (induction ns arbitrary: acc) (auto dest: le_trans [rotated] intro: le_trans [OF le_add1])

lemma upd_timeo_same [simp]: "upd_timeo n f m n = f (m n)"
  by (simp add: upd_timeo_def)

lemma upd_timeo_other [simp]: "j \<noteq> n \<Longrightarrow> upd_timeo n f m j = m j"
  by (simp add: upd_timeo_def)

subsection \<open>Inserting\<close>

definition insert_due :: "due_entry \<Rightarrow> due_entry list \<Rightarrow> due_entry list" where
  "insert_due x l = takeWhile (\<lambda>y. fst y \<le> fst x) l @ x # dropWhile (\<lambda>y. fst y \<le> fst x) l"

lemma insert_due_Nil [simp]: "insert_due x [] = [x]"
  by (simp add: insert_due_def)

lemma insert_due_after: "fst y \<le> fst x \<Longrightarrow> insert_due x (y # l) = y # insert_due x l"
  by (simp add: insert_due_def)

lemma insert_due_before: "fst x < fst y \<Longrightarrow> insert_due x (y # l) = x # y # l"
  by (simp add: insert_due_def)

lemma set_insert_due: "set (insert_due x l) = insert x (set l)"
proof -
  have "set l = set (takeWhile (\<lambda>y. fst y \<le> fst x) l) \<union> set (dropWhile (\<lambda>y. fst y \<le> fst x) l)"
    by (metis set_append takeWhile_dropWhile_id)
  then show ?thesis by (auto simp: insert_due_def)
qed

lemma timeout_walk_Some:
  "timeout_walk n (Some i) m =
     (let m1 = upd_timeo n (\<lambda>x. x\<lparr>time := time x - time (m i)\<rparr>) m
      in case tnext (m1 i) of
           None \<Rightarrow> Some (upd_timeo i (\<lambda>x. x\<lparr>tnext := Some n\<rparr>) (upd_timeo n (\<lambda>x. x\<lparr>tnext := None\<rparr>) m1))
         | Some j \<Rightarrow> if time (m1 j) > time (m1 n)
             then Some (upd_timeo i (\<lambda>x. x\<lparr>tnext := Some n\<rparr>) (upd_timeo n (\<lambda>x. x\<lparr>tnext := Some j\<rparr>)
                    (upd_timeo j (\<lambda>x. x\<lparr>time := time x - time (m1 n)\<rparr>) m1)))
             else timeout_walk n (Some j) m1)"
  by (subst timeout_walk.simps) (auto simp: Let_def split: option.splits)

lemma timeout_walk_ok:
  assumes "timeo_seg m (Some i) (i # ns)" "distinct (i # ns)" "n \<notin> set (i # ns)" "time (m i) \<le> time (m n)"
  shows "\<exists>m' ns'. timeout_walk n (Some i) m = Some m' \<and> timeo_seg m' (Some i) (i # ns') \<and> distinct (i # ns') \<and>
    set (i # ns') = insert n (set (i # ns)) \<and> (\<forall>j. j \<notin> set (i # ns') \<longrightarrow> m' j = m j) \<and>
    due_from m' acc (i # ns') = insert_due (acc + unat (time (m n)), h (m n), arg (m n)) (due_from m acc (i # ns))"
  using assms
proof (induction ns arbitrary: i m acc)
  case Nil
  let ?m1 = "upd_timeo n (\<lambda>x. x\<lparr>time := time x - time (m i)\<rparr>) m"
  let ?m' = "upd_timeo i (\<lambda>x. x\<lparr>tnext := Some n\<rparr>) (upd_timeo n (\<lambda>x. x\<lparr>tnext := None\<rparr>) ?m1)"
  have ne: "i \<noteq> n" "n \<noteq> i" and le: "unat (time (m i)) \<le> unat (time (m n))" using Nil by (auto simp: word_le_nat_alt)
  have "timeout_walk n (Some i) m = Some ?m'" using Nil ne by (simp add: timeout_walk_Some)
  moreover have "due_from ?m' acc [i, n] = insert_due (acc + unat (time (m n)), h (m n), arg (m n)) (due_from m acc [i])"
    using ne le Nil.prems(4) by (simp add: insert_due_after unat_sub)
  ultimately show ?case using ne Nil by (intro exI [of _ ?m'] exI [of _ "[n]"]) auto
next
  case (Cons j ns)
  let ?m1 = "upd_timeo n (\<lambda>x. x\<lparr>time := time x - time (m i)\<rparr>) m"
  let ?x = "(acc + unat (time (m n)), h (m n), arg (m n))"
  have ne: "i \<noteq> n" "n \<noteq> i" "j \<noteq> n" "n \<noteq> j" "i \<noteq> j" "j \<noteq> i" and le: "unat (time (m i)) \<le> unat (time (m n))"
    using Cons.prems by (auto simp: word_le_nat_alt)
  have nx: "tnext (m i) = Some j" "timeo_seg m (tnext (m j)) ns" using Cons.prems(1) by auto
  have t1: "unat (time (?m1 n)) = unat (time (m n)) - unat (time (m i))" using Cons.prems(4) by (simp add: unat_sub)
  have dm1: "due_from ?m1 a (j # ns) = due_from m a (j # ns)" for a
    by (rule due_from_cong) (use Cons.prems(3) in \<open>auto simp: upd_timeo_def\<close>)
  show ?case
  proof (cases "time (?m1 j) > time (?m1 n)")
    case True
    let ?m' = "upd_timeo i (\<lambda>x. x\<lparr>tnext := Some n\<rparr>) (upd_timeo n (\<lambda>x. x\<lparr>tnext := Some j\<rparr>)
                    (upd_timeo j (\<lambda>x. x\<lparr>time := time x - time (?m1 n)\<rparr>) ?m1))"
    have w: "timeout_walk n (Some i) m = Some ?m'" using True ne nx by (simp add: timeout_walk_Some Let_def)
    have d: "due_from ?m' a ns = due_from m a ns" for a
      by (rule due_from_cong) (use Cons.prems(2,3) in \<open>auto simp: upd_timeo_def\<close>)
    have sg: "timeo_seg ?m' (tnext (m j)) ns"
      by (subst timeo_seg_cong [of ns _ m]) (use Cons.prems(2,3) nx(2) in \<open>auto simp: upd_timeo_def\<close>)
    have tj: "unat (time (m j)) > unat (time (m n)) - unat (time (m i))"
      using True ne t1 by (simp add: word_less_nat_alt)
    have tj': "unat (time (m j) - (time (m n) - time (m i))) = unat (time (m j)) - (unat (time (m n)) - unat (time (m i)))"
      using True ne t1 by (simp add: unat_sub word_less_nat_alt word_le_nat_alt)
    have "due_from ?m' acc (i # n # j # ns) = insert_due ?x (due_from m acc (i # j # ns))"
      using ne le tj tj' t1 d [of "acc + (unat (time (m i)) + unat (time (m j)))"]
      by (simp add: insert_due_after insert_due_before ac_simps)
    then show ?thesis using w sg ne Cons.prems
      by (intro exI [of _ ?m'] exI [of _ "n # j # ns"]) (auto simp: nx(1))
  next
    case False
    then have le2: "time (?m1 j) \<le> time (?m1 n)" by simp
    have w: "timeout_walk n (Some i) m = timeout_walk n (Some j) ?m1" using False ne nx by (simp add: timeout_walk_Some Let_def)
    have s1: "timeo_seg ?m1 (Some j) (j # ns)"
      by (subst timeo_seg_cong [of "j # ns" _ m]) (use Cons.prems(1,3) nx in \<open>auto simp: upd_timeo_def\<close>)
    have ds: "distinct (j # ns)" "n \<notin> set (j # ns)" using Cons.prems(2,3) by simp_all
    obtain m' ns' where *: "timeout_walk n (Some j) ?m1 = Some m'" "timeo_seg m' (Some j) (j # ns')" "distinct (j # ns')"
      "set (j # ns') = insert n (set (j # ns))" "\<forall>k. k \<notin> set (j # ns') \<longrightarrow> m' k = ?m1 k"
      "due_from m' (acc + unat (time (m i))) (j # ns') =
        insert_due (acc + unat (time (m i)) + unat (time (?m1 n)), h (?m1 n), arg (?m1 n)) (due_from ?m1 (acc + unat (time (m i))) (j # ns))"
      using Cons.IH [OF s1 ds le2, of "acc + unat (time (m i))"] by blast
    have ni: "i \<notin> set (j # ns')" using *(4) Cons.prems(2) ne by auto
    then have mi: "m' i = m i" using *(5) ne by simp
    have "acc + unat (time (m i)) + unat (time (?m1 n)) = acc + unat (time (m n))" "h (?m1 n) = h (m n)" "arg (?m1 n) = arg (m n)"
      using t1 le by simp_all
    then have 6: "due_from m' (acc + unat (time (m i))) (j # ns') = insert_due ?x (due_from m (acc + unat (time (m i))) (j # ns))"
      using *(6) by (simp only: dm1)
    have step: "due_from k acc (i # l) = (acc + unat (time (k i)), h (k i), arg (k i)) # due_from k (acc + unat (time (k i))) l" for k l
      by simp
    have "due_from m' acc (i # j # ns') = insert_due ?x (due_from m acc (i # j # ns))"
      using le unfolding step mi 6 by (subst insert_due_after) simp_all
    moreover have "\<forall>k. k \<notin> set (i # j # ns') \<longrightarrow> m' k = m k" using *(4,5) by auto
    ultimately show ?thesis using w * ni mi nx(1)
      by (intro exI [of _ m'] exI [of _ "j # ns'"]) auto
  qed
qed

text \<open>Nothing but the timeouts and their pool differs.\<close>

definition timers_only :: "'a lwip \<Rightarrow> 'a lwip \<Rightarrow> bool" where
  "timers_only s s' \<longleftrightarrow> (\<exists>m x p. s' = s\<lparr>timeo_mem := m, memp_tab := p, next_timeout := x\<rparr>)"

lemma timers_onlyI: "s' = s\<lparr>timeo_mem := m, memp_tab := p, next_timeout := x\<rparr> \<Longrightarrow> timers_only s s'"
  unfolding timers_only_def by blast

lemma timers_onlyD:
  assumes "timers_only s s'"
  shows "kern s' = kern s" "stack s' = stack s" "tcpip_tcp_timer_active s' = tcpip_tcp_timer_active s"
  using assms by (auto simp: timers_only_def)

lemma sys_timeout_ok:
  assumes ok: "timers_ok s ns (n # fs)"
  shows "\<exists>s' ns'. sys_timeout ms hn a s = Some s' \<and> timers_only s s' \<and> timers_ok s' ns' fs \<and>
    due s' ns' = insert_due (unat ms, hn, a) (due s ns)"
proof -
  let ?mem = "timeo_mem s"
  let ?m = "upd_timeo n (\<lambda>_. \<lparr>tnext = None, time = ms, h = hn, arg = a\<rparr>) ?mem"
  have sg: "timeo_seg ?mem (next_timeout s) ns" "memp_tab s = Some n" "timeo_seg ?mem (tnext (?mem n)) fs"
    and dst: "distinct ns" "distinct fs" "n \<notin> set ns" "n \<notin> set fs" "set ns \<inter> set fs = {}"
    and st: "insert n (set ns \<union> set fs) = {..<8}" and bd: "\<forall>x \<in> set (due s ns). fst x < 2 ^ 32"
    using ok by (auto simp: timers_ok_def)
  have mal: "memp_malloc s = (Some n, s\<lparr>memp_tab := tnext (?mem n)\<rparr>)" by (simp add: memp_malloc_def sg(2))
  have dm: "due_from ?m k ns = due_from ?mem k ns" for k
    by (rule due_from_cong) (use dst(3) in \<open>auto simp: upd_timeo_def\<close>)
  have main: "\<exists>s' ns'. sys_timeout ms hn a s = Some s' \<and> timers_only s s' \<and> timers_ok s' ns' fs \<and>
      due s' ns' = insert_due (unat ms, hn, a) (due s ns)"
    if r: "sys_timeout ms hn a s = Some (s\<lparr>memp_tab := tnext (?mem n), timeo_mem := m', next_timeout := x\<rparr>)"
      and "timeo_seg m' x ns'" "distinct ns'" "set ns' = insert n (set ns)" "\<forall>j. j \<notin> set ns' \<longrightarrow> m' j = ?m j"
      "due_from m' 0 ns' = insert_due (unat ms, hn, a) (due s ns)" for m' x ns'
  proof (intro exI conjI)
    let ?s = "s\<lparr>memp_tab := tnext (?mem n), timeo_mem := m', next_timeout := x\<rparr>"
    show "timers_only s ?s" by (rule timers_onlyI [where m = m' and p = "tnext (?mem n)" and x = x]) simp
    have "m' j = ?mem j" if "j \<in> set fs" for j
      using that \<open>\<forall>j. j \<notin> set ns' \<longrightarrow> m' j = ?m j\<close> \<open>set ns' = _\<close> dst(4,5) by (auto simp: upd_timeo_def)
    then have "timeo_seg m' (tnext (?mem n)) fs" using sg(3) by (subst timeo_seg_cong [of fs _ ?mem]) auto
    moreover have "fst y < 2 ^ 32" if "y \<in> set (due_from m' 0 ns')" for y
    proof -
      have "unat ms < 2 ^ 32" using unsigned_less [of ms, where ?'a = nat] by simp
      then show ?thesis using that bd unfolding \<open>due_from m' 0 ns' = _\<close> set_insert_due by auto
    qed
    ultimately show "timers_ok ?s ns' fs"
      using that dst st unfolding timers_ok_def by auto
  qed (use that in simp_all)
  show ?thesis
  proof (cases ns)
    case Nil
    then have "next_timeout s = None" using sg(1) by simp
    then show ?thesis
      by (intro main [where m' = ?m and x = "Some n" and ns' = "[n]"]) (use Nil mal in \<open>auto simp: sys_timeout_def Let_def\<close>)
  next
    case (Cons f ns0)
    then have nf: "next_timeout s = Some f" "f \<noteq> n" "n \<noteq> f" using sg(1) dst(3) by auto
    have seg: "timeo_seg ?m (Some f) (f # ns0)"
      by (subst timeo_seg_cong [of "f # ns0" _ ?mem]) (use sg(1) nf dst(3) Cons in \<open>auto simp: upd_timeo_def\<close>)
    show ?thesis
    proof (cases "time (?m f) > ms")
      case True
      let ?m' = "upd_timeo n (\<lambda>x. x\<lparr>tnext := Some f\<rparr>) (upd_timeo f (\<lambda>x. x\<lparr>time := time x - ms\<rparr>) ?m)"
      have d: "due_from ?m' k ns0 = due_from ?mem k ns0" for k
        by (rule due_from_cong) (use dst(1,3) Cons in \<open>auto simp: upd_timeo_def\<close>)
      have t: "unat (time (?mem f) - ms) = unat (time (?mem f)) - unat ms" "unat ms < unat (time (?mem f))"
        using True nf by (simp_all add: unat_sub word_less_nat_alt word_le_nat_alt)
      have "due_from ?m' 0 (n # ns) = insert_due (unat ms, hn, a) (due s ns)"
        using nf t d [of "unat (time (?mem f))"] by (simp add: Cons insert_due_before)
      moreover have "timeo_seg ?m' (Some n) (n # ns)"
        using seg nf by (simp add: Cons) (subst timeo_seg_cong [of ns0 _ ?m], use dst(1,3) Cons in \<open>auto simp: upd_timeo_def\<close>)
      ultimately show ?thesis
        by (intro main [where m' = ?m' and x = "Some n" and ns' = "n # ns"])
          (use True mal nf dst(1,3) Cons in \<open>auto simp: sys_timeout_def Let_def\<close>)
    next
      case False
      then have le: "time (?m f) \<le> time (?m n)" using nf by simp
      have ds: "distinct (f # ns0)" "n \<notin> set (f # ns0)" using dst(1,3) Cons by simp_all
      obtain m' ns' where *: "timeout_walk n (Some f) ?m = Some m'" "timeo_seg m' (Some f) (f # ns')" "distinct (f # ns')"
        "set (f # ns') = insert n (set (f # ns0))" "\<forall>j. j \<notin> set (f # ns') \<longrightarrow> m' j = ?m j"
        "due_from m' 0 (f # ns') = insert_due (0 + unat (time (?m n)), h (?m n), arg (?m n)) (due_from ?m 0 (f # ns0))"
        using timeout_walk_ok [OF seg ds le, of 0] by blast
      have "due_from m' 0 (f # ns') = insert_due (unat ms, hn, a) (due s ns)"
        using *(6) unfolding dm [unfolded Cons] unfolding Cons by simp
      moreover have "sys_timeout ms hn a s = Some (s\<lparr>memp_tab := tnext (?mem n), timeo_mem := m', next_timeout := Some f\<rparr>)"
        using False mal nf *(1) by (simp add: sys_timeout_def Let_def)
      ultimately show ?thesis using * Cons by (intro main [where m' = "m'" and x = "Some f" and ns' = "f # ns'"]) simp_all
    qed
  qed
qed

subsection \<open>Cancelling\<close>

fun cancel :: "sys_timeout_handler \<Rightarrow> u32 \<Rightarrow> due_entry list \<Rightarrow> due_entry list" where
  "cancel hn a [] = []"
| "cancel hn a (x # l) = (if snd x = (hn, a) then l else x # cancel hn a l)"

lemma set_cancel: "set (cancel hn a l) \<subseteq> set l"
  by (induction l) auto

text \<open>Taking node \<open>n\<close> out behind \<open>prev\<close>.\<close>

definition timeo_unlink :: "nat \<Rightarrow> nat option \<Rightarrow> 'a lwip \<Rightarrow> 'a lwip" where
  "timeo_unlink n prev s = memp_free n (let rest = tnext (timeo_mem s n);
     s1 = (case prev of None \<Rightarrow> s\<lparr>next_timeout := rest\<rparr>
           | Some p \<Rightarrow> s\<lparr>timeo_mem := upd_timeo p (\<lambda>x. x\<lparr>tnext := rest\<rparr>) (timeo_mem s)\<rparr>)
     in case rest of None \<Rightarrow> s1
        | Some j \<Rightarrow> s1\<lparr>timeo_mem := upd_timeo j (\<lambda>x. x\<lparr>time := time x + time (timeo_mem s1 n)\<rparr>) (timeo_mem s1)\<rparr>)"

abbreviation hit :: "sys_timeout_handler \<Rightarrow> u32 \<Rightarrow> sys_timeo \<Rightarrow> bool" where
  "hit hn a t \<equiv> h t = hn \<and> arg t = a"

lemma untimeout_walk_simps:
  "untimeout_walk hn a prev None s = Some s"
  "untimeout_walk hn a prev (Some i) s = (if hit hn a (timeo_mem s i) then Some (timeo_unlink i prev s)
     else untimeout_walk hn a (Some i) (tnext (timeo_mem s i)) s)"
  by (subst untimeout_walk.simps; simp add: timeo_unlink_def Let_def)+

lemma untimeout_walk_miss:
  "timeo_seg (timeo_mem s) t ns \<Longrightarrow> \<forall>n \<in> set ns. \<not> hit hn a (timeo_mem s n) \<Longrightarrow> untimeout_walk hn a prev t s = Some s"
  by (induction ns arbitrary: t prev) (auto simp: untimeout_walk_simps)

lemma untimeout_walk_hit:
  "timeo_seg (timeo_mem s) t (pre @ n # post) \<Longrightarrow> \<forall>i \<in> set pre. \<not> hit hn a (timeo_mem s i) \<Longrightarrow>
    hit hn a (timeo_mem s n) \<Longrightarrow>
    untimeout_walk hn a prev t s = Some (timeo_unlink n (if pre = [] then prev else Some (last pre)) s)"
  by (induction pre arbitrary: t prev) (auto simp: untimeout_walk_simps)

lemma timeo_seg_skip:
  "timeo_seg m p (pre @ n # post) \<Longrightarrow> distinct (pre @ n # post) \<Longrightarrow> pre \<noteq> [] \<Longrightarrow>
    timeo_seg (upd_timeo (last pre) (\<lambda>x. x\<lparr>tnext := tnext (m n)\<rparr>) m) p (pre @ post)"
proof (induction pre arbitrary: p)
  case (Cons i pre)
  show ?case
  proof (cases "pre = []")
    case True
    have "timeo_seg (upd_timeo i (\<lambda>x. x\<lparr>tnext := tnext (m n)\<rparr>) m) (tnext (m n)) post"
      by (subst timeo_seg_cong [of post _ m]) (use Cons.prems True in \<open>auto simp: upd_timeo_def\<close>)
    then show ?thesis using Cons.prems True by simp
  next
    case False
    then have "last pre \<noteq> i" using Cons.prems(2) by auto
    with False Cons show ?thesis by simp
  qed
qed simp

lemma due_from_append:
  "due_from m acc (xs @ ys) = due_from m acc xs @ due_from m (acc + sum_list (map (\<lambda>n. unat (time (m n))) xs)) ys"
  by (induction xs arbitrary: acc) (simp_all add: add.assoc)

lemma cancel_due_miss: "\<forall>n \<in> set ns. \<not> hit hn a (m n) \<Longrightarrow> cancel hn a (due_from m acc ns @ l) = due_from m acc ns @ cancel hn a l"
  by (induction ns arbitrary: acc) auto

text \<open>A node that goes gives its time to the next one.\<close>

lemma due_from_give:
  assumes "\<forall>x \<in> set (due_from m acc (n # post)). fst x < 2 ^ 32" "distinct (n # post)"
    and m': "\<And>i. i \<in> set post \<Longrightarrow> h (m' i) = h (m i) \<and> arg (m' i) = arg (m i) \<and>
      time (m' i) = (if Some i = tnext (m n) then time (m i) + time (m n) else time (m i))"
    and seg: "timeo_seg m (tnext (m n)) post"
  shows "due_from m' acc post = due_from m (acc + unat (time (m n))) post"
proof (cases post)
  case (Cons j post')
  have j: "tnext (m n) = Some j" using seg Cons by simp
  have "acc + unat (time (m n)) + unat (time (m j)) < 2 ^ 32" using assms(1) Cons by simp
  then have "unat (time (m j) + time (m n)) = unat (time (m j)) + unat (time (m n))"
    by (subst unat_add_lem [THEN iffD1]) simp_all
  then have tj: "unat (time (m' j)) = unat (time (m n)) + unat (time (m j))" using m' [of j] Cons j by simp
  have "due_from m' k post' = due_from m k post'" for k
    by (rule due_from_cong) (use m' Cons j assms(2) in \<open>auto split: if_splits\<close>)
  then show ?thesis using tj m' [of j] Cons by (simp add: add.assoc)
qed simp

lemma timeo_seg_tail: "timeo_seg m p (pre @ n # post) \<Longrightarrow> timeo_seg m (tnext (m n)) post"
  by (induction pre arbitrary: p) auto

lemma timeo_unlink_sel:
  "memp_tab (timeo_unlink n prev s) = Some n" "tnext (timeo_mem (timeo_unlink n prev s) n) = memp_tab s"
  "next_timeout (timeo_unlink n prev s) = (if prev = None then tnext (timeo_mem s n) else next_timeout s)"
  "i \<noteq> n \<Longrightarrow> prev \<noteq> Some n \<Longrightarrow> tnext (timeo_mem (timeo_unlink n prev s) i) = (if prev = Some i then tnext (timeo_mem s n) else tnext (timeo_mem s i))"
  "i \<noteq> n \<Longrightarrow> time (timeo_mem (timeo_unlink n prev s) i) =
     (if Some i = tnext (timeo_mem s n) then time (timeo_mem s i) + time (timeo_mem s n) else time (timeo_mem s i))"
  "h (timeo_mem (timeo_unlink n prev s) i) = h (timeo_mem s i)" "arg (timeo_mem (timeo_unlink n prev s) i) = arg (timeo_mem s i)"
  by (auto simp: timeo_unlink_def memp_free_def Let_def upd_timeo_def split: option.split)

lemma timeo_unlink_only: "timers_only s (timeo_unlink n prev s)"
  by (rule timers_onlyI [where m = "timeo_mem (timeo_unlink n prev s)" and p = "Some n" and
        x = "next_timeout (timeo_unlink n prev s)"])
    (simp add: timeo_unlink_def memp_free_def Let_def split: option.split)

text \<open>Taking the node \<open>n\<close> off the list: the links, and the due times.\<close>

lemma timeo_unlink_segs:
  assumes ok: "timers_ok s ns fs" and ns: "ns = pre @ n # post"
  defines "s' \<equiv> timeo_unlink n (if pre = [] then None else Some (last pre)) s"
  shows "timeo_seg (timeo_mem s') (next_timeout s') (pre @ post)" "timeo_seg (timeo_mem s') (memp_tab s') (n # fs)"
proof -
  have sg: "timeo_seg (timeo_mem s) (next_timeout s) ns" using ok by (simp add: timers_ok_def)
  let ?m = "timeo_mem s" and ?prev = "if pre = [] then None else Some (last pre)"
  let ?s = "timeo_unlink n ?prev s"
  have dst: "distinct (pre @ n # post)" "set fs \<inter> set ns = {}" "distinct fs" using ok ns by (auto simp: timers_ok_def)
  have np: "?prev \<noteq> Some n" using dst(1) last_in_set [of pre] by auto
  note sel = timeo_unlink_sel [where n = n and prev = ?prev and s = s] timeo_unlink_sel(4) [OF _ np, where s = s]
  have tn: "tnext (timeo_mem ?s i) = tnext (?m i)" if "i \<in> set post \<union> set fs" for i
  proof -
    have "i \<noteq> n" "i \<notin> set pre" using that dst(1,2) ns by auto
    then have "i \<noteq> n" "?prev \<noteq> Some i" using last_in_set [of pre] by auto
    then show ?thesis using sel(8) [of i] by simp
  qed
  have seg: "timeo_seg (timeo_mem ?s) (next_timeout ?s) (pre @ post)"
  proof (cases "pre = []")
    case True
    have "timeo_seg (timeo_mem ?s) (tnext (?m n)) post"
      using timeo_seg_tail [OF sg [unfolded ns]] by (subst timeo_seg_cong [of post _ ?m]) (simp_all add: tn)
    then show ?thesis using True by (simp add: timeo_unlink_sel(3))
  next
    case False
    have "tnext (timeo_mem ?s i) = tnext (upd_timeo (last pre) (\<lambda>x. x\<lparr>tnext := tnext (?m n)\<rparr>) ?m i)"
      if i: "i \<in> set (pre @ post)" for i
    proof -
      have "i \<noteq> n" using i dst(1) by auto
      then show ?thesis using sel(8) [of i] False by (auto simp: upd_timeo_def)
    qed
    from timeo_seg_cong [of "pre @ post", OF this] show ?thesis
      using timeo_seg_skip [OF sg [unfolded ns] dst(1) False] False by (simp add: timeo_unlink_sel(3))
  qed
  have fseg: "timeo_seg (timeo_mem ?s) (memp_tab ?s) (n # fs)"
  proof -
    have "timeo_seg (timeo_mem ?s) (memp_tab s) fs"
      by (subst timeo_seg_cong [of fs _ ?m]) (rule tn, use ok in \<open>simp_all add: timers_ok_def\<close>)
    then show ?thesis by (simp only: timeo_seg.simps timeo_unlink_sel(1,2))
  qed
  show "timeo_seg (timeo_mem s') (next_timeout s') (pre @ post)" "timeo_seg (timeo_mem s') (memp_tab s') (n # fs)"
    unfolding s'_def by (rule seg, rule fseg)
qed

lemma timeo_unlink_due:
  assumes ok: "timers_ok s ns fs" and ns: "ns = pre @ n # post" "hit hn a (timeo_mem s n)" "\<forall>i \<in> set pre. \<not> hit hn a (timeo_mem s i)"
  defines "s' \<equiv> timeo_unlink n (if pre = [] then None else Some (last pre)) s"
  shows "due s' (pre @ post) = cancel hn a (due s ns)"
proof -
  have sg: "timeo_seg (timeo_mem s) (next_timeout s) ns" using ok by (simp add: timers_ok_def)
  let ?m = "timeo_mem s" and ?prev = "if pre = [] then None else Some (last pre)"
  let ?s = "timeo_unlink n ?prev s"
  have dst: "distinct (pre @ n # post)" using ok ns(1) by (auto simp: timers_ok_def)
  have np: "?prev \<noteq> Some n" using dst last_in_set [of pre] by auto
  note sel = timeo_unlink_sel [where n = n and prev = ?prev and s = s] timeo_unlink_sel(4) [OF _ np, where s = s]
  have "\<forall>x \<in> set (due s ns). fst x < 2 ^ 32" using ok by (simp add: timers_ok_def)
  note bd = this
  have pre: "due_from (timeo_mem ?s) 0 pre = due_from ?m 0 pre \<and>
      map (\<lambda>i. unat (time (timeo_mem ?s i))) pre = map (\<lambda>i. unat (time (?m i))) pre"
  proof -
    have "time (timeo_mem ?s i) = time (?m i)" if "i \<in> set pre" for i
    proof -
      have "Some i \<noteq> tnext (?m n)"
        using timeo_seg_tail [OF sg [unfolded ns(1)]] that dst by (cases post) auto
      moreover have "i \<noteq> n" using that dst by auto
      ultimately show ?thesis using sel(5) [of i] by simp
    qed
    then show ?thesis by (intro conjI due_from_cong) (simp_all add: timeo_unlink_sel(6,7))
  qed
  let ?S = "sum_list (map (\<lambda>i. unat (time (?m i))) pre)"
  have post: "due_from (timeo_mem ?s) ?S post = due_from ?m (?S + unat (time (?m n))) post"
  proof (rule due_from_give)
    show "\<forall>x \<in> set (due_from ?m ?S (n # post)). fst x < 2 ^ 32"
      using bd unfolding ns(1) due_from_append by simp
    show "distinct (n # post)" using dst by simp
    show "timeo_seg ?m (tnext (?m n)) post" by (rule timeo_seg_tail [OF sg [unfolded ns(1)]])
    show "h (timeo_mem ?s i) = h (?m i) \<and> arg (timeo_mem ?s i) = arg (?m i) \<and>
        time (timeo_mem ?s i) = (if Some i = tnext (?m n) then time (?m i) + time (?m n) else time (?m i))"
      if i: "i \<in> set post" for i
    proof -
      have "i \<noteq> n" using i dst by auto
      then show ?thesis using sel(5) [of i] by (simp add: timeo_unlink_sel(6,7))
    qed
  qed
  show "due s' (pre @ post) = cancel hn a (due s ns)"
    unfolding s'_def ns(1) due_from_append cancel_due_miss [OF ns(3)] pre [THEN conjunct1] pre [THEN conjunct2] add_0 post
    using ns(2) by (simp only: due_from.simps cancel.simps snd_conv) simp
qed

lemma sys_untimeout_ok:
  assumes ok: "timers_ok s ns fs"
  shows "\<exists>s' ns' fs'. sys_untimeout hn a s = Some s' \<and> timers_only s s' \<and> timers_ok s' ns' fs' \<and>
    due s' ns' = cancel hn a (due s ns)"
proof -
  have sg: "timeo_seg (timeo_mem s) (next_timeout s) ns" using ok by (simp add: timers_ok_def)
  have w: "sys_untimeout hn a s = untimeout_walk hn a None (next_timeout s) s"
    by (cases "next_timeout s") (simp_all add: sys_untimeout_def untimeout_walk_simps)
  show ?thesis
  proof (cases "\<forall>n \<in> set ns. \<not> hit hn a (timeo_mem s n)")
    case True
    have "timers_only s s" by (rule timers_onlyI [where m = "timeo_mem s" and p = "memp_tab s" and x = "next_timeout s"]) simp
    then show ?thesis
      using untimeout_walk_miss [OF sg True] cancel_due_miss [OF True, of 0 "[]"] ok w by auto
  next
    case False
    then obtain pre n post where ns: "ns = pre @ n # post" "hit hn a (timeo_mem s n)" "\<forall>i \<in> set pre. \<not> hit hn a (timeo_mem s i)"
      using split_list_first_prop [of ns "\<lambda>n. hit hn a (timeo_mem s n)"] by blast
    let ?s = "timeo_unlink n (if pre = [] then None else Some (last pre)) s"
    have due: "due ?s (pre @ post) = cancel hn a (due s ns)" by (rule timeo_unlink_due [OF ok ns])
    have dst: "distinct (pre @ n # post)" "set fs \<inter> set ns = {}" "distinct fs" "\<forall>x \<in> set (due s ns). fst x < 2 ^ 32"
      using ok ns(1) by (auto simp: timers_ok_def)
    have "timers_ok ?s (pre @ post) (n # fs)"
      using ok dst timeo_unlink_segs [OF ok ns(1)] ns(1) set_cancel [of hn a "due s ns"] unfolding timers_ok_def due by auto
    moreover have "sys_untimeout hn a s = Some ?s"
      unfolding w using untimeout_walk_hit [OF sg [unfolded ns(1)] ns(3,2)] .
    ultimately show ?thesis using timeo_unlink_only due by blast
  qed
qed

subsection \<open>Time passes\<close>

definition later :: "nat \<Rightarrow> due_entry list \<Rightarrow> due_entry list" where
  "later k l = map (\<lambda>x. (k + fst x, snd x)) l"

lemma later_simps [simp]: "later k [] = []" "later k (x # l) = (k + fst x, snd x) # later k l"
  "snd ` set (later k l) = snd ` set l"
  by (simp_all add: later_def image_image)

lemma due_from_later: "due_from m (k + acc) ns = later k (due_from m acc ns)"
  by (induction ns arbitrary: acc) (simp_all add: add.assoc)

lemma later_bound: "\<forall>x \<in> set (later k l). fst x < b \<Longrightarrow> \<forall>x \<in> set l. fst x < b" for b :: nat
  by (auto simp: later_def)

lemma timeout_passed_ok:
  assumes ok: "timers_ok s (n # ns) fs"
  shows "\<exists>s'. timeout_passed d s = Some s' \<and> timers_only s s' \<and> timers_ok s' (n # ns) fs \<and>
    due s (n # ns) = later (min (unat d) (unat (time (timeo_mem s n)))) (due s' (n # ns))"
proof -
  let ?m = "timeo_mem s"
  let ?m' = "upd_timeo n (\<lambda>t. if d < time t then t\<lparr>time := time t - d\<rparr> else t\<lparr>time := 0\<rparr>) ?m"
  let ?s = "s\<lparr>timeo_mem := ?m'\<rparr>" and ?k = "min (unat d) (unat (time (?m n)))"
  have nx: "tnext (?m' i) = tnext (?m i)" for i by (simp add: upd_timeo_def)
  have d: "distinct (n # ns)" and hd: "next_timeout s = Some n" using ok by (simp_all add: timers_ok_def)
  have rest: "due_from ?m' a ns = due_from ?m a ns" for a
    by (rule due_from_cong) (use d in \<open>auto simp: upd_timeo_def\<close>)
  have t: "?k + unat (time (?m' n)) = unat (time (?m n))"
    by (auto simp: word_less_nat_alt unat_sub word_le_nat_alt not_less)
  have "h (?m' n) = h (?m n)" "arg (?m' n) = arg (?m n)" by simp_all
  then have due: "due s (n # ns) = later ?k (due ?s (n # ns))"
    using t rest due_from_later [of ?m ?k "unat (time (?m' n))" ns] by simp
  have "timers_ok ?s (n # ns) fs"
    using ok later_bound [of ?k "due ?s (n # ns)" "2 ^ 32"] unfolding timers_ok_def due [symmetric]
    by (simp add: timeo_seg_cong [of _ ?m' ?m, OF nx])
  moreover have "timers_only s ?s"
    by (rule timers_onlyI [where m = ?m' and p = "memp_tab s" and x = "next_timeout s"]) simp
  moreover have "timeout_passed d s = Some ?s" by (simp add: timeout_passed_def hd)
  ultimately show ?thesis using due by blast
qed

text \<open>The first node leaves the list and heads the pool.\<close>

lemma timeout_pop_ok:
  assumes ok: "timers_ok s (n # ns) fs"
  defines "s1 \<equiv> memp_free n (s\<lparr>next_timeout := tnext (timeo_mem s n)\<rparr>)"
  shows "timers_ok s1 ns (n # fs)" "timers_only s s1"
    "due s (n # ns) = (unat (time (timeo_mem s n)), h (timeo_mem s n), arg (timeo_mem s n)) #
       later (unat (time (timeo_mem s n))) (due s1 ns)"
proof -
  let ?m = "timeo_mem s"
  have d: "distinct (n # ns @ fs)" using ok by (auto simp: timers_ok_def)
  have m: "timeo_mem s1 = upd_timeo n (\<lambda>t. t\<lparr>tnext := memp_tab s\<rparr>) ?m" "memp_tab s1 = Some n" "next_timeout s1 = tnext (?m n)"
    by (simp_all add: s1_def memp_free_def)
  have rest: "due_from (timeo_mem s1) a ns = due_from ?m a ns" for a
    by (rule due_from_cong) (simp add: m upd_timeo_def)
  have seg: "timeo_seg (timeo_mem s1) p l = timeo_seg ?m p l" if "n \<notin> set l" for p l
    by (rule timeo_seg_cong) (use that in \<open>auto simp: m upd_timeo_def\<close>)
  show due: "due s (n # ns) = (unat (time (?m n)), h (?m n), arg (?m n)) # later (unat (time (?m n))) (due s1 ns)"
    using due_from_later [of ?m "unat (time (?m n))" 0 ns] by (simp add: rest)
  have "\<forall>x \<in> set (due s (n # ns)). fst x < 2 ^ 32" using ok by (simp add: timers_ok_def)
  then have "\<forall>x \<in> set (due s1 ns). fst x < 2 ^ 32"
    unfolding due using later_bound [of "unat (time (?m n))" "due s1 ns" "2 ^ 32"] by simp
  moreover have "timeo_seg (timeo_mem s1) (next_timeout s1) ns" "timeo_seg (timeo_mem s1) (memp_tab s1) (n # fs)"
    using ok d seg [of ns] seg [of fs] by (simp_all add: timers_ok_def m)
  ultimately show "timers_ok s1 ns (n # fs)" using ok d by (auto simp: timers_ok_def)
  show "timers_only s s1"
    by (rule timers_onlyI [where m = "timeo_mem s1" and p = "Some n" and x = "next_timeout s1"]) (simp add: s1_def memp_free_def)
qed

subsection \<open>Periodic handlers\<close>

text \<open>All handlers of \<open>H\<close> are in the list, and at most \<open>z\<close> timeouts are due at once.\<close>

definition zeros :: "due_entry list \<Rightarrow> nat" where
  "zeros l = length (filter (\<lambda>x. fst x = 0) l)"

definition live_upto :: "'a lwip \<Rightarrow> sys_timeout_handler set \<Rightarrow> nat \<Rightarrow> bool" where
  "live_upto s H z \<longleftrightarrow> (\<exists>ns fs. timers_ok s ns fs \<and> H \<subseteq> fst ` snd ` set (due s ns) \<and> zeros (due s ns) \<le> z)"

definition live :: "'a lwip \<Rightarrow> sys_timeout_handler set \<Rightarrow> bool" where
  "live s H \<longleftrightarrow> (\<exists>ns fs. timers_ok s ns fs \<and> H \<subseteq> fst ` snd ` set (due s ns))"

lemma live_upto_live: "live_upto s H z \<Longrightarrow> live s H"
  unfolding live_def live_upto_def by blast

lemma live_some: "live s H \<Longrightarrow> \<exists>z. live_upto s H z"
  unfolding live_def live_upto_def by blast

lemma live_mono: "live s H \<Longrightarrow> K \<subseteq> H \<Longrightarrow> live s K"
  unfolding live_def by blast

lemma zeros_Cons [simp]: "zeros (x # l) = (if fst x = 0 then Suc (zeros l) else zeros l)"
  by (simp add: zeros_def)

lemma zeros_insert_due:
  assumes "fst x \<noteq> 0"
  shows "zeros (insert_due x l) = zeros l"
proof -
  have "filter (\<lambda>x. fst x = 0) l = filter (\<lambda>x. fst x = 0) (takeWhile (\<lambda>y. fst y \<le> fst x) l @ dropWhile (\<lambda>y. fst y \<le> fst x) l)"
    by (simp only: takeWhile_dropWhile_id)
  also have "length \<dots> = zeros (insert_due x l)" using assms unfolding zeros_def insert_due_def filter_append length_append by simp
  finally show ?thesis by (simp only: zeros_def)
qed

lemma zeros_cancel: "zeros (cancel hn a l) \<le> zeros l"
  by (induction l) auto

lemma cancel_other: "fst (snd x) \<noteq> hn \<Longrightarrow> x \<in> set l \<Longrightarrow> x \<in> set (cancel hn a l)"
  by (induction l) auto

lemma later_0 [simp]: "later 0 l = l"
  by (simp add: later_def)

lemma timers_ok_cong:
  "timeo_mem s' = timeo_mem s \<Longrightarrow> memp_tab s' = memp_tab s \<Longrightarrow> next_timeout s' = next_timeout s \<Longrightarrow>
    timers_ok s' ns fs = timers_ok s ns fs"
  by (simp add: timers_ok_def)

lemma live_cong:
  assumes "timeo_mem s' = timeo_mem s" "memp_tab s' = memp_tab s" "next_timeout s' = next_timeout s"
  shows "live s' H = live s H" "live_upto s' H z = live_upto s H z"
  unfolding live_def live_upto_def using timers_ok_cong [OF assms] assms(1) by simp_all

text \<open>A mailbox on which the running task can wait.\<close>

definition usable :: "lwip_mbox \<Rightarrow> os \<Rightarrow> bool" where
  "usable mbox k \<longleftrightarrow> (\<exists>c e q. kernel_ok k c \<and> may_block k c \<and> pQ mbox = Some e \<and> q_of k e q)"

text \<open>What a handler of the application may do: set timeouts of its own that are not due at once, cancel such,
  start the TCP timer, and change the kernel and the rest of the stack.\<close>

inductive handler_run :: "'a lwip stack_ops \<Rightarrow> lwip_mbox \<Rightarrow> 'a lwip \<Rightarrow> 'a lwip \<Rightarrow> bool" for ops mbox s where
  nothing: "handler_run ops mbox s s"
| set: "handler_run ops mbox s s1 \<Longrightarrow> ms \<noteq> 0 \<Longrightarrow> sys_timeout ms (App k) a s1 = Some s2 \<Longrightarrow> handler_run ops mbox s s2"
| cancel: "handler_run ops mbox s s1 \<Longrightarrow> sys_untimeout (App k) a s1 = Some s2 \<Longrightarrow> handler_run ops mbox s s2"
| tcp: "handler_run ops mbox s s1 \<Longrightarrow> tcp_timer_needed ops s1 = Some s2 \<Longrightarrow> handler_run ops mbox s s2"
| other: "handler_run ops mbox s s1 \<Longrightarrow> usable mbox k \<Longrightarrow> handler_run ops mbox s (s1\<lparr>kern := k, stack := v\<rparr>)"

text \<open>What is assumed of the code behind the parameters: the timers of IP reassembly and ARP return and leave the timeouts
  alone; the TCP timer and the handlers of the application return after such a run.\<close>

definition ops_ok :: "'a lwip stack_ops \<Rightarrow> lwip_mbox \<Rightarrow> bool" where
  "ops_ok ops mbox \<longleftrightarrow>
     (\<forall>f \<in> {ip_reass_tmr ops, etharp_tmr ops}. \<forall>s. usable mbox (kern s) \<longrightarrow>
        (\<exists>k v. usable mbox k \<and> f s = Some (s\<lparr>kern := k, stack := v\<rparr>))) \<and>
     (\<forall>f \<in> insert (tcp_tmr ops) {app_handler ops k a | k a. True}. \<forall>s. usable mbox (kern s) \<longrightarrow> live s {} \<longrightarrow>
        (\<exists>s'. f s = Some s' \<and> handler_run ops mbox s s'))"

lemma ops_okD:
  assumes "ops_ok ops mbox"
  shows "f \<in> {ip_reass_tmr ops, etharp_tmr ops} \<Longrightarrow> usable mbox (kern s) \<Longrightarrow> \<exists>k v. usable mbox k \<and> f s = Some (s\<lparr>kern := k, stack := v\<rparr>)"
    and "f \<in> insert (tcp_tmr ops) {app_handler ops k a | k a. True} \<Longrightarrow> usable mbox (kern s) \<Longrightarrow> live s {} \<Longrightarrow>
      \<exists>s'. f s = Some s' \<and> handler_run ops mbox s s'"
  by (rule conjunct1 [OF assms [unfolded ops_ok_def], THEN bspec, THEN spec, THEN mp], assumption+)
    (rule conjunct2 [OF assms [unfolded ops_ok_def], THEN bspec, THEN spec, THEN mp, THEN mp], assumption+)

abbreviation periodic :: "sys_timeout_handler set" where
  "periodic \<equiv> {Ip_reass_timer, Arp_timer}"

lemma sys_timeout_upto:
  assumes "live_upto s H z" and "ms \<noteq> 0"
  shows "\<exists>s'. sys_timeout ms hn a s = Some s' \<and> live_upto s' H z \<and> kern s' = kern s"
proof -
  obtain ns fs where l: "timers_ok s ns fs" "H \<subseteq> fst ` snd ` set (due s ns)" "zeros (due s ns) \<le> z"
    using assms(1) unfolding live_upto_def by blast
  show ?thesis
  proof (cases fs)
    case Nil
    then have "sys_timeout ms hn a s = Some s" using l(1) by (simp add: timers_ok_def sys_timeout_def memp_malloc_def)
    then show ?thesis using assms(1) by blast
  next
    case (Cons n fs')
    obtain s' ns' where s': "sys_timeout ms hn a s = Some s'" "timers_only s s'" "timers_ok s' ns' fs'"
        "due s' ns' = insert_due (unat ms, hn, a) (due s ns)"
      using sys_timeout_ok [OF l(1) [unfolded Cons]] by blast
    have "zeros (due s' ns') = zeros (due s ns)" unfolding s'(4) by (rule zeros_insert_due) (simp add: assms(2) unat_eq_zero)
    moreover have "H \<subseteq> fst ` snd ` set (due s' ns')" unfolding s'(4) set_insert_due using l(2) by auto
    ultimately have "live_upto s' H z" unfolding live_upto_def using s'(3) l(3) by auto
    then show ?thesis using s'(1) timers_onlyD(1) [OF s'(2)] by blast
  qed
qed

lemma sys_untimeout_upto:
  assumes "live_upto s H z" and "H \<subseteq> periodic"
  shows "\<exists>s'. sys_untimeout (App k) a s = Some s' \<and> live_upto s' H z \<and> kern s' = kern s"
proof -
  obtain ns fs where l: "timers_ok s ns fs" "H \<subseteq> fst ` snd ` set (due s ns)" "zeros (due s ns) \<le> z"
    using assms(1) unfolding live_upto_def by blast
  obtain s' ns' fs' where s': "sys_untimeout (App k) a s = Some s'" "timers_only s s'" "timers_ok s' ns' fs'"
      "due s' ns' = cancel (App k) a (due s ns)"
    using sys_untimeout_ok [OF l(1)] by blast
  have "hn \<in> fst ` snd ` set (due s' ns')" if hn: "hn \<in> H" for hn
  proof -
    obtain x where x: "x \<in> set (due s ns)" "fst (snd x) = hn" using l(2) hn by fastforce
    have "fst (snd x) \<noteq> App k" using x(2) hn assms(2) by auto
    from cancel_other [OF this x(1), of a] x(2) show ?thesis unfolding s'(4) by force
  qed
  moreover have "zeros (due s' ns') \<le> z" unfolding s'(4) using zeros_cancel [of "App k" a "due s ns"] l(3) by linarith
  ultimately have "live_upto s' H z" unfolding live_upto_def using s'(3) by blast
  then show ?thesis using s'(1) timers_onlyD(1) [OF s'(2)] by blast
qed

lemma handler_run_keeps:
  assumes "handler_run ops mbox s s'" and "live_upto s H z" and "H \<subseteq> periodic" and "usable mbox (kern s)"
  shows "live_upto s' H z \<and> usable mbox (kern s')"
  using assms(1)
proof induction
  case nothing
  then show ?case using assms(2,4) by simp
next
  case (set s1 ms k a s2)
  then show ?case using sys_timeout_upto [of s1 H z ms "App k" a] by auto
next
  case (cancel s1 k a s2)
  then show ?case using sys_untimeout_upto [of s1 H z k a] assms(3) by auto
next
  case (tcp s1 s2)
  show ?case
  proof (cases "\<not> tcpip_tcp_timer_active s1 \<and> tcp_pcbs ops s1")
    case True
    have "live_upto (s1\<lparr>tcpip_tcp_timer_active := True\<rparr>) H z" using tcp.IH live_cong(2) [of "s1\<lparr>tcpip_tcp_timer_active := True\<rparr>" s1] by simp
    from sys_timeout_upto [OF this, of TCP_TMR_INTERVAL Tcpip_tcp_timer 0] True tcp show ?thesis
      by (auto simp: tcp_timer_needed_def)
  qed (use tcp in \<open>auto simp: tcp_timer_needed_def\<close>)
next
  case (other s1 k v)
  then show ?case using live_cong(2) [of "s1\<lparr>kern := k, stack := v\<rparr>" s1] by simp
qed

text \<open>A periodic timer is set again with the node it has just given back.\<close>

lemma restart_upto:
  assumes f: "f s = Some (s\<lparr>kern := k, stack := v\<rparr>)" and "timers_ok s ns (n # fs)" and "ms \<noteq> 0" and "H \<subseteq> insert hn (fst ` snd ` set (due s ns))"
  shows "\<exists>s'. Option.bind (f s) (sys_timeout ms hn a) = Some s' \<and> live_upto s' H (zeros (due s ns)) \<and> kern s' = k"
proof -
  let ?s = "s\<lparr>kern := k, stack := v\<rparr>"
  have "timers_ok ?s ns (n # fs)" using assms(2) timers_ok_cong [of ?s s] by simp
  then obtain s' ns' where s': "sys_timeout ms hn a ?s = Some s'" "timers_only ?s s'" "timers_ok s' ns' fs"
      "due s' ns' = insert_due (unat ms, hn, a) (due s ns)"
    using sys_timeout_ok [of ?s ns n fs ms hn a] by auto
  have "zeros (due s' ns') = zeros (due s ns)" unfolding s'(4) by (rule zeros_insert_due) (simp add: assms(3) unat_eq_zero)
  moreover have "H \<subseteq> fst ` snd ` set (due s' ns')" unfolding s'(4) set_insert_due using assms(4) by auto
  ultimately have "live_upto s' H (zeros (due s ns))" unfolding live_upto_def using s'(3) by auto
  then show ?thesis using f s'(1) timers_onlyD(1) [OF s'(2)] by simp
qed

lemma timeout_fire_upto:
  assumes ops: "ops_ok ops mbox" and l: "timers_ok s (n # ns) fs" "periodic \<subseteq> fst ` snd ` set (due s (n # ns))"
    and u: "usable mbox (kern s)"
  defines "s1 \<equiv> memp_free n (s\<lparr>next_timeout := tnext (timeo_mem s n)\<rparr>)"
  shows "\<exists>s'. timeout_fire ops s = Some s' \<and> live_upto s' periodic (zeros (due s1 ns)) \<and> usable mbox (kern s')"
proof -
  let ?t = "timeo_mem s n"
  note pop = timeout_pop_ok [OF l(1), folded s1_def]
  have u1: "usable mbox (kern s1)" using u timers_onlyD(1) [OF pop(2)] by simp
  have "fst ` snd ` set (due s (n # ns)) = insert (h ?t) (fst ` snd ` set (due s1 ns))"
    unfolding pop(3) list.set image_insert later_simps(3) by simp
  then have sub: "periodic \<subseteq> insert (h ?t) (fst ` snd ` set (due s1 ns))" using l(2) by simp
  have rest: "live_upto s1 (periodic - {h ?t}) (zeros (due s1 ns))"
    unfolding live_upto_def using sub by (intro exI [of _ ns] exI [of _ "n # fs"] conjI pop(1)) auto
  then have lv: "live s1 {}" using live_upto_live live_mono by blast
  have fire: "timeout_fire ops s = call_handler ops (h ?t) (arg ?t) s1"
    using l(1) by (simp add: timeout_fire_def timers_ok_def Let_def s1_def)
  have restart: "\<exists>s'. Option.bind (f s1) (sys_timeout ms (h ?t) 0) = Some s' \<and> live_upto s' periodic (zeros (due s1 ns)) \<and> usable mbox (kern s')"
    if f0: "f \<in> {ip_reass_tmr ops, etharp_tmr ops}" and ms: "ms \<noteq> 0" for f ms
  proof -
    obtain k v where f: "usable mbox k" "f s1 = Some (s1\<lparr>kern := k, stack := v\<rparr>)"
      using ops_okD(1) [OF ops f0 u1] by (elim exE conjE)
    show ?thesis using restart_upto [where f = f and s = s1, OF f(2) pop(1) ms sub, of 0] f(1) by auto
  qed
  have run: "\<exists>s'. f s1 = Some s' \<and> live_upto s' (periodic - {h ?t}) (zeros (due s1 ns)) \<and> usable mbox (kern s')"
    if f0: "f \<in> insert (tcp_tmr ops) {app_handler ops k a | k a. True}" for f
  proof -
    obtain s' where s': "f s1 = Some s'" "handler_run ops mbox s1 s'" using ops_okD(2) [OF ops f0 u1 lv] by (elim exE conjE)
    then show ?thesis using handler_run_keeps [OF s'(2) rest _ u1] by blast
  qed
  show ?thesis
  proof (cases "h ?t")
    case HNull
    then show ?thesis using rest u1 by (simp add: fire call_handler_def)
  next
    case Tcpip_tcp_timer
    obtain s2 where s2: "tcp_tmr ops s1 = Some s2" "live_upto s2 periodic (zeros (due s1 ns))" "usable mbox (kern s2)"
      using run [of "tcp_tmr ops"] Tcpip_tcp_timer by auto
    show ?thesis
    proof (cases "tcp_pcbs ops s2")
      case True
      then show ?thesis using sys_timeout_upto [OF s2(2), of TCP_TMR_INTERVAL Tcpip_tcp_timer 0] s2(1,3) Tcpip_tcp_timer
        by (auto simp: fire call_handler_def tcpip_tcp_timer_def)
    next
      case False
      then show ?thesis using live_cong(2) [of "s2\<lparr>tcpip_tcp_timer_active := False\<rparr>" s2] s2 Tcpip_tcp_timer
        by (simp add: fire call_handler_def tcpip_tcp_timer_def)
    qed
  next
    case Ip_reass_timer
    then show ?thesis using restart [of "ip_reass_tmr ops" IP_TMR_INTERVAL] by (simp add: fire call_handler_def ip_reass_timer_def)
  next
    case Arp_timer
    then show ?thesis using restart [of "etharp_tmr ops" ARP_TMR_INTERVAL] by (simp add: fire call_handler_def arp_timer_def)
  next
    case (App i)
    then show ?thesis using run [of "app_handler ops i (arg ?t)"] by (auto simp: fire call_handler_def)
  qed
qed

lemma live_first:
  assumes "live_upto s periodic z"
  obtains n ns fs where "timers_ok s (n # ns) fs" "periodic \<subseteq> fst ` snd ` set (due s (n # ns))" "zeros (due s (n # ns)) \<le> z"
    "next_timeout s = Some n"
proof -
  obtain ns0 fs where l: "timers_ok s ns0 fs" "periodic \<subseteq> fst ` snd ` set (due s ns0)" "zeros (due s ns0) \<le> z"
    using assms unfolding live_upto_def by blast
  then obtain n ns where ns: "ns0 = n # ns" by (cases ns0) auto
  have "next_timeout s = Some n" using l(1) by (simp add: ns timers_ok_def)
  then show ?thesis by (rule that [OF l [unfolded ns]])
qed

lemma live_kern [simp]: "live (s\<lparr>kern := k\<rparr>) H = live s H"
  by (rule live_cong) simp_all

lemma timeout_passed_live:
  assumes "live s periodic"
  shows "\<exists>s'. timeout_passed d s = Some s' \<and> live s' periodic"
proof -
  obtain z where "live_upto s periodic z" using live_some [OF assms] by blast
  then obtain n ns fs where l: "timers_ok s (n # ns) fs" "periodic \<subseteq> fst ` snd ` set (due s (n # ns))"
    by (rule live_first)
  obtain s' where s': "timeout_passed d s = Some s'" "timers_ok s' (n # ns) fs"
      "due s (n # ns) = later (min (unat d) (unat (time (timeo_mem s n)))) (due s' (n # ns))"
    using timeout_passed_ok [OF l(1), of d] by blast
  have "periodic \<subseteq> fst ` snd ` set (due s' (n # ns))" using l(2) unfolding s'(3) later_simps(3) .
  then show ?thesis using s'(1,2) unfolding live_def by blast
qed

text \<open>As many rounds as timeouts are due at once, then the fetch returns or blocks.\<close>

lemma fetch_live:
  assumes ops: "ops_ok ops mbox" and "live_upto s periodic z" and "usable mbox (kern s)"
  shows "\<exists>q. sys_timeouts_mbox_fetch ops mbox s = Some q \<and> live (snd q) periodic"
  using assms(2,3)
proof (induction z arbitrary: s rule: less_induct)
  case (less z)
  obtain n ns fs where l: "timers_ok s (n # ns) fs" "periodic \<subseteq> fst ` snd ` set (due s (n # ns))" "zeros (due s (n # ns)) \<le> z"
    and nt: "next_timeout s = Some n"
    using less.prems(1) by (rule live_first)
  have lv: "live s periodic" by (rule live_upto_live [OF less.prems(1)])
  show ?case
  proof (cases "time (timeo_mem s n) > 0")
    case True
    obtain c e q where k: "kernel_ok (kern s) c" "may_block (kern s) c" "pQ mbox = Some e" "q_of (kern s) e q"
      using less.prems(2) unfolding usable_def by blast
    show ?thesis
    proof (cases "q_list (kern s) q = []")
      case empty: True
      obtain k1 where "sys_arch_mbox_fetch mbox (time (timeo_mem s n)) (kern s) = Some (Blocks, k1)"
        using sys_arch_mbox_fetch_ok(2) [OF k(1,2,4,3) empty] by blast
      then have "sys_timeouts_mbox_fetch ops mbox s = Some (Blocks, s\<lparr>kern := k1\<rparr>)"
        using nt True by (subst sys_timeouts_mbox_fetch.simps) simp
      then show ?thesis using lv by simp
    next
      case False
      obtain m k1 where k1: "sys_arch_mbox_fetch mbox (time (timeo_mem s n)) (kern s) = Some (Returns (4294967, m), k1)"
        using sys_arch_mbox_fetch_ok(1) [OF k(1,2,4,3) False] by blast
      obtain s2 where s2: "timeout_passed 4294967 (s\<lparr>kern := k1\<rparr>) = Some s2" "live s2 periodic"
        using timeout_passed_live [of "s\<lparr>kern := k1\<rparr>" 4294967] lv by auto
      have "sys_timeouts_mbox_fetch ops mbox s = Some (Returns m, s2)"
        using nt True k1 s2(1) by (subst sys_timeouts_mbox_fetch.simps) simp
      then show ?thesis using s2(2) by simp
    qed
  next
    case False
    let ?s1 = "memp_free n (s\<lparr>next_timeout := tnext (timeo_mem s n)\<rparr>)"
    have "unat (time (timeo_mem s n)) = 0" using False by (simp add: word_gt_0)
    then have z: "zeros (due ?s1 ns) < z" using l(3) unfolding timeout_pop_ok(3) [OF l(1)] by simp
    obtain s2 where s2: "timeout_fire ops s = Some s2" "live_upto s2 periodic (zeros (due ?s1 ns))" "usable mbox (kern s2)"
      using timeout_fire_upto [OF ops l(1,2) less.prems(2)] by blast
    have "sys_timeouts_mbox_fetch ops mbox s = sys_timeouts_mbox_fetch ops mbox s2"
      using nt False s2(1) by (subst sys_timeouts_mbox_fetch.simps) simp
    then show ?thesis using less.IH [OF z s2(2,3)] by simp
  qed
qed

lemma timeout_fire_live:
  assumes "ops_ok ops mbox" and "live s periodic" and "usable mbox (kern s)"
  shows "\<exists>s' z. timeout_fire ops s = Some s' \<and> live_upto s' periodic z \<and> usable mbox (kern s')"
proof -
  obtain z where "live_upto s periodic z" using live_some [OF assms(2)] by blast
  then obtain n ns fs where l: "timers_ok s (n # ns) fs" "periodic \<subseteq> fst ` snd ` set (due s (n # ns))"
    by (rule live_first)
  show ?thesis using timeout_fire_upto [OF assms(1) l assms(3)] by blast
qed

lemma resume_live:
  assumes ops: "ops_ok ops mbox" and lv: "live s periodic" and r: "sys_arch_mbox_fetch_resume mbox t0 (kern s) = Some (r, k)" and u: "usable mbox k"
  shows "\<exists>q. sys_timeouts_mbox_fetch_resume ops mbox limited t0 s = Some q \<and> live (snd q) periodic"
proof -
  let ?s = "s\<lparr>kern := k\<rparr>"
  have lv1: "live ?s periodic" and u1: "usable mbox (kern ?s)" using lv u by simp_all
  obtain s2 z where s2: "timeout_fire ops ?s = Some s2" "live_upto s2 periodic z" "usable mbox (kern s2)"
    using timeout_fire_live [OF ops lv1 u1] by blast
  obtain q where q: "sys_timeouts_mbox_fetch ops mbox s2 = Some q" "live (snd q) periodic"
    using fetch_live [OF ops s2(2,3)] by blast
  obtain s3 where s3: "timeout_passed (fst r) ?s = Some s3" "live s3 periodic" using timeout_passed_live [OF lv1] by blast
  consider "\<not> limited" | "limited" "fst r = SYS_ARCH_TIMEOUT" | "limited" "fst r \<noteq> SYS_ARCH_TIMEOUT" by blast
  then show ?thesis
  proof cases
    case 1
    then show ?thesis using r lv1 by (simp add: sys_timeouts_mbox_fetch_resume_def)
  next
    case 2
    then show ?thesis using r s2(1) q by (simp add: sys_timeouts_mbox_fetch_resume_def)
  next
    case 3
    then show ?thesis using r s3 by (simp add: sys_timeouts_mbox_fetch_resume_def)
  qed
qed

lemma sys_timeout_live:
  assumes "timers_ok s ns (n # fs)"
  shows "\<exists>s'. sys_timeout ms hn a s = Some s' \<and> live s' (insert hn (fst ` snd ` set (due s ns)))"
proof -
  obtain s' ns' where s': "sys_timeout ms hn a s = Some s'" "timers_ok s' ns' fs" "due s' ns' = insert_due (unat ms, hn, a) (due s ns)"
    using sys_timeout_ok [OF assms] by blast
  have "insert hn (fst ` snd ` set (due s ns)) \<subseteq> fst ` snd ` set (due s' ns')"
    unfolding s'(3) set_insert_due by auto
  with s'(1,2) show ?thesis unfolding live_def by blast
qed

subsection \<open>Start\<close>

lemma memp_carve_seg:
  "timeo_seg (timeo_mem s) (memp_tab s) fs \<Longrightarrow> set fs \<inter> {j..} = {} \<Longrightarrow>
    timeo_seg (timeo_mem (memp_carve n j s)) (memp_tab (memp_carve n j s)) (rev [j..<j + n] @ fs) \<and>
    next_timeout (memp_carve n j s) = next_timeout s \<and> kern (memp_carve n j s) = kern s"
proof (induction n arbitrary: j s fs)
  case (Suc n)
  let ?s = "s\<lparr>timeo_mem := upd_timeo j (\<lambda>t. t\<lparr>tnext := memp_tab s\<rparr>) (timeo_mem s), memp_tab := Some j\<rparr>"
  have "timeo_seg (timeo_mem ?s) (memp_tab s) fs"
    by (subst timeo_seg_cong [of fs _ "timeo_mem s"]) (use Suc.prems in \<open>auto simp: upd_timeo_def\<close>)
  then have "timeo_seg (timeo_mem ?s) (memp_tab ?s) (j # fs)" by simp
  moreover have "set (j # fs) \<inter> {Suc j..} = {}" using Suc.prems(2) by auto
  moreover have "rev [j..<j + Suc n] @ fs = rev [Suc j..<Suc j + n] @ (j # fs)" by (simp add: upt_conv_Cons del: upt_Suc)
  ultimately show ?case using Suc.IH [of ?s "j # fs" "Suc j"] by simp
qed simp

lemma memp_init_ok:
  assumes "next_timeout s = None"
  shows "timers_ok (memp_init s) [] [7, 6, 5, 4, 3, 2, 1, 0]"
proof -
  have "rev [0..<0 + 8] = [7, 6, 5, 4, 3, 2, 1, 0::nat]" by (simp add: upt_rec)
  moreover have "{..<8} = set [7, 6, 5, 4, 3, 2, 1, 0 :: nat]" by auto
  ultimately show ?thesis
    using memp_carve_seg [of "s\<lparr>memp_tab := None\<rparr>" "[]" 0 8] assms unfolding timers_ok_def memp_init_def
    by (simp del: upt_Suc)
qed

lemma sys_timeouts_init_live:
  assumes "next_timeout s = None"
  shows "\<exists>s'. sys_timeouts_init (memp_init s) = Some s' \<and> live s' periodic \<and> kern s' = kern s"
proof -
  obtain s1 ns1 where s1: "sys_timeout IP_TMR_INTERVAL Ip_reass_timer 0 (memp_init s) = Some s1" "timers_only (memp_init s) s1"
    "timers_ok s1 ns1 [6, 5, 4, 3, 2, 1, 0]" "due s1 ns1 = [(1000, Ip_reass_timer, 0)]"
    using sys_timeout_ok [OF memp_init_ok [OF assms], of IP_TMR_INTERVAL Ip_reass_timer 0] by auto
  obtain s2 where s2: "sys_timeout ARP_TMR_INTERVAL Arp_timer 0 s1 = Some s2" "live s2 (insert Arp_timer (fst ` snd ` set (due s1 ns1)))"
    using sys_timeout_live [OF s1(3), of ARP_TMR_INTERVAL Arp_timer 0] by blast
  have "timers_only s1 s2" using sys_timeout_ok [OF s1(3), of ARP_TMR_INTERVAL Arp_timer 0] s2(1) by auto
  moreover have "kern (memp_init s) = kern s" using memp_carve_seg [of "s\<lparr>memp_tab := None\<rparr>" "[]" 0 8] by (simp add: memp_init_def)
  ultimately have "kern s2 = kern s" using timers_onlyD(1) [OF s1(2)] timers_onlyD(1) [of s1 s2] by simp
  then show ?thesis using s1(1,4) s2 by (auto simp: sys_timeouts_init_def insert_commute)
qed

text \<open>A state for the witnesses: the kernel of \<open>sample\<close>, no timeouts yet.\<close>

definition lwip_raw :: "unit lwip" where
  "lwip_raw = \<lparr>kern = sample, timeo_mem = (\<lambda>_. \<lparr>tnext = None, time = 0, h = HNull, arg = 0\<rparr>), memp_tab = None,
     next_timeout = None, tcpip_tcp_timer_active = False, stack = ()\<rparr>"

definition lwip_start :: "unit lwip" where
  "lwip_start = memp_init lwip_raw"

text \<open>Handlers of the application that set themselves again.\<close>

definition idle_ops :: "unit lwip stack_ops" where
  "idle_ops = \<lparr>tcp_tmr = Some, tcp_pcbs = (\<lambda>_. False), ip_reass_tmr = Some, etharp_tmr = Some, app_handler = (\<lambda>k a. sys_timeout 100 (App k) a)\<rparr>"

lemma lwip_raw: "next_timeout lwip_raw = None" "kern lwip_raw = sample"
  by (simp_all add: lwip_raw_def)

lemma lwip_start_ok: "timers_ok lwip_start [] [7, 6, 5, 4, 3, 2, 1, 0]"
  unfolding lwip_start_def by (rule memp_init_ok [OF lwip_raw(1)])

lemma idle_ops_ok: "ops_ok idle_ops mbox"
  unfolding ops_ok_def
proof (intro conjI ballI allI impI)
  fix f and s :: "unit lwip"
  assume "f \<in> {ip_reass_tmr idle_ops, etharp_tmr idle_ops}" "usable mbox (kern s)"
  then show "\<exists>k v. usable mbox k \<and> f s = Some (s\<lparr>kern := k, stack := v\<rparr>)"
    by (intro exI [of _ "kern s"] exI [of _ "stack s"]) (auto simp: idle_ops_def)
next
  fix f and s :: "unit lwip"
  assume f: "f \<in> insert (tcp_tmr idle_ops) {app_handler idle_ops k a | k a. True}" and lv: "live s {}"
  show "\<exists>s'. f s = Some s' \<and> handler_run idle_ops mbox s s'"
  proof (cases "f = tcp_tmr idle_ops")
    case True
    then show ?thesis by (intro exI [of _ s]) (simp add: idle_ops_def handler_run.nothing)
  next
    case False
    then obtain k a where f': "f = sys_timeout 100 (App k) a" using f by (auto simp: idle_ops_def)
    obtain z where "live_upto s {} z" using live_some [OF lv] by blast
    then obtain s' where "sys_timeout 100 (App k) a s = Some s'" using sys_timeout_upto [of s "{}" z 100 "App k" a] by auto
    then show ?thesis unfolding f' using handler_run.set [OF handler_run.nothing, of 100 k a s s'] by simp
  qed
qed

lemma sample_usable: "usable \<lparr>pQ = Some 4, pvQEntries = 100\<rparr> sample"
  unfolding usable_def using sample_kernel_ok sample_may_block sample_q(1) by auto

lemma lwip_start_kern: "kern lwip_start = sample"
  using memp_carve_seg [of "lwip_raw\<lparr>memp_tab := None\<rparr>" "[]" 0 8] by (simp add: lwip_start_def memp_init_def lwip_raw)

subsection \<open>Properties\<close>

text \<open>C34: The list of timeouts with its time differences implements a list of absolute times: \<open>sys_timeout\<close> inserts the new
  time behind all that are due before it or with it, moves no other, and takes its node from the pool; with
  an empty pool nothing changes. The walk always ends and no difference underflows.\<close>

theorem sys_timeout_spec:
  assumes "timers_ok s ns fs"
  shows "case fs of
      [] \<Rightarrow> sys_timeout ms hn a s = Some s
    | n # fs' \<Rightarrow> \<exists>s' ns'. sys_timeout ms hn a s = Some s' \<and> timers_only s s' \<and> timers_ok s' ns' fs' \<and>
        due s' ns' = insert_due (unat ms, hn, a) (due s ns)"
proof (cases fs)
  case Nil
  then have "memp_tab s = None" using assms by (simp add: timers_ok_def)
  then show ?thesis using Nil by (simp add: sys_timeout_def memp_malloc_def)
next
  case (Cons n fs')
  then show ?thesis using sys_timeout_ok [of s ns n fs'] assms by simp
qed

theorem sys_timeout_spec_witness:
  "\<exists>s1 s2 ns1 ns2. sys_timeout 500 (App 1) 0 lwip_start = Some s1 \<and> due s1 ns1 = [(500, App 1, 0)] \<and>
    sys_timeout 300 (App 2) 0 s1 = Some s2 \<and> due s2 ns2 = [(300, App 2, 0), (500, App 1, 0)]"
proof -
  obtain s1 ns1 where s1: "sys_timeout 500 (App 1) 0 lwip_start = Some s1" "timers_ok s1 ns1 [6, 5, 4, 3, 2, 1, 0]"
    "due s1 ns1 = [(500, App 1, 0)]"
    using sys_timeout_spec [OF lwip_start_ok, of 500 "App 1" 0] by auto
  show ?thesis
    using sys_timeout_spec [OF s1(2), of 300 "App 2" 0] s1 by (auto simp: insert_due_before)
qed

text \<open>\<open>sys_untimeout\<close> takes the first timeout with the handler and argument off the list, gives its node back to the pool
  and leaves the due time of every other timeout as it was; without such a timeout nothing changes.\<close>

theorem sys_untimeout_spec:
  assumes "timers_ok s ns fs"
  shows "\<exists>s' ns' fs'. sys_untimeout hn a s = Some s' \<and> timers_only s s' \<and> timers_ok s' ns' fs' \<and>
    due s' ns' = cancel hn a (due s ns)"
  by (rule sys_untimeout_ok [OF assms])

theorem sys_untimeout_spec_witness:
  "\<exists>s1 s2 ns. sys_timeout 500 (App 1) 0 lwip_start = Some s1 \<and> sys_untimeout (App 1) 0 s1 = Some s2 \<and> due s2 ns = []"
proof -
  obtain s1 ns1 where s1: "sys_timeout 500 (App 1) 0 lwip_start = Some s1" "timers_ok s1 ns1 [6, 5, 4, 3, 2, 1, 0]"
    "due s1 ns1 = [(500, App 1, 0)]"
    using sys_timeout_ok [OF lwip_start_ok, of 500 "App 1" 0] by auto
  show ?thesis using sys_untimeout_spec [OF s1(2), of "App 1" 0] s1 by auto
qed

text \<open>C35: The periodic timers of IP reassembly and ARP are never lost. With both in the list and a mailbox the thread can wait on: firing
  the first timeout returns and leaves both in the list, because the node freed before the handler runs serves its
  restart; \<open>sys_timeouts_mbox_fetch\<close> returns or blocks, however many timeouts are due at once, with both in the list; and so does
  the rest of a call that has blocked, once the kernel has ended the wait and left the mailbox usable. Assumed is of the code behind the parameters
  that \<open>ip_reass_tmr\<close> and \<open>etharp_tmr\<close> return without a change of the timeouts, and that \<open>tcp_tmr\<close> and
  the handlers of the application return after setting timeouts of the application with a delay that is not 0, cancelling such, starting the
  TCP timer, and changing the kernel and the stack as they like, so long as the mailbox stays usable.\<close>

theorem periodic_timers_live:
  assumes "ops_ok ops mbox" and "live s {Ip_reass_timer, Arp_timer}" and "usable mbox (kern s)"
  shows "(\<exists>s'. timeout_fire ops s = Some s' \<and> live s' {Ip_reass_timer, Arp_timer}) \<and>
    (\<exists>q. sys_timeouts_mbox_fetch ops mbox s = Some q \<and> live (snd q) {Ip_reass_timer, Arp_timer}) \<and>
    (\<forall>limited t0 r k. sys_arch_mbox_fetch_resume mbox t0 (kern s) = Some (r, k) \<and> usable mbox k \<longrightarrow>
       (\<exists>q. sys_timeouts_mbox_fetch_resume ops mbox limited t0 s = Some q \<and> live (snd q) {Ip_reass_timer, Arp_timer}))"
proof -
  obtain z where z: "live_upto s periodic z" using live_some [OF assms(2)] by blast
  have "\<exists>s'. timeout_fire ops s = Some s' \<and> live s' periodic" using timeout_fire_live [OF assms] live_upto_live by blast
  then show ?thesis using fetch_live [OF assms(1) z assms(3)] resume_live [OF assms(1,2)] by blast
qed

theorem periodic_timers_live_witness:
  "\<exists>s s' q. sys_timeouts_init lwip_start = Some s \<and> timeout_fire idle_ops s = Some s' \<and> live s' {Ip_reass_timer, Arp_timer} \<and>
    sys_timeouts_mbox_fetch idle_ops \<lparr>pQ = Some 4, pvQEntries = 100\<rparr> s = Some q \<and> live (snd q) {Ip_reass_timer, Arp_timer}"
proof -
  obtain s where s: "sys_timeouts_init lwip_start = Some s" "live s {Ip_reass_timer, Arp_timer}" "kern s = sample"
    unfolding lwip_start_def using sys_timeouts_init_live [OF lwip_raw(1)] lwip_raw(2) by auto
  have "usable \<lparr>pQ = Some 4, pvQEntries = 100\<rparr> (kern s)" unfolding s(3) by (rule sample_usable)
  from periodic_timers_live [OF idle_ops_ok s(2) this] s(1) show ?thesis by blast
qed

text \<open>C36: A message that is already in the mailbox makes the next timer fire early, when not more than 4294967 milliseconds (72
  minutes) are left of it: the fetch returns at once, but the 4294967 milliseconds it reports are taken off the
  list, so that the first timeout is due immediately, and all others come earlier by as much.\<close>

theorem message_fires_timer:
  assumes "timers_ok s (n # ns) fs" and "0 < time (timeo_mem s n)" and "unat (time (timeo_mem s n)) \<le> 4294967"
    and "kernel_ok (kern s) c" and "may_block (kern s) c" and "q_of (kern s) e q" and "pQ mbox = Some e" and "q_list (kern s) q \<noteq> []"
  shows "\<exists>s'. sys_timeouts_mbox_fetch ops mbox s = Some (Returns (msg_out (hd (q_list (kern s) q))), s') \<and>
    OSTimeGet (kern s') = OSTimeGet (kern s) \<and> kernel_ok (kern s') c \<and> timers_ok s' (n # ns) fs \<and>
    due s (n # ns) = later (unat (time (timeo_mem s n))) (due s' (n # ns)) \<and> time (timeo_mem s' n) = 0"
proof -
  let ?t = "time (timeo_mem s n)"
  obtain k where k: "sys_arch_mbox_fetch mbox ?t (kern s) = Some (Returns (4294967, msg_out (hd (q_list (kern s) q))), k)"
    "q_holds (kern s) q (tl (q_list (kern s) q)) k" "kernel_ok k c"
    using sys_arch_mbox_fetch_ok(1) [OF assms(4-8), of ?t] by blast
  have tm: "OSTime k = OSTime (kern s)" using k(2) q_changeD(1) [of "kern s" q k] by (simp add: q_holds_def)
  have "timers_ok (s\<lparr>kern := k\<rparr>) (n # ns) fs" using assms(1) timers_ok_cong [of "s\<lparr>kern := k\<rparr>" s] by simp
  from timeout_passed_ok [OF this, of 4294967] obtain s' where s': "timeout_passed 4294967 (s\<lparr>kern := k\<rparr>) = Some s'"
    "timers_only (s\<lparr>kern := k\<rparr>) s'" "timers_ok s' (n # ns) fs" "due s (n # ns) = later (unat ?t) (due s' (n # ns))"
    using assms(3) by (auto simp: min_def simp del: due_from.simps)
  have "next_timeout s = Some n" using assms(1) by (simp add: timers_ok_def)
  then have "sys_timeouts_mbox_fetch ops mbox s = Some (Returns (msg_out (hd (q_list (kern s) q))), s')"
    using assms(2) k(1) s'(1) by (subst sys_timeouts_mbox_fetch.simps) simp
  moreover have "time (timeo_mem s' n) = 0" using s'(4) by (simp add: unat_eq_zero)
  ultimately show ?thesis using s' k tm timers_onlyD(1) [OF s'(2)] by (simp add: OSTimeGet_def del: due_from.simps)
qed

theorem message_fires_timer_witness:
  "\<exists>s s'. sys_timeout 5000 (App 1) 0 lwip_start = Some s \<and> due s [7] = [(5000, App 1, 0)] \<and>
    sys_timeouts_mbox_fetch idle_ops \<lparr>pQ = Some 4, pvQEntries = 100\<rparr> s = Some (Returns (VMsg 9), s') \<and>
    due s' [7] = [(0, App 1, 0)] \<and> OSTimeGet (kern s') = OSTimeGet (kern s)"
proof -
  have m: "memp_tab lwip_start = Some 7" "next_timeout lwip_start = None" using lwip_start_ok by (simp_all add: timers_ok_def)
  obtain s where s: "sys_timeout 5000 (App 1) 0 lwip_start = Some s" "s = lwip_start\<lparr>timeo_mem :=
      upd_timeo 7 (\<lambda>_. \<lparr>tnext = None, time = 5000, h = App 1, arg = 0\<rparr>) (timeo_mem lwip_start),
      memp_tab := tnext (timeo_mem lwip_start 7), next_timeout := Some 7\<rparr>"
    using m by (simp add: sys_timeout_def memp_malloc_def Let_def)
  obtain s2 ns where "sys_timeout 5000 (App 1) 0 lwip_start = Some s2" "timers_ok s2 ns [6, 5, 4, 3, 2, 1, 0]"
    "due s2 ns = [(5000, App 1, 0)]"
    using sys_timeout_ok [OF lwip_start_ok, of 5000 "App 1" 0] by auto
  then have ns: "timers_ok s ns [6, 5, 4, 3, 2, 1, 0]" "length (due s ns) = 1" using s(1) by simp_all
  have nt: "next_timeout s = Some 7" using s(2) by simp
  have "timeo_seg (timeo_mem s) (next_timeout s) ns" using ns(1) by (simp only: timers_ok_def)
  then have "ns = [7]" using ns(2) nt by (cases ns; cases "tl ns") simp_all
  then have ok: "timers_ok s [7] [6, 5, 4, 3, 2, 1, 0]" using ns(1) by simp
  have k: "kern s = sample" "time (timeo_mem s 7) = 5000" "due s [7] = [(5000, App 1, 0)]"
    using s(2) by (simp_all add: lwip_start_kern)
  have "msg_out (VMsg 9) = VMsg 9" by (simp add: msg_out_def pvNullPointer_def)
  moreover have "kernel_ok (kern s) 1" "may_block (kern s) 1" "q_of (kern s) 4 0" "q_list (kern s) 0 = [VMsg 9]"
    unfolding k(1) by (rule sample_kernel_ok, rule sample_may_block, rule sample_q(1), rule sample_q_list(1))
  ultimately obtain s' where s': "sys_timeouts_mbox_fetch idle_ops \<lparr>pQ = Some 4, pvQEntries = 100\<rparr> s = Some (Returns (VMsg 9), s')"
    "OSTimeGet (kern s') = OSTimeGet (kern s)" "due s [7] = later 5000 (due s' [7])" "time (timeo_mem s' 7) = 0"
    using message_fires_timer [OF ok, of 1 4 0 "\<lparr>pQ = Some 4, pvQEntries = 100\<rparr>" idle_ops] k(2)
    by (simp del: due_from.simps) blast
  then have "due s' [7] = [(0, App 1, 0)]" using k(3) by simp
  with s(1) k(3) s' show ?thesis by blast
qed

end
