(* ===== verification/Lwip_Mem.thy ===== *)
theory Lwip_Mem
  imports Sys_Arch
begin

text \<open>
  \<^verbatim>\<open>src/lwip/lwip-1.4.1/src/core/mem.c\<close> as configured by \<^verbatim>\<open>lwipopts.h\<close>: the heap of the TCP/IP stack, a
  list of blocks, used and free, that lie one behind the other in one array of bytes. Each block
  begins with a header that holds the places of its two neighbours. A pointer into the array is its
  distance from \<open>ram\<close>; an access outside the array is \<open>None\<close>. \<open>LWIP_ASSERT\<close> prints and goes on, and there
  are no statistics (\<open>LWIP_STATS\<close> is 0), so both leave the state alone.
\<close>

abbreviation (input) MEM_SIZE_ALIGNED :: nat where "MEM_SIZE_ALIGNED \<equiv> 16000"
abbreviation (input) SIZEOF_STRUCT_MEM :: nat where "SIZEOF_STRUCT_MEM \<equiv> 8"
abbreviation (input) MIN_SIZE_ALIGNED :: nat where "MIN_SIZE_ALIGNED \<equiv> 12"

text \<open>\<open>lwip_comm_mem_malloc\<close> takes \<open>MEM_SIZE_ALIGNED + 2 * 12 + MEM_ALIGNMENT\<close> bytes for the array; after the alignment
  of \<open>ram\<close> at least this many are left.\<close>

abbreviation (input) RAM_BYTES :: nat where "RAM_BYTES \<equiv> 16024"

abbreviation (input) ram_end :: nat where "ram_end \<equiv> MEM_SIZE_ALIGNED"

subsection \<open>State\<close>

text \<open>The array, the pointer to the lowest free block, the mutex (a semaphore of the kernel) and the kernel.\<close>

record lwip_heap =
  ram :: "nat \<Rightarrow> u8"
  lfree :: nat
  mem_mutex :: "nat option"
  kern :: os

text \<open>\<open>struct mem\<close> in memory: \<open>next\<close> in the bytes 0 and 1, \<open>prev\<close> in 2 and 3, \<open>used\<close> in 4; three bytes of padding.\<close>

definition ld16 :: "(nat \<Rightarrow> u8) \<Rightarrow> nat \<Rightarrow> u16" where
  "ld16 m a = ucast (m a) OR push_bit 8 (ucast (m (a + 1)))"

definition st16 :: "(nat \<Rightarrow> u8) \<Rightarrow> nat \<Rightarrow> u16 \<Rightarrow> (nat \<Rightarrow> u8)" where
  "st16 m a v = m(a := ucast v, a + 1 := ucast (drop_bit 8 v))"

definition hdr_in :: "nat \<Rightarrow> bool" where
  "hdr_in p \<longleftrightarrow> p + SIZEOF_STRUCT_MEM \<le> RAM_BYTES"

definition hdr_next :: "(nat \<Rightarrow> u8) \<Rightarrow> nat \<Rightarrow> u16" where
  "hdr_next m p = ld16 m p"

definition hdr_prev :: "(nat \<Rightarrow> u8) \<Rightarrow> nat \<Rightarrow> u16" where
  "hdr_prev m p = ld16 m (p + 2)"

definition hdr_used :: "(nat \<Rightarrow> u8) \<Rightarrow> nat \<Rightarrow> u8" where
  "hdr_used m p = m (p + 4)"

definition put_next :: "nat \<Rightarrow> u16 \<Rightarrow> (nat \<Rightarrow> u8) \<Rightarrow> (nat \<Rightarrow> u8)" where
  "put_next p v m = st16 m p v"

definition put_prev :: "nat \<Rightarrow> u16 \<Rightarrow> (nat \<Rightarrow> u8) \<Rightarrow> (nat \<Rightarrow> u8)" where
  "put_prev p v m = st16 m (p + 2) v"

definition put_used :: "nat \<Rightarrow> u8 \<Rightarrow> (nat \<Rightarrow> u8) \<Rightarrow> (nat \<Rightarrow> u8)" where
  "put_used p v m = m(p + 4 := v)"

definition get_field :: "((nat \<Rightarrow> u8) \<Rightarrow> nat \<Rightarrow> 'v) \<Rightarrow> nat \<Rightarrow> lwip_heap \<Rightarrow> 'v option" where
  "get_field field p s = (if hdr_in p then Some (field (ram s) p) else None)"

definition set_field :: "(nat \<Rightarrow> 'v \<Rightarrow> (nat \<Rightarrow> u8) \<Rightarrow> (nat \<Rightarrow> u8)) \<Rightarrow> nat \<Rightarrow> 'v \<Rightarrow> lwip_heap \<Rightarrow> lwip_heap option" where
  "set_field put p v s = (if hdr_in p then Some (s\<lparr>ram := put p v (ram s)\<rparr>) else None)"

abbreviation (input) get_next :: "nat \<Rightarrow> lwip_heap \<Rightarrow> u16 option" where "get_next \<equiv> get_field hdr_next"
abbreviation (input) get_prev :: "nat \<Rightarrow> lwip_heap \<Rightarrow> u16 option" where "get_prev \<equiv> get_field hdr_prev"
abbreviation (input) get_used :: "nat \<Rightarrow> lwip_heap \<Rightarrow> u8 option" where "get_used \<equiv> get_field hdr_used"
abbreviation (input) set_next :: "nat \<Rightarrow> u16 \<Rightarrow> lwip_heap \<Rightarrow> lwip_heap option" where "set_next \<equiv> set_field put_next"
abbreviation (input) set_prev :: "nat \<Rightarrow> u16 \<Rightarrow> lwip_heap \<Rightarrow> lwip_heap option" where "set_prev \<equiv> set_field put_prev"
abbreviation (input) set_used :: "nat \<Rightarrow> u8 \<Rightarrow> lwip_heap \<Rightarrow> lwip_heap option" where "set_used \<equiv> set_field put_used"

text \<open>\<open>LWIP_MEM_ALIGN_SIZE\<close> on a \<open>mem_size_t\<close>: computed as an \<open>int\<close>, stored in 16 bits.\<close>

definition LWIP_MEM_ALIGN_SIZE :: "u16 \<Rightarrow> u16" where
  "LWIP_MEM_ALIGN_SIZE sz = ucast ((ucast sz + 4 - 1 :: u32) AND NOT (4 - 1))"

definition block_size :: "u16 \<Rightarrow> u16" where
  "block_size sz = (let sz = LWIP_MEM_ALIGN_SIZE sz in if sz < 12 then 12 else sz)"

subsection \<open>\<open>mem_init\<close> and \<open>plug_holes\<close>\<close>

definition mem_init :: "lwip_heap \<Rightarrow> lwip_heap option" where
  "mem_init s = do {
     s \<leftarrow> set_next 0 16000 s;
     s \<leftarrow> set_prev 0 0 s;
     s \<leftarrow> set_used 0 0 s;
     s \<leftarrow> set_used ram_end 1 s;
     s \<leftarrow> set_next ram_end 16000 s;
     s \<leftarrow> set_prev ram_end 16000 s;
     r \<leftarrow> sys_sem_new 1 (kern s);
     Some (s\<lparr>lfree := 0, mem_mutex := fst (snd r), kern := snd (snd r)\<rparr>)
   }"

definition plug_forward :: "nat \<Rightarrow> lwip_heap \<Rightarrow> lwip_heap option" where
  "plug_forward mem s = do {
     n \<leftarrow> get_next mem s;
     let nmem = unat n;
     if mem = nmem then Some s
     else do {
       u \<leftarrow> get_used nmem s;
       if u = 0 \<and> nmem \<noteq> ram_end then do {
         let s = (if lfree s = nmem then s\<lparr>lfree := mem\<rparr> else s);
         nn \<leftarrow> get_next nmem s;
         s \<leftarrow> set_next mem nn s;
         nn \<leftarrow> get_next nmem s;
         set_prev (unat nn) (of_nat mem) s
       }
       else Some s
     }
   }"

definition plug_backward :: "nat \<Rightarrow> lwip_heap \<Rightarrow> lwip_heap option" where
  "plug_backward mem s = do {
     p \<leftarrow> get_prev mem s;
     let pmem = unat p;
     if pmem = mem then Some s
     else do {
       u \<leftarrow> get_used pmem s;
       if u = 0 then do {
         let s = (if lfree s = mem then s\<lparr>lfree := pmem\<rparr> else s);
         n \<leftarrow> get_next mem s;
         s \<leftarrow> set_next pmem n s;
         n \<leftarrow> get_next mem s;
         set_prev (unat n) (of_nat pmem) s
       }
       else Some s
     }
   }"

definition plug_holes :: "nat \<Rightarrow> lwip_heap \<Rightarrow> lwip_heap option" where
  "plug_holes mem s = do { s \<leftarrow> plug_forward mem s; plug_backward mem s }"

subsection \<open>The mutex\<close>

text \<open>\<open>sys_mutex_lock\<close> is \<open>sys_arch_sem_wait(mutex, 0)\<close>: a task that finds it taken waits, and its work is done
  when it runs again. The errors of the wait are ignored, as in the code.\<close>

definition mutex_unlock :: "lwip_heap \<Rightarrow> lwip_heap option" where
  "mutex_unlock s = do { k \<leftarrow> sys_sem_signal (mem_mutex s) (kern s); Some (s\<lparr>kern := k\<rparr>) }"

definition run_locked :: "(lwip_heap \<Rightarrow> ('r \<times> lwip_heap) option) \<Rightarrow> lwip_heap \<Rightarrow> ('r pended \<times> lwip_heap) option" where
  "run_locked body s = do {
     w \<leftarrow> sys_arch_sem_wait (mem_mutex s) 0 (kern s);
     case fst w of
       Blocks \<Rightarrow> Some (Blocks, s\<lparr>kern := snd w\<rparr>)
     | Returns _ \<Rightarrow> do {
         r \<leftarrow> body (s\<lparr>kern := snd w\<rparr>);
         s \<leftarrow> mutex_unlock (snd r);
         Some (Returns (fst r), s)
       }
   }"

definition run_locked_resume :: "(lwip_heap \<Rightarrow> ('r \<times> lwip_heap) option) \<Rightarrow> u32 \<Rightarrow> lwip_heap \<Rightarrow> ('r \<times> lwip_heap) option" where
  "run_locked_resume body t0 s = do {
     w \<leftarrow> sys_arch_sem_wait_resume (mem_mutex s) t0 (kern s);
     r \<leftarrow> body (s\<lparr>kern := snd w\<rparr>);
     s \<leftarrow> mutex_unlock (snd r);
     Some (fst r, s)
   }"

subsection \<open>\<open>mem_free\<close>\<close>

text \<open>\<open>NULL\<close> is \<open>None\<close>; other pointers are distances from \<open>ram\<close> and may lie outside of it.\<close>

definition legal :: "int \<Rightarrow> bool" where
  "legal rmem \<longleftrightarrow> 0 \<le> rmem \<and> rmem < int ram_end"

definition hdr_of :: "int \<Rightarrow> nat option" where
  "hdr_of rmem = (if int SIZEOF_STRUCT_MEM \<le> rmem then Some (nat rmem - SIZEOF_STRUCT_MEM) else None)"

definition mem_free_body :: "int \<Rightarrow> lwip_heap \<Rightarrow> (unit \<times> lwip_heap) option" where
  "mem_free_body rmem s = do {
     mem \<leftarrow> hdr_of rmem;
     s \<leftarrow> set_used mem 0 s;
     let s = (if mem < lfree s then s\<lparr>lfree := mem\<rparr> else s);
     s \<leftarrow> plug_holes mem s;
     Some ((), s)
   }"

definition mem_free :: "int option \<Rightarrow> lwip_heap \<Rightarrow> (unit pended \<times> lwip_heap) option" where
  "mem_free rmem s =
     (case rmem of
        None \<Rightarrow> Some (Returns (), s)
      | Some rmem \<Rightarrow> if \<not> legal rmem then Some (Returns (), s) else run_locked (mem_free_body rmem) s)"

definition mem_free_resume :: "int \<Rightarrow> u32 \<Rightarrow> lwip_heap \<Rightarrow> (unit \<times> lwip_heap) option" where
  "mem_free_resume rmem = run_locked_resume (mem_free_body rmem)"

subsection \<open>\<open>mem_trim\<close>\<close>

text \<open>The new header \<open>ptr2\<close> between \<open>mem\<close> and \<open>nxt\<close>.\<close>

definition trim_link :: "nat \<Rightarrow> u16 \<Rightarrow> u16 \<Rightarrow> u16 \<Rightarrow> lwip_heap \<Rightarrow> lwip_heap option" where
  "trim_link mem ptr ptr2 nxt s = do {
     s \<leftarrow> set_used (unat ptr2) 0 s;
     s \<leftarrow> set_next (unat ptr2) nxt s;
     s \<leftarrow> set_prev (unat ptr2) ptr s;
     s \<leftarrow> set_next mem ptr2 s;
     n2 \<leftarrow> get_next (unat ptr2) s;
     if unat n2 \<noteq> MEM_SIZE_ALIGNED then set_prev (unat n2) ptr2 s else Some s
   }"

definition mem_trim_body :: "int \<Rightarrow> u16 \<Rightarrow> nat \<Rightarrow> u16 \<Rightarrow> u16 \<Rightarrow> lwip_heap \<Rightarrow> (int option \<times> lwip_heap) option" where
  "mem_trim_body rmem newsize mem ptr sz s = do {
     n \<leftarrow> get_next mem s;
     let mem2 = unat n;
     u \<leftarrow> get_used mem2 s;
     let ptr2 = ptr + of_nat SIZEOF_STRUCT_MEM + newsize;
     if u = 0 then do {
       nxt \<leftarrow> get_next mem2 s;
       let s = (if lfree s = mem2 then s\<lparr>lfree := unat ptr2\<rparr> else s);
       s \<leftarrow> trim_link mem ptr ptr2 nxt s;
       Some (Some rmem, s)
     }
     else if unat newsize + SIZEOF_STRUCT_MEM + MIN_SIZE_ALIGNED \<le> unat sz then do {
       let s = (if unat ptr2 < lfree s then s\<lparr>lfree := unat ptr2\<rparr> else s);
       s \<leftarrow> trim_link mem ptr ptr2 n s;
       Some (Some rmem, s)
     }
     else Some (Some rmem, s)
   }"

definition mem_trim :: "int \<Rightarrow> u16 \<Rightarrow> lwip_heap \<Rightarrow> (int option pended \<times> lwip_heap) option" where
  "mem_trim rmem newsize s =
     (let newsize = block_size newsize in
      if unat newsize > MEM_SIZE_ALIGNED then Some (Returns None, s)
      else if \<not> legal rmem then Some (Returns (Some rmem), s)
      else do {
        mem \<leftarrow> hdr_of rmem;
        let ptr = of_nat mem;
        n \<leftarrow> get_next mem s;
        let sz = n - ptr - of_nat SIZEOF_STRUCT_MEM;
        if newsize > sz then Some (Returns None, s)
        else if newsize = sz then Some (Returns (Some rmem), s)
        else run_locked (mem_trim_body rmem newsize mem ptr sz) s
      })"

text \<open>The second half of a call that waited has the local variables of the first: the size \<open>sz\<close> is the one it saw then.\<close>

definition mem_trim_resume :: "int \<Rightarrow> u16 \<Rightarrow> u16 \<Rightarrow> u32 \<Rightarrow> lwip_heap \<Rightarrow> (int option \<times> lwip_heap) option" where
  "mem_trim_resume rmem newsize sz t0 s = do {
     mem \<leftarrow> hdr_of rmem;
     run_locked_resume (mem_trim_body rmem (block_size newsize) mem (of_nat mem) sz) t0 s
   }"

subsection \<open>\<open>mem_malloc\<close> and \<open>mem_calloc\<close>\<close>

text \<open>\<open>mem->next - (ptr + SIZEOF_STRUCT_MEM)\<close>, the user data size of the block at \<open>ptr\<close>: unsigned, like \<open>sizeof\<close>.\<close>

definition user_room :: "u16 \<Rightarrow> u16 \<Rightarrow> u32" where
  "user_room n ptr = ucast n - (ucast ptr + 8)"

text \<open>The search, from \<open>ptr\<close> on; \<open>None\<close> when it does not end or leaves the array.\<close>

partial_function (option) malloc_scan :: "u16 \<Rightarrow> u16 \<Rightarrow> lwip_heap \<Rightarrow> u16 option option" where
  "malloc_scan sz ptr s =
     (if unat ptr < MEM_SIZE_ALIGNED - unat sz then
        Option.bind (get_used (unat ptr) s) (\<lambda>u.
        Option.bind (get_next (unat ptr) s) (\<lambda>n.
        if u = 0 \<and> user_room n ptr \<ge> ucast sz then Some (Some ptr)
        else malloc_scan sz n s))
      else Some None)"

text \<open>\<open>while (cur->used && cur != ram_end) cur = &ram[cur->next];\<close>\<close>

partial_function (option) adjust_lfree :: "nat \<Rightarrow> lwip_heap \<Rightarrow> nat option" where
  "adjust_lfree cur s =
     Option.bind (get_used cur s) (\<lambda>u.
     if u \<noteq> 0 \<and> cur \<noteq> ram_end then Option.bind (get_next cur s) (\<lambda>n. adjust_lfree (unat n) s)
     else Some cur)"

text \<open>Taking the block at \<open>ptr\<close>: what does not fit into the request becomes a free block, if it is large enough.\<close>

definition malloc_split :: "u16 \<Rightarrow> u16 \<Rightarrow> lwip_heap \<Rightarrow> lwip_heap option" where
  "malloc_split sz ptr s = do {
     let mem = unat ptr;
     n \<leftarrow> get_next mem s;
     if user_room n ptr \<ge> ucast sz + 8 + 12 then do {
       let ptr2 = ptr + of_nat SIZEOF_STRUCT_MEM + sz;
       let mem2 = unat ptr2;
       s \<leftarrow> set_used mem2 0 s;
       s \<leftarrow> set_next mem2 n s;
       s \<leftarrow> set_prev mem2 ptr s;
       s \<leftarrow> set_next mem ptr2 s;
       s \<leftarrow> set_used mem 1 s;
       n2 \<leftarrow> get_next mem2 s;
       if unat n2 \<noteq> MEM_SIZE_ALIGNED then set_prev (unat n2) ptr2 s else Some s
     }
     else set_used mem 1 s
   }"

definition mem_malloc_body :: "u16 \<Rightarrow> lwip_heap \<Rightarrow> (int option \<times> lwip_heap) option" where
  "mem_malloc_body sz s = do {
     found \<leftarrow> malloc_scan sz (of_nat (lfree s)) s;
     case found of
       None \<Rightarrow> Some (None, s)
     | Some ptr \<Rightarrow> do {
         s \<leftarrow> malloc_split sz ptr s;
         s \<leftarrow> (if unat ptr = lfree s
               then do { cur \<leftarrow> adjust_lfree (lfree s) s; Some (s\<lparr>lfree := cur\<rparr>) }
               else Some s);
         Some (Some (int (unat ptr + SIZEOF_STRUCT_MEM)), s)
       }
   }"

definition mem_malloc :: "u16 \<Rightarrow> lwip_heap \<Rightarrow> (int option pended \<times> lwip_heap) option" where
  "mem_malloc sz s =
     (if sz = 0 then Some (Returns None, s)
      else
        let sz = block_size sz in
        if unat sz > MEM_SIZE_ALIGNED then Some (Returns None, s)
        else run_locked (mem_malloc_body sz) s)"

definition mem_malloc_resume :: "u16 \<Rightarrow> u32 \<Rightarrow> lwip_heap \<Rightarrow> (int option \<times> lwip_heap) option" where
  "mem_malloc_resume sz = run_locked_resume (mem_malloc_body (block_size sz))"

text \<open>\<open>memset\<close> on the array; outside of it, \<open>None\<close>.\<close>

definition mem_set :: "nat \<Rightarrow> u8 \<Rightarrow> nat \<Rightarrow> lwip_heap \<Rightarrow> lwip_heap option" where
  "mem_set p v n s = (if p + n \<le> RAM_BYTES then Some (s\<lparr>ram := (\<lambda>a. if p \<le> a \<and> a < p + n then v else ram s a)\<rparr>) else None)"

text \<open>The product is an \<open>int\<close> (an overflow of that is undefined); \<open>mem_malloc\<close> gets its low 16 bits, \<open>memset\<close> all of it.\<close>

definition mem_calloc :: "u16 \<Rightarrow> u16 \<Rightarrow> lwip_heap \<Rightarrow> (int option pended \<times> lwip_heap) option" where
  "mem_calloc count sz s =
     (let n = unat count * unat sz in
      if n \<ge> 2 ^ 31 then None
      else do {
        r \<leftarrow> mem_malloc (of_nat n) s;
        case fst r of
          Returns (Some p) \<Rightarrow> do { s \<leftarrow> mem_set (nat p) 0 n (snd r); Some (Returns (Some p), s) }
        | _ \<Rightarrow> Some r
      })"

text \<open>The second half of a call that waited in \<open>mem_malloc\<close>.\<close>

definition mem_calloc_resume :: "u16 \<Rightarrow> u16 \<Rightarrow> u32 \<Rightarrow> lwip_heap \<Rightarrow> (int option \<times> lwip_heap) option" where
  "mem_calloc_resume count sz t0 s =
     (let n = unat count * unat sz in do {
        r \<leftarrow> mem_malloc_resume (of_nat n) t0 s;
        case fst r of
          Some p \<Rightarrow> do { s \<leftarrow> mem_set (nat p) 0 n (snd r); Some (Some p, s) }
        | None \<Rightarrow> Some r
      })"

end
