(* ===== verification/Lwip_Mem_Proofs.thy ===== *)
theory Lwip_Mem_Proofs
  imports Lwip_Mem Sys_Arch_Proofs
begin

text \<open>
  The heap of the TCP/IP stack. \<open>heap_rep s L\<close> says that the array of bytes holds the blocks \<open>L\<close>, one behind
  the other, no two free ones side by side, and that \<open>lfree\<close> is the lowest free one. Against this list
  \<open>mem_malloc\<close> is first fit, \<open>mem_free\<close> marks a block and merges what is free, and nobody's bytes change.
\<close>

subsection \<open>Headers in memory\<close>

definition clear_of :: "nat \<Rightarrow> nat \<Rightarrow> bool" where
  "clear_of a b \<longleftrightarrow> a + 8 \<le> b \<or> b + 8 \<le> a"

lemma clear_of_less [simp]: "a + 8 \<le> b \<Longrightarrow> clear_of a b" "b + 8 \<le> a \<Longrightarrow> clear_of a b"
  by (simp_all add: clear_of_def)

lemma ld16_st16 [simp]: "ld16 (st16 m a v) a = v"
proof -
  have "ucast (ucast v :: u8) OR push_bit 8 (ucast (ucast (drop_bit 8 v) :: u8)) = v" for v :: u16
    by (rule bit_word_eqI) (auto simp: bit_simps)
  then show ?thesis by (simp add: ld16_def st16_def)
qed

lemma hdr_put_same [simp]:
  "hdr_next (put_next a v m) a = v" "hdr_next (put_prev a v m) a = hdr_next m a" "hdr_next (put_used a w m) a = hdr_next m a"
  "hdr_prev (put_next a v m) a = hdr_prev m a" "hdr_prev (put_prev a v m) a = v" "hdr_prev (put_used a w m) a = hdr_prev m a"
  "hdr_used (put_next a v m) a = hdr_used m a" "hdr_used (put_prev a v m) a = hdr_used m a" "hdr_used (put_used a w m) a = w"
  unfolding hdr_next_def hdr_prev_def hdr_used_def put_next_def put_prev_def put_used_def
  by (simp_all only: ld16_st16) (simp_all add: ld16_def st16_def)

lemma hdr_put_other [simp]:
  assumes "clear_of a b"
  shows "hdr_next (put_next b v m) a = hdr_next m a" "hdr_next (put_prev b v m) a = hdr_next m a" "hdr_next (put_used b w m) a = hdr_next m a"
    "hdr_prev (put_next b v m) a = hdr_prev m a" "hdr_prev (put_prev b v m) a = hdr_prev m a" "hdr_prev (put_used b w m) a = hdr_prev m a"
    "hdr_used (put_next b v m) a = hdr_used m a" "hdr_used (put_prev b v m) a = hdr_used m a" "hdr_used (put_used b w m) a = hdr_used m a"
  using assms unfolding clear_of_def hdr_next_def hdr_prev_def hdr_used_def put_next_def put_prev_def put_used_def
  by (auto simp: ld16_def st16_def)

lemma put_byte [simp]:
  assumes "x < b \<or> b + 8 \<le> x"
  shows "put_next b v m x = m x" "put_prev b v m x = m x" "put_used b w m x = m x"
  using assms unfolding put_next_def put_prev_def put_used_def by (auto simp: st16_def)

lemma hdr_cong:
  assumes "\<And>i. i < 8 \<Longrightarrow> m' (a + i) = m (a + i)"
  shows "hdr_next m' a = hdr_next m a" "hdr_prev m' a = hdr_prev m a" "hdr_used m' a = hdr_used m a"
  using assms [of 0] assms [of 1] assms [of 2] assms [of 3] assms [of 4]
  by (simp_all add: hdr_next_def hdr_prev_def hdr_used_def ld16_def eval_nat_numeral)

lemma get_field_in [simp]: "hdr_in p \<Longrightarrow> get_field f p s = Some (f (ram s) p)"
  by (simp add: get_field_def)

lemma set_field_in [simp]: "hdr_in p \<Longrightarrow> set_field f p v s = Some (s\<lparr>ram := f p v (ram s)\<rparr>)"
  by (simp add: set_field_def)

lemma hdr_in_le [simp]: "p \<le> 16000 \<Longrightarrow> hdr_in p"
  by (simp add: hdr_in_def)

subsection \<open>Blocks\<close>

type_synonym block = "nat \<times> bool"

abbreviation extent :: "block list \<Rightarrow> nat" where "extent L \<equiv> sum_list (map fst L)"

text \<open>The header at \<open>a\<close> of a block of \<open>n\<close> bytes whose lower neighbour lies at \<open>p\<close>.\<close>

definition hdr :: "(nat \<Rightarrow> u8) \<Rightarrow> nat \<Rightarrow> nat \<Rightarrow> block \<Rightarrow> bool" where
  "hdr m p a B \<longleftrightarrow> unat (hdr_next m a) = a + fst B \<and> unat (hdr_prev m a) = p \<and> (hdr_used m a \<noteq> 0) = snd B \<and>
     20 \<le> fst B \<and> 4 dvd fst B"

text \<open>The blocks \<open>L\<close> from \<open>a\<close> on, behind a block at \<open>p\<close>; the last of them lies at \<open>q\<close>.\<close>

fun seg :: "(nat \<Rightarrow> u8) \<Rightarrow> nat \<Rightarrow> nat \<Rightarrow> block list \<Rightarrow> nat \<Rightarrow> bool" where
  "seg m p a [] q \<longleftrightarrow> p = q"
| "seg m p a (B # L) q \<longleftrightarrow> hdr m p a B \<and> seg m a (a + fst B) L q"

text \<open>The blocks \<open>L\<close> from \<open>a\<close> to the end of the array.\<close>

definition tail_seg :: "(nat \<Rightarrow> u8) \<Rightarrow> nat \<Rightarrow> nat \<Rightarrow> block list \<Rightarrow> bool" where
  "tail_seg m p a L \<longleftrightarrow> (\<exists>q. seg m p a L q) \<and> a + extent L = 16000"

fun first_free :: "nat \<Rightarrow> block list \<Rightarrow> nat" where
  "first_free a [] = a"
| "first_free a (B # L) = (if snd B then first_free (a + fst B) L else a)"

fun apart_free :: "block list \<Rightarrow> bool" where
  "apart_free (B # C # L) \<longleftrightarrow> (snd B \<or> snd C) \<and> apart_free (C # L)"
| "apart_free _ \<longleftrightarrow> True"

definition heap_rep :: "lwip_heap \<Rightarrow> block list \<Rightarrow> bool" where
  "heap_rep s L \<longleftrightarrow> tail_seg (ram s) 0 0 L \<and> hdr_used (ram s) 16000 \<noteq> 0 \<and> lfree s = first_free 0 L \<and> apart_free L"

text \<open>The bytes of the used blocks.\<close>

fun owned :: "nat \<Rightarrow> block list \<Rightarrow> nat \<Rightarrow> bool" where
  "owned a [] x \<longleftrightarrow> False"
| "owned a (B # L) x \<longleftrightarrow> snd B \<and> a + 8 \<le> x \<and> x < a + fst B \<or> owned (a + fst B) L x"

lemma seg_append: "seg m p a (L @ K) q \<longleftrightarrow> (\<exists>r. seg m p a L r \<and> seg m r (a + extent L) K q)"
  by (induction L arbitrary: p a) (auto simp: add.assoc)

lemma tail_seg_append: "tail_seg m p a (L @ K) \<longleftrightarrow> (\<exists>r. seg m p a L r \<and> tail_seg m r (a + extent L) K)"
  by (auto simp: tail_seg_def seg_append add.assoc)

lemma tail_seg_Nil [simp]: "tail_seg m p a [] \<longleftrightarrow> a = 16000"
  by (simp add: tail_seg_def)

lemma tail_seg_Cons [simp]: "tail_seg m p a (B # L) \<longleftrightarrow> hdr m p a B \<and> tail_seg m a (a + fst B) L"
  by (auto simp: tail_seg_def add.assoc)

lemma tail_seg_le: "tail_seg m p a L \<Longrightarrow> a \<le> 16000"
  by (simp add: tail_seg_def)

lemma owned_append: "owned a (L @ K) x \<longleftrightarrow> owned a L x \<or> owned (a + extent L) K x"
  by (induction L arbitrary: a) (auto simp: add.assoc)

lemma owned_range: "owned a L x \<Longrightarrow> a \<le> x \<and> x < a + extent L"
  by (induction L arbitrary: a) force+

lemma first_free_append: "first_free a (L @ K) = (if \<forall>B \<in> set L. snd B then first_free (a + extent L) K else first_free a L)"
  by (induction L arbitrary: a) (auto simp: add.assoc)

lemma first_free_range: "a \<le> first_free a L \<and> first_free a L \<le> a + extent L"
proof (induction L arbitrary: a)
  case (Cons B L)
  show ?case using Cons [of "a + fst B"] by simp
qed simp

text \<open>A segment depends on the bytes it spans only, and of these on the headers.\<close>

lemma seg_cong:
  assumes "\<And>x. a \<le> x \<Longrightarrow> x < a + extent L \<Longrightarrow> \<not> owned a L x \<Longrightarrow> m' x = m x"
  shows "seg m p a L q \<Longrightarrow> seg m' p a L q"
  using assms
proof (induction L arbitrary: p a)
  case (Cons B L)
  have h: "hdr m p a B" and sg: "seg m a (a + fst B) L q" using Cons.prems(1) by simp_all
  have n: "20 \<le> fst B" using h by (simp add: hdr_def)
  have eq: "m' (a + i) = m (a + i)" if "i < 8" for i
    using Cons.prems(2) [of "a + i"] that n owned_range [of "a + fst B" L "a + i"] by force
  have "hdr m' p a B" using h hdr_cong [of m' a m, OF eq] by (simp add: hdr_def)
  moreover have "seg m' a (a + fst B) L q"
  proof (rule Cons.IH [OF sg])
    fix x assume x: "a + fst B \<le> x" "x < a + fst B + extent L" "\<not> owned (a + fst B) L x"
    show "m' x = m x" by (rule Cons.prems(2)) (use x in auto)
  qed
  ultimately show ?case by simp
qed simp

lemma seg_same:
  assumes "\<And>x. a \<le> x \<Longrightarrow> x < a + extent L \<Longrightarrow> m' x = m x"
  shows "seg m' p a L q = seg m p a L q"
  using seg_cong [of a L m' m p q] seg_cong [of a L m m' p q] assms by metis

lemma seg_put [simp]:
  assumes "b + 8 \<le> a \<or> a + extent L \<le> b"
  shows "seg (put_next b v m) p a L q = seg m p a L q" "seg (put_prev b v m) p a L q = seg m p a L q"
    "seg (put_used b w m) p a L q = seg m p a L q"
  by (rule seg_same; use assms in auto)+

lemma tail_seg_put [simp]:
  assumes "b + 8 \<le> a"
  shows "tail_seg (put_next b v m) p a L = tail_seg m p a L" "tail_seg (put_prev b v m) p a L = tail_seg m p a L"
    "tail_seg (put_used b w m) p a L = tail_seg m p a L"
  using assms by (simp_all add: tail_seg_def)

lemma hdr_put [simp]:
  assumes "clear_of a b"
  shows "hdr (put_next b v m) p a B = hdr m p a B" "hdr (put_prev b v m) p a B = hdr m p a B" "hdr (put_used b w m) p a B = hdr m p a B"
  using assms by (simp_all add: hdr_def)

text \<open>The lower neighbour of the first block moves.\<close>

lemma tail_seg_prev:
  assumes "tail_seg m p a L" and "unat v = r" and "a < 16000 \<or> L = []"
  shows "tail_seg (put_prev a v m) r a L"
proof (cases L)
  case (Cons B K)
  then have "hdr m p a B" "tail_seg m a (a + fst B) K" using assms(1) by simp_all
  moreover from this(1) have "8 \<le> fst B" by (simp add: hdr_def)
  ultimately show ?thesis using Cons assms(2) by (simp add: hdr_def)
qed (use assms in simp)

subsection \<open>The list of blocks as the specification\<close>

text \<open>The first free block that can take \<open>sz\<close> bytes; what an allocation makes of it and of the list.\<close>

fun first_fit :: "nat \<Rightarrow> nat \<Rightarrow> block list \<Rightarrow> nat option" where
  "first_fit sz a [] = None"
| "first_fit sz a (B # L) = (if \<not> snd B \<and> sz + 8 \<le> fst B then Some a else first_fit sz (a + fst B) L)"

definition take_block :: "nat \<Rightarrow> nat \<Rightarrow> block list" where
  "take_block sz n = (if sz + 28 \<le> n then [(sz + 8, True), (n - (sz + 8), False)] else [(n, True)])"

fun heap_alloc :: "nat \<Rightarrow> block list \<Rightarrow> block list" where
  "heap_alloc sz [] = []"
| "heap_alloc sz (B # L) = (if \<not> snd B \<and> sz + 8 \<le> fst B then take_block sz (fst B) @ L else B # heap_alloc sz L)"

text \<open>Free blocks side by side become one.\<close>

fun merge :: "block list \<Rightarrow> block list" where
  "merge [] = []"
| "merge [B] = [B]"
| "merge (B # C # L) = (if snd B \<or> snd C then B # merge (C # L) else merge ((fst B + fst C, False) # L))"

fun heap_mark :: "nat \<Rightarrow> nat \<Rightarrow> block list \<Rightarrow> block list" where
  "heap_mark b a [] = []"
| "heap_mark b a (B # L) = (if a = b then (fst B, False) # L else B # heap_mark b (a + fst B) L)"

definition heap_free :: "nat \<Rightarrow> block list \<Rightarrow> block list" where
  "heap_free b L = merge (heap_mark b 0 L)"

lemma first_fit_split:
  assumes "first_fit sz a L = Some b"
  obtains K n M where "L = K @ (n, False) # M" "b = a + extent K" "sz + 8 \<le> n" "heap_alloc sz L = K @ take_block sz n @ M"
    "\<forall>B \<in> set K. snd B \<or> fst B < sz + 8"
proof -
  have "\<exists>K n M. L = K @ (n, False) # M \<and> b = a + extent K \<and> sz + 8 \<le> n \<and> heap_alloc sz L = K @ take_block sz n @ M \<and>
      (\<forall>B \<in> set K. snd B \<or> fst B < sz + 8)"
    using assms
  proof (induction L arbitrary: a)
    case (Cons B L)
    show ?case
    proof (cases "\<not> snd B \<and> sz + 8 \<le> fst B")
      case True
      then show ?thesis using Cons.prems by (intro exI [of _ "[]"] exI [of _ "fst B"] exI [of _ L]) (auto intro: prod_eqI)
    next
      case False
      then obtain K n M where "L = K @ (n, False) # M" "b = a + fst B + extent K" "sz + 8 \<le> n" "heap_alloc sz L = K @ take_block sz n @ M"
        "\<forall>B \<in> set K. snd B \<or> fst B < sz + 8" using Cons.IH [of "a + fst B"] Cons.prems by (auto split: if_splits)
      then show ?thesis using False by (intro exI [of _ "B # K"] exI [of _ n] exI [of _ M]) auto
    qed
  qed simp
  then show ?thesis using that by blast
qed

lemma first_fit_None: "first_fit sz a L = None \<longleftrightarrow> (\<forall>B \<in> set L. snd B \<or> fst B < sz + 8)"
  by (induction L arbitrary: a) auto

lemma first_fit_used: "\<forall>B \<in> set U. snd B \<Longrightarrow> first_fit sz a (U @ K) = first_fit sz (a + extent U) K"
  by (induction U arbitrary: a) (auto simp: add.assoc)

lemma first_free_split:
  obtains U K where "L = U @ K" "first_free a L = a + extent U" "\<forall>B \<in> set U. snd B" "K = [] \<or> \<not> snd (hd K)"
proof -
  have "\<exists>U K. L = U @ K \<and> first_free a L = a + extent U \<and> (\<forall>B \<in> set U. snd B) \<and> (K = [] \<or> \<not> snd (hd K))"
  proof (induction L arbitrary: a)
    case (Cons B L)
    show ?case
    proof (cases "snd B")
      case True
      obtain U K where "L = U @ K" "first_free (a + fst B) L = a + fst B + extent U" "\<forall>B \<in> set U. snd B" "K = [] \<or> \<not> snd (hd K)"
        using Cons [of "a + fst B"] by blast
      then show ?thesis using True by (intro exI [of _ "B # U"] exI [of _ K]) auto
    next
      case False
      then show ?thesis by (intro exI [of _ "[]"] exI [of _ "B # L"]) simp
    qed
  qed simp
  then show ?thesis using that by blast
qed

subsection \<open>The loops\<close>

lemma user_room_fits:
  fixes sz :: u16
  assumes "unat n = unat ptr + k" and "8 \<le> k"
  shows "user_room n ptr \<ge> ucast sz \<longleftrightarrow> unat sz + 8 \<le> k" "user_room n ptr \<ge> ucast sz + 8 + 12 \<longleftrightarrow> unat sz + 28 \<le> k"
proof -
  have u: "unat (ucast x :: u32) = unat x" "unat x < 65536" for x :: u16
    using unsigned_less [of x, where ?'a = nat] by (simp_all add: unsigned_ucast_eq take_bit_nat_eq_self)
  have p: "unat (ucast ptr + 8 :: u32) = unat ptr + 8" using u [of ptr] by (simp add: unat_word_ariths)
  have "unat (ucast n - (ucast ptr + 8) :: u32) = unat n - (unat ptr + 8)"
    by (subst unat_sub) (use p u(1) [of n] assms in \<open>simp_all add: word_le_nat_alt\<close>)
  then have r: "unat (user_room n ptr) = k - 8" using assms by (simp add: user_room_def)
  show "user_room n ptr \<ge> ucast sz \<longleftrightarrow> unat sz + 8 \<le> k" unfolding word_le_nat_alt r u(1) using assms(2) by arith
  have "unat (ucast sz + 8 + 12 :: u32) = unat sz + 20" using u [of sz] by (simp add: unat_word_ariths)
  then show "user_room n ptr \<ge> ucast sz + 8 + 12 \<longleftrightarrow> unat sz + 28 \<le> k" unfolding word_le_nat_alt r using assms(2) by arith
qed

lemma malloc_scan_ok:
  assumes "tail_seg (ram s) p a L" and "unat ptr = a" and "unat sz \<le> 16000"
  shows "malloc_scan sz ptr s = Some (map_option of_nat (first_fit (unat sz) a L))"
  using assms(1,2)
proof (induction L arbitrary: p a ptr)
  case Nil
  have "\<not> unat ptr < 16000 - unat sz" using Nil by simp
  then show ?case by (subst malloc_scan.simps) simp
next
  case (Cons B L)
  have h: "hdr (ram s) p a B" and t: "tail_seg (ram s) a (a + fst B) L" using Cons.prems(1) by simp_all
  have n: "unat (hdr_next (ram s) a) = a + fst B" "hdr_used (ram s) a = 0 \<longleftrightarrow> \<not> snd B" using h by (auto simp: hdr_def)
  have le: "a + fst B \<le> 16000" using tail_seg_le [OF t] .
  have ptr: "of_nat a = ptr" using Cons.prems(2) by auto
  show ?case
  proof (cases "a < 16000 - unat sz")
    case True
    have fit: "user_room (hdr_next (ram s) a) ptr \<ge> ucast sz \<longleftrightarrow> unat sz + 8 \<le> fst B"
      by (rule user_room_fits) (use n(1) h Cons.prems(2) in \<open>simp_all add: hdr_def\<close>)
    show ?thesis
    proof (cases "\<not> snd B \<and> unat sz + 8 \<le> fst B")
      case found: True
      show ?thesis by (subst malloc_scan.simps) (use True found le n ptr Cons.prems(2) fit in simp)
    next
      case False
      have "malloc_scan sz ptr s = malloc_scan sz (hdr_next (ram s) a) s"
        by (subst malloc_scan.simps) (use True False le n Cons.prems(2) fit in auto)
      then show ?thesis using Cons.IH [OF t n(1)] False by auto
    qed
  next
    case False
    have "first_fit (unat sz) a (B # L) = None"
    proof (rule ccontr)
      assume "first_fit (unat sz) a (B # L) \<noteq> None"
      then obtain b where "first_fit (unat sz) a (B # L) = Some b" by blast
      then obtain K n M where k: "B # L = K @ (n, False) # M" "unat sz + 8 \<le> n" by (rule first_fit_split)
      then have "extent (B # L) = extent K + n + extent M" by simp
      moreover have "a + extent (B # L) = 16000" using Cons.prems(1) by (simp only: tail_seg_def)
      ultimately show False using False k(2) by linarith
    qed
    moreover have "\<not> unat ptr < 16000 - unat sz" using False Cons.prems(2) by simp
    ultimately show ?thesis by (subst malloc_scan.simps) simp
  qed
qed

lemma adjust_lfree_ok:
  assumes "tail_seg (ram s) p a L" and "hdr_used (ram s) 16000 \<noteq> 0"
  shows "adjust_lfree a s = Some (first_free a L)"
  using assms(1)
proof (induction L arbitrary: p a)
  case Nil
  then show ?case by (subst adjust_lfree.simps) simp
next
  case (Cons B L)
  have h: "hdr (ram s) p a B" and t: "tail_seg (ram s) a (a + fst B) L" using Cons.prems(1) by simp_all
  have n: "unat (hdr_next (ram s) a) = a + fst B" "hdr_used (ram s) a \<noteq> 0 \<longleftrightarrow> snd B" "20 \<le> fst B" using h by (auto simp: hdr_def)
  have le: "a + fst B \<le> 16000" using tail_seg_le [OF t] .
  show ?case by (subst adjust_lfree.simps) (use n le Cons.IH [OF t] in simp)
qed

subsection \<open>Taking a block\<close>

text \<open>The owner of a byte is not a header.\<close>

lemma owned_tail:
  assumes "tail_seg m q b M" and "owned b M x"
  shows "b + 8 \<le> x"
proof -
  obtain B M' where M: "M = B # M'" using assms(2) by (cases M) auto
  then have "20 \<le> fst B" using assms(1) by (simp add: hdr_def)
  then show ?thesis using assms(2) M owned_range [of "b + fst B" M' x] by auto
qed

lemma owned_middle:
  assumes "tail_seg m q b M" and "owned a (K @ (n, u) # M) x" and "b = a + extent K + n"
  shows "x < a + extent K \<or> u \<and> a + extent K + 8 \<le> x \<and> x < b \<or> b + 8 \<le> x"
  using assms(2,3) owned_tail [OF assms(1)] owned_range [of a K x] by (auto simp: owned_append add.assoc)

lemma malloc_split_ok:
  assumes K: "seg (ram s) 0 0 K q" "unat ptr = a" "a = extent K" and B: "hdr (ram s) q a (n, False)"
    and M: "tail_seg (ram s) a (a + n) M" and sz: "unat sz + 8 \<le> n" "12 \<le> unat sz" "4 dvd unat sz"
    and e: "hdr_used (ram s) 16000 \<noteq> 0"
  obtains m' where "malloc_split sz ptr s = Some (s\<lparr>ram := m'\<rparr>)" "seg m' 0 0 K q" "tail_seg m' q a (take_block (unat sz) n @ M)"
    "hdr_used m' 16000 \<noteq> 0" "\<And>x. x < a \<or> a + n + 8 \<le> x \<Longrightarrow> m' x = ram s x"
proof -
  let ?m = "ram s"
  have nx: "unat (hdr_next ?m a) = a + n" and le: "a + n \<le> 16000" and n: "20 \<le> n" "4 dvd n"
    using B tail_seg_le [OF M] by (simp_all add: hdr_def)
  have room: "user_room (hdr_next ?m a) ptr \<ge> ucast sz + 8 + 12 \<longleftrightarrow> unat sz + 28 \<le> n"
    by (rule user_room_fits) (use nx K n in simp_all)
  show ?thesis
  proof (cases "unat sz + 28 \<le> n")
    case True
    define ptr2 where "ptr2 = ptr + 8 + sz"
    define b where "b = a + (unat sz + 8)"
    have p2: "unat ptr2 = b" using True le K(2) unfolding ptr2_def b_def by (simp add: unat_word_ariths)
    have ab: "a + 20 \<le> b" "b + 20 \<le> a + n" "a + 8 \<le> b" "b + 8 \<le> a + n" "b + 8 \<le> 16000" using True sz le by (simp_all add: b_def)
    define m1 where "m1 = put_used a 1 (put_next a ptr2 (put_prev b ptr (put_next b (hdr_next ?m a) (put_used b 0 ?m))))"
    have run: "malloc_split sz ptr s = (if a + n \<noteq> 16000 then set_field put_prev (a + n) ptr2 (s\<lparr>ram := m1\<rparr>) else Some (s\<lparr>ram := m1\<rparr>))"
      using room True ab le K(2) p2 nx
      by (simp add: malloc_split_def Let_def ptr2_def [symmetric] m1_def)
    define m' where "m' = (if a + n \<noteq> 16000 then put_prev (a + n) ptr2 m1 else m1)"
    have run': "malloc_split sz ptr s = Some (s\<lparr>ram := m'\<rparr>)" using run le by (simp add: m'_def)
    have M1: "tail_seg m1 a (a + n) M" using M ab by (simp add: m1_def)
    have M': "tail_seg m' b (a + n) M"
    proof (cases "a + n = 16000")
      case True
      then have "M = []" using M by (cases M) (auto simp: tail_seg_def hdr_def)
      then show ?thesis using True by simp
    next
      case False
      then show ?thesis using tail_seg_prev [OF M1 p2] le by (simp add: m'_def)
    qed
    have h1: "hdr m1 q a (unat sz + 8, True)" using B ab p2 sz by (simp add: m1_def hdr_def b_def)
    have d: "4 dvd n - (unat sz + 8)" by (rule dvd_diff_nat [OF n(2)]) (use sz(3) in simp)
    have h2: "hdr m1 a b (n - (unat sz + 8), False)" using ab p2 K(2) nx True d by (simp add: m1_def hdr_def b_def)
    have "hdr m' q a (unat sz + 8, True)" "hdr m' a b (n - (unat sz + 8), False)" using h1 h2 ab by (simp_all add: m'_def)
    then have "tail_seg m' q a (take_block (unat sz) n @ M)" using M' True by (simp add: take_block_def b_def)
    moreover have "seg m' 0 0 K q" using K ab by (simp add: m'_def m1_def)
    moreover have "hdr_used m' 16000 \<noteq> 0"
    proof (cases "a + n = 16000")
      case False
      then obtain B' M' where "M = B' # M'" using M by (cases M) auto
      then have "a + n + 8 \<le> 16000" using M tail_seg_le [of ?m "a + n" "a + n + fst B'" M'] by (auto simp: hdr_def)
      then show ?thesis using e ab False by (simp add: m'_def m1_def)
    qed (use e ab in \<open>simp add: m'_def m1_def\<close>)
    moreover have "\<And>x. x < a \<or> a + n + 8 \<le> x \<Longrightarrow> m' x = ?m x" using ab by (auto simp: m'_def m1_def)
    ultimately show ?thesis using run' that by blast
  next
    case False
    define m' where "m' = put_used a 1 ?m"
    have "malloc_split sz ptr s = Some (s\<lparr>ram := m'\<rparr>)" using room False le K(2) by (simp add: malloc_split_def Let_def m'_def)
    moreover have "seg m' 0 0 K q" using K by (simp add: m'_def)
    moreover have "tail_seg m' q a (take_block (unat sz) n @ M)" using False B M n by (simp add: take_block_def m'_def hdr_def)
    moreover have "hdr_used m' 16000 \<noteq> 0" using e le n by (simp add: m'_def)
    moreover have "\<And>x. x < a \<or> a + n + 8 \<le> x \<Longrightarrow> m' x = ?m x" using n by (auto simp: m'_def)
    ultimately show ?thesis using that by blast
  qed
qed

lemma apart_free_Cons: "apart_free (B # L) \<longleftrightarrow> apart_free L \<and> (L = [] \<or> snd B \<or> snd (hd L))"
  by (cases L) auto

lemma apart_free_append:
  "apart_free (K @ L) \<longleftrightarrow> apart_free K \<and> apart_free L \<and> (K = [] \<or> L = [] \<or> snd (last K) \<or> snd (hd L))"
proof (induction K)
  case (Cons B K)
  show ?case using Cons by (cases K; cases L) auto
qed simp

lemma seg_first_free:
  assumes "seg m p a K q" and "\<not> (\<forall>B \<in> set K. snd B)"
  shows "first_free a K < a + extent K"
  using assms
proof (induction K arbitrary: p a)
  case (Cons B K)
  then show ?case by (cases "snd B") (fastforce simp: hdr_def)+
qed simp

text \<open>The used blocks: where the user's bytes begin, and how many they are.\<close>

fun held :: "nat \<Rightarrow> block list \<Rightarrow> (nat \<times> nat) set" where
  "held a [] = {}"
| "held a (B # L) = (if snd B then {(a + 8, fst B - 8)} else {}) \<union> held (a + fst B) L"

lemma held_append: "held a (L @ K) = held a L \<union> held (a + extent L) K"
  by (induction L arbitrary: a) (auto simp: add.assoc)

lemma owned_held: "tail_seg m q a L \<Longrightarrow> owned a L x \<longleftrightarrow> (\<exists>(p, n) \<in> held a L. p \<le> x \<and> x < p + n)"
proof (induction L arbitrary: q a)
  case (Cons B L)
  then have "8 \<le> fst B" "owned (a + fst B) L x \<longleftrightarrow> (\<exists>(p, n) \<in> held (a + fst B) L. p \<le> x \<and> x < p + n)" by (auto simp: hdr_def)
  then show ?case by auto
qed simp

text \<open>What an allocation means for the list.\<close>

definition taken_size :: "nat \<Rightarrow> nat \<Rightarrow> nat" where
  "taken_size sz n = (if sz + 28 \<le> n then sz else n - 8)"

lemma held_take_block: "sz + 8 \<le> n \<Longrightarrow> held a (take_block sz n) = {(a + 8, taken_size sz n)}"
  by (simp add: take_block_def taken_size_def)

lemma extent_take_block: "sz + 8 \<le> n \<Longrightarrow> extent (take_block sz n) = n"
  by (simp add: take_block_def)

lemma mem_malloc_body_ok:
  assumes rep: "heap_rep s L" and sz: "12 \<le> unat sz" "unat sz \<le> 16000" "4 dvd unat sz"
    and fit: "first_fit (unat sz) 0 L = Some b"
  obtains s' n where "mem_malloc_body sz s = Some (Some (int (b + 8)), s')" "heap_rep s' (heap_alloc (unat sz) L)"
    "kern s' = kern s" "mem_mutex s' = mem_mutex s" "\<And>x. owned 0 L x \<Longrightarrow> ram s' x = ram s x"
    "held 0 (heap_alloc (unat sz) L) = insert (b + 8, n) (held 0 L)" "unat sz \<le> n" "b + 8 + n \<le> 16000"
    "\<And>x. b \<le> x \<Longrightarrow> x < b + 8 + n \<Longrightarrow> \<not> owned 0 L x" "4 dvd b"
proof -
  obtain K n M where L: "L = K @ (n, False) # M" "b = 0 + extent K" "unat sz + 8 \<le> n" "heap_alloc (unat sz) L = K @ take_block (unat sz) n @ M"
    by (rule first_fit_split [OF fit]) blast
  have b: "b = extent K" using L(2) by simp
  have t: "tail_seg (ram s) 0 0 L" and e: "hdr_used (ram s) 16000 \<noteq> 0" and lf: "lfree s = first_free 0 L" and ap: "apart_free L"
    using rep by (simp_all add: heap_rep_def)
  obtain q where K: "seg (ram s) 0 0 K q" and B: "hdr (ram s) q b (n, False)" and M: "tail_seg (ram s) b (b + n) M"
    using t unfolding L(1) tail_seg_append by (auto simp: b)
  have le: "b + n \<le> 16000" and n: "20 \<le> n" using tail_seg_le [OF M] B by (auto simp: hdr_def)
  have ptr: "unat (of_nat b :: u16) = b" using le n by (simp add: unat_of_nat)
  obtain U V where uv: "L = U @ V" "first_free 0 L = 0 + extent U" "\<forall>B \<in> set U. snd B" by (rule first_free_split)
  obtain r where V: "tail_seg (ram s) r (extent U) V" using t unfolding uv(1) tail_seg_append by auto
  have "unat (of_nat (lfree s) :: u16) = extent U" using lf uv(2) tail_seg_le [OF V] by (simp add: unat_of_nat)
  then have scan: "malloc_scan sz (of_nat (lfree s)) s = Some (Some (of_nat b))"
    using malloc_scan_ok [OF V _ sz(2)] fit first_fit_used [OF uv(3), of "unat sz" 0 V] uv(1) by simp
  obtain m' where m': "malloc_split sz (of_nat b) s = Some (s\<lparr>ram := m'\<rparr>)" "seg m' 0 0 K q" "tail_seg m' q b (take_block (unat sz) n @ M)"
    "hdr_used m' 16000 \<noteq> 0" "\<And>x. x < b \<or> b + n + 8 \<le> x \<Longrightarrow> m' x = ram s x"
    by (rule malloc_split_ok [OF K ptr b B M L(3) sz(1,3) e]) blast
  define L' where "L' = K @ take_block (unat sz) n @ M"
  have t': "tail_seg m' 0 0 L'" unfolding L'_def tail_seg_append [of _ _ _ K] using m'(2,3) b by auto
  have ap': "apart_free L'"
    using ap unfolding L'_def L(1) by (auto simp: apart_free_append apart_free_Cons take_block_def)
  define s' where "s' = s\<lparr>ram := m', lfree := first_free 0 L'\<rparr>"
  have run: "mem_malloc_body sz s = Some (Some (int (b + 8)), s')"
  proof (cases "b = lfree s")
    case True
    have "\<forall>B \<in> set K. snd B"
    proof (rule ccontr)
      assume no: "\<not> ?thesis"
      have "first_free 0 L = first_free 0 K" unfolding L(1) first_free_append if_not_P [OF no] ..
      with seg_first_free [OF K no] True lf b show False by simp
    qed
    then have ff: "first_free 0 L' = first_free b (take_block (unat sz) n @ M)" unfolding L'_def by (subst first_free_append) (simp add: b)
    have "adjust_lfree b (s\<lparr>ram := m'\<rparr>) = Some (first_free b (take_block (unat sz) n @ M))"
      by (rule adjust_lfree_ok) (use m' in simp_all)
    then show ?thesis using scan m'(1) ptr True by (simp add: mem_malloc_body_def s'_def ff)
  next
    case False
    have no: "\<not> (\<forall>B \<in> set K. snd B)"
    proof
      assume "\<forall>B \<in> set K. snd B"
      then have "first_free 0 L = b" unfolding L(1) first_free_append by (simp add: b)
      then show False using False lf by simp
    qed
    have "first_free 0 L' = lfree s" unfolding L'_def lf L(1) first_free_append [of 0 K] if_not_P [OF no] ..
    then show ?thesis using scan m'(1) ptr False by (simp add: mem_malloc_body_def s'_def)
  qed
  have keep: "ram s' x = ram s x" if "owned 0 L x" for x
    using owned_middle [OF M that [unfolded L(1)]] b m'(5) by (auto simp: s'_def)
  have h: "held 0 L' = insert (b + 8, taken_size (unat sz) n) (held 0 L)"
    unfolding L'_def L(1) held_append held_take_block [OF L(3)] extent_take_block [OF L(3)] by (auto simp: b)
  have sep: "\<not> owned 0 L x" if "b \<le> x" "x < b + 8 + taken_size (unat sz) n" for x
    using owned_middle [OF M, of 0 K n False x] b that n L(1) by (auto simp: taken_size_def split: if_splits)
  have d: "4 dvd b"
  proof -
    have "seg m p a K q \<Longrightarrow> 4 dvd a \<Longrightarrow> 4 dvd a + extent K" for m p a q
      by (induction K arbitrary: p a) (auto simp: hdr_def add.assoc [symmetric])
    from this [OF K] b show ?thesis by simp
  qed
  show ?thesis
  proof (rule that [OF run, where n = "taken_size (unat sz) n"])
    show "heap_rep s' (heap_alloc (unat sz) L)"
      unfolding L(4) L'_def [symmetric] heap_rep_def using t' m'(4) ap' by (simp add: s'_def)
  qed (use keep h sep d le n L(3) in \<open>auto simp: s'_def L(4) L'_def [symmetric] taken_size_def\<close>)
qed

lemma mem_malloc_body_fails:
  assumes "heap_rep s L" and "unat sz \<le> 16000" and "first_fit (unat sz) 0 L = None"
  shows "mem_malloc_body sz s = Some (None, s)"
proof -
  have t: "tail_seg (ram s) 0 0 L" and lf: "lfree s = first_free 0 L" using assms(1) by (simp_all add: heap_rep_def)
  obtain U V where uv: "L = U @ V" "first_free 0 L = 0 + extent U" "\<forall>B \<in> set U. snd B" by (rule first_free_split)
  obtain r where V: "tail_seg (ram s) r (extent U) V" using t unfolding uv(1) tail_seg_append by auto
  have "unat (of_nat (lfree s) :: u16) = extent U" using lf uv(2) tail_seg_le [OF V] by (simp add: unat_of_nat)
  then show ?thesis
    using malloc_scan_ok [OF V _ assms(2)] assms(3) first_fit_used [OF uv(3), of "unat sz" 0 V] uv(1) by (simp add: mem_malloc_body_def)
qed

subsection \<open>Merging\<close>

lemma merge_apart: "apart_free L \<Longrightarrow> merge L = L"
  by (induction L rule: merge.induct) (auto simp: apart_free_Cons)

lemma merge_held: "held a (merge L) = held a L"
proof (induction L arbitrary: a rule: merge.induct)
  case (3 B C L)
  then show ?case by (cases "snd B \<or> snd C") (simp_all add: add.assoc)
qed simp_all

lemma merge_first_free: "first_free a (merge L) = first_free a L"
  by (induction L arbitrary: a rule: merge.induct) auto

lemma merge_extent: "extent (merge L) = extent L"
  by (induction L rule: merge.induct) auto

lemma merge_hd: "snd (hd (merge L)) = snd (hd L)" "merge L = [] \<longleftrightarrow> L = []"
  by (induction L rule: merge.induct) auto

lemma apart_free_merge: "apart_free (merge L)"
  by (induction L rule: merge.induct) (auto simp: apart_free_Cons merge_hd)

lemma merge_prefix: "apart_free K \<Longrightarrow> K = [] \<or> snd (last K) \<Longrightarrow> merge (K @ R) = K @ merge R"
proof (induction K)
  case (Cons B K)
  show ?case
  proof (cases K)
    case Nil
    then show ?thesis using Cons.prems by (cases R) simp_all
  next
    case (Cons C K')
    then have "merge (K @ R) = K @ merge R" using Cons.IH Cons.prems by simp
    moreover have "snd B \<or> snd C" using Cons.prems Cons by simp
    ultimately show ?thesis using Cons by (cases B; cases C; cases "snd B") auto
  qed
qed simp

lemma merge_free: "apart_free M \<Longrightarrow> merge ((n, False) # M) =
    (case M of (j, False) # M' \<Rightarrow> (n + j, False) # M' | _ \<Rightarrow> (n, False) # M)"
proof (cases M)
  case (Cons B M')
  obtain j u where B: "B = (j, u)" by (cases B)
  assume ap: "apart_free M"
  show ?thesis
  proof (cases u)
    case False
    then have "apart_free ((n + j, False) # M')" using ap Cons B by (simp add: apart_free_Cons)
    then show ?thesis using merge_apart Cons B False by simp
  next
    case True
    then show ?thesis using merge_apart [OF ap] Cons B by simp
  qed
qed simp

lemma plug_forward_ok:
  assumes B: "hdr (ram s) q a (n, False)" and M: "tail_seg (ram s) a (a + n) M" and ap: "apart_free M"
    and lf: "lfree s \<le> a" and e: "hdr_used (ram s) 16000 \<noteq> 0"
  obtains m' k M' where "plug_forward a s = Some (s\<lparr>ram := m'\<rparr>)" "hdr m' q a (k, False)" "tail_seg m' a (a + k) M'"
    "merge ((n, False) # M) = (k, False) # M'" "hdr_used m' 16000 \<noteq> 0" "\<And>x. x < a \<or> owned (a + n) M x \<Longrightarrow> m' x = ram s x"
proof -
  let ?m = "ram s"
  have nx: "unat (hdr_next ?m a) = a + n" and n: "20 \<le> n" "4 dvd n" and le: "a + n \<le> 16000"
    using B tail_seg_le [OF M] by (simp_all add: hdr_def)
  show ?thesis
  proof (cases "M = [] \<or> snd (hd M)")
    case True
    have "hdr_used ?m (a + n) \<noteq> 0"
      using True M e by (cases M) (auto simp: hdr_def)
    then have "plug_forward a s = Some (s\<lparr>ram := ?m\<rparr>)" using nx n le by (simp add: plug_forward_def Let_def)
    moreover have "merge ((n, False) # M) = (n, False) # M" by (rule merge_apart) (use ap True in \<open>auto simp: apart_free_Cons\<close>)
    ultimately show ?thesis using that B M e by blast
  next
    case False
    then obtain j M' where Mj: "M = (j, False) # M'" by (cases M) auto
    then have C: "hdr ?m a (a + n) (j, False)" and M': "tail_seg ?m (a + n) (a + n + j) M'" using M by simp_all
    have cx: "unat (hdr_next ?m (a + n)) = a + n + j" "hdr_used ?m (a + n) = 0" and j: "20 \<le> j" "4 dvd j"
      using C by (auto simp: hdr_def)
    have le': "a + n + j \<le> 16000" using tail_seg_le [OF M'] .
    have a: "unat (of_nat a :: u16) = a" using le' n by (simp add: unat_of_nat)
    define m' where "m' = put_prev (a + n + j) (of_nat a) (put_next a (hdr_next ?m (a + n)) ?m)"
    have "plug_forward a s = Some (s\<lparr>ram := m'\<rparr>)"
      using nx cx n j le' lf by (simp add: plug_forward_def Let_def m'_def)
    moreover have "hdr m' q a (n + j, False)" using B cx n j by (simp add: m'_def hdr_def)
    moreover have "tail_seg m' a (a + (n + j)) M'"
    proof -
      have "tail_seg (put_next a (hdr_next ?m (a + n)) ?m) (a + n) (a + n + j) M'" using M' n j by simp
      moreover have "a + n + j < 16000 \<or> M' = []" using M' by (cases M') (auto simp: tail_seg_def hdr_def)
      ultimately show ?thesis unfolding m'_def add.assoc [symmetric] by (rule tail_seg_prev [OF _ a])
    qed
    moreover have "merge ((n, False) # M) = (n + j, False) # M'" using merge_free [OF ap, of n] Mj by simp
    moreover have "hdr_used m' 16000 \<noteq> 0"
    proof (cases "a + n + j = 16000")
      case False
      then obtain D N where "M' = D # N" using M' by (cases M') auto
      then have "a + n + j + 8 \<le> 16000" using M' tail_seg_le [of ?m "a + n + j" "a + n + j + fst D" N] by (auto simp: hdr_def)
      then show ?thesis using e n by (simp add: m'_def)
    qed (use e n j in \<open>simp add: m'_def\<close>)
    moreover have "m' x = ?m x" if "x < a \<or> owned (a + n) M x" for x
      using that
    proof
      assume "owned (a + n) M x"
      then have "a + n + j + 8 \<le> x" using Mj owned_tail [OF M'] by auto
      then show ?thesis using n j by (simp add: m'_def)
    qed (use n j in \<open>simp add: m'_def\<close>)
    ultimately show ?thesis using that by blast
  qed
qed

lemma plug_backward_ok:
  assumes K: "seg (ram s) 0 0 K q" "a = extent K" and B: "hdr (ram s) q a (k, False)" and M: "tail_seg (ram s) a (a + k) M"
    and lf: "lfree s = first_free 0 (K @ (k, False) # M)" and ap: "apart_free K" "apart_free ((k, False) # M)"
    and e: "hdr_used (ram s) 16000 \<noteq> 0"
  obtains m' where "plug_backward a s = Some (s\<lparr>ram := m'\<rparr>)" "tail_seg m' 0 0 (merge (K @ (k, False) # M))"
    "hdr_used m' 16000 \<noteq> 0" "\<And>x. owned 0 (K @ (k, False) # M) x \<Longrightarrow> m' x = ram s x"
proof -
  let ?m = "ram s"
  have nx: "unat (hdr_next ?m a) = a + k" "unat (hdr_prev ?m a) = q" and k: "20 \<le> k" "4 dvd k" and le: "a + k \<le> 16000"
    using B tail_seg_le [OF M] by (simp_all add: hdr_def)
  show ?thesis
  proof (cases "K = [] \<or> snd (last K)")
    case True
    have "plug_backward a s = Some (s\<lparr>ram := ?m\<rparr>)"
    proof (cases "K = []")
      case False
      then obtain K' D where K': "K = K' @ [D]" by (cases K rule: rev_cases) auto
      then obtain r where "hdr ?m r (extent K') D" "q = extent K'" using K(1) by (auto simp: seg_append)
      moreover from this have "hdr_used ?m q \<noteq> 0" "q \<noteq> a" using True K' K(2) by (auto simp: hdr_def)
      ultimately show ?thesis using nx k le K(2) K' by (simp add: plug_backward_def Let_def)
    qed (use K nx le k in \<open>simp add: plug_backward_def Let_def\<close>)
    moreover have "merge (K @ (k, False) # M) = K @ (k, False) # M" using merge_prefix [OF ap(1) True] merge_apart [OF ap(2)] by simp
    moreover have "tail_seg ?m 0 0 (K @ (k, False) # M)" unfolding tail_seg_append using K B M by auto
    ultimately show ?thesis using that [of ?m] e by simp
  next
    case False
    then obtain K' D where KD: "K = K' @ [D]" by (cases K rule: rev_cases) auto
    obtain j where D: "D = (j, False)" using False KD by (cases D) auto
    have K': "K = K' @ [(j, False)]" using KD D by simp
    obtain r where r: "seg ?m 0 0 K' r" "hdr ?m r q (j, False)" "q = extent K'" using K(1) K' by (auto simp: seg_append)
    have a: "a = q + j" and j: "20 \<le> j" "4 dvd j" "hdr_used ?m q = 0" using K' K(2) r by (auto simp: hdr_def)
    have q: "unat (of_nat q :: u16) = q" using le k a by (simp add: unat_of_nat)
    have nf: "lfree s < a"
    proof -
      have "\<not> (\<forall>B \<in> set K. snd B)" using K' by auto
      then show ?thesis using seg_first_free [OF K(1)] lf K(2) unfolding first_free_append by simp
    qed
    define m' where "m' = put_prev (a + k) (of_nat q) (put_next q (hdr_next ?m a) ?m)"
    have "plug_backward a s = Some (s\<lparr>ram := m'\<rparr>)"
      using nx j k le a nf by (simp add: plug_backward_def Let_def m'_def)
    moreover have M1: "a + k < 16000 \<or> M = []" using M by (cases M) (auto simp: tail_seg_def hdr_def)
    have tl: "tail_seg m' q (a + k) M"
    proof -
      have "tail_seg (put_next q (hdr_next ?m a) ?m) a (a + k) M" using M a j k by simp
      then show ?thesis unfolding m'_def by (rule tail_seg_prev [OF _ q M1])
    qed
    have "hdr m' r q (j + k, False)" using r(2) nx a j k by (simp add: m'_def hdr_def)
    moreover have "seg m' 0 0 K' r" using r a j k by (simp add: m'_def)
    moreover have "merge (K @ (k, False) # M) = K' @ (j + k, False) # M"
    proof -
      have kp: "apart_free K'" "K' = [] \<or> snd (last K')" using ap(1) K' by (auto simp: apart_free_append)
      have "apart_free ((j + k, False) # M)" using ap(2) by (simp add: apart_free_Cons)
      then show ?thesis using merge_prefix [OF kp, of "(j, False) # (k, False) # M"] merge_apart K' by simp
    qed
    ultimately have "tail_seg m' 0 0 (merge (K @ (k, False) # M))" unfolding tail_seg_append using tl r(3) a by (auto simp: tail_seg_append add.assoc)
    moreover have "hdr_used m' 16000 \<noteq> 0"
    proof (cases "a + k = 16000")
      case False
      then obtain C N where "M = C # N" using M by (cases M) auto
      then have "a + k + 8 \<le> 16000" using M tail_seg_le [of ?m "a + k" "a + k + fst C" N] by (auto simp: hdr_def)
      then show ?thesis using e a j k by (simp add: m'_def)
    qed (use e a j k in \<open>simp add: m'_def\<close>)
    moreover have "m' x = ?m x" if o: "owned 0 (K @ (k, False) # M) x" for x
    proof -
      have "owned 0 K' x \<or> owned (a + k) M x" using o K' K(2) a r(3) by (auto simp: owned_append add.assoc)
      then have "x < q \<or> a + k + 8 \<le> x" using owned_range [of 0 K' x] r(3) owned_tail [OF M] by auto
      then show ?thesis using a j k by (auto simp: m'_def)
    qed
    ultimately show ?thesis using that \<open>plug_backward a s = Some (s\<lparr>ram := m'\<rparr>)\<close> by blast
  qed
qed

subsection \<open>Giving back\<close>

lemma held_split:
  assumes "tail_seg m q a L" and "(p, l) \<in> held a L"
  obtains K n M where "L = K @ (n, True) # M" "p = a + extent K + 8" "l = n - 8" "heap_mark (p - 8) a L = K @ (n, False) # M"
proof -
  have "\<exists>K n M. L = K @ (n, True) # M \<and> p = a + extent K + 8 \<and> l = n - 8 \<and> heap_mark (p - 8) a L = K @ (n, False) # M"
    using assms
  proof (induction L arbitrary: q a)
    case (Cons B L)
    have h: "20 \<le> fst B" "tail_seg m a (a + fst B) L" using Cons.prems(1) by (simp_all add: hdr_def)
    show ?case
    proof (cases "snd B \<and> p = a + 8 \<and> l = fst B - 8")
      case True
      then show ?thesis by (intro exI [of _ "[]"] exI [of _ "fst B"] exI [of _ L]) (auto intro: prod_eqI)
    next
      case False
      then have "(p, l) \<in> held (a + fst B) L" using Cons.prems(2) by (auto split: if_splits)
      then obtain K n M where k: "L = K @ (n, True) # M" "p = a + fst B + extent K + 8" "l = n - 8"
        "heap_mark (p - 8) (a + fst B) L = K @ (n, False) # M" using Cons.IH [OF h(2)] by blast
      have "heap_mark (p - 8) a (B # L) = (B # K) @ (n, False) # M" using k h(1) by simp
      then show ?thesis using k(1,2,3) by (intro exI [of _ "B # K"] exI [of _ n] exI [of _ M]) simp
    qed
  qed simp
  then show ?thesis using that by blast
qed

lemma held_bounds:
  assumes "seg m q a L r" and "(p, l) \<in> held a L"
  shows "a + 8 \<le> p \<and> 12 \<le> l \<and> p + l \<le> a + extent L"
  using assms
proof (induction L arbitrary: q a)
  case (Cons B L)
  then have "20 \<le> fst B" "(p, l) \<in> held (a + fst B) L \<Longrightarrow> a + fst B + 8 \<le> p \<and> 12 \<le> l \<and> p + l \<le> a + fst B + extent L"
    by (auto simp: hdr_def)
  then show ?case using Cons.prems(2) by (auto split: if_splits)
qed simp

lemma held_heap: "tail_seg m q a L \<Longrightarrow> (p, l) \<in> held a L \<Longrightarrow> a + 8 \<le> p \<and> 12 \<le> l \<and> p + l \<le> 16000"
  using held_bounds by (fastforce simp: tail_seg_def)

lemma merge_Cons_merge: "merge (B # merge S) = merge (B # S)"
proof (induction S arbitrary: B rule: merge.induct)
  case (3 C D S)
  show ?case
  proof (cases "snd C \<or> snd D")
    case True
    have m: "merge (C # D # S) = C # merge (D # S)" using True by simp
    have "merge (merge (D # S)) = merge (D # S)" by (rule merge_apart [OF apart_free_merge])
    moreover obtain E N where E: "merge (D # S) = E # N" "snd E = snd D"
      using merge_hd [of "D # S"] by (cases "merge (D # S)") auto
    ultimately have "merge (C # merge (D # S)) = C # merge (D # S)" using True by simp
    moreover have "merge (X # merge (D # S)) = merge (X # D # S)" for X using "3.IH"(1) [OF True, of X] .
    ultimately show ?thesis using m True by (cases "snd B \<or> snd C") auto
  next
    case False
    have "merge (C # D # S) = merge ((fst C + fst D, False) # S)" using False by simp
    then have "merge (B # merge (C # D # S)) = merge (B # (fst C + fst D, False) # S)" using "3.IH"(2) [OF False, of B] by simp
    also have "\<dots> = merge (B # C # D # S)" using False by (cases "snd B") (simp_all add: add.assoc)
    finally show ?thesis .
  qed
qed simp_all

lemma merge_append_merge: "merge (R @ merge S) = merge (R @ S)"
proof (induction R)
  case Nil
  show ?case using merge_apart [OF apart_free_merge] by simp
next
  case (Cons B R)
  then show ?case using merge_Cons_merge [of B "R @ merge S"] merge_Cons_merge [of B "R @ S"] by simp
qed

lemma owned_mark:
  assumes "tail_seg m a (a + n) M" "20 \<le> n" "a = extent K"
  shows "owned 0 (K @ (n, False) # M) x \<Longrightarrow> x < a \<or> owned (a + n) M x" "owned (a + n) M x \<Longrightarrow> a + 8 \<le> x"
  using owned_range [of 0 K x] owned_tail [OF assms(1), of x] assms(2,3) by (auto simp: owned_append)

lemma owned_merge: "owned a (merge L) x = owned a L x"
proof (induction L arbitrary: a rule: merge.induct)
  case (3 B C L)
  then show ?case by (cases "snd B \<or> snd C") (simp_all add: add.assoc)
qed simp_all

lemma heap_rep_seg: "heap_rep s L \<Longrightarrow> tail_seg (ram s) 0 0 L"
  by (simp add: heap_rep_def)

text \<open>The lowest free block once the one at the end of \<open>K\<close> is marked free.\<close>

lemma first_free_mark:
  assumes "seg m 0 0 K q" and "a = extent K" and "20 \<le> n"
  shows "(if a < first_free 0 (K @ (n, True) # M) then a else first_free 0 (K @ (n, True) # M)) = first_free 0 (K @ (n, False) # M)"
    "first_free 0 (K @ (n, False) # M) \<le> a"
proof -
  have *: "(if a < first_free 0 (K @ (n, True) # M) then a else first_free 0 (K @ (n, True) # M)) = first_free 0 (K @ (n, False) # M) \<and>
      first_free 0 (K @ (n, False) # M) \<le> a"
  proof (cases "\<forall>B \<in> set K. snd B")
    case True
    then show ?thesis using first_free_range [of "a + n" M] assms(2,3) unfolding first_free_append by simp
  next
    case False
    then show ?thesis using seg_first_free [OF assms(1) False] assms(2) unfolding first_free_append if_not_P [OF False] by simp
  qed
  then show "(if a < first_free 0 (K @ (n, True) # M) then a else first_free 0 (K @ (n, True) # M)) = first_free 0 (K @ (n, False) # M)"
    "first_free 0 (K @ (n, False) # M) \<le> a" by blast+
qed

lemma plug_holes_ok:
  assumes K: "seg (ram s) 0 0 K q" "a = extent K" and B: "hdr (ram s) q a (n, False)" and M: "tail_seg (ram s) a (a + n) M"
    and lf: "lfree s = first_free 0 (K @ (n, False) # M)" and ap: "apart_free K" "apart_free M" and e: "hdr_used (ram s) 16000 \<noteq> 0"
  obtains m' where "plug_holes a s = Some (s\<lparr>ram := m'\<rparr>)" "heap_rep (s\<lparr>ram := m'\<rparr>) (merge (K @ (n, False) # M))"
    "\<And>x. owned 0 (K @ (n, False) # M) x \<Longrightarrow> m' x = ram s x"
proof -
  have n: "20 \<le> n" using B by (simp add: hdr_def)
  have lfa: "lfree s \<le> a" unfolding lf by (rule first_free_mark(2) [OF K n])
  obtain m2 k N where f: "plug_forward a s = Some (s\<lparr>ram := m2\<rparr>)" "hdr m2 q a (k, False)" "tail_seg m2 a (a + k) N"
    "merge ((n, False) # M) = (k, False) # N" "hdr_used m2 16000 \<noteq> 0" "\<And>x. x < a \<or> owned (a + n) M x \<Longrightarrow> m2 x = ram s x"
    by (rule plug_forward_ok [OF B M ap(2) lfa e]) blast
  have mm: "merge (K @ (k, False) # N) = merge (K @ (n, False) # M)" using merge_append_merge [of K "(n, False) # M"] f(4) by simp
  have apN: "apart_free ((k, False) # N)" using apart_free_merge [of "(n, False) # M"] f(4) by simp
  have ff: "first_free 0 (K @ (k, False) # N) = lfree s"
    unfolding lf using merge_first_free [of 0 "K @ (k, False) # N"] merge_first_free [of 0 "K @ (n, False) # M"] mm by simp
  have own: "owned 0 (K @ (k, False) # N) x = owned 0 (K @ (n, False) # M) x" for x
    using owned_merge [of 0 "K @ (k, False) # N" x] owned_merge [of 0 "K @ (n, False) # M" x] mm by simp
  have K2: "seg m2 0 0 K q" using K(1) seg_same [of 0 K m2 "ram s" 0 q] f(6) K(2) by simp
  obtain m3 where g: "plug_backward a (s\<lparr>ram := m2\<rparr>) = Some (s\<lparr>ram := m2\<rparr>\<lparr>ram := m3\<rparr>)" "tail_seg m3 0 0 (merge (K @ (k, False) # N))"
    "hdr_used m3 16000 \<noteq> 0" "\<And>x. owned 0 (K @ (k, False) # N) x \<Longrightarrow> m3 x = m2 x"
  proof (rule plug_backward_ok [of "s\<lparr>ram := m2\<rparr>" K q a k N])
    show "seg (ram (s\<lparr>ram := m2\<rparr>)) 0 0 K q" using K2 by simp
    show "lfree (s\<lparr>ram := m2\<rparr>) = first_free 0 (K @ (k, False) # N)" using ff by simp
    fix m' assume "plug_backward a (s\<lparr>ram := m2\<rparr>) = Some (s\<lparr>ram := m2\<rparr>\<lparr>ram := m'\<rparr>)" "tail_seg m' 0 0 (merge (K @ (k, False) # N))"
      "hdr_used m' 16000 \<noteq> 0" "\<And>x. owned 0 (K @ (k, False) # N) x \<Longrightarrow> m' x = ram (s\<lparr>ram := m2\<rparr>) x"
    then show thesis by (intro that [of m']) simp_all
  qed (use f(2,3,5) apN ap(1) K(2) in simp_all)
  show ?thesis
  proof (rule that [of m3])
    show "plug_holes a s = Some (s\<lparr>ram := m3\<rparr>)" using f(1) g(1) by (simp add: plug_holes_def)
    show "heap_rep (s\<lparr>ram := m3\<rparr>) (merge (K @ (n, False) # M))"
      using g(2,3) lf by (simp add: heap_rep_def mm apart_free_merge merge_first_free)
  next
    fix x assume o: "owned 0 (K @ (n, False) # M) x"
    then have "m2 x = ram s x" using owned_mark(1) [OF M n K(2)] f(6) by blast
    moreover have "m3 x = m2 x" by (rule g(4)) (simp add: own o)
    ultimately show "m3 x = ram s x" by simp
  qed
qed

lemma mem_free_body_ok:
  assumes rep: "heap_rep s L" and h: "(p, l) \<in> held 0 L"
  obtains s' where "mem_free_body (int p) s = Some ((), s')" "heap_rep s' (heap_free (p - 8) L)" "held 0 (heap_free (p - 8) L) = held 0 L - {(p, l)}"
    "kern s' = kern s" "mem_mutex s' = mem_mutex s" "\<And>x. owned 0 (heap_free (p - 8) L) x \<Longrightarrow> ram s' x = ram s x"
proof -
  have t: "tail_seg (ram s) 0 0 L" and e: "hdr_used (ram s) 16000 \<noteq> 0" and lf: "lfree s = first_free 0 L" and ap: "apart_free L"
    using rep by (simp_all add: heap_rep_def)
  obtain K n M where L: "L = K @ (n, True) # M" "p = 0 + extent K + 8" "l = n - 8" and mark: "heap_mark (p - 8) 0 L = K @ (n, False) # M"
    by (rule held_split [OF t h]) blast
  define a where "a = extent K"
  have p: "p = a + 8" using L(2) by (simp add: a_def)
  obtain q where K: "seg (ram s) 0 0 K q" and B: "hdr (ram s) q a (n, True)" and M: "tail_seg (ram s) a (a + n) M"
    using t unfolding L(1) tail_seg_append by (auto simp: a_def)
  have le: "a + n \<le> 16000" and n: "20 \<le> n" using tail_seg_le [OF M] B by (auto simp: hdr_def)
  have apk: "apart_free K" "apart_free M" using ap unfolding L(1) by (auto simp: apart_free_append apart_free_Cons)
  define L1 where "L1 = K @ (n, False) # M"
  define s1 where "s1 = s\<lparr>ram := put_used a 0 (ram s), lfree := first_free 0 L1\<rparr>"
  obtain m' where g: "plug_holes a s1 = Some (s1\<lparr>ram := m'\<rparr>)" "heap_rep (s1\<lparr>ram := m'\<rparr>) (merge L1)" "\<And>x. owned 0 L1 x \<Longrightarrow> m' x = ram s1 x"
    unfolding L1_def
  proof (rule plug_holes_ok [of s1 K q a n M])
    fix m' assume "plug_holes a s1 = Some (s1\<lparr>ram := m'\<rparr>)" "heap_rep (s1\<lparr>ram := m'\<rparr>) (merge (K @ (n, False) # M))"
      "\<And>x. owned 0 (K @ (n, False) # M) x \<Longrightarrow> m' x = ram s1 x"
    then show thesis using that by (simp add: L1_def)
  qed (use K B M e n le apk in \<open>simp_all add: s1_def a_def hdr_def L1_def\<close>)
  have fr: "heap_free (p - 8) L = merge L1" using mark by (simp add: heap_free_def L1_def)
  show ?thesis
  proof (rule that [of "s1\<lparr>ram := m'\<rparr>"])
    have lf1: "(if a < lfree s then a else lfree s) = first_free 0 L1" unfolding lf L(1) L1_def by (rule first_free_mark(1) [OF K a_def n])
    have "hdr_of (int p) = Some a" using p by (simp add: hdr_of_def)
    moreover have "(if a < lfree s then s\<lparr>ram := put_used a 0 (ram s), lfree := a\<rparr> else s\<lparr>ram := put_used a 0 (ram s)\<rparr>) = s1"
      using lf1 by (auto simp: s1_def split: if_splits)
    ultimately show "mem_free_body (int p) s = Some ((), s1\<lparr>ram := m'\<rparr>)" using g(1) le n by (simp add: mem_free_body_def Let_def cong: if_cong)
    have hL: "held 0 L = insert (p, l) (held 0 L1)" unfolding L(1) L1_def held_append using p L(3) by (auto simp: a_def)
    have "(p, l) \<notin> held 0 K" using held_bounds [OF K, of p l] p by (auto simp: a_def)
    moreover have "(p, l) \<notin> held (a + n) M" using held_heap [OF M, of p l] p n by auto
    ultimately have "(p, l) \<notin> held 0 L1" unfolding L1_def held_append by (simp add: a_def)
    then show "held 0 (heap_free (p - 8) L) = held 0 L - {(p, l)}" unfolding fr merge_held hL by simp
    fix x assume "owned 0 (heap_free (p - 8) L) x"
    then have o: "owned 0 L1 x" by (simp add: fr owned_merge)
    then have "x < a \<or> a + 8 \<le> x" using owned_mark [OF M n a_def] unfolding L1_def by blast
    then show "ram (s1\<lparr>ram := m'\<rparr>) x = ram s x" using g(3) [OF o] by (simp add: s1_def)
  qed (use g(2) fr in \<open>simp_all add: s1_def\<close>)
qed

subsection \<open>Sizes\<close>

lemma and_not_3: "unat ((x :: u32) AND NOT 3) = 4 * (unat x div 4)"
proof -
  have m: "(3 :: u32) = mask 2" by (simp add: mask_eq_exp_minus_1)
  have ss: "Suc (Suc (n - 2)) = n" if "2 \<le> n" for n using that by simp
  have "x AND NOT 3 = push_bit 2 (drop_bit 2 x)" unfolding m
    by (rule bit_word_eqI) (auto simp: bit_simps ss)
  then have "unat (x AND NOT 3) = unat (push_bit 2 (drop_bit 2 x))" by simp
  also have "\<dots> = 4 * (unat x div 4)"
  proof -
    have "4 * (unat x div 4) < 2 ^ 32" using unsigned_less [of x, where 'a = nat] by simp
    moreover have "unat (push_bit 2 (drop_bit 2 x)) = take_bit 32 (push_bit 2 (drop_bit 2 (unat x)))"
      using take_bit_nat_eq_self [of "unat x" 32] unsigned_less [of x, where 'a = nat]
      by (simp only: unsigned_push_bit_eq unsigned_drop_bit_eq) simp
    ultimately show ?thesis by (simp only: push_bit_eq_mult drop_bit_eq_div take_bit_eq_mod) (simp add: mult.commute)
  qed
  finally show ?thesis .
qed

lemma align_size: "unat (LWIP_MEM_ALIGN_SIZE v) = (if unat v \<le> 65532 then 4 * ((unat v + 3) div 4) else 0)"
proof -
  have v: "unat v < 65536" using unsigned_less [of v, where 'a = nat] by simp
  have u: "unat (ucast v :: u32) = unat v" using v by (simp add: unsigned_ucast_eq take_bit_nat_eq_self)
  have "unat (ucast v + 4 - 1 :: u32) = unat v + 3" 
  proof -
    have "(ucast v + 4 - 1 :: u32) = ucast v + 3" by simp
    then show ?thesis using v u by (simp add: unat_word_ariths)
  qed
  then have "unat ((ucast v + 4 - 1 :: u32) AND NOT (4 - 1)) = 4 * ((unat v + 3) div 4)" using and_not_3 [of "ucast v + 4 - 1"] by simp
  then have "unat (LWIP_MEM_ALIGN_SIZE v) = 4 * ((unat v + 3) div 4) mod 65536"
    unfolding LWIP_MEM_ALIGN_SIZE_def by (simp only: unsigned_ucast_eq take_bit_eq_mod) simp
  moreover have "unat v \<le> 65532 \<or> unat v \<in> {65533, 65534, 65535}" using v by auto
  moreover have "4 * ((n + 3) div 4) < 65536" if "n \<le> 65532" for n :: nat using that by (simp add: less_mult_imp_div_less)
  ultimately show ?thesis by auto
qed

text \<open>The size of the user's part of a block for a request: the sizes above 65532 wrap around.\<close>

lemma block_size_ok:
  shows "unat v \<le> 65532 \<Longrightarrow> unat (block_size v) = max 12 (4 * ((unat v + 3) div 4))" "65532 < unat v \<Longrightarrow> block_size v = 12"
    "12 \<le> unat (block_size v)" "4 dvd unat (block_size v)"
proof -
  have *: "unat (block_size v) = max 12 (if unat v \<le> 65532 then 4 * ((unat v + 3) div 4) else 0)"
    using align_size [of v] by (auto simp: block_size_def Let_def word_less_nat_alt max_def)
  show "unat v \<le> 65532 \<Longrightarrow> unat (block_size v) = max 12 (4 * ((unat v + 3) div 4))" using * by simp
  show "12 \<le> unat (block_size v)" using * by simp
  have "4 dvd max 12 (4 * k)" for k :: nat by (cases "4 * k \<le> 12") (simp_all add: max_def)
  from this [of "(unat v + 3) div 4"] show "4 dvd unat (block_size v)" unfolding * by (cases "unat v \<le> 65532") simp_all
  assume "65532 < unat v"
  then have "unat (block_size v) = unat (12 :: u16)" using * by simp
  then show "block_size v = 12" by (simp only: word_unat_eq_iff)
qed

subsection \<open>Shrinking\<close>

fun heap_trim :: "nat \<Rightarrow> nat \<Rightarrow> nat \<Rightarrow> block list \<Rightarrow> block list" where
  "heap_trim sz b a [] = []"
| "heap_trim sz b a (B # L) =
     (if a = b then if sz + 28 \<le> fst B \<or> L \<noteq> [] \<and> \<not> snd (hd L) then (sz + 8, True) # merge ((fst B - (sz + 8), False) # L) else B # L
      else B # heap_trim sz b (a + fst B) L)"

lemma heap_trim_split:
  assumes "seg m p a K q" and "b = a + extent K"
  shows "heap_trim sz b a (K @ B # M) = K @ heap_trim sz b b (B # M)"
  using assms
proof (induction K arbitrary: p a)
  case (Cons C K)
  then have "a \<noteq> b" "heap_trim sz b (a + fst C) (K @ B # M) = K @ heap_trim sz b b (B # M)" by (auto simp: hdr_def)
  then show ?case by simp
qed simp

lemma trim_link_ok:
  assumes B: "hdr (ram s) q a (n, True)" and w: "unat ptr = a" "unat ptr2 = a + c" "unat nxt = a + c + k"
    and c: "20 \<le> c" "4 dvd c" and k: "20 \<le> k" "4 dvd k" and M: "tail_seg (ram s) r (a + c + k) M" and e: "hdr_used (ram s) 16000 \<noteq> 0"
  obtains m' where "trim_link a ptr ptr2 nxt s = Some (s\<lparr>ram := m'\<rparr>)" "hdr m' q a (c, True)" "tail_seg m' a (a + c) ((k, False) # M)"
    "hdr_used m' 16000 \<noteq> 0" "\<And>x. x < a \<or> a + 8 \<le> x \<and> x < a + c \<or> a + c + k + 8 \<le> x \<Longrightarrow> m' x = ram s x"
proof -
  have le: "a + c + k \<le> 16000" by (rule tail_seg_le [OF M])
  define m1 where "m1 = put_next a ptr2 (put_prev (a + c) ptr (put_next (a + c) nxt (put_used (a + c) 0 (ram s))))"
  define m' where "m' = (if a + c + k \<noteq> 16000 then put_prev (a + c + k) ptr2 m1 else m1)"
  have "trim_link a ptr ptr2 nxt s = Some (s\<lparr>ram := m'\<rparr>)"
    using w le c k by (simp add: trim_link_def m1_def [symmetric] m'_def) (simp add: m1_def)
  moreover have "hdr m' q a (c, True)" using B w c k by (simp add: m'_def m1_def hdr_def)
  moreover have "hdr m' a (a + c) (k, False)" using w c k by (simp add: m'_def m1_def hdr_def)
  moreover have "tail_seg m' (a + c) (a + c + k) M"
  proof -
    have M1: "tail_seg m1 r (a + c + k) M" using M c k by (simp add: m1_def)
    show ?thesis
    proof (cases "a + c + k = 16000")
      case True
      then have "M = []" using M by (cases M) (auto simp: tail_seg_def hdr_def)
      then show ?thesis using True by simp
    next
      case False
      then show ?thesis using tail_seg_prev [OF M1 w(2)] le by (simp add: m'_def)
    qed
  qed
  moreover have "hdr_used m' 16000 \<noteq> 0"
  proof (cases "a + c + k = 16000")
    case False
    then obtain D N where "M = D # N" using M by (cases M) auto
    then have "a + c + k + 8 \<le> 16000" using M tail_seg_le [of "ram s" "a + c + k" "a + c + k + fst D" N] by (auto simp: hdr_def)
    then show ?thesis using e c k False by (simp add: m'_def m1_def)
  qed (use e c k in \<open>simp add: m'_def m1_def\<close>)
  moreover have "\<And>x. x < a \<or> a + 8 \<le> x \<and> x < a + c \<or> a + c + k + 8 \<le> x \<Longrightarrow> m' x = ram s x" using c k by (auto simp: m'_def m1_def)
  ultimately show ?thesis using that by simp
qed

text \<open>The new header is written: the block \<open>n\<close> has become \<open>c\<close>, and \<open>k\<close> bytes are free behind it.\<close>

lemma trim_link_heap:
  assumes K: "seg (ram s) 0 0 K q" "a = extent K" and B: "hdr (ram s) q a (n, True)"
    and w: "unat ptr = a" "unat ptr2 = a + c" "unat nxt = a + c + k"
    and c: "20 \<le> c" "4 dvd c" "c < n" and k: "20 \<le> k" "4 dvd k" and N: "tail_seg (ram s) r (a + c + k) N" and e: "hdr_used (ram s) 16000 \<noteq> 0"
    and ap: "apart_free K" "apart_free ((k, False) # N)" and lf: "lfree s = first_free 0 (K @ (c, True) # (k, False) # N)"
  obtains m' where "trim_link a ptr ptr2 nxt s = Some (s\<lparr>ram := m'\<rparr>)" "heap_rep (s\<lparr>ram := m'\<rparr>) (K @ (c, True) # (k, False) # N)"
    "\<And>x. owned 0 (K @ (c, True) # (k, False) # N) x \<Longrightarrow> m' x = ram s x"
proof -
  obtain m' where m': "trim_link a ptr ptr2 nxt s = Some (s\<lparr>ram := m'\<rparr>)" "hdr m' q a (c, True)" "tail_seg m' a (a + c) ((k, False) # N)"
    "hdr_used m' 16000 \<noteq> 0" "\<And>x. x < a \<or> a + 8 \<le> x \<and> x < a + c \<or> a + c + k + 8 \<le> x \<Longrightarrow> m' x = ram s x"
    by (rule trim_link_ok [OF B w c(1,2) k N e]) blast
  have "seg m' 0 0 K q" using K seg_same [of 0 K m' "ram s" 0 q] m'(5) by simp
  then have "tail_seg m' 0 0 (K @ (c, True) # (k, False) # N)" unfolding tail_seg_append using m'(2,3) K(2) by auto
  moreover have "apart_free (K @ (c, True) # (k, False) # N)" using ap by (simp add: apart_free_append apart_free_Cons)
  ultimately have "heap_rep (s\<lparr>ram := m'\<rparr>) (K @ (c, True) # (k, False) # N)" using m'(4) lf by (simp add: heap_rep_def)
  moreover have "m' x = ram s x" if o: "owned 0 (K @ (c, True) # (k, False) # N) x" for x
  proof -
    have "owned 0 K x \<or> a + 8 \<le> x \<and> x < a + c \<or> owned (a + c + k) N x" using o K(2) by (auto simp: owned_append)
    then show ?thesis using owned_range [of 0 K x] K(2) owned_tail [OF N, of x] m'(5) by auto
  qed
  ultimately show ?thesis using that m'(1) by blast
qed

lemma first_free_trim:
  assumes K: "seg m 0 0 K q" "a = extent K" and j: "n < c + k"
  shows "(if first_free 0 (K @ (n, True) # (i, False) # N) = a + n then a + c else first_free 0 (K @ (n, True) # (i, False) # N)) =
    first_free 0 (K @ (c, True) # (k, False) # N)"
proof (cases "\<forall>B \<in> set K. snd B")
  case False
  then show ?thesis using seg_first_free [OF K(1) False] K(2) unfolding first_free_append if_not_P [OF False] by simp
qed (use K(2) in \<open>unfold first_free_append, simp\<close>)

lemma first_free_trim_used:
  assumes K: "seg m 0 0 K q" "a = extent K" and c: "c < n"
  shows "(if a + c < first_free 0 (K @ (n, True) # M) then a + c else first_free 0 (K @ (n, True) # M)) =
    first_free 0 (K @ (c, True) # (k, False) # M)"
proof (cases "\<forall>B \<in> set K. snd B")
  case True
  then show ?thesis using first_free_range [of "a + n" M] K(2) c unfolding first_free_append by simp
next
  case False
  then show ?thesis using seg_first_free [OF K(1) False] K(2) unfolding first_free_append if_not_P [OF False] by simp
qed

lemma mem_trim_body_ok:
  assumes rep: "heap_rep s L" and h: "(p, l) \<in> held 0 L" and ns: "unat ns < l" "12 \<le> unat ns" "4 dvd unat ns"
    and w: "unat ptr = p - 8" "unat z = l"
  obtains s' l' where "mem_trim_body (int p) ns (p - 8) ptr z s = Some (Some (int p), s')" "heap_rep s' (heap_trim (unat ns) (p - 8) 0 L)"
    "held 0 (heap_trim (unat ns) (p - 8) 0 L) = insert (p, l') (held 0 L - {(p, l)})" "unat ns \<le> l'" "l' \<le> l"
    "kern s' = kern s" "mem_mutex s' = mem_mutex s" "\<And>x. owned 0 (heap_trim (unat ns) (p - 8) 0 L) x \<Longrightarrow> ram s' x = ram s x"
proof -
  have t: "tail_seg (ram s) 0 0 L" and e: "hdr_used (ram s) 16000 \<noteq> 0" and lf: "lfree s = first_free 0 L" and ap: "apart_free L"
    using rep by (simp_all add: heap_rep_def)
  obtain K n M where L: "L = K @ (n, True) # M" "p = 0 + extent K + 8" "l = n - 8"
    by (rule held_split [OF t h]) blast
  define a where "a = extent K"
  define c where "c = unat ns + 8"
  have p: "p = a + 8" "p - 8 = a" using L(2) by (simp_all add: a_def)
  obtain q where K: "seg (ram s) 0 0 K q" and B: "hdr (ram s) q a (n, True)" and M: "tail_seg (ram s) a (a + n) M"
    using t unfolding L(1) tail_seg_append by (auto simp: a_def)
  have le: "a + n \<le> 16000" and n: "20 \<le> n" "4 dvd n" and nx: "unat (hdr_next (ram s) a) = a + n"
    using tail_seg_le [OF M] B by (auto simp: hdr_def)
  have c: "20 \<le> c" "4 dvd c" "c < n" using ns L(3) n(1) by (simp_all add: c_def)
  have apk: "apart_free K" "apart_free M" using ap unfolding L(1) by (auto simp: apart_free_append apart_free_Cons)
  define ptr2 where "ptr2 = ptr + 8 + ns"
  have p2: "unat ptr2 = a + c" using c le w(1) p unfolding ptr2_def c_def by (simp add: unat_word_ariths)
  have trim: "heap_trim (unat ns) (p - 8) 0 L = K @ heap_trim (unat ns) a a ((n, True) # M)"
    unfolding p(2) L(1) by (rule heap_trim_split [OF K]) (simp add: a_def)
  have hL: "held 0 L = insert (p, l) (held 0 K \<union> held (a + n) M)" unfolding L(1) held_append using p L(3) by (auto simp: a_def)
  have notin: "(p, l) \<notin> held 0 K \<union> held (a + n) M"
    using held_bounds [OF K, of p l] held_heap [OF M, of p l] p n by (auto simp: a_def)
  have hdiff: "held 0 L - {(p, l)} = held 0 K \<union> held (a + n) M" unfolding hL using notin by blast
  have d: "4 dvd n - c" by (rule dvd_diff_nat [OF n(2) c(2)])
  consider (free) j N where "M = (j, False) # N" | (used) "M = [] \<or> snd (hd M)"
    by (cases M) (auto, metis prod.collapse)
  then show ?thesis
  proof cases
    case free
    have N: "tail_seg (ram s) (a + n) (a + n + j) N" and j: "20 \<le> j" "4 dvd j" and jx: "unat (hdr_next (ram s) (a + n)) = a + n + j"
      "hdr_used (ram s) (a + n) = 0" using M free by (auto simp: hdr_def)
    have le2: "a + n + j \<le> 16000" by (rule tail_seg_le [OF N])
    define k where "k = n - c + j"
    have k: "20 \<le> k" "a + c + k = a + n + j" using j c by (simp_all add: k_def)
    have k4: "4 dvd k" unfolding k_def by (rule dvd_add [OF d j(2)])
    have N': "tail_seg (ram s) (a + n) (a + c + k) N" unfolding k(2) by (rule N)
    have apN: "apart_free ((k, False) # N)" using apk(2) free by (simp add: apart_free_Cons)
    define L' where "L' = K @ (c, True) # (k, False) # N"
    have tr: "heap_trim (unat ns) (p - 8) 0 L = L'"
      unfolding trim L'_def using free merge_apart [OF apN] by (simp add: c_def k_def)
    define s1 where "s1 = s\<lparr>lfree := first_free 0 L'\<rparr>"
    obtain m' where m': "trim_link a ptr ptr2 (hdr_next (ram s) (a + n)) s1 = Some (s1\<lparr>ram := m'\<rparr>)" "heap_rep (s1\<lparr>ram := m'\<rparr>) L'"
      "\<And>x. owned 0 L' x \<Longrightarrow> m' x = ram s1 x"
      unfolding L'_def
    proof (rule trim_link_heap [of s1 K q a n ptr ptr2 c "hdr_next (ram s) (a + n)" k "a + n" N])
      fix m' assume "trim_link a ptr ptr2 (hdr_next (ram s) (a + n)) s1 = Some (s1\<lparr>ram := m'\<rparr>)"
        "heap_rep (s1\<lparr>ram := m'\<rparr>) (K @ (c, True) # (k, False) # N)" "\<And>x. owned 0 (K @ (c, True) # (k, False) # N) x \<Longrightarrow> m' x = ram s1 x"
      then show thesis using that by (simp add: L'_def)
    qed (use K B N' e c k k4 p2 jx w p apk(1) apN in \<open>simp_all add: s1_def a_def L'_def\<close>)
    have "(if lfree s = a + n then s\<lparr>lfree := unat ptr2\<rparr> else s) = s1"
      using first_free_trim [OF K a_def, of n c k j N] k(2) j(1) lf L(1) free p2 by (auto simp: s1_def L'_def split: if_splits)
    then have run: "mem_trim_body (int p) ns (p - 8) ptr z s = Some (Some (int p), s1\<lparr>ram := m'\<rparr>)"
      using nx jx m'(1) le p(2) by (simp add: mem_trim_body_def ptr2_def [symmetric] Let_def)
    show ?thesis
    proof (rule that [OF run, where l' = "unat ns"])
      show "held 0 (heap_trim (unat ns) (p - 8) 0 L) = insert (p, unat ns) (held 0 L - {(p, l)})"
        unfolding hdiff tr L'_def held_append using free p k(2) by (simp add: a_def c_def add.assoc)
    qed (use m' ns tr in \<open>simp_all add: s1_def\<close>)
  next
    case used
    have u: "hdr_used (ram s) (a + n) \<noteq> 0" using used M e by (cases M) (auto simp: hdr_def)
    show ?thesis
    proof (cases "c + 20 \<le> n")
      case True
      define k where "k = n - c"
      have k: "20 \<le> k" "4 dvd k" "a + c + k = a + n" using True d by (auto simp: k_def)
      have M': "tail_seg (ram s) a (a + c + k) M" unfolding k(3) by (rule M)
      have apN: "apart_free ((k, False) # M)" using apk(2) used by (simp add: apart_free_Cons)
      define L' where "L' = K @ (c, True) # (k, False) # M"
      have tr: "heap_trim (unat ns) (p - 8) 0 L = L'"
        unfolding trim L'_def using True merge_apart [OF apN] by (simp add: c_def k_def)
      define s1 where "s1 = s\<lparr>lfree := first_free 0 L'\<rparr>"
      obtain m' where m': "trim_link a ptr ptr2 (hdr_next (ram s) a) s1 = Some (s1\<lparr>ram := m'\<rparr>)" "heap_rep (s1\<lparr>ram := m'\<rparr>) L'"
        "\<And>x. owned 0 L' x \<Longrightarrow> m' x = ram s1 x"
        unfolding L'_def
      proof (rule trim_link_heap [of s1 K q a n ptr ptr2 c "hdr_next (ram s) a" k a M])
        fix m' assume "trim_link a ptr ptr2 (hdr_next (ram s) a) s1 = Some (s1\<lparr>ram := m'\<rparr>)"
          "heap_rep (s1\<lparr>ram := m'\<rparr>) (K @ (c, True) # (k, False) # M)" "\<And>x. owned 0 (K @ (c, True) # (k, False) # M) x \<Longrightarrow> m' x = ram s1 x"
        then show thesis using that by (simp add: L'_def)
      qed (use K B M' e c k p2 nx w p apk(1) apN in \<open>simp_all add: s1_def a_def L'_def\<close>)
      have "(if unat ptr2 < lfree s then s\<lparr>lfree := unat ptr2\<rparr> else s) = s1"
        using first_free_trim_used [OF K a_def c(3), of M k] lf L(1) p2 by (auto simp: s1_def L'_def split: if_splits)
      then have run: "mem_trim_body (int p) ns (p - 8) ptr z s = Some (Some (int p), s1\<lparr>ram := m'\<rparr>)"
        using nx u m'(1) le p(2) w(2) L(3) True by (simp add: mem_trim_body_def ptr2_def [symmetric] Let_def c_def)
      show ?thesis
      proof (rule that [OF run, where l' = "unat ns"])
        show "held 0 (heap_trim (unat ns) (p - 8) 0 L) = insert (p, unat ns) (held 0 L - {(p, l)})"
          unfolding hdiff tr L'_def held_append using p k(3) by (simp add: a_def c_def add.assoc)
      qed (use m' ns tr in \<open>simp_all add: s1_def\<close>)
    next
      case False
      then have small: "\<not> 20 + unat ns \<le> n - 8" by (simp add: c_def)
      have tr: "heap_trim (unat ns) (p - 8) 0 L = L" unfolding trim using False used by (auto simp: L(1) c_def)
      have run: "mem_trim_body (int p) ns (p - 8) ptr z s = Some (Some (int p), s)"
        using nx u le p(2) w(2) L(3) small by (simp add: mem_trim_body_def Let_def)
      show ?thesis
        by (rule that [OF run, where l' = l]) (use rep tr ns h in auto)
    qed
  qed
qed

end
