(* ===== verification/Lwip_Mem_Services.thy ===== *)
theory Lwip_Mem_Services
  imports Lwip_Mem_Proofs OS_Running
begin

text \<open>
  The calls of the heap with their mutex, as their clients see them: the locale \<open>byte_heap\<close> is the
  contract, \<open>lheap_reach\<close> closes it under everything clients may do.
\<close>

subsection \<open>The calls with the mutex\<close>

text \<open>The mutex is free, nobody waits for it, and the caller is a task that may wait.\<close>

definition mutex_at :: "lwip_heap \<Rightarrow> nat \<Rightarrow> bool" where
  "mutex_at s e \<longleftrightarrow> mem_mutex s = Some e \<and> is_sem (kern s) e \<and> sem_count (kern s) e = 1 \<and> OSEventGrp (OSEvents (kern s) e) = 0 \<and>
     OSIntNesting (kern s) = 0 \<and> OSLockNesting (kern s) = 0"

lemma heap_rep_kern [simp]: "heap_rep (s\<lparr>kern := k\<rparr>) L = heap_rep s L"
  by (simp add: heap_rep_def)

lemma run_locked_free:
  assumes mx: "mutex_at s e"
    and body: "\<And>k. \<exists>r s1. body (s\<lparr>kern := k\<rparr>) = Some (r, s1) \<and> kern s1 = k \<and> mem_mutex s1 = mem_mutex s \<and> P r (s1\<lparr>kern := kern s\<rparr>)"
  obtains r s1 where "run_locked body s = Some (Returns r, s1)" "P r s1" "kern s1 = kern s" "mem_mutex s1 = mem_mutex s"
proof -
  note m = mx [unfolded mutex_at_def]
  have sem: "is_sem (kern s) e" and cnt: "sem_count (kern s) e = 1" using m by blast+
  note d = is_semD [OF sem]
  let ?k = "upd_evt e (\<lambda>ev. ev\<lparr>OSEventCnt := OSEventCnt ev - 1\<rparr>) (kern s)"
  have wait: "sys_arch_sem_wait (mem_mutex s) 0 (kern s) = Some (Returns (sem_result (OSTimeGet (kern s)) OS_ERR_NONE ?k), ?k)"
    using m d by (simp add: sys_arch_sem_wait_def OSSemPend_def)
  have sem': "is_sem ?k e" using sem by (simp add: is_sem_def)
  have "OSSemPost e ?k = Some (OS_ERR_NONE, upd_evt e (\<lambda>ev. ev\<lparr>OSEventCnt := OSEventCnt ev + 1\<rparr>) ?k)"
    using is_semD [OF sem'] m by (simp add: OSSemPost_def)
  moreover have "upd_evt e (\<lambda>ev. ev\<lparr>OSEventCnt := OSEventCnt ev + 1\<rparr>) ?k = kern s"
  proof -
    have ev: "(OSEvents (kern s) e)\<lparr>OSEventCnt := OSEventCnt (OSEvents (kern s) e) - 1 + 1\<rparr> = OSEvents (kern s) e" by simp
    have "(OSEvents (kern s))(e := OSEvents (kern s) e) = OSEvents (kern s)" by simp
    then show ?thesis by (simp add: upd_evt_def)
  qed
  ultimately have post: "OSSemPost e ?k = Some (OS_ERR_NONE, kern s)" by simp
  obtain r s1 where b: "body (s\<lparr>kern := ?k\<rparr>) = Some (r, s1)" "kern s1 = ?k" "mem_mutex s1 = mem_mutex s" "P r (s1\<lparr>kern := kern s\<rparr>)"
    using body [of ?k] by blast
  have "mutex_unlock s1 = Some (s1\<lparr>kern := kern s\<rparr>)" using m post b(2,3) by (simp add: mutex_unlock_def sys_sem_signal_def)
  then have "run_locked body s = Some (Returns r, s1\<lparr>kern := kern s\<rparr>)" using wait b(1) by (simp add: run_locked_def)
  then show ?thesis using that b(3,4) by simp
qed

text \<open>Whether the call waited or not: its body ran, in some state of the kernel.\<close>

lemma run_locked_body:
  assumes "run_locked body s = Some (Returns r, s') \<or> run_locked_resume body t0 s = Some (r, s')"
  obtains k s1 k' where "body (s\<lparr>kern := k\<rparr>) = Some (r, s1)" "s' = s1\<lparr>kern := k'\<rparr>"
proof -
  have "\<exists>k s1 k'. body (s\<lparr>kern := k\<rparr>) = Some (r, s1) \<and> s' = s1\<lparr>kern := k'\<rparr>"
    using assms
    by (auto simp: run_locked_def run_locked_resume_def mutex_unlock_def split: pended.splits elim!: bind_SomeE) blast+
  then show ?thesis using that by blast
qed

lemma run_locked_blocks:
  assumes "run_locked body s = Some (Blocks, s')"
  obtains k where "s' = s\<lparr>kern := k\<rparr>"
proof -
  have "\<exists>k. s' = s\<lparr>kern := k\<rparr>"
    using assms by (auto simp: run_locked_def split: pended.splits elim!: bind_SomeE)
  then show ?thesis using that by blast
qed

subsection \<open>The contract of a heap\<close>

text \<open>\<open>H\<close> maps the pointers that clients hold to the sizes they may use.\<close>

definition keeps_cells :: "('s \<Rightarrow> nat \<Rightarrow> u8) \<Rightarrow> (nat \<rightharpoonup> nat) \<Rightarrow> 's \<Rightarrow> 's \<Rightarrow> bool" where
  "keeps_cells cell H s s' \<longleftrightarrow> (\<forall>p v x. H p = Some v \<longrightarrow> p \<le> x \<longrightarrow> x < p + v \<longrightarrow> cell s' x = cell s x)"

text \<open>The bytes a client gets for a request: the sizes above 65532 wrap around when they are rounded up, so that what it gets is
  the smallest block.\<close>

definition granted :: "u16 \<Rightarrow> nat" where
  "granted v = (if unat v \<le> 65532 then unat v else 12)"

lemma granted_le [simp]: "unat v \<le> 65532 \<Longrightarrow> granted v = unat v"
  by (simp add: granted_def)

text \<open>What clients and the rest of the system may do, as long as they leave the blocks \<open>A\<close> alone.\<close>

inductive client_run :: "(u16 \<Rightarrow> 's \<Rightarrow> int option \<Rightarrow> 's \<Rightarrow> bool) \<Rightarrow> (nat \<Rightarrow> 's \<Rightarrow> 's \<Rightarrow> bool) \<Rightarrow> (nat \<Rightarrow> u16 \<Rightarrow> 's \<Rightarrow> 's \<Rightarrow> bool) \<Rightarrow>
    (nat \<Rightarrow> u8 \<Rightarrow> 's \<Rightarrow> 's) \<Rightarrow> ('s \<Rightarrow> 's \<Rightarrow> bool) \<Rightarrow> nat set \<Rightarrow> 's \<Rightarrow> (nat \<rightharpoonup> nat) \<Rightarrow> 's \<Rightarrow> (nat \<rightharpoonup> nat) \<Rightarrow> bool"
  for alloc free trim poke env A s H where
  start: "client_run alloc free trim poke env A s H s H"
| alloc: "client_run alloc free trim poke env A s H s1 H1 \<Longrightarrow> alloc v s1 r s2 \<Longrightarrow>
    client_run alloc free trim poke env A s H s2 (case r of None \<Rightarrow> H1 | Some q \<Rightarrow> H1(nat q \<mapsto> granted v))"
| free: "client_run alloc free trim poke env A s H s1 H1 \<Longrightarrow> q \<notin> A \<Longrightarrow> H1 q = Some w \<Longrightarrow> free q s1 s2 \<Longrightarrow>
    client_run alloc free trim poke env A s H s2 (H1(q := None))"
| trim: "client_run alloc free trim poke env A s H s1 H1 \<Longrightarrow> q \<notin> A \<Longrightarrow> H1 q = Some w \<Longrightarrow> unat v \<le> w \<Longrightarrow> trim q v s1 s2 \<Longrightarrow>
    client_run alloc free trim poke env A s H s2 (H1(q \<mapsto> unat v))"
| poke: "client_run alloc free trim poke env A s H s1 H1 \<Longrightarrow> q \<notin> A \<Longrightarrow> H1 q = Some w \<Longrightarrow> q \<le> x \<Longrightarrow> x < q + w \<Longrightarrow>
    client_run alloc free trim poke env A s H (poke x b s1) H1"
| env: "client_run alloc free trim poke env A s H s1 H1 \<Longrightarrow> env s1 s2 \<Longrightarrow> client_run alloc free trim poke env A s H s2 H1"

definition untouched :: "('s \<Rightarrow> nat \<Rightarrow> u8) \<Rightarrow> nat set \<Rightarrow> 's \<Rightarrow> (nat \<rightharpoonup> nat) \<Rightarrow> 's \<Rightarrow> (nat \<rightharpoonup> nat) \<Rightarrow> bool" where
  "untouched cell A s H s' H' \<longleftrightarrow>
     (\<forall>p v. p \<in> A \<longrightarrow> H p = Some v \<longrightarrow> H' p = Some v \<and> (\<forall>x. p \<le> x \<and> x < p + v \<longrightarrow> cell s' x = cell s x))"

lemma untouched_step:
  assumes "untouched cell A s H s1 H1" and "keeps_cells cell H2 s1 s2" and "\<And>p. p \<in> A \<Longrightarrow> H1 p \<noteq> None \<Longrightarrow> H2 p = H1 p"
  shows "untouched cell A s H s2 H2"
  unfolding untouched_def
proof (intro allI impI conjI)
  fix p v assume p: "p \<in> A" "H p = Some v"
  then have h: "H1 p = Some v" "\<forall>x. p \<le> x \<and> x < p + v \<longrightarrow> cell s1 x = cell s x" using assms(1) unfolding untouched_def by blast+
  then show h2: "H2 p = Some v" using assms(3) [OF p(1)] by simp
  fix x assume x: "p \<le> x \<and> x < p + v"
  then have "cell s2 x = cell s1 x" using assms(2) h2 unfolding keeps_cells_def by blast
  then show "cell s2 x = cell s x" using h(2) x by simp
qed

locale byte_heap =
  fixes inv :: "'s \<Rightarrow> (nat \<rightharpoonup> nat) \<Rightarrow> bool" and cell :: "'s \<Rightarrow> nat \<Rightarrow> u8"
    and alloc :: "u16 \<Rightarrow> 's \<Rightarrow> int option \<Rightarrow> 's \<Rightarrow> bool" and free :: "nat \<Rightarrow> 's \<Rightarrow> 's \<Rightarrow> bool"
    and trim :: "nat \<Rightarrow> u16 \<Rightarrow> 's \<Rightarrow> 's \<Rightarrow> bool" and poke :: "nat \<Rightarrow> u8 \<Rightarrow> 's \<Rightarrow> 's" and env :: "'s \<Rightarrow> 's \<Rightarrow> bool"
  assumes blocks_apart: "inv s H \<Longrightarrow> H p = Some n \<Longrightarrow> H q = Some w \<Longrightarrow> p \<noteq> q \<Longrightarrow> p + n \<le> q \<or> q + w \<le> p"
    and alloc_none: "inv s H \<Longrightarrow> alloc v s None s' \<Longrightarrow> inv s' H \<and> keeps_cells cell H s s'"
    and alloc_some: "inv s H \<Longrightarrow> alloc v s (Some r) s' \<Longrightarrow>
      inv s' (H(nat r \<mapsto> granted v)) \<and> H (nat r) = None \<and> keeps_cells cell H s s'"
    and free_law: "inv s H \<Longrightarrow> H p = Some n \<Longrightarrow> free p s s' \<Longrightarrow> inv s' (H(p := None)) \<and> keeps_cells cell (H(p := None)) s s'"
    and trim_law: "inv s H \<Longrightarrow> H p = Some w \<Longrightarrow> unat v \<le> w \<Longrightarrow> trim p v s s' \<Longrightarrow>
      inv s' (H(p \<mapsto> unat v)) \<and> keeps_cells cell (H(p \<mapsto> unat v)) s s'"
    and poke_law: "inv s H \<Longrightarrow> H p = Some n \<Longrightarrow> p \<le> x \<Longrightarrow> x < p + n \<Longrightarrow> inv (poke x b s) H \<and> cell (poke x b s) = (cell s)(x := b)"
    and env_law: "inv s H \<Longrightarrow> env s s' \<Longrightarrow> inv s' H \<and> cell s' = cell s"
begin

text \<open>The invariant is kept, and a block that nobody touches keeps its size and its bytes.\<close>

lemma run_safe:
  assumes "client_run alloc free trim poke env A s H s' H'" and "inv s H"
  shows "inv s' H' \<and> untouched cell A s H s' H'"
  using assms
proof induction
  case start
  then show ?case by (simp add: untouched_def)
next
  case (alloc s1 H1 v r s2)
  then have ih: "inv s1 H1" "untouched cell A s H s1 H1" by blast+
  show ?case
  proof (cases r)
    case None
    then have "inv s2 H1 \<and> keeps_cells cell H1 s1 s2" using alloc_none [OF ih(1)] alloc.hyps(2) by simp
    then show ?thesis using untouched_step [OF ih(2)] None by simp
  next
    case (Some q)
    have a: "inv s2 (H1(nat q \<mapsto> granted v))" "H1 (nat q) = None" "keeps_cells cell H1 s1 s2"
      using alloc_some [OF ih(1)] alloc.hyps(2) Some by blast+
    have "untouched cell A s H s2 H1" by (rule untouched_step [OF ih(2) a(3)]) simp
    then have "untouched cell A s H s2 (H1(nat q \<mapsto> granted v))" using a(2) unfolding untouched_def by auto
    with a(1) show ?thesis unfolding Some option.case by blast
  qed
next
  case (free s1 H1 q w s2)
  then have ih: "inv s1 H1" "untouched cell A s H s1 H1" by blast+
  have a: "inv s2 (H1(q := None))" "keeps_cells cell (H1(q := None)) s1 s2" using free_law [OF ih(1) free.hyps(3,4)] by blast+
  have "untouched cell A s H s2 (H1(q := None))" by (rule untouched_step [OF ih(2) a(2)]) (use free.hyps(2) in auto)
  then show ?case using a(1) by blast
next
  case (trim s1 H1 q w v s2)
  then have ih: "inv s1 H1" "untouched cell A s H s1 H1" by blast+
  have a: "inv s2 (H1(q \<mapsto> unat v))" "keeps_cells cell (H1(q \<mapsto> unat v)) s1 s2" using trim_law [OF ih(1) trim.hyps(3,4,5)] by blast+
  have "untouched cell A s H s2 (H1(q \<mapsto> unat v))" by (rule untouched_step [OF ih(2) a(2)]) (use trim.hyps(2) in auto)
  then show ?case using a(1) by blast
next
  case (poke s1 H1 q w x b)
  then have ih: "inv s1 H1" "untouched cell A s H s1 H1" by blast+
  have a: "inv (poke x b s1) H1" "cell (poke x b s1) = (cell s1)(x := b)" using poke_law [OF ih(1) poke.hyps(3,4,5)] by blast+
  have "cell (poke x b s1) y = cell s1 y" if "p \<in> A" "H1 p = Some n" "p \<le> y" "y < p + n" for p n y
  proof -
    have "p \<noteq> q" using that(1) poke.hyps(2) by blast
    then have "p + n \<le> q \<or> q + w \<le> p" by (rule blocks_apart [OF ih(1) that(2) poke.hyps(3)])
    then show ?thesis using a(2) that(3,4) poke.hyps(4,5) by auto
  qed
  then have "untouched cell A s H (poke x b s1) H1" using ih(2) unfolding untouched_def by simp
  then show ?case using a(1) by blast
next
  case (env s1 H1 s2)
  then have ih: "inv s1 H1" "untouched cell A s H s1 H1" by blast+
  have "inv s2 H1" "cell s2 = cell s1" using env_law [OF ih(1) env.hyps(2)] by blast+
  then show ?case using ih(2) unfolding untouched_def by simp
qed

end

subsection \<open>The heap satisfies the contract\<close>

text \<open>A call has returned, whether it waited for the mutex or not. The size a waiting \<open>mem_trim\<close> has seen is still right:
  nobody else moves the end of a used block.\<close>

definition malloc_call :: "u16 \<Rightarrow> lwip_heap \<Rightarrow> int option \<Rightarrow> lwip_heap \<Rightarrow> bool" where
  "malloc_call v s r s' \<longleftrightarrow> mem_malloc v s = Some (Returns r, s') \<or>
     v \<noteq> 0 \<and> unat (block_size v) \<le> MEM_SIZE_ALIGNED \<and> (\<exists>t0. mem_malloc_resume v t0 s = Some (r, s'))"

definition free_call :: "nat \<Rightarrow> lwip_heap \<Rightarrow> lwip_heap \<Rightarrow> bool" where
  "free_call p s s' \<longleftrightarrow> mem_free (Some (int p)) s = Some (Returns (), s') \<or> (\<exists>t0. mem_free_resume (int p) t0 s = Some ((), s'))"

definition trim_call :: "nat \<Rightarrow> u16 \<Rightarrow> lwip_heap \<Rightarrow> lwip_heap \<Rightarrow> bool" where
  "trim_call p v s s' \<longleftrightarrow> (\<exists>r. mem_trim (int p) v s = Some (Returns r, s')) \<or>
     (\<exists>r t0. let sz = hdr_next (ram s) (p - 8) - of_nat (p - 8) - 8 in block_size v < sz \<and> mem_trim_resume (int p) v sz t0 s = Some (r, s'))"

definition heap_poke :: "nat \<Rightarrow> u8 \<Rightarrow> lwip_heap \<Rightarrow> lwip_heap" where
  "heap_poke x b s = s\<lparr>ram := (ram s)(x := b)\<rparr>"

definition kern_moves :: "lwip_heap \<Rightarrow> lwip_heap \<Rightarrow> bool" where
  "kern_moves s s' \<longleftrightarrow> (\<exists>k. s' = s\<lparr>kern := k\<rparr>)"

definition sizes_fit :: "(nat \<rightharpoonup> nat) \<Rightarrow> block list \<Rightarrow> bool" where
  "sizes_fit H L \<longleftrightarrow> dom H = fst ` held 0 L \<and> (\<forall>(p, l) \<in> held 0 L. the (H p) \<le> l)"

definition lheap_inv :: "lwip_heap \<Rightarrow> (nat \<rightharpoonup> nat) \<Rightarrow> bool" where
  "lheap_inv s H \<longleftrightarrow> (\<exists>L. heap_rep s L \<and> sizes_fit H L)"

lemma held_apart:
  assumes "tail_seg m q a L" and "(p, l) \<in> held a L" and "(p', l') \<in> held a L"
  shows "p = p' \<and> l = l' \<or> p + l + 8 \<le> p' \<or> p' + l' + 8 \<le> p"
  using assms
proof (induction L arbitrary: q a)
  case (Cons B L)
  have t: "tail_seg m a (a + fst B) L" using Cons.prems(1) by simp
  note b = held_heap [OF t]
  have 1: "p = a + 8 \<and> l = fst B - 8 \<or> (p, l) \<in> held (a + fst B) L" "p' = a + 8 \<and> l' = fst B - 8 \<or> (p', l') \<in> held (a + fst B) L"
    using Cons.prems(2,3) by (auto split: if_splits)
  have n: "8 \<le> fst B" using Cons.prems(1) by (simp add: hdr_def)
  from 1 show ?case using b [of p l] b [of p' l'] Cons.IH [OF t] n by auto
qed simp

lemma sizes_fit_le: "sizes_fit H L \<Longrightarrow> (p, l) \<in> held 0 L \<Longrightarrow> the (H p) \<le> l"
  by (auto simp: sizes_fit_def)

lemma sizes_fitD:
  assumes "sizes_fit H L" and "H p = Some v"
  obtains l where "(p, l) \<in> held 0 L" "v \<le> l"
proof -
  have "p \<in> fst ` held 0 L" using assms unfolding sizes_fit_def by blast
  then obtain l where "(p, l) \<in> held 0 L" by auto
  then show ?thesis using that assms unfolding sizes_fit_def by auto
qed

lemma cells_kept:
  assumes "tail_seg m q 0 L" and "sizes_fit H L" and "\<And>x. owned 0 L x \<Longrightarrow> ram s' x = ram s x"
  shows "keeps_cells ram H s s'"
  unfolding keeps_cells_def
proof (intro allI impI)
  fix p v x assume p: "H p = Some v" "p \<le> x" "x < p + v"
  obtain l where l: "(p, l) \<in> held 0 L" "v \<le> l" by (rule sizes_fitD [OF assms(2) p(1)])
  have "\<exists>(p, n) \<in> held 0 L. p \<le> x \<and> x < p + n" by (rule bexI [OF _ l(1)]) (use l(2) p in simp)
  then have "owned 0 L x" using owned_held [OF assms(1), of x] by blast
  then show "ram s' x = ram s x" by (rule assms(3))
qed

lemma lheap_apart:
  assumes "lheap_inv s H" and "H p = Some v" and "H q = Some w" and "p \<noteq> q"
  shows "p + v \<le> q \<or> q + w \<le> p"
proof -
  obtain L where L: "heap_rep s L" "sizes_fit H L" using assms(1) by (auto simp: lheap_inv_def)
  obtain l k where "(p, l) \<in> held 0 L" "v \<le> l" "(q, k) \<in> held 0 L" "w \<le> k" using sizes_fitD [OF L(2)] assms(2,3) by metis
  then show ?thesis using held_apart [OF heap_rep_seg [OF L(1)]] assms(4) by fastforce
qed

lemma sizes_fit_insert:
  assumes "sizes_fit H L" and "held 0 L' = insert (p, l) (held 0 L)" and "v \<le> l" and "H p = None"
  shows "sizes_fit (H(p \<mapsto> v)) L'"
proof -
  have "p \<notin> fst ` held 0 L" using assms(1,4) unfolding sizes_fit_def by blast
  then show ?thesis using assms unfolding sizes_fit_def by force
qed

lemma malloc_body_law:
  assumes rep: "heap_rep s L" and fit: "sizes_fit H L" and v: "unat v \<le> 65532" "unat (block_size v) \<le> 16000"
    and run: "mem_malloc_body (block_size v) s = Some (r, s')"
  shows "case r of None \<Rightarrow> s' = s \<and> (\<forall>B \<in> set L. snd B \<or> fst B < unat (block_size v) + 8)
    | Some q \<Rightarrow> lheap_inv s' (H(nat q \<mapsto> unat v)) \<and> H (nat q) = None \<and> keeps_cells ram H s s' \<and> kern s' = kern s \<and> mem_mutex s' = mem_mutex s \<and>
        8 \<le> q \<and> 4 dvd q \<and> nat q + unat v \<le> 16000 \<and> (\<exists>B \<in> set L. \<not> snd B \<and> unat (block_size v) + 8 \<le> fst B)"
proof (cases "first_fit (unat (block_size v)) 0 L")
  case None
  then show ?thesis using mem_malloc_body_fails [OF rep v(2) None] run first_fit_None [of "unat (block_size v)" 0 L] by simp
next
  case (Some b)
  note t = heap_rep_seg [OF rep]
  obtain s1 n where m: "mem_malloc_body (block_size v) s = Some (Some (int (b + 8)), s1)" "heap_rep s1 (heap_alloc (unat (block_size v)) L)"
    "kern s1 = kern s" "mem_mutex s1 = mem_mutex s" "\<And>x. owned 0 L x \<Longrightarrow> ram s1 x = ram s x"
    "held 0 (heap_alloc (unat (block_size v)) L) = insert (b + 8, n) (held 0 L)" "unat (block_size v) \<le> n" "b + 8 + n \<le> 16000"
    "\<And>x. b \<le> x \<Longrightarrow> x < b + 8 + n \<Longrightarrow> \<not> owned 0 L x" "4 dvd b"
    by (rule mem_malloc_body_ok [OF rep block_size_ok(3) v(2) block_size_ok(4) Some]) blast
  have vn: "unat v \<le> n" using block_size_ok(1) [OF v(1)] m(7) by linarith
  have new: "H (b + 8) = None"
  proof (rule ccontr)
    assume "H (b + 8) \<noteq> None"
    then obtain w where "H (b + 8) = Some w" by blast
    then obtain l where l: "(b + 8, l) \<in> held 0 L" by (rule sizes_fitD [OF fit])
    then have "owned 0 L (b + 8)" using held_heap [OF t l] owned_held [OF t, of "b + 8"] by force
    then show False using m(9) [of "b + 8"] m(7) block_size_ok(3) [of v] by simp
  qed
  have "lheap_inv s1 (H(b + 8 \<mapsto> unat v))" using sizes_fit_insert [OF fit m(6) vn new] m(2) by (auto simp: lheap_inv_def)
  moreover have "keeps_cells ram H s s1" by (rule cells_kept [OF t fit]) (use m(5) in blast)
  moreover have "\<exists>B \<in> set L. \<not> snd B \<and> unat (block_size v) + 8 \<le> fst B"
    using Some first_fit_None [of "unat (block_size v)" 0 L] by (metis not_less option.distinct(1))
  moreover have "r = Some (int (b + 8))" "s' = s1" using m(1) run by simp_all
  moreover have "4 dvd int (b + 8)" using m(10) by presburger
  moreover have "nat (int b + 8) = b + 8" by simp
  ultimately show ?thesis using m(3,4,8) vn new by simp
qed

lemma lheap_inv_kern [simp]: "lheap_inv (s\<lparr>kern := k\<rparr>) H = lheap_inv s H"
  by (simp add: lheap_inv_def)

lemma keeps_cells_kern [simp]: "keeps_cells ram H (s\<lparr>kern := k\<rparr>) s' = keeps_cells ram H s s'" "keeps_cells ram H s (s'\<lparr>kern := k\<rparr>) = keeps_cells ram H s s'"
  by (simp_all add: keeps_cells_def)

lemma malloc_call_small:
  assumes inv: "lheap_inv s H" and v: "unat v \<le> 65532" and run: "malloc_call v s r s'"
  shows "case r of None \<Rightarrow> lheap_inv s' H \<and> keeps_cells ram H s s'
    | Some q \<Rightarrow> lheap_inv s' (H(nat q \<mapsto> unat v)) \<and> H (nat q) = None \<and> keeps_cells ram H s s'"
proof (cases "v = 0 \<or> 16000 < unat (block_size v)")
  case True
  then have "r = None \<and> s' = s" using run unfolding malloc_call_def mem_malloc_def Let_def by (auto split: if_splits)
  then show ?thesis using inv by (simp add: keeps_cells_def)
next
  case False
  then have "run_locked (mem_malloc_body (block_size v)) s = Some (Returns r, s') \<or>
      (\<exists>t0. run_locked_resume (mem_malloc_body (block_size v)) t0 s = Some (r, s'))"
    using run unfolding malloc_call_def mem_malloc_def mem_malloc_resume_def Let_def by (auto split: if_splits)
  then obtain k s1 k' where b: "mem_malloc_body (block_size v) (s\<lparr>kern := k\<rparr>) = Some (r, s1)" "s' = s1\<lparr>kern := k'\<rparr>"
    by (metis run_locked_body)
  obtain L where L: "heap_rep s L" "sizes_fit H L" using inv by (auto simp: lheap_inv_def)
  have "heap_rep (s\<lparr>kern := k\<rparr>) L" using L(1) by simp
  from malloc_body_law [OF this L(2) v _ b(1)] False inv b(2) show ?thesis
    by (cases r) (simp_all add: keeps_cells_def)
qed

text \<open>The larger sizes are treated like 12.\<close>

lemma wrapped_call:
  assumes "65532 < unat v"
  shows "mem_malloc v s = mem_malloc 12 s" "malloc_call v s r s' = malloc_call 12 s r s'" "block_size v = block_size 12" "v \<noteq> 0"
proof -
  show b: "block_size v = block_size 12" using block_size_ok(2) [OF assms] by (simp add: word_unat_eq_iff block_size_ok(1))
  show nz: "v \<noteq> 0" using assms by auto
  show m: "mem_malloc v s = mem_malloc 12 s" using b nz by (simp add: mem_malloc_def)
  show "malloc_call v s r s' = malloc_call 12 s r s'" using b nz m by (simp add: malloc_call_def mem_malloc_resume_def)
qed

lemma malloc_call_law:
  assumes inv: "lheap_inv s H" and run: "malloc_call v s r s'"
  shows "case r of None \<Rightarrow> lheap_inv s' H \<and> keeps_cells ram H s s'
    | Some q \<Rightarrow> lheap_inv s' (H(nat q \<mapsto> granted v)) \<and> H (nat q) = None \<and> keeps_cells ram H s s'"
proof (cases "unat v \<le> 65532")
  case True
  from malloc_call_small [OF inv True run] show ?thesis unfolding granted_le [OF True] .
next
  case False
  then have w: "malloc_call 12 s r s'" "granted v = unat (12 :: u16)" using run wrapped_call(2) [of v s r s'] by (simp_all add: granted_def)
  have "unat (12 :: u16) \<le> 65532" by simp
  from malloc_call_small [OF inv this w(1)] show ?thesis unfolding w(2) .
qed

lemma held_legal:
  assumes "heap_rep s L" and "(p, l) \<in> held 0 L"
  shows "legal (int p)" "hdr_of (int p) = Some (p - 8)" "8 \<le> p" "12 \<le> l" "p + l \<le> 16000"
  using held_heap [OF heap_rep_seg [OF assms(1)] assms(2)] by (auto simp: legal_def hdr_of_def)

lemma free_body_law:
  assumes rep: "heap_rep s L" and fit: "sizes_fit H L" and h: "H p = Some v"
  obtains s' where "mem_free_body (int p) s = Some ((), s')" "lheap_inv s' (H(p := None))" "keeps_cells ram (H(p := None)) s s'"
    "kern s' = kern s" "mem_mutex s' = mem_mutex s"
proof -
  obtain l where l: "(p, l) \<in> held 0 L" by (rule sizes_fitD [OF fit h])
  note t = heap_rep_seg [OF rep]
  let ?L = "heap_free (p - 8) L"
  obtain s' where f: "mem_free_body (int p) s = Some ((), s')" "heap_rep s' ?L" "held 0 ?L = held 0 L - {(p, l)}"
    "kern s' = kern s" "mem_mutex s' = mem_mutex s" "\<And>x. owned 0 ?L x \<Longrightarrow> ram s' x = ram s x"
    by (rule mem_free_body_ok [OF rep l]) blast
  have other: "q \<noteq> p" if "(q, k) \<in> held 0 L - {(p, l)}" for q k using held_apart [OF t _ l, of q k] held_heap [OF t] that l by fastforce
  have "dom (H(p := None)) = fst ` held 0 ?L"
  proof -
    have "fst ` held 0 ?L = fst ` held 0 L - {p}" unfolding f(3) using other by force
    then show ?thesis using fit unfolding sizes_fit_def by simp
  qed
  moreover have "the ((H(p := None)) q) \<le> k" if "(q, k) \<in> held 0 ?L" for q k
    using sizes_fit_le [OF fit, of q k] other [of q k] that unfolding f(3) by simp
  ultimately have fit': "sizes_fit (H(p := None)) ?L" unfolding sizes_fit_def by blast
  have "keeps_cells ram (H(p := None)) s s'" by (rule cells_kept [OF heap_rep_seg [OF f(2)] fit' f(6)])
  then show ?thesis using that f(1,2,4,5) fit' by (auto simp: lheap_inv_def)
qed

lemma free_call_law:
  assumes inv: "lheap_inv s H" and h: "H p = Some v" and run: "free_call p s s'"
  shows "lheap_inv s' (H(p := None)) \<and> keeps_cells ram (H(p := None)) s s'"
proof -
  obtain L where L: "heap_rep s L" "sizes_fit H L" using inv by (auto simp: lheap_inv_def)
  obtain l where "(p, l) \<in> held 0 L" by (rule sizes_fitD [OF L(2) h])
  note lg = held_legal [OF L(1) this]
  have "run_locked (mem_free_body (int p)) s = Some (Returns (), s') \<or> (\<exists>t0. run_locked_resume (mem_free_body (int p)) t0 s = Some ((), s'))"
    using run lg(1) unfolding free_call_def mem_free_def mem_free_resume_def by auto
  then obtain k s1 k' where b: "mem_free_body (int p) (s\<lparr>kern := k\<rparr>) = Some ((), s1)" "s' = s1\<lparr>kern := k'\<rparr>"
    by (metis run_locked_body)
  have rep: "heap_rep (s\<lparr>kern := k\<rparr>) L" using L(1) by simp
  obtain s2 where "mem_free_body (int p) (s\<lparr>kern := k\<rparr>) = Some ((), s2)" "lheap_inv s2 (H(p := None))"
      "keeps_cells ram (H(p := None)) (s\<lparr>kern := k\<rparr>) s2" by (rule free_body_law [OF rep L(2) h])
  then show ?thesis using b by simp
qed

text \<open>The size that \<open>mem_trim\<close> reads from the header.\<close>

lemma trim_size:
  assumes rep: "heap_rep s L" and h: "(p, l) \<in> held 0 L"
  shows "unat (hdr_next (ram s) (p - 8) - of_nat (p - 8) - 8) = l" "4 dvd l" "get_field hdr_next (p - 8) s = Some (hdr_next (ram s) (p - 8))"
    "unat (of_nat (p - 8) :: u16) = p - 8"
proof -
  note t = heap_rep_seg [OF rep]
  obtain K n M where L: "L = K @ (n, True) # M" "p = 0 + extent K + 8" "l = n - 8" by (rule held_split [OF t h])
  obtain q where B: "hdr (ram s) q (extent K) (n, True)" and M: "tail_seg (ram s) (extent K) (extent K + n) M"
    using t unfolding L(1) tail_seg_append by auto
  have n: "20 \<le> n" "4 dvd n" "extent K + n \<le> 16000" and nx: "unat (hdr_next (ram s) (p - 8)) = extent K + n"
    using B tail_seg_le [OF M] L(2) by (simp_all add: hdr_def)
  show o: "unat (of_nat (p - 8) :: u16) = p - 8" using n L(2) by (simp add: unat_of_nat)
  show "get_field hdr_next (p - 8) s = Some (hdr_next (ram s) (p - 8))" using n L(2) by simp
  show "4 dvd l" unfolding L(3) by (rule dvd_diff_nat [OF n(2)]) simp
  have 1: "unat (hdr_next (ram s) (p - 8) - of_nat (p - 8)) = n" using nx o L(2) by (simp add: unat_sub_if')
  then show "unat (hdr_next (ram s) (p - 8) - of_nat (p - 8) - 8) = l" using n L(3) by (simp add: unat_sub_if' [of _ 8])
qed

lemma sizes_fit_shrink:
  assumes fit: "sizes_fit H L" and t: "tail_seg m q 0 L" and l: "(p, l) \<in> held 0 L"
    and eq: "held 0 L' = insert (p, l') (held 0 L - {(p, l)})" and w: "w \<le> l'"
  shows "sizes_fit (H(p \<mapsto> w)) L'"
proof -
  have other: "r \<noteq> p" if "(r, k) \<in> held 0 L - {(p, l)}" for r k using held_apart [OF t _ l, of r k] held_heap [OF t] that l by fastforce
  have "fst ` held 0 L' = insert p (fst ` held 0 L)" unfolding eq using l by force
  then have "dom (H(p \<mapsto> w)) = fst ` held 0 L'" using fit unfolding sizes_fit_def by simp
  moreover have "the ((H(p \<mapsto> w)) r) \<le> k" if "(r, k) \<in> held 0 L'" for r k
  proof (cases "(r, k) = (p, l')")
    case False
    then have k: "(r, k) \<in> held 0 L - {(p, l)}" using that unfolding eq by blast
    then show ?thesis using sizes_fit_le [OF fit, of r k] other [OF k] by simp
  qed (use w in simp)
  ultimately show ?thesis unfolding sizes_fit_def by blast
qed

lemma trim_body_law:
  assumes rep: "heap_rep s L" and fit: "sizes_fit H L" and l: "(p, l) \<in> held 0 L" and v: "unat v \<le> 65532" "unat (block_size v) < l"
    and sz: "unat sz = l"
  obtains s' where "mem_trim_body (int p) (block_size v) (p - 8) (of_nat (p - 8)) sz s = Some (Some (int p), s')"
    "lheap_inv s' (H(p \<mapsto> unat v))" "keeps_cells ram (H(p \<mapsto> unat v)) s s'" "kern s' = kern s" "mem_mutex s' = mem_mutex s"
proof -
  note t = heap_rep_seg [OF rep]
  let ?L = "heap_trim (unat (block_size v)) (p - 8) 0 L"
  obtain s' l' where f: "mem_trim_body (int p) (block_size v) (p - 8) (of_nat (p - 8)) sz s = Some (Some (int p), s')" "heap_rep s' ?L"
    "held 0 ?L = insert (p, l') (held 0 L - {(p, l)})" "unat (block_size v) \<le> l'" "l' \<le> l"
    "kern s' = kern s" "mem_mutex s' = mem_mutex s" "\<And>x. owned 0 ?L x \<Longrightarrow> ram s' x = ram s x"
    by (rule mem_trim_body_ok [OF rep l v(2) block_size_ok(3,4) trim_size(4) [OF rep l] sz]) blast
  have "unat v \<le> l'" using f(4) block_size_ok(1) [OF v(1)] by linarith
  then have fit': "sizes_fit (H(p \<mapsto> unat v)) ?L" by (rule sizes_fit_shrink [OF fit t l f(3)])
  have "keeps_cells ram (H(p \<mapsto> unat v)) s s'" by (rule cells_kept [OF heap_rep_seg [OF f(2)] fit' f(8)])
  then show ?thesis using that f(1,2,6,7) fit' by (auto simp: lheap_inv_def)
qed

lemma trim_fits:
  assumes rep: "heap_rep s L" and l: "(p, l) \<in> held 0 L" and v: "unat v \<le> l"
  shows "unat (block_size v) \<le> l" "unat v \<le> 65532"
proof -
  show u: "unat v \<le> 65532" using v held_legal(5) [OF rep l] by simp
  obtain j where "l = 4 * j" using trim_size(2) [OF rep l] by blast
  then have "4 * ((unat v + 3) div 4) \<le> l" using v by simp
  then show "unat (block_size v) \<le> l" using held_legal(4) [OF rep l] block_size_ok(1) [OF u] by simp
qed

lemma trim_call_law:
  assumes inv: "lheap_inv s H" and h: "H p = Some w" and v: "unat v \<le> w" and run: "trim_call p v s s'"
  shows "lheap_inv s' (H(p \<mapsto> unat v)) \<and> keeps_cells ram (H(p \<mapsto> unat v)) s s'"
proof -
  obtain L where L: "heap_rep s L" "sizes_fit H L" using inv by (auto simp: lheap_inv_def)
  note t = heap_rep_seg [OF L(1)]
  obtain l where l: "(p, l) \<in> held 0 L" "w \<le> l" by (rule sizes_fitD [OF L(2) h])
  note lg = held_legal [OF L(1) l(1)]
  note ts = trim_size [OF L(1) l(1)]
  have vl: "unat v \<le> l" using v l(2) by simp
  note tf = trim_fits [OF L(1) l(1) vl]
  define sz where "sz = hdr_next (ram s) (p - 8) - of_nat (p - 8) - 8"
  have small: "\<not> unat (block_size v) > 16000" "\<not> sz < block_size v" using tf lg ts(1) by (simp_all add: word_less_nat_alt sz_def)
  let ?body = "mem_trim_body (int p) (block_size v) (p - 8) (of_nat (p - 8)) sz"
  consider (same) "s' = s" | (shrink) r t0 where "block_size v < sz" "run_locked ?body s = Some (Returns r, s') \<or> run_locked_resume ?body t0 s = Some (r, s')"
  proof -
    have "mem_trim (int p) v s = (if block_size v = sz then Some (Returns (Some (int p)), s) else run_locked ?body s)"
      using small lg(1,2) ts(3) unfolding mem_trim_def Let_def sz_def by simp
    then have "s' = s \<or> (\<exists>r t0. block_size v < sz \<and> (run_locked ?body s = Some (Returns r, s') \<or> run_locked_resume ?body t0 s = Some (r, s')))"
      using run small(2) lg(2) unfolding trim_call_def mem_trim_resume_def Let_def sz_def [symmetric] by (auto split: if_splits)
    then show thesis using that by blast
  qed
  then show ?thesis
  proof cases
    case same
    have "held 0 L = insert (p, l) (held 0 L - {(p, l)})" using l(1) by blast
    then have "sizes_fit (H(p \<mapsto> unat v)) L" by (rule sizes_fit_shrink [OF L(2) t l(1) _ vl])
    then show ?thesis using L(1) same by (auto simp: lheap_inv_def keeps_cells_def)
  next
    case shrink
    obtain k s1 k' where b: "?body (s\<lparr>kern := k\<rparr>) = Some (r, s1)" "s' = s1\<lparr>kern := k'\<rparr>" by (rule run_locked_body [OF shrink(2)])
    have rep: "heap_rep (s\<lparr>kern := k\<rparr>) L" using L(1) by simp
    have lt: "unat (block_size v) < l" using shrink(1) ts(1) by (simp add: word_less_nat_alt sz_def)
    have sz: "unat sz = l" using ts(1) by (simp add: sz_def)
    obtain s2 where "?body (s\<lparr>kern := k\<rparr>) = Some (Some (int p), s2)" "lheap_inv s2 (H(p \<mapsto> unat v))"
        "keeps_cells ram (H(p \<mapsto> unat v)) (s\<lparr>kern := k\<rparr>) s2" by (rule trim_body_law [OF rep L(2) l(1) tf(2) lt sz])
    then show ?thesis using b by simp
  qed
qed

lemma poke_law:
  assumes inv: "lheap_inv s H" and h: "H p = Some v" and x: "p \<le> x" "x < p + v"
  shows "lheap_inv (heap_poke x b s) H \<and> ram (heap_poke x b s) = (ram s)(x := b)"
proof -
  obtain L where L: "heap_rep s L" "sizes_fit H L" using inv by (auto simp: lheap_inv_def)
  note t = heap_rep_seg [OF L(1)]
  obtain l where l: "(p, l) \<in> held 0 L" "v \<le> l" by (rule sizes_fitD [OF L(2) h])
  have "\<exists>(p, n) \<in> held 0 L. p \<le> x \<and> x < p + n" by (rule bexI [OF _ l(1)]) (use l(2) x in simp)
  then have o: "owned 0 L x" using owned_held [OF t, of x] by blast
  have le: "x < 16000" using held_legal(5) [OF L(1) l(1)] l(2) x by simp
  obtain q where q: "seg (ram s) 0 0 L q" "0 + extent L = 16000" using t by (auto simp: tail_seg_def)
  have "seg ((ram s)(x := b)) 0 0 L q" by (rule seg_cong [OF _ q(1)]) (use o in auto)
  then have "tail_seg ((ram s)(x := b)) 0 0 L" using q(2) by (auto simp: tail_seg_def)
  moreover have "hdr_used ((ram s)(x := b)) 16000 \<noteq> 0" using L(1) le by (simp add: heap_rep_def hdr_used_def)
  ultimately have "heap_rep (heap_poke x b s) L" using L(1) by (simp add: heap_rep_def heap_poke_def)
  then show ?thesis using L(2) by (auto simp: lheap_inv_def heap_poke_def)
qed

interpretation lh: byte_heap lheap_inv ram malloc_call free_call trim_call heap_poke kern_moves
proof
  show "p + n \<le> q \<or> q + w \<le> p" if "lheap_inv s H" "H p = Some n" "H q = Some w" "p \<noteq> q" for s H p n q w
    by (rule lheap_apart [OF that])
  show "lheap_inv s' H \<and> keeps_cells ram H s s'" if "lheap_inv s H" "malloc_call v s None s'" for s H v s'
    using malloc_call_law [OF that] by simp
  show "lheap_inv s' (H(nat r \<mapsto> granted v)) \<and> H (nat r) = None \<and> keeps_cells ram H s s'"
    if "lheap_inv s H" "malloc_call v s (Some r) s'" for s H v r s'
    using malloc_call_law [OF that] by simp
  show "lheap_inv s' (H(p := None)) \<and> keeps_cells ram (H(p := None)) s s'" if "lheap_inv s H" "H p = Some n" "free_call p s s'" for s H p n s'
    by (rule free_call_law [OF that])
  show "lheap_inv s' (H(p \<mapsto> unat v)) \<and> keeps_cells ram (H(p \<mapsto> unat v)) s s'"
    if "lheap_inv s H" "H p = Some w" "unat v \<le> w" "trim_call p v s s'" for s H p w v s'
    by (rule trim_call_law [OF that])
  show "lheap_inv (heap_poke x b s) H \<and> ram (heap_poke x b s) = (ram s)(x := b)"
    if "lheap_inv s H" "H p = Some n" "p \<le> x" "x < p + n" for s H p n x b
    by (rule poke_law [OF that])
  show "lheap_inv s' H \<and> ram s' = ram s" if "lheap_inv s H" "kern_moves s s'" for s H s'
    using that by (auto simp: kern_moves_def)
qed

subsection \<open>Starting the heap, and what clients can reach\<close>

lemma mem_init_rep:
  assumes "mem_init s0 = Some s"
  shows "heap_rep s [(16000, False)]"
proof -
  let ?m = "put_prev ram_end 16000 (put_next ram_end 16000 (put_used ram_end 1 (put_used 0 0 (put_prev 0 0 (put_next 0 16000 (ram s0))))))"
  obtain e k where s: "s = s0\<lparr>ram := ?m, lfree := 0, mem_mutex := e, kern := k\<rparr>"
    using assms by (auto simp: mem_init_def elim!: bind_SomeE)
  have "hdr ?m 0 0 (16000, False)" by (simp add: hdr_def)
  then show ?thesis unfolding s heap_rep_def by simp
qed

lemma mem_init_ok:
  assumes ok: "kern_ok (kern s0)" and u: "unused (kern s0) \<noteq> {}"
  obtains s e where "mem_init s0 = Some s" "mutex_at s e" "kern_ok (kern s)"
proof -
  obtain e k where k: "OSSemCreate 1 (kern s0) = Some (Some e, k)" "kern_ok k" "is_sem k e" "sem_count k e = 1"
    by (rule sem_create_ok [OF ok u, where n = 1]) blast
  obtain c where c: "kernel_ok k c" and n: "OSRunning k" "OSIntNesting k = 0" "OSLockNesting k = 0" using k(2) by (auto simp: kern_ok_def)
  obtain k' where k': "OSEventNameSet e ''LWIP Sem'' k = Some (OS_ERR_NONE, k')" "kernel_ok k' c"
      "k' = upd_evt e (\<lambda>ev. ev\<lparr>OSEventName := ''LWIP Sem''\<rparr>) k" "\<forall>i. is_sem k' i = is_sem k i" "\<forall>i. sem_count k' i = sem_count k i"
    by (rule sem_name_ok [OF c k(3) n(2), where nm = "''LWIP Sem''"])
  have new: "sys_sem_new 1 (kern s0) = Some (ERR_OK, Some e, k')" using k(1) k'(1) by (simp add: sys_sem_new_def)
  have "avail k' e" using is_semD(5) [of k' e] k'(4,5) k(3,4) by simp
  then have "waiters k' e = {}" by (rule no_waiters [OF k'(2)])
  then have grp: "OSEventGrp (OSEvents k' e) = 0" using evt_bm_nonempty [OF kernel_okD(1) [OF k'(2)]] by simp
  have n': "OSRunning k'" "OSIntNesting k' = 0" "OSLockNesting k' = 0" using n by (simp_all add: k'(3))
  obtain s where s: "mem_init s0 = Some s" "mem_mutex s = Some e" "kern s = k'" using new by (simp add: mem_init_def)
  have "mutex_at s e" unfolding mutex_at_def using s k'(4,5) k(3,4) grp n' by simp
  moreover have "kern_ok (kern s)" using s(3) k'(2) n' by (auto simp: kern_ok_def)
  ultimately show ?thesis using that s(1) by blast
qed

abbreviation heap_run :: "nat set \<Rightarrow> lwip_heap \<Rightarrow> (nat \<rightharpoonup> nat) \<Rightarrow> lwip_heap \<Rightarrow> (nat \<rightharpoonup> nat) \<Rightarrow> bool" where
  "heap_run \<equiv> client_run malloc_call free_call trim_call heap_poke kern_moves"

definition lheap_reach :: "lwip_heap \<Rightarrow> (nat \<rightharpoonup> nat) \<Rightarrow> bool" where
  "lheap_reach s H \<longleftrightarrow> (\<exists>s0 s1. mem_init s0 = Some s1 \<and> heap_run {} s1 Map.empty s H)"

lemma lheap_reach_inv:
  assumes "lheap_reach s H"
  shows "lheap_inv s H"
proof -
  obtain s0 s1 where r: "mem_init s0 = Some s1" "heap_run {} s1 Map.empty s H"
    using assms by (auto simp: lheap_reach_def)
  have "lheap_inv s1 Map.empty" unfolding lheap_inv_def using mem_init_rep [OF r(1)] by (intro exI [of _ "[(16000, False)]"]) (simp add: sizes_fit_def)
  then show ?thesis using lh.run_safe [OF r(2)] by blast
qed

lemma lheap_reach_alloc:
  assumes "lheap_reach s H" and "malloc_call v s r s'"
  shows "lheap_reach s' (case r of None \<Rightarrow> H | Some q \<Rightarrow> H(nat q \<mapsto> granted v))"
proof -
  obtain s0 s1 where r: "mem_init s0 = Some s1" "heap_run {} s1 Map.empty s H" using assms(1) by (auto simp: lheap_reach_def)
  show ?thesis unfolding lheap_reach_def using r(1) client_run.alloc [OF r(2) assms(2)] by blast
qed

lemma lheap_reach_free:
  assumes "lheap_reach s H" and "H p = Some w" and "free_call p s s'"
  shows "lheap_reach s' (H(p := None))"
proof -
  obtain s0 s1 where r: "mem_init s0 = Some s1" "heap_run {} s1 Map.empty s H" using assms(1) by (auto simp: lheap_reach_def)
  show ?thesis unfolding lheap_reach_def using r(1) client_run.free [OF r(2) _ assms(2,3)] by blast
qed

lemma lheap_reach_trim:
  assumes "lheap_reach s H" and "H p = Some w" and "unat v \<le> w" and "trim_call p v s s'"
  shows "lheap_reach s' (H(p \<mapsto> unat v))"
proof -
  obtain s0 s1 where r: "mem_init s0 = Some s1" "heap_run {} s1 Map.empty s H" using assms(1) by (auto simp: lheap_reach_def)
  show ?thesis unfolding lheap_reach_def using r(1) client_run.trim [OF r(2) _ assms(2,3,4)] by blast
qed

text \<open>When nothing is held, the heap is one block.\<close>

lemma nothing_held:
  assumes "lheap_inv s Map.empty"
  shows "heap_rep s [(16000, False)]"
proof -
  obtain L where L: "heap_rep s L" "sizes_fit Map.empty L" using assms by (auto simp: lheap_inv_def)
  have h: "held 0 L = {}" using L(2) by (simp add: sizes_fit_def)
  have "\<not> snd B" if "B \<in> set L" for B
  proof -
    have "held a L = {} \<Longrightarrow> B \<in> set L \<Longrightarrow> \<not> snd B" for a L by (induction L arbitrary: a) (auto split: if_splits)
    then show ?thesis using h that by blast
  qed
  moreover have "apart_free L" "extent L = 16000" using L(1) by (simp_all add: heap_rep_def tail_seg_def)
  ultimately have "L = [(16000, False)]" by (cases L; cases "tl L") (auto intro: prod_eqI)
  then show ?thesis using L(1) by simp
qed

lemma mem_malloc_free_mutex:
  assumes inv: "lheap_inv s H" and mx: "mutex_at s e" and v: "unat v \<le> 65532" "v \<noteq> 0" "unat (block_size v) \<le> 16000"
  obtains r s' where "mem_malloc v s = Some (Returns r, s')" "kern s' = kern s" "mem_mutex s' = mem_mutex s"
    "case r of None \<Rightarrow> s' = s \<and> (\<exists>L. heap_rep s L \<and> (\<forall>B \<in> set L. snd B \<or> fst B < unat (block_size v) + 8))
      | Some q \<Rightarrow> keeps_cells ram H s s' \<and> H (nat q) = None \<and> 8 \<le> q \<and> 4 dvd q \<and> nat q + unat v \<le> 16000 \<and>
          (\<exists>L. heap_rep s L \<and> (\<exists>B \<in> set L. \<not> snd B \<and> unat (block_size v) + 8 \<le> fst B))"
proof -
  obtain L where L: "heap_rep s L" "sizes_fit H L" using inv by (auto simp: lheap_inv_def)
  define P where "P r s' \<longleftrightarrow> (case r of None \<Rightarrow> s' = s \<and> (\<exists>L. heap_rep s L \<and> (\<forall>B \<in> set L. snd B \<or> fst B < unat (block_size v) + 8))
      | Some q \<Rightarrow> keeps_cells ram H s s' \<and> H (nat q) = None \<and> 8 \<le> q \<and> 4 dvd q \<and> nat q + unat v \<le> 16000 \<and>
          (\<exists>L. heap_rep s L \<and> (\<exists>B \<in> set L. \<not> snd B \<and> unat (block_size v) + 8 \<le> fst B)))" for r s'
  have body: "\<exists>r s1. mem_malloc_body (block_size v) (s\<lparr>kern := k\<rparr>) = Some (r, s1) \<and> kern s1 = k \<and> mem_mutex s1 = mem_mutex s \<and> P r (s1\<lparr>kern := kern s\<rparr>)" for k
  proof -
    have rep: "heap_rep (s\<lparr>kern := k\<rparr>) L" using L(1) by simp
    obtain r s1 where run: "mem_malloc_body (block_size v) (s\<lparr>kern := k\<rparr>) = Some (r, s1)"
    proof (cases "first_fit (unat (block_size v)) 0 L")
      case None
      then show ?thesis by (rule that [OF mem_malloc_body_fails [OF rep v(3)]])
    next
      case (Some b)
      show ?thesis by (rule mem_malloc_body_ok [OF rep block_size_ok(3) v(3) block_size_ok(4) Some]) (rule that)
    qed
    note law = malloc_body_law [OF rep L(2) v(1,3) run]
    have "kern s1 = k \<and> mem_mutex s1 = mem_mutex s" using law by (cases r) simp_all
    moreover have "P r (s1\<lparr>kern := kern s\<rparr>)"
    proof (cases r)
      case None
      then show ?thesis using law L(1) unfolding P_def by auto
    next
      case (Some q)
      then show ?thesis using law L(1) unfolding P_def Some option.case keeps_cells_kern by blast
    qed
    ultimately show ?thesis using run by blast
  qed
  obtain r s' where r: "run_locked (mem_malloc_body (block_size v)) s = Some (Returns r, s')" "P r s'" "kern s' = kern s" "mem_mutex s' = mem_mutex s"
    by (rule run_locked_free [OF mx body])
  have "mem_malloc v s = run_locked (mem_malloc_body (block_size v)) s" using v by (simp add: mem_malloc_def Let_def)
  with r(1) have "mem_malloc v s = Some (Returns r, s')" by simp
  then show ?thesis using r(3,4) r(2) [unfolded P_def] by (rule that)
qed

lemma mem_free_free_mutex:
  assumes inv: "lheap_inv s H" and mx: "mutex_at s e" and h: "H p = Some v"
  obtains s' where "mem_free (Some (int p)) s = Some (Returns (), s')" "kern s' = kern s" "mem_mutex s' = mem_mutex s"
    "keeps_cells ram (H(p := None)) s s'"
proof -
  obtain L where L: "heap_rep s L" "sizes_fit H L" using inv by (auto simp: lheap_inv_def)
  obtain l where "(p, l) \<in> held 0 L" by (rule sizes_fitD [OF L(2) h])
  note lg = held_legal [OF L(1) this]
  have body: "\<exists>r s1. mem_free_body (int p) (s\<lparr>kern := k\<rparr>) = Some (r, s1) \<and> kern s1 = k \<and> mem_mutex s1 = mem_mutex s \<and>
      keeps_cells ram (H(p := None)) s (s1\<lparr>kern := kern s\<rparr>)" for k
  proof -
    have rep: "heap_rep (s\<lparr>kern := k\<rparr>) L" using L(1) by simp
    obtain s1 where "mem_free_body (int p) (s\<lparr>kern := k\<rparr>) = Some ((), s1)" "keeps_cells ram (H(p := None)) (s\<lparr>kern := k\<rparr>) s1"
      "kern s1 = k" "mem_mutex s1 = mem_mutex s" using free_body_law [OF rep L(2) h] by auto
    then show ?thesis by auto
  qed
  obtain r s' where r: "run_locked (mem_free_body (int p)) s = Some (Returns r, s')" "keeps_cells ram (H(p := None)) s s'" "kern s' = kern s"
    "mem_mutex s' = mem_mutex s" by (rule run_locked_free [OF mx body])
  have "mem_free (Some (int p)) s = Some (Returns (), s')" using r(1) lg(1) by (simp add: mem_free_def)
  then show ?thesis using r(3,4,2) by (rule that)
qed

subsection \<open>A concrete heap\<close>

definition heap_start :: lwip_heap where
  "heap_start = the (mem_init \<lparr>ram = (\<lambda>_. 0), lfree = 0, mem_mutex = None, kern = sample\<rparr>)"

lemma heap_example:
  obtains e where "lheap_reach heap_start Map.empty" "mutex_at heap_start e"
proof -
  let ?s = "\<lparr>ram = (\<lambda>_. 0), lfree = 0, mem_mutex = None, kern = sample\<rparr>"
  have "kern_ok (kern ?s)" "unused (kern ?s) \<noteq> {}" using sample_kernel_ok by (auto simp: kern_ok_def sample_unused)
  then obtain s e where s: "mem_init ?s = Some s" "mutex_at s e" by (rule mem_init_ok)
  then have "heap_start = s" by (simp add: heap_start_def)
  moreover have "lheap_reach s Map.empty" unfolding lheap_reach_def by (intro exI conjI, rule s(1), rule client_run.start)
  ultimately show ?thesis using that s(2) by blast
qed

subsection \<open>The properties\<close>

lemma mem_malloc_small:
  assumes "lheap_reach s H" and "mutex_at s e" and "unat v \<le> 65532"
  shows "\<exists>r s' L. mem_malloc v s = Some (Returns r, s') \<and> kern s' = kern s \<and> heap_rep s L \<and>
    (r = None \<longleftrightarrow> v = 0 \<or> (\<forall>(n, used) \<in> set L. used \<or> n < unat (block_size v) + 8)) \<and>
    (case r of None \<Rightarrow> s' = s
     | Some q \<Rightarrow> lheap_reach s' (H(nat q \<mapsto> unat v)) \<and> mutex_at s' e \<and> 8 \<le> q \<and> 4 dvd q \<and> nat q + unat v \<le> 16000 \<and>
         (\<forall>p w. H p = Some w \<longrightarrow> p + w \<le> nat q \<or> nat q + unat v \<le> p) \<and> keeps_cells ram H s s')"
proof -
  note inv = lheap_reach_inv [OF assms(1)]
  obtain L where L: "heap_rep s L" using inv by (auto simp: lheap_inv_def)
  show ?thesis
  proof (cases "v = 0 \<or> 16000 < unat (block_size v)")
    case True
    have "mem_malloc v s = Some (Returns None, s)" using True unfolding mem_malloc_def Let_def by auto
    moreover have "fst B \<le> 16000" if "B \<in> set L" for B
      using that L member_le_sum_list [of "fst B" "map fst L"] by (auto simp: heap_rep_def tail_seg_def)
    ultimately show ?thesis using L True
      by (intro exI [of _ None] exI [of _ s] exI [of _ L]) (force split: prod.splits)
  next
    case False
    obtain r s' where m: "mem_malloc v s = Some (Returns r, s')" "kern s' = kern s" "mem_mutex s' = mem_mutex s"
      "case r of None \<Rightarrow> s' = s \<and> (\<exists>L. heap_rep s L \<and> (\<forall>B \<in> set L. snd B \<or> fst B < unat (block_size v) + 8))
        | Some q \<Rightarrow> keeps_cells ram H s s' \<and> H (nat q) = None \<and> 8 \<le> q \<and> 4 dvd q \<and> nat q + unat v \<le> 16000 \<and>
            (\<exists>L. heap_rep s L \<and> (\<exists>B \<in> set L. \<not> snd B \<and> unat (block_size v) + 8 \<le> fst B))"
      by (rule mem_malloc_free_mutex [OF inv assms(2,3)]) (use False in auto)
    show ?thesis
    proof (cases r)
      case None
      then obtain L where "heap_rep s L" "\<forall>B \<in> set L. snd B \<or> fst B < unat (block_size v) + 8" "s' = s" using m(4) by auto
      then show ?thesis using m(1,2) None by (intro exI [of _ r] exI [of _ s'] exI [of _ L]) auto
    next
      case (Some q)
      obtain L B where B: "heap_rep s L" "B \<in> set L" "\<not> snd B" "unat (block_size v) + 8 \<le> fst B" using m(4) Some by auto
      have q: "keeps_cells ram H s s'" "H (nat q) = None" "8 \<le> q" "4 dvd q" "nat q + unat v \<le> 16000" using m(4) Some by auto
      have "malloc_call v s (Some q) s'" using m(1) Some by (simp add: malloc_call_def)
      from lheap_reach_alloc [OF assms(1) this] have reach: "lheap_reach s' (H(nat q \<mapsto> unat v))" using assms(3) by simp
      have apart: "p + w \<le> nat q \<or> nat q + unat v \<le> p" if "H p = Some w" for p w
        using lheap_apart [OF lheap_reach_inv [OF reach], of p w "nat q" "unat v"] that q(2) by (cases "p = nat q") auto
      have "mutex_at s' e" using assms(2) m(2,3) by (simp add: mutex_at_def)
      moreover have "\<not> (\<forall>(n, used) \<in> set L. used \<or> n < unat (block_size v) + 8)"
      proof
        assume "\<forall>(n, used) \<in> set L. used \<or> n < unat (block_size v) + 8"
        then have "case B of (n, used) \<Rightarrow> used \<or> n < unat (block_size v) + 8" using B(2) by blast
        then show False using B(3,4) by (cases B) simp
      qed
      moreover have "\<forall>p w. H p = Some w \<longrightarrow> p + w \<le> nat q \<or> nat q + unat v \<le> p" using apart by blast
      ultimately show ?thesis using m(1,2) B(1) reach q(1,3,4,5) False unfolding Some
        by (intro exI [of _ "Some q"] exI [of _ s'] exI [of _ L] conjI) simp_all
    qed
  qed
qed

text \<open>C37: \<open>mem_malloc\<close> for every size, in every state that clients can reach, with the mutex free: it returns and leaves the kernel as it was. It
  returns \<open>NULL\<close>, and changes nothing, exactly for size 0 and when no free block has room for a header and the size as \<open>mem_malloc\<close> rounds it
  (up to a multiple of 4, at least 12, in 16 bits); otherwise a pointer to \<open>granted v\<close> bytes inside the array, aligned, apart
  from the bytes of every block that is held, none of which changes. Granted is the whole request for sizes up to 65532; the three sizes
  above wrap around to 0 when they are rounded and get 12 bytes, as C40 says.\<close>

theorem mem_malloc_spec:
  assumes "lheap_reach s H" and "mutex_at s e"
  shows "\<exists>r s' L. mem_malloc v s = Some (Returns r, s') \<and> kern s' = kern s \<and> heap_rep s L \<and>
    (r = None \<longleftrightarrow> v = 0 \<or> (\<forall>(n, used) \<in> set L. used \<or> n < unat (block_size v) + 8)) \<and>
    (case r of None \<Rightarrow> s' = s
     | Some q \<Rightarrow> lheap_reach s' (H(nat q \<mapsto> granted v)) \<and> mutex_at s' e \<and> 8 \<le> q \<and> 4 dvd q \<and> nat q + granted v \<le> 16000 \<and>
         (\<forall>p w. H p = Some w \<longrightarrow> p + w \<le> nat q \<or> nat q + granted v \<le> p) \<and> keeps_cells ram H s s')"
proof (cases "unat v \<le> 65532")
  case True
  from mem_malloc_small [OF assms True] show ?thesis unfolding granted_le [OF True] .
next
  case False
  then have w: "mem_malloc v s = mem_malloc 12 s" "block_size v = block_size 12" "v \<noteq> 0" "granted v = unat (12 :: u16)"
    using wrapped_call [of v] by (simp_all add: granted_def)
  have "unat (12 :: u16) \<le> 65532" "(v = 0) = ((12 :: u16) = 0)" using w(3) by simp_all
  from mem_malloc_small [OF assms this(1)] show ?thesis unfolding w(1,2,4) \<open>(v = 0) = ((12 :: u16) = 0)\<close> .
qed

theorem mem_malloc_spec_witness:
  "\<exists>e r s'. mutex_at heap_start e \<and> mem_malloc 100 heap_start = Some (Returns r, s') \<and>
    (case r of None \<Rightarrow> s' = heap_start | Some q \<Rightarrow> lheap_reach s' [nat q \<mapsto> 100])"
proof -
  obtain e where e: "lheap_reach heap_start Map.empty" "mutex_at heap_start e" by (rule heap_example)
  obtain r s' where "mem_malloc 100 heap_start = Some (Returns r, s')"
      "case r of None \<Rightarrow> s' = heap_start | Some q \<Rightarrow> lheap_reach s' [nat q \<mapsto> unat (100 :: u16)] \<and> mutex_at s' e \<and> 8 \<le> q \<and> 4 dvd q \<and>
        nat q + unat (100 :: u16) \<le> 16000 \<and> (\<forall>p w. None = Some w \<longrightarrow> p + w \<le> nat q \<or> nat q + unat (100 :: u16) \<le> p) \<and>
        keeps_cells ram Map.empty heap_start s'"
    using mem_malloc_spec [OF e, of 100] by auto
  then show ?thesis using e(2) by (intro exI [of _ e] exI [of _ r] exI [of _ s']) (auto split: option.splits)
qed

text \<open>C38: The bytes of a block are its holder's: whatever the other clients allocate with \<open>mem_malloc\<close>, for requests of every size, free
  and shrink of what they hold, and write into the bytes they were granted (12 for the requests above 65532), and whatever
  the kernel does in between, the block stays, with its size and every byte in it. The work of a call under the mutex is one
  step, and a call that waits for the mutex does it when it runs again: that the mutex keeps the others out meanwhile is the semaphore's
  contract, not part of this.\<close>

theorem blocks_keep_contents:
  assumes "lheap_reach s H" and "H p = Some v" and "heap_run {p} s H s' H'"
  shows "H' p = Some v \<and> (\<forall>x. p \<le> x \<and> x < p + v \<longrightarrow> ram s' x = ram s x) \<and> (\<forall>q w. H' q = Some w \<longrightarrow> q \<noteq> p \<longrightarrow> q + w \<le> p \<or> p + v \<le> q)"
proof -
  have "lheap_inv s' H' \<and> untouched ram {p} s H s' H'" by (rule lh.run_safe [OF assms(3) lheap_reach_inv [OF assms(1)]])
  then have inv: "lheap_inv s' H'" and "H' p = Some v" "\<forall>x. p \<le> x \<and> x < p + v \<longrightarrow> ram s' x = ram s x"
    using assms(2) unfolding untouched_def by blast+
  then show ?thesis using lh.blocks_apart [OF inv] by blast
qed

text \<open>A heap in which the block at 8 is held.\<close>

lemma heap_example_held:
  obtains e s where "mutex_at s e" "lheap_reach s [8 \<mapsto> 100]"
proof -
  obtain e where e: "lheap_reach heap_start Map.empty" "mutex_at heap_start e" by (rule heap_example)
  have rep: "heap_rep heap_start [(16000, False)]" by (rule nothing_held [OF lheap_reach_inv [OF e(1)]])
  have sz: "unat (block_size 100) = 100" by (simp add: block_size_ok(1))
  have fit: "first_fit (unat (block_size 100)) 0 [(16000, False)] = Some 0" by (simp add: sz)
  have body: "\<exists>r s1. mem_malloc_body (block_size 100) (heap_start\<lparr>kern := k\<rparr>) = Some (r, s1) \<and> kern s1 = k \<and> mem_mutex s1 = mem_mutex heap_start \<and> r = Some 8" for k
  proof -
    have r: "heap_rep (heap_start\<lparr>kern := k\<rparr>) [(16000, False)]" using rep by simp
    show ?thesis by (rule mem_malloc_body_ok [OF r _ _ _ fit]) (auto simp: sz)
  qed
  obtain r s' where m: "run_locked (mem_malloc_body (block_size 100)) heap_start = Some (Returns r, s')" "r = Some 8" "kern s' = kern heap_start" "mem_mutex s' = mem_mutex heap_start"
    by (rule run_locked_free [OF e(2) body])
  have "malloc_call 100 heap_start (Some 8) s'" using m(1,2) sz by (simp add: malloc_call_def mem_malloc_def Let_def)
  from lheap_reach_alloc [OF e(1) this] have "lheap_reach s' [8 \<mapsto> 100]" by simp
  moreover have "mutex_at s' e" using e(2) m(3,4) by (simp add: mutex_at_def)
  ultimately show ?thesis using that by blast
qed

theorem blocks_keep_contents_witness:
  "\<exists>s s' r. lheap_reach s [8 \<mapsto> 100] \<and> mem_malloc 40 s = Some (Returns r, s') \<and> (\<forall>x. 8 \<le> x \<and> x < 108 \<longrightarrow> ram s' x = ram s x)"
proof -
  obtain e s where s: "mutex_at s e" "lheap_reach s [8 \<mapsto> 100]" by (rule heap_example_held)
  obtain r s' where m: "mem_malloc 40 s = Some (Returns r, s')"
    by (rule mem_malloc_free_mutex [OF lheap_reach_inv [OF s(2)] s(1), of 40]) (auto simp: block_size_ok(1))
  have r0: "heap_run {8} s [8 \<mapsto> 100] s [8 \<mapsto> 100]" by (rule client_run.start)
  have "malloc_call 40 s r s'" using m by (simp add: malloc_call_def)
  note run = client_run.alloc [OF r0 this]
  from blocks_keep_contents [OF s(2) _ run, of 100] show ?thesis using s(2) m by (intro exI [of _ s] exI [of _ s'] exI [of _ r]) simp
qed

text \<open>C39: \<open>mem_free\<close> of a block that is held returns, leaves the kernel and the bytes of the other blocks as they were, and the block
  is free; once every block has been returned the heap is one piece again: a request for all of its 15992 bytes succeeds.\<close>

theorem mem_free_spec:
  assumes "lheap_reach s H" and "mutex_at s e" and "H p = Some v"
  shows "\<exists>s'. mem_free (Some (int p)) s = Some (Returns (), s') \<and> lheap_reach s' (H(p := None)) \<and> kern s' = kern s \<and> mutex_at s' e \<and>
    keeps_cells ram (H(p := None)) s s' \<and>
    (H(p := None) = Map.empty \<longrightarrow> heap_rep s' [(16000, False)] \<and> (\<exists>s2. mem_malloc 15992 s' = Some (Returns (Some 8), s2)))"
proof -
  obtain s' where m: "mem_free (Some (int p)) s = Some (Returns (), s')" "kern s' = kern s" "mem_mutex s' = mem_mutex s"
    "keeps_cells ram (H(p := None)) s s'" by (rule mem_free_free_mutex [OF lheap_reach_inv [OF assms(1)] assms(2,3)])
  have "free_call p s s'" using m(1) by (simp add: free_call_def)
  with lheap_reach_free [OF assms(1,3)] have reach: "lheap_reach s' (H(p := None))" by blast
  have mx: "mutex_at s' e" using assms(2) m(2,3) by (simp add: mutex_at_def)
  have whole: "heap_rep s' [(16000, False)] \<and> (\<exists>s2. mem_malloc 15992 s' = Some (Returns (Some 8), s2))" if "H(p := None) = Map.empty"
  proof -
    have rep: "heap_rep s' [(16000, False)]" by (rule nothing_held) (use lheap_reach_inv [OF reach] that in simp)
    have sz: "unat (block_size 15992) = 15992" by (simp add: block_size_ok(1))
    have fit: "first_fit (unat (block_size 15992)) 0 [(16000, False)] = Some 0" by (simp add: sz)
    have body: "\<exists>r s1. mem_malloc_body (block_size 15992) (s'\<lparr>kern := k\<rparr>) = Some (r, s1) \<and> kern s1 = k \<and> mem_mutex s1 = mem_mutex s' \<and> r = Some 8" for k
    proof -
      have r: "heap_rep (s'\<lparr>kern := k\<rparr>) [(16000, False)]" using rep by simp
      show ?thesis by (rule mem_malloc_body_ok [OF r _ _ _ fit]) (auto simp: sz)
    qed
    obtain r s2 where "run_locked (mem_malloc_body (block_size 15992)) s' = Some (Returns r, s2)" "r = Some 8"
      by (rule run_locked_free [OF mx body])
    then have "mem_malloc 15992 s' = Some (Returns (Some 8), s2)" using sz by (simp add: mem_malloc_def Let_def)
    then show ?thesis using rep by blast
  qed
  show ?thesis using m(1,2,4) reach mx whole by blast
qed

theorem mem_free_spec_witness:
  "\<exists>s s' s2. lheap_reach s [8 \<mapsto> 100] \<and> mem_free (Some 8) s = Some (Returns (), s') \<and> mem_malloc 15992 s' = Some (Returns (Some 8), s2)"
proof -
  obtain e s where s: "mutex_at s e" "lheap_reach s [8 \<mapsto> 100]" by (rule heap_example_held)
  from mem_free_spec [OF s(2,1), of 8 100] s(2) show ?thesis by auto
qed

text \<open>\<open>mem_trim\<close> of a block that is held, to a size not above its own, returns the same pointer, keeps the bytes that
  remain and those of all other blocks, and leaves the kernel as it was.\<close>

theorem mem_trim_spec:
  assumes "lheap_reach s H" and "mutex_at s e" and "H p = Some w" and "unat v \<le> w"
  shows "\<exists>s'. mem_trim (int p) v s = Some (Returns (Some (int p)), s') \<and> kern s' = kern s \<and> mutex_at s' e \<and>
    lheap_reach s' (H(p \<mapsto> unat v)) \<and> keeps_cells ram (H(p \<mapsto> unat v)) s s'"
proof -
  note inv = lheap_reach_inv [OF assms(1)]
  obtain L where L: "heap_rep s L" "sizes_fit H L" using inv by (auto simp: lheap_inv_def)
  obtain l where l: "(p, l) \<in> held 0 L" "w \<le> l" by (rule sizes_fitD [OF L(2) assms(3)])
  note lg = held_legal [OF L(1) l(1)]
  note ts = trim_size [OF L(1) l(1)]
  have vl: "unat v \<le> l" using assms(4) l(2) by simp
  note tf = trim_fits [OF L(1) l(1) vl]
  define sz where "sz = hdr_next (ram s) (p - 8) - of_nat (p - 8) - 8"
  have small: "\<not> unat (block_size v) > 16000" "\<not> sz < block_size v" using tf lg ts(1) by (simp_all add: word_less_nat_alt sz_def)
  let ?body = "mem_trim_body (int p) (block_size v) (p - 8) (of_nat (p - 8)) sz"
  have trim: "mem_trim (int p) v s = (if block_size v = sz then Some (Returns (Some (int p)), s) else run_locked ?body s)"
    using small lg(1,2) ts(3) unfolding mem_trim_def Let_def sz_def by simp
  have "\<exists>s'. mem_trim (int p) v s = Some (Returns (Some (int p)), s') \<and> kern s' = kern s \<and> mem_mutex s' = mem_mutex s"
  proof (cases "block_size v = sz")
    case False
    have lt: "unat (block_size v) < l" using False tf(1) ts(1) unfolding sz_def by (metis le_neq_implies_less word_unat_eq_iff)
    have body: "\<exists>r s1. ?body (s\<lparr>kern := k\<rparr>) = Some (r, s1) \<and> kern s1 = k \<and> mem_mutex s1 = mem_mutex s \<and> r = Some (int p)" for k
    proof -
      have rep: "heap_rep (s\<lparr>kern := k\<rparr>) L" using L(1) by simp
      have sz: "unat sz = l" using ts(1) by (simp add: sz_def)
      obtain s2 where "?body (s\<lparr>kern := k\<rparr>) = Some (Some (int p), s2)" "kern s2 = k" "mem_mutex s2 = mem_mutex s"
        using trim_body_law [OF rep L(2) l(1) tf(2) lt sz] by auto
      then show ?thesis by auto
    qed
    obtain r s' where "run_locked ?body s = Some (Returns r, s')" "r = Some (int p)" "kern s' = kern s" "mem_mutex s' = mem_mutex s"
      by (rule run_locked_free [OF assms(2) body])
    then show ?thesis using trim False by simp
  qed (use trim in simp)
  then obtain s' where m: "mem_trim (int p) v s = Some (Returns (Some (int p)), s')" "kern s' = kern s" "mem_mutex s' = mem_mutex s" by blast
  have call: "trim_call p v s s'" using m(1) by (auto simp: trim_call_def)
  have "keeps_cells ram (H(p \<mapsto> unat v)) s s'" using trim_call_law [OF inv assms(3,4) call] by blast
  moreover have "mutex_at s' e" using assms(2) m(2,3) by (simp add: mutex_at_def)
  ultimately show ?thesis using m(1,2) lheap_reach_trim [OF assms(1,3,4) call] by blast
qed

theorem mem_trim_spec_witness:
  "\<exists>s s'. lheap_reach s [8 \<mapsto> 100] \<and> mem_trim 8 50 s = Some (Returns (Some 8), s') \<and> (\<forall>x. 8 \<le> x \<and> x < 58 \<longrightarrow> ram s' x = ram s x)"
proof -
  obtain e s where s: "mutex_at s e" "lheap_reach s [8 \<mapsto> 100]" by (rule heap_example_held)
  obtain s' where m: "mem_trim 8 50 s = Some (Returns (Some 8), s')" "keeps_cells ram ([8 \<mapsto> 100, 8 \<mapsto> 50]) s s'"
    using mem_trim_spec [OF s(2,1), of 8 100 50] by auto
  have h: "[8 \<mapsto> 100, 8 \<mapsto> 50] 8 = Some (50 :: nat)" by simp
  have "ram s' x = ram s x" if "8 \<le> x" "x < 58" for x
    using m(2) [unfolded keeps_cells_def, rule_format, OF h that(1)] that(2) by simp
  then show ?thesis using s(2) m(1) by blast
qed

text \<open>C40: Sizes that are rounded up beyond 16 bits wrap around: in a heap from which nothing is taken, \<open>mem_malloc\<close> grants a request
  for more than 65532 bytes with a block of 12, although the whole heap has 16000 bytes; and \<open>mem_calloc\<close> for 256 times 257 bytes
  allocates the low 16 bits of the product, 256 bytes, and clears all 65792, past the end of the array.\<close>

theorem request_wraps:
  assumes "lheap_reach s Map.empty" and "mutex_at s e" and "65532 < unat v"
  shows "(\<exists>s'. mem_malloc v s = Some (Returns (Some 8), s') \<and> lheap_reach s' [8 \<mapsto> 12]) \<and>
    (\<exists>s2. mem_malloc (of_nat (256 * 257)) s = Some (Returns (Some 8), s2) \<and> lheap_reach s2 [8 \<mapsto> 256]) \<and> mem_calloc 256 257 s = None"
proof -
  have rep: "heap_rep s [(16000, False)]" by (rule nothing_held [OF lheap_reach_inv [OF assms(1)]])
  have run: "\<exists>s'. mem_malloc u s = Some (Returns (Some 8), s')" if u: "u \<noteq> 0" "unat (block_size u) \<le> 256" for u
  proof -
    have fit: "first_fit (unat (block_size u)) 0 [(16000, False)] = Some 0" using u by simp
    have body: "\<exists>r s1. mem_malloc_body (block_size u) (s\<lparr>kern := k\<rparr>) = Some (r, s1) \<and> kern s1 = k \<and> mem_mutex s1 = mem_mutex s \<and> r = Some 8" for k
    proof -
      have r: "heap_rep (s\<lparr>kern := k\<rparr>) [(16000, False)]" using rep by simp
      have le: "unat (block_size u) \<le> 16000" using u(2) by simp
      show ?thesis by (rule mem_malloc_body_ok [OF r block_size_ok(3) le block_size_ok(4) fit]) auto
    qed
    obtain r s2 where "run_locked (mem_malloc_body (block_size u)) s = Some (Returns r, s2)" "r = Some 8"
      by (rule run_locked_free [OF assms(2) body])
    then show ?thesis using u unfolding mem_malloc_def Let_def by auto
  qed
  note same = wrapped_call(1) [OF assms(3), of s]
  obtain s' where m: "mem_malloc 12 s = Some (Returns (Some 8), s')" using run [of 12] by (auto simp: block_size_ok(1))
  then have "malloc_call 12 s (Some 8) s'" by (simp add: malloc_call_def)
  from lheap_reach_alloc [OF assms(1) this] have r: "lheap_reach s' [8 \<mapsto> 12]" by simp
  obtain s2 where s2: "mem_malloc 256 s = Some (Returns (Some 8), s2)" using run [of 256] by (auto simp: block_size_ok(1))
  then have "malloc_call 256 s (Some 8) s2" by (simp add: malloc_call_def)
  from lheap_reach_alloc [OF assms(1) this] have r2: "lheap_reach s2 [8 \<mapsto> 256]" by simp
  have "(65792 :: u16) = 256" by code_simp
  then have m2: "mem_malloc 65792 s = Some (Returns (Some 8), s2)" using s2 by (simp only:)
  then have "mem_calloc 256 257 s = None" by (simp add: mem_calloc_def mem_set_def)
  then show ?thesis using m same r m2 r2 by auto
qed

theorem request_wraps_witness:
  "\<exists>s'. mem_malloc 65533 heap_start = Some (Returns (Some 8), s') \<and> lheap_reach s' [8 \<mapsto> 12]"
proof -
  obtain e where e: "lheap_reach heap_start Map.empty" "mutex_at heap_start e" by (rule heap_example)
  from request_wraps [OF e, of 65533] show ?thesis by simp
qed

end
