(* ===== verification/Usmart.thy ===== *)
theory Usmart
  imports OS_Prelude
begin

text \<open>
  \<^verbatim>\<open>src/usmart/usmart_str.c\<close>, \<^verbatim>\<open>src/usmart/usmart.c\<close> and the receiver of \<^verbatim>\<open>src/system/usart/usart.c\<close>: the
  command shell on the serial port. A C string is a buffer of bytes with an index; an access outside
  the buffer is \<open>None\<close>. A local array starts as zeros: the code reads of it only what it has written.
  The function that a command names is a parameter, as are the timer's flag and counter; what is
  printed is a list of items, without the fixed texts; of the buffer in \<open>PText\<close> the characters before the zero are.
\<close>

abbreviation (input) MAX_FNAME_LEN :: nat where "MAX_FNAME_LEN \<equiv> 30"
abbreviation (input) MAX_PARM :: u8 where "MAX_PARM \<equiv> 10"
abbreviation (input) PARM_LEN :: nat where "PARM_LEN \<equiv> 200"
abbreviation (input) USMART_OK :: u8 where "USMART_OK \<equiv> 0"
abbreviation (input) USMART_FUNCERR :: u8 where "USMART_FUNCERR \<equiv> 1"
abbreviation (input) USMART_PARMERR :: u8 where "USMART_PARMERR \<equiv> 2"
abbreviation (input) USMART_PARMOVER :: u8 where "USMART_PARMOVER \<equiv> 3"
abbreviation (input) USMART_NOFUNCFIND :: u8 where "USMART_NOFUNCFIND \<equiv> 4"
abbreviation (input) SP_TYPE_DEC :: u8 where "SP_TYPE_DEC \<equiv> 0"
abbreviation (input) SP_TYPE_HEX :: u8 where "SP_TYPE_HEX \<equiv> 1"

text \<open>Characters.\<close>

abbreviation (input) ch_space :: u8 where "ch_space \<equiv> 0x20"
abbreviation (input) ch_quote :: u8 where "ch_quote \<equiv> 0x22"
abbreviation (input) ch_open :: u8 where "ch_open \<equiv> 0x28"
abbreviation (input) ch_close :: u8 where "ch_close \<equiv> 0x29"
abbreviation (input) ch_star :: u8 where "ch_star \<equiv> 0x2A"
abbreviation (input) ch_plus :: u8 where "ch_plus \<equiv> 0x2B"
abbreviation (input) ch_comma :: u8 where "ch_comma \<equiv> 0x2C"
abbreviation (input) ch_minus :: u8 where "ch_minus \<equiv> 0x2D"
abbreviation (input) ch_0 :: u8 where "ch_0 \<equiv> 0x30"
abbreviation (input) ch_9 :: u8 where "ch_9 \<equiv> 0x39"
abbreviation (input) ch_A :: u8 where "ch_A \<equiv> 0x41"
abbreviation (input) ch_F :: u8 where "ch_F \<equiv> 0x46"
abbreviation (input) ch_X :: u8 where "ch_X \<equiv> 0x58"
abbreviation (input) ch_backslash :: u8 where "ch_backslash \<equiv> 0x5C"
abbreviation (input) ch_a :: u8 where "ch_a \<equiv> 0x61"
abbreviation (input) ch_f :: u8 where "ch_f \<equiv> 0x66"
abbreviation (input) ch_x :: u8 where "ch_x \<equiv> 0x78"

definition rd :: "u8 list \<Rightarrow> nat \<Rightarrow> u8 option" where
  "rd s k = (if k < length s then Some (s ! k) else None)"

definition wr :: "nat \<Rightarrow> u8 \<Rightarrow> u8 list \<Rightarrow> u8 list option" where
  "wr k c s = (if k < length s then Some (s[k := c]) else None)"

lemma rd_Some: "rd s k = Some c \<longleftrightarrow> k < length s \<and> c = s ! k"
  by (auto simp: rd_def)

lemma wr_Some: "wr k c s = Some s' \<longleftrightarrow> k < length s \<and> s' = s[k := c]"
  by (auto simp: wr_def)

lemma unat_plus_one_less:
  assumes "(i::u8) < n"
  shows "unat (i + 1) = unat i + 1"
  using assms unsigned_less [of n, where ?'a = nat] by (simp add: unat_word_ariths word_less_nat_alt)

section \<open>Strings and numbers\<close>

function usmart_strcmp :: "u8 list \<Rightarrow> nat \<Rightarrow> u8 list \<Rightarrow> nat \<Rightarrow> u8 option" where
  "usmart_strcmp s1 i s2 j = do {
     a \<leftarrow> rd s1 i;
     b \<leftarrow> rd s2 j;
     if a \<noteq> b then Some 1 else if a = 0 then Some 0 else usmart_strcmp s1 (i + 1) s2 (j + 1)
   }"
  by auto
termination by (relation "measure (\<lambda>(s1, i, s2, j). length s1 - i)") (auto simp: rd_Some)

function usmart_strcopy :: "u8 list \<Rightarrow> nat \<Rightarrow> u8 list \<Rightarrow> nat \<Rightarrow> u8 list option" where
  "usmart_strcopy s1 i s2 j = do {
     c \<leftarrow> rd s1 i;
     s2' \<leftarrow> wr j c s2;
     if c = 0 then Some s2' else usmart_strcopy s1 (i + 1) s2' (j + 1)
   }"
  by auto
termination by (relation "measure (\<lambda>(s1, i, s2, j). length s1 - i)") (auto simp: rd_Some)

function strlen_from :: "u8 list \<Rightarrow> nat \<Rightarrow> u8 \<Rightarrow> u8 option" where
  "strlen_from s k len = do {
     c \<leftarrow> rd s k;
     if c = 0 then Some len else strlen_from s (k + 1) (len + 1)
   }"
  by auto
termination by (relation "measure (\<lambda>(s, k, len). length s - k)") (auto simp: rd_Some)

definition usmart_strlen :: "u8 list \<Rightarrow> nat \<Rightarrow> u8 option" where
  "usmart_strlen s k = strlen_from s k 0"

function pow_loop :: "u8 \<Rightarrow> u8 \<Rightarrow> u32 \<Rightarrow> u32" where
  "pow_loop m n result = (if n = 0 then result else pow_loop m (n - 1) (result * ucast m))"
  by auto
termination by (relation "measure (\<lambda>(m, n, r). unat n)") (auto simp: unat_minus_one unat_gt_0)

definition usmart_pow :: "u8 \<Rightarrow> u8 \<Rightarrow> u32" where
  "usmart_pow m n = pow_loop m n 1"

declare usmart_strcmp.simps [simp del] usmart_strcopy.simps [simp del] strlen_from.simps [simp del] pow_loop.simps [simp del]

text \<open>The first loop of \<open>usmart_str2num\<close>: \<open>p\<close> walks over the string, \<open>str\<close> stops behind the signs. \<open>Inl\<close>: the
  code to return; \<open>Inr\<close>: start of the digits, base, their number and the sign (2: minus).\<close>

function num_scan :: "u8 list \<Rightarrow> nat \<Rightarrow> nat \<Rightarrow> u8 \<Rightarrow> u8 \<Rightarrow> u8 \<Rightarrow> (u8 + nat \<times> u8 \<times> u8 \<times> u8) option" where
  "num_scan s p str hexdec bnum flag = do {
     c \<leftarrow> rd s p;
     d \<leftarrow> rd s str;
     if (c \<le> ch_9 \<and> c \<ge> ch_0) \<or> ((d = ch_minus \<or> d = ch_plus) \<and> bnum = 0) \<or> (c \<le> ch_F \<and> c \<ge> ch_A) \<or> (c = ch_X \<and> bnum = 1)
     then let hexdec' = (if c \<ge> ch_A then 16 else hexdec) in
       if d = ch_minus then num_scan s (p + 1) (str + 1) hexdec' bnum 2
       else if d = ch_plus then num_scan s (p + 1) (str + 1) hexdec' bnum 1
       else num_scan s (p + 1) str hexdec' (bnum + 1) flag
     else if c = 0 then Some (Inr (str, hexdec, bnum, flag))
     else Some (Inl 1)
   }"
  by auto
termination by (relation "measure (\<lambda>(s, p, str, hexdec, bnum, flag). length s - p)") (auto simp: rd_Some)

function num_value :: "u8 list \<Rightarrow> nat \<Rightarrow> u8 \<Rightarrow> u8 \<Rightarrow> u32 \<Rightarrow> u32 option" where
  "num_value s p hexdec bnum res = do {
     let bnum' = (if bnum \<noteq> 0 then bnum - 1 else bnum);
     c \<leftarrow> rd s p;
     let t = (if c \<le> ch_9 \<and> c \<ge> ch_0 then ucast (c - ch_0) else ucast c - ucast ch_A + 10 :: u32);
     let res' = res + t * usmart_pow hexdec bnum';
     n \<leftarrow> rd s (p + 1);
     if n = 0 then Some res' else num_value s (p + 1) hexdec bnum' res'
   }"
  by auto
termination by (relation "measure (\<lambda>(s, p, hexdec, bnum, res). length s - p)") (auto simp: rd_Some)

declare num_scan.simps [simp del] num_value.simps [simp del]

definition num_signed :: "u8 \<Rightarrow> u32 \<Rightarrow> u32" where
  "num_signed flag res = (if flag = 2 then - res else res)"

text \<open>The code returned and \<open>*res\<close>.\<close>

definition usmart_str2num :: "u8 list \<Rightarrow> nat \<Rightarrow> (u8 \<times> u32) option" where
  "usmart_str2num s str = do {
     r \<leftarrow> num_scan s str str 10 0 0;
     case r of
       Inl e \<Rightarrow> Some (e, 0)
     | Inr (p, hexdec, bnum, flag) \<Rightarrow>
         if hexdec = 16
         then if bnum < 3 then Some (2, 0)
              else do {
                c \<leftarrow> rd s p;
                x \<leftarrow> (if c = ch_0 then rd s (p + 1) else Some 0);
                if c = ch_0 \<and> x = ch_X
                then do {
                  v \<leftarrow> num_value s (p + 2) hexdec (bnum - 2) 0;
                  Some (0, num_signed flag v)
                }
                else Some (3, 0)
              }
         else if bnum = 0 then Some (4, 0)
         else do {
           v \<leftarrow> num_value s p hexdec bnum 0;
           Some (0, num_signed flag v)
         }
   }"

function cmdname_loop :: "u8 list \<Rightarrow> nat \<Rightarrow> u8 list \<Rightarrow> u8 \<Rightarrow> u8 \<Rightarrow> (u8 \<times> u8 list \<times> u8) option" where
  "cmdname_loop s k cmdname nlen maxlen = do {
     c \<leftarrow> rd s k;
     if c \<noteq> ch_space \<and> c \<noteq> 0
     then do {
       cmdname' \<leftarrow> wr (unat nlen) c cmdname;
       if nlen + 1 \<ge> maxlen then Some (1, cmdname', nlen + 1)
       else cmdname_loop s (k + 1) cmdname' (nlen + 1) maxlen
     }
     else do {
       cmdname' \<leftarrow> wr (unat nlen) 0 cmdname;
       Some (0, cmdname', nlen)
     }
   }"
  by auto
termination by (relation "measure (\<lambda>(s, k, cmdname, nlen, maxlen). length s - k)") (auto simp: rd_Some)

text \<open>The code returned, the name and its length.\<close>

definition usmart_get_cmdname :: "u8 list \<Rightarrow> nat \<Rightarrow> u8 list \<Rightarrow> u8 \<Rightarrow> (u8 \<times> u8 list \<times> u8) option" where
  "usmart_get_cmdname s k cmdname maxlen = cmdname_loop s k cmdname 0 maxlen"

function nextc_loop :: "u8 list \<Rightarrow> nat \<Rightarrow> u8 option" where
  "nextc_loop s k = do { c \<leftarrow> rd s k; if c = ch_space then nextc_loop s (k + 1) else Some c }"
  by auto
termination by (relation "measure (\<lambda>(s, k). length s - k)") (auto simp: rd_Some)

definition usmart_search_nextc :: "u8 list \<Rightarrow> nat \<Rightarrow> u8 option" where
  "usmart_search_nextc s k = nextc_loop s (k + 1)"

declare cmdname_loop.simps [simp del] nextc_loop.simps [simp del]

section \<open>The name and the number of parameters\<close>

text \<open>The first five letters of the text, without spaces: the type of the result.\<close>

function rtype_scan :: "u8 list \<Rightarrow> nat \<Rightarrow> u8 \<Rightarrow> u8 list \<Rightarrow> (u8 \<times> u8 list) option" where
  "rtype_scan s k pcnt fpname = do {
     c \<leftarrow> rd s k;
     if c = 0 then Some (pcnt, fpname)
     else if c \<noteq> ch_space \<and> pcnt AND 0x7F < 5
     then let pcnt' = (if pcnt = 0 then 0x80 else pcnt) in
       if pcnt' AND 0x7F = 4 \<and> c \<noteq> ch_star then Some (pcnt', fpname)
       else do {
         fpname' \<leftarrow> wr (unat (pcnt' AND 0x7F)) c fpname;
         rtype_scan s (k + 1) (pcnt' + 1) fpname'
       }
     else if pcnt = 0x85 then Some (pcnt, fpname)
     else rtype_scan s (k + 1) pcnt fpname
   }"
  by auto
termination by (relation "measure (\<lambda>(s, k, pcnt, fpname). length s - k)") (auto simp: rd_Some)

definition void_str :: "u8 list" where
  "void_str = [0x76, 0x6F, 0x69, 0x64, 0]"

text \<open>Is there a result to show? Of an empty text nothing is found out.\<close>

definition result_flag :: "u8 list \<Rightarrow> nat \<Rightarrow> u8 \<Rightarrow> u8 option" where
  "result_flag s k rval = do {
     r \<leftarrow> rtype_scan s k 0 (replicate 6 0);
     if fst r \<noteq> 0
     then do {
       fp \<leftarrow> wr (unat (fst r AND 0x7F)) 0 (snd r);
       c \<leftarrow> usmart_strcmp fp 0 void_str 0;
       Some (if c = 0 then 0 else 1)
     }
     else Some rval
   }"

text \<open>The offset of the last space or star before the name.\<close>

function name_offset :: "u8 list \<Rightarrow> nat \<Rightarrow> u8 \<Rightarrow> u8 \<Rightarrow> u8 option" where
  "name_offset s k res offset = do {
     c \<leftarrow> rd s k;
     if c \<noteq> ch_open \<and> c \<noteq> 0
     then do {
       d \<leftarrow> rd s (k + 1);
       offset' \<leftarrow> (if d = ch_space \<or> d = ch_star
         then do {
           nchar \<leftarrow> usmart_search_nextc s (k + 1);
           Some (if nchar \<noteq> ch_open \<and> nchar \<noteq> ch_star then res + 1 else offset)
         }
         else Some offset);
       name_offset s (k + 1) (res + 1) offset'
     }
     else Some offset
   }"
  by auto
termination by (relation "measure (\<lambda>(s, k, res, offset). length s - k)") (auto simp: rd_Some)

declare rtype_scan.simps [simp del] name_offset.simps [simp del]

text \<open>The state of the loop over the name and the parameters.\<close>

record fname_scan =
  fover :: u8
  nchar :: bool
  pcnt :: u8
  temp :: u8
  fplcnt :: u8
  fpname :: "u8 list"
  parmnum :: u8
  fname :: "u8 list"
  fname_len :: nat

text \<open>A character of the name, or of the list of parameters.\<close>

definition name_char :: "u8 \<Rightarrow> fname_scan \<Rightarrow> fname_scan option" where
  "name_char c st =
     (if c \<noteq> ch_space
      then do { f \<leftarrow> wr (fname_len st) c (fname st); Some (st\<lparr>fname := f, fname_len := fname_len st + 1\<rparr>) }
      else Some st)"

definition parm_char :: "u8 \<Rightarrow> fname_scan \<Rightarrow> fname_scan option" where
  "parm_char c st = do {
     st1 \<leftarrow> (if c = ch_comma then Some (st\<lparr>temp := 1, pcnt := pcnt st + 1\<rparr>)
            else if c \<noteq> ch_space \<and> c \<noteq> ch_open
            then do {
              st' \<leftarrow> (if pcnt st = 0 \<and> fplcnt st < 5
                 then do { fp \<leftarrow> wr (unat (fplcnt st)) c (fpname st); Some (st\<lparr>fpname := fp, fplcnt := fplcnt st + 1\<rparr>) }
                 else Some st);
              Some (st'\<lparr>temp := temp st' + 1\<rparr>)
            }
            else Some st);
     Some (if fover st1 = 1 \<and> temp st1 = 2 then st1\<lparr>temp := temp st1 + 1, parmnum := parmnum st1 + 1\<rparr> else st1)
   }"

text \<open>Brackets and quotes; \<open>Inl\<close> leaves the loop with the code to return.\<close>

definition bracket_char :: "u8 \<Rightarrow> fname_scan \<Rightarrow> u8 + fname_scan" where
  "bracket_char c st =
     (if c = ch_open \<and> \<not> nchar st then Inr (st\<lparr>fover := fover st + 1\<rparr>)
      else if c = ch_close \<and> \<not> nchar st
      then if fover st \<noteq> 0
           then if fover st - 1 = 0 then Inl USMART_OK else Inr (st\<lparr>fover := fover st - 1\<rparr>)
           else Inl USMART_FUNCERR
      else if c = ch_quote then Inr (st\<lparr>nchar := \<not> nchar st\<rparr>)
      else Inr st)"

function fname_loop :: "u8 list \<Rightarrow> nat \<Rightarrow> fname_scan \<Rightarrow> (u8 \<times> fname_scan) option" where
  "fname_loop s k st = do {
     c \<leftarrow> rd s k;
     if c = 0 then Some (USMART_FUNCERR, st)
     else case bracket_char c st of
       Inl res \<Rightarrow> Some (res, st)
     | Inr st1 \<Rightarrow> do {
         st2 \<leftarrow> (if fover st1 = 0 then name_char c st1 else parm_char c st1);
         fname_loop s (k + 1) st2
       }
   }"
  by auto
termination by (relation "measure (\<lambda>(s, k, st). length s - k)") (auto simp: rd_Some)

declare fname_loop.simps [simp del]

text \<open>The code returned, \<open>*fname\<close>, \<open>*pnum\<close> and \<open>*rval\<close>.\<close>

definition usmart_get_fname :: "u8 list \<Rightarrow> nat \<Rightarrow> u8 list \<Rightarrow> u8 \<Rightarrow> (u8 \<times> u8 list \<times> u8 \<times> u8) option" where
  "usmart_get_fname s str fnm rval = do {
     rval' \<leftarrow> result_flag s str rval;
     offset \<leftarrow> name_offset s str 0 0;
     r \<leftarrow> fname_loop s (if offset \<noteq> 0 then str + unat offset + 1 else str)
       \<lparr>fover = 0, nchar = False, pcnt = 0, temp = 1, fplcnt = 0, fpname = replicate 6 0, parmnum = 0, fname = fnm, fname_len = 0\<rparr>;
     let st = snd r;
     pnum \<leftarrow> (if parmnum st = 1
       then do {
         fp \<leftarrow> wr (unat (fplcnt st)) 0 (fpname st);
         c \<leftarrow> usmart_strcmp fp 0 void_str 0;
         Some (if c = 0 then 0 else parmnum st)
       }
       else Some (parmnum st));
     fnm' \<leftarrow> wr (fname_len st) 0 (fname st);
     Some (fst r, fnm', pnum, rval')
   }"

section \<open>The parameters\<close>

text \<open>The state of \<open>usmart_get_aparm\<close>: the offset \<open>i\<close>, the number of bytes in \<open>*fparm\<close>.\<close>

record aparm_scan =
  offs :: u8
  enout :: bool
  ptype :: u8
  in_string :: bool
  fparm :: "u8 list"
  fparm_len :: nat

definition num_char :: "u8 \<Rightarrow> bool" where
  "num_char c \<longleftrightarrow> (c \<ge> ch_0 \<and> c \<le> ch_9) \<or> c = ch_minus \<or> c = ch_plus \<or> (c \<ge> ch_a \<and> c \<le> ch_f) \<or> (c \<ge> ch_A \<and> c \<le> ch_F) \<or>
     c = ch_X \<or> c = ch_x"

definition put_parm :: "u8 \<Rightarrow> aparm_scan \<Rightarrow> aparm_scan option" where
  "put_parm c st = do { f \<leftarrow> wr (fparm_len st) c (fparm st); Some (st\<lparr>fparm := f, fparm_len := fparm_len st + 1\<rparr>) }"

text \<open>One character of a number or before the parameter; \<open>Inl\<close> leaves the loop.\<close>

definition aparm_num :: "u8 \<Rightarrow> aparm_scan \<Rightarrow> (aparm_scan + aparm_scan) option" where
  "aparm_num c st =
     (if num_char c
      then if enout st then Some (Inl st)
           else do { st' \<leftarrow> put_parm (if c \<ge> ch_a then c - 0x20 else c) st; Some (Inr st') }
      else if c = ch_quote
      then if enout st then Some (Inl st) else Some (Inr (st\<lparr>ptype := 1, in_string := True\<rparr>))
      else if c \<noteq> ch_space \<and> c \<noteq> ch_comma then Some (Inl (st\<lparr>ptype := 0xFF\<rparr>))
      else Some (Inr st))"

function aparm_loop :: "u8 list \<Rightarrow> nat \<Rightarrow> aparm_scan \<Rightarrow> aparm_scan option" where
  "aparm_loop s k st0 = do {
     c \<leftarrow> rd s k;
     let st = (if c = ch_comma \<and> \<not> in_string st0 then st0\<lparr>enout := True\<rparr> else st0);
     if (c = ch_close \<or> c = 0) \<and> \<not> in_string st then Some st
     else if ptype st = 0
     then do {
       r \<leftarrow> aparm_num c st;
       case r of Inl st' \<Rightarrow> Some st' | Inr st' \<Rightarrow> aparm_loop s (k + 1) (st'\<lparr>offs := offs st' + 1\<rparr>)
     }
     else let st1 = (if c = ch_quote then st\<lparr>in_string := False\<rparr> else st) in
       if enout st1 then Some st1
       else if in_string st1
       then if c = ch_backslash
            then do {
              d \<leftarrow> rd s (k + 1);
              st2 \<leftarrow> put_parm d (st1\<lparr>offs := offs st1 + 1\<rparr>);
              aparm_loop s (k + 2) (st2\<lparr>offs := offs st2 + 1\<rparr>)
            }
            else do {
              st2 \<leftarrow> put_parm c st1;
              aparm_loop s (k + 1) (st2\<lparr>offs := offs st2 + 1\<rparr>)
            }
       else aparm_loop s (k + 1) (st1\<lparr>offs := offs st1 + 1\<rparr>)
   }"
  by auto
termination by (relation "measure (\<lambda>(s, k, st). length s - k)") (auto simp: rd_Some)

declare aparm_loop.simps [simp del]

text \<open>The offset of the next parameter, \<open>*fparm\<close> and \<open>*ptype\<close>.\<close>

definition usmart_get_aparm :: "u8 list \<Rightarrow> nat \<Rightarrow> u8 list \<Rightarrow> (u8 \<times> u8 list \<times> u8) option" where
  "usmart_get_aparm s str buf = do {
     st \<leftarrow> aparm_loop s str \<lparr>offs = 0, enout = False, ptype = 0, in_string = False, fparm = buf, fparm_len = 0\<rparr>;
     f \<leftarrow> wr (fparm_len st) 0 (fparm st);
     Some (offs st, f, ptype st)
   }"

section \<open>The device\<close>

record usmart_nametab =
  func :: u32
  fun_name :: "u8 list"

record usmart_dev =
  funs :: "usmart_nametab list"
  fnum :: u8
  pnum :: u8
  dev_id :: u8
  sptype :: u8
  parmtype :: u16
  plentbl :: "u8 list"
  parm :: "u8 list"
  runtimeflag :: u8
  runtime :: u32

function parmpos_loop :: "u8 \<Rightarrow> u8 \<Rightarrow> u8 \<Rightarrow> usmart_dev \<Rightarrow> u8 option" where
  "parmpos_loop i num acc d =
     (if i < num then do { l \<leftarrow> rd (plentbl d) (unat i); parmpos_loop (i + 1) num (acc + l) d } else Some acc)"
  by auto
termination
proof (relation "measure (\<lambda>(i, num, acc, d). unat num - unat i)")
  fix i num acc :: u8 and d l assume "i < num"
  then have "unat i < unat num" "unat (i + 1) = unat i + 1"
    by (simp_all add: word_less_nat_alt unat_plus_one_less)
  then show "((i + 1, num, acc + l, d), i, num, acc, d) \<in> measure (\<lambda>(i, num, acc, d). unat num - unat i)" by simp
qed simp

declare parmpos_loop.simps [simp del]

definition usmart_get_parmpos :: "u8 \<Rightarrow> usmart_dev \<Rightarrow> u8 option" where
  "usmart_get_parmpos num d = parmpos_loop 0 num 0 d"

text \<open>A word in memory, low byte first.\<close>

definition put32 :: "nat \<Rightarrow> u32 \<Rightarrow> u8 list \<Rightarrow> u8 list option" where
  "put32 k v s = do {
     s1 \<leftarrow> wr k (ucast v) s;
     s2 \<leftarrow> wr (k + 1) (ucast (drop_bit 8 v)) s1;
     s3 \<leftarrow> wr (k + 2) (ucast (drop_bit 16 v)) s2;
     wr (k + 3) (ucast (drop_bit 24 v)) s3
   }"

definition get32 :: "nat \<Rightarrow> u8 list \<Rightarrow> u32 option" where
  "get32 k s = do {
     a \<leftarrow> rd s k;
     b \<leftarrow> rd s (k + 1);
     c \<leftarrow> rd s (k + 2);
     d \<leftarrow> rd s (k + 3);
     Some (ucast a OR push_bit 8 (ucast b) OR push_bit 16 (ucast c) OR push_bit 24 (ucast d))
   }"

text \<open>Store the parameter \<open>n\<close>, a number or a string.\<close>

definition store_num :: "u8 \<Rightarrow> u32 \<Rightarrow> usmart_dev \<Rightarrow> usmart_dev option" where
  "store_num n v d = do {
     pos \<leftarrow> usmart_get_parmpos n d;
     m \<leftarrow> put32 (unat pos) v (parm d);
     l \<leftarrow> wr (unat n) 4 (plentbl d);
     Some (d\<lparr>parm := m, parmtype := parmtype d AND NOT (push_bit (unat n) 1), plentbl := l\<rparr>)
   }"

definition store_str :: "u8 \<Rightarrow> u8 list \<Rightarrow> usmart_dev \<Rightarrow> usmart_dev option" where
  "store_str n tstr d = do {
     len \<leftarrow> usmart_strlen tstr 0;
     pos \<leftarrow> usmart_get_parmpos n d;
     m \<leftarrow> usmart_strcopy tstr 0 (parm d) (unat pos);
     l \<leftarrow> wr (unat n) (len + 1) (plentbl d);
     Some (d\<lparr>parm := m, parmtype := parmtype d OR push_bit (unat n) 1, plentbl := l\<rparr>)
   }"

function find_open :: "u8 list \<Rightarrow> nat \<Rightarrow> nat option option" where
  "find_open s k = do {
     c \<leftarrow> rd s k;
     if c = ch_open then Some (Some (k + 1))
     else do { d \<leftarrow> rd s (k + 1); if d = 0 then Some None else find_open s (k + 1) }
   }"
  by auto
termination by (relation "measure (\<lambda>(s, k). length s - k)") (auto simp: rd_Some)

declare find_open.simps [simp del]

text \<open>One parameter: \<open>Inl\<close> is the code to return, \<open>Inr\<close> the number of parameters so far.\<close>

definition fparam_step :: "u8 \<Rightarrow> u8 list \<Rightarrow> u8 \<Rightarrow> usmart_dev \<Rightarrow> ((u8 + u8) \<times> usmart_dev) option" where
  "fparam_step ty tstr n d =
     (if ty = 0
      then do {
        c \<leftarrow> rd tstr 0;
        if c \<noteq> 0
        then do {
          r \<leftarrow> usmart_str2num tstr 0;
          if fst r \<noteq> 0 then Some (Inl USMART_PARMERR, d)
          else do {
            d' \<leftarrow> store_num n (snd r) d;
            Some (if n + 1 > MAX_PARM then Inl USMART_PARMOVER else Inr (n + 1), d')
          }
        }
        else Some (Inr n, d)
      }
      else if ty = 1
      then do {
        d' \<leftarrow> store_str n tstr d;
        Some (if n + 1 > MAX_PARM then Inl USMART_PARMOVER else Inr (n + 1), d')
      }
      else Some (Inl USMART_PARMERR, d))"

partial_function (option) fparam_loop :: "u8 list \<Rightarrow> nat \<Rightarrow> u8 list \<Rightarrow> u8 \<Rightarrow> usmart_dev \<Rightarrow> ((u8 + u8) \<times> usmart_dev) option" where
  "fparam_loop s k tstr n d = do {
     a \<leftarrow> usmart_get_aparm s k tstr;
     let k' = k + unat (fst a);
     r \<leftarrow> fparam_step (snd (snd a)) (fst (snd a)) n d;
     case fst r of
       Inl e \<Rightarrow> Some (Inl e, snd r)
     | Inr n' \<Rightarrow> do {
         c \<leftarrow> rd s k';
         if c = ch_close \<or> c = 0 then Some (Inr n', snd r)
         else fparam_loop s k' (fst (snd a)) n' (snd r)
       }
   }"

declare fparam_loop.simps [code]

text \<open>The code returned and \<open>*parn\<close>.\<close>

definition usmart_get_fparam :: "u8 list \<Rightarrow> nat \<Rightarrow> u8 \<Rightarrow> usmart_dev \<Rightarrow> (u8 \<times> u8 \<times> usmart_dev) option" where
  "usmart_get_fparam s str parn d = do {
     let d0 = d\<lparr>plentbl := replicate 10 0\<rparr>;
     p \<leftarrow> find_open s str;
     case p of
       None \<Rightarrow> Some (USMART_FUNCERR, parn, d0)
     | Some k \<Rightarrow> do {
         r \<leftarrow> fparam_loop s k (replicate 201 0) 0 d0;
         Some (case fst r of Inl e \<Rightarrow> (e, parn, snd r) | Inr n \<Rightarrow> (USMART_OK, n, snd r))
       }
   }"

section \<open>Commands\<close>

text \<open>The function of the table with the name that came in.\<close>

function find_fun :: "u8 \<Rightarrow> u8 list \<Rightarrow> u8 \<Rightarrow> u8 list \<Rightarrow> u8 \<Rightarrow> usmart_dev \<Rightarrow> (u8 + u8) option" where
  "find_fun i rfname rpnum sfname rval d =
     (if i < fnum d
      then do {
        f \<leftarrow> (if unat i < length (funs d) then Some (funs d ! unat i) else None);
        r \<leftarrow> usmart_get_fname (fun_name f) 0 sfname rval;
        if fst r \<noteq> 0 then Some (Inl (fst r))
        else do {
          c \<leftarrow> usmart_strcmp (fst (snd r)) 0 rfname 0;
          if c = 0
          then Some (if fst (snd (snd r)) > rpnum then Inl USMART_PARMERR else Inr i)
          else find_fun (i + 1) rfname rpnum (fst (snd r)) (snd (snd (snd r))) d
        }
      }
      else Some (Inl USMART_NOFUNCFIND))"
  by auto
termination
proof (relation "measure (\<lambda>(i, rf, rp, sf, rv, d). unat (fnum d) - unat i)")
  fix i rp rv :: u8 and rf sf sf' :: "u8 list" and rv' :: u8 and d :: usmart_dev assume "i < fnum d"
  then have "unat i < unat (fnum d)" "unat (i + 1) = unat i + 1"
    by (simp_all add: word_less_nat_alt unat_plus_one_less)
  then show "((i + 1, rf, rp, sf', rv', d), i, rf, rp, sf, rv, d) \<in> measure (\<lambda>(i, rf, rp, sf, rv, d). unat (fnum d) - unat i)"
    by simp
qed simp

declare find_fun.simps [simp del]

definition usmart_init :: "usmart_dev \<Rightarrow> usmart_dev" where
  "usmart_init d = d\<lparr>sptype := 1\<rparr>"

definition usmart_cmd_rec :: "u8 list \<Rightarrow> nat \<Rightarrow> usmart_dev \<Rightarrow> (u8 \<times> usmart_dev) option" where
  "usmart_cmd_rec s str d = do {
     r \<leftarrow> usmart_get_fname s str (replicate MAX_FNAME_LEN 0) 0;
     if fst r \<noteq> 0 then Some (fst r, d)
     else do {
       f \<leftarrow> find_fun 0 (fst (snd r)) (fst (snd (snd r))) (replicate MAX_FNAME_LEN 0) (snd (snd (snd r))) d;
       case f of
         Inl e \<Rightarrow> Some (e, d)
       | Inr i \<Rightarrow> do {
           p \<leftarrow> usmart_get_fparam s str i (d\<lparr>dev_id := i\<rparr>);
           Some (if fst p \<noteq> 0 then (fst p, snd (snd p)) else (USMART_OK, (snd (snd p))\<lparr>pnum := fst (snd p)\<rparr>))
         }
     }
   }"

text \<open>A parameter as the called function gets it: a number, the address of a byte of \<open>parm\<close>, or an entry of \<open>temp\<close> that
  was never set.\<close>

datatype usmart_arg = ANum u32 | AStr nat | AUninit

datatype usmart_out = PText "u8 list" | PStr nat | PDec u32 | PUns u32 | PHex u32 | PTime u32 | PErr u8

definition print_num :: "usmart_dev \<Rightarrow> u32 \<Rightarrow> usmart_out" where
  "print_num d v = (if sptype d = SP_TYPE_DEC then PDec v else PHex v)"

function exe_args :: "u8 \<Rightarrow> u8 \<Rightarrow> usmart_dev \<Rightarrow> (usmart_arg list \<times> usmart_out list) option" where
  "exe_args i n d =
     (if i < n
      then do {
        guard (i < MAX_PARM);
        pos \<leftarrow> usmart_get_parmpos i d;
        a \<leftarrow> (if parmtype d AND push_bit (unat i) 1 \<noteq> 0 then Some (AStr (unat pos), PStr (unat pos))
             else do { v \<leftarrow> get32 (unat pos) (parm d); Some (ANum v, print_num d v) });
        r \<leftarrow> exe_args (i + 1) n d;
        Some (fst a # fst r, snd a # snd r)
      }
      else Some ([], []))"
  by auto
termination
  by (relation "measure (\<lambda>(i, n, d). unat n - unat i)") (auto simp: unat_plus_one_less word_less_nat_alt)

declare exe_args.simps [simp del]

text \<open>The timer's overflow flag and counter.\<close>

definition usmart_reset_runtime :: "usmart_dev \<Rightarrow> usmart_dev" where
  "usmart_reset_runtime d = d\<lparr>runtime := 0\<rparr>"

definition usmart_get_runtime :: "bool \<Rightarrow> u16 \<Rightarrow> usmart_dev \<Rightarrow> u32 \<times> usmart_dev" where
  "usmart_get_runtime ovf cnt d =
     (let t = (if ovf then runtime d + 0xFFFF else runtime d) + ucast cnt in (t, d\<lparr>runtime := t\<rparr>))"

text \<open>With more than ten parameters no function is called and the result is whatever \<open>res\<close> holds.\<close>

definition call_fun :: "(u32 \<Rightarrow> usmart_arg list \<Rightarrow> u32) \<Rightarrow> u32 \<Rightarrow> u32 \<Rightarrow> u8 \<Rightarrow> usmart_arg list \<Rightarrow> u32" where
  "call_fun call junk f n args =
     (if n \<le> MAX_PARM then call f (take (unat n) (args @ replicate 10 AUninit)) else junk)"

definition usmart_exe :: "(u32 \<Rightarrow> usmart_arg list \<Rightarrow> u32) \<Rightarrow> u32 \<Rightarrow> bool \<Rightarrow> u16 \<Rightarrow> usmart_dev \<Rightarrow> (usmart_out list \<times> usmart_dev) option" where
  "usmart_exe call junk ovf cnt d =
     (if dev_id d \<ge> fnum d then Some ([], d)
      else do {
        f \<leftarrow> (if unat (dev_id d) < length (funs d) then Some (funs d ! unat (dev_id d)) else None);
        r \<leftarrow> usmart_get_fname (fun_name f) 0 (replicate MAX_FNAME_LEN 0) 0;
        a \<leftarrow> exe_args 0 (fst (snd (snd r))) d;
        let d1 = usmart_reset_runtime d;
        let res = call_fun call junk (func f) (pnum d) (fst a);
        let d2 = snd (usmart_get_runtime ovf cnt d1);
        Some (PText (fst (snd r)) # snd a
              @ (if snd (snd (snd r)) = 1 then [if sptype d2 = SP_TYPE_DEC then PUns res else PHex res] else [])
              @ (if runtimeflag d2 \<noteq> 0 then [PTime (runtime d2)] else []), d2)
      })"

section \<open>The system's commands and the serial port\<close>

definition sys_cmd_tab :: "u8 list list" where
  "sys_cmd_tab = [[0x3F, 0], [0x68, 0x65, 0x6C, 0x70, 0], [0x6C, 0x69, 0x73, 0x74, 0], [0x69, 0x64, 0], [0x68, 0x65, 0x78, 0],
     [0x64, 0x65, 0x63, 0], [0x72, 0x75, 0x6E, 0x74, 0x69, 0x6D, 0x65, 0]]"

fun find_cmd :: "nat \<Rightarrow> u8 list \<Rightarrow> u8 list list \<Rightarrow> nat option" where
  "find_cmd i sfname [] = Some i"
| "find_cmd i sfname (c # cs) = do { r \<leftarrow> usmart_strcmp sfname 0 c 0; if r = 0 then Some i else find_cmd (i + 1) sfname cs }"

text \<open>The number behind \<open>hex\<close>, \<open>dec\<close> and \<open>runtime\<close>: a code and the number; a parameter that is not a number is error 0xFF.\<close>

definition cmd_number :: "u8 list \<Rightarrow> nat \<Rightarrow> u8 list \<Rightarrow> (u8 \<times> u32) option" where
  "cmd_number s k sfname = do {
     a \<leftarrow> usmart_get_aparm s k sfname;
     if snd (snd a) = 0 then usmart_str2num (fst (snd a)) 0 else Some (0xFF, 0)
   }"

text \<open>\<open>list\<close> prints the names, \<open>id\<close> the names and addresses of the functions.\<close>

fun list_ids :: "usmart_nametab list \<Rightarrow> u8 list \<Rightarrow> u8 \<Rightarrow> usmart_out list option" where
  "list_ids [] sfname rval = Some []"
| "list_ids (f # fs) sfname rval = do {
     r \<leftarrow> usmart_get_fname (fun_name f) 0 sfname rval;
     out \<leftarrow> list_ids fs (fst (snd r)) (snd (snd (snd r)));
     Some (PText (fst (snd r)) # PHex (func f) # out)
   }"

definition usmart_sys_cmd_exe :: "u8 list \<Rightarrow> nat \<Rightarrow> usmart_dev \<Rightarrow> (u8 \<times> usmart_out list \<times> usmart_dev) option" where
  "usmart_sys_cmd_exe s str d = do {
     c \<leftarrow> usmart_get_cmdname s str (replicate MAX_FNAME_LEN 0) 30;
     if fst c \<noteq> 0 then Some (USMART_FUNCERR, [], d)
     else do {
       let sfname = fst (snd c);
       let k = str + unat (snd (snd c));
       i \<leftarrow> find_cmd 0 sfname sys_cmd_tab;
       if i = 0 \<or> i = 1 then Some (0, [], d)
       else if i = 2 then do {
         guard (unat (fnum d) \<le> length (funs d));
         Some (0, map (PText \<circ> fun_name) (take (unat (fnum d)) (funs d)), d)
       }
       else if i = 3 then do {
         guard (unat (fnum d) \<le> length (funs d));
         out \<leftarrow> list_ids (take (unat (fnum d)) (funs d)) sfname 0;
         Some (0, out, d)
       }
       else if i = 4 \<or> i = 5 then do {
         r \<leftarrow> cmd_number s k sfname;
         if fst r = 0 then Some (0, [if i = 4 then PHex (snd r) else PUns (snd r)], d)
         else if fst r = 4 then Some (0, [], d\<lparr>sptype := if i = 4 then SP_TYPE_HEX else SP_TYPE_DEC\<rparr>)
         else Some (USMART_PARMERR, [], d)
       }
       else if i = 6 then do {
         r \<leftarrow> cmd_number s k sfname;
         if fst r = 0 then Some (0, [], d\<lparr>runtimeflag := ucast (snd r)\<rparr>) else Some (USMART_PARMERR, [], d)
       }
       else Some (USMART_FUNCERR, [], d)
     }
   }"

text \<open>The receiver: bit 15 of \<open>USART_RX_STA\<close> says that a line is complete, bit 14 that its 0x0D has come, the others count.\<close>

record usart =
  USART_RX_BUF :: "u8 list"
  USART_RX_STA :: u16

definition HAL_UART_RxCpltCallback :: "u8 \<Rightarrow> usart \<Rightarrow> usart option" where
  "HAL_UART_RxCpltCallback c u =
     (if USART_RX_STA u AND 0x8000 = 0
      then if USART_RX_STA u AND 0x4000 \<noteq> 0
           then if c \<noteq> 0x0A then Some (u\<lparr>USART_RX_STA := 0\<rparr>) else Some (u\<lparr>USART_RX_STA := USART_RX_STA u OR 0x8000\<rparr>)
           else if c = 0x0D then Some (u\<lparr>USART_RX_STA := USART_RX_STA u OR 0x4000\<rparr>)
           else do {
             b \<leftarrow> wr (unat (USART_RX_STA u AND 0x3FFF)) c (USART_RX_BUF u);
             let sta = USART_RX_STA u + 1;
             Some (u\<lparr>USART_RX_BUF := b, USART_RX_STA := if sta > 199 then 0 else sta\<rparr>)
           }
      else Some u)"

text \<open>What \<open>usmart_scan\<close> does with a line: a function of the table, or else a command of the system.\<close>

definition scan_line ::
  "(u32 \<Rightarrow> usmart_arg list \<Rightarrow> u32) \<Rightarrow> u32 \<Rightarrow> bool \<Rightarrow> u16 \<Rightarrow> u8 list \<Rightarrow> usmart_dev \<Rightarrow> (usmart_out list \<times> usmart_dev) option" where
  "scan_line call junk ovf cnt b d = do {
     r \<leftarrow> usmart_cmd_rec b 0 d;
     if fst r = 0 then usmart_exe call junk ovf cnt (snd r)
     else do {
       y \<leftarrow> usmart_sys_cmd_exe b 0 (snd r);
       let sta = (if fst y \<noteq> USMART_FUNCERR then fst y else fst r);
       Some (fst (snd y) @ (if sta \<noteq> 0 then [PErr sta] else []), snd (snd y))
     }
   }"

definition usmart_scan ::
  "(u32 \<Rightarrow> usmart_arg list \<Rightarrow> u32) \<Rightarrow> u32 \<Rightarrow> bool \<Rightarrow> u16 \<Rightarrow> usart \<Rightarrow> usmart_dev \<Rightarrow> (usmart_out list \<times> usart \<times> usmart_dev) option" where
  "usmart_scan call junk ovf cnt u d =
     (if USART_RX_STA u AND 0x8000 \<noteq> 0
      then do {
        let len = (ucast (USART_RX_STA u AND 0x3FFF) :: u8);
        b \<leftarrow> wr (unat len) 0 (USART_RX_BUF u);
        r \<leftarrow> scan_line call junk ovf cnt b d;
        Some (fst r, u\<lparr>USART_RX_BUF := b, USART_RX_STA := 0\<rparr>, snd r)
      }
      else Some ([], u, d))"

end
