(* ===== verification/Usmart_Proofs.thy ===== *)
theory Usmart_Proofs
  imports Usmart
begin

text \<open>
  What the shell of \<open>Usmart\<close> makes of its input: the number parser is equal to a reference on every
  string, the parameters of a call are stored as they were written, more than ten are written past
  the table, and a line that comes in over the serial port is the string that is parsed.
\<close>

section \<open>Strings in a buffer\<close>

text \<open>The buffer reads \<open>w\<close> from \<open>k\<close> on.\<close>

definition reads :: "u8 list \<Rightarrow> nat \<Rightarrow> u8 list \<Rightarrow> bool" where
  "reads s k w \<longleftrightarrow> (\<forall>i < length w. rd s (k + i) = Some (w ! i))"

lemma reads_Nil [simp]: "reads s k []"
  by (simp add: reads_def)

lemma reads_Cons [simp]: "reads s k (c # w) \<longleftrightarrow> rd s k = Some c \<and> reads s (Suc k) w"
  by (auto simp: reads_def less_Suc_eq_0_disj nth_Cons split: nat.splits)

lemma reads_append [simp]: "reads s k (v @ w) \<longleftrightarrow> reads s k v \<and> reads s (k + length v) w"
  by (induction v arbitrary: k) auto

lemma reads_exact [simp]: "reads w 0 w"
  by (simp add: reads_def rd_def)

lemma update_end: "length w < length b \<Longrightarrow> (w @ drop (length w) b)[length w := c] = w @ c # drop (Suc (length w)) b"
  by (simp add: list_update_append Cons_nth_drop_Suc [symmetric])

section \<open>Numbers\<close>

definition is_digit :: "u8 \<Rightarrow> bool" where
  "is_digit c \<longleftrightarrow> c \<le> ch_9 \<and> c \<ge> ch_0"

definition dig :: "u8 \<Rightarrow> u32" where
  "dig c = (if is_digit c then ucast (c - ch_0) else ucast c - ucast ch_A + 10)"

text \<open>The value of a string of digits, the last one being worth 1.\<close>

fun digits_value :: "u32 \<Rightarrow> u8 list \<Rightarrow> u32" where
  "digits_value b [] = 0"
| "digits_value b (c # w) = dig c * b ^ length w + digits_value b w"

lemma usmart_pow_eq: "usmart_pow m n = ucast m ^ unat n"
proof -
  have "pow_loop m n r = r * ucast m ^ unat n" for r
  proof (induction "unat n" arbitrary: n r)
    case 0
    then show ?case by (subst pow_loop.simps) (simp add: unat_eq_0)
  next
    case (Suc k)
    then have "n \<noteq> 0" by auto
    then have "unat (n - 1) = k" using Suc(2) by (simp add: unat_minus_one)
    then show ?case
      using Suc(1) [of "n - 1" "r * ucast m"] Suc(2) \<open>n \<noteq> 0\<close> by (simp add: pow_loop.simps [of m n] flip: Suc(2))
  qed
  then show ?thesis by (simp add: usmart_pow_def)
qed

lemma unat_of_nat_u8: "n < 256 \<Longrightarrow> unat (of_nat n :: u8) = n"
  by (simp only: unat_of_nat) simp

lemma num_value_eq:
  assumes "reads s p (w @ [0])" "0 \<notin> set w" "w \<noteq> []" "length w < 256" "bnum = of_nat (length w)"
  shows "num_value s p b bnum res = Some (res + digits_value (ucast b) w)"
  using assms
proof (induction w arbitrary: p bnum res)
  case (Cons c w)
  have "unat bnum = Suc (length w)" using Cons.prems(4,5) by (simp only: unat_of_nat_u8) simp
  then have bn: "bnum \<noteq> 0" "bnum - 1 = of_nat (length w)" "unat (bnum - 1) = length w"
    using Cons.prems(4,5) by (auto simp: unat_of_nat_u8)
  have c: "rd s p = Some c" and w: "reads s (Suc p) (w @ [0])" using Cons.prems(1) by simp_all
  have t: "(if c \<le> ch_9 \<and> c \<ge> ch_0 then ucast (c - ch_0) else ucast c - ucast ch_A + 10 :: u32) = dig c"
    by (simp add: dig_def is_digit_def)
  show ?case
  proof (cases w)
    case Nil
    then show ?thesis
      using w c bn t by (subst num_value.simps) (simp add: Let_def usmart_pow_eq)
  next
    case (Cons d v)
    then have "rd s (Suc p) = Some d" "d \<noteq> 0" using w Cons.prems(2) by auto
    then show ?thesis
      using Cons.IH [OF w _ _ _ bn(2)] Cons.prems(2,4) Cons c bn t
      by (subst num_value.simps) (simp add: Let_def usmart_pow_eq algebra_simps)
  qed
qed simp

text \<open>The reference: signs, then digits, then the checks in the order of the codes.\<close>

definition is_sign :: "u8 \<Rightarrow> bool" where
  "is_sign c \<longleftrightarrow> c = ch_minus \<or> c = ch_plus"

fun body_ok :: "nat \<Rightarrow> u8 list \<Rightarrow> bool" where
  "body_ok i [] = True"
| "body_ok i (c # w) = ((is_digit c \<or> (c \<le> ch_F \<and> c \<ge> ch_A) \<or> (c = ch_X \<and> i = 1)) \<and> body_ok (Suc i) w)"

definition letters :: "u8 list \<Rightarrow> bool" where
  "letters w \<longleftrightarrow> (\<exists>c \<in> set w. c \<ge> ch_A)"

definition sign_flag :: "u8 list \<Rightarrow> u8" where
  "sign_flag v = (if v = [] then 0 else if last v = ch_minus then 2 else 1)"

definition body_spec :: "u8 \<Rightarrow> u8 list \<Rightarrow> u8 \<times> u32" where
  "body_spec flag w =
     (if \<not> body_ok 0 w then (1, 0)
      else if letters w
      then if length w < 3 then (2, 0)
           else if take 2 w = [ch_0, ch_X] then (0, num_signed flag (digits_value 16 (drop 2 w)))
           else (3, 0)
      else if w = [] then (4, 0)
      else (0, num_signed flag (digits_value 10 w)))"

definition num_spec :: "u8 list \<Rightarrow> u8 \<times> u32" where
  "num_spec w = body_spec (sign_flag (takeWhile is_sign w)) (dropWhile is_sign w)"

lemma scan_signs:
  assumes "reads s p (v @ w @ [0])" "\<forall>c \<in> set v. is_sign c"
  shows "num_scan s p p 10 0 flag = num_scan s (p + length v) (p + length v) 10 0 (if v = [] then flag else sign_flag v)"
  using assms
proof (induction v arbitrary: p flag)
  case (Cons c v)
  have c: "rd s p = Some c" and v: "reads s (Suc p) (v @ w @ [0])" using Cons.prems(1) by simp_all
  have "num_scan s p p 10 0 flag = num_scan s (Suc p) (Suc p) 10 0 (if c = ch_minus then 2 else 1)"
    using Cons.prems(2) c by (subst num_scan.simps) (auto simp: is_sign_def Let_def)
  also have "\<dots> = num_scan s (Suc p + length v) (Suc p + length v) 10 0 (if v = [] then if c = ch_minus then 2 else 1 else sign_flag v)"
    using Cons.IH [OF v] Cons.prems(2) by simp
  finally show ?case by (simp add: sign_flag_def)
qed simp

text \<open>Behind the signs; \<open>d\<close> is the first character there.\<close>

lemma scan_body:
  assumes "reads s p (w @ [0])" "0 \<notin> set w" "rd s str = Some d" "\<not> is_sign d \<or> i \<noteq> 0" "\<not> is_sign d" "i + length w < 256"
  shows "num_scan s p str hexdec (of_nat i) flag =
    Some (if body_ok i w then Inr (str, if letters w then 16 else hexdec, of_nat (i + length w), flag) else Inl 1)"
  using assms
proof (induction w arbitrary: p i hexdec)
  case Nil
  then show ?case by (subst num_scan.simps) (simp add: letters_def is_sign_def)
next
  case (Cons c w)
  have c: "rd s p = Some c" "c \<noteq> 0" and w: "reads s (Suc p) (w @ [0])" using Cons.prems(1,2) by auto
  have i: "(of_nat i = (1::u8)) \<longleftrightarrow> i = 1"
    using Cons.prems(6) unat_of_nat_u8 [of i] by (auto simp: word_unat_eq_iff)
  have d: "d \<noteq> ch_minus" "d \<noteq> ch_plus" using Cons.prems(5) by (simp_all add: is_sign_def)
  let ?ok = "is_digit c \<or> (c \<le> ch_F \<and> c \<ge> ch_A) \<or> (c = ch_X \<and> i = 1)"
  show ?case
  proof (cases ?ok)
    case True
    then have "num_scan s p str hexdec (of_nat i) flag =
        num_scan s (Suc p) str (if c \<ge> ch_A then 16 else hexdec) (of_nat (Suc i)) flag"
      using c(1) Cons.prems(3) d i by (subst num_scan.simps) (auto simp: is_digit_def Let_def add.commute)
    also have "\<dots> = Some (if body_ok (Suc i) w
        then Inr (str, if letters w then 16 else if c \<ge> ch_A then 16 else hexdec, of_nat (Suc i + length w), flag) else Inl 1)"
      by (rule Cons.IH [OF w]) (use Cons.prems in auto)
    finally show ?thesis using True by (simp add: letters_def)
  next
    case False
    then show ?thesis using c Cons.prems(3) d i by (subst num_scan.simps) (auto simp: is_digit_def)
  qed
qed

text \<open>A string without letters that is accepted is all digits, and the other way round behind the prefix.\<close>

lemma usmart_str2num_eq:
  assumes r: "reads s k (w @ [0])" and z: "0 \<notin> set w" and len: "length w < 256"
  shows "usmart_str2num s k = Some (num_spec w)"
proof -
  define v where "v = takeWhile is_sign w"
  define b where "b = dropWhile is_sign w"
  define p where "p = k + length v"
  have w: "w = v @ b" by (simp add: v_def b_def)
  have rb: "reads s p (b @ [0])" and zb: "0 \<notin> set b" and lb: "length b < 256" and rv: "reads s k (v @ b @ [0])"
    using r z len by (simp_all add: w p_def)
  obtain d where d: "rd s p = Some d" "\<not> is_sign d"
  proof (cases b)
    case Nil
    then show ?thesis using rb by (intro that [of 0]) (simp_all add: is_sign_def)
  next
    case (Cons c b')
    then have "\<not> is_sign c" using hd_dropWhile [of is_sign w] by (simp add: b_def [symmetric])
    then show ?thesis using rb Cons by (intro that [of c]) simp_all
  qed
  have sg: "\<forall>c \<in> set v. is_sign c" unfolding v_def using set_takeWhileD by metis
  have fl: "(if v = [] then 0 else sign_flag v) = sign_flag v" by (simp add: sign_flag_def)
  have "num_scan s k k 10 0 0 = num_scan s p p 10 0 (sign_flag v)"
    using scan_signs [OF rv sg, of 0] unfolding fl p_def [symmetric] .
  also have "\<dots> = Some (if body_ok 0 b then Inr (p, if letters b then 16 else 10, of_nat (length b), sign_flag v) else Inl 1)"
    using scan_body [OF rb zb d(1) _ d(2), of 0] d(2) lb by simp
  finally have sc: "num_scan s k k 10 0 0 = \<dots>" .
  have small: "(of_nat (length b) < (3::u8)) \<longleftrightarrow> length b < 3" "(of_nat (length b) = (0::u8)) \<longleftrightarrow> b = []"
    using unat_of_nat_u8 [OF lb] by (simp_all add: word_less_nat_alt word_unat_eq_iff)
  show ?thesis
  proof (cases "body_ok 0 b \<and> letters b \<and> \<not> length b < 3")
    case False
    have "num_value s p 10 (of_nat (length b)) 0 = Some (digits_value 10 b)" if "b \<noteq> []"
      using num_value_eq [OF rb zb that lb refl, of 10 0] by simp
    then show ?thesis
      using False by (auto simp: usmart_str2num_def sc small num_spec_def body_spec_def simp flip: v_def b_def)
  next
    case True
    then obtain c x b' where b: "b = c # x # b'" "b' \<noteq> []" by (cases b; cases "tl b"; cases "tl (tl b)") auto
    have rs: "rd s p = Some c" "rd s (Suc p) = Some x" "reads s (Suc (Suc p)) (b' @ [0])" using rb b by simp_all
    have "num_value s (Suc (Suc p)) 16 (of_nat (length b) - 2) 0 = Some (digits_value 16 b')"
      using num_value_eq [OF rs(3) _ b(2), of "of_nat (length b) - 2" 16 0] zb lb b by simp
    moreover have "\<not> of_nat (length b) < (3::u8)" using True small(1) by simp
    ultimately show ?thesis
      using True rs b by (auto simp: usmart_str2num_def sc num_spec_def body_spec_def simp flip: v_def b_def)
  qed
qed

subsection \<open>Printed numbers\<close>

fun dec :: "nat \<Rightarrow> u8 list" where
  "dec n = (if n < 10 then [ch_0 + of_nat n] else dec (n div 10) @ [ch_0 + of_nat (n mod 10)])"

declare dec.simps [simp del]

lemma digit_char:
  assumes "n < 10"
  shows "is_digit (ch_0 + of_nat n)" "dig (ch_0 + of_nat n) = of_nat n"
proof -
  have "n = 0 \<or> n = 1 \<or> n = 2 \<or> n = 3 \<or> n = 4 \<or> n = 5 \<or> n = 6 \<or> n = 7 \<or> n = 8 \<or> n = 9" using assms by arith
  then show "is_digit (ch_0 + of_nat n)" "dig (ch_0 + of_nat n) = of_nat n"
    by (elim disjE; simp add: is_digit_def dig_def)+
qed

lemma digits_value_snoc: "digits_value b (w @ [c]) = digits_value b w * b + dig c"
  by (induction w) (simp_all add: algebra_simps)

lemma dec_digits: "\<forall>c \<in> set (dec n). is_digit c" "dec n \<noteq> []"
  by (induction n rule: dec.induct) (subst dec.simps, simp add: digit_char)+

lemma dec_value: "digits_value 10 (dec n) = of_nat n"
proof (induction n rule: dec.induct)
  case (1 n)
  show ?case
  proof (cases "n < 10")
    case True
    then show ?thesis by (subst dec.simps) (simp add: digit_char)
  next
    case False
    then have "digits_value 10 (dec n) = of_nat (n div 10) * 10 + of_nat (n mod 10)"
      using 1 by (subst dec.simps) (simp add: digits_value_snoc digit_char)
    also have "\<dots> = of_nat (n div 10 * 10 + n mod 10)" by (simp only: of_nat_add of_nat_mult of_nat_numeral)
    finally show ?thesis by simp
  qed
qed

lemma dec_length: "n < 10 ^ Suc k \<Longrightarrow> length (dec n) \<le> Suc k"
proof (induction n arbitrary: k rule: dec.induct)
  case (1 n)
  show ?case
  proof (cases "n < 10")
    case False
    then obtain j where "k = Suc j" using 1(2) by (cases k) auto
    moreover from this have "n div 10 < 10 ^ Suc j" using 1(2) by (simp add: less_mult_imp_div_less)
    ultimately show ?thesis using False 1(1) [of j] by (subst dec.simps) simp
  qed (subst dec.simps, simp)
qed

lemma body_digits: "\<forall>c \<in> set w. is_digit c \<Longrightarrow> body_ok i w" "\<forall>c \<in> set w. is_digit c \<Longrightarrow> \<not> letters w"
proof -
  have "\<not> is_digit c" if "c \<ge> ch_A" for c
    using that by (simp add: is_digit_def word_le_nat_alt)
  then show "\<forall>c \<in> set w. is_digit c \<Longrightarrow> \<not> letters w" by (auto simp: letters_def)
qed (induction w arbitrary: i; simp)

lemma num_spec_dec: "num_spec (dec n) = (0, of_nat n)"
proof -
  have "\<not> is_sign c" if "is_digit c" for c using that by (auto simp: is_sign_def is_digit_def word_le_nat_alt)
  then have "takeWhile is_sign (dec n) = []" "dropWhile is_sign (dec n) = dec n"
    using dec_digits [of n] by (cases "dec n"; simp)+
  then show ?thesis
    using body_digits [OF dec_digits(1)] dec_digits(2) dec_value by (simp add: num_spec_def body_spec_def sign_flag_def num_signed_def)
qed

section \<open>Parameters\<close>

text \<open>The parser of parameters turns small letters into capitals.\<close>

definition up :: "u8 \<Rightarrow> u8" where
  "up c = (if c \<ge> ch_a then c - 0x20 else c)"

lemma num_char_neq: "num_char c \<Longrightarrow> c \<noteq> 0 \<and> c \<noteq> ch_comma \<and> c \<noteq> ch_close \<and> c \<noteq> ch_quote \<and> c \<noteq> ch_space \<and> up c \<noteq> 0"
proof -
  assume "num_char c"
  then have "c \<noteq> 0 \<and> c \<noteq> ch_comma \<and> c \<noteq> ch_close \<and> c \<noteq> ch_quote \<and> c \<noteq> ch_space"
    by (auto simp: num_char_def word_le_nat_alt)
  moreover from this have "up c \<noteq> 0" by (simp add: up_def right_minus_eq)
  ultimately show ?thesis by blast
qed

lemma aparm_chars:
  assumes "reads s k w" "\<forall>c \<in> set w. num_char c" "ptype st = 0" "\<not> in_string st" "\<not> enout st"
    "fparm st = f @ g" "fparm_len st = length f" "length w \<le> length g"
  shows "aparm_loop s k st = aparm_loop s (k + length w)
    (st\<lparr>offs := offs st + of_nat (length w), fparm := f @ map up w @ drop (length w) g, fparm_len := length f + length w\<rparr>)"
  using assms
proof (induction w arbitrary: k st f g)
  case (Cons c w)
  then obtain x g' where g: "g = x # g'" by (cases g) auto
  have c: "rd s k = Some c" "num_char c" and w: "reads s (Suc k) w" using Cons.prems(1,2) by simp_all
  let ?st = "st\<lparr>fparm := (f @ [up c]) @ g', fparm_len := Suc (length f), offs := offs st + 1\<rparr>"
  have put: "put_parm (up c) st = Some (st\<lparr>fparm := (f @ [up c]) @ g', fparm_len := Suc (length f)\<rparr>)"
    using Cons.prems(6,7) g by (simp add: put_parm_def wr_def list_update_append)
  have "aparm_loop s k st = aparm_loop s (Suc k) ?st"
    using c num_char_neq [OF c(2)] Cons.prems(3-5) put by (subst aparm_loop.simps) (simp add: Let_def aparm_num_def flip: up_def)
  also have "\<dots> = aparm_loop s (Suc k + length w)
      (?st\<lparr>offs := offs ?st + of_nat (length w), fparm := (f @ [up c]) @ map up w @ drop (length w) g', fparm_len := length (f @ [up c]) + length w\<rparr>)"
    by (rule Cons.IH [OF w]) (use Cons.prems g in auto)
  finally show ?case using g by (simp add: algebra_simps)
next
  case Nil
  have "st = st\<lparr>offs := offs st, fparm := f @ g, fparm_len := length f\<rparr>" using Nil(6,7) by (cases st) simp
  then show ?case by simp
qed

lemma get_aparm_num:
  assumes r: "reads s k (w @ e)" and w: "\<forall>c \<in> set w. num_char c" "length w < length buf"
    and e: "e = [ch_close] \<or> (\<exists>x. e = [ch_comma, x] \<and> num_char x)"
  shows "usmart_get_aparm s k buf = Some (of_nat (length w + length e - 1), map up w @ 0 # drop (Suc (length w)) buf, 0)"
proof -
  let ?init = "\<lparr>offs = 0, enout = False, ptype = 0, in_string = False, fparm = buf, fparm_len = 0\<rparr>"
  let ?b = "map up w @ drop (length w) buf"
  let ?st = "\<lparr>offs = of_nat (length w), enout = False, ptype = 0, in_string = False, fparm = ?b, fparm_len = length w\<rparr>"
  have rw: "reads s k w" and re: "reads s (k + length w) e" using r by simp_all
  have "aparm_loop s k ?init = aparm_loop s (k + length w) ?st"
    using aparm_chars [OF rw w(1), of ?init "[]" buf] w(2) by simp
  moreover have "\<exists>b. aparm_loop s (k + length w) ?st = Some (?st\<lparr>offs := of_nat (length w + length e - 1), enout := b\<rparr>)"
    using e
  proof
    assume "e = [ch_close]"
    then show ?thesis using re by (intro exI [of _ False]) (subst aparm_loop.simps, simp)
  next
    assume "\<exists>x. e = [ch_comma, x] \<and> num_char x"
    then obtain x where x: "e = [ch_comma, x]" "num_char x" by blast
    then have rx: "rd s (k + length w) = Some ch_comma" "rd s (Suc (k + length w)) = Some x" using re by simp_all
    have nc: "\<not> num_char ch_comma" by (simp add: num_char_def)
    let ?nxt = "?st\<lparr>enout := True, offs := of_nat (length w) + 1\<rparr>"
    have "aparm_loop s (k + length w) ?st = aparm_loop s (Suc (k + length w)) ?nxt"
      using rx nc by (subst aparm_loop.simps) (simp add: Let_def aparm_num_def)
    also have "\<dots> = Some ?nxt"
      using rx(2) num_char_neq [OF x(2)] x(2) by (subst aparm_loop.simps) (simp add: Let_def aparm_num_def)
    finally show ?thesis using x(1) by (intro exI [of _ True]) (simp add: add.commute)
  qed
  ultimately obtain b where "aparm_loop s k ?init = Some (?st\<lparr>offs := of_nat (length w + length e - 1), enout := b\<rparr>)" by auto
  moreover have "wr (length w) 0 ?b = Some (map up w @ 0 # drop (Suc (length w)) buf)"
    using w(2) update_end [of "map up w" buf 0] by (simp add: wr_def)
  ultimately show ?thesis by (simp add: usmart_get_aparm_def)
qed

subsection \<open>Storing numbers\<close>

lemma word_of_bytes:
  fixes v :: u32
  shows "ucast (ucast v :: u8) OR push_bit 8 (ucast (ucast (drop_bit 8 v) :: u8)) OR push_bit 16 (ucast (ucast (drop_bit 16 v) :: u8))
    OR push_bit 24 (ucast (ucast (drop_bit 24 v) :: u8)) = v"
proof (rule bit_word_eqI)
  fix n assume "n < LENGTH(32)"
  then have "n < 8 \<or> (8 \<le> n \<and> n < 16) \<or> (16 \<le> n \<and> n < 24) \<or> (24 \<le> n \<and> n < 32)" by auto
  then show "bit (ucast (ucast v :: u8) OR push_bit 8 (ucast (ucast (drop_bit 8 v) :: u8)) OR push_bit 16 (ucast (ucast (drop_bit 16 v) :: u8))
    OR push_bit 24 (ucast (ucast (drop_bit 24 v) :: u8)) :: u32) n \<longleftrightarrow> bit v n"
    by (elim disjE; simp add: bit_or_iff bit_push_bit_iff bit_ucast_iff bit_drop_bit_eq; auto dest: bit_imp_le_length)
qed

lemma put32_ok:
  assumes "k + 4 \<le> length s"
  shows "\<exists>s'. put32 k v s = Some s' \<and> length s' = length s \<and> get32 k s' = Some v \<and>
    (\<forall>j. j + 4 \<le> k \<longrightarrow> get32 j s' = get32 j s)"
proof -
  let ?s = "s[k := ucast v, k + 1 := ucast (drop_bit 8 v), k + 2 := ucast (drop_bit 16 v), k + 3 := ucast (drop_bit 24 v)]"
  have "put32 k v s = Some ?s" using assms by (simp add: put32_def wr_def)
  moreover have "get32 k ?s = Some v" using assms by (simp add: get32_def rd_def word_of_bytes)
  moreover have "get32 j ?s = get32 j s" if "j + 4 \<le> k" for j using that by (simp add: get32_def rd_def)
  ultimately show ?thesis by (intro exI [of _ ?s]) simp
qed

text \<open>The parameters \<open>vs\<close> are stored, all of them numbers.\<close>

definition stored :: "usmart_dev \<Rightarrow> u32 list \<Rightarrow> bool" where
  "stored d vs \<longleftrightarrow> length vs \<le> 10 \<and> plentbl d = replicate (length vs) 4 @ replicate (10 - length vs) 0 \<and> length (parm d) = PARM_LEN \<and>
     (\<forall>i < length vs. get32 (4 * i) (parm d) = Some (vs ! i) \<and> \<not> bit (parmtype d) i)"

lemma parmpos_fours:
  assumes "stored d vs" "n \<le> length vs"
  shows "usmart_get_parmpos (of_nat n) d = Some (of_nat (4 * n))"
proof -
  have "parmpos_loop (of_nat i) (of_nat n) (of_nat (4 * i)) d = Some (of_nat (4 * n))" if "i \<le> n" for i
    using that
  proof (induction "n - i" arbitrary: i)
    case 0
    then show ?case by (subst parmpos_loop.simps) simp
  next
    case (Suc m)
    then have i: "i < n" "i < 10" "n \<le> 10" using assms by (auto simp: stored_def)
    have "rd (plentbl d) (unat (of_nat i :: u8)) = Some 4"
      using i assms by (simp add: rd_def stored_def unat_of_nat_u8 nth_append)
    moreover have "(of_nat i :: u8) < of_nat n" using i by (simp only: word_less_nat_alt unat_of_nat_u8)
    ultimately have "parmpos_loop (of_nat i) (of_nat n) (of_nat (4 * i)) d = parmpos_loop (of_nat (Suc i)) (of_nat n) (of_nat (4 * Suc i)) d"
      by (subst parmpos_loop.simps) (simp add: algebra_simps)
    then show ?case using Suc(1) [of "Suc i"] Suc(2) i by simp
  qed
  from this [of 0] show ?thesis by (simp add: usmart_get_parmpos_def)
qed

text \<open>What storing a parameter leaves alone.\<close>

definition dev_rest :: "usmart_dev \<Rightarrow> usmart_dev" where
  "dev_rest d = d\<lparr>plentbl := [], parm := [], parmtype := 0\<rparr>"

lemma store_num_ok:
  assumes st: "stored d vs" and n: "length vs < 10"
  shows "\<exists>d'. store_num (of_nat (length vs)) v d = Some d' \<and> stored d' (vs @ [v]) \<and> dev_rest d' = dev_rest d"
proof -
  let ?n = "length vs"
  have pos: "usmart_get_parmpos (of_nat ?n) d = Some (of_nat (4 * ?n))" by (rule parmpos_fours [OF st]) simp
  have un: "unat (of_nat ?n :: u8) = ?n" "unat (of_nat (4 * ?n) :: u8) = 4 * ?n"
    using n by (simp_all only: unat_of_nat_u8)
  obtain m where m: "put32 (4 * ?n) v (parm d) = Some m" "length m = length (parm d)" "get32 (4 * ?n) m = Some v"
    "\<forall>j. j + 4 \<le> 4 * ?n \<longrightarrow> get32 j m = get32 j (parm d)"
    using put32_ok [of "4 * ?n" "parm d" v] st n by (auto simp: stored_def)
  let ?l = "replicate (Suc ?n) 4 @ replicate (10 - Suc ?n) 0"
  have l: "wr ?n 4 (plentbl d) = Some ?l"
  proof -
    have "10 - ?n = Suc (10 - Suc ?n)" using n by arith
    then show ?thesis using st n by (simp add: wr_def stored_def list_update_append replicate_append_same)
  qed
  let ?d = "d\<lparr>parm := m, parmtype := parmtype d AND NOT (push_bit ?n 1), plentbl := ?l\<rparr>"
  have "store_num (of_nat ?n) v d = Some ?d"
    using pos m(1) l un(2) by (simp add: store_num_def un(1))
  moreover have "stored ?d (vs @ [v])"
  proof -
    have bits: "\<not> bit (parmtype ?d) i" if "i < Suc ?n" for i
      using that st n by (cases "i = ?n") (auto simp: stored_def bit_and_iff bit_not_iff bit_exp_iff possible_bit_def)
    have "get32 (4 * i) m = Some ((vs @ [v]) ! i)" if "i < Suc ?n" for i
      using that st m(3,4) by (cases "i = ?n") (auto simp: stored_def nth_append)
    then show ?thesis using st n m(2) bits by (simp add: stored_def)
  qed
  ultimately show ?thesis by (intro exI [of _ ?d]) (simp add: dev_rest_def)
qed

lemma store_num_full:
  assumes "stored d vs" "length vs = 10"
  shows "store_num (of_nat (length vs)) v d = None"
proof -
  have pos: "usmart_get_parmpos 10 d = Some 40" using parmpos_fours [OF assms(1), of 10] assms(2) by simp
  have "length (plentbl d) = 10" using assms by (simp add: stored_def)
  then show ?thesis using pos assms(2) by (simp add: store_num_def wr_def)
qed

subsection \<open>A list of numbers\<close>

text \<open>A numeral as it may be written, and its value; a list of them with commas up to the bracket.\<close>

definition numeral_text :: "u8 list \<Rightarrow> bool" where
  "numeral_text w \<longleftrightarrow> w \<noteq> [] \<and> (\<forall>c \<in> set w. num_char c) \<and> length w < 200 \<and> fst (num_spec (map up w)) = 0"

definition text_value :: "u8 list \<Rightarrow> u32" where
  "text_value w = snd (num_spec (map up w))"

fun parm_text :: "u8 list list \<Rightarrow> u8 list" where
  "parm_text [] = [ch_close]"
| "parm_text [w] = w @ [ch_close]"
| "parm_text (w # ws) = w @ ch_comma # parm_text ws"

lemma parm_text_cut:
  assumes "numeral_text w" "\<forall>w \<in> set ws. numeral_text w"
  shows "\<exists>e r. parm_text (w # ws) = w @ e @ r \<and> (if ws = [] then e = [ch_close] \<and> r = []
    else \<exists>x. e = [ch_comma, x] \<and> num_char x \<and> parm_text ws = x # r)"
proof (cases ws)
  case (Cons v vs)
  then obtain x v' where v: "v = x # v'" "num_char x" using assms(2) by (cases v) (auto simp: numeral_text_def)
  obtain r where "parm_text (v # vs) = v @ r" by (cases vs) auto
  then show ?thesis using Cons v by (intro exI [of _ "[ch_comma, x]"] exI [of _ "v' @ r"]) simp
qed simp

lemma fparam_step_num:
  assumes w: "numeral_text w" and b: "tstr = map up w @ 0 # g"
  shows "fparam_step 0 tstr n d = do {
    d' \<leftarrow> store_num n (text_value w) d; Some (if n + 1 > MAX_PARM then Inl USMART_PARMOVER else Inr (n + 1), d') }"
proof -
  obtain c w' where c: "w = c # w'" "num_char c" using w by (cases w) (auto simp: numeral_text_def)
  have z: "0 \<notin> set (map up w)" using w num_char_neq by (auto simp: numeral_text_def)
  have "reads tstr 0 (map up w @ [0])" unfolding b by (auto simp: reads_def rd_def nth_append)
  from usmart_str2num_eq [OF this z] have "usmart_str2num tstr 0 = Some (num_spec (map up w))"
    using w by (simp add: numeral_text_def)
  moreover have "rd tstr 0 = Some (up c)" using b c(1) by (simp add: rd_def)
  ultimately show ?thesis
    using w num_char_neq [OF c(2)] by (simp add: fparam_step_def numeral_text_def text_value_def)
qed

lemma fparam_loop_one:
  assumes w: "numeral_text w" and ws: "\<forall>w \<in> set ws. numeral_text w" and r: "reads s k (parm_text (w # ws))"
    and buf: "length tstr = 201" and st: "stored d vs"
  shows "length vs = 10 \<Longrightarrow> fparam_loop s k tstr (of_nat (length vs)) d = None"
    and "length vs < 10 \<Longrightarrow> \<exists>k' tstr' d'. length tstr' = 201 \<and> stored d' (vs @ [text_value w]) \<and> dev_rest d' = dev_rest d \<and>
      (ws \<noteq> [] \<longrightarrow> reads s k' (parm_text ws)) \<and> fparam_loop s k tstr (of_nat (length vs)) d =
      (if ws = [] then Some (Inr (of_nat (Suc (length vs))), d') else fparam_loop s k' tstr' (of_nat (Suc (length vs))) d')"
proof -
  obtain e q where e: "parm_text (w # ws) = w @ e @ q" "if ws = [] then e = [ch_close] \<and> q = []
      else \<exists>x. e = [ch_comma, x] \<and> num_char x \<and> parm_text ws = x # q"
    using parm_text_cut [OF w ws] by blast
  have re: "reads s k (w @ e)" using r e(1) by simp
  have lw: "length w < length tstr" "\<forall>c \<in> set w. num_char c" using w buf by (simp_all add: numeral_text_def)
  have ee: "e = [ch_close] \<or> (\<exists>x. e = [ch_comma, x] \<and> num_char x)" using e(2) by (auto split: if_splits)
  define tstr' where "tstr' = map up w @ 0 # drop (Suc (length w)) tstr"
  have lt: "length tstr' = 201" using buf lw(1) by (simp add: tstr'_def)
  define off where "off = length w + length e - 1"
  have ga: "usmart_get_aparm s k tstr = Some (of_nat off, tstr', 0)"
    unfolding tstr'_def off_def by (rule get_aparm_num [OF re lw(2,1) ee])
  define k' where "k' = k + off"
  have un: "unat (of_nat off :: u8) = off"
    using w ee by (subst unat_of_nat_u8) (auto simp: numeral_text_def off_def)
  note step = fparam_step_num [OF w tstr'_def]
  have loop: "fparam_loop s k tstr n d = do {
     d' \<leftarrow> store_num n (text_value w) d;
     if n + 1 > MAX_PARM then Some (Inl USMART_PARMOVER, d')
     else do { c \<leftarrow> rd s k'; if c = ch_close \<or> c = 0 then Some (Inr (n + 1), d') else fparam_loop s k' tstr' (n + 1) d' } }" for n
    by (subst fparam_loop.simps) (simp add: ga step un Let_def k'_def cong: if_cong)
  show "fparam_loop s k tstr (of_nat (length vs)) d = None" if "length vs = 10"
    using store_num_full [OF st that] by (simp add: loop)
  show "\<exists>k' tstr' d'. length tstr' = 201 \<and> stored d' (vs @ [text_value w]) \<and> dev_rest d' = dev_rest d \<and>
      (ws \<noteq> [] \<longrightarrow> reads s k' (parm_text ws)) \<and> fparam_loop s k tstr (of_nat (length vs)) d =
      (if ws = [] then Some (Inr (of_nat (Suc (length vs))), d') else fparam_loop s k' tstr' (of_nat (Suc (length vs))) d')"
    if n: "length vs < 10"
  proof -
    obtain d' where d': "store_num (of_nat (length vs)) (text_value w) d = Some d'" "stored d' (vs @ [text_value w])" "dev_rest d' = dev_rest d"
      using store_num_ok [OF st n] by blast
    have "unat (of_nat (Suc (length vs)) :: u8) = Suc (length vs)" using n by (simp only: unat_of_nat_u8)
    then have le: "\<not> (of_nat (Suc (length vs)) :: u8) > MAX_PARM" using n by (simp only: word_less_nat_alt) simp
    have rk: "if ws = [] then rd s k' = Some ch_close else reads s k' (parm_text ws) \<and> (\<exists>x. rd s k' = Some x \<and> num_char x)"
      using r e by (auto simp: k'_def off_def split: if_splits)
    have "fparam_loop s k tstr (of_nat (length vs)) d =
      (if ws = [] then Some (Inr (of_nat (Suc (length vs))), d') else fparam_loop s k' tstr' (of_nat (Suc (length vs))) d')"
    proof (cases "ws = []")
      case True
      then show ?thesis using rk le by (subst loop) (simp add: d'(1) add.commute)
    next
      case False
      then obtain x where "rd s k' = Some x" "num_char x" using rk by auto
      then show ?thesis using False le num_char_neq [of x] by (subst loop) (simp add: d'(1) add.commute)
    qed
    then show ?thesis using lt d'(2,3) rk by (intro exI [of _ k'] exI [of _ tstr'] exI [of _ d']) (auto split: if_splits)
  qed
qed

lemma fparam_loop_ok:
  assumes "ws \<noteq> []" "\<forall>w \<in> set ws. numeral_text w" "reads s k (parm_text ws)" "length tstr = 201" "stored d vs"
  shows "if length vs + length ws \<le> 10
    then \<exists>d'. fparam_loop s k tstr (of_nat (length vs)) d = Some (Inr (of_nat (length vs + length ws)), d') \<and>
      stored d' (vs @ map text_value ws) \<and> dev_rest d' = dev_rest d
    else fparam_loop s k tstr (of_nat (length vs)) d = None"
  using assms
proof (induction ws arbitrary: k tstr d vs)
  case (Cons w ws)
  have w: "numeral_text w" "\<forall>w \<in> set ws. numeral_text w" using Cons.prems(2) by simp_all
  note one = fparam_loop_one [OF w Cons.prems(3-5)]
  have le: "length vs \<le> 10" using Cons.prems(5) by (simp add: stored_def)
  show ?case
  proof (cases "length vs = 10")
    case True
    then show ?thesis using one(1) by simp
  next
    case False
    then obtain k' tstr' d' where d': "length tstr' = 201" "stored d' (vs @ [text_value w])" "dev_rest d' = dev_rest d"
      "ws \<noteq> [] \<longrightarrow> reads s k' (parm_text ws)" "fparam_loop s k tstr (of_nat (length vs)) d =
      (if ws = [] then Some (Inr (of_nat (Suc (length vs))), d') else fparam_loop s k' tstr' (of_nat (Suc (length vs))) d')"
      using one(2) le by auto
    show ?thesis
    proof (cases "ws = []")
      case True
      then show ?thesis using d' le False by simp
    next
      case ne: False
      then have "reads s k' (parm_text ws)" using d'(4) by simp
      from Cons.IH [OF ne w(2) this d'(1,2)] show ?thesis using d'(3,5) ne by (simp split: if_splits)
    qed
  qed
qed simp

text \<open>The decimal text of a number is worth the number.\<close>

lemma dec_text: "numeral_text (dec (unat v))" "text_value (dec (unat v)) = v"
proof -
  have "map up (dec n) = dec n" for n
  proof (rule map_idI)
    fix c assume "c \<in> set (dec n)"
    then show "up c = c" using dec_digits(1) [of n] by (auto simp: up_def is_digit_def word_le_nat_alt)
  qed
  moreover have "num_char c" if "is_digit c" for c using that by (simp add: num_char_def is_digit_def)
  moreover have "unat v < 10 ^ Suc 9" using unsigned_less [of v, where ?'a = nat] by simp
  then have "length (dec (unat v)) \<le> Suc 9" by (rule dec_length)
  ultimately show "numeral_text (dec (unat v))" "text_value (dec (unat v)) = v"
    using dec_digits [of "unat v"] by (simp_all add: numeral_text_def text_value_def num_spec_dec)
qed

subsection \<open>The call\<close>

lemma find_open_ok:
  assumes "reads s k (nm @ [ch_open])" "ch_open \<notin> set nm" "0 \<notin> set nm"
  shows "find_open s k = Some (Some (Suc (k + length nm)))"
  using assms
proof (induction nm arbitrary: k)
  case (Cons c nm)
  have c: "rd s k = Some c" "c \<noteq> ch_open" and nm: "reads s (Suc k) (nm @ [ch_open])" using Cons.prems by auto
  obtain x where "rd s (Suc k) = Some x" "x \<noteq> 0" using nm Cons.prems(3) by (cases nm) auto
  then show ?case using c Cons.IH [OF nm] Cons.prems(2,3) by (subst find_open.simps) simp
qed (subst find_open.simps, simp)

lemma exe_args_stored:
  assumes st: "stored d vs" and m: "m \<le> length vs"
  shows "exe_args 0 (of_nat m) d = Some (map ANum (take m vs), map (print_num d) (take m vs))"
proof -
  have le: "length vs \<le> 10" using st by (simp add: stored_def)
  let ?vs = "take m vs"
  have lm: "length ?vs = m" using m by simp
  have "exe_args (of_nat i) (of_nat m) d = Some (map ANum (drop i ?vs), map (print_num d) (drop i ?vs))" if "i \<le> m" for i
    using that
  proof (induction "m - i" arbitrary: i)
    case 0
    then show ?case by (subst exe_args.simps) simp
  next
    case (Suc k)
    then have i: "i < m" "i < 10" "m \<le> 10" using le m by auto
    have w: "(of_nat i :: u8) < of_nat m" "(of_nat i :: u8) < MAX_PARM" "unat (of_nat i :: u8) = i"
      using i by (simp_all only: word_less_nat_alt unat_of_nat_u8) simp_all
    have un: "unat (of_nat (4 * i) :: u8) = 4 * i" using i by (simp only: unat_of_nat_u8)
    have pos: "usmart_get_parmpos (of_nat i) d = Some (of_nat (4 * i))" by (rule parmpos_fours [OF st]) (use i m in simp)
    have "\<not> bit (parmtype d) i" and v: "get32 (4 * i) (parm d) = Some (?vs ! i)" using st i(1) m by (simp_all add: stored_def)
    then have num: "parmtype d AND push_bit i 1 = 0" by (intro bit_word_eqI) (auto simp: bit_and_iff bit_exp_iff)
    have "exe_args (of_nat i) (of_nat m) d =
      do { r \<leftarrow> exe_args (of_nat (Suc i)) (of_nat m) d; Some (ANum (?vs ! i) # fst r, print_num d (?vs ! i) # snd r) }"
      using w num v pos un by (subst exe_args.simps) (simp add: add.commute)
    also have "exe_args (of_nat (Suc i)) (of_nat m) d = Some (map ANum (drop (Suc i) ?vs), map (print_num d) (drop (Suc i) ?vs))"
      using Suc(1) [of "Suc i"] Suc(2) i by simp
    finally show ?case using i(1) lm Cons_nth_drop_Suc [of i ?vs, symmetric] by simp
  qed
  from this [of 0] show ?thesis by simp
qed

text \<open>The index that is found is in the table.\<close>

lemma find_fun_index: "find_fun i rf rp sf rv d = Some (Inr j) \<Longrightarrow> j < fnum d \<and> unat j < length (funs d)"
proof (induction i rf rp sf rv d rule: find_fun.induct)
  case (1 i rf rp sf rv d)
  show ?case
    using 1(2) by (subst (asm) find_fun.simps) (auto simp: bind_Some_iff split: if_splits dest: 1(1))
qed

text \<open>A device after the parameters are stored, and what the call makes of it.\<close>

lemma usmart_exe_stored:
  assumes st: "stored d vs" and i: "dev_id d < fnum d" "unat (dev_id d) < length (funs d)" and pn: "pnum d = of_nat (length vs)"
    and f: "usmart_get_fname (fun_name (funs d ! unat (dev_id d))) 0 (replicate MAX_FNAME_LEN 0) 0 = Some (r, name, of_nat m, rval)"
    and m: "m \<le> length vs"
  shows "let res = call (func (funs d ! unat (dev_id d))) (map ANum (take m vs) @ replicate (length vs - m) AUninit);
      t = (if ovf then 0xFFFF else 0) + ucast cnt in
    usmart_exe call junk ovf cnt d = Some (PText name # map (print_num d) (take m vs)
      @ (if rval = 1 then [if sptype d = SP_TYPE_DEC then PUns res else PHex res] else [])
      @ (if runtimeflag d \<noteq> 0 then [PTime t] else []), d\<lparr>runtime := t\<rparr>)"
proof -
  have le: "length vs \<le> 10" using st by (simp add: stored_def)
  then have n: "unat (of_nat (length vs) :: u8) = length vs" "(of_nat (length vs) :: u8) \<le> MAX_PARM"
    by (simp_all only: unat_of_nat_u8 word_le_nat_alt) simp
  have "length vs - m \<le> 10" using le by simp
  then have "take (length vs) ((map ANum (take m vs)) @ replicate 10 AUninit) = map ANum (take m vs) @ replicate (length vs - m) AUninit"
    using m by (simp add: min_def)
  then have call: "call_fun call junk g (pnum d) (map ANum (take m vs)) = call g (map ANum (take m vs) @ replicate (length vs - m) AUninit)" for g
    using n pn by (simp add: call_fun_def)
  show ?thesis
    unfolding Let_def
    using i f exe_args_stored [OF st m] by (simp add: usmart_exe_def call usmart_reset_runtime_def usmart_get_runtime_def Let_def not_le)
qed

lemma stored_pnum: "stored (d\<lparr>pnum := n\<rparr>) vs = stored d vs"
  by (simp add: stored_def)


lemma dev_rest_upd: "dev_rest (d\<lparr>pnum := a, runtime := b\<rparr>) = (dev_rest d)\<lparr>pnum := a, runtime := b\<rparr>"
  by (simp add: dev_rest_def)

text \<open>What the call prints: the name, the parameters, the result if there is one, and the time if it is asked for.\<close>

definition call_printed :: "usmart_dev \<Rightarrow> u8 list \<Rightarrow> u8 \<Rightarrow> u32 list \<Rightarrow> u32 \<Rightarrow> u32 \<Rightarrow> usmart_out list" where
  "call_printed d name rval vs res t = PText name # map (print_num d) vs
     @ (if rval = 1 then [if sptype d = SP_TYPE_DEC then PUns res else PHex res] else [])
     @ (if runtimeflag d \<noteq> 0 then [PTime t] else [])"

lemma get_fparam_ok:
  assumes r: "reads s k (nm @ ch_open # parm_text ws)" and nm: "ch_open \<notin> set nm" "0 \<notin> set nm"
    and ws: "ws \<noteq> []" "\<forall>w \<in> set ws. numeral_text w" and d: "length (parm d) = PARM_LEN"
  shows "if length ws \<le> 10
    then \<exists>d'. usmart_get_fparam s k parn d = Some (USMART_OK, of_nat (length ws), d') \<and> stored d' (map text_value ws) \<and> dev_rest d' = dev_rest d
    else usmart_get_fparam s k parn d = None"
proof -
  let ?d = "d\<lparr>plentbl := replicate 10 0\<rparr>"
  have fo: "find_open s k = Some (Some (Suc (k + length nm)))" using r by (intro find_open_ok nm) simp
  have "reads s (Suc (k + length nm)) (parm_text ws)" "stored ?d []" using r d by (simp_all add: stored_def)
  from fparam_loop_ok [OF ws this(1) _ this(2), of "replicate 201 0"]
  show ?thesis using fo by (auto simp: usmart_get_fparam_def dev_rest_def split: if_splits)
qed

section \<open>The serial line\<close>

fun uart_line :: "u8 list \<Rightarrow> usart \<Rightarrow> usart option" where
  "uart_line [] u = Some u"
| "uart_line (c # cs) u = do { u' \<leftarrow> HAL_UART_RxCpltCallback c u; uart_line cs u' }"

lemma uart_line_append: "uart_line (v @ w) u = do { u' \<leftarrow> uart_line v u; uart_line w u' }"
  by (induction v arbitrary: u) (auto split: bind_splits)

lemma sta_bits:
  assumes "(x::u16) < 200"
  shows "x AND 0x8000 = 0" "x AND 0x4000 = 0" "x AND 0x3FFF = x" "unat x < 200"
    "(x OR 0x4000) AND 0x8000 = 0" "(x OR 0x4000) AND 0x4000 \<noteq> 0" "(x OR 0xC000) AND 0x8000 \<noteq> 0"
    "(x OR 0xC000) AND 0x3FFF = x"
proof -
  have less: "unat x < 200" using assms by (simp add: word_less_nat_alt)
  then have nb: "\<not> bit x n" if "14 \<le> n" for n
  proof -
    have "(2::nat) ^ 14 \<le> 2 ^ n" using that by (rule power_increasing) simp
    then have "unat x < 2 ^ n" using less by simp
    then have "\<not> bit (unat x) n" by (simp add: bit_iff_odd)
    then show ?thesis by (simp add: bit_unsigned_iff)
  qed
  have b: "bit (0x8000 :: u16) n \<longleftrightarrow> n = 15" "bit (0x4000 :: u16) n \<longleftrightarrow> n = 14" "bit (0x3FFF :: u16) n \<longleftrightarrow> n < 14"
    "bit (0xC000 :: u16) n \<longleftrightarrow> n = 14 \<or> n = 15" for n
  proof -
    have "(0x8000 :: u16) = push_bit 15 1" "(0x4000 :: u16) = push_bit 14 1" "(0x3FFF :: u16) = mask 14"
      "(0xC000 :: u16) = push_bit 14 (mask 2)" by (simp_all add: mask_eq_exp_minus_1)
    then show "bit (0x8000 :: u16) n \<longleftrightarrow> n = 15" "bit (0x4000 :: u16) n \<longleftrightarrow> n = 14" "bit (0x3FFF :: u16) n \<longleftrightarrow> n < 14"
      "bit (0xC000 :: u16) n \<longleftrightarrow> n = 14 \<or> n = 15"
      by (auto simp only: bit_push_bit_iff bit_1_iff bit_mask_iff) auto
  qed
  note s = bit_and_iff bit_or_iff b
  have low: "n < 14" if "bit x n" for n using nb [of n] that by (cases "n < 14") simp_all
  show "x AND 0x8000 = 0" "x AND 0x4000 = 0" "x AND 0x3FFF = x" "(x OR 0x4000) AND 0x8000 = 0" "(x OR 0xC000) AND 0x3FFF = x"
    by (rule bit_word_eqI, simp only: s, auto dest: low)+
  have "bit ((x OR 0x4000) AND 0x4000) 14" "bit ((x OR 0xC000) AND 0x8000) 15" by (simp_all only: s) simp_all
  then show "(x OR 0x4000) AND 0x4000 \<noteq> 0" "(x OR 0xC000) AND 0x8000 \<noteq> 0" by auto
  show "unat x < 200" by (rule less)
qed

text \<open>Characters of a line fill the buffer from where the count is.\<close>

lemma uart_chars:
  assumes "0x0D \<notin> set w" "USART_RX_STA u = of_nat n" "n + length w < 200" "USART_RX_BUF u = f @ g" "length f = n" "length (f @ g) = 200"
  shows "uart_line w u = Some (u\<lparr>USART_RX_BUF := f @ w @ drop (length w) g, USART_RX_STA := of_nat (n + length w)\<rparr>)"
  using assms
proof (induction w arbitrary: u n f g)
  case Nil
  then show ?case by (cases u) simp
next
  case (Cons c w)
  then obtain x g' where g: "g = x # g'" by (cases g) auto
  have un: "unat (of_nat n :: u16) = n" "unat (of_nat (Suc n) :: u16) = Suc n"
    using Cons.prems(3) by (simp_all only: unat_of_nat) simp_all
  have "(of_nat n :: u16) < 200" "\<not> (of_nat (Suc n) :: u16) > 199"
    unfolding word_less_nat_alt un using Cons.prems(3) by simp_all
  then have sta: "USART_RX_STA u < 200" "\<not> USART_RX_STA u + 1 > 199"
    using Cons.prems(2) by (simp_all add: add.commute)
  have "HAL_UART_RxCpltCallback c u = Some (u\<lparr>USART_RX_BUF := (f @ [c]) @ g', USART_RX_STA := of_nat (Suc n)\<rparr>)"
    using Cons.prems sta_bits(1-3) [OF sta(1)] sta(2) un(1) g
    by (simp add: HAL_UART_RxCpltCallback_def Let_def wr_def list_update_append add.commute)
  then show ?case
    using Cons.IH [of "u\<lparr>USART_RX_BUF := (f @ [c]) @ g', USART_RX_STA := of_nat (Suc n)\<rparr>" "Suc n" "f @ [c]" g'] Cons.prems g by simp
qed

lemma uart_whole_line:
  assumes w: "0x0D \<notin> set w" "length w < 200" and u: "USART_RX_STA u = 0" "length (USART_RX_BUF u) = 200"
  shows "\<exists>u' b. uart_line (w @ [0x0D, 0x0A]) u = Some u' \<and> reads b 0 (w @ [0]) \<and> length b = 200 \<and>
    (\<forall>call junk ovf cnt d. usmart_scan call junk ovf cnt u' d =
      map_option (\<lambda>r. (fst r, u'\<lparr>USART_RX_BUF := b, USART_RX_STA := 0\<rparr>, snd r)) (scan_line call junk ovf cnt b d))"
proof -
  let ?b = "w @ drop (length w) (USART_RX_BUF u)" and ?n = "of_nat (length w) :: u16"
  have "uart_line w u = Some (u\<lparr>USART_RX_BUF := ?b, USART_RX_STA := ?n\<rparr>)"
    using uart_chars [OF w(1), of u 0 "[]" "USART_RX_BUF u"] w(2) u by simp
  moreover have un: "unat ?n = length w" using w(2) by (simp only: unat_of_nat) simp
  then have "?n < 200" using w(2) by (simp add: word_less_nat_alt)
  note b = sta_bits [OF this]
  let ?u = "u\<lparr>USART_RX_BUF := ?b, USART_RX_STA := ?n OR 0xC000\<rparr>"
  have "uart_line [0x0D, 0x0A] (u\<lparr>USART_RX_BUF := ?b, USART_RX_STA := ?n\<rparr>) = Some ?u"
    using b(1,2,5,6) by (simp add: HAL_UART_RxCpltCallback_def or.assoc)
  ultimately have line: "uart_line (w @ [0x0D, 0x0A]) u = Some ?u" by (simp add: uart_line_append)
  let ?c = "?b[length w := 0]"
  have len: "unat (ucast ((?n OR 0xC000) AND 0x3FFF) :: u8) = length w"
    unfolding b(8) using w(2) un by (simp add: unsigned_ucast_eq take_bit_nat_eq_self)
  have wr: "wr (length w) 0 ?b = Some ?c" using w(2) u(2) by (simp add: wr_def)
  have "usmart_scan call junk ovf cnt ?u d =
      map_option (\<lambda>r. (fst r, ?u\<lparr>USART_RX_BUF := ?c, USART_RX_STA := 0\<rparr>, snd r)) (scan_line call junk ovf cnt ?c d)" for call junk ovf cnt d
    unfolding usmart_scan_def using b(7) len wr by (cases "scan_line call junk ovf cnt ?c d") (simp_all add: Let_def)
  moreover have "reads ?c 0 (w @ [0])" "length ?c = 200"
    using update_end [of w "USART_RX_BUF u" 0] w(2) u(2) by (auto simp: reads_def rd_def nth_append)
  ultimately show ?thesis using line by blast
qed

section \<open>A long name\<close>

definition plain :: "u8 \<Rightarrow> bool" where
  "plain c \<longleftrightarrow> c \<noteq> 0 \<and> c \<noteq> ch_space \<and> c \<noteq> ch_star \<and> c \<noteq> ch_open \<and> c \<noteq> ch_close \<and> c \<noteq> ch_quote"

lemma name_offset_plain:
  assumes "reads s k (w @ [0])" "\<forall>c \<in> set w. plain c"
  shows "name_offset s k res offset = Some offset"
  using assms
proof (induction w arbitrary: k res)
  case (Cons c w)
  obtain d where "rd s (Suc k) = Some d" "d \<noteq> ch_space" "d \<noteq> ch_star"
    using Cons.prems by (cases w) (auto simp: plain_def)
  then show ?case using Cons by (subst name_offset.simps) (auto simp: plain_def)
qed (subst name_offset.simps, simp)

lemma fname_loop_plain:
  assumes "reads s k (w @ [0])" "\<forall>c \<in> set w. plain c" "fover st = 0" "\<not> nchar st" "length (fname st) = MAX_FNAME_LEN"
    "MAX_FNAME_LEN \<le> fname_len st + length w"
  shows "fname_loop s k st = None \<or> (\<exists>r st'. fname_loop s k st = Some (r, st') \<and> MAX_FNAME_LEN \<le> fname_len st' \<and>
    length (fname st') = MAX_FNAME_LEN \<and> parmnum st' = parmnum st)"
  using assms
proof (induction w arbitrary: k st)
  case Nil
  then show ?case by (subst (2) fname_loop.simps) simp
next
  case (Cons c w)
  have c: "rd s k = Some c" "plain c" and w: "reads s (Suc k) (w @ [0])" "\<forall>c \<in> set w. plain c" using Cons.prems(1,2) by simp_all
  then have br: "bracket_char c st = Inr st" "c \<noteq> 0" "c \<noteq> ch_space" by (auto simp: bracket_char_def plain_def)
  show ?case
  proof (cases "fname_len st < MAX_FNAME_LEN")
    case True
    let ?st = "st\<lparr>fname := (fname st)[fname_len st := c], fname_len := fname_len st + 1\<rparr>"
    have "fname_loop s k st = fname_loop s (Suc k) ?st"
      using c(1) br Cons.prems(3,5) True by (subst fname_loop.simps) (simp add: name_char_def wr_def)
    then show ?thesis using Cons.IH [OF w, of ?st] Cons.prems(3-6) by simp
  next
    case False
    then show ?thesis using c(1) br Cons.prems(3,5) by (subst fname_loop.simps) (simp add: name_char_def wr_def)
  qed
qed

lemma get_fname_plain:
  assumes s: "reads s k (w @ [0])" "\<forall>c \<in> set w. plain c" "MAX_FNAME_LEN \<le> length w" and f: "length fnm = MAX_FNAME_LEN"
  shows "usmart_get_fname s k fnm rval = None"
proof (cases "result_flag s k rval")
  case (Some rv)
  let ?st = "\<lparr>fover = 0, nchar = False, pcnt = 0, temp = 1, fplcnt = 0, fpname = replicate 6 0, parmnum = 0, fname = fnm, fname_len = 0\<rparr>"
  have "name_offset s k 0 0 = Some 0" by (rule name_offset_plain [OF s(1,2)])
  moreover have "fname_loop s k ?st = None \<or> (\<exists>r st'. fname_loop s k ?st = Some (r, st') \<and> MAX_FNAME_LEN \<le> fname_len st' \<and>
    length (fname st') = MAX_FNAME_LEN \<and> parmnum st' = 0)"
    using fname_loop_plain [OF s(1,2), of ?st] s(3) f by simp
  ultimately show ?thesis using Some by (auto simp: usmart_get_fname_def wr_def Let_def)
qed (simp add: usmart_get_fname_def)

section \<open>Properties\<close>

text \<open>C21: \<open>usmart_str2num\<close> is total on terminated strings of less than 256 characters and equal to the reference \<open>num_spec\<close>: behind
  any signs, of which the last counts, there are decimal digits, or \<open>0X\<close> and hexadecimal digits in capitals, worth their
  value modulo \<open>2 ^ 32\<close>; any other string is refused with the code that its comment gives.\<close>

theorem usmart_str2num_spec:
  assumes "reads s k (w @ [0])" and "0 \<notin> set w" and "length w < 256"
  shows "usmart_str2num s k = Some (num_spec w)"
  by (rule usmart_str2num_eq [OF assms])

text \<open>\<open>-0X1F\<close>, and \<open>A1\<close>, which has no prefix and two characters.\<close>

theorem usmart_str2num_spec_witness:
  "usmart_str2num [0x2D, 0x30, 0x58, 0x31, 0x46, 0] 0 = Some (0, - 31) \<and> usmart_str2num [0x41, 0x31, 0] 0 = Some (2, 0)"
proof
  show "usmart_str2num [0x2D, 0x30, 0x58, 0x31, 0x46, 0] 0 = Some (0, - 31)"
    using usmart_str2num_spec [of _ 0 "[0x2D, 0x30, 0x58, 0x31, 0x46]"]
    by (simp add: rd_def num_spec_def body_spec_def is_sign_def is_digit_def letters_def sign_flag_def num_signed_def dig_def)
  show "usmart_str2num [0x41, 0x31, 0] 0 = Some (2, 0)"
    using usmart_str2num_spec [of _ 0 "[0x41, 0x31]"]
    by (simp add: rd_def num_spec_def body_spec_def is_sign_def is_digit_def letters_def)
qed

text \<open>C22: a call from its text to the called function. The line reads a name, an opening bracket and numerals with commas
  between them; the name is found in the table, whose entry declares \<open>m\<close> parameters, not more than there are numerals. With up
  to ten numerals the function of the entry is called with the first \<open>m\<close> numerals in order, each with the value of its text
  (\<open>num_spec\<close> with small letters as capitals): all of them if the entry declares as many as there are, and behind them uninitialised
  values if it declares fewer. The name, these values and, unless the entry is void, the result of the function are printed, and
  nothing of the device changes but the stored parameters, the number of the function, their count and the run time. With more than
  ten numerals the code writes the length of the eleventh behind the table of ten lengths before it looks at the count. (The
  function is a parameter that maps its arguments to its result.)\<close>

theorem usmart_call_spec:
  assumes "reads s 0 (nm @ ch_open # parm_text ws)" and "ch_open \<notin> set nm" and "0 \<notin> set nm"
    and "ws \<noteq> []" and "\<forall>w \<in> set ws. numeral_text w" and "length (parm d) = PARM_LEN"
    and name: "usmart_get_fname s 0 (replicate MAX_FNAME_LEN 0) 0 = Some (USMART_OK, nm', n, rv)"
    and found: "find_fun 0 nm' n (replicate MAX_FNAME_LEN 0) rv d = Some (Inr i)"
    and entry: "usmart_get_fname (fun_name (funs d ! unat i)) 0 (replicate MAX_FNAME_LEN 0) 0 = Some (r, name, of_nat m, rval)"
    and m: "m \<le> length ws"
  shows "if length ws \<le> 10
    then let vs = map text_value ws; t = (if ovf then 0xFFFF else 0) + ucast cnt;
        res = call (func (funs d ! unat i)) (map ANum (take m vs) @ replicate (length ws - m) AUninit)
      in \<exists>d'. scan_line call junk ovf cnt s d = Some (call_printed d name rval (take m vs) res t, d') \<and>
        dev_rest d' = dev_rest (d\<lparr>dev_id := i, pnum := of_nat (length ws), runtime := t\<rparr>)
    else scan_line call junk ovf cnt s d = None"
proof -
  let ?d = "d\<lparr>dev_id := i\<rparr>"
  have d: "length (parm ?d) = PARM_LEN" using assms(6) by simp
  have rec: "usmart_cmd_rec s 0 d = do {
      p \<leftarrow> usmart_get_fparam s 0 i ?d;
      Some (if fst p \<noteq> 0 then (fst p, snd (snd p)) else (USMART_OK, (snd (snd p))\<lparr>pnum := fst (snd p)\<rparr>)) }"
    using name found by (simp add: usmart_cmd_rec_def)
  note gp = get_fparam_ok [OF assms(1-5) d, of i]
  show ?thesis
  proof (cases "length ws \<le> 10")
    case True
    obtain d1 where d1: "usmart_get_fparam s 0 i ?d = Some (USMART_OK, of_nat (length ws), d1)" "stored d1 (map text_value ws)"
      "dev_rest d1 = dev_rest ?d"
      using gp True by auto
    let ?d2 = "d1\<lparr>pnum := of_nat (length ws)\<rparr>"
    have sel: "funs d1 = funs d" "fnum d1 = fnum d" "dev_id d1 = i" "sptype d1 = sptype d" "runtimeflag d1 = runtimeflag d"
      using arg_cong [OF d1(3), of funs] arg_cong [OF d1(3), of fnum] arg_cong [OF d1(3), of dev_id] arg_cong [OF d1(3), of sptype]
        arg_cong [OF d1(3), of runtimeflag] by (simp_all add: dev_rest_def)
    have ix: "i < fnum d" "unat i < length (funs d)" using find_fun_index [OF found] by simp_all
    have st: "stored ?d2 (map text_value ws)" using d1(2) by (simp add: stored_pnum)
    have h: "dev_id ?d2 < fnum ?d2" "unat (dev_id ?d2) < length (funs ?d2)" "pnum ?d2 = of_nat (length (map text_value ws))"
      "usmart_get_fname (fun_name (funs ?d2 ! unat (dev_id ?d2))) 0 (replicate MAX_FNAME_LEN 0) 0 = Some (r, name, of_nat m, rval)"
      "m \<le> length (map text_value ws)"
      using ix entry m by (simp_all add: sel)
    note ex = usmart_exe_stored [OF st h, where call = call and junk = junk and ovf = ovf and cnt = cnt]
    have line: "scan_line call junk ovf cnt s d = usmart_exe call junk ovf cnt ?d2"
      using d1(1) by (simp add: scan_line_def rec)
    have pr: "print_num ?d2 = print_num d" by (simp add: print_num_def sel fun_eq_iff)
    have "dev_rest (?d2\<lparr>runtime := t\<rparr>) = dev_rest (d\<lparr>dev_id := i, pnum := of_nat (length ws), runtime := t\<rparr>)" for t
      using d1(3) by (simp only: dev_rest_upd)
    then show ?thesis
      unfolding if_P [OF True] Let_def line call_printed_def
      using ex m by (simp add: Let_def pr sel)
  next
    case False
    then have "usmart_get_fparam s 0 i ?d = None" using gp by simp
    then show ?thesis unfolding if_not_P [OF False] by (simp add: scan_line_def rec)
  qed
qed

definition sample_dev :: usmart_dev where
  "sample_dev = \<lparr>funs = [], fnum = 0, pnum = 0, dev_id = 0, sptype = 1, parmtype = 0, plentbl = replicate 10 0, parm = replicate 200 0,
     runtimeflag = 0, runtime = 0\<rparr>"

text \<open>A table with the one function \<open>int f(a,b)\<close>, the call \<open>f(42,0xb)\<close>, and a call with eleven parameters.\<close>

definition sample_call_dev :: usmart_dev where
  "sample_call_dev = sample_dev\<lparr>funs := [\<lparr>func = 0x8000100, fun_name = [0x69, 0x6E, 0x74, 0x20, 0x66, 0x28, 0x61, 0x2C, 0x62, 0x29, 0]\<rparr>],
     fnum := 1\<rparr>"

definition sample_callee :: "u32 \<Rightarrow> usmart_arg list \<Rightarrow> u32" where
  "sample_callee f args = (case args of [ANum a, ANum b] \<Rightarrow> f + a + b | _ \<Rightarrow> 0)"

lemma sample_names:
  "usmart_get_fname [0x66, 0x28, 0x34, 0x32, 0x2C, 0x30, 0x78, 0x62, 0x29, 0] 0 (replicate MAX_FNAME_LEN 0) 0 =
     Some (USMART_OK, 0x66 # replicate 29 0, 2, 1)"
  "usmart_get_fname [0x69, 0x6E, 0x74, 0x20, 0x66, 0x28, 0x61, 0x2C, 0x62, 0x29, 0] 0 (replicate MAX_FNAME_LEN 0) 0 =
     Some (USMART_OK, 0x66 # replicate 29 0, 2, 1)"
  "usmart_get_fname (0x66 # ch_open # parm_text (replicate 11 [0x31])) 0 (replicate MAX_FNAME_LEN 0) 0 =
     Some (USMART_OK, 0x66 # replicate 29 0, 11, 1)"
  "find_fun 0 (0x66 # replicate 29 0) 2 (replicate MAX_FNAME_LEN 0) 1 sample_call_dev = Some (Inr 0)"
  "find_fun 0 (0x66 # replicate 29 0) 11 (replicate MAX_FNAME_LEN 0) 1 sample_call_dev = Some (Inr 0)"
  by code_simp+

theorem usmart_call_spec_witness:
  "(\<exists>d'. scan_line sample_callee 0 False 7 [0x66, 0x28, 0x34, 0x32, 0x2C, 0x30, 0x78, 0x62, 0x29, 0] sample_call_dev =
      Some ([PText (0x66 # replicate 29 0), PHex 42, PHex 11, PHex (0x8000100 + 42 + 11)], d')) \<and>
   scan_line sample_callee 0 False 7 (0x66 # ch_open # parm_text (replicate 11 [0x31])) sample_call_dev = None"
proof
  have n: "numeral_text [0x34, 0x32]" "numeral_text [0x30, 0x78, 0x62]" "text_value [0x34, 0x32] = 42" "text_value [0x30, 0x78, 0x62] = 11"
    by (simp_all add: numeral_text_def text_value_def num_char_def up_def num_spec_def body_spec_def is_sign_def is_digit_def letters_def
        sign_flag_def num_signed_def dig_def)
  have dev: "length (parm sample_call_dev) = PARM_LEN" "func (funs sample_call_dev ! 0) = 0x8000100"
    "fun_name (funs sample_call_dev ! unat 0) = [0x69, 0x6E, 0x74, 0x20, 0x66, 0x28, 0x61, 0x2C, 0x62, 0x29, 0]"
    "sptype sample_call_dev = 1" "runtimeflag sample_call_dev = 0"
    by (simp_all add: sample_call_dev_def sample_dev_def)
  have entry: "usmart_get_fname (fun_name (funs sample_call_dev ! unat 0)) 0 (replicate MAX_FNAME_LEN 0) 0 =
      Some (USMART_OK, 0x66 # replicate 29 0, of_nat 2, 1)"
    unfolding dev(3) sample_names(2) by simp
  let ?s = "[0x66, 0x28, 0x34, 0x32, 0x2C, 0x30, 0x78, 0x62, 0x29, 0] :: u8 list"
  have r: "reads ?s 0 ([0x66] @ ch_open # parm_text [[0x34, 0x32], [0x30, 0x78, 0x62]])" by (simp add: rd_def)
  show "\<exists>d'. scan_line sample_callee 0 False 7 ?s sample_call_dev =
      Some ([PText (0x66 # replicate 29 0), PHex 42, PHex 11, PHex (0x8000100 + 42 + 11)], d')"
    using usmart_call_spec [OF r _ _ _ _ dev(1) sample_names(1,4) entry, of False 7 sample_callee 0] n
    by (auto simp: Let_def call_printed_def dev print_num_def sample_callee_def)
  let ?t = "0x66 # ch_open # parm_text (replicate 11 [0x31])"
  have "numeral_text [0x31]"
    by (simp add: numeral_text_def num_char_def up_def num_spec_def body_spec_def is_sign_def is_digit_def letters_def)
  moreover have "reads ?t 0 ([0x66] @ ch_open # parm_text (replicate 11 [0x31]))" using reads_exact [of ?t] by (simp del: reads_Cons)
  ultimately show "scan_line sample_callee 0 False 7 ?t sample_call_dev = None"
    using usmart_call_spec [OF _ _ _ _ _ dev(1) sample_names(3,5) entry, of "[0x66]" "replicate 11 [0x31]" False 7 sample_callee 0] by simp
qed

text \<open>C23: a line on the serial port. From the empty state, any characters but the carriage return, less than 200 of them, and
  then carriage return and line feed: every write is inside the buffer, and the next scan handles exactly these characters as a
  terminated string and empties the state.\<close>

theorem usmart_scan_line:
  assumes "0x0D \<notin> set w" and "length w < 200" and "USART_RX_STA u = 0" and "length (USART_RX_BUF u) = 200"
  shows "\<exists>u' b. uart_line (w @ [0x0D, 0x0A]) u = Some u' \<and> reads b 0 (w @ [0]) \<and> length b = 200 \<and>
    (\<forall>call junk ovf cnt d. usmart_scan call junk ovf cnt u' d =
      map_option (\<lambda>r. (fst r, u'\<lparr>USART_RX_BUF := b, USART_RX_STA := 0\<rparr>, snd r)) (scan_line call junk ovf cnt b d))"
  by (rule uart_whole_line [OF assms])

theorem usmart_scan_line_witness:
  "\<exists>u'. uart_line [0x64, 0x65, 0x63, 0x0D, 0x0A] \<lparr>USART_RX_BUF = replicate 200 0, USART_RX_STA = 0\<rparr> = Some u'"
  using usmart_scan_line [of "[0x64, 0x65, 0x63]" "\<lparr>USART_RX_BUF = replicate 200 0, USART_RX_STA = 0\<rparr>"] by auto

text \<open>C24: the parser of the name does not know the size of the buffer it fills: a line that is one word of 30 or more characters
  makes \<open>usmart_cmd_rec\<close> write behind its local buffer of 30, whatever the table of functions is.\<close>

theorem usmart_cmd_rec_overrun:
  assumes "reads s k (w @ [0])" and "\<forall>c \<in> set w. plain c" and "MAX_FNAME_LEN \<le> length w"
  shows "usmart_cmd_rec s k d = None"
  using get_fname_plain [OF assms, of "replicate MAX_FNAME_LEN 0" 0] by (simp add: usmart_cmd_rec_def)

theorem usmart_cmd_rec_overrun_witness: "usmart_cmd_rec (replicate 30 0x61 @ [0]) 0 sample_dev = None"
  by (rule usmart_cmd_rec_overrun [OF reads_exact]) (simp_all add: plain_def)

end
