(* ===== verification/Spec2Isabelle.thy ===== *)
theory Spec2Isabelle
  imports OS_System OS_Flag_Proofs OS_Mutex_Proofs OS_Multi OS_Mem_Proofs OS_Tmr_Services Mem_Alloc_Proofs Lwip_Timers_Proofs Lwip_Mem_Services Usmart_Proofs
begin

text \<open>
  A model of the software below the application tasks of this STM32F7 firmware: the real-time kernel
  uC/OS-II V2.93 as it is configured and built here (\<^verbatim>\<open>src/ucos\<close>), the heap (\<^verbatim>\<open>src/malloc\<close>), the port of
  lwIP to the kernel (\<^verbatim>\<open>src/lwip/arch\<close>), lwIP's timeouts and its heap, and the command shell on the serial port
  (\<^verbatim>\<open>src/usmart\<close>), with the theorems that make them correct and
  those that show where they are not.

  \<^bold>\<open>The program.\<close> The firmware runs its tasks (\<^verbatim>\<open>src/app/main.c\<close>: start, LCD, network, WiFi) on the
  kernel. The kernel keeps one control block per task, a ready table of 64 priorities (a group byte
  and eight rows), and one bitmap of the same shape per event for the tasks that wait on it.
  Services change these tables inside critical sections and call \<open>OS_Sched\<close>, which runs the most
  urgent ready task; interrupts call \<open>OSIntEnter\<close> and \<open>OSIntExit\<close> and reschedule on the way out;
  the tick interrupt counts delays and timeouts down. \<open>mymalloc\<close> hands out runs of 64-byte blocks of
  three pools. The TCP/IP stack sees the kernel through \<^verbatim>\<open>sys_arch.c\<close>: its mailboxes are kernel queues,
  its semaphores kernel semaphores, its waiting times ticks; its thread sleeps in
  \<open>sys_timeouts_mbox_fetch\<close> until a message comes or the first entry of its list of timeouts is due.
  The shell takes a line from the serial port's receiver, parses it as a call of a function of its
  table, stores the parameters and makes the call, or executes it as a command of its own.

  \<^bold>\<open>Theories and code.\<close>
  \<^item> \<open>OS_Prelude\<close>: word types of \<^verbatim>\<open>PORT/os_cpu.h\<close>, the option monad, bits of bytes, row and column of a
    priority, the rule collections.
  \<^item> \<open>OS_Bitmap\<close>: the table \<open>OSUnMapTbl\<close> and the 64-bit bitmaps (locale \<open>prio_set\<close>: a bitmap is a set
    of priorities, the lookup is its minimum).
  \<^item> \<open>OS_State\<close>: the records and codes of \<^verbatim>\<open>CORE/ucos_ii.h\<close> and \<^verbatim>\<open>CONFIG/os_cfg.h\<close>, the globals as one
    record \<open>os\<close>.
  \<^item> \<open>OS_Core\<close>: \<^verbatim>\<open>CORE/os_core.c\<close> and the context switch of \<^verbatim>\<open>PORT/os_cpu_a.asm\<close>; \<open>OS_Multi\<close>:
    \<open>OSEventPendMulti\<close>; \<open>OS_Init\<close>: \<open>OSInit\<close>, the idle and the statistics task.
  \<^item> \<open>OS_Sem\<close>, \<open>OS_Mbox\<close>, \<open>OS_Q\<close>, \<open>OS_Mutex\<close>, \<open>OS_Flag\<close>, \<open>OS_Task\<close>, \<open>OS_Time\<close>, \<open>OS_Mem\<close>, \<open>OS_Tmr\<close>: the files of the
    same names under \<^verbatim>\<open>CORE\<close>; \<open>OSTaskStkInit\<close> is in \<^verbatim>\<open>PORT/os_cpu_c.c\<close>. The configuration switches
    \<^verbatim>\<open>os_mem.c\<close> and \<^verbatim>\<open>os_tmr.c\<close> off; they are modelled as they are built with their switch on, the
    argument checks on or off (the parameter \<open>chk\<close>).
  \<^item> \<open>Mem_Alloc\<close>: \<^verbatim>\<open>src/malloc/malloc.c\<close>; \<open>Sys_Arch\<close>: \<^verbatim>\<open>src/lwip/arch/sys_arch.c\<close>; \<open>Lwip_Timers\<close>:
    \<^verbatim>\<open>src/lwip/lwip-1.4.1/src/core/timers.c\<close> with the pool of timeout nodes of \<^verbatim>\<open>memp.c\<close>; \<open>Lwip_Mem\<close>:
    \<^verbatim>\<open>src/lwip/lwip-1.4.1/src/core/mem.c\<close>, the heap the stack takes its packets from; \<open>Usmart\<close>:
    \<^verbatim>\<open>src/usmart\<close> and the receiver of \<^verbatim>\<open>src/system/usart/usart.c\<close>.
  \<^item> \<open>OS_Inv\<close>, \<open>OS_Core_Proofs\<close>, \<open>OS_Scheduler\<close>, \<open>OS_Kernel\<close>: the invariant \<open>kernel_ok\<close> and what the core
    routines do to it; \<open>OS_Q_Ring\<close>, \<open>OS_Q_Proofs\<close>, \<open>OS_Time_Proofs\<close>, \<open>OS_Task_Proofs\<close>, \<open>OS_Create\<close>,
    \<open>OS_Init_Proofs\<close>: the services; \<open>OS_Mutex_Proofs\<close>: the priority ceiling protocol; \<open>OS_Dlist\<close>: doubly
    linked lists; \<open>OS_Flag_List\<close>, \<open>OS_Flag_Proofs\<close>: the event flags and their wait lists; \<open>OS_Mem_Proofs\<close>: the
    memory partitions; \<open>OS_Tmr_Proofs\<close>, \<open>OS_Tmr_Services\<close>: the timer wheel and its services; \<open>OS_Frame\<close>, \<open>OS_Services\<close>, \<open>OS_System\<close>: the composition; \<open>Mem_Alloc_Proofs\<close>,
    \<open>Sys_Arch_Proofs\<close>, \<open>Lwip_Timers_Proofs\<close>, \<open>Lwip_Mem_Proofs\<close>, \<open>Lwip_Mem_Services\<close>, \<open>Usmart_Proofs\<close>: the components
    above the kernel; \<open>OS_Running\<close>: what they need of a running kernel to set themselves up.
  \<^item> \<open>OS_Sample\<close>: a concrete reachable-looking state on which the witnesses evaluate.

  \<^bold>\<open>How the state corresponds.\<close> A pointer to a control block is the index of its entry in the static
  table; an operation that follows a null or foreign pointer, or indexes outside a table, is \<open>None\<close>.
  C integers are words of their width, so every wrap-around is the code's. A blocking call is two
  definitions: the part up to the call of \<open>OS_Sched\<close>, which answers \<open>Blocks\<close> or \<open>Returns\<close>, and the
  part that runs when the task has the processor again (\<open>..._resume\<close>).

  \<^bold>\<open>What is shown.\<close> \<open>kernel_ok s t\<close> says that the ready table holds exactly the tasks that may run,
  that wait lists, task list, free lists and queue blocks are consistent and disjoint, and that \<open>t\<close>
  is the current task. \<open>OSInit\<close> and \<open>OSStart\<close> establish it. \<open>reachable\<close> closes it under these steps of a running system: a
  task, or an interrupt, calls a \<open>service\<close> (all of the semaphores, mailboxes and queues but the queries and the posts
  that ask for no reschedule, delays and the time, creation, suspension and resumption of tasks, the lock of the scheduler), a task
  finishes a blocked call, an interrupt is entered and left, and the tick. All these keep the invariant and never fault, and in every
  state they reach with the scheduler unlocked the most urgent ready task runs. Mutexes, event flags, \<open>OSEventPendMulti\<close>,
  \<open>OSTaskDel\<close> and \<open>OSTaskChangePrio\<close> are no steps of it. Mutexes and
  event flags have their own invariants (\<open>mutex_free\<close>, \<open>mutex_owned\<close>; \<open>flag_lists\<close>, the wait list of a
  group is exactly its waiters) and every branch of their services is shown from \<open>kernel_ok\<close>: an owner
  is raised to the ceiling and back, a post of flags readies exactly the satisfied waiters.
  Memory partitions: a block that is given out shares no byte with any other, whatever the holders write
  into theirs. Timers: a timer fires at exactly the turn of the timer task its delay leads to, and no other, whatever the other timers do
  (\<open>mem_reach\<close>, \<open>tmr_reach\<close> and \<open>lheap_reach\<close> close these components and lwIP's heap under all their services).
  The heap: an allocation is a run of free blocks, found exactly if there is one, disjoint from the
  others, and freed exactly. The port: what is posted to a mailbox is what is fetched, with the
  time the code reports; a post to a full mailbox spins, and under clock ticks alone the caller keeps the processor. The timeouts: the list of differences refines a list of due times, its nodes
  and the free nodes share out the pool, the periodic timers of the stack are never lost, and waiting for a message always returns or blocks. lwIP's heap: the array
  of bytes refines a list of blocks on which allocation is first fit and freeing merges; no call touches a byte of a
  block that somebody holds, and nothing is lost to fragmentation once all is returned. The shell:
  the number parser is equal to a reference on every string, a call typed on the line reaches the function of the table with the parameters as
  they were written (\<open>usmart_call_spec\<close>), a received line is the string that is parsed, and where it writes past its buffers.

  \<^bold>\<open>Termination and bounds.\<close> The loops over linked lists are \<open>partial_function (option)\<close>: the walk of
  the tick, the walk that readies all waiters, the search for a free stack, the walk of a spoke of the timer wheel, the search of lwIP's heap. That they return is part
  of the theorems (\<open>reachable_no_fault\<close>, \<open>OSTaskStkChk_spec\<close>, \<open>OSFlagPost_spec\<close>, \<open>my_mem_malloc_spec\<close>,
  \<open>sys_timeout_spec\<close>, \<open>periodic_timers_live\<close>, \<open>mem_malloc_spec\<close>, \<open>OSTmr_Task_update_spec\<close>). The endless loops of the idle, statistics and timer
  tasks are modelled by their turns (\<open>OS_TaskStat_step\<close>, \<open>OSTmr_Task_update\<close>). The one loop with fuel is that of \<open>sys_mbox_post\<close>, which may spin for ever:
  \<open>post_loop n\<close> is its first \<open>n\<close> attempts, and \<open>sys_mbox_post_spec\<close> says after how many it returns, or that no
  number is enough. Table sizes are those of the configuration: 64 priorities, 22 control blocks, 30
  events, 5 flag groups, 10 queues, 5 partitions, 16 timers on 7 spokes.

  \<^bold>\<open>Assumptions.\<close> A service is one atomic step with its call of the scheduler, although the code opens
  interrupts for a moment between its last critical section and \<open>OS_Sched\<close>; an interrupt that falls
  there is the same as one that falls just before or after the call. So is \<open>OSTimeTick\<close>, which in the code opens interrupts between two control
  blocks, and \<open>sys_arch_mbox_fetch\<close> when it does not block: a tick between its two readings of the time is not modelled. The work that lwIP's
  heap does between taking and giving back its mutex is one step (\<open>run_locked\<close>), also where the wait fails and the code goes on: that no other task
  works on the heap meanwhile is assumed. The scheduler-lock and interrupt
  counters are assumed not to reach 255, where the code saturates. Hypotheses of the component
  theorems (\<open>calls_ok\<close>, \<open>may_block\<close>) are the documented obligations of the callers: a blocking call is
  made by a task other than the idle task, on an object that exists. The callbacks of timers are a
  parameter; the theorems on timers are for callbacks that return, may call the kernel as long as it stays consistent and the scheduler locked, and make no
  timer calls (\<open>callbacks_ok\<close>), and for calls at task level with the scheduler unlocked. The protocol timers and the application's handlers
  behind lwIP's timeouts are a parameter; the theorem on the periodic timers (\<open>ops_ok\<close>) assumes that \<open>ip_reass_tmr\<close> and \<open>etharp_tmr\<close> return
  and leave the timeouts alone, and that \<open>tcp_tmr\<close> and the handlers return after setting and cancelling timeouts of their own, none of them with delay 0.

  \<^bold>\<open>Not modelled.\<close> The saved registers of a context switch; the profiling hooks and the trace macros
  (empty or outside the state); the argument checks outside \<^verbatim>\<open>os_mem.c\<close> and \<^verbatim>\<open>os_tmr.c\<close> (\<open>OS_ARG_CHK_EN\<close> is 0);
  the busy wait \<open>sys_msleep\<close>; the pools of \<^verbatim>\<open>memp.c\<close>
  other than the one of the timeouts. The protocol timers that lwIP's handlers call (\<open>tcp_tmr\<close>,
  \<open>etharp_tmr\<close> and so on) are a parameter, as are the functions that the shell calls; its timer, its fixed texts and its functions that
  read and write raw addresses are left out. \<open>OSTaskDel\<close>, \<open>OSTaskChangePrio\<close> and \<open>OSEventPendMulti\<close> are modelled;
  their effect on the invariant is not shown. The drivers, the rest of the TCP/IP stack and the board support are
  vendored or register access.

\<close>

end
